(* ===== verification/Prelude.thy ===== *)
theory Prelude
  imports Main "HOL-Library.Word" "HOL-Library.Monad_Syntax"
begin

text \<open>
  Shared vocabulary of the development: machine types, C strings as byte lists, checked reads
  and writes of C arrays, the in-place reversal loop several number printers use, and the
  collections of rewrite rules the component theories extend.

  Conventions used by every component.
  \<^item> A C object (an array, a struct field of type \<open>char[n]\<close>) is a list of bytes of the
    object's size; a pointer into it is an index, or the suffix of the list it points at.
  \<^item> The result type is \<open>'a option\<close> wherever the C code can leave its defined behaviour:
    \<open>None\<close> means an out-of-bounds access, a division by zero or a halt loop that never
    returns; \<open>Some r\<close> means the function returned \<open>r\<close>. Error codes of the
    program itself (\<open>-1\<close>, \<open>false\<close>, \<open>NULL\<close>) are ordinary values of \<open>r\<close>.
  \<^item> \<open>size_t\<close> counters that stay below the size of an object are \<open>nat\<close>; where a sum
    may pass \<open>2 ^ 64\<close> the reduction is written out; flags, page-table entries and
    bytes are words of their width.
\<close>

unbundle bit_operations_syntax

type_synonym u8 = "8 word"
type_synonym u16 = "16 word"
type_synonym u32 = "32 word"
type_synonym u64 = "64 word"
type_synonym bytes = "u8 list"

named_theorems cstring_spec \<open>results of the string routines on valid arguments\<close>
named_theorems word_nat \<open>moving between machine words and natural numbers\<close>
named_theorems page_table \<open>entries of page tables after a write\<close>

text \<open>\<open>size_t\<close> arithmetic on natural numbers.\<close>

definition size_add :: "nat \<Rightarrow> nat \<Rightarrow> nat" where
  "size_add a b = (a + b) mod 2 ^ 64"

lemma size_add_small [simp]: "a + b < 2 ^ 64 \<Longrightarrow> size_add a b = a + b"
  by (simp add: size_add_def)

definition size_sub :: "nat \<Rightarrow> nat \<Rightarrow> nat" where
  "size_sub a b = (a + 2 ^ 64 - b) mod 2 ^ 64"

lemma size_sub_small [simp]: "b \<le> a \<Longrightarrow> a < 2 ^ 64 \<Longrightarrow> size_sub a b = a - b"
  using mod_add_self2 [of "a - b" "2 ^ 64"] by (simp add: size_sub_def)

subsection \<open>Loops over a range with early exit on undefined behaviour\<close>

text \<open>A \<open>for\<close> loop whose body may leave the defined behaviour.\<close>

fun for_each :: "('a \<Rightarrow> 's \<Rightarrow> 's option) \<Rightarrow> 'a list \<Rightarrow> 's \<Rightarrow> 's option" where
  "for_each body [] s = Some s"
| "for_each body (x # xs) s = do { s' \<leftarrow> body x s; for_each body xs s' }"

lemma for_each_append:
  "for_each body (xs @ ys) s = do { s' \<leftarrow> for_each body xs s; for_each body ys s' }"
  by (induction xs arbitrary: s) (auto split: Option.bind_split)

text \<open>The invariant rule of the loop: a body that keeps \<open>I\<close> from step to step runs to the end.\<close>

lemma for_each_invariant:
  assumes "\<And>done x rest s. xs = done @ x # rest \<Longrightarrow> I done s \<Longrightarrow>
             \<exists>s'. body x s = Some s' \<and> I (done @ [x]) s'"
    and "I [] s"
  shows "\<exists>s'. for_each body xs s = Some s' \<and> I xs s'"
  using assms
proof (induction xs rule: rev_induct)
  case Nil
  then show ?case by simp
next
  case (snoc x xs)
  have "\<exists>s'. for_each body xs s = Some s' \<and> I xs s'"
  proof (rule snoc.IH)
    fix ds y rest t
    assume "xs = ds @ y # rest" and "I ds t"
    then show "\<exists>s'. body y t = Some s' \<and> I (ds @ [y]) s'"
      using snoc.prems(1) [of ds y "rest @ [x]"] by simp
  qed (rule snoc.prems(2))
  then obtain s1 where "for_each body xs s = Some s1" and "I xs s1" by blast
  moreover from snoc.prems(1) [of xs x "[]"] \<open>I xs s1\<close>
  obtain s2 where "body x s1 = Some s2" and "I (xs @ [x]) s2" by auto
  ultimately show ?case by (simp add: for_each_append)
qed

subsection \<open>Characters and C strings\<close>

text \<open>The bytes of a string literal, without the terminating NUL.\<close>

definition str :: "string \<Rightarrow> bytes" where
  "str s = map of_char s"

lemma str_Nil [simp]: "str [] = []"
  and str_Cons [simp]: "str (c # s) = of_char c # str s"
  and length_str [simp]: "length (str s) = length s"
  and str_append: "str (s @ t) = str s @ str t"
  by (simp_all add: str_def)

text \<open>A literal as an object: its bytes and the NUL.\<close>

definition lit :: "string \<Rightarrow> bytes" where
  "lit s = str s @ [0]"

text \<open>The string a \<open>char\<close> array holds: the bytes before its first NUL.\<close>

definition cstr :: "bytes \<Rightarrow> bytes" where
  "cstr s = takeWhile (\<lambda>b. b \<noteq> 0) s"

abbreviation terminated :: "bytes \<Rightarrow> bool" where
  "terminated s \<equiv> 0 \<in> set s"

lemma cstr_Nil [simp]: "cstr [] = []"
  and cstr_Cons: "cstr (c # s) = (if c = 0 then [] else c # cstr s)"
  by (simp_all add: cstr_def)

lemma cstr_Cons_zero [simp]: "cstr (0 # s) = []"
  and cstr_Cons_nz [simp]: "c \<noteq> 0 \<Longrightarrow> cstr (c # s) = c # cstr s"
  by (simp_all add: cstr_Cons)

lemma zero_notin_cstr [simp]: "0 \<notin> set (cstr s)"
  by (auto simp: cstr_def dest: set_takeWhileD)

lemma cstr_append_zero [simp]: "0 \<notin> set s \<Longrightarrow> cstr (s @ 0 # t) = s"
  by (induction s) (auto simp: cstr_Cons)

lemma cstr_no_zero: "0 \<notin> set s \<Longrightarrow> cstr s = s"
  by (induction s) (auto simp: cstr_Cons)

lemma cstr_idem [simp]: "cstr (cstr s) = cstr s"
  by (simp add: cstr_no_zero)

lemma length_cstr_le: "length (cstr s) \<le> length s"
  by (simp add: cstr_def length_takeWhile_le)

lemma length_cstr_less [simp]: "terminated s \<Longrightarrow> length (cstr s) < length s"
  by (induction s) (auto simp: cstr_Cons)

lemma cstr_split:
  assumes "terminated s"
  obtains t where "s = cstr s @ 0 # t"
proof -
  have "\<exists>t. s = cstr s @ 0 # t"
    using assms by (induction s) (auto simp: cstr_Cons)
  then show ?thesis using that by blast
qed

lemma cstr_take_zero: "cstr (take n s @ 0 # t) = take n (cstr s)"
  by (induction s arbitrary: n) (auto simp: cstr_Cons take_Cons split: nat.splits)

lemma cstr_append_left: "0 \<notin> set s \<Longrightarrow> cstr (s @ t) = s @ cstr t"
  by (induction s) (auto simp: cstr_Cons)

lemma cstr_replicate_zero [simp]: "cstr (replicate n 0) = []"
  by (cases n) simp_all

lemma nth_cstr: "i < length (cstr s) \<Longrightarrow> cstr s ! i = s ! i"
  by (simp add: cstr_def takeWhile_nth)

lemma nth_length_cstr: "terminated s \<Longrightarrow> s ! length (cstr s) = 0"
  by (metis cstr_split nth_append_length)

lemma take_length_cstr: "take (length (cstr s)) s = cstr s"
  by (induction s) (simp_all add: cstr_Cons)

lemma terminated_update [simp]: "i < length s \<Longrightarrow> terminated (s[i := 0])"
  by (metis set_update_memI)

subsection \<open>Checked reads and writes of arrays\<close>

definition rd :: "'a list \<Rightarrow> nat \<Rightarrow> 'a option" where
  "rd a i = (if i < length a then Some (a ! i) else None)"

definition wr :: "'a list \<Rightarrow> nat \<Rightarrow> 'a \<Rightarrow> 'a list option" where
  "wr a i v = (if i < length a then Some (a[i := v]) else None)"

lemma rd_Some [simp]: "i < length a \<Longrightarrow> rd a i = Some (a ! i)"
  and rd_None [simp]: "\<not> i < length a \<Longrightarrow> rd a i = None"
  and wr_Some [simp]: "i < length a \<Longrightarrow> wr a i v = Some (a[i := v])"
  and wr_None [simp]: "\<not> i < length a \<Longrightarrow> wr a i v = None"
  by (simp_all add: rd_def wr_def)

lemma wr_SomeD: "wr a i v = Some b \<Longrightarrow> i < length a \<and> b = a[i := v]"
  by (simp add: wr_def split: if_splits)

lemma rd_SomeD: "rd a i = Some v \<Longrightarrow> i < length a \<and> v = a ! i"
  by (simp add: rd_def split: if_splits)

subsection \<open>Reversal of a buffer by swapping its ends\<close>

text \<open>
  The loop \<open>while (start < end) { swap; start++; end--; }\<close> that the kernel writes out in
  \<open>uitoa\<close>, \<open>my_itoa\<close>, \<open>my_itohex\<close>, \<open>fs_init\<close> and \<open>ext2_init\<close>.
\<close>

function swap_ends :: "'a list \<Rightarrow> nat \<Rightarrow> nat \<Rightarrow> 'a list option" where
  "swap_ends b i j =
     (if i < j then do { x \<leftarrow> rd b i; y \<leftarrow> rd b j; swap_ends (b[i := y, j := x]) (i + 1) (j - 1) }
      else Some b)"
  by pat_completeness auto
termination
  by (relation "measure (\<lambda>(b, i, j). j - i)") auto

declare swap_ends.simps [simp del]

lemma swap_ends_rev:
  "swap_ends (p @ xs @ q) (length p) (length p + length xs - 1) = Some (p @ rev xs @ q)"
proof (induction xs arbitrary: p q rule: length_induct)
  case (1 xs)
  show ?case
  proof (cases "length xs \<le> 1")
    case True
    then have "rev xs = xs" by (cases xs rule: list.exhaust; simp)
    with True show ?thesis by (subst swap_ends.simps) auto
  next
    case False
    then obtain a ys b where xs: "xs = a # ys @ [b]"
      by (cases xs; cases "tl xs" rule: rev_cases) auto
    have step: "(p @ xs @ q)[length p := b, length p + length xs - 1 := a]
        = (p @ [b]) @ ys @ (a # q)"
      by (simp add: xs list_update_append nth_append)
    have rds: "rd (p @ xs @ q) (length p) = Some a"
      "rd (p @ xs @ q) (length p + length xs - 1) = Some b"
      by (simp_all add: xs nth_append)
    have IH: "swap_ends ((p @ [b]) @ ys @ (a # q)) (length (p @ [b]))
        (length (p @ [b]) + length ys - 1) = Some ((p @ [b]) @ rev ys @ (a # q))"
      using 1 [rule_format, of ys "p @ [b]" "a # q"] by (simp add: xs)
    show ?thesis
    proof (cases "ys = []")
      case True
      then show ?thesis
        using rds step by (subst swap_ends.simps) (simp add: xs swap_ends.simps)
    next
      case False
      then have idx: "length p + length xs - 1 - 1 = length (p @ [b]) + length ys - 1"
        by (simp add: xs)
      have "swap_ends (p @ xs @ q) (length p) (length p + length xs - 1)
          = swap_ends ((p @ [b]) @ ys @ (a # q)) (length p + 1) (length p + length xs - 1 - 1)"
        using rds step by (subst swap_ends.simps) (simp add: xs)
      with IH idx show ?thesis by (simp add: xs)
    qed
  qed
qed

end
