(* ===== verification/Fb.thy ===== *)
theory Fb
  imports Prelude
begin

text \<open>
  The framebuffer back end of the terminal (\<open>kernel/src/src/flanterm_fb_backend.c\<close>): the grid
  of characters on the screen, the queue of characters to redraw, the cursor, the colours and
  the four routines that plot a glyph.

  The structures are declared in the headers of the \<open>flanterm\<close> package, which is a submodule and
  not part of the repository; the records below have the fields the C file uses, under their
  names. Indices into arrays that exist are \<open>nat\<close> (they stay below the size of an object in
  memory); where the C code relies on the wrap-around of \<open>size_t\<close> it is written out. The pointer
  table \<open>map\<close> is \<open>cell_map\<close>: \<open>Some k\<close> is a pointer to \<open>queue[k]\<close>, \<open>None\<close> is \<open>NULL\<close>. The
  fields \<open>cols\<close> to \<open>cursor_enabled\<close> belong to \<open>struct flanterm_context\<close>, which the structure of
  the back end begins with.
\<close>

section \<open>State\<close>

record fb_char =
  ch_c :: nat
  ch_fg :: u32
  ch_bg :: u32

record fb_queue_item =
  item_x :: nat
  item_y :: nat
  item_c :: fb_char

datatype plot_fn = Scaled_canvas | Scaled_uncanvas | Unscaled_canvas | Unscaled_uncanvas

text \<open>What does not change after the start, and the pixels.\<close>

record fb_display =
  framebuffer :: "u32 list"
  pitch :: nat
  width :: nat
  height :: nat
  canvas :: "u32 list option"
  font_width :: nat
  font_height :: nat
  font_scale_x :: nat
  font_scale_y :: nat
  glyph_width :: nat
  glyph_height :: nat
  offset_x :: nat
  offset_y :: nat
  font_bool :: "bool list"
  plot_char_fn :: plot_fn

record fb_palette =
  red_mask_shift :: nat
  green_mask_shift :: nat
  blue_mask_shift :: nat
  ansi_colours :: "u32 list"
  ansi_bright_colours :: "u32 list"
  default_bg :: u32
  default_fg :: u32
  default_bg_bright :: u32
  default_fg_bright :: u32

record fb_context =
  cols :: nat
  rows :: nat
  scroll_top_margin :: nat
  scroll_bottom_margin :: nat
  scroll_enabled :: bool
  cursor_enabled :: bool
  display :: fb_display
  palette :: fb_palette
  text_fg :: u32
  text_bg :: u32
  cursor_x :: nat
  cursor_y :: nat
  saved_state_text_fg :: u32
  saved_state_text_bg :: u32
  saved_state_cursor_x :: nat
  saved_state_cursor_y :: nat
  old_cursor_x :: nat
  old_cursor_y :: nat
  grid :: "fb_char list"
  queue :: "fb_queue_item list"
  queue_i :: nat
  cell_map :: "nat option list"

section \<open>Colours\<close>

text \<open>A shift by the width of the operand or more is undefined.\<close>

definition convert_colour :: "u32 \<Rightarrow> fb_palette \<Rightarrow> u32 option" where
  "convert_colour colour p =
     (let r = drop_bit 16 colour AND 0xFF;
          g = drop_bit 8 colour AND 0xFF;
          b = colour AND 0xFF
      in if red_mask_shift p < 32 \<and> green_mask_shift p < 32 \<and> blue_mask_shift p < 32
         then Some (push_bit (red_mask_shift p) r OR push_bit (green_mask_shift p) g
                    OR push_bit (blue_mask_shift p) b)
         else None)"

definition flanterm_fb_save_state :: "fb_context \<Rightarrow> fb_context" where
  "flanterm_fb_save_state s = s\<lparr>saved_state_text_fg := text_fg s, saved_state_text_bg := text_bg s,
     saved_state_cursor_x := cursor_x s, saved_state_cursor_y := cursor_y s\<rparr>"

definition flanterm_fb_restore_state :: "fb_context \<Rightarrow> fb_context" where
  "flanterm_fb_restore_state s = s\<lparr>text_fg := saved_state_text_fg s, text_bg := saved_state_text_bg s,
     cursor_x := saved_state_cursor_x s, cursor_y := saved_state_cursor_y s\<rparr>"

definition flanterm_fb_swap_palette :: "fb_context \<Rightarrow> fb_context" where
  "flanterm_fb_swap_palette s = s\<lparr>text_bg := text_fg s, text_fg := text_bg s\<rparr>"

definition flanterm_fb_set_text_fg :: "nat \<Rightarrow> fb_context \<Rightarrow> fb_context option" where
  "flanterm_fb_set_text_fg fg s =
     do { v \<leftarrow> rd (ansi_colours (palette s)) fg; Some (s\<lparr>text_fg := v\<rparr>) }"

definition flanterm_fb_set_text_bg :: "nat \<Rightarrow> fb_context \<Rightarrow> fb_context option" where
  "flanterm_fb_set_text_bg bg s =
     do { v \<leftarrow> rd (ansi_colours (palette s)) bg; Some (s\<lparr>text_bg := v\<rparr>) }"

definition flanterm_fb_set_text_fg_bright :: "nat \<Rightarrow> fb_context \<Rightarrow> fb_context option" where
  "flanterm_fb_set_text_fg_bright fg s =
     do { v \<leftarrow> rd (ansi_bright_colours (palette s)) fg; Some (s\<lparr>text_fg := v\<rparr>) }"

definition flanterm_fb_set_text_bg_bright :: "nat \<Rightarrow> fb_context \<Rightarrow> fb_context option" where
  "flanterm_fb_set_text_bg_bright bg s =
     do { v \<leftarrow> rd (ansi_bright_colours (palette s)) bg; Some (s\<lparr>text_bg := v\<rparr>) }"

definition flanterm_fb_set_text_fg_rgb :: "u32 \<Rightarrow> fb_context \<Rightarrow> fb_context option" where
  "flanterm_fb_set_text_fg_rgb fg s =
     do { v \<leftarrow> convert_colour fg (palette s); Some (s\<lparr>text_fg := v\<rparr>) }"

definition flanterm_fb_set_text_bg_rgb :: "u32 \<Rightarrow> fb_context \<Rightarrow> fb_context option" where
  "flanterm_fb_set_text_bg_rgb bg s =
     do { v \<leftarrow> convert_colour bg (palette s); Some (s\<lparr>text_bg := v\<rparr>) }"

definition flanterm_fb_set_text_fg_default :: "fb_context \<Rightarrow> fb_context" where
  "flanterm_fb_set_text_fg_default s = s\<lparr>text_fg := default_fg (palette s)\<rparr>"

definition flanterm_fb_set_text_bg_default :: "fb_context \<Rightarrow> fb_context" where
  "flanterm_fb_set_text_bg_default s = s\<lparr>text_bg := 0xFFFFFFFF\<rparr>"

definition flanterm_fb_set_text_fg_default_bright :: "fb_context \<Rightarrow> fb_context" where
  "flanterm_fb_set_text_fg_default_bright s = s\<lparr>text_fg := default_fg_bright (palette s)\<rparr>"

definition flanterm_fb_set_text_bg_default_bright :: "fb_context \<Rightarrow> fb_context" where
  "flanterm_fb_set_text_bg_default_bright s = s\<lparr>text_bg := default_bg_bright (palette s)\<rparr>"

section \<open>Glyphs\<close>

text \<open>
  The four plotting routines. \<open>x\<close> and \<open>y\<close> are the cell; the result is the framebuffer with the
  \<open>glyph_width\<close> times \<open>glyph_height\<close> pixels of the cell written. The colour \<open>0xffffffff\<close> is
  transparent: it shows the canvas, or the default background without one. \<open>fy\<close> is a \<open>uint8_t\<close>.
\<close>

definition canvas_pixel :: "fb_display \<Rightarrow> nat \<Rightarrow> u32 option" where
  "canvas_pixel d i = (case canvas d of None \<Rightarrow> None | Some p \<Rightarrow> rd p i)"

definition through_canvas :: "fb_display \<Rightarrow> u32 \<Rightarrow> nat \<Rightarrow> u32 option" where
  "through_canvas d colour i = (if colour = 0xFFFFFFFF then canvas_pixel d i else Some colour)"

text \<open>The loop over the lines \<open>gy\<close> of the cell, the same in the four routines, and its four bodies.\<close>

definition plot_rows :: "(nat \<Rightarrow> u32 list \<Rightarrow> u32 list option) \<Rightarrow> fb_context \<Rightarrow> fb_context option" where
  "plot_rows row s = do {
     f \<leftarrow> for_each row [0..<glyph_height (display s)] (framebuffer (display s));
     Some (s\<lparr>display := (display s)\<lparr>framebuffer := f\<rparr>\<rparr>) }"

definition row_scaled_canvas :: "fb_char \<Rightarrow> nat \<Rightarrow> nat \<Rightarrow> fb_display \<Rightarrow> nat \<Rightarrow> u32 list \<Rightarrow> u32 list option" where
  "row_scaled_canvas c x y d gy f =
     (if font_scale_y d = 0 then None
      else let glyph = ch_c c * font_height d * font_width d;
               fy = gy div font_scale_y d mod 256;
               fb_line = x + (y + gy) * (pitch d div 4);
               canvas_line = x + (y + gy) * width d
           in for_each (\<lambda>fx. for_each (\<lambda>i f. do {
                let gx = font_scale_x d * fx + i;
                bg \<leftarrow> through_canvas d (ch_bg c) (canvas_line + gx);
                fg \<leftarrow> through_canvas d (ch_fg c) (canvas_line + gx);
                on \<leftarrow> rd (font_bool d) (glyph + fy * font_width d + fx);
                wr f (fb_line + gx) (if on then fg else bg) }) [0..<font_scale_x d])
              [0..<font_width d] f)"

definition row_scaled_uncanvas :: "fb_char \<Rightarrow> u32 \<Rightarrow> nat \<Rightarrow> nat \<Rightarrow> fb_display \<Rightarrow> nat \<Rightarrow> u32 list \<Rightarrow> u32 list option" where
  "row_scaled_uncanvas c dbg x y d gy f =
     (if font_scale_y d = 0 then None
      else let bg = (if ch_bg c = 0xFFFFFFFF then dbg else ch_bg c);
               fg = (if ch_fg c = 0xFFFFFFFF then dbg else ch_fg c);
               glyph = ch_c c * font_height d * font_width d;
               fy = gy div font_scale_y d mod 256;
               fb_line = x + (y + gy) * (pitch d div 4)
           in for_each (\<lambda>fx. for_each (\<lambda>i f. do {
                let gx = font_scale_x d * fx + i;
                on \<leftarrow> rd (font_bool d) (glyph + fy * font_width d + fx);
                wr f (fb_line + gx) (if on then fg else bg) }) [0..<font_scale_x d])
              [0..<font_width d] f)"

definition row_unscaled_canvas :: "fb_char \<Rightarrow> nat \<Rightarrow> nat \<Rightarrow> fb_display \<Rightarrow> nat \<Rightarrow> u32 list \<Rightarrow> u32 list option" where
  "row_unscaled_canvas c x y d gy f =
     (let glyph = ch_c c * font_height d * font_width d;
          fb_line = x + (y + gy) * (pitch d div 4);
          canvas_line = x + (y + gy) * width d
      in for_each (\<lambda>fx f. do {
           bg \<leftarrow> through_canvas d (ch_bg c) (canvas_line + fx);
           fg \<leftarrow> through_canvas d (ch_fg c) (canvas_line + fx);
           on \<leftarrow> rd (font_bool d) (glyph + gy * font_width d + fx);
           wr f (fb_line + fx) (if on then fg else bg) }) [0..<font_width d] f)"

definition row_unscaled_uncanvas :: "fb_char \<Rightarrow> u32 \<Rightarrow> nat \<Rightarrow> nat \<Rightarrow> fb_display \<Rightarrow> nat \<Rightarrow> u32 list \<Rightarrow> u32 list option" where
  "row_unscaled_uncanvas c dbg x y d gy f =
     (let bg = (if ch_bg c = 0xFFFFFFFF then dbg else ch_bg c);
          fg = (if ch_fg c = 0xFFFFFFFF then dbg else ch_fg c);
          glyph = ch_c c * font_height d * font_width d;
          fb_line = x + (y + gy) * (pitch d div 4)
      in for_each (\<lambda>fx f. do {
           on \<leftarrow> rd (font_bool d) (glyph + gy * font_width d + fx);
           wr f (fb_line + fx) (if on then fg else bg) }) [0..<font_width d] f)"

definition cell_left :: "fb_context \<Rightarrow> nat \<Rightarrow> nat" where
  "cell_left s x = offset_x (display s) + x * glyph_width (display s)"

definition cell_top :: "fb_context \<Rightarrow> nat \<Rightarrow> nat" where
  "cell_top s y = offset_y (display s) + y * glyph_height (display s)"

definition plot_char_scaled_canvas :: "fb_char \<Rightarrow> nat \<Rightarrow> nat \<Rightarrow> fb_context \<Rightarrow> fb_context option" where
  "plot_char_scaled_canvas c x y s =
     (if cols s \<le> x \<or> rows s \<le> y then Some s
      else plot_rows (row_scaled_canvas c (cell_left s x) (cell_top s y) (display s)) s)"

definition plot_char_scaled_uncanvas :: "fb_char \<Rightarrow> nat \<Rightarrow> nat \<Rightarrow> fb_context \<Rightarrow> fb_context option" where
  "plot_char_scaled_uncanvas c x y s =
     (if cols s \<le> x \<or> rows s \<le> y then Some s
      else plot_rows (row_scaled_uncanvas c (default_bg (palette s)) (cell_left s x) (cell_top s y) (display s)) s)"

definition plot_char_unscaled_canvas :: "fb_char \<Rightarrow> nat \<Rightarrow> nat \<Rightarrow> fb_context \<Rightarrow> fb_context option" where
  "plot_char_unscaled_canvas c x y s =
     (if cols s \<le> x \<or> rows s \<le> y then Some s
      else plot_rows (row_unscaled_canvas c (cell_left s x) (cell_top s y) (display s)) s)"

definition plot_char_unscaled_uncanvas :: "fb_char \<Rightarrow> nat \<Rightarrow> nat \<Rightarrow> fb_context \<Rightarrow> fb_context option" where
  "plot_char_unscaled_uncanvas c x y s =
     (if cols s \<le> x \<or> rows s \<le> y then Some s
      else plot_rows (row_unscaled_uncanvas c (default_bg (palette s)) (cell_left s x) (cell_top s y) (display s)) s)"

fun plot_with :: "plot_fn \<Rightarrow> fb_char \<Rightarrow> nat \<Rightarrow> nat \<Rightarrow> fb_context \<Rightarrow> fb_context option" where
  "plot_with Scaled_canvas = plot_char_scaled_canvas"
| "plot_with Scaled_uncanvas = plot_char_scaled_uncanvas"
| "plot_with Unscaled_canvas = plot_char_unscaled_canvas"
| "plot_with Unscaled_uncanvas = plot_char_unscaled_uncanvas"

text \<open>The call through the function pointer \<open>ctx->plot_char\<close>.\<close>

definition plot_char :: "fb_char \<Rightarrow> nat \<Rightarrow> nat \<Rightarrow> fb_context \<Rightarrow> fb_context option" where
  "plot_char c x y s = plot_with (plot_char_fn (display s)) c x y s"

section \<open>The redraw queue\<close>

definition compare_char :: "fb_char \<Rightarrow> fb_char \<Rightarrow> bool" where
  "compare_char a b \<longleftrightarrow> \<not> (ch_c a \<noteq> ch_c b \<or> ch_bg a \<noteq> ch_bg b \<or> ch_fg a \<noteq> ch_fg b)"

definition push_to_queue :: "fb_char \<Rightarrow> nat \<Rightarrow> nat \<Rightarrow> fb_context \<Rightarrow> fb_context option" where
  "push_to_queue c x y s =
     (if cols s \<le> x \<or> rows s \<le> y then Some s
      else do {
        let i = y * cols s + x;
        p \<leftarrow> rd (cell_map s) i;
        case p of
          None \<Rightarrow> do {
            g \<leftarrow> rd (grid s) i;
            if compare_char g c then Some s
            else do {
              let k = queue_i s;
              q \<leftarrow> wr (queue s) k \<lparr>item_x = x, item_y = y, item_c = c\<rparr>;
              m \<leftarrow> wr (cell_map s) i (Some k);
              Some (s\<lparr>queue := q, queue_i := k + 1, cell_map := m\<rparr>) } }
        | Some k \<Rightarrow> do {
            it \<leftarrow> rd (queue s) k;
            q \<leftarrow> wr (queue s) k (it\<lparr>item_c := c\<rparr>);
            Some (s\<lparr>queue := q\<rparr>) } })"

text \<open>The character a cell is going to show: the queued one if there is one.\<close>

definition pending_char :: "nat \<Rightarrow> fb_context \<Rightarrow> fb_char option" where
  "pending_char i s = do {
     p \<leftarrow> rd (cell_map s) i;
     case p of None \<Rightarrow> rd (grid s) i | Some k \<Rightarrow> map_option item_c (rd (queue s) k) }"

definition blank :: "fb_context \<Rightarrow> fb_char" where
  "blank s = \<lparr>ch_c = 32, ch_fg = text_fg s, ch_bg = text_bg s\<rparr>"

section \<open>Scrolling\<close>

text \<open>
  The loop of \<open>revscroll\<close> counts \<open>i\<close> down to \<open>scroll_top_margin * cols\<close> and stops when \<open>i\<close> wraps
  below \<open>0\<close>, so it runs through the range below, which is empty for a bottom margin of \<open>1\<close>.
\<close>

definition flanterm_fb_revscroll :: "fb_context \<Rightarrow> fb_context option" where
  "flanterm_fb_revscroll s = do {
     s1 \<leftarrow> for_each (\<lambda>i s. do {
             c \<leftarrow> pending_char i s;
             push_to_queue c ((i + cols s) mod cols s) ((i + cols s) div cols s) s })
           (rev [scroll_top_margin s * cols s..<size_sub (scroll_bottom_margin s) 1 * cols s]) s;
     for_each (\<lambda>i. push_to_queue (blank s1) i (scroll_top_margin s1)) [0..<cols s1] s1 }"

definition flanterm_fb_scroll :: "fb_context \<Rightarrow> fb_context option" where
  "flanterm_fb_scroll s = do {
     s1 \<leftarrow> for_each (\<lambda>i s. do {
             c \<leftarrow> pending_char i s;
             push_to_queue c ((i - cols s) mod cols s) ((i - cols s) div cols s) s })
           [(scroll_top_margin s + 1) * cols s..<scroll_bottom_margin s * cols s] s;
     for_each (\<lambda>i. push_to_queue (blank s1) i (size_sub (scroll_bottom_margin s1) 1)) [0..<cols s1] s1 }"

definition flanterm_fb_clear :: "bool \<Rightarrow> fb_context \<Rightarrow> fb_context option" where
  "flanterm_fb_clear move s = do {
     s1 \<leftarrow> for_each (\<lambda>i. push_to_queue (blank s) (i mod cols s) (i div cols s))
           [0..<rows s * cols s] s;
     Some (if move then s1\<lparr>cursor_x := 0, cursor_y := 0\<rparr> else s1) }"

section \<open>The cursor\<close>

text \<open>\<open>(int)x < 0\<close>: the sign bit of the low 32 bits.\<close>

definition negative_int :: "nat \<Rightarrow> bool" where
  "negative_int x \<longleftrightarrow> 2 ^ 31 \<le> x mod 2 ^ 32"

definition clamp_pos :: "nat \<Rightarrow> nat \<Rightarrow> nat" where
  "clamp_pos x n = (if n \<le> x then (if negative_int x then 0 else size_sub n 1) else x)"

definition flanterm_fb_set_cursor_pos :: "nat \<Rightarrow> nat \<Rightarrow> fb_context \<Rightarrow> fb_context" where
  "flanterm_fb_set_cursor_pos x y s =
     s\<lparr>cursor_x := clamp_pos x (cols s), cursor_y := clamp_pos y (rows s)\<rparr>"

definition flanterm_fb_get_cursor_pos :: "fb_context \<Rightarrow> nat \<times> nat" where
  "flanterm_fb_get_cursor_pos s =
     (if cols s \<le> cursor_x s then size_sub (cols s) 1 else cursor_x s,
      if rows s \<le> cursor_y s then size_sub (rows s) 1 else cursor_y s)"

definition flanterm_fb_move_character :: "nat \<Rightarrow> nat \<Rightarrow> nat \<Rightarrow> nat \<Rightarrow> fb_context \<Rightarrow> fb_context option" where
  "flanterm_fb_move_character new_x new_y old_x old_y s =
     (if cols s \<le> old_x \<or> rows s \<le> old_y \<or> cols s \<le> new_x \<or> rows s \<le> new_y then Some s
      else do { c \<leftarrow> pending_char (old_x + old_y * cols s) s; push_to_queue c new_x new_y s })"

text \<open>The first block of \<open>raw_putchar\<close>: the cursor wraps to the next line.\<close>

definition wrap_cursor :: "fb_context \<Rightarrow> fb_context option" where
  "wrap_cursor s = do {
     let s1 = s\<lparr>cursor_x := 0, cursor_y := cursor_y s + 1\<rparr>;
     s2 \<leftarrow> (if cursor_y s1 = scroll_bottom_margin s1
            then flanterm_fb_scroll (s1\<lparr>cursor_y := cursor_y s1 - 1\<rparr>) else Some s1);
     Some (if cols s2 \<le> cursor_y s2 then s2\<lparr>cursor_y := size_sub (cols s2) 1\<rparr> else s2) }"

definition flanterm_fb_raw_putchar :: "nat \<Rightarrow> fb_context \<Rightarrow> fb_context option" where
  "flanterm_fb_raw_putchar c s = do {
     s1 \<leftarrow> (if cols s \<le> cursor_x s
              \<and> (cursor_y s < size_sub (scroll_bottom_margin s) 1 \<or> scroll_enabled s)
            then wrap_cursor s else Some s);
     push_to_queue \<lparr>ch_c = c, ch_fg = text_fg s1, ch_bg = text_bg s1\<rparr> (cursor_x s1) (cursor_y s1)
       (s1\<lparr>cursor_x := cursor_x s1 + 1\<rparr>) }"

section \<open>Drawing\<close>

definition draw_cursor :: "fb_context \<Rightarrow> fb_context option" where
  "draw_cursor s =
     (if cols s \<le> cursor_x s \<or> rows s \<le> cursor_y s then Some s
      else do {
        let i = cursor_x s + cursor_y s * cols s;
        p \<leftarrow> rd (cell_map s) i;
        c \<leftarrow> pending_char i s;
        s1 \<leftarrow> plot_char (c\<lparr>ch_fg := ch_bg c, ch_bg := ch_fg c\<rparr>) (cursor_x s) (cursor_y s) s;
        case p of
          None \<Rightarrow> Some s1
        | Some k \<Rightarrow> do {
            it \<leftarrow> rd (queue s1) k;
            g \<leftarrow> wr (grid s1) i (item_c it);
            m \<leftarrow> wr (cell_map s1) i None;
            Some (s1\<lparr>grid := g, cell_map := m\<rparr>) } })"

definition flush_item :: "nat \<Rightarrow> fb_context \<Rightarrow> fb_context option" where
  "flush_item i s = do {
     q \<leftarrow> rd (queue s) i;
     let offset = item_y q * cols s + item_x q;
     p \<leftarrow> rd (cell_map s) offset;
     if p = None then Some s
     else do {
       s1 \<leftarrow> plot_char (item_c q) (item_x q) (item_y q) s;
       g \<leftarrow> wr (grid s1) offset (item_c q);
       m \<leftarrow> wr (cell_map s1) offset None;
       Some (s1\<lparr>grid := g, cell_map := m\<rparr>) } }"

definition flanterm_fb_double_buffer_flush :: "fb_context \<Rightarrow> fb_context option" where
  "flanterm_fb_double_buffer_flush s = do {
     s1 \<leftarrow> (if cursor_enabled s then draw_cursor s else Some s);
     s2 \<leftarrow> for_each flush_item [0..<queue_i s1] s1;
     s3 \<leftarrow> (if old_cursor_x s2 \<noteq> cursor_x s2 \<or> old_cursor_y s2 \<noteq> cursor_y s2 \<or> \<not> cursor_enabled s2
            then if old_cursor_x s2 < cols s2 \<and> old_cursor_y s2 < rows s2
                 then do {
                   g \<leftarrow> rd (grid s2) (old_cursor_x s2 + old_cursor_y s2 * cols s2);
                   plot_char g (old_cursor_x s2) (old_cursor_y s2) s2 }
                 else Some s2
            else Some s2);
     Some (s3\<lparr>old_cursor_x := cursor_x s3, old_cursor_y := cursor_y s3, queue_i := 0\<rparr>) }"

definition refresh_pixel :: "nat \<Rightarrow> nat \<Rightarrow> fb_context \<Rightarrow> fb_context option" where
  "refresh_pixel y x s = do {
     let d = display s;
     v \<leftarrow> (case canvas d of None \<Rightarrow> Some (default_bg (palette s)) | Some p \<Rightarrow> rd p (y * width d + x));
     f \<leftarrow> wr (framebuffer d) (y * (pitch d div 4) + x) v;
     Some (s\<lparr>display := d\<lparr>framebuffer := f\<rparr>\<rparr>) }"

definition flanterm_fb_full_refresh :: "fb_context \<Rightarrow> fb_context option" where
  "flanterm_fb_full_refresh s = do {
     s1 \<leftarrow> for_each (\<lambda>y s. for_each (refresh_pixel y) [0..<width (display s)] s)
             [0..<height (display s)] s;
     s2 \<leftarrow> for_each (\<lambda>i s. do { g \<leftarrow> rd (grid s) i; plot_char g (i mod cols s) (i div cols s) s })
             [0..<rows s1 * cols s1] s1;
     if cursor_enabled s2 then draw_cursor s2 else Some s2 }"

end
