(* ===== verification/Wcwidth.thy ===== *)
theory Wcwidth
  imports Prelude
begin

text \<open>
  The tables of the terminal core (\<open>kernel/src/src/flanterm.c\<close>): the 256-colour palette, the
  intervals of non-spacing characters with their binary search, and the map from Unicode to the
  code page of the font.
\<close>

section \<open>The palette\<close>

text \<open>Entries 16 to 255 of the 256-colour palette.\<close>

definition col256 :: "u32 list" where
  "col256 = [
    0x0, 0x5F, 0x87, 0xAF, 0xD7, 0xFF, 0x5F00, 0x5F5F,
    0x5F87, 0x5FAF, 0x5FD7, 0x5FFF, 0x8700, 0x875F, 0x8787, 0x87AF,
    0x87D7, 0x87FF, 0xAF00, 0xAF5F, 0xAF87, 0xAFAF, 0xAFD7, 0xAFFF,
    0xD700, 0xD75F, 0xD787, 0xD7AF, 0xD7D7, 0xD7FF, 0xFF00, 0xFF5F,
    0xFF87, 0xFFAF, 0xFFD7, 0xFFFF, 0x5F0000, 0x5F005F, 0x5F0087, 0x5F00AF,
    0x5F00D7, 0x5F00FF, 0x5F5F00, 0x5F5F5F, 0x5F5F87, 0x5F5FAF, 0x5F5FD7, 0x5F5FFF,
    0x5F8700, 0x5F875F, 0x5F8787, 0x5F87AF, 0x5F87D7, 0x5F87FF, 0x5FAF00, 0x5FAF5F,
    0x5FAF87, 0x5FAFAF, 0x5FAFD7, 0x5FAFFF, 0x5FD700, 0x5FD75F, 0x5FD787, 0x5FD7AF,
    0x5FD7D7, 0x5FD7FF, 0x5FFF00, 0x5FFF5F, 0x5FFF87, 0x5FFFAF, 0x5FFFD7, 0x5FFFFF,
    0x870000, 0x87005F, 0x870087, 0x8700AF, 0x8700D7, 0x8700FF, 0x875F00, 0x875F5F,
    0x875F87, 0x875FAF, 0x875FD7, 0x875FFF, 0x878700, 0x87875F, 0x878787, 0x8787AF,
    0x8787D7, 0x8787FF, 0x87AF00, 0x87AF5F, 0x87AF87, 0x87AFAF, 0x87AFD7, 0x87AFFF,
    0x87D700, 0x87D75F, 0x87D787, 0x87D7AF, 0x87D7D7, 0x87D7FF, 0x87FF00, 0x87FF5F,
    0x87FF87, 0x87FFAF, 0x87FFD7, 0x87FFFF, 0xAF0000, 0xAF005F, 0xAF0087, 0xAF00AF,
    0xAF00D7, 0xAF00FF, 0xAF5F00, 0xAF5F5F, 0xAF5F87, 0xAF5FAF, 0xAF5FD7, 0xAF5FFF,
    0xAF8700, 0xAF875F, 0xAF8787, 0xAF87AF, 0xAF87D7, 0xAF87FF, 0xAFAF00, 0xAFAF5F,
    0xAFAF87, 0xAFAFAF, 0xAFAFD7, 0xAFAFFF, 0xAFD700, 0xAFD75F, 0xAFD787, 0xAFD7AF,
    0xAFD7D7, 0xAFD7FF, 0xAFFF00, 0xAFFF5F, 0xAFFF87, 0xAFFFAF, 0xAFFFD7, 0xAFFFFF,
    0xD70000, 0xD7005F, 0xD70087, 0xD700AF, 0xD700D7, 0xD700FF, 0xD75F00, 0xD75F5F,
    0xD75F87, 0xD75FAF, 0xD75FD7, 0xD75FFF, 0xD78700, 0xD7875F, 0xD78787, 0xD787AF,
    0xD787D7, 0xD787FF, 0xD7AF00, 0xD7AF5F, 0xD7AF87, 0xD7AFAF, 0xD7AFD7, 0xD7AFFF,
    0xD7D700, 0xD7D75F, 0xD7D787, 0xD7D7AF, 0xD7D7D7, 0xD7D7FF, 0xD7FF00, 0xD7FF5F,
    0xD7FF87, 0xD7FFAF, 0xD7FFD7, 0xD7FFFF, 0xFF0000, 0xFF005F, 0xFF0087, 0xFF00AF,
    0xFF00D7, 0xFF00FF, 0xFF5F00, 0xFF5F5F, 0xFF5F87, 0xFF5FAF, 0xFF5FD7, 0xFF5FFF,
    0xFF8700, 0xFF875F, 0xFF8787, 0xFF87AF, 0xFF87D7, 0xFF87FF, 0xFFAF00, 0xFFAF5F,
    0xFFAF87, 0xFFAFAF, 0xFFAFD7, 0xFFAFFF, 0xFFD700, 0xFFD75F, 0xFFD787, 0xFFD7AF,
    0xFFD7D7, 0xFFD7FF, 0xFFFF00, 0xFFFF5F, 0xFFFF87, 0xFFFFAF, 0xFFFFD7, 0xFFFFFF,
    0x80808, 0x121212, 0x1C1C1C, 0x262626, 0x303030, 0x3A3A3A, 0x444444, 0x4E4E4E,
    0x585858, 0x626262, 0x6C6C6C, 0x767676, 0x808080, 0x8A8A8A, 0x949494, 0x9E9E9E,
    0xA8A8A8, 0xB2B2B2, 0xBCBCBC, 0xC6C6C6, 0xD0D0D0, 0xDADADA, 0xE4E4E4, 0xEEEEEE
  ]"

section \<open>Width of a character\<close>

text \<open>The loop of the binary search; \<open>min\<close> and \<open>max\<close> are \<open>int\<close>, \<open>max\<close> may become \<open>-1\<close>.\<close>

function bisearch_loop :: "u32 \<Rightarrow> (u32 \<times> u32) list \<Rightarrow> int \<Rightarrow> int \<Rightarrow> int option" where
  "bisearch_loop ucs table lo hi =
     (if hi < lo then Some 0
      else do {
        let mid = (lo + hi) div 2;
        e \<leftarrow> rd table (nat mid);
        if snd e < ucs then bisearch_loop ucs table (mid + 1) hi
        else if ucs < fst e then bisearch_loop ucs table lo (mid - 1)
        else Some 1 })"
  by pat_completeness auto
termination
  by (relation "measure (\<lambda>(ucs, table, lo, hi). nat (hi + 1 - lo))") auto

declare bisearch_loop.simps [simp del]

definition bisearch :: "u32 \<Rightarrow> (u32 \<times> u32) list \<Rightarrow> int \<Rightarrow> int option" where
  "bisearch ucs table hi = do {
     first \<leftarrow> rd table 0;
     last \<leftarrow> rd table (nat hi);
     if ucs < fst first \<or> snd last < ucs then Some 0 else bisearch_loop ucs table 0 hi }"

text \<open>The sorted intervals of non-spacing characters.\<close>

definition combining :: "(u32 \<times> u32) list" where
  "combining = [
    (0x300, 0x36F), (0x483, 0x486), (0x488, 0x489), (0x591, 0x5BD), (0x5BF, 0x5BF),
    (0x5C1, 0x5C2), (0x5C4, 0x5C5), (0x5C7, 0x5C7), (0x600, 0x603), (0x610, 0x615),
    (0x64B, 0x65E), (0x670, 0x670), (0x6D6, 0x6E4), (0x6E7, 0x6E8), (0x6EA, 0x6ED),
    (0x70F, 0x70F), (0x711, 0x711), (0x730, 0x74A), (0x7A6, 0x7B0), (0x7EB, 0x7F3),
    (0x901, 0x902), (0x93C, 0x93C), (0x941, 0x948), (0x94D, 0x94D), (0x951, 0x954),
    (0x962, 0x963), (0x981, 0x981), (0x9BC, 0x9BC), (0x9C1, 0x9C4), (0x9CD, 0x9CD),
    (0x9E2, 0x9E3), (0xA01, 0xA02), (0xA3C, 0xA3C), (0xA41, 0xA42), (0xA47, 0xA48),
    (0xA4B, 0xA4D), (0xA70, 0xA71), (0xA81, 0xA82), (0xABC, 0xABC), (0xAC1, 0xAC5),
    (0xAC7, 0xAC8), (0xACD, 0xACD), (0xAE2, 0xAE3), (0xB01, 0xB01), (0xB3C, 0xB3C),
    (0xB3F, 0xB3F), (0xB41, 0xB43), (0xB4D, 0xB4D), (0xB56, 0xB56), (0xB82, 0xB82),
    (0xBC0, 0xBC0), (0xBCD, 0xBCD), (0xC3E, 0xC40), (0xC46, 0xC48), (0xC4A, 0xC4D),
    (0xC55, 0xC56), (0xCBC, 0xCBC), (0xCBF, 0xCBF), (0xCC6, 0xCC6), (0xCCC, 0xCCD),
    (0xCE2, 0xCE3), (0xD41, 0xD43), (0xD4D, 0xD4D), (0xDCA, 0xDCA), (0xDD2, 0xDD4),
    (0xDD6, 0xDD6), (0xE31, 0xE31), (0xE34, 0xE3A), (0xE47, 0xE4E), (0xEB1, 0xEB1),
    (0xEB4, 0xEB9), (0xEBB, 0xEBC), (0xEC8, 0xECD), (0xF18, 0xF19), (0xF35, 0xF35),
    (0xF37, 0xF37), (0xF39, 0xF39), (0xF71, 0xF7E), (0xF80, 0xF84), (0xF86, 0xF87),
    (0xF90, 0xF97), (0xF99, 0xFBC), (0xFC6, 0xFC6), (0x102D, 0x1030), (0x1032, 0x1032),
    (0x1036, 0x1037), (0x1039, 0x1039), (0x1058, 0x1059), (0x1160, 0x11FF), (0x135F, 0x135F),
    (0x1712, 0x1714), (0x1732, 0x1734), (0x1752, 0x1753), (0x1772, 0x1773), (0x17B4, 0x17B5),
    (0x17B7, 0x17BD), (0x17C6, 0x17C6), (0x17C9, 0x17D3), (0x17DD, 0x17DD), (0x180B, 0x180D),
    (0x18A9, 0x18A9), (0x1920, 0x1922), (0x1927, 0x1928), (0x1932, 0x1932), (0x1939, 0x193B),
    (0x1A17, 0x1A18), (0x1B00, 0x1B03), (0x1B34, 0x1B34), (0x1B36, 0x1B3A), (0x1B3C, 0x1B3C),
    (0x1B42, 0x1B42), (0x1B6B, 0x1B73), (0x1DC0, 0x1DCA), (0x1DFE, 0x1DFF), (0x200B, 0x200F),
    (0x202A, 0x202E), (0x2060, 0x2063), (0x206A, 0x206F), (0x20D0, 0x20EF), (0x302A, 0x302F),
    (0x3099, 0x309A), (0xA806, 0xA806), (0xA80B, 0xA80B), (0xA825, 0xA826), (0xFB1E, 0xFB1E),
    (0xFE00, 0xFE0F), (0xFE20, 0xFE23), (0xFEFF, 0xFEFF), (0xFFF9, 0xFFFB), (0x10A01, 0x10A03),
    (0x10A05, 0x10A06), (0x10A0C, 0x10A0F), (0x10A38, 0x10A3A), (0x10A3F, 0x10A3F), (0x1D167, 0x1D169),
    (0x1D173, 0x1D182), (0x1D185, 0x1D18B), (0x1D1AA, 0x1D1AD), (0x1D242, 0x1D244), (0xE0001, 0xE0001),
    (0xE0020, 0xE007F), (0xE0100, 0xE01EF)
  ]"

definition wide_char :: "u32 \<Rightarrow> bool" where
  "wide_char ucs \<longleftrightarrow> 0x1100 \<le> ucs \<and>
     (ucs \<le> 0x115F \<or> ucs = 0x2329 \<or> ucs = 0x232A \<or>
      (0x2E80 \<le> ucs \<and> ucs \<le> 0xA4CF \<and> ucs \<noteq> 0x303F) \<or>
      (0xAC00 \<le> ucs \<and> ucs \<le> 0xD7A3) \<or> (0xF900 \<le> ucs \<and> ucs \<le> 0xFAFF) \<or>
      (0xFE10 \<le> ucs \<and> ucs \<le> 0xFE19) \<or> (0xFE30 \<le> ucs \<and> ucs \<le> 0xFE6F) \<or>
      (0xFF00 \<le> ucs \<and> ucs \<le> 0xFF60) \<or> (0xFFE0 \<le> ucs \<and> ucs \<le> 0xFFE6) \<or>
      (0x20000 \<le> ucs \<and> ucs \<le> 0x2FFFD) \<or> (0x30000 \<le> ucs \<and> ucs \<le> 0x3FFFD))"

definition mk_wcwidth :: "u32 \<Rightarrow> int option" where
  "mk_wcwidth ucs =
     (if ucs = 0 then Some 0
      else if ucs < 32 \<or> (0x7F \<le> ucs \<and> ucs < 0xA0) then Some 1
      else do {
        r \<leftarrow> bisearch ucs combining (int (length combining) - 1);
        if r \<noteq> 0 then Some 0 else Some (1 + (if wide_char ucs then 1 else 0)) })"

section \<open>The code page of the font\<close>

definition cp437_table :: "(u64 \<times> int) list" where
  "cp437_table = [
    (0x263A, 1), (0x263B, 2), (0x2665, 3), (0x2666, 4), (0x2663, 5), (0x2660, 6),
    (0x2022, 7), (0x25D8, 8), (0x25CB, 9), (0x25D9, 10), (0x2642, 11), (0x2640, 12),
    (0x266A, 13), (0x266B, 14), (0x263C, 15), (0x25BA, 16), (0x25C4, 17), (0x2195, 18),
    (0x203C, 19), (0xB6, 20), (0xA7, 21), (0x25AC, 22), (0x21A8, 23), (0x2191, 24),
    (0x2193, 25), (0x2192, 26), (0x2190, 27), (0x221F, 28), (0x2194, 29), (0x25B2, 30),
    (0x25BC, 31), (0x2302, 127), (0xC7, 128), (0xFC, 129), (0xE9, 130), (0xE2, 131),
    (0xE4, 132), (0xE0, 133), (0xE5, 134), (0xE7, 135), (0xEA, 136), (0xEB, 137),
    (0xE8, 138), (0xEF, 139), (0xEE, 140), (0xEC, 141), (0xC4, 142), (0xC5, 143),
    (0xC9, 144), (0xE6, 145), (0xC6, 146), (0xF4, 147), (0xF6, 148), (0xF2, 149),
    (0xFB, 150), (0xF9, 151), (0xFF, 152), (0xD6, 153), (0xDC, 154), (0xA2, 155),
    (0xA3, 156), (0xA5, 157), (0x20A7, 158), (0x192, 159), (0xE1, 160), (0xED, 161),
    (0xF3, 162), (0xFA, 163), (0xF1, 164), (0xD1, 165), (0xAA, 166), (0xBA, 167),
    (0xBF, 168), (0x2310, 169), (0xAC, 170), (0xBD, 171), (0xBC, 172), (0xA1, 173),
    (0xAB, 174), (0xBB, 175), (0x2591, 176), (0x2592, 177), (0x2593, 178), (0x2502, 179),
    (0x2524, 180), (0x2561, 181), (0x2562, 182), (0x2556, 183), (0x2555, 184), (0x2563, 185),
    (0x2551, 186), (0x2557, 187), (0x255D, 188), (0x255C, 189), (0x255B, 190), (0x2510, 191),
    (0x2514, 192), (0x2534, 193), (0x252C, 194), (0x251C, 195), (0x2500, 196), (0x253C, 197),
    (0x255E, 198), (0x255F, 199), (0x255A, 200), (0x2554, 201), (0x2569, 202), (0x2566, 203),
    (0x2560, 204), (0x2550, 205), (0x256C, 206), (0x2567, 207), (0x2568, 208), (0x2564, 209),
    (0x2565, 210), (0x2559, 211), (0x2558, 212), (0x2552, 213), (0x2553, 214), (0x256B, 215),
    (0x256A, 216), (0x2518, 217), (0x250C, 218), (0x2588, 219), (0x2584, 220), (0x258C, 221),
    (0x2590, 222), (0x2580, 223), (0x3B1, 224), (0xDF, 225), (0x393, 226), (0x3C0, 227),
    (0x3A3, 228), (0x3C3, 229), (0xB5, 230), (0x3C4, 231), (0x3A6, 232), (0x398, 233),
    (0x3A9, 234), (0x3B4, 235), (0x221E, 236), (0x3C6, 237), (0x3B5, 238), (0x2229, 239),
    (0x2261, 240), (0xB1, 241), (0x2265, 242), (0x2264, 243), (0x2320, 244), (0x2321, 245),
    (0xF7, 246), (0x2248, 247), (0xB0, 248), (0x2219, 249), (0xB7, 250), (0x221A, 251),
    (0x207F, 252), (0xB2, 253), (0x25A0, 254)
  ]"

definition unicode_to_cp437 :: "u64 \<Rightarrow> int" where
  "unicode_to_cp437 code_point = (case map_of cp437_table code_point of Some c \<Rightarrow> c | None \<Rightarrow> -1)"

section \<open>Binary search against membership\<close>

text \<open>The intervals are in order and do not overlap.\<close>

definition intervals_ok :: "(u32 \<times> u32) list \<Rightarrow> bool" where
  "intervals_ok t \<longleftrightarrow> (\<forall>i<length t. fst (t ! i) \<le> snd (t ! i)) \<and>
     (\<forall>i j. i < j \<longrightarrow> j < length t \<longrightarrow> snd (t ! i) < fst (t ! j))"

definition in_interval :: "u32 \<Rightarrow> u32 \<times> u32 \<Rightarrow> bool" where
  "in_interval u e \<longleftrightarrow> fst e \<le> u \<and> u \<le> snd e"

lemma bisearch_loop_eq:
  assumes "intervals_ok t" and "0 \<le> lo" and "hi < int (length t)"
    and "\<And>i. i < length t \<Longrightarrow> in_interval u (t ! i) \<Longrightarrow> lo \<le> int i \<and> int i \<le> hi"
  shows "bisearch_loop u t lo hi = Some (if \<exists>i<length t. in_interval u (t ! i) then 1 else 0)"
  using assms
proof (induction u t lo hi rule: bisearch_loop.induct)
  case (1 u t lo hi)
  show ?case
  proof (cases "hi < lo")
    case True
    then have "\<not> (\<exists>i<length t. in_interval u (t ! i))" using "1.prems"(4) by force
    with True show ?thesis by (simp add: bisearch_loop.simps)
  next
    case False
    define mid where "mid = (lo + hi) div 2"
    have m: "lo \<le> mid" "mid \<le> hi" "0 \<le> mid" using False "1.prems"(2) by (auto simp: mid_def)
    then have i: "nat mid < length t" "int (nat mid) = mid" using "1.prems"(3) by auto
    let ?e = "t ! nat mid"
    have le: "\<And>k. k < length t \<Longrightarrow> fst (t ! k) \<le> snd (t ! k)"
      and lt: "\<And>j k. j < k \<Longrightarrow> k < length t \<Longrightarrow> snd (t ! j) < fst (t ! k)"
      using "1.prems"(1) by (auto simp: intervals_ok_def)
    have step: "bisearch_loop u t lo hi = (if snd ?e < u then bisearch_loop u t (mid + 1) hi
        else if u < fst ?e then bisearch_loop u t lo (mid - 1) else Some 1)"
      using False i by (subst bisearch_loop.simps) (simp add: mid_def Let_def)
    consider (right) "snd ?e < u" | (left) "\<not> snd ?e < u" "u < fst ?e" | (here) "\<not> snd ?e < u" "\<not> u < fst ?e"
      by blast
    then show ?thesis
    proof cases
      case right
      have "mid + 1 \<le> int k" if k: "k < length t" "in_interval u (t ! k)" for k
      proof (rule ccontr)
        assume "\<not> mid + 1 \<le> int k"
        then have "k \<le> nat mid" using m by linarith
        then have "snd (t ! k) \<le> snd ?e"
          using lt [of k "nat mid"] le [OF i(1)] i(1) by (cases "k = nat mid") auto
        with right k(2) show False by (auto simp: in_interval_def)
      qed
      then have "bisearch_loop u t (mid + 1) hi = Some (if \<exists>i<length t. in_interval u (t ! i) then 1 else 0)"
        using "1.IH"(1) [OF False mid_def, of ?e] right "1.prems" m i by auto
      with step right show ?thesis by simp
    next
      case left
      have "int k \<le> mid - 1" if k: "k < length t" "in_interval u (t ! k)" for k
      proof (rule ccontr)
        assume "\<not> int k \<le> mid - 1"
        then have "nat mid \<le> k" using m by linarith
        then have "fst ?e \<le> fst (t ! k)"
          using lt [of "nat mid" k] le [OF i(1)] k(1) by (cases "k = nat mid") auto
        with left k(2) show False by (auto simp: in_interval_def)
      qed
      then have "bisearch_loop u t lo (mid - 1) = Some (if \<exists>i<length t. in_interval u (t ! i) then 1 else 0)"
        using "1.IH"(2) [OF False mid_def, of ?e] left "1.prems" m i by auto
      with step left show ?thesis by simp
    next
      case here
      then have "in_interval u ?e" by (auto simp: in_interval_def)
      with step here i show ?thesis by auto
    qed
  qed
qed

lemma bisearch_eq:
  assumes ok: "intervals_ok t" and ne: "t \<noteq> []"
  shows "bisearch u t (int (length t) - 1) = Some (if \<exists>e\<in>set t. in_interval u e then 1 else 0)"
proof -
  let ?n = "length t - 1"
  have n: "nat (int (length t) - 1) = ?n" "?n < length t" "0 < length t" using ne by auto
  have le: "\<And>k. k < length t \<Longrightarrow> fst (t ! k) \<le> snd (t ! k)"
    and lt: "\<And>j k. j < k \<Longrightarrow> k < length t \<Longrightarrow> snd (t ! j) < fst (t ! k)"
    using ok by (auto simp: intervals_ok_def)
  have mem: "(\<exists>e\<in>set t. in_interval u e) = (\<exists>i<length t. in_interval u (t ! i))"
    by (metis in_set_conv_nth)
  have loop: "bisearch_loop u t 0 (int (length t) - 1) = Some (if \<exists>e\<in>set t. in_interval u e then 1 else 0)"
    unfolding mem by (rule bisearch_loop_eq [OF ok]) simp_all
  have "\<not> in_interval u (t ! k)" if "u < fst (t ! 0) \<or> snd (t ! ?n) < u" "k < length t" for k
  proof -
    have "fst (t ! 0) \<le> fst (t ! k)" using lt [of 0 k] le [of 0] that n by (cases "k = 0") auto
    moreover have "snd (t ! k) \<le> snd (t ! ?n)"
    proof (cases "k = ?n")
      case False
      with that(2) have "k < ?n" by linarith
      with lt [of k ?n] le [of ?n] n show ?thesis by (meson less_imp_le order_less_le_trans)
    qed simp
    ultimately show ?thesis using that(1) by (auto simp: in_interval_def)
  qed
  then have "\<not> (\<exists>e\<in>set t. in_interval u e)" if "u < fst (t ! 0) \<or> snd (t ! ?n) < u"
    unfolding mem using that by blast
  then show ?thesis using n loop by (auto simp: bisearch_def simp del: bex_simps)
qed

text \<open>Adjacent intervals are enough to check.\<close>

fun adjacent_ok :: "(u32 \<times> u32) list \<Rightarrow> bool" where
  "adjacent_ok [] = True"
| "adjacent_ok [e] = (fst e \<le> snd e)"
| "adjacent_ok (e # f # t) = (fst e \<le> snd e \<and> snd e < fst f \<and> adjacent_ok (f # t))"

lemma adjacent_head:
  "adjacent_ok (e # t) \<Longrightarrow> fst e \<le> snd e \<and> (\<forall>f\<in>set t. snd e < fst f) \<and> adjacent_ok t"
  by (induction t arbitrary: e) (fastforce)+

lemma adjacent_intervals: "adjacent_ok t \<Longrightarrow> intervals_ok t"
proof (induction t)
  case Nil
  then show ?case by (simp add: intervals_ok_def)
next
  case (Cons e t)
  note h = adjacent_head [OF Cons.prems]
  with Cons.IH have "intervals_ok t" by simp
  with h show ?case
    by (auto simp: intervals_ok_def nth_Cons' less_Suc_eq_0_disj)
qed

lemma combining_ok: "intervals_ok combining"
  by (rule adjacent_intervals) (simp add: combining_def)

text \<open>A non-spacing character has width 0, a wide one 2, any other 1; a control character 1.\<close>

lemma mk_wcwidth_eq:
  "mk_wcwidth u = Some (
     if u = 0 then 0 else if u < 32 \<or> (0x7F \<le> u \<and> u < 0xA0) then 1
     else if \<exists>e\<in>set combining. in_interval u e then 0
     else if wide_char u then 2 else 1)"
  using bisearch_eq [OF combining_ok, of u]
  by (auto simp: mk_wcwidth_def combining_def [THEN arg_cong [where f = "\<lambda>t. t = []"]])

end
