(* ===== verification/Flanterm.thy ===== *)
theory Flanterm
  imports Fb Wcwidth
begin

text \<open>
  The core of the terminal (\<open>kernel/src/src/flanterm.c\<close>): the parser of the byte stream, its
  escape sequences, the character sets and UTF-8. The back end is that of theory \<open>Fb\<close>, the only
  one of the repository; its part of the context is the field \<open>fbc\<close>.

  \<open>struct flanterm_context\<close> is declared in a header of the \<open>flanterm\<close> package that is not part of
  the repository. What the core does not fix by its own text is a parameter here: the width of
  the unsigned elements of \<open>esc_values\<close> is a type variable of the definitions, the constant
  \<open>FLANTERM_MAX_ESC_VALUES\<close> is the length of that array, and \<open>FLANTERM_OOB_OUTPUT_ONLCR\<close> is the
  field \<open>oob_onlcr\<close>. \<open>callback\<close> says whether a callback is installed (the kernel installs none);
  its calls are recorded in \<open>reports\<close>.
\<close>

section \<open>State\<close>

datatype 'v report =
    Cb_dec nat "'v list" u8
  | Cb_linux nat "'v list"
  | Cb_mode nat "'v list" u8
  | Cb_bell
  | Cb_private_id
  | Cb_status_report
  | Cb_pos_report nat nat
  | Cb_kbd_leds 'v

datatype charset = Charset_default | Charset_dec_special

record 'v flanterm_context =
  fbc :: fb_context
  tab_size :: nat
  autoflush :: bool
  control_sequence :: bool
  escape :: bool
  osc :: bool
  osc_escape :: bool
  rrr :: bool
  discard_next :: bool
  bold :: bool
  bg_bold :: bool
  reverse_video :: bool
  dec_private :: bool
  insert_mode :: bool
  code_point :: u64
  unicode_remaining :: nat
  g_select :: nat
  charsets :: "charset list"
  current_charset :: nat
  escape_offset :: nat
  esc_values :: "'v list"
  esc_values_i :: nat
  saved_cursor_x :: nat
  saved_cursor_y :: nat
  current_primary :: nat
  current_bg :: nat
  oob_output :: u64
  oob_onlcr :: u64
  saved_state_bold :: bool
  saved_state_bg_bold :: bool
  saved_state_reverse_video :: bool
  saved_state_current_charset :: nat
  saved_state_current_primary :: nat
  saved_state_current_bg :: nat
  callback :: bool
  reports :: "'v report list"

abbreviation ch :: "char \<Rightarrow> u8" where
  "ch \<equiv> of_char"

definition SIZE_MAX :: nat where
  "SIZE_MAX = 2 ^ 64 - 1"

text \<open>A call of the back end.\<close>

definition on_fb :: "(fb_context \<Rightarrow> fb_context option) \<Rightarrow> ('w::len) word flanterm_context \<Rightarrow> ('w::len) word flanterm_context option" where
  "on_fb f s = map_option (\<lambda>b. s\<lparr>fbc := b\<rparr>) (f (fbc s))"

abbreviation goto :: "nat \<Rightarrow> nat \<Rightarrow> ('w::len) word flanterm_context \<Rightarrow> ('w::len) word flanterm_context option" where
  "goto x y \<equiv> on_fb (\<lambda>b. Some (flanterm_fb_set_cursor_pos x y b))"

abbreviation put :: "nat \<Rightarrow> ('w::len) word flanterm_context \<Rightarrow> ('w::len) word flanterm_context option" where
  "put c \<equiv> on_fb (flanterm_fb_raw_putchar c)"

definition report :: "('w::len) word report \<Rightarrow> ('w::len) word flanterm_context \<Rightarrow> ('w::len) word flanterm_context" where
  "report r s = (if callback s then s\<lparr>reports := reports s @ [r]\<rparr> else s)"

definition flanterm_context_reinit :: "('w::len) word flanterm_context \<Rightarrow> ('w::len) word flanterm_context" where
  "flanterm_context_reinit s = s\<lparr>
     tab_size := 8, autoflush := True, control_sequence := False, escape := False, osc := False,
     osc_escape := False, rrr := False, discard_next := False, bold := False, bg_bold := False,
     reverse_video := False, dec_private := False, insert_mode := False, unicode_remaining := 0,
     g_select := 0, charsets := [Charset_default, Charset_dec_special], current_charset := 0,
     escape_offset := 0, esc_values_i := 0, saved_cursor_x := 0, saved_cursor_y := 0,
     current_primary := SIZE_MAX, current_bg := SIZE_MAX, oob_output := oob_onlcr s,
     fbc := (fbc s)\<lparr>cursor_enabled := True, scroll_enabled := True, scroll_top_margin := 0,
                      scroll_bottom_margin := rows (fbc s)\<rparr>\<rparr>"

section \<open>Graphic rendition\<close>

definition sgr_reset :: "('w::len) word flanterm_context \<Rightarrow> ('w::len) word flanterm_context option" where
  "sgr_reset s = do {
     s1 \<leftarrow> (if reverse_video s
            then on_fb (\<lambda>b. Some (flanterm_fb_swap_palette b)) (s\<lparr>reverse_video := False\<rparr>) else Some s);
     s2 \<leftarrow> on_fb (\<lambda>b. Some (flanterm_fb_set_text_bg_default b))
            (s1\<lparr>bold := False, bg_bold := False, current_primary := SIZE_MAX, current_bg := SIZE_MAX\<rparr>);
     on_fb (\<lambda>b. Some (flanterm_fb_set_text_fg_default b)) s2 }"

definition sgr_bold :: "('w::len) word flanterm_context \<Rightarrow> ('w::len) word flanterm_context option" where
  "sgr_bold s = (let p = current_primary s; rev = reverse_video s in
     on_fb (if p \<noteq> SIZE_MAX
            then if \<not> rev then flanterm_fb_set_text_fg_bright p else flanterm_fb_set_text_bg_bright p
            else if \<not> rev then (\<lambda>b. Some (flanterm_fb_set_text_fg_default_bright b))
                 else (\<lambda>b. Some (flanterm_fb_set_text_bg_default_bright b)))
       (s\<lparr>bold := True\<rparr>))"

definition sgr_bg_bold :: "('w::len) word flanterm_context \<Rightarrow> ('w::len) word flanterm_context option" where
  "sgr_bg_bold s = (let p = current_bg s; rev = reverse_video s in
     on_fb (if p \<noteq> SIZE_MAX
            then if \<not> rev then flanterm_fb_set_text_bg_bright p else flanterm_fb_set_text_fg_bright p
            else if \<not> rev then (\<lambda>b. Some (flanterm_fb_set_text_bg_default_bright b))
                 else (\<lambda>b. Some (flanterm_fb_set_text_fg_default_bright b)))
       (s\<lparr>bg_bold := True\<rparr>))"

definition sgr_no_bold :: "('w::len) word flanterm_context \<Rightarrow> ('w::len) word flanterm_context option" where
  "sgr_no_bold s = (let p = current_primary s; rev = reverse_video s in
     on_fb (if p \<noteq> SIZE_MAX
            then if \<not> rev then flanterm_fb_set_text_fg p else flanterm_fb_set_text_bg p
            else if \<not> rev then (\<lambda>b. Some (flanterm_fb_set_text_fg_default b))
                 else (\<lambda>b. Some (flanterm_fb_set_text_bg_default b)))
       (s\<lparr>bold := False\<rparr>))"

definition sgr_no_bg_bold :: "('w::len) word flanterm_context \<Rightarrow> ('w::len) word flanterm_context option" where
  "sgr_no_bg_bold s = (let p = current_bg s; rev = reverse_video s in
     on_fb (if p \<noteq> SIZE_MAX
            then if \<not> rev then flanterm_fb_set_text_bg p else flanterm_fb_set_text_fg p
            else if \<not> rev then (\<lambda>b. Some (flanterm_fb_set_text_bg_default b))
                 else (\<lambda>b. Some (flanterm_fb_set_text_fg_default b)))
       (s\<lparr>bg_bold := False\<rparr>))"

text \<open>The blocks at the labels \<open>set_fg\<close> and \<open>set_bg\<close>.\<close>

definition sgr_set_fg :: "nat \<Rightarrow> ('w::len) word flanterm_context \<Rightarrow> ('w::len) word flanterm_context option" where
  "sgr_set_fg k s =
     on_fb (if bold s \<and> \<not> reverse_video s \<or> bg_bold s \<and> reverse_video s
            then flanterm_fb_set_text_fg_bright k else flanterm_fb_set_text_fg k) s"

definition sgr_set_bg :: "nat \<Rightarrow> ('w::len) word flanterm_context \<Rightarrow> ('w::len) word flanterm_context option" where
  "sgr_set_bg k s =
     on_fb (if bold s \<and> reverse_video s \<or> bg_bold s \<and> \<not> reverse_video s
            then flanterm_fb_set_text_bg_bright k else flanterm_fb_set_text_bg k) s"

definition swap_if_reversed :: "('w::len) word flanterm_context \<Rightarrow> ('w::len) word flanterm_context option" where
  "swap_if_reversed s =
     (if reverse_video s then on_fb (\<lambda>b. Some (flanterm_fb_swap_palette b)) s else Some s)"

definition sgr_default_fg :: "('w::len) word flanterm_context \<Rightarrow> ('w::len) word flanterm_context option" where
  "sgr_default_fg s = do {
     s1 \<leftarrow> swap_if_reversed (s\<lparr>current_primary := SIZE_MAX\<rparr>);
     s2 \<leftarrow> on_fb (\<lambda>b. Some (if \<not> bold s1 then flanterm_fb_set_text_fg_default b
                             else flanterm_fb_set_text_fg_default_bright b)) s1;
     swap_if_reversed s2 }"

definition sgr_default_bg :: "('w::len) word flanterm_context \<Rightarrow> ('w::len) word flanterm_context option" where
  "sgr_default_bg s = do {
     s1 \<leftarrow> swap_if_reversed (s\<lparr>current_bg := SIZE_MAX\<rparr>);
     s2 \<leftarrow> on_fb (\<lambda>b. Some (if \<not> bg_bold s1 then flanterm_fb_set_text_bg_default b
                             else flanterm_fb_set_text_bg_default_bright b)) s1;
     swap_if_reversed s2 }"

text \<open>
  The 256-colour and RGB forms; \<open>i\<close> is the index of the \<open>38\<close> or \<open>48\<close>, the result the index the
  loop goes on with (\<open>esc_values_i\<close> for \<open>break\<close> and \<open>goto out\<close>).
\<close>

definition sgr_extended :: "nat \<Rightarrow> bool \<Rightarrow> ('w::len) word flanterm_context \<Rightarrow> (nat \<times> ('w::len) word flanterm_context) option" where
  "sgr_extended i fg s = (let n = esc_values_i s; j = i + 1; vs = esc_values s in
     if n \<le> j then Some (n, s)
     else do {
       mode \<leftarrow> rd vs j;
       if unat mode = 2 then
         (if n \<le> j + 3 then Some (n, s)
          else do {
            r \<leftarrow> rd vs (j + 1); g \<leftarrow> rd vs (j + 2); b \<leftarrow> rd vs (j + 3);
            let rgb = (ucast (push_bit 16 r) OR ucast (push_bit 8 g) OR ucast b :: u32);
            s1 \<leftarrow> on_fb (if fg then flanterm_fb_set_text_fg_rgb rgb else flanterm_fb_set_text_bg_rgb rgb) s;
            Some (j + 4, s1) })
       else if unat mode = 5 then
         (if n \<le> j + 1 then Some (n, s)
          else do {
            v \<leftarrow> rd vs (j + 1);
            let col = unat (ucast v :: u32);
            s1 \<leftarrow> (if col < 8 then on_fb (if fg then flanterm_fb_set_text_fg col else flanterm_fb_set_text_bg col) s
                   else if col < 16
                   then on_fb (if fg then flanterm_fb_set_text_fg_bright (col - 8)
                               else flanterm_fb_set_text_bg_bright (col - 8)) s
                   else if col < 256
                   then do {
                     rgb \<leftarrow> rd col256 (col - 16);
                     on_fb (if fg then flanterm_fb_set_text_fg_rgb rgb else flanterm_fb_set_text_bg_rgb rgb) s }
                   else Some s);
            Some (j + 2, s1) })
       else Some (j + 1, s) })"

text \<open>One turn of the loop of \<open>sgr\<close>.\<close>

definition sgr_value :: "nat \<Rightarrow> ('w::len) word flanterm_context \<Rightarrow> ('w::len) word flanterm_context option" where
  "sgr_value v s =
     (if v = 0 then sgr_reset s
      else if v = 1 then sgr_bold s
      else if v = 5 then sgr_bg_bold s
      else if v = 22 then sgr_no_bold s
      else if v = 25 then sgr_no_bg_bold s
      else if 30 \<le> v \<and> v \<le> 37 then
        (let s1 = s\<lparr>current_primary := v - 30\<rparr>
         in if reverse_video s1 then sgr_set_bg (v - 30) s1 else sgr_set_fg (v - 30) s1)
      else if 40 \<le> v \<and> v \<le> 47 then
        (let s1 = s\<lparr>current_bg := v - 40\<rparr>
         in if reverse_video s1 then sgr_set_fg (v - 40) s1 else sgr_set_bg (v - 40) s1)
      else if 90 \<le> v \<and> v \<le> 97 then
        (let s1 = s\<lparr>current_primary := v - 90\<rparr>
         in if reverse_video s1 then on_fb (flanterm_fb_set_text_bg_bright (v - 90)) s1
            else on_fb (flanterm_fb_set_text_fg_bright (v - 90)) s1)
      else if 100 \<le> v \<and> v \<le> 107 then
        (let s1 = s\<lparr>current_bg := v - 100\<rparr>
         in if reverse_video s1 then on_fb (flanterm_fb_set_text_fg_bright (v - 100)) s1
            else on_fb (flanterm_fb_set_text_bg_bright (v - 100)) s1)
      else if v = 39 then sgr_default_fg s
      else if v = 49 then sgr_default_bg s
      else if v = 7 then
        (if \<not> reverse_video s
         then on_fb (\<lambda>b. Some (flanterm_fb_swap_palette b)) (s\<lparr>reverse_video := True\<rparr>) else Some s)
      else if v = 27 then
        (if reverse_video s
         then on_fb (\<lambda>b. Some (flanterm_fb_swap_palette b)) (s\<lparr>reverse_video := False\<rparr>) else Some s)
      else Some s)"

definition sgr_at :: "nat \<Rightarrow> ('w::len) word flanterm_context \<Rightarrow> (nat \<times> ('w::len) word flanterm_context) option" where
  "sgr_at i s = do {
     e \<leftarrow> rd (esc_values s) i;
     if unat e = 38 \<or> unat e = 48 then sgr_extended i (unat e = 38) s
     else do { s1 \<leftarrow> sgr_value (unat e) s; Some (i + 1, s1) } }"

text \<open>The values of the sequence stay as they are, so the loop ends.\<close>

definition same_values :: "'v flanterm_context \<Rightarrow> 'v flanterm_context \<Rightarrow> bool" where
  "same_values s s' \<longleftrightarrow> esc_values s' = esc_values s \<and> esc_values_i s' = esc_values_i s"

lemma on_fb_values: "on_fb f s = Some s' \<Longrightarrow> same_values s s'"
  by (auto simp: on_fb_def same_values_def)

lemma same_values_trans: "same_values s t \<Longrightarrow> same_values t u \<Longrightarrow> same_values s u"
  by (simp add: same_values_def)

lemma same_values_update [simp]:
  "same_values (s\<lparr>bold := b\<rparr>) t = same_values s t" "same_values (s\<lparr>bg_bold := b\<rparr>) t = same_values s t"
  "same_values (s\<lparr>reverse_video := b\<rparr>) t = same_values s t"
  "same_values (s\<lparr>current_primary := k\<rparr>) t = same_values s t"
  "same_values (s\<lparr>current_bg := k\<rparr>) t = same_values s t" "same_values s s"
  by (simp_all add: same_values_def)

lemma swap_values: "swap_if_reversed s = Some s' \<Longrightarrow> same_values s s'"
  by (auto simp: swap_if_reversed_def dest: on_fb_values split: if_splits)

lemma sgr_parts_values:
  "sgr_reset s = Some s' \<Longrightarrow> same_values s s'"
  "sgr_bold s = Some s' \<Longrightarrow> same_values s s'"
  "sgr_bg_bold s = Some s' \<Longrightarrow> same_values s s'"
  "sgr_no_bold s = Some s' \<Longrightarrow> same_values s s'"
  "sgr_no_bg_bold s = Some s' \<Longrightarrow> same_values s s'"
  "sgr_set_fg k s = Some s' \<Longrightarrow> same_values s s'"
  "sgr_set_bg k s = Some s' \<Longrightarrow> same_values s s'"
  "sgr_default_fg s = Some s' \<Longrightarrow> same_values s s'"
  "sgr_default_bg s = Some s' \<Longrightarrow> same_values s s'"
  unfolding sgr_reset_def sgr_bold_def sgr_bg_bold_def sgr_no_bold_def sgr_no_bg_bold_def sgr_set_fg_def
    sgr_set_bg_def sgr_default_fg_def sgr_default_bg_def Let_def
  by (fastforce dest!: on_fb_values swap_values intro: same_values_trans
        split: Option.bind_splits if_splits)+

lemma sgr_value_values: "sgr_value v s = Some s' \<Longrightarrow> same_values s s'"
  unfolding sgr_value_def Let_def
  by (simp split: if_split_asm; drule on_fb_values sgr_parts_values; simp)

lemma sgr_extended_values:
  "sgr_extended i fg s = Some (j, s') \<Longrightarrow> i < esc_values_i s \<Longrightarrow> same_values s s' \<and> i < j"
  unfolding sgr_extended_def Let_def
  by (auto split: if_split_asm Option.bind_split_asm dest: on_fb_values)

lemma sgr_at_values:
  "sgr_at i s = Some (j, s') \<Longrightarrow> i < esc_values_i s \<Longrightarrow> same_values s s' \<and> i < j"
  unfolding sgr_at_def
  by (auto split: if_split_asm Option.bind_split_asm dest: sgr_extended_values sgr_value_values)

function sgr_loop :: "nat \<Rightarrow> ('w::len) word flanterm_context \<Rightarrow> ('w::len) word flanterm_context option" where
  "sgr_loop i s =
     (if i < esc_values_i s
      then (case sgr_at i s of None \<Rightarrow> None | Some (j, s1) \<Rightarrow> sgr_loop j s1)
      else Some s)"
  by pat_completeness auto
termination
proof (relation "measure (\<lambda>(i, s). esc_values_i s - i)", goal_cases)
  case (2 i s p j s1)
  then have "same_values s s1 \<and> i < j" using sgr_at_values by blast
  with 2 show ?case by (auto simp: same_values_def)
qed simp

declare sgr_loop.simps [simp del]

text \<open>Without a value the code jumps into the loop, to the label \<open>def\<close>, and leaves it at once.\<close>

definition sgr :: "('w::len) word flanterm_context \<Rightarrow> ('w::len) word flanterm_context option" where
  "sgr s = (if esc_values_i s = 0 then sgr_reset s else sgr_loop 0 s)"

section \<open>Modes and strings\<close>

definition dec_private_parse :: "u8 \<Rightarrow> ('w::len) word flanterm_context \<Rightarrow> ('w::len) word flanterm_context option" where
  "dec_private_parse c s = (let s1 = s\<lparr>dec_private := False\<rparr> in
     if esc_values_i s1 = 0 then Some s1
     else if c = ch CHR ''h'' \<or> c = ch CHR ''l'' then do {
       v \<leftarrow> rd (esc_values s1) 0;
       Some (if unat v = 25 then s1\<lparr>fbc := (fbc s1)\<lparr>cursor_enabled := c = ch CHR ''h''\<rparr>\<rparr>
             else report (Cb_dec (esc_values_i s1) (esc_values s1) c) s1) }
     else Some s1)"

definition linux_private_parse :: "('w::len) word flanterm_context \<Rightarrow> ('w::len) word flanterm_context" where
  "linux_private_parse s =
     (if esc_values_i s = 0 then s else report (Cb_linux (esc_values_i s) (esc_values s)) s)"

definition mode_toggle :: "u8 \<Rightarrow> ('w::len) word flanterm_context \<Rightarrow> ('w::len) word flanterm_context option" where
  "mode_toggle c s =
     (if esc_values_i s = 0 then Some s
      else if c = ch CHR ''h'' \<or> c = ch CHR ''l'' then do {
        v \<leftarrow> rd (esc_values s) 0;
        Some (if unat v = 4 then s\<lparr>insert_mode := c = ch CHR ''h''\<rparr>
              else report (Cb_mode (esc_values_i s) (esc_values s) c) s) }
      else Some s)"

definition osc_parse :: "u8 \<Rightarrow> ('w::len) word flanterm_context \<Rightarrow> ('w::len) word flanterm_context" where
  "osc_parse c s =
     (let closed = s\<lparr>osc_escape := False, osc := False, escape := False\<rparr>
      in if osc_escape s \<and> c = 0x5C then closed
         else if c = 0x1B then s\<lparr>osc_escape := True\<rparr>
         else closed)"

section \<open>Control sequences\<close>

definition set_value :: "nat \<Rightarrow> ('w::len) word \<Rightarrow> 'w word flanterm_context \<Rightarrow> 'w word flanterm_context option" where
  "set_value k v s = do { vs \<leftarrow> wr (esc_values s) k v; Some (s\<lparr>esc_values := vs\<rparr>) }"

text \<open>Cursor up (\<open>A\<close>, and \<open>F\<close> with \<open>x\<close> at 0) and down (\<open>B\<close>, \<open>e\<close>, and \<open>E\<close>).\<close>

definition csi_up :: "nat \<Rightarrow> nat \<Rightarrow> ('w::len) word flanterm_context \<Rightarrow> ('w::len) word flanterm_context option" where
  "csi_up x y s = do {
     v0 \<leftarrow> rd (esc_values s) 0;
     let v = (if y < unat v0 then word_of_nat y else v0);
     s1 \<leftarrow> set_value 0 v s;
     let dest = size_sub y (unat v);
     let upper = scroll_top_margin (fbc s1);
     let lower = scroll_bottom_margin (fbc s1);
     let in_region = (dest \<le> upper \<and> upper \<le> y \<or> dest \<le> lower \<and> lower \<le> y);
     goto x (if in_region \<and> dest < upper then upper else dest) s1 }"

definition csi_down :: "nat \<Rightarrow> nat \<Rightarrow> ('w::len) word flanterm_context \<Rightarrow> ('w::len) word flanterm_context option" where
  "csi_down x y s = do {
     v0 \<leftarrow> rd (esc_values s) 0;
     let last = size_sub (rows (fbc s)) 1;
     let v = (if last < size_add y (unat v0) then word_of_nat (size_sub last y) else v0);
     s1 \<leftarrow> set_value 0 v s;
     let dest = size_add y (unat v);
     let upper = scroll_top_margin (fbc s1);
     let lower = scroll_bottom_margin (fbc s1);
     let in_region = (y \<le> upper \<and> upper \<le> dest \<or> y \<le> lower \<and> lower \<le> dest);
     goto x (if in_region \<and> lower \<le> dest then size_sub lower 1 else dest) s1 }"

definition csi_right :: "nat \<Rightarrow> nat \<Rightarrow> ('w::len) word flanterm_context \<Rightarrow> ('w::len) word flanterm_context option" where
  "csi_right x y s = do {
     v0 \<leftarrow> rd (esc_values s) 0;
     let last = size_sub (cols (fbc s)) 1;
     let v = (if last < size_add x (unat v0) then word_of_nat (size_sub last x) else v0);
     s1 \<leftarrow> set_value 0 v s;
     goto (size_add x (unat v)) y s1 }"

definition csi_left :: "nat \<Rightarrow> nat \<Rightarrow> ('w::len) word flanterm_context \<Rightarrow> ('w::len) word flanterm_context option" where
  "csi_left x y s = do {
     v0 \<leftarrow> rd (esc_values s) 0;
     let v = (if x < unat v0 then word_of_nat x else v0);
     s1 \<leftarrow> set_value 0 v s;
     goto (size_sub x (unat v)) y s1 }"

text \<open>Absolute row (\<open>d\<close>) and column (\<open>G\<close>), both (\<open>H\<close>).\<close>

definition clamped_value :: "('w::len) word \<Rightarrow> nat \<Rightarrow> 'w word" where
  "clamped_value v n = (if n \<le> unat v then word_of_nat (size_sub n 1) else v)"

definition csi_row :: "nat \<Rightarrow> ('w::len) word flanterm_context \<Rightarrow> ('w::len) word flanterm_context option" where
  "csi_row x s = do {
     v0 \<leftarrow> rd (esc_values s) 0;
     let v = clamped_value (v0 - 1) (rows (fbc s));
     s1 \<leftarrow> set_value 0 v s;
     goto x (unat v) s1 }"

definition csi_column :: "nat \<Rightarrow> ('w::len) word flanterm_context \<Rightarrow> ('w::len) word flanterm_context option" where
  "csi_column y s = do {
     v0 \<leftarrow> rd (esc_values s) 0;
     let v = clamped_value (v0 - 1) (cols (fbc s));
     s1 \<leftarrow> set_value 0 v s;
     goto (unat v) y s1 }"

definition csi_position :: "('w::len) word flanterm_context \<Rightarrow> ('w::len) word flanterm_context option" where
  "csi_position s = do {
     r0 \<leftarrow> rd (esc_values s) 0;
     c0 \<leftarrow> rd (esc_values s) 1;
     let c = clamped_value (if c0 \<noteq> 0 then c0 - 1 else c0) (cols (fbc s));
     let r = clamped_value (if r0 \<noteq> 0 then r0 - 1 else r0) (rows (fbc s));
     s1 \<leftarrow> set_value 1 c s;
     s2 \<leftarrow> set_value 0 r s1;
     goto (unat c) (unat r) s2 }"

text \<open>Lines: \<open>M\<close> scrolls the region; \<open>L\<close> scrolls down with the cursor's line as its top.\<close>

definition csi_scroll :: "('w::len) word flanterm_context \<Rightarrow> ('w::len) word flanterm_context option" where
  "csi_scroll s = do {
     v \<leftarrow> rd (esc_values s) 0;
     let count = (if rows (fbc s) < unat v then rows (fbc s) else unat v);
     for_each (\<lambda>_. on_fb flanterm_fb_scroll) [0..<count] s }"

definition csi_insert_lines :: "nat \<Rightarrow> ('w::len) word flanterm_context \<Rightarrow> ('w::len) word flanterm_context option" where
  "csi_insert_lines y s = do {
     let old = scroll_top_margin (fbc s);
     let s1 = s\<lparr>fbc := (fbc s)\<lparr>scroll_top_margin := y\<rparr>\<rparr>;
     v \<leftarrow> rd (esc_values s1) 0;
     let count = (if rows (fbc s1) < unat v then rows (fbc s1) else unat v);
     s2 \<leftarrow> for_each (\<lambda>_. on_fb flanterm_fb_revscroll) [0..<count] s1;
     Some (s2\<lparr>fbc := (fbc s2)\<lparr>scroll_top_margin := old\<rparr>\<rparr>) }"

text \<open>Erase in the display: \<open>erase_until\<close> is the nested loop of the case \<open>1\<close>, over the cells in order.\<close>

fun erase_until :: "nat \<Rightarrow> nat \<Rightarrow> (nat \<times> nat) list \<Rightarrow> ('w::len) word flanterm_context \<Rightarrow> ('w::len) word flanterm_context option" where
  "erase_until x y [] s = Some s"
| "erase_until x y ((yc, xc) # cells) s = do {
     s1 \<leftarrow> put 32 s;
     if xc = x \<and> yc = y then goto x y s1 else erase_until x y cells s1 }"

definition put_blanks :: "nat \<Rightarrow> ('w::len) word flanterm_context \<Rightarrow> ('w::len) word flanterm_context option" where
  "put_blanks n s = for_each (\<lambda>_. put 32) [0..<n] s"

definition csi_erase_display :: "nat \<Rightarrow> nat \<Rightarrow> ('w::len) word flanterm_context \<Rightarrow> ('w::len) word flanterm_context option" where
  "csi_erase_display x y s = do {
     v \<leftarrow> rd (esc_values s) 0;
     if unat v = 0 then do {
       let rows_remaining = size_sub (rows (fbc s)) (y + 1);
       let cols_diff = size_sub (cols (fbc s)) (x + 1);
       s1 \<leftarrow> put_blanks (rows_remaining * cols (fbc s) + cols_diff + 1) s;
       goto x y s1 }
     else if unat v = 1 then do {
       s1 \<leftarrow> goto 0 0 s;
       erase_until x y (List.product [0..<rows (fbc s1)] [0..<cols (fbc s1)]) s1 }
     else if unat v = 2 \<or> unat v = 3 then on_fb (flanterm_fb_clear False) s
     else Some s }"

definition csi_erase_line :: "nat \<Rightarrow> nat \<Rightarrow> ('w::len) word flanterm_context \<Rightarrow> ('w::len) word flanterm_context option" where
  "csi_erase_line x y s = do {
     v \<leftarrow> rd (esc_values s) 0;
     if unat v = 0 then do { s1 \<leftarrow> put_blanks (cols (fbc s) - x) s; goto x y s1 }
     else if unat v = 1 then do { s1 \<leftarrow> goto 0 y s; put_blanks x s1 }
     else if unat v = 2 then do {
       s1 \<leftarrow> goto 0 y s; s2 \<leftarrow> put_blanks (cols (fbc s1)) s1; goto x y s2 }
     else Some s }"

text \<open>
  Insert characters: the loop counts down from the last column and stops only at \<open>x\<close>, so below
  \<open>0\<close> it would go on from \<open>SIZE_MAX\<close>.
\<close>

partial_function (option) insert_blanks ::
  "nat \<Rightarrow> nat \<Rightarrow> nat \<Rightarrow> ('w::len) word flanterm_context \<Rightarrow> 'w word flanterm_context option" where
  "insert_blanks x y i s = do {
     v \<leftarrow> rd (esc_values s) 0;
     s1 \<leftarrow> on_fb (flanterm_fb_move_character (size_add i (unat v)) y i y) s;
     s2 \<leftarrow> goto i y s1;
     s3 \<leftarrow> put 32 s2;
     if i = x then Some s3 else insert_blanks x y (size_sub i 1) s3 }"

definition csi_insert_chars :: "nat \<Rightarrow> nat \<Rightarrow> ('w::len) word flanterm_context \<Rightarrow> 'w word flanterm_context option" where
  "csi_insert_chars x y s = do {
     s1 \<leftarrow> insert_blanks x y (size_sub (cols (fbc s)) 1) s;
     goto x y s1 }"

definition csi_erase_chars :: "nat \<Rightarrow> nat \<Rightarrow> ('w::len) word flanterm_context \<Rightarrow> ('w::len) word flanterm_context option" where
  "csi_erase_chars x y s = do {
     v \<leftarrow> rd (esc_values s) 0;
     s1 \<leftarrow> put_blanks (if cols (fbc s) < unat v then cols (fbc s) else unat v) s;
     goto x y s1 }"

text \<open>Delete characters: the rest of the line moves left, then the case falls through to erasing.\<close>

definition csi_delete_chars :: "nat \<Rightarrow> nat \<Rightarrow> ('w::len) word flanterm_context \<Rightarrow> ('w::len) word flanterm_context option" where
  "csi_delete_chars x y s = do {
     v \<leftarrow> rd (esc_values s) 0;
     s1 \<leftarrow> for_each (\<lambda>i. on_fb (flanterm_fb_move_character (size_sub i (unat v)) y i y))
            [size_add x (unat v)..<cols (fbc s)] s;
     s2 \<leftarrow> goto (size_sub (cols (fbc s1)) (unat v)) y s1;
     csi_erase_chars x y s2 }"

definition csi_margins :: "('w::len) word flanterm_context \<Rightarrow> ('w::len) word flanterm_context option" where
  "csi_margins s = do {
     a0 \<leftarrow> rd (esc_values s) 0;
     s1 \<leftarrow> set_value 0 (if a0 = 0 then 1 else a0) s;
     b0 \<leftarrow> rd (esc_values s1) 1;
     s2 \<leftarrow> set_value 1 (if b0 = 0 then 1 else b0) s1;
     a \<leftarrow> rd (esc_values s2) 0;
     b \<leftarrow> rd (esc_values s2) 1;
     let n = rows (fbc s2);
     let upper = (if 0 < esc_values_i s2 then unat (a - 1) else 0);
     let lower = (if 1 < esc_values_i s2 then unat b else n);
     let bad = (n \<le> upper \<or> n < lower \<or> size_sub lower 1 \<le> upper);
     goto 0 0 (s2\<lparr>fbc := (fbc s2)\<lparr>scroll_top_margin := (if bad then 0 else upper),
                                   scroll_bottom_margin := (if bad then n else lower)\<rparr>\<rparr>) }"

definition csi_report :: "nat \<Rightarrow> nat \<Rightarrow> ('w::len) word flanterm_context \<Rightarrow> ('w::len) word flanterm_context option" where
  "csi_report x y s = do {
     v \<leftarrow> rd (esc_values s) 0;
     Some (if unat v = 5 then report Cb_status_report s
           else if unat v = 6 then report (Cb_pos_report (x + 1) (y + 1)) s
           else s) }"

text \<open>The switch on the final character; \<open>x\<close> and \<open>y\<close> are the position of the cursor.\<close>

definition csi_dispatch :: "u8 \<Rightarrow> nat \<Rightarrow> nat \<Rightarrow> ('w::len) word flanterm_context \<Rightarrow> 'w word flanterm_context option" where
  "csi_dispatch c x y s =
     (if c = ch CHR ''F'' then csi_up 0 y s
      else if c = ch CHR ''A'' then csi_up x y s
      else if c = ch CHR ''E'' then csi_down 0 y s
      else if c = ch CHR ''e'' \<or> c = ch CHR ''B'' then csi_down x y s
      else if c = ch CHR ''a'' \<or> c = ch CHR ''C'' then csi_right x y s
      else if c = ch CHR ''D'' then csi_left x y s
      else if c = ch CHR ''c'' then Some (report Cb_private_id s)
      else if c = ch CHR ''d'' then csi_row x s
      else if c = ch CHR ''G'' \<or> c = 0x60 then csi_column y s
      else if c = ch CHR ''H'' \<or> c = ch CHR ''f'' then csi_position s
      else if c = ch CHR ''M'' then csi_scroll s
      else if c = ch CHR ''L'' then csi_insert_lines y s
      else if c = ch CHR ''n'' then csi_report x y s
      else if c = ch CHR ''q'' then do { v \<leftarrow> rd (esc_values s) 0; Some (report (Cb_kbd_leds v) s) }
      else if c = ch CHR ''J'' then csi_erase_display x y s
      else if c = ch CHR ''@'' then csi_insert_chars x y s
      else if c = ch CHR ''P'' then csi_delete_chars x y s
      else if c = ch CHR ''X'' then csi_erase_chars x y s
      else if c = ch CHR ''m'' then sgr s
      else if c = ch CHR ''s'' then
        (let (px, py) = flanterm_fb_get_cursor_pos (fbc s) in Some (s\<lparr>saved_cursor_x := px, saved_cursor_y := py\<rparr>))
      else if c = ch CHR ''u'' then goto (saved_cursor_x s) (saved_cursor_y s) s
      else if c = ch CHR ''K'' then csi_erase_line x y s
      else if c = ch CHR ''r'' then csi_margins s
      else if c = ch CHR ''l'' \<or> c = ch CHR ''h'' then mode_toggle c s
      else if c = ch CHR '']'' then Some (linux_private_parse s)
      else Some s)"

text \<open>The label \<open>cleanup\<close>.\<close>

definition csi_cleanup :: "'v flanterm_context \<Rightarrow> 'v flanterm_context" where
  "csi_cleanup s = s\<lparr>control_sequence := False, escape := False\<rparr>"

text \<open>A digit of a value, and the values that were not given.\<close>

definition csi_digit :: "u8 \<Rightarrow> ('w::len) word flanterm_context \<Rightarrow> 'w word flanterm_context option" where
  "csi_digit c s =
     (if esc_values_i s = length (esc_values s) then Some s
      else do {
        v \<leftarrow> rd (esc_values s) (esc_values_i s);
        set_value (esc_values_i s) (v * 10 + word_of_nat (unat c - 48)) (s\<lparr>rrr := True\<rparr>) })"

definition fill_defaults :: "('w::len) word \<Rightarrow> 'w word flanterm_context \<Rightarrow> 'w word flanterm_context option" where
  "fill_defaults v s =
     for_each (\<lambda>i. set_value i v) [esc_values_i s..<length (esc_values s)] s"

definition csi_final :: "u8 \<Rightarrow> ('w::len) word flanterm_context \<Rightarrow> 'w word flanterm_context option" where
  "csi_final c s = do {
     s1 \<leftarrow> fill_defaults (if c = ch CHR ''J'' \<or> c = ch CHR ''K'' \<or> c = ch CHR ''q'' then 0 else 1) s;
     if dec_private s1 then map_option csi_cleanup (dec_private_parse c s1)
     else do {
       let r = scroll_enabled (fbc s1);
       let s2 = s1\<lparr>fbc := (fbc s1)\<lparr>scroll_enabled := False\<rparr>\<rparr>;
       let (x, y) = flanterm_fb_get_cursor_pos (fbc s2);
       s3 \<leftarrow> csi_dispatch c x y s2;
       Some (csi_cleanup (s3\<lparr>fbc := (fbc s3)\<lparr>scroll_enabled := r\<rparr>\<rparr>)) } }"

definition control_sequence_parse :: "u8 \<Rightarrow> ('w::len) word flanterm_context \<Rightarrow> 'w word flanterm_context option" where
  "control_sequence_parse c s =
     (if escape_offset s = 2 \<and> c = ch CHR ''['' then Some (csi_cleanup (s\<lparr>discard_next := True\<rparr>))
      else if escape_offset s = 2 \<and> c = ch CHR ''?'' then Some (s\<lparr>dec_private := True\<rparr>)
      else if ch CHR ''0'' \<le> c \<and> c \<le> ch CHR ''9'' then csi_digit c s
      else if rrr s then
        (let s1 = s\<lparr>esc_values_i := esc_values_i s + 1, rrr := False\<rparr>
         in if c = ch CHR '';'' then Some s1 else csi_final c s1)
      else if c = ch CHR '';'' then
        (if esc_values_i s = length (esc_values s) then Some s
         else do {
           s1 \<leftarrow> set_value (esc_values_i s) 0 s;
           Some (s1\<lparr>esc_values_i := esc_values_i s1 + 1\<rparr>) })
      else csi_final c s)"

section \<open>Escapes\<close>

definition restore_state :: "('w::len) word flanterm_context \<Rightarrow> 'w word flanterm_context" where
  "restore_state s = s\<lparr>bold := saved_state_bold s, bg_bold := saved_state_bg_bold s,
     reverse_video := saved_state_reverse_video s, current_charset := saved_state_current_charset s,
     current_primary := saved_state_current_primary s, current_bg := saved_state_current_bg s,
     fbc := flanterm_fb_restore_state (fbc s)\<rparr>"

definition save_state :: "('w::len) word flanterm_context \<Rightarrow> 'w word flanterm_context" where
  "save_state s = s\<lparr>fbc := flanterm_fb_save_state (fbc s), saved_state_bold := bold s,
     saved_state_bg_bold := bg_bold s, saved_state_reverse_video := reverse_video s,
     saved_state_current_charset := current_charset s,
     saved_state_current_primary := current_primary s, saved_state_current_bg := current_bg s\<rparr>"

text \<open>
  A line feed that stays in the column \<open>x'\<close> (\<open>ESC D\<close>, \<open>ESC E\<close> and the newline characters).
\<close>

definition line_feed :: "nat \<Rightarrow> nat \<Rightarrow> ('w::len) word flanterm_context \<Rightarrow> 'w word flanterm_context option" where
  "line_feed x' y s =
     (if y = size_sub (scroll_bottom_margin (fbc s)) 1
      then do { s1 \<leftarrow> on_fb flanterm_fb_scroll s; goto x' y s1 }
      else goto x' (y + 1) s)"

definition escape_command :: "u8 \<Rightarrow> ('w::len) word flanterm_context \<Rightarrow> 'w word flanterm_context option" where
  "escape_command c s = (let (x, y) = flanterm_fb_get_cursor_pos (fbc s) in
     if c = ch CHR '']'' then Some (s\<lparr>osc_escape := False, osc := True\<rparr>)
     else if c = ch CHR ''['' then
       Some (s\<lparr>esc_values := replicate (length (esc_values s)) 0, esc_values_i := 0, rrr := False,
               control_sequence := True\<rparr>)
     else map_option (\<lambda>s. s\<lparr>escape := False\<rparr>)
      (if c = ch CHR ''7'' then Some (save_state s)
       else if c = ch CHR ''8'' then Some (restore_state s)
       else if c = ch CHR ''c'' then on_fb (flanterm_fb_clear True) (flanterm_context_reinit s)
       else if c = ch CHR ''D'' then line_feed x y s
       else if c = ch CHR ''E'' then line_feed 0 y s
       else if c = ch CHR ''M'' then
         (if y = scroll_top_margin (fbc s)
          then do { s1 \<leftarrow> on_fb flanterm_fb_revscroll s; goto 0 y s1 }
          else goto 0 (size_sub y 1) s)
       else if c = ch CHR ''Z'' then Some (report Cb_private_id s)
       else if c = ch CHR ''('' then Some (s\<lparr>g_select := 1\<rparr>)
       else if c = ch CHR '')'' then Some (s\<lparr>g_select := 2\<rparr>)
       else Some s))"

definition escape_parse :: "u8 \<Rightarrow> ('w::len) word flanterm_context \<Rightarrow> 'w word flanterm_context option" where
  "escape_parse c s = (let s1 = s\<lparr>escape_offset := escape_offset s + 1\<rparr> in
     if osc s1 then Some (osc_parse c s1)
     else if control_sequence s1 then control_sequence_parse c s1
     else escape_command c s1)"

section \<open>Characters\<close>

definition dec_special_table :: "(u8 \<times> nat) list" where
  "dec_special_table = [
     (ch CHR 0x60, 0x04), (ch CHR ''0'', 0xDB), (ch CHR ''-'', 0x18), (ch CHR '','', 0x1B),
     (ch CHR ''.'', 0x19), (ch CHR ''a'', 0xB1), (ch CHR ''f'', 0xF8), (ch CHR ''g'', 0xF1),
     (ch CHR ''h'', 0xB0), (ch CHR ''j'', 0xD9), (ch CHR ''k'', 0xBF), (ch CHR ''l'', 0xDA),
     (ch CHR ''m'', 0xC0), (ch CHR ''n'', 0xC5), (ch CHR ''q'', 0xC4), (ch CHR ''s'', 0x5F),
     (ch CHR ''t'', 0xC3), (ch CHR ''u'', 0xB4), (ch CHR ''v'', 0xC1), (ch CHR ''w'', 0xC2),
     (ch CHR ''x'', 0xB3), (ch CHR ''y'', 0xF3), (ch CHR ''z'', 0xF2), (ch CHR ''~'', 0xFA),
     (ch CHR ''_'', 0xFF), (ch CHR ''+'', 0x1A), (ch CHR ''{'', 0xE3), (ch CHR ''}'', 0x9C)]"

text \<open>A character of UTF-8 that is complete: its image in the font, or a replacement of its width.\<close>

definition print_code_point :: "('w::len) word flanterm_context \<Rightarrow> 'w word flanterm_context option" where
  "print_code_point s = (let cc = unicode_to_cp437 (code_point s) in
     if cc = -1 then do {
       w \<leftarrow> mk_wcwidth (ucast (code_point s));
       let replacement_width = nat (w mod 2 ^ 64);
       s1 \<leftarrow> (if 0 < replacement_width then put 0xFE s else Some s);
       put_blanks (replacement_width - 1) s1 }
     else put (nat (cc mod 256)) s)"

text \<open>The loop of the insert mode, which moves the characters to the right of the cursor.\<close>

partial_function (option) shift_right ::
  "nat \<Rightarrow> nat \<Rightarrow> nat \<Rightarrow> ('w::len) word flanterm_context \<Rightarrow> 'w word flanterm_context option" where
  "shift_right x y i s = do {
     s1 \<leftarrow> on_fb (flanterm_fb_move_character (size_add i 1) y i y) s;
     if i = x then Some s1 else shift_right x y (size_sub i 1) s1 }"

definition print_byte :: "nat \<Rightarrow> nat \<Rightarrow> u8 \<Rightarrow> ('w::len) word flanterm_context \<Rightarrow> 'w word flanterm_context option" where
  "print_byte x y c s = do {
     s1 \<leftarrow> (if insert_mode s then shift_right x y (size_sub (cols (fbc s)) 1) s else Some s);
     set \<leftarrow> rd (charsets s1) (current_charset s1);
     case (if set = Charset_dec_special then map_of dec_special_table c else None) of
       Some g \<Rightarrow> put g s1
     | None \<Rightarrow> if 0x20 \<le> c \<and> c \<le> 0x7E then put (unat c) s1 else put 0xFE s1 }"

definition tab_stop :: "nat \<Rightarrow> nat \<Rightarrow> ('w::len) word flanterm_context \<Rightarrow> 'w word flanterm_context option" where
  "tab_stop x y s =
     (if tab_size s = 0 then None
      else if cols (fbc s) \<le> x div tab_size s + 1 then goto (size_sub (cols (fbc s)) 1) y s
      else goto ((x div tab_size s + 1) * tab_size s) y s)"

text \<open>A byte outside escapes and UTF-8.\<close>

definition plain_byte :: "u8 \<Rightarrow> ('w::len) word flanterm_context \<Rightarrow> 'w word flanterm_context option" where
  "plain_byte c s = (let (x, y) = flanterm_fb_get_cursor_pos (fbc s) in
     if c = 0 \<or> c = 0x7F then Some s
     else if c = 0x1B then Some (s\<lparr>escape_offset := 0, escape := True\<rparr>)
     else if c = 9 then tab_stop x y s
     else if c = 0x0B \<or> c = 0x0C \<or> c = 10 then
       line_feed (if oob_output s AND oob_onlcr s \<noteq> 0 then 0 else x) y s
     else if c = 8 then goto (size_sub x 1) y s
     else if c = 13 then goto 0 y s
     else if c = 7 then Some (report Cb_bell s)
     else if c = 14 then Some (s\<lparr>current_charset := 1\<rparr>)
     else if c = 15 then Some (s\<lparr>current_charset := 0\<rparr>)
     else print_byte x y c s)"

definition select_charset :: "u8 \<Rightarrow> ('w::len) word flanterm_context \<Rightarrow> 'w word flanterm_context option" where
  "select_charset c s = (let g = g_select s - 1 in
     if c = ch CHR ''B'' then do {
       cs \<leftarrow> wr (charsets s) g Charset_default; Some (s\<lparr>charsets := cs, g_select := 0\<rparr>) }
     else if c = ch CHR ''0'' then do {
       cs \<leftarrow> wr (charsets s) g Charset_dec_special; Some (s\<lparr>charsets := cs, g_select := 0\<rparr>) }
     else Some (s\<lparr>g_select := 0\<rparr>))"

text \<open>The part of \<open>flanterm_putchar\<close> from the label \<open>unicode_error\<close> on.\<close>

definition utf8_lead :: "u8 \<Rightarrow> (nat \<times> u64) option" where
  "utf8_lead c =
     (if 0xC0 \<le> c \<and> c \<le> 0xDF then Some (1, push_bit 6 (ucast (c AND 0x1F)))
      else if 0xE0 \<le> c \<and> c \<le> 0xEF then Some (2, push_bit 12 (ucast (c AND 0x0F)))
      else if 0xF0 \<le> c \<and> c \<le> 0xF7 then Some (3, push_bit 18 (ucast (c AND 0x07)))
      else None)"

definition start_byte :: "u8 \<Rightarrow> ('w::len) word flanterm_context \<Rightarrow> 'w word flanterm_context option" where
  "start_byte c s =
     (case utf8_lead c of
        Some (n, cp) \<Rightarrow> Some (s\<lparr>unicode_remaining := n, code_point := cp\<rparr>)
      | None \<Rightarrow> if escape s then escape_parse c s
                else if g_select s \<noteq> 0 then select_charset c s
                else plain_byte c s)"

definition flanterm_putchar :: "u8 \<Rightarrow> ('w::len) word flanterm_context \<Rightarrow> 'w word flanterm_context option" where
  "flanterm_putchar c s =
     (if discard_next s \<or> c = 0x18 \<or> c = 0x1A then
        Some (s\<lparr>discard_next := False, escape := False, control_sequence := False, unicode_remaining := 0,
                osc := False, osc_escape := False, g_select := 0\<rparr>)
      else if unicode_remaining s \<noteq> 0 then
        (if c AND 0xC0 \<noteq> 0x80 then start_byte c (s\<lparr>unicode_remaining := 0\<rparr>)
         else (let n = unicode_remaining s - 1;
                   s1 = s\<lparr>unicode_remaining := n,
                          code_point := code_point s OR push_bit (6 * n) (ucast (c AND 0x3F))\<rparr>
               in if n \<noteq> 0 then Some s1 else print_code_point s1))
      else start_byte c s)"

section \<open>The interface\<close>

definition flanterm_flush :: "('w::len) word flanterm_context \<Rightarrow> 'w word flanterm_context option" where
  "flanterm_flush s = on_fb flanterm_fb_double_buffer_flush s"

definition flanterm_write_ctx :: "bytes \<Rightarrow> ('w::len) word flanterm_context \<Rightarrow> 'w word flanterm_context option" where
  "flanterm_write_ctx buf s = do {
     s1 \<leftarrow> for_each flanterm_putchar buf s;
     if autoflush s1 then flanterm_flush s1 else Some s1 }"

definition flanterm_full_refresh :: "('w::len) word flanterm_context \<Rightarrow> 'w word flanterm_context option" where
  "flanterm_full_refresh s = on_fb flanterm_fb_full_refresh s"

definition flanterm_get_dimensions :: "('w::len) word flanterm_context \<Rightarrow> nat \<times> nat" where
  "flanterm_get_dimensions s = (cols (fbc s), rows (fbc s))"

definition flanterm_set_autoflush :: "bool \<Rightarrow> ('w::len) word flanterm_context \<Rightarrow> 'w word flanterm_context" where
  "flanterm_set_autoflush b s = s\<lparr>autoflush := b\<rparr>"

definition flanterm_set_callback :: "bool \<Rightarrow> ('w::len) word flanterm_context \<Rightarrow> 'w word flanterm_context" where
  "flanterm_set_callback installed s = s\<lparr>callback := installed\<rparr>"

definition flanterm_get_oob_output :: "('w::len) word flanterm_context \<Rightarrow> u64" where
  "flanterm_get_oob_output s = oob_output s"

definition flanterm_set_oob_output :: "u64 \<Rightarrow> ('w::len) word flanterm_context \<Rightarrow> 'w word flanterm_context" where
  "flanterm_set_oob_output v s = s\<lparr>oob_output := v\<rparr>"

end
