(* ===== verification/FbInit.thy ===== *)
theory FbInit
  imports Flanterm BuiltinFont
begin

text \<open>
  The start and the end of the framebuffer back end (\<open>flanterm_fb_init\<close> and
  \<open>flanterm_fb_deinit\<close> of \<open>kernel/src/src/flanterm_fb_backend.c\<close>): the bump allocator, the
  palette, the font and the arrays of the context, with the path that gives memory back.

  The sizes of the structures and the number of glyphs are declared in the headers of the
  \<open>flanterm\<close> package and are parameters (\<open>fb_sizes\<close>), as are the allocator and the release
  function a caller passes (\<open>None\<close> is \<open>NULL\<close>) and the state \<open>'h\<close> they work on. The elements of
  the masks are in fields wide enough for the sum of two of them. A result \<open>None\<close> stands for
  undefined behaviour: a read or write outside an array, a shift by the width of the operand or
  more, a division by zero.
\<close>

section \<open>Memory\<close>

definition FLANTERM_FB_BUMP_ALLOC_POOL_SIZE :: nat where
  "FLANTERM_FB_BUMP_ALLOC_POOL_SIZE = 873000"

definition FLANTERM_FB_WIDTH_LIMIT :: nat where
  "FLANTERM_FB_WIDTH_LIMIT = 1920"

definition FLANTERM_FB_HEIGHT_LIMIT :: nat where
  "FLANTERM_FB_HEIGHT_LIMIT = 1200"

text \<open>
  The pointers of a context to the blocks it owns and the sizes it keeps of them; a pointer of
  value 0 is \<open>NULL\<close>, as after the \<open>memset\<close> of the context.
\<close>

record fb_fields =
  font_bits :: nat
  font_bits_size :: nat
  font_bool_at :: nat
  font_bool_size :: nat
  grid_at :: nat
  grid_size :: nat
  queue_at :: nat
  queue_size :: nat
  map_at :: nat
  map_size :: nat
  canvas_at :: nat
  canvas_size :: nat

definition no_fields :: fb_fields where
  "no_fields = \<lparr>font_bits = 0, font_bits_size = 0, font_bool_at = 0, font_bool_size = 0, grid_at = 0, grid_size = 0,
     queue_at = 0, queue_size = 0, map_at = 0, map_size = 0, canvas_at = 0, canvas_size = 0\<rparr>"

text \<open>
  The static variables, the address of the pool, the contexts in memory by their address (\<open>None\<close> where
  there is none, or none any more), and the memory of the caller's allocator.
\<close>

record 'h fb_memory =
  bump_alloc_pool :: nat
  bump_alloc_ptr :: nat
  base_offset_added :: bool
  bump_allocated_instance :: bool
  contexts :: "nat \<Rightarrow> fb_fields option"
  outside :: 'h

definition bump_alloc :: "nat \<Rightarrow> 'h fb_memory \<Rightarrow> nat option \<times> 'h fb_memory" where
  "bump_alloc s m =
     (let m1 = (if base_offset_added m then m
                else m\<lparr>bump_alloc_ptr := bump_alloc_ptr m +
                         (if bump_alloc_pool m mod 16 \<noteq> 0 then 16 - bump_alloc_pool m mod 16 else 0),
                       base_offset_added := True\<rparr>);
          s1 = (if s mod 16 \<noteq> 0 then (s + 16) mod 2 ^ 64 div 16 * 16 else s);
          next_ptr = (bump_alloc_ptr m1 + s1) mod 2 ^ 64
      in if FLANTERM_FB_BUMP_ALLOC_POOL_SIZE < next_ptr then (None, m1)
         else (Some (bump_alloc_pool m1 + bump_alloc_ptr m1), m1\<lparr>bump_alloc_ptr := next_ptr\<rparr>))"

text \<open>\<open>_malloc\<close> and \<open>_free\<close> as they are used: a pointer of value 0 is \<open>NULL\<close>.\<close>

type_synonym 'h malloc_fn = "nat \<Rightarrow> 'h \<Rightarrow> nat \<times> 'h"
type_synonym 'h free_fn = "nat \<Rightarrow> nat \<Rightarrow> 'h \<Rightarrow> 'h"

definition fb_malloc :: "'h malloc_fn option \<Rightarrow> nat \<Rightarrow> 'h fb_memory \<Rightarrow> nat option \<times> 'h fb_memory" where
  "fb_malloc f bytes_wanted m =
     (case f of None \<Rightarrow> bump_alloc bytes_wanted m
      | Some malloc \<Rightarrow> let (p, h) = malloc bytes_wanted (outside m)
                        in (if p = 0 then None else Some p, m\<lparr>outside := h\<rparr>))"

text \<open>The sizes and the number of glyphs of the headers of the package.\<close>

record fb_sizes =
  sizeof_fb_context :: nat
  sizeof_fb_char :: nat
  sizeof_queue_item :: nat
  font_glyphs :: nat

text \<open>
  A call of \<open>_free\<close> with a pointer and a size read from the context, the same behind a test for
  \<open>NULL\<close>, and the call that releases the context. The context is read when the call is made: once
  it is released, a read of it is undefined (\<open>None\<close>).
\<close>

definition free_field :: "'h free_fn \<Rightarrow> nat \<Rightarrow> (fb_fields \<Rightarrow> nat) \<Rightarrow> (fb_fields \<Rightarrow> nat) \<Rightarrow>
    'h fb_memory \<Rightarrow> 'h fb_memory option" where
  "free_field free ctx pointer size_of m = do {
     c \<leftarrow> contexts m ctx;
     Some (m\<lparr>outside := free (pointer c) (size_of c) (outside m)\<rparr>) }"

definition free_not_null :: "'h free_fn \<Rightarrow> nat \<Rightarrow> (fb_fields \<Rightarrow> nat) \<Rightarrow> (fb_fields \<Rightarrow> nat) \<Rightarrow>
    'h fb_memory \<Rightarrow> 'h fb_memory option" where
  "free_not_null free ctx pointer size_of m = do {
     c \<leftarrow> contexts m ctx;
     if pointer c \<noteq> 0 then free_field free ctx pointer size_of m else Some m }"

definition free_context :: "fb_sizes \<Rightarrow> 'h free_fn \<Rightarrow> nat \<Rightarrow> 'h fb_memory \<Rightarrow> 'h fb_memory option" where
  "free_context z free ctx m = do {
     _ \<leftarrow> contexts m ctx;
     Some (m\<lparr>contexts := (contexts m)(ctx := None), outside := free ctx (sizeof_fb_context z) (outside m)\<rparr>) }"

text \<open>The label \<open>fail\<close>.\<close>

definition fb_fail :: "fb_sizes \<Rightarrow> 'h malloc_fn option \<Rightarrow> 'h free_fn option \<Rightarrow> nat \<Rightarrow>
    'h fb_memory \<Rightarrow> 'h fb_memory option" where
  "fb_fail z mf ff ctx m =
     (if ctx = 0 then Some m
      else if mf = None then Some (m\<lparr>bump_alloc_ptr := 0\<rparr>)
      else case ff of
        None \<Rightarrow> Some m
      | Some free \<Rightarrow> do {
          m1 \<leftarrow> free_not_null free ctx canvas_at canvas_size m;
          m2 \<leftarrow> free_not_null free ctx map_at map_size m1;
          m3 \<leftarrow> free_not_null free ctx queue_at queue_size m2;
          m4 \<leftarrow> free_not_null free ctx grid_at grid_size m3;
          m5 \<leftarrow> free_not_null free ctx font_bool_at font_bool_size m4;
          m6 \<leftarrow> free_not_null free ctx font_bits font_bits_size m5;
          free_context z free ctx m6 })"

definition flanterm_fb_deinit :: "fb_sizes \<Rightarrow> 'h free_fn option \<Rightarrow> nat \<Rightarrow> 'h fb_memory \<Rightarrow> 'h fb_memory option" where
  "flanterm_fb_deinit z ff ctx m =
     (case ff of
        None \<Rightarrow> Some (if bump_allocated_instance m
                      then m\<lparr>bump_alloc_ptr := 0, bump_allocated_instance := False\<rparr> else m)
      | Some free \<Rightarrow> do {
          m1 \<leftarrow> free_field free ctx font_bits font_bits_size m;
          m2 \<leftarrow> free_field free ctx font_bool_at font_bool_size m1;
          m3 \<leftarrow> free_field free ctx grid_at grid_size m2;
          m4 \<leftarrow> free_field free ctx queue_at queue_size m3;
          m5 \<leftarrow> free_field free ctx map_at map_size m4;
          m6 \<leftarrow> free_not_null free ctx canvas_at canvas_size m5;
          free_context z free ctx m6 })"

definition flanterm_deinit :: "fb_sizes \<Rightarrow> 'h free_fn option \<Rightarrow> nat \<Rightarrow> 'h fb_memory \<Rightarrow> 'h fb_memory option" where
  "flanterm_deinit z ff ctx m = flanterm_fb_deinit z ff ctx m"

text \<open>
  An allocation for a field of the context: the size and the pointer are stored, \<open>NULL\<close> leads to the
  label \<open>fail\<close>, and the rest of the function is the continuation.
\<close>

type_synonym ('w, 'h) fb_started = "('w word flanterm_context \<times> nat) option \<times> 'h fb_memory"

definition need :: "fb_sizes \<Rightarrow> 'h malloc_fn option \<Rightarrow> 'h free_fn option \<Rightarrow> nat \<Rightarrow>
    (nat \<Rightarrow> nat \<Rightarrow> fb_fields \<Rightarrow> fb_fields) \<Rightarrow> nat \<Rightarrow> 'h fb_memory \<Rightarrow>
    ('h fb_memory \<Rightarrow> ('w::len, 'h) fb_started option) \<Rightarrow> ('w, 'h) fb_started option" where
  "need z mf ff ctx store bytes_wanted m k = do {
     let (p, m1) = fb_malloc mf bytes_wanted m;
     c \<leftarrow> contexts m1 ctx;
     let m2 = m1\<lparr>contexts := (contexts m1)(ctx \<mapsto> store (case p of None \<Rightarrow> 0 | Some q \<Rightarrow> q) bytes_wanted c)\<rparr>;
     case p of
       None \<Rightarrow> map_option (Pair None) (fb_fail z mf ff ctx m2)
     | Some _ \<Rightarrow> k m2 }"

section \<open>Arguments\<close>

record fb_args =
  a_framebuffer :: "u32 list"
  a_width :: nat
  a_height :: nat
  a_pitch :: nat
  red_mask_size :: nat
  a_red_mask_shift :: nat
  green_mask_size :: nat
  a_green_mask_shift :: nat
  blue_mask_size :: nat
  a_blue_mask_shift :: nat
  a_canvas :: "u32 list option"
  a_ansi_colours :: "u32 list option"
  a_ansi_bright_colours :: "u32 list option"
  a_default_bg :: "u32 option"
  a_default_fg :: "u32 option"
  a_default_bg_bright :: "u32 option"
  a_default_fg_bright :: "u32 option"
  a_font :: "bytes option"
  a_font_width :: nat
  a_font_height :: nat
  font_spacing :: nat
  a_font_scale_x :: nat
  a_font_scale_y :: nat
  margin :: nat

text \<open>The scale of the font, chosen by the resolution when the caller gives none.\<close>

definition fb_scale :: "fb_args \<Rightarrow> nat \<times> nat" where
  "fb_scale a =
     (if a_font_scale_x a = 0 \<or> a_font_scale_y a = 0 then
        (if 3840 + 3840 div 3 \<le> a_width a \<and> 2160 + 2160 div 3 \<le> a_height a then (4, 4)
         else if 1920 + 1920 div 3 \<le> a_width a \<and> 1080 + 1080 div 3 \<le> a_height a then (2, 2)
         else (1, 1))
      else (a_font_scale_x a, a_font_scale_y a))"

text \<open>
  The window of the framebuffer a context in the pool is limited to; the pointer to it is
  undefined when it is not aligned to a pixel.
\<close>

definition fb_limit :: "fb_args \<Rightarrow> fb_args option" where
  "fb_limit a =
     (let a1 = a\<lparr>a_canvas := None\<rparr>
      in if FLANTERM_FB_WIDTH_LIMIT < a_width a \<or> FLANTERM_FB_HEIGHT_LIMIT < a_height a then
           (let w = min FLANTERM_FB_WIDTH_LIMIT (a_width a);
                h = min FLANTERM_FB_HEIGHT_LIMIT (a_height a);
                off = (a_height a div 2 - h div 2) * a_pitch a + (a_width a div 2 - w div 2) * 4
            in if off mod 4 = 0
               then Some (a1\<lparr>a_framebuffer := drop (off div 4) (a_framebuffer a), a_width := w, a_height := h\<rparr>)
               else None)
         else Some a1)"

section \<open>Colours\<close>

definition convert_all :: "u32 list \<Rightarrow> fb_palette \<Rightarrow> u32 list option" where
  "convert_all cs p = those (map (\<lambda>c. convert_colour c p) cs)"

definition first_8 :: "u32 list \<Rightarrow> u32 list option" where
  "first_8 cs = (if 8 \<le> length cs then Some (take 8 cs) else None)"

definition fb_palette_init :: "fb_args \<Rightarrow> fb_palette option" where
  "fb_palette_init a = do {
     let p = \<lparr>red_mask_shift = a_red_mask_shift a + (red_mask_size a - 8),
              green_mask_shift = a_green_mask_shift a + (green_mask_size a - 8),
              blue_mask_shift = a_blue_mask_shift a + (blue_mask_size a - 8),
              ansi_colours = [], ansi_bright_colours = [],
              default_bg = 0, default_fg = 0, default_bg_bright = 0, default_fg_bright = 0\<rparr>;
     ansi \<leftarrow> (case a_ansi_colours a of Some cs \<Rightarrow> first_8 cs
              | None \<Rightarrow> Some [0, 0xAA0000, 0xAA00, 0xAA5500, 0xAA, 0xAA00AA, 0xAAAA, 0xAAAAAA]);
     ansi1 \<leftarrow> convert_all ansi p;
     bright \<leftarrow> (case a_ansi_bright_colours a of Some cs \<Rightarrow> first_8 cs
              | None \<Rightarrow> Some [0x555555, 0xFF5555, 0x55FF55, 0xFFFF55, 0x5555FF, 0xFF55FF, 0x55FFFF, 0xFFFFFF]);
     bright1 \<leftarrow> convert_all bright p;
     bg \<leftarrow> (case a_default_bg a of Some c \<Rightarrow> convert_colour c p | None \<Rightarrow> Some 0);
     fg \<leftarrow> convert_colour (case a_default_fg a of Some c \<Rightarrow> c | None \<Rightarrow> 0xAAAAAA) p;
     bgb \<leftarrow> convert_colour (case a_default_bg_bright a of Some c \<Rightarrow> c | None \<Rightarrow> 0x555555) p;
     fgb \<leftarrow> convert_colour (case a_default_fg_bright a of Some c \<Rightarrow> c | None \<Rightarrow> 0xFFFFFF) p;
     Some (p\<lparr>ansi_colours := ansi1, ansi_bright_colours := bright1, default_bg := bg, default_fg := fg,
             default_bg_bright := bgb, default_fg_bright := fgb\<rparr>) }"

section \<open>Font\<close>

text \<open>The font of the caller, or the built-in one of 8 by 16 pixels.\<close>

definition fb_font :: "fb_args \<Rightarrow> bytes \<times> nat \<times> nat \<times> nat" where
  "fb_font a =
     (case a_font a of
        Some f \<Rightarrow> (f, a_font_width a, a_font_height a, font_spacing a)
      | None \<Rightarrow> (builtin_font, 8, 16, 1))"

definition font_bits_of :: "nat \<Rightarrow> bytes \<Rightarrow> bytes option" where
  "font_bits_of count f = (if count \<le> length f then Some (take count f) else None)"

text \<open>A line of a glyph: eight dots, and the columns behind them as the VGA fills them.\<close>

definition expand_line :: "bytes \<Rightarrow> nat \<Rightarrow> nat \<Rightarrow> nat \<Rightarrow> nat \<Rightarrow> bool list \<Rightarrow> bool list option" where
  "expand_line bits fh fw i y f = do {
     f1 \<leftarrow> for_each (\<lambda>x f. do {
             b \<leftarrow> rd bits (i * fh + y);
             wr f (i * fh * fw + y * fw + x) (b AND drop_bit x 0x80 \<noteq> 0) }) [0..<8] f;
     for_each (\<lambda>x f. do {
             b \<leftarrow> rd bits (i * fh + y);
             wr f (i * fh * fw + y * fw + x) (0xC0 \<le> i \<and> i \<le> 0xDF \<and> b AND 1 \<noteq> 0) }) [8..<fw] f1 }"

definition expand_font :: "nat \<Rightarrow> bytes \<Rightarrow> nat \<Rightarrow> nat \<Rightarrow> bool list \<Rightarrow> bool list option" where
  "expand_font glyphs bits fh fw f =
     for_each (\<lambda>i. for_each (expand_line bits fh fw i) [0..<fh]) [0..<glyphs] f"

section \<open>The start\<close>

definition fb_plot_fn :: "nat \<times> nat \<Rightarrow> bool \<Rightarrow> plot_fn" where
  "fb_plot_fn sc has_canvas =
     (if sc = (1, 1) then if has_canvas then Unscaled_canvas else Unscaled_uncanvas
      else if has_canvas then Scaled_canvas else Scaled_uncanvas)"

text \<open>
  The context of the core in memory filled with zeros, which \<open>flanterm_context_reinit\<close> sets up;
  \<open>n\<close> is \<open>FLANTERM_MAX_ESC_VALUES\<close> and \<open>onlcr\<close> is \<open>FLANTERM_OOB_OUTPUT_ONLCR\<close>.
\<close>

definition zero_context :: "nat \<Rightarrow> u64 \<Rightarrow> fb_context \<Rightarrow> ('w::len) word flanterm_context" where
  "zero_context n onlcr b = \<lparr>fbc = b, tab_size = 0, autoflush = False, control_sequence = False, escape = False,
     osc = False, osc_escape = False, rrr = False, discard_next = False, bold = False, bg_bold = False,
     reverse_video = False, dec_private = False, insert_mode = False, code_point = 0, unicode_remaining = 0,
     g_select = 0, charsets = replicate 2 Charset_default, current_charset = 0, escape_offset = 0,
     esc_values = replicate n 0, esc_values_i = 0, saved_cursor_x = 0, saved_cursor_y = 0, current_primary = 0,
     current_bg = 0, oob_output = 0, oob_onlcr = onlcr, saved_state_bold = False, saved_state_bg_bold = False,
     saved_state_reverse_video = False, saved_state_current_charset = 0, saved_state_current_primary = 0,
     saved_state_current_bg = 0, callback = False, reports = []\<rparr>"

definition blank_context :: "fb_palette \<Rightarrow> fb_display \<Rightarrow> nat \<Rightarrow> nat \<Rightarrow> fb_context" where
  "blank_context p d c r =
     (let ch = \<lparr>ch_c = 32, ch_fg = default_fg p, ch_bg = 0xFFFFFFFF\<rparr>
      in \<lparr>cols = c, rows = r, scroll_top_margin = 0, scroll_bottom_margin = 0, scroll_enabled = False,
          cursor_enabled = False, display = d, palette = p, text_fg = default_fg p, text_bg = 0xFFFFFFFF,
          cursor_x = 0, cursor_y = 0, saved_state_text_fg = 0, saved_state_text_bg = 0,
          saved_state_cursor_x = 0, saved_state_cursor_y = 0, old_cursor_x = 0, old_cursor_y = 0,
          grid = replicate (r * c) ch,
          queue = replicate (r * c) \<lparr>item_x = 0, item_y = 0, item_c = \<lparr>ch_c = 0, ch_fg = 0, ch_bg = 0\<rparr>\<rparr>,
          queue_i = 0, cell_map = replicate (r * c) None\<rparr>)"

text \<open>From the canvas on; \<open>d\<close> has everything but the canvas and the plot routine.\<close>

definition fb_ready :: "'h malloc_fn option \<Rightarrow> nat \<Rightarrow> u64 \<Rightarrow> fb_palette \<Rightarrow> fb_display \<Rightarrow> nat \<Rightarrow> nat \<Rightarrow>
    nat \<Rightarrow> 'h fb_memory \<Rightarrow> ('w::len, 'h) fb_started option" where
  "fb_ready mf n onlcr p d c r ctx m = do {
     s \<leftarrow> flanterm_full_refresh (flanterm_context_reinit (zero_context n onlcr (blank_context p d c r)));
     Some (Some (s, ctx), if mf = None then m\<lparr>bump_allocated_instance := True\<rparr> else m) }"

definition fb_start_canvas :: "fb_sizes \<Rightarrow> 'h malloc_fn option \<Rightarrow> 'h free_fn option \<Rightarrow> nat \<Rightarrow> u64 \<Rightarrow> fb_args \<Rightarrow>
    fb_palette \<Rightarrow> fb_display \<Rightarrow> nat \<Rightarrow> nat \<Rightarrow> nat \<Rightarrow> 'h fb_memory \<Rightarrow> ('w::len, 'h) fb_started option" where
  "fb_start_canvas z mf ff n onlcr a p d c r ctx m =
     (let sc = (font_scale_x d, font_scale_y d) in
      case a_canvas a of
        None \<Rightarrow> fb_ready mf n onlcr p (d\<lparr>canvas := None, plot_char_fn := fb_plot_fn sc False\<rparr>) c r ctx m
      | Some picture \<Rightarrow>
          need z mf ff ctx (\<lambda>q k f. f\<lparr>canvas_at := q, canvas_size := k\<rparr>) (width d * height d * 4 mod 2 ^ 64) m (\<lambda>m.
            if length picture < width d * height d \<or> 2 ^ 64 \<le> width d * height d * 4 then None
            else do {
              cv \<leftarrow> convert_all (take (width d * height d) picture) p;
              fb_ready mf n onlcr p (d\<lparr>canvas := Some cv, plot_char_fn := fb_plot_fn sc True\<rparr>) c r ctx m }))"

text \<open>The grid, the queue and the pointer table.\<close>

definition fb_start_cells :: "fb_sizes \<Rightarrow> 'h malloc_fn option \<Rightarrow> 'h free_fn option \<Rightarrow> nat \<Rightarrow> u64 \<Rightarrow> fb_args \<Rightarrow>
    fb_palette \<Rightarrow> fb_display \<Rightarrow> nat \<Rightarrow> nat \<Rightarrow> nat \<Rightarrow> 'h fb_memory \<Rightarrow> ('w::len, 'h) fb_started option" where
  "fb_start_cells z mf ff n onlcr a p d c r ctx m =
     need z mf ff ctx (\<lambda>q k f. f\<lparr>grid_at := q, grid_size := k\<rparr>) (r * c * sizeof_fb_char z mod 2 ^ 64) m (\<lambda>m.
       if 2 ^ 64 \<le> r * c * sizeof_fb_char z then None
       else need z mf ff ctx (\<lambda>q k f. f\<lparr>queue_at := q, queue_size := k\<rparr>) (r * c * sizeof_queue_item z mod 2 ^ 64) m (\<lambda>m.
         if 2 ^ 64 \<le> r * c * sizeof_queue_item z then None
         else need z mf ff ctx (\<lambda>q k f. f\<lparr>map_at := q, map_size := k\<rparr>) (r * c * 8 mod 2 ^ 64) m (\<lambda>m.
           if 2 ^ 64 \<le> r * c * 8 then None else fb_start_canvas z mf ff n onlcr a p d c r ctx m)))"

definition fb_layout :: "fb_args \<Rightarrow> nat \<times> nat \<Rightarrow> nat \<Rightarrow> nat \<Rightarrow> bool list \<Rightarrow> (fb_display \<times> nat \<times> nat) option" where
  "fb_layout a sc fw fh f =
     (let gw = fw * fst sc mod 2 ^ 64;
          gh = fh * snd sc mod 2 ^ 64;
          w = size_sub (a_width a) (margin a * 2 mod 2 ^ 64);
          h = size_sub (a_height a) (margin a * 2 mod 2 ^ 64)
      in if gw = 0 \<or> gh = 0 then None
         else Some (\<lparr>framebuffer = a_framebuffer a, pitch = a_pitch a, width = a_width a, height = a_height a,
                 canvas = None, font_width = fw, font_height = fh, font_scale_x = fst sc, font_scale_y = snd sc,
                 glyph_width = gw, glyph_height = gh,
                 offset_x = (margin a + w mod gw div 2) mod 2 ^ 64, offset_y = (margin a + h mod gh div 2) mod 2 ^ 64,
                 font_bool = f, plot_char_fn = Unscaled_uncanvas\<rparr>, w div gw, h div gh))"

definition fb_start_font :: "fb_sizes \<Rightarrow> 'h malloc_fn option \<Rightarrow> 'h free_fn option \<Rightarrow> nat \<Rightarrow> u64 \<Rightarrow> nat \<times> nat \<Rightarrow>
    fb_args \<Rightarrow> nat \<Rightarrow> 'h fb_memory \<Rightarrow> ('w::len, 'h) fb_started option" where
  "fb_start_font z mf ff n onlcr sc a ctx m = do {
     p \<leftarrow> fb_palette_init a;
     let (f, fw, fh, sp) = fb_font a;
     let bits_size = fw * fh * font_glyphs z mod 2 ^ 64 div 8;
     need z mf ff ctx (\<lambda>q k f. f\<lparr>font_bits := q, font_bits_size := k\<rparr>) bits_size m (\<lambda>m. do {
       bits \<leftarrow> font_bits_of bits_size f;
       let fw1 = (fw + sp) mod 2 ^ 64;
       let bool_size = font_glyphs z * fh * fw1 mod 2 ^ 64;
       need z mf ff ctx (\<lambda>q k f. f\<lparr>font_bool_at := q, font_bool_size := k\<rparr>) bool_size m (\<lambda>m. do {
         fbool \<leftarrow> expand_font (font_glyphs z) bits fh fw1 (replicate bool_size False);
         (d, c, r) \<leftarrow> fb_layout a sc fw1 fh fbool;
         fb_start_cells z mf ff n onlcr a p d c r ctx m }) }) }"

definition flanterm_fb_init :: "fb_sizes \<Rightarrow> 'h malloc_fn option \<Rightarrow> 'h free_fn option \<Rightarrow> nat \<Rightarrow> u64 \<Rightarrow>
    fb_args \<Rightarrow> 'h fb_memory \<Rightarrow> ('w::len, 'h) fb_started option" where
  "flanterm_fb_init z mf ff n onlcr a m =
     (if red_mask_size a < 8 \<or> red_mask_size a \<noteq> green_mask_size a \<or> red_mask_size a \<noteq> blue_mask_size a
      then Some (None, m)
      else if mf = None \<and> bump_allocated_instance m then Some (None, m)
      else do {
        a1 \<leftarrow> (if mf = None then fb_limit a else Some a);
        case fb_malloc mf (sizeof_fb_context z) m of
          (None, m1) \<Rightarrow> map_option (Pair None) (fb_fail z mf ff 0 m1)
        | (Some ctx, m1) \<Rightarrow>
            fb_start_font z mf ff n onlcr (fb_scale a) a1 ctx (m1\<lparr>contexts := (contexts m1)(ctx \<mapsto> no_fields)\<rparr>) })"

end
