(* ===== verification/FbGrid.thy ===== *)
theory FbGrid
  imports Fb
begin

text \<open>
  The text on the screen as a list of characters, and every operation of \<open>Fb\<close> as an operation
  on that list: queuing is a list update, scrolling drops a line, clearing overwrites the list.
  The queue and the pointer table are an implementation of the list: \<open>fb_ok\<close> is the invariant
  that makes them one (each queued cell has one entry of the queue, so the queue never overflows).
\<close>

section \<open>Loops over a range of numbers\<close>

lemma for_range:
  assumes "\<And>i s. a \<le> i \<Longrightarrow> i < b \<Longrightarrow> I i s \<Longrightarrow> \<exists>s'. body i s = Some s' \<and> I (Suc i) s'"
    and "I a s" and "a \<le> b"
  shows "\<exists>s'. for_each body [a..<b] s = Some s' \<and> I b s'"
  using assms
proof (induction b)
  case 0
  then show ?case by simp
next
  case (Suc b)
  show ?case
  proof (cases "a \<le> b")
    case True
    with Suc obtain s1 where s1: "for_each body [a..<b] s = Some s1" "I b s1" by auto
    with Suc.prems(1) [of b s1] True obtain s2 where "body b s1 = Some s2" "I (Suc b) s2" by auto
    with s1 True show ?thesis by (simp add: for_each_append)
  next
    case False
    with Suc.prems(3) have "a = Suc b" by simp
    with Suc.prems(2) show ?thesis by simp
  qed
qed

lemma for_range_down:
  assumes "\<And>i s. a \<le> i \<Longrightarrow> i < b \<Longrightarrow> I (Suc i) s \<Longrightarrow> \<exists>s'. body i s = Some s' \<and> I i s'"
    and "I b s" and "a \<le> b"
  shows "\<exists>s'. for_each body (rev [a..<b]) s = Some s' \<and> I a s'"
  using assms
proof (induction b arbitrary: s)
  case 0
  then show ?case by simp
next
  case (Suc b)
  show ?case
  proof (cases "a \<le> b")
    case True
    then obtain s1 where s1: "body b s = Some s1" "I b s1" using Suc.prems by auto
    have "\<exists>s'. for_each body (rev [a..<b]) s1 = Some s' \<and> I a s'"
      using Suc.IH [OF _ s1(2) True] Suc.prems(1) by simp
    with s1 True show ?thesis by simp
  next
    case False
    with Suc.prems(3) have "a = Suc b" by simp
    with Suc.prems(2) show ?thesis by simp
  qed
qed

lemma cell_less: "x < c \<Longrightarrow> y < r \<Longrightarrow> y * c + x < r * (c::nat)"
proof -
  assume "x < c" "y < r"
  then have "y * c + x < (y + 1) * c" and "(y + 1) * c \<le> r * c" by (simp, intro mult_le_mono1, simp)
  then show ?thesis by linarith
qed

lemma cell_div [simp]: "x < c \<Longrightarrow> (y * c + x) div c = (y::nat)"
  and cell_mod [simp]: "x < c \<Longrightarrow> (y * c + x) mod c = (x::nat)"
  by simp_all

lemma grid_cell_inj: "x < c \<Longrightarrow> x' < c \<Longrightarrow> y * c + x = y' * c + x' \<longleftrightarrow> y = y' \<and> x = (x'::nat)"
  by (metis cell_div cell_mod)

section \<open>The invariant\<close>

definition item_cell :: "fb_context \<Rightarrow> nat \<Rightarrow> nat" where
  "item_cell s k = item_y (queue s ! k) * cols s + item_x (queue s ! k)"

text \<open>The pointer table and the queue agree; \<open>flushed\<close> entries may have lost their pointer.\<close>

definition queue_linked :: "fb_context \<Rightarrow> bool" where
  "queue_linked s \<longleftrightarrow>
     queue_i s \<le> rows s * cols s \<and>
     (\<forall>i<rows s * cols s. \<forall>k. cell_map s ! i = Some k \<longrightarrow> k < queue_i s \<and> item_cell s k = i) \<and>
     (\<forall>k<queue_i s. item_x (queue s ! k) < cols s \<and> item_y (queue s ! k) < rows s)"

definition queue_full :: "fb_context \<Rightarrow> bool" where
  "queue_full s \<longleftrightarrow> (\<forall>k<queue_i s. cell_map s ! item_cell s k = Some k)"

definition palette_ok :: "fb_palette \<Rightarrow> bool" where
  "palette_ok p \<longleftrightarrow> red_mask_shift p < 32 \<and> green_mask_shift p < 32 \<and> blue_mask_shift p < 32 \<and>
     length (ansi_colours p) = 8 \<and> length (ansi_bright_colours p) = 8"

definition arrays_ok :: "fb_context \<Rightarrow> bool" where
  "arrays_ok s \<longleftrightarrow> 0 < cols s \<and> cols s < 2 ^ 31 \<and> 0 < rows s \<and> rows s < 2 ^ 31 \<and>
     length (grid s) = rows s * cols s \<and> length (queue s) = rows s * cols s \<and>
     length (cell_map s) = rows s * cols s \<and> palette_ok (palette s)"

definition margins_ok :: "fb_context \<Rightarrow> bool" where
  "margins_ok s \<longleftrightarrow> scroll_top_margin s < scroll_bottom_margin s \<and> scroll_bottom_margin s \<le> rows s"

definition fb_ok :: "fb_context \<Rightarrow> bool" where
  "fb_ok s \<longleftrightarrow> arrays_ok s \<and> queue_linked s \<and> queue_full s"

text \<open>The text of the screen, row after row.\<close>

definition shown :: "fb_context \<Rightarrow> fb_char list" where
  "shown s = map (\<lambda>i. case cell_map s ! i of None \<Rightarrow> grid s ! i | Some k \<Rightarrow> item_c (queue s ! k))
               [0..<rows s * cols s]"

lemma length_shown [simp]: "length (shown s) = rows s * cols s"
  by (simp add: shown_def)

lemma nth_shown: "i < rows s * cols s \<Longrightarrow>
    shown s ! i = (case cell_map s ! i of None \<Rightarrow> grid s ! i | Some k \<Rightarrow> item_c (queue s ! k))"
  by (simp add: shown_def split: option.splits)

lemma pending_shown:
  assumes "fb_ok s" and "i < rows s * cols s"
  shows "pending_char i s = Some (shown s ! i)"
  using assms
  by (auto simp: pending_char_def fb_ok_def arrays_ok_def queue_linked_def nth_shown split: option.splits)

text \<open>Everything but the queue is as before.\<close>

definition requeued :: "fb_context \<Rightarrow> fb_context \<Rightarrow> bool" where
  "requeued s s' \<longleftrightarrow> s' = s\<lparr>queue := queue s', queue_i := queue_i s', cell_map := cell_map s'\<rparr>"

lemma requeued_refl [simp]: "requeued s s"
  by (simp add: requeued_def)

lemma requeued_trans [trans]: "requeued s t \<Longrightarrow> requeued t u \<Longrightarrow> requeued s u"
  by (cases s, cases t, cases u) (simp add: requeued_def)

lemma requeued_fields:
  assumes "requeued s s'"
  shows "cols s' = cols s" "rows s' = rows s" "scroll_top_margin s' = scroll_top_margin s"
    "scroll_bottom_margin s' = scroll_bottom_margin s" "scroll_enabled s' = scroll_enabled s"
    "cursor_enabled s' = cursor_enabled s" "display s' = display s" "palette s' = palette s"
    "text_fg s' = text_fg s" "text_bg s' = text_bg s" "cursor_x s' = cursor_x s"
    "cursor_y s' = cursor_y s" "grid s' = grid s" "old_cursor_x s' = old_cursor_x s"
    "old_cursor_y s' = old_cursor_y s" "blank s' = blank s"
    "saved_state_text_fg s' = saved_state_text_fg s" "saved_state_text_bg s' = saved_state_text_bg s"
    "saved_state_cursor_x s' = saved_state_cursor_x s" "saved_state_cursor_y s' = saved_state_cursor_y s"
  using assms by (cases s, cases s', simp add: requeued_def blank_def)+

section \<open>Queuing a character\<close>

text \<open>The cells that are queued are distinct, so a cell that is not queued leaves room.\<close>

lemma queue_room:
  assumes "fb_ok s" and "i < rows s * cols s" and "cell_map s ! i = None"
  shows "queue_i s < rows s * cols s"
proof -
  have inj: "inj_on (item_cell s) {..<queue_i s}"
    using assms(1) by (auto simp: fb_ok_def queue_full_def intro!: inj_onI) (metis option.inject)
  have "item_cell s ` {..<queue_i s} \<subseteq> {..<rows s * cols s} - {i}"
  proof
    fix j assume "j \<in> item_cell s ` {..<queue_i s}"
    then obtain k where k: "k < queue_i s" "j = item_cell s k" by auto
    then have "j < rows s * cols s"
      using assms(1) by (auto simp: fb_ok_def queue_linked_def item_cell_def intro!: cell_less)
    moreover have "j \<noteq> i" using k assms(1,3) by (auto simp: fb_ok_def queue_full_def)
    ultimately show "j \<in> {..<rows s * cols s} - {i}" by simp
  qed
  then have "card (item_cell s ` {..<queue_i s}) \<le> card ({..<rows s * cols s} - {i})"
    by (intro card_mono) simp_all
  then show ?thesis using card_image [OF inj] assms(2) by simp
qed

lemma push_existing:
  fixes c :: fb_char
  assumes ok: "fb_ok s" and xy: "x < cols s" "y < rows s" and m: "cell_map s ! (y * cols s + x) = Some k"
  defines "s' \<equiv> s\<lparr>queue := (queue s)[k := (queue s ! k)\<lparr>item_c := c\<rparr>]\<rparr>"
  shows "push_to_queue c x y s = Some s'" and "fb_ok s'" and "requeued s s'"
    and "shown s' = (shown s)[y * cols s + x := c]"
proof -
  let ?i = "y * cols s + x"
  have i: "?i < rows s * cols s" using xy by (rule cell_less)
  have k: "k < queue_i s" "item_cell s k = ?i" and len: "length (queue s) = rows s * cols s"
    "length (cell_map s) = rows s * cols s" and qi: "queue_i s \<le> rows s * cols s"
    using ok m i by (auto simp: fb_ok_def queue_linked_def arrays_ok_def)
  then have kl: "k < length (queue s)" by simp
  show "push_to_queue c x y s = Some s'"
    using xy m i kl len by (simp add: push_to_queue_def s'_def)
  show "requeued s s'" by (simp add: requeued_def s'_def)
  have cell: "item_cell s' j = item_cell s j" if "j < queue_i s" for j
    using that kl len qi by (simp add: item_cell_def s'_def nth_list_update)
  then show "fb_ok s'"
    using ok kl by (auto simp: fb_ok_def arrays_ok_def queue_linked_def queue_full_def s'_def nth_list_update)
  have other: "k \<noteq> j" if "cell_map s ! l = Some j" "l < rows s * cols s" "l \<noteq> ?i" for l j
    using that k ok by (auto simp: fb_ok_def queue_linked_def)
  show "shown s' = (shown s)[?i := c]"
  proof (rule nth_equalityI)
    fix l assume "l < length (shown s')"
    then have l: "l < rows s * cols s" by (simp add: s'_def)
    show "shown s' ! l = (shown s)[?i := c] ! l"
    proof (cases "l = ?i")
      case True
      then show ?thesis using m kl l by (simp add: nth_shown s'_def)
    next
      case False
      then show ?thesis using other [of l] l
        by (auto simp: nth_shown s'_def nth_list_update split: option.splits)
    qed
  qed (simp add: s'_def)
qed

lemma push_new:
  fixes c :: fb_char
  assumes ok: "fb_ok s" and xy: "x < cols s" "y < rows s" and m: "cell_map s ! (y * cols s + x) = None"
  defines "s' \<equiv> s\<lparr>queue := (queue s)[queue_i s := \<lparr>item_x = x, item_y = y, item_c = c\<rparr>],
                  queue_i := queue_i s + 1, cell_map := (cell_map s)[y * cols s + x := Some (queue_i s)]\<rparr>"
  shows "\<not> compare_char (grid s ! (y * cols s + x)) c \<Longrightarrow> push_to_queue c x y s = Some s'"
    and "fb_ok s'" and "requeued s s'"
    and "shown s' = (shown s)[y * cols s + x := c]"
proof -
  let ?i = "y * cols s + x"
  have i: "?i < rows s * cols s" using xy by (rule cell_less)
  have room: "queue_i s < rows s * cols s" by (rule queue_room [OF ok i m])
  have len: "length (queue s) = rows s * cols s" "length (cell_map s) = rows s * cols s"
    "length (grid s) = rows s * cols s"
    using ok by (auto simp: fb_ok_def arrays_ok_def)
  show "push_to_queue c x y s = Some s'" if "\<not> compare_char (grid s ! ?i) c"
    using that xy m i room len by (simp add: push_to_queue_def s'_def Let_def)
  show "requeued s s'" by (simp add: requeued_def s'_def)
  have cell: "item_cell s' j = (if j = queue_i s then ?i else item_cell s j)" if "j \<le> queue_i s" for j
    using that room len by (auto simp: item_cell_def s'_def)
  have less: "k < queue_i s \<and> item_cell s k = l"
    if "cell_map s ! l = Some k" "l < rows s * cols s" for k l
    using that ok by (auto simp: fb_ok_def queue_linked_def)
  have linked: "queue_linked s'"
    unfolding queue_linked_def
  proof (intro conjI allI impI)
    show "queue_i s' \<le> rows s' * cols s'" using room by (simp add: s'_def)
    fix l k assume "l < rows s' * cols s'" and "cell_map s' ! l = Some k"
    then have "l < rows s * cols s" "(if l = ?i then k = queue_i s else cell_map s ! l = Some k)"
      using i len by (auto simp: s'_def nth_list_update split: if_splits)
    then show "k < queue_i s'" "item_cell s' k = l"
      using less [of l k] cell [of k] by (auto simp: s'_def split: if_splits)
  next
    fix k assume "k < queue_i s'"
    then show "item_x (queue s' ! k) < cols s'" "item_y (queue s' ! k) < rows s'"
      using ok xy room len
      by (auto simp: s'_def fb_ok_def queue_linked_def nth_list_update less_Suc_eq split: if_splits)
  qed
  have fresh: "item_cell s k \<noteq> ?i" if "k < queue_i s" for k
    using that m ok by (auto simp: fb_ok_def queue_full_def)
  have "queue_full s'"
    unfolding queue_full_def
  proof (intro allI impI)
    fix k assume "k < queue_i s'"
    then consider "k = queue_i s" | "k < queue_i s" by (auto simp: s'_def less_Suc_eq)
    then show "cell_map s' ! item_cell s' k = Some k"
    proof cases
      case 1
      then show ?thesis using cell [of k] i len by (simp add: s'_def)
    next
      case 2
      then have "cell_map s ! item_cell s k = Some k" using ok by (simp add: fb_ok_def queue_full_def)
      with 2 show ?thesis using cell [of k] fresh [OF 2] by (simp add: s'_def)
    qed
  qed
  then show "fb_ok s'"
    using linked ok len by (simp add: fb_ok_def arrays_ok_def s'_def)
  show "shown s' = (shown s)[?i := c]"
  proof (rule nth_equalityI)
    fix l assume "l < length (shown s')"
    then have l: "l < rows s * cols s" by (simp add: s'_def)
    show "shown s' ! l = (shown s)[?i := c] ! l"
    proof (cases "l = ?i")
      case True
      then show ?thesis using room len l by (simp add: nth_shown s'_def)
    next
      case False
      then show ?thesis using less [of l] l len
        by (auto simp: nth_shown s'_def nth_list_update split: option.splits)
    qed
  qed (simp add: s'_def)
qed

lemma compare_char_eq: "compare_char a b \<longleftrightarrow> a = b"
  by (cases a, cases b) (auto simp: compare_char_def)

text \<open>Queuing is a list update.\<close>

lemma push_shown:
  assumes "fb_ok s" and "x < cols s" and "y < rows s"
  shows "\<exists>s'. push_to_queue c x y s = Some s' \<and> fb_ok s' \<and> requeued s s' \<and>
              shown s' = (shown s)[y * cols s + x := c]"
proof (cases "cell_map s ! (y * cols s + x)")
  case None
  show ?thesis
  proof (cases "compare_char (grid s ! (y * cols s + x)) c")
    case True
    have i: "y * cols s + x < rows s * cols s" using assms(2,3) by (rule cell_less)
    then have "push_to_queue c x y s = Some s"
      using assms None True by (simp add: push_to_queue_def fb_ok_def arrays_ok_def)
    moreover have "(shown s)[y * cols s + x := c] = shown s"
      using True None i nth_shown [OF i] by (metis compare_char_eq list_update_id option.case(1))
    ultimately show ?thesis using assms(1) by (intro exI [of _ s]) simp
  next
    case False
    show ?thesis using push_new [OF assms None] False by blast
  qed
next
  case (Some k)
  show ?thesis using push_existing [OF assms Some] by blast
qed

lemma push_outside: "\<not> (x < cols s \<and> y < rows s) \<Longrightarrow> push_to_queue c x y s = Some s"
  by (auto simp: push_to_queue_def)

section \<open>Operations as effects on the text\<close>

text \<open>
  \<open>s'\<close> is \<open>s\<close> with the text \<open>g\<close>: only the queue has changed. An operation with this effect
  never leaves the arrays.
\<close>

definition retexted :: "fb_context \<Rightarrow> fb_char list \<Rightarrow> fb_context \<Rightarrow> bool" where
  "retexted s g s' \<longleftrightarrow> fb_ok s' \<and> requeued s s' \<and> shown s' = g"

lemma retextedD:
  assumes "retexted s g s'"
  shows "fb_ok s'" "requeued s s'" "shown s' = g"
  using assms by (simp_all add: retexted_def)

lemma retexted_trans: "retexted s g s' \<Longrightarrow> retexted s' h s'' \<Longrightarrow> retexted s h s''"
  unfolding retexted_def by (blast intro: requeued_trans)

lemma retexted_refl: "fb_ok s \<Longrightarrow> retexted s (shown s) s"
  by (simp add: retexted_def)

lemma push_retexts:
  assumes "fb_ok s"
  shows "\<exists>s'. push_to_queue c x y s = Some s' \<and>
           retexted s (if x < cols s \<and> y < rows s then (shown s)[y * cols s + x := c] else shown s) s'"
  using push_shown [OF assms, of x y c] push_outside [of x s y c] assms
  by (auto simp: retexted_def)

lemma fill_line:
  assumes "fb_ok s" and "y < rows s"
  shows "\<exists>s'. for_each (\<lambda>i. push_to_queue c i y) [0..<cols s] s = Some s' \<and>
           retexted s (take (y * cols s) (shown s) @ replicate (cols s) c @ drop ((y + 1) * cols s) (shown s)) s'"
proof -
  let ?n = "cols s" and ?g = "shown s"
  let ?I = "\<lambda>i t. fb_ok t \<and> requeued s t \<and>
    shown t = take (y * ?n) ?g @ replicate i c @ drop (y * ?n + i) ?g"
  have room: "(y + 1) * ?n \<le> rows s * ?n" using assms(2) by (intro mult_le_mono1) simp
  have "\<exists>s'. for_each (\<lambda>i. push_to_queue c i y) [0..<?n] s = Some s' \<and> ?I ?n s'"
  proof (rule for_range [where I = ?I])
    fix i t assume i: "i < ?n" and I: "?I i t"
    then have c: "cols t = ?n" "rows t = rows s" using requeued_fields by auto
    obtain t' where t': "push_to_queue c i y t = Some t'" "fb_ok t'" "requeued t t'"
        "shown t' = (shown t)[y * ?n + i := c]"
      using push_shown [of t i y c] i I c assms(2) by auto
    have l: "y * ?n + i < length ?g" using i assms(2) by (simp add: cell_less)
    have "drop (y * ?n + i) ?g = ?g ! (y * ?n + i) # drop (y * ?n + Suc i) ?g"
      using l by (simp add: Cons_nth_drop_Suc)
    then have "shown t = (take (y * ?n) ?g @ replicate i c) @ ?g ! (y * ?n + i) # drop (y * ?n + Suc i) ?g"
      using I by simp
    moreover have "length (take (y * ?n) ?g @ replicate i c) = y * ?n + i" using l by simp
    ultimately have "(shown t)[y * ?n + i := c]
        = (take (y * ?n) ?g @ replicate i c) @ c # drop (y * ?n + Suc i) ?g"
      by (metis list_update_length)
    then have "(shown t)[y * ?n + i := c] = take (y * ?n) ?g @ replicate (Suc i) c @ drop (y * ?n + Suc i) ?g"
      by (simp add: replicate_app_Cons_same)
    then show "\<exists>t'. push_to_queue c i y t = Some t' \<and> ?I (Suc i) t'"
      using t' I requeued_trans by metis
  qed (use assms in simp_all)
  then show ?thesis by (auto simp: retexted_def add.commute)
qed

definition scroll_lines :: "nat \<Rightarrow> nat \<Rightarrow> nat \<Rightarrow> 'a \<Rightarrow> 'a list \<Rightarrow> 'a list" where
  "scroll_lines n upper lower b g =
     take (upper * n) g @ drop ((upper + 1) * n) (take (lower * n) g) @ replicate n b @ drop (lower * n) g"

definition revscroll_lines :: "nat \<Rightarrow> nat \<Rightarrow> nat \<Rightarrow> 'a \<Rightarrow> 'a list \<Rightarrow> 'a list" where
  "revscroll_lines n upper lower b g =
     take (upper * n) g @ replicate n b @ take ((lower - 1 - upper) * n) (drop (upper * n) g)
       @ drop (max lower (upper + 1) * n) g"

lemma shift_up:
  assumes ok: "fb_ok s" and lower: "lower \<le> rows s" and upper: "upper < lower"
  shows "\<exists>s'. for_each (\<lambda>i s. do {
             c \<leftarrow> pending_char i s;
             push_to_queue c ((i - cols s) mod cols s) ((i - cols s) div cols s) s })
           [(upper + 1) * cols s..<lower * cols s] s = Some s' \<and>
         retexted s (take (upper * cols s) (shown s) @ drop ((upper + 1) * cols s) (take (lower * cols s) (shown s))
                     @ drop ((lower - 1) * cols s) (shown s)) s'"
proof -
  let ?n = "cols s" and ?g = "shown s" and ?a = "(upper + 1) * cols s" and ?b = "lower * cols s"
  let ?I = "\<lambda>i t. fb_ok t \<and> requeued s t \<and>
    shown t = take (upper * ?n) ?g @ drop ?a (take i ?g) @ drop (i - ?n) ?g"
  have n: "0 < ?n" using ok by (simp add: fb_ok_def arrays_ok_def)
  have b: "?b \<le> length ?g" using lower by simp
  have ab: "?a \<le> ?b" using upper by (intro mult_le_mono1) simp
  have "\<exists>s'. for_each (\<lambda>i s. do {
             c \<leftarrow> pending_char i s;
             push_to_queue c ((i - cols s) mod cols s) ((i - cols s) div cols s) s }) [?a..<?b] s = Some s'
             \<and> ?I ?b s'"
  proof (rule for_range [where I = ?I])
    fix i t assume i: "?a \<le> i" "i < ?b" and I: "?I i t"
    then have c: "cols t = ?n" "rows t = rows s" using requeued_fields by auto
    have il: "i < length ?g" by (rule less_le_trans [OF i(2) b])
    have ni: "?n \<le> i" "upper * ?n \<le> i - ?n" using i(1) by simp_all
    have len: "length (take (upper * ?n) ?g @ drop ?a (take i ?g)) = i - ?n"
      using il i(1) by simp
    have here: "shown t ! i = ?g ! i"
      using I len il ni n by (simp only: append_assoc [symmetric] nth_append) simp
    have p: "pending_char i t = Some (?g ! i)"
      using pending_shown [of t i] I il c here by simp
    have y: "(i - ?n) div ?n < rows s"
      using il ni n by (simp add: div_less_iff_less_mult)
    obtain t' where t': "push_to_queue (?g ! i) ((i - ?n) mod ?n) ((i - ?n) div ?n) t = Some t'"
        "fb_ok t'" "requeued t t'" "shown t' = (shown t)[i - ?n := ?g ! i]"
      using push_shown [of t "(i - ?n) mod ?n" "(i - ?n) div ?n" "?g ! i"] I c n y by auto
    have d: "drop (i - ?n) ?g = ?g ! (i - ?n) # drop (Suc i - ?n) ?g"
      using il ni by (simp add: Cons_nth_drop_Suc Suc_diff_le)
    have e: "drop ?a (take (Suc i) ?g) = drop ?a (take i ?g) @ [?g ! i]"
      using il i by (simp add: take_Suc_conv_app_nth)
    have "shown t = (take (upper * ?n) ?g @ drop ?a (take i ?g)) @ ?g ! (i - ?n) # drop (Suc i - ?n) ?g"
      using I d by simp
    then have "(shown t)[i - ?n := ?g ! i] = take (upper * ?n) ?g @ drop ?a (take (Suc i) ?g) @ drop (Suc i - ?n) ?g"
      using len e by (metis append.assoc append_Cons append_Nil list_update_length)
    then show "\<exists>t'. (do { c \<leftarrow> pending_char i t;
        push_to_queue c ((i - cols t) mod cols t) ((i - cols t) div cols t) t }) = Some t' \<and> ?I (Suc i) t'"
      using p t' I c requeued_trans by auto
  next
    show "?I ?a s" using ok by simp
  qed (rule ab)
  moreover have "?b - ?n = (lower - 1) * ?n" by (simp add: diff_mult_distrib)
  ultimately show ?thesis by (auto simp: retexted_def)
qed

lemma scroll_shown:
  assumes ok: "fb_ok s" and m: "margins_ok s"
  shows "\<exists>s'. flanterm_fb_scroll s = Some s' \<and>
    retexted s (scroll_lines (cols s) (scroll_top_margin s) (scroll_bottom_margin s) (blank s) (shown s)) s'"
proof -
  let ?n = "cols s" and ?t = "scroll_top_margin s" and ?b = "scroll_bottom_margin s" and ?g = "shown s"
  have tb: "?t < ?b" "?b \<le> rows s" using m by (simp_all add: margins_ok_def)
  define h where "h = take (?t * ?n) ?g @ drop ((?t + 1) * ?n) (take (?b * ?n) ?g) @ drop ((?b - 1) * ?n) ?g"
  obtain s1 where s1: "for_each (\<lambda>i s. do {
             c \<leftarrow> pending_char i s;
             push_to_queue c ((i - cols s) mod cols s) ((i - cols s) div cols s) s })
           [(?t + 1) * ?n..<?b * ?n] s = Some s1" "retexted s h s1"
    using shift_up [OF ok tb(2,1)] unfolding h_def by blast
  note r1 = retextedD [OF s1(2)] and f1 = requeued_fields [OF retextedD(2) [OF s1(2)]]
  have small: "?b < 2 ^ 64" using ok tb by (simp add: fb_ok_def arrays_ok_def)
  have lt: "?b - 1 < rows s1" using tb f1 by simp
  obtain s2 where s2: "for_each (\<lambda>i. push_to_queue (blank s) i (?b - 1)) [0..<?n] s1 = Some s2"
      "retexted s1 (take ((?b - 1) * ?n) h @ replicate ?n (blank s) @ drop ((?b - 1 + 1) * ?n) h) s2"
    using fill_line [OF r1(1) lt, of "blank s"] unfolding f1 r1(3) by blast
  have b: "?b * ?n \<le> length ?g" using tb by simp
  have le: "(?t + 1) * ?n \<le> ?b * ?n" using tb by (intro mult_le_mono1) simp
  have tn: "?t * ?n \<le> rows s * ?n" using tb by (intro mult_le_mono1) simp
  have len: "length (take (?t * ?n) ?g @ drop ((?t + 1) * ?n) (take (?b * ?n) ?g)) = (?b - 1) * ?n"
    using b le min_absorb2 [OF tn] by (simp add: diff_mult_distrib)
  have "h = (take (?t * ?n) ?g @ drop ((?t + 1) * ?n) (take (?b * ?n) ?g)) @ drop ((?b - 1) * ?n) ?g" by (simp add: h_def)
  then have "take ((?b - 1) * ?n) h = take (?t * ?n) ?g @ drop ((?t + 1) * ?n) (take (?b * ?n) ?g)"
    and "drop ((?b - 1) * ?n) h = drop ((?b - 1) * ?n) ?g"
    using len by (metis append_eq_conv_conj)+
  moreover have "drop ((?b - 1 + 1) * ?n) h = drop ?n (drop ((?b - 1) * ?n) h)" by simp
  moreover have "?n + (?b - 1) * ?n = ?b * ?n" using tb by (cases ?b) simp_all
  ultimately have "take ((?b - 1) * ?n) h @ replicate ?n (blank s) @ drop ((?b - 1 + 1) * ?n) h
      = scroll_lines ?n ?t ?b (blank s) ?g"
    by (simp add: scroll_lines_def)
  then have "retexted s (scroll_lines ?n ?t ?b (blank s) ?g) s2"
    using retexted_trans [OF s1(2) s2(2)] by simp
  moreover have "flanterm_fb_scroll s = Some s2"
    using s1(1) s2(1) f1 tb small by (simp add: flanterm_fb_scroll_def)
  ultimately show ?thesis by blast
qed

lemma shift_down:
  assumes ok: "fb_ok s" and lower: "lower \<le> rows s" and upper: "upper < lower"
  shows "\<exists>s'. for_each (\<lambda>i s. do {
             c \<leftarrow> pending_char i s;
             push_to_queue c ((i + cols s) mod cols s) ((i + cols s) div cols s) s })
           (rev [upper * cols s..<(lower - 1) * cols s]) s = Some s' \<and>
         retexted s (take ((upper + 1) * cols s) (shown s) @ take ((lower - 1 - upper) * cols s) (drop (upper * cols s) (shown s))
                     @ drop (lower * cols s) (shown s)) s'"
proof -
  let ?n = "cols s" and ?g = "shown s" and ?a = "upper * cols s" and ?b = "(lower - 1) * cols s"
  let ?I = "\<lambda>i t. fb_ok t \<and> requeued s t \<and>
    shown t = take (i + ?n) ?g @ drop i (take ?b ?g) @ drop (lower * ?n) ?g"
  have n: "0 < ?n" using ok by (simp add: fb_ok_def arrays_ok_def)
  have bn: "?b + ?n = lower * ?n" using upper by (cases lower) simp_all
  have bl: "lower * ?n \<le> length ?g" using lower by simp
  have ab: "?a \<le> ?b" using upper by (intro mult_le_mono1) simp
  have "\<exists>s'. for_each (\<lambda>i s. do {
             c \<leftarrow> pending_char i s;
             push_to_queue c ((i + cols s) mod cols s) ((i + cols s) div cols s) s }) (rev [?a..<?b]) s = Some s'
             \<and> ?I ?a s'"
  proof (rule for_range_down [where I = ?I])
    fix i t assume i: "?a \<le> i" "i < ?b" and I: "?I (Suc i) t"
    then have c: "cols t = ?n" "rows t = rows s" using requeued_fields by auto
    have il: "i + ?n < length ?g" using i bn bl by linarith
    have here: "shown t ! i = ?g ! i"
      using I il n by (simp add: nth_append)
    have p: "pending_char i t = Some (?g ! i)"
      using pending_shown [of t i] I il c here by simp
    have y: "(i + ?n) div ?n < rows s"
      using il n by (simp add: div_less_iff_less_mult)
    have pos: "(i + ?n) div ?n * ?n + (i + ?n) mod ?n = i + ?n" by (simp only: div_mult_mod_eq)
    obtain t' where t': "push_to_queue (?g ! i) ((i + ?n) mod ?n) ((i + ?n) div ?n) t = Some t'"
        "fb_ok t'" "requeued t t'" "shown t' = (shown t)[i + ?n := ?g ! i]"
      using push_shown [of t "(i + ?n) mod ?n" "(i + ?n) div ?n" "?g ! i"] I c n y pos by auto
    have d: "take (Suc i + ?n) ?g = take (i + ?n) ?g @ [?g ! (i + ?n)]"
      using il by (simp add: take_Suc_conv_app_nth)
    have e: "drop i (take ?b ?g) = ?g ! i # drop (Suc i) (take ?b ?g)"
      using i il bn bl by (subst Cons_nth_drop_Suc [symmetric]) simp_all
    have "shown t = take (i + ?n) ?g @ ?g ! (i + ?n) # drop (Suc i) (take ?b ?g) @ drop (lower * ?n) ?g"
      using I d by simp
    then have "(shown t)[i + ?n := ?g ! i] = take (i + ?n) ?g @ drop i (take ?b ?g) @ drop (lower * ?n) ?g"
      using il e by (simp add: list_update_append)
    then show "\<exists>t'. (do { c \<leftarrow> pending_char i t;
        push_to_queue c ((i + cols t) mod cols t) ((i + cols t) div cols t) t }) = Some t' \<and> ?I i t'"
      using p t' I c requeued_trans by auto
  next
    show "?I ?b s" using ok bn by simp
  qed (rule ab)
  moreover have "?a + ?n = (upper + 1) * ?n" by simp
  moreover have "drop ?a (take ?b ?g) = take ((lower - 1 - upper) * ?n) (drop ?a ?g)"
    by (simp add: drop_take diff_mult_distrib)
  ultimately show ?thesis by (auto simp: retexted_def)
qed

lemma revscroll_shown:
  assumes ok: "fb_ok s" and m: "0 < scroll_bottom_margin s" "scroll_bottom_margin s \<le> rows s"
    and upper: "scroll_top_margin s < rows s"
  shows "\<exists>s'. flanterm_fb_revscroll s = Some s' \<and>
    retexted s (revscroll_lines (cols s) (scroll_top_margin s) (scroll_bottom_margin s) (blank s) (shown s)) s'"
proof -
  let ?n = "cols s" and ?t = "scroll_top_margin s" and ?b = "scroll_bottom_margin s" and ?g = "shown s"
  define h where "h = take ((?t + 1) * ?n) ?g @ take ((?b - 1 - ?t) * ?n) (drop (?t * ?n) ?g)
                     @ drop (max ?b (?t + 1) * ?n) ?g"
  have small: "?b < 2 ^ 64" using ok m by (simp add: fb_ok_def arrays_ok_def)
  have n: "0 < ?n" using ok by (simp add: fb_ok_def arrays_ok_def)
  have "\<exists>s1. for_each (\<lambda>i s. do {
             c \<leftarrow> pending_char i s;
             push_to_queue c ((i + cols s) mod cols s) ((i + cols s) div cols s) s })
           (rev [?t * ?n..<(?b - 1) * ?n]) s = Some s1 \<and> retexted s h s1"
  proof (cases "?t < ?b")
    case True
    then show ?thesis using shift_down [OF ok m(2) True] True unfolding h_def by (simp add: max_absorb1)
  next
    case False
    then have "(?b - 1) * ?n \<le> ?t * ?n" by (intro mult_le_mono1) simp
    moreover have "h = ?g" using False by (simp add: h_def max_absorb2)
    ultimately show ?thesis using retexted_refl [OF ok] by simp
  qed
  then obtain s1 where s1: "for_each (\<lambda>i s. do {
             c \<leftarrow> pending_char i s;
             push_to_queue c ((i + cols s) mod cols s) ((i + cols s) div cols s) s })
           (rev [?t * ?n..<(?b - 1) * ?n]) s = Some s1" "retexted s h s1" by blast
  note r1 = retextedD [OF s1(2)] and f1 = requeued_fields [OF retextedD(2) [OF s1(2)]]
  obtain s2 where s2: "for_each (\<lambda>i. push_to_queue (blank s) i ?t) [0..<?n] s1 = Some s2"
      "retexted s1 (take (?t * ?n) h @ replicate ?n (blank s) @ drop ((?t + 1) * ?n) h) s2"
    using fill_line [OF r1(1), of ?t "blank s"] upper unfolding f1 r1(3) by blast
  have le: "(?t + 1) * ?n \<le> length ?g" using upper by (simp only: length_shown, intro mult_le_mono1) simp
  then have len: "length (take ((?t + 1) * ?n) ?g) = (?t + 1) * ?n" by simp
  have "take (?t * ?n) h = take (?t * ?n) ?g" using le by (simp add: h_def min_def)
  moreover have "drop ((?t + 1) * ?n) h = take ((?b - 1 - ?t) * ?n) (drop (?t * ?n) ?g)
                     @ drop (max ?b (?t + 1) * ?n) ?g"
    unfolding h_def using len by (metis append_eq_conv_conj)
  ultimately have "take (?t * ?n) h @ replicate ?n (blank s) @ drop ((?t + 1) * ?n) h
      = revscroll_lines ?n ?t ?b (blank s) ?g"
    by (simp add: revscroll_lines_def)
  then have "retexted s (revscroll_lines ?n ?t ?b (blank s) ?g) s2"
    using retexted_trans [OF s1(2) s2(2)] by simp
  moreover have "flanterm_fb_revscroll s = Some s2"
    using s1(1) s2(1) f1 m small by (simp add: flanterm_fb_revscroll_def)
  ultimately show ?thesis by blast
qed

lemma clear_shown:
  assumes ok: "fb_ok s"
  shows "\<exists>s'. flanterm_fb_clear move s = Some (if move then s'\<lparr>cursor_x := 0, cursor_y := 0\<rparr> else s') \<and>
    retexted s (replicate (rows s * cols s) (blank s)) s'"
proof -
  let ?n = "cols s" and ?g = "shown s" and ?N = "rows s * cols s"
  let ?I = "\<lambda>i t. fb_ok t \<and> requeued s t \<and> shown t = replicate i (blank s) @ drop i ?g"
  have n: "0 < ?n" using ok by (simp add: fb_ok_def arrays_ok_def)
  have "\<exists>s'. for_each (\<lambda>i. push_to_queue (blank s) (i mod ?n) (i div ?n)) [0..<?N] s = Some s' \<and> ?I ?N s'"
  proof (rule for_range [where I = ?I])
    fix i t assume i: "i < ?N" and I: "?I i t"
    then have c: "cols t = ?n" "rows t = rows s" using requeued_fields by auto
    have y: "i div ?n < rows s" using i n by (simp add: div_less_iff_less_mult)
    obtain t' where t': "push_to_queue (blank s) (i mod ?n) (i div ?n) t = Some t'"
        "fb_ok t'" "requeued t t'" "shown t' = (shown t)[i := blank s]"
      using push_shown [of t "i mod ?n" "i div ?n" "blank s"] I c n y by auto
    have "drop i ?g = ?g ! i # drop (Suc i) ?g" using i by (simp add: Cons_nth_drop_Suc)
    then have "(shown t)[i := blank s] = replicate (Suc i) (blank s) @ drop (Suc i) ?g"
      using I by (simp add: list_update_append replicate_app_Cons_same)
    then show "\<exists>t'. push_to_queue (blank s) (i mod ?n) (i div ?n) t = Some t' \<and> ?I (Suc i) t'"
      using t' I requeued_trans by auto
  qed (use ok in simp_all)
  then obtain s' where s': "for_each (\<lambda>i. push_to_queue (blank s) (i mod ?n) (i div ?n)) [0..<?N] s = Some s'"
      "?I ?N s'" by blast
  then show ?thesis by (intro exI [of _ s']) (simp add: flanterm_fb_clear_def retexted_def)
qed

lemma move_character_shown:
  assumes ok: "fb_ok s"
  shows "\<exists>s'. flanterm_fb_move_character x' y' x y s = Some s' \<and>
    retexted s (if x < cols s \<and> y < rows s \<and> x' < cols s \<and> y' < rows s
                then (shown s)[y' * cols s + x' := shown s ! (y * cols s + x)] else shown s) s'"
proof (cases "x < cols s \<and> y < rows s \<and> x' < cols s \<and> y' < rows s")
  case True
  then have "pending_char (x + y * cols s) s = Some (shown s ! (y * cols s + x))"
    using pending_shown [OF ok, of "y * cols s + x"] cell_less [of x "cols s" y "rows s"]
    by (simp add: add.commute)
  then show ?thesis using True push_retexts [OF ok, of "shown s ! (y * cols s + x)" x' y']
    by (auto simp: flanterm_fb_move_character_def)
next
  case False
  then show ?thesis using retexted_refl [OF ok]
    by (auto simp: flanterm_fb_move_character_def)
qed

end
