(* ===== verification/FbText.thy ===== *)
theory FbText
  imports FbGrid
begin

text \<open>
  The abstract terminal the back end implements: a rectangle of characters, a cursor, two colours
  and the scrolling region, with one reference operation per operation of the back end.
  \<open>refines_text\<close> says that an operation of the back end returns, keeps the invariant of the queue
  and does to the abstract terminal what the reference operation does; it is closed under
  sequencing and loops.
\<close>

section \<open>The abstract terminal\<close>

record text_screen =
  tx_cols :: nat
  tx_rows :: nat
  tx_upper :: nat
  tx_lower :: nat
  tx_scrolls :: bool
  tx_fg :: u32
  tx_bg :: u32
  tx_x :: nat
  tx_y :: nat
  tx_cells :: "fb_char list"

definition text_of :: "fb_context \<Rightarrow> text_screen" where
  "text_of s = \<lparr>tx_cols = cols s, tx_rows = rows s, tx_upper = scroll_top_margin s,
     tx_lower = scroll_bottom_margin s, tx_scrolls = scroll_enabled s, tx_fg = text_fg s,
     tx_bg = text_bg s, tx_x = cursor_x s, tx_y = cursor_y s, tx_cells = shown s\<rparr>"

lemma text_of_simps [simp]:
  "tx_cols (text_of s) = cols s" "tx_rows (text_of s) = rows s"
  "tx_upper (text_of s) = scroll_top_margin s" "tx_lower (text_of s) = scroll_bottom_margin s"
  "tx_scrolls (text_of s) = scroll_enabled s" "tx_fg (text_of s) = text_fg s"
  "tx_bg (text_of s) = text_bg s" "tx_x (text_of s) = cursor_x s" "tx_y (text_of s) = cursor_y s"
  "tx_cells (text_of s) = shown s"
  by (simp_all add: text_of_def)

definition text_char :: "text_screen \<Rightarrow> nat \<Rightarrow> fb_char" where
  "text_char t c = \<lparr>ch_c = c, ch_fg = tx_fg t, ch_bg = tx_bg t\<rparr>"

definition put_cell :: "fb_char \<Rightarrow> nat \<Rightarrow> nat \<Rightarrow> text_screen \<Rightarrow> text_screen" where
  "put_cell c x y t =
     (if x < tx_cols t \<and> y < tx_rows t then t\<lparr>tx_cells := (tx_cells t)[y * tx_cols t + x := c]\<rparr> else t)"

definition text_scroll :: "text_screen \<Rightarrow> text_screen" where
  "text_scroll t =
     t\<lparr>tx_cells := scroll_lines (tx_cols t) (tx_upper t) (tx_lower t) (text_char t 32) (tx_cells t)\<rparr>"

definition text_revscroll :: "text_screen \<Rightarrow> text_screen" where
  "text_revscroll t =
     t\<lparr>tx_cells := revscroll_lines (tx_cols t) (tx_upper t) (tx_lower t) (text_char t 32) (tx_cells t)\<rparr>"

definition text_clear :: "bool \<Rightarrow> text_screen \<Rightarrow> text_screen" where
  "text_clear move t =
     (let t' = t\<lparr>tx_cells := replicate (tx_rows t * tx_cols t) (text_char t 32)\<rparr>
      in if move then t'\<lparr>tx_x := 0, tx_y := 0\<rparr> else t')"

definition text_goto :: "nat \<Rightarrow> nat \<Rightarrow> text_screen \<Rightarrow> text_screen" where
  "text_goto x y t = t\<lparr>tx_x := clamp_pos x (tx_cols t), tx_y := clamp_pos y (tx_rows t)\<rparr>"

definition text_pos :: "text_screen \<Rightarrow> nat \<times> nat" where
  "text_pos t = (min (tx_x t) (tx_cols t - 1), min (tx_y t) (tx_rows t - 1))"

definition text_move :: "nat \<Rightarrow> nat \<Rightarrow> nat \<Rightarrow> nat \<Rightarrow> text_screen \<Rightarrow> text_screen" where
  "text_move x' y' x y t =
     (if x < tx_cols t \<and> y < tx_rows t then put_cell (tx_cells t ! (y * tx_cols t + x)) x' y' t else t)"

text \<open>The wrap to the next line, which the back end makes when a character does not fit.\<close>

definition text_wrap :: "text_screen \<Rightarrow> text_screen" where
  "text_wrap t =
     (let t' = (if tx_y t + 1 = tx_lower t then text_scroll (t\<lparr>tx_x := 0\<rparr>)
                else t\<lparr>tx_x := 0, tx_y := tx_y t + 1\<rparr>)
      in if tx_cols t \<le> tx_y t' then t'\<lparr>tx_y := tx_cols t - 1\<rparr> else t')"

definition text_put :: "nat \<Rightarrow> text_screen \<Rightarrow> text_screen" where
  "text_put c t =
     (let t1 = (if tx_cols t \<le> tx_x t \<and> (tx_y t < tx_lower t - 1 \<or> tx_scrolls t) then text_wrap t else t)
      in put_cell (text_char t c) (tx_x t1) (tx_y t1) (t1\<lparr>tx_x := tx_x t1 + 1\<rparr>))"

section \<open>Refinement\<close>

text \<open>What the operations on the text leave alone.\<close>

definition fixed :: "fb_context \<Rightarrow> fb_context \<Rightarrow> bool" where
  "fixed s s' \<longleftrightarrow> cols s' = cols s \<and> rows s' = rows s \<and> cursor_enabled s' = cursor_enabled s \<and>
     scroll_top_margin s' = scroll_top_margin s \<and> scroll_bottom_margin s' = scroll_bottom_margin s \<and>
     scroll_enabled s' = scroll_enabled s \<and> display s' = display s \<and> palette s' = palette s \<and>
     grid s' = grid s \<and> old_cursor_x s' = old_cursor_x s \<and> old_cursor_y s' = old_cursor_y s"

lemma fixed_refl [simp]: "fixed s s"
  by (simp add: fixed_def)

lemma fixed_trans: "fixed s t \<Longrightarrow> fixed t u \<Longrightarrow> fixed s u"
  by (simp add: fixed_def)

lemma requeued_fixed: "requeued s s' \<Longrightarrow> fixed s s'"
  by (simp add: fixed_def requeued_fields)

lemma fixed_margins: "fixed s s' \<Longrightarrow> margins_ok s' = margins_ok s"
  by (simp add: fixed_def margins_ok_def)

definition refines_text :: "(fb_context \<Rightarrow> fb_context option) \<Rightarrow> (text_screen \<Rightarrow> text_screen) \<Rightarrow> bool" where
  "refines_text f g \<longleftrightarrow> (\<forall>s. fb_ok s \<longrightarrow> margins_ok s \<longrightarrow>
     (\<exists>s'. f s = Some s' \<and> fb_ok s' \<and> fixed s s' \<and> text_of s' = g (text_of s)))"

named_theorems text_refinement \<open>operations of the back end against the abstract terminal\<close>

lemma refines_textI:
  assumes "\<And>s. fb_ok s \<Longrightarrow> margins_ok s \<Longrightarrow>
    \<exists>s'. f s = Some s' \<and> fb_ok s' \<and> fixed s s' \<and> text_of s' = g (text_of s)"
  shows "refines_text f g"
  using assms by (simp add: refines_text_def)

lemma refines_textE:
  assumes "refines_text f g" and "fb_ok s" and "margins_ok s"
  obtains s' where "f s = Some s'" "fb_ok s'" "fixed s s'" "margins_ok s'" "text_of s' = g (text_of s)"
  using assms fixed_margins unfolding refines_text_def by blast

lemma refines_skip [text_refinement]: "refines_text Some (\<lambda>t. t)"
  by (simp add: refines_text_def)

lemma refines_seq:
  assumes "refines_text f g" and "refines_text f' g'"
  shows "refines_text (\<lambda>s. do { s1 \<leftarrow> f s; f' s1 }) (\<lambda>t. g' (g t))"
proof (rule refines_textI)
  fix s assume "fb_ok s" "margins_ok s"
  then obtain s1 where s1: "f s = Some s1" "fb_ok s1" "fixed s s1" "margins_ok s1" "text_of s1 = g (text_of s)"
    using assms(1) by (blast elim: refines_textE)
  then obtain s2 where "f' s1 = Some s2" "fb_ok s2" "fixed s1 s2" "text_of s2 = g' (text_of s1)"
    using assms(2) by (blast elim: refines_textE)
  then show "\<exists>s'. (do { s1 \<leftarrow> f s; f' s1 }) = Some s' \<and> fb_ok s' \<and> fixed s s' \<and> text_of s' = g' (g (text_of s))"
    using s1 by (auto intro: fixed_trans)
qed

lemma refines_loop:
  assumes "\<And>i. i \<in> set is \<Longrightarrow> refines_text (f i) (g i)"
  shows "refines_text (for_each f is) (fold g is)"
  using assms
proof (induction "is")
  case Nil
  then show ?case by (simp add: refines_text_def)
next
  case (Cons i "is")
  then have "refines_text (\<lambda>s. do { s1 \<leftarrow> f i s; for_each f is s1 }) (\<lambda>t. fold g is (g i t))"
    by (intro refines_seq) simp_all
  then show ?case by (simp add: refines_text_def)
qed

lemma fb_ok_pos:
  "fb_ok s \<Longrightarrow> 0 < cols s \<and> cols s < 2 ^ 31 \<and> 0 < rows s \<and> rows s < 2 ^ 31"
  by (simp add: fb_ok_def arrays_ok_def)

lemma fb_ok_fields [simp]:
  "fb_ok (s\<lparr>cursor_x := v_cursor_x\<rparr>) = fb_ok s" "shown (s\<lparr>cursor_x := v_cursor_x\<rparr>) = shown s"
  "fb_ok (s\<lparr>cursor_y := v_cursor_y\<rparr>) = fb_ok s" "shown (s\<lparr>cursor_y := v_cursor_y\<rparr>) = shown s"
  "fb_ok (s\<lparr>text_fg := v_text_fg\<rparr>) = fb_ok s" "shown (s\<lparr>text_fg := v_text_fg\<rparr>) = shown s"
  "fb_ok (s\<lparr>text_bg := v_text_bg\<rparr>) = fb_ok s" "shown (s\<lparr>text_bg := v_text_bg\<rparr>) = shown s"
  "fb_ok (s\<lparr>scroll_top_margin := v_scroll_top_margin\<rparr>) = fb_ok s" "shown (s\<lparr>scroll_top_margin := v_scroll_top_margin\<rparr>) = shown s"
  "fb_ok (s\<lparr>scroll_bottom_margin := v_scroll_bottom_margin\<rparr>) = fb_ok s" "shown (s\<lparr>scroll_bottom_margin := v_scroll_bottom_margin\<rparr>) = shown s"
  "fb_ok (s\<lparr>scroll_enabled := v_scroll_enabled\<rparr>) = fb_ok s" "shown (s\<lparr>scroll_enabled := v_scroll_enabled\<rparr>) = shown s"
  "fb_ok (s\<lparr>cursor_enabled := v_cursor_enabled\<rparr>) = fb_ok s" "shown (s\<lparr>cursor_enabled := v_cursor_enabled\<rparr>) = shown s"
  "fb_ok (s\<lparr>saved_state_text_fg := v_saved_state_text_fg\<rparr>) = fb_ok s" "shown (s\<lparr>saved_state_text_fg := v_saved_state_text_fg\<rparr>) = shown s"
  "fb_ok (s\<lparr>saved_state_text_bg := v_saved_state_text_bg\<rparr>) = fb_ok s" "shown (s\<lparr>saved_state_text_bg := v_saved_state_text_bg\<rparr>) = shown s"
  "fb_ok (s\<lparr>saved_state_cursor_x := v_saved_state_cursor_x\<rparr>) = fb_ok s" "shown (s\<lparr>saved_state_cursor_x := v_saved_state_cursor_x\<rparr>) = shown s"
  "fb_ok (s\<lparr>saved_state_cursor_y := v_saved_state_cursor_y\<rparr>) = fb_ok s" "shown (s\<lparr>saved_state_cursor_y := v_saved_state_cursor_y\<rparr>) = shown s"
  by (simp_all add: fb_ok_def arrays_ok_def queue_linked_def queue_full_def item_cell_def shown_def
        cong: option.case_cong)

lemma retexted_refines:
  assumes "retexted s g s'"
  shows "fb_ok s'" "fixed s s'" "text_of s' = (text_of s)\<lparr>tx_cells := g\<rparr>"
  using assms requeued_fixed
  by (auto simp: retexted_def text_of_def requeued_fields)

lemma blank_text: "blank s = text_char (text_of s) 32"
  by (simp add: blank_def text_char_def)

lemma push_refines: "refines_text (push_to_queue c x y) (put_cell c x y)"
proof (rule refines_textI)
  fix s assume ok: "fb_ok s"
  from push_retexts [OF ok, of c x y] obtain s' where "push_to_queue c x y s = Some s'"
    "retexted s (if x < cols s \<and> y < rows s then (shown s)[y * cols s + x := c] else shown s) s'" by blast
  then show "\<exists>s'. push_to_queue c x y s = Some s' \<and> fb_ok s' \<and> fixed s s' \<and> text_of s' = put_cell c x y (text_of s)"
    using retexted_refines [of s _ s'] by (auto simp: put_cell_def text_of_def split: if_splits)
qed

lemma scroll_refines [text_refinement]: "refines_text flanterm_fb_scroll text_scroll"
  using scroll_shown retexted_refines
  by (intro refines_textI) (fastforce simp: text_scroll_def blank_text)

lemma revscroll_refines [text_refinement]: "refines_text flanterm_fb_revscroll text_revscroll"
proof (rule refines_textI)
  fix s assume ok: "fb_ok s" "margins_ok s"
  then have "\<exists>s'. flanterm_fb_revscroll s = Some s' \<and>
    retexted s (revscroll_lines (cols s) (scroll_top_margin s) (scroll_bottom_margin s) (blank s) (shown s)) s'"
    by (intro revscroll_shown) (auto simp: margins_ok_def)
  then show "\<exists>s'. flanterm_fb_revscroll s = Some s' \<and> fb_ok s' \<and> fixed s s' \<and> text_of s' = text_revscroll (text_of s)"
    using retexted_refines by (fastforce simp: text_revscroll_def blank_text)
qed

lemma clear_refines [text_refinement]: "refines_text (flanterm_fb_clear move) (text_clear move)"
proof (rule refines_textI)
  fix s assume ok: "fb_ok s"
  from clear_shown [OF ok, of move] obtain s' where
    s': "flanterm_fb_clear move s = Some (if move then s'\<lparr>cursor_x := 0, cursor_y := 0\<rparr> else s')"
      "retexted s (replicate (rows s * cols s) (blank s)) s'" by blast
  note r = retexted_refines [OF s'(2)]
  then have "text_of (if move then s'\<lparr>cursor_x := 0, cursor_y := 0\<rparr> else s') = text_clear move (text_of s)"
    by (auto simp: text_clear_def blank_text text_of_def Let_def)
  then show "\<exists>s'. flanterm_fb_clear move s = Some s' \<and> fb_ok s' \<and> fixed s s' \<and> text_of s' = text_clear move (text_of s)"
    using s'(1) r by (auto simp: fixed_def)
qed

lemma goto_refines [text_refinement]:
  "refines_text (\<lambda>s. Some (flanterm_fb_set_cursor_pos x y s)) (text_goto x y)"
  by (intro refines_textI)
    (auto simp: flanterm_fb_set_cursor_pos_def text_goto_def text_of_def fixed_def)

lemma get_pos_text: "fb_ok s \<Longrightarrow> flanterm_fb_get_cursor_pos s = text_pos (text_of s)"
  using fb_ok_pos [of s] by (auto simp: flanterm_fb_get_cursor_pos_def text_pos_def min_def)

lemma move_refines [text_refinement]:
  "refines_text (flanterm_fb_move_character x' y' x y) (text_move x' y' x y)"
proof (rule refines_textI)
  fix s assume ok: "fb_ok s"
  from move_character_shown [OF ok, of x' y' x y] obtain s' where
    "flanterm_fb_move_character x' y' x y s = Some s'"
    "retexted s (if x < cols s \<and> y < rows s \<and> x' < cols s \<and> y' < rows s
                then (shown s)[y' * cols s + x' := shown s ! (y * cols s + x)] else shown s) s'" by blast
  then show "\<exists>s'. flanterm_fb_move_character x' y' x y s = Some s' \<and> fb_ok s' \<and> fixed s s' \<and>
      text_of s' = text_move x' y' x y (text_of s)"
    using retexted_refines [of s _ s']
    by (auto simp: text_move_def put_cell_def text_of_def split: if_splits)
qed

text \<open>A character that does not fit goes to the next line; the region scrolls at its end.\<close>

lemma wrap_refines: "refines_text wrap_cursor text_wrap"
proof (rule refines_textI)
  fix s assume ok: "fb_ok s" "margins_ok s"
  let ?s0 = "s\<lparr>cursor_x := 0\<rparr>" and ?s1 = "s\<lparr>cursor_x := 0, cursor_y := cursor_y s + 1\<rparr>"
  define t1 where "t1 = (if cursor_y s + 1 = scroll_bottom_margin s then text_scroll (text_of ?s0) else text_of ?s1)"
  have same: "s\<lparr>cursor_x := 0, cursor_y := cursor_y s\<rparr> = ?s0" by (cases s) simp
  have s01: "fb_ok ?s0" "margins_ok ?s0" "fixed s ?s0" "fb_ok ?s1" "fixed s ?s1"
    using ok by (simp_all add: margins_ok_def fixed_def)
  have "\<exists>s2. (if cursor_y s + 1 = scroll_bottom_margin s then flanterm_fb_scroll ?s0 else Some ?s1) = Some s2
      \<and> fb_ok s2 \<and> fixed s s2 \<and> text_of s2 = t1"
    using refines_textE [OF scroll_refines s01(1,2)] s01 fixed_trans [OF s01(3)] unfolding t1_def by auto
  then obtain s2 where
    s2: "(if cursor_y s + 1 = scroll_bottom_margin s then flanterm_fb_scroll ?s0 else Some ?s1) = Some s2"
      "fb_ok s2" "fixed s s2" "text_of s2 = t1" by blast
  have f: "cols s2 = cols s" "cursor_y s2 = tx_y t1"
    using s2(3) by (simp_all add: fixed_def s2(4) [symmetric])
  let ?s3 = "if cols s2 \<le> cursor_y s2 then s2\<lparr>cursor_y := size_sub (cols s2) 1\<rparr> else s2"
  have "size_sub (cols s2) 1 = cols s - 1" using fb_ok_pos [OF ok(1)] f by simp
  then have "text_of ?s3 = (if cols s \<le> tx_y t1 then t1\<lparr>tx_y := cols s - 1\<rparr> else t1)"
    using f by (simp add: text_of_def s2(4) [symmetric])
  also have "\<dots> = text_wrap (text_of s)"
    by (simp add: text_wrap_def Let_def text_of_def t1_def)
  finally have "text_of ?s3 = text_wrap (text_of s)" .
  moreover have "fb_ok ?s3" "fixed s ?s3" using s2 by (simp_all add: fixed_def)
  moreover have "wrap_cursor s = Some ?s3"
  proof -
    have "(if cursor_y ?s1 = scroll_bottom_margin ?s1
           then flanterm_fb_scroll (?s1\<lparr>cursor_y := cursor_y ?s1 - 1\<rparr>) else Some ?s1) = Some s2"
    proof (cases "scroll_bottom_margin s = Suc (cursor_y s)")
      case True
      then show ?thesis using s2(1) same by simp
    next
      case False
      then show ?thesis using s2(1) by auto
    qed
    then show ?thesis unfolding wrap_cursor_def Let_def by simp
  qed
  ultimately show "\<exists>s'. wrap_cursor s = Some s' \<and> fb_ok s' \<and> fixed s s' \<and> text_of s' = text_wrap (text_of s)"
    by blast
qed

lemma text_wrap_colours [simp]: "tx_fg (text_wrap t) = tx_fg t" "tx_bg (text_wrap t) = tx_bg t"
  by (auto simp: text_wrap_def text_scroll_def Let_def)

lemma raw_putchar_refines [text_refinement]: "refines_text (flanterm_fb_raw_putchar c) (text_put c)"
proof (rule refines_textI)
  fix s assume ok: "fb_ok s" "margins_ok s"
  let ?wrap = "cols s \<le> cursor_x s \<and> (cursor_y s < scroll_bottom_margin s - 1 \<or> scroll_enabled s)"
  have sub: "size_sub (scroll_bottom_margin s) 1 = scroll_bottom_margin s - 1"
    using ok fb_ok_pos [of s] by (auto simp: margins_ok_def)
  define t1 where "t1 = (if ?wrap then text_wrap (text_of s) else text_of s)"
  have "\<exists>s1. (if ?wrap then wrap_cursor s else Some s) = Some s1 \<and> fb_ok s1 \<and> fixed s s1 \<and> text_of s1 = t1"
    using refines_textE [OF wrap_refines ok] ok unfolding t1_def by auto
  then obtain s1 where s1: "(if ?wrap then wrap_cursor s else Some s) = Some s1" "fb_ok s1" "fixed s s1"
      "text_of s1 = t1" by blast
  let ?s2 = "s1\<lparr>cursor_x := cursor_x s1 + 1\<rparr>" and ?c = "\<lparr>ch_c = c, ch_fg = text_fg s1, ch_bg = text_bg s1\<rparr>"
  have ok2: "fb_ok ?s2" "margins_ok ?s2" "fixed s ?s2"
    using s1 ok fixed_margins [OF s1(3)] by (simp_all add: fixed_def margins_ok_def)
  obtain s3 where s3: "push_to_queue ?c (cursor_x s1) (cursor_y s1) ?s2 = Some s3" "fb_ok s3"
      "fixed ?s2 s3" "text_of s3 = put_cell ?c (cursor_x s1) (cursor_y s1) (text_of ?s2)"
    by (rule refines_textE [OF push_refines ok2(1,2)])
  have x: "cursor_x s1 = tx_x t1" "cursor_y s1 = tx_y t1" "text_fg s1 = tx_fg t1" "text_bg s1 = tx_bg t1"
    by (simp_all add: s1(4) [symmetric])
  have "text_of ?s2 = t1\<lparr>tx_x := tx_x t1 + 1\<rparr>" by (simp add: text_of_def s1(4) [symmetric])
  moreover have "?c = text_char (text_of s) c"
    unfolding x by (simp add: text_char_def t1_def)
  ultimately have "text_of s3 = put_cell (text_char (text_of s) c) (tx_x t1) (tx_y t1) (t1\<lparr>tx_x := tx_x t1 + 1\<rparr>)"
    using s3(4) x by simp
  also have "\<dots> = text_put c (text_of s)"
    by (simp add: text_put_def t1_def Let_def)
  finally have "text_of s3 = text_put c (text_of s)" .
  moreover have "flanterm_fb_raw_putchar c s = Some s3"
    unfolding flanterm_fb_raw_putchar_def sub s1(1) using s3(1) by simp
  moreover have "fixed s s3" by (rule fixed_trans [OF ok2(3) s3(3)])
  ultimately show "\<exists>s'. flanterm_fb_raw_putchar c s = Some s' \<and> fb_ok s' \<and> fixed s s' \<and>
      text_of s' = text_put c (text_of s)"
    using s3(2) by blast
qed

text \<open>The colours.\<close>

definition text_colours :: "u32 \<Rightarrow> u32 \<Rightarrow> text_screen \<Rightarrow> text_screen" where
  "text_colours fg bg t = t\<lparr>tx_fg := fg, tx_bg := bg\<rparr>"

lemma refines_same_text:
  assumes "\<And>s. fb_ok s \<Longrightarrow> margins_ok s \<Longrightarrow> \<exists>fg bg. f s = Some (s\<lparr>text_fg := fg, text_bg := bg\<rparr>)"
    and "fb_ok s" and "margins_ok s"
  shows "\<exists>s'. f s = Some s' \<and> fb_ok s' \<and> fixed s s' \<and> text_of s' = text_colours (text_fg s') (text_bg s') (text_of s)"
  using assms(1) [OF assms(2,3)] assms(2,3) by (auto simp: fixed_def text_of_def text_colours_def)

end
