(* ===== verification/FbPixels.thy ===== *)
theory FbPixels
  imports FbText
begin

text \<open>
  From the grid to the pixels: the four plotting routines write exactly the pixels of their cell,
  with the glyph of the font in the two colours of the character, and a flush of the queue makes
  every cell of the framebuffer show the character the text has there, the cursor inverted.
\<close>

section \<open>Writing a rectangle\<close>

lemma for_each_map: "for_each f (map g xs) s = for_each (\<lambda>x. f (g x)) xs s"
  by (induction xs arbitrary: s) (auto split: Option.bind_split)

lemma for_each_same:
  assumes "\<And>x s. x \<in> set xs \<Longrightarrow> f x s = g x s"
  shows "for_each f xs s = for_each g xs s"
  using assms by (induction xs arbitrary: s) (auto split: Option.bind_split)

text \<open>Two nested loops over \<open>n * k + i\<close> are one.\<close>

lemma nested_range:
  "for_each (\<lambda>a. for_each (\<lambda>i. f (k * a + i)) [0..<k]) [0..<n] s = for_each f [0..<n * k] s"
proof (induction n)
  case 0
  then show ?case by simp
next
  case (Suc n)
  have "[0..<Suc n * k] = [0..<n * k] @ map (\<lambda>i. k * n + i) [0..<k]"
    using upt_add_eq_append [of 0 "n * k" k] map_add_upt [of "n * k" k]
    by (simp add: mult.commute add.commute)
  then show ?case using Suc by (simp add: for_each_append for_each_map split: Option.bind_split)
qed

lemma write_line:
  assumes "base + n \<le> length f"
  shows "\<exists>f'. for_each (\<lambda>k f. wr f (base + k) (v k)) [0..<n] f = Some f' \<and> length f' = length f \<and>
    (\<forall>j<length f. f' ! j = (if base \<le> j \<and> j < base + n then v (j - base) else f ! j))"
  using assms
proof (induction n)
  case 0
  then show ?case by auto
next
  case (Suc n)
  then obtain f1 where f1: "for_each (\<lambda>k f. wr f (base + k) (v k)) [0..<n] f = Some f1"
    "length f1 = length f"
    "\<forall>j<length f. f1 ! j = (if base \<le> j \<and> j < base + n then v (j - base) else f ! j)" by auto
  then show ?case
    using Suc.prems by (intro exI [of _ "f1[base + n := v n]"]) (auto simp: for_each_append nth_list_update)
qed

text \<open>The rectangle with corner \<open>(px, py)\<close> of a picture of \<open>st\<close> pixels a line.\<close>

definition in_rect :: "nat \<Rightarrow> nat \<Rightarrow> nat \<Rightarrow> nat \<Rightarrow> nat \<Rightarrow> nat \<Rightarrow> bool" where
  "in_rect px py w h x y \<longleftrightarrow> px \<le> x \<and> x < px + w \<and> py \<le> y \<and> y < py + h"

lemma write_rect:
  assumes room: "px + w \<le> st" "\<forall>k<h. (py + k) * st + (px + w) \<le> length f"
    and body: "\<And>gy f'. gy < h \<Longrightarrow> body gy f' = for_each (\<lambda>k f. wr f (px + (py + gy) * st + k) (v gy k)) [0..<w] f'"
  shows "\<exists>f'. for_each body [0..<h] f = Some f' \<and> length f' = length f \<and>
    (\<forall>x y. x < st \<longrightarrow> y * st + x < length f \<longrightarrow>
       f' ! (y * st + x) = (if in_rect px py w h x y then v (y - py) (x - px) else f ! (y * st + x)))"
  using room(2) body
proof (induction h)
  case 0
  then show ?case by (auto simp: in_rect_def)
next
  case (Suc h)
  have le: "\<forall>k<h. (py + k) * st + (px + w) \<le> length f" using Suc.prems(1) by simp
  obtain f1 where f1: "for_each body [0..<h] f = Some f1" "length f1 = length f"
    "\<And>x y. x < st \<Longrightarrow> y * st + x < length f \<Longrightarrow>
       f1 ! (y * st + x) = (if in_rect px py w h x y then v (y - py) (x - px) else f ! (y * st + x))"
    using Suc.IH [OF le] Suc.prems(2) by auto
  let ?base = "px + (py + h) * st"
  have "(py + h) * st + (px + w) \<le> length f" using Suc.prems(1) by blast
  then have "?base + w \<le> length f1" using f1(2) by linarith
  from write_line [OF this, of "v h"] obtain f2 where
    f2: "for_each (\<lambda>k f. wr f (?base + k) (v h k)) [0..<w] f1 = Some f2" "length f2 = length f1"
    "\<And>j. j < length f1 \<Longrightarrow> f2 ! j = (if ?base \<le> j \<and> j < ?base + w then v h (j - ?base) else f1 ! j)" by blast
  have line: "?base \<le> y * st + x \<and> y * st + x < ?base + w \<longleftrightarrow> y = py + h \<and> px \<le> x \<and> x < px + w"
    if x: "x < st" for x y
  proof
    assume a: "?base \<le> y * st + x \<and> y * st + x < ?base + w"
    then have "(y * st + x) div st = py + h"
      using room(1) x by (intro div_nat_eqI) (simp_all add: algebra_simps)
    then have "y = py + h" using x by simp
    with a show "y = py + h \<and> px \<le> x \<and> x < px + w" by (simp add: algebra_simps)
  qed (simp add: algebra_simps)
  have "f2 ! (y * st + x) = (if in_rect px py w (Suc h) x y then v (y - py) (x - px) else f ! (y * st + x))"
    if "x < st" "y * st + x < length f" for x y
  proof (cases "y = py + h \<and> px \<le> x \<and> x < px + w")
    case True
    then have "y * st + x - ?base = x - px" by (simp add: algebra_simps)
    with True show ?thesis using f2(3) [of "y * st + x"] line [OF that(1), of y] that f1(2)
      by (simp add: in_rect_def)
  next
    case False
    then have "in_rect px py w (Suc h) x y = in_rect px py w h x y"
      by (auto simp: in_rect_def)
    moreover have "f2 ! (y * st + x) = f1 ! (y * st + x)"
      using False f2(3) [of "y * st + x"] line [OF that(1), of y] that f1(2) by auto
    ultimately show ?thesis using f1(3) [OF that] by simp
  qed
  moreover have "for_each body [0..<Suc h] f = Some f2"
    using f1(1) f2(1) Suc.prems(2) [of h f1] by (simp add: for_each_append)
  ultimately show ?case using f1(2) f2(2) by auto
qed

section \<open>Plotting a glyph\<close>

abbreviation stride :: "fb_display \<Rightarrow> nat" where
  "stride d \<equiv> pitch d div 4"

text \<open>
  The geometry: the cells fit in the picture, the picture in the framebuffer (and in the canvas),
  and the font has a bitmap for every byte. The unscaled routines are used for a scale of one.
\<close>

definition display_ok :: "fb_context \<Rightarrow> bool" where
  "display_ok s \<longleftrightarrow> (let d = display s in
     0 < font_scale_x d \<and> 0 < font_scale_y d \<and> 0 < font_width d \<and> 0 < font_height d \<and> font_height d \<le> 256 \<and>
     glyph_width d = font_width d * font_scale_x d \<and> glyph_height d = font_height d * font_scale_y d \<and>
     length (font_bool d) = 256 * font_height d * font_width d \<and>
     offset_x d + cols s * glyph_width d \<le> width d \<and> offset_y d + rows s * glyph_height d \<le> height d \<and>
     width d \<le> stride d \<and> (height d - 1) * stride d + width d \<le> length (framebuffer d) \<and>
     (case canvas d of None \<Rightarrow> plot_char_fn d = Scaled_uncanvas \<or> plot_char_fn d = Unscaled_uncanvas
      | Some p \<Rightarrow> length p = height d * width d \<and> (plot_char_fn d = Scaled_canvas \<or> plot_char_fn d = Unscaled_canvas)) \<and>
     (plot_char_fn d = Unscaled_canvas \<or> plot_char_fn d = Unscaled_uncanvas \<longrightarrow>
        font_scale_x d = 1 \<and> font_scale_y d = 1))"

text \<open>The bit of the font and the colour of the pixel \<open>(gx, gy)\<close> of a character in a cell.\<close>

definition font_bit :: "fb_display \<Rightarrow> fb_char \<Rightarrow> nat \<Rightarrow> nat \<Rightarrow> bool" where
  "font_bit d c gx gy = font_bool d ! (ch_c c * font_height d * font_width d
     + gy div font_scale_y d * font_width d + gx div font_scale_x d)"

definition behind :: "fb_context \<Rightarrow> nat \<Rightarrow> nat \<Rightarrow> u32" where
  "behind s x y = (case canvas (display s) of None \<Rightarrow> default_bg (palette s)
     | Some p \<Rightarrow> p ! (y * width (display s) + x))"

definition opaque :: "fb_context \<Rightarrow> u32 \<Rightarrow> nat \<Rightarrow> nat \<Rightarrow> u32" where
  "opaque s colour x y = (if colour = 0xFFFFFFFF then behind s x y else colour)"

definition glyph_pixel :: "fb_context \<Rightarrow> fb_char \<Rightarrow> nat \<Rightarrow> nat \<Rightarrow> nat \<Rightarrow> nat \<Rightarrow> u32" where
  "glyph_pixel s c x y gx gy =
     opaque s (if font_bit (display s) c gx gy then ch_fg c else ch_bg c) (cell_left s x + gx) (cell_top s y + gy)"

text \<open>The cell \<open>(x, y)\<close> of the framebuffer shows the character \<open>c\<close>.\<close>

definition cell_shows :: "fb_context \<Rightarrow> nat \<Rightarrow> nat \<Rightarrow> fb_char \<Rightarrow> bool" where
  "cell_shows s x y c \<longleftrightarrow> (\<forall>gx<glyph_width (display s). \<forall>gy<glyph_height (display s).
     framebuffer (display s) ! ((cell_top s y + gy) * stride (display s) + (cell_left s x + gx))
       = glyph_pixel s c x y gx gy)"

lemma cell_inside:
  assumes "display_ok s" and "x < cols s" and "y < rows s"
  shows "cell_left s x + glyph_width (display s) \<le> width (display s)"
    and "cell_top s y + glyph_height (display s) \<le> height (display s)"
proof -
  let ?d = "display s"
  have "(x + 1) * glyph_width ?d \<le> cols s * glyph_width ?d" "(y + 1) * glyph_height ?d \<le> rows s * glyph_height ?d"
    using assms(2,3) by (intro mult_le_mono1; simp)+
  then show "cell_left s x + glyph_width ?d \<le> width ?d" "cell_top s y + glyph_height ?d \<le> height ?d"
    using assms(1) by (auto simp: display_ok_def Let_def cell_left_def cell_top_def)
qed

lemma font_index:
  assumes "display_ok s" and "ch_c c < 256" and "gx < glyph_width (display s)" and "gy < glyph_height (display s)"
  shows "ch_c c * font_height (display s) * font_width (display s)
     + gy div font_scale_y (display s) * font_width (display s) + gx div font_scale_x (display s)
     < length (font_bool (display s))"
proof -
  let ?d = "display s"
  have "gx div font_scale_x ?d < font_width ?d" "gy div font_scale_y ?d < font_height ?d"
    using assms by (auto simp: display_ok_def Let_def div_less_iff_less_mult)
  then have "gy div font_scale_y ?d * font_width ?d + gx div font_scale_x ?d < font_height ?d * font_width ?d"
    by (rule cell_less)
  then have "ch_c c * (font_height ?d * font_width ?d)
     + (gy div font_scale_y ?d * font_width ?d + gx div font_scale_x ?d) < 256 * (font_height ?d * font_width ?d)"
    by (rule cell_less) (rule assms(2))
  moreover have "length (font_bool ?d) = 256 * font_height ?d * font_width ?d"
    using assms(1) by (simp add: display_ok_def Let_def)
  ultimately show ?thesis by (simp add: algebra_simps)
qed

lemma scaled_line:
  assumes "\<And>fx i f. fx < fw \<Longrightarrow> i < sx \<Longrightarrow> inner fx i f = wr f (base + (sx * fx + i)) (v (sx * fx + i))"
  shows "for_each (\<lambda>fx. for_each (inner fx) [0..<sx]) [0..<fw] f
           = for_each (\<lambda>k f. wr f (base + k) (v k)) [0..<fw * sx] f"
proof -
  have "for_each (\<lambda>fx. for_each (inner fx) [0..<sx]) [0..<fw] f
      = for_each (\<lambda>fx. for_each (\<lambda>i. (\<lambda>k f. wr f (base + k) (v k)) (sx * fx + i)) [0..<sx]) [0..<fw] f"
    using assms by (intro for_each_same) auto
  also have "\<dots> = for_each (\<lambda>k f. wr f (base + k) (v k)) [0..<fw * sx] f"
    using nested_range [of "\<lambda>k f. wr f (base + k) (v k)" sx fw f] by simp
  finally show ?thesis .
qed

lemma font_read:
  assumes "display_ok s" and "ch_c c < 256" and "gx < glyph_width (display s)" and "gy < glyph_height (display s)"
  shows "rd (font_bool (display s)) (ch_c c * font_height (display s) * font_width (display s)
     + gy div font_scale_y (display s) * font_width (display s) + gx div font_scale_x (display s))
       = Some (font_bit (display s) c gx gy)"
  using font_index [OF assms] by (simp add: font_bit_def)

lemma through_opaque:
  assumes "display_ok s" and "canvas (display s) = Some p" and "x < cols s" "y < rows s"
    and "gx < glyph_width (display s)" and "gy < glyph_height (display s)"
  shows "through_canvas (display s) colour (cell_left s x + (cell_top s y + gy) * width (display s) + gx)
      = Some (opaque s colour (cell_left s x + gx) (cell_top s y + gy))"
proof -
  let ?i = "(cell_top s y + gy) * width (display s) + (cell_left s x + gx)"
  have "cell_left s x + gx < width (display s)" "cell_top s y + gy < height (display s)"
    using cell_inside [OF assms(1,3,4)] assms(5,6) by simp_all
  from cell_less [OF this] have "?i < length p"
    using assms(1,2) by (simp add: display_ok_def Let_def)
  moreover have e: "cell_left s x + (cell_top s y + gy) * width (display s) + gx = ?i" by simp
  ultimately show ?thesis
    unfolding e through_canvas_def canvas_pixel_def opaque_def behind_def using assms(2) by simp
qed

lemma scaled_font:
  assumes "display_ok s" and "gy < glyph_height (display s)"
  shows "gy div font_scale_y (display s) mod 256 = gy div font_scale_y (display s)"
    and "font_scale_y (display s) \<noteq> 0"
proof -
  have "gy div font_scale_y (display s) < font_height (display s)"
    using assms by (simp add: display_ok_def Let_def div_less_iff_less_mult)
  then show "gy div font_scale_y (display s) mod 256 = gy div font_scale_y (display s)"
    using assms by (simp add: display_ok_def Let_def)
  show "font_scale_y (display s) \<noteq> 0" using assms by (simp add: display_ok_def Let_def)
qed

lemma scaled_column:
  assumes "display_ok s" and "fx < font_width (display s)" and "i < font_scale_x (display s)"
  shows "font_scale_x (display s) * fx + i < glyph_width (display s)"
    and "(font_scale_x (display s) * fx + i) div font_scale_x (display s) = fx"
  using assms cell_less [of i "font_scale_x (display s)" fx "font_width (display s)"]
  by (simp_all add: display_ok_def Let_def mult.commute)

text \<open>
  Whichever of the four routines it calls, plotting writes the pixels of \<open>glyph_pixel\<close>, line by
  line.
\<close>

abbreviation pixel_line :: "fb_context \<Rightarrow> fb_char \<Rightarrow> nat \<Rightarrow> nat \<Rightarrow> nat \<Rightarrow> u32 list \<Rightarrow> u32 list option" where
  "pixel_line s c x y gy f \<equiv>
     for_each (\<lambda>k f. wr f (cell_left s x + (cell_top s y + gy) * stride (display s) + k)
                 (glyph_pixel s c x y k gy)) [0..<glyph_width (display s)] f"

lemma row_scaled_canvas_line:
  assumes ok: "display_ok s" and c: "ch_c c < 256" and xy: "x < cols s" "y < rows s"
    and gy: "gy < glyph_height (display s)" and p: "canvas (display s) = Some p"
  shows "row_scaled_canvas c (cell_left s x) (cell_top s y) (display s) gy f = pixel_line s c x y gy f"
proof -
  have gw: "glyph_width (display s) = font_width (display s) * font_scale_x (display s)"
    using ok by (simp add: display_ok_def Let_def)
  note col = scaled_column [OF ok]
  show ?thesis
    unfolding row_scaled_canvas_def Let_def gw if_not_P [OF scaled_font(2) [OF ok gy]]
  proof (rule scaled_line)
    fix fx i f assume "fx < font_width (display s)" "i < font_scale_x (display s)"
    note k = col [OF this]
    show "(do { bg \<leftarrow> through_canvas (display s) (ch_bg c)
             (cell_left s x + (cell_top s y + gy) * width (display s) + (font_scale_x (display s) * fx + i));
           fg \<leftarrow> through_canvas (display s) (ch_fg c)
             (cell_left s x + (cell_top s y + gy) * width (display s) + (font_scale_x (display s) * fx + i));
           on \<leftarrow> rd (font_bool (display s)) (ch_c c * font_height (display s) * font_width (display s) +
                gy div font_scale_y (display s) mod 256 * font_width (display s) + fx);
           wr f (cell_left s x + (cell_top s y + gy) * stride (display s) + (font_scale_x (display s) * fx + i))
             (if on then fg else bg) })
       = wr f (cell_left s x + (cell_top s y + gy) * stride (display s) + (font_scale_x (display s) * fx + i))
           (glyph_pixel s c x y (font_scale_x (display s) * fx + i) gy)"
      using font_read [OF ok c k(1) gy] through_opaque [OF ok p xy k(1) gy]
      by (simp add: k(2) scaled_font(1) [OF ok gy] glyph_pixel_def)
  qed
qed

lemma row_scaled_uncanvas_line:
  assumes ok: "display_ok s" and c: "ch_c c < 256" and gy: "gy < glyph_height (display s)"
    and p: "canvas (display s) = None"
  shows "row_scaled_uncanvas c (default_bg (palette s)) (cell_left s x) (cell_top s y) (display s) gy f
    = pixel_line s c x y gy f"
proof -
  have gw: "glyph_width (display s) = font_width (display s) * font_scale_x (display s)"
    using ok by (simp add: display_ok_def Let_def)
  note col = scaled_column [OF ok]
  show ?thesis
    unfolding row_scaled_uncanvas_def Let_def gw if_not_P [OF scaled_font(2) [OF ok gy]]
  proof (rule scaled_line)
    fix fx i f assume "fx < font_width (display s)" "i < font_scale_x (display s)"
    note k = col [OF this]
    show "(do { on \<leftarrow> rd (font_bool (display s)) (ch_c c * font_height (display s) * font_width (display s) +
                gy div font_scale_y (display s) mod 256 * font_width (display s) + fx);
           wr f (cell_left s x + (cell_top s y + gy) * stride (display s) + (font_scale_x (display s) * fx + i))
             (if on then if ch_fg c = 0xFFFFFFFF then default_bg (palette s) else ch_fg c
              else if ch_bg c = 0xFFFFFFFF then default_bg (palette s) else ch_bg c) })
       = wr f (cell_left s x + (cell_top s y + gy) * stride (display s) + (font_scale_x (display s) * fx + i))
           (glyph_pixel s c x y (font_scale_x (display s) * fx + i) gy)"
      using font_read [OF ok c k(1) gy] p
      by (simp add: k(2) scaled_font(1) [OF ok gy] glyph_pixel_def opaque_def behind_def)
  qed
qed

lemma row_unscaled_canvas_line:
  assumes ok: "display_ok s" and c: "ch_c c < 256" and xy: "x < cols s" "y < rows s"
    and gy: "gy < glyph_height (display s)" and p: "canvas (display s) = Some q"
    and one: "font_scale_x (display s) = 1" "font_scale_y (display s) = 1"
  shows "row_unscaled_canvas c (cell_left s x) (cell_top s y) (display s) gy f = pixel_line s c x y gy f"
proof -
  have gw: "font_width (display s) = glyph_width (display s)"
    using ok one by (simp add: display_ok_def Let_def)
  show ?thesis
    unfolding row_unscaled_canvas_def Let_def gw
  proof (rule for_each_same)
    fix k f assume "k \<in> set [0..<glyph_width (display s)]"
    then have k: "k < glyph_width (display s)" by simp
    show "(do { bg \<leftarrow> through_canvas (display s) (ch_bg c)
             (cell_left s x + (cell_top s y + gy) * width (display s) + k);
           fg \<leftarrow> through_canvas (display s) (ch_fg c)
             (cell_left s x + (cell_top s y + gy) * width (display s) + k);
           on \<leftarrow> rd (font_bool (display s)) (ch_c c * font_height (display s) * glyph_width (display s) +
                gy * glyph_width (display s) + k);
           wr f (cell_left s x + (cell_top s y + gy) * stride (display s) + k) (if on then fg else bg) })
       = wr f (cell_left s x + (cell_top s y + gy) * stride (display s) + k) (glyph_pixel s c x y k gy)"
      using font_read [OF ok c k gy] through_opaque [OF ok p xy k gy] one
      by (simp add: gw glyph_pixel_def)
  qed
qed

lemma row_unscaled_uncanvas_line:
  assumes ok: "display_ok s" and c: "ch_c c < 256" and gy: "gy < glyph_height (display s)"
    and p: "canvas (display s) = None"
    and one: "font_scale_x (display s) = 1" "font_scale_y (display s) = 1"
  shows "row_unscaled_uncanvas c (default_bg (palette s)) (cell_left s x) (cell_top s y) (display s) gy f
    = pixel_line s c x y gy f"
proof -
  have gw: "font_width (display s) = glyph_width (display s)"
    using ok one by (simp add: display_ok_def Let_def)
  show ?thesis
    unfolding row_unscaled_uncanvas_def Let_def gw
  proof (rule for_each_same)
    fix k f assume "k \<in> set [0..<glyph_width (display s)]"
    then have k: "k < glyph_width (display s)" by simp
    show "(do { on \<leftarrow> rd (font_bool (display s)) (ch_c c * font_height (display s) * glyph_width (display s) +
                gy * glyph_width (display s) + k);
           wr f (cell_left s x + (cell_top s y + gy) * stride (display s) + k)
             (if on then if ch_fg c = 0xFFFFFFFF then default_bg (palette s) else ch_fg c
              else if ch_bg c = 0xFFFFFFFF then default_bg (palette s) else ch_bg c) })
       = wr f (cell_left s x + (cell_top s y + gy) * stride (display s) + k) (glyph_pixel s c x y k gy)"
      using font_read [OF ok c k gy] p one
      by (simp add: gw glyph_pixel_def opaque_def behind_def)
  qed
qed

lemma plot_char_rows:
  assumes ok: "display_ok s" and c: "ch_c c < 256" and xy: "x < cols s" "y < rows s"
  shows "\<exists>row. plot_char c x y s = plot_rows row s \<and>
    (\<forall>gy<glyph_height (display s). \<forall>f. row gy f = pixel_line s c x y gy f)"
proof -
  have out: "\<not> (cols s \<le> x \<or> rows s \<le> y)" using xy by simp
  note d = ok [unfolded display_ok_def Let_def]
  show ?thesis
  proof (cases "plot_char_fn (display s)")
    case Scaled_canvas
    with d obtain p where "canvas (display s) = Some p" by (auto split: option.splits)
    with Scaled_canvas out show ?thesis
      using row_scaled_canvas_line [OF ok c xy]
      by (auto simp: plot_char_def plot_char_scaled_canvas_def intro!: exI)
  next
    case Scaled_uncanvas
    with d have "canvas (display s) = None" by (auto split: option.splits)
    with Scaled_uncanvas out show ?thesis
      using row_scaled_uncanvas_line [OF ok c]
      by (auto simp: plot_char_def plot_char_scaled_uncanvas_def intro!: exI)
  next
    case Unscaled_canvas
    with d obtain p where "canvas (display s) = Some p" by (auto split: option.splits)
    with Unscaled_canvas out d show ?thesis
      using row_unscaled_canvas_line [OF ok c xy]
      by (auto simp: plot_char_def plot_char_unscaled_canvas_def intro!: exI)
  next
    case Unscaled_uncanvas
    with d have "canvas (display s) = None" by (auto split: option.splits)
    with Unscaled_uncanvas out d show ?thesis
      using row_unscaled_uncanvas_line [OF ok c]
      by (auto simp: plot_char_def plot_char_unscaled_uncanvas_def intro!: exI)
  qed
qed

text \<open>The same context with other pixels.\<close>

definition repainted :: "fb_context \<Rightarrow> fb_context \<Rightarrow> bool" where
  "repainted s s' \<longleftrightarrow> (\<exists>f. length f = length (framebuffer (display s)) \<and>
     s' = s\<lparr>display := (display s)\<lparr>framebuffer := f\<rparr>\<rparr>)"

lemma repainted_simps:
  assumes "repainted s s'"
  shows "cols s' = cols s" "rows s' = rows s" "palette s' = palette s" "grid s' = grid s"
    "queue s' = queue s" "queue_i s' = queue_i s" "cell_map s' = cell_map s"
    "cursor_x s' = cursor_x s" "cursor_y s' = cursor_y s" "cursor_enabled s' = cursor_enabled s"
    "old_cursor_x s' = old_cursor_x s" "old_cursor_y s' = old_cursor_y s" "text_of s' = text_of s"
    "shown s' = shown s" "fb_ok s' = fb_ok s" "margins_ok s' = margins_ok s" "display_ok s' = display_ok s"
    "cell_left s' = cell_left s" "cell_top s' = cell_top s" "glyph_pixel s' = glyph_pixel s"
    "stride (display s') = stride (display s)" "glyph_width (display s') = glyph_width (display s)"
    "glyph_height (display s') = glyph_height (display s)"
    "length (framebuffer (display s')) = length (framebuffer (display s))"
  using assms
  by (auto simp: repainted_def text_of_def shown_def fb_ok_def arrays_ok_def queue_linked_def queue_full_def
        item_cell_def margins_ok_def display_ok_def cell_left_def cell_top_def glyph_pixel_def opaque_def
        behind_def font_bit_def fun_eq_iff Let_def cong: option.case_cong)

lemma cell_rect_apart:
  assumes "x \<noteq> x' \<or> y \<noteq> y'" and "gx < glyph_width (display s)" and "gy < glyph_height (display s)"
  shows "\<not> in_rect (cell_left s x) (cell_top s y) (glyph_width (display s)) (glyph_height (display s))
           (cell_left s x' + gx) (cell_top s y' + gy)"
proof
  let ?w = "glyph_width (display s)" and ?h = "glyph_height (display s)"
  assume "in_rect (cell_left s x) (cell_top s y) ?w ?h (cell_left s x' + gx) (cell_top s y' + gy)"
  then have a: "x * ?w \<le> x' * ?w + gx" "x' * ?w + gx < x * ?w + ?w" "y * ?h \<le> y' * ?h + gy" "y' * ?h + gy < y * ?h + ?h"
    by (auto simp: in_rect_def cell_left_def cell_top_def)
  have "(x' * ?w + gx) div ?w = x" "(y' * ?h + gy) div ?h = y"
    using a by (intro div_nat_eqI; simp add: algebra_simps)+
  then have "x' = x" "y' = y" using assms(2,3) by simp_all
  with assms(1) show False by simp
qed

text \<open>Plotting makes the cell show the character and leaves every other cell alone.\<close>

lemma plot_char_shows:
  assumes ok: "display_ok s" and c: "ch_c c < 256" and xy: "x < cols s" "y < rows s"
  shows "\<exists>s'. plot_char c x y s = Some s' \<and> repainted s s' \<and> cell_shows s' x y c \<and>
    (\<forall>x' y' c'. x' < cols s \<longrightarrow> y' < rows s \<longrightarrow> (x', y') \<noteq> (x, y) \<longrightarrow>
       cell_shows s x' y' c' \<longrightarrow> cell_shows s' x' y' c')"
proof -
  let ?d = "display s"
  note d = ok [unfolded display_ok_def Let_def] and inside = cell_inside [OF ok xy]
  obtain row where row: "plot_char c x y s = plot_rows row s"
    "\<And>gy f. gy < glyph_height ?d \<Longrightarrow> row gy f = pixel_line s c x y gy f"
    using plot_char_rows [OF assms] by blast
  have w: "cell_left s x + glyph_width ?d \<le> stride ?d" using inside(1) d by linarith
  have line: "(cell_top s y' + gy) * stride ?d + (cell_left s x' + glyph_width ?d) \<le> length (framebuffer ?d)"
    if "x' < cols s" "y' < rows s" "gy < glyph_height ?d" for x' y' gy
  proof -
    have "cell_top s y' + gy \<le> height ?d - 1" using cell_inside(2) [OF ok that(1,2)] that(3) by linarith
    then have "(cell_top s y' + gy) * stride ?d \<le> (height ?d - 1) * stride ?d" by (rule mult_le_mono1)
    then show ?thesis using cell_inside(1) [OF ok that(1,2)] d by linarith
  qed
  then have h: "\<forall>k<glyph_height ?d. (cell_top s y + k) * stride ?d + (cell_left s x + glyph_width ?d) \<le> length (framebuffer ?d)"
    using xy by blast
  from write_rect [OF w h, of row "\<lambda>gy k. glyph_pixel s c x y k gy"] row(2)
  obtain f where f: "for_each row [0..<glyph_height ?d] (framebuffer ?d) = Some f"
    "length f = length (framebuffer ?d)"
    "\<And>X Y. X < stride ?d \<Longrightarrow> Y * stride ?d + X < length (framebuffer ?d) \<Longrightarrow> f ! (Y * stride ?d + X) =
       (if in_rect (cell_left s x) (cell_top s y) (glyph_width ?d) (glyph_height ?d) X Y
        then glyph_pixel s c x y (X - cell_left s x) (Y - cell_top s y) else framebuffer ?d ! (Y * stride ?d + X))"
    by auto
  let ?s = "s\<lparr>display := ?d\<lparr>framebuffer := f\<rparr>\<rparr>"
  have re: "repainted s ?s" using f(2) by (auto simp: repainted_def)
  have pixel: "cell_left s x' + gx < stride ?d"
      "(cell_top s y' + gy) * stride ?d + (cell_left s x' + gx) < length (framebuffer ?d)"
    if "x' < cols s" "y' < rows s" "gx < glyph_width ?d" "gy < glyph_height ?d" for x' y' gx gy
  proof -
    show X: "cell_left s x' + gx < stride ?d" using cell_inside(1) [OF ok that(1,2)] that(3) d by linarith
    show "(cell_top s y' + gy) * stride ?d + (cell_left s x' + gx) < length (framebuffer ?d)"
      using line [OF that(1,2,4)] that(3) by linarith
  qed
  have own: "cell_shows ?s x y c"
    unfolding cell_shows_def repainted_simps [OF re]
    using f(3) pixel [OF xy] by (auto simp: in_rect_def)
  have others: "cell_shows ?s x' y' c'" if "x' < cols s" "y' < rows s" "(x', y') \<noteq> (x, y)" "cell_shows s x' y' c'" for x' y' c'
    unfolding cell_shows_def repainted_simps [OF re]
  proof (intro allI impI)
    fix gx gy assume g: "gx < glyph_width ?d" "gy < glyph_height ?d"
    have "\<not> in_rect (cell_left s x) (cell_top s y) (glyph_width ?d) (glyph_height ?d)
           (cell_left s x' + gx) (cell_top s y' + gy)"
      using that(3) by (intro cell_rect_apart g) auto
    then show "framebuffer (display ?s) ! ((cell_top s y' + gy) * stride ?d + (cell_left s x' + gx))
        = glyph_pixel s c' x' y' gx gy"
      using f(3) [OF pixel [OF that(1,2) g]] that(4) g by (simp add: cell_shows_def)
  qed
  have "plot_char c x y s = Some ?s" unfolding row(1) plot_rows_def f(1) by simp
  then show ?thesis using re own others by (intro exI [of _ ?s]) blast
qed

end
