(* ===== verification/FbFlush.thy ===== *)
theory FbFlush
  imports FbPixels
begin

text \<open>
  The flush of the redraw queue. Between flushes every cell of the framebuffer shows the grid,
  except the cell the cursor was drawn in; a flush turns that into: every cell shows the text,
  the cursor's cell inverted, and the queue is empty.
\<close>

definition inverted :: "fb_char \<Rightarrow> fb_char" where
  "inverted c = c\<lparr>ch_fg := ch_bg c, ch_bg := ch_fg c\<rparr>"

text \<open>Every character is a byte, so the font has a bitmap for it.\<close>

definition bytes_ok :: "fb_context \<Rightarrow> bool" where
  "bytes_ok s \<longleftrightarrow> (\<forall>c\<in>set (grid s) \<union> set (shown s). ch_c c < 256)"

text \<open>Every cell but those of \<open>ex\<close> shows the grid.\<close>

definition cells_drawn :: "(nat \<times> nat) set \<Rightarrow> fb_context \<Rightarrow> bool" where
  "cells_drawn ex s \<longleftrightarrow> (\<forall>x<cols s. \<forall>y<rows s. (x, y) \<notin> ex \<longrightarrow> cell_shows s x y (grid s ! (y * cols s + x)))"

definition drawn :: "fb_context \<Rightarrow> bool" where
  "drawn s \<longleftrightarrow> display_ok s \<and> bytes_ok s \<and> cells_drawn {(old_cursor_x s, old_cursor_y s)} s"

definition cursor_on :: "fb_context \<Rightarrow> bool" where
  "cursor_on s \<longleftrightarrow> cursor_enabled s \<and> cursor_x s < cols s \<and> cursor_y s < rows s"

text \<open>The grid and the pointer table after the first \<open>k\<close> entries of the queue.\<close>

definition settled :: "fb_context \<Rightarrow> nat \<Rightarrow> fb_context \<Rightarrow> bool" where
  "settled s k t \<longleftrightarrow>
     (\<exists>f g m. t = s\<lparr>display := (display s)\<lparr>framebuffer := f\<rparr>, grid := g, cell_map := m\<rparr> \<and>
        length f = length (framebuffer (display s)) \<and> length g = length (grid s) \<and>
        length m = length (cell_map s)) \<and>
     (\<forall>i<rows s * cols s. case cell_map s ! i of
        None \<Rightarrow> cell_map t ! i = None \<and> grid t ! i = grid s ! i
      | Some j \<Rightarrow> if j < k then cell_map t ! i = None \<and> grid t ! i = item_c (queue s ! j)
                  else cell_map t ! i = Some j \<and> grid t ! i = grid s ! i)"

lemma settled_fields:
  assumes "settled s k t"
  shows "cols t = cols s" "rows t = rows s" "queue t = queue s" "queue_i t = queue_i s"
    "palette t = palette s" "display_ok t = display_ok s" "cursor_x t = cursor_x s" "cursor_y t = cursor_y s"
    "cursor_enabled t = cursor_enabled s" "old_cursor_x t = old_cursor_x s" "old_cursor_y t = old_cursor_y s"
    "length (grid t) = length (grid s)" "length (cell_map t) = length (cell_map s)"
    "stride (display t) = stride (display s)" "glyph_width (display t) = glyph_width (display s)"
    "glyph_height (display t) = glyph_height (display s)"
    "margins_ok t = margins_ok s" "item_cell t = item_cell s"
    "glyph_pixel t = glyph_pixel s" "cell_left t = cell_left s" "cell_top t = cell_top s"
proof -
  from assms obtain f g m where t: "t = s\<lparr>display := (display s)\<lparr>framebuffer := f\<rparr>, grid := g, cell_map := m\<rparr>"
    "length f = length (framebuffer (display s))" "length g = length (grid s)" "length m = length (cell_map s)"
    by (auto simp: settled_def)
  show "cols t = cols s" "rows t = rows s" "queue t = queue s" "queue_i t = queue_i s"
    "palette t = palette s" "cursor_x t = cursor_x s" "cursor_y t = cursor_y s"
    "cursor_enabled t = cursor_enabled s" "old_cursor_x t = old_cursor_x s" "old_cursor_y t = old_cursor_y s"
    "length (grid t) = length (grid s)" "length (cell_map t) = length (cell_map s)"
    "stride (display t) = stride (display s)" "glyph_width (display t) = glyph_width (display s)"
    "glyph_height (display t) = glyph_height (display s)"
    using t by simp_all
  show "margins_ok t = margins_ok s" using t by (simp add: margins_ok_def)
  show "item_cell t = item_cell s" using t by (simp add: item_cell_def fun_eq_iff)
  show "cell_left t = cell_left s" "cell_top t = cell_top s"
    using t by (simp_all add: cell_left_def cell_top_def fun_eq_iff)
  show "glyph_pixel t = glyph_pixel s"
    using t by (simp add: glyph_pixel_def opaque_def behind_def font_bit_def cell_left_def cell_top_def
          fun_eq_iff cong: option.case_cong)
  show "display_ok t = display_ok s"
    using t by (simp add: display_ok_def Let_def cong: option.case_cong)
qed

text \<open>The state a draw of the cursor and the loop of the flush work on.\<close>

definition linked :: "fb_context \<Rightarrow> bool" where
  "linked s \<longleftrightarrow> arrays_ok s \<and> queue_linked s \<and> (\<forall>k<queue_i s. cell_map s ! item_cell s k \<in> {None, Some k})"

lemma fb_ok_linked: "fb_ok s \<Longrightarrow> linked s"
  by (simp add: fb_ok_def linked_def queue_full_def)

lemma linked_items:
  assumes "linked s"
  shows "i < rows s * cols s \<Longrightarrow> cell_map s ! i = Some k \<Longrightarrow> k < queue_i s \<and> item_cell s k = i"
    and "k < queue_i s \<Longrightarrow> item_x (queue s ! k) < cols s \<and> item_y (queue s ! k) < rows s"
    and "k < queue_i s \<Longrightarrow> item_cell s k < rows s * cols s"
    and "k < queue_i s \<Longrightarrow> cell_map s ! item_cell s k \<in> {None, Some k}"
    and "k < queue_i s \<Longrightarrow> k < length (queue s)"
    and "length (cell_map s) = rows s * cols s" "length (grid s) = rows s * cols s"
  using assms by (auto simp: linked_def queue_linked_def arrays_ok_def item_cell_def intro!: cell_less)

lemma settled_start: "settled s 0 s"
  by (auto simp: settled_def intro!: exI [of _ "framebuffer (display s)"] exI [of _ "grid s"]
        exI [of _ "cell_map s"] split: option.splits)

text \<open>One entry of the queue.\<close>

lemma flush_item_step:
  assumes l: "linked s" and ok: "display_ok s" and st: "settled s k t" and k: "k < queue_i s"
    and c: "ch_c (item_c (queue s ! k)) < 256"
    and cells: "cells_drawn ex t"
  shows "\<exists>t'. flush_item k t = Some t' \<and> settled s (Suc k) t' \<and> cells_drawn ex t' \<and>
    (\<forall>x y c. cell_map s ! (y * cols s + x) = None \<longrightarrow> x < cols s \<longrightarrow> y < rows s \<longrightarrow>
        cell_shows t x y c \<longrightarrow> cell_shows t' x y c)"
proof -
  note f = settled_fields [OF st]
  let ?q = "queue s ! k" and ?i = "item_cell s k"
  have q: "item_x ?q < cols s" "item_y ?q < rows s" "?i < rows s * cols s" "k < length (queue s)"
    using linked_items(2,3,5) [OF l k] by auto
  have i: "item_y ?q * cols s + item_x ?q = ?i" by (simp add: item_cell_def)
  have at: "case cell_map s ! j of
        None \<Rightarrow> cell_map t ! j = None \<and> grid t ! j = grid s ! j
      | Some j' \<Rightarrow> if j' < k then cell_map t ! j = None \<and> grid t ! j = item_c (queue s ! j')
                  else cell_map t ! j = Some j' \<and> grid t ! j = grid s ! j" if "j < rows s * cols s" for j
    using st that by (simp add: settled_def)
  have reach: "rd (queue t) k = Some ?q" "rd (cell_map t) ?i = Some (cell_map t ! ?i)"
    using q f linked_items(6) [OF l] by simp_all
  show ?thesis
  proof (cases "cell_map s ! ?i")
    case None
    then have "cell_map t ! ?i = None" using at [OF q(3)] by simp
    then have run: "flush_item k t = Some t" using reach i f by (simp add: flush_item_def Let_def)
    have other: "cell_map s ! j \<noteq> Some k" if "j < rows s * cols s" for j
      using linked_items(1) [OF l that, of k] None by auto
    have "settled s (Suc k) t"
      using st other by (fastforce simp: settled_def less_Suc_eq split: option.splits if_splits)
    then show ?thesis using run cells by blast
  next
    case (Some k')
    then have k': "k' = k" using linked_items(4) [OF l k] by auto
    then have here: "cell_map t ! ?i = Some k" "grid t ! ?i = grid s ! ?i" using at [OF q(3)] Some by simp_all
    have "display_ok t" "item_x ?q < cols t" "item_y ?q < rows t" using ok q f by simp_all
    from plot_char_shows [OF this(1) c this(2,3)] obtain t1 where
      t1: "plot_char (item_c ?q) (item_x ?q) (item_y ?q) t = Some t1" "repainted t t1"
        "cell_shows t1 (item_x ?q) (item_y ?q) (item_c ?q)"
        "\<And>x y c. x < cols s \<Longrightarrow> y < rows s \<Longrightarrow> (x, y) \<noteq> (item_x ?q, item_y ?q) \<Longrightarrow>
           cell_shows t x y c \<Longrightarrow> cell_shows t1 x y c" by (auto simp: f)
    note r1 = repainted_simps [OF t1(2)]
    let ?t = "t1\<lparr>grid := (grid t1)[?i := item_c ?q], cell_map := (cell_map t1)[?i := None]\<rparr>"
    have len: "?i < length (grid t1)" "?i < length (cell_map t1)"
      using r1 f q linked_items(6,7) [OF l] by simp_all
    have run: "flush_item k t = Some ?t"
      using reach here i f t1(1) r1 len by (simp add: flush_item_def Let_def)
    have shows_t: "cell_shows ?t x y c = cell_shows t1 x y c" for x y c
      by (simp add: cell_shows_def cell_left_def cell_top_def glyph_pixel_def opaque_def behind_def font_bit_def
            cong: option.case_cong)
    obtain fb g m where form: "t = s\<lparr>display := (display s)\<lparr>framebuffer := fb\<rparr>, grid := g, cell_map := m\<rparr>"
      "length fb = length (framebuffer (display s))" "length g = length (grid s)" "length m = length (cell_map s)"
      using st by (auto simp: settled_def)
    obtain fb1 where form1: "t1 = t\<lparr>display := (display t)\<lparr>framebuffer := fb1\<rparr>\<rparr>"
      "length fb1 = length (framebuffer (display t))" using t1(2) by (auto simp: repainted_def)
    have "?t = s\<lparr>display := (display s)\<lparr>framebuffer := fb1\<rparr>, grid := g[?i := item_c ?q], cell_map := m[?i := None]\<rparr>"
      unfolding form1(1) by (simp add: form(1))
    then have shape: "\<exists>f g m. ?t = s\<lparr>display := (display s)\<lparr>framebuffer := f\<rparr>, grid := g, cell_map := m\<rparr> \<and>
        length f = length (framebuffer (display s)) \<and> length g = length (grid s) \<and> length m = length (cell_map s)"
      using form form1 by (intro exI [of _ fb1] exI [of _ "g[?i := item_c ?q]"] exI [of _ "m[?i := None]"]) simp
    have "case cell_map s ! j of
        None \<Rightarrow> cell_map ?t ! j = None \<and> grid ?t ! j = grid s ! j
      | Some j' \<Rightarrow> if j' < Suc k then cell_map ?t ! j = None \<and> grid ?t ! j = item_c (queue s ! j')
                  else cell_map ?t ! j = Some j' \<and> grid ?t ! j = grid s ! j" if j: "j < rows s * cols s" for j
    proof (cases "j = ?i")
      case True
      then show ?thesis using Some k' len by simp
    next
      case False
      then have "cell_map s ! j \<noteq> Some k" using linked_items(1) [OF l j, of k] by auto
      with False show ?thesis using at [OF j] r1 by (auto simp: less_Suc_eq split: option.splits if_splits)
    qed
    then have "settled s (Suc k) ?t" using shape by (simp add: settled_def)
    moreover have "cells_drawn ex ?t"
      unfolding cells_drawn_def
    proof (intro allI impI)
      fix x y assume xy: "x < cols ?t" "y < rows ?t" "(x, y) \<notin> ex"
      then have xy': "x < cols s" "y < rows s" using r1 f by simp_all
      show "cell_shows ?t x y (grid ?t ! (y * cols ?t + x))"
      proof (cases "(x, y) = (item_x ?q, item_y ?q)")
        case True
        then have "y * cols ?t + x = ?i" using r1 f i by simp
        with True show ?thesis using t1(3) shows_t len by simp
      next
        case False
        then have "y * cols s + x \<noteq> ?i" using grid_cell_inj [OF xy'(1) q(1), of y "item_y ?q"] i by auto
        then have "grid ?t ! (y * cols ?t + x) = grid t ! (y * cols t + x)" using r1 f by simp
        moreover have "cell_shows t x y (grid t ! (y * cols t + x))"
          using cells xy xy' f by (simp add: cells_drawn_def)
        ultimately show ?thesis using t1(4) [OF xy' False] shows_t by simp
      qed
    qed
    moreover have "\<forall>x y c. cell_map s ! (y * cols s + x) = None \<longrightarrow> x < cols s \<longrightarrow> y < rows s \<longrightarrow>
        cell_shows t x y c \<longrightarrow> cell_shows ?t x y c"
    proof (intro allI impI)
      fix x y c assume "cell_map s ! (y * cols s + x) = None" "x < cols s" "y < rows s" "cell_shows t x y c"
      moreover from this have "(x, y) \<noteq> (item_x ?q, item_y ?q)" using Some i by auto
      ultimately show "cell_shows ?t x y c" using t1(4) shows_t by simp
    qed
    ultimately show ?thesis using run by blast
  qed
qed

text \<open>The loop over the queue.\<close>

lemma flush_loop:
  assumes l: "linked s" and ok: "display_ok s"
    and c: "\<forall>k<queue_i s. cell_map s ! item_cell s k = Some k \<longrightarrow> ch_c (item_c (queue s ! k)) < 256"
    and cells: "cells_drawn ex s"
  shows "\<exists>t. for_each flush_item [0..<queue_i s] s = Some t \<and> settled s (queue_i s) t \<and> cells_drawn ex t \<and>
    (\<forall>x y c. cell_map s ! (y * cols s + x) = None \<longrightarrow> x < cols s \<longrightarrow> y < rows s \<longrightarrow>
        cell_shows s x y c \<longrightarrow> cell_shows t x y c)"
proof -
  let ?keeps = "\<lambda>t. \<forall>x y c. cell_map s ! (y * cols s + x) = None \<longrightarrow> x < cols s \<longrightarrow> y < rows s \<longrightarrow>
        cell_shows s x y c \<longrightarrow> cell_shows t x y c"
  have "\<exists>t. for_each flush_item [0..<queue_i s] s = Some t \<and>
      (settled s (queue_i s) t \<and> cells_drawn ex t \<and> ?keeps t)"
  proof (rule for_range [where I = "\<lambda>k t. settled s k t \<and> cells_drawn ex t \<and> ?keeps t"])
    fix k t assume k: "k < queue_i s" and I: "settled s k t \<and> cells_drawn ex t \<and> ?keeps t"
    show "\<exists>t'. flush_item k t = Some t' \<and> (settled s (Suc k) t' \<and> cells_drawn ex t' \<and> ?keeps t')"
    proof (cases "cell_map s ! item_cell s k = Some k")
      case True
      with c k have "ch_c (item_c (queue s ! k)) < 256" by simp
      from flush_item_step [OF l ok _ k this, of t ex] I show ?thesis by meson
    next
      case False
      then have none: "cell_map s ! item_cell s k = None" using linked_items(4) [OF l k] by auto
      have st: "settled s k t" using I by simp
      note f = settled_fields [OF st]
      have cell: "item_cell s k < rows s * cols s" by (rule linked_items(3) [OF l k])
      have "cell_map t ! item_cell s k = None" using st none cell by (auto simp: settled_def)
      moreover have "item_y (queue s ! k) * cols s + item_x (queue s ! k) = item_cell s k"
        by (simp add: item_cell_def)
      ultimately have "flush_item k t = Some t"
        using f linked_items(5,6) [OF l] k cell by (simp add: flush_item_def Let_def)
      moreover have "cell_map s ! j \<noteq> Some k" if "j < rows s * cols s" for j
        using linked_items(1) [OF l that, of k] none by auto
      then have "settled s (Suc k) t"
        using st by (fastforce simp: settled_def less_Suc_eq split: option.splits if_splits)
      ultimately show ?thesis using I by blast
    qed
  qed (use cells settled_start in auto)
  then show ?thesis by blast
qed

text \<open>What is left when the loop is over: the grid is the text and nothing is queued.\<close>

lemma settled_end:
  assumes l: "linked s" and st: "settled s (queue_i s) t" and i: "i < rows s * cols s"
  shows "cell_map t ! i = None" and "grid t ! i = shown s ! i"
proof -
  have "case cell_map s ! i of
        None \<Rightarrow> cell_map t ! i = None \<and> grid t ! i = grid s ! i
      | Some j \<Rightarrow> if j < queue_i s then cell_map t ! i = None \<and> grid t ! i = item_c (queue s ! j)
                  else cell_map t ! i = Some j \<and> grid t ! i = grid s ! i"
    using st i by (simp add: settled_def)
  then have "cell_map t ! i = None \<and> grid t ! i = shown s ! i"
    using linked_items(1) [OF l i] by (auto simp: nth_shown [OF i] split: option.splits)
  then show "cell_map t ! i = None" "grid t ! i = shown s ! i" by simp_all
qed

text \<open>Drawing the cursor settles the cell under it.\<close>

lemma draw_cursor_step:
  assumes ok: "fb_ok s" and d: "drawn s" and on: "cursor_x s < cols s" "cursor_y s < rows s"
  shows "\<exists>t. draw_cursor s = Some t \<and> linked t \<and> display_ok t \<and> shown t = shown s \<and>
    cell_map t ! (cursor_y s * cols s + cursor_x s) = None \<and>
    cells_drawn {(old_cursor_x s, old_cursor_y s), (cursor_x s, cursor_y s)} t \<and>
    cell_shows t (cursor_x s) (cursor_y s) (inverted (shown s ! (cursor_y s * cols s + cursor_x s))) \<and>
    (\<forall>k<queue_i t. cell_map t ! item_cell t k = Some k \<longrightarrow> ch_c (item_c (queue t ! k)) < 256) \<and>
    (\<exists>f g m. t = s\<lparr>display := (display s)\<lparr>framebuffer := f\<rparr>, grid := g, cell_map := m\<rparr>)"
proof -
  let ?x = "cursor_x s" and ?y = "cursor_y s" and ?i = "cursor_y s * cols s + cursor_x s"
  let ?c = "shown s ! ?i"
  have i: "?i < rows s * cols s" using on by (rule cell_less)
  have i': "cursor_x s + cursor_y s * cols s = ?i" by simp
  note l = fb_ok_linked [OF ok]
  have dok: "display_ok s" and bytes: "bytes_ok s"
    and cells: "cells_drawn {(old_cursor_x s, old_cursor_y s)} s" using d by (simp_all add: drawn_def)
  have c: "ch_c (inverted ?c) < 256" using bytes i by (simp add: bytes_ok_def inverted_def)
  from plot_char_shows [OF dok c on] obtain t1 where
    t1: "plot_char (inverted ?c) ?x ?y s = Some t1" "repainted s t1" "cell_shows t1 ?x ?y (inverted ?c)"
      "\<And>x y c. x < cols s \<Longrightarrow> y < rows s \<Longrightarrow> (x, y) \<noteq> (?x, ?y) \<Longrightarrow> cell_shows s x y c \<Longrightarrow> cell_shows t1 x y c"
    by blast
  note r1 = repainted_simps [OF t1(2)]
  obtain fb where form: "t1 = s\<lparr>display := (display s)\<lparr>framebuffer := fb\<rparr>\<rparr>" using t1(2) by (auto simp: repainted_def)
  define t where "t = (case cell_map s ! ?i of None \<Rightarrow> t1
    | Some k \<Rightarrow> t1\<lparr>grid := (grid t1)[?i := item_c (queue t1 ! k)], cell_map := (cell_map t1)[?i := None]\<rparr>)"
  have shows_t: "cell_shows t x y c = cell_shows t1 x y c" for x y c
    by (cases "cell_map s ! ?i")
      (simp_all add: t_def cell_shows_def cell_left_def cell_top_def glyph_pixel_def opaque_def behind_def font_bit_def
        cong: option.case_cong)
  have len: "?i < length (grid s)" "?i < length (cell_map s)" using linked_items(6,7) [OF l] i by simp_all
  have k: "k < queue_i s" "item_cell s k = ?i" "k < length (queue s)" if "cell_map s ! ?i = Some k" for k
    using linked_items(1) [OF l i that] linked_items(5) [OF l] by auto
  have run: "draw_cursor s = Some t"
  proof -
    have out: "\<not> (cols s \<le> ?x \<or> rows s \<le> ?y)" using on by simp
    have p: "rd (cell_map s) ?i = Some (cell_map s ! ?i)" "pending_char ?i s = Some ?c"
      using len pending_shown [OF ok i] by simp_all
    show ?thesis
      unfolding draw_cursor_def if_not_P [OF out] Let_def i' p(1) p(2) bind.bind_lunit
        inverted_def [symmetric] t1(1)
      using len k r1 by (cases "cell_map s ! ?i") (simp_all add: t_def)
  qed
  have grid_t: "grid t ! j = (if j = ?i then ?c else grid s ! j)" if "j < rows s * cols s" for j
    using r1 len nth_shown [OF i] by (cases "cell_map s ! ?i") (auto simp: t_def)
  have map_t: "cell_map t ! j = (if j = ?i then None else cell_map s ! j)" if "j < rows s * cols s" for j
    using r1 len by (cases "cell_map s ! ?i") (auto simp: t_def)
  have fields: "cols t = cols s" "rows t = rows s" "queue t = queue s" "queue_i t = queue_i s"
      "palette t = palette s" "length (grid t) = length (grid s)" "length (cell_map t) = length (cell_map s)"
    by (simp_all add: t_def r1 split: option.split)
  have cell: "item_cell t = item_cell s" using fields by (simp add: item_cell_def fun_eq_iff)
  have "linked t"
    using l map_t linked_items(3) [OF l]
    by (auto simp: linked_def arrays_ok_def queue_linked_def fields cell split: if_splits)
  moreover have "display_ok t"
  proof -
    have "display_ok t = display_ok t1"
      by (cases "cell_map s ! ?i") (simp_all add: t_def display_ok_def Let_def cong: option.case_cong)
    then show ?thesis using dok r1 by simp
  qed
  moreover have "shown t = shown s"
    by (rule nth_equalityI) (auto simp: fields nth_shown grid_t map_t split: option.splits)
  moreover have "cell_map t ! ?i = None" using map_t [OF i] by simp
  moreover have "cells_drawn {(old_cursor_x s, old_cursor_y s), (?x, ?y)} t"
    unfolding cells_drawn_def fields
  proof (intro allI impI)
    fix x y assume xy: "x < cols s" "y < rows s" "(x, y) \<notin> {(old_cursor_x s, old_cursor_y s), (?x, ?y)}"
    then have "y * cols s + x \<noteq> ?i" using grid_cell_inj [OF xy(1) on(1), of y ?y] by auto
    then have "grid t ! (y * cols s + x) = grid s ! (y * cols s + x)"
      using grid_t [OF cell_less [OF xy(1,2)]] by simp
    moreover have "cell_shows s x y (grid s ! (y * cols s + x))" using cells xy by (simp add: cells_drawn_def)
    ultimately show "cell_shows t x y (grid t ! (y * cols s + x))" using t1(4) xy shows_t by simp
  qed
  moreover have "cell_shows t ?x ?y (inverted ?c)" using t1(3) shows_t by simp
  moreover have "ch_c (item_c (queue t ! k)) < 256"
    if "k < queue_i t" "cell_map t ! item_cell t k = Some k" for k
  proof -
    have ks: "k < queue_i s" using that fields by simp
    note j = linked_items(3) [OF l ks]
    have "cell_map s ! item_cell s k = Some k" using that(2) map_t [OF j] unfolding cell by (simp split: if_splits)
    then have "shown s ! item_cell s k = item_c (queue s ! k)" using nth_shown [OF j] by simp
    moreover have "shown s ! item_cell s k \<in> set (shown s)" using j by (intro nth_mem) simp
    ultimately show ?thesis using bytes fields by (simp add: bytes_ok_def)
  qed
  moreover have "\<exists>f g m. t = s\<lparr>display := (display s)\<lparr>framebuffer := f\<rparr>, grid := g, cell_map := m\<rparr>"
    by (cases s, cases "cell_map s ! ?i") (auto simp: t_def form)
  ultimately show ?thesis using run by blast
qed

text \<open>The first step of a flush, with the cursor on the screen, off it or disabled.\<close>

definition cursor_cells :: "fb_context \<Rightarrow> (nat \<times> nat) set" where
  "cursor_cells s = (if cursor_on s then {(cursor_x s, cursor_y s)} else {})"

abbreviation text_cell :: "fb_context \<Rightarrow> nat \<Rightarrow> nat \<Rightarrow> fb_char" where
  "text_cell s x y \<equiv> shown s ! (y * cols s + x)"

lemma flush_cursor:
  assumes ok: "fb_ok s" and d: "drawn s"
  shows "\<exists>t. (if cursor_enabled s then draw_cursor s else Some s) = Some t \<and> linked t \<and> display_ok t \<and>
    shown t = shown s \<and> cells_drawn (insert (old_cursor_x s, old_cursor_y s) (cursor_cells s)) t \<and>
    (\<forall>(x, y)\<in>cursor_cells s. cell_map t ! (y * cols s + x) = None \<and> cell_shows t x y (inverted (text_cell s x y))) \<and>
    (\<forall>k<queue_i t. cell_map t ! item_cell t k = Some k \<longrightarrow> ch_c (item_c (queue t ! k)) < 256) \<and>
    (\<exists>f g m. t = s\<lparr>display := (display s)\<lparr>framebuffer := f\<rparr>, grid := g, cell_map := m\<rparr>)"
proof (cases "cursor_on s")
  case True
  then have on: "cursor_x s < cols s" "cursor_y s < rows s" "cursor_enabled s" by (simp_all add: cursor_on_def)
  from draw_cursor_step [OF ok d on(1,2)] True on(3) show ?thesis
    by (simp add: cursor_cells_def insert_commute) blast
next
  case False
  then have run: "(if cursor_enabled s then draw_cursor s else Some s) = Some s"
    by (auto simp: cursor_on_def draw_cursor_def)
  have bytes: "ch_c (item_c (queue s ! k)) < 256" if "k < queue_i s" "cell_map s ! item_cell s k = Some k" for k
  proof -
    note j = linked_items(3) [OF fb_ok_linked [OF ok] that(1)]
    have "shown s ! item_cell s k = item_c (queue s ! k)" using nth_shown [OF j] that(2) by simp
    moreover have "shown s ! item_cell s k \<in> set (shown s)" using j by (intro nth_mem) simp
    ultimately show ?thesis using d by (simp add: drawn_def bytes_ok_def)
  qed
  have "\<exists>f g m. s = s\<lparr>display := (display s)\<lparr>framebuffer := f\<rparr>, grid := g, cell_map := m\<rparr>"
    by (intro exI [of _ "framebuffer (display s)"] exI [of _ "grid s"] exI [of _ "cell_map s"]) simp
  then show ?thesis
    using run fb_ok_linked [OF ok] d bytes False
    by (intro exI [of _ s]) (simp add: drawn_def cursor_cells_def)
qed

text \<open>The last step: the cell the cursor was in is drawn again when the cursor has left it.\<close>

lemma flush_old_cursor:
  assumes ok: "display_ok t" and c: "\<forall>i<rows t * cols t. ch_c (grid t ! i) < 256" "length (grid t) = rows t * cols t"
    and cells: "cells_drawn (insert (old_cursor_x t, old_cursor_y t) (cursor_cells t)) t"
  shows "\<exists>t'. (if old_cursor_x t \<noteq> cursor_x t \<or> old_cursor_y t \<noteq> cursor_y t \<or> \<not> cursor_enabled t
            then if old_cursor_x t < cols t \<and> old_cursor_y t < rows t
                 then do {
                   g \<leftarrow> rd (grid t) (old_cursor_x t + old_cursor_y t * cols t);
                   plot_char g (old_cursor_x t) (old_cursor_y t) t }
                 else Some t
            else Some t) = Some t' \<and> repainted t t' \<and> cells_drawn (cursor_cells t) t' \<and>
    (\<forall>(x, y)\<in>cursor_cells t. \<forall>c. cell_shows t x y c \<longrightarrow> cell_shows t' x y c)"
proof -
  let ?x = "old_cursor_x t" and ?y = "old_cursor_y t"
  have re: "repainted t t" by (auto simp: repainted_def intro!: exI [of _ "framebuffer (display t)"])
  consider (plot) "?x \<noteq> cursor_x t \<or> ?y \<noteq> cursor_y t \<or> \<not> cursor_enabled t" "?x < cols t" "?y < rows t"
    | (out) "\<not> (?x < cols t \<and> ?y < rows t)"
    | (same) "?x = cursor_x t" "?y = cursor_y t" "cursor_enabled t" "?x < cols t" "?y < rows t" by blast
  then show ?thesis
  proof cases
    case plot
    let ?g = "grid t ! (?y * cols t + ?x)"
    have i: "?y * cols t + ?x < rows t * cols t" using plot by (intro cell_less)
    then have "ch_c ?g < 256" using c by simp
    from plot_char_shows [OF ok this plot(2,3)] obtain t' where
      t': "plot_char ?g ?x ?y t = Some t'" "repainted t t'" "cell_shows t' ?x ?y ?g"
        "\<And>x y c. x < cols t \<Longrightarrow> y < rows t \<Longrightarrow> (x, y) \<noteq> (?x, ?y) \<Longrightarrow> cell_shows t x y c \<Longrightarrow> cell_shows t' x y c"
      by blast
    have "rd (grid t) (?x + ?y * cols t) = Some ?g" using i c(2) by (simp add: add.commute)
    moreover have "cells_drawn (cursor_cells t) t'"
      unfolding cells_drawn_def repainted_simps [OF t'(2)]
    proof (intro allI impI)
      fix x y assume xy: "x < cols t" "y < rows t" "(x, y) \<notin> cursor_cells t"
      show "cell_shows t' x y (grid t ! (y * cols t + x))"
        using t'(3,4) xy cells by (cases "(x, y) = (?x, ?y)") (auto simp: cells_drawn_def)
    qed
    moreover have "\<forall>(x, y)\<in>cursor_cells t. \<forall>c. cell_shows t x y c \<longrightarrow> cell_shows t' x y c"
      using t'(4) plot(1) by (auto simp: cursor_cells_def cursor_on_def)
    ultimately show ?thesis using t'(1,2) plot by auto
  next
    case out
    then have "cells_drawn (cursor_cells t) t" using cells by (auto simp: cells_drawn_def)
    with out re show ?thesis by auto
  next
    case same
    then have "insert (?x, ?y) (cursor_cells t) = cursor_cells t" by (simp add: cursor_cells_def cursor_on_def)
    with same re cells show ?thesis by auto
  qed
qed

lemma flush_refines:
  assumes ok: "fb_ok s" and d: "drawn s"
  shows "\<exists>s'. flanterm_fb_double_buffer_flush s = Some s' \<and> fb_ok s' \<and> drawn s' \<and>
    text_of s' = text_of s \<and> grid s' = shown s \<and> queue_i s' = 0 \<and>
    palette s' = palette s \<and> cursor_enabled s' = cursor_enabled s \<and> (\<exists>f. display s' = (display s)\<lparr>framebuffer := f\<rparr>) \<and>
    (\<forall>x<cols s. \<forall>y<rows s. cell_shows s' x y
       (if cursor_enabled s \<and> (x, y) = (cursor_x s, cursor_y s) then inverted (text_cell s x y) else text_cell s x y))"
proof -
  from flush_cursor [OF ok d] obtain s1 f1 g1 m1 where
    s1: "(if cursor_enabled s then draw_cursor s else Some s) = Some s1" "linked s1" "display_ok s1" "shown s1 = shown s"
      "cells_drawn (insert (old_cursor_x s, old_cursor_y s) (cursor_cells s)) s1"
      "\<forall>(x, y)\<in>cursor_cells s. cell_map s1 ! (y * cols s + x) = None \<and> cell_shows s1 x y (inverted (text_cell s x y))"
      "\<forall>k<queue_i s1. cell_map s1 ! item_cell s1 k = Some k \<longrightarrow> ch_c (item_c (queue s1 ! k)) < 256"
    and form1: "s1 = s\<lparr>display := (display s)\<lparr>framebuffer := f1\<rparr>, grid := g1, cell_map := m1\<rparr>" by blast
  from flush_loop [OF s1(2,3,7,5)] obtain t where
    t: "for_each flush_item [0..<queue_i s1] s1 = Some t" "settled s1 (queue_i s1) t"
      "cells_drawn (insert (old_cursor_x s, old_cursor_y s) (cursor_cells s)) t"
      "\<And>x y c. cell_map s1 ! (y * cols s1 + x) = None \<Longrightarrow> x < cols s1 \<Longrightarrow> y < rows s1 \<Longrightarrow>
        cell_shows s1 x y c \<Longrightarrow> cell_shows t x y c" by blast
  note ft = settled_fields [OF t(2)]
  have f1: "cols s1 = cols s" "rows s1 = rows s" "cursor_x s1 = cursor_x s" "cursor_y s1 = cursor_y s"
    "cursor_enabled s1 = cursor_enabled s" "old_cursor_x s1 = old_cursor_x s" "old_cursor_y s1 = old_cursor_y s"
    "palette s1 = palette s" "queue_i s1 = queue_i s" using form1 by simp_all
  have curs: "cursor_cells t = cursor_cells s" using ft f1 by (simp add: cursor_cells_def cursor_on_def)
  have lens: "length (grid t) = rows s * cols s" "length (cell_map t) = rows s * cols s"
    using ft f1 linked_items(6,7) [OF s1(2)] by simp_all
  have grid_t: "grid t = shown s"
    using settled_end(2) [OF s1(2) t(2)] lens f1 s1(4) by (intro nth_equalityI) simp_all
  have map_t: "cell_map t ! i = None" if "i < rows s * cols s" for i
    using settled_end(1) [OF s1(2) t(2)] that f1 by simp
  have bytes: "\<forall>i<rows t * cols t. ch_c (grid t ! i) < 256"
    using d ft f1 by (auto simp: drawn_def bytes_ok_def grid_t)
  have "display_ok t" using s1(3) ft by simp
  from flush_old_cursor [OF this bytes] t(3) ft f1 lens curs obtain t' where
    t': "(if old_cursor_x t \<noteq> cursor_x t \<or> old_cursor_y t \<noteq> cursor_y t \<or> \<not> cursor_enabled t
            then if old_cursor_x t < cols t \<and> old_cursor_y t < rows t
                 then do {
                   g \<leftarrow> rd (grid t) (old_cursor_x t + old_cursor_y t * cols t);
                   plot_char g (old_cursor_x t) (old_cursor_y t) t }
                 else Some t
            else Some t) = Some t'" "repainted t t'" "cells_drawn (cursor_cells s) t'"
      "\<forall>(x, y)\<in>cursor_cells s. \<forall>c. cell_shows t x y c \<longrightarrow> cell_shows t' x y c" by auto
  let ?s = "t'\<lparr>old_cursor_x := cursor_x t', old_cursor_y := cursor_y t', queue_i := 0\<rparr>"
  have run: "flanterm_fb_double_buffer_flush s = Some ?s"
    unfolding flanterm_fb_double_buffer_flush_def s1(1) using t(1) t'(1) by simp
  obtain f2 g2 m2 where form2: "t = s1\<lparr>display := (display s1)\<lparr>framebuffer := f2\<rparr>, grid := g2, cell_map := m2\<rparr>"
    using t(2) by (auto simp: settled_def)
  obtain f3 where form3: "t' = t\<lparr>display := (display t)\<lparr>framebuffer := f3\<rparr>\<rparr>" using t'(2) by (auto simp: repainted_def)
  note r' = repainted_simps [OF t'(2)]
  have same: "cols ?s = cols s" "rows ?s = rows s" "grid ?s = shown s" "cell_map ?s = cell_map t" "queue ?s = queue s"
    "palette ?s = palette s" "cursor_enabled ?s = cursor_enabled s" "cursor_x ?s = cursor_x s" "cursor_y ?s = cursor_y s"
    by (simp_all add: form3 form2 form1 flip: grid_t)
  have shown': "shown ?s = shown s"
    using map_t same(1-4) by (intro nth_equalityI) (simp_all add: nth_shown)
  have disp: "display ?s = (display s)\<lparr>framebuffer := f3\<rparr>" by (simp add: form3 form2 form1)
  have tx: "text_of ?s = text_of s"
    unfolding text_of_def shown' by (simp add: form3 form2 form1)
  have "arrays_ok ?s"
    using ok same lens by (simp add: fb_ok_def arrays_ok_def)
  then have fine: "fb_ok ?s"
    using map_t same lens by (simp add: fb_ok_def queue_linked_def queue_full_def)
  have shows_s: "cell_shows ?s x y c = cell_shows t' x y c" for x y c
    by (simp add: cell_shows_def cell_left_def cell_top_def glyph_pixel_def opaque_def behind_def font_bit_def
        cong: option.case_cong)
  have cell: "cell_shows ?s x y
       (if cursor_enabled s \<and> (x, y) = (cursor_x s, cursor_y s) then inverted (text_cell s x y) else text_cell s x y)"
    if xy: "x < cols s" "y < rows s" for x y
  proof (cases "(x, y) \<in> cursor_cells s")
    case True
    then have "cell_map s1 ! (y * cols s1 + x) = None" "cell_shows s1 x y (inverted (text_cell s x y))"
      using s1(6) f1 by auto
    then have "cell_shows t x y (inverted (text_cell s x y))" using t(4) xy f1 by simp
    moreover have "cursor_enabled s \<and> (x, y) = (cursor_x s, cursor_y s)"
      using True by (auto simp: cursor_cells_def cursor_on_def split: if_splits)
    ultimately show ?thesis using t'(4) True shows_s by auto
  next
    case False
    then have "cell_shows t' x y (text_cell s x y)"
      using t'(3) xy r' ft f1 grid_t by (simp add: cells_drawn_def)
    moreover have "\<not> (cursor_enabled s \<and> (x, y) = (cursor_x s, cursor_y s))"
      using False xy by (auto simp: cursor_cells_def cursor_on_def)
    ultimately show ?thesis using shows_s by auto
  qed
  have "display_ok ?s = display_ok t'"
    by (simp add: display_ok_def Let_def cong: option.case_cong)
  then have "display_ok ?s" using \<open>display_ok t\<close> r'(17) by simp
  moreover have "bytes_ok ?s"
    using d same shown' by (simp add: drawn_def bytes_ok_def)
  moreover have "cells_drawn {(old_cursor_x ?s, old_cursor_y ?s)} ?s"
    unfolding cells_drawn_def same shown'
  proof (intro allI impI)
    fix x y assume xy: "x < cols s" "y < rows s" "(x, y) \<notin> {(old_cursor_x ?s, old_cursor_y ?s)}"
    then have "(x, y) \<noteq> (cursor_x s, cursor_y s)" using same by simp
    with cell [OF xy(1,2)] show "cell_shows ?s x y (text_cell s x y)" by auto
  qed
  ultimately have "drawn ?s" by (simp add: drawn_def)
  with run fine tx same(3) cell disp same show ?thesis by (intro exI [of _ ?s]) auto
qed

end
