(* ===== verification/FlantermSafe.thy ===== *)
theory FlantermSafe
  imports Flanterm FbFlush
begin

text \<open>
  Safety of the terminal: whatever bytes it is sent, it returns, no access leaves an array and
  its invariant is kept. \<open>term_ok\<close> is the invariant of the parser and of the back end; \<open>good\<close> says
  that a step returns a state that satisfies it and shows the same picture. The rules of the
  collection \<open>term_safe\<close> compose steps.
\<close>

section \<open>The invariant\<close>

definition colour_index :: "nat \<Rightarrow> bool" where
  "colour_index k \<longleftrightarrow> k < 8 \<or> k = SIZE_MAX"

definition parser_ok :: "'v flanterm_context \<Rightarrow> bool" where
  "parser_ok s \<longleftrightarrow> 2 \<le> length (esc_values s) \<and> esc_values_i s \<le> length (esc_values s) \<and>
     (rrr s \<longrightarrow> esc_values_i s < length (esc_values s)) \<and> tab_size s \<noteq> 0 \<and> length (charsets s) = 2 \<and>
     current_charset s < 2 \<and> saved_state_current_charset s < 2 \<and> g_select s \<le> 2 \<and>
     unicode_remaining s \<le> 3 \<and>
     colour_index (current_primary s) \<and> colour_index (current_bg s) \<and>
     colour_index (saved_state_current_primary s) \<and> colour_index (saved_state_current_bg s)"

text \<open>The characters of the text are bytes.\<close>

definition text_ok :: "text_screen \<Rightarrow> bool" where
  "text_ok t \<longleftrightarrow> length (tx_cells t) = tx_rows t * tx_cols t \<and> (\<forall>c\<in>set (tx_cells t). ch_c c < 256)"

definition screen_ok :: "fb_context \<Rightarrow> bool" where
  "screen_ok b \<longleftrightarrow> fb_ok b \<and> margins_ok b \<and> text_ok (text_of b)"

definition term_ok :: "'v flanterm_context \<Rightarrow> bool" where
  "term_ok s \<longleftrightarrow> parser_ok s \<and> screen_ok (fbc s)"

text \<open>What the picture on the screen depends on; only a flush changes it.\<close>

definition picture_same :: "fb_context \<Rightarrow> fb_context \<Rightarrow> bool" where
  "picture_same b b' \<longleftrightarrow> cols b' = cols b \<and> rows b' = rows b \<and> display b' = display b \<and> palette b' = palette b \<and>
     grid b' = grid b \<and> old_cursor_x b' = old_cursor_x b \<and> old_cursor_y b' = old_cursor_y b"

lemma picture_refl [simp]: "picture_same b b"
  by (simp add: picture_same_def)

lemma picture_trans: "picture_same b c \<Longrightarrow> picture_same c d \<Longrightarrow> picture_same b d"
  by (simp add: picture_same_def)

lemma fixed_picture: "fixed b b' \<Longrightarrow> picture_same b b'"
  by (simp add: fixed_def picture_same_def)

section \<open>Steps\<close>

definition good :: "'v flanterm_context \<Rightarrow> 'v flanterm_context option \<Rightarrow> bool" where
  "good s r \<longleftrightarrow> (\<exists>s'. r = Some s' \<and> term_ok s' \<and> picture_same (fbc s) (fbc s'))"

named_theorems term_safe \<open>steps of the terminal that keep its invariant\<close>

lemma good_Some: "term_ok s' \<Longrightarrow> picture_same (fbc s) (fbc s') \<Longrightarrow> good s (Some s')"
  by (simp add: good_def)

lemma good_bind:
  assumes "good s r" and "\<And>s'. term_ok s' \<Longrightarrow> picture_same (fbc s) (fbc s') \<Longrightarrow> good s' (f s')"
  shows "good s (do { s' \<leftarrow> r; f s' })"
  using assms unfolding good_def by (fastforce intro: picture_trans)

lemma good_if: "(b \<Longrightarrow> good s r) \<Longrightarrow> (\<not> b \<Longrightarrow> good s r') \<Longrightarrow> good s (if b then r else r')"
  by simp

lemma good_map:
  assumes "good s r" and "\<And>s'. term_ok s' \<Longrightarrow> picture_same (fbc s) (fbc s') \<Longrightarrow> good s' (Some (f s'))"
  shows "good s (map_option f r)"
  using assms unfolding good_def by (fastforce intro: picture_trans)

lemma good_loop:
  assumes "\<And>x s. term_ok s \<Longrightarrow> good s (f x s)" and "term_ok s"
  shows "good s (for_each f xs s)"
  using assms(2)
proof (induction xs arbitrary: s)
  case Nil
  then show ?case by (simp add: good_Some)
next
  case (Cons x xs)
  show ?case unfolding for_each.simps by (rule good_bind [OF assms(1) [OF Cons.prems] Cons.IH])
qed

text \<open>Fields of the parser a step may set.\<close>

lemma term_ok_fields [simp]:
  "term_ok (s\<lparr>control_sequence := b\<rparr>) = term_ok s" "term_ok (s\<lparr>escape := b\<rparr>) = term_ok s"
  "term_ok (s\<lparr>osc := b\<rparr>) = term_ok s" "term_ok (s\<lparr>osc_escape := b\<rparr>) = term_ok s"
  "term_ok (s\<lparr>discard_next := b\<rparr>) = term_ok s" "term_ok (s\<lparr>bold := b\<rparr>) = term_ok s"
  "term_ok (s\<lparr>bg_bold := b\<rparr>) = term_ok s" "term_ok (s\<lparr>reverse_video := b\<rparr>) = term_ok s"
  "term_ok (s\<lparr>dec_private := b\<rparr>) = term_ok s" "term_ok (s\<lparr>insert_mode := b\<rparr>) = term_ok s"
  "term_ok (s\<lparr>code_point := p\<rparr>) = term_ok s" "term_ok (s\<lparr>escape_offset := n\<rparr>) = term_ok s"
  "term_ok (s\<lparr>saved_cursor_x := n\<rparr>) = term_ok s" "term_ok (s\<lparr>saved_cursor_y := n\<rparr>) = term_ok s"
  "term_ok (s\<lparr>oob_output := p\<rparr>) = term_ok s" "term_ok (s\<lparr>reports := r\<rparr>) = term_ok s"
  "term_ok (s\<lparr>autoflush := b\<rparr>) = term_ok s"
  by (simp_all add: term_ok_def parser_ok_def)

lemma term_ok_settings [simp]:
  "term_ok s \<Longrightarrow> colour_index k \<Longrightarrow> term_ok (s\<lparr>current_primary := k\<rparr>)"
  "term_ok s \<Longrightarrow> colour_index k \<Longrightarrow> term_ok (s\<lparr>current_bg := k\<rparr>)"
  "term_ok s \<Longrightarrow> k < 2 \<Longrightarrow> term_ok (s\<lparr>current_charset := k\<rparr>)"
  "term_ok s \<Longrightarrow> k \<le> 2 \<Longrightarrow> term_ok (s\<lparr>g_select := k\<rparr>)"
  "term_ok s \<Longrightarrow> k \<le> 3 \<Longrightarrow> term_ok (s\<lparr>unicode_remaining := k\<rparr>)"
  by (simp_all add: term_ok_def parser_ok_def)

lemma colour_index_simps [simp]: "colour_index SIZE_MAX" "k < 8 \<Longrightarrow> colour_index k"
  by (simp_all add: colour_index_def)

lemma term_ok_parts:
  assumes "term_ok s"
  shows "2 \<le> length (esc_values s)" "fb_ok (fbc s)" "margins_ok (fbc s)" "screen_ok (fbc s)" "parser_ok s"
    "palette_ok (palette (fbc s))"
  using assms by (simp_all add: term_ok_def parser_ok_def screen_ok_def fb_ok_def arrays_ok_def)

text \<open>The values of the sequence.\<close>

lemma value_0 [simp]: "term_ok s \<Longrightarrow> rd (esc_values s) 0 = Some (esc_values s ! 0)"
  and value_1 [simp]: "term_ok s \<Longrightarrow> rd (esc_values s) (Suc 0) = Some (esc_values s ! 1)"
  using term_ok_parts(1) [of s] by (auto intro!: rd_Some)

lemma set_value_safe [term_safe]:
  "term_ok s \<Longrightarrow> k < length (esc_values s) \<Longrightarrow> good s (set_value k v s)"
  by (simp add: set_value_def good_def term_ok_def parser_ok_def)

lemma set_value_length:
  "set_value k v s = Some s' \<Longrightarrow> length (esc_values s') = length (esc_values s)"
  by (auto simp: set_value_def wr_def split: if_splits)

section \<open>Calls of the back end\<close>

lemma term_ok_fbc: "term_ok s \<Longrightarrow> screen_ok b \<Longrightarrow> term_ok (s\<lparr>fbc := b\<rparr>)"
  by (simp add: term_ok_def parser_ok_def)

lemma good_on_fb:
  assumes "term_ok s" and "fbc s = fbc s0"
    and "\<exists>b. f (fbc s) = Some b \<and> screen_ok b \<and> picture_same (fbc s) b"
  shows "good s0 (on_fb f s)"
  using assms by (auto simp: good_def on_fb_def intro: term_ok_fbc)

lemma good_same: "good s r \<Longrightarrow> fbc s = fbc s0 \<Longrightarrow> good s0 r"
  by (simp add: good_def)

definition region_ok :: "text_screen \<Rightarrow> bool" where
  "region_ok t \<longleftrightarrow> tx_upper t < tx_lower t \<and> tx_lower t \<le> tx_rows t"

lemma refined_safe:
  assumes "refines_text f g" and "\<And>t. text_ok t \<Longrightarrow> region_ok t \<Longrightarrow> text_ok (g t)" and "term_ok s"
  shows "good s (on_fb f s)"
proof (rule good_on_fb [OF assms(3) refl])
  have "fb_ok (fbc s)" "margins_ok (fbc s)" "text_ok (text_of (fbc s))"
    using assms(3) by (simp_all add: term_ok_def screen_ok_def)
  moreover from this have "region_ok (text_of (fbc s))" by (simp add: region_ok_def margins_ok_def)
  ultimately show "\<exists>b. f (fbc s) = Some b \<and> screen_ok b \<and> picture_same (fbc s) b"
    using assms(1,2) by (auto elim!: refines_textE intro!: fixed_picture simp: screen_ok_def)
qed

lemma text_ok_put_cell: "text_ok t \<Longrightarrow> ch_c c < 256 \<Longrightarrow> text_ok (put_cell c x y t)"
  by (auto simp: text_ok_def put_cell_def dest!: subsetD [OF set_update_subset_insert])

lemma text_ok_x [simp]:
  "text_ok (t\<lparr>tx_x := x\<rparr>) = text_ok t" "text_ok (t\<lparr>tx_y := x\<rparr>) = text_ok t"
  "region_ok (t\<lparr>tx_x := x\<rparr>) = region_ok t" "region_ok (t\<lparr>tx_y := x\<rparr>) = region_ok t"
  by (simp_all add: text_ok_def region_ok_def)

lemma region_lines:
  assumes "region_ok t"
  shows "(tx_upper t + 1) * tx_cols t \<le> tx_lower t * tx_cols t"
    and "tx_lower t * tx_cols t \<le> tx_rows t * tx_cols t"
  using assms by (intro mult_le_mono1; simp add: region_ok_def)+

lemma text_ok_scroll:
  assumes "text_ok t" and "region_ok t"
  shows "text_ok (text_scroll t)"
proof -
  let ?n = "tx_cols t" and ?u = "tx_upper t" and ?l = "tx_lower t" and ?g = "tx_cells t"
  have len: "length ?g = tx_rows t * ?n" using assms(1) by (simp add: text_ok_def)
  have "?u * ?n + ?n \<le> ?l * ?n" "?l * ?n \<le> tx_rows t * ?n"
    using region_lines [OF assms(2)] by simp_all
  moreover from this have "?u * ?n \<le> tx_rows t * ?n" by linarith
  ultimately have b: "?u * ?n + ?n \<le> ?l * ?n" "?l * ?n \<le> tx_rows t * ?n" "?u * ?n \<le> tx_rows t * ?n" by blast+
  have e: "(?u + 1) * ?n = ?u * ?n + ?n" by simp
  have "length (scroll_lines ?n ?u ?l (text_char t 32) ?g) = tx_rows t * ?n"
    unfolding scroll_lines_def e length_append length_take length_drop length_replicate len
      min_absorb2 [OF b(2)] min_absorb2 [OF b(3)]
    using b by linarith
  then show ?thesis
    using assms(1)
    by (auto simp: text_ok_def text_scroll_def scroll_lines_def text_char_def
        dest!: in_set_takeD in_set_dropD split: if_splits)
qed

lemma text_ok_revscroll:
  assumes "text_ok t" and "0 < tx_lower t" "tx_lower t \<le> tx_rows t" "tx_upper t < tx_rows t"
  shows "text_ok (text_revscroll t)"
proof -
  let ?n = "tx_cols t" and ?u = "tx_upper t" and ?l = "tx_lower t" and ?g = "tx_cells t" and ?r = "tx_rows t"
  have len: "length ?g = ?r * ?n" using assms(1) by (simp add: text_ok_def)
  let ?k = "?l - 1 - ?u" and ?m = "max ?l (?u + 1)"
  have split: "?u + 1 + ?k = ?m" "?m \<le> ?r" using assms by auto
  have "?m * ?n \<le> ?r * ?n" "(?u + ?k) * ?n \<le> ?r * ?n" using split by (intro mult_le_mono1; simp)+
  then have b: "?m * ?n \<le> ?r * ?n" "?u * ?n + ?k * ?n \<le> ?r * ?n" "?u * ?n \<le> ?r * ?n"
    unfolding add_mult_distrib by linarith+
  have "(?u + 1 + ?k) * ?n = ?m * ?n" unfolding split(1) ..
  then have "?u * ?n + ?n + ?k * ?n = ?m * ?n" by (simp add: add_mult_distrib)
  moreover have k: "?k * ?n \<le> ?r * ?n - ?u * ?n" using b by linarith
  ultimately have "length (revscroll_lines ?n ?u ?l (text_char t 32) ?g) = ?r * ?n"
    unfolding revscroll_lines_def length_append length_take length_drop length_replicate len
      min_absorb2 [OF b(3)] min_absorb2 [OF k]
    using b by linarith
  then show ?thesis
    using assms(1)
    by (auto simp: text_ok_def text_revscroll_def revscroll_lines_def text_char_def
        dest!: in_set_takeD in_set_dropD split: if_splits)
qed

lemma text_ok_wrap: "text_ok t \<Longrightarrow> region_ok t \<Longrightarrow> text_ok (text_wrap t)"
  using text_ok_scroll [of "t\<lparr>tx_x := 0\<rparr>"] by (auto simp: text_wrap_def Let_def)

lemma text_ok_put: "text_ok t \<Longrightarrow> region_ok t \<Longrightarrow> c < 256 \<Longrightarrow> text_ok (text_put c t)"
  by (auto simp: text_put_def Let_def text_char_def intro!: text_ok_put_cell text_ok_wrap)

lemma text_ok_move: "text_ok t \<Longrightarrow> text_ok (text_move x' y' x y t)"
  using cell_less [of x "tx_cols t" y "tx_rows t"]
  by (auto simp: text_move_def text_ok_def intro!: text_ok_put_cell [unfolded text_ok_def])

lemma text_ok_clear: "text_ok t \<Longrightarrow> text_ok (text_clear move t)"
  by (auto simp: text_ok_def text_clear_def text_char_def Let_def split: if_splits)

lemma put_safe [term_safe]: "term_ok s \<Longrightarrow> c < 256 \<Longrightarrow> good s (put c s)"
  by (rule refined_safe [OF raw_putchar_refines]) (simp_all add: text_ok_put)

lemma goto_safe [term_safe]: "term_ok s \<Longrightarrow> good s (goto x y s)"
  by (rule refined_safe [OF goto_refines]) (simp_all add: text_goto_def)

lemma scroll_safe [term_safe]: "term_ok s \<Longrightarrow> good s (on_fb flanterm_fb_scroll s)"
  by (rule refined_safe [OF scroll_refines]) (simp_all add: text_ok_scroll)

lemma revscroll_safe [term_safe]: "term_ok s \<Longrightarrow> good s (on_fb flanterm_fb_revscroll s)"
  by (rule refined_safe [OF revscroll_refines]) (auto simp: region_ok_def intro!: text_ok_revscroll)

lemma clear_safe [term_safe]: "term_ok s \<Longrightarrow> good s (on_fb (flanterm_fb_clear move) s)"
  by (rule refined_safe [OF clear_refines]) (simp_all add: text_ok_clear)

lemma move_safe [term_safe]: "term_ok s \<Longrightarrow> good s (on_fb (flanterm_fb_move_character x' y' x y) s)"
  by (rule refined_safe [OF move_refines]) (simp_all add: text_ok_move)

text \<open>Colours: an index below 8 is inside the palettes, a shift below 32 is defined.\<close>

lemma screen_ok_fields [simp]:
  "screen_ok (b\<lparr>text_fg := c\<rparr>) = screen_ok b" "screen_ok (b\<lparr>text_bg := c\<rparr>) = screen_ok b"
  "screen_ok (b\<lparr>cursor_enabled := v\<rparr>) = screen_ok b" "screen_ok (b\<lparr>scroll_enabled := v\<rparr>) = screen_ok b"
  "screen_ok (b\<lparr>cursor_x := x\<rparr>) = screen_ok b" "screen_ok (b\<lparr>cursor_y := x\<rparr>) = screen_ok b"
  "screen_ok (b\<lparr>saved_state_text_fg := c\<rparr>) = screen_ok b" "screen_ok (b\<lparr>saved_state_text_bg := c\<rparr>) = screen_ok b"
  "screen_ok (b\<lparr>saved_state_cursor_x := x\<rparr>) = screen_ok b" "screen_ok (b\<lparr>saved_state_cursor_y := x\<rparr>) = screen_ok b"
  by (simp_all add: screen_ok_def margins_ok_def text_ok_def)

definition recolours :: "(fb_context \<Rightarrow> fb_context option) \<Rightarrow> fb_context \<Rightarrow> bool" where
  "recolours f b \<longleftrightarrow> (\<exists>fg bg. f b = Some (b\<lparr>text_fg := fg, text_bg := bg\<rparr>))"

lemma recolours_safe:
  assumes "term_ok s" and "recolours f (fbc s)"
  shows "good s (on_fb f s)"
  using assms by (intro good_on_fb) (auto simp: recolours_def term_ok_def picture_same_def)

lemma recolours_total [simp]:
  "recolours (\<lambda>b. Some (flanterm_fb_swap_palette b)) b"
  "recolours (\<lambda>b. Some (flanterm_fb_set_text_fg_default b)) b"
  "recolours (\<lambda>b. Some (flanterm_fb_set_text_bg_default b)) b"
  "recolours (\<lambda>b. Some (flanterm_fb_set_text_fg_default_bright b)) b"
  "recolours (\<lambda>b. Some (flanterm_fb_set_text_bg_default_bright b)) b"
  unfolding recolours_def flanterm_fb_swap_palette_def flanterm_fb_set_text_fg_default_def
    flanterm_fb_set_text_bg_default_def flanterm_fb_set_text_fg_default_bright_def
    flanterm_fb_set_text_bg_default_bright_def
  by (cases b, force)+

lemma recolours_index:
  assumes "palette_ok (palette b)" and "k < 8"
  shows "recolours (flanterm_fb_set_text_fg k) b" "recolours (flanterm_fb_set_text_bg k) b"
    "recolours (flanterm_fb_set_text_fg_bright k) b" "recolours (flanterm_fb_set_text_bg_bright k) b"
  using assms unfolding recolours_def palette_ok_def
  by (cases b, force simp: flanterm_fb_set_text_fg_def flanterm_fb_set_text_bg_def
      flanterm_fb_set_text_fg_bright_def flanterm_fb_set_text_bg_bright_def)+

lemma recolours_rgb:
  assumes "palette_ok (palette b)"
  shows "recolours (flanterm_fb_set_text_fg_rgb v) b" "recolours (flanterm_fb_set_text_bg_rgb v) b"
  using assms unfolding recolours_def palette_ok_def
  by (cases b, force simp: flanterm_fb_set_text_fg_rgb_def flanterm_fb_set_text_bg_rgb_def convert_colour_def)+

section \<open>Graphic rendition\<close>

lemma update_safe:
  assumes "term_ok s" and "fbc s = fbc s0" and "\<And>s. term_ok s \<Longrightarrow> good s (f s)"
  shows "good s0 (f s)"
  using assms good_same by blast

lemma recolour_step:
  assumes "term_ok s" and "fbc s = fbc s0" and "recolours f (fbc s)"
  shows "good s0 (on_fb f s)"
  using recolours_safe [OF assms(1,3)] assms(2) by (rule good_same)

lemma current_colours:
  assumes "term_ok s"
  shows "current_primary s \<noteq> SIZE_MAX \<Longrightarrow> current_primary s < 8" "current_bg s \<noteq> SIZE_MAX \<Longrightarrow> current_bg s < 8"
  using assms by (auto simp: term_ok_def parser_ok_def colour_index_def)

lemmas recolour_rules = recolours_index [OF term_ok_parts(6)] recolours_rgb [OF term_ok_parts(6)]

lemma sgr_bold_safe [term_safe]: "term_ok s \<Longrightarrow> good s (sgr_bold s)"
  and sgr_bg_bold_safe [term_safe]: "term_ok s \<Longrightarrow> good s (sgr_bg_bold s)"
  and sgr_no_bold_safe [term_safe]: "term_ok s \<Longrightarrow> good s (sgr_no_bold s)"
  and sgr_no_bg_bold_safe [term_safe]: "term_ok s \<Longrightarrow> good s (sgr_no_bg_bold s)"
  unfolding sgr_bold_def sgr_bg_bold_def sgr_no_bold_def sgr_no_bg_bold_def Let_def
  by (auto intro!: recolour_step recolour_rules dest: current_colours)

lemma sgr_set_safe [term_safe]:
  "term_ok s \<Longrightarrow> k < 8 \<Longrightarrow> good s (sgr_set_fg k s)" "term_ok s \<Longrightarrow> k < 8 \<Longrightarrow> good s (sgr_set_bg k s)"
  unfolding sgr_set_fg_def sgr_set_bg_def by (auto intro!: recolour_step recolour_rules)

lemma swap_safe [term_safe]: "term_ok s \<Longrightarrow> good s (swap_if_reversed s)"
  unfolding swap_if_reversed_def by (auto intro!: recolour_step good_Some)

lemma sgr_reset_safe [term_safe]: "term_ok s \<Longrightarrow> good s (sgr_reset s)"
  unfolding sgr_reset_def by (intro good_bind good_if) (auto intro!: recolour_step good_Some)

lemma recolours_if [simp]:
  "recolours (\<lambda>b. Some (if p then flanterm_fb_set_text_fg_default b else flanterm_fb_set_text_fg_default_bright b)) b"
  "recolours (\<lambda>b. Some (if p then flanterm_fb_set_text_bg_default b else flanterm_fb_set_text_bg_default_bright b)) b"
  by (cases p; simp)+

lemma sgr_default_safe [term_safe]: "term_ok s \<Longrightarrow> good s (sgr_default_fg s)" "term_ok s \<Longrightarrow> good s (sgr_default_bg s)"
  unfolding sgr_default_fg_def sgr_default_bg_def
  by (rule good_bind, rule good_same [OF swap_safe], simp, simp,
      rule good_bind [OF recolours_safe swap_safe], simp, simp, assumption)+

lemma sgr_set_step:
  "term_ok s \<Longrightarrow> fbc s = fbc s0 \<Longrightarrow> k < 8 \<Longrightarrow> good s0 (sgr_set_fg k s)"
  "term_ok s \<Longrightarrow> fbc s = fbc s0 \<Longrightarrow> k < 8 \<Longrightarrow> good s0 (sgr_set_bg k s)"
  using sgr_set_safe good_same by blast+

lemma sgr_value_safe [term_safe]: "term_ok s \<Longrightarrow> good s (sgr_value v s)"
  unfolding sgr_value_def Let_def
  by (auto intro!: sgr_reset_safe sgr_bold_safe sgr_bg_bold_safe sgr_no_bold_safe sgr_no_bg_bold_safe
        sgr_default_safe sgr_set_step recolour_step recolours_index good_Some term_ok_parts(6))

lemma length_col256: "length col256 = 240"
  by (simp add: col256_def)

text \<open>A pair of an index and a state.\<close>

definition good_at :: "'v flanterm_context \<Rightarrow> (nat \<times> 'v flanterm_context) option \<Rightarrow> bool" where
  "good_at s r \<longleftrightarrow> (\<exists>j s'. r = Some (j, s') \<and> good s (Some s'))"

lemma good_at_bind: "good s r \<Longrightarrow> good_at s (do { s1 \<leftarrow> r; Some (j, s1) })"
  by (auto simp: good_at_def good_def)

lemma sgr_extended_safe:
  assumes ok: "term_ok s" and i: "esc_values_i s \<le> length (esc_values s)"
  shows "good_at s (sgr_extended i fg s)"
proof -
  have stop: "good_at s (Some (j, s))" for j using ok by (simp add: good_at_def good_Some)
  have pal: "palette_ok (palette (fbc s))" by (rule term_ok_parts(6) [OF ok])
  note step = good_at_bind [OF recolour_step [OF ok refl]]
  show ?thesis
    unfolding sgr_extended_def Let_def
    using i pal ok
    by (auto intro!: stop step good_at_bind [OF good_if] recolour_step good_Some
        recolours_index recolours_rgb simp: length_col256)
qed

lemma sgr_at_safe:
  assumes ok: "term_ok s" and i: "i < esc_values_i s"
  shows "good_at s (sgr_at i s)"
proof -
  have n: "esc_values_i s \<le> length (esc_values s)" using ok by (simp add: term_ok_def parser_ok_def)
  then have "rd (esc_values s) i = Some (esc_values s ! i)" using i by simp
  then show ?thesis
    using sgr_extended_safe [OF ok n] good_at_bind [OF sgr_value_safe [OF ok]] by (simp add: sgr_at_def)
qed

lemma sgr_loop_safe: "term_ok s \<Longrightarrow> good s (sgr_loop i s)"
proof (induction i s rule: sgr_loop.induct)
  case (1 i s)
  show ?case
  proof (cases "i < esc_values_i s")
    case True
    from sgr_at_safe [OF "1.prems" True] obtain j s1 where
      s1: "sgr_at i s = Some (j, s1)" "term_ok s1" "picture_same (fbc s) (fbc s1)"
      by (auto simp: good_at_def good_def)
    have "good s1 (sgr_loop j s1)" using "1.IH" [OF True s1(1)] s1(2) by simp
    then show ?thesis using True s1 by (subst sgr_loop.simps) (auto simp: good_def intro: picture_trans)
  next
    case False
    then show ?thesis using "1.prems" by (subst sgr_loop.simps) (simp add: good_Some)
  qed
qed

lemma sgr_safe [term_safe]: "term_ok s \<Longrightarrow> good s (sgr s)"
  unfolding sgr_def by (intro good_if sgr_reset_safe sgr_loop_safe)

section \<open>Control sequences\<close>

lemma report_safe [simp]: "term_ok (report r s) = term_ok s" "fbc (report r s) = fbc s"
  by (simp_all add: report_def)

lemma good_report: "term_ok s \<Longrightarrow> good s (Some (report r s))"
  by (simp add: good_Some)

text \<open>The first value is set, then the cursor moves: whatever the numbers, it is clamped.\<close>

lemma value_goto:
  assumes "term_ok s"
  shows "good s (do { s1 \<leftarrow> set_value 0 v s; goto (fx s1) (fy s1) s1 })"
proof (rule good_bind)
  show "good s (set_value 0 v s)"
    using term_ok_parts(1) [OF assms] by (intro set_value_safe assms) linarith
qed (rule goto_safe)

lemma csi_moves_safe [term_safe]:
  assumes "term_ok s"
  shows "good s (csi_up x y s)" "good s (csi_down x y s)" "good s (csi_right x y s)" "good s (csi_left x y s)"
    "good s (csi_row x s)" "good s (csi_column y s)"
  unfolding csi_up_def csi_down_def csi_right_def csi_left_def csi_row_def csi_column_def Let_def
  using value_goto [OF assms] assms by simp_all

lemma csi_position_safe [term_safe]:
  fixes s :: "('w::len) word flanterm_context"
  assumes ok: "term_ok s"
  shows "good s (csi_position s)"
proof -
  have l: "0 < length (esc_values s)" "1 < length (esc_values s)" using term_ok_parts(1) [OF ok] by linarith+
  have "good s (do { s1 \<leftarrow> set_value 1 c s; s2 \<leftarrow> set_value 0 r s1; goto x y s2 })" for c r x y
  proof (rule good_bind [OF set_value_safe [OF ok l(2)]])
    fix s1 :: "'w word flanterm_context" assume "term_ok s1"
    then show "good s1 (do { s2 \<leftarrow> set_value 0 r s1; goto x y s2 })"
      by (rule value_goto)
  qed
  then show ?thesis using ok by (simp add: csi_position_def Let_def)
qed

lemma put_blanks_safe [term_safe]: "term_ok s \<Longrightarrow> good s (put_blanks n s)"
  unfolding put_blanks_def by (rule good_loop) (auto intro: put_safe)

lemma csi_scroll_safe [term_safe]: "term_ok s \<Longrightarrow> good s (csi_scroll s)"
  by (simp add: csi_scroll_def good_loop scroll_safe)

lemma erase_until_safe [term_safe]:
  fixes s :: "('w::len) word flanterm_context"
  shows "term_ok s \<Longrightarrow> good s (erase_until x y cells s)"
proof (induction cells arbitrary: s)
  case Nil
  then show ?case by (simp add: good_Some)
next
  case (Cons cell cells)
  obtain yc xc where cell: "cell = (yc, xc)" by (cases cell)
  show ?case
    unfolding cell erase_until.simps
  proof (rule good_bind)
    show "good s (put 32 s)" using Cons.prems by (intro put_safe) simp_all
    fix s1 :: "'w word flanterm_context" assume s1: "term_ok s1" "picture_same (fbc s) (fbc s1)"
    show "good s1 (if xc = x \<and> yc = y then goto x y s1 else erase_until x y cells s1)"
      using goto_safe [OF s1(1)] Cons.IH [OF s1(1)] by auto
  qed
qed

lemma csi_erase_safe [term_safe]:
  assumes ok: "term_ok s"
  shows "good s (csi_erase_display x y s)" "good s (csi_erase_line x y s)" "good s (csi_erase_chars x y s)"
  unfolding csi_erase_display_def csi_erase_line_def csi_erase_chars_def Let_def value_0 [OF ok] bind.bind_lunit
  by (intro good_if good_bind put_blanks_safe goto_safe erase_until_safe clear_safe good_Some ok picture_refl;
      assumption)+

lemma csi_delete_safe [term_safe]:
  assumes ok: "term_ok s"
  shows "good s (csi_delete_chars x y s)"
  unfolding csi_delete_chars_def Let_def value_0 [OF ok] bind.bind_lunit
  by (rule good_bind [OF good_loop [OF move_safe ok] good_bind [OF goto_safe csi_erase_safe(3)]])

text \<open>The two loops that count down stop when they reach \<open>x\<close>.\<close>

lemma insert_blanks_safe:
  assumes "term_ok s" and "x \<le> i" and "i < 2 ^ 64"
  shows "good s (insert_blanks x y i s)"
  using assms
proof (induction "i - x" arbitrary: i s)
  case 0
  then have i: "i = x" by simp
  show ?case
    unfolding i insert_blanks.simps [of x y x] value_0 [OF 0(2)] bind.bind_lunit if_P [OF refl]
    by (intro good_bind move_safe goto_safe put_safe good_Some 0(2) picture_refl; simp)
next
  case (Suc k)
  then have i: "i \<noteq> x" "size_sub i 1 = i - 1" "k = (i - 1) - x" "x \<le> i - 1" "i - 1 < 2 ^ 64" by simp_all
  show ?case
    unfolding insert_blanks.simps [of x y i] value_0 [OF Suc.prems(1)] bind.bind_lunit if_not_P [OF i(1)] i(2)
    by (intro good_bind move_safe goto_safe put_safe Suc.hyps(1) Suc.prems(1) i(3-5); simp)
qed

lemma shift_right_safe:
  assumes "term_ok s" and "x \<le> i" and "i < 2 ^ 64"
  shows "good s (shift_right x y i s)"
  using assms
proof (induction "i - x" arbitrary: i s)
  case 0
  then have i: "i = x" by simp
  show ?case
    unfolding i shift_right.simps [of x y x] if_P [OF refl]
    by (intro good_bind move_safe good_Some 0(2) picture_refl; simp)
next
  case (Suc k)
  then have i: "i \<noteq> x" "size_sub i 1 = i - 1" "k = (i - 1) - x" "x \<le> i - 1" "i - 1 < 2 ^ 64" by simp_all
  show ?case
    unfolding shift_right.simps [of x y i] if_not_P [OF i(1)] i(2)
    by (intro good_bind move_safe Suc.hyps(1) Suc.prems(1) i(3-5); simp)
qed

text \<open>The position of the cursor, as the parser reads it, is on the screen.\<close>

lemma cursor_pos_bounds:
  assumes "term_ok s" and "flanterm_fb_get_cursor_pos (fbc s) = (x, y)"
  shows "x < cols (fbc s)" "y < rows (fbc s)"
proof -
  note ok = term_ok_parts(2) [OF assms(1)]
  have "(x, y) = text_pos (text_of (fbc s))" using assms(2) get_pos_text [OF ok] by simp
  then show "x < cols (fbc s)" "y < rows (fbc s)" using fb_ok_pos [OF ok] by (auto simp: text_pos_def)
qed

lemma last_column:
  assumes "term_ok s"
  shows "size_sub (cols (fbc s)) 1 = cols (fbc s) - 1" "cols (fbc s) - 1 < 2 ^ 64"
  using fb_ok_pos [OF term_ok_parts(2) [OF assms]] by auto

lemma csi_insert_safe [term_safe]:
  assumes ok: "term_ok s" and x: "x < cols (fbc s)"
  shows "good s (csi_insert_chars x y s)"
  unfolding csi_insert_chars_def last_column(1) [OF ok]
  using x last_column(2) [OF ok]
  by (intro good_bind insert_blanks_safe ok goto_safe) simp_all

text \<open>Scrolling down below the region: the cursor's line is the top for the time of the loop.\<close>

definition lines_ok :: "fb_context \<Rightarrow> fb_context \<Rightarrow> bool" where
  "lines_ok b b' \<longleftrightarrow> fb_ok b' \<and> text_ok (text_of b') \<and> picture_same b b' \<and>
     scroll_bottom_margin b' = scroll_bottom_margin b \<and> scroll_top_margin b' = scroll_top_margin b"

lemma revscroll_lines_ok:
  assumes "lines_ok b b'" and "0 < scroll_bottom_margin b" "scroll_bottom_margin b \<le> rows b"
    and "scroll_top_margin b < rows b"
  shows "\<exists>b''. flanterm_fb_revscroll b' = Some b'' \<and> lines_ok b b''"
proof -
  have r: "rows b' = rows b" using assms(1) by (simp add: lines_ok_def picture_same_def)
  from revscroll_shown [of b'] assms r obtain b'' where
    b'': "flanterm_fb_revscroll b' = Some b''"
      "retexted b' (revscroll_lines (cols b') (scroll_top_margin b') (scroll_bottom_margin b') (blank b') (shown b')) b''"
    by (auto simp: lines_ok_def)
  note f = retexted_refines [OF b''(2)]
  have "text_of b'' = text_revscroll (text_of b')"
    using f(3) by (simp add: text_revscroll_def blank_text)
  moreover have "text_ok (text_revscroll (text_of b'))"
    using assms r by (intro text_ok_revscroll) (simp_all add: lines_ok_def)
  moreover have "picture_same b b''"
    using assms(1) fixed_picture [OF f(2)] by (auto simp: lines_ok_def intro: picture_trans)
  ultimately show ?thesis
    using assms(1) b''(1) f(1,2) by (auto simp: lines_ok_def fixed_def)
qed

lemma revscroll_loop:
  assumes "parser_ok s" and "lines_ok b (fbc s)" and "0 < scroll_bottom_margin b" "scroll_bottom_margin b \<le> rows b"
    and "scroll_top_margin b < rows b"
  shows "\<exists>s'. for_each (\<lambda>_. on_fb flanterm_fb_revscroll) xs s = Some s' \<and> parser_ok s' \<and> lines_ok b (fbc s')"
  using assms(1,2)
proof (induction xs arbitrary: s)
  case Nil
  then show ?case by simp
next
  case (Cons x xs)
  obtain b' where b': "flanterm_fb_revscroll (fbc s) = Some b'" "lines_ok b b'"
    using revscroll_lines_ok [OF Cons.prems(2) assms(3-5)] by blast
  let ?s = "s\<lparr>fbc := b'\<rparr>"
  have "\<exists>s'. for_each (\<lambda>_. on_fb flanterm_fb_revscroll) xs ?s = Some s' \<and> parser_ok s' \<and> lines_ok b (fbc s')"
    using Cons.prems(1) b'(2) by (intro Cons.IH) (simp_all add: parser_ok_def)
  moreover have "on_fb flanterm_fb_revscroll s = Some ?s" using b'(1) by (simp add: on_fb_def)
  ultimately show ?case by simp
qed

lemma csi_insert_lines_safe [term_safe]:
  assumes ok: "term_ok s" and y: "y < rows (fbc s)"
  shows "good s (csi_insert_lines y s)"
proof -
  let ?b = "(fbc s)\<lparr>scroll_top_margin := y\<rparr>"
  let ?s = "s\<lparr>fbc := ?b\<rparr>"
  have b: "parser_ok ?s" "lines_ok ?b (fbc ?s)" "0 < scroll_bottom_margin ?b" "scroll_bottom_margin ?b \<le> rows ?b"
    "scroll_top_margin ?b < rows ?b"
    using ok y by (auto simp: term_ok_def parser_ok_def lines_ok_def screen_ok_def margins_ok_def text_ok_def)
  have v: "rd (esc_values ?s) 0 = Some (esc_values s ! 0)" using ok by simp
  let ?n = "if rows (fbc ?s) < unat (esc_values s ! 0) then rows (fbc ?s) else unat (esc_values s ! 0)"
  from revscroll_loop [OF b(1) b(2) b(3-5), of "[0..<?n]"] obtain s2 where
    s2: "for_each (\<lambda>_. on_fb flanterm_fb_revscroll) [0..<?n] ?s = Some s2" "parser_ok s2" "lines_ok ?b (fbc s2)"
    by blast
  let ?s2 = "s2\<lparr>fbc := (fbc s2)\<lparr>scroll_top_margin := scroll_top_margin (fbc s)\<rparr>\<rparr>"
  have run: "csi_insert_lines y s = Some ?s2"
    unfolding csi_insert_lines_def Let_def v bind.bind_lunit s2(1) ..
  have f: "fb_ok (fbc s2)" "text_ok (text_of (fbc s2))" "picture_same ?b (fbc s2)"
    "scroll_bottom_margin (fbc s2) = scroll_bottom_margin (fbc s)"
    using s2(3) by (simp_all add: lines_ok_def)
  have "rows (fbc s2) = rows (fbc s)" using f(3) by (simp add: picture_same_def)
  then have "margins_ok (fbc ?s2)" using f(4) term_ok_parts(3) [OF ok] by (simp add: margins_ok_def)
  then have "term_ok ?s2"
    using s2(2) f by (simp add: term_ok_def parser_ok_def screen_ok_def text_ok_def)
  moreover have "picture_same (fbc s) (fbc ?s2)" using f(3) by (simp add: picture_same_def)
  ultimately show ?thesis using run by (simp add: good_Some)
qed

lemma good_via: "term_ok s' \<Longrightarrow> picture_same (fbc s) (fbc s') \<Longrightarrow> good s' r \<Longrightarrow> good s r"
  unfolding good_def by (blast intro: picture_trans)

text \<open>Margins that make no region are replaced by the whole screen.\<close>

lemma margins_step:
  assumes ok: "term_ok s" and m: "upper < lower" "lower \<le> rows (fbc s)"
  shows "term_ok (s\<lparr>fbc := (fbc s)\<lparr>scroll_top_margin := upper, scroll_bottom_margin := lower\<rparr>\<rparr>)"
  using assms by (simp add: term_ok_def parser_ok_def screen_ok_def margins_ok_def text_ok_def)

lemma csi_margins_safe [term_safe]:
  fixes s :: "('w::len) word flanterm_context"
  assumes ok: "term_ok s"
  shows "good s (csi_margins s)"
proof -
  have l: "0 < length (esc_values s)" "1 < length (esc_values s)" using term_ok_parts(1) [OF ok] by linarith+
  obtain s1 where s1: "set_value 0 (if esc_values s ! 0 = 0 then 1 else esc_values s ! 0) s = Some s1"
      "term_ok s1" "picture_same (fbc s) (fbc s1)"
    using set_value_safe [OF ok l(1)] by (auto simp: good_def)
  have l1: "1 < length (esc_values s1)" using set_value_length [OF s1(1)] l by simp
  obtain s2 where s2: "set_value 1 (if esc_values s1 ! 1 = 0 then 1 else esc_values s1 ! 1) s1 = Some s2"
      "term_ok s2" "picture_same (fbc s1) (fbc s2)"
    using set_value_safe [OF s1(2) l1] by (auto simp: good_def)
  define upper where "upper = (if 0 < esc_values_i s2 then unat (esc_values s2 ! 0 - 1) else 0)"
  define lower where "lower = (if 1 < esc_values_i s2 then unat (esc_values s2 ! 1) else rows (fbc s2))"
  define bad where "bad = (rows (fbc s2) \<le> upper \<or> rows (fbc s2) < lower \<or> size_sub lower 1 \<le> upper)"
  let ?u = "if bad then 0 else upper" and ?l = "if bad then rows (fbc s2) else lower"
  let ?s3 = "s2\<lparr>fbc := (fbc s2)\<lparr>scroll_top_margin := ?u, scroll_bottom_margin := ?l\<rparr>\<rparr>"
  have run: "csi_margins s = goto 0 0 ?s3"
    unfolding csi_margins_def Let_def value_0 [OF ok] value_0 [OF s2(2)] bind.bind_lunit s1(1)
      One_nat_def value_1 [OF s1(2)] value_1 [OF s2(2)] s2(1) [unfolded One_nat_def]
    by (simp add: upper_def lower_def bad_def)
  have rows: "0 < rows (fbc s2)" "rows (fbc s2) < 2 ^ 31" using fb_ok_pos [OF term_ok_parts(2) [OF s2(2)]] by simp_all
  have "?u < ?l \<and> ?l \<le> rows (fbc s2)"
  proof (cases bad)
    case True
    then show ?thesis using rows by simp
  next
    case False
    then have u: "upper < rows (fbc s2)" "lower \<le> rows (fbc s2)" "upper < size_sub lower 1" by (auto simp: bad_def)
    have "upper < lower"
    proof (cases "lower = 0")
      case True
      text \<open>A lower margin of 0 cannot be given: it is read as 1.\<close>
      then have "1 < esc_values_i s2 \<and> unat (esc_values s2 ! 1) = 0" using rows by (simp add: lower_def split: if_splits)
      moreover have "esc_values s2 ! 1 \<noteq> 0"
        using s2(1) l1 by (auto simp: set_value_def split: if_splits)
      ultimately show ?thesis by (simp add: unat_eq_zero)
    next
      case False
      then show ?thesis using u rows by simp
    qed
    with False u show ?thesis by simp
  qed
  then have "term_ok ?s3" by (intro margins_step s2(2)) auto
  moreover have "picture_same (fbc s) (fbc ?s3)"
    using picture_trans [OF s1(3) s2(3)] by (simp add: picture_same_def)
  ultimately show ?thesis unfolding run by (intro good_via [OF _ _ goto_safe])
qed

lemma dec_private_parse_safe [term_safe]: "term_ok s \<Longrightarrow> good s (dec_private_parse c s)"
  unfolding dec_private_parse_def Let_def
  by (auto simp: good_def picture_same_def term_ok_def parser_ok_def report_def screen_ok_def margins_ok_def
      text_ok_def)

lemma mode_toggle_safe [term_safe]: "term_ok s \<Longrightarrow> good s (mode_toggle c s)"
  unfolding mode_toggle_def by (auto intro!: good_Some)

lemma linux_private_safe: "term_ok s \<Longrightarrow> good s (Some (linux_private_parse s))"
  unfolding linux_private_parse_def by (auto intro!: good_Some)

lemma osc_parse_safe: "term_ok s \<Longrightarrow> good s (Some (osc_parse c s))"
  unfolding osc_parse_def Let_def by (auto intro!: good_Some)

lemma csi_report_safe [term_safe]: "term_ok s \<Longrightarrow> good s (csi_report x y s)"
  unfolding csi_report_def by (auto intro!: good_Some)

lemma csi_dispatch_safe [term_safe]:
  assumes ok: "term_ok s" and x: "x < cols (fbc s)" and y: "y < rows (fbc s)"
  shows "good s (csi_dispatch c x y s)"
proof -
  have save: "good s (let (px, py) = flanterm_fb_get_cursor_pos (fbc s) in
      Some (s\<lparr>saved_cursor_x := px, saved_cursor_y := py\<rparr>))"
    using ok by (auto intro!: good_Some split: prod.split)
  have leds: "good s (do { v \<leftarrow> rd (esc_values s) 0; Some (report (Cb_kbd_leds v) s) })"
    using ok by (simp add: good_report)
  show ?thesis
    unfolding csi_dispatch_def
    by (intro good_if csi_moves_safe csi_position_safe csi_scroll_safe csi_insert_lines_safe csi_report_safe
        csi_erase_safe csi_insert_safe csi_delete_safe sgr_safe goto_safe csi_margins_safe mode_toggle_safe
        linux_private_safe save leds good_report good_Some ok x y picture_refl)
qed

section \<open>The parser\<close>

lemma csi_cleanup_safe: "term_ok s \<Longrightarrow> good s (Some (csi_cleanup s))"
  by (simp add: csi_cleanup_def good_Some)

lemma csi_digit_safe [term_safe]:
  assumes ok: "term_ok s"
  shows "good s (csi_digit c s)"
proof (cases "esc_values_i s = length (esc_values s)")
  case True
  then show ?thesis using ok by (simp add: csi_digit_def good_Some)
next
  case False
  then have i: "esc_values_i s < length (esc_values s)" using ok by (simp add: term_ok_def parser_ok_def)
  then have "term_ok (s\<lparr>rrr := True\<rparr>)" using ok by (simp add: term_ok_def parser_ok_def)
  with i False show ?thesis
    by (simp add: csi_digit_def good_same [OF set_value_safe])
qed

lemma fill_defaults_safe:
  fixes s :: "('w::len) word flanterm_context"
  assumes ok: "term_ok s"
  shows "good s (fill_defaults v s)"
proof -
  let ?n = "length (esc_values s)"
  have "\<exists>s'. for_each (\<lambda>i. set_value i v) [esc_values_i s..<?n] s = Some s' \<and>
      (term_ok s' \<and> picture_same (fbc s) (fbc s') \<and> length (esc_values s') = ?n)"
  proof (rule for_range [where I = "\<lambda>i s'. term_ok s' \<and> picture_same (fbc s) (fbc s') \<and> length (esc_values s') = ?n"])
    fix i and t :: "'w word flanterm_context"
    assume "i < ?n" and I: "term_ok t \<and> picture_same (fbc s) (fbc t) \<and> length (esc_values t) = ?n"
    then have "i < length (esc_values t)" "term_ok t" by simp_all
    with set_value_safe [of t i v] I
    show "\<exists>t'. set_value i v t = Some t' \<and> term_ok t' \<and> picture_same (fbc s) (fbc t') \<and> length (esc_values t') = ?n"
      using set_value_length [of i v t] by (auto simp: good_def intro: picture_trans)
  qed (use ok in \<open>auto simp: term_ok_def parser_ok_def\<close>)
  then show ?thesis by (auto simp: fill_defaults_def good_def)
qed

lemma scroll_enabled_safe:
  assumes "term_ok s"
  shows "term_ok (s\<lparr>fbc := (fbc s)\<lparr>scroll_enabled := b\<rparr>\<rparr>)"
    and "picture_same (fbc s) ((fbc s)\<lparr>scroll_enabled := b\<rparr>)"
  using assms by (auto simp: term_ok_def parser_ok_def picture_same_def)

lemma csi_final_safe [term_safe]:
  fixes s :: "('w::len) word flanterm_context"
  assumes ok: "term_ok s"
  shows "good s (csi_final c s)"
  unfolding csi_final_def
proof (rule good_bind [OF fill_defaults_safe [OF ok]])
  fix s1 :: "'w word flanterm_context"
  assume s1: "term_ok s1"
  let ?s2 = "s1\<lparr>fbc := (fbc s1)\<lparr>scroll_enabled := False\<rparr>\<rparr>"
  note s2 = scroll_enabled_safe [OF s1, of False]
  obtain x y where xy: "flanterm_fb_get_cursor_pos (fbc ?s2) = (x, y)" by fastforce
  note b = cursor_pos_bounds [OF s2(1) xy]
  have "good ?s2 (do { s3 \<leftarrow> csi_dispatch c x y ?s2;
      Some (csi_cleanup (s3\<lparr>fbc := (fbc s3)\<lparr>scroll_enabled := scroll_enabled (fbc s1)\<rparr>\<rparr>)) })"
  proof (rule good_bind [OF csi_dispatch_safe [OF s2(1) b]])
    fix s3 :: "'w word flanterm_context" assume "term_ok s3"
    from scroll_enabled_safe [OF this, of "scroll_enabled (fbc s1)"]
    show "good s3 (Some (csi_cleanup (s3\<lparr>fbc := (fbc s3)\<lparr>scroll_enabled := scroll_enabled (fbc s1)\<rparr>\<rparr>)))"
      by (intro good_via [OF _ _ csi_cleanup_safe]) simp_all
  qed
  then have "good s1 (do { s3 \<leftarrow> csi_dispatch c x y ?s2;
      Some (csi_cleanup (s3\<lparr>fbc := (fbc s3)\<lparr>scroll_enabled := scroll_enabled (fbc s1)\<rparr>\<rparr>)) })"
    by (rule good_via [OF s2(1), rotated]) (simp add: s2(2))
  then show "good s1 (if dec_private s1 then map_option csi_cleanup (dec_private_parse c s1)
     else do {
       let r = scroll_enabled (fbc s1);
       let s2 = s1\<lparr>fbc := (fbc s1)\<lparr>scroll_enabled := False\<rparr>\<rparr>;
       let (x, y) = flanterm_fb_get_cursor_pos (fbc s2);
       s3 \<leftarrow> csi_dispatch c x y s2;
       Some (csi_cleanup (s3\<lparr>fbc := (fbc s3)\<lparr>scroll_enabled := r\<rparr>\<rparr>)) })"
    using xy s1 by (simp add: Let_def good_map [OF dec_private_parse_safe csi_cleanup_safe])
qed

lemma control_sequence_parse_safe [term_safe]:
  assumes ok: "term_ok s"
  shows "good s (control_sequence_parse c s)"
proof -
  have rrr: "term_ok (s\<lparr>esc_values_i := esc_values_i s + 1, rrr := False\<rparr>)" if "rrr s"
    using ok that by (simp add: term_ok_def parser_ok_def)
  have sep: "good s (do { s1 \<leftarrow> set_value (esc_values_i s) 0 s; Some (s1\<lparr>esc_values_i := esc_values_i s1 + 1\<rparr>) })"
    if "esc_values_i s \<noteq> length (esc_values s)" "\<not> rrr s"
    using ok that by (auto simp: set_value_def good_def term_ok_def parser_ok_def)
  show ?thesis
    unfolding control_sequence_parse_def Let_def
    using ok rrr sep
    by (auto intro!: good_Some csi_digit_safe csi_final_safe good_same [OF csi_final_safe] simp: csi_cleanup_def)
qed

lemma line_feed_safe [term_safe]: "term_ok s \<Longrightarrow> good s (line_feed x y s)"
  unfolding line_feed_def by (intro good_if good_bind [OF scroll_safe goto_safe] goto_safe)

lemma reinit_safe:
  assumes ok: "term_ok s"
  shows "term_ok (flanterm_context_reinit s)" "picture_same (fbc s) (fbc (flanterm_context_reinit s))"
  using assms fb_ok_pos [OF term_ok_parts(2) [OF ok]]
  by (auto simp: flanterm_context_reinit_def term_ok_def parser_ok_def screen_ok_def margins_ok_def text_ok_def
      picture_same_def)

lemma save_restore_safe:
  assumes ok: "term_ok s"
  shows "good s (Some (save_state s))" "good s (Some (restore_state s))"
  using ok
  by (auto simp: good_def save_state_def restore_state_def term_ok_def parser_ok_def picture_same_def
      flanterm_fb_save_state_def flanterm_fb_restore_state_def)

lemma escape_command_safe [term_safe]:
  assumes ok: "term_ok s"
  shows "good s (escape_command c s)"
proof -
  obtain x y where xy: "flanterm_fb_get_cursor_pos (fbc s) = (x, y)" by fastforce
  have close: "good s (map_option (\<lambda>s. s\<lparr>escape := False\<rparr>) r)" if "good s r" for r
    using that by (rule good_map) (simp add: good_Some)
  have csi: "good s (Some (s\<lparr>esc_values := replicate (length (esc_values s)) 0, esc_values_i := 0, rrr := False,
               control_sequence := True\<rparr>))"
    using ok by (simp add: good_def term_ok_def parser_ok_def)
  have up: "good s (if y = scroll_top_margin (fbc s)
          then do { s1 \<leftarrow> on_fb flanterm_fb_revscroll s; goto 0 y s1 } else goto 0 (size_sub y 1) s)"
    by (intro good_if good_bind [OF revscroll_safe goto_safe] goto_safe ok)
  have reset: "good s (on_fb (flanterm_fb_clear True) (flanterm_context_reinit s))"
    by (intro good_via [OF reinit_safe [OF ok] clear_safe] reinit_safe ok)
  show ?thesis
    unfolding escape_command_def xy Let_def prod.case
    by (intro good_if close csi up reset save_restore_safe line_feed_safe ok good_report)
      (simp_all add: good_Some ok)
qed

lemma escape_parse_safe [term_safe]:
  assumes ok: "term_ok s"
  shows "good s (escape_parse c s)"
proof -
  let ?s = "s\<lparr>escape_offset := escape_offset s + 1\<rparr>"
  have "term_ok ?s" using ok by simp
  then show ?thesis
    unfolding escape_parse_def Let_def
    by (intro good_if good_same [OF osc_parse_safe] good_same [OF control_sequence_parse_safe]
        good_same [OF escape_command_safe]) simp_all
qed

lemma print_code_point_safe [term_safe]:
  assumes ok: "term_ok s"
  shows "good s (print_code_point s)"
proof -
  obtain w where w: "mk_wcwidth (ucast (code_point s)) = Some w" using mk_wcwidth_eq by blast
  have "good s (do { s1 \<leftarrow> (if p then put 0xFE s else Some s); put_blanks n s1 })" for p n
    by (intro good_bind [OF good_if put_blanks_safe] put_safe good_Some ok picture_refl) simp_all
  moreover have "nat (unicode_to_cp437 (code_point s) mod 256) < 256" by (simp add: nat_less_iff)
  ultimately show ?thesis
    using put_safe [OF ok] by (simp add: print_code_point_def w Let_def)
qed

lemma dec_special_bytes: "map_of dec_special_table c = Some g \<Longrightarrow> g < 256"
  by (drule map_of_SomeD) (auto simp: dec_special_table_def)

lemma print_byte_safe [term_safe]:
  fixes s :: "('w::len) word flanterm_context"
  assumes ok: "term_ok s" and x: "x < cols (fbc s)"
  shows "good s (print_byte x y c s)"
  unfolding print_byte_def
proof (rule good_bind)
  show "good s (if insert_mode s then shift_right x y (size_sub (cols (fbc s)) 1) s else Some s)"
    using x last_column [OF ok] by (intro good_if shift_right_safe good_Some ok picture_refl) simp_all
  fix s1 :: "'w word flanterm_context" assume s1: "term_ok s1"
  then have "current_charset s1 < length (charsets s1)" by (simp add: term_ok_def parser_ok_def)
  then obtain cs where cs: "rd (charsets s1) (current_charset s1) = Some cs" by simp
  have draws: "good s1 (case m of Some g \<Rightarrow> put g s1 | None \<Rightarrow> if 0x20 \<le> c \<and> c \<le> 0x7E then put (unat c) s1 else put 0xFE s1)"
    if "\<And>g. m = Some g \<Longrightarrow> g < 256" for m
    using that s1 unsigned_less [of c] by (auto intro!: put_safe split: option.split)
  show "good s1 (do { set \<leftarrow> rd (charsets s1) (current_charset s1);
     case (if set = Charset_dec_special then map_of dec_special_table c else None) of
       Some g \<Rightarrow> put g s1
     | None \<Rightarrow> if 0x20 \<le> c \<and> c \<le> 0x7E then put (unat c) s1 else put 0xFE s1 })"
    unfolding cs bind.bind_lunit
    by (rule draws) (auto dest: dec_special_bytes split: if_splits)
qed

lemma tab_stop_safe [term_safe]: "term_ok s \<Longrightarrow> good s (tab_stop x y s)"
  by (auto simp: tab_stop_def term_ok_def parser_ok_def intro!: goto_safe)

lemma plain_byte_safe [term_safe]:
  assumes ok: "term_ok s"
  shows "good s (plain_byte c s)"
proof -
  obtain x y where xy: "flanterm_fb_get_cursor_pos (fbc s) = (x, y)" by fastforce
  note b = cursor_pos_bounds [OF ok xy]
  show ?thesis
    unfolding plain_byte_def xy Let_def prod.case
    by (intro good_if tab_stop_safe line_feed_safe goto_safe good_report print_byte_safe ok b)
      (simp_all add: good_Some ok)
qed

lemma select_charset_safe [term_safe]:
  assumes ok: "term_ok s" and g: "g_select s \<noteq> 0"
  shows "good s (select_charset c s)"
proof -
  have "g_select s - 1 < length (charsets s)" using ok g by (auto simp: term_ok_def parser_ok_def)
  then show ?thesis
    using ok by (auto simp: select_charset_def Let_def good_def term_ok_def parser_ok_def)
qed

lemma start_byte_safe [term_safe]:
  assumes ok: "term_ok s"
  shows "good s (start_byte c s)"
proof -
  have "good s (Some (s\<lparr>unicode_remaining := n, code_point := cp\<rparr>))" if "utf8_lead c = Some (n, cp)" for n cp
  proof -
    have "n \<le> 3" using that by (auto simp: utf8_lead_def split: if_splits)
    then show ?thesis using ok by (simp add: good_Some)
  qed
  then show ?thesis
    using escape_parse_safe [OF ok] select_charset_safe [OF ok] plain_byte_safe [OF ok]
    by (auto simp: start_byte_def split: option.split)
qed

lemma putchar_safe [term_safe]:
  assumes ok: "term_ok s"
  shows "good s (flanterm_putchar c s)"
proof -
  have r: "unicode_remaining s \<le> 3" using ok by (simp add: term_ok_def parser_ok_def)
  then have "term_ok (s\<lparr>unicode_remaining := unicode_remaining s - 1, code_point := p\<rparr>)" for p
    using ok by simp
  then show ?thesis
    unfolding flanterm_putchar_def Let_def
    using ok
    by (auto intro!: good_Some start_byte_safe good_same [OF start_byte_safe] good_same [OF print_code_point_safe])
qed

end
