(* ===== verification/FlantermWrite.thy ===== *)
theory FlantermWrite
  imports FlantermSafe
begin

text \<open>
  What a write leaves on the screen. \<open>pictured\<close> says that every cell of the framebuffer shows the
  text, the cell of the cursor inverted. Text without escape sequences is compared with a
  reference editor of the abstract terminal (\<open>text_byte\<close>).
\<close>

section \<open>The picture after a write\<close>

definition pictured :: "fb_context \<Rightarrow> bool" where
  "pictured b \<longleftrightarrow> (\<forall>x<cols b. \<forall>y<rows b. cell_shows b x y
     (if cursor_enabled b \<and> (x, y) = (cursor_x b, cursor_y b) then inverted (text_cell b x y) else text_cell b x y))"

lemma picture_geometry:
  assumes "picture_same b b'"
  shows "glyph_pixel b' = glyph_pixel b" "cell_left b' = cell_left b" "cell_top b' = cell_top b"
    "display_ok b' = display_ok b"
proof -
  have e: "display b' = display b" "palette b' = palette b" "cols b' = cols b" "rows b' = rows b"
    using assms by (simp_all add: picture_same_def)
  show l: "cell_left b' = cell_left b" and t: "cell_top b' = cell_top b"
    by (simp_all add: cell_left_def cell_top_def e fun_eq_iff)
  show "glyph_pixel b' = glyph_pixel b"
    by (simp add: glyph_pixel_def opaque_def behind_def l t e fun_eq_iff cong: option.case_cong)
  show "display_ok b' = display_ok b"
    by (simp add: display_ok_def e)
qed

lemma drawn_same:
  assumes same: "picture_same b b'" and ok: "screen_ok b'" and d: "drawn b"
  shows "drawn b'"
proof -
  have e: "display b' = display b" "grid b' = grid b" "cols b' = cols b" "rows b' = rows b"
    "old_cursor_x b' = old_cursor_x b" "old_cursor_y b' = old_cursor_y b"
    using same by (simp_all add: picture_same_def)
  have "cell_shows b' = cell_shows b"
    by (simp add: cell_shows_def picture_geometry [OF same] e fun_eq_iff)
  moreover have "\<forall>c\<in>set (shown b'). ch_c c < 256" using ok by (simp add: screen_ok_def text_ok_def)
  ultimately show ?thesis
    using d by (auto simp: drawn_def picture_geometry [OF same] e bytes_ok_def cells_drawn_def)
qed

lemma flush_pictured:
  assumes ok: "term_ok s" and d: "drawn (fbc s)"
  shows "\<exists>b. flanterm_flush s = Some (s\<lparr>fbc := b\<rparr>) \<and> term_ok (s\<lparr>fbc := b\<rparr>) \<and> drawn b \<and> pictured b \<and>
    text_of b = text_of (fbc s) \<and> grid b = shown (fbc s) \<and> palette b = palette (fbc s) \<and> cursor_enabled b = cursor_enabled (fbc s)"
proof -
  from flush_refines [OF term_ok_parts(2) [OF ok] d] obtain b where
    b: "flanterm_fb_double_buffer_flush (fbc s) = Some b" "fb_ok b" "drawn b" "text_of b = text_of (fbc s)"
      "grid b = shown (fbc s)" "palette b = palette (fbc s)" "cursor_enabled b = cursor_enabled (fbc s)"
      "\<forall>x<cols (fbc s). \<forall>y<rows (fbc s). cell_shows b x y
       (if cursor_enabled (fbc s) \<and> (x, y) = (cursor_x (fbc s), cursor_y (fbc s))
        then inverted (text_cell (fbc s) x y) else text_cell (fbc s) x y)" by blast
  have f: "cols b = cols (fbc s)" "rows b = rows (fbc s)" "cursor_x b = cursor_x (fbc s)"
    "cursor_y b = cursor_y (fbc s)" "shown b = shown (fbc s)" "scroll_top_margin b = scroll_top_margin (fbc s)"
    "scroll_bottom_margin b = scroll_bottom_margin (fbc s)"
    using b(4) by (simp_all add: text_of_def)
  have "pictured b" unfolding pictured_def b(7) f using b(8) .
  moreover have "screen_ok b"
    using term_ok_parts(4) [OF ok] b(2,4) f by (simp add: screen_ok_def margins_ok_def)
  ultimately show ?thesis
    using b(1,3-7) by (intro exI [of _ b]) (simp add: flanterm_flush_def on_fb_def term_ok_fbc [OF ok])
qed

lemma bytes_good:
  assumes "term_ok s"
  shows "good s (for_each flanterm_putchar bs s)"
  by (rule good_loop [OF putchar_safe assms])

lemma write_pictured:
  assumes ok: "term_ok s" and d: "drawn (fbc s)"
  shows "\<exists>s'. flanterm_write_ctx bs s = Some s' \<and> term_ok s' \<and> drawn (fbc s') \<and> (autoflush s' \<longrightarrow> pictured (fbc s'))"
proof -
  from bytes_good [OF ok] obtain s1 where
    s1: "for_each flanterm_putchar bs s = Some s1" "term_ok s1" "picture_same (fbc s) (fbc s1)"
    unfolding good_def by blast
  then have d1: "drawn (fbc s1)" using drawn_same d term_ok_parts(4) by blast
  from flush_pictured [OF s1(2) d1] obtain b where
    b: "flanterm_flush s1 = Some (s1\<lparr>fbc := b\<rparr>)" "term_ok (s1\<lparr>fbc := b\<rparr>)" "drawn b" "pictured b" by blast
  show ?thesis
  proof (cases "autoflush s1")
    case True
    then show ?thesis using s1(1) b by (simp add: flanterm_write_ctx_def)
  next
    case False
    then show ?thesis using s1 d1 by (simp add: flanterm_write_ctx_def)
  qed
qed

section \<open>Text without escape sequences\<close>

text \<open>The parser is between two characters and the character set is the plain one.\<close>

definition ground :: "'v flanterm_context \<Rightarrow> bool" where
  "ground s \<longleftrightarrow> \<not> discard_next s \<and> unicode_remaining s = 0 \<and> \<not> escape s \<and> g_select s = 0 \<and>
     \<not> insert_mode s \<and> charsets s ! current_charset s = Charset_default"

text \<open>The bytes of text, and what one of them does to the abstract terminal.\<close>

definition text_bytes :: "u8 set" where
  "text_bytes = {c. 0x20 \<le> c \<and> c \<le> 0x7E} \<union> {8, 9, 10, 13}"

definition text_newline :: "bool \<Rightarrow> text_screen \<Rightarrow> text_screen" where
  "text_newline crlf t = (let (x, y) = text_pos t; x' = (if crlf then 0 else x)
     in if y = tx_lower t - 1 then text_goto x' y (text_scroll t) else text_goto x' (y + 1) t)"

definition text_tab :: "nat \<Rightarrow> text_screen \<Rightarrow> text_screen" where
  "text_tab tab t = (let (x, y) = text_pos t
     in if tx_cols t \<le> x div tab + 1 then text_goto (tx_cols t - 1) y t
        else text_goto ((x div tab + 1) * tab) y t)"

definition text_back :: "text_screen \<Rightarrow> text_screen" where
  "text_back t = (let (x, y) = text_pos t in text_goto (x - 1) y t)"

definition text_return :: "text_screen \<Rightarrow> text_screen" where
  "text_return t = (let (x, y) = text_pos t in text_goto 0 y t)"

definition text_byte :: "bool \<Rightarrow> nat \<Rightarrow> u8 \<Rightarrow> text_screen \<Rightarrow> text_screen" where
  "text_byte crlf tab c t =
     (if c = 8 then text_back t
      else if c = 9 then text_tab tab t
      else if c = 10 then text_newline crlf t
      else if c = 13 then text_return t
      else text_put (unat c) t)"

text \<open>A step that changes the back end alone, and the text as the reference says.\<close>

definition edits :: "'v flanterm_context \<Rightarrow> 'v flanterm_context option \<Rightarrow> text_screen \<Rightarrow> bool" where
  "edits s r t \<longleftrightarrow> (\<exists>b. r = Some (s\<lparr>fbc := b\<rparr>) \<and> screen_ok b \<and> fixed (fbc s) b \<and> text_of b = t)"

lemma edits_on_fb:
  assumes ok: "term_ok s" and ref: "refines_text f g"
    and t: "\<And>t. text_ok t \<Longrightarrow> region_ok t \<Longrightarrow> text_ok (g t)"
  shows "edits s (on_fb f s) (g (text_of (fbc s)))"
proof -
  have b: "fb_ok (fbc s)" "margins_ok (fbc s)" "text_ok (text_of (fbc s))"
    using ok by (simp_all add: term_ok_def screen_ok_def)
  moreover from this have "region_ok (text_of (fbc s))" by (simp add: region_ok_def margins_ok_def)
  moreover obtain b' where "f (fbc s) = Some b'" "fb_ok b'" "fixed (fbc s) b'" "margins_ok b'"
      "text_of b' = g (text_of (fbc s))"
    by (rule refines_textE [OF ref b(1,2)])
  ultimately show ?thesis using t by (auto simp: edits_def on_fb_def screen_ok_def)
qed

lemma edits_bind:
  assumes "edits s r t" and "term_ok s"
    and "\<And>b. term_ok (s\<lparr>fbc := b\<rparr>) \<Longrightarrow> text_of b = t \<Longrightarrow> edits (s\<lparr>fbc := b\<rparr>) (f (s\<lparr>fbc := b\<rparr>)) (h t)"
  shows "edits s (do { s1 \<leftarrow> r; f s1 }) (h t)"
proof -
  from assms(1) obtain b where b: "r = Some (s\<lparr>fbc := b\<rparr>)" "screen_ok b" "fixed (fbc s) b" "text_of b = t"
    by (auto simp: edits_def)
  from assms(3) [OF term_ok_fbc [OF assms(2) b(2)] b(4)] obtain b' where
    "f (s\<lparr>fbc := b\<rparr>) = Some (s\<lparr>fbc := b'\<rparr>)" "screen_ok b'" "fixed b b'" "text_of b' = h t"
    by (auto simp: edits_def)
  then show ?thesis using b by (auto simp: edits_def intro: fixed_trans)
qed

lemma put_edits: "term_ok s \<Longrightarrow> c < 256 \<Longrightarrow> edits s (put c s) (text_put c (text_of (fbc s)))"
  by (rule edits_on_fb [OF _ raw_putchar_refines]) (simp_all add: text_ok_put)

lemma goto_edits: "term_ok s \<Longrightarrow> edits s (goto x y s) (text_goto x y (text_of (fbc s)))"
  by (rule edits_on_fb [OF _ goto_refines]) (simp_all add: text_goto_def)

lemma scroll_edits: "term_ok s \<Longrightarrow> edits s (on_fb flanterm_fb_scroll s) (text_scroll (text_of (fbc s)))"
  by (rule edits_on_fb [OF _ scroll_refines]) (simp_all add: text_ok_scroll)

lemma edits_if:
  "(p \<Longrightarrow> edits s r t) \<Longrightarrow> (\<not> p \<Longrightarrow> edits s r' t') \<Longrightarrow> edits s (if p then r else r') (if p then t else t')"
  by simp

lemma line_feed_edits:
  fixes s :: "('w::len) word flanterm_context"
  assumes ok: "term_ok s"
  shows "edits s (line_feed x y s) (if y = tx_lower (text_of (fbc s)) - 1 then text_goto x y (text_scroll (text_of (fbc s)))
     else text_goto x (y + 1) (text_of (fbc s)))"
proof -
  have "0 < scroll_bottom_margin (fbc s)" "scroll_bottom_margin (fbc s) < 2 ^ 64"
    using term_ok_parts(2,3) [OF ok] fb_ok_pos [of "fbc s"] by (auto simp: margins_ok_def)
  then have "size_sub (scroll_bottom_margin (fbc s)) 1 = scroll_bottom_margin (fbc s) - 1" by simp
  moreover have "edits s (do { s1 \<leftarrow> on_fb flanterm_fb_scroll s; goto x y s1 }) (text_goto x y (text_scroll (text_of (fbc s))))"
  proof (rule edits_bind [where h = "text_goto x y", OF scroll_edits [OF ok] ok])
    fix b assume b: "term_ok (s\<lparr>fbc := b\<rparr>)" "text_of b = text_scroll (text_of (fbc s))"
    show "edits (s\<lparr>fbc := b\<rparr>) (goto x y (s\<lparr>fbc := b\<rparr>)) (text_goto x y (text_scroll (text_of (fbc s))))"
      using goto_edits [OF b(1), of x y] b(2) by simp
  qed
  ultimately show ?thesis
    unfolding line_feed_def text_of_simps by (simp only:) (rule edits_if, assumption, rule goto_edits [OF ok])
qed

text \<open>The backspace in the first column asks for the column \<open>SIZE_MAX\<close>, which is clamped to 0.\<close>

lemma text_goto_back:
  assumes "0 < tx_cols t" and "tx_cols t < 2 ^ 31" and "x < tx_cols t"
  shows "text_goto (size_sub x 1) y t = text_goto (x - 1) y t"
proof (cases "x = 0")
  case True
  then show ?thesis using assms by (simp add: text_goto_def clamp_pos_def size_sub_def negative_int_def)
next
  case False
  then show ?thesis using assms by simp
qed

abbreviation crlf :: "('w::len) word flanterm_context \<Rightarrow> bool" where
  "crlf s \<equiv> oob_output s AND oob_onlcr s \<noteq> 0"

abbreviation text_step :: "('w::len) word flanterm_context \<Rightarrow> u8 \<Rightarrow> text_screen \<Rightarrow> text_screen" where
  "text_step s \<equiv> text_byte (crlf s) (tab_size s)"

lemma plain_byte_edits:
  fixes s :: "('w::len) word flanterm_context"
  assumes ok: "term_ok s" and g: "ground s" and c: "c \<in> text_bytes"
  shows "edits s (plain_byte c s) (text_step s c (text_of (fbc s)))"
proof -
  obtain x y where xy: "flanterm_fb_get_cursor_pos (fbc s) = (x, y)" by fastforce
  have pos: "text_pos (text_of (fbc s)) = (x, y)"
    using get_pos_text [OF term_ok_parts(2) [OF ok]] xy by simp
  have sz: "0 < cols (fbc s)" "cols (fbc s) < 2 ^ 31"
    using fb_ok_pos [OF term_ok_parts(2) [OF ok]] by simp_all
  have x: "x < cols (fbc s)" using pos sz by (auto simp: text_pos_def)
  have tab: "tab_size s \<noteq> 0" and cs: "current_charset s < length (charsets s)"
    using ok by (simp_all add: term_ok_def parser_ok_def)
  have plain: "rd (charsets s) (current_charset s) = Some Charset_default"
    using g cs by (simp add: ground_def)
  have left: "text_goto (size_sub x 1) y (text_of (fbc s)) = text_goto (x - 1) y (text_of (fbc s))"
    using sz x by (intro text_goto_back) simp_all
  have last: "size_sub (cols (fbc s)) 1 = cols (fbc s) - 1" using sz by simp
  consider (bs) "c = 8" | (ht) "c = 9" | (nl) "c = 10" | (cr) "c = 13" | (glyph) "0x20 \<le> c" "c \<le> 0x7E"
    using c by (auto simp: text_bytes_def)
  then show ?thesis
  proof cases
    case bs
    then show ?thesis using goto_edits [OF ok, of "size_sub x 1" y] left
      by (simp add: plain_byte_def text_byte_def text_back_def xy pos)
  next
    case ht
    have "edits s (tab_stop x y s) (text_tab (tab_size s) (text_of (fbc s)))"
      unfolding tab_stop_def text_tab_def pos Let_def prod.case last text_of_simps
      using tab by (simp only: if_False) (rule edits_if; rule goto_edits [OF ok])
    with ht show ?thesis by (simp add: plain_byte_def text_byte_def xy)
  next
    case nl
    have "edits s (line_feed (if crlf s then 0 else x) y s) (text_newline (crlf s) (text_of (fbc s)))"
      using line_feed_edits [OF ok, of "if crlf s then 0 else x" y] by (simp only: text_newline_def pos prod.case Let_def)
    with nl show ?thesis by (simp add: plain_byte_def text_byte_def xy)
  next
    case cr
    then show ?thesis using goto_edits [OF ok, of 0 y]
      by (simp add: plain_byte_def text_byte_def text_return_def xy pos)
  next
    case glyph
    then have other: "c \<noteq> 0" "c \<noteq> 0x7F" "c \<noteq> 0x1B" "c \<noteq> 9" "c \<noteq> 0x0B" "c \<noteq> 0x0C" "c \<noteq> 10" "c \<noteq> 8" "c \<noteq> 13"
      "c \<noteq> 7" "c \<noteq> 14" "c \<noteq> 15"
      by auto
    have "print_byte x y c s = put (unat c) s"
      using g glyph by (simp add: print_byte_def plain ground_def)
    moreover have "unat c < 256" using unsigned_less [of c] by simp
    ultimately show ?thesis
      using put_edits [OF ok, of "unat c"] other by (simp add: plain_byte_def text_byte_def xy)
  qed
qed

lemma putchar_edits:
  fixes s :: "('w::len) word flanterm_context"
  assumes ok: "term_ok s" and g: "ground s" and c: "c \<in> text_bytes"
  shows "edits s (flanterm_putchar c s) (text_step s c (text_of (fbc s)))"
proof -
  have "c \<noteq> 0x18" "c \<noteq> 0x1A" "utf8_lead c = None"
    using c by (auto simp: text_bytes_def utf8_lead_def word_le_nat_alt)
  then have "flanterm_putchar c s = plain_byte c s"
    using g by (simp add: flanterm_putchar_def start_byte_def ground_def)
  then show ?thesis using plain_byte_edits [OF ok g c] by simp
qed

lemma text_edits:
  fixes s :: "('w::len) word flanterm_context"
  assumes "term_ok s" and "ground s" and "set bs \<subseteq> text_bytes"
  shows "edits s (for_each flanterm_putchar bs s) (fold (text_step s) bs (text_of (fbc s)))"
  using assms
proof (induction bs arbitrary: s)
  case Nil
  then show ?case by (auto simp: edits_def term_ok_def intro!: exI [of _ "fbc s"])
next
  case (Cons c bs)
  show ?case
    unfolding for_each.simps fold_simps(2)
  proof (rule edits_bind [where h = "fold (text_step s) bs"])
    show "edits s (flanterm_putchar c s) (text_step s c (text_of (fbc s)))"
      using Cons.prems by (intro putchar_edits) simp_all
    show "term_ok s" by (rule Cons.prems)
    fix b assume "term_ok (s\<lparr>fbc := b\<rparr>)" "text_of b = text_step s c (text_of (fbc s))"
    then show "edits (s\<lparr>fbc := b\<rparr>) (for_each flanterm_putchar bs (s\<lparr>fbc := b\<rparr>))
        (fold (text_step s) bs (text_step s c (text_of (fbc s))))"
      using Cons.IH [of "s\<lparr>fbc := b\<rparr>"] Cons.prems by (simp add: ground_def)
  qed
qed

end
