(* ===== verification/FbInitCorrect.thy ===== *)
theory FbInitCorrect
  imports FbInit FlantermWrite
begin

text \<open>
  Correctness of the start of the back end: the font is expanded as the VGA shows it, the first
  refresh paints a blank screen with its cursor, the context satisfies the invariant of the
  terminal, and a context in the pool always fits in it.
\<close>

section \<open>The refresh of a screen with nothing queued\<close>

lemma repainted_trans: "repainted s t \<Longrightarrow> repainted t u \<Longrightarrow> repainted s u"
  by (auto simp: repainted_def)

lemma repainted_refl: "repainted s s"
  by (auto simp: repainted_def intro!: exI [of _ "framebuffer (display s)"])

lemma repainted_canvas:
  assumes "repainted s t"
  shows "canvas (display t) = canvas (display s)" "width (display t) = width (display s)"
    "height (display t) = height (display s)" "pitch (display t) = pitch (display s)"
  using assms by (auto simp: repainted_def)

lemma refresh_background:
  assumes ok: "display_ok s"
  shows "\<exists>s'. for_each (\<lambda>y s. for_each (refresh_pixel y) [0..<width (display s)] s) [0..<height (display s)] s = Some s'
    \<and> repainted s s'"
proof -
  note d = ok [unfolded display_ok_def Let_def]
  let ?w = "width (display s)" and ?h = "height (display s)"
  have pixel: "\<exists>t'. refresh_pixel y x t = Some t' \<and> repainted s t'"
    if "x < ?w" "y < ?h" "repainted s t" for x y t
  proof -
    have "y * stride (display s) \<le> (?h - 1) * stride (display s)" using that(2) by (intro mult_le_mono1) simp
    then have "y * stride (display s) + x < length (framebuffer (display s))" using d that(1) by linarith
    then have i: "y * stride (display t) + x < length (framebuffer (display t))"
      using repainted_simps(21,24) [OF that(3)] by simp
    have "\<exists>v. (case canvas (display t) of None \<Rightarrow> Some (default_bg (palette t)) | Some p \<Rightarrow> rd p (y * width (display t) + x)) = Some v"
    proof (cases "canvas (display s)")
      case (Some p)
      then have "y * ?w + x < length p" using d cell_less [OF that(1,2)] by simp
      then show ?thesis using Some repainted_canvas [OF that(3)] by simp
    qed (simp add: repainted_canvas [OF that(3)])
    then obtain v where v: "(case canvas (display t) of None \<Rightarrow> Some (default_bg (palette t)) | Some p \<Rightarrow> rd p (y * width (display t) + x)) = Some v" ..
    have "repainted t (t\<lparr>display := (display t)\<lparr>framebuffer := (framebuffer (display t))[y * stride (display t) + x := v]\<rparr>\<rparr>)"
      unfolding repainted_def
      by (rule exI [of _ "(framebuffer (display t))[y * stride (display t) + x := v]"]) simp
    with that(3) i v show ?thesis
      unfolding refresh_pixel_def Let_def v bind.bind_lunit wr_Some [OF i] by (blast intro: repainted_trans)
  qed
  have line: "\<exists>t'. for_each (refresh_pixel y) [0..<width (display t)] t = Some t' \<and> repainted s t'"
    if "y < ?h" "repainted s t" for y t
    unfolding repainted_canvas(2) [OF that(2)]
    by (rule for_range [where I = "\<lambda>_. repainted s"]) (use pixel that in auto)
  show ?thesis
    by (rule for_range [where I = "\<lambda>_. repainted s"]) (use line in \<open>auto intro: repainted_refl\<close>)
qed

lemma refresh_cells:
  assumes ok: "display_ok s" and len: "length (grid s) = rows s * cols s" and c: "\<forall>g\<in>set (grid s). ch_c g < 256"
  shows "\<exists>s'. for_each (\<lambda>i s. do { g \<leftarrow> rd (grid s) i; plot_char g (i mod cols s) (i div cols s) s })
      [0..<rows s * cols s] s = Some s' \<and> repainted s s' \<and> cells_drawn {} s'"
proof -
  let ?n = "rows s * cols s"
  let ?I = "\<lambda>i t. repainted s t \<and> (\<forall>j<i. cell_shows t (j mod cols s) (j div cols s) (grid s ! j))"
  have "\<exists>s'. for_each (\<lambda>i s. do { g \<leftarrow> rd (grid s) i; plot_char g (i mod cols s) (i div cols s) s }) [0..<?n] s = Some s' \<and> ?I ?n s'"
  proof (rule for_range [where I = ?I])
    fix i t assume i: "i < ?n" and I: "?I i t"
    have pos: "0 < cols s" using i by (cases "cols s") simp_all
    have xy: "j mod cols s < cols s" "j div cols s < rows s" if "j < ?n" for j
      using that pos by (simp_all add: less_mult_imp_div_less)
    note r = repainted_simps [OF conjunct1 [OF I]]
    have "ch_c (grid s ! i) < 256" using c i len by simp
    then obtain t' where t': "plot_char (grid s ! i) (i mod cols s) (i div cols s) t = Some t'" "repainted t t'"
        "cell_shows t' (i mod cols s) (i div cols s) (grid s ! i)"
        "\<And>x y c. x < cols s \<Longrightarrow> y < rows s \<Longrightarrow> (x, y) \<noteq> (i mod cols s, i div cols s) \<Longrightarrow> cell_shows t x y c \<Longrightarrow> cell_shows t' x y c"
      using plot_char_shows [of t "grid s ! i" "i mod cols s" "i div cols s"] ok xy [OF i] unfolding r by blast
    have "cell_shows t' (j mod cols s) (j div cols s) (grid s ! j)" if "j < Suc i" for j
    proof (cases "j = i")
      case False
      then have j: "j < i" "j < ?n" using that i by simp_all
      have "(j mod cols s, j div cols s) \<noteq> (i mod cols s, i div cols s)"
        using False by (metis div_mult_mod_eq prod.inject)
      then show ?thesis using t'(4) [OF xy [OF j(2)]] I j(1) by blast
    qed (simp add: t'(3))
    then have "?I (Suc i) t'" using I t'(2) repainted_trans by blast
    moreover have "rd (grid t) i = Some (grid s ! i)" using r i len by simp
    ultimately show "\<exists>s'. (do { g \<leftarrow> rd (grid t) i; plot_char g (i mod cols t) (i div cols t) t }) = Some s' \<and> ?I (Suc i) s'"
      using t'(1) r by simp
  qed (simp_all add: repainted_refl)
  then obtain s' where s': "for_each (\<lambda>i s. do { g \<leftarrow> rd (grid s) i; plot_char g (i mod cols s) (i div cols s) s }) [0..<?n] s = Some s'"
    "repainted s s'" "\<And>j. j < ?n \<Longrightarrow> cell_shows s' (j mod cols s) (j div cols s) (grid s ! j)" by blast
  have "cell_shows s' x y (grid s ! (y * cols s + x))" if "x < cols s" "y < rows s" for x y
    using s'(3) [OF cell_less [OF that]] that by simp
  then have "cells_drawn {} s'" using repainted_simps [OF s'(2)] by (simp add: cells_drawn_def)
  then show ?thesis using s' by blast
qed

lemma refresh_blank:
  assumes ok: "display_ok s" and fb: "fb_ok s" and b: "bytes_ok s" and q: "queue_i s = 0"
    and old: "old_cursor_x s = cursor_x s" "old_cursor_y s = cursor_y s"
  shows "\<exists>s'. flanterm_fb_full_refresh s = Some s' \<and> repainted s s' \<and> drawn s' \<and> pictured s'"
proof -
  from refresh_background [OF ok] obtain s1 where
    s1: "for_each (\<lambda>y s. for_each (refresh_pixel y) [0..<width (display s)] s) [0..<height (display s)] s = Some s1"
      "repainted s s1" by blast
  note r1 = repainted_simps [OF s1(2)]
  have len: "length (grid s1) = rows s1 * cols s1" "length (cell_map s1) = rows s1 * cols s1"
    using fb r1 by (simp_all add: fb_ok_def arrays_ok_def)
  have bytes: "\<forall>g\<in>set (grid s1). ch_c g < 256" using b r1 by (auto simp: bytes_ok_def)
  have "display_ok s1" using ok r1 by simp
  from refresh_cells [OF this len(1) bytes] obtain s2 where
    s2: "for_each (\<lambda>i s. do { g \<leftarrow> rd (grid s) i; plot_char g (i mod cols s) (i div cols s) s }) [0..<rows s1 * cols s1] s1 = Some s2"
      "repainted s1 s2" "cells_drawn {} s2" by blast
  note r2 = repainted_simps [OF s2(2)]
  have rr: "repainted s s2" by (rule repainted_trans [OF s1(2) s2(2)])
  note r = repainted_simps [OF rr]
  have none: "cell_map s2 ! i = None" if "i < rows s * cols s" for i
    using fb q that r by (cases "cell_map s ! i") (auto simp: fb_ok_def queue_linked_def)
  have shown: "shown s2 ! i = grid s2 ! i" if "i < rows s * cols s" for i
    using nth_shown [of i s2] none that r by simp
  have text_grid: "text_cell s2 x y = grid s2 ! (y * cols s2 + x)" if "x < cols s2" "y < rows s2" for x y
    by (rule shown) (use cell_less [OF that] in \<open>simp only: r(1,2)\<close>)
  have run: "flanterm_fb_full_refresh s = (if cursor_enabled s2 then draw_cursor s2 else Some s2)"
    unfolding flanterm_fb_full_refresh_def s1(1) using s2(1) by simp
  have ok2: "display_ok s2" "bytes_ok s2" using ok b r by (simp_all add: bytes_ok_def)
  show ?thesis
  proof (cases "cursor_enabled s2 \<and> cursor_x s2 < cols s2 \<and> cursor_y s2 < rows s2")
    case False
    then have "(if cursor_enabled s2 then draw_cursor s2 else Some s2) = Some s2"
      by (auto simp: draw_cursor_def)
    moreover have "drawn s2" using s2(3) ok2 by (simp add: drawn_def cells_drawn_def)
    moreover have "pictured s2"
      unfolding pictured_def
    proof (intro allI impI)
      fix x y assume xy: "x < cols s2" "y < rows s2"
      then have off: "\<not> (cursor_enabled s2 \<and> (x, y) = (cursor_x s2, cursor_y s2))" using False by blast
      have "text_cell s2 x y = grid s2 ! (y * cols s2 + x)" using text_grid [OF xy] .
      then show "cell_shows s2 x y (if cursor_enabled s2 \<and> (x, y) = (cursor_x s2, cursor_y s2) then inverted (text_cell s2 x y) else text_cell s2 x y)"
        unfolding if_not_P [OF off] using s2(3) xy by (simp add: cells_drawn_def)
    qed
    ultimately show ?thesis using run rr by simp
  next
    case True
    let ?x = "cursor_x s2" and ?y = "cursor_y s2"
    let ?i = "?x + ?y * cols s2"
    have i: "?i < rows s * cols s" using cell_less [of ?x "cols s2" ?y "rows s2"] True r by (simp add: add.commute)
    have "ch_c (grid s2 ! ?i) < 256" using bytes i r2 r1 len by simp
    then have byte: "ch_c (inverted (grid s2 ! ?i)) < 256" by (simp add: inverted_def)
    have inside: "?x < cols s2" "?y < rows s2" using True by simp_all
    from plot_char_shows [OF ok2(1) byte inside] obtain s3 where
      s3: "plot_char (inverted (grid s2 ! ?i)) ?x ?y s2 = Some s3" "repainted s2 s3"
        "cell_shows s3 ?x ?y (inverted (grid s2 ! ?i))"
        "\<And>x y c. x < cols s2 \<Longrightarrow> y < rows s2 \<Longrightarrow> (x, y) \<noteq> (?x, ?y) \<Longrightarrow> cell_shows s2 x y c \<Longrightarrow> cell_shows s3 x y c"
      by blast
    note r3 = repainted_simps [OF s3(2)]
    have i2: "?i < length (cell_map s2)" "?i < length (grid s2)"
      using i len unfolding r(4,7) r1(1,2,4,7) by simp_all
    have "rd (cell_map s2) ?i = Some None" unfolding rd_Some [OF i2(1)] none [OF i] ..
    moreover from this have "pending_char ?i s2 = Some (grid s2 ! ?i)"
      using rd_Some [OF i2(2)] by (simp add: pending_char_def)
    ultimately have "draw_cursor s2 = Some s3"
      using True s3(1) by (simp add: draw_cursor_def inverted_def)
    then have "flanterm_fb_full_refresh s = Some s3" using run True by simp
    moreover have "repainted s s3" by (rule repainted_trans [OF rr s3(2)])
    moreover have "cells_drawn {(?x, ?y)} s3" using s2(3) s3(4) r3 by (auto simp: cells_drawn_def)
    then have "drawn s3" using ok2 r3 r old by (simp add: drawn_def bytes_ok_def)
    moreover have "pictured s3"
      unfolding pictured_def r3
    proof (intro allI impI)
      fix x y assume xy: "x < cols s2" "y < rows s2"
      show "cell_shows s3 x y (if cursor_enabled s2 \<and> (x, y) = (?x, ?y) then inverted (text_cell s2 x y) else text_cell s2 x y)"
      proof (cases "(x, y) = (?x, ?y)")
        case True' : True
        then have at: "cursor_enabled s2 \<and> (x, y) = (?x, ?y)" using True by simp
        have "text_cell s2 x y = grid s2 ! ?i" using text_grid [OF xy] True' by (simp add: add.commute)
        then show ?thesis unfolding if_P [OF at] using s3(3) True' by simp
      next
        case False
        then have off: "\<not> (cursor_enabled s2 \<and> (x, y) = (?x, ?y))" by simp
        show ?thesis
          unfolding if_not_P [OF off] text_grid [OF xy]
          using s3(4) [OF xy False] s2(3) xy by (simp add: cells_drawn_def)
      qed
    qed
    ultimately show ?thesis by blast
  qed
qed

section \<open>The font\<close>

text \<open>The dot of a glyph: the columns behind the eighth repeat it in the line graphics only.\<close>

definition font_dot :: "bytes \<Rightarrow> nat \<Rightarrow> nat \<Rightarrow> nat \<Rightarrow> nat \<Rightarrow> bool" where
  "font_dot bits fh i y x = (let b = bits ! (i * fh + y)
     in if x < 8 then b AND drop_bit x 0x80 \<noteq> 0 else 0xC0 \<le> i \<and> i \<le> 0xDF \<and> b AND 1 \<noteq> 0)"

lemma expand_line_eq:
  assumes "i * fh + y < length bits" and "8 \<le> fw"
  shows "expand_line bits fh fw i y f = for_each (\<lambda>x f. wr f (i * fh * fw + y * fw + x) (font_dot bits fh i y x)) [0..<fw] f"
proof -
  have "[0..<fw] = [0..<8] @ [8..<fw]" using upt_add_eq_append [of 0 8 "fw - 8"] assms(2) by simp
  moreover have "for_each (\<lambda>x f. do { b \<leftarrow> rd bits (i * fh + y); wr f (i * fh * fw + y * fw + x) (b AND drop_bit x 0x80 \<noteq> 0) }) [0..<8] g
      = for_each (\<lambda>x f. wr f (i * fh * fw + y * fw + x) (font_dot bits fh i y x)) [0..<8] g" for g
    using assms(1) by (intro for_each_same) (simp add: font_dot_def)
  moreover have "for_each (\<lambda>x f. do { b \<leftarrow> rd bits (i * fh + y); wr f (i * fh * fw + y * fw + x) (0xC0 \<le> i \<and> i \<le> 0xDF \<and> b AND 1 \<noteq> 0) }) [8..<fw] g
      = for_each (\<lambda>x f. wr f (i * fh * fw + y * fw + x) (font_dot bits fh i y x)) [8..<fw] g" for g
    using assms(1) by (intro for_each_same) (simp add: font_dot_def)
  ultimately show ?thesis by (simp add: expand_line_def for_each_append)
qed

lemma expand_glyph_eq:
  assumes "i < glyphs" and "glyphs * fh \<le> length bits" and "8 \<le> fw"
  shows "for_each (expand_line bits fh fw i) [0..<fh] f
     = for_each (\<lambda>k f. wr f (fh * fw * i + k) (font_dot bits fh i (k div fw) (k mod fw))) [0..<fh * fw] f"
proof -
  have inside: "i * fh + y < length bits" if "y < fh" for y
    using cell_less [OF that assms(1)] assms(2) by linarith
  have "for_each (expand_line bits fh fw i) [0..<fh] f
      = for_each (\<lambda>y. for_each (\<lambda>x. (\<lambda>k f. wr f (fh * fw * i + k) (font_dot bits fh i (k div fw) (k mod fw))) (fw * y + x)) [0..<fw]) [0..<fh] f"
  proof (rule for_each_same)
    fix y g assume "y \<in> set [0..<fh]"
    then have "expand_line bits fh fw i y g = for_each (\<lambda>x f. wr f (i * fh * fw + y * fw + x) (font_dot bits fh i y x)) [0..<fw] g"
      using inside assms(3) by (intro expand_line_eq) simp_all
    also have "\<dots> = for_each (\<lambda>x. (\<lambda>k f. wr f (fh * fw * i + k) (font_dot bits fh i (k div fw) (k mod fw))) (fw * y + x)) [0..<fw] g"
      by (rule for_each_same) (simp add: algebra_simps)
    finally show "expand_line bits fh fw i y g = \<dots>" .
  qed
  also have "\<dots> = for_each (\<lambda>k f. wr f (fh * fw * i + k) (font_dot bits fh i (k div fw) (k mod fw))) [0..<fh * fw] f"
    by (rule nested_range)
  finally show ?thesis .
qed

lemma expand_font_dots:
  assumes bits: "glyphs * fh \<le> length bits" and fw: "8 \<le> fw" and n: "n = glyphs * fh * fw"
  shows "\<exists>f. expand_font glyphs bits fh fw (replicate n False) = Some f \<and> length f = n \<and>
    (\<forall>i<glyphs. \<forall>y<fh. \<forall>x<fw. f ! (i * fh * fw + y * fw + x) = font_dot bits fh i y x)"
proof -
  let ?m = "fh * fw"
  let ?v = "\<lambda>j. font_dot bits fh (j div ?m) (j mod ?m div fw) (j mod fw)"
  have "expand_font glyphs bits fh fw g = for_each (\<lambda>i. for_each (\<lambda>k. (\<lambda>j f. wr f (0 + j) (?v j)) (?m * i + k)) [0..<?m]) [0..<glyphs] g" for g
    unfolding expand_font_def
  proof (rule for_each_same)
    fix i h assume "i \<in> set [0..<glyphs]"
    then have "for_each (expand_line bits fh fw i) [0..<fh] h
        = for_each (\<lambda>k f. wr f (?m * i + k) (font_dot bits fh i (k div fw) (k mod fw))) [0..<?m] h"
      using bits fw by (intro expand_glyph_eq) simp_all
    also have "\<dots> = for_each (\<lambda>k. (\<lambda>j f. wr f (0 + j) (?v j)) (?m * i + k)) [0..<?m] h"
    proof (rule for_each_same)
      fix k s assume k: "k \<in> set [0..<?m]"
      have "(?m * i + k) mod fw = k mod fw" by (metis mod_mult_self4 mult.assoc mult.commute)
      moreover have "(?m * i + k) div ?m = i" "(?m * i + k) mod ?m = k"
        using k cell_div [of k ?m i] by (simp_all add: mult.commute)
      ultimately show "wr s (?m * i + k) (font_dot bits fh i (k div fw) (k mod fw)) = wr s (0 + (?m * i + k)) (?v (?m * i + k))"
        by simp
    qed
    finally show "for_each (expand_line bits fh fw i) [0..<fh] h = \<dots>" .
  qed
  then have e: "expand_font glyphs bits fh fw (replicate n False) = for_each (\<lambda>j f. wr f (0 + j) (?v j)) [0..<glyphs * ?m] (replicate n False)"
    unfolding nested_range [of "\<lambda>j f. wr f (0 + j) (?v j)"] .
  have "0 + glyphs * ?m \<le> length (replicate n False)" using n by simp
  from write_line [OF this, of ?v] obtain f where
    f: "expand_font glyphs bits fh fw (replicate n False) = Some f" "length f = n" "\<And>j. j < n \<Longrightarrow> f ! j = ?v j"
    unfolding e [symmetric] using n by auto
  have "f ! (i * fh * fw + y * fw + x) = font_dot bits fh i y x" if "i < glyphs" "y < fh" "x < fw" for i y x
  proof -
    have k: "y * fw + x < ?m" using that(2,3) cell_less by blast
    have "i * ?m + (y * fw + x) < glyphs * ?m" using cell_less [OF k that(1)] .
    then have "f ! (i * ?m + (y * fw + x)) = ?v (i * ?m + (y * fw + x))" using f(3) n by (simp add: mult.assoc)
    moreover have "(i * ?m + (y * fw + x)) mod fw = x" using that(3)
      by (metis mod_less mod_mult_self3 mult.assoc)
    moreover have "(i * ?m + (y * fw + x)) mod ?m = y * fw + x" using k by simp
    moreover have "(i * ?m + (y * fw + x)) div ?m = i" using k by (rule cell_div)
    moreover have "(y * fw + x) div fw = y" using that(3) by (rule cell_div)
    ultimately show ?thesis by (simp add: mult.assoc add.assoc)
  qed
  then show ?thesis using f(1,2) by blast
qed

section \<open>The start\<close>

text \<open>A terminal as the start leaves it: blank, the cursor in the corner, the parser between characters.\<close>

definition blank_text :: "fb_palette \<Rightarrow> nat \<Rightarrow> nat \<Rightarrow> text_screen" where
  "blank_text p c r = \<lparr>tx_cols = c, tx_rows = r, tx_upper = 0, tx_lower = r, tx_scrolls = True,
     tx_fg = default_fg p, tx_bg = 0xFFFFFFFF, tx_x = 0, tx_y = 0,
     tx_cells = replicate (r * c) \<lparr>ch_c = 32, ch_fg = default_fg p, ch_bg = 0xFFFFFFFF\<rparr>\<rparr>"

definition fresh :: "u64 \<Rightarrow> ('w::len) word flanterm_context \<Rightarrow> bool" where
  "fresh onlcr s \<longleftrightarrow> term_ok s \<and> drawn (fbc s) \<and> pictured (fbc s) \<and> ground s \<and> autoflush s \<and>
     \<not> osc s \<and> \<not> dec_private s \<and> \<not> control_sequence s \<and> tab_size s = 8 \<and> oob_output s = onlcr \<and> oob_onlcr s = onlcr \<and> cursor_enabled (fbc s) \<and>
     text_of (fbc s) = blank_text (palette (fbc s)) (cols (fbc s)) (rows (fbc s))"

lemma shown_blank_context:
  "shown (blank_context p d c r) = replicate (r * c) \<lparr>ch_c = 32, ch_fg = default_fg p, ch_bg = 0xFFFFFFFF\<rparr>"
  by (rule nth_equalityI) (simp_all add: nth_shown blank_context_def Let_def shown_def)

lemma blank_context_ok:
  assumes "palette_ok p" and "0 < c" "c < 2 ^ 31" and "0 < r" "r < 2 ^ 31"
  shows "fb_ok (blank_context p d c r)"
  using assms by (simp add: fb_ok_def arrays_ok_def queue_linked_def queue_full_def blank_context_def Let_def)

text \<open>
  Every step of the start ends with \<open>NULL\<close> or with a context of which \<open>Q\<close> holds. The end must be a
  context (\<open>must\<close>) when the memory comes from the pool and the pool has room for it.
\<close>

definition pool_room :: "'h fb_memory \<Rightarrow> nat \<Rightarrow> bool" where
  "pool_room m k \<longleftrightarrow> base_offset_added m \<and> bump_alloc_ptr m + k \<le> FLANTERM_FB_BUMP_ALLOC_POOL_SIZE"

definition round_16 :: "nat \<Rightarrow> nat" where
  "round_16 n = (n + 15) div 16 * 16"

definition starts :: "bool \<Rightarrow> (('w::len) word flanterm_context \<Rightarrow> bool) \<Rightarrow> ('w, 'h) fb_started option \<Rightarrow> bool" where
  "starts must Q res \<longleftrightarrow> (\<exists>x m. res = Some (x, m) \<and> (case x of None \<Rightarrow> \<not> must | Some (s, ctx) \<Rightarrow> Q s))"

lemma bump_alloc_room:
  assumes "pool_room m (round_16 n + k)"
  shows "\<exists>p m'. bump_alloc n m = (Some p, m') \<and> pool_room m' k"
proof -
  have le: "bump_alloc_ptr m + (round_16 n + k) \<le> 873000" and base: "base_offset_added m"
    using assms by (simp_all add: pool_room_def FLANTERM_FB_BUMP_ALLOC_POOL_SIZE_def)
  have n: "n \<le> round_16 n" unfolding round_16_def using div_mult_mod_eq [of "n + 15" 16] by linarith
  have s: "(if n mod 16 \<noteq> 0 then (n + 16) mod 2 ^ 64 div 16 * 16 else n) = round_16 n"
  proof (cases "n mod 16 = 0")
    case True
    have n16: "16 * (n div 16) = n" using div_mult_mod_eq [of n 16] unfolding True by linarith
    have "(n + 15) div 16 = n div 16"
      by (rule div_nat_eqI) (simp_all add: n16 mult.commute [of _ 16])
    then show ?thesis using True div_mult_mod_eq [of n 16] by (simp add: round_16_def)
  next
    case False
    have "(n + 16) mod 2 ^ 64 = n + 16" using le n by simp
    moreover have "(n + 16) div 16 = n div 16 + 1" by simp
    moreover have "(n + 15) div 16 = n div 16 + 1"
    proof -
      obtain q k where q: "n div 16 = q" "n mod 16 = k" "0 < k" "k < 16" using False by simp
      moreover have "n = 16 * q + k" using div_mult_mod_eq [of n 16] unfolding q(1,2) by simp
      ultimately have "16 * (q + 1) \<le> n + 15" "n + 15 < 16 * Suc (q + 1)" by simp_all
      then show ?thesis unfolding q(1) by (rule div_nat_eqI)
    qed
    ultimately show ?thesis using False by (simp add: round_16_def)
  qed
  have "(bump_alloc_ptr m + round_16 n) mod 2 ^ 64 = bump_alloc_ptr m + round_16 n" using le by simp
  then show ?thesis
    using le base unfolding bump_alloc_def Let_def s
    by (simp add: pool_room_def FLANTERM_FB_BUMP_ALLOC_POOL_SIZE_def)
qed

text \<open>The context being set up is in memory until it is released.\<close>

definition alive :: "nat \<Rightarrow> 'h fb_memory \<Rightarrow> bool" where
  "alive ctx m \<longleftrightarrow> contexts m ctx \<noteq> None"

lemma bump_alloc_contexts: "contexts (snd (bump_alloc n m)) = contexts m"
  unfolding bump_alloc_def Let_def by simp

lemma fb_malloc_contexts: "fb_malloc mf n m = (q, m1) \<Longrightarrow> contexts m1 = contexts m"
  using bump_alloc_contexts [of n m] by (auto simp: fb_malloc_def split: option.splits prod.splits)

lemma free_not_null_alive:
  assumes "alive ctx m"
  shows "\<exists>m1. free_not_null free ctx pointer size_of m = Some m1 \<and> alive ctx m1"
  using assms by (auto simp: free_not_null_def free_field_def alive_def)

lemma fb_fail_defined:
  assumes "alive ctx m"
  shows "\<exists>m1. fb_fail z mf ff ctx m = Some m1"
proof (cases ff)
  case (Some free)
  note step = free_not_null_alive [where free = free]
  obtain m1 where 1: "free_not_null free ctx canvas_at canvas_size m = Some m1" "alive ctx m1"
    using step [OF assms] by blast
  obtain m2 where 2: "free_not_null free ctx map_at map_size m1 = Some m2" "alive ctx m2"
    using step [OF 1(2)] by blast
  obtain m3 where 3: "free_not_null free ctx queue_at queue_size m2 = Some m3" "alive ctx m3"
    using step [OF 2(2)] by blast
  obtain m4 where 4: "free_not_null free ctx grid_at grid_size m3 = Some m4" "alive ctx m4"
    using step [OF 3(2)] by blast
  obtain m5 where 5: "free_not_null free ctx font_bool_at font_bool_size m4 = Some m5" "alive ctx m5"
    using step [OF 4(2)] by blast
  obtain m6 where 6: "free_not_null free ctx font_bits font_bits_size m5 = Some m6" "alive ctx m6"
    using step [OF 5(2)] by blast
  show ?thesis
    using 6(2) by (auto simp: fb_fail_def Some 1(1) 2(1) 3(1) 4(1) 5(1) 6(1) free_context_def alive_def)
qed (simp add: fb_fail_def)

lemma starts_need:
  assumes live: "alive ctx m" and room: "must \<Longrightarrow> mf = None \<and> pool_room m (round_16 n + k)"
    and rest: "\<And>m. alive ctx m \<Longrightarrow> (must \<Longrightarrow> pool_room m k) \<Longrightarrow> starts must Q (K m)"
  shows "starts must Q (need z mf ff ctx store n m K)"
proof -
  obtain q m1 where q: "fb_malloc mf n m = (q, m1)" by (cases "fb_malloc mf n m") auto
  obtain c where c: "contexts m1 ctx = Some c" using live fb_malloc_contexts [OF q] by (auto simp: alive_def)
  define m2 where "m2 = m1\<lparr>contexts := (contexts m1)(ctx \<mapsto> store (case q of None \<Rightarrow> 0 | Some p \<Rightarrow> p) n c)\<rparr>"
  have run: "need z mf ff ctx store n m K = (case q of None \<Rightarrow> map_option (Pair None) (fb_fail z mf ff ctx m2) | Some _ \<Rightarrow> K m2)"
    by (simp add: need_def q c m2_def split: option.split)
  have live2: "alive ctx m2" by (simp add: alive_def m2_def)
  show ?thesis
  proof (cases must)
    case True
    from room [OF this] bump_alloc_room obtain p m' where
      b: "mf = None" "bump_alloc n m = (Some p, m')" "pool_room m' k" by blast
    then have "q = Some p" "m1 = m'" using q by (simp_all add: fb_malloc_def)
    moreover have "pool_room m2 k" using b(3) \<open>m1 = m'\<close> by (simp add: m2_def pool_room_def)
    ultimately show ?thesis using rest [OF live2] run by simp
  next
    case False
    obtain m3 where "fb_fail z mf ff ctx m2 = Some m3" using fb_fail_defined [OF live2] by blast
    then show ?thesis using False rest [OF live2] run by (cases q) (simp_all add: starts_def)
  qed
qed

lemma ready_fresh:
  fixes mf :: "'h malloc_fn option"
  assumes p: "palette_ok p" and c: "0 < c" "c < 2 ^ 31" and r: "0 < r" "r < 2 ^ 31" and n: "2 \<le> n"
    and d: "display_ok (blank_context p d c r)"
  shows "\<exists>s m'. (fb_ready mf n onlcr p d c r ctx m :: ('w::len, 'h) fb_started option) = Some (Some (s, ctx), m') \<and>
     fresh onlcr s \<and> cols (fbc s) = c \<and> rows (fbc s) = r \<and> palette (fbc s) = p"
proof -
  let ?b = "blank_context p d c r"
  let ?b1 = "?b\<lparr>cursor_enabled := True, scroll_enabled := True, scroll_top_margin := 0, scroll_bottom_margin := rows ?b\<rparr>"
  let ?s = "flanterm_context_reinit (zero_context n onlcr ?b) :: 'w word flanterm_context"
  have f: "cols ?b = c" "rows ?b = r" "queue_i ?b = 0" "cursor_x ?b = 0" "cursor_y ?b = 0" "old_cursor_x ?b = 0"
    "old_cursor_y ?b = 0" "text_fg ?b = default_fg p" "text_bg ?b = 0xFFFFFFFF" "palette ?b = p"
    "grid ?b = replicate (r * c) \<lparr>ch_c = 32, ch_fg = default_fg p, ch_bg = 0xFFFFFFFF\<rparr>"
    by (simp_all add: blank_context_def Let_def)
  have fb: "fbc ?s = ?b1" by (simp add: flanterm_context_reinit_def zero_context_def)
  have ok1: "fb_ok ?b1" using blank_context_ok [OF p c r] by simp
  have "display_ok ?b1" using d by (simp add: display_ok_def)
  moreover have "bytes_ok ?b1" using shown_blank_context by (auto simp: bytes_ok_def f)
  ultimately obtain b2 where b2: "flanterm_fb_full_refresh ?b1 = Some b2" "repainted ?b1 b2" "drawn b2" "pictured b2"
    using refresh_blank [OF _ ok1] f by auto
  note r2 = repainted_simps [OF b2(2)]
  have tx: "text_of b2 = blank_text p c r"
    unfolding r2 by (simp add: text_of_def blank_text_def f shown_blank_context)
  have "screen_ok b2"
    unfolding screen_ok_def tx using ok1 r2(15,16) r
    by (auto simp: margins_ok_def f text_ok_def blank_text_def)
  then have "term_ok (?s\<lparr>fbc := b2\<rparr>)"
    using n by (simp add: term_ok_def parser_ok_def flanterm_context_reinit_def zero_context_def)
  moreover have "ground (?s\<lparr>fbc := b2\<rparr>)"
    by (simp add: ground_def flanterm_context_reinit_def zero_context_def)
  moreover have "cols b2 = c" "rows b2 = r" "palette b2 = p" "cursor_enabled b2" using r2 f by simp_all
  ultimately have "fresh onlcr (?s\<lparr>fbc := b2\<rparr>)"
    using b2(3,4) tx by (simp add: fresh_def flanterm_context_reinit_def zero_context_def)
  moreover have "flanterm_full_refresh ?s = Some (?s\<lparr>fbc := b2\<rparr>)"
    unfolding flanterm_full_refresh_def on_fb_def fb b2(1) by simp
  ultimately show ?thesis
    using \<open>cols b2 = c\<close> \<open>rows b2 = r\<close> \<open>palette b2 = p\<close>
    unfolding fb_ready_def by (intro exI [of _ "?s\<lparr>fbc := b2\<rparr>"]) simp
qed

text \<open>The palette.\<close>

definition colours_ok :: "fb_args \<Rightarrow> bool" where
  "colours_ok a \<longleftrightarrow> a_red_mask_shift a + (red_mask_size a - 8) < 32 \<and>
     a_green_mask_shift a + (green_mask_size a - 8) < 32 \<and> a_blue_mask_shift a + (blue_mask_size a - 8) < 32 \<and>
     (\<forall>cs\<in>set_option (a_ansi_colours a) \<union> set_option (a_ansi_bright_colours a). 8 \<le> length cs)"

lemma convert_total:
  "red_mask_shift p < 32 \<Longrightarrow> green_mask_shift p < 32 \<Longrightarrow> blue_mask_shift p < 32 \<Longrightarrow> \<exists>v. convert_colour c p = Some v"
  by (simp add: convert_colour_def Let_def)

lemma convert_all_total:
  assumes "red_mask_shift p < 32" "green_mask_shift p < 32" "blue_mask_shift p < 32"
  shows "\<exists>vs. convert_all cs p = Some vs \<and> length vs = length cs"
  using assms
proof (induction cs)
  case Nil
  then show ?case by (simp add: convert_all_def)
next
  case (Cons c cs)
  then obtain vs where "convert_all cs p = Some vs" "length vs = length cs" by blast
  moreover obtain v where "convert_colour c p = Some v" using convert_total Cons.prems by blast
  ultimately show ?case by (simp add: convert_all_def)
qed

lemma palette_init_ok:
  assumes "colours_ok a"
  shows "\<exists>p. fb_palette_init a = Some p \<and> palette_ok p"
proof -
  define p where "p = \<lparr>red_mask_shift = a_red_mask_shift a + (red_mask_size a - 8),
     green_mask_shift = a_green_mask_shift a + (green_mask_size a - 8),
     blue_mask_shift = a_blue_mask_shift a + (blue_mask_size a - 8),
     ansi_colours = [], ansi_bright_colours = [],
     default_bg = 0, default_fg = 0, default_bg_bright = 0, default_fg_bright = 0\<rparr>"
  have sh: "red_mask_shift p < 32" "green_mask_shift p < 32" "blue_mask_shift p < 32"
    using assms by (simp_all add: colours_ok_def p_def)
  obtain ansi where ansi: "(case a_ansi_colours a of Some cs \<Rightarrow> first_8 cs
      | None \<Rightarrow> Some [0, 0xAA0000, 0xAA00, 0xAA5500, 0xAA, 0xAA00AA, 0xAAAA, 0xAAAAAA]) = Some ansi" "length ansi = 8"
    using assms by (cases "a_ansi_colours a") (auto simp: colours_ok_def first_8_def)
  obtain bright where bright: "(case a_ansi_bright_colours a of Some cs \<Rightarrow> first_8 cs
      | None \<Rightarrow> Some [0x555555, 0xFF5555, 0x55FF55, 0xFFFF55, 0x5555FF, 0xFF55FF, 0x55FFFF, 0xFFFFFF]) = Some bright" "length bright = 8"
    using assms by (cases "a_ansi_bright_colours a") (auto simp: colours_ok_def first_8_def)
  obtain ansi1 bright1 where conv: "convert_all ansi p = Some ansi1" "length ansi1 = 8"
      "convert_all bright p = Some bright1" "length bright1 = 8"
    using convert_all_total [OF sh] ansi(2) bright(2) by metis
  note tot = convert_total [OF sh]
  have "\<exists>bg. (case a_default_bg a of Some c \<Rightarrow> convert_colour c p | None \<Rightarrow> Some 0) = Some bg"
    using tot by (auto split: option.split)
  then obtain bg where bg: "(case a_default_bg a of Some c \<Rightarrow> convert_colour c p | None \<Rightarrow> Some 0) = Some bg" ..
  obtain fg where fg: "convert_colour (case a_default_fg a of Some c \<Rightarrow> c | None \<Rightarrow> 0xAAAAAA) p = Some fg" using tot by blast
  obtain bgb where bgb: "convert_colour (case a_default_bg_bright a of Some c \<Rightarrow> c | None \<Rightarrow> 0x555555) p = Some bgb" using tot by blast
  obtain fgb where fgb: "convert_colour (case a_default_fg_bright a of Some c \<Rightarrow> c | None \<Rightarrow> 0xFFFFFF) p = Some fgb" using tot by blast
  have "fb_palette_init a = Some (p\<lparr>ansi_colours := ansi1, ansi_bright_colours := bright1, default_bg := bg,
      default_fg := fg, default_bg_bright := bgb, default_fg_bright := fgb\<rparr>)"
    unfolding fb_palette_init_def p_def [symmetric] Let_def ansi(1) bright(1) bind.bind_lunit conv bg fg bgb fgb ..
  then show ?thesis using sh conv by (simp add: palette_ok_def)
qed

text \<open>The layout.\<close>

definition cell_size :: "fb_args \<Rightarrow> nat \<times> nat" where
  "cell_size a = (case a_font a of None \<Rightarrow> (9, 16) | Some f \<Rightarrow> (8 + font_spacing a, a_font_height a))"

definition font_fits :: "fb_args \<Rightarrow> bool" where
  "font_fits a \<longleftrightarrow> (case a_font a of None \<Rightarrow> True
     | Some f \<Rightarrow> a_font_width a = 8 \<and> 0 < a_font_height a \<and> a_font_height a \<le> 256 \<and>
                256 * a_font_height a \<le> length f \<and> font_spacing a < 256)"

definition window_fits :: "nat \<times> nat \<Rightarrow> fb_args \<Rightarrow> bool" where
  "window_fits sc a \<longleftrightarrow> 0 < fst sc \<and> 0 < snd sc \<and> a_width a < 2 ^ 16 \<and> a_height a < 2 ^ 16 \<and>
     2 * margin a + fst (cell_size a) * fst sc \<le> a_width a \<and>
     2 * margin a + snd (cell_size a) * snd sc \<le> a_height a \<and>
     a_width a \<le> a_pitch a div 4 \<and> (a_height a - 1) * (a_pitch a div 4) + a_width a \<le> length (a_framebuffer a) \<and>
     (\<forall>p\<in>set_option (a_canvas a). a_width a * a_height a \<le> length p)"

definition fb_args_ok :: "fb_sizes \<Rightarrow> nat \<times> nat \<Rightarrow> fb_args \<Rightarrow> bool" where
  "fb_args_ok z sc a \<longleftrightarrow> font_glyphs z = 256 \<and> sizeof_fb_char z < 2 ^ 32 \<and> sizeof_queue_item z < 2 ^ 32 \<and>
     colours_ok a \<and> font_fits a \<and> window_fits sc a"

lemma display_ok_blank:
  "display_ok (blank_context p d c r) \<longleftrightarrow>
     0 < font_scale_x d \<and> 0 < font_scale_y d \<and> 0 < font_width d \<and> 0 < font_height d \<and> font_height d \<le> 256 \<and>
     glyph_width d = font_width d * font_scale_x d \<and> glyph_height d = font_height d * font_scale_y d \<and>
     length (font_bool d) = 256 * font_height d * font_width d \<and>
     offset_x d + c * glyph_width d \<le> width d \<and> offset_y d + r * glyph_height d \<le> height d \<and>
     width d \<le> stride d \<and> (height d - 1) * stride d + width d \<le> length (framebuffer d) \<and>
     (case canvas d of None \<Rightarrow> plot_char_fn d = Scaled_uncanvas \<or> plot_char_fn d = Unscaled_uncanvas
      | Some p \<Rightarrow> length p = height d * width d \<and> (plot_char_fn d = Scaled_canvas \<or> plot_char_fn d = Unscaled_canvas)) \<and>
     (plot_char_fn d = Unscaled_canvas \<or> plot_char_fn d = Unscaled_uncanvas \<longrightarrow> font_scale_x d = 1 \<and> font_scale_y d = 1)"
  by (simp add: display_ok_def blank_context_def Let_def)

lemma layout_half: "(n::nat) mod k div 2 + n div k * k \<le> n"
proof -
  have "n mod k div 2 \<le> n mod k" by simp
  moreover have "n div k * k + n mod k = n" by simp
  ultimately show ?thesis by linarith
qed

lemma layout_ok:
  assumes win: "window_fits sc a" and cell: "cell_size a = (fw, fh)" and fw: "0 < fw" and fh: "0 < fh" "fh \<le> 256"
    and f: "length f = 256 * fh * fw"
  shows "\<exists>d c r. fb_layout a sc fw fh f = Some (d, c, r) \<and> 0 < c \<and> c < 2 ^ 16 \<and> 0 < r \<and> r < 2 ^ 16 \<and>
     width d = a_width a \<and> height d = a_height a \<and> (font_scale_x d, font_scale_y d) = sc \<and>
     c = (a_width a - 2 * margin a) div (fw * fst sc) \<and> r = (a_height a - 2 * margin a) div (fh * snd sc) \<and>
     (\<forall>cv. (\<forall>p\<in>set_option cv. length p = a_height a * a_width a) \<longrightarrow>
        display_ok (blank_context p (d\<lparr>canvas := cv, plot_char_fn := fb_plot_fn sc (cv \<noteq> None)\<rparr>) c r))"
proof -
  let ?gw = "fw * fst sc" and ?gh = "fh * snd sc" and ?m = "margin a"
  let ?w = "a_width a - 2 * ?m" and ?h = "a_height a - 2 * ?m"
  have w: "0 < fst sc" "0 < snd sc" "a_width a < 2 ^ 16" "a_height a < 2 ^ 16" "2 * ?m + ?gw \<le> a_width a"
    "2 * ?m + ?gh \<le> a_height a" "a_width a \<le> a_pitch a div 4"
    "(a_height a - 1) * (a_pitch a div 4) + a_width a \<le> length (a_framebuffer a)"
    using win cell by (simp_all add: window_fits_def)
  have g: "0 < ?gw" "0 < ?gh" using w(1,2) fw fh by simp_all
  have small: "?gw mod 2 ^ 64 = ?gw" "?gh mod 2 ^ 64 = ?gh" "?m * 2 mod 2 ^ 64 = 2 * ?m"
    using w by (simp_all add: mult.commute)
  have sub: "size_sub (a_width a) (2 * ?m) = ?w" "size_sub (a_height a) (2 * ?m) = ?h" using w by simp_all
  have half: "?w mod ?gw div 2 + ?w div ?gw * ?gw \<le> ?w" "?h mod ?gh div 2 + ?h div ?gh * ?gh \<le> ?h"
    by (rule layout_half)+
  have off: "?m + ?w mod ?gw div 2 \<le> a_width a" "?m + ?h mod ?gh div 2 \<le> a_height a" using half w by linarith+
  then have offs: "(?m + ?w mod ?gw div 2) mod 2 ^ 64 = ?m + ?w mod ?gw div 2"
      "(?m + ?h mod ?gh div 2) mod 2 ^ 64 = ?m + ?h mod ?gh div 2" using w by simp_all
  let ?d = "\<lparr>framebuffer = a_framebuffer a, pitch = a_pitch a, width = a_width a, height = a_height a,
       canvas = None, font_width = fw, font_height = fh, font_scale_x = fst sc, font_scale_y = snd sc,
       glyph_width = ?gw, glyph_height = ?gh, offset_x = ?m + ?w mod ?gw div 2, offset_y = ?m + ?h mod ?gh div 2,
       font_bool = f, plot_char_fn = Unscaled_uncanvas\<rparr>"
  have lay: "fb_layout a sc fw fh f = Some (?d, ?w div ?gw, ?h div ?gh)"
    unfolding fb_layout_def Let_def small sub offs using g by simp
  have pos: "0 < ?w div ?gw" "0 < ?h div ?gh" using g w by (simp_all add: div_greater_zero_iff)
  have "?w div ?gw \<le> ?w" "?h div ?gh \<le> ?h" by (rule div_le_dividend)+
  then have lim: "?w div ?gw < 2 ^ 16" "?h div ?gh < 2 ^ 16" using w(3,4) by linarith+
  have fit: "?m + ?w mod ?gw div 2 + ?w div ?gw * ?gw \<le> a_width a" "?m + ?h mod ?gh div 2 + ?h div ?gh * ?gh \<le> a_height a"
    using half w by linarith+
  have "display_ok (blank_context p (?d\<lparr>canvas := cv, plot_char_fn := fb_plot_fn sc (cv \<noteq> None)\<rparr>) (?w div ?gw) (?h div ?gh))"
    if "\<forall>p\<in>set_option cv. length p = a_height a * a_width a" for cv
  proof -
    have fn: "fb_plot_fn sc b = (if sc = (1, 1) then if b then Unscaled_canvas else Unscaled_uncanvas
        else if b then Scaled_canvas else Scaled_uncanvas)" for b by (simp add: fb_plot_fn_def)
    have "fst sc = 1 \<and> snd sc = 1 \<longleftrightarrow> sc = (1, 1)" by (cases sc) simp
    then show ?thesis
      using that w(1,2,7,8) fw fh f fit unfolding display_ok_blank
      by (cases cv) (auto simp only: fn fb_display.simps option.case option.simps plot_fn.simps set_simps split: if_splits)
  qed
  then show ?thesis
    using lay pos lim by (intro exI [of _ ?d] exI [of _ "?w div ?gw"] exI [of _ "?h div ?gh"]) simp
qed

section \<open>The whole start\<close>

definition cells_room :: "fb_sizes \<Rightarrow> nat \<Rightarrow> nat" where
  "cells_room z n = round_16 (n * sizeof_fb_char z) + (round_16 (n * sizeof_queue_item z) + round_16 (n * 8))"

lemma cells_small:
  assumes "c < 2 ^ 16" and "r < 2 ^ 16" and "k < 2 ^ 32"
  shows "(r::nat) * c * k < 2 ^ 64"
proof -
  have "r * c \<le> 2 ^ 16 * 2 ^ 16" using assms by (intro mult_le_mono) simp_all
  then have "r * c * k \<le> (2 ^ 16 * 2 ^ 16) * k" by (rule mult_le_mono1)
  also have "\<dots> < 2 ^ 64" using assms(3) by simp
  finally show ?thesis .
qed

lemma start_canvas_ok:
  fixes mf :: "'h malloc_fn option"
  assumes p: "palette_ok p" and c: "0 < c" "c < 2 ^ 16" and r: "0 < r" "r < 2 ^ 16" and n: "2 \<le> n"
    and d: "\<And>cv. \<forall>q\<in>set_option cv. length q = height d * width d \<Longrightarrow>
        display_ok (blank_context p (d\<lparr>canvas := cv, plot_char_fn := fb_plot_fn sc (cv \<noteq> None)\<rparr>) c r)"
    and sc: "(font_scale_x d, font_scale_y d) = sc" and wh: "width d < 2 ^ 16" "height d < 2 ^ 16"
    and cv: "\<forall>q\<in>set_option (a_canvas a). width d * height d \<le> length q" and must: "must \<Longrightarrow> a_canvas a = None"
    and live: "alive ctx m"
    and Q: "\<And>s. fresh onlcr s \<Longrightarrow> cols (fbc s) = c \<Longrightarrow> rows (fbc s) = r \<Longrightarrow> palette (fbc s) = p \<Longrightarrow> Q s"
  shows "starts must Q (fb_start_canvas z mf ff n onlcr a p d c r ctx m :: ('w::len, 'h) fb_started option)"
proof -
  have big: "c < 2 ^ 31" "r < 2 ^ 31" using c r by simp_all
  have ready: "starts must Q (fb_ready mf n onlcr p (d\<lparr>canvas := cv, plot_char_fn := fb_plot_fn sc (cv \<noteq> None)\<rparr>) c r ctx m
        :: ('w, 'h) fb_started option)"
    if "\<forall>q\<in>set_option cv. length q = height d * width d" for cv and m :: "'h fb_memory"
    using ready_fresh [OF p c(1) big(1) r(1) big(2) n d [OF that], of mf onlcr ctx m] Q
    unfolding starts_def by auto
  show ?thesis
  proof (cases "a_canvas a")
    case None
    then show ?thesis using ready [of None m] sc by (simp add: fb_start_canvas_def)
  next
    case (Some picture)
    then have "\<not> must" using must by auto
    have small: "\<not> 2 ^ 64 \<le> width d * height d * 4"
      unfolding not_le using wh(2,1) by (rule cells_small) simp
    have len: "\<not> length picture < width d * height d" using cv Some by simp
    have ok: "\<not> (length picture < width d * height d \<or> 2 ^ 64 \<le> width d * height d * 4)" using len small by blast
    have "palette_ok p" by fact
    then have "red_mask_shift p < 32" "green_mask_shift p < 32" "blue_mask_shift p < 32" by (simp_all add: palette_ok_def)
    from convert_all_total [OF this, of "take (width d * height d) picture"] len obtain cs where
      cs: "convert_all (take (width d * height d) picture) p = Some cs" "length cs = width d * height d" by auto
    have "starts must Q (fb_ready mf n onlcr p (d\<lparr>canvas := Some cs, plot_char_fn := fb_plot_fn sc True\<rparr>) c r ctx m
        :: ('w, 'h) fb_started option)" for m :: "'h fb_memory"
      using ready [of "Some cs" m] cs(2) by (simp add: mult.commute)
    then show ?thesis
      unfolding fb_start_canvas_def Let_def sc Some option.case
        if_not_P [OF ok]
      by (intro starts_need [OF live, where k = 0]) (simp_all add: \<open>\<not> must\<close> cs(1))
  qed
qed

lemma start_cells_ok:
  fixes mf :: "'h malloc_fn option"
  assumes c: "c < 2 ^ 16" and r: "r < 2 ^ 16" and z: "sizeof_fb_char z < 2 ^ 32" "sizeof_queue_item z < 2 ^ 32"
    and must: "must \<Longrightarrow> mf = None \<and> pool_room m (cells_room z (r * c))" and live: "alive ctx m"
    and rest: "\<And>m. alive ctx m \<Longrightarrow> starts must Q (fb_start_canvas z mf ff n onlcr a p d c r ctx m :: ('w::len, 'h) fb_started option)"
  shows "starts must Q (fb_start_cells z mf ff n onlcr a p d c r ctx m :: ('w, 'h) fb_started option)"
proof -
  have s: "\<not> 2 ^ 64 \<le> r * c * sizeof_fb_char z" "\<not> 2 ^ 64 \<le> r * c * sizeof_queue_item z" "\<not> 2 ^ 64 \<le> r * c * 8"
    unfolding not_le by (rule cells_small [OF c r], rule z, rule cells_small [OF c r], rule z, rule cells_small [OF c r], simp)
  then have m: "r * c * sizeof_fb_char z mod 2 ^ 64 = r * c * sizeof_fb_char z"
    "r * c * sizeof_queue_item z mod 2 ^ 64 = r * c * sizeof_queue_item z" "r * c * 8 mod 2 ^ 64 = r * c * 8"
    by simp_all
  show ?thesis
    unfolding fb_start_cells_def m if_not_P [OF s(1)] if_not_P [OF s(2)] if_not_P [OF s(3)]
  proof (rule starts_need [OF live, where k = "round_16 (r * c * sizeof_queue_item z) + round_16 (r * c * 8)"])
    show "mf = None \<and> pool_room m (round_16 (r * c * sizeof_fb_char z) + (round_16 (r * c * sizeof_queue_item z) + round_16 (r * c * 8)))"
      if must using must [OF that] by (simp add: cells_room_def)
    fix m1 :: "'h fb_memory"
    assume live1: "alive ctx m1"
      and m1: "must \<Longrightarrow> pool_room m1 (round_16 (r * c * sizeof_queue_item z) + round_16 (r * c * 8))"
    have last: "starts must Q (need z mf ff ctx (\<lambda>q k f. f\<lparr>map_at := q, map_size := k\<rparr>) (r * c * 8) m2
        (fb_start_canvas z mf ff n onlcr a p d c r ctx) :: ('w, 'h) fb_started option)"
      if "alive ctx m2" "must \<Longrightarrow> pool_room m2 (round_16 (r * c * 8))" for m2
      by (rule starts_need [OF that(1), where k = 0]) (use must that rest in auto)
    show "starts must Q (need z mf ff ctx (\<lambda>q k f. f\<lparr>queue_at := q, queue_size := k\<rparr>) (r * c * sizeof_queue_item z) m1
        (\<lambda>m. need z mf ff ctx (\<lambda>q k f. f\<lparr>map_at := q, map_size := k\<rparr>) (r * c * 8) m
          (fb_start_canvas z mf ff n onlcr a p d c r ctx)) :: ('w, 'h) fb_started option)"
      by (rule starts_need [OF live1, where k = "round_16 (r * c * 8)"]) (use must m1 last in auto)
  qed
qed

lemma font_bits_ok:
  assumes "font_fits a" and "fb_font a = (f, fw, fh, sp)"
  shows "fw = 8" "0 < fh" "fh \<le> 256" "sp < 256" "fw + sp = fst (cell_size a)" "fh = snd (cell_size a)"
    "font_bits_of (256 * fh) f = Some (take (256 * fh) f)" "256 * fh \<le> length f"
  using assms length_builtin_font
  by (auto simp: font_fits_def fb_font_def cell_size_def font_bits_of_def split: option.splits)

definition font_room :: "fb_args \<Rightarrow> nat" where
  "font_room a = round_16 (256 * snd (cell_size a)) + round_16 (256 * snd (cell_size a) * fst (cell_size a))"

definition screen_size :: "nat \<times> nat \<Rightarrow> fb_args \<Rightarrow> nat \<times> nat" where
  "screen_size sc a = ((a_width a - 2 * margin a) div (fst (cell_size a) * fst sc),
                       (a_height a - 2 * margin a) div (snd (cell_size a) * snd sc))"

lemma start_font_ok:
  fixes mf :: "'h malloc_fn option"
  assumes ok: "fb_args_ok z sc a" and n: "2 \<le> n"
    and must: "must \<Longrightarrow> mf = None \<and> a_canvas a = None \<and>
        pool_room m (font_room a + cells_room z (snd (screen_size sc a) * fst (screen_size sc a)))"
    and live: "alive ctx m"
    and Q: "\<And>s. fresh onlcr s \<Longrightarrow> (cols (fbc s), rows (fbc s)) = screen_size sc a \<Longrightarrow> Q s"
  shows "starts must Q (fb_start_font z mf ff n onlcr sc a ctx m :: ('w::len, 'h) fb_started option)"
proof -
  obtain f fw fh sp where font: "fb_font a = (f, fw, fh, sp)" by (cases "fb_font a") auto
  have a: "font_glyphs z = 256" "sizeof_fb_char z < 2 ^ 32" "sizeof_queue_item z < 2 ^ 32" "colours_ok a"
    "font_fits a" "window_fits sc a" using ok by (simp_all add: fb_args_ok_def)
  note fits = font_bits_ok [OF a(5) font]
  obtain p where p: "fb_palette_init a = Some p" "palette_ok p" using palette_init_ok [OF a(4)] by blast
  have bits: "fw * fh * font_glyphs z mod 2 ^ 64 div 8 = 256 * fh" using fits(1,3) a(1) by simp
  have fw1: "(fw + sp) mod 2 ^ 64 = fw + sp" using fits(1,4) by simp
  have "256 * fh * (fw + sp) \<le> 256 * 256 * 264" using fits(1,3,4) by (intro mult_le_mono) simp_all
  then have bools: "font_glyphs z * fh * (fw + sp) mod 2 ^ 64 = 256 * fh * (fw + sp)"
    unfolding a(1) by simp
  have "256 * fh \<le> length (take (256 * fh) f)" using fits(8) by simp
  from expand_font_dots [OF this, of "fw + sp"] fits(1) obtain fbool where
    fbool: "expand_font 256 (take (256 * fh) f) fh (fw + sp) (replicate (256 * fh * (fw + sp)) False) = Some fbool"
      "length fbool = 256 * fh * (fw + sp)" by auto
  have size: "cell_size a = (fw + sp, fh)" using fits(5,6) by (cases "cell_size a") simp
  have fwpos: "0 < fw + sp" using fits(1) by simp
  from layout_ok [OF a(6) size fwpos fits(2,3) fbool(2), of p] obtain d c r where
    lay: "fb_layout a sc (fw + sp) fh fbool = Some (d, c, r)" "0 < c" "c < 2 ^ 16" "0 < r" "r < 2 ^ 16"
      "width d = a_width a" "height d = a_height a" "(font_scale_x d, font_scale_y d) = sc"
      "c = (a_width a - 2 * margin a) div ((fw + sp) * fst sc)" "r = (a_height a - 2 * margin a) div (fh * snd sc)"
      "\<forall>cv. (\<forall>q\<in>set_option cv. length q = a_height a * a_width a) \<longrightarrow>
        display_ok (blank_context p (d\<lparr>canvas := cv, plot_char_fn := fb_plot_fn sc (cv \<noteq> None)\<rparr>) c r)"
    by (elim exE conjE) (rule that; assumption)
  have cr: "screen_size sc a = (c, r)" unfolding screen_size_def size fst_conv snd_conv using lay(9,10) by simp
  have win: "a_width a < 2 ^ 16" "a_height a < 2 ^ 16" "\<forall>q\<in>set_option (a_canvas a). a_width a * a_height a \<le> length q"
    using a(6) by (simp_all add: window_fits_def)
  have canvas: "starts must Q (fb_start_canvas z mf ff n onlcr a p d c r ctx m :: ('w, 'h) fb_started option)"
    if "alive ctx m" for m
  proof (rule start_canvas_ok [OF p(2) lay(2,3,4,5) n _ lay(8)])
    show "alive ctx m" by fact
    show "display_ok (blank_context p (d\<lparr>canvas := cv, plot_char_fn := fb_plot_fn sc (cv \<noteq> None)\<rparr>) c r)"
      if "\<forall>q\<in>set_option cv. length q = height d * width d" for cv
      using that lay(11) unfolding lay(6,7) by blast
    show "width d < 2 ^ 16" "height d < 2 ^ 16" "\<forall>q\<in>set_option (a_canvas a). width d * height d \<le> length q"
      unfolding lay(6,7) by (rule win)+
    show "must \<Longrightarrow> a_canvas a = None" using must by blast
    fix s :: "'w word flanterm_context" assume "fresh onlcr s" "cols (fbc s) = c" "rows (fbc s) = r"
    then show "Q s" using Q cr by simp
  qed
  have cells: "starts must Q (do { fbool \<leftarrow> expand_font (font_glyphs z) (take (256 * fh) f) fh (fw + sp) (replicate (256 * fh * (fw + sp)) False);
       (d, c, r) \<leftarrow> fb_layout a sc (fw + sp) fh fbool;
       fb_start_cells z mf ff n onlcr a p d c r ctx m } :: ('w, 'h) fb_started option)"
    if "alive ctx m" "must \<Longrightarrow> pool_room m (cells_room z (r * c))" for m
    unfolding a(1) fbool(1) bind.bind_lunit lay(1) prod.case
    using must that by (intro start_cells_ok lay a canvas) blast+
  have room: "font_room a = round_16 (256 * fh) + round_16 (256 * fh * (fw + sp))" by (simp add: font_room_def size)
  show ?thesis
    unfolding fb_start_font_def p(1) bind.bind_lunit font Let_def prod.case bits bools fw1
  proof (rule starts_need [OF live])
    show "mf = None \<and> pool_room m (round_16 (256 * fh) + (round_16 (256 * fh * (fw + sp)) + cells_room z (r * c)))" if must
      using must [OF that] cr room by (simp add: add.assoc)
    fix m :: "'h fb_memory"
    assume live1: "alive ctx m" and m: "must \<Longrightarrow> pool_room m (round_16 (256 * fh * (fw + sp)) + cells_room z (r * c))"
    show "starts must Q (do { bits \<leftarrow> font_bits_of (256 * fh) f;
        need z mf ff ctx (\<lambda>q k f. f\<lparr>font_bool_at := q, font_bool_size := k\<rparr>) (256 * fh * (fw + sp)) m (\<lambda>m. do {
          fbool \<leftarrow> expand_font (font_glyphs z) bits fh (fw + sp) (replicate (256 * fh * (fw + sp)) False);
          (d, c, r) \<leftarrow> fb_layout a sc (fw + sp) fh fbool;
          fb_start_cells z mf ff n onlcr a p d c r ctx m }) } :: ('w, 'h) fb_started option)"
      unfolding fits(7) bind.bind_lunit
      by (rule starts_need [OF live1]) (use must m cells in blast)+
  qed
qed

lemma init_starts:
  fixes mf :: "'h malloc_fn option"
  assumes lim: "(if mf = None then fb_limit a else Some a) = Some a1"
    and ok: "fb_args_ok z (fb_scale a) a1" and n: "2 \<le> n"
    and must: "must \<Longrightarrow> mf = None \<and> \<not> bump_allocated_instance m \<and> a_canvas a1 = None \<and>
        8 \<le> red_mask_size a \<and> red_mask_size a = green_mask_size a \<and> red_mask_size a = blue_mask_size a \<and>
        pool_room m (round_16 (sizeof_fb_context z) + (font_room a1 +
          cells_room z (snd (screen_size (fb_scale a) a1) * fst (screen_size (fb_scale a) a1))))"
  shows "starts must (\<lambda>s. fresh onlcr s \<and> (cols (fbc s), rows (fbc s)) = screen_size (fb_scale a) a1)
    (flanterm_fb_init z mf ff n onlcr a m :: ('w::len, 'h) fb_started option)"
proof -
  have stop: "starts must Q (Some (None, m) :: ('w, 'h) fb_started option)" if "\<not> must" for Q
    using that by (simp add: starts_def)
  let ?rest = "font_room a1 + cells_room z (snd (screen_size (fb_scale a) a1) * fst (screen_size (fb_scale a) a1))"
  have begun: "starts must (\<lambda>s. fresh onlcr s \<and> (cols (fbc s), rows (fbc s)) = screen_size (fb_scale a) a1)
      (fb_start_font z mf ff n onlcr (fb_scale a) a1 ctx (m1\<lparr>contexts := (contexts m1)(ctx \<mapsto> no_fields)\<rparr>) :: ('w, 'h) fb_started option)"
    if "must \<Longrightarrow> pool_room m1 ?rest" for ctx m1
    by (rule start_font_ok [OF ok n]) (use must that in \<open>auto simp: alive_def pool_room_def\<close>)
  have "starts must (\<lambda>s. fresh onlcr s \<and> (cols (fbc s), rows (fbc s)) = screen_size (fb_scale a) a1)
      ((case fb_malloc mf (sizeof_fb_context z) m of
          (None, m1) \<Rightarrow> map_option (Pair None) (fb_fail z mf ff 0 m1)
        | (Some ctx, m1) \<Rightarrow>
            fb_start_font z mf ff n onlcr (fb_scale a) a1 ctx (m1\<lparr>contexts := (contexts m1)(ctx \<mapsto> no_fields)\<rparr>)) :: ('w, 'h) fb_started option)"
  proof (cases must)
    case True
    from must [OF this] have "mf = None" "pool_room m (round_16 (sizeof_fb_context z) + ?rest)" by blast+
    with bump_alloc_room obtain q m1 where "fb_malloc mf (sizeof_fb_context z) m = (Some q, m1)" "pool_room m1 ?rest"
      unfolding fb_malloc_def by fastforce
    then show ?thesis using begun by simp
  next
    case False
    then show ?thesis using begun by (auto simp: fb_fail_def starts_def split: prod.split option.split)
  qed
  then show ?thesis
    unfolding flanterm_fb_init_def lim bind.bind_lunit
    using must stop by (cases must) auto
qed

section \<open>The start of the kernel\<close>

text \<open>The arguments of the call in \<open>kernel\<close> (\<open>kernel/src/src/kernel.c\<close>), from the framebuffer of the boot loader.\<close>

definition kernel_fb_args :: "u32 list \<Rightarrow> nat \<Rightarrow> nat \<Rightarrow> nat \<Rightarrow> fb_args" where
  "kernel_fb_args fb w h pixels_per_scan_line = \<lparr>a_framebuffer = fb, a_width = w, a_height = h,
     a_pitch = pixels_per_scan_line * 4, red_mask_size = 8, a_red_mask_shift = 16, green_mask_size = 8,
     a_green_mask_shift = 8, blue_mask_size = 8, a_blue_mask_shift = 0, a_canvas = None, a_ansi_colours = None,
     a_ansi_bright_colours = None, a_default_bg = None, a_default_fg = None, a_default_bg_bright = None,
     a_default_fg_bright = None, a_font = None, a_font_width = 0, a_font_height = 0, font_spacing = 1,
     a_font_scale_x = 0, a_font_scale_y = 0, margin = 0\<rparr>"

definition kernel_scale :: "nat \<Rightarrow> nat \<Rightarrow> nat" where
  "kernel_scale w h = (if 5120 \<le> w \<and> 2880 \<le> h then 4 else if 2560 \<le> w \<and> 1440 \<le> h then 2 else 1)"

lemma kernel_scale_eq: "fb_scale (kernel_fb_args fb w h ppsl) = (kernel_scale w h, kernel_scale w h)"
  by (simp add: fb_scale_def kernel_fb_args_def kernel_scale_def)

lemma centred: "(a::nat) div 2 - min k a div 2 + min k a \<le> a"
  by (cases "k \<le> a") (simp_all add: min_def; arith)+

lemma kernel_window:
  assumes size: "9 \<le> w" "w < 2 ^ 16" "16 \<le> h" "h < 2 ^ 16" and line: "w \<le> ppsl"
    and fb: "(h - 1) * ppsl + w \<le> length fb"
  shows "\<exists>a1. fb_limit (kernel_fb_args fb w h ppsl) = Some a1 \<and> window_fits (kernel_scale w h, kernel_scale w h) a1 \<and>
     colours_ok a1 \<and> a_font a1 = None \<and> a_canvas a1 = None \<and> a_width a1 = min 1920 w \<and> a_height a1 = min 1200 h \<and>
     margin a1 = 0"
proof -
  let ?a = "kernel_fb_args fb w h ppsl" and ?w = "min 1920 w" and ?h = "min 1200 h" and ?k = "kernel_scale w h"
  let ?off = "(h div 2 - ?h div 2) * ppsl + (w div 2 - ?w div 2)"
  define a1 where "a1 = ?a\<lparr>a_framebuffer := drop ?off fb, a_width := ?w, a_height := ?h\<rparr>"
  have "fb_limit ?a = Some a1"
  proof (cases "1920 < w \<or> 1200 < h")
    case True
    have "(h div 2 - ?h div 2) * (ppsl * 4) + (w div 2 - ?w div 2) * 4 = ?off * 4" by (simp add: algebra_simps)
    with True show ?thesis
      by (simp add: fb_limit_def FLANTERM_FB_WIDTH_LIMIT_def FLANTERM_FB_HEIGHT_LIMIT_def Let_def kernel_fb_args_def a1_def)
  next
    case False
    then have "?w = w" "?h = h" by simp_all
    with False show ?thesis
      by (simp add: fb_limit_def FLANTERM_FB_WIDTH_LIMIT_def FLANTERM_FB_HEIGHT_LIMIT_def Let_def kernel_fb_args_def a1_def)
  qed
  moreover have "window_fits (?k, ?k) a1"
  proof -
    have k: "0 < ?k" "9 * ?k \<le> ?w" "16 * ?k \<le> ?h" using size by (auto simp: kernel_scale_def)
    have "h div 2 - ?h div 2 + (?h - 1) \<le> h - 1" using centred [of h 1200] size by linarith
    then have "(h div 2 - ?h div 2 + (?h - 1)) * ppsl \<le> (h - 1) * ppsl" by (rule mult_le_mono1)
    then have "(h div 2 - ?h div 2) * ppsl + (?h - 1) * ppsl \<le> (h - 1) * ppsl" unfolding add_mult_distrib .
    moreover have "w div 2 - ?w div 2 + ?w \<le> w" by (rule centred)
    ultimately have "?off + ((?h - 1) * ppsl + ?w) \<le> length fb" using fb by linarith
    then have room: "(?h - 1) * ppsl + ?w \<le> length (drop ?off fb)" unfolding length_drop by linarith
    have f: "a_width a1 = ?w" "a_height a1 = ?h" "a_framebuffer a1 = drop ?off fb" "a_pitch a1 div 4 = ppsl"
      "margin a1 = 0" "cell_size a1 = (9, 16)" "a_canvas a1 = None"
      by (simp_all add: a1_def kernel_fb_args_def cell_size_def)
    have "?w \<le> ppsl" "?w < 2 ^ 16" "?h < 2 ^ 16" using line size by linarith+
    with room k show ?thesis
      by (simp only: window_fits_def f fst_conv snd_conv mult_0_right add_0 option.set ball_empty simp_thms)
  qed
  ultimately show ?thesis by (simp add: a1_def kernel_fb_args_def colours_ok_def)
qed

text \<open>The pool: the first allocation aligns it, then every screen of at most 1920 by 1200 pixels fits.\<close>

lemma round_16_mono: "a \<le> b \<Longrightarrow> round_16 a \<le> round_16 b"
  unfolding round_16_def by (intro mult_le_mono1 div_le_mono) simp

lemma bump_alloc_first:
  assumes "\<not> base_offset_added m" and "bump_alloc_ptr m + (15 + k) \<le> FLANTERM_FB_BUMP_ALLOC_POOL_SIZE"
  shows "\<exists>m1. bump_alloc n m = bump_alloc n m1 \<and> pool_room m1 k \<and> bump_allocated_instance m1 = bump_allocated_instance m"
proof -
  let ?m = "m\<lparr>bump_alloc_ptr := bump_alloc_ptr m +
      (if bump_alloc_pool m mod 16 \<noteq> 0 then 16 - bump_alloc_pool m mod 16 else 0), base_offset_added := True\<rparr>"
  have "pool_room ?m k" using assms(2) by (auto simp: pool_room_def)
  moreover have "bump_alloc n m = bump_alloc n ?m" using assms(1) by (simp add: bump_alloc_def)
  moreover have "bump_allocated_instance ?m = bump_allocated_instance m" by simp
  ultimately show ?thesis by blast
qed

definition known_sizes :: "fb_sizes \<Rightarrow> bool" where
  "known_sizes z \<longleftrightarrow> font_glyphs z = 256 \<and> sizeof_fb_context z \<le> 1296 \<and> sizeof_fb_char z \<le> 12 \<and> sizeof_queue_item z \<le> 32"

definition unused_pool :: "'h fb_memory \<Rightarrow> bool" where
  "unused_pool m \<longleftrightarrow> bump_alloc_ptr m = 0 \<and> \<not> base_offset_added m \<and> \<not> bump_allocated_instance m"

lemma kernel_room:
  assumes z: "known_sizes z" and a: "a_font a = None" "margin a = 0" "a_width a \<le> 1920" "a_height a \<le> 1200" and k: "0 < k"
  shows "15 + (round_16 (sizeof_fb_context z) + (font_room a +
      cells_room z (snd (screen_size (k, k) a) * fst (screen_size (k, k) a)))) \<le> 873000"
proof -
  have cell: "cell_size a = (9, 16)" using a(1) by (simp add: cell_size_def)
  have "a_width a div (9 * k) \<le> 1920 div 9" "a_height a div (16 * k) \<le> 1200 div 16"
    unfolding div_mult2_eq by (meson a(3,4) div_le_dividend div_le_mono le_trans)+
  then have "a_height a div (16 * k) * (a_width a div (9 * k)) \<le> 75 * 213" by (intro mult_le_mono) simp_all
  then have n: "snd (screen_size (k, k) a) * fst (screen_size (k, k) a) \<le> 15975"
    by (simp add: screen_size_def cell a(2))
  let ?n = "snd (screen_size (k, k) a) * fst (screen_size (k, k) a)"
  have "?n * sizeof_fb_char z \<le> 15975 * 12" "?n * sizeof_queue_item z \<le> 15975 * 32" "?n * 8 \<le> 15975 * 8"
    using n z by (intro mult_le_mono; simp add: known_sizes_def)+
  then have "cells_room z ?n \<le> round_16 (15975 * 12) + (round_16 (15975 * 32) + round_16 (15975 * 8))"
    unfolding cells_room_def by (intro add_mono round_16_mono)
  moreover have "round_16 (sizeof_fb_context z) \<le> round_16 1296" using z by (intro round_16_mono) (simp add: known_sizes_def)
  moreover have "font_room a = 4096 + 36864" by (simp add: font_room_def cell round_16_def)
  ultimately show ?thesis by (simp add: round_16_def)
qed

lemma kernel_terminal:
  fixes m :: "'h fb_memory"
  assumes size: "9 \<le> w" "w < 2 ^ 16" "16 \<le> h" "h < 2 ^ 16" and line: "w \<le> ppsl"
    and fb: "(h - 1) * ppsl + w \<le> length fb" and z: "known_sizes z"
    and n: "2 \<le> n" and m: "unused_pool m"
  shows "\<exists>s ctx m'. (flanterm_fb_init z None None n onlcr (kernel_fb_args fb w h ppsl) m :: ('w::len, 'h) fb_started option)
       = Some (Some (s, ctx), m') \<and> fresh onlcr s \<and>
     cols (fbc s) = min 1920 w div (9 * kernel_scale w h) \<and> rows (fbc s) = min 1200 h div (16 * kernel_scale w h)"
proof -
  let ?a = "kernel_fb_args fb w h ppsl" and ?k = "kernel_scale w h"
  obtain a1 where a1: "fb_limit ?a = Some a1" "window_fits (?k, ?k) a1" "colours_ok a1" "a_font a1 = None" "a_canvas a1 = None"
      "a_width a1 = min 1920 w" "a_height a1 = min 1200 h" "margin a1 = 0"
    using kernel_window [OF size line fb] by blast
  have ok: "fb_args_ok z (fb_scale ?a) a1"
    using a1 z unfolding kernel_scale_eq by (simp add: fb_args_ok_def font_fits_def known_sizes_def)
  have "0 < ?k" by (simp add: kernel_scale_def)
  then have "15 + (round_16 (sizeof_fb_context z) + (font_room a1 +
      cells_room z (snd (screen_size (?k, ?k) a1) * fst (screen_size (?k, ?k) a1)))) \<le> 873000"
    by (intro kernel_room z a1) (simp_all add: a1)
  then have room: "bump_alloc_ptr m + (15 + (round_16 (sizeof_fb_context z) + (font_room a1 +
      cells_room z (snd (screen_size (?k, ?k) a1) * fst (screen_size (?k, ?k) a1))))) \<le> FLANTERM_FB_BUMP_ALLOC_POOL_SIZE"
    using m by (simp add: unused_pool_def FLANTERM_FB_BUMP_ALLOC_POOL_SIZE_def)
  have "\<not> base_offset_added m" "\<not> bump_allocated_instance m" using m by (simp_all add: unused_pool_def)
  with bump_alloc_first [OF _ room, of "sizeof_fb_context z"] obtain m1 where
    m1: "bump_alloc (sizeof_fb_context z) m = bump_alloc (sizeof_fb_context z) m1"
      "pool_room m1 (round_16 (sizeof_fb_context z) + (font_room a1 +
        cells_room z (snd (screen_size (?k, ?k) a1) * fst (screen_size (?k, ?k) a1))))"
      "\<not> bump_allocated_instance m1" "\<not> bump_allocated_instance m" by auto
  have lim: "(if (None :: 'h malloc_fn option) = None then fb_limit ?a else Some ?a) = Some a1" using a1(1) by simp
  have "starts True (\<lambda>s. fresh onlcr s \<and> (cols (fbc s), rows (fbc s)) = screen_size (fb_scale ?a) a1)
    (flanterm_fb_init z None None n onlcr ?a m1 :: ('w, 'h) fb_started option)"
  proof (rule init_starts [OF lim ok n])
    show "(None :: 'h malloc_fn option) = None \<and> \<not> bump_allocated_instance m1 \<and> a_canvas a1 = None \<and>
        8 \<le> red_mask_size ?a \<and> red_mask_size ?a = green_mask_size ?a \<and> red_mask_size ?a = blue_mask_size ?a \<and>
        pool_room m1 (round_16 (sizeof_fb_context z) + (font_room a1 +
          cells_room z (snd (screen_size (fb_scale ?a) a1) * fst (screen_size (fb_scale ?a) a1))))"
      using m1 a1(5) unfolding kernel_scale_eq by (simp add: kernel_fb_args_def)
  qed
  moreover have "(flanterm_fb_init z None None n onlcr ?a m1 :: ('w, 'h) fb_started option)
      = flanterm_fb_init z None None n onlcr ?a m"
    using m1 by (simp add: flanterm_fb_init_def fb_malloc_def kernel_fb_args_def)
  ultimately show ?thesis
    by (auto simp: starts_def kernel_scale_eq screen_size_def a1 cell_size_def split: option.splits)
qed

end
