(* ===== verification/Ports.thy ===== *)
theory Ports
  imports Prelude
begin

text \<open>
  The I/O ports behind the \<open>inb\<close> and \<open>outb\<close> of the drivers (\<open>serial.c\<close>, \<open>mouse.c\<close>). What the
  devices answer is the list of values the successive reads will get; every access is recorded
  with its port, so that an order or a port that is wrong shows in the record. A read when the
  list is used up never returns: the driver polls a device that stays silent.
\<close>

datatype port_event = PortIn u16 u8 | PortOut u16 u8

record ports =
  port_answers :: bytes
  port_log :: "port_event list"

definition inb :: "u16 \<Rightarrow> ports \<Rightarrow> (u8 \<times> ports) option" where
  "inb port p = (case port_answers p of [] \<Rightarrow> None
     | b # bs \<Rightarrow> Some (b, \<lparr>port_answers = bs, port_log = port_log p @ [PortIn port b]\<rparr>))"

definition outb :: "u16 \<Rightarrow> u8 \<Rightarrow> ports \<Rightarrow> ports" where
  "outb port val p = p\<lparr>port_log := port_log p @ [PortOut port val]\<rparr>"

text \<open>The polling loop \<open>while (!ready(inb(port)));\<close>.\<close>

fun poll :: "u16 \<Rightarrow> (u8 \<Rightarrow> bool) \<Rightarrow> bytes \<Rightarrow> port_event list \<Rightarrow> ports option" where
  "poll port ready [] log = None"
| "poll port ready (b # bs) log =
     (let log' = log @ [PortIn port b] in
      if ready b then Some \<lparr>port_answers = bs, port_log = log'\<rparr> else poll port ready bs log')"

definition wait_port :: "u16 \<Rightarrow> (u8 \<Rightarrow> bool) \<Rightarrow> ports \<Rightarrow> ports option" where
  "wait_port port ready p = poll port ready (port_answers p) (port_log p)"

section \<open>What a driver sent\<close>

fun sent_in :: "u16 \<Rightarrow> port_event list \<Rightarrow> bytes" where
  "sent_in port [] = []"
| "sent_in port (PortIn q b # es) = sent_in port es"
| "sent_in port (PortOut q b # es) = (if q = port then b # sent_in port es else sent_in port es)"

lemma sent_in_append [simp]: "sent_in port (xs @ ys) = sent_in port xs @ sent_in port ys"
  by (induction port xs rule: sent_in.induct) simp_all

definition sent :: "u16 \<Rightarrow> ports \<Rightarrow> bytes" where
  "sent port p = sent_in port (port_log p)"

lemma sent_outb [simp]: "sent q (outb port v p) = sent q p @ (if q = port then [v] else [])"
  by (simp add: sent_def outb_def)

lemma answers_outb [simp]: "port_answers (outb port v p) = port_answers p"
  by (simp add: outb_def)

lemma inb_Some_iff: "inb port p = Some (b, p') \<longleftrightarrow>
    port_answers p = b # port_answers p' \<and> port_log p' = port_log p @ [PortIn port b]"
  by (cases p'; auto simp: inb_def split: list.splits)

lemma sent_inb: "inb port p = Some (b, p') \<Longrightarrow> sent q p' = sent q p"
  by (simp add: inb_Some_iff sent_def)

text \<open>A wait ends at the first answer that is ready, and sends nothing.\<close>

lemma poll_eq:
  "poll port ready bs log =
     (case dropWhile (\<lambda>b. \<not> ready b) bs of [] \<Rightarrow> None
      | b # rest \<Rightarrow> Some \<lparr>port_answers = rest,
          port_log = log @ map (PortIn port) (takeWhile (\<lambda>b. \<not> ready b) bs @ [b])\<rparr>)"
proof (induction bs arbitrary: log)
  case (Cons b bs)
  show ?case
  proof (cases "ready b")
    case False
    then show ?thesis
      using Cons.IH [of "log @ [PortIn port b]"]
      by (cases "dropWhile (\<lambda>b. \<not> ready b) bs") (simp_all add: Let_def del: dropWhile_eq_Nil_conv)
  qed (simp add: Let_def)
qed simp

lemma sent_in_reads [simp]: "sent_in q (map (PortIn port) bs) = []"
  by (induction bs) simp_all

lemma wait_port_sent: "wait_port port ready p = Some p' \<Longrightarrow> sent q p' = sent q p"
  by (auto simp: wait_port_def poll_eq sent_def split: list.splits)

lemma wait_port_answers:
  "wait_port port ready p = Some p' \<Longrightarrow>
     \<exists>b. dropWhile (\<lambda>b. \<not> ready b) (port_answers p) = b # port_answers p' \<and> ready b"
  by (auto simp: wait_port_def poll_eq split: list.splits)
    (metis hd_dropWhile list.discI list.sel(1))

lemma wait_port_returns:
  "(\<exists>p'. wait_port port ready p = Some p') \<longleftrightarrow> (\<exists>b \<in> set (port_answers p). ready b)"
  by (auto simp: wait_port_def poll_eq dropWhile_eq_Nil_conv split: list.splits)
    (metis dropWhile_eq_Nil_conv list.discI)

section \<open>Ranges of \<open>int\<close>\<close>

text \<open>A signed result outside \<open>int\<close> is undefined behaviour.\<close>

definition c_int :: "int \<Rightarrow> int option" where
  "c_int i = (if - (2 ^ 31) \<le> i \<and> i < 2 ^ 31 then Some i else None)"

lemma c_int_Some [simp]: "- (2 ^ 31) \<le> i \<Longrightarrow> i < 2 ^ 31 \<Longrightarrow> c_int i = Some i"
  by (simp add: c_int_def)

end
