(* ===== verification/Numbers.thy ===== *)
theory Numbers
  imports Prelude
begin

text \<open>
  Positional number representations, the reference the kernel's number printers are compared
  with: the digits of a number in a base, most significant first, and the value of a digit
  sequence. \<open>digits_value\<close> is the round trip between them.
\<close>

text \<open>The digits in the order the loops \<open>value % base; value /= base\<close> produce them.\<close>

fun digits_le :: "nat \<Rightarrow> nat \<Rightarrow> nat list" where
  "digits_le b v = (if v = 0 \<or> b < 2 then [] else v mod b # digits_le b (v div b))"

declare digits_le.simps [simp del]

definition digits :: "nat \<Rightarrow> nat \<Rightarrow> nat list" where
  "digits b v = (if v = 0 then [0] else rev (digits_le b v))"

definition value_of :: "nat \<Rightarrow> nat list \<Rightarrow> nat" where
  "value_of b ds = foldl (\<lambda>a d. a * b + d) 0 ds"

lemma digits_le_0 [simp]: "digits_le b 0 = []"
  by (simp add: digits_le.simps)

lemma digits_le_step:
  "0 < v \<Longrightarrow> 2 \<le> b \<Longrightarrow> digits_le b v = v mod b # digits_le b (v div b)"
  by (subst digits_le.simps) simp

lemma digits_le_eq_Nil [simp]: "2 \<le> b \<Longrightarrow> digits_le b v = [] \<longleftrightarrow> v = 0"
  by (subst digits_le.simps) simp

lemma digits_le_less: "2 \<le> b \<Longrightarrow> d \<in> set (digits_le b v) \<Longrightarrow> d < b"
proof (induction b v rule: digits_le.induct)
  case (1 b v)
  then show ?case
    by (cases "v = 0") (auto simp: digits_le_step)
qed

lemma digits_less: "2 \<le> b \<Longrightarrow> d \<in> set (digits b v) \<Longrightarrow> d < b"
  by (auto simp: digits_def dest: digits_le_less split: if_splits)

lemma value_of_snoc [simp]: "value_of b (ds @ [d]) = value_of b ds * b + d"
  by (simp add: value_of_def)

lemma value_digits_le: "2 \<le> b \<Longrightarrow> value_of b (rev (digits_le b v)) = v"
proof (induction b v rule: digits_le.induct)
  case (1 b v)
  then show ?case
    by (cases "v = 0") (simp_all add: digits_le_step value_of_def)
qed

lemma digits_value: "2 \<le> b \<Longrightarrow> value_of b (digits b v) = v"
  by (simp add: digits_def value_digits_le) (simp add: value_of_def)

lemma length_digits_le: "v < b ^ n \<Longrightarrow> length (digits_le b v) \<le> n"
proof (induction n arbitrary: v)
  case 0
  then show ?case by simp
next
  case (Suc n)
  show ?case
  proof (cases "v = 0 \<or> b < 2")
    case True
    then show ?thesis by (subst digits_le.simps) simp
  next
    case False
    with Suc.prems have "v div b < b ^ n"
      by (simp add: less_mult_imp_div_less mult.commute)
    with Suc.IH False show ?thesis by (simp add: digits_le_step)
  qed
qed

lemma length_digits: "v < b ^ n \<Longrightarrow> 0 < n \<Longrightarrow> length (digits b v) \<le> n"
  by (simp add: digits_def length_digits_le Suc_le_eq)

lemma digits_nonempty [simp]: "2 \<le> b \<Longrightarrow> digits b v \<noteq> []"
  by (simp add: digits_def)

text \<open>Leading digits are nonzero.\<close>

lemma last_digits_le: "2 \<le> b \<Longrightarrow> 0 < v \<Longrightarrow> last (digits_le b v) \<noteq> 0"
proof (induction b v rule: digits_le.induct)
  case (1 b v)
  show ?case
  proof (cases "v div b = 0")
    case True
    with 1 show ?thesis by (simp add: digits_le_step [of v] div_eq_0_iff)
  next
    case False
    with 1 show ?thesis by (simp add: digits_le_step [of v])
  qed
qed

lemma hd_digits: "2 \<le> b \<Longrightarrow> 0 < v \<Longrightarrow> hd (digits b v) \<noteq> 0"
  by (simp add: digits_def hd_rev last_digits_le)

text \<open>The ASCII digits the kernel prints.\<close>

definition hex_digits :: bytes where
  "hex_digits = str ''0123456789abcdef''"

lemma length_hex_digits [simp]: "length hex_digits = 16"
  by (simp add: hex_digits_def)

lemma hex_digit_decimal: "d < 10 \<Longrightarrow> hex_digits ! d = 48 + of_nat d"
proof -
  assume "d < 10"
  then have "d \<in> {0, 1, 2, 3, 4, 5, 6, 7, 8, 9}" by auto
  then show ?thesis by (auto simp: hex_digits_def)
qed

lemma hex_digit_nonzero: "d < 16 \<Longrightarrow> hex_digits ! d \<noteq> 0"
proof -
  assume "d < 16"
  then have "hex_digits ! d \<in> set hex_digits" by simp
  moreover have "0 \<notin> set hex_digits" by (simp add: hex_digits_def)
  ultimately show ?thesis by metis
qed

text \<open>A number in a base up to 16, as text.\<close>

definition render :: "nat \<Rightarrow> nat \<Rightarrow> bytes" where
  "render b v = map (\<lambda>d. hex_digits ! d) (digits b v)"

lemma zero_notin_render:
  assumes "2 \<le> b" and "b \<le> 16"
  shows "0 \<notin> set (render b v)"
proof
  assume "0 \<in> set (render b v)"
  then obtain d where "d \<in> set (digits b v)" and z: "hex_digits ! d = 0"
    by (auto simp: render_def)
  with assms have "d < 16" using digits_less by fastforce
  from hex_digit_nonzero [OF this] z show False by simp
qed

lemma length_render: "v < b ^ n \<Longrightarrow> 0 < n \<Longrightarrow> length (render b v) \<le> n"
  by (simp add: render_def length_digits)

lemma render_inj:
  assumes "2 \<le> b" and "b \<le> 16" and "render b v = render b w"
  shows "v = w"
proof -
  have inj: "inj_on (\<lambda>d. hex_digits ! d) {..<16}"
  proof (rule inj_onI)
    fix x y :: nat
    assume "x \<in> {..<16}" and "y \<in> {..<16}" and eq: "hex_digits ! x = hex_digits ! y"
    then have "x < length hex_digits" and "y < length hex_digits" by auto
    moreover have "distinct hex_digits" by (simp add: hex_digits_def)
    ultimately show "x = y" using eq by (simp add: nth_eq_iff_index_eq)
  qed
  have "set (digits b v) \<union> set (digits b w) \<subseteq> {..<16}"
    using assms(1,2) digits_less by fastforce
  with inj have "inj_on (\<lambda>d. hex_digits ! d) (set (digits b v) \<union> set (digits b w))"
    by (rule inj_on_subset)
  with assms(3) have "digits b v = digits b w"
    by (simp add: render_def map_inj_on)
  then show ?thesis using digits_value [OF assms(1)] by metis
qed

end
