(* ===== verification/Serial.thy ===== *)
theory Serial
  imports Ports Numbers
begin

text \<open>
  The serial port (\<open>kernel/src/src/serial.c\<close>), the kernel's log. A message is passed as a pointer
  and a length the caller writes out; a literal is the list of its bytes and of what the linker
  put behind it, so that a length that is too large prints bytes that are not the message.
\<close>

definition COM1 :: u16 where "COM1 = 0x3f8"

definition serial_init :: "ports \<Rightarrow> ports" where
  "serial_init p =
     outb (COM1 + 4) 0x0B (outb (COM1 + 2) 0xC7 (outb (COM1 + 3) 0x03 (outb (COM1 + 1) 0x00
       (outb (COM1 + 0) 0x03 (outb (COM1 + 3) 0x80 (outb (COM1 + 1) 0x00 p))))))"

definition is_transmit_empty :: "ports \<Rightarrow> (u8 \<times> ports) option" where
  "is_transmit_empty p = do { b \<leftarrow> inb (COM1 + 5) p; Some (fst b AND 0x20, snd b) }"

text \<open>The loop \<open>while (is_transmit_empty() == 0);\<close> and the write.\<close>

definition serial_write_char :: "u8 \<Rightarrow> ports \<Rightarrow> ports option" where
  "serial_write_char a p = do {
     p' \<leftarrow> wait_port (COM1 + 5) (\<lambda>b. b AND 0x20 \<noteq> 0) p;
     Some (outb COM1 a p') }"

definition serial_write :: "bytes \<Rightarrow> nat \<Rightarrow> ports \<Rightarrow> ports option" where
  "serial_write data n = for_each (\<lambda>i p. do { c \<leftarrow> rd data i; serial_write_char c p }) [0..<n]"

definition serial_hex_chars :: bytes where
  "serial_hex_chars = str ''0123456789abcdef''"

text \<open>
  The two loops that fill \<open>buffer\<close> from position \<open>i\<close> down: \<open>i + 1\<close> is the counter here, 0 for
  the \<open>-1\<close> that ends them.
\<close>

fun hex_fill :: "nat \<Rightarrow> nat \<Rightarrow> bytes \<Rightarrow> (nat \<times> bytes) option" where
  "hex_fill n 0 buffer = Some (0, buffer)"
| "hex_fill n (Suc i) buffer =
     (if n > 0
      then do { d \<leftarrow> rd serial_hex_chars (n mod 16); b \<leftarrow> wr buffer i d; hex_fill (n div 16) i b }
      else Some (Suc i, buffer))"

fun zero_fill :: "nat \<Rightarrow> bytes \<Rightarrow> bytes option" where
  "zero_fill 0 buffer = Some buffer"
| "zero_fill (Suc i) buffer = do { b \<leftarrow> wr buffer i 48; zero_fill i b }"

definition serial_print_hex :: "u64 \<Rightarrow> ports \<Rightarrow> ports option" where
  "serial_print_hex n p = do {
     let buffer = replicate 17 0;
     p1 \<leftarrow> serial_write (lit ''0x'') 2 p;
     if n = 0 then serial_write_char 48 p1
     else do {
       (i, b1) \<leftarrow> hex_fill (unat n) 16 buffer;
       b2 \<leftarrow> zero_fill i b1;
       serial_write b2 16 p1 } }"

section \<open>What is sent\<close>

text \<open>The reads of the status port that find the transmitter ready.\<close>

definition ready_count :: "bytes \<Rightarrow> nat" where
  "ready_count bs = length (filter (\<lambda>b. b AND 0x20 \<noteq> 0) bs)"

lemma ready_count_dropWhile:
  "ready_count (dropWhile (\<lambda>b. \<not> b AND 0x20 \<noteq> 0) bs) = ready_count bs"
  by (induction bs) (simp_all add: ready_count_def)

lemma serial_write_char_sent:
  assumes "serial_write_char a p = Some p'"
  shows "sent q p' = sent q p @ (if q = COM1 then [a] else [])"
    and "ready_count (port_answers p) = Suc (ready_count (port_answers p'))"
proof -
  obtain p1 where p1: "wait_port (COM1 + 5) (\<lambda>b. b AND 0x20 \<noteq> 0) p = Some p1" "p' = outb COM1 a p1"
    using assms by (auto simp: serial_write_char_def split: Option.bind_splits)
  show "sent q p' = sent q p @ (if q = COM1 then [a] else [])"
    using wait_port_sent [OF p1(1)] p1(2) by simp
  obtain b where "dropWhile (\<lambda>b. \<not> b AND 0x20 \<noteq> 0) (port_answers p) = b # port_answers p1" "b AND 0x20 \<noteq> 0"
    using wait_port_answers [OF p1(1)] by blast
  then have "ready_count (port_answers p) = Suc (ready_count (port_answers p1))"
    using ready_count_dropWhile [of "port_answers p"] by (simp add: ready_count_def)
  with p1(2) show "ready_count (port_answers p) = Suc (ready_count (port_answers p'))" by simp
qed

lemma serial_write_char_returns:
  "(\<exists>p'. serial_write_char a p = Some p') \<longleftrightarrow> 0 < ready_count (port_answers p)"
proof -
  have "(\<exists>p'. serial_write_char a p = Some p') \<longleftrightarrow> (\<exists>p'. wait_port (COM1 + 5) (\<lambda>b. b AND 0x20 \<noteq> 0) p = Some p')"
    by (auto simp: serial_write_char_def split: Option.bind_splits)
  also have "\<dots> \<longleftrightarrow> 0 < ready_count (port_answers p)"
    unfolding wait_port_returns by (auto simp: ready_count_def filter_empty_conv)
  finally show ?thesis .
qed

text \<open>A loop of character writes: it returns when the transmitter gets ready often enough.\<close>

abbreviation serial_chars :: "bytes \<Rightarrow> nat list \<Rightarrow> ports \<Rightarrow> ports option" where
  "serial_chars data \<equiv> for_each (\<lambda>i p. do { c \<leftarrow> rd data i; serial_write_char c p })"

lemma serial_chars_returns:
  "\<forall>i \<in> set is. i < length data \<Longrightarrow> length is \<le> ready_count (port_answers p) \<Longrightarrow>
     \<exists>p'. serial_chars data is p = Some p' \<and> (\<forall>q. sent q p' = sent q p @ (if q = COM1 then map ((!) data) is else [])) \<and>
       ready_count (port_answers p') = ready_count (port_answers p) - length is"
proof (induction "is" arbitrary: p)
  case (Cons i "is")
  then obtain p1 where w: "serial_write_char (data ! i) p = Some p1"
    using serial_write_char_returns [of "data ! i" p] by (cases "ready_count (port_answers p)") auto
  have c: "ready_count (port_answers p) = Suc (ready_count (port_answers p1))"
    by (rule serial_write_char_sent(2) [OF w])
  then obtain p2 where "serial_chars data is p1 = Some p2"
    "\<forall>q. sent q p2 = sent q p1 @ (if q = COM1 then map ((!) data) is else [])"
    "ready_count (port_answers p2) = ready_count (port_answers p1) - length is"
    using Cons.IH [of p1] Cons.prems by auto
  then show ?case using w Cons.prems c serial_write_char_sent(1) [OF w] by auto
qed simp

lemma serial_chars_waits:
  "\<not> length is \<le> ready_count (port_answers p) \<Longrightarrow> serial_chars data is p = None"
proof (induction "is" arbitrary: p)
  case (Cons i "is")
  show ?case
  proof (cases "Option.bind (rd data i) (\<lambda>c. serial_write_char c p)")
    case (Some p1)
    then obtain c where "serial_write_char c p = Some p1" by (cases "rd data i") auto
    then have "ready_count (port_answers p) = Suc (ready_count (port_answers p1))"
      by (rule serial_write_char_sent(2))
    with Some Cons show ?thesis by simp
  qed simp
qed simp

lemma serial_write_returns:
  assumes "n \<le> length data" and "n \<le> ready_count (port_answers p)"
  obtains p' where "serial_write data n p = Some p'" and "sent COM1 p' = sent COM1 p @ take n data"
    and "ready_count (port_answers p') = ready_count (port_answers p) - n"
    and "\<And>q. q \<noteq> COM1 \<Longrightarrow> sent q p' = sent q p"
proof -
  have m: "map ((!) data) [0..<n] = take n data"
    using assms(1) by (intro nth_equalityI) simp_all
  show ?thesis
    using serial_chars_returns [of "[0..<n]" data p] assms that by (auto simp: serial_write_def m)
qed

lemma serial_write_waits: "ready_count (port_answers p) < n \<Longrightarrow> serial_write data n p = None"
  by (simp add: serial_write_def serial_chars_waits)

section \<open>Hexadecimal numbers\<close>

text \<open>The 16 digits of a 64-bit number.\<close>

fun nibbles :: "nat \<Rightarrow> nat \<Rightarrow> bytes" where
  "nibbles 0 n = []"
| "nibbles (Suc k) n = nibbles k (n div 16) @ [serial_hex_chars ! (n mod 16)]"

lemma length_nibbles [simp]: "length (nibbles k n) = k"
  by (induction k arbitrary: n) simp_all

lemma length_serial_hex_chars [simp]: "length serial_hex_chars = 16"
  by (simp add: serial_hex_chars_def)

lemma nibbles_zero: "nibbles k 0 = replicate k 48"
  by (induction k) (simp_all add: serial_hex_chars_def replicate_append_same)

lemma zero_fill_eq: "i \<le> length b \<Longrightarrow> zero_fill i b = Some (replicate i 48 @ drop i b)"
proof (induction i arbitrary: b)
  case (Suc i)
  then have "drop i (b[i := 48]) = 48 # drop (Suc i) b" by (simp add: Cons_nth_drop_Suc [symmetric])
  moreover have "zero_fill i (b[i := 48]) = Some (replicate i 48 @ drop i (b[i := 48]))"
    using Suc.prems by (intro Suc.IH) simp
  ultimately show ?case using Suc.prems by (simp add: replicate_append_same [symmetric])
qed simp

lemma hex_fill_zero_fill:
  "i \<le> length b \<Longrightarrow> do { (j, b1) \<leftarrow> hex_fill n i b; zero_fill j b1 } = Some (nibbles i n @ drop i b)"
proof (induction i arbitrary: n b)
  case (Suc i)
  show ?case
  proof (cases "n = 0")
    case True
    with Suc.prems zero_fill_eq [of "Suc i" b] show ?thesis
      by (simp add: nibbles_zero [of "Suc i"] del: nibbles.simps replicate.simps zero_fill.simps)
  next
    case False
    let ?b = "b[i := serial_hex_chars ! (n mod 16)]"
    have "drop i ?b = serial_hex_chars ! (n mod 16) # drop (Suc i) b"
      using Suc.prems by (simp add: Cons_nth_drop_Suc [symmetric])
    moreover have "do { (j, b1) \<leftarrow> hex_fill (n div 16) i ?b; zero_fill j b1 } = Some (nibbles i (n div 16) @ drop i ?b)"
      using Suc.prems by (intro Suc.IH) simp
    ultimately show ?thesis using False Suc.prems by simp
  qed
qed simp

definition hex_text :: "u64 \<Rightarrow> bytes" where
  "hex_text n = (if n = 0 then str ''0x0'' else str ''0x'' @ nibbles 16 (unat n))"

lemma serial_print_hex_prints:
  assumes "18 \<le> ready_count (port_answers p)"
  obtains p' where "serial_print_hex n p = Some p'" and "sent COM1 p' = sent COM1 p @ hex_text n"
    and "ready_count (port_answers p') = ready_count (port_answers p) - length (hex_text n)"
    and "\<And>q. q \<noteq> COM1 \<Longrightarrow> sent q p' = sent q p"
proof -
  have l: "2 \<le> length (lit ''0x'')" "take 2 (lit ''0x'') = str ''0x''" by (simp_all add: lit_def)
  have "2 \<le> ready_count (port_answers p)" using assms by simp
  then obtain p1 where p1: "serial_write (lit ''0x'') 2 p = Some p1" "sent COM1 p1 = sent COM1 p @ str ''0x''"
    "ready_count (port_answers p1) = ready_count (port_answers p) - 2" "\<And>q. q \<noteq> COM1 \<Longrightarrow> sent q p1 = sent q p"
    using serial_write_returns [OF l(1), of p] unfolding l(2) by blast
  show ?thesis
  proof (cases "n = 0")
    case True
    obtain p2 where p2: "serial_write_char 48 p1 = Some p2"
      using serial_write_char_returns [of 48 p1] p1(3) assms by auto
    show ?thesis
      using that [of p2] True p1 p2 serial_write_char_sent [OF p2]
      by (simp add: serial_print_hex_def hex_text_def)
  next
    case False
    have "do { (j, b1) \<leftarrow> hex_fill (unat n) 16 (replicate 17 0); zero_fill j b1 } = Some (nibbles 16 (unat n) @ drop 16 (replicate 17 0))"
      by (rule hex_fill_zero_fill) simp
    then obtain j b1 b2 where b: "hex_fill (unat n) 16 (replicate 17 0) = Some (j, b1)" "zero_fill j b1 = Some b2"
      "b2 = nibbles 16 (unat n) @ drop 16 (replicate 17 0)"
      by (auto split: Option.bind_splits)
    have h: "16 \<le> length b2" "16 \<le> ready_count (port_answers p1)" using b(3) p1(3) assms by simp_all
    obtain p2 where p2: "serial_write b2 16 p1 = Some p2" "sent COM1 p2 = sent COM1 p1 @ take 16 b2"
      "ready_count (port_answers p2) = ready_count (port_answers p1) - 16" "\<And>q. q \<noteq> COM1 \<Longrightarrow> sent q p2 = sent q p1"
      using serial_write_returns [OF h] by blast
    show ?thesis
      using that [of p2] False p1 p2 b by (simp add: serial_print_hex_def hex_text_def)
  qed
qed

lemma serial_hex_chars_eq: "serial_hex_chars = hex_digits"
  by (simp add: serial_hex_chars_def hex_digits_def)

text \<open>The digits are those of the number in base 16, padded to 16 places.\<close>

lemma nibbles_digits:
  "n < 16 ^ k \<Longrightarrow> nibbles k n =
     replicate (k - length (digits_le 16 n)) 48 @ rev (map ((!) hex_digits) (digits_le 16 n))"
proof (induction k arbitrary: n)
  case (Suc k)
  show ?case
  proof (cases "n = 0")
    case True
    then show ?thesis using nibbles_zero [of "Suc k"] by simp
  next
    case False
    have d: "digits_le 16 n = n mod 16 # digits_le 16 (n div 16)" using False by (simp add: digits_le_step)
    have "n div 16 < 16 ^ k" using Suc.prems by (simp add: less_mult_imp_div_less mult.commute)
    from Suc.IH [OF this] show ?thesis by (simp add: d serial_hex_chars_eq)
  qed
qed simp

text \<open>
  The hexadecimal printer of the log is total for every number and reads nothing outside its
  buffer: with a transmitter that gets ready 18 times it sends \<open>0x\<close>, zeros up to 16 places and the
  number in base 16 (the number 0 is the one exception: a single digit).
\<close>

theorem serial_print_hex_digits:
  assumes "18 \<le> ready_count (port_answers p)" and "n \<noteq> 0"
  shows "\<exists>p'. serial_print_hex n p = Some p' \<and>
    sent COM1 p' = sent COM1 p @ str ''0x'' @
      replicate (16 - length (render 16 (unat n))) 48 @ render 16 (unat n) \<and>
    ready_count (port_answers p') = ready_count (port_answers p) - 18"
proof -
  have "unat n < 2 ^ 64" using unsigned_less [of n] by simp
  then have "nibbles 16 (unat n) = replicate (16 - length (digits_le 16 (unat n))) 48 @
      rev (map ((!) hex_digits) (digits_le 16 (unat n)))"
    by (intro nibbles_digits) simp
  moreover have "render 16 (unat n) = rev (map ((!) hex_digits) (digits_le 16 (unat n)))"
    using assms(2) by (simp add: render_def digits_def rev_map unat_eq_0)
  ultimately have "hex_text n = str ''0x'' @ replicate (16 - length (render 16 (unat n))) 48 @ render 16 (unat n)"
    using assms(2) by (simp add: hex_text_def)
  moreover have "length (hex_text n) = 18" using assms(2) by (simp add: hex_text_def)
  ultimately show ?thesis using serial_print_hex_prints [OF assms(1), of n] by metis
qed

text \<open>A transmitter that answers not ready once, then ready 18 times.\<close>

theorem serial_print_hex_digits_witness:
  "\<exists>p'. serial_print_hex 0xA5 \<lparr>port_answers = 0 # replicate 18 0x20, port_log = []\<rparr> = Some p' \<and>
     sent COM1 p' = str ''0x'' @ replicate 14 48 @ [97, 53] \<and> ready_count (port_answers p') = 0"
proof -
  let ?p = "\<lparr>port_answers = 0 # replicate 18 0x20, port_log = []\<rparr>"
  have a: "ready_count (port_answers ?p) = 18" by (simp add: ready_count_def)
  have r: "render 16 165 = [97, 53]" by (simp add: render_def digits_def hex_digits_def digits_le.simps)
  have "18 \<le> ready_count (port_answers ?p)" "(0xA5 :: u64) \<noteq> 0" using a by simp_all
  from serial_print_hex_digits [OF this] show ?thesis
    by (simp only: a) (simp add: r sent_def)
qed

end
