(* ===== verification/Log.thy ===== *)
theory Log
  imports Serial
begin

text \<open>
  The log messages of the kernel: calls of \<open>serial_write\<close> with a literal and a length written out
  by hand, and of \<open>serial_print_hex\<close>. \<open>after m\<close> is what the linker put behind the literal \<open>m\<close> and
  its terminator: a length that is too large sends some of it.
\<close>

datatype log_item = Msg bytes nat | Num u64

fun serial_log :: "(bytes \<Rightarrow> bytes) \<Rightarrow> log_item list \<Rightarrow> ports \<Rightarrow> ports option" where
  "serial_log after [] p = Some p"
| "serial_log after (Msg m n # items) p = do { p' \<leftarrow> serial_write (m @ [0] @ after m) n p; serial_log after items p' }"
| "serial_log after (Num w # items) p = do { p' \<leftarrow> serial_print_hex w p; serial_log after items p' }"

text \<open>What is sent, and when every read stays inside what is known.\<close>

fun log_text :: "(bytes \<Rightarrow> bytes) \<Rightarrow> log_item list \<Rightarrow> bytes" where
  "log_text after [] = []"
| "log_text after (Msg m n # items) = take n (m @ [0] @ after m) @ log_text after items"
| "log_text after (Num w # items) = hex_text w @ log_text after items"

fun log_fits :: "(bytes \<Rightarrow> bytes) \<Rightarrow> log_item list \<Rightarrow> bool" where
  "log_fits after [] \<longleftrightarrow> True"
| "log_fits after (Msg m n # items) \<longleftrightarrow> n \<le> length m + 1 + length (after m) \<and> log_fits after items"
| "log_fits after (Num w # items) \<longleftrightarrow> log_fits after items"

lemma log_text_append [simp]: "log_text after (xs @ ys) = log_text after xs @ log_text after ys"
  by (induction after xs rule: log_text.induct) simp_all

lemma log_fits_append [simp]: "log_fits after (xs @ ys) \<longleftrightarrow> log_fits after xs \<and> log_fits after ys"
  by (induction after xs rule: log_fits.induct) simp_all

lemma serial_log_append:
  "serial_log after (xs @ ys) p = do { p' \<leftarrow> serial_log after xs p; serial_log after ys p' }"
  by (induction after xs p rule: serial_log.induct) (simp_all split: Option.bind_split)

text \<open>A log is sent when its lengths fit and the transmitter gets ready often enough (18 times for a number).\<close>

fun log_size :: "log_item list \<Rightarrow> nat" where
  "log_size [] = 0"
| "log_size (Msg m n # items) = n + log_size items"
| "log_size (Num w # items) = 18 + log_size items"

lemma log_size_append [simp]: "log_size (xs @ ys) = log_size xs + log_size ys"
  by (induction xs rule: log_size.induct) simp_all

lemma length_hex_text: "length (hex_text w) \<le> 18"
  by (simp add: hex_text_def)

lemma serial_log_returns:
  "log_fits after items \<Longrightarrow> log_size items \<le> ready_count (port_answers p) \<Longrightarrow>
     \<exists>p'. serial_log after items p = Some p' \<and> sent COM1 p' = sent COM1 p @ log_text after items \<and>
       ready_count (port_answers p) - log_size items \<le> ready_count (port_answers p')"
proof (induction after items p rule: serial_log.induct)
  case (2 after m n items p)
  have "n \<le> length (m @ [0] @ after m)" "n \<le> ready_count (port_answers p)" using "2.prems" by simp_all
  from serial_write_returns [OF this] obtain q where q: "serial_write (m @ [0] @ after m) n p = Some q"
    "sent COM1 q = sent COM1 p @ take n (m @ [0] @ after m)" "ready_count (port_answers q) = ready_count (port_answers p) - n"
    by metis
  have "log_size items \<le> ready_count (port_answers q)" using "2.prems"(2) q(3) by simp
  then obtain r where "serial_log after items q = Some r" "sent COM1 r = sent COM1 q @ log_text after items"
    "ready_count (port_answers q) - log_size items \<le> ready_count (port_answers r)"
    using "2.IH" [OF q(1)] "2.prems"(1) by auto
  then show ?case using q by simp
next
  case (3 after w items p)
  have "18 \<le> ready_count (port_answers p)" using "3.prems"(2) by simp
  from serial_print_hex_prints [OF this, of w] obtain q where q: "serial_print_hex w p = Some q"
    "sent COM1 q = sent COM1 p @ hex_text w" "ready_count (port_answers q) = ready_count (port_answers p) - length (hex_text w)"
    by metis
  have "log_size items \<le> ready_count (port_answers q)" using "3.prems"(2) q(3) length_hex_text [of w] by simp
  then obtain r where "serial_log after items q = Some r" "sent COM1 r = sent COM1 q @ log_text after items"
    "ready_count (port_answers q) - log_size items \<le> ready_count (port_answers r)"
    using "3.IH" [OF q(1)] "3.prems"(1) by auto
  then show ?case using q length_hex_text [of w] by simp
qed simp

text \<open>Lengths that are at most \<open>k\<close> bytes too large.\<close>

definition log_slack :: "nat \<Rightarrow> log_item list \<Rightarrow> bool" where
  "log_slack k = list_all (\<lambda>item. case item of Msg m n \<Rightarrow> n \<le> length m + 1 + k | Num w \<Rightarrow> True)"

lemma log_slack_simps [simp]:
  "log_slack k []" "log_slack k (Msg m n # items) \<longleftrightarrow> n \<le> length m + 1 + k \<and> log_slack k items"
  "log_slack k (Num w # items) \<longleftrightarrow> log_slack k items"
  "log_slack k (xs @ ys) \<longleftrightarrow> log_slack k xs \<and> log_slack k ys"
  by (simp_all add: log_slack_def)

text \<open>At least \<open>k\<close> bytes are known behind every literal.\<close>

definition padded :: "nat \<Rightarrow> (bytes \<Rightarrow> bytes) \<Rightarrow> bool" where
  "padded k after \<longleftrightarrow> (\<forall>m. k \<le> length (after m))"

lemma padded_const [simp]: "padded k (\<lambda>_. bs) \<longleftrightarrow> k \<le> length bs"
  by (simp add: padded_def)

lemma log_slack_fits:
  assumes "padded k after"
  shows "log_slack k items \<Longrightarrow> log_fits after items"
proof (induction items)
  case (Cons item items)
  then show ?case
  proof (cases item)
    case (Msg m n)
    moreover have "k \<le> length (after m)" using assms by (simp add: padded_def)
    ultimately show ?thesis using Cons by simp
  qed simp
qed simp

end
