(* ===== verification/Interfaces.thy ===== *)
theory Interfaces
  imports Prelude
begin

text \<open>
  The contracts between the components, as locales: a client lemma is proved once under the
  laws, and the theory of the providing component interprets the locale on the model of the code.
\<close>

section \<open>A source of physical frames\<close>

text \<open>
  What the virtual memory manager, the program loader and \<open>fork\<close> expect of the physical memory
  manager: \<open>alloc\<close> returns \<open>0\<close> or a page-aligned frame nobody uses and records it as used;
  \<open>free\<close> gives back a managed frame. \<open>managed\<close> is the range the allocator administers.
\<close>

definition page_aligned :: "u64 \<Rightarrow> bool" where
  "page_aligned p \<longleftrightarrow> unat p mod 4096 = 0"

lemma page_aligned_div [simp]: "page_aligned p \<Longrightarrow> unat p div 4096 * 4096 = unat p"
  using div_mult_mod_eq [of "unat p" 4096] by (simp add: page_aligned_def)

locale frame_source =
  fixes inv :: "'s \<Rightarrow> bool"
    and alloc :: "'s \<Rightarrow> (u64 \<times> 's) option"
    and free :: "u64 \<Rightarrow> 's \<Rightarrow> 's option"
    and used :: "'s \<Rightarrow> u64 set"
    and managed :: "'s \<Rightarrow> u64 set"
  assumes alloc_returns: "inv s \<Longrightarrow> \<exists>p s'. alloc s = Some (p, s')"
    and alloc_inv: "inv s \<Longrightarrow> alloc s = Some (p, s') \<Longrightarrow> inv s'"
    and alloc_null: "inv s \<Longrightarrow> alloc s = Some (0, s') \<Longrightarrow> s' = s"
    and alloc_fresh: "inv s \<Longrightarrow> alloc s = Some (p, s') \<Longrightarrow> p \<noteq> 0 \<Longrightarrow> p \<notin> used s"
    and alloc_used: "inv s \<Longrightarrow> alloc s = Some (p, s') \<Longrightarrow> p \<noteq> 0 \<Longrightarrow> used s' = insert p (used s)"
    and alloc_aligned: "inv s \<Longrightarrow> alloc s = Some (p, s') \<Longrightarrow> page_aligned p"
    and alloc_managed: "inv s \<Longrightarrow> alloc s = Some (p, s') \<Longrightarrow> p \<noteq> 0 \<Longrightarrow> p \<in> managed s"
    and alloc_range: "inv s \<Longrightarrow> alloc s = Some (p, s') \<Longrightarrow> managed s' = managed s"
    and free_inv: "inv s \<Longrightarrow> \<exists>s'. free p s = Some s' \<and> inv s' \<and> managed s' = managed s"
    and free_used: "inv s \<Longrightarrow> free p s = Some s' \<Longrightarrow>
          used s' = (if p \<in> managed s then used s - {p} else used s)"
begin

lemma alloc_free:
  assumes "inv s" and "alloc s = Some (p, s1)" and "p \<noteq> 0"
  shows "\<exists>s2. free p s1 = Some s2 \<and> inv s2 \<and> used s2 = used s"
proof -
  have i1: "inv s1" using assms by (blast intro: alloc_inv)
  then obtain s2 where s2: "free p s1 = Some s2" "inv s2" using free_inv by blast
  moreover have "p \<in> managed s1" using assms alloc_managed alloc_range by metis
  ultimately have "used s2 = used s1 - {p}" using free_used [OF i1 s2(1)] by simp
  moreover have "used s1 = insert p (used s)" by (rule alloc_used [OF assms])
  moreover have "p \<notin> used s" by (rule alloc_fresh [OF assms])
  ultimately show ?thesis using s2 by auto
qed

text \<open>A client that allocates \<open>n\<close> frames in a row, stopping at the first \<open>NULL\<close>.\<close>

fun alloc_many :: "nat \<Rightarrow> 's \<Rightarrow> (u64 list \<times> 's) option" where
  "alloc_many 0 s = Some ([], s)"
| "alloc_many (Suc n) s = do {
     (p, s1) \<leftarrow> alloc s;
     if p = 0 then Some ([], s1)
     else do { (ps, s2) \<leftarrow> alloc_many n s1; Some (p # ps, s2) } }"

lemma alloc_many_distinct:
  "inv s \<Longrightarrow> \<exists>ps s'. alloc_many n s = Some (ps, s') \<and> inv s' \<and> length ps \<le> n \<and> distinct ps \<and>
     0 \<notin> set ps \<and> set ps \<inter> used s = {} \<and> used s' = used s \<union> set ps"
proof (induction n arbitrary: s)
  case 0
  then show ?case by simp
next
  case (Suc n)
  obtain p s1 where a: "alloc s = Some (p, s1)" using alloc_returns [OF Suc.prems] by blast
  show ?case
  proof (cases "p = 0")
    case True
    with a Suc.prems have "s1 = s" by (blast intro: alloc_null)
    with True a Suc.prems show ?thesis by simp
  next
    case False
    have i1: "inv s1" using alloc_inv [OF Suc.prems a] .
    have u: "p \<notin> used s" "used s1 = insert p (used s)"
      using alloc_fresh [OF Suc.prems a False] alloc_used [OF Suc.prems a False] by auto
    from Suc.IH [OF i1] obtain ps s2 where
      "alloc_many n s1 = Some (ps, s2)" "inv s2" "length ps \<le> n" "distinct ps"
      "0 \<notin> set ps" "set ps \<inter> used s1 = {}" "used s2 = used s1 \<union> set ps"
      by blast
    with a False u show ?thesis by auto
  qed
qed

end

section \<open>A store of files\<close>

text \<open>
  What the system calls and the program loader expect of the file system: a read of \<open>n\<close> bytes at
  an offset returns that slice of the content, cut at its end. The client lemma is the loop every
  reader runs: chunks read until one is empty make up the whole content.
\<close>

locale file_store =
  fixes inv :: "'s \<Rightarrow> bool"
    and files :: "'s \<Rightarrow> 'f set"
    and data :: "'s \<Rightarrow> 'f \<Rightarrow> bytes"
    and read :: "'f \<Rightarrow> nat \<Rightarrow> nat \<Rightarrow> 's \<Rightarrow> bytes option"
  assumes read_slice: "inv s \<Longrightarrow> f \<in> files s \<Longrightarrow> read f off n s = Some (take n (drop off (data s f)))"
begin

fun read_chunks :: "nat \<Rightarrow> 'f \<Rightarrow> nat \<Rightarrow> nat \<Rightarrow> 's \<Rightarrow> bytes option" where
  "read_chunks 0 f off n s = None"
| "read_chunks (Suc k) f off n s = do {
     d \<leftarrow> read f off n s;
     if d = [] then Some []
     else do { rest \<leftarrow> read_chunks k f (off + length d) n s; Some (d @ rest) } }"

lemma read_chunks_all:
  assumes "inv s" and "f \<in> files s" and "0 < n"
  shows "length (data s f) - off < k \<Longrightarrow> read_chunks k f off n s = Some (drop off (data s f))"
proof (induction k arbitrary: off)
  case (Suc k)
  let ?d = "take n (drop off (data s f))"
  have r: "read f off n s = Some ?d" by (rule read_slice [OF assms(1,2)])
  show ?case
  proof (cases "?d = []")
    case True
    with r assms(3) show ?thesis by simp
  next
    case False
    then have "read_chunks k f (off + length ?d) n s = Some (drop (off + length ?d) (data s f))"
      using Suc.prems assms(3) by (intro Suc.IH) auto
    moreover have "?d @ drop (off + length ?d) (data s f) = drop off (data s f)"
      by (metis append_take_drop_id drop_drop add.commute length_take min_def take_all_iff drop_all
          nat_le_linear append_Nil2)
    ultimately show ?thesis using r False by simp
  qed
qed simp

end

text \<open>What a write of \<open>b\<close> at \<open>off\<close> makes of a content: a gap is filled with zeros.\<close>

definition overlay :: "bytes \<Rightarrow> nat \<Rightarrow> bytes \<Rightarrow> bytes" where
  "overlay c off b = take off (c @ replicate (off - length c) 0) @ b @ drop (off + length b) c"

lemma length_overlay [simp]: "length (overlay c off b) = max (length c) (off + length b)"
  by (auto simp: overlay_def max_def)

lemma overlay_read: "take (length b) (drop off (overlay c off b)) = b"
  by (auto simp: overlay_def)

lemma overlay_append: "overlay c (length c) b = c @ b"
  by (simp add: overlay_def)

text \<open>
  A store that can be written: a write within the \<open>fits\<close> condition stores everything or nothing,
  and touches no other file.
\<close>

locale writable_store = file_store +
  fixes "write" :: "'b \<Rightarrow> nat \<Rightarrow> bytes \<Rightarrow> 'a \<Rightarrow> (nat \<times> 'a) option"
    and fits :: "'a \<Rightarrow> 'b \<Rightarrow> nat \<Rightarrow> nat \<Rightarrow> bool"
  assumes write_total: "inv s \<Longrightarrow> f \<in> files s \<Longrightarrow> fits s f off (length b) \<Longrightarrow>
      \<exists>n s'. write f off b s = Some (n, s') \<and> inv s' \<and> files s' = files s \<and>
        (\<forall>g \<in> files s. g \<noteq> f \<longrightarrow> data s' g = data s g) \<and>
        (n = 0 \<and> data s' f = data s f \<or> n = length b \<and> data s' f = overlay (data s f) off b)"
begin

lemma write_read_back:
  assumes "inv s" and "f \<in> files s" and "fits s f off (length b)"
  shows "\<exists>n s'. write f off b s = Some (n, s') \<and> inv s' \<and>
    (n = 0 \<or> n = length b \<and> read f off (length b) s' = Some b) \<and>
    (\<forall>g \<in> files s. g \<noteq> f \<longrightarrow> (\<forall>o' k. read g o' k s' = read g o' k s))"
proof -
  obtain n s' where w: "write f off b s = Some (n, s')" "inv s'" "files s' = files s"
    "\<forall>g \<in> files s. g \<noteq> f \<longrightarrow> data s' g = data s g"
    "n = 0 \<and> data s' f = data s f \<or> n = length b \<and> data s' f = overlay (data s f) off b"
    using write_total [OF assms] by blast
  have "read g o' k s' = read g o' k s" if "g \<in> files s" "g \<noteq> f" for g o' k
    using w that assms(1) by (simp add: read_slice)
  moreover have "n = 0 \<or> n = length b \<and> read f off (length b) s' = Some b"
    using w assms(2) by (auto simp: read_slice overlay_read)
  ultimately show ?thesis using w(1,2) by blast
qed

text \<open>A write at the end appends.\<close>

lemma write_appends:
  assumes "inv s" and "f \<in> files s" and "fits s f (length (data s f)) (length b)"
  shows "\<exists>n s'. write f (length (data s f)) b s = Some (n, s') \<and> inv s' \<and>
    (n = 0 \<and> data s' f = data s f \<or> n = length b \<and> data s' f = data s f @ b)"
  using write_total [OF assms] by (auto simp: overlay_append)

end

end
