(* ===== verification/Pmm.thy ===== *)
theory Pmm
  imports Interfaces
begin

text \<open>
  The physical memory manager (the first half of \<open>kernel/src/src/vmm.c\<close>): a bitmap with one bit
  per 4 KiB frame below 4 GiB, a bit set for a frame in use, scanned from the frame after the last
  allocation. The bitmap is a function on byte indices whose accesses check the bound of the
  array \<open>pmm_bitmap\<close>. The boot information (memory map, kernel address, symbol addresses)
  comes from the Limine headers and the linker and is a parameter.
\<close>

section \<open>State and bitmap\<close>

definition PAGE_SIZE :: nat where
  "PAGE_SIZE = 4096"

definition PMM_MAX_PHYS_ADDR :: nat where
  "PMM_MAX_PHYS_ADDR = 4 * 1024 * 1024 * 1024"

definition PMM_BITMAP_SIZE :: nat where
  "PMM_BITMAP_SIZE = (PMM_MAX_PHYS_ADDR div PAGE_SIZE) div 8"

record pmm_state =
  pmm_bitmap :: "nat \<Rightarrow> u8"
  pmm_last_alloc_index :: nat
  pmm_highest_address :: nat

text \<open>The static variables before the first call: zero-initialised.\<close>

definition pmm_boot :: pmm_state where
  "pmm_boot = \<lparr>pmm_bitmap = (\<lambda>_. 0), pmm_last_alloc_index = 0, pmm_highest_address = 0\<rparr>"

definition pmm_bitmap_set :: "nat \<Rightarrow> pmm_state \<Rightarrow> pmm_state option" where
  "pmm_bitmap_set b s =
     (if b div 8 < PMM_BITMAP_SIZE
      then Some (s\<lparr>pmm_bitmap := (pmm_bitmap s)
             (b div 8 := pmm_bitmap s (b div 8) OR push_bit (b mod 8) 1)\<rparr>)
      else None)"

definition pmm_bitmap_unset :: "nat \<Rightarrow> pmm_state \<Rightarrow> pmm_state option" where
  "pmm_bitmap_unset b s =
     (if b div 8 < PMM_BITMAP_SIZE
      then Some (s\<lparr>pmm_bitmap := (pmm_bitmap s)
             (b div 8 := pmm_bitmap s (b div 8) AND NOT (push_bit (b mod 8) 1))\<rparr>)
      else None)"

definition pmm_bitmap_test :: "nat \<Rightarrow> pmm_state \<Rightarrow> bool option" where
  "pmm_bitmap_test b s =
     (if b div 8 < PMM_BITMAP_SIZE
      then Some (pmm_bitmap s (b div 8) AND push_bit (b mod 8) 1 \<noteq> 0)
      else None)"

section \<open>Initialisation from the memory map\<close>

record memmap_entry =
  me_base :: nat
  me_length :: nat
  me_type :: nat

record kernel_address =
  ka_physical_base :: nat
  ka_virtual_base :: nat

text \<open>The body of the inner loop over the frames of a usable entry.\<close>

definition pmm_mark_usable :: "nat \<Rightarrow> pmm_state \<Rightarrow> pmm_state option" where
  "pmm_mark_usable frame s =
     (if frame * PAGE_SIZE \<ge> PMM_MAX_PHYS_ADDR then Some s
      else do {
        s1 \<leftarrow> pmm_bitmap_unset frame s;
        Some (if (frame + 1) * PAGE_SIZE > pmm_highest_address s1
              then s1\<lparr>pmm_highest_address := (frame + 1) * PAGE_SIZE\<rparr> else s1) })"

definition pmm_add_entry :: "nat \<Rightarrow> memmap_entry \<Rightarrow> pmm_state \<Rightarrow> pmm_state option" where
  "pmm_add_entry usable_type entry s =
     (if me_type entry = usable_type
      then (let start_frame = size_add (me_base entry) (PAGE_SIZE - 1) div PAGE_SIZE;
                end_frame = size_add (me_base entry) (me_length entry) div PAGE_SIZE
            in for_each pmm_mark_usable [start_frame..<end_frame] s)
      else Some s)"

text \<open>The loops that mark the kernel's and the bitmap's own frames as used.\<close>

definition pmm_mark_used :: "nat \<Rightarrow> pmm_state \<Rightarrow> pmm_state option" where
  "pmm_mark_used frame s =
     (if frame * PAGE_SIZE \<ge> PMM_MAX_PHYS_ADDR then Some s else pmm_bitmap_set frame s)"

text \<open>The size of the kernel image from the linker symbol, with the 16 MiB fallback.\<close>

definition pmm_kernel_size :: "nat \<Rightarrow> kernel_address \<Rightarrow> nat" where
  "pmm_kernel_size kernel_end ka =
     (let sz = size_sub kernel_end (ka_virtual_base ka) in
      if sz = 0 \<or> sz > 512 * 1024 * 1024 then 16 * 1024 * 1024 else sz)"

text \<open>
  \<open>pmm_init\<close>: \<open>memmap\<close> and \<open>kaddr\<close> are the two Limine responses (\<open>None\<close> for \<open>NULL\<close>, on which
  the code loops forever), \<open>kernel_end\<close> and \<open>bitmap_addr\<close> the addresses of the symbols
  \<open>_kernel_end\<close> and \<open>pmm_bitmap\<close>.
\<close>

definition pmm_init ::
  "nat \<Rightarrow> memmap_entry list option \<Rightarrow> kernel_address option \<Rightarrow> nat \<Rightarrow> nat \<Rightarrow> pmm_state
     \<Rightarrow> pmm_state option" where
  "pmm_init usable_type memmap kaddr kernel_end bitmap_addr s = do {
     entries \<leftarrow> memmap;
     s1 \<leftarrow> for_each (pmm_add_entry usable_type) entries (s\<lparr>pmm_bitmap := (\<lambda>_. 0xFF)\<rparr>);
     ka \<leftarrow> kaddr;
     let kernel_size = pmm_kernel_size kernel_end ka;
     let kernel_start_frame = ka_physical_base ka div PAGE_SIZE;
     let kernel_end_frame =
       size_add (ka_physical_base ka) (kernel_size + PAGE_SIZE - 1) div PAGE_SIZE;
     s2 \<leftarrow> for_each pmm_mark_used [kernel_start_frame..<kernel_end_frame] s1;
     let bitmap_start_frame = bitmap_addr div PAGE_SIZE;
     let bitmap_end_frame = size_add bitmap_addr (PMM_BITMAP_SIZE + PAGE_SIZE - 1) div PAGE_SIZE;
     s3 \<leftarrow> for_each pmm_mark_used [bitmap_start_frame..<bitmap_end_frame] s2;
     Some (s3\<lparr>pmm_last_alloc_index := 0\<rparr>) }"

section \<open>Allocation and release\<close>

text \<open>The scan of \<open>pmm_alloc_frame\<close> from its \<open>i\<close>-th step; the result 0 is \<open>NULL\<close>.\<close>

function pmm_alloc_scan :: "nat \<Rightarrow> nat \<Rightarrow> pmm_state \<Rightarrow> (u64 \<times> pmm_state) option" where
  "pmm_alloc_scan max_bits i s =
     (if i < max_bits
      then (let current_index = (pmm_last_alloc_index s + i) mod max_bits in
            if current_index * PAGE_SIZE < 0x100000 then pmm_alloc_scan max_bits (i + 1) s
            else do {
              used \<leftarrow> pmm_bitmap_test current_index s;
              if \<not> used
              then do { s' \<leftarrow> pmm_bitmap_set current_index s;
                        Some (word_of_nat (current_index * PAGE_SIZE),
                              s'\<lparr>pmm_last_alloc_index := current_index + 1\<rparr>) }
              else pmm_alloc_scan max_bits (i + 1) s })
      else Some (0, s))"
  by pat_completeness auto
termination
  by (relation "measure (\<lambda>(max_bits, i, s). max_bits - i)") auto

declare pmm_alloc_scan.simps [simp del]

definition pmm_alloc_frame :: "pmm_state \<Rightarrow> (u64 \<times> pmm_state) option" where
  "pmm_alloc_frame s = pmm_alloc_scan (pmm_highest_address s div PAGE_SIZE) 0 s"

text \<open>\<open>pmm_free_frame\<close> returns nothing; a misaligned or out-of-range address leaves the state.\<close>

definition pmm_free_frame :: "u64 \<Rightarrow> pmm_state \<Rightarrow> pmm_state option" where
  "pmm_free_frame frame_addr s =
     (let phys_addr = unat frame_addr; bit_index = phys_addr div PAGE_SIZE in
      if phys_addr mod PAGE_SIZE \<noteq> 0 then Some s
      else if bit_index * PAGE_SIZE \<ge> pmm_highest_address s then Some s
      else pmm_bitmap_unset bit_index s)"

section \<open>The bitmap as a set of frames\<close>

text \<open>The number of frames the bitmap describes.\<close>

definition PMM_FRAMES :: nat where
  "PMM_FRAMES = PMM_MAX_PHYS_ADDR div PAGE_SIZE"

lemma pmm_consts:
  "PAGE_SIZE = 4096" "PMM_MAX_PHYS_ADDR = 4294967296" "PMM_BITMAP_SIZE = 131072"
  "PMM_FRAMES = 1048576"
  by (simp_all add: PAGE_SIZE_def PMM_MAX_PHYS_ADDR_def PMM_BITMAP_SIZE_def PMM_FRAMES_def)

definition in_use :: "pmm_state \<Rightarrow> nat \<Rightarrow> bool" where
  "in_use s f \<longleftrightarrow> bit (pmm_bitmap s (f div 8)) (f mod 8)"

lemma in_bitmap_iff: "f div 8 < PMM_BITMAP_SIZE \<longleftrightarrow> f < PMM_FRAMES"
  by (simp add: pmm_consts) linarith

lemma same_bit_iff: "(g :: nat) div 8 = f div 8 \<and> g mod 8 = f mod 8 \<longleftrightarrow> g = f"
  by (metis div_mult_mod_eq)

lemma pmm_bitmap_test_eq: "f < PMM_FRAMES \<Longrightarrow> pmm_bitmap_test f s = Some (in_use s f)"
  by (simp add: pmm_bitmap_test_def in_bitmap_iff in_use_def bit_iff_and_push_bit_not_eq_0)

lemma pmm_bitmap_set_eq:
  assumes "f < PMM_FRAMES"
  obtains s' where "pmm_bitmap_set f s = Some s'"
    and "\<And>g. in_use s' g \<longleftrightarrow> g = f \<or> in_use s g"
    and "pmm_last_alloc_index s' = pmm_last_alloc_index s"
    and "pmm_highest_address s' = pmm_highest_address s"
proof
  let ?s = "s\<lparr>pmm_bitmap := (pmm_bitmap s)
             (f div 8 := pmm_bitmap s (f div 8) OR push_bit (f mod 8) 1)\<rparr>"
  show "pmm_bitmap_set f s = Some ?s"
    using assms by (simp add: pmm_bitmap_set_def in_bitmap_iff)
  show "in_use ?s g \<longleftrightarrow> g = f \<or> in_use s g" for g
    using same_bit_iff [of g f]
    by (auto simp: in_use_def bit_or_iff bit_exp_iff)
qed simp_all

lemma pmm_bitmap_unset_eq:
  assumes "f < PMM_FRAMES"
  obtains s' where "pmm_bitmap_unset f s = Some s'"
    and "\<And>g. in_use s' g \<longleftrightarrow> g \<noteq> f \<and> in_use s g"
    and "pmm_last_alloc_index s' = pmm_last_alloc_index s"
    and "pmm_highest_address s' = pmm_highest_address s"
proof
  let ?s = "s\<lparr>pmm_bitmap := (pmm_bitmap s)
             (f div 8 := pmm_bitmap s (f div 8) AND NOT (push_bit (f mod 8) 1))\<rparr>"
  show "pmm_bitmap_unset f s = Some ?s"
    using assms by (simp add: pmm_bitmap_unset_def in_bitmap_iff)
  show "in_use ?s g \<longleftrightarrow> g \<noteq> f \<and> in_use s g" for g
    using same_bit_iff [of g f]
    by (auto simp: in_use_def bit_and_iff bit_not_iff bit_exp_iff)
qed simp_all

section \<open>Invariant, and the frames an allocator owns\<close>

definition pmm_inv :: "pmm_state \<Rightarrow> bool" where
  "pmm_inv s \<longleftrightarrow> pmm_highest_address s \<le> PMM_MAX_PHYS_ADDR \<and> PAGE_SIZE dvd pmm_highest_address s"

definition frame_addr :: "nat \<Rightarrow> u64" where
  "frame_addr f = word_of_nat (f * PAGE_SIZE)"

definition owned :: "pmm_state \<Rightarrow> u64 set" where
  "owned s = frame_addr ` {f. f < PMM_FRAMES \<and> in_use s f}"

lemma unat_frame_addr: "f < PMM_FRAMES \<Longrightarrow> unat (frame_addr f) = f * 4096"
  unfolding frame_addr_def unat_of_nat by (simp add: pmm_consts)

lemma frame_addr_inj: "f < PMM_FRAMES \<Longrightarrow> g < PMM_FRAMES \<Longrightarrow> frame_addr f = frame_addr g \<longleftrightarrow> f = g"
proof -
  assume "f < PMM_FRAMES" and "g < PMM_FRAMES"
  then have "frame_addr f = frame_addr g \<Longrightarrow> f * 4096 = g * 4096"
    using unat_frame_addr by metis
  then show ?thesis by auto
qed

lemma frame_addr_owned: "f < PMM_FRAMES \<Longrightarrow> frame_addr f \<in> owned s \<longleftrightarrow> in_use s f"
  by (auto simp: owned_def frame_addr_inj)

lemma frame_addr_nonzero: "0 < f \<Longrightarrow> f < PMM_FRAMES \<Longrightarrow> frame_addr f \<noteq> 0"
  using unat_frame_addr [of f] by (metis mult_eq_0_iff not_less0 unat_0 zero_neq_numeral)

lemma max_bits_le: "pmm_inv s \<Longrightarrow> f < pmm_highest_address s div PAGE_SIZE \<Longrightarrow> f < PMM_FRAMES"
  by (simp add: pmm_inv_def pmm_consts) linarith

lemma owned_set:
  assumes "f < PMM_FRAMES" and "\<And>g. in_use s' g \<longleftrightarrow> g = f \<or> in_use s g"
  shows "owned s' = insert (frame_addr f) (owned s)"
proof -
  have "{g. g < PMM_FRAMES \<and> in_use s' g} = insert f {g. g < PMM_FRAMES \<and> in_use s g}"
    using assms by blast
  then show ?thesis by (simp add: owned_def)
qed

lemma owned_unset:
  assumes "f < PMM_FRAMES" and "\<And>g. in_use s' g \<longleftrightarrow> g \<noteq> f \<and> in_use s g"
  shows "owned s' = owned s - {frame_addr f}"
proof -
  have "{g. g < PMM_FRAMES \<and> in_use s' g} = {g. g < PMM_FRAMES \<and> in_use s g} - {f}"
    using assms by blast
  moreover have "inj_on frame_addr {g. g < PMM_FRAMES}"
    by (rule inj_onI) (simp add: frame_addr_inj)
  ultimately show ?thesis
    using assms(1) by (simp add: owned_def)
      (subst inj_on_image_set_diff [where C = "{g. g < PMM_FRAMES}"]; auto)
qed

section \<open>Allocation\<close>

text \<open>
  The outcome of a scan from step \<open>i\<close>: either the frame it took, with the facts the callers
  rely on, or \<open>NULL\<close>, and then no step from \<open>i\<close> on met a free frame above 1 MiB.
\<close>

lemma pmm_alloc_scan_result:
  assumes "pmm_inv s" and "max_bits = pmm_highest_address s div PAGE_SIZE"
  shows "(\<exists>f s'. pmm_alloc_scan max_bits i s = Some (frame_addr f, s') \<and>
            256 \<le> f \<and> f < max_bits \<and> \<not> in_use s f \<and>
            (\<forall>g. in_use s' g \<longleftrightarrow> g = f \<or> in_use s g) \<and>
            pmm_last_alloc_index s' = f + 1 \<and> pmm_highest_address s' = pmm_highest_address s)
       \<or> (pmm_alloc_scan max_bits i s = Some (0, s) \<and>
            (\<forall>k. i \<le> k \<and> k < max_bits \<longrightarrow>
               (let c = (pmm_last_alloc_index s + k) mod max_bits in c < 256 \<or> in_use s c)))"
  using assms
proof (induction max_bits i s rule: pmm_alloc_scan.induct)
  case (1 max_bits i s)
  let ?c = "(pmm_last_alloc_index s + i) mod max_bits"
  show ?case
  proof (cases "i < max_bits")
    case False
    then show ?thesis by (subst (2) pmm_alloc_scan.simps) simp
  next
    case i: True
    then have c: "?c < PMM_FRAMES" using "1.prems" max_bits_le [of s ?c] by simp
    show ?thesis
    proof (cases "?c < 256 \<or> in_use s ?c")
      case True
      then have "pmm_alloc_scan max_bits i s = pmm_alloc_scan max_bits (i + 1) s"
        using i c by (subst pmm_alloc_scan.simps)
          (auto simp: Let_def pmm_bitmap_test_eq PAGE_SIZE_def)
      moreover have "(?c * PAGE_SIZE < 0x100000) = (?c < 256)" by (auto simp: PAGE_SIZE_def)
      moreover have "i \<le> k \<longleftrightarrow> k = i \<or> Suc i \<le> k" for k by auto
      ultimately show ?thesis
        using "1.IH" i c "1.prems" True
        by (auto simp: pmm_bitmap_test_eq Let_def)
    next
      case False
      obtain s' where s': "pmm_bitmap_set ?c s = Some s'"
        "\<And>g. in_use s' g \<longleftrightarrow> g = ?c \<or> in_use s g"
        "pmm_last_alloc_index s' = pmm_last_alloc_index s"
        "pmm_highest_address s' = pmm_highest_address s"
        using pmm_bitmap_set_eq [OF c] by blast
      have "pmm_alloc_scan max_bits i s =
          Some (frame_addr ?c, s'\<lparr>pmm_last_alloc_index := ?c + 1\<rparr>)"
        using i c False s'(1) by (subst pmm_alloc_scan.simps)
          (simp add: Let_def pmm_bitmap_test_eq PAGE_SIZE_def frame_addr_def)
      moreover have "in_use (s'\<lparr>pmm_last_alloc_index := ?c + 1\<rparr>) g \<longleftrightarrow> g = ?c \<or> in_use s g" for g
        using s'(2) by (simp add: in_use_def)
      ultimately show ?thesis using False i s'(4) by auto
    qed
  qed
qed

text \<open>The scan from step 0 meets every frame below the limit.\<close>

lemma scan_covers: "f < m \<Longrightarrow> \<exists>k < m. (l + k) mod m = (f :: nat)"
proof -
  assume f: "f < m"
  let ?k = "(f + (m - l mod m)) mod m"
  have "(l + ?k) mod m = (l mod m + (f + (m - l mod m))) mod m"
    by (simp add: mod_simps)
  also have "l mod m + (f + (m - l mod m)) = f + m"
    using f mod_le_divisor [of m l] by linarith
  finally have "(l + ?k) mod m = f" using f by simp
  then show ?thesis using f by (intro exI [of _ ?k]) simp
qed

lemma pmm_alloc_frame_cases:
  assumes "pmm_inv s"
  obtains (frame) f s' where "pmm_alloc_frame s = Some (frame_addr f, s')"
      and "256 \<le> f" and "f < pmm_highest_address s div PAGE_SIZE" and "\<not> in_use s f"
      and "\<And>g. in_use s' g \<longleftrightarrow> g = f \<or> in_use s g"
      and "pmm_last_alloc_index s' = f + 1"
      and "pmm_highest_address s' = pmm_highest_address s" and "pmm_inv s'"
  | (full) "pmm_alloc_frame s = Some (0, s)"
      and "\<And>f. 256 \<le> f \<Longrightarrow> f < pmm_highest_address s div PAGE_SIZE \<Longrightarrow> in_use s f"
proof -
  let ?m = "pmm_highest_address s div PAGE_SIZE"
  from pmm_alloc_scan_result [OF assms refl, of 0] consider
    f s' where "pmm_alloc_scan ?m 0 s = Some (frame_addr f, s')" "256 \<le> f" "f < ?m" "\<not> in_use s f"
      "\<forall>g. in_use s' g \<longleftrightarrow> g = f \<or> in_use s g" "pmm_last_alloc_index s' = f + 1"
      "pmm_highest_address s' = pmm_highest_address s"
  | "pmm_alloc_scan ?m 0 s = Some (0, s)"
      "\<forall>k < ?m. (let c = (pmm_last_alloc_index s + k) mod ?m in c < 256 \<or> in_use s c)"
    by auto
  then show thesis
  proof cases
    case 1
    with assms show thesis by (intro frame [of f s']) (auto simp: pmm_alloc_frame_def pmm_inv_def)
  next
    case 2
    show thesis
    proof (rule full)
      fix f
      assume "256 \<le> f" and "f < ?m"
      then show "in_use s f"
        using scan_covers [of f ?m "pmm_last_alloc_index s"] 2(2) by (auto simp: Let_def)
    qed (simp add: pmm_alloc_frame_def 2(1))
  qed
qed

section \<open>Release\<close>

text \<open>The addresses \<open>pmm_free_frame\<close> accepts.\<close>

definition managed :: "pmm_state \<Rightarrow> u64 set" where
  "managed s = {p. page_aligned p \<and> unat p < pmm_highest_address s}"

lemma managed_frame:
  assumes "pmm_inv s" and "p \<in> managed s"
  obtains f where "p = frame_addr f" and "f < PMM_FRAMES" and "unat p div PAGE_SIZE = f"
    and "f * PAGE_SIZE < pmm_highest_address s"
proof -
  let ?f = "unat p div 4096"
  have al: "?f * 4096 = unat p" and lt: "unat p < pmm_highest_address s"
    using assms(2) by (simp_all add: managed_def)
  have "unat p < 4294967296" using lt assms(1) by (simp add: pmm_inv_def pmm_consts)
  then have f: "?f < PMM_FRAMES" by (simp add: pmm_consts)
  have "unat p = unat (frame_addr ?f)"
    by (simp only: unat_frame_addr [OF f] al)
  then have "p = frame_addr ?f" by (rule word_unat_eq_iff [THEN iffD2])
  then show thesis
    using that [of ?f] f al lt by (simp only: PAGE_SIZE_def)
qed

lemma pmm_free_frame_managed:
  assumes "pmm_inv s" and "p \<in> managed s"
  obtains f s' where "p = frame_addr f" and "f < PMM_FRAMES" and "pmm_free_frame p s = Some s'"
    and "\<And>g. in_use s' g \<longleftrightarrow> g \<noteq> f \<and> in_use s g"
    and "pmm_highest_address s' = pmm_highest_address s"
proof -
  obtain f where f: "p = frame_addr f" "f < PMM_FRAMES" "unat p div PAGE_SIZE = f"
    "f * PAGE_SIZE < pmm_highest_address s"
    using managed_frame [OF assms] .
  obtain s' where s': "pmm_bitmap_unset f s = Some s'"
    "\<And>g. in_use s' g \<longleftrightarrow> g \<noteq> f \<and> in_use s g"
    "pmm_highest_address s' = pmm_highest_address s"
    by (rule pmm_bitmap_unset_eq [OF f(2)]) blast
  have "pmm_free_frame p s = pmm_bitmap_unset f s"
    using f(3,4) assms(2)
    by (auto simp: pmm_free_frame_def Let_def managed_def page_aligned_def PAGE_SIZE_def)
  with s' f(1,2) show thesis by (intro that [of f s']) simp_all
qed

lemma pmm_free_frame_other:
  assumes "p \<notin> managed s"
  shows "pmm_free_frame p s = Some s"
proof (cases "page_aligned p")
  case True
  with assms show ?thesis
    by (simp add: pmm_free_frame_def Let_def managed_def PAGE_SIZE_def not_less)
next
  case False
  then show ?thesis by (simp add: pmm_free_frame_def Let_def page_aligned_def PAGE_SIZE_def)
qed

interpretation pmm: frame_source pmm_inv pmm_alloc_frame pmm_free_frame owned managed
proof
  fix s :: pmm_state and p :: u64 and s' :: pmm_state
  assume inv: "pmm_inv s"
  show "\<exists>p s'. pmm_alloc_frame s = Some (p, s')"
    by (rule pmm_alloc_frame_cases [OF inv]) blast+
  show "\<exists>s'. pmm_free_frame p s = Some s' \<and> pmm_inv s' \<and> managed s' = managed s"
  proof (cases "p \<in> managed s")
    case True
    obtain t where "pmm_free_frame p s = Some t" "pmm_highest_address t = pmm_highest_address s"
      by (rule pmm_free_frame_managed [OF inv True]) blast
    with inv show ?thesis by (simp add: pmm_inv_def managed_def)
  next
    case False
    with inv show ?thesis by (simp add: pmm_free_frame_other)
  qed
  assume al: "pmm_alloc_frame s = Some (p, s')"
  consider f where "p = frame_addr f" "256 \<le> f" "f < pmm_highest_address s div PAGE_SIZE"
      "f < PMM_FRAMES" "\<not> in_use s f" "owned s' = insert p (owned s)" "pmm_inv s'"
      "pmm_highest_address s' = pmm_highest_address s"
    | "p = 0" "s' = s"
  proof (rule pmm_alloc_frame_cases [OF inv])
    fix f t
    assume f: "pmm_alloc_frame s = Some (frame_addr f, t)" "256 \<le> f"
      "f < pmm_highest_address s div PAGE_SIZE" "\<not> in_use s f"
      "\<And>g. in_use t g \<longleftrightarrow> g = f \<or> in_use s g"
      "pmm_highest_address t = pmm_highest_address s" "pmm_inv t"
    moreover have "f < PMM_FRAMES" using max_bits_le [OF inv f(3)] .
    ultimately show thesis using that(1) [of f] al owned_set [of f t s] by simp
  next
    assume "pmm_alloc_frame s = Some (0, s)"
    with al show thesis using that(2) by simp
  qed
  note cases = this
  show "pmm_inv s'" using cases inv by cases auto
  show "page_aligned p"
    using cases by cases (auto simp: page_aligned_def unat_frame_addr)
  show "managed s' = managed s" using cases by cases (auto simp: managed_def)
  show "p \<noteq> 0 \<Longrightarrow> p \<notin> owned s"
    using cases by cases (auto simp: frame_addr_owned)
  show "p \<noteq> 0 \<Longrightarrow> owned s' = insert p (owned s)"
    using cases by cases auto
  show "p \<noteq> 0 \<Longrightarrow> p \<in> managed s"
    using cases
    by cases (auto simp: managed_def page_aligned_def unat_frame_addr PAGE_SIZE_def)
next
  fix s s' :: pmm_state
  assume inv: "pmm_inv s" and null: "pmm_alloc_frame s = Some (0, s')"
  show "s' = s"
  proof (rule pmm_alloc_frame_cases [OF inv])
    fix f t
    assume "pmm_alloc_frame s = Some (frame_addr f, t)" and "256 \<le> f"
      and "f < pmm_highest_address s div PAGE_SIZE"
    with null show ?thesis
      using frame_addr_nonzero [of f] max_bits_le [OF inv, of f] by simp
  qed (use null in simp)
next
  fix s s' :: pmm_state and p :: u64
  assume inv: "pmm_inv s" and fr: "pmm_free_frame p s = Some s'"
  show "owned s' = (if p \<in> managed s then owned s - {p} else owned s)"
  proof (cases "p \<in> managed s")
    case True
    show ?thesis
    proof (rule pmm_free_frame_managed [OF inv True])
      fix f t
      assume "p = frame_addr f" and "f < PMM_FRAMES" and "pmm_free_frame p s = Some t"
        and "\<And>g. in_use t g \<longleftrightarrow> g \<noteq> f \<and> in_use s g"
      with fr True show ?thesis using owned_unset [of f t s] by simp
    qed
  next
    case False
    with fr show ?thesis by (simp add: pmm_free_frame_other)
  qed
qed

section \<open>Initialisation\<close>

text \<open>A frame lies wholly inside a region of memory, or overlaps it.\<close>

definition frame_within :: "nat \<Rightarrow> nat \<Rightarrow> nat \<Rightarrow> bool" where
  "frame_within f base len \<longleftrightarrow> base \<le> f * PAGE_SIZE \<and> (f + 1) * PAGE_SIZE \<le> base + len"

definition frame_overlaps :: "nat \<Rightarrow> nat \<Rightarrow> nat \<Rightarrow> bool" where
  "frame_overlaps f base len \<longleftrightarrow> f * PAGE_SIZE < base + len \<and> base < (f + 1) * PAGE_SIZE"

lemma frame_within_iff:
  "frame_within f base len \<longleftrightarrow> f \<in> {(base + 4095) div 4096..<(base + len) div 4096}"
  by (simp add: frame_within_def PAGE_SIZE_def) linarith

lemma frame_overlaps_iff:
  "0 < len \<Longrightarrow> frame_overlaps f base len \<longleftrightarrow> f \<in> {base div 4096..<(base + len + 4095) div 4096}"
  by (simp add: frame_overlaps_def PAGE_SIZE_def) linarith

definition freed :: "pmm_state \<Rightarrow> (nat \<Rightarrow> bool) \<Rightarrow> pmm_state \<Rightarrow> bool" where
  "freed s P t \<longleftrightarrow> pmm_inv t \<and> pmm_highest_address s \<le> pmm_highest_address t \<and>
     (\<forall>g. g < PMM_FRAMES \<longrightarrow>
        (in_use t g \<longleftrightarrow> in_use s g \<and> \<not> P g) \<and>
        (P g \<longrightarrow> (g + 1) * PAGE_SIZE \<le> pmm_highest_address t))"

lemma freed_trans:
  "freed s P t \<Longrightarrow> freed t Q u \<Longrightarrow> freed s (\<lambda>g. P g \<or> Q g) u"
  by (fastforce simp: freed_def)

lemma pmm_mark_usable_freed:
  assumes "pmm_inv s"
  shows "\<exists>t. pmm_mark_usable f s = Some t \<and> freed s (\<lambda>g. g = f) t"
proof (cases "f < PMM_FRAMES")
  case False
  with assms show ?thesis
    by (auto simp: pmm_mark_usable_def freed_def pmm_consts)
next
  case True
  obtain t where t: "pmm_bitmap_unset f s = Some t" "\<And>g. in_use t g \<longleftrightarrow> g \<noteq> f \<and> in_use s g"
    "pmm_highest_address t = pmm_highest_address s"
    by (rule pmm_bitmap_unset_eq [OF True]) blast
  have top: "(f + 1) * PAGE_SIZE \<le> PMM_MAX_PHYS_ADDR" using True by (simp add: pmm_consts)
  have iu: "in_use (t\<lparr>pmm_highest_address := h\<rparr>) g = in_use t g" for h g
    by (simp add: in_use_def)
  from True have "\<not> PMM_MAX_PHYS_ADDR \<le> f * PAGE_SIZE" by (simp add: pmm_consts)
  with t assms top show ?thesis
    by (auto simp: pmm_mark_usable_def freed_def pmm_inv_def iu)
qed

lemma freed_refl: "pmm_inv s \<Longrightarrow> freed s (\<lambda>g. False) s"
  by (simp add: freed_def)

lemma freed_inv: "freed s P t \<Longrightarrow> pmm_inv t"
  by (simp add: freed_def)

text \<open>Bodies that free a set of frames compose over a loop.\<close>

lemma for_each_freed:
  assumes "\<And>x s. x \<in> set xs \<Longrightarrow> pmm_inv s \<Longrightarrow> \<exists>t. body x s = Some t \<and> freed s (P x) t"
    and "pmm_inv s"
  shows "\<exists>t. for_each body xs s = Some t \<and> freed s (\<lambda>g. \<exists>x \<in> set xs. P x g) t"
proof (rule for_each_invariant [where I = "\<lambda>ds t. freed s (\<lambda>g. \<exists>x \<in> set ds. P x g) t"])
  fix ds x rest t
  assume xs: "xs = ds @ x # rest" and I: "freed s (\<lambda>g. \<exists>x \<in> set ds. P x g) t"
  obtain u where "body x t = Some u" "freed t (P x) u"
    using assms(1) [of x t] xs freed_inv [OF I] by auto
  moreover from freed_trans [OF I this(2)]
  have "freed s (\<lambda>g. \<exists>y \<in> set (ds @ [x]). P y g) u" by (simp add: disj_commute)
  ultimately show "\<exists>u. body x t = Some u \<and> freed s (\<lambda>g. \<exists>y \<in> set (ds @ [x]). P y g) u" by blast
qed (simp add: freed_refl assms(2))

lemma pmm_add_entry_freed:
  assumes "pmm_inv s" and "me_base e + me_length e + PAGE_SIZE < 2 ^ 64"
  shows "\<exists>t. pmm_add_entry u e s = Some t \<and>
           freed s (\<lambda>g. me_type e = u \<and> frame_within g (me_base e) (me_length e)) t"
proof (cases "me_type e = u")
  case False
  with assms show ?thesis by (simp add: pmm_add_entry_def freed_refl)
next
  case True
  let ?fs = "[(me_base e + 4095) div 4096..<(me_base e + me_length e) div 4096]"
  have "\<exists>t. for_each pmm_mark_usable ?fs s = Some t \<and> freed s (\<lambda>g. \<exists>x \<in> set ?fs. g = x) t"
    by (rule for_each_freed [where P = "\<lambda>x g. g = x"]) (auto intro: pmm_mark_usable_freed assms)
  then obtain t where t: "for_each pmm_mark_usable ?fs s = Some t"
    "freed s (\<lambda>g. \<exists>x \<in> set ?fs. g = x) t" by blast
  have "(\<lambda>g. \<exists>x \<in> set ?fs. g = x) = (\<lambda>g. frame_within g (me_base e) (me_length e))"
    by (simp add: fun_eq_iff frame_within_iff)
  with t True assms(2) show ?thesis
    by (simp add: pmm_add_entry_def PAGE_SIZE_def)
qed

lemma pmm_mark_used_result:
  "\<exists>t. for_each pmm_mark_used fs s = Some t \<and>
     (\<forall>g. g < PMM_FRAMES \<longrightarrow> (in_use t g \<longleftrightarrow> in_use s g \<or> g \<in> set fs)) \<and>
     pmm_highest_address t = pmm_highest_address s"
proof (rule for_each_invariant)
  fix ds x rest t
  assume I: "(\<forall>g. g < PMM_FRAMES \<longrightarrow> (in_use t g \<longleftrightarrow> in_use s g \<or> g \<in> set ds)) \<and>
     pmm_highest_address t = pmm_highest_address s"
  show "\<exists>u. pmm_mark_used x t = Some u \<and>
     (\<forall>g. g < PMM_FRAMES \<longrightarrow> (in_use u g \<longleftrightarrow> in_use s g \<or> g \<in> set (ds @ [x]))) \<and>
     pmm_highest_address u = pmm_highest_address s"
  proof (cases "x < PMM_FRAMES")
    case False
    with I show ?thesis by (auto simp: pmm_mark_used_def pmm_consts)
  next
    case True
    obtain u where "pmm_bitmap_set x t = Some u" "\<And>g. in_use u g \<longleftrightarrow> g = x \<or> in_use t g"
      "pmm_highest_address u = pmm_highest_address t"
      by (rule pmm_bitmap_set_eq [OF True]) blast
    moreover from True have "\<not> PMM_MAX_PHYS_ADDR \<le> x * PAGE_SIZE" by (simp add: pmm_consts)
    ultimately show ?thesis using I by (auto simp: pmm_mark_used_def)
  qed
qed simp

section \<open>Properties\<close>

lemma pmm_init_frees:
  assumes "pmm_inv s"
    and "\<forall>e \<in> set entries. me_base e + me_length e + PAGE_SIZE < 2 ^ 64"
    and "ka_physical_base ka + pmm_kernel_size kernel_end ka + PAGE_SIZE < 2 ^ 64"
    and "bitmap_addr + PMM_BITMAP_SIZE + PAGE_SIZE < 2 ^ 64"
  shows "\<exists>t. pmm_init u (Some entries) (Some ka) kernel_end bitmap_addr s = Some t \<and>
    pmm_inv t \<and> pmm_last_alloc_index t = 0 \<and>
    (\<forall>g. g < PMM_FRAMES \<longrightarrow>
      (\<not> in_use t g \<longleftrightarrow>
         (\<exists>e \<in> set entries. me_type e = u \<and> frame_within g (me_base e) (me_length e)) \<and>
         \<not> frame_overlaps g (ka_physical_base ka) (pmm_kernel_size kernel_end ka) \<and>
         \<not> frame_overlaps g bitmap_addr PMM_BITMAP_SIZE))"
proof -
  let ?s0 = "s\<lparr>pmm_bitmap := (\<lambda>_. 0xFF)\<rparr>"
  let ?P = "\<lambda>g. \<exists>e \<in> set entries. me_type e = u \<and> frame_within g (me_base e) (me_length e)"
  let ?K = "pmm_kernel_size kernel_end ka"
  have i0: "pmm_inv ?s0" using assms(1) by (simp add: pmm_inv_def)
  have all: "in_use ?s0 g" for g
  proof -
    have "(0xFF :: u8) = - 1" by simp
    then show ?thesis by (simp only: in_use_def pmm_state.simps bit_minus_1_iff) simp
  qed
  have "\<exists>t. for_each (pmm_add_entry u) entries ?s0 = Some t \<and> freed ?s0 ?P t"
    by (rule for_each_freed) (use assms(2) i0 pmm_add_entry_freed in auto)
  then obtain t1 where t1: "for_each (pmm_add_entry u) entries ?s0 = Some t1" "freed ?s0 ?P t1"
    by blast
  let ?ks = "[ka_physical_base ka div 4096..<(ka_physical_base ka + ?K + 4095) div 4096]"
  let ?bs = "[bitmap_addr div 4096..<(bitmap_addr + PMM_BITMAP_SIZE + 4095) div 4096]"
  obtain t2 where t2: "for_each pmm_mark_used ?ks t1 = Some t2"
    "\<forall>g. g < PMM_FRAMES \<longrightarrow> (in_use t2 g \<longleftrightarrow> in_use t1 g \<or> g \<in> set ?ks)"
    "pmm_highest_address t2 = pmm_highest_address t1"
    using pmm_mark_used_result by blast
  obtain t3 where t3: "for_each pmm_mark_used ?bs t2 = Some t3"
    "\<forall>g. g < PMM_FRAMES \<longrightarrow> (in_use t3 g \<longleftrightarrow> in_use t2 g \<or> g \<in> set ?bs)"
    "pmm_highest_address t3 = pmm_highest_address t2"
    using pmm_mark_used_result by blast
  let ?t = "t3\<lparr>pmm_last_alloc_index := 0\<rparr>"
  have kpos: "0 < ?K" by (auto simp: pmm_kernel_size_def Let_def)
  have "pmm_init u (Some entries) (Some ka) kernel_end bitmap_addr s = Some ?t"
  proof -
    have ek: "size_add (ka_physical_base ka) (?K + PAGE_SIZE - 1) div PAGE_SIZE
        = (ka_physical_base ka + ?K + 4095) div 4096"
      using assms(3) by (simp add: PAGE_SIZE_def add.assoc)
    have eb: "size_add bitmap_addr (PMM_BITMAP_SIZE + PAGE_SIZE - 1) div PAGE_SIZE
        = (bitmap_addr + PMM_BITMAP_SIZE + 4095) div 4096"
      using assms(4) by (simp add: PAGE_SIZE_def add.assoc)
    have ks: "ka_physical_base ka div PAGE_SIZE = ka_physical_base ka div 4096"
      and bs: "bitmap_addr div PAGE_SIZE = bitmap_addr div 4096" by (simp_all add: PAGE_SIZE_def)
    show ?thesis
      by (simp only: pmm_init_def Let_def ek eb ks bs t1(1) t2(1) t3(1) Option.bind.bind_lunit)
  qed
  moreover have "pmm_inv ?t"
    using freed_inv [OF t1(2)] t2(3) t3(3) by (simp add: pmm_inv_def)
  moreover have "\<not> in_use ?t g \<longleftrightarrow> ?P g \<and> \<not> frame_overlaps g (ka_physical_base ka) ?K \<and>
      \<not> frame_overlaps g bitmap_addr PMM_BITMAP_SIZE" if "g < PMM_FRAMES" for g
  proof -
    have "in_use ?t g = in_use t3 g" by (simp add: in_use_def)
    then show ?thesis
      using that t1(2) t2(2) t3(2) all kpos
      by (simp add: freed_def frame_overlaps_iff pmm_consts(3))
  qed
  ultimately show ?thesis by auto
qed

text \<open>
  C20 After \<open>pmm_init\<close> a frame below 4 GiB is free exactly if it lies wholly inside a usable
  entry of the memory map and overlaps neither the kernel image nor the bitmap.
\<close>

theorem pmm_init_free_frames:
  assumes "pmm_inv s"
    and "\<forall>e \<in> set entries. me_base e + me_length e + PAGE_SIZE < 2 ^ 64"
    and "ka_physical_base ka + pmm_kernel_size kernel_end ka + PAGE_SIZE < 2 ^ 64"
    and "bitmap_addr + PMM_BITMAP_SIZE + PAGE_SIZE < 2 ^ 64"
  shows "\<exists>t. pmm_init u (Some entries) (Some ka) kernel_end bitmap_addr s = Some t \<and>
    pmm_inv t \<and> pmm_last_alloc_index t = 0 \<and>
    (\<forall>g. g < PMM_FRAMES \<longrightarrow>
      (\<not> in_use t g \<longleftrightarrow>
         (\<exists>e \<in> set entries. me_type e = u \<and> frame_within g (me_base e) (me_length e)) \<and>
         \<not> frame_overlaps g (ka_physical_base ka) (pmm_kernel_size kernel_end ka) \<and>
         \<not> frame_overlaps g bitmap_addr PMM_BITMAP_SIZE))"
  by (rule pmm_init_frees [OF assms])

theorem pmm_init_free_frames_witness:
  "\<exists>t. pmm_init 0 (Some [\<lparr>me_base = 0x100000, me_length = 0x400000, me_type = 0\<rparr>,
                          \<lparr>me_base = 0x600000, me_length = 0x1000, me_type = 1\<rparr>])
         (Some \<lparr>ka_physical_base = 0x200000, ka_virtual_base = 0xffffffff80000000\<rparr>)
         0xffffffff80020000 0xffffffff80001000 pmm_boot = Some t \<and>
       \<not> in_use t 256 \<and> in_use t 512 \<and> in_use t 543 \<and> \<not> in_use t 544 \<and> in_use t 1536"
proof -
  let ?es = "[\<lparr>me_base = 0x100000, me_length = 0x400000, me_type = 0\<rparr>,
              \<lparr>me_base = 0x600000, me_length = 0x1000, me_type = 1\<rparr>]"
  let ?ka = "\<lparr>ka_physical_base = 0x200000, ka_virtual_base = 0xffffffff80000000\<rparr>"
  have size: "pmm_kernel_size 0xffffffff80020000 ?ka = 0x20000"
    by (simp add: pmm_kernel_size_def size_sub_def)
  obtain t where t: "pmm_init 0 (Some ?es) (Some ?ka) 0xffffffff80020000 0xffffffff80001000 pmm_boot = Some t"
    and free: "\<forall>g. g < PMM_FRAMES \<longrightarrow> (\<not> in_use t g \<longleftrightarrow>
         (\<exists>e \<in> set ?es. me_type e = 0 \<and> frame_within g (me_base e) (me_length e)) \<and>
         \<not> frame_overlaps g (ka_physical_base ?ka) 0x20000 \<and>
         \<not> frame_overlaps g 0xffffffff80001000 PMM_BITMAP_SIZE)"
    using pmm_init_free_frames [of pmm_boot ?es ?ka "0xffffffff80020000" "0xffffffff80001000" 0]
      size by (auto simp: pmm_inv_def pmm_boot_def pmm_consts)
  have "\<not> in_use t 256" and "in_use t 512" and "in_use t 543" and "\<not> in_use t 544"
    and "in_use t 1536"
    using free [rule_format, of 256] free [rule_format, of 512] free [rule_format, of 543]
      free [rule_format, of 544] free [rule_format, of 1536]
    by (simp_all add: pmm_consts frame_within_def frame_overlaps_def)
  with t show ?thesis by blast
qed

text \<open>
  C19 \<open>pmm_alloc_frame\<close> never leaves the bitmap, returns a free frame between 1 MiB and the
  highest address and marks only that frame, and returns \<open>NULL\<close> only if every such frame is in use.
\<close>

theorem pmm_alloc_frame_correct:
  assumes "pmm_inv s"
  shows "(\<exists>f s'. pmm_alloc_frame s = Some (frame_addr f, s') \<and> pmm_inv s' \<and>
            0x100000 \<le> f * PAGE_SIZE \<and> (f + 1) * PAGE_SIZE \<le> pmm_highest_address s \<and>
            \<not> in_use s f \<and> (\<forall>g. in_use s' g \<longleftrightarrow> g = f \<or> in_use s g)) \<or>
         (pmm_alloc_frame s = Some (0, s) \<and>
            (\<forall>f. 0x100000 \<le> f * PAGE_SIZE \<and> (f + 1) * PAGE_SIZE \<le> pmm_highest_address s
               \<longrightarrow> in_use s f))"
  using assms
proof (cases s rule: pmm_alloc_frame_cases)
  case (frame f s')
  then have "(f + 1) * PAGE_SIZE \<le> pmm_highest_address s"
    by (simp add: PAGE_SIZE_def)
  moreover have "0x100000 \<le> f * PAGE_SIZE" using frame(2) by (simp add: PAGE_SIZE_def)
  ultimately show ?thesis using frame by blast
next
  case full
  have "f < pmm_highest_address s div PAGE_SIZE" if "(f + 1) * PAGE_SIZE \<le> pmm_highest_address s" for f
    using that by (simp add: PAGE_SIZE_def)
  with full show ?thesis by (auto simp: PAGE_SIZE_def)
qed

text \<open>A small state for the witnesses: frames 256 to 259 managed, 256 in use.\<close>

definition pmm_example :: pmm_state where
  "pmm_example = \<lparr>pmm_bitmap = (\<lambda>_. 0)(32 := 1), pmm_last_alloc_index = 0,
     pmm_highest_address = 0x104000\<rparr>"

lemma pmm_example_inv: "pmm_inv pmm_example"
  by (simp add: pmm_inv_def pmm_example_def pmm_consts)

theorem pmm_alloc_frame_correct_witness:
  "\<exists>f s'. pmm_alloc_frame pmm_example = Some (frame_addr f, s') \<and> f \<noteq> 256 \<and> f \<le> 259 \<and> 256 \<le> f"
proof -
  have "\<not> in_use pmm_example 257" by (simp add: in_use_def pmm_example_def)
  moreover have "in_use pmm_example 256" by (simp add: in_use_def pmm_example_def)
  ultimately show ?thesis
    using pmm_alloc_frame_correct [OF pmm_example_inv]
    by (force simp: PAGE_SIZE_def pmm_example_def)
qed

text \<open>
  Frames handed out in a row are pairwise distinct, none was in use before, and afterwards
  exactly they are in use in addition: whatever number of frames a caller asks for.
\<close>

theorem pmm_allocations_distinct:
  assumes "pmm_inv s"
  shows "\<exists>ps s'. pmm.alloc_many n s = Some (ps, s') \<and> length ps \<le> n \<and> distinct ps \<and>
           0 \<notin> set ps \<and> set ps \<inter> owned s = {} \<and> owned s' = owned s \<union> set ps"
  using pmm.alloc_many_distinct [OF assms] by blast

theorem pmm_allocations_distinct_witness:
  "\<exists>ps s'. pmm.alloc_many 3 pmm_example = Some (ps, s') \<and> distinct ps \<and>
     frame_addr 256 \<notin> set ps"
proof -
  have "frame_addr 256 \<in> owned pmm_example"
    by (simp add: frame_addr_owned pmm_consts) (simp add: in_use_def pmm_example_def)
  then show ?thesis using pmm_allocations_distinct [OF pmm_example_inv, of 3] by blast
qed

text \<open>
  Freeing the frame just allocated makes the set of frames in use what it was.
\<close>

theorem pmm_alloc_free_roundtrip:
  assumes "pmm_inv s" and "pmm_alloc_frame s = Some (p, s1)" and "p \<noteq> 0"
  shows "\<exists>s2. pmm_free_frame p s1 = Some s2 \<and> pmm_inv s2 \<and> owned s2 = owned s"
  using pmm.alloc_free [OF assms] .

lemma pmm_example_alloc:
  "pmm_alloc_frame pmm_example = Some (0x101000, pmm_example
     \<lparr>pmm_bitmap := (\<lambda>_. 0)(32 := 3), pmm_last_alloc_index := 258\<rparr>)"
proof -
  have step: "pmm_alloc_scan 260 i pmm_example = pmm_alloc_scan 260 (i + 1) pmm_example"
    if "i < 256" for i
  proof -
    have "pmm_last_alloc_index pmm_example = 0" by (simp add: pmm_example_def)
    moreover have "i mod 260 = i" and "i * 4096 < 0x100000" and "i < 260" using that by simp_all
    ultimately show ?thesis
      by (subst pmm_alloc_scan.simps) (simp only: Let_def PAGE_SIZE_def add_0 if_True)
  qed
  have skip: "i \<le> 256 \<Longrightarrow> pmm_alloc_scan 260 0 pmm_example = pmm_alloc_scan 260 i pmm_example" for i
  proof (induction i)
    case (Suc i)
    then show ?case using step [of i] by (simp only: Suc_eq_plus1 Suc_le_eq less_imp_le)
  qed simp
  have used: "pmm_alloc_scan 260 256 pmm_example = pmm_alloc_scan 260 257 pmm_example"
    by (subst pmm_alloc_scan.simps)
      (simp add: pmm_example_def pmm_consts pmm_bitmap_test_def)
  have take: "pmm_alloc_scan 260 257 pmm_example = Some (0x101000, pmm_example
     \<lparr>pmm_bitmap := (\<lambda>_. 0)(32 := 3), pmm_last_alloc_index := 258\<rparr>)"
    by (subst pmm_alloc_scan.simps)
      (simp add: pmm_example_def pmm_consts pmm_bitmap_test_def pmm_bitmap_set_def)
  have "pmm_alloc_frame pmm_example = pmm_alloc_scan 260 0 pmm_example"
    by (simp add: pmm_alloc_frame_def pmm_example_def PAGE_SIZE_def)
  with skip [of 256] used take show ?thesis by simp
qed

theorem pmm_alloc_free_roundtrip_witness:
  "\<exists>p s1 s2. pmm_alloc_frame pmm_example = Some (p, s1) \<and> p \<noteq> 0 \<and>
     pmm_free_frame p s1 = Some s2 \<and> owned s2 = owned pmm_example"
  using pmm_alloc_free_roundtrip [OF pmm_example_inv pmm_example_alloc] pmm_example_alloc by auto

text \<open>
  The bitmap's own frames are not reserved: the code passes the virtual address of the
  array, and for an address at or above 4 GiB the loop that should mark them changes nothing.
\<close>

theorem pmm_init_bitmap_not_marked:
  assumes "PMM_MAX_PHYS_ADDR \<le> bitmap_addr"
  shows "for_each pmm_mark_used
    [bitmap_addr div PAGE_SIZE..<size_add bitmap_addr (PMM_BITMAP_SIZE + PAGE_SIZE - 1) div PAGE_SIZE] s
      = Some s"
proof -
  have "for_each pmm_mark_used fs s = Some s"
    if "\<forall>f \<in> set fs. PMM_MAX_PHYS_ADDR \<le> f * PAGE_SIZE" for fs
    using that by (induction fs) (auto simp: pmm_mark_used_def)
  moreover have "PMM_MAX_PHYS_ADDR \<le> f * PAGE_SIZE" if "bitmap_addr div PAGE_SIZE \<le> f" for f
    using that assms by (simp add: pmm_consts)
  ultimately show ?thesis by simp
qed

theorem pmm_init_bitmap_not_marked_witness:
  "for_each pmm_mark_used
     [0xffffffff80001000 div PAGE_SIZE..<
      size_add 0xffffffff80001000 (PMM_BITMAP_SIZE + PAGE_SIZE - 1) div PAGE_SIZE] pmm_boot
   = Some pmm_boot"
  by (rule pmm_init_bitmap_not_marked) (simp add: pmm_consts)

end
