(* ===== verification/PhysMem.thy ===== *)
theory PhysMem
  imports Interfaces
begin

text \<open>
  Physical memory as a function from addresses to bytes, and the 64-bit little-endian loads and
  stores, page fills and page copies the paging code performs on it. Page tables are cells of
  eight bytes in page-aligned frames; \<open>cell_read\<close> is what a store to one cell does to every other.
\<close>

type_synonym pmem = "u64 \<Rightarrow> u8"

definition rd64 :: "pmem \<Rightarrow> u64 \<Rightarrow> u64" where
  "rd64 m a = ucast (m a) OR push_bit 8 (ucast (m (a + 1))) OR push_bit 16 (ucast (m (a + 2)))
     OR push_bit 24 (ucast (m (a + 3))) OR push_bit 32 (ucast (m (a + 4)))
     OR push_bit 40 (ucast (m (a + 5))) OR push_bit 48 (ucast (m (a + 6)))
     OR push_bit 56 (ucast (m (a + 7)))"

definition wr64 :: "pmem \<Rightarrow> u64 \<Rightarrow> u64 \<Rightarrow> pmem" where
  "wr64 m a v = m
     (a := ucast v, a + 1 := ucast (drop_bit 8 v), a + 2 := ucast (drop_bit 16 v),
      a + 3 := ucast (drop_bit 24 v), a + 4 := ucast (drop_bit 32 v),
      a + 5 := ucast (drop_bit 40 v), a + 6 := ucast (drop_bit 48 v),
      a + 7 := ucast (drop_bit 56 v))"

text \<open>\<open>memset\<close> and \<open>memcpy\<close> on physical memory; the copy reads its source before it writes.\<close>

definition fill :: "pmem \<Rightarrow> u64 \<Rightarrow> u8 \<Rightarrow> nat \<Rightarrow> pmem" where
  "fill m a b n = (\<lambda>x. if unat (x - a) < n then b else m x)"

definition copy :: "pmem \<Rightarrow> u64 \<Rightarrow> u64 \<Rightarrow> nat \<Rightarrow> pmem" where
  "copy m dest src n = (\<lambda>x. if unat (x - dest) < n then m (src + (x - dest)) else m x)"

definition store_bytes :: "pmem \<Rightarrow> u64 \<Rightarrow> bytes \<Rightarrow> pmem" where
  "store_bytes m a bs = (\<lambda>x. if unat (x - a) < length bs then bs ! unat (x - a) else m x)"

section \<open>Cells\<close>

lemma bit_byte_at:
  fixes v :: u64
  assumes "n < 64"
  shows "bit (push_bit k (ucast (ucast (drop_bit k v) :: u8)) :: u64) n
           \<longleftrightarrow> k \<le> n \<and> n < k + 8 \<and> bit v n"
  using assms by (auto simp: bit_simps)

lemma wr64_bytes:
  "wr64 m a v a = ucast v" "wr64 m a v (a + 1) = ucast (drop_bit 8 v)"
  "wr64 m a v (a + 2) = ucast (drop_bit 16 v)" "wr64 m a v (a + 3) = ucast (drop_bit 24 v)"
  "wr64 m a v (a + 4) = ucast (drop_bit 32 v)" "wr64 m a v (a + 5) = ucast (drop_bit 40 v)"
  "wr64 m a v (a + 6) = ucast (drop_bit 48 v)" "wr64 m a v (a + 7) = ucast (drop_bit 56 v)"
  by (simp_all add: wr64_def)

lemma rd64_wr64_same: "rd64 (wr64 m a v) a = v"
proof (rule bit_word_eqI)
  fix n
  assume "n < LENGTH(64)"
  then have n: "n < 64" by simp
  have z: "(ucast (ucast v :: u8) :: u64) = push_bit 0 (ucast (ucast (drop_bit 0 v) :: u8))"
    by simp
  have "bit (rd64 (wr64 m a v) a) n \<longleftrightarrow>
      (0 \<le> n \<and> n < 0 + 8 \<and> bit v n) \<or> (8 \<le> n \<and> n < 8 + 8 \<and> bit v n) \<or>
      (16 \<le> n \<and> n < 16 + 8 \<and> bit v n) \<or> (24 \<le> n \<and> n < 24 + 8 \<and> bit v n) \<or>
      (32 \<le> n \<and> n < 32 + 8 \<and> bit v n) \<or> (40 \<le> n \<and> n < 40 + 8 \<and> bit v n) \<or>
      (48 \<le> n \<and> n < 48 + 8 \<and> bit v n) \<or> (56 \<le> n \<and> n < 56 + 8 \<and> bit v n)"
    by (simp only: rd64_def wr64_bytes z bit_or_iff bit_byte_at [OF n] disj_assoc)
  also have "\<dots> \<longleftrightarrow> bit v n"
    using n by (cases "bit v n"; simp; linarith)
  finally show "bit (rd64 (wr64 m a v) a) n = bit v n" .
qed

lemma rd64_cong: "(\<And>i. i < 8 \<Longrightarrow> m' (a + word_of_nat i) = m (a + word_of_nat i)) \<Longrightarrow> rd64 m' a = rd64 m a"
proof -
  assume h: "\<And>i. i < 8 \<Longrightarrow> m' (a + word_of_nat i) = m (a + word_of_nat i)"
  show ?thesis
    using h [of 0] h [of 1] h [of 2] h [of 3] h [of 4] h [of 5] h [of 6] h [of 7]
    by (simp add: rd64_def)
qed

lemma wr64_other:
  "(\<And>i. i < 8 \<Longrightarrow> x \<noteq> a + word_of_nat i) \<Longrightarrow> wr64 m a v x = m x"
proof -
  assume h: "\<And>i. i < 8 \<Longrightarrow> x \<noteq> a + word_of_nat i"
  show ?thesis
    using h [of 0] h [of 1] h [of 2] h [of 3] h [of 4] h [of 5] h [of 6] h [of 7]
    by (simp add: wr64_def)
qed

lemma unat_add_small: "unat (a :: u64) mod k = 0 \<Longrightarrow> k dvd 2 ^ 64 \<Longrightarrow> i < k \<Longrightarrow>
    unat (a + word_of_nat i) = unat a + i"
proof -
  assume a: "unat a mod k = 0" and k: "k dvd 2 ^ 64" and i: "i < k"
  have lt: "unat a < 2 ^ 64" using unsigned_less [of a] by simp
  obtain q r where q: "2 ^ 64 = k * q" and r: "unat a = k * r"
    using a k by (metis dvd_def mod_0_imp_dvd)
  have "k * r < k * q" using lt by (simp only: q [symmetric] r [symmetric])
  then have "r < q" by simp
  then have "k * (r + 1) \<le> k * q" by (intro mult_le_mono2) simp
  then have "unat a + i < 2 ^ 64" using q r i by simp
  moreover from this have "i < 2 ^ 64" by simp
  ultimately show ?thesis by (simp add: unat_word_ariths unat_of_nat)
qed

lemma aligned8_disjoint:
  assumes "unat (a :: u64) mod 8 = 0" and "unat b mod 8 = 0" and "a \<noteq> b" and "i < 8" and "j < 8"
  shows "a + word_of_nat i \<noteq> b + word_of_nat j"
proof
  assume "a + word_of_nat i = b + word_of_nat j"
  then have "unat a + i = unat b + j"
    using unat_add_small [of a 8 i] unat_add_small [of b 8 j] assms by simp
  then have "unat a = unat b" using assms(1,2,4,5) by presburger
  then have "a = b" by (rule word_unat_eq_iff [THEN iffD2])
  with assms(3) show False ..
qed

lemma rd64_wr64_other:
  assumes "unat a mod 8 = 0" and "unat b mod 8 = 0" and "a \<noteq> b"
  shows "rd64 (wr64 m a v) b = rd64 m b"
  by (intro rd64_cong wr64_other) (use aligned8_disjoint assms in metis)

section \<open>Frames as tables of 512 cells\<close>

text \<open>The address of entry \<open>i\<close> of the table in frame \<open>t\<close>.\<close>

definition cell :: "u64 \<Rightarrow> nat \<Rightarrow> u64" where
  "cell t i = t + word_of_nat (8 * i)"

lemma unat_cell: "page_aligned t \<Longrightarrow> i < 512 \<Longrightarrow> unat (cell t i) = unat t + 8 * i"
  unfolding cell_def page_aligned_def by (rule unat_add_small) auto

lemma cell_aligned: "page_aligned t \<Longrightarrow> i < 512 \<Longrightarrow> unat (cell t i) mod 8 = 0"
proof -
  assume t: "page_aligned t" and i: "i < 512"
  have "unat t mod 4096 mod 8 = unat t mod 8" by (rule mod_mod_cancel) simp
  with t have "unat t mod 8 = 0" by (simp add: page_aligned_def)
  with t i show ?thesis by (simp add: unat_cell)
qed

lemma page_alignedE:
  assumes "page_aligned t"
  obtains q where "unat t = 4096 * q"
  using that [of "unat t div 4096"] page_aligned_div [OF assms] by simp

lemma unat64_less: "unat (w :: u64) < 2 ^ 64"
  using unsigned_less [of w] by simp

lemma cell_inj:
  assumes "page_aligned t" and "page_aligned u" and "i < 512" and "j < 512"
  shows "cell t i = cell u j \<longleftrightarrow> t = u \<and> i = j"
proof
  assume "cell t i = cell u j"
  then have e: "unat t + 8 * i = unat u + 8 * j" using assms by (metis unat_cell)
  obtain p q where p: "unat t = 4096 * p" and q: "unat u = 4096 * q"
    using assms(1,2) by (metis page_alignedE)
  have "p = q" using e assms(3,4) unfolding p q by arith
  with p q have "unat t = unat u" by simp
  then have "t = u" by (rule word_unat_eq_iff [THEN iffD2])
  with e show "t = u \<and> i = j" by simp
qed simp

text \<open>The page-table view of memory: entry \<open>i\<close> of the table at \<open>t\<close>.\<close>

definition entry :: "pmem \<Rightarrow> u64 \<Rightarrow> nat \<Rightarrow> u64" where
  "entry m t i = rd64 m (cell t i)"

lemma entry_wr64 [page_table]:
  assumes "page_aligned t" and "page_aligned u" and "i < 512" and "j < 512"
  shows "entry (wr64 m (cell t i) v) u j = (if u = t \<and> j = i then v else entry m u j)"
  using assms rd64_wr64_same [of m "cell t i" v]
    rd64_wr64_other [OF cell_aligned [of t i] cell_aligned [of u j]]
  by (auto simp: entry_def cell_inj)

lemma page_offset:
  assumes "page_aligned t" and "page_aligned u" and "k < 4096"
  shows "unat ((u + word_of_nat k) - t) < 4096 \<longleftrightarrow> u = t"
proof -
  have ub: "unat (u + word_of_nat k) = unat u + k"
    using assms by (intro unat_add_small) (auto simp: page_aligned_def)
  obtain p q where p: "unat t = 4096 * p" and q: "unat u = 4096 * q"
    using assms(1,2) by (metis page_alignedE)
  have lt: "4096 * p < 2 ^ 64" "4096 * q + k < 2 ^ 64"
    using unat64_less [of t] unat64_less [of "u + word_of_nat k"] by (simp_all add: ub p q)
  have "unat ((u + word_of_nat k) - t)
      = (if unat t \<le> unat u + k then unat u + k - unat t else unat u + k + 2 ^ 64 - unat t)"
    by (simp add: unat_sub_if' ub word_le_nat_alt)
  then have "unat ((u + word_of_nat k) - t) < 4096 \<longleftrightarrow>
      (if 4096 * p \<le> 4096 * q + k then 4096 * q + k - 4096 * p
       else 4096 * q + k + 2 ^ 64 - 4096 * p) < 4096"
    by (simp only: p q)
  also have "\<dots> \<longleftrightarrow> q = p" using lt assms(3) by (auto split: if_splits)
  also have "\<dots> \<longleftrightarrow> u = t"
    using p q word_unat_eq_iff [of u t] by auto
  finally show ?thesis .
qed

lemma entry_fill [page_table]:
  assumes "page_aligned t" and "page_aligned u" and "j < 512"
  shows "entry (fill m t 0 4096) u j = (if u = t then 0 else entry m u j)"
proof -
  have "fill m t 0 4096 (cell u j + word_of_nat i)
      = (if u = t then 0 else m (cell u j + word_of_nat i))" if "i < 8" for i
  proof -
    have "cell u j + word_of_nat i = u + word_of_nat (8 * j + i)" by (simp add: cell_def)
    moreover have "8 * j + i < 4096" using that assms(3) by simp
    ultimately show ?thesis
      using page_offset [OF assms(1,2), of "8 * j + i"] by (simp only: fill_def)
  qed
  note f = this
  show ?thesis
  proof (cases "u = t")
    case True
    have "rd64 (fill m t 0 4096) (cell u j) = rd64 (\<lambda>_. 0) (cell u j)"
      using f True by (intro rd64_cong) simp
    also have "\<dots> = 0" by (simp add: rd64_def)
    finally show ?thesis using True by (simp add: entry_def)
  next
    case False
    then show ?thesis using f by (auto simp: entry_def intro: rd64_cong)
  qed
qed

end
