(* ===== verification/Paging.thy ===== *)
theory Paging
  imports PhysMem
begin

text \<open>
  Page tables as a tree: a pure view of the four-level walk that the paging code performs, and
  the effect on it of the two kinds of store the code makes: installing a fresh zeroed table in an
  empty entry, and writing a leaf entry. \<open>E t i\<close> is entry \<open>i\<close> of the table at \<open>t\<close>.

  The view covers the lower half of the address space (indices below 256 at the top level), the
  half the kernel builds tables for; the upper half holds the boot loader's own tables.
\<close>

section \<open>Entries\<close>

definition PTE_PRESENT :: u64 where "PTE_PRESENT = 1"
definition PTE_WRITABLE :: u64 where "PTE_WRITABLE = 2"
definition PTE_USER :: u64 where "PTE_USER = 4"
definition PTE_NX :: u64 where "PTE_NX = push_bit 63 1"

text \<open>\<open>PAGE_MASK\<close> is the \<open>int\<close> \<open>~4095\<close>, which widens to 64 bits by sign extension.\<close>

definition PAGE_MASK :: u64 where
  "PAGE_MASK = NOT 0xFFF"

definition present :: "u64 \<Rightarrow> bool" where
  "present e \<longleftrightarrow> e AND PTE_PRESENT \<noteq> 0"

lemma present_bit: "present e \<longleftrightarrow> bit e 0"
  using bit_iff_and_push_bit_not_eq_0 [of e 0] by (simp add: present_def PTE_PRESENT_def)

lemma not_present_0 [simp]: "\<not> present 0"
  by (simp add: present_bit)

lemma present_or [simp]: "present (a OR PTE_PRESENT)" "present (PTE_PRESENT OR a)"
  by (simp_all add: present_bit bit_or_iff PTE_PRESENT_def)

lemma present_or_left: "present a \<Longrightarrow> present (a OR b)"
  by (simp add: present_bit bit_or_iff)

lemma bit_low_mask: "bit (0xFFF :: u64) n \<longleftrightarrow> n < 12"
proof -
  have "(0xFFF :: u64) = mask 12" by (simp add: mask_eq_exp_minus_1)
  then show ?thesis by (simp only: bit_mask_iff) auto
qed

lemma bit_PAGE_MASK: "bit PAGE_MASK n \<longleftrightarrow> 12 \<le> n \<and> n < 64"
  by (simp only: PAGE_MASK_def bit_not_iff bit_low_mask) auto

lemma page_aligned_iff_bits: "page_aligned p \<longleftrightarrow> (\<forall>n < 12. \<not> bit p n)"
proof -
  have "unat p mod 4096 = unat (take_bit 12 p)"
    by (simp only: unsigned_take_bit_eq) (simp add: take_bit_eq_mod)
  then have "page_aligned p \<longleftrightarrow> take_bit 12 p = 0"
    by (simp add: page_aligned_def unsigned_eq_0_iff)
  also have "\<dots> \<longleftrightarrow> (\<forall>n < 12. \<not> bit p n)"
    by (auto simp: bit_eq_iff bit_take_bit_iff dest: bit_imp_le_length)
  finally show ?thesis .
qed

lemma aligned_mask [simp]: "page_aligned (e AND PAGE_MASK)"
  by (simp add: page_aligned_iff_bits bit_and_iff bit_PAGE_MASK)

lemma mask_aligned_or:
  assumes "page_aligned p" and "flags AND PAGE_MASK = 0"
  shows "(p OR flags) AND PAGE_MASK = p"
proof (rule bit_word_eqI)
  fix n assume n: "n < LENGTH(64)"
  have "\<not> bit (flags AND PAGE_MASK) n" using assms(2) by simp
  moreover have "n < 12 \<Longrightarrow> \<not> bit p n" using assms(1) by (simp add: page_aligned_iff_bits)
  ultimately show "bit ((p OR flags) AND PAGE_MASK) n = bit p n"
    using n by (cases "n < 12") (auto simp: bit_and_iff bit_or_iff bit_PAGE_MASK)
qed

section \<open>The walk\<close>

type_synonym tables = "u64 \<Rightarrow> nat \<Rightarrow> u64"

fun walk :: "tables \<Rightarrow> u64 \<Rightarrow> nat list \<Rightarrow> u64 option" where
  "walk E t [] = Some t"
| "walk E t (i # is) = (if present (E t i) then walk E (E t i AND PAGE_MASK) is else None)"

lemma walk_append: "walk E t (p @ q) = Option.bind (walk E t p) (\<lambda>u. walk E u q)"
  by (induction p arbitrary: t) auto

lemma walk_snoc:
  "walk E t (p @ [i]) = Option.bind (walk E t p)
     (\<lambda>u. if present (E u i) then Some (E u i AND PAGE_MASK) else None)"
  by (simp add: walk_append if_distrib cong: if_cong)

text \<open>Index paths of the lower half, with at most \<open>n\<close> steps.\<close>

definition upath :: "nat \<Rightarrow> nat list \<Rightarrow> bool" where
  "upath n p \<longleftrightarrow> length p \<le> n \<and> (\<forall>i \<in> set p. i < 512) \<and> (p \<noteq> [] \<longrightarrow> hd p < 256)"

lemma upath_Nil [simp]: "upath n []"
  by (simp add: upath_def)

lemma upath_snoc:
  "upath (Suc n) (p @ [i]) \<longleftrightarrow> upath n p \<and> i < 512 \<and> (p = [] \<longrightarrow> i < 256)"
  by (cases p) (auto simp: upath_def)

lemma upath_mono: "upath n p \<Longrightarrow> n \<le> m \<Longrightarrow> upath m p"
  by (auto simp: upath_def)

text \<open>
  Well-formed tables below \<open>root\<close>: every table reached is an aligned frame of \<open>U\<close>, and no
  table is reached twice. Tables are at depth 0 to 3; depth 4 holds the mapped pages.
\<close>

definition wf_tables :: "tables \<Rightarrow> u64 \<Rightarrow> u64 set \<Rightarrow> bool" where
  "wf_tables E root U \<longleftrightarrow>
     (\<forall>p t. upath 3 p \<longrightarrow> walk E root p = Some t \<longrightarrow> t \<in> U \<and> page_aligned t) \<and>
     (\<forall>p q t. upath 3 p \<longrightarrow> upath 3 q \<longrightarrow> walk E root p = Some t \<longrightarrow> walk E root q = Some t
        \<longrightarrow> p = q)"

lemma wf_tables_in: "wf_tables E root U \<Longrightarrow> upath 3 p \<Longrightarrow> walk E root p = Some t \<Longrightarrow> t \<in> U"
  and wf_tables_aligned:
    "wf_tables E root U \<Longrightarrow> upath 3 p \<Longrightarrow> walk E root p = Some t \<Longrightarrow> page_aligned t"
  and wf_tables_inj: "wf_tables E root U \<Longrightarrow> upath 3 p \<Longrightarrow> upath 3 q \<Longrightarrow>
     walk E root p = Some t \<Longrightarrow> walk E root q = Some t \<Longrightarrow> p = q"
  by (auto simp: wf_tables_def)

lemma wf_tables_root: "wf_tables E root U \<Longrightarrow> root \<in> U \<and> page_aligned root"
  using wf_tables_in [of E root U "[]" root] wf_tables_aligned [of E root U "[]" root] by simp

section \<open>Installing a table\<close>

text \<open>\<open>E'\<close> is \<open>E\<close> after the frame \<open>f\<close> was zeroed and entered at index \<open>i\<close> of the table \<open>t\<close>.\<close>

definition table_installed ::
  "tables \<Rightarrow> u64 \<Rightarrow> u64 set \<Rightarrow> nat list \<Rightarrow> u64 \<Rightarrow> nat \<Rightarrow> u64 \<Rightarrow> u64 \<Rightarrow> tables \<Rightarrow> bool" where
  "table_installed E root U p t i f v E' \<longleftrightarrow>
     wf_tables E root U \<and> upath 2 p \<and> walk E root p = Some t \<and>
     i < 512 \<and> (p = [] \<longrightarrow> i < 256) \<and> \<not> present (E t i) \<and>
     f \<notin> U \<and> page_aligned f \<and> present v \<and> v AND PAGE_MASK = f \<and>
     (\<forall>u j. page_aligned u \<longrightarrow> j < 512 \<longrightarrow>
        E' u j = (if u = t \<and> j = i then v else if u = f then 0 else E u j))"

lemma table_installed_ne:
  assumes ins: "table_installed E root U p t i f v E'"
  shows "t \<noteq> f"
  using ins wf_tables_in [of E root U p t] upath_mono [of 2 p 3] by (auto simp: table_installed_def)

lemma table_installed_walk:
  assumes ins: "table_installed E root U p t i f v E'"
    and "upath 4 q"
  shows "walk E' root q =
     (if q = p @ [i] then Some f else if take (Suc (length p)) q = p @ [i] then None
      else walk E root q)"
  using assms(2)
proof (induction q rule: rev_induct)
  case Nil
  then show ?case by simp
next
  case (snoc j q)
  from ins have wf: "wf_tables E root U" and p: "upath 2 p" "walk E root p = Some t"
    and i: "i < 512" "p = [] \<Longrightarrow> i < 256" and empty: "\<not> present (E t i)"
    and f: "f \<notin> U" "page_aligned f" and v: "present v" "v AND PAGE_MASK = f"
    and E': "\<And>u j. page_aligned u \<Longrightarrow> j < 512 \<Longrightarrow>
       E' u j = (if u = t \<and> j = i then v else if u = f then 0 else E u j)"
    by (simp_all add: table_installed_def)
  have q3: "upath 3 q" and j: "j < 512" using snoc.prems upath_snoc [of 3 q j] by simp_all
  then have IH: "walk E' root q = (if q = p @ [i] then Some f
      else if take (Suc (length p)) q = p @ [i] then None else walk E root q)"
    using snoc.IH upath_mono [of 3 q 4] by simp
  show ?case
  proof (cases "take (Suc (length p)) q = p @ [i]")
    case True
    then have "length (take (Suc (length p)) q) = Suc (length p)" by (simp del: length_take)
    then have "Suc (length p) \<le> length q" by simp
    with True have tk: "take (Suc (length p)) (q @ [j]) = p @ [i]" "q @ [j] \<noteq> p @ [i]" by auto
    have "E' f j = 0" using E' [OF f(2) j] table_installed_ne [OF ins] by simp
    then have "walk E' root (q @ [j]) = None"
      using True IH unfolding walk_snoc [of E' root q j] by (cases "q = p @ [i]") simp_all
    with tk show ?thesis by simp
  next
    case False
    then have ne: "q \<noteq> p @ [i]" by auto
    with False IH have same: "walk E' root q = walk E root q" by simp
    have pre: "take (Suc (length p)) (q @ [j]) = p @ [i] \<longleftrightarrow> q @ [j] = p @ [i]"
      using False by (cases "length q \<ge> Suc (length p)") (auto simp: not_le less_Suc_eq_le)
    show ?thesis
    proof (cases "walk E root q")
      case None
      with same p(2) pre show ?thesis by (auto simp: walk_snoc)
    next
      case (Some u)
      have u: "u \<in> U" "page_aligned u"
        using wf_tables_in [OF wf q3 Some] wf_tables_aligned [OF wf q3 Some] by auto
      then have uf: "u \<noteq> f" using f(1) by auto
      have ut: "u = t \<longleftrightarrow> q = p"
      proof
        assume "u = t"
        with Some have "walk E root q = Some t" by simp
        then show "q = p" by (rule wf_tables_inj [OF wf q3 upath_mono [OF p(1)] _ p(2), simplified])
      next
        assume "q = p"
        with Some p(2) show "u = t" by simp
      qed
      from E' [OF u(2) j] uf ut have "E' u j = (if q @ [j] = p @ [i] then v else E u j)"
        by auto
      then have "walk E' root (q @ [j]) =
          (if q @ [j] = p @ [i] then Some f else walk E root (q @ [j]))"
        unfolding walk_snoc same using Some v by (cases "q @ [j] = p @ [i]") auto
      then show ?thesis unfolding pre by simp
    qed
  qed
qed

lemma table_installed_new:
  assumes ins: "table_installed E root U p t i f v E'"
  shows "walk E' root (p @ [i]) = Some f"
proof -
  from ins have p: "upath 2 p" and i: "i < 512" "p = [] \<Longrightarrow> i < 256"
    by (simp_all add: table_installed_def)
  have "upath 3 (p @ [i])" using p i upath_snoc [of 2 p i] by (simp add: numeral_3_eq_3)
  then show ?thesis using table_installed_walk [OF ins, of "p @ [i]"] upath_mono [of 3 _ 4] by simp
qed

lemma table_installed_old_none:
  assumes ins: "table_installed E root U p t i f v E'"
    and "take (Suc (length p)) q = p @ [i]"
  shows "walk E root q = None"
proof -
  from assms(2) have "q = (p @ [i]) @ drop (Suc (length p)) q" by (metis append_take_drop_id)
  then have "walk E root q = Option.bind (walk E root (p @ [i])) (\<lambda>u. walk E u (drop (Suc (length p)) q))"
    using walk_append by metis
  then show ?thesis using ins by (simp add: walk_snoc table_installed_def)
qed

lemma table_installed_translation:
  assumes ins: "table_installed E root U p t i f v E'"
    and q: "upath 4 q" "length q = 4"
  shows "walk E' root q = walk E root q"
proof -
  have "q \<noteq> p @ [i]" using q(2) ins by (auto simp: upath_def table_installed_def)
  then show ?thesis
    using table_installed_walk [OF ins q(1)] table_installed_old_none [OF ins, of q] by auto
qed

lemma table_installed_wf:
  assumes ins: "table_installed E root U p t i f v E'"
  shows "wf_tables E' root (insert f U)"
proof -
  from ins have wf: "wf_tables E root U" and f: "f \<notin> U" "page_aligned f"
    by (simp_all add: table_installed_def)
  have w: "walk E' root q = Some u \<Longrightarrow>
      (q = p @ [i] \<and> u = f) \<or> (q \<noteq> p @ [i] \<and> walk E root q = Some u \<and> u \<in> U \<and> page_aligned u)"
    if "upath 3 q" for q u
    using table_installed_walk [OF ins upath_mono [OF that]] wf_tables_in [OF wf that] wf_tables_aligned [OF wf that]
    by (auto split: if_splits)
  show ?thesis
    unfolding wf_tables_def
  proof (intro conjI allI impI)
    fix q u assume "upath 3 q" and "walk E' root q = Some u"
    with w [of q u] f(2) show "u \<in> insert f U" and "page_aligned u" by auto
  next
    fix q r u
    assume "upath 3 q" and "upath 3 r" and "walk E' root q = Some u" and "walk E' root r = Some u"
    with w [of q u] w [of r u] f(1) show "q = r" using wf_tables_inj [OF wf] by auto
  qed
qed

section \<open>Writing a leaf\<close>

text \<open>\<open>E'\<close> is \<open>E\<close> after \<open>v\<close> was stored at index \<open>i\<close> of the last-level table \<open>t\<close>.\<close>

definition leaf_written ::
  "tables \<Rightarrow> u64 \<Rightarrow> u64 set \<Rightarrow> nat list \<Rightarrow> u64 \<Rightarrow> nat \<Rightarrow> u64 \<Rightarrow> tables \<Rightarrow> bool" where
  "leaf_written E root U p t i v E' \<longleftrightarrow>
     wf_tables E root U \<and> upath 3 p \<and> length p = 3 \<and> walk E root p = Some t \<and>
     (\<forall>u j. page_aligned u \<longrightarrow> j < 512 \<longrightarrow> E' u j = (if u = t \<and> j = i then v else E u j))"

lemma leaf_written_tables:
  assumes wr: "leaf_written E root U p t i v E'"
    and "upath 3 q"
  shows "walk E' root q = walk E root q"
  using assms(2)
proof (induction q rule: rev_induct)
  case Nil
  then show ?case by simp
next
  case (snoc j q)
  from wr have wf: "wf_tables E root U" and p: "upath 3 p" "length p = 3" "walk E root p = Some t"
    and E': "\<And>u j. page_aligned u \<Longrightarrow> j < 512 \<Longrightarrow> E' u j = (if u = t \<and> j = i then v else E u j)"
    by (simp_all add: leaf_written_def)
  have q2: "upath 2 q" and j: "j < 512"
    using snoc.prems upath_snoc [of 2 q j] by (simp_all add: numeral_3_eq_3)
  have q3: "upath 3 q" using upath_mono [OF q2] by simp
  have "q \<noteq> p" using q2 p(2) by (auto simp: upath_def)
  then have "E' u j = E u j" if "walk E root q = Some u" for u
    using E' [OF wf_tables_aligned [OF wf q3 that] j] wf_tables_inj [OF wf q3 p(1) that] p(3)
    by auto
  then show ?case using snoc.IH [OF q3] by (cases "walk E root q") (simp_all add: walk_snoc)
qed

lemma leaf_written_translation:
  assumes wr: "leaf_written E root U p t i v E'"
    and "upath 4 q" and "length q = 4"
  shows "walk E' root q =
    (if q = p @ [i] then if present v then Some (v AND PAGE_MASK) else None else walk E root q)"
proof -
  from wr have wf: "wf_tables E root U" and p: "upath 3 p" "length p = 3" "walk E root p = Some t"
    and E': "\<And>u j. page_aligned u \<Longrightarrow> j < 512 \<Longrightarrow> E' u j = (if u = t \<and> j = i then v else E u j)"
    by (simp_all add: leaf_written_def)
  obtain r j where q: "q = r @ [j]" using assms(3) by (cases q rule: rev_cases) auto
  have r: "upath 3 r" "j < 512" using assms(2) upath_snoc [of 3 r j] by (simp_all add: q)
  have same: "walk E' root r = walk E root r" by (rule leaf_written_tables [OF wr r(1)])
  have "E' u j = (if q = p @ [i] then v else E u j)" if "walk E root r = Some u" for u
    using E' [OF wf_tables_aligned [OF wf r(1) that] r(2)] wf_tables_inj [OF wf r(1) p(1) that]
      p(3) that by (auto simp: q)
  with same p(3) show ?thesis by (cases "walk E root r") (auto simp: q walk_snoc)
qed

lemma leaf_written_wf:
  assumes wr: "leaf_written E root U p t i v E'"
  shows "wf_tables E' root U"
proof -
  have "wf_tables E root U" using wr by (simp add: leaf_written_def)
  then show ?thesis using leaf_written_tables [OF wr] by (simp add: wf_tables_def)
qed

end
