(* ===== verification/Vmm.thy ===== *)
theory Vmm
  imports Pmm Paging
begin

text \<open>
  The virtual memory manager (the second half of \<open>kernel/src/src/vmm.c\<close>): four-level page tables
  built and walked through the higher-half direct map (HHDM), in which physical address \<open>p\<close> is
  readable at \<open>p + hhdm_offset\<close>. A load or store through the direct map is a load or store of
  physical memory. The TLB (\<open>invlpg\<close>, reloads of \<open>CR3\<close>) is not part of the state.
\<close>

section \<open>State and operations\<close>

record vm =
  vm_pmm :: pmm_state
  vm_mem :: pmem
  hhdm_offset :: u64
  hhdm_response :: "u64 option"
  g_kernel_pml4 :: u64
  cr3 :: u64

text \<open>\<open>phys_to_virt\<close> caches the offset of the boot loader's answer; without an answer it hangs.\<close>

definition phys_to_virt :: "u64 \<Rightarrow> vm \<Rightarrow> (u64 \<times> vm) option" where
  "phys_to_virt phys_addr s =
     (if hhdm_offset s = 0
      then do { off \<leftarrow> hhdm_response s; Some (phys_addr + off, s\<lparr>hhdm_offset := off\<rparr>) }
      else Some (phys_addr + hhdm_offset s, s))"

definition hhdm_read64 :: "u64 \<Rightarrow> vm \<Rightarrow> u64" where
  "hhdm_read64 va s = rd64 (vm_mem s) (va - hhdm_offset s)"

definition hhdm_write64 :: "u64 \<Rightarrow> u64 \<Rightarrow> vm \<Rightarrow> vm" where
  "hhdm_write64 va v s = s\<lparr>vm_mem := wr64 (vm_mem s) (va - hhdm_offset s) v\<rparr>"

definition hhdm_memset :: "u64 \<Rightarrow> u8 \<Rightarrow> nat \<Rightarrow> vm \<Rightarrow> vm" where
  "hhdm_memset va b n s = s\<lparr>vm_mem := fill (vm_mem s) (va - hhdm_offset s) b n\<rparr>"

definition vmm_init :: "vm \<Rightarrow> vm" where
  "vmm_init s = s\<lparr>g_kernel_pml4 := cr3 s AND PAGE_MASK\<rparr>"

definition pml4_index :: "u64 \<Rightarrow> nat" where
  "pml4_index virt_addr = unat (drop_bit 39 virt_addr AND 0x1FF)"

definition pdpt_index :: "u64 \<Rightarrow> nat" where
  "pdpt_index virt_addr = unat (drop_bit 30 virt_addr AND 0x1FF)"

definition pd_index :: "u64 \<Rightarrow> nat" where
  "pd_index virt_addr = unat (drop_bit 21 virt_addr AND 0x1FF)"

definition pt_index :: "u64 \<Rightarrow> nat" where
  "pt_index virt_addr = unat (drop_bit 12 virt_addr AND 0x1FF)"

text \<open>The loop of \<open>vmm_create_address_space\<close> over the kernel half.\<close>

definition copy_kernel_entry :: "u64 \<Rightarrow> u64 \<Rightarrow> nat \<Rightarrow> vm \<Rightarrow> vm option" where
  "copy_kernel_entry kernel_pml4_virt user_pml4_virt i s =
     Some (if present (hhdm_read64 (cell kernel_pml4_virt i) s)
           then hhdm_write64 (cell user_pml4_virt i) (hhdm_read64 (cell kernel_pml4_virt i) s) s
           else s)"

definition vmm_create_address_space :: "vm \<Rightarrow> (u64 \<times> vm) option" where
  "vmm_create_address_space s =
     (if g_kernel_pml4 s = 0 then None
      else do {
        (user_pml4_phys, pm) \<leftarrow> pmm_alloc_frame (vm_pmm s);
        let s1 = s\<lparr>vm_pmm := pm\<rparr>;
        if user_pml4_phys = 0 then Some (0, s1)
        else do {
          (kernel_pml4_virt, s2) \<leftarrow> phys_to_virt (g_kernel_pml4 s) s1;
          (user_pml4_virt, s3) \<leftarrow> phys_to_virt user_pml4_phys s2;
          let s4 = hhdm_memset user_pml4_virt 0 PAGE_SIZE s3;
          s5 \<leftarrow> for_each (copy_kernel_entry kernel_pml4_virt user_pml4_virt) [256..<512] s4;
          Some (user_pml4_phys, s5) } })"

text \<open>
  Steps 2 to 4 of \<open>vmm_map_page\<close>, which the code writes out once per level: from the address of
  an entry to the virtual address of the table it names, allocating the table when the entry is
  not present; \<open>None\<close> inside the pair is the early \<open>return false\<close>.
\<close>

definition vmm_next_table :: "u64 \<Rightarrow> vm \<Rightarrow> (u64 option \<times> vm) option" where
  "vmm_next_table ep s =
     (if \<not> present (hhdm_read64 ep s)
      then do {
        (phys, pm) \<leftarrow> pmm_alloc_frame (vm_pmm s);
        let s1 = s\<lparr>vm_pmm := pm\<rparr>;
        if phys = 0 then Some (None, s1)
        else do {
          (virt, s2) \<leftarrow> phys_to_virt phys s1;
          let s3 = hhdm_memset virt 0 PAGE_SIZE s2;
          Some (Some virt,
                hhdm_write64 ep (phys OR PTE_PRESENT OR PTE_WRITABLE OR PTE_USER) s3) } }
      else do {
        (virt, s1) \<leftarrow> phys_to_virt (hhdm_read64 ep s AND PAGE_MASK) s;
        Some (Some virt, s1) })"

definition vmm_map_page :: "u64 \<Rightarrow> u64 \<Rightarrow> u64 \<Rightarrow> u64 \<Rightarrow> vm \<Rightarrow> (bool \<times> vm) option" where
  "vmm_map_page pml4 virt_addr phys_addr flags s = do {
     (pml4_virt, s0) \<leftarrow> phys_to_virt pml4 s;
     (pdpt, s1) \<leftarrow> vmm_next_table (cell pml4_virt (pml4_index virt_addr)) s0;
     (case pdpt of None \<Rightarrow> Some (False, s1) | Some pdpt_virt \<Rightarrow> do {
       (pd, s2) \<leftarrow> vmm_next_table (cell pdpt_virt (pdpt_index virt_addr)) s1;
       (case pd of None \<Rightarrow> Some (False, s2) | Some pd_virt \<Rightarrow> do {
         (pt, s3) \<leftarrow> vmm_next_table (cell pd_virt (pd_index virt_addr)) s2;
         (case pt of None \<Rightarrow> Some (False, s3) | Some pt_virt \<Rightarrow>
           Some (True,
             hhdm_write64 (cell pt_virt (pt_index virt_addr)) (phys_addr OR flags) s3)) }) }) }"

definition vmm_unmap_page :: "u64 \<Rightarrow> u64 \<Rightarrow> vm \<Rightarrow> vm option" where
  "vmm_unmap_page pml4 virt_addr s = do {
     (pml4_virt, s0) \<leftarrow> phys_to_virt pml4 s;
     let pml4e = hhdm_read64 (cell pml4_virt (pml4_index virt_addr)) s0;
     if \<not> present pml4e then Some s0
     else do {
       (pdpt_virt, s1) \<leftarrow> phys_to_virt (pml4e AND PAGE_MASK) s0;
       let pdpte = hhdm_read64 (cell pdpt_virt (pdpt_index virt_addr)) s1;
       if \<not> present pdpte then Some s1
       else do {
         (pd_virt, s2) \<leftarrow> phys_to_virt (pdpte AND PAGE_MASK) s1;
         let pde = hhdm_read64 (cell pd_virt (pd_index virt_addr)) s2;
         if \<not> present pde then Some s2
         else do {
           (pt_virt, s3) \<leftarrow> phys_to_virt (pde AND PAGE_MASK) s2;
           let pte = cell pt_virt (pt_index virt_addr);
           if \<not> present (hhdm_read64 pte s3) then Some s3
           else Some (hhdm_write64 pte 0 s3) } } } }"

definition vmm_get_physical_address :: "u64 \<Rightarrow> u64 \<Rightarrow> vm \<Rightarrow> (u64 \<times> vm) option" where
  "vmm_get_physical_address pml4 virt_addr s = do {
     (pml4_virt, s0) \<leftarrow> phys_to_virt pml4 s;
     let pml4e = hhdm_read64 (cell pml4_virt (pml4_index virt_addr)) s0;
     if \<not> present pml4e then Some (0, s0)
     else do {
       (pdpt_virt, s1) \<leftarrow> phys_to_virt (pml4e AND PAGE_MASK) s0;
       let pdpte = hhdm_read64 (cell pdpt_virt (pdpt_index virt_addr)) s1;
       if \<not> present pdpte then Some (0, s1)
       else do {
         (pd_virt, s2) \<leftarrow> phys_to_virt (pdpte AND PAGE_MASK) s1;
         let pde = hhdm_read64 (cell pd_virt (pd_index virt_addr)) s2;
         if \<not> present pde then Some (0, s2)
         else do {
           (pt_virt, s3) \<leftarrow> phys_to_virt (pde AND PAGE_MASK) s2;
           let pte = hhdm_read64 (cell pt_virt (pt_index virt_addr)) s3;
           if \<not> present pte then Some (0, s3)
           else Some ((pte AND PAGE_MASK) OR (virt_addr AND NOT PAGE_MASK), s3) } } } }"

definition vmm_switch_address_space :: "u64 \<Rightarrow> vm \<Rightarrow> vm" where
  "vmm_switch_address_space pml4 s = s\<lparr>cr3 := pml4\<rparr>"

definition vmm_get_current_address_space :: "vm \<Rightarrow> u64" where
  "vmm_get_current_address_space s = cr3 s AND PAGE_MASK"

section \<open>The direct map\<close>

text \<open>The offset is known: cached, or answered as 0, which the code never counts as cached.\<close>

definition cached :: "vm \<Rightarrow> bool" where
  "cached s \<longleftrightarrow> hhdm_offset s \<noteq> 0 \<or> hhdm_response s = Some 0"

lemma phys_to_virt_cached: "cached s \<Longrightarrow> phys_to_virt p s = Some (p + hhdm_offset s, s)"
  by (auto simp: cached_def phys_to_virt_def)

lemma cached_update [simp]:
  "cached (s\<lparr>vm_pmm := pm\<rparr>) = cached s" "cached (s\<lparr>vm_mem := m\<rparr>) = cached s"
  "cached (hhdm_write64 va v s) = cached s" "cached (hhdm_memset va b n s) = cached s"
  by (simp_all add: cached_def hhdm_write64_def hhdm_memset_def)

lemma phys_to_virt_caches:
  assumes "hhdm_offset s \<noteq> 0 \<or> hhdm_response s \<noteq> None"
  obtains off where "phys_to_virt p s = Some (p + off, s\<lparr>hhdm_offset := off\<rparr>)"
    and "cached (s\<lparr>hhdm_offset := off\<rparr>)"
  using assms by (cases "hhdm_offset s = 0") (auto simp: cached_def phys_to_virt_def)

lemma hhdm_cell: "cell (t + off) i - off = cell t i"
  by (simp add: cell_def)

lemma hhdm_read64_cell [simp]: "hhdm_read64 (cell (t + hhdm_offset s) i) s = entry (vm_mem s) t i"
  by (simp add: hhdm_read64_def hhdm_cell entry_def)

lemma hhdm_write64_cell:
  "off = hhdm_offset s \<Longrightarrow> hhdm_write64 (cell (t + off) i) v s = s\<lparr>vm_mem := wr64 (vm_mem s) (cell t i) v\<rparr>"
  by (simp add: hhdm_write64_def hhdm_cell)

lemma hhdm_memset_frame:
  "off = hhdm_offset s \<Longrightarrow> hhdm_memset (t + off) b n s = s\<lparr>vm_mem := fill (vm_mem s) t b n\<rparr>"
  by (simp add: hhdm_memset_def)

text \<open>The index path of a virtual address; user addresses have a top index below 256.\<close>

definition path :: "u64 \<Rightarrow> nat list" where
  "path va = [pml4_index va, pdpt_index va, pd_index va, pt_index va]"

definition user_address :: "u64 \<Rightarrow> bool" where
  "user_address va \<longleftrightarrow> pml4_index va < 256"

lemma nine_bits: "unat (w AND 0x1FF :: u64) < 512"
proof -
  have "(0x1FF :: u64) = mask 9" by (simp add: mask_eq_exp_minus_1)
  then have "w AND 0x1FF = take_bit 9 w" by (simp only: take_bit_eq_mask)
  moreover have "unat (take_bit 9 w) < 2 ^ 9" by (simp only: unsigned_take_bit_eq take_bit_nat_less_exp)
  ultimately show ?thesis by simp
qed

lemma index_less [simp]:
  "pml4_index va < 512" "pdpt_index va < 512" "pd_index va < 512" "pt_index va < 512"
  by (simp_all add: pml4_index_def pdpt_index_def pd_index_def pt_index_def nine_bits)

lemma length_path [simp]: "length (path va) = 4"
  by (simp add: path_def)

lemma upath_path: "user_address va \<Longrightarrow> upath 4 (path va)"
  by (simp add: upath_def path_def user_address_def)

section \<open>Address spaces\<close>

text \<open>
  An address space with top-level table \<open>root\<close> and tables \<open>U\<close>: the user half is a tree of
  frames that the physical memory manager counts as used.
\<close>

definition as_inv :: "vm \<Rightarrow> u64 \<Rightarrow> u64 set \<Rightarrow> bool" where
  "as_inv s root U \<longleftrightarrow> cached s \<and> pmm_inv (vm_pmm s) \<and>
     wf_tables (entry (vm_mem s)) root U \<and> U \<subseteq> owned (vm_pmm s)"

definition translate :: "vm \<Rightarrow> u64 \<Rightarrow> nat list \<Rightarrow> u64 option" where
  "translate s root p = walk (entry (vm_mem s)) root p"

text \<open>
  What adding tables may do: the new tables are frames that were free, every full translation
  and the kernel half are as before, and frames that are not tables keep their bytes.
\<close>

definition tables_grow :: "u64 \<Rightarrow> vm \<Rightarrow> u64 set \<Rightarrow> vm \<Rightarrow> u64 set \<Rightarrow> bool" where
  "tables_grow root s U s' U' \<longleftrightarrow>
     as_inv s' root U' \<and> hhdm_offset s' = hhdm_offset s \<and> U \<subseteq> U' \<and>
     (U' - U) \<inter> owned (vm_pmm s) = {} \<and> owned (vm_pmm s) \<subseteq> owned (vm_pmm s') \<and>
     (\<forall>q. upath 4 q \<longrightarrow> length q = 4 \<longrightarrow> translate s' root q = translate s root q) \<and>
     (\<forall>j. 256 \<le> j \<longrightarrow> j < 512 \<longrightarrow> entry (vm_mem s') root j = entry (vm_mem s) root j) \<and>
     (\<forall>u k. page_aligned u \<longrightarrow> u \<notin> U' \<longrightarrow> k < 4096 \<longrightarrow>
        vm_mem s' (u + word_of_nat k) = vm_mem s (u + word_of_nat k))"

lemma tables_grow_refl: "as_inv s root U \<Longrightarrow> tables_grow root s U s U"
  by (simp add: tables_grow_def)

lemma tables_grow_inv: "tables_grow root s U s' U' \<Longrightarrow> as_inv s' root U'"
  by (simp add: tables_grow_def)

lemma tables_grow_trans:
  assumes "tables_grow root s U s1 U1" and "tables_grow root s1 U1 s2 U2"
  shows "tables_grow root s U s2 U2"
proof -
  have "(U2 - U) \<inter> owned (vm_pmm s) = {}"
    using assms unfolding tables_grow_def by blast
  moreover have "vm_mem s2 (u + word_of_nat k) = vm_mem s (u + word_of_nat k)"
    if "page_aligned u" "u \<notin> U2" "k < 4096" for u k
  proof -
    have "u \<notin> U1" using assms(2) that(2) unfolding tables_grow_def by blast
    then show ?thesis using assms that unfolding tables_grow_def by metis
  qed
  ultimately show ?thesis using assms unfolding tables_grow_def by auto
qed

lemma user_frame_table_other:
  assumes "page_aligned u" and "page_aligned t" and "u \<noteq> t" and "i < 512" and "k < 4096"
  shows "wr64 m (cell t i) v (u + word_of_nat k) = m (u + word_of_nat k)"
proof (rule wr64_other)
  fix n :: nat assume "n < 8"
  then have k: "8 * i + n < 4096" using assms(4) by simp
  have eq: "cell t i + word_of_nat n = t + word_of_nat (8 * i + n)" by (simp add: cell_def)
  have "unat ((t + word_of_nat (8 * i + n)) - t) < 4096"
    using page_offset [OF assms(2) assms(2) k] by simp
  moreover have "\<not> unat ((u + word_of_nat k) - t) < 4096"
    using page_offset [OF assms(2) assms(1) assms(5)] assms(3) by simp
  ultimately show "u + word_of_nat k \<noteq> cell t i + word_of_nat n"
    unfolding eq by metis
qed

lemma fill_frame_other:
  assumes "page_aligned u" and "page_aligned t" and "u \<noteq> t" and "k < 4096"
  shows "fill m t b 4096 (u + word_of_nat k) = m (u + word_of_nat k)"
  using page_offset [OF assms(2) assms(1) assms(4)] assms(3) by (simp add: fill_def)

section \<open>One level of the descent\<close>

lemma table_entry_flags:
  assumes "page_aligned f"
  shows "(f OR PTE_PRESENT OR PTE_WRITABLE OR PTE_USER) AND PAGE_MASK = f"
    and "present (f OR PTE_PRESENT OR PTE_WRITABLE OR PTE_USER)"
proof -
  have "(PTE_PRESENT OR PTE_WRITABLE OR PTE_USER) AND PAGE_MASK = 0"
    by (simp add: PTE_PRESENT_def PTE_WRITABLE_def PTE_USER_def PAGE_MASK_def)
  then show "(f OR PTE_PRESENT OR PTE_WRITABLE OR PTE_USER) AND PAGE_MASK = f"
    using mask_aligned_or [OF assms] by (simp add: or.assoc)
  show "present (f OR PTE_PRESENT OR PTE_WRITABLE OR PTE_USER)"
    by (simp add: present_bit bit_or_iff PTE_PRESENT_def)
qed

lemma vmm_next_table_present:
  assumes inv: "as_inv s root U" and p: "upath 2 p" "translate s root p = Some t"
    and pr: "present (entry (vm_mem s) t i)"
  shows "vmm_next_table (cell (t + hhdm_offset s) i) s =
      Some (Some ((entry (vm_mem s) t i AND PAGE_MASK) + hhdm_offset s), s)"
    and "translate s root (p @ [i]) = Some (entry (vm_mem s) t i AND PAGE_MASK)"
proof -
  have "cached s" using inv by (simp add: as_inv_def)
  then show "vmm_next_table (cell (t + hhdm_offset s) i) s =
      Some (Some ((entry (vm_mem s) t i AND PAGE_MASK) + hhdm_offset s), s)"
    using pr by (simp add: vmm_next_table_def phys_to_virt_cached)
  show "translate s root (p @ [i]) = Some (entry (vm_mem s) t i AND PAGE_MASK)"
    using p pr by (simp add: translate_def walk_snoc)
qed

text \<open>The state after a table was allocated for the entry \<open>i\<close> of \<open>t\<close>.\<close>

definition with_table :: "u64 \<Rightarrow> nat \<Rightarrow> u64 \<Rightarrow> pmm_state \<Rightarrow> vm \<Rightarrow> vm" where
  "with_table t i f pm s = s\<lparr>vm_pmm := pm,
     vm_mem := wr64 (fill (vm_mem s) f 0 4096) (cell t i)
                 (f OR PTE_PRESENT OR PTE_WRITABLE OR PTE_USER)\<rparr>"

lemma vmm_next_table_absent:
  assumes "cached s" and "\<not> present (entry (vm_mem s) t i)"
    and "pmm_alloc_frame (vm_pmm s) = Some (f, pm)"
  shows "vmm_next_table (cell (t + hhdm_offset s) i) s =
     Some (if f = 0 then (None, s\<lparr>vm_pmm := pm\<rparr>) else (Some (f + hhdm_offset s), with_table t i f pm s))"
  using assms
  by (simp add: vmm_next_table_def phys_to_virt_cached hhdm_memset_frame hhdm_write64_cell
      with_table_def PAGE_SIZE_def Let_def)

lemma with_table_installed:
  assumes inv: "as_inv s root U" and p: "upath 2 p" "translate s root p = Some t"
    and i: "i < 512" "p = [] \<longrightarrow> i < 256" and np: "\<not> present (entry (vm_mem s) t i)"
    and a: "pmm_alloc_frame (vm_pmm s) = Some (f, pm)" and f: "f \<noteq> 0"
  shows "table_installed (entry (vm_mem s)) root U p t i f
      (f OR PTE_PRESENT OR PTE_WRITABLE OR PTE_USER) (entry (vm_mem (with_table t i f pm s)))"
proof -
  have s: "pmm_inv (vm_pmm s)" "wf_tables (entry (vm_mem s)) root U" "U \<subseteq> owned (vm_pmm s)"
    using inv by (simp_all add: as_inv_def)
  have fa: "page_aligned f" using pmm.alloc_aligned [OF s(1) a] .
  have fU: "f \<notin> U" using pmm.alloc_fresh [OF s(1) a f] s(3) by blast
  have ta: "page_aligned t"
    using wf_tables_aligned [OF s(2) upath_mono [OF p(1)]] p(2) by (simp add: translate_def)
  have tU: "t \<in> U" using wf_tables_in [OF s(2) upath_mono [OF p(1)]] p(2) by (simp add: translate_def)
  have "entry (vm_mem (with_table t i f pm s)) u j =
      (if u = t \<and> j = i then f OR PTE_PRESENT OR PTE_WRITABLE OR PTE_USER
       else if u = f then 0 else entry (vm_mem s) u j)"
    if "page_aligned u" "j < 512" for u j
    using that ta fa i by (simp add: with_table_def entry_wr64 entry_fill)
  then show ?thesis
    using s(2) p i np fU fa table_entry_flags [OF fa]
    unfolding table_installed_def translate_def by blast
qed

lemma with_table_grows:
  assumes inv: "as_inv s root U" and p: "upath 2 p" "translate s root p = Some t"
    and i: "i < 512" "p = [] \<longrightarrow> i < 256" and np: "\<not> present (entry (vm_mem s) t i)"
    and a: "pmm_alloc_frame (vm_pmm s) = Some (f, pm)" and f: "f \<noteq> 0"
  shows "tables_grow root s U (with_table t i f pm s) (insert f U)"
    and "translate (with_table t i f pm s) root (p @ [i]) = Some f"
proof -
  let ?s = "with_table t i f pm s"
  have s: "cached s" "pmm_inv (vm_pmm s)" "wf_tables (entry (vm_mem s)) root U" "U \<subseteq> owned (vm_pmm s)"
    using inv by (simp_all add: as_inv_def)
  note ins = with_table_installed [OF assms]
  have fa: "page_aligned f" using pmm.alloc_aligned [OF s(2) a] .
  have t: "page_aligned t" "t \<in> U"
    using wf_tables_aligned [OF s(3) upath_mono [OF p(1)]] wf_tables_in [OF s(3) upath_mono [OF p(1)]] p(2)
    by (simp_all add: translate_def)
  have root: "root \<in> U" "page_aligned root" using wf_tables_root [OF s(3)] by auto
  have fU: "f \<notin> U" using pmm.alloc_fresh [OF s(2) a f] s(4) by blast
  have own: "owned pm = insert f (owned (vm_pmm s))" by (rule pmm.alloc_used [OF s(2) a f])
  have fields: "vm_pmm ?s = pm" "hhdm_offset ?s = hhdm_offset s" "cached ?s = cached s"
    by (simp_all add: with_table_def cached_def)
  have inv': "as_inv ?s root (insert f U)"
    unfolding as_inv_def fields own
    using s pmm.alloc_inv [OF s(2) a] table_installed_wf [OF ins] by blast
  have tr: "translate ?s root q = translate s root q" if "upath 4 q" "length q = 4" for q
    using table_installed_translation [OF ins that] by (simp add: translate_def)
  have hi: "entry (vm_mem ?s) root j = entry (vm_mem s) root j" if "256 \<le> j" "j < 512" for j
  proof -
    have "root = t \<Longrightarrow> i < 256"
    proof -
      assume "root = t"
      then have "translate s root [] = Some t" by (simp add: translate_def)
      then have "p = []"
        using wf_tables_inj [OF s(3) upath_mono [OF p(1)] upath_Nil] p(2) by (simp add: translate_def)
      then show ?thesis using i(2) by simp
    qed
    moreover have "root \<noteq> f" using root fU by auto
    ultimately show ?thesis
      using that root t fa i by (auto simp: with_table_def entry_wr64 entry_fill)
  qed
  have mem: "vm_mem ?s (u + word_of_nat k) = vm_mem s (u + word_of_nat k)"
    if "page_aligned u" "u \<notin> insert f U" "k < 4096" for u k
  proof -
    have "u \<noteq> t" "u \<noteq> f" using that(2) t by auto
    then show ?thesis
      using that t fa i user_frame_table_other [of u t i k] fill_frame_other [of u f k]
      by (simp add: with_table_def)
  qed
  show "tables_grow root s U ?s (insert f U)"
    unfolding tables_grow_def
  proof (intro conjI)
    show "as_inv ?s root (insert f U)" by (rule inv')
    show "(insert f U - U) \<inter> owned (vm_pmm s) = {}" using pmm.alloc_fresh [OF s(2) a f] by blast
    show "owned (vm_pmm s) \<subseteq> owned (vm_pmm ?s)" unfolding fields own by blast
  qed (use fields tr hi mem in auto)
  show "translate ?s root (p @ [i]) = Some f"
    using table_installed_new [OF ins] by (simp add: translate_def)
qed

text \<open>Both outcomes of one level: out of memory with nothing changed, or the table of the path.\<close>

lemma vmm_next_table_cases:
  assumes inv: "as_inv s root U" and p: "upath 2 p" "translate s root p = Some t"
    and i: "i < 512" "p = [] \<longrightarrow> i < 256"
  obtains (oom) "vmm_next_table (cell (t + hhdm_offset s) i) s = Some (None, s)"
      and "pmm_alloc_frame (vm_pmm s) = Some (0, vm_pmm s)"
  | (table) f s' U' where "vmm_next_table (cell (t + hhdm_offset s) i) s = Some (Some (f + hhdm_offset s'), s')"
      and "tables_grow root s U s' U'" and "translate s' root (p @ [i]) = Some f"
proof (cases "present (entry (vm_mem s) t i)")
  case True
  then show ?thesis
    using vmm_next_table_present [OF inv p True] tables_grow_refl [OF inv] table by blast
next
  case False
  have s: "cached s" "pmm_inv (vm_pmm s)" using inv by (simp_all add: as_inv_def)
  obtain f pm where a: "pmm_alloc_frame (vm_pmm s) = Some (f, pm)"
    using pmm.alloc_returns [OF s(2)] by blast
  note eq = vmm_next_table_absent [OF s(1) False a]
  show ?thesis
  proof (cases "f = 0")
    case True
    then have "pm = vm_pmm s" using pmm.alloc_null [OF s(2)] a by simp
    with True eq oom a show ?thesis by simp
  next
    case f: False
    have "hhdm_offset (with_table t i f pm s) = hhdm_offset s" by (simp add: with_table_def)
    with f eq table with_table_grows [OF inv p i False a f] show ?thesis by simp
  qed
qed

section \<open>Writing the last level\<close>

definition with_leaf :: "u64 \<Rightarrow> nat \<Rightarrow> u64 \<Rightarrow> vm \<Rightarrow> vm" where
  "with_leaf t i v s = s\<lparr>vm_mem := wr64 (vm_mem s) (cell t i) v\<rparr>"

text \<open>
  What mapping or unmapping one page may do: one full path gets the translation \<open>r\<close>, every other
  translation, the kernel half and the bytes of all frames that are not tables stay.
\<close>

definition one_page ::
  "u64 \<Rightarrow> nat list \<Rightarrow> u64 option \<Rightarrow> vm \<Rightarrow> u64 set \<Rightarrow> vm \<Rightarrow> u64 set \<Rightarrow> bool" where
  "one_page root p r s U s' U' \<longleftrightarrow>
     as_inv s' root U' \<and> hhdm_offset s' = hhdm_offset s \<and> U \<subseteq> U' \<and>
     (U' - U) \<inter> owned (vm_pmm s) = {} \<and> owned (vm_pmm s) \<subseteq> owned (vm_pmm s') \<and>
     (\<forall>q. upath 4 q \<longrightarrow> length q = 4 \<longrightarrow>
        translate s' root q = (if q = p then r else translate s root q)) \<and>
     (\<forall>j. 256 \<le> j \<longrightarrow> j < 512 \<longrightarrow> entry (vm_mem s') root j = entry (vm_mem s) root j) \<and>
     (\<forall>u k. page_aligned u \<longrightarrow> u \<notin> U' \<longrightarrow> k < 4096 \<longrightarrow>
        vm_mem s' (u + word_of_nat k) = vm_mem s (u + word_of_nat k))"

lemma with_leaf_one_page:
  assumes inv: "as_inv s root U" and p: "upath 3 p" "length p = 3" "translate s root p = Some t"
    and i: "i < 512"
  shows "one_page root (p @ [i]) (if present v then Some (v AND PAGE_MASK) else None) s U
           (with_leaf t i v s) U"
proof -
  let ?s = "with_leaf t i v s"
  have s: "cached s" "pmm_inv (vm_pmm s)" "wf_tables (entry (vm_mem s)) root U" "U \<subseteq> owned (vm_pmm s)"
    using inv by (simp_all add: as_inv_def)
  have w: "walk (entry (vm_mem s)) root p = Some t" using p(3) by (simp add: translate_def)
  have t: "page_aligned t" "t \<in> U"
    using wf_tables_aligned [OF s(3) p(1) w] wf_tables_in [OF s(3) p(1) w] by auto
  have root: "page_aligned root" using wf_tables_root [OF s(3)] by auto
  have E: "entry (vm_mem ?s) u j = (if u = t \<and> j = i then v else entry (vm_mem s) u j)"
    if "page_aligned u" "j < 512" for u j
    using that t i by (simp add: with_leaf_def entry_wr64)
  have lw: "leaf_written (entry (vm_mem s)) root U p t i v (entry (vm_mem ?s))"
    using s(3) p w E by (simp add: leaf_written_def)
  have fields: "vm_pmm ?s = vm_pmm s" "hhdm_offset ?s = hhdm_offset s" "cached ?s = cached s"
    by (simp_all add: with_leaf_def)
  have inv': "as_inv ?s root U"
    unfolding as_inv_def fields using s leaf_written_wf [OF lw] by blast
  have "root \<noteq> t"
  proof
    assume "root = t"
    then have "[] = p" by (intro wf_tables_inj [OF s(3) upath_Nil p(1) _ w]) simp
    with p(2) show False by simp
  qed
  then have hi: "entry (vm_mem ?s) root j = entry (vm_mem s) root j" if "j < 512" for j
    using E [OF root that] by simp
  have tr: "translate ?s root q =
      (if q = p @ [i] then if present v then Some (v AND PAGE_MASK) else None else translate s root q)"
    if "upath 4 q" "length q = 4" for q
    using leaf_written_translation [OF lw that] by (simp add: translate_def)
  have mem: "vm_mem ?s (u + word_of_nat k) = vm_mem s (u + word_of_nat k)"
    if "page_aligned u" "u \<notin> U" "k < 4096" for u k
  proof -
    have "u \<noteq> t" using that(2) t(2) by auto
    then show ?thesis
      using that t i by (simp add: with_leaf_def user_frame_table_other)
  qed
  show ?thesis
    unfolding one_page_def using inv' fields tr hi mem by simp
qed

text \<open>The leaf entry of a user address, if its page is present.\<close>

definition leaf_entry :: "vm \<Rightarrow> u64 \<Rightarrow> u64 \<Rightarrow> u64 option" where
  "leaf_entry s root va = do {
     t \<leftarrow> translate s root [pml4_index va, pdpt_index va, pd_index va];
     let e = entry (vm_mem s) t (pt_index va);
     if present e then Some e else None }"

lemma with_leaf_entry:
  assumes inv: "as_inv s root U" and va: "upath 3 [pml4_index va, pdpt_index va, pd_index va]"
    and t: "translate s root [pml4_index va, pdpt_index va, pd_index va] = Some t"
  shows "leaf_entry (with_leaf t (pt_index va) v s) root va = (if present v then Some v else None)"
proof -
  let ?p = "[pml4_index va, pdpt_index va, pd_index va]" and ?i = "pt_index va"
  have wf: "wf_tables (entry (vm_mem s)) root U" using inv by (simp add: as_inv_def)
  have w: "walk (entry (vm_mem s)) root ?p = Some t" using t by (simp only: translate_def)
  have al: "page_aligned t" by (rule wf_tables_aligned [OF wf va w])
  have E: "entry (vm_mem (with_leaf t ?i v s)) u j = (if u = t \<and> j = ?i then v else entry (vm_mem s) u j)"
    if "page_aligned u" "j < 512" for u j
    using that al by (simp add: with_leaf_def entry_wr64)
  have lw: "leaf_written (entry (vm_mem s)) root U ?p t ?i v (entry (vm_mem (with_leaf t ?i v s)))"
    using wf va w E by (simp add: leaf_written_def del: walk.simps)
  have "translate (with_leaf t ?i v s) root ?p = Some t"
    using leaf_written_tables [OF lw va] w by (simp only: translate_def)
  moreover have "entry (vm_mem (with_leaf t ?i v s)) t ?i = v" using E [OF al] by simp
  ultimately show ?thesis by (simp add: leaf_entry_def)
qed

lemma grow_then_one_page:
  assumes "tables_grow root s U s1 U1" and "one_page root p r s1 U1 s2 U2"
  shows "one_page root p r s U s2 U2"
proof -
  have "(U2 - U) \<inter> owned (vm_pmm s) = {}"
    using assms unfolding tables_grow_def one_page_def by blast
  moreover have "vm_mem s2 (u + word_of_nat k) = vm_mem s (u + word_of_nat k)"
    if "page_aligned u" "u \<notin> U2" "k < 4096" for u k
  proof -
    have "u \<notin> U1" using assms(2) that(2) unfolding one_page_def by blast
    then show ?thesis using assms that unfolding tables_grow_def one_page_def by metis
  qed
  ultimately show ?thesis using assms unfolding tables_grow_def one_page_def by auto
qed

section \<open>Mapping\<close>

lemma translate_root: "translate s root [] = Some root"
  by (simp add: translate_def)

lemma path_prefixes:
  assumes "user_address va"
  shows "upath 2 [pml4_index va]" "upath 2 [pml4_index va, pdpt_index va]"
    "upath 3 [pml4_index va, pdpt_index va, pd_index va]"
  using assms by (simp_all add: upath_def user_address_def)

text \<open>The two outcomes of \<open>vmm_map_page\<close> on a user address.\<close>

lemma vmm_map_page_cases:
  assumes inv: "as_inv s root U" and va: "user_address va"
  obtains (oom) s' U' where "vmm_map_page root va pa flags s = Some (False, s')"
      and "tables_grow root s U s' U'" and "pmm_alloc_frame (vm_pmm s') = Some (0, vm_pmm s')"
  | (mapped) s' U' where "vmm_map_page root va pa flags s = Some (True, s')"
      and "one_page root (path va)
             (if present (pa OR flags) then Some ((pa OR flags) AND PAGE_MASK) else None) s U s' U'"
      and "leaf_entry s' root va = (if present (pa OR flags) then Some (pa OR flags) else None)"
proof -
  have c: "cached s" using inv by (simp add: as_inv_def)
  note start = phys_to_virt_cached [OF c, of root]
  have i1: "pml4_index va < 512" "[] = [] \<longrightarrow> pml4_index va < 256"
    using va by (simp_all add: user_address_def)
  show ?thesis
  proof (cases rule: vmm_next_table_cases [OF inv upath_Nil translate_root i1, case_names oom table])
    case oom
    then have "vmm_map_page root va pa flags s = Some (False, s)"
      by (simp add: vmm_map_page_def start)
    then show ?thesis using tables_grow_refl [OF inv] oom(2) that(1) by blast
  next
    case (table f1 s1 U1)
    note l1 = table
    have inv1: "as_inv s1 root U1" using l1(2) by (rule tables_grow_inv)
    have p1: "translate s1 root [pml4_index va] = Some f1" using l1(3) by simp
    have i2: "pdpt_index va < 512" "[pml4_index va] = [] \<longrightarrow> pdpt_index va < 256" by simp_all
    show ?thesis
    proof (cases rule: vmm_next_table_cases [OF inv1 path_prefixes(1) [OF va] p1 i2, case_names oom table])
      case oom
      then have "vmm_map_page root va pa flags s = Some (False, s1)"
        using l1(1) by (simp add: vmm_map_page_def start)
      then show ?thesis using l1(2) oom(2) that(1) by blast
    next
      case (table f2 s2 U2)
      note l2 = table
      have inv2: "as_inv s2 root U2" using l2(2) by (rule tables_grow_inv)
      have p2: "translate s2 root [pml4_index va, pdpt_index va] = Some f2" using l2(3) by simp
      have g2: "tables_grow root s U s2 U2" by (rule tables_grow_trans [OF l1(2) l2(2)])
      have i3: "pd_index va < 512" "[pml4_index va, pdpt_index va] = [] \<longrightarrow> pd_index va < 256" by simp_all
      show ?thesis
      proof (cases rule: vmm_next_table_cases [OF inv2 path_prefixes(2) [OF va] p2 i3, case_names oom table])
        case oom
        then have "vmm_map_page root va pa flags s = Some (False, s2)"
          using l1(1) l2(1) by (simp add: vmm_map_page_def start)
        then show ?thesis using g2 oom(2) that(1) by blast
      next
        case (table f3 s3 U3)
        have inv3: "as_inv s3 root U3" using table(2) by (rule tables_grow_inv)
        have p3: "translate s3 root [pml4_index va, pdpt_index va, pd_index va] = Some f3"
          using table(3) by simp
        have "vmm_map_page root va pa flags s = Some (True, with_leaf f3 (pt_index va) (pa OR flags) s3)"
          using l1(1) l2(1) table(1)
          by (simp add: vmm_map_page_def start hhdm_write64_cell with_leaf_def)
        moreover have "one_page root (path va)
            (if present (pa OR flags) then Some ((pa OR flags) AND PAGE_MASK) else None) s U
            (with_leaf f3 (pt_index va) (pa OR flags) s3) U3"
          using grow_then_one_page [OF tables_grow_trans [OF g2 table(2)]
              with_leaf_one_page [OF inv3 path_prefixes(3) [OF va] _ p3, of "pt_index va" "pa OR flags"]]
          by (simp add: path_def)
        moreover have "leaf_entry (with_leaf f3 (pt_index va) (pa OR flags) s3) root va =
            (if present (pa OR flags) then Some (pa OR flags) else None)"
          by (rule with_leaf_entry [OF inv3 path_prefixes(3) [OF va] p3])
        ultimately show ?thesis using that(2) by blast
      qed
    qed
  qed
qed

section \<open>Looking up and unmapping\<close>

lemma lookup_steps:
  assumes "cached s"
  shows "vmm_get_physical_address root va s = Some
    (case translate s root (path va) of None \<Rightarrow> 0
     | Some page \<Rightarrow> page OR (va AND NOT PAGE_MASK), s)"
  using assms
  by (simp add: vmm_get_physical_address_def path_def translate_def phys_to_virt_cached Let_def)

lemma vmm_unmap_page_steps:
  assumes c: "cached s"
  shows "vmm_unmap_page root va s = Some
    (case translate s root [pml4_index va, pdpt_index va, pd_index va] of None \<Rightarrow> s
     | Some t \<Rightarrow> if present (entry (vm_mem s) t (pt_index va)) then with_leaf t (pt_index va) 0 s else s)"
  using c
  by (simp add: vmm_unmap_page_def translate_def phys_to_virt_cached Let_def
      hhdm_write64_cell with_leaf_def)

lemma translate_path_leaf:
  "translate s root (path va) =
     Option.bind (translate s root [pml4_index va, pdpt_index va, pd_index va])
       (\<lambda>t. if present (entry (vm_mem s) t (pt_index va))
            then Some (entry (vm_mem s) t (pt_index va) AND PAGE_MASK) else None)"
  using walk_snoc [of "entry (vm_mem s)" root "[pml4_index va, pdpt_index va, pd_index va]" "pt_index va"]
  by (simp add: translate_def path_def del: walk.simps)

lemma one_page_same:
  assumes "as_inv s root U"
  shows "one_page root p (translate s root p) s U s U"
  using assms by (simp add: one_page_def)

lemma vmm_unmap_page_result:
  assumes inv: "as_inv s root U" and va: "user_address va"
  obtains s' where "vmm_unmap_page root va s = Some s'" and "one_page root (path va) None s U s' U"
proof -
  let ?p = "[pml4_index va, pdpt_index va, pd_index va]"
  have c: "cached s" using inv by (simp add: as_inv_def)
  note eq = vmm_unmap_page_steps [OF c, of root va]
  show ?thesis
  proof (cases "translate s root (path va)")
    case None
    then have "vmm_unmap_page root va s = Some s"
      using eq by (auto simp: translate_path_leaf split: option.splits if_splits)
    then show ?thesis using one_page_same [OF inv, of "path va"] None that by simp
  next
    case (Some page)
    then obtain t where t: "translate s root ?p = Some t" "present (entry (vm_mem s) t (pt_index va))"
      by (auto simp: translate_path_leaf split: if_splits Option.bind_splits)
    then have "vmm_unmap_page root va s = Some (with_leaf t (pt_index va) 0 s)" using eq by simp
    moreover have "one_page root (path va) None s U (with_leaf t (pt_index va) 0 s) U"
      using with_leaf_one_page [OF inv path_prefixes(3) [OF va] _ t(1), of "pt_index va" 0]
      by (simp add: path_def)
    ultimately show ?thesis using that by blast
  qed
qed

section \<open>Several address spaces\<close>

lemma entry_cong_frame:
  assumes "\<And>k. k < 4096 \<Longrightarrow> m' (u + word_of_nat k) = m (u + word_of_nat k)" and "j < 512"
  shows "entry m' u j = entry m u j"
proof -
  have "m' (cell u j + word_of_nat i) = m (cell u j + word_of_nat i)" if "i < 8" for i
  proof -
    have "cell u j + word_of_nat i = u + word_of_nat (8 * j + i)" by (simp add: cell_def)
    moreover have "8 * j + i < 4096" using that assms(2) by simp
    ultimately show ?thesis using assms(1) [of "8 * j + i"] by (simp only:)
  qed
  then show ?thesis unfolding entry_def by (rule rd64_cong)
qed

lemma walk_cong_tables:
  assumes wf: "wf_tables E root U" and E': "\<And>u j. u \<in> U \<Longrightarrow> j < 512 \<Longrightarrow> E' u j = E u j"
  shows "upath 4 q \<Longrightarrow> walk E' root q = walk E root q"
proof (induction q rule: rev_induct)
  case Nil
  then show ?case by simp
next
  case (snoc j q)
  have q: "upath 3 q" "j < 512" using snoc.prems upath_snoc [of 3 q j] by simp_all
  have "walk E' root q = walk E root q" using snoc.IH upath_mono [OF q(1)] by simp
  moreover have "E' u j = E u j" if "walk E root q = Some u" for u
    using E' wf_tables_in [OF wf q(1) that] q(2) by simp
  ultimately show ?case by (cases "walk E root q") (simp_all add: walk_snoc)
qed

text \<open>An address space is kept when the bytes of its tables are.\<close>

lemma space_kept:
  assumes inv: "as_inv s root U"
    and own: "pmm_inv (vm_pmm s')" "owned (vm_pmm s) \<subseteq> owned (vm_pmm s')" "cached s'"
    and mem: "\<And>u k. u \<in> U \<Longrightarrow> page_aligned u \<Longrightarrow> k < 4096 \<Longrightarrow>
      vm_mem s' (u + word_of_nat k) = vm_mem s (u + word_of_nat k)"
    and al: "\<And>u. u \<in> U \<Longrightarrow> page_aligned u"
  shows "as_inv s' root U" and "upath 4 q \<Longrightarrow> translate s' root q = translate s root q"
proof -
  have s: "wf_tables (entry (vm_mem s)) root U" "U \<subseteq> owned (vm_pmm s)"
    using inv by (simp_all add: as_inv_def)
  have E: "entry (vm_mem s') u j = entry (vm_mem s) u j" if "u \<in> U" "j < 512" for u j
    by (rule entry_cong_frame) (use mem al that in auto)
  have w: "walk (entry (vm_mem s')) root q = walk (entry (vm_mem s)) root q" if "upath 4 q" for q
    by (rule walk_cong_tables [OF s(1) _ that]) (rule E)
  then show "upath 4 q \<Longrightarrow> translate s' root q = translate s root q" by (simp add: translate_def)
  have "wf_tables (entry (vm_mem s')) root U"
    using s(1) w upath_mono [of 3 _ 4] unfolding wf_tables_def by simp
  then show "as_inv s' root U"
    using own s(2) by (auto simp: as_inv_def)
qed

lemma owned_aligned: "u \<in> owned pm \<Longrightarrow> page_aligned u"
  by (auto simp: owned_def page_aligned_def unat_frame_addr)

lemma as_inv_aligned: "as_inv s root U \<Longrightarrow> u \<in> U \<Longrightarrow> page_aligned u"
  using owned_aligned by (auto simp: as_inv_def)

lemma one_page_other_space:
  assumes "one_page root p r s U s' U'" and other: "as_inv s root2 V" and disj: "V \<inter> U = {}"
  shows "as_inv s' root2 V" and "upath 4 q \<Longrightarrow> translate s' root2 q = translate s root2 q"
    and "V \<inter> U' = {}"
proof -
  have V: "V \<subseteq> owned (vm_pmm s)" using other by (simp add: as_inv_def)
  then show VU': "V \<inter> U' = {}" using assms(1) disj unfolding one_page_def by blast
  have "pmm_inv (vm_pmm s')" "owned (vm_pmm s) \<subseteq> owned (vm_pmm s')" "cached s'"
    using assms(1) by (simp_all add: one_page_def as_inv_def)
  note kept = space_kept [OF other this]
  have mem: "vm_mem s' (u + word_of_nat k) = vm_mem s (u + word_of_nat k)"
    if "u \<in> V" "page_aligned u" "k < 4096" for u k
    using assms(1) VU' that unfolding one_page_def by blast
  show "as_inv s' root2 V"
    by (rule kept(1)) (use mem as_inv_aligned [OF other] in auto)
  show "upath 4 q \<Longrightarrow> translate s' root2 q = translate s root2 q"
    by (rule kept(2)) (use mem as_inv_aligned [OF other] in auto)
qed

section \<open>Creating an address space\<close>

text \<open>The copy of the kernel half, entry by entry.\<close>

lemma copy_kernel_entries:
  assumes k: "page_aligned kr" and u: "page_aligned ur" and ne: "kr \<noteq> ur" and n: "n \<le> 512"
    and m0: "256 \<le> n"
  shows "\<exists>m'. for_each (copy_kernel_entry (kr + hhdm_offset s) (ur + hhdm_offset s)) [256..<n] s
           = Some (s\<lparr>vm_mem := m'\<rparr>) \<and>
         (\<forall>v j. page_aligned v \<longrightarrow> j < 512 \<longrightarrow> entry m' v j =
            (if v = ur \<and> 256 \<le> j \<and> j < n \<and> present (entry (vm_mem s) kr j)
             then entry (vm_mem s) kr j else entry (vm_mem s) v j)) \<and>
         (\<forall>v i. page_aligned v \<longrightarrow> v \<noteq> ur \<longrightarrow> i < 4096 \<longrightarrow>
            m' (v + word_of_nat i) = vm_mem s (v + word_of_nat i))"
  using m0 n
proof (induction n rule: nat_induct_at_least)
  case base
  then show ?case by (intro exI [of _ "vm_mem s"]) auto
next
  case (Suc n)
  then obtain m' where
    f: "for_each (copy_kernel_entry (kr + hhdm_offset s) (ur + hhdm_offset s)) [256..<n] s
          = Some (s\<lparr>vm_mem := m'\<rparr>)" and
    E: "\<And>v j. page_aligned v \<Longrightarrow> j < 512 \<Longrightarrow> entry m' v j =
            (if v = ur \<and> 256 \<le> j \<and> j < n \<and> present (entry (vm_mem s) kr j)
             then entry (vm_mem s) kr j else entry (vm_mem s) v j)" and
    M: "\<And>v i. page_aligned v \<Longrightarrow> v \<noteq> ur \<Longrightarrow> i < 4096 \<Longrightarrow>
            m' (v + word_of_nat i) = vm_mem s (v + word_of_nat i)"
    by auto
  have n: "n < 512" "256 \<le> n" using Suc by auto
  let ?e = "entry (vm_mem s) kr n"
  let ?m = "if present ?e then wr64 m' (cell ur n) ?e else m'"
  have rd: "hhdm_read64 (cell (kr + hhdm_offset s) n) (s\<lparr>vm_mem := m'\<rparr>) = ?e"
    using hhdm_read64_cell [of kr "s\<lparr>vm_mem := m'\<rparr>" n] E [OF k n(1)] ne by simp
  have step: "copy_kernel_entry (kr + hhdm_offset s) (ur + hhdm_offset s) n (s\<lparr>vm_mem := m'\<rparr>)
      = Some (s\<lparr>vm_mem := ?m\<rparr>)"
    unfolding copy_kernel_entry_def rd by (simp add: hhdm_write64_def hhdm_cell)
  have "for_each (copy_kernel_entry (kr + hhdm_offset s) (ur + hhdm_offset s)) [256..<Suc n] s
      = Some (s\<lparr>vm_mem := ?m\<rparr>)"
    using f step n by (simp add: for_each_append)
  moreover have "entry ?m v j = (if v = ur \<and> 256 \<le> j \<and> j < Suc n \<and> present (entry (vm_mem s) kr j)
             then entry (vm_mem s) kr j else entry (vm_mem s) v j)" if "page_aligned v" "j < 512" for v j
    using E [OF that] entry_wr64 [OF u that(1) n(1) that(2), of m' ?e] n
    by (auto simp: less_Suc_eq)
  moreover have "?m (v + word_of_nat i) = vm_mem s (v + word_of_nat i)"
    if "page_aligned v" "v \<noteq> ur" "i < 4096" for v i
    using M [OF that] user_frame_table_other [OF that(1) u that(2) n(1) that(3)] by simp
  ultimately show ?case by blast
qed

lemma vmm_create_result:
  assumes pm: "pmm_inv (vm_pmm s)" and resp: "hhdm_offset s \<noteq> 0 \<or> hhdm_response s \<noteq> None"
    and kr: "g_kernel_pml4 s \<noteq> 0" "page_aligned (g_kernel_pml4 s)"
      "g_kernel_pml4 s \<in> owned (vm_pmm s) \<or> g_kernel_pml4 s \<notin> managed (vm_pmm s)"
  obtains (oom) "vmm_create_address_space s = Some (0, s)" and "pmm_alloc_frame (vm_pmm s) = Some (0, vm_pmm s)"
  | (created) root s' where "vmm_create_address_space s = Some (root, s')"
      and "root \<noteq> 0" and "root \<notin> owned (vm_pmm s)" and "as_inv s' root {root}"
      and "owned (vm_pmm s') = insert root (owned (vm_pmm s))"
      and "\<And>q. length q = 4 \<Longrightarrow> upath 4 q \<Longrightarrow> translate s' root q = None"
      and "\<And>j. j < 512 \<Longrightarrow> entry (vm_mem s') root j =
        (if 256 \<le> j \<and> present (entry (vm_mem s) (g_kernel_pml4 s) j)
         then entry (vm_mem s) (g_kernel_pml4 s) j else 0)"
      and "\<And>v i. page_aligned v \<Longrightarrow> v \<noteq> root \<Longrightarrow> i < 4096 \<Longrightarrow>
        vm_mem s' (v + word_of_nat i) = vm_mem s (v + word_of_nat i)"
proof -
  let ?k = "g_kernel_pml4 s"
  obtain f pm' where a: "pmm_alloc_frame (vm_pmm s) = Some (f, pm')"
    using pmm.alloc_returns [OF pm] by blast
  show ?thesis
  proof (cases "f = 0")
    case True
    then have "pm' = vm_pmm s" using pmm.alloc_null [OF pm] a by simp
    with a True oom kr show ?thesis by (simp add: vmm_create_address_space_def)
  next
    case False
    have fr: "page_aligned f" "f \<notin> owned (vm_pmm s)" "f \<in> managed (vm_pmm s)"
      using pmm.alloc_aligned [OF pm a] pmm.alloc_fresh [OF pm a False] pmm.alloc_managed [OF pm a False]
      by auto
    have ne: "?k \<noteq> f" using kr(3) fr by auto
    obtain off where off: "phys_to_virt ?k (s\<lparr>vm_pmm := pm'\<rparr>) = Some (?k + off, s\<lparr>vm_pmm := pm'\<rparr>\<lparr>hhdm_offset := off\<rparr>)"
      "cached (s\<lparr>vm_pmm := pm'\<rparr>\<lparr>hhdm_offset := off\<rparr>)"
      using phys_to_virt_caches [of "s\<lparr>vm_pmm := pm'\<rparr>" ?k] resp by auto
    let ?s3 = "s\<lparr>vm_pmm := pm', hhdm_offset := off\<rparr>"
    let ?s4 = "?s3\<lparr>vm_mem := fill (vm_mem s) f 0 4096\<rparr>"
    have v: "phys_to_virt f ?s3 = Some (f + off, ?s3)"
      using phys_to_virt_cached [OF off(2), of f] by simp
    have "\<exists>m'. for_each (copy_kernel_entry (?k + off) (f + off)) [256..<512] ?s4 = Some (?s4\<lparr>vm_mem := m'\<rparr>) \<and>
         (\<forall>v j. page_aligned v \<longrightarrow> j < 512 \<longrightarrow> entry m' v j =
            (if v = f \<and> 256 \<le> j \<and> j < 512 \<and> present (entry (vm_mem ?s4) ?k j)
             then entry (vm_mem ?s4) ?k j else entry (vm_mem ?s4) v j)) \<and>
         (\<forall>v i. page_aligned v \<longrightarrow> v \<noteq> f \<longrightarrow> i < 4096 \<longrightarrow>
            m' (v + word_of_nat i) = vm_mem ?s4 (v + word_of_nat i))"
      using copy_kernel_entries [OF kr(2) fr(1) ne, of 512 ?s4] by (simp del: upt_rec_numeral)
    then obtain m' where
      m': "for_each (copy_kernel_entry (?k + off) (f + off)) [256..<512] ?s4 = Some (?s4\<lparr>vm_mem := m'\<rparr>)"
      and E4: "\<And>v j. page_aligned v \<Longrightarrow> j < 512 \<Longrightarrow> entry m' v j =
            (if v = f \<and> 256 \<le> j \<and> j < 512 \<and> present (entry (vm_mem ?s4) ?k j)
             then entry (vm_mem ?s4) ?k j else entry (vm_mem ?s4) v j)"
      and M4: "\<And>v i. page_aligned v \<Longrightarrow> v \<noteq> f \<Longrightarrow> i < 4096 \<Longrightarrow>
            m' (v + word_of_nat i) = vm_mem ?s4 (v + word_of_nat i)"
      by blast
    let ?s5 = "?s4\<lparr>vm_mem := m'\<rparr>"
    have ret: "vmm_create_address_space s = Some (f, ?s5)"
      using kr(1) a False off(1) v m'
      by (simp add: vmm_create_address_space_def hhdm_memset_def PAGE_SIZE_def del: upt_rec_numeral)
    have E: "entry m' f j = (if 256 \<le> j \<and> present (entry (vm_mem s) ?k j)
         then entry (vm_mem s) ?k j else 0)" if "j < 512" for j
      using E4 [OF fr(1) that] entry_fill [OF fr(1) fr(1) that, of "vm_mem s"]
        entry_fill [OF fr(1) kr(2) that, of "vm_mem s"] ne that by simp
    have M: "m' (v + word_of_nat i) = vm_mem s (v + word_of_nat i)"
      if "page_aligned v" "v \<noteq> f" "i < 4096" for v i
      using M4 [OF that] fill_frame_other [OF that(1) fr(1) that(2,3)] by simp
    have none: "walk (entry m') f q = None" if "q \<noteq> []" "upath 4 q" for q
    proof -
      obtain j r where q: "q = j # r" using \<open>q \<noteq> []\<close> by (cases q) auto
      then have "j < 256" using \<open>upath 4 q\<close> by (simp add: upath_def)
      then show ?thesis using E [of j] by (simp add: q)
    qed
    have wf: "wf_tables (entry m') f {f}"
    proof -
      have "q = [] \<and> t = f" if "upath 3 q" "walk (entry m') f q = Some t" for q t
        using none [OF _ upath_mono [OF that(1)]] that(2) by (cases "q = []") auto
      then show ?thesis using fr(1) unfolding wf_tables_def by blast
    qed
    have own: "owned pm' = insert f (owned (vm_pmm s))" by (rule pmm.alloc_used [OF pm a False])
    have "as_inv ?s5 f {f}"
      using wf own off(2) pmm.alloc_inv [OF pm a] by (simp add: as_inv_def cached_def)
    moreover have "translate ?s5 f q = None" if "length q = 4" "upath 4 q" for q
      using none [of q] that by (cases "q = []") (simp_all add: translate_def)
    ultimately show ?thesis
      using created [OF ret False fr(2)] own E M by simp
  qed
qed

section \<open>Properties\<close>

text \<open>The lookup of one address, as the value \<open>vmm_get_physical_address\<close> returns.\<close>

definition lookup :: "vm \<Rightarrow> u64 \<Rightarrow> u64 \<Rightarrow> u64 option" where
  "lookup s root va = map_option fst (vmm_get_physical_address root va s)"

lemma lookup_translate:
  "cached s \<Longrightarrow> lookup s root va = Some (case translate s root (path va) of None \<Rightarrow> 0
     | Some page \<Rightarrow> page OR (va AND NOT PAGE_MASK))"
  by (simp add: lookup_def lookup_steps)

lemma as_inv_cached: "as_inv s root U \<Longrightarrow> cached s"
  by (simp add: as_inv_def)

lemma as_inv_pmm: "as_inv s root U \<Longrightarrow> pmm_inv (vm_pmm s)"
  by (simp add: as_inv_def)

lemma one_page_lookup:
  assumes "one_page root p r s U s' U'" and "as_inv s root U" and "user_address va"
  shows "lookup s' root va = (if path va = p
     then Some (case r of None \<Rightarrow> 0 | Some page \<Rightarrow> page OR (va AND NOT PAGE_MASK))
     else lookup s root va)"
proof -
  have "as_inv s' root U'" using assms(1) by (simp add: one_page_def)
  then have "cached s" "cached s'" using assms(2) as_inv_cached by blast+
  moreover have "translate s' root (path va) = (if path va = p then r else translate s root (path va))"
    using assms(1) upath_path [OF assms(3)] by (simp add: one_page_def)
  ultimately show ?thesis by (simp add: lookup_translate)
qed

lemma grow_one_page: "tables_grow root s U s' U' \<Longrightarrow> one_page root p (translate s root p) s U s' U'"
  by (simp add: tables_grow_def one_page_def)

text \<open>
  C6 \<open>vmm_map_page\<close> on a user address always returns. When it returns \<open>true\<close> the page of that
  address, and no other, translates to the given frame; when it returns \<open>false\<close> the frame
  allocator is exhausted and no translation has changed. Either way the tables stay a tree of
  frames in use, the kernel half of the top-level table is kept, and so is every byte outside
  the tables.
\<close>

theorem vmm_map_page_correct:
  assumes inv: "as_inv s root U" and va: "user_address va"
    and pa: "page_aligned pa" and fl: "flags AND PAGE_MASK = 0" "present flags"
  shows "\<exists>ok s' U'. vmm_map_page root va pa flags s = Some (ok, s') \<and>
     as_inv s' root U' \<and> U \<subseteq> U' \<and> U' \<inter> owned (vm_pmm s) = U \<and>
     (\<not> ok \<longrightarrow> pmm_alloc_frame (vm_pmm s') = Some (0, vm_pmm s')) \<and>
     (\<forall>va'. user_address va' \<longrightarrow> lookup s' root va' =
        (if ok \<and> path va' = path va then Some (pa OR (va' AND NOT PAGE_MASK)) else lookup s root va')) \<and>
     (\<forall>j. 256 \<le> j \<longrightarrow> j < 512 \<longrightarrow> entry (vm_mem s') root j = entry (vm_mem s) root j) \<and>
     (\<forall>u k. page_aligned u \<longrightarrow> u \<notin> U' \<longrightarrow> k < 4096 \<longrightarrow>
        vm_mem s' (u + word_of_nat k) = vm_mem s (u + word_of_nat k))"
proof -
  have U: "U \<subseteq> owned (vm_pmm s)" using inv by (simp add: as_inv_def)
  have pr: "present (pa OR flags)" using fl(2) by (simp add: present_bit bit_or_iff)
  note page = mask_aligned_or [OF pa fl(1)]
  show ?thesis
  proof (cases rule: vmm_map_page_cases [OF inv va, of pa flags, case_names oom mapped])
    case (oom s' U')
    have op: "one_page root (path va) (translate s root (path va)) s U s' U'"
      by (rule grow_one_page [OF oom(2)])
    have "lookup s' root va' = lookup s root va'" if "user_address va'" for va'
      using one_page_lookup [OF op inv that] lookup_translate [OF as_inv_cached [OF inv], of root va']
      by (cases "path va' = path va") simp_all
    moreover have "U' \<inter> owned (vm_pmm s) = U" "U \<subseteq> U'" using op U by (auto simp: one_page_def)
    ultimately show ?thesis
      using oom(1,3) op by (intro exI [of _ False] exI [of _ s'] exI [of _ U']) (simp add: one_page_def)
  next
    case (mapped s' U')
    have op: "one_page root (path va) (Some pa) s U s' U'" using mapped(2) pr page by simp
    have "lookup s' root va' =
        (if path va' = path va then Some (pa OR (va' AND NOT PAGE_MASK)) else lookup s root va')"
      if "user_address va'" for va'
      using one_page_lookup [OF op inv that] by simp
    moreover have "U' \<inter> owned (vm_pmm s) = U" "U \<subseteq> U'" using op U by (auto simp: one_page_def)
    ultimately show ?thesis
      using mapped(1) op by (intro exI [of _ True] exI [of _ s'] exI [of _ U']) (simp add: one_page_def)
  qed
qed

text \<open>A small machine for the witnesses: an empty address space in frame 256, three free frames.\<close>

definition vm_example :: vm where
  "vm_example = \<lparr>vm_pmm = pmm_example, vm_mem = (\<lambda>_. 0), hhdm_offset = 0xffff800000000000,
     hhdm_response = Some 0xffff800000000000, g_kernel_pml4 = 0x100000, cr3 = 0x100000\<rparr>"

lemma entry_zero: "entry (\<lambda>_. 0) t i = 0"
  by (simp add: entry_def rd64_def)

lemma wf_tables_zero: "page_aligned t \<Longrightarrow> wf_tables (entry (\<lambda>_. 0)) t {t}"
proof -
  assume "page_aligned t"
  moreover have "walk (entry (\<lambda>_. 0)) t q = Some u \<longleftrightarrow> q = [] \<and> u = t" for q u
    by (cases q) (auto simp: entry_zero)
  ultimately show ?thesis by (simp add: wf_tables_def)
qed

lemma frame_256: "frame_addr 256 = 0x100000"
  by (simp add: frame_addr_def PAGE_SIZE_def)

lemma pmm_example_owns_256: "0x100000 \<in> owned pmm_example"
proof -
  have "in_use pmm_example 256" by (simp add: in_use_def pmm_example_def)
  then have "frame_addr 256 \<in> owned pmm_example" by (simp add: frame_addr_owned pmm_consts)
  then show ?thesis by (simp only: frame_256)
qed

lemma vm_example_space: "as_inv vm_example 0x100000 {0x100000}"
proof -
  have "page_aligned 0x100000" by (simp add: page_aligned_def)
  from wf_tables_zero [OF this] show ?thesis
    using pmm_example_inv pmm_example_owns_256 by (simp add: as_inv_def vm_example_def cached_def)
qed

lemma vm_example_lookup: "lookup vm_example 0x100000 va = Some 0"
proof -
  have "\<not> present (entry (vm_mem vm_example) 0x100000 (pml4_index va))"
    by (simp add: vm_example_def entry_zero)
  then show ?thesis
    using lookup_translate [OF as_inv_cached [OF vm_example_space], of "0x100000" va]
    by (simp add: translate_def path_def)
qed

theorem vmm_map_page_correct_witness:
  "\<exists>ok s'. vmm_map_page 0x100000 0x401000 0x103000 7 vm_example = Some (ok, s') \<and>
     lookup s' 0x100000 0x401abc = Some (if ok then 0x103abc else 0) \<and>
     lookup s' 0x100000 0x402abc = Some 0"
proof -
  have va: "user_address 0x401000" "user_address 0x401abc" "user_address 0x402abc"
    and eq: "path 0x401abc = path 0x401000" and ne: "path 0x402abc \<noteq> path 0x401000"
    by (simp_all add: user_address_def path_def pml4_index_def pdpt_index_def pd_index_def pt_index_def)
  have fl: "page_aligned 0x103000" "(7 :: u64) AND PAGE_MASK = 0" "present 7"
    by (simp_all add: page_aligned_def PAGE_MASK_def present_def PTE_PRESENT_def)
  have off: "(0x103000 :: u64) OR (0x401abc AND NOT PAGE_MASK) = 0x103abc"
    by (simp add: PAGE_MASK_def)
  from vmm_map_page_correct [OF vm_example_space va(1) fl]
  obtain ok s' where "vmm_map_page 0x100000 0x401000 0x103000 7 vm_example = Some (ok, s')"
    "\<And>va'. user_address va' \<Longrightarrow> lookup s' 0x100000 va' = (if ok \<and> path va' = path 0x401000
       then Some (0x103000 OR (va' AND NOT PAGE_MASK)) else lookup vm_example 0x100000 va')"
    by blast
  then show ?thesis using va eq ne off vm_example_lookup by simp
qed

text \<open>
  C28 \<open>vmm_unmap_page\<close> on a user address always returns; afterwards the page of that address
  has no translation and every other user address translates as before.
\<close>

theorem vmm_unmap_page_correct:
  assumes inv: "as_inv s root U" and va: "user_address va"
  shows "\<exists>s'. vmm_unmap_page root va s = Some s' \<and> as_inv s' root U \<and>
     (\<forall>va'. user_address va' \<longrightarrow>
        lookup s' root va' = (if path va' = path va then Some 0 else lookup s root va')) \<and>
     (\<forall>j. 256 \<le> j \<longrightarrow> j < 512 \<longrightarrow> entry (vm_mem s') root j = entry (vm_mem s) root j)"
proof -
  obtain s' where s': "vmm_unmap_page root va s = Some s'" and op: "one_page root (path va) None s U s' U"
    by (rule vmm_unmap_page_result [OF inv va])
  have "lookup s' root va' = (if path va' = path va then Some 0 else lookup s root va')"
    if "user_address va'" for va'
    using one_page_lookup [OF op inv that] by simp
  then show ?thesis using s' op by (intro exI [of _ s']) (simp add: one_page_def)
qed

theorem vmm_unmap_page_correct_witness:
  "\<exists>s'. vmm_unmap_page 0x100000 0x401000 vm_example = Some s' \<and>
     lookup s' 0x100000 0x401abc = Some 0 \<and> as_inv s' 0x100000 {0x100000}"
proof -
  have va: "user_address 0x401000" "user_address 0x401abc"
    by (simp_all add: user_address_def pml4_index_def)
  from vmm_unmap_page_correct [OF vm_example_space va(1)] va(2) vm_example_lookup
  show ?thesis by fastforce
qed

text \<open>
  C18 \<open>vmm_create_address_space\<close> returns \<open>NULL\<close>, or a fresh frame as the top-level table of
  an address space that maps no user address and whose kernel half holds the present entries of
  the kernel's table; every existing address space keeps its translations.
\<close>

theorem vmm_create_address_space_correct:
  assumes "pmm_inv (vm_pmm s)" and "hhdm_offset s \<noteq> 0 \<or> hhdm_response s \<noteq> None"
    and "g_kernel_pml4 s \<noteq> 0" and "page_aligned (g_kernel_pml4 s)"
    and "g_kernel_pml4 s \<in> owned (vm_pmm s) \<or> g_kernel_pml4 s \<notin> managed (vm_pmm s)"
  shows "vmm_create_address_space s = Some (0, s) \<or>
    (\<exists>root s'. vmm_create_address_space s = Some (root, s') \<and> root \<noteq> 0 \<and>
       root \<notin> owned (vm_pmm s) \<and> as_inv s' root {root} \<and>
       (\<forall>va. user_address va \<longrightarrow> lookup s' root va = Some 0) \<and>
       (\<forall>j. j < 512 \<longrightarrow> entry (vm_mem s') root j =
          (if 256 \<le> j \<and> present (entry (vm_mem s) (g_kernel_pml4 s) j)
           then entry (vm_mem s) (g_kernel_pml4 s) j else 0)) \<and>
       (\<forall>root2 V. as_inv s root2 V \<longrightarrow> as_inv s' root2 V \<and> root \<notin> V \<and>
          (\<forall>va. user_address va \<longrightarrow> lookup s' root2 va = lookup s root2 va)))"
proof (cases rule: vmm_create_result [OF assms, case_names oom created])
  case oom
  then show ?thesis by simp
next
  case (created root s')
  have c: "cached s'" using created(4) by (rule as_inv_cached)
  have empty: "lookup s' root va = Some 0" if "user_address va" for va
    using lookup_translate [OF c] created(6) [OF length_path upath_path [OF that]] by simp
  have others: "as_inv s' root2 V \<and> root \<notin> V \<and>
      (\<forall>va. user_address va \<longrightarrow> lookup s' root2 va = lookup s root2 va)" if inv: "as_inv s root2 V" for root2 V
  proof -
    have V: "V \<subseteq> owned (vm_pmm s)" "cached s" using inv by (simp_all add: as_inv_def)
    then have r: "root \<notin> V" using created(3) by blast
    have own: "pmm_inv (vm_pmm s')" "owned (vm_pmm s) \<subseteq> owned (vm_pmm s')"
      using created(4,5) by (auto simp: as_inv_def)
    have mem: "vm_mem s' (u + word_of_nat k) = vm_mem s (u + word_of_nat k)"
      if "u \<in> V" "page_aligned u" "k < 4096" for u k
      using created(8) [of u k] r that by blast
    have "as_inv s' root2 V"
      by (rule space_kept(1) [OF inv own c]) (use mem as_inv_aligned [OF inv] in auto)
    moreover have "translate s' root2 q = translate s root2 q" if "upath 4 q" for q
      by (rule space_kept(2) [OF inv own c]) (use mem as_inv_aligned [OF inv] that in auto)
    ultimately show ?thesis
      using r lookup_translate [OF c] lookup_translate [OF V(2)] upath_path by simp
  qed
  show ?thesis using created(1-4,7) empty others by blast
qed

theorem vmm_create_address_space_correct_witness:
  "\<exists>root s'. vmm_create_address_space vm_example = Some (root, s') \<and>
     (root = 0 \<or> lookup s' root 0x401000 = Some 0 \<and> lookup s' 0x100000 0x401000 = Some 0)"
proof -
  have "page_aligned 0x100000" by (simp add: page_aligned_def)
  then have "vmm_create_address_space vm_example = Some (0, vm_example) \<or>
      (\<exists>root s'. vmm_create_address_space vm_example = Some (root, s') \<and>
         (\<forall>va. user_address va \<longrightarrow> lookup s' root va = Some 0) \<and>
         (\<forall>root2 V. as_inv vm_example root2 V \<longrightarrow>
            (\<forall>va. user_address va \<longrightarrow> lookup s' root2 va = lookup vm_example root2 va)))"
    using vmm_create_address_space_correct [of vm_example] pmm_example_inv pmm_example_owns_256
    by (fastforce simp: vm_example_def)
  moreover have "user_address 0x401000" by (simp add: user_address_def pml4_index_def)
  ultimately show ?thesis using vm_example_space vm_example_lookup by metis
qed

text \<open>
  C17 Address spaces that share no table stay apart: whatever \<open>vmm_map_page\<close> does in one,
  successful or not, the other keeps all its translations and the two still share no table.
\<close>

theorem vmm_map_page_isolation:
  assumes inv: "as_inv s root U" and other: "as_inv s root2 V" and disj: "U \<inter> V = {}"
    and va: "user_address va"
  shows "\<exists>ok s' U'. vmm_map_page root va pa flags s = Some (ok, s') \<and>
     as_inv s' root U' \<and> as_inv s' root2 V \<and> U' \<inter> V = {} \<and>
     (\<forall>va'. user_address va' \<longrightarrow> lookup s' root2 va' = lookup s root2 va')"
proof -
  obtain ok s' U' r where m: "vmm_map_page root va pa flags s = Some (ok, s')"
    and op: "one_page root (path va) r s U s' U'"
    using vmm_map_page_cases [OF inv va, of pa flags] grow_one_page by metis
  have d: "V \<inter> U = {}" using disj by blast
  note kept = one_page_other_space [OF op other d]
  have "lookup s' root2 va' = lookup s root2 va'" if "user_address va'" for va'
    using kept(2) [OF upath_path [OF that]] lookup_translate [OF as_inv_cached [OF kept(1)]]
      lookup_translate [OF as_inv_cached [OF other]] by simp
  moreover have "as_inv s' root U'" using op by (simp add: one_page_def)
  ultimately show ?thesis using m kept(1,3) by blast
qed

text \<open>Two address spaces, in frames 256 and 257.\<close>

definition vm_example2 :: vm where
  "vm_example2 = vm_example\<lparr>vm_pmm := pmm_example\<lparr>pmm_bitmap := (\<lambda>_. 0)(32 := 3)\<rparr>\<rparr>"

lemma vm_example2_spaces: "as_inv vm_example2 0x100000 {0x100000}" "as_inv vm_example2 0x101000 {0x101000}"
proof -
  let ?pm = "pmm_example\<lparr>pmm_bitmap := (\<lambda>_. 0)(32 := 3)\<rparr>"
  have al: "page_aligned 0x100000" "page_aligned 0x101000" by (simp_all add: page_aligned_def)
  have "in_use ?pm 256" "in_use ?pm 257"
    by (simp_all add: in_use_def pmm_example_def bit_iff_odd)
  then have "frame_addr 256 \<in> owned ?pm" "frame_addr 257 \<in> owned ?pm"
    by (simp_all add: frame_addr_owned pmm_consts)
  moreover have "frame_addr 257 = 0x101000" by (simp add: frame_addr_def PAGE_SIZE_def)
  ultimately have own: "0x100000 \<in> owned ?pm" "0x101000 \<in> owned ?pm" by (simp_all only: frame_256)
  have "pmm_inv ?pm" by (simp add: pmm_inv_def pmm_example_def pmm_consts)
  with own wf_tables_zero [OF al(1)] wf_tables_zero [OF al(2)]
  show "as_inv vm_example2 0x100000 {0x100000}" "as_inv vm_example2 0x101000 {0x101000}"
    by (simp_all add: as_inv_def vm_example2_def vm_example_def cached_def)
qed

theorem vmm_map_page_isolation_witness:
  "\<exists>ok s'. vmm_map_page 0x100000 0x401000 0x103000 7 vm_example2 = Some (ok, s') \<and>
     lookup s' 0x101000 0x401000 = lookup vm_example2 0x101000 0x401000"
proof -
  have "user_address 0x401000" by (simp add: user_address_def pml4_index_def)
  then show ?thesis
    using vmm_map_page_isolation [OF vm_example2_spaces _ \<open>user_address 0x401000\<close>, of "0x103000" 7]
    by fastforce
qed

text \<open>
  \<open>PAGE_MASK\<close> keeps bit 63, so for a page mapped with \<open>PTE_NX\<close> the address
  \<open>vmm_get_physical_address\<close> returns is not the physical address of the page: it has bit 63 set.
\<close>

theorem vmm_lookup_keeps_nx:
  assumes inv: "as_inv s root U" and va: "user_address va"
    and pa: "page_aligned pa" "\<not> bit pa 63" and fl: "flags AND PAGE_MASK = PTE_NX" "present flags"
    and m: "vmm_map_page root va pa flags s = Some (True, s')"
  shows "lookup s' root va = Some (pa OR PTE_NX OR (va AND NOT PAGE_MASK)) \<and>
    bit (pa OR PTE_NX OR (va AND NOT PAGE_MASK)) 63"
proof -
  have pr: "present (pa OR flags)" using fl(2) by (simp add: present_bit bit_or_iff)
  have "pa AND PAGE_MASK = pa" using mask_aligned_or [OF pa(1), of 0] by simp
  then have page: "(pa OR flags) AND PAGE_MASK = pa OR PTE_NX"
    using fl(1) by (simp add: and.commute [of _ PAGE_MASK] bit.conj_disj_distrib)
  obtain U' where "one_page root (path va) (Some (pa OR PTE_NX)) s U s' U'"
    using vmm_map_page_cases [OF inv va, of pa flags] m pr page by force
  from one_page_lookup [OF this inv va]
  have "lookup s' root va = Some (pa OR PTE_NX OR (va AND NOT PAGE_MASK))" by (simp add: or.assoc)
  moreover have "bit (pa OR PTE_NX OR (va AND NOT PAGE_MASK)) 63"
    by (simp add: bit_or_iff PTE_NX_def bit_push_bit_iff)
  ultimately show ?thesis ..
qed

lemma with_table_zero:
  assumes "page_aligned t" and "page_aligned f" and "t \<noteq> f" and "i < 512" and "j < 512"
  shows "entry (vm_mem (with_table t i f pm s)) f j = 0"
  using assms by (simp add: with_table_def entry_wr64 entry_fill)

text \<open>A mapping that allocates all three tables.\<close>

lemma vmm_map_page_three_tables:
  assumes c: "cached s" and r: "page_aligned root" "\<not> present (entry (vm_mem s) root (pml4_index va))"
    and a: "pmm_alloc_frame (vm_pmm s) = Some (f1, pm1)" "pmm_alloc_frame pm1 = Some (f2, pm2)"
      "pmm_alloc_frame pm2 = Some (f3, pm3)"
    and f: "f1 \<noteq> 0" "f2 \<noteq> 0" "f3 \<noteq> 0" "page_aligned f1" "page_aligned f2"
    and ne: "root \<noteq> f1" "f1 \<noteq> f2"
  shows "\<exists>s'. vmm_map_page root va pa flags s = Some (True, s')"
proof -
  let ?s1 = "with_table root (pml4_index va) f1 pm1 s"
  let ?s2 = "with_table f1 (pdpt_index va) f2 pm2 ?s1"
  let ?s3 = "with_table f2 (pd_index va) f3 pm3 ?s2"
  have c': "cached ?s1" "cached ?s2" using c by (simp_all add: with_table_def cached_def)
  have off: "hhdm_offset ?s1 = hhdm_offset s" "hhdm_offset ?s2 = hhdm_offset s"
    and pm: "vm_pmm ?s1 = pm1" "vm_pmm ?s2 = pm2" by (simp_all add: with_table_def)
  have z: "\<not> present (entry (vm_mem ?s1) f1 (pdpt_index va))" "\<not> present (entry (vm_mem ?s2) f2 (pd_index va))"
    using with_table_zero r f ne by simp_all
  have l1: "vmm_next_table (cell (root + hhdm_offset s) (pml4_index va)) s = Some (Some (f1 + hhdm_offset s), ?s1)"
    using vmm_next_table_absent [OF c r(2) a(1)] f by simp
  have l2: "vmm_next_table (cell (f1 + hhdm_offset s) (pdpt_index va)) ?s1 = Some (Some (f2 + hhdm_offset s), ?s2)"
    using vmm_next_table_absent [OF c'(1) z(1), unfolded pm off, OF a(2)] f by simp
  have l3: "vmm_next_table (cell (f2 + hhdm_offset s) (pd_index va)) ?s2 = Some (Some (f3 + hhdm_offset s), ?s3)"
    using vmm_next_table_absent [OF c'(2) z(2), unfolded pm off, OF a(3)] f by simp
  show ?thesis
    by (simp add: vmm_map_page_def phys_to_virt_cached [OF c] l1 l2 l3)
qed

lemma pmm_example_alloc_next:
  "pmm_alloc_frame (pmm_example\<lparr>pmm_bitmap := (\<lambda>_. 0)(32 := 3), pmm_last_alloc_index := 258\<rparr>)
     = Some (0x102000, pmm_example\<lparr>pmm_bitmap := (\<lambda>_. 0)(32 := 7), pmm_last_alloc_index := 259\<rparr>)"
  "\<exists>pm. pmm_alloc_frame (pmm_example\<lparr>pmm_bitmap := (\<lambda>_. 0)(32 := 7), pmm_last_alloc_index := 259\<rparr>)
     = Some (0x103000, pm)"
  by (simp_all add: pmm_alloc_frame_def pmm_alloc_scan.simps [of _ 0] pmm_example_def pmm_consts
      pmm_bitmap_test_def pmm_bitmap_set_def)

lemma vm_example_maps: "\<exists>s'. vmm_map_page 0x100000 va pa flags vm_example = Some (True, s')"
proof -
  obtain pm where pm: "pmm_alloc_frame (pmm_example\<lparr>pmm_bitmap := (\<lambda>_. 0)(32 := 7),
      pmm_last_alloc_index := 259\<rparr>) = Some (0x103000, pm)"
    using pmm_example_alloc_next(2) by blast
  have "vm_pmm vm_example = pmm_example" by (simp add: vm_example_def)
  then have a: "pmm_alloc_frame (vm_pmm vm_example) = Some (0x101000, pmm_example
      \<lparr>pmm_bitmap := (\<lambda>_. 0)(32 := 3), pmm_last_alloc_index := 258\<rparr>)"
    by (simp only: pmm_example_alloc)
  show ?thesis
    by (rule vmm_map_page_three_tables [OF as_inv_cached [OF vm_example_space] _ _ a
          pmm_example_alloc_next(1) pm])
      (simp_all add: page_aligned_def vm_example_def entry_zero)
qed

theorem vmm_lookup_keeps_nx_witness:
  "\<exists>s'. vmm_map_page 0x100000 0x401000 0x103000 (PTE_PRESENT OR PTE_NX) vm_example = Some (True, s') \<and>
     lookup s' 0x100000 0x401000 = Some 0x8000000000103000"
proof -
  obtain s' where m: "vmm_map_page 0x100000 0x401000 0x103000 (PTE_PRESENT OR PTE_NX) vm_example
      = Some (True, s')"
    using vm_example_maps by blast
  have va: "user_address 0x401000" by (simp add: user_address_def pml4_index_def)
  have pa: "page_aligned 0x103000" "\<not> bit (0x103000 :: u64) 63"
    by (simp_all add: page_aligned_def bit_iff_odd)
  have fl: "(PTE_PRESENT OR PTE_NX) AND PAGE_MASK = PTE_NX" "present (PTE_PRESENT OR PTE_NX)"
    by (simp_all add: PTE_PRESENT_def PTE_NX_def PAGE_MASK_def present_def)
  have "(0x103000 :: u64) OR PTE_NX OR (0x401000 AND NOT PAGE_MASK) = 0x8000000000103000"
    by (simp add: PTE_NX_def PAGE_MASK_def)
  with vmm_lookup_keeps_nx [OF vm_example_space va pa fl m] m show ?thesis by simp
qed

end
