(* ===== verification/UserMem.thy ===== *)
theory UserMem
  imports Vmm
begin

text \<open>
  User memory as the kernel reaches it in a system call: through the page tables of the current
  address space, byte by byte. The walk is the processor's: an address that is not canonical, a
  page that is not present and a store to a page without the writable bit (supervisor mode with
  \<open>CR0.WP\<close> set, as the boot protocol leaves it) fault, and a fault in the kernel halts the
  machine (\<open>isr_handler\<close> in \<open>kernel/src/src/idt.c\<close>). \<open>None\<close> is that fault.
\<close>

section \<open>Interface\<close>

text \<open>
  A byte memory with independently accessible addresses: a load after a store sees the store at
  the same address and the old byte at every other address that is readable.
\<close>

locale byte_memory =
  fixes ok :: "'s \<Rightarrow> bool"
    and load :: "u64 \<Rightarrow> 's \<Rightarrow> u8 option"
    and store :: "u64 \<Rightarrow> u8 \<Rightarrow> 's \<Rightarrow> 's option"
    and can_store :: "u64 \<Rightarrow> 's \<Rightarrow> bool"
  assumes store_defined: "ok s \<Longrightarrow> can_store a s \<Longrightarrow> \<exists>s'. store a b s = Some s'"
    and store_ok: "ok s \<Longrightarrow> store a b s = Some s' \<Longrightarrow> ok s'"
    and store_can: "ok s \<Longrightarrow> store a b s = Some s' \<Longrightarrow> can_store c s' = can_store c s"
    and load_store: "ok s \<Longrightarrow> store a b s = Some s' \<Longrightarrow> load c s' = (if c = a then Some b else load c s)"
begin

fun loads :: "u64 \<Rightarrow> nat \<Rightarrow> 's \<Rightarrow> bytes option" where
  "loads a 0 s = Some []"
| "loads a (Suc n) s = do { b \<leftarrow> load a s; bs \<leftarrow> loads (a + 1) n s; Some (b # bs) }"

fun stores :: "u64 \<Rightarrow> bytes \<Rightarrow> 's \<Rightarrow> 's option" where
  "stores a [] s = Some s"
| "stores a (b # bs) s = do { s' \<leftarrow> store a b s; stores (a + 1) bs s' }"

lemma stores_defined:
  "ok s \<Longrightarrow> (\<And>i. i < length bs \<Longrightarrow> can_store (a + word_of_nat i) s) \<Longrightarrow>
     \<exists>s'. stores a bs s = Some s' \<and> ok s' \<and> (\<forall>c. can_store c s' = can_store c s)"
proof (induction bs arbitrary: a s)
  case (Cons b bs)
  have "can_store a s" using Cons.prems(2) [of 0] by simp
  then obtain s1 where s1: "store a b s = Some s1" using store_defined [OF Cons.prems(1)] by blast
  have ok1: "ok s1" "\<And>c. can_store c s1 = can_store c s"
    using store_ok [OF Cons.prems(1) s1] store_can [OF Cons.prems(1) s1] by auto
  have "can_store (a + 1 + word_of_nat i) s1" if "i < length bs" for i
    using Cons.prems(2) [of "Suc i"] that ok1(2) by (simp add: ac_simps)
  from Cons.IH [OF ok1(1) this] show ?case using s1 ok1(2) by auto
qed simp

lemma load_stores:
  "ok s \<Longrightarrow> stores a bs s = Some s' \<Longrightarrow> length bs \<le> 2 ^ 64 \<Longrightarrow>
     load c s' = (if unat (c - a) < length bs then Some (bs ! unat (c - a)) else load c s)"
proof (induction bs arbitrary: a s)
  case (Cons b bs)
  obtain s1 where s1: "store a b s = Some s1" "stores (a + 1) bs s1 = Some s'"
    using Cons.prems(2) by (auto split: Option.bind_splits)
  have ok1: "ok s1" by (rule store_ok [OF Cons.prems(1) s1(1)])
  have IH: "load c s' = (if unat (c - (a + 1)) < length bs then Some (bs ! unat (c - (a + 1))) else load c s1)"
    using Cons.IH [OF ok1 s1(2)] Cons.prems(3) by simp
  show ?case
  proof (cases "c = a")
    case True
    have "unat (- 1 :: u64) = 2 ^ 64 - 1" by (simp add: unsigned_minus_1_eq_mask mask_eq_exp_minus_1)
    then have "\<not> unat (c - (a + 1)) < length bs" using True Cons.prems(3) by simp
    then show ?thesis using IH load_store [OF Cons.prems(1) s1(1)] True by simp
  next
    case False
    have "c - a \<noteq> 0" using False by simp
    then have "unat (c - a - 1) = unat (c - a) - 1" by (rule unat_minus_one)
    then have "unat (c - (a + 1)) = unat (c - a) - 1" by (simp only: diff_diff_add)
    moreover have "0 < unat (c - a)" using \<open>c - a \<noteq> 0\<close> by (simp add: unat_gt_0)
    ultimately have "unat (c - a) = Suc (unat (c - (a + 1)))" by linarith
    then show ?thesis using IH load_store [OF Cons.prems(1) s1(1)] False by simp
  qed
qed simp

lemma loads_eqI:
  "(\<And>i. i < length bs \<Longrightarrow> load (a + word_of_nat i) s = Some (bs ! i)) \<Longrightarrow> loads a (length bs) s = Some bs"
proof (induction bs arbitrary: a)
  case (Cons b bs)
  have "load (a + 1 + word_of_nat i) s = Some (bs ! i)" if "i < length bs" for i
    using Cons.prems [of "Suc i"] that by (simp add: ac_simps)
  from Cons.IH [OF this] show ?case using Cons.prems [of 0] by simp
qed simp

lemma loads_stores:
  assumes "ok s" and "stores a bs s = Some s'" and "length bs < 2 ^ 64"
  shows "loads a (length bs) s' = Some bs"
proof (rule loads_eqI)
  fix i assume "i < length bs"
  then show "load (a + word_of_nat i) s' = Some (bs ! i)"
    using load_stores [OF assms(1,2), of "a + word_of_nat i"] assms(3) by (simp add: unat_of_nat)
qed

end

section \<open>The walk of the processor\<close>

text \<open>Bits 12 to 51 of an entry are the physical address.\<close>

definition PHYS_MASK :: u64 where
  "PHYS_MASK = 0x000FFFFFFFFFF000"

definition writable :: "u64 \<Rightarrow> bool" where
  "writable e \<longleftrightarrow> e AND PTE_WRITABLE \<noteq> 0"

definition byte_addr :: "u64 \<Rightarrow> u64 \<Rightarrow> u64" where
  "byte_addr e va = (e AND PHYS_MASK) + (va AND 0xFFF)"

definition space_root :: "vm \<Rightarrow> u64" where
  "space_root s = cr3 s AND PAGE_MASK"

definition user_load :: "u64 \<Rightarrow> vm \<Rightarrow> u8 option" where
  "user_load va s =
     (if va < 0x800000000000 then map_option (\<lambda>e. vm_mem s (byte_addr e va)) (leaf_entry s (space_root s) va)
      else None)"

definition user_writable :: "u64 \<Rightarrow> vm \<Rightarrow> bool" where
  "user_writable va s \<longleftrightarrow> va < 0x800000000000 \<and>
     (case leaf_entry s (space_root s) va of None \<Rightarrow> False | Some e \<Rightarrow> writable e)"

definition user_store :: "u64 \<Rightarrow> u8 \<Rightarrow> vm \<Rightarrow> vm option" where
  "user_store va b s =
     (if user_writable va s
      then map_option (\<lambda>e. s\<lparr>vm_mem := (vm_mem s)(byte_addr e va := b)\<rparr>) (leaf_entry s (space_root s) va)
      else None)"

fun user_loads :: "u64 \<Rightarrow> nat \<Rightarrow> vm \<Rightarrow> bytes option" where
  "user_loads va 0 s = Some []"
| "user_loads va (Suc n) s = do { b \<leftarrow> user_load va s; bs \<leftarrow> user_loads (va + 1) n s; Some (b # bs) }"

fun user_stores :: "u64 \<Rightarrow> bytes \<Rightarrow> vm \<Rightarrow> vm option" where
  "user_stores va [] s = Some s"
| "user_stores va (b # bs) s = do { s' \<leftarrow> user_store va b s; user_stores (va + 1) bs s' }"

lemma translate_leaf: "translate s root (path va) = map_option (\<lambda>e. e AND PAGE_MASK) (leaf_entry s root va)"
  by (simp add: translate_path_leaf leaf_entry_def Let_def split: Option.bind_split)

section \<open>Address spaces whose pages are private frames\<close>

text \<open>
  The user pages of an address space are frames in use, none of them a page table and none
  mapped twice.
\<close>

definition pages_ok :: "vm \<Rightarrow> u64 \<Rightarrow> u64 set \<Rightarrow> bool" where
  "pages_ok s root U \<longleftrightarrow>
     (\<forall>q p. upath 4 q \<longrightarrow> length q = 4 \<longrightarrow> translate s root q = Some p \<longrightarrow>
        p AND PHYS_MASK \<in> owned (vm_pmm s) - U) \<and>
     (\<forall>q q' p p'. upath 4 q \<longrightarrow> length q = 4 \<longrightarrow> upath 4 q' \<longrightarrow> length q' = 4 \<longrightarrow>
        translate s root q = Some p \<longrightarrow> translate s root q' = Some p' \<longrightarrow>
        p AND PHYS_MASK = p' AND PHYS_MASK \<longrightarrow> q = q')"

definition user_ok :: "vm \<Rightarrow> bool" where
  "user_ok s \<longleftrightarrow> (\<exists>U. as_inv s (space_root s) U \<and> pages_ok s (space_root s) U)"

lemma low_half: "va < 0x800000000000 \<Longrightarrow> \<not> bit (va :: u64) n \<or> n < 47"
proof -
  assume "va < 0x800000000000"
  then have "unat va < 2 ^ 47" by (simp add: word_less_nat_alt)
  then have "take_bit 47 (unat va) = unat va" by (simp only: take_bit_nat_eq_self)
  then have "take_bit 47 va = va" by (metis unsigned_take_bit_eq unsigned_word_eqI)
  then show ?thesis by (metis bit_take_bit_iff)
qed

lemma bit_9: "bit (0x1FF :: u64) n \<longleftrightarrow> n < 9"
proof -
  have "(0x1FF :: u64) = mask 9" by (simp add: mask_eq_exp_minus_1)
  then show ?thesis by (simp only: bit_mask_iff) auto
qed

lemma index_bits:
  fixes va vb :: u64
  assumes e: "unat (drop_bit k va AND 0x1FF) = unat (drop_bit k vb AND 0x1FF)" and n: "k \<le> n" "n < k + 9"
  shows "bit va n \<longleftrightarrow> bit vb n"
proof -
  have "drop_bit k va AND 0x1FF = drop_bit k vb AND 0x1FF" using e by (simp only: word_unat_eq_iff)
  then have "bit (drop_bit k va AND 0x1FF) (n - k) = bit (drop_bit k vb AND 0x1FF) (n - k)" by simp
  then show ?thesis using n by (simp only: bit_and_iff bit_drop_bit_eq bit_9) auto
qed

text \<open>An address of the lower half is its path and its offset.\<close>

lemma address_eqI:
  assumes "path va = path vb" and "va AND 0xFFF = vb AND 0xFFF"
    and "va < 0x800000000000" and "vb < 0x800000000000"
  shows "va = vb"
proof (rule bit_word_eqI)
  fix n assume "n < LENGTH(64)"
  have idx: "unat (drop_bit 39 va AND 0x1FF) = unat (drop_bit 39 vb AND 0x1FF)"
    "unat (drop_bit 30 va AND 0x1FF) = unat (drop_bit 30 vb AND 0x1FF)"
    "unat (drop_bit 21 va AND 0x1FF) = unat (drop_bit 21 vb AND 0x1FF)"
    "unat (drop_bit 12 va AND 0x1FF) = unat (drop_bit 12 vb AND 0x1FF)"
    using assms(1) by (simp_all only: path_def list.inject pml4_index_def pdpt_index_def pd_index_def pt_index_def)
  consider "n < 12" | "12 \<le> n" "n < 12 + 9" | "21 \<le> n" "n < 21 + 9" | "30 \<le> n" "n < 30 + 9"
    | "39 \<le> n" "n < 39 + 9" | "48 \<le> n"
    by linarith
  then show "bit va n \<longleftrightarrow> bit vb n"
  proof cases
    case 1
    have "bit (va AND 0xFFF) n = bit (vb AND 0xFFF) n" using assms(2) by simp
    then show ?thesis using 1 by (simp only: bit_and_iff bit_low_mask) simp
  next
    case 6
    then show ?thesis using low_half [OF assms(3), of n] low_half [OF assms(4), of n] by simp
  qed (rule index_bits, rule idx, assumption, assumption)+
qed

lemma low_user_address: "va < 0x800000000000 \<Longrightarrow> user_address va"
proof -
  assume va: "va < 0x800000000000"
  let ?x = "drop_bit 39 va AND 0x1FF"
  have eq: "?x = take_bit 8 ?x"
  proof (rule bit_word_eqI)
    fix n assume "n < LENGTH(64)"
    show "bit ?x n = bit (take_bit 8 ?x) n"
      using low_half [OF va, of "39 + n"] by (simp only: bit_and_iff bit_drop_bit_eq bit_9 bit_take_bit_iff) auto
  qed
  have "unat ?x = unat (take_bit 8 ?x)" by (rule arg_cong [OF eq])
  also have "\<dots> = take_bit 8 (unat ?x)" by (rule unsigned_take_bit_eq)
  also have "\<dots> < 2 ^ 8" by (rule take_bit_nat_less_exp)
  finally show ?thesis by (simp add: user_address_def pml4_index_def)
qed

lemma bit_PHYS_MASK: "bit PHYS_MASK n \<longleftrightarrow> 12 \<le> n \<and> n < 52"
proof -
  have "PHYS_MASK = push_bit 12 (mask 40)" by (simp add: PHYS_MASK_def mask_eq_exp_minus_1)
  then have "bit PHYS_MASK n = bit (push_bit 12 (mask 40 :: u64)) n" by (rule arg_cong)
  then show ?thesis by (simp only: bit_push_bit_iff bit_mask_iff) auto
qed

lemma phys_aligned [simp]: "page_aligned (e AND PHYS_MASK)"
  by (simp add: page_aligned_iff_bits bit_and_iff bit_PHYS_MASK)

lemma phys_page [simp]: "(e AND PAGE_MASK) AND PHYS_MASK = e AND PHYS_MASK"
  by (rule bit_word_eqI) (auto simp: bit_and_iff bit_PHYS_MASK bit_PAGE_MASK)

lemma unat_offset: "unat (va AND 0xFFF :: u64) < 4096"
proof -
  have "(0xFFF :: u64) = mask 12" by (simp add: mask_eq_exp_minus_1)
  then have "va AND 0xFFF = take_bit 12 va" by (simp only: take_bit_eq_mask)
  moreover have "unat (take_bit 12 va) < 2 ^ 12" by (simp only: unsigned_take_bit_eq take_bit_nat_less_exp)
  ultimately show ?thesis by simp
qed

lemma byte_addr_inj:
  assumes "byte_addr e va = byte_addr e' va'"
  shows "e AND PHYS_MASK = e' AND PHYS_MASK" and "va AND 0xFFF = va' AND 0xFFF"
proof -
  let ?f = "e AND PHYS_MASK" and ?f' = "e' AND PHYS_MASK"
  define k k' where k: "k = unat (va AND 0xFFF)" and k': "k' = unat (va' AND 0xFFF)"
  have lt: "k < 4096" "k' < 4096" using unat_offset by (simp_all only: k k')
  have o: "va AND 0xFFF = word_of_nat k" "va' AND 0xFFF = word_of_nat k'" by (simp_all add: k k')
  have eq: "?f + word_of_nat k = ?f' + word_of_nat k'" using assms by (simp only: byte_addr_def o)
  have "unat ((?f + word_of_nat k) - ?f') < 4096"
    using page_offset [of ?f' ?f' k'] lt by (simp only: eq) simp
  then have f: "?f = ?f'" using page_offset [of ?f' ?f k] lt by simp
  then show "e AND PHYS_MASK = e' AND PHYS_MASK" .
  show "va AND 0xFFF = va' AND 0xFFF" using eq f o by simp
qed

text \<open>A store to a byte of a frame that is no table keeps the address space.\<close>

lemma poke_kept:
  assumes inv: "as_inv s root U" and f: "page_aligned f" "f \<notin> U" and k: "k < 4096"
    and s': "s' = s\<lparr>vm_mem := (vm_mem s)(f + word_of_nat k := b)\<rparr>"
  shows "as_inv s' root U" and "upath 4 q \<Longrightarrow> translate s' root q = translate s root q"
    and "user_address va \<Longrightarrow> leaf_entry s' root va = leaf_entry s root va"
proof -
  have mem: "vm_mem s' (u + word_of_nat j) = vm_mem s (u + word_of_nat j)"
    if "u \<in> U" "page_aligned u" "j < 4096" for u j
  proof -
    have "u \<noteq> f" using that(1) f(2) by blast
    then have "u + word_of_nat j \<noteq> f + word_of_nat k"
      using page_offset [OF that(2) f(1) k] page_offset [OF that(2) that(2) that(3)] by metis
    then show ?thesis by (simp add: s')
  qed
  have own: "pmm_inv (vm_pmm s')" "owned (vm_pmm s) \<subseteq> owned (vm_pmm s')" "cached s'"
    using inv by (simp_all add: s' as_inv_def)
  note kept = space_kept [OF inv own]
  show "as_inv s' root U" by (rule kept(1)) (use mem as_inv_aligned [OF inv] in auto)
  have tr: "translate s' root q = translate s root q" if "upath 4 q" for q
    by (rule kept(2)) (use mem as_inv_aligned [OF inv] that in auto)
  then show "upath 4 q \<Longrightarrow> translate s' root q = translate s root q" .
  assume va: "user_address va"
  let ?p = "[pml4_index va, pdpt_index va, pd_index va]"
  have up: "upath 3 ?p" by (rule path_prefixes(3) [OF va])
  have wf: "wf_tables (entry (vm_mem s)) root U" using inv by (simp add: as_inv_def)
  have "entry (vm_mem s') t (pt_index va) = entry (vm_mem s) t (pt_index va)" if "translate s root ?p = Some t" for t
  proof -
    have t: "t \<in> U" using wf_tables_in [OF wf up] that by (simp add: translate_def)
    show ?thesis
      by (rule entry_cong_frame) (use mem [OF t as_inv_aligned [OF inv t]] in auto)
  qed
  then show "leaf_entry s' root va = leaf_entry s root va"
    using tr [OF upath_mono [OF up]] by (cases "translate s root ?p") (simp_all add: leaf_entry_def)
qed

lemma user_store_effect:
  assumes ok: "user_ok s" and st: "user_store va b s = Some s'"
  obtains e where "leaf_entry s (space_root s) va = Some e" and "va < 0x800000000000"
    and "s' = s\<lparr>vm_mem := (vm_mem s)(byte_addr e va := b)\<rparr>" and "user_ok s'"
    and "space_root s' = space_root s"
    and "\<And>c. user_address c \<Longrightarrow> leaf_entry s' (space_root s) c = leaf_entry s (space_root s) c"
proof -
  obtain U where inv: "as_inv s (space_root s) U" and pg: "pages_ok s (space_root s) U"
    using ok by (auto simp: user_ok_def)
  obtain e where e: "leaf_entry s (space_root s) va = Some e" "va < 0x800000000000"
    "s' = s\<lparr>vm_mem := (vm_mem s)(byte_addr e va := b)\<rparr>"
    using st by (auto simp: user_store_def user_writable_def split: if_splits)
  have va: "user_address va" by (rule low_user_address [OF e(2)])
  have "translate s (space_root s) (path va) = Some (e AND PAGE_MASK)" using e(1) by (simp add: translate_leaf)
  then have f: "e AND PHYS_MASK \<notin> U"
    using pg upath_path [OF va] length_path unfolding pages_ok_def by (metis DiffD2 phys_page)
  have k: "byte_addr e va = (e AND PHYS_MASK) + word_of_nat (unat (va AND 0xFFF))"
    by (simp add: byte_addr_def)
  note kept = poke_kept [OF inv phys_aligned f unat_offset e(3) [unfolded k]]
  have root: "space_root s' = space_root s" by (simp add: e(3) space_root_def)
  have "pages_ok s' (space_root s) U"
    using pg kept(2) by (simp add: pages_ok_def e(3))
  then have "user_ok s'" unfolding user_ok_def root using kept(1) by blast
  then show ?thesis using that [OF e] root kept(3) by blast
qed

interpretation um: byte_memory user_ok user_load user_store user_writable
proof
  fix s s' :: vm and a b c
  assume ok: "user_ok s"
  show "user_writable a s \<Longrightarrow> \<exists>s'. user_store a b s = Some s'"
    by (auto simp: user_store_def user_writable_def split: option.splits)
  assume st: "user_store a b s = Some s'"
  obtain e where e: "leaf_entry s (space_root s) a = Some e" "a < 0x800000000000"
    "s' = s\<lparr>vm_mem := (vm_mem s)(byte_addr e a := b)\<rparr>" "user_ok s'" "space_root s' = space_root s"
    "\<And>c. user_address c \<Longrightarrow> leaf_entry s' (space_root s) c = leaf_entry s (space_root s) c"
    by (rule user_store_effect [OF ok st]) blast
  show "user_ok s'" by (rule e(4))
  show "user_writable c s' = user_writable c s"
    using e(5,6) low_user_address [of c] by (auto simp: user_writable_def)
  show "user_load c s' = (if c = a then Some b else user_load c s)"
  proof (cases "c < 0x800000000000")
    case True
    have l: "leaf_entry s' (space_root s') c = leaf_entry s (space_root s) c"
      using e(5,6) low_user_address [OF True] by simp
    obtain U where pg: "pages_ok s (space_root s) U" using ok by (auto simp: user_ok_def)
    have "c = a" if "leaf_entry s (space_root s) c = Some e'" "byte_addr e' c = byte_addr e a" for e'
    proof (rule address_eqI [OF _ _ True e(2)])
      show "c AND 0xFFF = a AND 0xFFF" by (rule byte_addr_inj(2) [OF that(2)])
      have "translate s (space_root s) (path c) = Some (e' AND PAGE_MASK)"
        "translate s (space_root s) (path a) = Some (e AND PAGE_MASK)"
        using that(1) e(1) by (simp_all add: translate_leaf)
      then show "path c = path a"
        using pg upath_path [OF low_user_address [OF True]] upath_path [OF low_user_address [OF e(2)]]
          byte_addr_inj(1) [OF that(2)] unfolding pages_ok_def by (metis length_path phys_page)
    qed
    then show ?thesis
      using True l e(1,3) by (cases "leaf_entry s (space_root s) c") (auto simp: user_load_def)
  qed (use e(2) in \<open>auto simp: user_load_def\<close>)
qed

lemma user_loads_eq: "user_loads a n s = um.loads a n s"
  by (induction n arbitrary: a) simp_all

lemma user_stores_eq: "user_stores a bs = um.stores a bs"
  by (induction bs arbitrary: a) (rule ext, simp)+

section \<open>Mapping a private frame\<close>

lemma owned_phys: "p \<in> owned pm \<Longrightarrow> p AND PHYS_MASK = p"
proof -
  assume "p \<in> owned pm"
  then obtain f where f: "p = frame_addr f" "f < PMM_FRAMES" by (auto simp: owned_def)
  have al: "page_aligned p" by (rule owned_aligned [OF \<open>p \<in> owned pm\<close>])
  have "unat p < 2 ^ 52" using unat_frame_addr [OF f(2)] f by (simp add: pmm_consts)
  then have "take_bit 52 (unat p) = unat p" by (simp only: take_bit_nat_eq_self)
  then have "take_bit 52 p = p" by (metis unsigned_take_bit_eq unsigned_word_eqI)
  then have "n < 52" if "bit p n" for n using that by (metis bit_take_bit_iff)
  then show ?thesis
    using al by (intro bit_word_eqI) (auto simp: bit_and_iff bit_PHYS_MASK page_aligned_iff_bits not_less)
qed

lemma present_PHYS: "flags AND PHYS_MASK = 0 \<Longrightarrow> page_aligned pa \<Longrightarrow> (pa OR flags) AND PHYS_MASK = pa AND PHYS_MASK"
  by (simp add: bit.conj_disj_distrib2)

lemma one_page_pages_ok:
  assumes pg: "pages_ok s root U" and inv: "as_inv s root U" and op: "one_page root (path va) (Some page) s U s' U'"
    and page: "page AND PHYS_MASK = pa" "pa \<in> owned (vm_pmm s)" "pa \<notin> U"
    and fresh: "\<And>q p. upath 4 q \<Longrightarrow> length q = 4 \<Longrightarrow> translate s root q = Some p \<Longrightarrow> p AND PHYS_MASK \<noteq> pa"
  shows "pages_ok s' root U'"
proof -
  have o: "(U' - U) \<inter> owned (vm_pmm s) = {}" "owned (vm_pmm s) \<subseteq> owned (vm_pmm s')"
    and tr: "\<And>q. upath 4 q \<Longrightarrow> length q = 4 \<Longrightarrow>
      translate s' root q = (if q = path va then Some page else translate s root q)"
    using op by (simp_all add: one_page_def)
  have f: "p AND PHYS_MASK \<in> owned (vm_pmm s) - U \<and> (q \<noteq> path va \<longrightarrow> p AND PHYS_MASK \<noteq> pa)"
    if "upath 4 q" "length q = 4" "translate s' root q = Some p" for q p
  proof (cases "q = path va")
    case True
    then show ?thesis using tr [OF that(1,2)] that(3) page by auto
  next
    case False
    then have "translate s root q = Some p" using tr [OF that(1,2)] that(3) by simp
    then show ?thesis using pg fresh [OF that(1,2)] that(1,2) by (simp add: pages_ok_def)
  qed
  have "q = q'" if q: "upath 4 q" "length q = 4" "translate s' root q = Some p"
    "upath 4 q'" "length q' = 4" "translate s' root q' = Some p'" and eq: "p AND PHYS_MASK = p' AND PHYS_MASK"
    for q q' p p'
  proof (cases "q = path va \<or> q' = path va")
    case True
    then show ?thesis using f [OF q(1-3)] f [OF q(4-6)] tr [OF q(1,2)] tr [OF q(4,5)] q eq page by auto
  next
    case False
    then have "translate s root q = Some p" "translate s root q' = Some p'"
      using tr [OF q(1,2)] tr [OF q(4,5)] q by simp_all
    then show ?thesis using pg q eq unfolding pages_ok_def by blast
  qed
  moreover have "p AND PHYS_MASK \<in> owned (vm_pmm s') - U'"
    if "upath 4 q" "length q = 4" "translate s' root q = Some p" for q p
    using f [OF that] o by blast
  ultimately show ?thesis unfolding pages_ok_def by blast
qed

lemma phys_to_virt_cr3: "phys_to_virt p s = Some (v, s') \<Longrightarrow> cr3 s' = cr3 s"
  by (auto simp: phys_to_virt_def split: if_splits Option.bind_splits)

lemma vmm_next_table_cr3: "vmm_next_table e s = Some (r, s') \<Longrightarrow> cr3 s' = cr3 s"
  by (auto simp: vmm_next_table_def Let_def hhdm_memset_def hhdm_write64_def dest!: phys_to_virt_cr3
      split: if_splits Option.bind_splits)

lemma vmm_map_page_cr3: "vmm_map_page root va pa flags s = Some (ok, s') \<Longrightarrow> cr3 s' = cr3 s"
  by (auto simp: vmm_map_page_def Let_def hhdm_write64_def dest!: phys_to_virt_cr3 vmm_next_table_cr3
      split: option.splits Option.bind_splits)

text \<open>The bytes of one page.\<close>

lemma small_bits: "k < 4096 \<Longrightarrow> bit (word_of_nat k :: u64) n \<Longrightarrow> n < 12"
proof -
  assume k: "k < 4096" and b: "bit (word_of_nat k :: u64) n"
  have "take_bit 12 k = k" using k by (simp add: take_bit_nat_eq_self_iff)
  then have "take_bit 12 (word_of_nat k :: u64) = word_of_nat k" by (simp add: take_bit_of_nat)
  then show "n < 12" using b by (metis bit_take_bit_iff)
qed

lemma page_plus:
  assumes "page_aligned va" and "k < 4096"
  shows "va + word_of_nat k = va OR word_of_nat k"
proof (rule disjunctive_add)
  fix n show "\<not> bit va n \<or> \<not> bit (word_of_nat k :: u64) n"
    using assms small_bits [OF assms(2), of n] by (auto simp: page_aligned_iff_bits)
qed

lemma same_page:
  assumes "page_aligned va" and k: "k < 4096"
  shows "path (va + word_of_nat k) = path va" and "(va + word_of_nat k) AND 0xFFF = word_of_nat k"
proof -
  have "drop_bit m (va + word_of_nat k) = drop_bit m va" if "12 \<le> m" for m
    unfolding page_plus [OF assms]
    by (rule bit_word_eqI) (use small_bits [OF k, of "m + _"] that in \<open>force simp: bit_drop_bit_eq bit_or_iff\<close>)
  then show "path (va + word_of_nat k) = path va"
    by (simp add: path_def pml4_index_def pdpt_index_def pd_index_def pt_index_def)
  show "(va + word_of_nat k) AND 0xFFF = word_of_nat k"
    unfolding page_plus [OF assms]
  proof (rule bit_word_eqI)
    fix n assume "n < LENGTH(64)"
    show "bit ((va OR word_of_nat k) AND 0xFFF) n = bit (word_of_nat k :: u64) n"
      using assms(1) small_bits [OF k, of n]
      by (simp only: bit_and_iff bit_or_iff bit_low_mask page_aligned_iff_bits) auto
  qed
qed

lemma leaf_entry_path: "path va = path vb \<Longrightarrow> leaf_entry s root va = leaf_entry s root vb"
  by (simp add: leaf_entry_def path_def)

section \<open>An address space with one page, for the witnesses\<close>

definition vm_user0 :: vm where
  "vm_user0 = vm_example\<lparr>vm_pmm := pmm_example\<lparr>pmm_bitmap := (\<lambda>_. 0)(32 := 1, 64 := 1)\<rparr>\<rparr>"

lemma vm_user0_space: "as_inv vm_user0 0x100000 {0x100000}" "0x200000 \<in> owned (vm_pmm vm_user0)"
proof -
  let ?pm = "pmm_example\<lparr>pmm_bitmap := (\<lambda>_. 0)(32 := 1, 64 := 1)\<rparr>"
  have "in_use ?pm 256" "in_use ?pm 512" by (simp_all add: in_use_def pmm_example_def)
  then have "frame_addr 256 \<in> owned ?pm" "frame_addr 512 \<in> owned ?pm"
    by (simp_all add: frame_addr_owned pmm_consts)
  moreover have "frame_addr 512 = 0x200000" by (simp add: frame_addr_def PAGE_SIZE_def)
  ultimately have own: "0x100000 \<in> owned ?pm" "0x200000 \<in> owned ?pm" by (simp_all only: frame_256)
  have "page_aligned 0x100000" by (simp add: page_aligned_def)
  note wf = wf_tables_zero [OF this]
  have "pmm_inv ?pm" by (simp add: pmm_inv_def pmm_example_def pmm_consts)
  with own wf show "as_inv vm_user0 0x100000 {0x100000}" "0x200000 \<in> owned (vm_pmm vm_user0)"
    by (simp_all add: as_inv_def vm_user0_def vm_example_def cached_def)
qed

lemma vm_user0_map: "\<exists>s'. vmm_map_page 0x100000 va pa flags vm_user0 = Some (True, s')"
proof -
  let ?pm = "\<lambda>b i. pmm_example\<lparr>pmm_bitmap := (\<lambda>_. 0)(32 := b, 64 := 1), pmm_last_alloc_index := i\<rparr>"
  have skip: "n \<le> 256 \<Longrightarrow> pmm_alloc_scan 260 0 (?pm 1 0) = pmm_alloc_scan 260 n (?pm 1 0)" for n
  proof (induction n)
    case (Suc n)
    have "n mod 260 = n" and "n * 4096 < 0x100000" and "n < 260" using Suc.prems by simp_all
    then have "pmm_alloc_scan 260 n (?pm 1 0) = pmm_alloc_scan 260 (n + 1) (?pm 1 0)"
      by (subst pmm_alloc_scan.simps) (simp add: Let_def PAGE_SIZE_def)
    then show ?case using Suc by (simp only: Suc_eq_plus1 Suc_le_eq less_imp_le)
  qed simp
  have "pmm_alloc_scan 260 256 (?pm 1 0) = Some (0x101000, ?pm 3 258)"
    by (subst pmm_alloc_scan.simps, simp add: pmm_example_def pmm_consts pmm_bitmap_test_def,
        subst pmm_alloc_scan.simps)
      (simp add: pmm_example_def pmm_consts pmm_bitmap_test_def pmm_bitmap_set_def fun_upd_twist)
  then have "pmm_alloc_frame (?pm 1 0) = Some (0x101000, ?pm 3 258)"
    using skip [of 256] by (simp add: pmm_alloc_frame_def pmm_example_def PAGE_SIZE_def)
  moreover have "vm_pmm vm_user0 = ?pm 1 0" by (simp add: vm_user0_def pmm_example_def)
  ultimately have a1: "pmm_alloc_frame (vm_pmm vm_user0) = Some (0x101000, ?pm 3 258)" by simp
  have a2: "pmm_alloc_frame (?pm 3 258) = Some (0x102000, ?pm 7 259)"
    and a3: "\<exists>pm. pmm_alloc_frame (?pm 7 259) = Some (0x103000, pm)"
    by (simp_all add: pmm_alloc_frame_def pmm_alloc_scan.simps [of _ 0] pmm_example_def pmm_consts
        pmm_bitmap_test_def pmm_bitmap_set_def fun_upd_twist)
  obtain pm where a3': "pmm_alloc_frame (?pm 7 259) = Some (0x103000, pm)" using a3 by blast
  show ?thesis
    by (rule vmm_map_page_three_tables [OF as_inv_cached [OF vm_user0_space(1)] _ _ a1 a2 a3'])
      (simp_all add: page_aligned_def vm_user0_def vm_example_def entry_zero)
qed

lemma vm_user0_pages: "pages_ok vm_user0 0x100000 {0x100000}" "translate vm_user0 0x100000 q = Some p \<Longrightarrow> q = []"
proof -
  show t: "translate vm_user0 0x100000 q = Some p \<Longrightarrow> q = []" for q p
    by (cases q) (simp_all add: translate_def vm_user0_def vm_example_def entry_zero)
  show "pages_ok vm_user0 0x100000 {0x100000}"
    unfolding pages_ok_def using t by fastforce
qed

text \<open>One writable page, at any user address and at 0x401000.\<close>

lemma vm_user_page:
  assumes pg: "page_aligned pg" "pg < 0x7ffffffff000"
  obtains s where "vmm_map_page 0x100000 pg 0x200000 7 vm_user0 = Some (True, s)"
    and "user_ok s" and "\<And>i. i < 4096 \<Longrightarrow> user_writable (pg + word_of_nat i) s"
    and "\<And>va. user_address va \<Longrightarrow> path va \<noteq> path pg \<Longrightarrow> user_load va s = None"
    and "\<And>i. i < 4096 \<Longrightarrow> user_load (pg + word_of_nat i) s = Some 0"
    and "space_root s = 0x100000"
proof -
  have "pg < 0x800000000000" using pg(2) by (simp add: word_less_nat_alt)
  then have va: "user_address pg" by (rule low_user_address)
  have pr: "present (0x200000 OR 7)" by (simp add: present_def PTE_PRESENT_def)
  have masks: "(0x200000 OR 7 :: u64) AND PAGE_MASK = 0x200000" "(0x200000 :: u64) AND PHYS_MASK = 0x200000"
    "(0x200000 OR 7 :: u64) AND PHYS_MASK = 0x200000"
    by (simp_all add: PAGE_MASK_def PHYS_MASK_def)
  obtain s where m: "vmm_map_page 0x100000 pg 0x200000 7 vm_user0 = Some (True, s)"
    using vm_user0_map by blast
  obtain U' where op: "one_page 0x100000 (path pg) (Some 0x200000) vm_user0 {0x100000} s U'"
    and lf: "leaf_entry s 0x100000 pg = Some (0x200000 OR 7)"
    by (cases rule: vmm_map_page_cases [OF vm_user0_space(1) va, of "0x200000" 7, case_names oom mapped])
      (use m pr masks(1) in simp_all)
  have root: "space_root s = 0x100000"
    using vmm_map_page_cr3 [OF m] by (simp add: space_root_def vm_user0_def vm_example_def PAGE_MASK_def)
  have fresh: "p AND PHYS_MASK \<noteq> 0x200000" if "length q = 4" "translate vm_user0 0x100000 q = Some p" for q p
    using vm_user0_pages(2) [OF that(2)] that(1) by simp
  have "pages_ok s 0x100000 U'"
    by (rule one_page_pages_ok [OF vm_user0_pages(1) vm_user0_space(1) op masks(2) vm_user0_space(2)])
      (use fresh in auto)
  moreover have "as_inv s 0x100000 U'" using op by (simp add: one_page_def)
  ultimately have ok: "user_ok s" unfolding user_ok_def root by blast
  note al = pg(1)
  have low: "pg + word_of_nat i < (0x800000000000 :: u64)" if "i < 4096" for i
    using that pg(2) by (simp add: word_less_nat_alt unat_word_ariths unat_of_nat)
  have lf': "leaf_entry s 0x100000 (pg + word_of_nat i) = Some (0x200000 OR 7)" if "i < 4096" for i
    using leaf_entry_path [OF same_page(1) [OF al that]] lf by simp
  have wr: "user_writable (pg + word_of_nat i) s" if "i < 4096" for i
    using low [OF that] lf' [OF that] by (simp add: user_writable_def root writable_def PTE_WRITABLE_def)
  have none: "user_load c s = None" if "user_address c" "path c \<noteq> path pg" for c
  proof -
    have "translate s 0x100000 (path c) = translate vm_user0 0x100000 (path c)"
      using op upath_path [OF that(1)] that(2) by (simp add: one_page_def)
    then have "translate s 0x100000 (path c) = None"
      using vm_user0_pages(2) [of "path c"] by (cases "translate vm_user0 0x100000 (path c)") (auto simp: path_def)
    then show ?thesis by (simp add: translate_leaf user_load_def root)
  qed
  have "vm_mem s (0x200000 + word_of_nat i) = 0" if "i < 4096" for i
  proof -
    have "0x200000 \<notin> U'" using op vm_user0_space(2) by (auto simp: one_page_def)
    then have "vm_mem s (0x200000 + word_of_nat i) = vm_mem vm_user0 (0x200000 + word_of_nat i)"
      using op that by (simp add: one_page_def page_aligned_def)
    then show ?thesis by (simp add: vm_user0_def vm_example_def)
  qed
  then have "user_load (pg + word_of_nat i) s = Some 0" if "i < 4096" for i
    using low [OF that] lf' [OF that] same_page(2) [OF al that] that
    by (simp add: user_load_def root byte_addr_def PHYS_MASK_def)
  then show ?thesis using that [OF m ok wr none _ root] by blast
qed

lemma vm_user_example:
  obtains s where "vmm_map_page 0x100000 0x401000 0x200000 7 vm_user0 = Some (True, s)"
    and "user_ok s" and "\<And>i. i < 4096 \<Longrightarrow> user_writable (0x401000 + word_of_nat i) s"
    and "\<And>va. user_address va \<Longrightarrow> path va \<noteq> path 0x401000 \<Longrightarrow> user_load va s = None"
    and "\<And>i. i < 4096 \<Longrightarrow> user_load (0x401000 + word_of_nat i) s = Some 0"
    and "space_root s = 0x100000"
  by (rule vm_user_page [of "0x401000"]) (simp_all add: page_aligned_def)

end
