(* ===== verification/Space.thy ===== *)
theory Space
  imports UserMem
begin

text \<open>
  The abstract address space: a map from the paths of user pages to the contents of the pages.
  The loader and \<open>fork\<close> build address spaces page by page; their loops are shown to be updates
  of this map, and every other address space keeps its map.
\<close>

section \<open>Contents of frames\<close>

definition frame_bytes :: "pmem \<Rightarrow> u64 \<Rightarrow> bytes" where
  "frame_bytes m f = map (\<lambda>k. m (f + word_of_nat k)) [0..<4096]"

lemma length_frame_bytes [simp]: "length (frame_bytes m f) = 4096"
  by (simp add: frame_bytes_def del: upt_rec_numeral)

lemma frame_bytes_nth [simp]: "k < 4096 \<Longrightarrow> frame_bytes m f ! k = m (f + word_of_nat k)"
  by (simp add: frame_bytes_def del: upt_rec_numeral)

lemma frame_bytes_eq_iff: "frame_bytes m u = frame_bytes m' u' \<longleftrightarrow>
    (\<forall>k < 4096. m (u + word_of_nat k) = m' (u' + word_of_nat k))"
  by (auto simp: list_eq_iff_nth_eq)

lemma frame_bytes_eqD: "frame_bytes m u = frame_bytes m' u \<Longrightarrow> k < 4096 \<Longrightarrow>
    m (u + word_of_nat k) = m' (u + word_of_nat k)"
  by (simp add: frame_bytes_eq_iff)

text \<open>Stores to frame \<open>f\<close> only.\<close>

definition only_frame :: "u64 \<Rightarrow> pmem \<Rightarrow> pmem \<Rightarrow> bool" where
  "only_frame f m m' \<longleftrightarrow> (\<forall>u. page_aligned u \<longrightarrow> u \<noteq> f \<longrightarrow> frame_bytes m' u = frame_bytes m u)"

lemma only_frame_refl [simp]: "only_frame f m m"
  by (simp add: only_frame_def)

lemma only_frame_trans: "only_frame f m m1 \<Longrightarrow> only_frame f m1 m2 \<Longrightarrow> only_frame f m m2"
  by (simp add: only_frame_def)

text \<open>A store of bytes inside a page.\<close>

lemma store_in_page:
  assumes f: "page_aligned f" and u: "page_aligned u" and n: "off + length bs \<le> 4096" and k: "k < 4096"
  shows "store_bytes m (f + word_of_nat off) bs (u + word_of_nat k) =
    (if u = f \<and> off \<le> k \<and> k < off + length bs then bs ! (k - off) else m (u + word_of_nat k))"
proof (cases "length bs = 0")
  case False
  then have off: "off < 4096" using n by (cases bs) simp_all
  have uf: "unat (f + word_of_nat off) = unat f + off"
    using f off by (intro unat_add_small) (auto simp: page_aligned_def)
  have uu: "unat (u + word_of_nat k) = unat u + k"
    using u k by (intro unat_add_small) (auto simp: page_aligned_def)
  obtain p q where p: "unat f = 4096 * p" and q: "unat u = 4096 * q" using f u by (metis page_alignedE)
  have lt: "unat f + off < 2 ^ 64" "unat u + k < 2 ^ 64" using unat64_less uf uu by metis+
  have d: "unat ((u + word_of_nat k) - (f + word_of_nat off)) =
      (if unat f + off \<le> unat u + k then unat u + k - (unat f + off) else unat u + k + 2 ^ 64 - (unat f + off))"
    by (simp add: unat_sub_if' uf uu word_le_nat_alt)
  have "unat ((u + word_of_nat k) - (f + word_of_nat off)) < length bs \<longleftrightarrow>
      q = p \<and> off \<le> k \<and> k < off + length bs"
  proof (cases "q = p")
    case True
    then show ?thesis unfolding d p q using lt [unfolded p q] n k by auto
  next
    case False
    have "p < 2 ^ 52" using lt(1) unfolding p by simp
    then have "\<not> (if 4096 * p + off \<le> 4096 * q + k then 4096 * q + k - (4096 * p + off)
        else 4096 * q + k + 2 ^ 64 - (4096 * p + off)) < length bs"
      using False n k by (cases "q < p") auto
    then show ?thesis unfolding d p q using False by simp
  qed
  moreover have "u = f \<longleftrightarrow> q = p" using p q by (auto simp: word_unat_eq_iff)
  moreover have "unat ((u + word_of_nat k) - (f + word_of_nat off)) = k - off" if "u = f" "off \<le> k"
    unfolding d using that by simp
  ultimately show ?thesis by (auto simp: store_bytes_def)
qed (auto simp: store_bytes_def)

lemma store_in_page_only:
  assumes "page_aligned f" and "off + length bs \<le> 4096"
  shows "only_frame f m (store_bytes m (f + word_of_nat off) bs)"
  unfolding only_frame_def frame_bytes_eq_iff using store_in_page [OF assms(1) _ assms(2)] by simp

lemma frame_bytes_store:
  assumes "page_aligned f" and "off + length bs \<le> 4096"
  shows "frame_bytes (store_bytes m (f + word_of_nat off) bs) f =
    take off (frame_bytes m f) @ bs @ drop (off + length bs) (frame_bytes m f)"
proof (rule nth_equalityI)
  fix k assume "k < length (frame_bytes (store_bytes m (f + word_of_nat off) bs) f)"
  then have k: "k < 4096" by simp
  then show "frame_bytes (store_bytes m (f + word_of_nat off) bs) f ! k =
      (take off (frame_bytes m f) @ bs @ drop (off + length bs) (frame_bytes m f)) ! k"
    using assms(2) by (auto simp: store_in_page [OF assms(1,1,2) k] nth_append not_less min_def)
qed (use assms(2) in simp)

lemma fill_only: "page_aligned f \<Longrightarrow> only_frame f m (fill m f b 4096)"
  by (simp add: only_frame_def frame_bytes_eq_iff fill_frame_other)

lemma frame_bytes_fill: "page_aligned f \<Longrightarrow> frame_bytes (fill m f b 4096) f = replicate 4096 b"
proof (rule nth_equalityI)
  fix k assume f: "page_aligned f" and "k < length (frame_bytes (fill m f b 4096) f)"
  then have k: "k < 4096" by simp
  then have "unat ((f + word_of_nat k) - f) < 4096" using page_offset [OF f f k] by blast
  then have "fill m f b 4096 (f + word_of_nat k) = b" by (simp only: fill_def if_True)
  then show "frame_bytes (fill m f b 4096) f ! k = replicate 4096 b ! k"
    using k by (simp only: frame_bytes_nth nth_replicate)
qed (simp only: length_frame_bytes length_replicate)

lemma copy_page:
  assumes d: "page_aligned d"
  shows "only_frame d m (copy m d src 4096)" and "frame_bytes (copy m d src 4096) d = frame_bytes m src"
proof -
  have c: "copy m d src 4096 (u + word_of_nat k) = (if u = d then m (src + word_of_nat k) else m (u + word_of_nat k))"
    if "page_aligned u" "k < 4096" for u k
    using page_offset [OF d that] by (simp add: copy_def)
  then show "only_frame d m (copy m d src 4096)" by (simp add: only_frame_def frame_bytes_eq_iff)
  show "frame_bytes (copy m d src 4096) d = frame_bytes m src" using c [OF d] by (simp add: frame_bytes_eq_iff)
qed

section \<open>The address space as a map\<close>

definition full :: "nat list \<Rightarrow> bool" where
  "full q \<longleftrightarrow> upath 4 q \<and> length q = 4"

lemma full_path [simp]: "user_address va \<Longrightarrow> full (path va)"
  by (simp add: full_def upath_path)

definition space :: "vm \<Rightarrow> u64 \<Rightarrow> nat list \<Rightarrow> bytes option" where
  "space s root q = map_option (\<lambda>p. frame_bytes (vm_mem s) (p AND PHYS_MASK)) (translate s root q)"

definition frames :: "vm \<Rightarrow> u64 \<Rightarrow> u64 set" where
  "frames s root = {p AND PHYS_MASK | q p. full q \<and> translate s root q = Some p}"

text \<open>The bytes of an address space: what \<open>user_load\<close> reads when it is the current one.\<close>

definition space_load :: "vm \<Rightarrow> u64 \<Rightarrow> u64 \<Rightarrow> u8 option" where
  "space_load s root va = map_option (\<lambda>bs. bs ! unat (va AND 0xFFF)) (space s root (path va))"

lemma user_load_space:
  "va < 0x800000000000 \<Longrightarrow> user_load va s = space_load s (space_root s) va"
  by (cases "leaf_entry s (space_root s) va")
    (simp_all add: user_load_def space_load_def space_def translate_leaf byte_addr_def unat_offset)

lemma pages_ok_frames: "pages_ok s root U \<Longrightarrow> frames s root \<subseteq> owned (vm_pmm s) - U"
  unfolding frames_def full_def pages_ok_def by blast

lemma framesI: "full q \<Longrightarrow> translate s root q = Some p \<Longrightarrow> p AND PHYS_MASK \<in> frames s root"
  unfolding frames_def by blast

lemma pages_ok_inj: "pages_ok s root U \<Longrightarrow> full q \<Longrightarrow> full q' \<Longrightarrow> translate s root q = Some p \<Longrightarrow>
    translate s root q' = Some p' \<Longrightarrow> p AND PHYS_MASK = p' AND PHYS_MASK \<Longrightarrow> q = q'"
  unfolding pages_ok_def full_def by blast

lemma pages_ok_cong:
  assumes pg: "pages_ok s root U" and tr: "\<And>q. full q \<Longrightarrow> translate s' root q = translate s root q"
    and fr: "frames s root \<subseteq> owned (vm_pmm s') - U'"
  shows "pages_ok s' root U'" and "frames s' root = frames s root"
proof -
  show "frames s' root = frames s root" unfolding frames_def using tr by (intro Collect_cong) metis
  have "p AND PHYS_MASK \<in> owned (vm_pmm s') - U'" if "full q" "translate s' root q = Some p" for q p
    using fr framesI [of q s root p] tr that by auto
  moreover have "q = q'" if "full q" "full q'" "translate s' root q = Some p" "translate s' root q' = Some p'"
    "p AND PHYS_MASK = p' AND PHYS_MASK" for q q' p p'
    using pages_ok_inj [OF pg that(1,2) _ _ that(5)] tr that by simp
  ultimately show "pages_ok s' root U'" unfolding pages_ok_def full_def by blast
qed

section \<open>What a step on one address space keeps of the others\<close>

text \<open>
  \<open>keeps s U s' U'\<close>: the tables grow from \<open>U\<close> to \<open>U'\<close> by frames that were free, and every other
  frame in use keeps its bytes.
\<close>

definition keeps :: "vm \<Rightarrow> u64 set \<Rightarrow> vm \<Rightarrow> u64 set \<Rightarrow> bool" where
  "keeps s U s' U' \<longleftrightarrow> cached s' \<and> pmm_inv (vm_pmm s') \<and> hhdm_offset s' = hhdm_offset s \<and> cr3 s' = cr3 s \<and>
     U \<subseteq> U' \<and> (U' - U) \<inter> owned (vm_pmm s) = {} \<and> owned (vm_pmm s) \<subseteq> owned (vm_pmm s') \<and>
     (\<forall>u \<in> owned (vm_pmm s) - U. frame_bytes (vm_mem s') u = frame_bytes (vm_mem s) u)"

lemma keeps_refl: "as_inv s root U \<Longrightarrow> keeps s U s U"
  by (simp add: keeps_def as_inv_def)

lemma keeps_trans:
  assumes a: "keeps s U s1 U1" and b: "keeps s1 U1 s2 U2"
  shows "keeps s U s2 U2"
proof -
  have "frame_bytes (vm_mem s2) u = frame_bytes (vm_mem s) u" if "u \<in> owned (vm_pmm s) - U" for u
  proof -
    have "u \<in> owned (vm_pmm s1) - U1" using a that by (auto simp: keeps_def)
    then show ?thesis using a b that by (simp add: keeps_def)
  qed
  moreover have "(U2 - U) \<inter> owned (vm_pmm s) = {}" using a b unfolding keeps_def by blast
  ultimately show ?thesis using a b unfolding keeps_def by auto
qed

text \<open>Pages of frames that are no table of the step keep their bytes.\<close>

lemma keeps_page:
  assumes "keeps s U s' U'" and "frames s root \<subseteq> owned (vm_pmm s) - U" and "full q" and "translate s root q = Some p"
  shows "frame_bytes (vm_mem s') (p AND PHYS_MASK) = frame_bytes (vm_mem s) (p AND PHYS_MASK)"
  using assms framesI [OF assms(3,4)] unfolding keeps_def by blast

lemma keeps_frames:
  "keeps s U s' U' \<Longrightarrow> frames s root \<subseteq> owned (vm_pmm s) - U \<Longrightarrow> frames s root \<subseteq> owned (vm_pmm s') - U'"
  unfolding keeps_def by blast

lemma keeps_space:
  assumes "keeps s U s' U'" and "frames s root \<subseteq> owned (vm_pmm s) - U" and "full q"
    and "translate s' root q = translate s root q"
  shows "space s' root q = space s root q"
  using keeps_page [OF assms(1-3)] assms(4) by (cases "translate s root q") (simp_all add: space_def)

lemma keeps_other:
  assumes k: "keeps s U s' U'" and other: "as_inv s root V" "pages_ok s root V"
    and disj: "V \<inter> U = {}" "frames s root \<inter> U = {}"
  shows "as_inv s' root V" and "pages_ok s' root V" and "V \<inter> U' = {}" and "frames s' root \<inter> U' = {}"
    and "full q \<Longrightarrow> space s' root q = space s root q"
    and "full q \<Longrightarrow> translate s' root q = translate s root q"
proof -
  have V: "V \<subseteq> owned (vm_pmm s) - U" using other(1) disj(1) unfolding as_inv_def by blast
  have own: "pmm_inv (vm_pmm s')" "owned (vm_pmm s) \<subseteq> owned (vm_pmm s')" "cached s'"
    using k by (simp_all add: keeps_def)
  have mem: "vm_mem s' (u + word_of_nat j) = vm_mem s (u + word_of_nat j)"
    if "u \<in> V" "page_aligned u" "j < 4096" for u j
    using k V that(1) frame_bytes_eqD [OF _ that(3)] unfolding keeps_def by blast
  note kept = space_kept [OF other(1) own]
  show inv: "as_inv s' root V" by (rule kept(1)) (use mem as_inv_aligned [OF other(1)] in auto)
  have tr: "translate s' root q = translate s root q" if "full q" for q
    by (rule kept(2)) (use mem as_inv_aligned [OF other(1)] that in \<open>auto simp: full_def\<close>)
  then show "full q \<Longrightarrow> translate s' root q = translate s root q" .
  have fU: "frames s root \<subseteq> owned (vm_pmm s) - U" using pages_ok_frames [OF other(2)] disj(2) by blast
  have fV: "frames s root \<subseteq> owned (vm_pmm s') - V" using pages_ok_frames [OF other(2)] own(2) by blast
  note pg = pages_ok_cong [OF other(2) tr fV]
  show "pages_ok s' root V" by (rule pg(1))
  show "V \<inter> U' = {}" using k V unfolding keeps_def by blast
  show "frames s' root \<inter> U' = {}" using keeps_frames [OF k fU] pg(2) by blast
  show "full q \<Longrightarrow> space s' root q = space s root q" by (rule keeps_space [OF k fU _ tr])
qed

section \<open>Mapping a page and filling its frame\<close>

lemma one_page_keeps:
  assumes op: "one_page root p r s U s' U'" and inv: "as_inv s root U" and cr: "cr3 s' = cr3 s"
  shows "keeps s U s' U'"
proof -
  have "frame_bytes (vm_mem s') u = frame_bytes (vm_mem s) u" if "u \<in> owned (vm_pmm s) - U" for u
  proof -
    have "u \<notin> U'" "page_aligned u" using that op owned_aligned by (auto simp: one_page_def)
    then show ?thesis using op by (simp add: one_page_def frame_bytes_eq_iff)
  qed
  then show ?thesis using op cr by (auto simp: one_page_def keeps_def as_inv_def)
qed

lemma alloc_keeps:
  assumes inv: "as_inv s root U" and a: "pmm_alloc_frame (vm_pmm s) = Some (f, pm)"
  shows "as_inv (s\<lparr>vm_pmm := pm\<rparr>) root U" and "owned (vm_pmm s) \<subseteq> owned pm"
    and "f \<noteq> 0 \<Longrightarrow> f \<in> owned pm" and "f \<noteq> 0 \<Longrightarrow> f \<notin> owned (vm_pmm s)" and "page_aligned f"
    and "pages_ok s root U \<Longrightarrow> pages_ok (s\<lparr>vm_pmm := pm\<rparr>) root U"
proof -
  have pm: "pmm_inv (vm_pmm s)" using inv by (simp add: as_inv_def)
  have own: "owned pm = (if f = 0 then owned (vm_pmm s) else insert f (owned (vm_pmm s)))"
    using pmm.alloc_used [OF pm a] pmm.alloc_null [OF pm] a by auto
  then show "owned (vm_pmm s) \<subseteq> owned pm" "f \<noteq> 0 \<Longrightarrow> f \<in> owned pm" by auto
  show "f \<noteq> 0 \<Longrightarrow> f \<notin> owned (vm_pmm s)" by (rule pmm.alloc_fresh [OF pm a])
  show "page_aligned f" by (rule pmm.alloc_aligned [OF pm a])
  show "as_inv (s\<lparr>vm_pmm := pm\<rparr>) root U"
    using inv pmm.alloc_inv [OF pm a] own by (auto simp: as_inv_def cached_def)
  show "pages_ok s root U \<Longrightarrow> pages_ok (s\<lparr>vm_pmm := pm\<rparr>) root U"
    using own by (auto simp: pages_ok_def translate_def)
qed

text \<open>Stores to a frame that is no table: the space changes in the pages of that frame only.\<close>

lemma frame_filled:
  assumes inv: "as_inv s root U" "pages_ok s root U" and f: "page_aligned f" "f \<notin> U"
    and m: "only_frame f (vm_mem s) m" and s': "s' = s\<lparr>vm_mem := m\<rparr>"
  shows "as_inv s' root U" and "pages_ok s' root U" and "full q \<Longrightarrow> translate s' root q = translate s root q"
    and "full q \<Longrightarrow> space s' root q = map_option (\<lambda>p. frame_bytes m (p AND PHYS_MASK)) (translate s root q)"
    and "user_address va \<Longrightarrow> leaf_entry s' root va = leaf_entry s root va"
proof -
  have mem: "vm_mem s' (u + word_of_nat j) = vm_mem s (u + word_of_nat j)"
    if "u \<in> U" "page_aligned u" "j < 4096" for u j
  proof -
    have "frame_bytes m u = frame_bytes (vm_mem s) u" using m f(2) that by (auto simp: only_frame_def)
    from frame_bytes_eqD [OF this that(3)] show ?thesis by (simp add: s')
  qed
  have own: "pmm_inv (vm_pmm s')" "owned (vm_pmm s) \<subseteq> owned (vm_pmm s')" "cached s'"
    using inv by (simp_all add: s' as_inv_def)
  note kept = space_kept [OF inv(1) own]
  show "as_inv s' root U" by (rule kept(1)) (use mem as_inv_aligned [OF inv(1)] in auto)
  have tr: "translate s' root q = translate s root q" if "upath 4 q" for q
    by (rule kept(2)) (use mem as_inv_aligned [OF inv(1)] that in auto)
  then show "full q \<Longrightarrow> translate s' root q = translate s root q"
    and "full q \<Longrightarrow> space s' root q = map_option (\<lambda>p. frame_bytes m (p AND PHYS_MASK)) (translate s root q)"
    by (simp_all add: full_def space_def s')
  show "pages_ok s' root U" using inv(2) tr by (simp add: pages_ok_def s')
  assume va: "user_address va"
  let ?p = "[pml4_index va, pdpt_index va, pd_index va]"
  have up: "upath 3 ?p" by (rule path_prefixes(3) [OF va])
  have wf: "wf_tables (entry (vm_mem s)) root U" using inv by (simp add: as_inv_def)
  have "entry (vm_mem s') t (pt_index va) = entry (vm_mem s) t (pt_index va)" if "translate s root ?p = Some t" for t
  proof -
    have t: "t \<in> U" using wf_tables_in [OF wf up] that by (simp add: translate_def)
    show ?thesis
      by (rule entry_cong_frame) (use mem [OF t as_inv_aligned [OF inv(1) t]] in auto)
  qed
  then show "leaf_entry s' root va = leaf_entry s root va"
    using tr [OF upath_mono [OF up]] by (cases "translate s root ?p") (simp_all add: leaf_entry_def)
qed

text \<open>
  Mapping a frame nobody maps yet: the page gets the bytes of the frame, every other page stays.
\<close>

lemma map_private:
  assumes inv: "as_inv s root U" "pages_ok s root U" and va: "user_address va"
    and f: "f \<in> owned (vm_pmm s)" "f \<notin> U" "f \<notin> frames s root"
    and fl: "flags AND PHYS_MASK = 0" "present flags"
  obtains (oom) s' U' where "vmm_map_page root va f flags s = Some (False, s')"
      and "as_inv s' root U'" and "pages_ok s' root U'" and "keeps s U s' U'"
      and "\<And>q. full q \<Longrightarrow> space s' root q = space s root q"
      and "\<And>q. full q \<Longrightarrow> translate s' root q = translate s root q"
      and "pmm_alloc_frame (vm_pmm s') = Some (0, vm_pmm s')"
  | (mapped) s' U' where "vmm_map_page root va f flags s = Some (True, s')"
      and "as_inv s' root U'" and "pages_ok s' root U'" and "keeps s U s' U'"
      and "\<And>q. full q \<Longrightarrow> space s' root q = (if q = path va then Some (frame_bytes (vm_mem s) f) else space s root q)"
      and "\<And>q. full q \<Longrightarrow> translate s' root q = (if q = path va then Some ((f OR flags) AND PAGE_MASK) else translate s root q)"
      and "leaf_entry s' root va = Some (f OR flags)"
proof (cases rule: vmm_map_page_cases [OF inv(1) va, of f flags, case_names oom mapped])
  case (oom s' U')
  have op: "one_page root (path va) (translate s root (path va)) s U s' U'" by (rule grow_one_page [OF oom(2)])
  have k: "keeps s U s' U'" by (rule one_page_keeps [OF op inv(1) vmm_map_page_cr3 [OF oom(1)]])
  have tr: "translate s' root q = translate s root q" if "full q" for q
    using oom(2) that by (simp add: tables_grow_def full_def)
  note fr = pages_ok_frames [OF inv(2)]
  have "pages_ok s' root U'" by (rule pages_ok_cong(1) [OF inv(2) tr keeps_frames [OF k fr]])
  moreover have "space s' root q = space s root q" if "full q" for q
    by (rule keeps_space [OF k fr that tr [OF that]])
  ultimately show ?thesis using that(1) [OF oom(1) tables_grow_inv [OF oom(2)] _ k _ tr oom(3)] by blast
next
  case (mapped s' U')
  have pr: "present (f OR flags)" using fl(2) by (simp add: present_bit bit_or_iff)
  let ?page = "(f OR flags) AND PAGE_MASK"
  have op: "one_page root (path va) (Some ?page) s U s' U'" using mapped(2) pr by simp
  have page: "?page AND PHYS_MASK = f"
    using fl(1) owned_phys [OF f(1)] by (simp add: bit.conj_disj_distrib2)
  have k: "keeps s U s' U'" by (rule one_page_keeps [OF op inv(1) vmm_map_page_cr3 [OF mapped(1)]])
  have pg: "pages_ok s' root U'"
  proof (rule one_page_pages_ok [OF inv(2,1) op page f(1,2)])
    fix q p assume "upath 4 q" "length q = 4" "translate s root q = Some p"
    then show "p AND PHYS_MASK \<noteq> f" using framesI [of q s root p] f(3) by (auto simp: full_def)
  qed
  have tr: "translate s' root q = (if q = path va then Some ?page else translate s root q)" if "full q" for q
    using op that by (simp add: one_page_def full_def)
  have "space s' root q = (if q = path va then Some (frame_bytes (vm_mem s) f) else space s root q)" if "full q" for q
  proof (cases "q = path va")
    case True
    have "frame_bytes (vm_mem s') f = frame_bytes (vm_mem s) f" using k f(1,2) by (simp add: keeps_def)
    then show ?thesis using True tr [OF that] page by (simp add: space_def)
  qed (use keeps_space [OF k pages_ok_frames [OF inv(2)] that] tr [OF that] in simp)
  moreover have "as_inv s' root U'" using op by (simp add: one_page_def)
  ultimately show ?thesis using that(2) [OF mapped(1) _ pg k _ tr] mapped(3) pr by simp
qed

text \<open>A fresh frame filled and mapped, and a frame given back after a failed mapping.\<close>

lemma fresh_keeps:
  assumes inv: "as_inv s root U" and a: "pmm_alloc_frame (vm_pmm s) = Some (f, pm)" and f: "f \<noteq> 0"
    and m: "only_frame f (vm_mem s) m"
  shows "keeps s U (s\<lparr>vm_pmm := pm, vm_mem := m\<rparr>) U"
proof -
  have "frame_bytes m u = frame_bytes (vm_mem s) u" if "u \<in> owned (vm_pmm s)" for u
    using that m alloc_keeps(4) [OF inv a f] owned_aligned [OF that] by (auto simp: only_frame_def)
  then show ?thesis
    using inv alloc_keeps(1,2) [OF inv a] by (auto simp: keeps_def as_inv_def cached_def)
qed

lemma free_keeps:
  assumes inv: "as_inv s root U" "pages_ok s root U" and f: "f \<notin> U" "f \<notin> frames s root"
    and k: "keeps s0 U0 s U" "f \<notin> owned (vm_pmm s0)"
  obtains pm where "pmm_free_frame f (vm_pmm s) = Some pm" and "as_inv (s\<lparr>vm_pmm := pm\<rparr>) root U"
    and "pages_ok (s\<lparr>vm_pmm := pm\<rparr>) root U" and "keeps s0 U0 (s\<lparr>vm_pmm := pm\<rparr>) U"
proof -
  have i: "pmm_inv (vm_pmm s)" using inv by (simp add: as_inv_def)
  obtain pm where pm: "pmm_free_frame f (vm_pmm s) = Some pm" "pmm_inv pm"
    using pmm.free_inv [OF i] by blast
  have own: "owned (vm_pmm s) - {f} \<subseteq> owned pm" "owned pm \<subseteq> owned (vm_pmm s)"
    using pmm.free_used [OF i pm(1)] by (auto split: if_splits)
  let ?s = "s\<lparr>vm_pmm := pm\<rparr>"
  have "as_inv ?s root U" using inv(1) own f(1) pm(2) by (auto simp: as_inv_def cached_def)
  moreover have "pages_ok ?s root U"
    by (rule pages_ok_cong(1) [OF inv(2)]) (use own f(2) pages_ok_frames [OF inv(2)] in \<open>auto simp: translate_def\<close>)
  moreover have "keeps s0 U0 ?s U" using k own pm(2) by (auto simp: keeps_def cached_def)
  ultimately show ?thesis using that pm(1) by blast
qed

lemma space_same: "vm_mem s' = vm_mem s \<Longrightarrow> space s' root q = space s root q"
  by (simp add: space_def translate_def)

lemma frames_same: "vm_mem s' = vm_mem s \<Longrightarrow> frames s' root = frames s root"
  by (simp add: frames_def translate_def)

text \<open>Stores to the frame of one mapped page: that page changes, every other page stays.\<close>

lemma fill_mapped:
  assumes inv: "as_inv s root U" "pages_ok s root U" and q0: "full q0" "translate s root q0 = Some p" "p AND PHYS_MASK = f"
    and m: "only_frame f (vm_mem s) m" and s': "s' = s\<lparr>vm_mem := m\<rparr>"
    and k: "keeps s0 U0 s U" "f \<notin> owned (vm_pmm s0)"
  shows "as_inv s' root U" and "pages_ok s' root U" and "keeps s0 U0 s' U"
    and "full q \<Longrightarrow> space s' root q = (if q = q0 then Some (frame_bytes m f) else space s root q)"
    and "full q \<Longrightarrow> translate s' root q = translate s root q"
    and "user_address va \<Longrightarrow> leaf_entry s' root va = leaf_entry s root va"
proof -
  have f: "f \<in> owned (vm_pmm s)" "f \<notin> U" "page_aligned f"
    using framesI [OF q0(1,2)] pages_ok_frames [OF inv(2)] q0(3) owned_aligned by auto
  note fl = frame_filled [OF inv f(3,2) m s']
  show "as_inv s' root U" "pages_ok s' root U" "full q \<Longrightarrow> translate s' root q = translate s root q"
    and "user_address va \<Longrightarrow> leaf_entry s' root va = leaf_entry s root va" by (rule fl(1), rule fl(2), rule fl(3), assumption, rule fl(5))
  have other: "frame_bytes m u = frame_bytes (vm_mem s) u" if "u \<in> owned (vm_pmm s)" "u \<noteq> f" for u
    using m owned_aligned [OF that(1)] that(2) by (simp add: only_frame_def)
  have "owned (vm_pmm s0) \<subseteq> owned (vm_pmm s)" using k(1) by (simp add: keeps_def)
  then have "frame_bytes m u = frame_bytes (vm_mem s) u" if "u \<in> owned (vm_pmm s0)" for u
    using other [of u] that k(2) by auto
  then show "keeps s0 U0 s' U" using k(1) by (simp add: keeps_def s' cached_def)
  assume q: "full q"
  show "space s' root q = (if q = q0 then Some (frame_bytes m f) else space s root q)"
  proof (cases "translate s root q")
    case (Some p')
    have "p' AND PHYS_MASK \<noteq> f" if "q \<noteq> q0" using pages_ok_inj [OF inv(2) q q0(1) Some q0(2)] q0(3) that by auto
    moreover have "p' AND PHYS_MASK \<in> owned (vm_pmm s)" using framesI [OF q Some] pages_ok_frames [OF inv(2)] by auto
    ultimately show ?thesis using fl(4) [OF q] Some q0(2,3) other by (auto simp: space_def)
  qed (use fl(4) [OF q] q0(2) in \<open>auto simp: space_def\<close>)
qed

end
