(* ===== verification/CString.thy ===== *)
theory CString
  imports Numbers
begin

text \<open>
  The kernel's string library (\<open>kernel/src/lib/string.c\<close>).

  Read-only arguments are pointers into C strings, modelled as the list of bytes from the
  pointer to the end of the object; reading past the object is \<open>None\<close>. A destination buffer
  is the list of bytes of its object, and the function returns the buffer as it leaves it.
  \<open>memcpy\<close> and \<open>memmove\<close>, whose arguments may overlap, act on one memory with two offsets.
  The lemmas of the collection \<open>cstring_spec\<close> say what each routine computes on NUL-terminated
  strings in terms of \<^const>\<open>cstr\<close>; the other components use only those.
\<close>

section \<open>Raw memory\<close>

fun memcpy :: "bytes \<Rightarrow> nat \<Rightarrow> nat \<Rightarrow> nat \<Rightarrow> bytes option" where
  "memcpy m dest src 0 = Some m"
| "memcpy m dest src (Suc n) =
     do { b \<leftarrow> rd m src; m' \<leftarrow> wr m dest b; memcpy m' (dest + 1) (src + 1) n }"

fun memset :: "bytes \<Rightarrow> nat \<Rightarrow> int \<Rightarrow> nat \<Rightarrow> bytes option" where
  "memset m s c 0 = Some m"
| "memset m s c (Suc n) = do { m' \<leftarrow> wr m s (word_of_int c); memset m' (s + 1) c n }"

fun memmove_back :: "bytes \<Rightarrow> nat \<Rightarrow> nat \<Rightarrow> nat \<Rightarrow> bytes option" where
  "memmove_back m dest src 0 = Some m"
| "memmove_back m dest src (Suc n) =
     do { b \<leftarrow> rd m (src + n); m' \<leftarrow> wr m (dest + n) b; memmove_back m' dest src n }"

definition memmove :: "bytes \<Rightarrow> nat \<Rightarrow> nat \<Rightarrow> nat \<Rightarrow> bytes option" where
  "memmove m dest src n =
     (if src > dest then memcpy m dest src n
      else if src < dest then memmove_back m dest src n
      else Some m)"

fun memcmp :: "bytes \<Rightarrow> bytes \<Rightarrow> nat \<Rightarrow> int option" where
  "memcmp s1 s2 0 = Some 0"
| "memcmp (a # s1) (b # s2) (Suc n) =
     (if a \<noteq> b then Some (if a < b then -1 else 1) else memcmp s1 s2 n)"
| "memcmp _ _ (Suc n) = None"

section \<open>Strings\<close>

fun strlen :: "bytes \<Rightarrow> nat option" where
  "strlen [] = None"
| "strlen (c # s) = (if c = 0 then Some 0 else map_option Suc (strlen s))"

fun strcmp :: "bytes \<Rightarrow> bytes \<Rightarrow> int option" where
  "strcmp (a # s1) (b # s2) =
     (if a \<noteq> 0 \<and> b \<noteq> 0 \<and> a = b then strcmp s1 s2 else Some (uint a - uint b))"
| "strcmp _ _ = None"

fun strncmp :: "bytes \<Rightarrow> bytes \<Rightarrow> nat \<Rightarrow> int option" where
  "strncmp s1 s2 0 = Some 0"
| "strncmp (a # s1) (b # s2) (Suc n) =
     (if a \<noteq> 0 \<and> a = b then strncmp s1 s2 n else Some (uint a - uint b))"
| "strncmp _ _ (Suc n) = None"

fun strcpy :: "bytes \<Rightarrow> bytes \<Rightarrow> bytes option" where
  "strcpy dest [] = None"
| "strcpy [] (c # src) = None"
| "strcpy (d # dest) (c # src) =
     (if c \<noteq> 0 then map_option (Cons c) (strcpy dest src) else Some (0 # dest))"

text \<open>The second loop of \<open>strncpy\<close>, which pads with NULs.\<close>

fun strncpy_pad :: "bytes \<Rightarrow> nat \<Rightarrow> bytes option" where
  "strncpy_pad dest 0 = Some dest"
| "strncpy_pad [] (Suc n) = None"
| "strncpy_pad (d # dest) (Suc n) = map_option (Cons 0) (strncpy_pad dest n)"

fun strncpy :: "bytes \<Rightarrow> bytes \<Rightarrow> nat \<Rightarrow> bytes option" where
  "strncpy dest src 0 = Some dest"
| "strncpy dest [] (Suc n) = None"
| "strncpy dest (c # src) (Suc n) =
     (if c = 0 then strncpy_pad dest (Suc n)
      else case dest of [] \<Rightarrow> None | d # dest' \<Rightarrow> map_option (Cons c) (strncpy dest' src n))"

text \<open>
  \<open>strchr\<close> and \<open>strrchr\<close> return a pointer into the string or \<open>NULL\<close>: the offset of the hit,
  or \<open>None\<close>, inside the outer \<open>Some\<close> that says the function returned.
\<close>

fun strchr :: "bytes \<Rightarrow> u8 \<Rightarrow> nat option option" where
  "strchr [] c = None"
| "strchr (x # s) c =
     (if x = c then Some (Some 0)
      else if x = 0 then Some None
      else map_option (map_option Suc) (strchr s c))"

fun strrchr_loop :: "bytes \<Rightarrow> u8 \<Rightarrow> nat \<Rightarrow> nat option \<Rightarrow> nat option option" where
  "strrchr_loop [] c i hit = None"
| "strrchr_loop (x # s) c i hit =
     (if x \<noteq> 0 then strrchr_loop s c (i + 1) (if x = c then Some i else hit)
      else Some (if c = 0 then Some i else hit))"

definition strrchr :: "bytes \<Rightarrow> u8 \<Rightarrow> nat option option" where
  "strrchr s c = strrchr_loop s c 0 None"

definition strcat :: "bytes \<Rightarrow> bytes \<Rightarrow> bytes option" where
  "strcat dest src = do {
     n \<leftarrow> strlen dest;
     tl \<leftarrow> strcpy (drop n dest) src;
     Some (take n dest @ tl) }"

fun strncat_loop :: "bytes \<Rightarrow> bytes \<Rightarrow> nat \<Rightarrow> bytes option" where
  "strncat_loop dest [] n = None"
| "strncat_loop [] (c # src) n = None"
| "strncat_loop (d # dest) (c # src) n =
     (if c \<noteq> 0 \<and> 0 < n then map_option (Cons c) (strncat_loop dest src (n - 1))
      else Some (0 # dest))"

definition strncat :: "bytes \<Rightarrow> bytes \<Rightarrow> nat \<Rightarrow> bytes option" where
  "strncat dest src n = do {
     k \<leftarrow> strlen dest;
     tl \<leftarrow> strncat_loop (drop k dest) src n;
     Some (take k dest @ tl) }"

fun strnlen :: "bytes \<Rightarrow> nat \<Rightarrow> nat option" where
  "strnlen s 0 = Some 0"
| "strnlen [] (Suc n) = None"
| "strnlen (c # s) (Suc n) = (if c \<noteq> 0 then map_option Suc (strnlen s n) else Some 0)"

text \<open>The inner loop of \<open>strspn\<close> and \<open>strpbrk\<close>: does \<open>c\<close> occur in the string \<open>accept\<close>?\<close>

fun in_accept :: "u8 \<Rightarrow> bytes \<Rightarrow> bool option" where
  "in_accept c [] = None"
| "in_accept c (a # accept) =
     (if a = 0 then Some False else if c = a then Some True else in_accept c accept)"

fun strspn :: "bytes \<Rightarrow> bytes \<Rightarrow> nat option" where
  "strspn [] accept = None"
| "strspn (c # s) accept =
     (if c = 0 then Some 0
      else do { found \<leftarrow> in_accept c accept;
                if found then map_option Suc (strspn s accept) else Some 0 })"

fun strpbrk :: "bytes \<Rightarrow> bytes \<Rightarrow> nat option option" where
  "strpbrk [] accept = None"
| "strpbrk (c # s) accept =
     (if c = 0 then Some None
      else do { found \<leftarrow> in_accept c accept;
                if found then Some (Some 0)
                else map_option (map_option Suc) (strpbrk s accept) })"

text \<open>
  \<open>strtok_r\<close> works on the buffer \<open>buf\<close> that holds the string: \<open>arg\<close> is \<open>str\<close> (\<open>None\<close> for
  \<open>NULL\<close>) and \<open>save\<close> is \<open>*saveptr\<close>, both as offsets into \<open>buf\<close>. The result is the token (an
  offset or \<open>None\<close>), the new \<open>*saveptr\<close> and the buffer with the delimiter overwritten.
\<close>

definition strtok_r ::
  "bytes \<Rightarrow> nat option \<Rightarrow> bytes \<Rightarrow> nat \<Rightarrow> (nat option \<times> nat \<times> bytes) option" where
  "strtok_r buf arg delim save = (
     let s0 = (case arg of None \<Rightarrow> save | Some p \<Rightarrow> p) in
     do {
       k \<leftarrow> strspn (drop s0 buf) delim;
       let token = s0 + k;
       c \<leftarrow> rd buf token;
       if c = 0 then Some (None, token, buf)
       else do {
         e \<leftarrow> strpbrk (drop token buf) delim;
         case e of
           None \<Rightarrow> do { n \<leftarrow> strlen (drop token buf); Some (Some token, token + n, buf) }
         | Some j \<Rightarrow> do { buf' \<leftarrow> wr buf (token + j) 0; Some (Some token, token + j + 1, buf') }
       }
     })"

section \<open>Number formatting\<close>

text \<open>
  The digit loop of \<open>uitoa\<close>: \<open>ptr\<close> is the offset of the next digit in \<open>buffer\<close>.
  The loop test is \<open>value != 0\<close>; \<open>base\<close> is at least 2 here, so it ends.
\<close>

function uitoa_digits :: "nat \<Rightarrow> nat \<Rightarrow> bytes \<Rightarrow> nat \<Rightarrow> (bytes \<times> nat) option" where
  "uitoa_digits value base buffer ptr =
     (if value = 0 \<or> base < 2 then Some (buffer, ptr)
      else do { buffer' \<leftarrow> wr buffer ptr (hex_digits ! (value mod base));
                uitoa_digits (value div base) base buffer' (ptr + 1) })"
  by pat_completeness auto
termination
  by (relation "measure (\<lambda>(v, b, buf, p). v)") auto

declare uitoa_digits.simps [simp del]

definition uitoa :: "u32 \<Rightarrow> bytes \<Rightarrow> int \<Rightarrow> bytes option" where
  "uitoa value buffer base =
     (if base < 2 \<or> base > 16 then wr buffer 0 0
      else if value = 0 then do { b \<leftarrow> wr buffer 0 48; wr b 1 0 }
      else do {
        (b, ptr) \<leftarrow> uitoa_digits (unat value) (nat base) buffer 0;
        b' \<leftarrow> wr b ptr 0;
        swap_ends b' 0 (ptr - 1) })"

text \<open>The loop of \<open>ultoa_hex\<close> over the 16 nibbles, from the top; \<open>i\<close> counts those left.\<close>

fun ultoa_hex_loop :: "u64 \<Rightarrow> nat \<Rightarrow> bool \<Rightarrow> bytes \<Rightarrow> nat \<Rightarrow> (bytes \<times> nat) option" where
  "ultoa_hex_loop value 0 leading_zero buffer ptr = Some (buffer, ptr)"
| "ultoa_hex_loop value (Suc i) leading_zero buffer ptr =
     (let digit = unat (drop_bit (4 * i) value AND 0xF) in
      if digit \<noteq> 0 \<or> \<not> leading_zero \<or> i = 0
      then do { buffer' \<leftarrow> wr buffer ptr (hex_digits ! digit);
                ultoa_hex_loop value i False buffer' (ptr + 1) }
      else ultoa_hex_loop value i leading_zero buffer ptr)"

definition ultoa_hex :: "u64 \<Rightarrow> bytes \<Rightarrow> bytes option" where
  "ultoa_hex value buffer =
     (if value = 0 then do { b \<leftarrow> wr buffer 0 48; wr b 1 0 }
      else do { (b, ptr) \<leftarrow> ultoa_hex_loop value 16 True buffer 0; wr b ptr 0 })"

section \<open>Raw memory: what the copies leave behind\<close>

lemma length_memcpy: "memcpy m d s n = Some m' \<Longrightarrow> length m' = length m"
  by (induction n arbitrary: m d s) (auto split: Option.bind_splits dest!: wr_SomeD)

lemma memcpy_forward:
  assumes "s + n \<le> length m" and "d + n \<le> length m" and "d \<le> s \<or> s + n \<le> d"
  shows "memcpy m d s n = Some (take d m @ take n (drop s m) @ drop (d + n) m)"
  using assms
proof (induction n arbitrary: m d s)
  case 0
  then show ?case by simp
next
  case (Suc n)
  let ?m = "m[d := m ! s]"
  have "memcpy ?m (d + 1) (s + 1) n
      = Some (take (d + 1) ?m @ take n (drop (s + 1) ?m) @ drop (d + 1 + n) ?m)"
    using Suc.prems by (intro Suc.IH) auto
  moreover have "take (d + 1) ?m = take d m @ [m ! s]"
    using Suc.prems by (simp add: take_Suc_conv_app_nth)
  moreover have "take n (drop (s + 1) ?m) = take n (drop (s + 1) m)"
    using Suc.prems by (auto simp: drop_update_swap drop_update_cancel take_update_cancel)
  moreover have "m ! s # take n (drop (s + 1) m) = take (Suc n) (drop s m)"
    using Suc.prems by (simp add: Cons_nth_drop_Suc [symmetric])
  ultimately show ?case
    using Suc.prems by simp
qed

lemma memmove_back_eq:
  assumes "s + n \<le> length m" and "d + n \<le> length m" and "s \<le> d"
  shows "memmove_back m d s n = Some (take d m @ take n (drop s m) @ drop (d + n) m)"
  using assms
proof (induction n arbitrary: m)
  case 0
  then show ?case by simp
next
  case (Suc n)
  let ?m = "m[d + n := m ! (s + n)]"
  have "memmove_back ?m d s n = Some (take d ?m @ take n (drop s ?m) @ drop (d + n) ?m)"
    using Suc.prems by (intro Suc.IH) auto
  moreover have "take n (drop s ?m) = take n (drop s m)"
    using Suc.prems by (simp add: drop_update_swap)
  moreover have "drop (d + n) ?m = m ! (s + n) # drop (Suc (d + n)) m"
    using Suc.prems by (simp add: Cons_nth_drop_Suc [symmetric])
  moreover have "take (Suc n) (drop s m) = take n (drop s m) @ [m ! (s + n)]"
    using Suc.prems by (simp add: take_Suc_conv_app_nth)
  ultimately show ?case
    using Suc.prems by simp
qed

lemma memmove_eq:
  assumes "s + n \<le> length m" and "d + n \<le> length m"
  shows "memmove m d s n = Some (take d m @ take n (drop s m) @ drop (d + n) m)"
proof -
  have "take d m @ take n (drop d m) @ drop (d + n) m = m"
    by (metis append_assoc append_take_drop_id take_add)
  then show ?thesis
    using assms memcpy_forward [of s n m d] memmove_back_eq [of s n m d]
    by (auto simp: memmove_def not_less)
qed

lemma memset_eq:
  "s + n \<le> length m \<Longrightarrow>
     memset m s c n = Some (take s m @ replicate n (word_of_int c) @ drop (s + n) m)"
proof (induction n arbitrary: m s)
  case 0
  then show ?case by simp
next
  case (Suc n)
  have "take (s + 1) (m[s := word_of_int c]) = take s m @ [word_of_int c]"
    using Suc.prems by (simp add: take_Suc_conv_app_nth)
  with Suc show ?case by simp
qed

section \<open>Strings: results on terminated arguments\<close>

lemma strlen_eq [cstring_spec]: "terminated s \<Longrightarrow> strlen s = Some (length (cstr s))"
  by (induction s) (auto simp: cstr_Cons)

lemma strlen_Some_iff: "strlen s = Some n \<longleftrightarrow> terminated s \<and> n = length (cstr s)"
  by (induction s arbitrary: n) (auto simp: cstr_Cons)

lemma strcmp_zero_iff:
  "terminated a \<Longrightarrow> terminated b \<Longrightarrow> strcmp a b = Some 0 \<longleftrightarrow> cstr a = cstr b"
  by (induction a b rule: strcmp.induct) (auto simp: cstr_Cons word_uint_eq_iff)

lemma strcmp_defined: "terminated a \<Longrightarrow> terminated b \<Longrightarrow> \<exists>r. strcmp a b = Some r"
  by (induction a b rule: strcmp.induct) auto

lemma strcmp_bind [cstring_spec]:
  assumes "terminated a" and "terminated b"
  shows "Option.bind (strcmp a b) (\<lambda>r. if r = 0 then f else g) = (if cstr a = cstr b then f else g)"
  using strcmp_defined [OF assms] strcmp_zero_iff [OF assms] by force

lemma uint_pos: "b \<noteq> 0 \<Longrightarrow> 0 < uint b"
  by (metis order_le_less uint_ge_0 unsigned_eq_0_iff)

text \<open>The sign of \<open>strcmp\<close> is the lexicographic order of the strings.\<close>

lemma strcmp_less_iff:
  assumes "terminated a" and "terminated b" and "strcmp a b = Some r"
  shows "r < 0 \<longleftrightarrow> (cstr a, cstr b) \<in> lexord {(x, y). x < y}"
  using assms
  by (induction a b rule: strcmp.induct)
    (auto simp: cstr_Cons word_less_def uint_pos split: if_splits)

lemma strncmp_zero_iff:
  "terminated a \<Longrightarrow> terminated b \<Longrightarrow>
     strncmp a b n = Some 0 \<longleftrightarrow> take n (cstr a) = take n (cstr b)"
  by (induction a b n rule: strncmp.induct) (auto simp: cstr_Cons word_uint_eq_iff)

lemma strncmp_defined: "terminated a \<Longrightarrow> terminated b \<Longrightarrow> \<exists>r. strncmp a b n = Some r"
  by (induction a b n rule: strncmp.induct) auto

lemma strncmp_bind [cstring_spec]:
  assumes "terminated a" and "terminated b"
  shows "Option.bind (strncmp a b n) (\<lambda>r. if r = 0 then f else g)
       = (if take n (cstr a) = take n (cstr b) then f else g)"
  using strncmp_defined [OF assms, of n] strncmp_zero_iff [OF assms, of n] by force

lemma strcpy_eq [cstring_spec]:
  "terminated src \<Longrightarrow> length (cstr src) < length dest \<Longrightarrow>
     strcpy dest src = Some (cstr src @ 0 # drop (Suc (length (cstr src))) dest)"
  by (induction dest src rule: strcpy.induct) (auto simp: cstr_Cons)

lemma strcpy_overflow: "length dest \<le> length (cstr src) \<Longrightarrow> strcpy dest src = None"
  by (induction dest src rule: strcpy.induct) (auto simp: cstr_Cons split: if_splits)

lemma strncpy_pad_eq: "n \<le> length d \<Longrightarrow> strncpy_pad d n = Some (replicate n 0 @ drop n d)"
  by (induction d n rule: strncpy_pad.induct) auto

lemma strncpy_eq [cstring_spec]:
  "terminated src \<Longrightarrow> n \<le> length dest \<Longrightarrow>
     strncpy dest src n
       = Some (take n (cstr src) @ replicate (n - length (cstr src)) 0 @ drop n dest)"
proof (induction dest src n rule: strncpy.induct)
  case (3 dest c src n)
  then show ?case
    by (cases dest) (auto simp: strncpy_pad_eq)
qed auto

text \<open>The idiom \<open>strncpy(d, s, sizeof(d) - 1); d[sizeof(d) - 1] = 0\<close>.\<close>

lemma cstr_strncpy_field:
  "cstr (take n (cstr s) @ replicate (n - length (cstr s)) 0 @ 0 # t) = take n (cstr s)"
proof (cases "n - length (cstr s)")
  case 0
  then show ?thesis
    using in_set_takeD [of 0 n "cstr s"] by (subst cstr_append_left) auto
next
  case (Suc k)
  then show ?thesis by (simp add: cstr_append_left)
qed

lemma strcat_eq [cstring_spec]:
  assumes "terminated dest" and "terminated src"
    and "length (cstr dest) + length (cstr src) < length dest"
  shows "strcat dest src = Some (cstr dest @ cstr src @
           0 # drop (Suc (length (cstr dest) + length (cstr src))) dest)"
  using assms
  by (simp add: strcat_def strlen_eq strcpy_eq take_length_cstr add.commute)

lemma strnlen_eq [cstring_spec]:
  "terminated s \<Longrightarrow> strnlen s n = Some (min n (length (cstr s)))"
  by (induction s n rule: strnlen.induct) (auto simp: cstr_Cons)

section \<open>Tokenising\<close>

lemma in_accept_eq:
  "terminated accept \<Longrightarrow> c \<noteq> 0 \<Longrightarrow> in_accept c accept = Some (c \<in> set (cstr accept))"
  by (induction c accept rule: in_accept.induct) (auto simp: cstr_Cons)

lemma strspn_eq:
  "terminated s \<Longrightarrow> terminated accept \<Longrightarrow>
     strspn s accept = Some (length (takeWhile (\<lambda>c. c \<in> set (cstr accept)) (cstr s)))"
  by (induction s accept rule: strspn.induct) (auto simp: cstr_Cons in_accept_eq)

lemma strpbrk_eq:
  "terminated s \<Longrightarrow> terminated accept \<Longrightarrow>
     strpbrk s accept = Some
       (let k = length (takeWhile (\<lambda>c. c \<notin> set (cstr accept)) (cstr s))
        in if k < length (cstr s) then Some k else None)"
  by (induction s accept rule: strpbrk.induct) (auto simp: cstr_Cons in_accept_eq Let_def)

text \<open>
  What one call of \<open>strtok_r\<close> promises: skip the delimiters \<open>D\<close> in front of the string, return
  the run of other bytes and leave the string after the delimiter that ends it.
\<close>

definition next_token :: "u8 set \<Rightarrow> bytes \<Rightarrow> (bytes \<times> bytes) option" where
  "next_token D s =
     (let r = dropWhile (\<lambda>c. c \<in> D) s in
      if r = [] then None
      else Some (takeWhile (\<lambda>c. c \<notin> D) r, drop 1 (dropWhile (\<lambda>c. c \<notin> D) r)))"

lemma cstr_drop: "k \<le> length (cstr s) \<Longrightarrow> cstr (drop k s) = drop k (cstr s)"
  by (induction s arbitrary: k) (auto simp: cstr_Cons drop_Cons split: nat.splits)

lemma terminated_drop: "terminated s \<Longrightarrow> k \<le> length (cstr s) \<Longrightarrow> terminated (drop k s)"
  by (induction s arbitrary: k) (auto simp: cstr_Cons drop_Cons split: nat.splits if_splits)

lemma cstr_update_zero:
  "j \<le> length (cstr s) \<Longrightarrow> j < length s \<Longrightarrow> cstr (s[j := 0]) = take j (cstr s)"
  by (induction s arbitrary: j) (auto simp: cstr_Cons split: nat.splits if_splits)

lemma strtok_r_end:
  assumes "s0 = (case arg of None \<Rightarrow> save | Some p \<Rightarrow> p)"
    and "terminated (drop s0 buf)" and "terminated delim"
    and "next_token (set (cstr delim)) (cstr (drop s0 buf)) = None"
  shows "\<exists>save'. strtok_r buf arg delim save = Some (None, save', buf)"
proof -
  let ?D = "\<lambda>c. c \<in> set (cstr delim)" and ?s = "cstr (drop s0 buf)"
  have all: "takeWhile ?D ?s = ?s"
    using assms(4) by (auto simp: next_token_def Let_def takeWhile_eq_all_conv
        dropWhile_eq_Nil_conv split: if_splits)
  have lt: "length ?s < length (drop s0 buf)" by (rule length_cstr_less [OF assms(2)])
  have "rd buf (s0 + length ?s) = Some 0"
    using lt nth_length_cstr [OF assms(2)] by (simp add: rd_def less_diff_conv add.commute)
  then show ?thesis
    by (simp add: strtok_r_def Let_def assms(1) [symmetric] strspn_eq [OF assms(2,3)] all)
qed

lemma strtok_r_token:
  assumes "s0 = (case arg of None \<Rightarrow> save | Some p \<Rightarrow> p)"
    and "terminated (drop s0 buf)" and "terminated delim"
    and "next_token (set (cstr delim)) (cstr (drop s0 buf)) = Some (t, rest)"
  shows "\<exists>p save' buf'. strtok_r buf arg delim save = Some (Some p, save', buf') \<and>
           cstr (drop p buf') = t \<and> cstr (drop save' buf') = rest \<and>
           terminated (drop p buf') \<and> terminated (drop save' buf') \<and> length buf' = length buf"
proof -
  let ?D = "\<lambda>c. c \<in> set (cstr delim)" and ?s = "cstr (drop s0 buf)"
  define k where "k = length (takeWhile ?D ?s)"
  define p where "p = s0 + k"
  define r where "r = drop k ?s"
  have r: "r = dropWhile ?D ?s" by (simp add: r_def k_def dropWhile_eq_drop)
  have kle: "k \<le> length ?s" by (simp add: k_def length_takeWhile_le)
  have rne: "r \<noteq> []" and t: "t = takeWhile (\<lambda>c. \<not> ?D c) r"
    and rest: "rest = drop 1 (dropWhile (\<lambda>c. \<not> ?D c) r)"
    using assms(4) by (auto simp: next_token_def Let_def r split: if_splits)
  have klt: "k < length ?s" using rne by (simp add: r_def)
  have cr: "cstr (drop p buf) = r"
    using cstr_drop [OF kle] by (simp add: p_def r_def add.commute)
  have tr: "terminated (drop p buf)"
    using terminated_drop [OF assms(2) kle] by (simp add: p_def add.commute)
  have plt: "p < length buf" using tr by (cases "p < length buf") auto
  have rdp: "\<exists>c. rd buf p = Some c \<and> c \<noteq> 0"
  proof -
    have "buf ! p = drop p buf ! 0" using plt by simp
    moreover have "drop p buf ! 0 = r ! 0" using nth_cstr [of 0 "drop p buf"] rne by (simp add: cr)
    moreover have "r ! 0 \<in> set (cstr (drop p buf))" using rne by (simp add: cr)
    ultimately have "buf ! p \<in> set (cstr (drop p buf))" by simp
    then have "buf ! p \<noteq> 0" using zero_notin_cstr [of "drop p buf"] by auto
    with plt show ?thesis by auto
  qed
  define j where "j = length (takeWhile (\<lambda>c. \<not> ?D c) r)"
  have tj: "t = take j r" unfolding t j_def by (rule takeWhile_eq_take)
  have restj: "rest = drop (j + 1) r"
    by (simp add: rest j_def dropWhile_eq_drop)
  have start: "strtok_r buf arg delim save =
      (if j < length r
       then do { buf' \<leftarrow> wr buf (p + j) 0; Some (Some p, p + j + 1, buf') }
       else Some (Some p, p + length r, buf))"
    using rdp
    by (auto simp: strtok_r_def Let_def assms(1) [symmetric] strspn_eq [OF assms(2,3)]
        k_def [symmetric] p_def [symmetric] strpbrk_eq [OF tr assms(3)] cr j_def [symmetric]
        strlen_eq [OF tr])
  show ?thesis
  proof (cases "j < length r")
    case True
    have pj: "p + j < length buf"
      using True length_cstr_less [OF tr] by (simp add: cr)
    have upd: "drop p (buf[p + j := 0]) = (drop p buf)[j := 0]"
      by (simp add: drop_update_swap)
    have "cstr (drop p (buf[p + j := 0])) = t"
      using True pj by (simp add: upd cstr_update_zero cr tj)
    moreover have "drop (p + j + 1) (buf[p + j := 0]) = drop (j + 1) (drop p buf)"
      by (simp add: add.commute)
    moreover have "cstr (drop (j + 1) (drop p buf)) = rest"
      using True by (subst cstr_drop) (simp_all add: cr restj)
    moreover have "terminated (drop (j + 1) (drop p buf))"
      using True by (intro terminated_drop tr) (simp add: cr)
    moreover have "terminated (drop p (buf[p + j := 0]))"
      using pj by (simp add: upd)
    ultimately show ?thesis using True pj start by simp
  next
    case False
    then have "t = r" and "rest = []" by (simp_all add: tj restj)
    moreover have "drop (p + length r) buf = drop (length r) (drop p buf)"
      by (simp add: add.commute)
    moreover have "cstr (drop (length r) (drop p buf)) = []"
      by (subst cstr_drop) (simp_all add: cr)
    moreover have "terminated (drop (length r) (drop p buf))"
      by (intro terminated_drop tr) (simp add: cr)
    ultimately show ?thesis using False start tr by (simp add: cr)
  qed
qed

section \<open>Number formatting: results\<close>

lemma uitoa_digits_eq:
  assumes "2 \<le> base" and "base \<le> 16" and "ptr + length (digits_le base v) \<le> length buf"
  shows "uitoa_digits v base buf ptr =
    Some (take ptr buf @ map (\<lambda>d. hex_digits ! d) (digits_le base v)
            @ drop (ptr + length (digits_le base v)) buf,
          ptr + length (digits_le base v))"
  using assms
proof (induction v base buf ptr rule: uitoa_digits.induct)
  case (1 v base buf ptr)
  show ?case
  proof (cases "v = 0")
    case True
    then show ?thesis by (simp add: uitoa_digits.simps)
  next
    case False
    then have dl: "digits_le base v = v mod base # digits_le base (v div base)"
      using "1.prems" by (simp add: digits_le_step)
    have lt: "ptr < length buf" using "1.prems" by (simp add: dl)
    have "uitoa_digits v base buf ptr
        = uitoa_digits (v div base) base (buf[ptr := hex_digits ! (v mod base)]) (ptr + 1)"
      using False "1.prems" lt by (subst uitoa_digits.simps) simp
    also have "\<dots> = Some (take (ptr + 1) (buf[ptr := hex_digits ! (v mod base)])
        @ map (\<lambda>d. hex_digits ! d) (digits_le base (v div base))
        @ drop (ptr + 1 + length (digits_le base (v div base))) (buf[ptr := hex_digits ! (v mod base)]),
        ptr + 1 + length (digits_le base (v div base)))"
      using False "1.prems" lt by (intro "1.IH") (simp_all add: dl)
    finally show ?thesis
      using lt by (simp add: dl take_Suc_conv_app_nth)
  qed
qed

text \<open>
  \<open>uitoa\<close> stores the representation of the value in the base, most significant digit first and
  NUL-terminated, in a buffer that has room for it.
\<close>

lemma uitoa_eq:
  assumes "2 \<le> base" and "base \<le> 16"
    and "length (render (nat base) (unat value)) < length buffer"
  shows "uitoa value buffer base =
    Some (render (nat base) (unat value)
            @ 0 # drop (Suc (length (render (nat base) (unat value)))) buffer)"
proof (cases "value = 0")
  case True
  with assms(3) have "2 \<le> length buffer" by (simp add: render_def digits_def)
  then obtain a b t where "buffer = a # b # t"
    by (cases buffer; cases "tl buffer") auto
  with True assms show ?thesis
    by (simp add: uitoa_def render_def digits_def hex_digits_def)
next
  case False
  let ?b = "nat base" and ?v = "unat value"
  let ?ds = "map (\<lambda>d. hex_digits ! d) (digits_le ?b ?v)"
  have v: "0 < ?v" using False by (simp add: unat_gt_0)
  have r: "render ?b ?v = rev ?ds" using v by (simp add: render_def digits_def rev_map)
  have len: "length ?ds < length buffer" using assms(3) by (simp add: r)
  have ne: "?ds \<noteq> []" using v assms by simp
  have upd: "(?ds @ drop (length ?ds) buffer)[length ?ds := 0]
      = [] @ ?ds @ (0 # drop (Suc (length ?ds)) buffer)"
    using len by (simp add: list_update_append Cons_nth_drop_Suc [symmetric])
  have "uitoa value buffer base = swap_ends ([] @ ?ds @ (0 # drop (Suc (length ?ds)) buffer)) 0
      (length ?ds - 1)"
    using assms False len uitoa_digits_eq [of ?b 0 ?v buffer] upd
    by (simp add: uitoa_def)
  also have "\<dots> = Some (rev ?ds @ 0 # drop (Suc (length ?ds)) buffer)"
    using swap_ends_rev [of "[]" ?ds "0 # drop (Suc (length ?ds)) buffer"] by simp
  finally show ?thesis by (simp add: r)
qed

end
