(* ===== verification/Initramfs.thy ===== *)
theory Initramfs
  imports CString
begin

text \<open>
  The boot archive (\<open>kernel/src/src/initramfs.c\<close>): a parser for cpio archives in the newc format
  that records up to 16 files. The archive is the byte list \<open>arch\<close> loaded at the absolute address
  \<open>base\<close>, which matters because headers and data are aligned by address. The theory also defines
  what an archive is (an encoder) and proves that the parser inverts it.
\<close>

section \<open>The parser\<close>

definition CPIO_NEWC_MAGIC :: bytes where
  "CPIO_NEWC_MAGIC = lit ''070701''"

text \<open>A file: pointers to its name and its data (suffixes of the archive), and its size.\<close>

record initramfs_file =
  if_name :: bytes
  if_data :: bytes
  if_size :: nat

fun hex2u32_loop :: "bytes \<Rightarrow> nat \<Rightarrow> u32 \<Rightarrow> u32 option" where
  "hex2u32_loop s 0 v = Some v"
| "hex2u32_loop [] (Suc n) v = None"
| "hex2u32_loop (c # s) (Suc n) v =
     (let v4 = push_bit 4 v in
      hex2u32_loop s n
        (if 48 \<le> c \<and> c \<le> 57 then v4 OR ucast (c - 48)
         else if 97 \<le> c \<and> c \<le> 102 then v4 OR ucast (c - 97 + 10)
         else if 65 \<le> c \<and> c \<le> 70 then v4 OR ucast (c - 65 + 10)
         else v4))"

definition hex2u32 :: "bytes \<Rightarrow> nat \<Rightarrow> u32 option" where
  "hex2u32 s n = hex2u32_loop s n 0"

text \<open>The pointer to address \<open>a\<close>, if that lies in the archive or at its end.\<close>

definition ptr_at :: "nat \<Rightarrow> bytes \<Rightarrow> nat \<Rightarrow> bytes option" where
  "ptr_at base arch a =
     (if base \<le> a \<and> a \<le> base + length arch then Some (drop (a - base) arch) else None)"

text \<open>\<open>(x + 3) & ~3\<close> on \<open>uintptr_t\<close>.\<close>

definition align4 :: "nat \<Rightarrow> nat" where
  "align4 x = size_add x 3 div 4 * 4"

text \<open>The loop of \<open>initramfs_init\<close>; \<open>files\<close> are the entries recorded so far.\<close>

function initramfs_scan ::
  "nat \<Rightarrow> bytes \<Rightarrow> nat \<Rightarrow> initramfs_file list \<Rightarrow> initramfs_file list option" where
  "initramfs_scan base arch p files =
     (if p + 110 < base + length arch \<and> length files < 16
      then do {
        hdr \<leftarrow> ptr_at base arch p;
        differs \<leftarrow> memcmp hdr CPIO_NEWC_MAGIC 6;
        if differs \<noteq> 0 then Some files
        else do {
          namesize \<leftarrow> hex2u32 (drop 94 hdr) 8;
          filesize \<leftarrow> hex2u32 (drop 54 hdr) 8;
          let name = drop 110 hdr;
          trailer \<leftarrow> (if 0 < namesize
                      then do { r \<leftarrow> strcmp name (lit ''TRAILER!!!''); Some (r = 0) }
                      else Some False);
          if trailer then Some files
          else (
            let name_end_unpadded = size_add p (110 + unat namesize);
                filedata_start_aligned = align4 name_end_unpadded;
                filedata_end_unpadded = size_add filedata_start_aligned (unat filesize);
                next_header_start_aligned = align4 filedata_end_unpadded
            in if next_header_start_aligned > base + length arch then Some files
               else do {
                 filedata \<leftarrow> ptr_at base arch filedata_start_aligned;
                 initramfs_scan base arch next_header_start_aligned
                   (files @ [\<lparr>if_name = name, if_data = filedata, if_size = unat filesize\<rparr>]) }) } }
      else Some files)"
  by pat_completeness auto
termination
  by (relation "measure (\<lambda>(base, arch, p, files). 16 - length files)") auto

declare initramfs_scan.simps [simp del]

definition initramfs_init :: "nat \<Rightarrow> bytes \<Rightarrow> initramfs_file list option" where
  "initramfs_init base arch = initramfs_scan base arch base []"

fun initramfs_find :: "initramfs_file list \<Rightarrow> bytes \<Rightarrow> initramfs_file option option" where
  "initramfs_find [] name = Some None"
| "initramfs_find (f # files) name = do {
     r \<leftarrow> strcmp (if_name f) name;
     if r = 0 then Some (Some f) else initramfs_find files name }"

definition initramfs_list :: "initramfs_file list \<Rightarrow> nat \<Rightarrow> initramfs_file option" where
  "initramfs_list files idx = (if idx < length files then Some (files ! idx) else None)"

section \<open>The archive format\<close>

text \<open>Eight lower-case hexadecimal digits.\<close>

definition hex8 :: "nat \<Rightarrow> bytes" where
  "hex8 n = map (\<lambda>i. hex_digits ! (n div 16 ^ (7 - i) mod 16)) [0..<8]"

definition pad4 :: "nat \<Rightarrow> nat" where
  "pad4 n = (4 - n mod 4) mod 4"

text \<open>
  One entry of an archive: the magic, thirteen fields of eight digits (of which the parser
  reads the file size and the name size), name, padding, data, padding.
\<close>

record cpio_meta =
  cm_before :: bytes
  cm_between :: bytes
  cm_after :: bytes

definition cpio_meta_ok :: "cpio_meta \<Rightarrow> bool" where
  "cpio_meta_ok m \<longleftrightarrow>
     length (cm_before m) = 48 \<and> length (cm_between m) = 32 \<and> length (cm_after m) = 8"

definition cpio_header :: "cpio_meta \<Rightarrow> nat \<Rightarrow> nat \<Rightarrow> bytes" where
  "cpio_header m filesize namesize =
     str ''070701'' @ cm_before m @ hex8 filesize @ cm_between m @ hex8 namesize @ cm_after m"

definition cpio_entry :: "cpio_meta \<Rightarrow> bytes \<Rightarrow> bytes \<Rightarrow> bytes" where
  "cpio_entry m name data =
     cpio_header m (length data) (length name + 1) @ name @ [0] @
     replicate (pad4 (110 + length name + 1)) 0 @ data @ replicate (pad4 (length data)) 0"

definition cpio_trailer :: "cpio_meta \<Rightarrow> bytes" where
  "cpio_trailer m = cpio_entry m (str ''TRAILER!!!'') []"

definition cpio_archive :: "cpio_meta \<Rightarrow> (bytes \<times> bytes) list \<Rightarrow> bytes" where
  "cpio_archive m fs = concat (map (\<lambda>(name, data). cpio_entry m name data) fs) @ cpio_trailer m"

text \<open>A name and content an entry can carry.\<close>

definition cpio_ok :: "bytes \<times> bytes \<Rightarrow> bool" where
  "cpio_ok f \<longleftrightarrow> 0 \<notin> set (fst f) \<and> fst f \<noteq> str ''TRAILER!!!'' \<and>
     length (fst f) + 1 < 2 ^ 32 \<and> length (snd f) < 2 ^ 32"

section \<open>The number fields\<close>

lemma hex_digit_step:
  assumes "d < 16" and "v < 2 ^ 28"
  shows "hex2u32_loop (hex_digits ! d # s) (Suc n) (word_of_nat v) = hex2u32_loop s n (word_of_nat (v * 16 + d))"
proof -
  have sh: "push_bit 4 (word_of_nat v :: u32) = word_of_nat (v * 16)"
    by (simp add: push_bit_eq_mult)
  have disj: "push_bit 4 (word_of_nat v :: u32) OR word_of_nat d = word_of_nat (v * 16 + d)"
  proof -
    have "push_bit 4 v AND d = 0"
    proof (rule bit_eqI)
      fix n
      have "take_bit 4 d = d" using assms(1) by (simp add: take_bit_nat_eq_self)
      then have "\<not> bit d n" if "\<not> n < 4" using that bit_take_bit_iff [of 4 d n] by simp
      then show "bit (push_bit 4 v AND d) n = bit 0 n"
        by (cases "n < 4") (auto simp: bit_and_iff bit_push_bit_iff)
    qed
    then have "push_bit 4 v OR d = push_bit 4 v + d" by (rule disjunctive_add_eq_or [symmetric])
    then have "word_of_nat (push_bit 4 v OR d) = (word_of_nat (v * 16 + d) :: u32)"
      by (simp add: push_bit_eq_mult)
    moreover have "(word_of_nat (push_bit 4 v OR d) :: u32) = push_bit 4 (word_of_nat v) OR word_of_nat d"
      by (simp add: of_nat_or_eq of_nat_push_bit)
    ultimately show ?thesis by simp
  qed
  have "d \<in> {0, 1, 2, 3, 4, 5, 6, 7, 8, 9, 10, 11, 12, 13, 14, 15}"
    using assms(1) by (simp add: insert_iff) arith
  then show ?thesis
    using disj by (elim insertE emptyE) (simp_all add: hex_digits_def Let_def)
qed

lemma hex2u32_loop_hex8:
  assumes n: "n < 2 ^ 32" and "k \<le> 8"
  shows "hex2u32_loop (map (\<lambda>i. hex_digits ! (n div 16 ^ (7 - i) mod 16)) [8 - k..<8] @ t) k
           (word_of_nat (n div 16 ^ k)) = Some (word_of_nat n)"
  using assms(2)
proof (induction k)
  case 0
  then show ?case by simp
next
  case (Suc k)
  let ?v = "n div 16 ^ Suc k" and ?d = "n div 16 ^ k mod 16"
  have "(16 :: nat) ^ 1 \<le> 16 ^ Suc k" by (rule power_increasing) simp_all
  then have "?v \<le> n div 16 ^ 1" by (rule div_le_mono2 [rotated]) simp
  with n have v: "?v < 2 ^ 28" by simp
  have vd: "?v * 16 + ?d = n div 16 ^ k"
  proof -
    have "?v = n div 16 ^ k div 16" by (simp only: power_Suc2 div_mult2_eq)
    then show ?thesis using div_mult_mod_eq [of "n div 16 ^ k" 16] by simp
  qed
  have "Suc (8 - Suc k) = 8 - k" using Suc.prems by arith
  moreover have "[8 - Suc k..<8] = (8 - Suc k) # [Suc (8 - Suc k)..<8]"
    using Suc.prems by (intro upt_conv_Cons) arith
  ultimately have "[8 - Suc k..<8] = (8 - Suc k) # [8 - k..<8]" by (simp only:)
  moreover have "7 - (8 - Suc k) = k" using Suc.prems by simp
  ultimately have eq: "map (\<lambda>i. hex_digits ! (n div 16 ^ (7 - i) mod 16)) [8 - Suc k..<8] @ t
      = hex_digits ! ?d # map (\<lambda>i. hex_digits ! (n div 16 ^ (7 - i) mod 16)) [8 - k..<8] @ t"
    by simp
  show ?case
    unfolding eq hex_digit_step [OF mod_less_divisor [OF zero_less_numeral] v] vd
    using Suc.IH Suc.prems by simp
qed

lemma hex2u32_hex8: "n < 2 ^ 32 \<Longrightarrow> hex2u32 (hex8 n @ t) 8 = Some (word_of_nat n)"
  using hex2u32_loop_hex8 [of n 8 t] by (simp add: hex2u32_def hex8_def del: upt_rec_numeral)

lemma length_hex8 [simp]: "length (hex8 n) = 8"
  by (simp add: hex8_def)

section \<open>One entry\<close>

lemma pad4_less: "pad4 n < 4"
  by (simp add: pad4_def)

lemma pad4_split:
  obtains q where "n = 4 * q" "pad4 n = 0" | q where "n = 4 * q + 1" "pad4 n = 3"
  | q where "n = 4 * q + 2" "pad4 n = 2" | q where "n = 4 * q + 3" "pad4 n = 1"
proof -
  have n: "n = 4 * (n div 4) + n mod 4" by simp
  have "n mod 4 < 4" by simp
  then have "n mod 4 = 0 \<or> n mod 4 = 1 \<or> n mod 4 = 2 \<or> n mod 4 = 3" by linarith
  then show ?thesis
  proof (elim disjE)
    assume "n mod 4 = 0" with n that(1) show ?thesis by (simp add: pad4_def)
  next
    assume "n mod 4 = 1" with n that(2) show ?thesis by (simp add: pad4_def)
  next
    assume "n mod 4 = 2" with n that(3) show ?thesis by (simp add: pad4_def)
  next
    assume "n mod 4 = 3" with n that(4) show ?thesis by (simp add: pad4_def)
  qed
qed

lemma align4_pad4: "x + 3 < 2 ^ 64 \<Longrightarrow> align4 x = x + pad4 x"
proof -
  assume "x + 3 < 2 ^ 64"
  then have "align4 x = (x + 3) div 4 * 4" by (simp add: align4_def)
  also have "\<dots> = x + pad4 x" by (cases x rule: pad4_split) simp_all
  finally show ?thesis .
qed

lemma pad4_aligned: "(n + pad4 n) mod 4 = 0"
  by (cases n rule: pad4_split) simp_all

lemma pad4_mod: "p mod 4 = 0 \<Longrightarrow> pad4 (p + n) = pad4 n"
  by (auto simp: pad4_def elim!: dvdE simp flip: dvd_eq_mod_eq_0)

text \<open>A recorded file that stands for a name and a content.\<close>

definition represents :: "initramfs_file \<Rightarrow> bytes \<times> bytes \<Rightarrow> bool" where
  "represents f nd \<longleftrightarrow> terminated (if_name f) \<and> cstr (if_name f) = fst nd \<and>
     if_size f = length (snd nd) \<and> if_size f \<le> length (if_data f) \<and>
     take (if_size f) (if_data f) = snd nd"

lemma header_fields:
  assumes "cpio_meta_ok m"
  shows "memcmp (cpio_header m fs ns @ t) CPIO_NEWC_MAGIC 6 = Some 0"
    and "drop 54 (cpio_header m fs ns @ t) = hex8 fs @ cm_between m @ hex8 ns @ cm_after m @ t"
    and "drop 94 (cpio_header m fs ns @ t) = hex8 ns @ cm_after m @ t"
    and "drop 110 (cpio_header m fs ns @ t) = t"
    and "length (cpio_header m fs ns) = 110"
proof -
  have six: "(6 :: nat) = Suc (Suc (Suc (Suc (Suc (Suc 0)))))" by simp
  show "memcmp (cpio_header m fs ns @ t) CPIO_NEWC_MAGIC 6 = Some 0"
    unfolding six by (simp add: cpio_header_def CPIO_NEWC_MAGIC_def lit_def)
  have d: "drop 54 (cpio_header m fs ns @ t) = hex8 fs @ cm_between m @ hex8 ns @ cm_after m @ t"
  proof -
    have len: "length (str ''070701'' @ cm_before m) = 54" using assms by (simp add: cpio_meta_ok_def)
    have pre: "length a = 54 \<Longrightarrow> drop 54 (a @ b) = b" for a b :: bytes by simp
    have "cpio_header m fs ns @ t = (str ''070701'' @ cm_before m) @
        (hex8 fs @ cm_between m @ hex8 ns @ cm_after m @ t)" by (simp add: cpio_header_def)
    then show ?thesis using pre [OF len] by (simp only:)
  qed
  then show "drop 54 (cpio_header m fs ns @ t) = hex8 fs @ cm_between m @ hex8 ns @ cm_after m @ t" .
  have "drop 94 (cpio_header m fs ns @ t) = drop 40 (drop 54 (cpio_header m fs ns @ t))"
    by (simp only: drop_drop) simp
  also have "\<dots> = hex8 ns @ cm_after m @ t" using assms unfolding d by (simp add: cpio_meta_ok_def)
  finally show d94: "drop 94 (cpio_header m fs ns @ t) = hex8 ns @ cm_after m @ t" .
  have "drop 110 (cpio_header m fs ns @ t) = drop 16 (drop 94 (cpio_header m fs ns @ t))"
    by (simp only: drop_drop) simp
  also have "\<dots> = t" using assms unfolding d94 by (simp add: cpio_meta_ok_def)
  finally show "drop 110 (cpio_header m fs ns @ t) = t" .
  show "length (cpio_header m fs ns) = 110" using assms by (simp add: cpio_header_def cpio_meta_ok_def)
qed

lemma length_cpio_entry:
  "cpio_meta_ok m \<Longrightarrow> length (cpio_entry m name data) =
     110 + (length name + 1) + pad4 (110 + length name + 1) + length data + pad4 (length data)"
  by (simp add: cpio_entry_def header_fields(5))

lemma length_cpio_entry_mod: "cpio_meta_ok m \<Longrightarrow> length (cpio_entry m name data) mod 4 = 0"
  using mod_add_eq [of "110 + length name + 1 + pad4 (110 + length name + 1)" 4 "length data + pad4 (length data)"]
    pad4_aligned [of "110 + length name + 1"] pad4_aligned [of "length data"]
  by (simp add: length_cpio_entry add.assoc)

lemma ptr_at_append:
  "ptr_at base (pre @ s) (base + length pre) = Some s"
  by (simp add: ptr_at_def)

lemma unat_hex: "n < 2 ^ 32 \<Longrightarrow> unat (word_of_nat n :: u32) = n"
  by (simp add: unat_of_nat)

lemma scan_entry:
  assumes m: "cpio_meta_ok m" and ok: "cpio_ok (name, data)"
    and al: "base mod 4 = 0" "length pre mod 4 = 0"
    and room: "length files < 16" and wrap: "base + length (pre @ cpio_entry m name data @ rest) + 3 < 2 ^ 64"
  obtains f where "initramfs_scan base (pre @ cpio_entry m name data @ rest) (base + length pre) files =
      initramfs_scan base (pre @ cpio_entry m name data @ rest)
        (base + length (pre @ cpio_entry m name data)) (files @ [f])"
    and "represents f (name, data)"
proof -
  let ?arch = "pre @ cpio_entry m name data @ rest" and ?p = "base + length pre"
  let ?h = "cpio_header m (length data) (length name + 1)"
  let ?np = "pad4 (110 + length name + 1)" and ?dp = "pad4 (length data)"
  let ?after = "data @ replicate ?dp 0 @ rest"
  let ?name = "name @ [0] @ replicate ?np 0 @ ?after"
  have nm: "0 \<notin> set name" "name \<noteq> str ''TRAILER!!!''" "length name + 1 < 2 ^ 32" "length data < 2 ^ 32"
    using ok by (simp_all add: cpio_ok_def)
  have arch: "?arch = pre @ (?h @ ?name)" by (simp add: cpio_entry_def)
  have arch2: "?arch = (pre @ ?h @ name @ [0] @ replicate ?np 0) @ ?after" by (simp add: cpio_entry_def)
  have len: "length ?arch = length pre + 110 + (length name + 1) + ?np + length data + ?dp + length rest"
    using length_cpio_entry [OF m, of name data] by simp
  have hdr: "ptr_at base ?arch ?p = Some (?h @ ?name)" unfolding arch by (rule ptr_at_append)
  have nul: "terminated ?name" "cstr ?name = name" using nm(1) by (simp_all add: cstr_append_left)
  have tr: "terminated (lit ''TRAILER!!!'')" "cstr (lit ''TRAILER!!!'') = str ''TRAILER!!!''"
    by (simp_all add: lit_def cstr_Cons)
  obtain r where r: "strcmp ?name (lit ''TRAILER!!!'') = Some r" "r \<noteq> 0"
    using strcmp_defined [OF nul(1) tr(1)] strcmp_zero_iff [OF nul(1) tr(1)] nul(2) tr(2) nm(2) by auto
  have pmod: "?p mod 4 = 0" using al mod_add_eq [of base 4 "length pre"] by simp
  have name_end: "size_add ?p (110 + (length name + 1)) = ?p + (110 + length name + 1)"
    using wrap unfolding len by (simp add: size_add_def)
  have start: "align4 (?p + (110 + length name + 1)) = ?p + (110 + length name + 1) + ?np"
    using align4_pad4 [of "?p + (110 + length name + 1)"] pad4_mod [OF pmod, of "110 + length name + 1"] wrap
    unfolding len by simp
  let ?start = "?p + (110 + length name + 1) + ?np"
  have startmod: "?start mod 4 = 0"
    using mod_add_eq [of ?p 4 "110 + length name + 1 + ?np"] pad4_aligned [of "110 + length name + 1"] pmod
    by (simp add: add.assoc)
  have data_end: "size_add ?start (length data) = ?start + length data"
    using wrap unfolding len by (simp add: size_add_def)
  have next_hdr: "align4 (?start + length data) = ?start + length data + ?dp"
    using align4_pad4 [of "?start + length data"] pad4_mod [OF startmod, of "length data"] wrap
    unfolding len by simp
  have dptr: "ptr_at base ?arch ?start = Some ?after"
  proof -
    have "?start = base + length (pre @ ?h @ name @ [0] @ replicate ?np 0)"
      by (simp add: header_fields(5) [OF m])
    then show ?thesis unfolding arch2 by (simp only: ptr_at_append)
  qed
  have nx: "?start + length data + ?dp = base + length (pre @ cpio_entry m name data)"
    using length_cpio_entry [OF m, of name data] by simp
  let ?f = "\<lparr>if_name = ?name, if_data = ?after, if_size = length data\<rparr>"
  have guard: "?p + 110 < base + length ?arch \<and> length files < 16" using room len by simp
  have inb: "\<not> base + length (pre @ cpio_entry m name data) > base + length ?arch" by simp
  have nz: "(0 :: u32) < word_of_nat (length name + 1)"
    using unat_hex [OF nm(3)] by (simp add: word_less_nat_alt)
  have step: "initramfs_scan base ?arch ?p files =
      initramfs_scan base ?arch (base + length (pre @ cpio_entry m name data)) (files @ [?f])"
  proof -
    note un = unat_hex [OF nm(3)] unat_hex [OF nm(4)]
    show ?thesis
      apply (subst initramfs_scan.simps)
      apply (simp only: guard if_True hdr Option.bind.bind_lunit header_fields [OF m] if_False
          hex2u32_hex8 [OF nm(3)] hex2u32_hex8 [OF nm(4)] Let_def nz r(1) r(2) un simp_thms
          not_False_eq_True not_True_eq_False)
      apply (simp only: name_end start data_end next_hdr nx [symmetric] dptr Option.bind.bind_lunit)
      using inb nx by simp
  qed
  moreover have "represents ?f (name, data)" using nul by (simp add: represents_def)
  ultimately show ?thesis using that by blast
qed

section \<open>Whole archives\<close>

lemma scan_trailer:
  assumes m: "cpio_meta_ok m" and "length files < 16"
    and al: "base mod 4 = 0" "length pre mod 4 = 0"
  shows "initramfs_scan base (pre @ cpio_trailer m) (base + length pre) files = Some files"
proof -
  let ?name = "str ''TRAILER!!!'' @ [0] @ replicate (pad4 121) 0 @ replicate (pad4 0) 0"
  let ?h = "cpio_header m 0 11"
  have len: "length (str ''TRAILER!!!'') = 10" by simp
  have tr: "cpio_trailer m = ?h @ ?name"
    unfolding cpio_trailer_def cpio_entry_def len by simp
  have hdr: "ptr_at base (pre @ ?h @ ?name) (base + length pre) = Some (?h @ ?name)"
    by (rule ptr_at_append)
  have guard: "base + length pre + 110 < base + length (pre @ ?h @ ?name) \<and> length files < 16"
    using assms(2) header_fields(5) [OF m, of 0 11] by simp
  have tn: "terminated ?name" "cstr ?name = str ''TRAILER!!!''"
    and tl: "terminated (lit ''TRAILER!!!'')" "cstr (lit ''TRAILER!!!'') = str ''TRAILER!!!''"
    by (simp_all add: lit_def cstr_Cons)
  have eq: "strcmp ?name (lit ''TRAILER!!!'') = Some 0"
    unfolding strcmp_zero_iff [OF tn(1) tl(1)] tn tl ..
  have nz: "(0 :: u32) < word_of_nat 11" by simp
  have s: "hex2u32 (hex8 0 @ t) 8 = Some (word_of_nat 0)" "hex2u32 (hex8 11 @ t) 8 = Some (word_of_nat 11)" for t
    by (simp_all add: hex2u32_hex8 del: of_nat_numeral of_nat_0)
  show ?thesis
    unfolding tr
    by (subst initramfs_scan.simps)
      (simp only: guard if_True hdr Option.bind.bind_lunit header_fields [OF m] if_False s nz eq
        Let_def simp_thms not_False_eq_True)
qed

lemma scan_full: "length files \<ge> 16 \<Longrightarrow> initramfs_scan base arch p files = Some files"
  by (subst initramfs_scan.simps) simp

lemma scan_entries:
  assumes m: "cpio_meta_ok m" and ok: "list_all cpio_ok fs"
    and base: "base mod 4 = 0" and "length pre mod 4 = 0"
    and "base + length (pre @ cpio_archive m fs) + 3 < 2 ^ 64"
  shows "\<exists>fs'. initramfs_scan base (pre @ cpio_archive m fs) (base + length pre) files = Some (files @ fs') \<and>
     list_all2 represents fs' (take (16 - length files) fs)"
  using assms(2,4-)
proof (induction fs arbitrary: pre files)
  case Nil
  show ?case
  proof (cases "length files < 16")
    case True
    with scan_trailer [OF m True base Nil(2)] show ?thesis by (simp add: cpio_archive_def)
  next
    case False
    then show ?thesis by (simp add: scan_full)
  qed
next
  case (Cons nd fs)
  show ?case
  proof (cases "length files < 16")
    case False
    then show ?thesis by (simp add: scan_full)
  next
    case room: True
    obtain name data where nd: "nd = (name, data)" by (cases nd)
    let ?e = "cpio_entry m name data"
    have arch: "cpio_archive m (nd # fs) = ?e @ cpio_archive m fs" by (simp add: nd cpio_archive_def)
    have ok: "cpio_ok (name, data)" "list_all cpio_ok fs" using Cons.prems(1) nd by simp_all
    have wrap: "base + length (pre @ ?e @ cpio_archive m fs) + 3 < 2 ^ 64"
      using Cons.prems(3) by (simp add: arch)
    obtain f where f: "initramfs_scan base (pre @ ?e @ cpio_archive m fs) (base + length pre) files =
        initramfs_scan base (pre @ ?e @ cpio_archive m fs) (base + length (pre @ ?e)) (files @ [f])"
      "represents f (name, data)"
      by (rule scan_entry [OF m ok(1) base Cons.prems(2) room wrap])
    have al: "length (pre @ ?e) mod 4 = 0"
      using mod_add_eq [of "length pre" 4 "length ?e"] Cons.prems(2) length_cpio_entry_mod [OF m, of name data]
      by simp
    have w: "base + length ((pre @ ?e) @ cpio_archive m fs) + 3 < 2 ^ 64" using wrap by simp
    from Cons.IH [OF ok(2) al w, of "files @ [f]"] obtain fs' where
      "initramfs_scan base ((pre @ ?e) @ cpio_archive m fs) (base + length (pre @ ?e)) (files @ [f])
         = Some ((files @ [f]) @ fs')" "list_all2 represents fs' (take (16 - length (files @ [f])) fs)"
      by blast
    then have "initramfs_scan base (pre @ cpio_archive m (nd # fs)) (base + length pre) files
        = Some (files @ f # fs')"
      unfolding arch using f(1) by (simp only: append_assoc append_Cons append_Nil)
    moreover have "16 - length files = Suc (16 - length (files @ [f]))" using room by simp
    then have "list_all2 represents (f # fs') (take (16 - length files) (nd # fs))"
      using f(2) \<open>list_all2 represents fs' _\<close> by (simp add: nd)
    ultimately show ?thesis by blast
  qed
qed

text \<open>Of any archive the first 16 files are recorded.\<close>

lemma initramfs_init_first:
  assumes "cpio_meta_ok m" and "list_all cpio_ok fs" and "base mod 4 = 0"
    and "base + length (cpio_archive m fs) + 3 < 2 ^ 64"
  obtains files where "initramfs_init base (cpio_archive m fs) = Some files"
    and "list_all2 represents files (take 16 fs)"
  using scan_entries [of m fs base "[]" "[]"] assms by (auto simp: initramfs_init_def)

lemma initramfs_init_archive:
  assumes "cpio_meta_ok m" and "list_all cpio_ok fs" and "base mod 4 = 0" and "length fs \<le> 16"
    and "base + length (cpio_archive m fs) + 3 < 2 ^ 64"
  obtains files where "initramfs_init base (cpio_archive m fs) = Some files"
    and "list_all2 represents files fs"
  using initramfs_init_first [OF assms(1-3,5)] assms(4) by auto

text \<open>Lookup by name finds the first entry of that name.\<close>

lemma find_represented:
  assumes "list_all2 represents files fs" and "terminated name"
  shows "\<exists>r. initramfs_find files name = Some r \<and>
    rel_option (\<lambda>f d. if_size f = length d \<and> take (if_size f) (if_data f) = d) r (map_of fs (cstr name))"
  using assms(1)
proof (induction rule: list_all2_induct)
  case Nil
  then show ?case by simp
next
  case (Cons f files nd fs)
  have t: "terminated (if_name f)" "cstr (if_name f) = fst nd"
    using Cons.hyps by (simp_all add: represents_def)
  have "initramfs_find (f # files) name =
      (if cstr (if_name f) = cstr name then Some (Some f) else initramfs_find files name)"
    by (simp add: strcmp_bind [OF t(1) assms(2)])
  then show ?case using Cons t(2) by (cases nd) (auto simp: represents_def)
qed

section \<open>Arbitrary images\<close>

lemma scan_step:
  assumes "initramfs_scan base arch p files = Some files'"
  shows "files' = files \<or> (length files < 16 \<and> (\<exists>name start fd (filesize :: u32).
     ptr_at base arch start = Some fd \<and>
     align4 (size_add start (unat filesize)) \<le> base + length arch \<and>
     initramfs_scan base arch (align4 (size_add start (unat filesize)))
       (files @ [\<lparr>if_name = name, if_data = fd, if_size = unat filesize\<rparr>]) = Some files'))"
  using assms
  by (subst (asm) initramfs_scan.simps)
    (auto simp: Let_def not_less split: if_splits Option.bind_splits)

definition in_archive :: "bytes \<Rightarrow> initramfs_file \<Rightarrow> bool" where
  "in_archive arch f \<longleftrightarrow> (\<exists>k. if_data f = drop k arch) \<and> if_size f \<le> length (if_data f)"

lemma scan_bounds:
  assumes "base + length arch + 3 < 2 ^ 63"
  shows "initramfs_scan base arch p files = Some files' \<Longrightarrow> \<forall>f \<in> set files. in_archive arch f \<Longrightarrow>
    length files \<le> 16 \<Longrightarrow> length files' \<le> 16 \<and> (\<forall>f \<in> set files'. in_archive arch f)"
proof (induction "16 - length files" arbitrary: p files rule: less_induct)
  case less
  from scan_step [OF less.prems(1)] show ?case
  proof (elim disjE conjE exE)
    assume "files' = files"
    with less.prems show ?thesis by simp
  next
    fix name start fd and filesize :: u32
    let ?f = "\<lparr>if_name = name, if_data = fd, if_size = unat filesize\<rparr>"
    let ?next = "align4 (size_add start (unat filesize))"
    assume room: "length files < 16" and fd: "ptr_at base arch start = Some fd"
      and nx: "?next \<le> base + length arch"
      and rec: "initramfs_scan base arch ?next (files @ [?f]) = Some files'"
    have st: "base \<le> start" "start \<le> base + length arch" "fd = drop (start - base) arch"
      using fd by (auto simp: ptr_at_def split: if_splits)
    have "unat filesize < 2 ^ 32" using unsigned_less [of filesize] by simp
    then have small: "start + unat filesize + 3 < 2 ^ 64" using st(2) assms by simp
    then have "?next = start + unat filesize + pad4 (start + unat filesize)"
      using align4_pad4 [OF small] by simp
    with nx st have "in_archive arch ?f" by (auto simp: in_archive_def)
    then have "\<forall>f \<in> set (files @ [?f]). in_archive arch f" using less.prems(2) by simp
    moreover have "16 - length (files @ [?f]) < 16 - length files" "length (files @ [?f]) \<le> 16"
      using room by auto
    ultimately show ?thesis using less.hyps rec by blast
  qed
qed

section \<open>Properties\<close>

text \<open>
  C21 Parsing inverts encoding: for an archive of at most 16 files in the newc format, loaded at
  an address that is a multiple of four, \<open>initramfs_init\<close> records exactly its files, in order,
  each with its name, its size and its content.
\<close>

theorem initramfs_roundtrip:
  assumes "cpio_meta_ok m" and "list_all cpio_ok fs" and "base mod 4 = 0" and "length fs \<le> 16"
    and "base + length (cpio_archive m fs) + 3 < 2 ^ 64"
  shows "\<exists>files. initramfs_init base (cpio_archive m fs) = Some files \<and> list_all2 represents files fs"
  using initramfs_init_archive [OF assms] by blast

definition example_meta :: cpio_meta where
  "example_meta = \<lparr>cm_before = replicate 48 48, cm_between = replicate 32 48, cm_after = replicate 8 48\<rparr>"

definition example_files :: "(bytes \<times> bytes) list" where
  "example_files = [(str ''motd'', str ''hello''), (str ''bin/sh'', [1, 2, 3, 0, 5])]"

lemma example_archive_ok:
  "cpio_meta_ok example_meta" "list_all cpio_ok example_files" "length example_files \<le> 16"
  "0x1000 + length (cpio_archive example_meta example_files) + 3 < 2 ^ 64"
  by (simp_all add: example_meta_def cpio_meta_ok_def example_files_def cpio_ok_def cpio_archive_def
      cpio_trailer_def length_cpio_entry pad4_def)

theorem initramfs_roundtrip_witness:
  "\<exists>files. initramfs_init 0x1000 (cpio_archive example_meta example_files) = Some files \<and>
     map (\<lambda>f. (cstr (if_name f), take (if_size f) (if_data f))) files = example_files"
proof -
  obtain files where f: "initramfs_init 0x1000 (cpio_archive example_meta example_files) = Some files"
    "list_all2 represents files example_files"
    using initramfs_roundtrip [OF example_archive_ok(1,2) _ example_archive_ok(3,4)] by auto
  have "list_all2 represents fs gs \<Longrightarrow> map (\<lambda>f. (cstr (if_name f), take (if_size f) (if_data f))) fs = gs"
    for fs gs
    by (induction rule: list_all2_induct) (auto simp: represents_def)
  with f show ?thesis by blast
qed

text \<open>
  \<open>initramfs_find\<close> on such an archive returns the first file of the given name, and
  \<open>NULL\<close> exactly if there is none.
\<close>

theorem initramfs_find_archive:
  assumes "cpio_meta_ok m" and "list_all cpio_ok fs" and "base mod 4 = 0" and "length fs \<le> 16"
    and "base + length (cpio_archive m fs) + 3 < 2 ^ 64" and "terminated name"
  shows "\<exists>files r. initramfs_init base (cpio_archive m fs) = Some files \<and>
     initramfs_find files name = Some r \<and>
     map_option (\<lambda>f. take (if_size f) (if_data f)) r = map_of fs (cstr name)"
proof -
  obtain files where f: "initramfs_init base (cpio_archive m fs) = Some files"
    "list_all2 represents files fs"
    by (rule initramfs_init_archive [OF assms(1-5)])
  obtain r where "initramfs_find files name = Some r"
    "rel_option (\<lambda>f d. if_size f = length d \<and> take (if_size f) (if_data f) = d) r (map_of fs (cstr name))"
    using find_represented [OF f(2) assms(6)] by blast
  moreover from this have "map_option (\<lambda>f. take (if_size f) (if_data f)) r = map_of fs (cstr name)"
    by (cases r; cases "map_of fs (cstr name)") auto
  ultimately show ?thesis using f(1) by blast
qed

theorem initramfs_find_archive_witness:
  "\<exists>files f. initramfs_init 0x1000 (cpio_archive example_meta example_files) = Some files \<and>
     initramfs_find files (lit ''bin/sh'') = Some (Some f) \<and> take (if_size f) (if_data f) = [1, 2, 3, 0, 5]"
proof -
  have n: "terminated (lit ''bin/sh'')" "cstr (lit ''bin/sh'') = str ''bin/sh''"
    by (simp_all add: lit_def cstr_Cons)
  have "map_of example_files (str ''bin/sh'') = Some [1, 2, 3, 0, 5]" by (simp add: example_files_def)
  then show ?thesis
    using initramfs_find_archive [OF example_archive_ok(1,2) _ example_archive_ok(3,4) n(1)] n(2) by auto
qed

text \<open>
  Whatever bytes the module holds, every file \<open>initramfs_init\<close> records lies inside the
  module, and it records at most 16.
\<close>

theorem initramfs_init_in_bounds:
  assumes "base + length arch + 3 < 2 ^ 63" and "initramfs_init base arch = Some files"
  shows "length files \<le> 16 \<and> (\<forall>f \<in> set files. in_archive arch f)"
  using scan_bounds [OF assms(1), of base "[]" files] assms(2) by (simp add: initramfs_init_def)

theorem initramfs_init_in_bounds_witness:
  "\<exists>files. initramfs_init 0x1000 (cpio_archive example_meta example_files) = Some files \<and>
     list_all (in_archive (cpio_archive example_meta example_files)) files"
proof -
  obtain files where f: "initramfs_init 0x1000 (cpio_archive example_meta example_files) = Some files"
    by (rule initramfs_init_archive [OF example_archive_ok(1,2) _ example_archive_ok(3,4)]) auto
  have "0x1000 + length (cpio_archive example_meta example_files) + 3 < 2 ^ 63"
    by (simp add: example_meta_def cpio_meta_ok_def example_files_def cpio_archive_def
        cpio_trailer_def length_cpio_entry pad4_def)
  from initramfs_init_in_bounds [OF this f] f show ?thesis by (auto simp: list_all_iff)
qed

end
