(* ===== verification/FsTypes.thy ===== *)
theory FsTypes
  imports CString Interfaces
begin

text \<open>
  The types of \<open>kernel/src/src/fs.h\<close>. A \<open>char *data\<close> is \<open>NULL\<close>, an offset into the memory pool
  of \<open>fs_alloc\<close>, or an integer the ext2 driver cast to a pointer.
\<close>

definition FS_MAX_PATH :: nat where "FS_MAX_PATH = 128"
definition FS_MAX_FILES :: nat where "FS_MAX_FILES = 32"
definition FS_MAX_DIRS :: nat where "FS_MAX_DIRS = 8"

text \<open>The size of the \<open>name\<close> arrays.\<close>

definition NAME_SIZE :: nat where "NAME_SIZE = 32"

datatype fs_type_t = FS_TYPE_INITRAMFS | FS_TYPE_EXT2 | FS_TYPE_UNKNOWN

datatype data_ptr = DNull | DPool nat | DAddr nat

definition ptr_of_int :: "nat \<Rightarrow> data_ptr" where
  "ptr_of_int n = (if n = 0 then DNull else DAddr n)"

record fs_file =
  ff_name :: bytes
  ff_data :: data_ptr
  ff_size :: nat
  ff_capacity :: nat
  ff_mode :: u16
  ff_is_dir :: bool
  ff_fs_type :: fs_type_t

record fs_dir =
  fd_name :: bytes
  fd_path :: bytes

text \<open>Objects filled with zero bytes, as \<open>memset\<close> leaves them; \<open>FS_TYPE_INITRAMFS\<close> is 0.\<close>

definition zero_file :: fs_file where
  "zero_file = \<lparr>ff_name = replicate NAME_SIZE 0, ff_data = DNull, ff_size = 0, ff_capacity = 0,
     ff_mode = 0, ff_is_dir = False, ff_fs_type = FS_TYPE_INITRAMFS\<rparr>"

definition zero_dir :: fs_dir where
  "zero_dir = \<lparr>fd_name = replicate NAME_SIZE 0, fd_path = replicate FS_MAX_PATH 0\<rparr>"

text \<open>The idiom \<open>strncpy(d, s, sizeof(d) - 1); d[sizeof(d) - 1] = 0\<close>, and what it leaves in \<open>d\<close>.\<close>

definition copy_name :: "bytes \<Rightarrow> bytes \<Rightarrow> bytes option" where
  "copy_name d s = do { d' \<leftarrow> strncpy d s (length d - 1); wr d' (length d - 1) 0 }"

lemma copy_name_eq:
  assumes "terminated s" and "d \<noteq> []"
  obtains d' where "copy_name d s = Some d'" and "cstr d' = take (length d - 1) (cstr s)"
    and "length d' = length d" and "terminated d'"
proof -
  let ?n = "length d - 1"
  let ?a = "take ?n (cstr s) @ replicate (?n - length (cstr s)) 0"
  have len: "length ?a = ?n" by simp
  have "drop ?n d = [last d]" using assms(2) by (cases d rule: rev_cases) simp_all
  then have "strncpy d s ?n = Some (?a @ [last d])"
    using strncpy_eq [OF assms(1), of ?n d] by simp
  moreover have "(?a @ [last d])[?n := 0] = ?a @ [0]"
    using list_update_length [of ?a "last d" "[]" 0] by (simp only: len)
  moreover have "?n < length (?a @ [last d])" by (simp only: length_append len) simp
  ultimately have "copy_name d s = Some (?a @ [0])" by (simp only: copy_name_def Option.bind.bind_lunit wr_Some)
  moreover have "cstr (?a @ [0]) = take ?n (cstr s)"
    using cstr_strncpy_field [of ?n s "[]"] by simp
  moreover have "length (?a @ [0]) = length d" using len assms(2) by simp
  ultimately show ?thesis using that by auto
qed

end
