(* ===== verification/Endian.thy ===== *)
theory Endian
  imports Prelude
begin

text \<open>
  Little-endian integers in byte lists: the reads of packed structures (ext2 and ELF files) and
  the 64-bit words the kernel passes through user memory.
\<close>

definition rd_le16 :: "bytes \<Rightarrow> nat \<Rightarrow> u16 option" where
  "rd_le16 img off = do { a \<leftarrow> rd img off; b \<leftarrow> rd img (off + 1);
     Some (ucast a OR push_bit 8 (ucast b)) }"

definition rd_le32 :: "bytes \<Rightarrow> nat \<Rightarrow> u32 option" where
  "rd_le32 img off = do { a \<leftarrow> rd img off; b \<leftarrow> rd img (off + 1); c \<leftarrow> rd img (off + 2);
     d \<leftarrow> rd img (off + 3);
     Some (ucast a OR push_bit 8 (ucast b) OR push_bit 16 (ucast c) OR push_bit 24 (ucast d)) }"

definition rd_le64 :: "bytes \<Rightarrow> nat \<Rightarrow> u64 option" where
  "rd_le64 img off = do { lo \<leftarrow> rd_le32 img off; hi \<leftarrow> rd_le32 img (off + 4);
     Some (ucast lo OR push_bit 32 (ucast hi)) }"

lemma rd_le_defined:
  "off + 2 \<le> length img \<Longrightarrow> \<exists>w. rd_le16 img off = Some w"
  "off + 4 \<le> length img \<Longrightarrow> \<exists>w. rd_le32 img off = Some w"
  "off + 8 \<le> length img \<Longrightarrow> \<exists>w. rd_le64 img off = Some w"
  by (simp_all add: rd_le16_def rd_le32_def rd_le64_def)

lemma rd_le_undefined:
  "length img < off + 2 \<Longrightarrow> rd_le16 img off = None"
  "length img < off + 4 \<Longrightarrow> rd_le32 img off = None"
  "length img < off + 8 \<Longrightarrow> rd_le64 img off = None"
  by (auto simp: rd_le16_def rd_le32_def rd_le64_def rd_def split: Option.bind_splits)

definition le64 :: "u64 \<Rightarrow> bytes" where
  "le64 w = map (\<lambda>i. ucast (drop_bit (8 * i) w)) [0..<8]"

definition of_le64 :: "bytes \<Rightarrow> u64" where
  "of_le64 bs = foldr (\<lambda>b w. push_bit 8 w OR ucast b) bs 0"

end
