(* ===== verification/Ext2.thy ===== *)
theory Ext2
  imports FsTypes Endian
begin

text \<open>
  The read-only ext2 driver (\<open>kernel/src/src/ext2.c\<close>, on-disk structures in \<open>ext2.h\<close>). The disk
  image is a byte list; a pointer to a structure in it is its offset, and a field access is a
  little-endian read at the field's offset, checked against the image. The arithmetic the code
  does in \<open>uint32_t\<close> is done in \<open>u32\<close>.
\<close>

section \<open>On-disk structures\<close>

text \<open>The superblock lies at offset 1024; these are the fields the driver reads.\<close>

definition sb_inodes_count :: "bytes \<Rightarrow> u32 option" where
  "sb_inodes_count img = rd_le32 img 1024"
definition sb_blocks_count :: "bytes \<Rightarrow> u32 option" where
  "sb_blocks_count img = rd_le32 img (1024 + 4)"
definition sb_first_data_block :: "bytes \<Rightarrow> u32 option" where
  "sb_first_data_block img = rd_le32 img (1024 + 20)"
definition sb_log_block_size :: "bytes \<Rightarrow> u32 option" where
  "sb_log_block_size img = rd_le32 img (1024 + 24)"
definition sb_inodes_per_group :: "bytes \<Rightarrow> u32 option" where
  "sb_inodes_per_group img = rd_le32 img (1024 + 40)"
definition sb_magic :: "bytes \<Rightarrow> u16 option" where
  "sb_magic img = rd_le16 img (1024 + 56)"
definition sb_inode_size :: "bytes \<Rightarrow> u16 option" where
  "sb_inode_size img = rd_le16 img (1024 + 88)"

definition EXT2_SUPER_MAGIC :: u16 where "EXT2_SUPER_MAGIC = 0xEF53"
definition EXT2_S_IFDIR :: u16 where "EXT2_S_IFDIR = 0x4000"
definition SIZEOF_SUPERBLOCK :: nat where "SIZEOF_SUPERBLOCK = 1024"
definition SIZEOF_GROUP_DESC :: nat where "SIZEOF_GROUP_DESC = 32"

text \<open>Fields of a block group descriptor, an inode and a directory entry at an offset.\<close>

definition bg_inode_table :: "bytes \<Rightarrow> nat \<Rightarrow> u32 option" where
  "bg_inode_table img bg = rd_le32 img (bg + 8)"
definition i_mode :: "bytes \<Rightarrow> nat \<Rightarrow> u16 option" where
  "i_mode img ino = rd_le16 img ino"
definition i_size :: "bytes \<Rightarrow> nat \<Rightarrow> u32 option" where
  "i_size img ino = rd_le32 img (ino + 4)"
definition i_blocks :: "bytes \<Rightarrow> nat \<Rightarrow> u32 option" where
  "i_blocks img ino = rd_le32 img (ino + 28)"
definition i_block :: "bytes \<Rightarrow> nat \<Rightarrow> nat \<Rightarrow> u32 option" where
  "i_block img ino i = rd_le32 img (ino + 40 + 4 * i)"
definition de_inode :: "bytes \<Rightarrow> nat \<Rightarrow> u32 option" where
  "de_inode b off = rd_le32 b off"
definition de_rec_len :: "bytes \<Rightarrow> nat \<Rightarrow> u16 option" where
  "de_rec_len b off = rd_le16 b (off + 4)"
definition de_name_len :: "bytes \<Rightarrow> nat \<Rightarrow> u8 option" where
  "de_name_len b off = rd b (off + 6)"

section \<open>Driver state\<close>

text \<open>
  \<open>ext2_data\<close> is the mounted image (\<open>None\<close> before a mount); its length is \<open>ext2_size\<close>, and the
  pointer \<open>superblock\<close> is set exactly when it is. \<open>file_cache\<close> serves \<open>ext2_list\<close>, and
  \<open>ext2_file\<close> is the static \<open>file\<close> of \<open>ext2_open\<close>.
\<close>

record ext2_state =
  ext2_data :: "bytes option"
  block_size :: u32
  ext2_current_dir :: bytes
  file_cache :: "fs_file list"
  file_cache_count :: nat
  ext2_file :: fs_file

definition ext2_boot :: ext2_state where
  "ext2_boot = \<lparr>ext2_data = None, block_size = 0,
     ext2_current_dir = str ''/'' @ replicate (FS_MAX_PATH - 1) 0,
     file_cache = replicate FS_MAX_FILES zero_file, file_cache_count = 0, ext2_file = zero_file\<rparr>"

definition ext2_detect :: "bytes \<Rightarrow> bool option" where
  "ext2_detect img =
     (if length img < 1024 + SIZEOF_SUPERBLOCK then Some False
      else do { m \<leftarrow> sb_magic img; Some (m = EXT2_SUPER_MAGIC) })"

text \<open>\<open>1024 << log_block_size\<close> is an \<open>int\<close> shift: undefined when the result is not an \<open>int\<close>.\<close>

definition ext2_init :: "bytes \<Rightarrow> ext2_state \<Rightarrow> (bool \<times> ext2_state) option" where
  "ext2_init img st = do {
     ok \<leftarrow> ext2_detect img;
     if \<not> ok then Some (False, st)
     else do {
       lg \<leftarrow> sb_log_block_size img;
       bs \<leftarrow> (if unat lg < 21 then Some (push_bit (unat lg) 1024 :: u32) else None);
       dir \<leftarrow> strcpy (ext2_current_dir st) (lit ''/'');
       Some (True, st\<lparr>ext2_data := Some img, block_size := bs, ext2_current_dir := dir\<rparr>) } }"

section \<open>Blocks and inodes\<close>

text \<open>The pointers returned are offsets into the image; \<open>Some None\<close> is \<open>NULL\<close>.\<close>

definition ext2_read_block :: "u32 \<Rightarrow> ext2_state \<Rightarrow> nat option option" where
  "ext2_read_block block_num st = (case ext2_data st of None \<Rightarrow> Some None | Some img \<Rightarrow>
     if block_size st = 0 then Some None
     else do {
       blocks_count \<leftarrow> sb_blocks_count img;
       if block_num \<ge> blocks_count then Some None
       else (let offset = unat (block_num * block_size st) in
             if offset + unat (block_size st) > length img then Some None
             else Some (Some offset)) })"

definition ext2_read_inode :: "u32 \<Rightarrow> ext2_state \<Rightarrow> nat option option" where
  "ext2_read_inode inode_num st = (case ext2_data st of None \<Rightarrow> Some None | Some img \<Rightarrow>
     if inode_num = 0 then Some None
     else do {
       inodes_count \<leftarrow> sb_inodes_count img;
       if inode_num > inodes_count then Some None
       else do {
         inodes_per_group \<leftarrow> sb_inodes_per_group img;
         if inodes_per_group = 0 then None
         else do {
           let n = inode_num - 1;
           let group = n div inodes_per_group;
           let index = n mod inodes_per_group;
           first_data_block \<leftarrow> sb_first_data_block img;
           let bg_desc_offset = (first_data_block + 1) * block_size st;
           inode_table_block \<leftarrow>
             bg_inode_table img (unat bg_desc_offset + unat group * SIZEOF_GROUP_DESC);
           inode_size16 \<leftarrow> sb_inode_size img;
           let inode_size = (ucast inode_size16 :: u32);
           let inode_offset = inode_table_block * block_size st + index * inode_size;
           if unat (inode_offset + inode_size) > length img then Some None
           else Some (Some (unat inode_offset)) } } })"

text \<open>
  The loop of \<open>ext2_read_inode_data\<close> over the direct blocks: the bytes go to \<open>buf\<close> from
  \<open>bytes_read\<close> on; the source of the \<open>memcpy\<close> is the image.
\<close>

function ext2_read_blocks ::
  "ext2_state \<Rightarrow> bytes \<Rightarrow> nat \<Rightarrow> nat \<Rightarrow> nat \<Rightarrow> nat \<Rightarrow> nat \<Rightarrow> nat \<Rightarrow> nat \<Rightarrow> bytes \<Rightarrow> (nat \<times> bytes) option"
  where
  "ext2_read_blocks st img ino offset len start_block end_block i bytes_read buf =
     (if i \<le> end_block \<and> i < 12
      then do {
        blk \<leftarrow> i_block img ino i;
        r \<leftarrow> ext2_read_block blk st;
        case r of None \<Rightarrow> Some (bytes_read, buf)
        | Some block_data \<Rightarrow> (
            let bs = unat (block_size st);
                block_offset = offset mod bs;
                to_read1 = (if i = start_block then size_sub bs block_offset else bs);
                block_data1 = (if i = start_block then block_data + block_offset else block_data);
                end_offset = size_add offset len mod bs;
                to_read2 = (if i = end_block \<and> end_offset > 0
                            then size_sub end_offset (if i = start_block then block_offset else 0)
                            else to_read1);
                to_read3 = (if size_add bytes_read to_read2 > len then size_sub len bytes_read else to_read2)
            in do {
              buf' \<leftarrow> (if block_data1 + to_read3 \<le> length img \<and> bytes_read + to_read3 \<le> length buf
                     then Some (take bytes_read buf @ take to_read3 (drop block_data1 img)
                                @ drop (bytes_read + to_read3) buf)
                     else None);
              if bytes_read + to_read3 \<ge> len then Some (bytes_read + to_read3, buf')
              else ext2_read_blocks st img ino offset len start_block end_block (i + 1)
                     (bytes_read + to_read3) buf' }) }
      else Some (bytes_read, buf))"
  by pat_completeness auto
termination
  by (relation "measure (\<lambda>(st, img, ino, offset, len, sb, eb, i, br, buf). 12 - i)") auto

declare ext2_read_blocks.simps [simp del]

definition ext2_read_inode_data ::
  "nat \<Rightarrow> nat \<Rightarrow> bytes \<Rightarrow> nat \<Rightarrow> ext2_state \<Rightarrow> (nat \<times> bytes) option" where
  "ext2_read_inode_data ino offset buf len st = (case ext2_data st of None \<Rightarrow> None | Some img \<Rightarrow> do {
     sz \<leftarrow> i_size img ino;
     let isize = unat sz;
     if offset \<ge> isize then Some (0, buf)
     else if block_size st = 0 then None
     else (
       let len1 = (if size_add offset len > isize then isize - offset else len);
           bs = unat (block_size st);
           start_block = offset div bs mod 2 ^ 32;
           end_block = size_sub (size_add offset len1) 1 div bs mod 2 ^ 32
       in ext2_read_blocks st img ino offset len1 start_block end_block start_block 0 buf) })"

section \<open>Paths\<close>

text \<open>
  The search of one directory block: \<open>buf\<close> is the buffer of one block, \<open>offset\<close> walks over its
  entries. The result is the inode number of the entry named \<open>token\<close>, if there is one.
\<close>

function ext2_dir_scan :: "bytes \<Rightarrow> bytes \<Rightarrow> nat \<Rightarrow> u32 option option" where
  "ext2_dir_scan buf token offset =
     (if offset < length buf
      then do {
        ino \<leftarrow> de_inode buf offset;
        if ino = 0 then Some None
        else do {
          rec_len \<leftarrow> de_rec_len buf offset;
          if rec_len = 0 then Some None
          else do {
            name_len \<leftarrow> de_name_len buf offset;
            token_len \<leftarrow> strlen token;
            same \<leftarrow> (if unat name_len = token_len
                    then do { r \<leftarrow> strncmp (drop (offset + 8) buf) token (unat name_len); Some (r = 0) }
                    else Some False);
            if same then Some (Some ino)
            else ext2_dir_scan buf token (offset + unat rec_len) } } }
      else Some None)"
  by pat_completeness auto
termination
  by (relation "measure (\<lambda>(buf, token, offset). length buf - offset)")
    (auto simp: unat_gt_0 intro!: diff_less_mono2)

declare ext2_dir_scan.simps [simp del]

text \<open>The loop over the direct blocks of a directory, from block \<open>i\<close> on.\<close>

fun ext2_dir_lookup :: "ext2_state \<Rightarrow> bytes \<Rightarrow> nat \<Rightarrow> bytes \<Rightarrow> nat list \<Rightarrow> u32 option option" where
  "ext2_dir_lookup st img ino token [] = Some None"
| "ext2_dir_lookup st img ino token (i # is) = do {
     blk \<leftarrow> i_block img ino i;
     if blk = 0 then ext2_dir_lookup st img ino token is
     else do {
       r \<leftarrow> ext2_read_block blk st;
       case r of None \<Rightarrow> ext2_dir_lookup st img ino token is
       | Some block_data \<Rightarrow> do {
           buf \<leftarrow> (if block_data + unat (block_size st) \<le> length img
                 then Some (take (unat (block_size st)) (drop block_data img)) else None);
           hit \<leftarrow> ext2_dir_scan buf token 0;
           case hit of None \<Rightarrow> ext2_dir_lookup st img ino token is
           | Some n \<Rightarrow> Some (Some n) } } }"

text \<open>
  The component loop of \<open>ext2_find_inode_by_path\<close>. \<open>token\<close> is the rest of \<open>path_copy\<close>; writing the
  NUL over the slash ends the component, and the rest after it is the next token.
\<close>

function ext2_walk :: "ext2_state \<Rightarrow> bytes \<Rightarrow> nat \<Rightarrow> bytes option \<Rightarrow> nat option option" where
  "ext2_walk st img cur None = Some (Some cur)"
| "ext2_walk st img cur (Some token) = do {
     c \<leftarrow> rd token 0;
     if c = 0 then Some (Some cur)
     else do {
       slash \<leftarrow> strchr token 47;
       let (tok, next_token) =
         (case slash of None \<Rightarrow> (token, None) | Some k \<Rightarrow> (token[k := 0], Some (drop (k + 1) token)));
       c' \<leftarrow> rd tok 0;
       if c' = 0 then ext2_walk st img cur next_token
       else do {
         mode \<leftarrow> i_mode img cur;
         if mode AND EXT2_S_IFDIR = 0 then Some None
         else do {
           hit \<leftarrow> ext2_dir_lookup st img cur tok [0..<12];
           case hit of None \<Rightarrow> Some None
           | Some n \<Rightarrow> do {
               ino \<leftarrow> ext2_read_inode n st;
               case ino of None \<Rightarrow> Some None | Some cur' \<Rightarrow> ext2_walk st img cur' next_token } } } } }"
  by pat_completeness auto
termination
  by (relation "measure (\<lambda>(st, img, cur, t). case t of None \<Rightarrow> 0 | Some s \<Rightarrow> Suc (length s))")
    (auto simp: rd_def split: if_splits option.splits)

definition ext2_find_inode_by_path :: "bytes \<Rightarrow> ext2_state \<Rightarrow> nat option option" where
  "ext2_find_inode_by_path path st = do {
     c \<leftarrow> rd path 0;
     if c = 0 then Some None
     else do {
       root \<leftarrow> ext2_read_inode 2 st;
       case root of None \<Rightarrow> Some None
       | Some current_inode \<Rightarrow> do {
           r \<leftarrow> strcmp path (lit ''/'');
           if r = 0 then Some (Some current_inode)
           else do {
             path_copy \<leftarrow> copy_name (replicate FS_MAX_PATH 0) path;
             img \<leftarrow> ext2_data st;
             ext2_walk st img current_inode
               (Some (if path_copy ! 0 = 47 then drop 1 path_copy else path_copy)) } } } }"

section \<open>The driver's interface\<close>

text \<open>\<open>ext2_open\<close> fills the one static file object and returns its address, or \<open>NULL\<close> (\<open>False\<close>).\<close>

definition ext2_open :: "bytes \<Rightarrow> ext2_state \<Rightarrow> (bool \<times> ext2_state) option" where
  "ext2_open path st = do {
     c \<leftarrow> rd path 0;
     if c = 0 then Some (False, st)
     else do {
       r \<leftarrow> ext2_find_inode_by_path path st;
       case r of None \<Rightarrow> Some (False, st)
       | Some ino \<Rightarrow> do {
           img \<leftarrow> ext2_data st;
           last_slash \<leftarrow> strrchr path 47;
           name \<leftarrow> copy_name (ff_name zero_file)
             (case last_slash of None \<Rightarrow> path | Some k \<Rightarrow> drop (k + 1) path);
           sz \<leftarrow> i_size img ino;
           mode \<leftarrow> i_mode img ino;
           blocks \<leftarrow> i_blocks img ino;
           Some (True, st\<lparr>ext2_file := zero_file\<lparr>ff_name := name, ff_size := unat sz,
             ff_is_dir := (mode AND EXT2_S_IFDIR \<noteq> 0), ff_data := ptr_of_int (unat blocks),
             ff_capacity := unat sz\<rparr>\<rparr>) } } }"

text \<open>
  The search of \<open>ext2_read\<close> for the first inode with the block count that the file carries in its
  data pointer. The counter is a \<open>uint32_t\<close>, so the loop does not end for a count of \<open>2^32 - 1\<close>.
\<close>

function ext2_find_by_blocks :: "ext2_state \<Rightarrow> bytes \<Rightarrow> nat \<Rightarrow> u32 \<Rightarrow> nat \<Rightarrow> nat option option" where
  "ext2_find_by_blocks st img count want i =
     (if i \<le> count
      then do {
        r \<leftarrow> ext2_read_inode (word_of_nat i) st;
        case r of None \<Rightarrow> ext2_find_by_blocks st img count want (i + 1)
        | Some ino \<Rightarrow> do {
            blocks \<leftarrow> i_blocks img ino;
            if blocks = want then Some (Some ino)
            else ext2_find_by_blocks st img count want (i + 1) } }
      else if count = 2 ^ 32 - 1 then None else Some None)"
  by pat_completeness auto
termination
  by (relation "measure (\<lambda>(st, img, count, want, i). Suc count - i)") auto

declare ext2_find_by_blocks.simps [simp del]

definition ext2_read :: "fs_file \<Rightarrow> nat \<Rightarrow> bytes \<Rightarrow> nat \<Rightarrow> ext2_state \<Rightarrow> (nat \<times> bytes) option" where
  "ext2_read file offset buf len st =
     (if offset \<ge> ff_size file then Some (0, buf)
      else do {
        img \<leftarrow> ext2_data st;
        want \<leftarrow> (case ff_data file of DNull \<Rightarrow> Some 0 | DAddr a \<Rightarrow> Some (word_of_nat a) | DPool _ \<Rightarrow> None);
        count \<leftarrow> sb_inodes_count img;
        r \<leftarrow> ext2_find_by_blocks st img (unat count) want 1;
        case r of None \<Rightarrow> Some (0, buf)
        | Some ino \<Rightarrow> ext2_read_inode_data ino offset buf len st })"

text \<open>
  The entry loop of \<open>ext2_list\<close> over one block of the image; a name of 32 bytes or more does
  not fit the \<open>name\<close> array it is copied into.
\<close>

definition ext2_list_entry ::
  "bytes \<Rightarrow> nat \<Rightarrow> u32 \<Rightarrow> nat \<Rightarrow> ext2_state \<Rightarrow> ext2_state option" where
  "ext2_list_entry img off ino_num name_len st = do {
     r \<leftarrow> ext2_read_inode ino_num st;
     case r of None \<Rightarrow> Some st
     | Some ino \<Rightarrow> do {
         bs \<leftarrow> (if off + 8 + name_len \<le> length img then Some (take name_len (drop (off + 8) img)) else None);
         name \<leftarrow> (if name_len < NAME_SIZE then Some (bs @ replicate (NAME_SIZE - name_len) 0) else None);
         sz \<leftarrow> i_size img ino;
         mode \<leftarrow> i_mode img ino;
         blocks \<leftarrow> i_blocks img ino;
         cache \<leftarrow> wr (file_cache st) (file_cache_count st)
           (zero_file\<lparr>ff_name := name, ff_size := unat sz, ff_is_dir := (mode AND EXT2_S_IFDIR \<noteq> 0),
              ff_data := ptr_of_int (unat blocks), ff_capacity := unat sz\<rparr>);
         Some (st\<lparr>file_cache := cache, file_cache_count := file_cache_count st + 1\<rparr>) } }"

function ext2_list_block :: "bytes \<Rightarrow> nat \<Rightarrow> nat \<Rightarrow> nat \<Rightarrow> ext2_state \<Rightarrow> ext2_state option" where
  "ext2_list_block img block_data bs offset st =
     (if offset < bs \<and> file_cache_count st < FS_MAX_FILES
      then do {
        let off = block_data + offset;
        ino_num \<leftarrow> de_inode img off;
        if ino_num = 0 then Some st
        else do {
          rec_len \<leftarrow> de_rec_len img off;
          if rec_len = 0 then Some st
          else do {
            name_len \<leftarrow> de_name_len img off;
            dot \<leftarrow> (if name_len = 1 \<or> name_len = 2
                   then do { c \<leftarrow> rd img (off + 8); Some (c = 46) } else Some False);
            dots \<leftarrow> (if name_len = 2 \<and> dot
                    then do { c \<leftarrow> rd img (off + 9); Some (c = 46) } else Some (name_len = 1 \<and> dot));
            st' \<leftarrow> (if dots then Some st
                   else ext2_list_entry img off ino_num (unat name_len) st);
            ext2_list_block img block_data bs (offset + unat rec_len) st' } } }
      else Some st)"
  by pat_completeness auto
termination
  by (relation "measure (\<lambda>(img, bd, bs, offset, st). bs - offset)")
    (auto simp: unat_gt_0 intro!: diff_less_mono2)

declare ext2_list_block.simps [simp del]

fun ext2_list_blocks :: "bytes \<Rightarrow> nat \<Rightarrow> nat list \<Rightarrow> ext2_state \<Rightarrow> ext2_state option" where
  "ext2_list_blocks img ino [] st = Some st"
| "ext2_list_blocks img ino (i # is) st =
     (if file_cache_count st < FS_MAX_FILES
      then do {
        blk \<leftarrow> i_block img ino i;
        if blk = 0 then ext2_list_blocks img ino is st
        else do {
          r \<leftarrow> ext2_read_block blk st;
          st' \<leftarrow> (case r of None \<Rightarrow> Some st
                 | Some block_data \<Rightarrow> ext2_list_block img block_data (unat (block_size st)) 0 st);
          ext2_list_blocks img ino is st' } }
      else Some st)"

text \<open>
  The result of \<open>ext2_list\<close> is the count it stores, and whether it returns the cache or \<open>NULL\<close>.
\<close>

definition ext2_list :: "bytes option \<Rightarrow> ext2_state \<Rightarrow> (nat \<times> bool \<times> ext2_state) option" where
  "ext2_list path0 st = do {
     let path = (case path0 of None \<Rightarrow> ext2_current_dir st | Some p \<Rightarrow> p);
     r \<leftarrow> ext2_find_inode_by_path path st;
     case r of None \<Rightarrow> Some (0, False, st)
     | Some dir_inode \<Rightarrow> do {
         img \<leftarrow> ext2_data st;
         mode \<leftarrow> i_mode img dir_inode;
         if mode AND EXT2_S_IFDIR = 0 then Some (0, False, st)
         else do {
           st' \<leftarrow> ext2_list_blocks img dir_inode [0..<12] (st\<lparr>file_cache_count := 0\<rparr>);
           Some (file_cache_count st', True, st') } } }"

definition ext2_change_dir :: "bytes \<Rightarrow> ext2_state \<Rightarrow> (bool \<times> ext2_state) option" where
  "ext2_change_dir path st = do {
     c \<leftarrow> rd path 0;
     if c = 0 then Some (False, st)
     else do {
       r \<leftarrow> ext2_find_inode_by_path path st;
       case r of None \<Rightarrow> Some (False, st)
       | Some ino \<Rightarrow> do {
           img \<leftarrow> ext2_data st;
           mode \<leftarrow> i_mode img ino;
           if mode AND EXT2_S_IFDIR = 0 then Some (False, st)
           else do {
             dir \<leftarrow> (if c = 47 then strncpy (ext2_current_dir st) path (FS_MAX_PATH - 1)
                    else do {
                      current_len \<leftarrow> strlen (ext2_current_dir st);
                      last \<leftarrow> rd (ext2_current_dir st) (current_len - 1);
                      (d1, n) \<leftarrow> (if last \<noteq> 47
                        then do { d \<leftarrow> strncat (ext2_current_dir st) (lit ''/'')
                                        (size_sub (FS_MAX_PATH - current_len) 1);
                                  Some (d, current_len + 1) }
                        else Some (ext2_current_dir st, current_len));
                      strncat d1 path (size_sub (size_sub FS_MAX_PATH n) 1) });
             dir' \<leftarrow> wr dir (FS_MAX_PATH - 1) 0;
             Some (True, st\<lparr>ext2_current_dir := dir'\<rparr>) } } } }"

section \<open>Reading the content of a file\<close>

text \<open>Block \<open>i\<close> of the file at inode \<open>ino\<close>, when its pointer is valid.\<close>

definition direct_block :: "ext2_state \<Rightarrow> bytes \<Rightarrow> nat \<Rightarrow> nat \<Rightarrow> bytes option" where
  "direct_block st img ino i = do {
     blk \<leftarrow> i_block img ino i;
     r \<leftarrow> ext2_read_block blk st;
     case r of None \<Rightarrow> None | Some off \<Rightarrow> Some (take (unat (block_size st)) (drop off img)) }"

lemma ext2_read_block_bounds:
  assumes "ext2_read_block blk st = Some (Some off)" and "ext2_data st = Some img"
  shows "off + unat (block_size st) \<le> length img" and "block_size st \<noteq> 0"
  using assms by (auto simp: ext2_read_block_def Let_def split: if_splits Option.bind_splits)

lemma direct_blockE:
  assumes "direct_block st img ino i = Some b" and "ext2_data st = Some img"
  obtains blk off where "i_block img ino i = Some blk" and "ext2_read_block blk st = Some (Some off)"
    and "b = take (unat (block_size st)) (drop off img)" and "length b = unat (block_size st)"
    and "off + unat (block_size st) \<le> length img"
proof -
  obtain blk off where "i_block img ino i = Some blk" "ext2_read_block blk st = Some (Some off)"
    "b = take (unat (block_size st)) (drop off img)"
    using assms(1) by (auto simp: direct_block_def split: option.splits Option.bind_splits)
  moreover from ext2_read_block_bounds(1) [OF this(2) assms(2)] calculation(3)
  have "off + unat (block_size st) \<le> length img" "length b = unat (block_size st)" by auto
  ultimately show ?thesis using that by blast
qed

text \<open>The content of a file that fits its twelve direct blocks.\<close>

definition blocks_content :: "(nat \<Rightarrow> bytes) \<Rightarrow> nat \<Rightarrow> bytes" where
  "blocks_content B n = concat (map B [0..<n])"

lemma length_blocks: "(\<And>i. i < n \<Longrightarrow> length (B i) = bs) \<Longrightarrow> length (blocks_content B n) = n * bs"
  unfolding blocks_content_def by (induction n) simp_all

lemma slice_of_block:
  assumes len: "\<And>i. i < n \<Longrightarrow> length (B i) = bs" and i: "i < n"
    and a: "i * bs \<le> a" "a + k \<le> i * bs + bs"
  shows "take k (drop (a - i * bs) (B i)) = take k (drop a (blocks_content B n))"
proof -
  have "[0..<n] = [0..<i] @ i # [Suc i..<n]"
    using i upt_add_eq_append [of 0 i "n - i"] upt_conv_Cons [of i n] by simp
  then have "blocks_content B n = blocks_content B i @ B i @ concat (map B [Suc i..<n])"
    by (simp add: blocks_content_def)
  moreover have "length (blocks_content B i) = i * bs" using len i by (intro length_blocks) simp
  ultimately have "drop a (blocks_content B n) = drop (a - i * bs) (B i @ concat (map B [Suc i..<n]))"
    using a(1) by simp
  moreover have "(a - i * bs) + k \<le> length (B i)" using a len [OF i] by simp
  ultimately show ?thesis by simp
qed

text \<open>The stretch of the file that iteration \<open>i\<close> copies, in the closed form of the branches.\<close>

lemma read_stretch:
  fixes bs :: nat
  assumes bs: "0 < bs" "bs < 2 ^ 64" and len: "0 < len" and e64: "offset + len < 2 ^ 64"
    and s: "s = offset div bs" and t: "t = (offset + len - 1) div bs" and i: "s \<le> i" "i \<le> t"
    and br: "br = max (i * bs) offset - offset"
  shows "(if size_add br (if i = t \<and> size_add offset len mod bs > 0
        then size_sub (size_add offset len mod bs) (if i = s then offset mod bs else 0)
        else (if i = s then size_sub bs (offset mod bs) else bs)) > len
      then size_sub len br
      else (if i = t \<and> size_add offset len mod bs > 0
        then size_sub (size_add offset len mod bs) (if i = s then offset mod bs else 0)
        else (if i = s then size_sub bs (offset mod bs) else bs)))
     = min (i * bs + bs) (offset + len) - max (i * bs) offset"
    and "br < len" and "offset < i * bs + bs" and "i * bs < offset + len" and "i = s \<longleftrightarrow> i * bs \<le> offset"
    and "i = t \<longleftrightarrow> offset + len \<le> i * bs + bs"
proof -
  have off: "offset = s * bs + offset mod bs" "offset mod bs < bs" using bs s by simp_all
  have e: "offset + len - 1 = t * bs + (offset + len - 1) mod bs" "(offset + len - 1) mod bs < bs"
    using bs t by simp_all
  have t1: "t * bs < offset + len" "offset + len \<le> t * bs + bs" using e len by linarith+
  have mono: "a < b \<Longrightarrow> a * bs + bs \<le> b * bs" for a b :: nat
    using mult_le_mono1 [of "Suc a" b bs] by simp
  have offb: "s * bs \<le> offset" "offset < s * bs + bs" "offset mod bs = offset - s * bs"
    using off by linarith+
  have iscase: "i = s \<or> s * bs + bs \<le> i * bs" using i(1) mono [of s i] by linarith
  have it: "i = t \<or> i * bs + bs \<le> t * bs" using i(2) mono [of i t] by linarith
  show o1: "offset < i * bs + bs" using iscase offb(2) by (elim disjE) simp_all
  show o2: "i * bs < offset + len" using it t1 bs by (elim disjE) auto
  show o3: "i = s \<longleftrightarrow> i * bs \<le> offset" using iscase offb bs by (elim disjE) auto
  show o4: "i = t \<longleftrightarrow> offset + len \<le> i * bs + bs" using it t1 bs by (elim disjE) auto
  show "br < len" using br o2 len by linarith
  have emod: "(offset + len) mod bs = (if offset + len = t * bs + bs then 0 else offset + len - t * bs)"
  proof (cases "offset + len = t * bs + bs")
    case True
    then show ?thesis by simp
  next
    case False
    then have "offset + len - t * bs < bs" using t1 by linarith
    moreover have "offset + len = t * bs + (offset + len - t * bs)" using t1 by linarith
    ultimately have "(offset + len) mod bs = offset + len - t * bs"
      by (metis mod_less mod_mult_self3)
    with False show ?thesis by simp
  qed
  have sa: "size_add offset len = offset + len" using e64 by simp
  let ?T = "if i = t \<and> size_add offset len mod bs > 0
        then size_sub (size_add offset len mod bs) (if i = s then offset mod bs else 0)
        else (if i = s then size_sub bs (offset mod bs) else bs)"
  let ?R = "min (i * bs + bs) (offset + len) - max (i * bs) offset"
  have first: "size_sub bs (offset mod bs) = i * bs + bs - offset" if "i = s"
    using that offb bs by simp
  have last: "size_sub (size_add offset len mod bs) (if i = s then offset mod bs else 0)
      = offset + len - max (i * bs) offset" if "i = t" "offset + len \<noteq> t * bs + bs"
  proof -
    have m: "(offset + len) mod bs = offset + len - i * bs" using that emod by simp
    show ?thesis
    proof (cases "i = s")
      case True
      with offb m len e64 show ?thesis unfolding sa m by simp
    next
      case False
      with o3 m e64 show ?thesis unfolding sa m by simp
    qed
  qed
  have full: "offset + len = t * bs + bs \<Longrightarrow> size_add offset len mod bs = 0"
    and part: "offset + len \<noteq> t * bs + bs \<Longrightarrow> 0 < size_add offset len mod bs"
    unfolding sa emod using t1 by auto
  have T: "?T = ?R"
  proof (cases "i = t \<and> offset + len \<noteq> t * bs + bs")
    case True
    then have "?T = offset + len - max (i * bs) offset" using last part by simp
    moreover have "min (i * bs + bs) (offset + len) = offset + len" using o4 True by simp
    ultimately show ?thesis by simp
  next
    case False
    then have "?T = (if i = s then i * bs + bs - offset else bs)" using full first by auto
    moreover have "min (i * bs + bs) (offset + len) = i * bs + bs" using False o4 by auto
    ultimately show ?thesis using o3 by (auto simp: max_def)
  qed
  have le: "br + ?R \<le> len" using br o1 o2 by (auto simp: max_def min_def)
  then have "size_add br ?R = br + ?R" using e64 by simp
  with le show "(if size_add br ?T > len then size_sub len br else ?T) = ?R"
    unfolding T by simp
qed

text \<open>The twelve direct blocks as one byte string; a hole or a bad pointer counts as zeros.\<close>

definition block_or_zeros :: "ext2_state \<Rightarrow> bytes \<Rightarrow> nat \<Rightarrow> nat \<Rightarrow> bytes" where
  "block_or_zeros st img ino i =
     (case direct_block st img ino i of None \<Rightarrow> replicate (unat (block_size st)) 0 | Some b \<Rightarrow> b)"

definition direct_content :: "ext2_state \<Rightarrow> bytes \<Rightarrow> nat \<Rightarrow> bytes" where
  "direct_content st img ino = blocks_content (block_or_zeros st img ino) 12"

lemma length_block_or_zeros:
  "ext2_data st = Some img \<Longrightarrow> length (block_or_zeros st img ino i) = unat (block_size st)"
  by (auto simp: block_or_zeros_def split: option.splits elim: direct_blockE)

lemma buffer_append:
  assumes "br + k \<le> length buf0" and "br + k \<le> length (drop offset D)"
  shows "take br (take br (drop offset D) @ drop br buf0) @ take k (drop (offset + br) D) @
     drop (br + k) (take br (drop offset D) @ drop br buf0)
     = take (br + k) (drop offset D) @ drop (br + k) buf0"
  using assms by (simp add: take_add add.commute)

lemma take_drop_window: "d + k \<le> n \<Longrightarrow> take k (drop (a + d) xs) = take k (drop d (take n (drop a xs)))"
  by (simp add: drop_take add.commute min_def)

lemma unat32_less: "unat (w :: u32) < 2 ^ 32"
  using unsigned_less [of w] by simp

lemma ext2_read_blocks_correct:
  fixes offset len :: nat
  assumes img: "ext2_data st = Some img" and bs: "bs = unat (block_size st)" "0 < bs"
    and len: "0 < len" "offset + len < 2 ^ 64" "len \<le> length buf0"
    and s: "s = offset div bs" and t: "t = (offset + len - 1) div bs" "t < 12"
    and valid: "\<And>i. s \<le> i \<Longrightarrow> i \<le> t \<Longrightarrow> direct_block st img ino i \<noteq> None"
  shows "s \<le> i \<Longrightarrow> i \<le> t \<Longrightarrow> br = max (i * bs) offset - offset \<Longrightarrow>
    buf = take br (drop offset (direct_content st img ino)) @ drop br buf0 \<Longrightarrow>
    ext2_read_blocks st img ino offset len s t i br buf
      = Some (len, take len (drop offset (direct_content st img ino)) @ drop len buf0)"
proof (induction "t - i" arbitrary: i br buf rule: less_induct)
  case less
  let ?D = "direct_content st img ino" and ?B = "block_or_zeros st img ino"
  let ?m = "max (i * bs) offset"
  let ?k = "min (i * bs + bs) (offset + len) - ?m"
  let ?buf = "take (br + ?k) (drop offset ?D) @ drop (br + ?k) buf0"
  note i = less.prems(1,2) and br = less.prems(3) and buf = less.prems(4)
  have bs64: "bs < 2 ^ 64" using unat32_less [of "block_size st"] bs(1) by simp
  note stretch = read_stretch [OF bs(2) bs64 len(1,2) s t(1) i br]
  have lenB: "length (?B j) = bs" for j using length_block_or_zeros [OF img] bs(1) by simp
  then have lenD: "length ?D = 12 * bs" unfolding direct_content_def by (intro length_blocks)
  obtain b where b: "direct_block st img ino i = Some b" using valid [OF i] by blast
  from direct_blockE [OF b img] obtain blk off where blk: "i_block img ino i = Some blk"
    "ext2_read_block blk st = Some (Some off)" "b = take bs (drop off img)" "off + bs \<le> length img"
    unfolding bs(1) by metis
  have Bi: "?B i = take bs (drop off img)" using b blk(3) by (simp add: block_or_zeros_def)
  have mb: "i * bs \<le> ?m" "?m + ?k \<le> i * bs + bs" and mo: "offset + br = ?m"
    using stretch(3,4) br by auto
  have i12: "i < 12" using i t(2) by simp
  have data: "take ?k (drop (off + (?m - i * bs)) img) = take ?k (drop (offset + br) ?D)"
  proof -
    have "?m - i * bs + ?k \<le> bs" using mb by linarith
    then have "take ?k (drop (off + (?m - i * bs)) img) = take ?k (drop (?m - i * bs) (?B i))"
      unfolding Bi by (rule take_drop_window)
    also have "\<dots> = take ?k (drop ?m ?D)"
      unfolding direct_content_def by (rule slice_of_block [OF lenB i12 mb])
    finally show ?thesis by (simp only: mo)
  qed
  have ptr: "(if i = s then off + offset mod bs else off) = off + (?m - i * bs)"
  proof (cases "i = s")
    case True
    then have "offset mod bs = offset - i * bs" using s by (simp add: minus_div_mult_eq_mod)
    moreover have "?m = offset" using True stretch(5) by simp
    ultimately show ?thesis using True by simp
  next
    case False
    then have "?m = i * bs" using stretch(5) by simp
    with False show ?thesis by simp
  qed
  have brk: "br + ?k = min (i * bs + bs) (offset + len) - offset" using br stretch(3,4) len(1) by auto
  have brk_len: "br + ?k \<le> len" unfolding brk by simp
  have in12: "offset + len \<le> 12 * bs"
  proof -
    have "offset + len - 1 < t * bs + bs" using t(1) bs(2) dividend_less_div_times [of bs "offset + len - 1"] by simp
    moreover have "t * bs + bs \<le> 12 * bs" using mult_le_mono1 [of "Suc t" 12 bs] t(2) by simp
    ultimately show ?thesis by linarith
  qed
  have buf': "take br buf @ take ?k (drop (off + (?m - i * bs)) img) @ drop (br + ?k) buf = ?buf"
    unfolding buf data
    by (rule buffer_append) (use brk_len len(3) lenD in12 in auto)
  have lbuf: "length buf = length buf0"
    unfolding buf using stretch(2) len(3) lenD in12 by simp
  have fits: "off + (?m - i * bs) + ?k \<le> length img \<and> br + ?k \<le> length buf"
    using mb blk(4) brk_len len(3) lbuf by linarith
  have guard: "i \<le> t \<and> i < 12" using i i12 by simp
  have step: "ext2_read_blocks st img ino offset len s t i br buf =
      (if br + ?k \<ge> len then Some (br + ?k, ?buf)
       else ext2_read_blocks st img ino offset len s t (i + 1) (br + ?k) ?buf)"
    apply (subst ext2_read_blocks.simps)
    apply (simp only: guard if_True blk(1,2) Option.bind.bind_lunit option.case Let_def
        bs(1) [symmetric] stretch(1) ptr)
    apply (simp only: fits if_True buf' Option.bind.bind_lunit simp_thms)
    done
  show ?case
  proof (cases "br + ?k \<ge> len")
    case True
    with brk_len have "br + ?k = len" by simp
    with step True show ?thesis by simp
  next
    case False
    then have nt: "i * bs + bs < offset + len" unfolding brk by auto
    then have "i \<noteq> t" using stretch(6) by simp
    then have it: "i + 1 \<le> t" "t - (i + 1) < t - i" using i by simp_all
    have "br + ?k = max ((i + 1) * bs) offset - offset" unfolding brk using nt stretch(3) by simp
    from less.hyps [OF it(2) _ it(1) this refl] i(1) step False show ?thesis by simp
  qed
qed

text \<open>\<open>ext2_read_inode_data\<close> on a file whose blocks are direct.\<close>

lemma ext2_read_inode_data_eq:
  assumes img: "ext2_data st = Some img" and bs: "0 < unat (block_size st)"
    and sz: "i_size img ino = Some sz" "unat sz \<le> 12 * unat (block_size st)"
    and len: "0 < len" "offset + len < 2 ^ 64" "len \<le> length buf"
    and valid: "\<And>i. i * unat (block_size st) < unat sz \<Longrightarrow> direct_block st img ino i \<noteq> None"
  shows "ext2_read_inode_data ino offset buf len st = Some
    (let data = take len (drop offset (take (unat sz) (direct_content st img ino)))
     in (length data, data @ drop (length data) buf))"
proof (cases "unat sz \<le> offset")
  case True
  then show ?thesis using img sz by (simp add: ext2_read_inode_data_def)
next
  case False
  let ?bs = "unat (block_size st)" and ?D = "direct_content st img ino"
  let ?len = "min len (unat sz - offset)"
  let ?s = "offset div ?bs" and ?t = "(offset + ?len - 1) div ?bs"
  have sz32: "unat sz < 2 ^ 32" by (rule unat32_less)
  have len1: "(if size_add offset len > unat sz then unat sz - offset else len) = ?len"
    using len(2) False by auto
  have pos: "0 < ?len" "offset + ?len \<le> unat sz" using len(1) False by auto
  have e64: "offset + ?len < 2 ^ 64" using pos(2) sz32 by simp
  have s32: "?s mod 2 ^ 32 = ?s"
    using False sz32 div_le_dividend [of offset ?bs] by (intro mod_less) linarith
  have t32: "size_sub (size_add offset ?len) 1 div ?bs mod 2 ^ 32 = ?t"
  proof -
    have "size_sub (size_add offset ?len) 1 = offset + ?len - 1"
      unfolding size_add_small [OF e64] by (rule size_sub_small) (use pos e64 in linarith)+
    moreover have "?t < 2 ^ 32" using pos sz32 div_le_dividend [of "offset + ?len - 1" ?bs] by linarith
    ultimately show ?thesis by simp
  qed
  have st: "?s \<le> ?t" by (rule div_le_mono) (use pos(1) in linarith)
  have in_file: "i * ?bs < unat sz" if "i \<le> ?t" for i
  proof -
    have "i * ?bs \<le> ?t * ?bs" using that by (rule mult_le_mono1)
    also have "\<dots> \<le> offset + ?len - 1" by simp
    finally show ?thesis using pos by linarith
  qed
  have t12: "?t < 12"
  proof (rule ccontr)
    assume "\<not> ?t < 12"
    then have "12 \<le> ?t" by simp
    from in_file [OF this] sz(2) show False by simp
  qed
  have br: "0 = max (?s * ?bs) offset - offset" by simp
  have lb: "?len \<le> length buf" using len(3) by simp
  have v: "direct_block st img ino i \<noteq> None" if "?s \<le> i" "i \<le> ?t" for i
    using valid in_file that by blast
  have "ext2_read_blocks st img ino offset ?len ?s ?t ?s 0 buf = Some (?len, take ?len (drop offset ?D) @ drop ?len buf)"
    using ext2_read_blocks_correct [OF img refl bs pos(1) e64 lb refl refl t12 v order.refl st br] by simp
  moreover have "ext2_read_inode_data ino offset buf len st
      = ext2_read_blocks st img ino offset ?len ?s ?t ?s 0 buf"
    using False bs img sz(1)
    by (simp only: ext2_read_inode_data_def option.case Option.bind.bind_lunit Let_def len1 s32 t32 if_False
        unsigned_eq_0_iff not_gr_zero not_less simp_thms) auto
  moreover have "take len (drop offset (take (unat sz) ?D)) = take ?len (drop offset ?D)"
    by (simp add: drop_take min.commute)
  moreover have "length (take ?len (drop offset ?D)) = ?len"
  proof -
    have "length ?D = 12 * ?bs"
      unfolding direct_content_def by (intro length_blocks length_block_or_zeros img)
    then show ?thesis using pos(2) sz(2) by simp
  qed
  ultimately show ?thesis by (simp add: Let_def)
qed

section \<open>Path resolution\<close>

text \<open>The components of a path: its maximal runs of bytes other than the slash.\<close>

function components :: "bytes \<Rightarrow> bytes list" where
  "components s =
     (if s = [] then []
      else if hd s = 47 then components (tl s)
      else takeWhile (\<lambda>b. b \<noteq> 47) s # components (dropWhile (\<lambda>b. b \<noteq> 47) s))"
  by pat_completeness auto
termination
proof (relation "measure length")
  fix s :: bytes
  assume "s \<noteq> []" and "hd s \<noteq> 47"
  then show "(dropWhile (\<lambda>b. b \<noteq> 47) s, s) \<in> measure length"
    by (cases s) (auto simp: less_Suc_eq_le length_dropWhile_le)
qed auto

declare components.simps [simp del]

lemma components_Nil [simp]: "components [] = []"
  and components_slash [simp]: "components (47 # t) = components t"
  by (subst components.simps; simp)+

lemma word_split:
  assumes "47 \<notin> set w"
  shows "takeWhile (\<lambda>b. b \<noteq> 47) (w @ 47 # t) = w" "dropWhile (\<lambda>b. b \<noteq> 47) (w @ 47 # t) = 47 # t"
  using assms by (induction w) auto

lemma word_alone:
  assumes "47 \<notin> set w"
  shows "takeWhile (\<lambda>b. b \<noteq> 47) w = w" "dropWhile (\<lambda>b. b \<noteq> 47) w = ([] :: bytes)"
  using assms by (induction w) auto

lemma hd_word: "w \<noteq> [] \<Longrightarrow> 47 \<notin> set w \<Longrightarrow> hd w \<noteq> (47 :: u8)"
  by (cases w) auto

lemma components_word:
  assumes "s \<noteq> []" and "47 \<notin> set s"
  shows "components s = [s]"
  by (subst components.simps) (simp add: assms hd_word word_alone)

lemma components_step:
  assumes "w \<noteq> []" and "47 \<notin> set w"
  shows "components (w @ 47 # t) = w # components t"
  by (subst components.simps) (simp add: assms hd_word word_split)

text \<open>The specification of the walk: one directory lookup per component.\<close>

fun resolve :: "ext2_state \<Rightarrow> bytes \<Rightarrow> nat \<Rightarrow> bytes list \<Rightarrow> nat option option" where
  "resolve st img cur [] = Some (Some cur)"
| "resolve st img cur (c # cs) = do {
     mode \<leftarrow> i_mode img cur;
     if mode AND EXT2_S_IFDIR = 0 then Some None
     else do {
       hit \<leftarrow> ext2_dir_lookup st img cur (c @ [0]) [0..<12];
       case hit of None \<Rightarrow> Some None
       | Some n \<Rightarrow> do {
           ino \<leftarrow> ext2_read_inode n st;
           case ino of None \<Rightarrow> Some None | Some cur' \<Rightarrow> resolve st img cur' cs } } }"

lemma strncmp_take:
  "n \<le> length b \<Longrightarrow> n \<le> length b' \<Longrightarrow> take n b = take n b' \<Longrightarrow> strncmp a b n = strncmp a b' n"
proof (induction n arbitrary: a b b')
  case (Suc n)
  obtain y c where b: "b = y # c" using Suc.prems(1) by (cases b) simp_all
  obtain y' c' where b': "b' = y' # c'" using Suc.prems(2) by (cases b') simp_all
  have y: "y' = y" "take n c = take n c'" using Suc.prems(3) unfolding b b' by simp_all
  have "strncmp x c n = strncmp x c' n" for x
    by (rule Suc.IH) (use Suc.prems(1,2) y(2) in \<open>simp_all only: b b' list.size Suc_le_mono add_Suc_right add_0_right\<close>)
  then show ?case unfolding b b' y(1) by (cases a) simp_all
qed simp

text \<open>A lookup depends only on the string the token holds.\<close>

lemma ext2_dir_scan_cstr:
  assumes tok: "terminated token"
  shows "ext2_dir_scan buf token offset = ext2_dir_scan buf (cstr token @ [0]) offset"
proof (induction "length buf - offset" arbitrary: offset rule: less_induct)
  case less
  have cmp: "strncmp s token (length (cstr token)) = strncmp s (cstr token @ [0]) (length (cstr token))" for s
    using length_cstr_less [OF tok] by (intro strncmp_take) (simp_all add: take_length_cstr less_imp_le)
  have l: "strlen (cstr token @ [0]) = Some (length (cstr token))" by (simp add: strlen_eq)
  have cmp2: "(if unat n = length (cstr token)
       then do { r \<leftarrow> strncmp s token (unat n); Some (r = 0) } else Some False)
     = (if unat n = length (cstr token)
       then do { r \<leftarrow> strncmp s (cstr token @ [0]) (unat n); Some (r = 0) } else Some False)"
    for s and n :: u8
    using cmp by simp
  have rec: "ext2_dir_scan buf token (offset + unat rl) = ext2_dir_scan buf (cstr token @ [0]) (offset + unat rl)"
    if "rl \<noteq> 0" "offset < length buf" for rl :: u16
    using less that by (simp add: unat_gt_0 diff_less_mono2)
  show ?case
    unfolding ext2_dir_scan.simps [of buf token offset] ext2_dir_scan.simps [of buf "cstr token @ [0]" offset]
      l strlen_eq [OF tok] Option.bind.bind_lunit cmp2
    by (intro if_cong refl Option.bind_cong rec) auto
qed

lemma ext2_dir_lookup_cstr:
  "terminated token \<Longrightarrow> ext2_dir_lookup st img ino token is = ext2_dir_lookup st img ino (cstr token @ [0]) is"
proof (induction "is")
  case (Cons i "is")
  then show ?case
    by (simp only: ext2_dir_lookup.simps ext2_dir_scan_cstr [OF Cons.prems, of _ 0])
qed simp

text \<open>The first slash splits a string.\<close>

lemma strchr_slash:
  assumes "terminated s"
  shows "strchr s 47 = Some (if 47 \<in> set (cstr s) then Some (length (takeWhile (\<lambda>b. b \<noteq> 47) (cstr s))) else None)"
  using assms by (induction s) (auto simp: cstr_Cons)

lemma slash_split:
  assumes "terminated s" and "47 \<in> set (cstr s)"
  obtains w t where "s = w @ 47 # t" and "47 \<notin> set w" and "0 \<notin> set w" and "terminated t"
    and "takeWhile (\<lambda>b. b \<noteq> 47) (cstr s) = w" and "cstr s = w @ 47 # cstr t"
proof -
  obtain u where u: "s = cstr s @ 0 # u" by (rule cstr_split [OF assms(1)])
  obtain w v where w: "cstr s = w @ 47 # v" "47 \<notin> set w" using split_list_first [OF assms(2)] by blast
  have nz: "0 \<notin> set w" "0 \<notin> set v" using zero_notin_cstr [of s] unfolding w(1) by auto
  have "cstr (v @ 0 # u) = v" using nz(2) by (simp add: cstr_append_left)
  then show ?thesis
    using that [of w "v @ 0 # u"] u w nz word_split(1) [OF w(2), of v] by (metis append.assoc append_Cons in_set_conv_decomp)
qed

text \<open>The loop over the slashes is the fold over the components.\<close>

lemma ext2_walk_resolve:
  "terminated token \<Longrightarrow> ext2_walk st img cur (Some token) = resolve st img cur (components (cstr token))"
proof (induction "length token" arbitrary: token cur rule: less_induct)
  case less
  then have ne: "token \<noteq> []" by auto
  show ?case
  proof (cases "cstr token = []")
    case True
    then have "token ! 0 = 0" using nth_length_cstr [OF less.prems] by simp
    with ne True show ?thesis by simp
  next
    case nonempty: False
    then have c0: "token ! 0 \<noteq> 0" "token ! 0 = hd (cstr token)"
      using ne by (cases token; auto simp: cstr_Cons split: if_splits)+
    show ?thesis
    proof (cases "47 \<in> set (cstr token)")
      case False
      have lookup: "ext2_dir_lookup st img cur token [0..<12]
          = ext2_dir_lookup st img cur (cstr token @ [0]) [0..<12]"
        by (rule ext2_dir_lookup_cstr [OF less.prems])
      have "strchr token 47 = Some None" using strchr_slash [OF less.prems] False by simp
      then show ?thesis
        using ne c0(1) components_word [OF nonempty False]
        by (simp add: lookup del: upt_rec_numeral upt.simps cong: option.case_cong if_cong)
    next
      case True
      obtain w t where s: "token = w @ 47 # t" "47 \<notin> set w" "0 \<notin> set w" "terminated t"
        "takeWhile (\<lambda>b. b \<noteq> 47) (cstr token) = w" "cstr token = w @ 47 # cstr t"
        by (rule slash_split [OF less.prems True])
      have k: "strchr token 47 = Some (Some (length w))" using strchr_slash [OF less.prems] True s(5) by simp
      have tok: "token[length w := 0] = w @ 0 # t" and rest: "drop (Suc (length w)) token = t"
        by (simp_all add: s(1))
      have IH: "ext2_walk st img cur' (Some t) = resolve st img cur' (components (cstr t))" for cur'
        by (rule less.hyps) (use s in simp_all)
      have lookup: "ext2_dir_lookup st img cur (w @ 0 # t) [0..<12] = ext2_dir_lookup st img cur (w @ [0]) [0..<12]"
        using ext2_dir_lookup_cstr [of "w @ 0 # t" st img cur "[0..<12]"] s(3) by (simp add: cstr_append_left)
      show ?thesis
      proof (cases "w = []")
        case True
        then show ?thesis
          using ne c0(1) k s IH by (simp add: k tok del: upt_rec_numeral upt.simps)
      next
        case False
        then have w0: "rd (w @ 0 # t) 0 = Some (hd w)" "hd w \<noteq> 0"
          using s(3) by (cases w; simp)+
        show ?thesis
          using ne c0(1) components_step [OF False s(2)] w0
          by (subst ext2_walk.simps(2)) (simp add: k tok rest s(6) IH lookup Let_def
              del: upt_rec_numeral upt.simps ext2_walk.simps(2) cong: option.case_cong if_cong)
      qed
    qed
  qed
qed

section \<open>Properties\<close>

text \<open>A six-block image for the witnesses: the root directory holds one file \<open>a\<close> with content \<open>hello\<close>.\<close>

definition example_byte :: "nat \<Rightarrow> u8" where
  "example_byte i =
     (if i = 1024 then 16 else if i = 1028 then 6 else if i = 1044 then 1
      else if i = 1064 then 16 else if i = 1080 then 0x53 else if i = 1081 then 0xEF
      else if i = 1112 then 128 else if i = 2056 then 3
      else if i = 3201 then 0x40 else if i = 3240 then 4
      else if i = 3332 then 5 else if i = 3356 then 2 else if i = 3368 then 5
      else if i = 4096 then 3 else if i = 4101 then 4 else if i = 4102 then 1 else if i = 4104 then 97
      else if i = 5120 then 104 else if i = 5121 then 101 else if i = 5122 then 108
      else if i = 5123 then 108 else if i = 5124 then 111 else 0)"

definition example_image :: bytes where
  "example_image = map example_byte [0..<6144]"

definition example_ext2 :: ext2_state where
  "example_ext2 = ext2_boot\<lparr>ext2_data := Some example_image, block_size := 1024\<rparr>"

lemma length_example_image: "length example_image = 6144"
  by (simp add: example_image_def)

lemma rd_example: "rd example_image i = (if i < 6144 then Some (example_byte i) else None)"
  by (simp add: example_image_def rd_def del: upt_rec_numeral)

lemma rd_example_window:
  "rd (take n (drop k example_image)) i = (if i < n \<and> k + i < 6144 then Some (example_byte (k + i)) else None)"
  by (auto simp: example_image_def rd_def simp del: upt_rec_numeral)

lemmas example_fields = rd_le32_def rd_le16_def rd_example example_byte_def

lemma example_superblock:
  "sb_inodes_count example_image = Some 16" "sb_blocks_count example_image = Some 6"
  "sb_first_data_block example_image = Some 1" "sb_log_block_size example_image = Some 0"
  "sb_inodes_per_group example_image = Some 16" "sb_magic example_image = Some EXT2_SUPER_MAGIC"
  "sb_inode_size example_image = Some 128"
  by (simp_all add: sb_inodes_count_def sb_blocks_count_def sb_first_data_block_def
      sb_log_block_size_def sb_inodes_per_group_def sb_magic_def sb_inode_size_def example_fields
      EXT2_SUPER_MAGIC_def)

lemma example_inodes:
  "bg_inode_table example_image 2048 = Some 3" "i_mode example_image 3200 = Some EXT2_S_IFDIR"
  "i_block example_image 3200 0 = Some 4" "i_size example_image 3328 = Some 5"
  "i_block example_image 3328 0 = Some 5"
  by (simp_all add: bg_inode_table_def i_mode_def i_block_def i_size_def example_fields EXT2_S_IFDIR_def)

lemma example_ext2_mounted: "ext2_init example_image ext2_boot = Some (True, example_ext2)"
proof -
  have "strcpy (ext2_current_dir ext2_boot) (lit ''/'') = Some (ext2_current_dir ext2_boot)"
    using replicate_Suc [of 126 "0 :: u8"] by (simp add: ext2_boot_def lit_def FS_MAX_PATH_def)
  then show ?thesis
    by (simp add: ext2_init_def ext2_detect_def length_example_image SIZEOF_SUPERBLOCK_def
        example_superblock example_ext2_def)
qed

lemma example_read:
  "ext2_read_inode 2 example_ext2 = Some (Some 3200)" "ext2_read_inode 3 example_ext2 = Some (Some 3328)"
  "ext2_read_block 4 example_ext2 = Some (Some 4096)" "ext2_read_block 5 example_ext2 = Some (Some 5120)"
  by (simp_all add: ext2_read_inode_def ext2_read_block_def example_ext2_def example_superblock
      SIZEOF_GROUP_DESC_def length_example_image example_inodes Let_def)

text \<open>
  C22 \<open>ext2_read_inode_data\<close> on a file that fits its twelve direct blocks, with valid pointers up
  to its size, stores the bytes of the file from \<open>offset\<close> on, as many as were asked for or are
  left, and returns their number; the rest of the buffer is untouched. In particular the branches
  that trim the first and the last block agree with the plain slice of the concatenated blocks.
\<close>

theorem ext2_read_inode_data_correct:
  assumes "ext2_data st = Some img" and "0 < unat (block_size st)"
    and "i_size img ino = Some sz" and "unat sz \<le> 12 * unat (block_size st)"
    and "0 < len" and "offset + len < 2 ^ 64" and "len \<le> length buf"
    and "\<And>i. i * unat (block_size st) < unat sz \<Longrightarrow> direct_block st img ino i \<noteq> None"
  shows "ext2_read_inode_data ino offset buf len st = Some
    (let data = take len (drop offset (take (unat sz) (direct_content st img ino)))
     in (length data, data @ drop (length data) buf))"
  by (rule ext2_read_inode_data_eq [OF assms])

lemma example_content: "take 5 (direct_content example_ext2 example_image 3328) = [104, 101, 108, 108, 111]"
proof -
  have b: "direct_block example_ext2 example_image 3328 0 = Some (take 1024 (drop 5120 example_image))"
    by (simp add: direct_block_def example_inodes example_read) (simp add: example_ext2_def)
  have "direct_content example_ext2 example_image 3328 =
      take 1024 (drop 5120 example_image) @
      concat (map (block_or_zeros example_ext2 example_image 3328) [1..<12])"
    unfolding direct_content_def blocks_content_def
    by (subst upt_conv_Cons) (simp_all add: block_or_zeros_def b del: upt_rec_numeral)
  then have "take 5 (direct_content example_ext2 example_image 3328) = take 5 (drop 5120 example_image)"
    by (simp add: length_example_image min_def)
  also have "\<dots> = map example_byte [5120..<5125]"
    by (simp add: example_image_def take_map drop_map del: upt_rec_numeral)
  also have "\<dots> = [104, 101, 108, 108, 111]" by (simp add: example_byte_def)
  finally show ?thesis .
qed

theorem ext2_read_inode_data_correct_witness:
  "ext2_read_inode_data 3328 1 [9, 9, 9, 9, 9, 9] 6 example_ext2 = Some (4, [101, 108, 108, 111, 9, 9])"
proof -
  have bs: "unat (block_size example_ext2) = 1024" by (simp add: example_ext2_def)
  have v: "direct_block example_ext2 example_image 3328 i \<noteq> None" if "i * unat (block_size example_ext2) < unat (5 :: u32)" for i
  proof -
    have "i = 0" using that by (simp add: bs)
    then show ?thesis by (simp add: direct_block_def example_inodes example_read)
  qed
  have "ext2_read_inode_data 3328 1 [9, 9, 9, 9, 9, 9] 6 example_ext2 = Some
    (let data = take 6 (drop 1 (take (unat (5 :: u32)) (direct_content example_ext2 example_image 3328)))
     in (length data, data @ drop (length data) [9, 9, 9, 9, 9, 9]))"
    by (rule ext2_read_inode_data_correct [OF _ _ example_inodes(4)])
      (use v bs in \<open>simp_all add: example_ext2_def\<close>)
  then show ?thesis by (simp add: example_content)
qed

text \<open>
  C23 \<open>ext2_find_inode_by_path\<close> resolves a path component by component from the root: the
  in-place tokeniser with its copy of at most 127 bytes, doubled and trailing slashes included, is
  the fold of the directory lookup over the components of the path.
\<close>

theorem ext2_find_inode_resolves:
  assumes "terminated path" and "cstr path \<noteq> []" and "ext2_data st = Some img"
  shows "ext2_find_inode_by_path path st = do {
     root \<leftarrow> ext2_read_inode 2 st;
     case root of None \<Rightarrow> Some None
     | Some r \<Rightarrow> resolve st img r (components (take 127 (cstr path))) }"
proof -
  have c: "rd path 0 = Some (path ! 0)" "path ! 0 \<noteq> 0"
    using assms(1,2) by (cases path; auto simp: cstr_Cons split: if_splits)+
  have sl: "terminated (lit ''/'')" "cstr (lit ''/'') = [47]" by (simp_all add: lit_def cstr_Cons)
  obtain pc where pc: "copy_name (replicate FS_MAX_PATH 0) path = Some pc"
    "cstr pc = take (length (replicate FS_MAX_PATH (0 :: u8)) - 1) (cstr path)" "terminated pc"
    using copy_name_eq [OF assms(1), of "replicate FS_MAX_PATH 0"] by (auto simp: FS_MAX_PATH_def)
  have pc': "cstr pc = take 127 (cstr path)" using pc(2) by (simp add: FS_MAX_PATH_def)
  then have ne: "cstr pc \<noteq> []" using assms(2) by simp
  have hd: "pc = pc ! 0 # drop 1 pc" "pc ! 0 \<noteq> 0"
    using ne by (cases pc; auto simp: cstr_Cons split: if_splits)+
  have walk: "ext2_walk st img r (Some (if pc ! 0 = 47 then drop 1 pc else pc))
      = resolve st img r (components (cstr pc))" for r
  proof (cases "pc ! 0 = 47")
    case True
    have "cstr pc = 47 # cstr (drop 1 pc)" using hd True by (metis cstr_Cons_nz)
    moreover have "terminated (drop 1 pc)" using pc(3) hd by (metis set_ConsD)
    ultimately show ?thesis using True ext2_walk_resolve [of "drop 1 pc"] by simp
  next
    case False
    then show ?thesis using ext2_walk_resolve [OF pc(3)] by simp
  qed
  have root: "cstr path = [47] \<Longrightarrow> resolve st img r (components (cstr pc)) = Some (Some r)" for r
    unfolding pc' by simp
  show ?thesis
    unfolding ext2_find_inode_by_path_def c(1) Option.bind.bind_lunit
      strcmp_bind [OF assms(1) sl(1)] sl(2) pc(1) assms(3) walk if_not_P [OF c(2)]
    using root by (auto simp: pc' split: Option.bind_split option.split)
qed

theorem ext2_find_inode_resolves_witness:
  "ext2_find_inode_by_path (lit ''//a/'') example_ext2 = Some (Some 3328)"
proof -
  have p: "terminated (lit ''//a/'')" "cstr (lit ''//a/'') = [47, 47, 97, 47]"
    by (simp_all add: lit_def cstr_Cons)
  have d: "ext2_data example_ext2 = Some example_image" "unat (block_size example_ext2) = 1024"
    by (simp_all add: example_ext2_def)
  have comp: "components [97, 47] = [[97 :: u8]]"
    using components_step [of "[97]" "[]"] by simp
  have scan: "ext2_dir_scan (take 1024 (drop 4096 example_image)) [97, 0] 0 = Some (Some 3)"
  proof -
    have w: "take 1024 (drop 4096 example_image) \<noteq> []" by (simp add: length_example_image)
    have e: "drop 8 (take 1024 (drop 4096 example_image)) = 97 # drop 9 (take 1024 (drop 4096 example_image))"
    proof -
      have l: "8 < length (take 1024 (drop 4096 example_image))" by (simp add: length_example_image)
      from Cons_nth_drop_Suc [OF l] have "drop 8 (take 1024 (drop 4096 example_image))
          = take 1024 (drop 4096 example_image) ! 8 # drop 9 (take 1024 (drop 4096 example_image))" by simp
      moreover have "take 1024 (drop 4096 example_image) ! 8 = 97"
        by (simp add: example_image_def example_byte_def del: upt_rec_numeral)
      ultimately show ?thesis by simp
    qed
    show ?thesis
      by (subst ext2_dir_scan.simps)
        (simp add: de_inode_def de_rec_len_def de_name_len_def rd_le32_def rd_le16_def
          rd_example_window example_byte_def length_example_image e)
  qed
  have "[0..<12] = 0 # [1..<12]" by (subst upt_conv_Cons) simp_all
  then have "ext2_dir_lookup example_ext2 example_image 3200 [97, 0] [0..<12] = Some (Some 3)"
    using scan by (simp add: example_inodes example_read length_example_image d(2) del: upt_rec_numeral)
  then have "resolve example_ext2 example_image 3200 [[97]] = Some (Some 3328)"
    by (simp add: example_inodes example_read EXT2_S_IFDIR_def del: upt_rec_numeral)
  then show ?thesis
    using ext2_find_inode_resolves [OF p(1) _ d(1)] by (simp add: p(2) comp example_read del: resolve.simps)
qed

end
