(* ===== verification/Fs.thy ===== *)
theory Fs
  imports Initramfs Ext2
begin

text \<open>
  The file system (\<open>kernel/src/src/fs.c\<close>): a table of files whose contents lie in a memory pool
  with a bump allocator, a table of directories, and the switch to the ext2 driver. A
  \<open>struct fs_file *\<close> is a \<open>file_ref\<close>: an index of the table, or the static file of \<open>ext2_open\<close>.
\<close>

section \<open>State\<close>

definition POOL_SIZE :: nat where "POOL_SIZE = 64 * 1024"

datatype file_ref = FsFile nat | Ext2File

record fs_state =
  fs_files :: "fs_file list"
  file_count :: nat
  fs_dirs :: "fs_dir list"
  dir_count :: nat
  current_dir :: bytes
  active_fs :: fs_type_t
  mem_pool :: "nat \<Rightarrow> u8"
  mem_used :: nat
  ext2 :: ext2_state

definition fs_boot :: fs_state where
  "fs_boot = \<lparr>fs_files = replicate FS_MAX_FILES zero_file, file_count = 0,
     fs_dirs = replicate FS_MAX_DIRS zero_dir, dir_count = 0,
     current_dir = replicate FS_MAX_PATH 0, active_fs = FS_TYPE_INITRAMFS,
     mem_pool = (\<lambda>_. 0), mem_used = 0, ext2 = ext2_boot\<rparr>"

definition file_at :: "file_ref \<Rightarrow> fs_state \<Rightarrow> fs_file option" where
  "file_at r s = (case r of FsFile i \<Rightarrow> rd (fs_files s) i | Ext2File \<Rightarrow> Some (ext2_file (ext2 s)))"

definition set_file :: "file_ref \<Rightarrow> fs_file \<Rightarrow> fs_state \<Rightarrow> fs_state option" where
  "set_file r f s = (case r of
     FsFile i \<Rightarrow> do { fs \<leftarrow> wr (fs_files s) i f; Some (s\<lparr>fs_files := fs\<rparr>) }
   | Ext2File \<Rightarrow> Some (s\<lparr>ext2 := (ext2 s)\<lparr>ext2_file := f\<rparr>\<rparr>))"

section \<open>The memory pool\<close>

definition pool_load :: "(nat \<Rightarrow> u8) \<Rightarrow> nat \<Rightarrow> nat \<Rightarrow> bytes" where
  "pool_load m a n = map (\<lambda>i. m (a + i)) [0..<n]"

definition pool_read :: "nat \<Rightarrow> nat \<Rightarrow> fs_state \<Rightarrow> bytes option" where
  "pool_read a n s = (if a + n \<le> POOL_SIZE then Some (pool_load (mem_pool s) a n) else None)"

definition pool_store :: "nat \<Rightarrow> bytes \<Rightarrow> fs_state \<Rightarrow> fs_state option" where
  "pool_store a bs s =
     (if a + length bs \<le> POOL_SIZE
      then Some (s\<lparr>mem_pool := (\<lambda>i. if a \<le> i \<and> i < a + length bs then bs ! (i - a) else mem_pool s i)\<rparr>)
      else None)"

text \<open>\<open>memcpy\<close> from the pool to the pool, byte by byte as the loop of \<open>memcpy\<close> goes.\<close>

fun pool_copy :: "nat \<Rightarrow> nat \<Rightarrow> nat \<Rightarrow> fs_state \<Rightarrow> fs_state option" where
  "pool_copy dest src 0 s = Some s"
| "pool_copy dest src (Suc n) s = do {
     b \<leftarrow> pool_read src 1 s;
     s' \<leftarrow> pool_store dest b s;
     pool_copy (dest + 1) (src + 1) n s' }"

definition fs_alloc :: "nat \<Rightarrow> fs_state \<Rightarrow> nat option \<times> fs_state" where
  "fs_alloc sz s =
     (if size_add (mem_used s) sz > POOL_SIZE then (None, s)
      else (Some (mem_used s), s\<lparr>mem_used := size_add (mem_used s) sz\<rparr>))"

text \<open>The pool offset of a data pointer the kernel may dereference.\<close>

definition pool_ptr :: "data_ptr \<Rightarrow> nat option" where
  "pool_ptr p = (case p of DPool a \<Rightarrow> Some a | _ \<Rightarrow> None)"

section \<open>Directories\<close>

fun find_dir :: "(fs_dir \<Rightarrow> bool option) \<Rightarrow> fs_dir list \<Rightarrow> fs_dir option option" where
  "find_dir test [] = Some None"
| "find_dir test (d # ds) = do { hit \<leftarrow> test d; if hit then Some (Some d) else find_dir test ds }"

definition str_eq :: "bytes \<Rightarrow> bytes \<Rightarrow> bool option" where
  "str_eq a b = map_option (\<lambda>r. r = 0) (strcmp a b)"

definition fs_create_dir :: "bytes \<Rightarrow> fs_state \<Rightarrow> (bool \<times> fs_state) option" where
  "fs_create_dir name s =
     (if active_fs s = FS_TYPE_EXT2 then Some (False, s)
      else do {
        found \<leftarrow> find_dir (\<lambda>d. str_eq (fd_name d) name) (take (dir_count s) (fs_dirs s));
        if found \<noteq> None then Some (True, s)
        else if dir_count s \<ge> FS_MAX_DIRS then Some (False, s)
        else do {
          let i = dir_count s;
          dir \<leftarrow> rd (fs_dirs s) i;
          dname \<leftarrow> copy_name (fd_name dir) name;
          ds \<leftarrow> wr (fs_dirs s) i (dir\<lparr>fd_name := dname\<rparr>);
          let s1 = s\<lparr>fs_dirs := ds\<rparr>;
          name_len \<leftarrow> strlen name;
          at_root \<leftarrow> str_eq (current_dir s) (lit ''/'');
          current_len \<leftarrow> (if at_root then Some 0 else strlen (current_dir s));
          if size_add (size_add (size_add current_len 1) name_len) 1 > FS_MAX_PATH
          then Some (False, s1)
          else do {
            p1 \<leftarrow> (if at_root then strcpy (fd_path dir) (lit ''/'')
                  else do { p \<leftarrow> strcpy (fd_path dir) (current_dir s); strcat p (lit ''/'') });
            p2 \<leftarrow> strcat p1 name;
            p3 \<leftarrow> wr p2 (FS_MAX_PATH - 1) 0;
            ds2 \<leftarrow> wr ds i (dir\<lparr>fd_name := dname, fd_path := p3\<rparr>);
            let s2 = s1\<lparr>fs_dirs := ds2, dir_count := i + 1\<rparr>;
            if file_count s < FS_MAX_FILES
            then do {
              fname \<leftarrow> copy_name (ff_name zero_file) name;
              fs \<leftarrow> wr (fs_files s) (file_count s) (zero_file\<lparr>ff_name := fname, ff_is_dir := True\<rparr>);
              Some (True, s2\<lparr>fs_files := fs, file_count := file_count s + 1\<rparr>) }
            else Some (True, s2) } } })"

definition fs_get_current_dir :: "fs_state \<Rightarrow> bytes" where
  "fs_get_current_dir s = current_dir s"

text \<open>The absolute path \<open>fs_change_dir\<close> builds for the ext2 driver.\<close>

definition ext2_abs_path :: "bytes \<Rightarrow> bytes \<Rightarrow> bytes option" where
  "ext2_abs_path cur path = do {
     c \<leftarrow> rd path 0;
     if c = 47 then copy_name (replicate FS_MAX_PATH 0) path
     else do {
       a \<leftarrow> copy_name (replicate FS_MAX_PATH 0) cur;
       len \<leftarrow> strlen a;
       last \<leftarrow> (if len = 0 then Some 0 else rd a (len - 1));
       (a1, n) \<leftarrow> (if len = 0 \<or> last \<noteq> 47
                 then do { b \<leftarrow> strncat a (lit ''/'') (size_sub (size_sub FS_MAX_PATH len) 1); Some (b, len + 1) }
                 else Some (a, len));
       strncat a1 path (size_sub (size_sub FS_MAX_PATH n) 1) } }"

definition fs_change_dir :: "bytes \<Rightarrow> fs_state \<Rightarrow> (bool \<times> fs_state) option" where
  "fs_change_dir path s = do {
     c \<leftarrow> rd path 0;
     if c = 0 then Some (False, s)
     else do {
       root \<leftarrow> str_eq path (lit ''/'');
       if root then do { d \<leftarrow> strcpy (current_dir s) (lit ''/''); Some (True, s\<lparr>current_dir := d\<rparr>) }
       else if active_fs s = FS_TYPE_EXT2
       then do {
         abs_path \<leftarrow> ext2_abs_path (current_dir s) path;
         (ok, e) \<leftarrow> ext2_change_dir abs_path (ext2 s);
         if ok then do { d \<leftarrow> copy_name (current_dir s) abs_path;
                         Some (True, s\<lparr>ext2 := e, current_dir := d\<rparr>) }
         else Some (False, s\<lparr>ext2 := e\<rparr>) }
       else do {
         hit \<leftarrow> find_dir (\<lambda>d. do { a \<leftarrow> str_eq (fd_name d) path;
                                 if a then Some True else str_eq (fd_path d) path })
                (take (dir_count s) (fs_dirs s));
         case hit of None \<Rightarrow> Some (False, s)
         | Some d \<Rightarrow> do { p \<leftarrow> strcpy (current_dir s) (fd_path d);
                         Some (True, s\<lparr>current_dir := p\<rparr>) } } } }"

section \<open>Files\<close>

text \<open>\<open>fs_open\<close>: the name without a leading \<open>./\<close>, and the test against one table entry.\<close>

definition processed_name :: "bytes \<Rightarrow> bytes option" where
  "processed_name name = do {
     r \<leftarrow> strncmp name (lit ''./'') 2;
     copy_name (replicate NAME_SIZE 0) (if r = 0 then drop 2 name else name) }"

definition processed_entry :: "bytes \<Rightarrow> bytes option" where
  "processed_entry fname = do {
     e \<leftarrow> copy_name (replicate NAME_SIZE 0) fname;
     r \<leftarrow> strncmp e (lit ''./'') 2;
     if r = 0
     then do {
       len \<leftarrow> strlen e;
       if len \<ge> 2
       then do { e' \<leftarrow> memmove e 0 2 (len - 1); wr e' (len - 2) 0 }
       else Some e }
     else Some e }"

definition entry_matches :: "bytes \<Rightarrow> bytes \<Rightarrow> bytes \<Rightarrow> bool option" where
  "entry_matches pname name fname = do {
     e \<leftarrow> processed_entry fname;
     a \<leftarrow> str_eq e pname;
     if a then Some True
     else do { b \<leftarrow> str_eq fname pname; if b then Some True else str_eq fname name } }"

fun find_entry :: "bytes \<Rightarrow> bytes \<Rightarrow> fs_file list \<Rightarrow> nat \<Rightarrow> nat option option" where
  "find_entry pname name [] i = Some None"
| "find_entry pname name (f # fs) i = do {
     hit \<leftarrow> entry_matches pname name (ff_name f);
     if hit then Some (Some i) else find_entry pname name fs (i + 1) }"

definition fs_open :: "bytes \<Rightarrow> fs_state \<Rightarrow> (file_ref option \<times> fs_state) option" where
  "fs_open name s = do {
     c \<leftarrow> rd name 0;
     if c = 0 then Some (None, s)
     else if active_fs s = FS_TYPE_EXT2
     then do { (ok, e) \<leftarrow> ext2_open name (ext2 s);
               Some (if ok then Some Ext2File else None, s\<lparr>ext2 := e\<rparr>) }
     else do {
       pname \<leftarrow> processed_name name;
       r \<leftarrow> find_entry pname name (take (file_count s) (fs_files s)) 0;
       Some (map_option FsFile r, s) } }"

definition fs_read :: "file_ref option \<Rightarrow> nat \<Rightarrow> bytes \<Rightarrow> nat \<Rightarrow> fs_state \<Rightarrow> (nat \<times> bytes) option" where
  "fs_read file offset buf len s = (case file of None \<Rightarrow> Some (0, buf) | Some r \<Rightarrow> do {
     f \<leftarrow> file_at r s;
     if offset \<ge> ff_size f then Some (0, buf)
     else if ff_fs_type f = FS_TYPE_EXT2 then ext2_read f offset buf len (ext2 s)
     else if ff_data f = DNull then Some (0, buf)
     else do {
       a \<leftarrow> pool_ptr (ff_data f);
       let to_copy = min (ff_size f - offset) len;
       bs \<leftarrow> pool_read (a + offset) to_copy s;
       if to_copy \<le> length buf then Some (to_copy, bs @ drop to_copy buf) else None } })"

definition fs_list :: "fs_state \<Rightarrow> (nat \<times> fs_file list option \<times> fs_state) option" where
  "fs_list s =
     (if active_fs s = FS_TYPE_EXT2
      then do { (n, ok, e) \<leftarrow> ext2_list (Some (current_dir s)) (ext2 s);
                Some (n, if ok then Some (file_cache e) else None, s\<lparr>ext2 := e\<rparr>) }
      else Some (file_count s, Some (fs_files s), s))"

definition fs_create_file :: "bytes \<Rightarrow> fs_state \<Rightarrow> (file_ref option \<times> fs_state) option" where
  "fs_create_file name s = do {
     (existing, s1) \<leftarrow> fs_open name s;
     if existing \<noteq> None then Some (existing, s1)
     else if active_fs s1 = FS_TYPE_EXT2 then Some (None, s1)
     else if file_count s1 \<ge> FS_MAX_FILES then Some (None, s1)
     else do {
       let i = file_count s1;
       f \<leftarrow> rd (fs_files s1) i;
       fname \<leftarrow> copy_name (ff_name f) name;
       let f1 = f\<lparr>ff_name := fname, ff_capacity := 256\<rparr>;
       (case fs_alloc 256 s1 of
          (None, s2) \<Rightarrow> do {
            fs \<leftarrow> wr (fs_files s2) i (f1\<lparr>ff_data := DNull\<rparr>);
            Some (None, s2\<lparr>fs_files := fs\<rparr>) }
        | (Some a, s2) \<Rightarrow> do {
            s3 \<leftarrow> pool_store a [0] s2;
            fs \<leftarrow> wr (fs_files s3) i
              (f1\<lparr>ff_data := DPool a, ff_size := 0, ff_is_dir := False, ff_mode := 0x1A4,
                 ff_fs_type := FS_TYPE_INITRAMFS\<rparr>);
            Some (Some (FsFile i), s3\<lparr>fs_files := fs, file_count := i + 1\<rparr>) }) } }"

text \<open>The part of \<open>fs_write\<close> that grows the buffer; \<open>None\<close> inside is the failed allocation.\<close>

definition fs_grow :: "fs_file \<Rightarrow> nat \<Rightarrow> nat \<Rightarrow> fs_state \<Rightarrow> (fs_file option \<times> fs_state) option" where
  "fs_grow f a new_size s =
     (if new_size > ff_capacity f
      then (let new_capacity = new_size * 2 mod 2 ^ 64 in
            case fs_alloc new_capacity s of
              (None, s1) \<Rightarrow> Some (None, s1)
            | (Some a', s1) \<Rightarrow> do {
                s2 \<leftarrow> pool_store a' (replicate new_capacity 0) s1;
                s3 \<leftarrow> pool_copy a' a (ff_size f) s2;
                Some (Some (f\<lparr>ff_data := DPool a', ff_capacity := new_capacity\<rparr>), s3) })
      else Some (Some f, s))"

definition fs_write :: "file_ref option \<Rightarrow> nat \<Rightarrow> bytes \<Rightarrow> nat \<Rightarrow> fs_state \<Rightarrow> (nat \<times> fs_state) option" where
  "fs_write file offset buf len s = (case file of None \<Rightarrow> Some (0, s) | Some r \<Rightarrow> do {
     f \<leftarrow> file_at r s;
     if ff_fs_type f = FS_TYPE_EXT2 then Some (0, s)
     else if ff_data f = DNull then Some (0, s)
     else do {
       a0 \<leftarrow> pool_ptr (ff_data f);
       let new_size = size_add offset len;
       (g, s1) \<leftarrow> fs_grow f a0 new_size s;
       case g of None \<Rightarrow> Some (0, s1)
       | Some f1 \<Rightarrow> do {
           s2 \<leftarrow> set_file r f1 s1;
           a \<leftarrow> pool_ptr (ff_data f1);
           s3 \<leftarrow> (if offset > ff_size f1
                 then pool_store (a + ff_size f1) (replicate (offset - ff_size f1) 0) s2 else Some s2);
           src \<leftarrow> (if len \<le> length buf then Some (take len buf) else None);
           s4 \<leftarrow> pool_store (a + offset) src s3;
           if new_size > ff_size f1
           then do {
             s5 \<leftarrow> set_file r (f1\<lparr>ff_size := new_size\<rparr>) s4;
             s6 \<leftarrow> pool_store (a + new_size) [0] s5;
             Some (len, s6) }
           else Some (len, s4) } } })"

definition fs_chmod :: "bytes \<Rightarrow> u16 \<Rightarrow> fs_state \<Rightarrow> (bool \<times> fs_state) option" where
  "fs_chmod name mode s = do {
     (r, s1) \<leftarrow> fs_open name s;
     case r of None \<Rightarrow> Some (False, s1)
     | Some ref \<Rightarrow> do { f \<leftarrow> file_at ref s1; s2 \<leftarrow> set_file ref (f\<lparr>ff_mode := mode\<rparr>) s1; Some (True, s2) } }"

section \<open>Initialisation\<close>

text \<open>The import loop of \<open>fs_init\<close>; a name that ends in a slash is a directory.\<close>

definition import_dir_name :: "bytes \<Rightarrow> nat \<Rightarrow> bytes" where
  "import_dir_name name name_len =
     (let n = (if name_len - 1 \<ge> NAME_SIZE then NAME_SIZE - 1 else name_len) in take (n - 1) name @ [0])"

fun fs_import :: "initramfs_file list \<Rightarrow> fs_state \<Rightarrow> fs_state option" where
  "fs_import [] s = Some s"
| "fs_import (src # srcs) s =
     (if file_count s \<ge> FS_MAX_FILES then Some s
      else do {
        name_len \<leftarrow> strlen (if_name src);
        if name_len > 0 \<and> if_name src ! (name_len - 1) = 47
        then do { (ok, s1) \<leftarrow> fs_create_dir (import_dir_name (if_name src) name_len) s; fs_import srcs s1 }
        else do {
          let i = file_count s;
          dst \<leftarrow> rd (fs_files s) i;
          name \<leftarrow> copy_name (ff_name dst) (if_name src);
          let dst1 = dst\<lparr>ff_name := name, ff_capacity := if_size src\<rparr>;
          (case fs_alloc (if_size src) s of
             (None, s1) \<Rightarrow> do {
               fs \<leftarrow> wr (fs_files s1) i (dst1\<lparr>ff_data := DNull\<rparr>);
               Some (s1\<lparr>fs_files := fs\<rparr>) }
           | (Some a, s1) \<Rightarrow> do {
               data \<leftarrow> (if if_size src \<le> length (if_data src) then Some (take (if_size src) (if_data src)) else None);
               s2 \<leftarrow> pool_store a data s1;
               fs \<leftarrow> wr (fs_files s2) i
                 (dst1\<lparr>ff_data := DPool a, ff_size := if_size src, ff_is_dir := False,
                    ff_mode := 0x1A4, ff_fs_type := FS_TYPE_INITRAMFS\<rparr>);
               fs_import srcs (s2\<lparr>fs_files := fs, file_count := i + 1\<rparr>) }) } })"

definition fs_mount_ext2 :: "bytes \<Rightarrow> fs_state \<Rightarrow> (bool \<times> fs_state) option" where
  "fs_mount_ext2 img s = do {
     (ok, e) \<leftarrow> ext2_init img (ext2 s);
     if ok then Some (True, s\<lparr>ext2 := e, active_fs := FS_TYPE_EXT2\<rparr>) else Some (False, s\<lparr>ext2 := e\<rparr>) }"

fun fs_find_image :: "fs_file list \<Rightarrow> fs_state \<Rightarrow> fs_state option" where
  "fs_find_image [] s = Some s"
| "fs_find_image (f # fs) s = do {
     a \<leftarrow> str_eq (ff_name f) (lit ''ext2.img'');
     b \<leftarrow> (if a then Some True else str_eq (ff_name f) (lit ''disk.img''));
     if \<not> b \<or> ff_data f = DNull then fs_find_image fs s
     else do {
       p \<leftarrow> pool_ptr (ff_data f);
       img \<leftarrow> pool_read p (ff_size f) s;
       ok \<leftarrow> ext2_detect img;
       if \<not> ok then fs_find_image fs s
       else do {
         (mounted, s1) \<leftarrow> fs_mount_ext2 img s;
         if mounted then Some s1 else fs_find_image fs s1 } } }"

definition fs_init :: "initramfs_file list \<Rightarrow> fs_state \<Rightarrow> fs_state option" where
  "fs_init ramfs s = do {
     let s0 = s\<lparr>fs_files := replicate FS_MAX_FILES zero_file, file_count := 0,
                fs_dirs := replicate FS_MAX_DIRS zero_dir, dir_count := 0,
                current_dir := replicate FS_MAX_PATH 0, active_fs := FS_TYPE_INITRAMFS\<rparr>;
     cur \<leftarrow> strcpy (current_dir s0) (lit ''/'');
     name \<leftarrow> strcpy (fd_name zero_dir) (lit ''/'');
     path \<leftarrow> strcpy (fd_path zero_dir) (lit ''/'');
     ds \<leftarrow> wr (fs_dirs s0) 0 \<lparr>fd_name = name, fd_path = path\<rparr>;
     s1 \<leftarrow> fs_import ramfs (s0\<lparr>current_dir := cur, fs_dirs := ds, dir_count := 1\<rparr>);
     fs_find_image (take (file_count s1) (fs_files s1)) s1 }"

end
