(* ===== verification/FsCorrect.thy ===== *)
theory FsCorrect
  imports Fs
begin

text \<open>
  The correctness of the file system: the invariant of the file table and the memory pool, what
  reading and writing do to the contents of files, lookup and creation by name, directories, and
  the import of the boot archive.
\<close>

section \<open>The memory pool\<close>

definition stored :: "(nat \<Rightarrow> u8) \<Rightarrow> nat \<Rightarrow> bytes \<Rightarrow> nat \<Rightarrow> u8" where
  "stored m a bs = (\<lambda>i. if a \<le> i \<and> i < a + length bs then bs ! (i - a) else m i)"

lemma pool_store_eq:
  "a + length bs \<le> POOL_SIZE \<Longrightarrow> pool_store a bs s = Some (s\<lparr>mem_pool := stored (mem_pool s) a bs\<rparr>)"
  by (simp add: pool_store_def stored_def)

lemma length_pool_load [simp]: "length (pool_load m a n) = n"
  by (simp add: pool_load_def)

lemma pool_load_0 [simp]: "pool_load m a 0 = []"
  by (simp add: pool_load_def)

lemma nth_pool_load [simp]: "i < n \<Longrightarrow> pool_load m a n ! i = m (a + i)"
  by (simp add: pool_load_def)

lemma pool_load_eqI: "(\<And>i. i < n \<Longrightarrow> m (a + i) = m' (a' + i)) \<Longrightarrow> pool_load m a n = pool_load m' a' n"
  by (rule nth_equalityI) simp_all

lemma pool_load_add: "pool_load m a (n + k) = pool_load m a n @ pool_load m (a + n) k"
  by (rule nth_equalityI) (auto simp: nth_append add.assoc)

lemma pool_load_Suc: "pool_load m a (Suc k) = m a # pool_load m (a + 1) k"
  using pool_load_add [of m a 1 k] by (simp add: pool_load_def)

lemma take_pool_load: "take n (pool_load m a k) = pool_load m a (min n k)"
  by (rule nth_equalityI) auto

lemma drop_pool_load: "drop n (pool_load m a k) = pool_load m (a + n) (k - n)"
  by (rule nth_equalityI) (auto simp: add.assoc)

lemma pool_load_stored_other:
  "b + n \<le> a \<or> a + length bs \<le> b \<Longrightarrow> pool_load (stored m a bs) b n = pool_load m b n"
  by (intro pool_load_eqI) (auto simp: stored_def)

lemma pool_load_stored_same [simp]: "n = length bs \<Longrightarrow> pool_load (stored m a bs) a n = bs"
  by (rule nth_equalityI) (auto simp: stored_def)

lemma stored_other: "i < a \<or> a + length bs \<le> i \<Longrightarrow> stored m a bs i = m i"
  by (auto simp: stored_def)

lemma stored_append: "stored m a (x # xs) = stored (stored m a [x]) (a + 1) xs"
proof
  fix i
  show "stored m a (x # xs) i = stored (stored m a [x]) (a + 1) xs i"
    by (cases "i = a") (auto simp: stored_def nth_Cons')
qed

lemma stored_Nil [simp]: "stored m a [] = m"
  by (rule ext) (auto simp: stored_def)

text \<open>A copy between disjoint regions.\<close>

lemma pool_copy_eq:
  "src + n \<le> dest \<or> dest + n \<le> src \<Longrightarrow> src + n \<le> POOL_SIZE \<Longrightarrow> dest + n \<le> POOL_SIZE \<Longrightarrow>
     pool_copy dest src n s = Some (s\<lparr>mem_pool := stored (mem_pool s) dest (pool_load (mem_pool s) src n)\<rparr>)"
proof (induction n arbitrary: dest src s)
  case 0
  then show ?case by simp
next
  case (Suc n)
  let ?s = "s\<lparr>mem_pool := stored (mem_pool s) dest [mem_pool s src]\<rparr>"
  have "pool_read src 1 s = Some [mem_pool s src]"
    using Suc.prems by (simp add: pool_read_def pool_load_def)
  moreover have "pool_store dest [mem_pool s src] s = Some ?s"
    using Suc.prems by (simp add: pool_store_eq)
  moreover have "pool_copy (dest + 1) (src + 1) n ?s = Some (?s\<lparr>mem_pool :=
      stored (mem_pool ?s) (dest + 1) (pool_load (mem_pool ?s) (src + 1) n)\<rparr>)"
    using Suc.prems by (intro Suc.IH) auto
  moreover have "pool_load (mem_pool ?s) (src + 1) n = pool_load (mem_pool s) (src + 1) n"
    using Suc.prems by (auto intro!: pool_load_stored_other)
  moreover have "pool_load (mem_pool s) src (Suc n) = mem_pool s src # pool_load (mem_pool s) (src + 1) n"
    using pool_load_add [of "mem_pool s" src 1 n] by (simp add: pool_load_def)
  moreover note stored_append [of "mem_pool s" dest "mem_pool s src" "pool_load (mem_pool s) (src + 1) n"]
  ultimately show ?case by simp
qed

section \<open>The invariant\<close>

text \<open>An entry in use: its name is a string, its content lies inside its part of the pool.\<close>

definition file_ok :: "nat \<Rightarrow> fs_file \<Rightarrow> bool" where
  "file_ok used f \<longleftrightarrow> terminated (ff_name f) \<and> ff_fs_type f \<noteq> FS_TYPE_EXT2 \<and>
     (case ff_data f of DNull \<Rightarrow> ff_size f = 0
      | DPool a \<Rightarrow> ff_size f \<le> ff_capacity f \<and> a + ff_capacity f \<le> used
      | DAddr _ \<Rightarrow> False)"

definition apart :: "fs_file \<Rightarrow> fs_file \<Rightarrow> bool" where
  "apart f g \<longleftrightarrow> (\<forall>a b. ff_data f = DPool a \<longrightarrow> ff_data g = DPool b \<longrightarrow>
     a + ff_capacity f \<le> b \<or> b + ff_capacity g \<le> a)"

definition table_ok :: "fs_state \<Rightarrow> bool" where
  "table_ok s \<longleftrightarrow> length (fs_files s) = FS_MAX_FILES \<and> file_count s \<le> FS_MAX_FILES \<and>
     mem_used s \<le> POOL_SIZE \<and> (\<forall>f \<in> set (fs_files s). length (ff_name f) = NAME_SIZE) \<and>
     (\<forall>i < file_count s. file_ok (mem_used s) (fs_files s ! i)) \<and>
     (\<forall>i < file_count s. \<forall>j < file_count s. i \<noteq> j \<longrightarrow> apart (fs_files s ! i) (fs_files s ! j))"

definition dirs_ok :: "fs_state \<Rightarrow> bool" where
  "dirs_ok s \<longleftrightarrow> length (fs_dirs s) = FS_MAX_DIRS \<and> dir_count s \<le> FS_MAX_DIRS \<and>
     (\<forall>d \<in> set (fs_dirs s). length (fd_name d) = NAME_SIZE \<and> length (fd_path d) = FS_MAX_PATH) \<and>
     (\<forall>i < dir_count s. terminated (fd_name (fs_dirs s ! i)) \<and> terminated (fd_path (fs_dirs s ! i))) \<and>
     length (current_dir s) = FS_MAX_PATH \<and> terminated (current_dir s)"

definition fs_inv :: "fs_state \<Rightarrow> bool" where
  "fs_inv s \<longleftrightarrow> table_ok s \<and> dirs_ok s"

lemma fs_consts: "FS_MAX_FILES = 32" "FS_MAX_DIRS = 8" "FS_MAX_PATH = 128" "NAME_SIZE = 32" "POOL_SIZE = 65536"
  by (simp_all add: FS_MAX_FILES_def FS_MAX_DIRS_def FS_MAX_PATH_def NAME_SIZE_def POOL_SIZE_def)

lemma apart_sym: "apart f g \<longleftrightarrow> apart g f"
  by (auto simp: apart_def)

lemma file_ok_mono: "file_ok u f \<Longrightarrow> u \<le> v \<Longrightarrow> file_ok v f"
  by (auto simp: file_ok_def split: data_ptr.splits)

text \<open>Replacing the entry \<open>i\<close> keeps the table in order if the new entry is apart from the others.\<close>

lemma table_ok_update:
  assumes ok: "table_ok s" and i: "i < file_count s"
    and f: "file_ok used f" "length (ff_name f) = NAME_SIZE" "mem_used s \<le> used" "used \<le> POOL_SIZE"
    and ap: "\<And>j. j < file_count s \<Longrightarrow> j \<noteq> i \<Longrightarrow> apart f (fs_files s ! j)"
  shows "table_ok (s\<lparr>fs_files := (fs_files s)[i := f], mem_pool := m, mem_used := used\<rparr>)"
proof -
  have len: "length (fs_files s) = FS_MAX_FILES" "i < length (fs_files s)"
    using ok i by (auto simp: table_ok_def)
  have "set ((fs_files s)[i := f]) \<subseteq> insert f (set (fs_files s))" by (rule set_update_subset_insert)
  then have "\<forall>g \<in> set ((fs_files s)[i := f]). length (ff_name g) = NAME_SIZE"
    using ok f(2) by (auto simp: table_ok_def)
  moreover have "file_ok used ((fs_files s)[i := f] ! j)" if "j < file_count s" for j
    using ok that f(1,3) len by (cases "j = i") (auto simp: table_ok_def intro: file_ok_mono)
  moreover have "apart ((fs_files s)[i := f] ! j) ((fs_files s)[i := f] ! k)"
    if "j < file_count s" "k < file_count s" "j \<noteq> k" for j k
    using ok that ap len apart_sym
    by (cases "j = i"; cases "k = i") (auto simp: table_ok_def)
  ultimately show ?thesis using ok f(4) by (simp add: table_ok_def)
qed

text \<open>The content of the file in slot \<open>i\<close>.\<close>

definition content :: "fs_state \<Rightarrow> nat \<Rightarrow> bytes" where
  "content s i = (case ff_data (fs_files s ! i) of
     DPool a \<Rightarrow> pool_load (mem_pool s) a (ff_size (fs_files s ! i)) | _ \<Rightarrow> [])"

lemma length_content:
  "table_ok s \<Longrightarrow> i < file_count s \<Longrightarrow> length (content s i) = ff_size (fs_files s ! i)"
  by (auto simp: content_def table_ok_def file_ok_def split: data_ptr.splits)

lemma table_slot:
  assumes "table_ok s" and "i < file_count s"
  shows "i < length (fs_files s)" "file_at (FsFile i) s = Some (fs_files s ! i)"
    "file_ok (mem_used s) (fs_files s ! i)" "length (ff_name (fs_files s ! i)) = NAME_SIZE"
proof -
  show "i < length (fs_files s)" using assms by (simp add: table_ok_def)
  then show "file_at (FsFile i) s = Some (fs_files s ! i)" "length (ff_name (fs_files s ! i)) = NAME_SIZE"
    using assms by (simp_all add: file_at_def table_ok_def)
  show "file_ok (mem_used s) (fs_files s ! i)" using assms by (simp add: table_ok_def)
qed

section \<open>Reading\<close>

lemma fs_read_eq:
  assumes ok: "table_ok s" and i: "i < file_count s"
  shows "fs_read (Some (FsFile i)) offset buf len s =
    (let d = take len (drop offset (content s i)) in
     if length d \<le> length buf then Some (length d, d @ drop (length d) buf) else None)"
proof -
  let ?f = "fs_files s ! i"
  note f = table_slot [OF ok i]
  have used: "mem_used s \<le> POOL_SIZE" using ok by (simp add: table_ok_def)
  show ?thesis
  proof (cases "ff_data ?f")
    case DNull
    then show ?thesis using f by (simp add: fs_read_def content_def file_ok_def)
  next
    case (DPool a)
    then have r: "ff_size ?f \<le> ff_capacity ?f" "a + ff_capacity ?f \<le> mem_used s" and t: "ff_fs_type ?f \<noteq> FS_TYPE_EXT2"
      using f(3) by (simp_all add: file_ok_def)
    have d: "take len (drop offset (content s i)) = pool_load (mem_pool s) (a + offset) (min len (ff_size ?f - offset))"
      using DPool by (simp add: content_def drop_pool_load take_pool_load)
    show ?thesis
    proof (cases "offset \<ge> ff_size ?f")
      case True
      then show ?thesis using f(2) length_content [OF ok i] by (simp add: fs_read_def)
    next
      case False
      then have "a + offset + min (ff_size ?f - offset) len \<le> POOL_SIZE" using r used by simp
      then show ?thesis
        using False f(2) d t DPool
        by (simp add: fs_read_def pool_ptr_def pool_read_def Let_def min.commute)
    qed
  next
    case (DAddr x)
    then show ?thesis using f(3) by (simp add: file_ok_def)
  qed
qed

section \<open>Writing\<close>

text \<open>The stores of a write into a region that is large enough, as one memory.\<close>

definition written :: "(nat \<Rightarrow> u8) \<Rightarrow> nat \<Rightarrow> nat \<Rightarrow> nat \<Rightarrow> bytes \<Rightarrow> nat \<Rightarrow> u8" where
  "written m a sz off b =
     (let m1 = (if off > sz then stored m (a + sz) (replicate (off - sz) 0) else m);
          m2 = stored m1 (a + off) b
      in if off + length b > sz then stored m2 (a + (off + length b)) [0] else m2)"

lemma written_content:
  "pool_load (written m a sz off b) a (max sz (off + length b)) = overlay (pool_load m a sz) off b"
proof (rule nth_equalityI)
  show "length (pool_load (written m a sz off b) a (max sz (off + length b)))
      = length (overlay (pool_load m a sz) off b)" by simp
next
  fix i
  assume "i < length (pool_load (written m a sz off b) a (max sz (off + length b)))"
  then have i: "i < max sz (off + length b)" by simp
  then show "pool_load (written m a sz off b) a (max sz (off + length b)) ! i
      = overlay (pool_load m a sz) off b ! i"
    by (cases "i = off + length b") (auto simp: written_def Let_def stored_def overlay_def nth_append)
qed

lemma written_other:
  "x < a \<or> a + max sz (off + length b) < x \<or> (x = a + max sz (off + length b) \<and> off + length b \<le> sz) \<Longrightarrow>
     written m a sz off b x = m x"
  by (auto simp: written_def Let_def stored_def)

text \<open>The second half of \<open>fs_write\<close>, after the buffer was grown.\<close>

lemma fs_write_in_place:
  assumes g: "fs_grow (fs_files s ! i) a0 (offset + len) s = Some (Some f1, s1)"
    and at: "i < length (fs_files s)" "length (fs_files s1) = length (fs_files s)"
    and f: "ff_fs_type (fs_files s ! i) \<noteq> FS_TYPE_EXT2" "ff_data (fs_files s ! i) = DPool a0"
    and f1: "ff_data f1 = DPool a"
    and room: "a + max (ff_size f1) (offset + len) < POOL_SIZE \<or>
        (offset + len \<le> ff_size f1 \<and> a + ff_size f1 \<le> POOL_SIZE)"
    and len: "offset + len < 2 ^ 64" "len \<le> length buf"
  shows "fs_write (Some (FsFile i)) offset buf len s = Some (len, s1
    \<lparr>fs_files := (fs_files s1)[i := f1\<lparr>ff_size := max (ff_size f1) (offset + len)\<rparr>],
     mem_pool := written (mem_pool s1) a (ff_size f1) offset (take len buf)\<rparr>)"
proof -
  let ?n = "offset + len" and ?b = "take len buf"
  have lb: "length ?b = len" using len(2) by simp
  have size_ok: "size_add offset len = ?n" using len(1) by simp
  let ?s2 = "s1\<lparr>fs_files := (fs_files s1)[i := f1]\<rparr>"
  let ?m1 = "if offset > ff_size f1 then stored (mem_pool s1) (a + ff_size f1) (replicate (offset - ff_size f1) 0)
             else mem_pool s1"
  let ?m2 = "stored ?m1 (a + offset) ?b"
  have s2: "set_file (FsFile i) f1 s1 = Some ?s2" using at by (simp add: set_file_def)
  have s3: "(if offset > ff_size f1
       then pool_store (a + ff_size f1) (replicate (offset - ff_size f1) 0) ?s2 else Some ?s2)
     = Some (?s2\<lparr>mem_pool := ?m1\<rparr>)"
    using room by (auto simp: pool_store_eq)
  have s4: "pool_store (a + offset) ?b (?s2\<lparr>mem_pool := ?m1\<rparr>) = Some (?s2\<lparr>mem_pool := ?m2\<rparr>)"
    using room lb by (auto simp: pool_store_eq)
  have r: "file_at (FsFile i) s = Some (fs_files s ! i)" using at by (simp add: file_at_def)
  have start: "fs_write (Some (FsFile i)) offset buf len s =
      (if ?n > ff_size f1
       then do { s5 \<leftarrow> set_file (FsFile i) (f1\<lparr>ff_size := ?n\<rparr>) (?s2\<lparr>mem_pool := ?m2\<rparr>);
                 s6 \<leftarrow> pool_store (a + ?n) [0] s5; Some (len, s6) }
       else Some (len, ?s2\<lparr>mem_pool := ?m2\<rparr>))"
    unfolding fs_write_def option.case r Option.bind.bind_lunit f if_not_P [OF f(1)] size_ok Let_def
      pool_ptr_def data_ptr.case g prod.case s2 f1 s3 if_P [OF len(2)] s4
    by simp
  show ?thesis
  proof (cases "?n > ff_size f1")
    case True
    then have "a + ?n + 1 \<le> POOL_SIZE" using room by simp
    then show ?thesis
      using True at lb unfolding start
      by (simp add: set_file_def pool_store_eq written_def Let_def max_def)
  next
    case False
    then have "f1\<lparr>ff_size := max (ff_size f1) ?n\<rparr> = f1" by (simp add: max_def)
    then show ?thesis
      using False lb unfolding start by (simp add: written_def Let_def)
  qed
qed

text \<open>Both outcomes of \<open>fs_write\<close> on a table in order.\<close>

lemma fs_write_cases:
  assumes ok: "table_ok s" and i: "i < file_count s"
    and d: "ff_data (fs_files s ! i) = DPool a0"
    and len: "offset + len < 2 ^ 62" "len \<le> length buf"
    and fit: "\<not> (ff_size (fs_files s ! i) < offset + len \<and> offset + len = ff_capacity (fs_files s ! i))"
  obtains (full) "fs_write (Some (FsFile i)) offset buf len s = Some (0, s)"
      and "ff_capacity (fs_files s ! i) < offset + len" and "POOL_SIZE < mem_used s + 2 * (offset + len)"
  | (written) f m used where
      "fs_write (Some (FsFile i)) offset buf len s
        = Some (len, s\<lparr>fs_files := (fs_files s)[i := f], mem_pool := m, mem_used := used\<rparr>)"
      and "table_ok (s\<lparr>fs_files := (fs_files s)[i := f], mem_pool := m, mem_used := used\<rparr>)"
      and "ff_name f = ff_name (fs_files s ! i)"
      and "content (s\<lparr>fs_files := (fs_files s)[i := f], mem_pool := m, mem_used := used\<rparr>) i
        = overlay (content s i) offset (take len buf)"
      and "\<And>j. j < file_count s \<Longrightarrow> j \<noteq> i \<Longrightarrow>
        content (s\<lparr>fs_files := (fs_files s)[i := f], mem_pool := m, mem_used := used\<rparr>) j = content s j"
proof -
  let ?f = "fs_files s ! i" and ?n = "offset + len" and ?b = "take len buf"
  note sl = table_slot [OF ok i]
  have used: "mem_used s \<le> POOL_SIZE" using ok by (simp add: table_ok_def)
  have f: "terminated (ff_name ?f)" "ff_fs_type ?f \<noteq> FS_TYPE_EXT2" "ff_size ?f \<le> ff_capacity ?f"
    "a0 + ff_capacity ?f \<le> mem_used s"
    using sl(3) d by (simp_all add: file_ok_def)
  have lb: "length ?b = len" using len(2) by simp
  have others: "b + ff_capacity (fs_files s ! j) \<le> a0 \<or> a0 + ff_capacity ?f \<le> b"
    "ff_size (fs_files s ! j) \<le> ff_capacity (fs_files s ! j)" "b + ff_capacity (fs_files s ! j) \<le> mem_used s"
    if "j < file_count s" "j \<noteq> i" "ff_data (fs_files s ! j) = DPool b" for j b
  proof -
    have "apart ?f (fs_files s ! j)" using ok i that by (simp add: table_ok_def)
    then show "b + ff_capacity (fs_files s ! j) \<le> a0 \<or> a0 + ff_capacity ?f \<le> b"
      using d that(3) by (auto simp: apart_def)
    show "ff_size (fs_files s ! j) \<le> ff_capacity (fs_files s ! j)" "b + ff_capacity (fs_files s ! j) \<le> mem_used s"
      using table_slot(3) [OF ok that(1)] that(3) by (simp_all add: file_ok_def)
  qed
  have c0: "content s i = pool_load (mem_pool s) a0 (ff_size ?f)" using d by (simp add: content_def)
  have cong: "content (s\<lparr>fs_files := (fs_files s)[i := f], mem_pool := m, mem_used := used\<rparr>) j = content s j"
    if j: "j < file_count s" "j \<noteq> i"
      and m: "\<And>b x. ff_data (fs_files s ! j) = DPool b \<Longrightarrow> b \<le> x \<Longrightarrow> x < b + ff_size (fs_files s ! j) \<Longrightarrow>
         m x = mem_pool s x" for f m used j
    using j m by (auto simp: content_def intro!: pool_load_eqI split: data_ptr.splits)
  show ?thesis
  proof (cases "?n > ff_capacity ?f")
    case False
    then have g: "fs_grow ?f a0 ?n s = Some (Some ?f, s)" by (simp add: fs_grow_def)
    let ?f' = "?f\<lparr>ff_size := max (ff_size ?f) ?n\<rparr>"
    let ?m = "written (mem_pool s) a0 (ff_size ?f) offset ?b"
    let ?s' = "s\<lparr>fs_files := (fs_files s)[i := ?f'], mem_pool := ?m, mem_used := mem_used s\<rparr>"
    have room: "a0 + max (ff_size ?f) ?n < POOL_SIZE \<or> (?n \<le> ff_size ?f \<and> a0 + ff_size ?f \<le> POOL_SIZE)"
      using False fit f(3,4) used by (auto simp: max_def)
    have l64: "?n < 2 ^ 64" using len(1) by simp
    have w: "fs_write (Some (FsFile i)) offset buf len s = Some (len, ?s')"
      using fs_write_in_place [OF g sl(1) refl f(2) d d room l64 len(2)] by simp
    have t: "table_ok ?s'"
      using sl(3,4) d used False ok i f
      by (intro table_ok_update [OF ok i]) (auto simp: file_ok_def apart_def table_ok_def)
    have ci: "content ?s' i = overlay (content s i) offset ?b"
      using sl(1) d written_content [of "mem_pool s" a0 "ff_size ?f" offset ?b] lb c0
      by (simp add: content_def)
    have cj: "content ?s' j = content s j" if j: "j < file_count s" "j \<noteq> i" for j
    proof (rule cong [OF j])
      fix b x assume b: "ff_data (fs_files s ! j) = DPool b" "b \<le> x" "x < b + ff_size (fs_files s ! j)"
      then show "?m x = mem_pool s x"
        using others [OF j b(1)] False fit f(3) lb by (intro written_other) (auto simp: max_def)
    qed
    show ?thesis using written [OF w t _ ci cj] by simp
  next
    case grow: True
    let ?c = "?n * 2" and ?a = "mem_used s"
    have c: "?n * 2 mod 2 ^ 64 = ?c" using len(1) by simp
    show ?thesis
    proof (cases "?a + ?c > POOL_SIZE")
      case True
      have "size_add ?a ?c = ?a + ?c" using used len(1) by (simp add: fs_consts)
      then have "fs_grow ?f a0 ?n s = Some (None, s)"
        using grow True unfolding fs_grow_def c fs_alloc_def by simp
      moreover have "size_add offset len = ?n" using len(1) by simp
      ultimately have "fs_write (Some (FsFile i)) offset buf len s = Some (0, s)"
        using f(2) d sl(2) by (simp add: fs_write_def pool_ptr_def)
      then show ?thesis using full grow True by simp
    next
      case fits: False
      let ?z = "stored (mem_pool s) ?a (replicate ?c 0)"
      let ?m1 = "stored ?z ?a (pool_load (mem_pool s) a0 (ff_size ?f))"
      let ?f1 = "?f\<lparr>ff_data := DPool ?a, ff_capacity := ?c\<rparr>"
      let ?s1 = "s\<lparr>mem_used := ?a + ?c, mem_pool := ?m1\<rparr>"
      let ?f' = "?f1\<lparr>ff_size := max (ff_size ?f) ?n\<rparr>"
      let ?m = "written ?m1 ?a (ff_size ?f) offset ?b"
      let ?s' = "s\<lparr>fs_files := (fs_files s)[i := ?f'], mem_pool := ?m, mem_used := ?a + ?c\<rparr>"
      have sz: "ff_size ?f < ?n" using grow f(3) by simp
      have al: "fs_alloc ?c s = (Some ?a, s\<lparr>mem_used := ?a + ?c\<rparr>)"
        using fits used by (simp add: fs_alloc_def fs_consts)
      have cp: "pool_copy ?a a0 (ff_size ?f) (s\<lparr>mem_used := ?a + ?c, mem_pool := ?z\<rparr>) = Some ?s1"
      proof -
        have l: "pool_load ?z a0 (ff_size ?f) = pool_load (mem_pool s) a0 (ff_size ?f)"
          using f(3,4) by (intro pool_load_stored_other) simp
        show ?thesis
          using f(3,4) fits sz used l
            pool_copy_eq [of a0 "ff_size ?f" ?a "s\<lparr>mem_used := ?a + ?c, mem_pool := ?z\<rparr>"] by simp
      qed
      have g: "fs_grow ?f a0 ?n s = Some (Some ?f1, ?s1)"
        unfolding fs_grow_def c Let_def al prod.case option.case
        using grow fits cp by (simp add: pool_store_eq)
      have room: "?a + max (ff_size ?f1) ?n < POOL_SIZE \<or> (?n \<le> ff_size ?f1 \<and> ?a + ff_size ?f1 \<le> POOL_SIZE)"
        using fits sz by auto
      have l64: "?n < 2 ^ 64" using len(1) by simp
      have w: "fs_write (Some (FsFile i)) offset buf len s = Some (len, ?s')"
        using fs_write_in_place [OF g sl(1) _ f(2) d _ room l64 len(2)] by simp
      have t: "table_ok ?s'"
      proof (rule table_ok_update [OF ok i])
        show "file_ok (?a + ?c) ?f'" using f(1,2) sz by (simp add: file_ok_def)
        show "length (ff_name ?f') = NAME_SIZE" using sl(4) by simp
        show "apart ?f' (fs_files s ! j)" if j: "j < file_count s" "j \<noteq> i" for j
          using others(3) [OF j] by (auto simp: apart_def)
      qed (use fits in auto)
      have ci: "content ?s' i = overlay (content s i) offset ?b"
      proof -
        have "content ?s' i = pool_load ?m ?a (max (ff_size ?f) (offset + length ?b))"
          using sl(1) lb by (simp add: content_def)
        also have "\<dots> = overlay (pool_load ?m1 ?a (ff_size ?f)) offset ?b" by (rule written_content)
        also have "pool_load ?m1 ?a (ff_size ?f) = content s i" unfolding c0 by simp
        finally show ?thesis .
      qed
      have cj: "content ?s' j = content s j" if j: "j < file_count s" "j \<noteq> i" for j
      proof (rule cong [OF j])
        fix b x assume b: "ff_data (fs_files s ! j) = DPool b" "b \<le> x" "x < b + ff_size (fs_files s ! j)"
        then have x: "x < ?a" using others [OF j b(1)] by simp
        then have "?m x = ?m1 x" by (intro written_other) simp
        then show "?m x = mem_pool s x" using x by (simp add: stored_other)
      qed
      show ?thesis using written [OF w t _ ci cj] by simp
    qed
  qed
qed

section \<open>Lookup by name\<close>

text \<open>A name without a leading \<open>./\<close>, and which stored names \<open>e\<close> a requested name \<open>n\<close> finds.\<close>

definition strip_dot :: "bytes \<Rightarrow> bytes" where
  "strip_dot n = (if take 2 n = [46, 47] then drop 2 n else n)"

definition name_matches :: "bytes \<Rightarrow> bytes \<Rightarrow> bool" where
  "name_matches n e \<longleftrightarrow> strip_dot e = take 31 (strip_dot n) \<or> e = take 31 (strip_dot n) \<or> e = n"

lemma dot_slash: "terminated (lit ''./'')" "cstr (lit ''./'') = [46, 47]" "take 2 (cstr (lit ''./'')) = [46, 47]"
  by (simp_all add: lit_def cstr_Cons)

lemma strncmp_dot:
  assumes "terminated s"
  obtains r where "strncmp s (lit ''./'') 2 = Some r" and "r = 0 \<longleftrightarrow> take 2 (cstr s) = [46, 47]"
  using strncmp_defined [OF assms dot_slash(1), of 2] strncmp_zero_iff [OF assms dot_slash(1), of 2]
    dot_slash(3) by auto

lemma str_eq_iff:
  assumes "terminated a" and "terminated b"
  shows "str_eq a b = Some (cstr a = cstr b)"
  using strcmp_defined [OF assms] strcmp_zero_iff [OF assms] by (auto simp: str_eq_def)

lemma take2_length: "take 2 n = [46, 47 :: u8] \<Longrightarrow> 2 \<le> length n"
  by (cases n rule: list.exhaust; cases "tl n") auto

lemma processed_name_eq:
  assumes "terminated name"
  obtains p where "processed_name name = Some p" and "terminated p"
    and "cstr p = take 31 (strip_dot (cstr name))"
proof -
  obtain r where r: "strncmp name (lit ''./'') 2 = Some r" "r = 0 \<longleftrightarrow> take 2 (cstr name) = [46, 47]"
    by (rule strncmp_dot [OF assms])
  let ?n = "if r = 0 then drop 2 name else name"
  have n: "terminated ?n \<and> cstr ?n = strip_dot (cstr name)"
    using r(2) assms terminated_drop [OF assms, of 2] cstr_drop [of 2 name] take2_length [of "cstr name"]
    by (auto simp: strip_dot_def)
  have ne: "replicate NAME_SIZE (0 :: u8) \<noteq> []" by (simp add: fs_consts)
  obtain p where "copy_name (replicate NAME_SIZE 0) ?n = Some p" "terminated p"
    "cstr p = take (length (replicate NAME_SIZE (0 :: u8)) - 1) (cstr ?n)"
    using copy_name_eq [OF conjunct1 [OF n] ne] by metis
  then show ?thesis using that r(1) n by (simp add: processed_name_def fs_consts)
qed

lemma processed_entry_eq:
  assumes "terminated fname"
  obtains p where "processed_entry fname = Some p" and "terminated p"
    and "cstr p = strip_dot (take 31 (cstr fname))"
proof -
  have ne: "replicate NAME_SIZE (0 :: u8) \<noteq> []" by (simp add: fs_consts)
  obtain e where e: "copy_name (replicate NAME_SIZE 0) fname = Some e" "terminated e"
    "cstr e = take 31 (cstr fname)"
    using copy_name_eq [OF assms ne] by (auto simp: fs_consts)
  obtain r where r: "strncmp e (lit ''./'') 2 = Some r" "r = 0 \<longleftrightarrow> take 2 (cstr e) = [46, 47]"
    by (rule strncmp_dot [OF e(2)])
  show ?thesis
  proof (cases "r = 0")
    case False
    then show ?thesis using that e r by (simp add: processed_entry_def strip_dot_def)
  next
    case True
    obtain w where w: "cstr e = [46, 47] @ w"
      using r(2) True append_take_drop_id [of 2 "cstr e"] by metis
    obtain u where u: "e = cstr e @ 0 # u" by (rule cstr_split [OF e(2)])
    have nz: "0 \<notin> set w" using zero_notin_cstr [of e] unfolding w by simp
    have len: "strlen e = Some (length w + 2)" using strlen_eq [OF e(2)] w by simp
    have el: "e = [46, 47] @ w @ 0 # u" using u unfolding w by simp
    then have elen: "2 + (length w + 1) \<le> length e" by simp
    let ?e = "w @ 0 # drop (length w + 1) e"
    have mv: "memmove e 0 2 (length w + 2 - 1) = Some ?e"
    proof -
      have "memmove e 0 2 (length w + 1) = Some (take 0 e @ take (length w + 1) (drop 2 e) @ drop (0 + (length w + 1)) e)"
        by (rule memmove_eq) (use elen in auto)
      moreover have "take (length w + 1) (drop 2 e) = w @ [0]" by (subst el) simp
      ultimately show ?thesis by simp
    qed
    have "wr ?e (length w + 2 - 2) 0 = Some ?e" by (simp add: list_update_append)
    then have "processed_entry fname = Some ?e"
      using e(1) r(1) True len mv by (simp add: processed_entry_def)
    moreover have "cstr ?e = w" using nz by (rule cstr_append_zero)
    moreover have "strip_dot (take 31 (cstr fname)) = w" using w e(3) by (simp add: strip_dot_def)
    ultimately show ?thesis using that by simp
  qed
qed

lemma entry_matches_eq:
  assumes "terminated fname" and "length (cstr fname) \<le> 31" and "terminated name"
    and p: "terminated p" "cstr p = take 31 (strip_dot (cstr name))"
  shows "entry_matches p name fname = Some (name_matches (cstr name) (cstr fname))"
proof -
  obtain e where "processed_entry fname = Some e" "terminated e" "cstr e = strip_dot (take 31 (cstr fname))"
    by (rule processed_entry_eq [OF assms(1)])
  then show ?thesis
    using assms by (auto simp: entry_matches_def str_eq_iff name_matches_def)
qed

text \<open>The first table entry a name finds.\<close>

definition file_name :: "fs_state \<Rightarrow> nat \<Rightarrow> bytes" where
  "file_name s i = cstr (ff_name (fs_files s ! i))"

definition lookup_file :: "fs_state \<Rightarrow> bytes \<Rightarrow> nat option" where
  "lookup_file s n = find (\<lambda>i. name_matches n (file_name s i)) [0..<file_count s]"

lemma find_upt_Suc_shift: "find P (map Suc xs) = map_option Suc (find (\<lambda>i. P (Suc i)) xs)"
  by (induction xs) auto

lemma find_entry_eq:
  assumes "\<forall>f \<in> set fs. entry_matches p name (ff_name f) = Some (M (ff_name f))"
  shows "find_entry p name fs k = Some (map_option (\<lambda>i. k + i) (find (\<lambda>i. M (ff_name (fs ! i))) [0..<length fs]))"
  using assms
proof (induction fs arbitrary: k)
  case (Cons f fs)
  have "[0..<length (f # fs)] = 0 # map Suc [0..<length fs]"
    by (simp add: upt_conv_Cons map_Suc_upt del: upt_Suc)
  moreover have "(+) (Suc k) = (\<lambda>x. Suc (k + x))" by auto
  ultimately show ?case
    using Cons by (simp add: find_upt_Suc_shift option.map_comp comp_def)
qed simp

lemma name_bound:
  assumes "table_ok s" and "i < file_count s"
  shows "terminated (ff_name (fs_files s ! i))" "length (file_name s i) \<le> 31"
proof -
  show t: "terminated (ff_name (fs_files s ! i))" using table_slot(3) [OF assms] by (simp add: file_ok_def)
  show "length (file_name s i) \<le> 31"
    using length_cstr_less [OF t] table_slot(4) [OF assms] by (simp add: file_name_def fs_consts)
qed

lemma nth_mem_take: "f \<in> set (take n xs) \<Longrightarrow> \<exists>i < n. i < length xs \<and> f = xs ! i"
  by (auto simp: in_set_conv_nth)

lemma fs_open_eq:
  assumes ok: "table_ok s" and fs: "active_fs s \<noteq> FS_TYPE_EXT2"
    and name: "terminated name" "cstr name \<noteq> []"
  shows "fs_open name s = Some (map_option FsFile (lookup_file s (cstr name)), s)"
proof -
  have c: "rd name 0 = Some (name ! 0)" "name ! 0 \<noteq> 0"
    using name by (cases name; auto simp: cstr_Cons split: if_splits)+
  obtain p where p: "processed_name name = Some p" "terminated p" "cstr p = take 31 (strip_dot (cstr name))"
    by (rule processed_name_eq [OF name(1)])
  let ?fs = "take (file_count s) (fs_files s)"
  have len: "length ?fs = file_count s" using ok by (simp add: table_ok_def)
  have "find_entry p name ?fs 0 = Some (map_option (\<lambda>i. 0 + i)
      (find (\<lambda>i. name_matches (cstr name) (cstr (ff_name (?fs ! i)))) [0..<length ?fs]))"
  proof (rule find_entry_eq [where M = "\<lambda>e. name_matches (cstr name) (cstr e)"], rule ballI)
    fix f assume fin: "f \<in> set ?fs"
    from nth_mem_take [OF fin] obtain i where i: "i < file_count s" and f: "f = fs_files s ! i" by auto
    have b: "terminated (ff_name f)" "length (cstr (ff_name f)) \<le> 31"
      using name_bound [OF ok i] unfolding f file_name_def by simp_all
    show "entry_matches p name (ff_name f) = Some (name_matches (cstr name) (cstr (ff_name f)))"
      by (rule entry_matches_eq [OF b name(1) p(2,3)])
  qed
  also have "find (\<lambda>i. name_matches (cstr name) (cstr (ff_name (?fs ! i)))) [0..<length ?fs]
      = lookup_file s (cstr name)"
    unfolding lookup_file_def len file_name_def by (intro find_cong) auto
  finally show ?thesis
    using c fs p(1) by (simp add: fs_open_def option.map_ident)
qed

lemma lookup_file_Some:
  "lookup_file s n = Some i \<Longrightarrow> i < file_count s \<and> name_matches n (file_name s i)"
  by (auto simp: lookup_file_def find_Some_iff)

section \<open>Adding entries\<close>

lemma table_ok_append:
  assumes ok: "table_ok s" and room: "file_count s < FS_MAX_FILES"
    and f: "file_ok used f" "length (ff_name f) = NAME_SIZE" "mem_used s \<le> used" "used \<le> POOL_SIZE"
    and fresh: "\<And>a. ff_data f = DPool a \<Longrightarrow> mem_used s \<le> a"
  shows "table_ok (s\<lparr>fs_files := (fs_files s)[file_count s := f], file_count := file_count s + 1,
     mem_pool := m, mem_used := used\<rparr>)"
proof -
  let ?n = "file_count s" and ?fs = "(fs_files s)[file_count s := f]"
  have len: "length (fs_files s) = FS_MAX_FILES" using ok by (simp add: table_ok_def)
  have "set ?fs \<subseteq> insert f (set (fs_files s))" by (rule set_update_subset_insert)
  then have names: "\<forall>g \<in> set ?fs. length (ff_name g) = NAME_SIZE"
    using ok f(2) by (auto simp: table_ok_def)
  have nth: "?fs ! j = (if j = ?n then f else fs_files s ! j)" for j
    using len room by simp
  have old: "file_ok (mem_used s) (fs_files s ! j)" if "j < ?n" for j
    using ok that by (simp add: table_ok_def)
  have ap: "apart f (fs_files s ! j)" if "j < ?n" for j
    using old [OF that] fresh by (force simp: file_ok_def apart_def)
  have oks: "file_ok used (?fs ! j)" if "j < Suc ?n" for j
    using that old [of j] file_ok_mono [OF _ f(3)] f(1) by (auto simp: nth less_Suc_eq)
  have aps: "apart (?fs ! j) (?fs ! k)" if "j < Suc ?n" "k < Suc ?n" "j \<noteq> k" for j k
    using that ap ok apart_sym by (auto simp: nth less_Suc_eq table_ok_def)
  show ?thesis using len names oks aps f(4) room by (simp add: table_ok_def Suc_le_eq)
qed

text \<open>Old entries keep name and content when only the pool above \<open>mem_used\<close> is written.\<close>

lemma append_keeps:
  assumes ok: "table_ok s" and j: "j < file_count s"
    and m: "\<And>x. x < mem_used s \<Longrightarrow> m x = mem_pool s x"
  shows "content (s\<lparr>fs_files := (fs_files s)[file_count s := f], file_count := c, mem_pool := m,
      mem_used := used\<rparr>) j = content s j"
    and "file_name (s\<lparr>fs_files := (fs_files s)[file_count s := f], file_count := c, mem_pool := m,
      mem_used := used\<rparr>) j = file_name s j"
proof -
  have "file_ok (mem_used s) (fs_files s ! j)" by (rule table_slot(3) [OF ok j])
  then show "content (s\<lparr>fs_files := (fs_files s)[file_count s := f], file_count := c, mem_pool := m,
      mem_used := used\<rparr>) j = content s j"
    using j m by (auto simp: content_def file_ok_def intro!: pool_load_eqI split: data_ptr.splits)
  show "file_name (s\<lparr>fs_files := (fs_files s)[file_count s := f], file_count := c, mem_pool := m,
      mem_used := used\<rparr>) j = file_name s j"
    using j by (simp add: file_name_def)
qed

lemma copy_file_name:
  assumes "terminated name" and "length d = NAME_SIZE"
  obtains d' where "copy_name d name = Some d'" and "cstr d' = take 31 (cstr name)"
    and "length d' = NAME_SIZE" and "terminated d'"
proof -
  have "d \<noteq> []" "length d - 1 = 31" using assms(2) by (auto simp: fs_consts)
  then show ?thesis using copy_name_eq [OF assms(1), of d] assms(2) that by metis
qed

lemma fs_create_file_cases:
  assumes ok: "table_ok s" and fs: "active_fs s \<noteq> FS_TYPE_EXT2"
    and name: "terminated name" "cstr name \<noteq> []"
  obtains (exists) i where "lookup_file s (cstr name) = Some i"
      and "fs_create_file name s = Some (Some (FsFile i), s)"
  | (full) "lookup_file s (cstr name) = None" and "file_count s = FS_MAX_FILES"
      and "fs_create_file name s = Some (None, s)"
  | (nomem) g where "lookup_file s (cstr name) = None" and "POOL_SIZE < mem_used s + 256"
      and "fs_create_file name s = Some (None, s\<lparr>fs_files := (fs_files s)[file_count s := g]\<rparr>)"
  | (created) s' where "lookup_file s (cstr name) = None"
      and "fs_create_file name s = Some (Some (FsFile (file_count s)), s')"
      and "table_ok s'" and "file_count s' = file_count s + 1" and "active_fs s' = active_fs s"
      and "content s' (file_count s) = []" and "file_name s' (file_count s) = take 31 (cstr name)"
      and "\<And>j. j < file_count s \<Longrightarrow> content s' j = content s j \<and> file_name s' j = file_name s j"
proof (cases "lookup_file s (cstr name)")
  case (Some i)
  then show ?thesis
    using that(1) fs_open_eq [OF assms] by (simp add: fs_create_file_def)
next
  case None
  then have op: "fs_open name s = Some (None, s)" using fs_open_eq [OF assms] by simp
  let ?n = "file_count s"
  have len: "length (fs_files s) = FS_MAX_FILES" "?n \<le> FS_MAX_FILES" "mem_used s \<le> POOL_SIZE"
    using ok by (simp_all add: table_ok_def)
  show ?thesis
  proof (cases "?n < FS_MAX_FILES")
    case False
    then show ?thesis using that(2) None op fs len by (simp add: fs_create_file_def)
  next
    case room: True
    then have slot: "?n < length (fs_files s)" using len by simp
    then have nl: "length (ff_name (fs_files s ! ?n)) = NAME_SIZE"
      using ok by (simp add: table_ok_def)
    obtain d where d: "copy_name (ff_name (fs_files s ! ?n)) name = Some d"
      "cstr d = take 31 (cstr name)" "length d = NAME_SIZE" "terminated d"
      by (rule copy_file_name [OF name(1) nl])
    let ?f1 = "(fs_files s ! ?n)\<lparr>ff_name := d, ff_capacity := 256\<rparr>"
    have al: "size_add (mem_used s) 256 = mem_used s + 256" using len(3) by (simp add: fs_consts)
    show ?thesis
    proof (cases "mem_used s + 256 > POOL_SIZE")
      case True
      then have "fs_create_file name s
          = Some (None, s\<lparr>fs_files := (fs_files s)[?n := ?f1\<lparr>ff_data := DNull\<rparr>]\<rparr>)"
        using op fs room slot d(1) al by (simp add: fs_create_file_def fs_alloc_def Let_def)
      then show ?thesis using that(3) None True by blast
    next
      case False
      let ?a = "mem_used s" and ?m = "stored (mem_pool s) (mem_used s) [0]"
      let ?f = "?f1\<lparr>ff_data := DPool ?a, ff_size := 0, ff_is_dir := False, ff_mode := 0x1A4,
                 ff_fs_type := FS_TYPE_INITRAMFS\<rparr>"
      let ?s = "s\<lparr>fs_files := (fs_files s)[?n := ?f], file_count := ?n + 1, mem_pool := ?m,
                 mem_used := ?a + 256\<rparr>"
      have res: "fs_create_file name s = Some (Some (FsFile ?n), ?s)"
        using op fs room slot d(1) al False
        by (simp add: fs_create_file_def fs_alloc_def pool_store_eq Let_def)
      have t: "table_ok ?s"
        by (rule table_ok_append [OF ok room]) (use d False in \<open>simp_all add: file_ok_def\<close>)
      have old: "content ?s j = content s j \<and> file_name ?s j = file_name s j" if "j < ?n" for j
        by (intro conjI append_keeps [OF ok that]) (simp_all add: stored_other)
      show ?thesis
        by (rule that(4) [OF None res t _ _ _ _ old]) (use slot d in \<open>simp_all add: content_def file_name_def\<close>)
    qed
  qed
qed

text \<open>A created file is found again, unless its name is a \<open>./\<close> name that had to be cut.\<close>

lemma created_name_matches:
  assumes "\<not> (take 2 n = [46, 47] \<and> 31 < length n)"
  shows "name_matches n (take 31 n)"
proof (cases "take 2 n = [46, 47]")
  case False
  then show ?thesis by (simp add: name_matches_def strip_dot_def)
next
  case True
  with assms show ?thesis by (simp add: name_matches_def)
qed

lemma lookup_append:
  assumes "lookup_file s n = None" and "file_count s' = file_count s + 1"
    and "\<And>j. j < file_count s \<Longrightarrow> file_name s' j = file_name s j"
  shows "lookup_file s' n = (if name_matches n (file_name s' (file_count s)) then Some (file_count s) else None)"
proof -
  have none: "\<not> name_matches n (file_name s' i)" if "i < file_count s" for i
    using assms(1) that by (auto simp: lookup_file_def find_None_iff assms(3))
  have "find (\<lambda>i. name_matches n (file_name s' i)) [0..<file_count s] = None"
    using none by (auto simp: find_None_iff)
  moreover have "find P (xs @ [x]) = (case find P xs of None \<Rightarrow> if P x then Some x else None | Some y \<Rightarrow> Some y)"
    for P and xs :: "nat list" and x
    by (induction xs) auto
  ultimately show ?thesis by (simp add: lookup_file_def assms(2))
qed

section \<open>The file system as a store\<close>

text \<open>
  A write fits unless its end falls exactly on the capacity of a file it makes longer: there the
  NUL that \<open>fs_write\<close> stores after the content lies outside the file's part of the pool.
\<close>

definition fs_fits :: "fs_state \<Rightarrow> nat \<Rightarrow> nat \<Rightarrow> nat \<Rightarrow> bool" where
  "fs_fits s i off n \<longleftrightarrow> off + n < 2 ^ 62 \<and>
     \<not> (ff_size (fs_files s ! i) < off + n \<and> off + n = ff_capacity (fs_files s ! i))"

definition fs_used :: "fs_state \<Rightarrow> nat set" where
  "fs_used s = {i. i < file_count s}"

definition fs_read_slice :: "nat \<Rightarrow> nat \<Rightarrow> nat \<Rightarrow> fs_state \<Rightarrow> bytes option" where
  "fs_read_slice i off n s = map_option (\<lambda>(k, d). take k d) (fs_read (Some (FsFile i)) off (replicate n 0) n s)"

definition fs_write_all :: "nat \<Rightarrow> nat \<Rightarrow> bytes \<Rightarrow> fs_state \<Rightarrow> (nat \<times> fs_state) option" where
  "fs_write_all i off b s = fs_write (Some (FsFile i)) off b (length b) s"

lemma fs_read_slice_eq:
  "table_ok s \<Longrightarrow> i < file_count s \<Longrightarrow> fs_read_slice i off n s = Some (take n (drop off (content s i)))"
  by (simp add: fs_read_slice_def fs_read_eq Let_def) (simp add: min_def)

text \<open>Writing to an entry without data (a directory) stores nothing.\<close>

lemma fs_write_null:
  assumes "table_ok s" and "i < file_count s" and "ff_data (fs_files s ! i) = DNull"
  shows "fs_write (Some (FsFile i)) off b n s = Some (0, s)"
  using table_slot [OF assms(1,2)] assms(3) by (simp add: fs_write_def)

lemma fs_write_all_total:
  assumes ok: "table_ok s" and i: "i < file_count s" and fits: "fs_fits s i off (length b)"
  shows "\<exists>n s'. fs_write_all i off b s = Some (n, s') \<and> table_ok s' \<and> fs_used s' = fs_used s \<and>
    (\<forall>j \<in> fs_used s. j \<noteq> i \<longrightarrow> content s' j = content s j) \<and>
    (n = 0 \<and> content s' i = content s i \<or> n = length b \<and> content s' i = overlay (content s i) off b)"
proof (cases "ff_data (fs_files s ! i)")
  case DNull
  then show ?thesis using fs_write_null [OF ok i] ok by (simp add: fs_write_all_def)
next
  case (DAddr a)
  then show ?thesis using table_slot(3) [OF ok i] by (simp add: file_ok_def)
next
  case (DPool a)
  have l: "off + length b < 2 ^ 62" "length b \<le> length b" using fits by (simp_all add: fs_fits_def)
  have f: "\<not> (ff_size (fs_files s ! i) < off + length b \<and> off + length b = ff_capacity (fs_files s ! i))"
    using fits by (simp add: fs_fits_def)
  show ?thesis
  proof (cases rule: fs_write_cases [OF ok i DPool l f, case_names full written])
    case full
    then show ?thesis using ok by (simp add: fs_write_all_def)
  next
    case (written f m used)
    then show ?thesis
      by (intro exI [of _ "length b"]
          exI [of _ "s\<lparr>fs_files := (fs_files s)[i := f], mem_pool := m, mem_used := used\<rparr>"])
        (simp add: fs_write_all_def fs_used_def)
  qed
qed

interpretation fsys: writable_store table_ok fs_used content fs_read_slice fs_write_all fs_fits
proof unfold_locales
  show "table_ok s \<Longrightarrow> i \<in> fs_used s \<Longrightarrow> fs_read_slice i off n s = Some (take n (drop off (content s i)))"
    for s i off n
    by (simp add: fs_used_def fs_read_slice_eq)
  show "table_ok s \<Longrightarrow> i \<in> fs_used s \<Longrightarrow> fs_fits s i off (length b) \<Longrightarrow>
      \<exists>n s'. fs_write_all i off b s = Some (n, s') \<and> table_ok s' \<and> fs_used s' = fs_used s \<and>
        (\<forall>g \<in> fs_used s. g \<noteq> i \<longrightarrow> content s' g = content s g) \<and>
        (n = 0 \<and> content s' i = content s i \<or> n = length b \<and> content s' i = overlay (content s i) off b)"
    for s i off b
    using fs_write_all_total [of s i off b] by (simp add: fs_used_def)
qed

section \<open>Properties of files\<close>

text \<open>Two files next to each other in the pool, for the witnesses.\<close>

definition example_file :: "bytes \<Rightarrow> nat \<Rightarrow> nat \<Rightarrow> nat \<Rightarrow> fs_file" where
  "example_file name a sz cap = \<lparr>ff_name = name @ replicate (NAME_SIZE - length name) 0, ff_data = DPool a,
     ff_size = sz, ff_capacity = cap, ff_mode = 0x1A4, ff_is_dir = False, ff_fs_type = FS_TYPE_INITRAMFS\<rparr>"

definition fs_example :: fs_state where
  "fs_example = fs_boot\<lparr>
     fs_files := (replicate FS_MAX_FILES zero_file)
       [0 := example_file (str ''a'') 0 3 8, 1 := example_file (str ''b'') 8 2 2],
     file_count := 2, mem_pool := (\<lambda>i. of_nat i + 65), mem_used := 10\<rparr>"

lemma less_2_cases_nat: "i < 2 \<longleftrightarrow> i = 0 \<or> i = (1 :: nat)"
  by auto

lemma fs_example_files:
  "fs_files fs_example ! 0 = example_file (str ''a'') 0 3 8"
  "fs_files fs_example ! Suc 0 = example_file (str ''b'') 8 2 2"
  "file_count fs_example = 2" "mem_used fs_example = 10" "active_fs fs_example = FS_TYPE_INITRAMFS"
  "length (fs_files fs_example) = FS_MAX_FILES"
  by (simp_all add: fs_example_def fs_boot_def FS_MAX_FILES_def)

lemma fs_example_ok: "table_ok fs_example"
proof -
  have sub: "set (fs_files fs_example) \<subseteq>
      {example_file (str ''b'') 8 2 2, example_file (str ''a'') 0 3 8, zero_file}"
    by (auto simp: fs_example_def dest!: set_update_subset_insert [THEN subsetD])
  have names: "\<forall>f \<in> set (fs_files fs_example). length (ff_name f) = NAME_SIZE"
    using sub by (auto simp: example_file_def zero_file_def fs_consts)
  have ok: "file_ok 10 (example_file (str ''a'') 0 3 8)" "file_ok 10 (example_file (str ''b'') 8 2 2)"
    by (auto simp: file_ok_def example_file_def fs_consts)
  have ap: "apart (example_file (str ''a'') 0 3 8) (example_file (str ''b'') 8 2 2)"
    by (simp add: apart_def example_file_def)
  show ?thesis
    using names ok ap apart_sym unfolding table_ok_def fs_example_files less_2_cases_nat
    by (auto simp: fs_example_files fs_consts)
qed

lemma fs_example_content: "content fs_example 0 = [65, 66, 67]" "content fs_example (Suc 0) = [73, 74]"
proof -
  have m: "mem_pool fs_example = (\<lambda>i. of_nat i + 65)" by (simp add: fs_example_def)
  show "content fs_example 0 = [65, 66, 67]" "content fs_example (Suc 0) = [73, 74]"
    unfolding content_def fs_example_files m by (simp_all add: example_file_def pool_load_def upt_rec)
qed

section \<open>A write that ends at the capacity\<close>

text \<open>The write makes the file longer and end exactly at the end of its part of the pool.\<close>

definition exact_fit :: "fs_file \<Rightarrow> nat \<Rightarrow> bool" where
  "exact_fit f n \<longleftrightarrow> ff_size f < n \<and> n = ff_capacity f"

lemma fs_write_nul_outside:
  assumes ok: "table_ok s" and i: "i < file_count s" and d: "ff_data (fs_files s ! i) = DPool a"
    and fit: "exact_fit (fs_files s ! i) (off + length b)" and last: "a + (off + length b) = POOL_SIZE"
  shows "fs_write (Some (FsFile i)) off b (length b) s = None"
proof -
  let ?f = "fs_files s ! i" and ?n = "off + length b"
  have f: "ff_fs_type ?f \<noteq> FS_TYPE_EXT2" using table_slot(3) [OF ok i] d by (simp add: file_ok_def)
  have grow: "fs_grow ?f a ?n s = Some (Some ?f, s)" using fit by (simp add: fs_grow_def exact_fit_def)
  have n: "size_add off (length b) = ?n" using last by (simp add: fs_consts)
  have sz: "ff_size ?f < ?n" using fit by (simp add: exact_fit_def)
  let ?s2 = "s\<lparr>fs_files := (fs_files s)[i := ?f]\<rparr>"
  let ?m1 = "if off > ff_size ?f then stored (mem_pool s) (a + ff_size ?f) (replicate (off - ff_size ?f) 0) else mem_pool s"
  have s2: "set_file (FsFile i) ?f s = Some ?s2" using table_slot(1) [OF ok i] by (simp add: set_file_def)
  have s3: "(if off > ff_size ?f then pool_store (a + ff_size ?f) (replicate (off - ff_size ?f) 0) ?s2 else Some ?s2)
     = Some (?s2\<lparr>mem_pool := ?m1\<rparr>)"
    using last by (auto simp: pool_store_eq)
  have s4: "pool_store (a + off) b (?s2\<lparr>mem_pool := ?m1\<rparr>) = Some (?s2\<lparr>mem_pool := stored ?m1 (a + off) b\<rparr>)"
    using last by (auto simp: pool_store_eq)
  have "take (length b) b = b" by simp
  note start = fs_write_def option.case table_slot(2) [OF ok i] Option.bind.bind_lunit d if_not_P [OF f] n Let_def
      pool_ptr_def data_ptr.case grow prod.case s2 s3 if_P [OF order.refl] this s4 if_P [OF sz]
  have "pool_store (a + ?n) [0] t = None" for t using last by (simp add: pool_store_def)
  then show ?thesis unfolding start by (cases "set_file (FsFile i) (?f\<lparr>ff_size := ?n\<rparr>) (?s2\<lparr>mem_pool := stored ?m1 (a + off) b\<rparr>)") simp_all
qed

lemma fs_write_exact:
  assumes ok: "table_ok s" and i: "i < file_count s" and d: "ff_data (fs_files s ! i) = DPool a"
    and fit: "exact_fit (fs_files s ! i) (off + length b)" and last: "a + (off + length b) \<noteq> POOL_SIZE"
  obtains s' where "fs_write (Some (FsFile i)) off b (length b) s = Some (length b, s')" and "table_ok s'"
    and "file_count s' = file_count s" and "content s' i = overlay (content s i) off b"
    and "\<And>j. j < file_count s \<Longrightarrow> j \<noteq> i \<Longrightarrow> content s' j =
      (if ff_data (fs_files s ! j) = DPool (a + (off + length b)) \<and> content s j \<noteq> [] then 0 # tl (content s j) else content s j)"
    and "\<And>j. j < file_count s \<Longrightarrow> file_name s' j = file_name s j"
proof -
  let ?f = "fs_files s ! i" and ?n = "off + length b"
  let ?f' = "?f\<lparr>ff_size := ?n\<rparr>" and ?m = "written (mem_pool s) a (ff_size ?f) off b"
  let ?s' = "s\<lparr>fs_files := (fs_files s)[i := ?f'], mem_pool := ?m, mem_used := mem_used s\<rparr>"
  note sl = table_slot [OF ok i]
  have used: "mem_used s \<le> POOL_SIZE" using ok by (simp add: table_ok_def)
  have f: "terminated (ff_name ?f)" "ff_fs_type ?f \<noteq> FS_TYPE_EXT2" "a + ff_capacity ?f \<le> mem_used s"
    using sl(3) d by (simp_all add: file_ok_def)
  have fit': "ff_size ?f < ?n" "?n = ff_capacity ?f" "max (ff_size ?f) ?n = ?n" using fit by (simp_all add: exact_fit_def)
  have grow: "fs_grow ?f a ?n s = Some (Some ?f, s)" using fit' by (simp add: fs_grow_def)
  have room: "a + max (ff_size ?f) ?n < POOL_SIZE \<or> (?n \<le> ff_size ?f \<and> a + ff_size ?f \<le> POOL_SIZE)"
    using fit' f(3) used last by linarith
  have n64: "?n < 2 ^ 64" using fit' f(3) used by (simp add: fs_consts)
  have w: "fs_write (Some (FsFile i)) off b (length b) s = Some (length b, ?s')"
    using fs_write_in_place [OF grow sl(1) refl f(2) d d room n64 order.refl] fit'(3) by simp
  have ap: "apart ?f (fs_files s ! j)" if "j < file_count s" "j \<noteq> i" for j
    using ok i that by (simp add: table_ok_def)
  have "file_ok (mem_used s) ?f'" using sl(3) d fit' by (simp add: file_ok_def)
  moreover have "apart ?f' (fs_files s ! j)" if "j < file_count s" "j \<noteq> i" for j
    using ap [OF that] by (simp add: apart_def)
  ultimately have t: "table_ok ?s'" using table_ok_update [OF ok i _ _ order.refl used] sl(4) by simp
  have ci: "content ?s' i = overlay (content s i) off b"
    using sl(1) d written_content [of "mem_pool s" a "ff_size ?f" off b] fit'(3) by (simp add: content_def)
  have same: "?m x = mem_pool s x" if "x < a \<or> a + ?n < x" for x
    by (rule written_other) (use that fit'(3) in auto)
  have zero: "?m (a + ?n) = 0" using fit'(1) by (simp add: written_def Let_def stored_def)
  have others: "content ?s' j =
      (if ff_data (fs_files s ! j) = DPool (a + ?n) \<and> content s j \<noteq> [] then 0 # tl (content s j) else content s j)"
    if j: "j < file_count s" "j \<noteq> i" for j
  proof (cases "ff_data (fs_files s ! j)")
    case (DPool c)
    let ?g = "fs_files s ! j"
    have g: "ff_size ?g \<le> ff_capacity ?g" using table_slot(3) [OF ok j(1)] DPool by (simp add: file_ok_def)
    have old: "content s j = pool_load (mem_pool s) c (ff_size ?g)" "content ?s' j = pool_load ?m c (ff_size ?g)"
      using DPool j by (simp_all add: content_def)
    show ?thesis
    proof (cases "c = a + ?n")
      case True
      show ?thesis
      proof (cases "ff_size ?g")
        case 0
        then show ?thesis unfolding old by (simp add: pool_load_def)
      next
        case (Suc k)
        have "pool_load ?m (a + ?n + 1) k = pool_load (mem_pool s) (a + ?n + 1) k"
          by (intro pool_load_eqI same) auto
        then show ?thesis unfolding old Suc True pool_load_Suc DPool using zero True by simp
      qed
    next
      case False
      have "c + ff_capacity ?g \<le> a \<or> a + ?n \<le> c" using ap [OF j] d DPool fit'(2) by (auto simp: apart_def)
      then have "?m x = mem_pool s x" if "c \<le> x" "x < c + ff_size ?g" for x
        using that g False by (intro same) auto
      then have "content ?s' j = content s j" unfolding old by (intro pool_load_eqI) auto
      then show ?thesis using False DPool by simp
    qed
  qed (use j in \<open>simp_all add: content_def\<close>)
  have "file_name ?s' j = file_name s j" for j using sl(1) by (cases "j = i") (simp_all add: file_name_def)
  then show ?thesis using that [OF w t _ ci others] by simp
qed

text \<open>
  C2 \<open>fs_write\<close> on a file of the table, every outcome (offset and length below \<open>2 ^ 62\<close>). The pool may have no room for a grown buffer: \<open>0\<close> is
  returned and nothing has changed. Otherwise all bytes are stored, the content is the old one
  overlaid with them (a gap reads as zeros), the names stay, the table stays in order, and every other
  file keeps its content, with one exception: if the write makes the file end exactly at its
  capacity, the NUL stored after the content falls on the next byte of the pool. Then a file that
  begins there loses its first byte to 0, and if there is no next byte the store is outside the pool,
  which is undefined.
\<close>

theorem fs_write_correct:
  assumes "table_ok s" and "i < file_count s" and "ff_data (fs_files s ! i) = DPool a"
    and "off + length b < 2 ^ 62"
  shows "if exact_fit (fs_files s ! i) (off + length b) \<and> a + (off + length b) = POOL_SIZE
     then fs_write (Some (FsFile i)) off b (length b) s = None
     else (fs_write (Some (FsFile i)) off b (length b) s = Some (0, s) \<and>
       ff_capacity (fs_files s ! i) < off + length b \<and> POOL_SIZE < mem_used s + 2 * (off + length b)) \<or>
     (\<exists>s'. fs_write (Some (FsFile i)) off b (length b) s = Some (length b, s') \<and> table_ok s' \<and>
       file_count s' = file_count s \<and> content s' i = overlay (content s i) off b \<and>
       (\<forall>j. j < file_count s \<and> j \<noteq> i \<longrightarrow> content s' j =
          (if exact_fit (fs_files s ! i) (off + length b) \<and> ff_data (fs_files s ! j) = DPool (a + (off + length b)) \<and>
              content s j \<noteq> [] then 0 # tl (content s j) else content s j)) \<and>
       (\<forall>j. j < file_count s \<longrightarrow> file_name s' j = file_name s j))"
proof (cases "exact_fit (fs_files s ! i) (off + length b)")
  case True
  show ?thesis
  proof (cases "a + (off + length b) = POOL_SIZE")
    case last: True
    then show ?thesis using fs_write_nul_outside [OF assms(1-3) True] True by simp
  next
    case False
    obtain s' where s': "fs_write (Some (FsFile i)) off b (length b) s = Some (length b, s')" "table_ok s'"
      "file_count s' = file_count s" "content s' i = overlay (content s i) off b"
      "\<And>j. j < file_count s \<Longrightarrow> j \<noteq> i \<Longrightarrow> content s' j =
        (if ff_data (fs_files s ! j) = DPool (a + (off + length b)) \<and> content s j \<noteq> [] then 0 # tl (content s j) else content s j)"
      "\<And>j. j < file_count s \<Longrightarrow> file_name s' j = file_name s j"
      using fs_write_exact [OF assms(1-3) True False] by blast
    have out: "\<not> (exact_fit (fs_files s ! i) (off + length b) \<and> a + (off + length b) = POOL_SIZE)" using False by simp
    show ?thesis unfolding if_not_P [OF out] using True s' by (intro disjI2 exI [of _ s']) simp
  qed
next
  case False
  then have fit: "\<not> (ff_size (fs_files s ! i) < off + length b \<and> off + length b = ff_capacity (fs_files s ! i))"
    by (simp add: exact_fit_def)
  show ?thesis
  proof (cases rule: fs_write_cases [OF assms(1-4) order.refl fit, case_names full written])
    case full
    then show ?thesis using False by simp
  next
    case (written f m used)
    let ?s' = "s\<lparr>fs_files := (fs_files s)[i := f], mem_pool := m, mem_used := used\<rparr>"
    have "i < length (fs_files s)" by (rule table_slot(1) [OF assms(1,2)])
    then have "file_name ?s' j = file_name s j" for j
      using written(3) by (cases "j = i") (simp_all add: file_name_def)
    then have "fs_write (Some (FsFile i)) off b (length b) s = Some (length b, ?s') \<and> table_ok ?s' \<and>
       file_count ?s' = file_count s \<and> content ?s' i = overlay (content s i) off b \<and>
       (\<forall>j. j < file_count s \<and> j \<noteq> i \<longrightarrow> content ?s' j = content s j) \<and>
       (\<forall>j. j < file_count s \<longrightarrow> file_name ?s' j = file_name s j)"
      using written(1,2,4,5) by simp
    then show ?thesis using False by auto
  qed
qed

theorem fs_write_correct_witness:
  "(\<exists>s'. fs_write (Some (FsFile 0)) 4 [1, 2] 2 fs_example = Some (2, s') \<and>
     content s' 0 = [65, 66, 67, 0, 1, 2] \<and> content s' 1 = [73, 74]) \<and>
   (\<exists>s'. fs_write (Some (FsFile 0)) 4 [1, 2, 3, 4] 4 fs_example = Some (4, s') \<and>
     content s' 0 = [65, 66, 67, 0, 1, 2, 3, 4] \<and> content s' 1 = [0, 74])"
proof -
  let ?f = "fs_files fs_example ! 0"
  have a: "ff_data ?f = DPool 0" "ff_capacity ?f = 8" "ff_size ?f = 3" "ff_data (fs_files fs_example ! 1) = DPool 8"
    by (simp_all add: fs_example_files example_file_def)
  have o: "overlay [65, 66, 67] 4 [1, 2] = [65, 66, 67, 0, 1, 2 :: u8]"
    "overlay [65, 66, 67] 4 [1, 2, 3, 4] = [65, 66, 67, 0, 1, 2, 3, 4 :: u8]"
    by (simp_all add: overlay_def numeral_eq_Suc)
  have i: "0 < file_count fs_example" "1 < file_count fs_example" by (simp_all add: fs_example_files)
  have l: "length [1, 2 :: u8] = 2" "length [1, 2, 3, 4 :: u8] = 4" by simp_all
  have fit: "\<not> exact_fit ?f (4 + 2)" "exact_fit ?f (4 + 4)" "(0 :: nat) + (4 + 4) \<noteq> POOL_SIZE"
    using a by (simp_all add: exact_fit_def fs_consts)
  have full: "\<not> ff_capacity ?f < 4 + 2" "\<not> ff_capacity ?f < 4 + 4" using a(2) by simp_all
  have h: "4 + length [1, 2 :: u8] < 2 ^ 62" "4 + length [1, 2, 3, 4 :: u8] < 2 ^ 62" by simp_all
  have one: "(1 :: nat) < file_count fs_example \<and> (1 :: nat) \<noteq> 0" using i(2) by simp
  have "\<exists>s'. fs_write (Some (FsFile 0)) 4 [1, 2] 2 fs_example = Some (2, s') \<and>
     content s' 0 = [65, 66, 67, 0, 1, 2] \<and> content s' 1 = [73, 74]"
    using fs_write_correct [OF fs_example_ok i(1) a(1) h(1), unfolded l] fit(1) full(1) one
    by (auto simp: fs_example_content o)
  moreover have "\<exists>s'. fs_write (Some (FsFile 0)) 4 [1, 2, 3, 4] 4 fs_example = Some (4, s') \<and>
     content s' 0 = [65, 66, 67, 0, 1, 2, 3, 4] \<and> content s' 1 = [0, 74]"
    using fs_write_correct [OF fs_example_ok i(1) a(1) h(2), unfolded l] fit(2,3) full(2) one a(4)
    by (auto simp: fs_example_content o)
  ultimately show ?thesis ..
qed

text \<open>
  C24 What was written is read back, and reads of other files do not notice the write: the
  client-side contract of the store, for \<open>fs_read\<close> and \<open>fs_write\<close> on the table.
\<close>

theorem fs_write_read_back:
  assumes "table_ok s" and "i < file_count s" and "fs_fits s i off (length b)"
  shows "\<exists>n s'. fs_write_all i off b s = Some (n, s') \<and> table_ok s' \<and>
    (n = 0 \<or> n = length b \<and> fs_read_slice i off (length b) s' = Some b) \<and>
    (\<forall>j \<in> fs_used s. j \<noteq> i \<longrightarrow> (\<forall>o' k. fs_read_slice j o' k s' = fs_read_slice j o' k s))"
  using fsys.write_read_back [of s i off b] assms by (simp add: fs_used_def)

theorem fs_write_read_back_witness:
  "\<exists>n s'. fs_write_all 0 4 [1, 2] fs_example = Some (n, s') \<and>
     (n = 0 \<or> fs_read_slice 0 4 2 s' = Some [1, 2]) \<and> fs_read_slice 1 0 2 s' = Some [73, 74]"
proof -
  have "fs_fits fs_example 0 4 (length [1, 2 :: u8])"
    by (simp add: fs_fits_def fs_example_files example_file_def)
  moreover have "fs_read_slice 1 0 2 fs_example = Some [73, 74]"
    using fs_read_slice_eq [OF fs_example_ok, of 1 0 2] by (simp add: fs_example_files fs_example_content)
  moreover have "(1 :: nat) \<in> fs_used fs_example" "(1 :: nat) \<noteq> 0"
    by (simp_all add: fs_used_def fs_example_files)
  moreover have "0 < file_count fs_example" by (simp add: fs_example_files)
  moreover have "length [1, 2 :: u8] = 2" by simp
  ultimately show ?thesis
    using fs_write_read_back [OF fs_example_ok, of 0 4 "[1, 2]"] by metis
qed



text \<open>
  \<open>fs_open\<close> on the boot file system returns the first entry whose name matches, and changes
  nothing; \<open>fs_create_file\<close> returns the file \<open>fs_open\<close> finds, or fails only when the table or the
  pool is full, or adds an empty file that \<open>fs_open\<close> then finds under that name. All other
  files keep their names and contents.
\<close>

theorem fs_create_file_opens:
  assumes "table_ok s" and "active_fs s \<noteq> FS_TYPE_EXT2" and "terminated name" and "cstr name \<noteq> []"
    and "\<not> (take 2 (cstr name) = str ''./'' \<and> 31 < length (cstr name))"
  shows "\<exists>r s'. fs_create_file name s = Some (r, s') \<and>
    (case r of None \<Rightarrow> file_count s = FS_MAX_FILES \<or> POOL_SIZE < mem_used s + 256
     | Some f \<Rightarrow> table_ok s' \<and> fs_open name s' = Some (Some f, s') \<and>
         (fs_open name s = Some (Some f, s) \<and> s' = s \<or>
          fs_open name s = Some (None, s) \<and> f = FsFile (file_count s) \<and> content s' (file_count s) = [] \<and>
          (\<forall>j. j < file_count s \<longrightarrow> content s' j = content s j \<and> file_name s' j = file_name s j)))"
proof -
  note op = fs_open_eq [OF assms(1-4)]
  show ?thesis
  proof (cases rule: fs_create_file_cases [OF assms(1-4), case_names exists full nomem created])
    case (exists i)
    then show ?thesis using assms(1) op by simp
  next
    case full
    then show ?thesis by simp
  next
    case (nomem g)
    then show ?thesis by simp
  next
    case (created s')
    have "\<not> (take 2 (cstr name) = [46, 47] \<and> 31 < length (cstr name))" using assms(5) by simp
    then have "lookup_file s' (cstr name) = Some (file_count s)"
      using lookup_append [OF created(1,4)] created(7,8) created_name_matches by simp
    then have "fs_open name s' = Some (Some (FsFile (file_count s)), s')"
      using fs_open_eq [OF created(3) _ assms(3,4)] created(5) assms(2) by simp
    then show ?thesis using created(1,2,3,6,8) op by simp
  qed
qed

theorem fs_create_file_opens_witness:
  "\<exists>f s'. fs_create_file (lit ''c'') fs_example = Some (Some f, s') \<and>
     fs_open (lit ''c'') s' = Some (Some f, s')"
proof -
  have n: "terminated (lit ''c'')" "cstr (lit ''c'') = [99]" by (simp_all add: lit_def cstr_Cons)
  have "active_fs fs_example \<noteq> FS_TYPE_EXT2" by (simp add: fs_example_files)
  from fs_create_file_opens [OF fs_example_ok this n(1)] obtain r s' where
    "fs_create_file (lit ''c'') fs_example = Some (r, s')"
    "case r of None \<Rightarrow> file_count fs_example = FS_MAX_FILES \<or> POOL_SIZE < mem_used fs_example + 256
     | Some f \<Rightarrow> fs_open (lit ''c'') s' = Some (Some f, s')"
    by (force simp: n split: option.splits)
  then show ?thesis by (cases r) (auto simp: fs_example_files fs_consts)
qed

text \<open>
  A name that starts with \<open>./\<close> and is longer than 31 bytes is not found again by the name it
  was created with: the stored name is cut before, the requested one after the prefix is removed.
\<close>

theorem fs_create_long_dot_name_lost:
  assumes "table_ok s" and "active_fs s \<noteq> FS_TYPE_EXT2" and "terminated name"
    and "take 2 (cstr name) = str ''./''" and "31 < length (cstr name)"
    and "fs_create_file name s = Some (Some f, s')" and "fs_open name s = Some (None, s)"
    and "take 2 (take 31 (drop 2 (cstr name))) \<noteq> str ''./''"
  shows "fs_open name s' = Some (None, s')"
proof -
  have ne: "cstr name \<noteq> []" using assms(5) by auto
  have none: "lookup_file s (cstr name) = None"
    using assms(7) fs_open_eq [OF assms(1-3) ne] by simp
  show ?thesis
  proof (cases rule: fs_create_file_cases [OF assms(1-3) ne, case_names exists full nomem created])
    case (created s'')
    then have s': "s' = s''" using assms(6) by simp
    let ?n = "cstr name"
    have dot: "take 2 ?n = [46, 47]" using assms(4) by simp
    have l1: "length (strip_dot (take 31 ?n)) = 29"
      using dot assms(5) by (simp add: strip_dot_def min_def)
    have l2: "29 < length (take 31 (strip_dot ?n))"
      using dot assms(5) by (simp add: strip_dot_def)
    have d1: "strip_dot (take 31 ?n) \<noteq> take 31 (strip_dot ?n)" using l1 l2 by auto
    have d2: "take 31 ?n \<noteq> take 31 (strip_dot ?n)"
    proof
      assume "take 31 ?n = take 31 (strip_dot ?n)"
      then have "take 2 (take 31 ?n) = take 2 (take 31 (strip_dot ?n))" by simp
      then show False using dot assms(8) by (simp add: strip_dot_def min_def)
    qed
    have d3: "take 31 ?n \<noteq> ?n" using assms(5) by auto
    have "\<not> name_matches ?n (take 31 ?n)" using d1 d2 d3 by (simp add: name_matches_def)
    then have "lookup_file s' ?n = None"
      using lookup_append [OF created(1,4)] created(7,8) s' by simp
    then show ?thesis
      using fs_open_eq [OF created(3) _ assms(3) ne] created(5) assms(2) s' by simp
  qed (use none assms(6) in simp_all)
qed

definition long_dot_name :: bytes where
  "long_dot_name = [46, 47] @ replicate 30 120 @ [0]"

theorem fs_create_long_dot_name_lost_witness:
  "\<exists>f s'. fs_create_file long_dot_name fs_example = Some (Some f, s') \<and>
     fs_open long_dot_name s' = Some (None, s')"
proof -
  have n: "terminated long_dot_name" "cstr long_dot_name = [46, 47] @ replicate 30 120"
    by (simp_all add: long_dot_name_def cstr_append_left)
  have ne: "cstr long_dot_name \<noteq> []" and len: "31 < length (cstr long_dot_name)"
    and two: "take 2 (cstr long_dot_name) = str ''./''"
    and rest: "take 31 (drop 2 (cstr long_dot_name)) = replicate 30 120"
    by (simp_all add: n(2))
  have act: "active_fs fs_example \<noteq> FS_TYPE_EXT2" by (simp add: fs_example_files)
  have strip: "take 31 (strip_dot (cstr long_dot_name)) = replicate 30 120"
    by (simp add: strip_dot_def n(2))
  have names: "file_name fs_example 0 = [97]" "file_name fs_example (Suc 0) = [98]"
    by (simp_all add: file_name_def fs_example_files) (simp_all add: example_file_def fs_consts cstr_Cons)
  have nm: "\<not> name_matches (cstr long_dot_name) [c]" for c
  proof -
    have "[c] \<noteq> replicate 30 120" by (auto dest: arg_cong [where f = length])
    moreover have "[c] \<noteq> cstr long_dot_name" using len by (auto dest: arg_cong [where f = length])
    moreover have "strip_dot [c] = [c]" by (simp add: strip_dot_def)
    ultimately show ?thesis unfolding name_matches_def strip by simp
  qed
  have nomatch: "\<not> name_matches (cstr long_dot_name) (file_name fs_example i)" if "i < 2" for i
  proof -
    have "i = 0 \<or> i = Suc 0" using that by auto
    then show ?thesis using nm by (elim disjE) (simp_all add: names)
  qed
  then have none: "lookup_file fs_example (cstr long_dot_name) = None"
    by (auto simp: lookup_file_def find_None_iff fs_example_files)
  then have op: "fs_open long_dot_name fs_example = Some (None, fs_example)"
    using fs_open_eq [OF fs_example_ok act n(1) ne] by simp
  show ?thesis
  proof (cases rule: fs_create_file_cases [OF fs_example_ok act n(1) ne, case_names exists full nomem created])
    case (created s')
    have two': "take 2 (take 31 (drop 2 (cstr long_dot_name))) \<noteq> str ''./''"
      unfolding rest by (auto dest: arg_cong [where f = hd])
    show ?thesis
      using fs_create_long_dot_name_lost [OF fs_example_ok act n(1) two len created(2) op two'] created(2)
      by blast
  qed (use none in \<open>simp_all add: fs_example_files fs_consts\<close>)
qed

end
