(* ===== verification/FsBoot.thy ===== *)
theory FsBoot
  imports FsCorrect
begin

text \<open>
  Directories of the boot file system, and \<open>fs_init\<close>: the import of the boot archive into the
  file table, from the bytes of a cpio archive to the contents \<open>fs_open\<close> and \<open>fs_read\<close> deliver.
\<close>

section \<open>Directories\<close>

lemma dirs_slot:
  assumes "dirs_ok s" and "i < dir_count s"
  shows "terminated (fd_name (fs_dirs s ! i))" "terminated (fd_path (fs_dirs s ! i))"
    "length (fd_path (fs_dirs s ! i)) = FS_MAX_PATH"
proof -
  have "i < length (fs_dirs s)" using assms by (simp add: dirs_ok_def)
  then have "fs_dirs s ! i \<in> set (fs_dirs s)" by simp
  then show "length (fd_path (fs_dirs s ! i)) = FS_MAX_PATH" using assms by (simp add: dirs_ok_def)
qed (use assms in \<open>simp_all add: dirs_ok_def\<close>)

lemma find_dir_eq:
  "\<forall>d \<in> set ds. test d = Some (P d) \<Longrightarrow> find_dir test ds = Some (find P ds)"
  by (induction ds) auto

text \<open>The path of a new directory.\<close>

definition child_path :: "bytes \<Rightarrow> bytes \<Rightarrow> bytes" where
  "child_path cur name = (if cur = [47] then 47 # name else cur @ 47 # name)"

lemma slash_lit: "terminated (lit ''/'')" "cstr (lit ''/'') = [47]"
  by (simp_all add: lit_def cstr_Cons)

text \<open>The three string calls that build it.\<close>

lemma build_path:
  assumes cur: "terminated cur" and name: "terminated name" and p: "length p = FS_MAX_PATH"
    and fits: "length (child_path (cstr cur) (cstr name)) < FS_MAX_PATH"
  obtains p2 where
    "do { p1 \<leftarrow> (if cstr cur = [47] then strcpy p (lit ''/'')
                else do { q \<leftarrow> strcpy p cur; strcat q (lit ''/'') }); strcat p1 name } = Some p2"
    and "cstr p2 = child_path (cstr cur) (cstr name)" and "length p2 = FS_MAX_PATH"
    and "terminated (p2[FS_MAX_PATH - 1 := 0])"
    and "cstr (p2[FS_MAX_PATH - 1 := 0]) = child_path (cstr cur) (cstr name)"
proof -
  let ?c = "child_path (cstr cur) (cstr name)"
  have join: "\<exists>q. strcat d src = Some q \<and> cstr q = cstr d @ cstr src \<and> length q = length d \<and> terminated q"
    if "terminated d" "terminated src" "length (cstr d) + length (cstr src) < length d" for d src
    using strcat_eq [OF that] that(3) by (simp add: cstr_append_left)
  have copy: "\<exists>q. strcpy d src = Some q \<and> cstr q = cstr src \<and> length q = length d \<and> terminated q"
    if "terminated src" "length (cstr src) < length d" for d src
    using strcpy_eq [OF that] that(2) by simp
  have "\<exists>p2. do { p1 \<leftarrow> (if cstr cur = [47] then strcpy p (lit ''/'')
                else do { q \<leftarrow> strcpy p cur; strcat q (lit ''/'') }); strcat p1 name } = Some p2 \<and>
      cstr p2 = ?c \<and> length p2 = FS_MAX_PATH \<and> terminated p2"
  proof (cases "cstr cur = [47]")
    case True
    obtain q where q: "strcpy p (lit ''/'') = Some q" "cstr q = [47]" "length q = length p" "terminated q"
      using copy [OF slash_lit(1), of p] slash_lit(2) p by (auto simp: fs_consts)
    show ?thesis
      using join [OF q(4) name] q p fits True by (auto simp: child_path_def)
  next
    case False
    then have c: "?c = (cstr cur @ [47]) @ cstr name" by (simp add: child_path_def)
    obtain q where q: "strcpy p cur = Some q" "cstr q = cstr cur" "length q = length p" "terminated q"
      using copy [OF cur, of p] p fits c by auto
    obtain r where r: "strcat q (lit ''/'') = Some r" "cstr r = cstr cur @ [47]" "length r = length p" "terminated r"
      using join [OF q(4) slash_lit(1)] slash_lit(2) q p fits c by auto
    show ?thesis
      using join [OF r(4) name] q r p fits c False by auto
  qed
  then obtain p2 where p2: "do { p1 \<leftarrow> (if cstr cur = [47] then strcpy p (lit ''/'')
                else do { q \<leftarrow> strcpy p cur; strcat q (lit ''/'') }); strcat p1 name } = Some p2"
      "cstr p2 = ?c" "length p2 = FS_MAX_PATH" "terminated p2" by blast
  have i: "FS_MAX_PATH - 1 < length p2" using p2(3) by (simp add: fs_consts)
  obtain u where u: "p2 = cstr p2 @ 0 # u" by (rule cstr_split [OF p2(4)])
  have "length (cstr p2) < FS_MAX_PATH" using fits p2(2) by simp
  then have "\<exists>v. p2[FS_MAX_PATH - 1 := 0] = cstr p2 @ 0 # v"
    by (subst u) (auto simp: list_update_append list_update_beyond split: nat.splits)
  then have "cstr (p2[FS_MAX_PATH - 1 := 0]) = cstr p2" by (metis cstr_append_zero zero_notin_cstr)
  then show ?thesis using that p2 i terminated_update by metis
qed

text \<open>Which directory a name or path means.\<close>

definition dir_matches :: "bytes \<Rightarrow> fs_dir \<Rightarrow> bool" where
  "dir_matches n d \<longleftrightarrow> cstr (fd_name d) = n \<or> cstr (fd_path d) = n"

lemma fs_change_dir_eq:
  assumes ok: "dirs_ok s" and fs: "active_fs s \<noteq> FS_TYPE_EXT2"
    and path: "terminated path" "cstr path \<noteq> []" "cstr path \<noteq> [47]"
  shows "(find (dir_matches (cstr path)) (take (dir_count s) (fs_dirs s)) = None \<longrightarrow>
       fs_change_dir path s = Some (False, s)) \<and>
     (\<forall>d. find (dir_matches (cstr path)) (take (dir_count s) (fs_dirs s)) = Some d \<longrightarrow>
       (\<exists>c. fs_change_dir path s = Some (True, s\<lparr>current_dir := c\<rparr>) \<and> cstr c = cstr (fd_path d) \<and>
          dirs_ok (s\<lparr>current_dir := c\<rparr>)))"
proof -
  let ?ds = "take (dir_count s) (fs_dirs s)"
  have slots: "terminated (fd_name d) \<and> terminated (fd_path d) \<and> length (fd_path d) = FS_MAX_PATH"
    if "d \<in> set ?ds" for d
  proof -
    from nth_mem_take [OF that] obtain i where "i < dir_count s" "d = fs_dirs s ! i" by auto
    then show ?thesis using dirs_slot [OF ok] by simp
  qed
  have c: "rd path 0 = Some (path ! 0)" "path ! 0 \<noteq> 0"
    using path by (cases path; auto simp: cstr_Cons split: if_splits)+
  have root: "str_eq path (lit ''/'') = Some False"
    using str_eq_iff [OF path(1) slash_lit(1)] slash_lit(2) path(3) by simp
  have hits: "find_dir (\<lambda>d. do { a \<leftarrow> str_eq (fd_name d) path;
                                 if a then Some True else str_eq (fd_path d) path }) ?ds
      = Some (find (dir_matches (cstr path)) ?ds)"
    by (rule find_dir_eq) (use slots path(1) in \<open>auto simp: str_eq_iff dir_matches_def\<close>)
  have eq: "fs_change_dir path s = (case find (dir_matches (cstr path)) ?ds of None \<Rightarrow> Some (False, s)
         | Some d \<Rightarrow> do { p \<leftarrow> strcpy (current_dir s) (fd_path d); Some (True, s\<lparr>current_dir := p\<rparr>) })"
    using c root fs hits by (simp add: fs_change_dir_def)
  show ?thesis
  proof (intro conjI impI allI)
    assume "find (dir_matches (cstr path)) ?ds = None"
    then show "fs_change_dir path s = Some (False, s)" using eq by simp
  next
    fix d assume d: "find (dir_matches (cstr path)) ?ds = Some d"
    then have "d \<in> set ?ds" by (auto simp: find_Some_iff in_set_conv_nth)
    then have dp: "terminated (fd_path d)" "length (fd_path d) = FS_MAX_PATH" using slots by auto
    have cur: "length (current_dir s) = FS_MAX_PATH" using ok by (simp add: dirs_ok_def)
    have "length (cstr (fd_path d)) < length (current_dir s)"
      using length_cstr_less [OF dp(1)] dp(2) cur by simp
    from strcpy_eq [OF dp(1) this] obtain p where p: "strcpy (current_dir s) (fd_path d) = Some p"
      "cstr p = cstr (fd_path d)" "length p = FS_MAX_PATH" "terminated p"
      using cur length_cstr_less [OF dp(1)] dp(2) by simp
    then have "dirs_ok (s\<lparr>current_dir := p\<rparr>)" using ok by (simp add: dirs_ok_def)
    then show "\<exists>c. fs_change_dir path s = Some (True, s\<lparr>current_dir := c\<rparr>) \<and> cstr c = cstr (fd_path d) \<and>
          dirs_ok (s\<lparr>current_dir := c\<rparr>)"
      using eq d p by auto
  qed
qed

text \<open>\<open>fs_create_dir\<close> in every case; a new directory also gets an entry of the file table.\<close>

definition dir_exists :: "fs_state \<Rightarrow> bytes \<Rightarrow> bool" where
  "dir_exists s n \<longleftrightarrow> (\<exists>d \<in> set (take (dir_count s) (fs_dirs s)). cstr (fd_name d) = n)"

lemma dirs_ok_files [simp]:
  "dirs_ok (s\<lparr>fs_files := f, file_count := c, mem_pool := m, mem_used := u\<rparr>) = dirs_ok s"
  "dirs_ok (s\<lparr>fs_files := f, file_count := c\<rparr>) = dirs_ok s"
  by (simp_all add: dirs_ok_def)

lemma table_ok_dirs [simp]:
  "table_ok (s\<lparr>fs_dirs := d\<rparr>) = table_ok s"
  "table_ok (s\<lparr>fs_dirs := d, dir_count := n\<rparr>) = table_ok s"
  "table_ok (s\<lparr>current_dir := p\<rparr>) = table_ok s"
  by (simp_all add: table_ok_def)

lemma dirs_ok_replace:
  assumes "dirs_ok s" and "length (fd_name d) = NAME_SIZE" and "length (fd_path d) = FS_MAX_PATH"
  shows "dirs_ok (s\<lparr>fs_dirs := (fs_dirs s)[dir_count s := d]\<rparr>)"
proof -
  have "set ((fs_dirs s)[dir_count s := d]) \<subseteq> insert d (set (fs_dirs s))"
    by (rule set_update_subset_insert)
  then show ?thesis using assms by (auto simp: dirs_ok_def)
qed

lemma dirs_ok_append:
  assumes ok: "dirs_ok s" and "dir_count s < FS_MAX_DIRS"
    and "length (fd_name d) = NAME_SIZE" and "length (fd_path d) = FS_MAX_PATH"
    and "terminated (fd_name d)" and "terminated (fd_path d)"
  shows "dirs_ok (s\<lparr>fs_dirs := (fs_dirs s)[dir_count s := d], dir_count := dir_count s + 1\<rparr>)"
proof -
  have len: "length (fs_dirs s) = FS_MAX_DIRS" using ok by (simp add: dirs_ok_def)
  have "set ((fs_dirs s)[dir_count s := d]) \<subseteq> insert d (set (fs_dirs s))"
    by (rule set_update_subset_insert)
  moreover have "terminated (fd_name ((fs_dirs s)[dir_count s := d] ! i)) \<and>
      terminated (fd_path ((fs_dirs s)[dir_count s := d] ! i))" if "i < Suc (dir_count s)" for i
    using that assms len dirs_slot [OF ok, of i] by (cases "i = dir_count s") auto
  ultimately show ?thesis using assms by (auto simp: dirs_ok_def Suc_le_eq)
qed

lemma fs_create_dir_cases:
  assumes inv: "fs_inv s" and fs: "active_fs s \<noteq> FS_TYPE_EXT2"
    and name: "terminated name" "length (cstr name) < 2 ^ 63"
  obtains (exists) "dir_exists s (cstr name)" and "fs_create_dir name s = Some (True, s)"
  | (full) "\<not> dir_exists s (cstr name)" and "dir_count s = FS_MAX_DIRS" and "fs_create_dir name s = Some (False, s)"
  | (long) d where "\<not> dir_exists s (cstr name)" and "fs_create_dir name s =
        Some (False, s\<lparr>fs_dirs := (fs_dirs s)[dir_count s := d]\<rparr>)"
      and "FS_MAX_PATH \<le> length (child_path (cstr (current_dir s)) (cstr name))"
      and "fs_inv (s\<lparr>fs_dirs := (fs_dirs s)[dir_count s := d]\<rparr>)"
  | (created) d s' where "\<not> dir_exists s (cstr name)" and "dir_count s < FS_MAX_DIRS"
      and "fs_create_dir name s = Some (True, s')" and "fs_inv s'"
      and "fs_dirs s' = (fs_dirs s)[dir_count s := d]" and "dir_count s' = dir_count s + 1"
      and "cstr (fd_name d) = take 31 (cstr name)"
      and "cstr (fd_path d) = child_path (cstr (current_dir s)) (cstr name)"
      and "current_dir s' = current_dir s" and "active_fs s' = active_fs s" and "mem_used s' = mem_used s"
      and "file_count s \<le> file_count s'"
      and "\<And>j. j < file_count s \<Longrightarrow> content s' j = content s j \<and> file_name s' j = file_name s j"
proof -
  have ok: "dirs_ok s" and tab: "table_ok s" using inv by (simp_all add: fs_inv_def)
  have cur: "terminated (current_dir s)" "length (current_dir s) = FS_MAX_PATH"
    using ok by (simp_all add: dirs_ok_def)
  let ?ds = "take (dir_count s) (fs_dirs s)" and ?i = "dir_count s"
  have "\<forall>d \<in> set ?ds. str_eq (fd_name d) name = Some (cstr (fd_name d) = cstr name)"
  proof
    fix d assume "d \<in> set ?ds"
    from nth_mem_take [OF this] obtain i where "i < dir_count s" "d = fs_dirs s ! i" by auto
    then show "str_eq (fd_name d) name = Some (cstr (fd_name d) = cstr name)"
      using dirs_slot(1) [OF ok] name(1) by (simp add: str_eq_iff)
  qed
  then have found: "find_dir (\<lambda>d. str_eq (fd_name d) name) ?ds = Some (find (\<lambda>d. cstr (fd_name d) = cstr name) ?ds)"
    by (rule find_dir_eq)
  have ex: "find (\<lambda>d. cstr (fd_name d) = cstr name) ?ds \<noteq> None \<longleftrightarrow> dir_exists s (cstr name)"
    by (auto simp: dir_exists_def find_None_iff)
  show ?thesis
  proof (cases "dir_exists s (cstr name)")
    case True
    then show ?thesis using that(1) fs found ex by (simp add: fs_create_dir_def)
  next
    case new: False
    then have nf: "find (\<lambda>d. cstr (fd_name d) = cstr name) ?ds = None" using ex by simp
    show ?thesis
    proof (cases "?i < FS_MAX_DIRS")
      case False
      then show ?thesis using that(2) new fs found nf ok by (simp add: fs_create_dir_def dirs_ok_def)
    next
      case room: True
      have slot: "?i < length (fs_dirs s)" using room ok by (simp add: dirs_ok_def)
      then have "fs_dirs s ! ?i \<in> set (fs_dirs s)" by simp
      then have dl: "length (fd_name (fs_dirs s ! ?i)) = NAME_SIZE" "length (fd_path (fs_dirs s ! ?i)) = FS_MAX_PATH"
        using ok by (simp_all add: dirs_ok_def)
      let ?dir = "fs_dirs s ! ?i"
      obtain dn where dn: "copy_name (fd_name ?dir) name = Some dn" "cstr dn = take 31 (cstr name)"
        "length dn = NAME_SIZE" "terminated dn"
        by (rule copy_file_name [OF name(1) dl(1)])
      have at_root: "str_eq (current_dir s) (lit ''/'') = Some (cstr (current_dir s) = [47])"
        using str_eq_iff [OF cur(1) slash_lit(1)] slash_lit(2) by simp
      have nlen: "strlen name = Some (length (cstr name))" using strlen_eq [OF name(1)] .
      have clen: "(if cstr (current_dir s) = [47] then Some 0 else strlen (current_dir s))
          = Some (if cstr (current_dir s) = [47] then 0 else length (cstr (current_dir s)))"
        using strlen_eq [OF cur(1)] by simp
      let ?cl = "if cstr (current_dir s) = [47] then 0 else length (cstr (current_dir s))"
      have cl: "?cl < 128" using length_cstr_less [OF cur(1)] cur(2) by (simp add: fs_consts)
      have total: "size_add (size_add (size_add ?cl 1) (length (cstr name))) 1
          = length (child_path (cstr (current_dir s)) (cstr name)) + 1"
        using cl name(2) by (simp add: size_add_def child_path_def)
      let ?long = "FS_MAX_PATH \<le> length (child_path (cstr (current_dir s)) (cstr name))"
      let ?d1 = "?dir\<lparr>fd_name := dn\<rparr>"
      show ?thesis
      proof (cases ?long)
        case True
        then have "fs_create_dir name s = Some (False, s\<lparr>fs_dirs := (fs_dirs s)[?i := ?d1]\<rparr>)"
          using fs found nf room slot dn(1) at_root nlen clen total
          by (simp add: fs_create_dir_def Let_def del: One_nat_def)
        moreover have "fs_inv (s\<lparr>fs_dirs := (fs_dirs s)[?i := ?d1]\<rparr>)"
          using dirs_ok_replace [OF ok, of ?d1] tab dn(3) dl(2) by (simp add: fs_inv_def)
        ultimately show ?thesis using that(3) new True by blast
      next
        case False
        then have fits: "length (child_path (cstr (current_dir s)) (cstr name)) < FS_MAX_PATH" by simp
        obtain p2 where p2: "do { p1 \<leftarrow> (if cstr (current_dir s) = [47] then strcpy (fd_path ?dir) (lit ''/'')
                else do { q \<leftarrow> strcpy (fd_path ?dir) (current_dir s); strcat q (lit ''/'') }); strcat p1 name } = Some p2"
          "length p2 = FS_MAX_PATH" "terminated (p2[FS_MAX_PATH - 1 := 0])"
          "cstr (p2[FS_MAX_PATH - 1 := 0]) = child_path (cstr (current_dir s)) (cstr name)"
          by (rule build_path [OF cur(1) name(1) dl(2) fits])
        let ?p3 = "p2[FS_MAX_PATH - 1 := 0]"
        let ?d = "?dir\<lparr>fd_name := dn, fd_path := ?p3\<rparr>"
        let ?s2 = "s\<lparr>fs_dirs := (fs_dirs s)[?i := ?d], dir_count := ?i + 1\<rparr>"
        have w: "wr p2 (FS_MAX_PATH - 1) 0 = Some ?p3" using p2(2) by (simp add: fs_consts)
        have ok2: "dirs_ok ?s2"
          by (rule dirs_ok_append [OF ok room]) (use dn p2 in simp_all)
        have inv2: "fs_inv ?s2" using ok2 tab by (simp add: fs_inv_def)
        obtain p1 where p1: "(if cstr (current_dir s) = [47] then strcpy (fd_path ?dir) (lit ''/'')
                else do { q \<leftarrow> strcpy (fd_path ?dir) (current_dir s); strcat q (lit ''/'') }) = Some p1"
            "strcat p1 name = Some p2"
          using p2(1) by (cases "(if cstr (current_dir s) = [47] then strcpy (fd_path ?dir) (lit ''/'')
                else do { q \<leftarrow> strcpy (fd_path ?dir) (current_dir s); strcat q (lit ''/'') })") auto
        have step: "fs_create_dir name s =
            (if file_count s < FS_MAX_FILES
             then do { fname \<leftarrow> copy_name (ff_name zero_file) name;
                       fs \<leftarrow> wr (fs_files s) (file_count s) (zero_file\<lparr>ff_name := fname, ff_is_dir := True\<rparr>);
                       Some (True, ?s2\<lparr>fs_files := fs, file_count := file_count s + 1\<rparr>) }
             else Some (True, ?s2))"
          using fs found nf room slot dn(1) at_root nlen clen total fits p1 w
          by (simp add: fs_create_dir_def Let_def not_less del: One_nat_def)
        show ?thesis
        proof (cases "file_count s < FS_MAX_FILES")
          case False
          then have r: "fs_create_dir name s = Some (True, ?s2)" using step by simp
          show ?thesis
            by (rule that(4) [of ?s2 ?d, OF new room r inv2]) (use dn p2 in \<open>simp_all add: content_def file_name_def split: data_ptr.split\<close>)
        next
          case True
          have zl: "length (ff_name zero_file) = NAME_SIZE" by (simp add: zero_file_def)
          obtain fname where fname: "copy_name (ff_name zero_file) name = Some fname" "length fname = NAME_SIZE"
            "terminated fname"
            by (rule copy_file_name [OF name(1) zl])
          let ?f = "zero_file\<lparr>ff_name := fname, ff_is_dir := True\<rparr>"
          have fslot: "file_count s < length (fs_files s)" using tab True by (simp add: table_ok_def)
          let ?s3 = "?s2\<lparr>fs_files := (fs_files s)[file_count s := ?f], file_count := file_count s + 1\<rparr>"
          have r: "fs_create_dir name s = Some (True, ?s3)" using step True fname(1) fslot by simp
          have used: "mem_used s \<le> POOL_SIZE" using tab by (simp add: table_ok_def)
          have "table_ok (s\<lparr>fs_files := (fs_files s)[file_count s := ?f], file_count := file_count s + 1,
              mem_pool := mem_pool s, mem_used := mem_used s\<rparr>)"
            by (rule table_ok_append [OF tab True]) (use fname used in \<open>simp_all add: file_ok_def zero_file_def\<close>)
          then have "table_ok ?s3" by (simp add: table_ok_def)
          moreover have "dirs_ok ?s3" using ok2 by (simp add: dirs_ok_def)
          ultimately have inv3: "fs_inv ?s3" by (simp add: fs_inv_def)
          show ?thesis
            by (rule that(4) [of ?s3 ?d, OF new room r inv3]) (use dn p2 in \<open>simp_all add: content_def file_name_def split: data_ptr.split\<close>)
        qed
      qed
    qed
  qed
qed

section \<open>The import of the boot archive\<close>

text \<open>A file of the archive becomes one entry with its content.\<close>

lemma import_file:
  assumes inv: "fs_inv s" and src: "represents src (name, data)"
    and name: "name \<noteq> []" "last name \<noteq> 47"
    and room: "file_count s < FS_MAX_FILES" and pool: "mem_used s + length data \<le> POOL_SIZE"
  shows "\<exists>s'. fs_import (src # srcs) s = fs_import srcs s' \<and> fs_inv s' \<and>
    file_count s' = file_count s + 1 \<and> active_fs s' = active_fs s \<and>
    mem_used s' = mem_used s + length data \<and>
    file_name s' (file_count s) = take 31 name \<and> content s' (file_count s) = data \<and>
    (\<forall>j < file_count s. content s' j = content s j \<and> file_name s' j = file_name s j)"
proof -
  have tab: "table_ok s" and dirs: "dirs_ok s" using inv by (simp_all add: fs_inv_def)
  have r: "terminated (if_name src)" "cstr (if_name src) = name" "if_size src = length data"
    "if_size src \<le> length (if_data src)" "take (if_size src) (if_data src) = data"
    using src unfolding represents_def by auto
  let ?n = "file_count s" and ?a = "mem_used s"
  have slot: "?n < length (fs_files s)" using tab room by (simp add: table_ok_def)
  then have "fs_files s ! ?n \<in> set (fs_files s)" by simp
  then have nl: "length (ff_name (fs_files s ! ?n)) = NAME_SIZE" using tab by (simp add: table_ok_def)
  obtain d where d: "copy_name (ff_name (fs_files s ! ?n)) (if_name src) = Some d"
    "cstr d = take 31 (cstr (if_name src))" "length d = NAME_SIZE" "terminated d"
    by (rule copy_file_name [OF r(1) nl])
  have len: "strlen (if_name src) = Some (length name)" using strlen_eq [OF r(1)] r(2) by simp
  have lastc: "if_name src ! (length name - 1) \<noteq> 47"
    using nth_cstr [of "length name - 1" "if_name src"] r(2) name by (simp add: last_conv_nth)
  have used: "?a \<le> POOL_SIZE" using tab by (simp add: table_ok_def)
  have al: "fs_alloc (if_size src) s = (Some ?a, s\<lparr>mem_used := ?a + length data\<rparr>)"
    using pool r(3) by (simp add: fs_alloc_def fs_consts)
  let ?m = "stored (mem_pool s) ?a data"
  let ?f = "(fs_files s ! ?n)\<lparr>ff_name := d, ff_capacity := if_size src, ff_data := DPool ?a, ff_size := if_size src,
       ff_is_dir := False, ff_mode := 0x1A4, ff_fs_type := FS_TYPE_INITRAMFS\<rparr>"
  let ?s = "s\<lparr>mem_used := ?a + length data, mem_pool := ?m, fs_files := (fs_files s)[?n := ?f],
       file_count := ?n + 1\<rparr>"
  have step: "fs_import (src # srcs) s = fs_import srcs ?s"
    using room len lastc slot d(1) al r(4,5) pool by (simp add: pool_store_eq Let_def not_le r(3))
  have "table_ok (s\<lparr>fs_files := (fs_files s)[?n := ?f], file_count := ?n + 1, mem_pool := ?m,
       mem_used := ?a + length data\<rparr>)"
    by (rule table_ok_append [OF tab room]) (use d pool r(3) in \<open>simp_all add: file_ok_def\<close>)
  then have t: "table_ok ?s" by (simp add: table_ok_def)
  have inv': "fs_inv ?s" using t dirs by (simp add: fs_inv_def dirs_ok_def)
  have old: "content ?s j = content s j \<and> file_name ?s j = file_name s j" if "j < ?n" for j
  proof -
    let ?t = "s\<lparr>fs_files := (fs_files s)[?n := ?f], file_count := ?n + 1, mem_pool := ?m,
       mem_used := ?a + length data\<rparr>"
    have "content ?t j = content s j" "file_name ?t j = file_name s j"
      by (intro append_keeps [OF tab that]; simp add: stored_other)+
    moreover have "?s = ?t" by (rule fs_state.equality) simp_all
    ultimately show ?thesis by metis
  qed
  have new: "file_name ?s ?n = take 31 name" "content ?s ?n = data"
    using slot d r by (simp_all add: content_def file_name_def)
  show ?thesis using inv' step old new by (intro exI [of _ ?s]) simp
qed

text \<open>A file the pool has no room for ends the import; what was imported stays.\<close>

lemma import_full:
  assumes inv: "fs_inv s" and src: "represents src (name, data)"
    and name: "name \<noteq> []" "last name \<noteq> 47" and room: "file_count s < FS_MAX_FILES"
    and pool: "POOL_SIZE < mem_used s + length data" and small: "length data < 2 ^ 32"
  shows "\<exists>s'. fs_import (src # srcs) s = Some s' \<and> fs_inv s' \<and> file_count s' = file_count s \<and> active_fs s' = active_fs s \<and>
    (\<forall>j < file_count s. content s' j = content s j \<and> file_name s' j = file_name s j)"
proof -
  have tab: "table_ok s" and dirs: "dirs_ok s" using inv by (simp_all add: fs_inv_def)
  have r: "terminated (if_name src)" "cstr (if_name src) = name" "if_size src = length data"
    using src unfolding represents_def by auto
  let ?n = "file_count s"
  have slot: "?n < length (fs_files s)" using tab room by (simp add: table_ok_def)
  then have "fs_files s ! ?n \<in> set (fs_files s)" by simp
  then have nl: "length (ff_name (fs_files s ! ?n)) = NAME_SIZE" using tab by (simp add: table_ok_def)
  obtain d where d: "copy_name (ff_name (fs_files s ! ?n)) (if_name src) = Some d" "length d = NAME_SIZE"
    by (rule copy_file_name [OF r(1) nl])
  have len: "strlen (if_name src) = Some (length name)" using strlen_eq [OF r(1)] r(2) by simp
  have lastc: "if_name src ! (length name - 1) \<noteq> 47"
    using nth_cstr [of "length name - 1" "if_name src"] r(2) name by (simp add: last_conv_nth)
  have "mem_used s \<le> POOL_SIZE" using tab by (simp add: table_ok_def)
  then have "mem_used s + length data < 2 ^ 64" using small by (simp add: fs_consts)
  then have al: "fs_alloc (if_size src) s = (None, s)"
    using pool r(3) by (simp add: fs_alloc_def size_add_def)
  let ?f = "(fs_files s ! ?n)\<lparr>ff_name := d, ff_capacity := if_size src, ff_data := DNull\<rparr>"
  let ?s = "s\<lparr>fs_files := (fs_files s)[?n := ?f]\<rparr>"
  have "fs_import (src # srcs) s = Some ?s"
    using room len lastc slot d(1) al by (simp add: Let_def not_le)
  moreover have "set ((fs_files s)[?n := ?f]) \<subseteq> insert ?f (set (fs_files s))" by (rule set_update_subset_insert)
  then have "table_ok ?s" using tab d(2) by (auto simp: table_ok_def)
  then have "fs_inv ?s" using dirs by (simp add: fs_inv_def dirs_ok_def)
  moreover have "content ?s j = content s j \<and> file_name ?s j = file_name s j" if "j < ?n" for j
    using that by (simp add: content_def file_name_def split: data_ptr.split)
  ultimately show ?thesis by (intro exI [of _ ?s]) simp
qed

text \<open>The files that fit: the pool is filled in order, up to the first file it has no room for.\<close>

fun fits_pool :: "nat \<Rightarrow> (bytes \<times> bytes) list \<Rightarrow> (bytes \<times> bytes) list" where
  "fits_pool used [] = []"
| "fits_pool used (f # fs) =
     (if used + length (snd f) \<le> POOL_SIZE then f # fits_pool (used + length (snd f)) fs else [])"

lemma import_files:
  assumes "list_all2 represents srcs fs"
  shows "fs_inv s \<Longrightarrow> \<forall>(name, data) \<in> set fs. name \<noteq> [] \<and> last name \<noteq> 47 \<and> length data < 2 ^ 32 \<Longrightarrow>
    file_count s + length fs \<le> FS_MAX_FILES \<Longrightarrow>
    \<exists>s'. fs_import srcs s = Some s' \<and> fs_inv s' \<and> file_count s' = file_count s + length (fits_pool (mem_used s) fs) \<and>
      active_fs s' = active_fs s \<and>
      (\<forall>i < length (fits_pool (mem_used s) fs). file_name s' (file_count s + i) = take 31 (fst (fits_pool (mem_used s) fs ! i)) \<and>
         content s' (file_count s + i) = snd (fits_pool (mem_used s) fs ! i)) \<and>
      (\<forall>j < file_count s. content s' j = content s j \<and> file_name s' j = file_name s j)"
  using assms
proof (induction arbitrary: s rule: list_all2_induct)
  case Nil
  then show ?case by simp
next
  case (Cons src srcs nd fs)
  obtain name data where nd: "nd = (name, data)" by (cases nd)
  have rep: "represents src (name, data)" using Cons.hyps(1) nd by simp
  have pre: "name \<noteq> []" "last name \<noteq> 47" "file_count s < FS_MAX_FILES" and small: "length data < 2 ^ 32"
    using Cons.prems nd by auto
  show ?case
  proof (cases "mem_used s + length data \<le> POOL_SIZE")
    case False
    then show ?thesis
      using import_full [where srcs = srcs, OF Cons.prems(1) rep pre _ small] nd by auto
  next
    case fits: True
    let ?ks = "fits_pool (mem_used s + length data) fs"
    have ks: "fits_pool (mem_used s) (nd # fs) = nd # ?ks" using fits nd by simp
    obtain s1 where s1: "fs_import (src # srcs) s = fs_import srcs s1" "fs_inv s1"
      "file_count s1 = file_count s + 1" "active_fs s1 = active_fs s" "mem_used s1 = mem_used s + length data"
      "file_name s1 (file_count s) = take 31 name" "content s1 (file_count s) = data"
      "\<And>j. j < file_count s \<Longrightarrow> content s1 j = content s j \<and> file_name s1 j = file_name s j"
      using import_file [where srcs = srcs, OF Cons.prems(1) rep pre fits] by blast
    have "\<forall>(name, data) \<in> set fs. name \<noteq> [] \<and> last name \<noteq> 47 \<and> length data < 2 ^ 32"
      and "file_count s1 + length fs \<le> FS_MAX_FILES"
      using Cons.prems(2,3) s1(3) by auto
    from Cons.IH [OF s1(2) this] obtain s' where s': "fs_import srcs s1 = Some s'" "fs_inv s'"
      "file_count s' = file_count s1 + length ?ks" "active_fs s' = active_fs s1"
      "\<And>i. i < length ?ks \<Longrightarrow> file_name s' (file_count s1 + i) = take 31 (fst (?ks ! i)) \<and>
           content s' (file_count s1 + i) = snd (?ks ! i)"
      "\<And>j. j < file_count s1 \<Longrightarrow> content s' j = content s1 j \<and> file_name s' j = file_name s1 j"
      unfolding s1(5) by blast
    have new: "file_name s' (file_count s + i) = take 31 (fst ((nd # ?ks) ! i)) \<and>
           content s' (file_count s + i) = snd ((nd # ?ks) ! i)" if "i < length (nd # ?ks)" for i
    proof (cases i)
      case 0
      then show ?thesis using s'(6) [of "file_count s"] s1(3,6,7) nd by simp
    next
      case (Suc k)
      then show ?thesis using s'(5) [of k] s1(3) that by simp
    qed
    have old: "content s' j = content s j \<and> file_name s' j = file_name s j" if "j < file_count s" for j
      using s'(6) [of j] s1(3) s1(8) [OF that] that by simp
    have count: "file_count s' = file_count s + length (nd # ?ks)" using s'(3) s1(3) by simp
    have act: "active_fs s' = active_fs s" using s'(4) s1(4) by simp
    have imp: "fs_import (src # srcs) s = Some s'" using s'(1) s1(1) by simp
    show ?thesis unfolding ks using imp s'(2) count act new old by blast
  qed
qed

text \<open>The state before the import.\<close>

lemma fs_init_start:
  assumes "mem_used s \<le> POOL_SIZE"
  obtains s1 where "fs_init ramfs s = do { s2 \<leftarrow> fs_import ramfs s1;
      fs_find_image (take (file_count s2) (fs_files s2)) s2 }"
    and "fs_inv s1" and "file_count s1 = 0" and "mem_used s1 = mem_used s" and "active_fs s1 = FS_TYPE_INITRAMFS"
    and "cstr (current_dir s1) = [47]" and "dir_count s1 = 1"
    and "cstr (fd_name (fs_dirs s1 ! 0)) = [47]" and "cstr (fd_path (fs_dirs s1 ! 0)) = [47]"
proof -
  have cp: "\<exists>q. strcpy d (lit ''/'') = Some q \<and> cstr q = [47] \<and> length q = length d \<and> terminated q"
    if "1 < length d" for d
    using strcpy_eq [OF slash_lit(1), of d] slash_lit(2) that by auto
  let ?cur = "replicate FS_MAX_PATH (0 :: u8)"
  obtain c where c: "strcpy ?cur (lit ''/'') = Some c" "cstr c = [47]" "length c = FS_MAX_PATH" "terminated c"
    using cp [of ?cur] by (auto simp: fs_consts)
  obtain n where n: "strcpy (fd_name zero_dir) (lit ''/'') = Some n" "length n = NAME_SIZE" "terminated n"
    "cstr n = [47]"
    using cp [of "fd_name zero_dir"] by (auto simp: zero_dir_def fs_consts)
  obtain p where p: "strcpy (fd_path zero_dir) (lit ''/'') = Some p" "length p = FS_MAX_PATH" "terminated p"
    "cstr p = [47]"
    using cp [of "fd_path zero_dir"] by (auto simp: zero_dir_def fs_consts)
  let ?ds = "(replicate FS_MAX_DIRS zero_dir)[0 := \<lparr>fd_name = n, fd_path = p\<rparr>]"
  let ?s1 = "s\<lparr>fs_files := replicate FS_MAX_FILES zero_file, file_count := 0, active_fs := FS_TYPE_INITRAMFS,
     current_dir := c, fs_dirs := ?ds, dir_count := 1\<rparr>"
  have init: "fs_init ramfs s = do { s2 \<leftarrow> fs_import ramfs ?s1;
      fs_find_image (take (file_count s2) (fs_files s2)) s2 }"
    using c(1) n(1) p(1) by (simp add: fs_init_def Let_def FS_MAX_DIRS_def)
  have tab: "table_ok ?s1" using assms by (simp add: table_ok_def zero_file_def)
  have sub: "set ?ds \<subseteq> insert \<lparr>fd_name = n, fd_path = p\<rparr> {zero_dir}"
    using set_update_subset_insert [of "replicate FS_MAX_DIRS zero_dir" 0 "\<lparr>fd_name = n, fd_path = p\<rparr>"]
    by (auto simp: set_replicate_conv_if split: if_splits)
  have "\<forall>d \<in> set ?ds. length (fd_name d) = NAME_SIZE \<and> length (fd_path d) = FS_MAX_PATH"
    using sub n(2) p(2) by (auto simp: zero_dir_def)
  then have "dirs_ok ?s1" using c n p by (simp add: dirs_ok_def FS_MAX_DIRS_def)
  with tab have "fs_inv ?s1" by (simp add: fs_inv_def)
  then show ?thesis using that [OF init] c(2) n(4) p(4) by (simp add: FS_MAX_DIRS_def)
qed

text \<open>Without an entry named like a disk image the search for one changes nothing.\<close>

definition image_names :: "bytes set" where
  "image_names = {str ''ext2.img'', str ''disk.img''}"

lemma fs_find_image_none:
  "\<forall>f \<in> set fs. terminated (ff_name f) \<and> cstr (ff_name f) \<notin> image_names \<Longrightarrow> fs_find_image fs s = Some s"
proof (induction fs)
  case (Cons f fs)
  have l: "terminated (lit ''ext2.img'')" "cstr (lit ''ext2.img'') = str ''ext2.img''"
    "terminated (lit ''disk.img'')" "cstr (lit ''disk.img'') = str ''disk.img''"
    by (simp_all add: lit_def cstr_Cons)
  have t: "terminated (ff_name f)" and ne: "cstr (ff_name f) \<noteq> str ''ext2.img''" "cstr (ff_name f) \<noteq> str ''disk.img''"
    using Cons.prems by (simp_all add: image_names_def)
  have "str_eq (ff_name f) (lit ''ext2.img'') = Some False" "str_eq (ff_name f) (lit ''disk.img'') = Some False"
    unfolding str_eq_iff [OF t l(1)] str_eq_iff [OF t l(3)] l using ne by simp_all
  then show ?case using Cons by simp
qed simp

section \<open>Properties of directories and of the boot\<close>

text \<open>
  A directory created with a name that was not reachable before can be entered by that name,
  and the current directory is then the child path: the parent's path, a slash and the name,
  without doubling the slash at the root.
\<close>

theorem fs_mkdir_then_cd:
  assumes inv: "fs_inv s" and fs: "active_fs s \<noteq> FS_TYPE_EXT2"
    and name: "terminated name" "cstr name \<noteq> []" "cstr name \<noteq> str ''/''" "length (cstr name) \<le> 31"
    and before: "fs_change_dir name s = Some (False, s)" and mk: "fs_create_dir name s = Some (True, s')"
  shows "\<exists>s''. fs_change_dir name s' = Some (True, s'') \<and> fs_inv s'' \<and>
    cstr (current_dir s'') = child_path (cstr (current_dir s)) (cstr name)"
proof -
  have ok: "dirs_ok s" using inv by (simp add: fs_inv_def)
  have ns: "cstr name \<noteq> [47]" using name(3) by simp
  let ?P = "dir_matches (cstr name)"
  have none: "find ?P (take (dir_count s) (fs_dirs s)) = None"
    using fs_change_dir_eq [OF ok fs name(1,2) ns] before
    by (cases "find ?P (take (dir_count s) (fs_dirs s))") auto
  have n63: "length (cstr name) < 2 ^ 63" using name(4) by simp
  show ?thesis
  proof (cases rule: fs_create_dir_cases [OF inv fs name(1) n63, case_names exists full long created])
    case exists
    then show ?thesis using none by (auto simp: dir_exists_def find_None_iff dir_matches_def)
  next
    case full
    then show ?thesis using mk by simp
  next
    case (long d)
    then show ?thesis using mk by simp
  next
    case (created d s1)
    then have s': "s' = s1" using mk by simp
    have slot: "dir_count s < length (fs_dirs s)" using ok created(2) by (simp add: dirs_ok_def)
    have "take (dir_count s') (fs_dirs s') = take (dir_count s) (fs_dirs s) @ [d]"
      using created(5,6) s' slot by (simp add: take_Suc_conv_app_nth)
    moreover have "?P d" using created(7) name(4) by (simp add: dir_matches_def)
    moreover have "find Q (xs @ [x]) = Some x" if "find Q xs = None" "Q x" for Q and xs :: "fs_dir list" and x
      using that by (induction xs) (auto split: if_splits)
    ultimately have hit: "find ?P (take (dir_count s') (fs_dirs s')) = Some d" using none by simp
    have ok': "dirs_ok s'" and tab': "table_ok s'" using created(4) s' by (simp_all add: fs_inv_def)
    have fs': "active_fs s' \<noteq> FS_TYPE_EXT2" using created(10) s' fs by simp
    obtain c where c: "fs_change_dir name s' = Some (True, s'\<lparr>current_dir := c\<rparr>)" "cstr c = cstr (fd_path d)"
      "dirs_ok (s'\<lparr>current_dir := c\<rparr>)"
      using fs_change_dir_eq [OF ok' fs' name(1,2) ns] hit by blast
    have "fs_inv (s'\<lparr>current_dir := c\<rparr>)" using c(3) tab' by (simp add: fs_inv_def)
    then show ?thesis using c created(8) by auto
  qed
qed

theorem fs_mkdir_then_cd_witness:
  "\<exists>s s' s''. fs_init [] fs_boot = Some s \<and> fs_create_dir (lit ''home'') s = Some (True, s') \<and>
     fs_change_dir (lit ''home'') s' = Some (True, s'') \<and> cstr (current_dir s'') = str ''/home''"
proof -
  have n: "terminated (lit ''home'')" "cstr (lit ''home'') = str ''home''"
    by (simp_all add: lit_def cstr_Cons)
  have h: "cstr (lit ''home'') \<noteq> []" "cstr (lit ''home'') \<noteq> str ''/''" "length (cstr (lit ''home'')) \<le> 31"
    "cstr (lit ''home'') \<noteq> [47]" "length (cstr (lit ''home'')) < 2 ^ 63"
    unfolding n(2) by simp_all
  obtain s where s: "fs_init [] fs_boot = Some s" "fs_inv s" "active_fs s = FS_TYPE_INITRAMFS"
    "cstr (current_dir s) = [47]" "dir_count s = 1" "cstr (fd_name (fs_dirs s ! 0)) = [47]"
    "cstr (fd_path (fs_dirs s ! 0)) = [47]"
    by (rule fs_init_start [of fs_boot "[]"]) (simp_all add: fs_boot_def)
  have fs: "active_fs s \<noteq> FS_TYPE_EXT2" and ok: "dirs_ok s" using s(2,3) by (simp_all add: fs_inv_def)
  have "fs_dirs s \<noteq> []" using ok by (auto simp: dirs_ok_def FS_MAX_DIRS_def)
  then have ds: "take (dir_count s) (fs_dirs s) = [fs_dirs s ! 0]"
    using s(5) by (cases "fs_dirs s") auto
  have "\<not> dir_matches (cstr (lit ''home'')) (fs_dirs s ! 0)"
    unfolding n(2) dir_matches_def s(6,7) by simp
  then have before: "fs_change_dir (lit ''home'') s = Some (False, s)"
    using fs_change_dir_eq [OF ok fs n(1) h(1,4)] unfolding ds by simp
  have new: "\<not> dir_exists s (cstr (lit ''home''))" unfolding n(2) dir_exists_def ds using s(6) by simp
  obtain s' where mk: "fs_create_dir (lit ''home'') s = Some (True, s')"
    by (cases rule: fs_create_dir_cases [OF s(2) fs n(1) h(5), case_names exists full long created])
      (use new s(4,5) in \<open>simp_all add: n(2) child_path_def FS_MAX_DIRS_def FS_MAX_PATH_def\<close>)
  from fs_mkdir_then_cd [OF s(2) fs n(1) h(1-3) before mk] obtain s'' where
    "fs_change_dir (lit ''home'') s' = Some (True, s'')" "cstr (current_dir s'') = str ''/home''"
    unfolding n(2) s(4) by (auto simp: child_path_def)
  with s(1) mk show ?thesis by blast
qed

lemma plain_name_matches:
  assumes "take 2 n \<noteq> [46, 47]" and "take 2 e \<noteq> [46, 47]" and "length n \<le> 31" and "length e \<le> 31"
  shows "name_matches n e \<longleftrightarrow> e = n"
  using assms by (auto simp: name_matches_def strip_dot_def)

text \<open>A name the boot import keeps as it is.\<close>

definition plain_name :: "bytes \<Rightarrow> bool" where
  "plain_name n \<longleftrightarrow> n \<noteq> [] \<and> last n \<noteq> 47 \<and> take 2 n \<noteq> str ''./'' \<and> length n \<le> 31 \<and> n \<notin> image_names"

text \<open>
  The files of an archive the boot keeps: of the first 16, which is what \<open>initramfs_init\<close> records, those
  before the first one that the 64 KiB of the pool have no room for, where \<open>fs_init\<close> stops.
\<close>

definition kept_files :: "(bytes \<times> bytes) list \<Rightarrow> (bytes \<times> bytes) list" where
  "kept_files fs = fits_pool 0 (take 16 fs)"

lemma fits_pool_prefix:
  "\<exists>n \<le> length fs. fits_pool used fs = take n fs \<and> (\<Sum>(name, data) \<leftarrow> take n fs. length data) + used \<le> max used POOL_SIZE \<and>
     (n < length fs \<longrightarrow> POOL_SIZE < used + (\<Sum>(name, data) \<leftarrow> take (n + 1) fs. length data))"
proof (induction fs arbitrary: used)
  case (Cons f fs)
  obtain name data where f: "f = (name, data)" by (cases f)
  show ?case
  proof (cases "used + length data \<le> POOL_SIZE")
    case True
    obtain n where n: "n \<le> length fs" "fits_pool (used + length data) fs = take n fs"
      "(\<Sum>(name, data) \<leftarrow> take n fs. length data) + (used + length data) \<le> max (used + length data) POOL_SIZE"
      "n < length fs \<longrightarrow> POOL_SIZE < used + length data + (\<Sum>(name, data) \<leftarrow> take (n + 1) fs. length data)"
      using Cons.IH by blast
    then show ?thesis using True f by (intro exI [of _ "Suc n"]) auto
  qed (use f in \<open>intro exI [of _ 0], simp\<close>)
qed simp

text \<open>The longest prefix of at most 16 files that fits.\<close>

lemma kept_files_prefix:
  "\<exists>n \<le> min 16 (length fs). kept_files fs = take n fs \<and> (\<Sum>(name, data) \<leftarrow> take n fs. length data) \<le> POOL_SIZE \<and>
     (n < min 16 (length fs) \<longrightarrow> POOL_SIZE < (\<Sum>(name, data) \<leftarrow> take (n + 1) fs. length data))"
proof -
  obtain n where n: "n \<le> length (take 16 fs)" "fits_pool 0 (take 16 fs) = take n (take 16 fs)"
    "(\<Sum>(name, data) \<leftarrow> take n (take 16 fs). length data) + 0 \<le> max 0 POOL_SIZE"
    "n < length (take 16 fs) \<longrightarrow> POOL_SIZE < 0 + (\<Sum>(name, data) \<leftarrow> take (n + 1) (take 16 fs). length data)"
    using fits_pool_prefix [of "take 16 fs" 0] by blast
  have "n \<le> 16" using n(1) by simp
  then have "take n (take 16 fs) = take n fs" by (simp add: min_absorb1)
  moreover have "n < min 16 (length fs) \<Longrightarrow> take (n + 1) (take 16 fs) = take (n + 1) fs" by (simp add: min_absorb1)
  ultimately show ?thesis using n unfolding kept_files_def by (intro exI [of _ n]) auto
qed

lemma kept_all:
  assumes "length fs \<le> 16" and "(\<Sum>(name, data) \<leftarrow> fs. length data) \<le> POOL_SIZE"
  shows "kept_files fs = fs"
proof -
  obtain n where n: "n \<le> min 16 (length fs)" "kept_files fs = take n fs"
    "n < min 16 (length fs) \<longrightarrow> POOL_SIZE < (\<Sum>(name, data) \<leftarrow> take (n + 1) fs. length data)"
    using kept_files_prefix [of fs] by blast
  have "(\<Sum>(name, data) \<leftarrow> take (n + 1) fs. length data) + (\<Sum>(name, data) \<leftarrow> drop (n + 1) fs. length data)
      = (\<Sum>(name, data) \<leftarrow> fs. length data)"
    unfolding sum_list_append [symmetric] map_append [symmetric] append_take_drop_id by (rule refl)
  then have "\<not> n < min 16 (length fs)" using n(3) assms(2) by linarith
  then show ?thesis using n(1,2) assms(1) by simp
qed

lemma boot_files:
  assumes "cpio_meta_ok m" and "list_all cpio_ok fs" and "base mod 4 = 0"
    and "base + length (cpio_archive m fs) + 3 < 2 ^ 64"
    and plain: "list_all (\<lambda>(name, data). plain_name name) fs" and "distinct (map fst fs)"
  shows "\<exists>files s. initramfs_init base (cpio_archive m fs) = Some files \<and> fs_init files fs_boot = Some s \<and>
    fs_inv s \<and> file_count s = length (kept_files fs) \<and> active_fs s = FS_TYPE_INITRAMFS \<and>
    (\<forall>i < length (kept_files fs). fs_open (fst (fs ! i) @ [0]) s = Some (Some (FsFile i), s) \<and>
       (\<forall>n. fs_read_slice i 0 n s = Some (take n (snd (fs ! i))))) \<and>
    (\<forall>i < length fs. length (kept_files fs) \<le> i \<longrightarrow> fs_open (fst (fs ! i) @ [0]) s = Some (None, s))"
proof -
  let ?ks = "kept_files fs"
  obtain k where k: "k \<le> min 16 (length fs)" "?ks = take k fs" using kept_files_prefix [of fs] by blast
  have kept: "?ks ! i = fs ! i" "i < length fs" if "i < length ?ks" for i using that k by simp_all
  obtain files where f: "initramfs_init base (cpio_archive m fs) = Some files" "list_all2 represents files (take 16 fs)"
    by (rule initramfs_init_first [OF assms(1-4)])
  have mu: "mem_used fs_boot = 0" by (simp add: fs_boot_def)
  obtain s1 where s1: "fs_init files fs_boot = do { s2 \<leftarrow> fs_import files s1;
      fs_find_image (take (file_count s2) (fs_files s2)) s2 }"
    "fs_inv s1" "file_count s1 = 0" "mem_used s1 = 0" "active_fs s1 = FS_TYPE_INITRAMFS"
    using fs_init_start [of fs_boot files] mu by auto
  have pl: "plain_name (fst (fs ! i))" if "i < length fs" for i
    using plain that by (simp add: list_all_length split_beta)
  have nonempty: "\<forall>(name, data) \<in> set (take 16 fs). name \<noteq> [] \<and> last name \<noteq> 47 \<and> length data < 2 ^ 32"
    using plain assms(2) by (auto simp: list_all_iff plain_name_def cpio_ok_def dest!: in_set_takeD)
  have room: "file_count s1 + length (take 16 fs) \<le> FS_MAX_FILES" using s1(3) by (simp add: fs_consts)
  from import_files [OF f(2) s1(2) nonempty room]
  obtain s2 where s2: "fs_import files s1 = Some s2" "fs_inv s2" "file_count s2 = length ?ks"
    "active_fs s2 = FS_TYPE_INITRAMFS"
    "\<And>i. i < length ?ks \<Longrightarrow> file_name s2 i = take 31 (fst (?ks ! i)) \<and> content s2 i = snd (?ks ! i)"
    using s1(3,4,5) unfolding kept_files_def by auto
  have tab: "table_ok s2" using s2(2) by (simp add: fs_inv_def)
  have nm: "file_name s2 i = fst (fs ! i)" if "i < length ?ks" for i
    using s2(5) [OF that] pl [OF kept(2) [OF that]] kept(1) [OF that] by (simp add: plain_name_def)
  have "fs_find_image (take (file_count s2) (fs_files s2)) s2 = Some s2"
  proof (rule fs_find_image_none, rule ballI)
    fix g assume g: "g \<in> set (take (file_count s2) (fs_files s2))"
    from nth_mem_take [OF g] obtain i where i: "i < file_count s2" "g = fs_files s2 ! i" by auto
    then have "cstr (ff_name g) = fst (fs ! i)" using nm s2(3) by (simp add: file_name_def)
    then show "terminated (ff_name g) \<and> cstr (ff_name g) \<notin> image_names"
      using name_bound(1) [OF tab i(1)] i pl kept(2) s2(3) by (simp add: plain_name_def)
  qed
  then have init: "fs_init files fs_boot = Some s2" using s1(1) s2(1) by simp
  have opened: "fs_open (fst (fs ! i) @ [0]) s2 = Some (if i < length ?ks then Some (FsFile i) else None, s2)"
    if i: "i < length fs" for i
  proof -
    let ?n = "fst (fs ! i)"
    have nz: "0 \<notin> set ?n" using assms(2) i by (auto simp: list_all_length cpio_ok_def)
    then have n: "terminated (?n @ [0])" "cstr (?n @ [0]) = ?n" by (simp_all add: cstr_append_left)
    have ne: "cstr (?n @ [0]) \<noteq> []" using n(2) pl [OF i] by (simp add: plain_name_def)
    have match: "name_matches ?n (file_name s2 j) \<longleftrightarrow> j = i" if j: "j < length ?ks" for j
    proof -
      have "name_matches ?n (fst (fs ! j)) \<longleftrightarrow> fst (fs ! j) = ?n"
        using pl [OF i] pl [OF kept(2) [OF j]] by (intro plain_name_matches) (simp_all add: plain_name_def)
      also have "\<dots> \<longleftrightarrow> j = i"
        using nth_eq_iff_index_eq [OF assms(6), of j i] i kept(2) [OF j] by simp
      finally show ?thesis using nm [OF j] by simp
    qed
    have "lookup_file s2 ?n = (if i < length ?ks then Some i else None)"
    proof (cases "i < length ?ks")
      case True
      then show ?thesis
        unfolding lookup_file_def if_P [OF True] find_Some_iff s2(3)
        using match by (intro exI [of _ i]) auto
    next
      case False
      then show ?thesis
        unfolding lookup_file_def if_not_P [OF False] find_None_iff s2(3) using match by auto
    qed
    then show ?thesis using fs_open_eq [OF tab _ n(1) ne] s2(4) n(2) by simp
  qed
  have "fs_read_slice i 0 n s2 = Some (take n (snd (fs ! i)))" if "i < length ?ks" for i n
    using fs_read_slice_eq [OF tab, of i 0 n] s2(3,5) that kept(1) [OF that] by simp
  then show ?thesis using f(1) init s2(2-4) opened kept(2) by (intro exI [of _ files] exI [of _ s2]) auto
qed

text \<open>
  From the boot archive to the reader: for an archive of at most 16 files with distinct
  plain names and at most 64 KiB of content, \<open>initramfs_init\<close> and \<open>fs_init\<close> succeed, and then
  \<open>fs_open\<close> by name and \<open>fs_read\<close> give back the content that was packed.
\<close>

theorem boot_files_readable:
  assumes "cpio_meta_ok m" and "list_all cpio_ok fs" and "base mod 4 = 0" and "length fs \<le> 16"
    and "base + length (cpio_archive m fs) + 3 < 2 ^ 64"
    and plain: "list_all (\<lambda>(name, data). plain_name name) fs" and "distinct (map fst fs)"
    and pool: "(\<Sum>(name, data) \<leftarrow> fs. length data) \<le> POOL_SIZE"
  shows "\<exists>files s. initramfs_init base (cpio_archive m fs) = Some files \<and> fs_init files fs_boot = Some s \<and>
    fs_inv s \<and> file_count s = length fs \<and>
    (\<forall>i < length fs. fs_open (fst (fs ! i) @ [0]) s = Some (Some (FsFile i), s) \<and>
       (\<forall>n. fs_read_slice i 0 n s = Some (take n (snd (fs ! i)))))"
  using boot_files [OF assms(1-3,5-7)] unfolding kept_all [OF assms(4,8)] by blast

theorem boot_files_readable_witness:
  "\<exists>files s. initramfs_init 0x1000 (cpio_archive example_meta example_files) = Some files \<and>
     fs_init files fs_boot = Some s \<and> fs_open (str ''bin/sh'' @ [0]) s = Some (Some (FsFile 1), s) \<and>
     fs_read_slice 1 0 100 s = Some [1, 2, 3, 0, 5]"
proof -
  have h: "list_all (\<lambda>(name, data). plain_name name) example_files" "distinct (map fst example_files)"
    "(\<Sum>(name, data) \<leftarrow> example_files. length data) \<le> POOL_SIZE"
    by (simp_all add: example_files_def plain_name_def image_names_def fs_consts)
  have e: "1 < length example_files" "example_files ! 1 = (str ''bin/sh'', [1, 2, 3, 0, 5])"
    by (simp_all add: example_files_def)
  obtain files s where s: "initramfs_init 0x1000 (cpio_archive example_meta example_files) = Some files"
    "fs_init files fs_boot = Some s"
    "\<forall>i < length example_files. fs_open (fst (example_files ! i) @ [0]) s = Some (Some (FsFile i), s) \<and>
       (\<forall>n. fs_read_slice i 0 n s = Some (take n (snd (example_files ! i))))"
    using boot_files_readable [OF example_archive_ok(1,2) _ example_archive_ok(3,4) h] by auto
  then show ?thesis using e by (intro exI [of _ files] exI [of _ s]) auto
qed

end
