(* ===== verification/Keyboard.thy ===== *)
theory Keyboard
  imports Prelude
begin

text \<open>
  The PS/2 keyboard (\<open>kernel/src/src/keyboard.c\<close>): scan codes of set 1 to ASCII, with the
  modifier keys as state. The data port is the list of scan codes the controller will deliver;
  polling an empty list never returns.
\<close>

section \<open>State and operations\<close>

record key_state =
  ctrl_down :: bool
  shift_down :: bool
  alt_down :: bool

definition key_boot :: key_state where
  "key_boot = \<lparr>ctrl_down = False, shift_down = False, alt_down = False\<rparr>"

definition SCANCODE_CTRL :: u8 where "SCANCODE_CTRL = 0x1D"
definition SCANCODE_LSHIFT :: u8 where "SCANCODE_LSHIFT = 0x2A"
definition SCANCODE_RSHIFT :: u8 where "SCANCODE_RSHIFT = 0x36"
definition SCANCODE_ALT :: u8 where "SCANCODE_ALT = 0x38"

lemmas scancodes = SCANCODE_CTRL_def SCANCODE_LSHIFT_def SCANCODE_RSHIFT_def SCANCODE_ALT_def

definition scancode_set1 :: bytes where
  "scancode_set1 =
     [0, 27] @ str ''1234567890-='' @ [8, 9] @ str ''qwertyuiop[]'' @ [10, 0] @
     str ''asdfghjkl;'' @ [39, 96, 0, 92] @ str ''zxcvbnm,./'' @ [0, 42, 0, 32] @ replicate 70 0"

definition scancode_set1_shift :: bytes where
  "scancode_set1_shift =
     [0, 27] @ str ''!@#$%^&*()_+'' @ [8, 9] @ str ''QWERTYUIOP{}'' @ [10, 0] @
     str ''ASDFGHJKL:'' @ [34, 126, 0, 124] @ str ''ZXCVBNM<>?'' @ [0, 42, 0, 32] @ replicate 70 0"

definition key_release :: "u8 \<Rightarrow> key_state \<Rightarrow> key_state" where
  "key_release sc k =
     (if sc = SCANCODE_CTRL then k\<lparr>ctrl_down := False\<rparr>
      else if sc = SCANCODE_LSHIFT \<or> sc = SCANCODE_RSHIFT then k\<lparr>shift_down := False\<rparr>
      else if sc = SCANCODE_ALT then k\<lparr>alt_down := False\<rparr>
      else k)"

definition key_char :: "u8 \<Rightarrow> key_state \<Rightarrow> u8 option" where
  "key_char sc k = do {
     c \<leftarrow> rd (if shift_down k then scancode_set1_shift else scancode_set1) (unat sc);
     Some (if ctrl_down k \<and> 97 \<le> c \<and> c \<le> 122 then c - 97 + 1 else c) }"

text \<open>The part of \<open>keyboard_read_char\<close> after the scan code \<open>sc\<close> was read.\<close>

definition keyboard_handle :: "u8 \<Rightarrow> key_state \<Rightarrow> (u8 \<times> key_state) option" where
  "keyboard_handle sc k =
     (if sc AND 0x80 \<noteq> 0 then Some (0, key_release (sc AND 0x7F) k)
      else if sc = SCANCODE_CTRL then Some (0, k\<lparr>ctrl_down := True\<rparr>)
      else if sc = SCANCODE_LSHIFT \<or> sc = SCANCODE_RSHIFT then Some (0, k\<lparr>shift_down := True\<rparr>)
      else if sc = SCANCODE_ALT then Some (0, k\<lparr>alt_down := True\<rparr>)
      else do { c \<leftarrow> key_char sc k; Some (c, k) })"

fun keyboard_read_char :: "bytes \<Rightarrow> key_state \<Rightarrow> (u8 \<times> bytes \<times> key_state) option" where
  "keyboard_read_char [] k = None"
| "keyboard_read_char (sc # scs) k = do { (c, k') \<leftarrow> keyboard_handle sc k; Some (c, scs, k') }"

definition keyboard_ctrl_pressed :: "key_state \<Rightarrow> bool" where
  "keyboard_ctrl_pressed k = ctrl_down k"

definition keyboard_shift_pressed :: "key_state \<Rightarrow> bool" where
  "keyboard_shift_pressed k = shift_down k"

definition keyboard_alt_pressed :: "key_state \<Rightarrow> bool" where
  "keyboard_alt_pressed k = alt_down k"

section \<open>Totality\<close>

lemma length_scancode_sets [simp]: "length scancode_set1 = 128" "length scancode_set1_shift = 128"
  by (simp_all add: scancode_set1_def scancode_set1_shift_def)

lemma press_less: "sc AND 0x80 = 0 \<Longrightarrow> unat (sc :: u8) < 128"
proof -
  assume h: "sc AND 0x80 = 0"
  have m: "(0x80 :: u8) = push_bit 7 1" by simp
  have "\<not> bit sc 7" using h by (simp only: m bit_iff_and_push_bit_not_eq_0)
  then have "sc = take_bit 7 sc"
    by (intro bit_word_eqI) (auto simp: bit_take_bit_iff less_Suc_eq numeral_eq_Suc)
  then have "unat sc = take_bit 7 (unat sc)" by (metis unsigned_take_bit_eq)
  then show ?thesis using take_bit_nat_less_exp [of 7 "unat sc"] by simp
qed

lemma scancode_sets_zero:
  "scancode_set1 ! 29 = 0" "scancode_set1 ! 42 = 0" "scancode_set1 ! 54 = 0" "scancode_set1 ! 56 = 0"
  "scancode_set1_shift ! 29 = 0" "scancode_set1_shift ! 42 = 0" "scancode_set1_shift ! 54 = 0"
  "scancode_set1_shift ! 56 = 0"
  by (simp_all add: scancode_set1_def scancode_set1_shift_def)

lemma scancode_sets_ascii: "c \<in> set scancode_set1 \<union> set scancode_set1_shift \<Longrightarrow> c < 0x80"
  by (auto simp: scancode_set1_def scancode_set1_shift_def)

lemma key_char_eq:
  assumes "unat sc < 128"
  shows "key_char sc k = (let c = (if shift_down k then scancode_set1_shift else scancode_set1) ! unat sc
     in Some (if ctrl_down k \<and> 97 \<le> c \<and> c \<le> 122 then c - 97 + 1 else c))"
  using assms by (simp add: key_char_def Let_def)

lemma key_char_ascii:
  assumes "key_char sc k = Some c"
  shows "c < 0x80"
proof -
  obtain d where d: "rd (if shift_down k then scancode_set1_shift else scancode_set1) (unat sc) = Some d"
    "c = (if ctrl_down k \<and> 97 \<le> d \<and> d \<le> 122 then d - 97 + 1 else d)"
    using assms by (auto simp: key_char_def Let_def split: Option.bind_splits)
  have "d \<in> set scancode_set1 \<union> set scancode_set1_shift"
    using rd_SomeD [OF d(1)] nth_mem [of "unat sc" scancode_set1] nth_mem [of "unat sc" scancode_set1_shift]
    by (auto split: if_splits)
  then have "d < 0x80" by (rule scancode_sets_ascii)
  then have "uint d < 128" by (simp add: word_less_def)
  moreover have "uint c = (if ctrl_down k \<and> 97 \<le> d \<and> d \<le> 122 then uint d - 96 else uint d)"
    using d(2) by (auto simp: word_le_def uint_word_ariths)
  ultimately show ?thesis by (simp add: word_less_def split: if_splits)
qed

lemma keyboard_handle_total:
  "\<exists>c k'. keyboard_handle sc k = Some (c, k') \<and> c < 0x80 \<and> (sc AND 0x80 \<noteq> 0 \<longrightarrow> c = 0)"
proof (cases "sc AND 0x80 = 0")
  case True
  from key_char_eq [OF press_less [OF True], of k] obtain c where "key_char sc k = Some c" by (simp add: Let_def)
  then show ?thesis using True key_char_ascii [of sc k c] by (simp add: keyboard_handle_def)
qed (simp add: keyboard_handle_def)

section \<open>Reading a sequence of scan codes\<close>

text \<open>
  What a reader gets that skips the zeros, as \<open>sys_read\<close> and the shell do: the characters of a
  sequence of scan codes.
\<close>

fun keyboard_feed :: "bytes \<Rightarrow> key_state \<Rightarrow> (bytes \<times> key_state) option" where
  "keyboard_feed [] k = Some ([], k)"
| "keyboard_feed (sc # scs) k = do {
     (c, k1) \<leftarrow> keyboard_handle sc k;
     (cs, k2) \<leftarrow> keyboard_feed scs k1;
     Some (if c = 0 then cs else c # cs, k2) }"

lemma keyboard_feed_append:
  "keyboard_feed (xs @ ys) k = do { (a, k1) \<leftarrow> keyboard_feed xs k; (b, k2) \<leftarrow> keyboard_feed ys k1; Some (a @ b, k2) }"
  by (induction xs arbitrary: k) (auto split: Option.bind_splits)

lemma keyboard_feed_seq:
  "keyboard_feed xs k = Some (a, k1) \<Longrightarrow> keyboard_feed ys k1 = Some (b, k2) \<Longrightarrow>
     keyboard_feed (xs @ ys) k = Some (a @ b, k2)"
  by (simp add: keyboard_feed_append)

section \<open>Properties\<close>

definition is_shift :: "u8 \<Rightarrow> bool" where
  "is_shift sc \<longleftrightarrow> sc AND 0x7F = SCANCODE_LSHIFT \<or> sc AND 0x7F = SCANCODE_RSHIFT"

lemma low_seven_bits: "unat (sc :: u8) < 128 \<Longrightarrow> take_bit 7 sc = sc"
proof -
  assume "unat sc < 128"
  then have "take_bit 7 (unat sc) = unat sc" by (simp add: take_bit_nat_eq_self_iff)
  then show ?thesis by (metis unsigned_take_bit_eq unsigned_word_eqI)
qed

lemma press_and_7F: "sc AND 0x80 = 0 \<Longrightarrow> sc AND 0x7F = (sc :: u8)"
proof -
  assume "sc AND 0x80 = 0"
  then have "take_bit 7 sc = sc" by (intro low_seven_bits press_less)
  moreover have "(0x7F :: u8) = mask 7" by (simp add: mask_eq_exp_minus_1)
  ultimately show ?thesis by (simp only: take_bit_eq_mask)
qed

lemma keyboard_handle_shift:
  "keyboard_handle sc k = Some (c, k') \<Longrightarrow>
     shift_down k' = (if is_shift sc then sc AND 0x80 = 0 else shift_down k)"
  by (cases "sc AND 0x80 = 0")
    (auto simp: keyboard_handle_def key_release_def is_shift_def press_and_7F scancodes
      split: if_splits Option.bind_splits)

text \<open>
  C34 Whatever the keys, reading never fails and yields ASCII; the shift state is that of the
  last event of a shift key. The two shift keys share one flag: releasing one while the other is
  held ends the shift.
\<close>

theorem keyboard_tracks_shift:
  "\<exists>cs k'. keyboard_feed scs k = Some (cs, k') \<and> list_all (\<lambda>c. 0 < c \<and> c < 0x80) cs \<and>
     (let ev = filter is_shift scs
      in shift_down k' = (if ev = [] then shift_down k else last ev AND 0x80 = 0))"
proof (induction scs arbitrary: k)
  case (Cons sc scs)
  obtain c k1 where h: "keyboard_handle sc k = Some (c, k1)" "c < 0x80"
    using keyboard_handle_total by blast
  obtain cs k2 where f: "keyboard_feed scs k1 = Some (cs, k2)" "list_all (\<lambda>c. 0 < c \<and> c < 0x80) cs"
    "let ev = filter is_shift scs in shift_down k2 = (if ev = [] then shift_down k1 else last ev AND 0x80 = 0)"
    using Cons.IH [of k1] by blast
  have "list_all (\<lambda>c. 0 < c \<and> c < 0x80) (if c = 0 then cs else c # cs)"
    using f(2) h(2) by (simp add: word_neq_0_conv)
  moreover have "let ev = filter is_shift (sc # scs)
      in shift_down k2 = (if ev = [] then shift_down k else last ev AND 0x80 = 0)"
    using f(3) keyboard_handle_shift [OF h(1)] by (simp add: Let_def)
  ultimately show ?case using h f(1) by simp
qed simp

text \<open>The key strokes that type a character: press and release, with shift around if needed.\<close>

definition index_of :: "u8 \<Rightarrow> bytes \<Rightarrow> nat" where
  "index_of c t = length (takeWhile (\<lambda>d. d \<noteq> c) t)"

definition type_char :: "u8 \<Rightarrow> bytes" where
  "type_char c =
     (if c \<in> set scancode_set1
      then (let sc = word_of_nat (index_of c scancode_set1) in [sc, sc OR 0x80])
      else (let sc = word_of_nat (index_of c scancode_set1_shift)
            in [SCANCODE_LSHIFT, sc, sc OR 0x80, SCANCODE_LSHIFT OR 0x80]))"

definition typable :: "u8 \<Rightarrow> bool" where
  "typable c \<longleftrightarrow> c \<noteq> 0 \<and> (c \<in> set scancode_set1 \<or> c \<in> set scancode_set1_shift)"

lemma index_of_nth: "c \<in> set t \<Longrightarrow> index_of c t < length t \<and> t ! index_of c t = c"
proof (induction t)
  case (Cons a t)
  then show ?case by (cases "a = c") (simp_all add: index_of_def)
qed simp

text \<open>A press and a release of the key with the scan code \<open>i\<close>.\<close>

lemma key_stroke:
  fixes sc :: u8
  assumes i: "i < 128" and sc: "sc = word_of_nat i" and c: "c \<noteq> 0" "k = \<lparr>ctrl_down = False, shift_down = b, alt_down = a\<rparr>"
    "(if b then scancode_set1_shift else scancode_set1) ! i = c"
  shows "keyboard_feed [sc, sc OR 0x80] k = Some ([c], k)"
proof -
  have u: "unat sc = i" using i by (simp add: sc unat_of_nat)
  have "i \<noteq> 29" "i \<noteq> 42" "i \<noteq> 54" "i \<noteq> 56"
    using c scancode_sets_zero by (auto split: if_splits)
  then have ne: "sc \<noteq> 0x1D" "sc \<noteq> 0x2A" "sc \<noteq> 0x36" "sc \<noteq> 0x38" using u by auto
  have low: "take_bit 7 sc = sc"
    by (rule low_seven_bits) (simp add: u i)
  have m: "(0x7F :: u8) = mask 7" by (simp add: mask_eq_exp_minus_1)
  have "sc AND 0x80 = (sc AND 0x7F) AND 0x80" by (simp only: m take_bit_eq_mask [symmetric] low)
  also have "\<dots> = sc AND (0x7F AND 0x80)" by (simp only: and.assoc)
  finally have press: "sc AND 0x80 = 0" by simp
  have rel: "(sc OR 0x80) AND 0x80 \<noteq> 0"
    by (simp add: bit.conj_disj_distrib2 press)
  have "(sc OR 0x80) AND 0x7F = take_bit 7 sc OR take_bit 7 0x80"
    by (simp only: m take_bit_eq_mask [symmetric] take_bit_or)
  then have low7: "(sc OR 0x80) AND 0x7F = sc" by (simp add: low)
  have "rd (if b then scancode_set1_shift else scancode_set1) i = Some c"
    using i c(3) by (auto split: if_splits)
  then have "key_char sc k = Some c" by (simp add: key_char_def u c(2))
  then show ?thesis
    using press rel low7 ne c(1) by (simp add: keyboard_handle_def key_release_def scancodes)
qed

lemma type_char_feed:
  assumes c: "typable c" and k: "\<not> ctrl_down k" "\<not> shift_down k"
  shows "keyboard_feed (type_char c) k = Some ([c], k)"
proof -
  have k0: "k = \<lparr>ctrl_down = False, shift_down = False, alt_down = alt_down k\<rparr>" using k by simp
  show ?thesis
  proof (cases "c \<in> set scancode_set1")
    case True
    let ?i = "index_of c scancode_set1"
    have i: "?i < 128" "scancode_set1 ! ?i = c" using index_of_nth [OF True] by simp_all
    show ?thesis
      using key_stroke [OF i(1) refl _ k0, of c] i(2) c True by (simp add: type_char_def typable_def Let_def)
  next
    case False
    let ?i = "index_of c scancode_set1_shift" and ?s = "SCANCODE_LSHIFT"
    have "c \<in> set scancode_set1_shift" using c False by (simp add: typable_def)
    then have i: "?i < 128" "scancode_set1_shift ! ?i = c" using index_of_nth [of c scancode_set1_shift] by simp_all
    let ?k = "\<lparr>ctrl_down = False, shift_down = True, alt_down = alt_down k\<rparr>"
    have down: "keyboard_feed [?s] k = Some ([], ?k)"
      using k by (simp add: keyboard_handle_def scancodes)
    have up: "keyboard_feed [?s OR 0x80] ?k = Some ([], k)"
      using k by (simp add: keyboard_handle_def key_release_def scancodes)
    have mid: "keyboard_feed [word_of_nat ?i, word_of_nat ?i OR 0x80] ?k = Some ([c], ?k)"
      by (rule key_stroke [OF i(1) refl _ refl]) (use c i(2) in \<open>simp_all add: typable_def\<close>)
    have "type_char c = [?s] @ [word_of_nat ?i, word_of_nat ?i OR 0x80] @ [?s OR 0x80]"
      using False by (simp add: type_char_def Let_def)
    then show ?thesis using keyboard_feed_seq [OF down keyboard_feed_seq [OF mid up]] by simp
  qed
qed

lemma typed_feed:
  "list_all typable ts \<Longrightarrow> \<not> ctrl_down k \<Longrightarrow> \<not> shift_down k \<Longrightarrow>
     keyboard_feed (concat (map type_char ts)) k = Some (ts, k)"
  by (induction ts) (simp_all add: keyboard_feed_append type_char_feed)

text \<open>
  C33 Typing and reading are inverse: the key strokes of a text, made with no modifier held,
  are read back as that text and leave no modifier held.
\<close>

theorem keyboard_typed_text:
  assumes "list_all typable ts" and "\<not> ctrl_down k" and "\<not> shift_down k"
  shows "keyboard_feed (concat (map type_char ts)) k = Some (ts, k)"
  by (rule typed_feed [OF assms])

theorem keyboard_typed_text_witness:
  "keyboard_feed [0x2A, 0x23, 0xA3, 0xAA, 0x17, 0x97, 0x1C, 0x9C] key_boot = Some ([72, 105, 10], key_boot)"
proof -
  have "list_all typable [72, 105, 10]"
    by (simp add: typable_def scancode_set1_def scancode_set1_shift_def)
  moreover have "concat (map type_char [72, 105, 10]) = [0x2A, 0x23, 0xA3, 0xAA, 0x17, 0x97, 0x1C, 0x9C]"
    by (simp add: type_char_def Let_def index_of_def scancode_set1_def scancode_set1_shift_def scancodes)
  ultimately show ?thesis
    using keyboard_typed_text [of "[72, 105, 10]" key_boot] by (simp only: key_boot_def) simp
qed

end
