(* ===== verification/Syscall.thy ===== *)
theory Syscall
  imports Space FsBoot Keyboard Endian
begin

text \<open>
  The system calls (\<open>kernel/src/src/syscall.c\<close>, \<open>syscall.h\<close>) over the state of the whole kernel:
  memory and page tables, the file system, the keyboard, the terminal (the bytes written to it),
  the descriptor table and the process counter. \<open>None\<close> is a call that does not return: a fault
  in the kernel, or a wait for a key that never comes.
\<close>

section \<open>State\<close>

definition MAX_FDS :: nat where "MAX_FDS = 16"

record file_descriptor =
  desc_file :: "file_ref option"
  desc_position :: nat
  desc_used :: bool

record kernel =
  k_vm :: vm
  k_fs :: fs_state
  k_keys :: key_state
  k_scancodes :: bytes
  ft_ctx :: bool
  terminal :: bytes
  fd_table :: "file_descriptor list"
  next_pid :: u64
  user_rsp_storage :: u64
  user_rip_storage :: u64
  user_rflags_storage :: u64
  msr :: "u32 \<Rightarrow> u64"

definition terminal_write :: "bytes \<Rightarrow> kernel \<Rightarrow> kernel" where
  "terminal_write bs k = (if ft_ctx k then k\<lparr>terminal := terminal k @ bs\<rparr> else k)"

section \<open>User memory\<close>

definition KERNEL_VMA_BASE :: u64 where
  "KERNEL_VMA_BASE = 0xffff800000000000"

definition validate_user_memory :: "u64 \<Rightarrow> nat \<Rightarrow> bool" where
  "validate_user_memory vaddr sz =
     (if vaddr = 0 \<or> sz = 0 then False
      else if unat vaddr + (sz - 1) \<ge> 2 ^ 64 then False
      else \<not> (vaddr \<ge> KERNEL_VMA_BASE \<or> vaddr + word_of_nat (sz - 1) \<ge> KERNEL_VMA_BASE))"

text \<open>The two copies: an inner \<open>None\<close>, or \<open>False\<close>, is the result \<open>-1\<close>.\<close>

definition copy_from_user :: "u64 \<Rightarrow> nat \<Rightarrow> vm \<Rightarrow> bytes option option" where
  "copy_from_user user_src sz s =
     (if \<not> validate_user_memory user_src sz then Some None
      else do { bs \<leftarrow> user_loads user_src sz s; Some (Some bs) })"

definition copy_to_user :: "u64 \<Rightarrow> bytes \<Rightarrow> vm \<Rightarrow> (bool \<times> vm) option" where
  "copy_to_user user_dest bs s =
     (if \<not> validate_user_memory user_dest (length bs) then Some (False, s)
      else do { s' \<leftarrow> user_stores user_dest bs s; Some (True, s') })"

section \<open>Exit\<close>

definition exit_msg :: bytes where
  "exit_msg = 10 # lit ''Program exited with code ''"

text \<open>The loop \<open>while (exit_msg[i])\<close>.\<close>

fun copy_message :: "bytes \<Rightarrow> bytes \<Rightarrow> nat \<Rightarrow> (bytes \<times> nat) option" where
  "copy_message buf [] i = None"
| "copy_message buf (c # cs) i =
     (if c = 0 then Some (buf, i) else do { buf' \<leftarrow> wr buf i c; copy_message buf' cs (i + 1) })"

text \<open>Counting and storing the decimal digits, the last digit first.\<close>

fun count_digits :: "nat \<Rightarrow> nat" where
  "count_digits temp = (if temp > 0 then Suc (count_digits (temp div 10)) else 0)"

declare count_digits.simps [simp del]

fun put_digits :: "nat \<Rightarrow> nat \<Rightarrow> bytes \<Rightarrow> bytes option" where
  "put_digits temp pos buf =
     (if temp > 0
      then do { buf' \<leftarrow> wr buf pos (48 + word_of_nat (temp mod 10)); put_digits (temp div 10) (size_sub pos 1) buf' }
      else Some buf)"

declare put_digits.simps [simp del]

definition sys_exit :: "u64 \<Rightarrow> kernel \<Rightarrow> (int \<times> kernel) option" where
  "sys_exit code k = do {
     (buf, i) \<leftarrow> copy_message (replicate 64 0) exit_msg 0;
     (buf, i) \<leftarrow>
       (if code = 0 then do { b \<leftarrow> wr buf i 48; Some (b, i + 1) }
        else do {
          let digits = count_digits (unat code);
          let pos = i + digits - 1;
          b \<leftarrow> put_digits (unat code) pos buf;
          Some (b, pos + 1) });
     buf \<leftarrow> wr buf i 10;
     buf \<leftarrow> wr buf (i + 1) 0;
     Some (0xDEAD, terminal_write (take (i + 1) buf) k) }"

section \<open>Reading and writing\<close>

definition sys_write :: "u64 \<Rightarrow> u64 \<Rightarrow> u64 \<Rightarrow> kernel \<Rightarrow> (int \<times> kernel) option" where
  "sys_write fd buf_ptr count k =
     (if count = 0 then Some (0, k)
      else (let n = (if count > 4096 then 4096 else unat count) in
        if fd = 1 \<or> fd = 2
        then do {
          r \<leftarrow> copy_from_user buf_ptr n (k_vm k);
          case r of None \<Rightarrow> Some (-1, k)
          | Some kbuf \<Rightarrow> Some (int (length kbuf), terminal_write kbuf k) }
        else Some (-1, k)))"

text \<open>The loop of \<open>sys_read\<close> on the standard input; \<open>acc\<close> is what \<open>kbuf\<close> holds.\<close>

fun read_stdin :: "nat \<Rightarrow> bytes \<Rightarrow> bytes \<Rightarrow> key_state \<Rightarrow> (bytes \<times> bytes \<times> key_state) option" where
  "read_stdin to_read acc [] ks = (if length acc < to_read then None else Some (acc, [], ks))"
| "read_stdin to_read acc (sc # scs) ks =
     (if length acc < to_read
      then do {
        (c, rest, ks') \<leftarrow> keyboard_read_char (sc # scs) ks;
        if c = 0 then read_stdin to_read acc scs ks'
        else (let c' = (if c = 13 then 10 else c) in
          if c' = 10 then Some (acc @ [c'], scs, ks') else read_stdin to_read (acc @ [c']) scs ks') }
      else Some (acc, sc # scs, ks))"

definition sys_read :: "u64 \<Rightarrow> u64 \<Rightarrow> u64 \<Rightarrow> kernel \<Rightarrow> (int \<times> kernel) option" where
  "sys_read fd buf_ptr count k =
     (if count = 0 then Some (0, k)
      else (let to_read = (if count > 4096 then 4096 else unat count) in
        if fd = 0
        then do {
          (kbuf, rest, ks) \<leftarrow> read_stdin to_read [] (k_scancodes k) (k_keys k);
          let k1 = k\<lparr>k_scancodes := rest, k_keys := ks\<rparr>;
          (ok, vm') \<leftarrow> copy_to_user buf_ptr kbuf (k_vm k1);
          Some (if ok then int (length kbuf) else -1, k1\<lparr>k_vm := vm'\<rparr>) }
        else if fd \<ge> 3 \<and> fd < 16
        then do {
          desc \<leftarrow> rd (fd_table k) (unat fd);
          if \<not> desc_used desc then Some (-1, k)
          else do {
            (bytes_read, kbuf) \<leftarrow> fs_read (desc_file desc) (desc_position desc) (replicate 4096 0) to_read (k_fs k);
            if bytes_read = 0 then Some (0, k)
            else do {
              (ok, vm') \<leftarrow> copy_to_user buf_ptr (take bytes_read kbuf) (k_vm k);
              if \<not> ok then Some (-1, k\<lparr>k_vm := vm'\<rparr>)
              else do {
                fds \<leftarrow> wr (fd_table k) (unat fd)
                  (desc\<lparr>desc_position := size_add (desc_position desc) bytes_read\<rparr>);
                Some (int bytes_read, k\<lparr>k_vm := vm', fd_table := fds\<rparr>) } } } }
        else Some (-1, k)))"

section \<open>Descriptors\<close>

fun free_fd :: "file_descriptor list \<Rightarrow> nat list \<Rightarrow> nat option option" where
  "free_fd table [] = Some None"
| "free_fd table (i # is) = do { d \<leftarrow> rd table i; if \<not> desc_used d then Some (Some i) else free_fd table is }"

definition sys_open :: "u64 \<Rightarrow> kernel \<Rightarrow> (int \<times> kernel) option" where
  "sys_open path_ptr k = do {
     r \<leftarrow> free_fd (fd_table k) [3..<MAX_FDS];
     (case r of None \<Rightarrow> Some (-1, k)
      | Some fd \<Rightarrow> do {
          r \<leftarrow> copy_from_user path_ptr 255 (k_vm k);
          (case r of None \<Rightarrow> Some (-1, k)
           | Some bs \<Rightarrow> do {
               let kpath = bs @ [0];
               path_len \<leftarrow> strnlen kpath 256;
               if path_len \<ge> 255 then Some (-1, k)
               else do {
                 (file, fs') \<leftarrow> fs_open kpath (k_fs k);
                 let k1 = k\<lparr>k_fs := fs'\<rparr>;
                 (case file of None \<Rightarrow> Some (-1, k1)
                  | Some f \<Rightarrow> do {
                      fds \<leftarrow> wr (fd_table k1) fd \<lparr>desc_file = Some f, desc_position = 0, desc_used = True\<rparr>;
                      Some (int fd, k1\<lparr>fd_table := fds\<rparr>) }) } }) }) }"

definition free_desc :: file_descriptor where
  "free_desc = \<lparr>desc_file = None, desc_position = 0, desc_used = False\<rparr>"

definition sys_close :: "u64 \<Rightarrow> kernel \<Rightarrow> (int \<times> kernel) option" where
  "sys_close fd k =
     (if fd \<ge> 3 \<and> fd < 16
      then do {
        desc \<leftarrow> rd (fd_table k) (unat fd);
        if \<not> desc_used desc then Some (-1, k)
        else do { fds \<leftarrow> wr (fd_table k) (unat fd) free_desc; Some (0, k\<lparr>fd_table := fds\<rparr>) } }
      else Some (-1, k))"

section \<open>Directory entries\<close>

text \<open>A \<open>struct dirent\<close>: a name of 256 bytes and a size, 264 bytes in all.\<close>

definition dirent :: "bytes \<Rightarrow> nat \<Rightarrow> bytes option" where
  "dirent name sz = do {
     d \<leftarrow> strncpy (replicate 256 0) name 255;
     d \<leftarrow> wr d 255 0;
     Some (d @ le64 (word_of_nat sz)) }"

definition sys_readdir :: "u64 \<Rightarrow> u64 \<Rightarrow> u64 \<Rightarrow> kernel \<Rightarrow> (int \<times> kernel) option" where
  "sys_readdir index buf_ptr buf_size k =
     (if buf_size < 264 then Some (-1, k)
      else if \<not> validate_user_memory buf_ptr 264 then Some (-1, k)
      else do {
        (nfiles, files, fs') \<leftarrow> fs_list (k_fs k);
        let k1 = k\<lparr>k_fs := fs'\<rparr>;
        if unat index \<ge> nfiles then Some (0, k1)
        else do {
          fs \<leftarrow> files;
          file_info \<leftarrow> rd fs (unat index);
          kdirent \<leftarrow> dirent (ff_name file_info) (ff_size file_info);
          (ok, vm') \<leftarrow> copy_to_user buf_ptr kdirent (k_vm k1);
          Some (if ok then 1 else -1, k1\<lparr>k_vm := vm'\<rparr>) } })"

section \<open>Fork\<close>

definition USER_STACK_PAGES :: nat where "USER_STACK_PAGES = 8"
definition USER_STACK_TOP_VADDR :: u64 where "USER_STACK_TOP_VADDR = 0x80000000 - 0x1000"
definition USER_STACK_BOTTOM_VADDR :: u64 where
  "USER_STACK_BOTTOM_VADDR = USER_STACK_TOP_VADDR - word_of_nat ((USER_STACK_PAGES - 1) * 4096)"

lemmas user_stack = USER_STACK_PAGES_def USER_STACK_TOP_VADDR_def USER_STACK_BOTTOM_VADDR_def

record fork_context =
  fc_r15 :: u64  fc_r14 :: u64  fc_r13 :: u64  fc_r12 :: u64  fc_rbx :: u64  fc_rbp :: u64
  fc_rip :: u64  fc_rsp :: u64  fc_rflags :: u64

definition user_load64 :: "u64 \<Rightarrow> vm \<Rightarrow> u64 option" where
  "user_load64 va s = map_option of_le64 (user_loads va 8 s)"

text \<open>
  Step 3. \<open>syscall_stack_top\<close> is declared as a pointer object, and the object at that symbol is
  \<open>user_rsp_storage\<close>: the loads go to the user's stack.
\<close>

definition save_context :: "kernel \<Rightarrow> fork_context option" where
  "save_context k = (
     let stack_ptr = user_rsp_storage k in do {
       r15 \<leftarrow> user_load64 (stack_ptr - 8) (k_vm k);
       r14 \<leftarrow> user_load64 (stack_ptr - 16) (k_vm k);
       r13 \<leftarrow> user_load64 (stack_ptr - 24) (k_vm k);
       r12 \<leftarrow> user_load64 (stack_ptr - 32) (k_vm k);
       rbx \<leftarrow> user_load64 (stack_ptr - 40) (k_vm k);
       rbp \<leftarrow> user_load64 (stack_ptr - 48) (k_vm k);
       Some \<lparr>fc_r15 = r15, fc_r14 = r14, fc_r13 = r13, fc_r12 = r12, fc_rbx = rbx, fc_rbp = rbp,
         fc_rip = user_rip_storage k, fc_rsp = user_rsp_storage k, fc_rflags = user_rflags_storage k\<rparr> })"

text \<open>The copy of a page through the direct map; an address that is not canonical faults.\<close>

definition canonical :: "u64 \<Rightarrow> bool" where
  "canonical va \<longleftrightarrow> va < 0x800000000000 \<or> va \<ge> 0xffff800000000000"

definition hhdm_memcpy :: "u64 \<Rightarrow> u64 \<Rightarrow> nat \<Rightarrow> vm \<Rightarrow> vm option" where
  "hhdm_memcpy dest src n s =
     (if canonical dest \<and> canonical src
      then Some (s\<lparr>vm_mem := copy (vm_mem s) (dest - hhdm_offset s) (src - hhdm_offset s) n\<rparr>) else None)"

definition fork_flags :: "u64 \<Rightarrow> u64" where
  "fork_flags vaddr =
     (let flags = PTE_PRESENT OR PTE_USER in
      if vaddr \<ge> USER_STACK_BOTTOM_VADDR \<and> vaddr \<le> USER_STACK_TOP_VADDR then flags OR PTE_WRITABLE else flags)"

text \<open>One turn of the loop of step 4; \<open>False\<close> is \<open>return -1\<close>.\<close>

definition fork_page :: "u64 \<Rightarrow> u64 \<Rightarrow> u64 \<Rightarrow> vm \<Rightarrow> (bool \<times> vm) option" where
  "fork_page parent_pml4 child_pml4 vaddr s = do {
     (parent_phys, s1) \<leftarrow> vmm_get_physical_address parent_pml4 vaddr s;
     if parent_phys = 0 then Some (True, s1)
     else do {
       (child_phys, pm) \<leftarrow> pmm_alloc_frame (vm_pmm s1);
       let s2 = s1\<lparr>vm_pmm := pm\<rparr>;
       if child_phys = 0 then Some (False, s2)
       else do {
         (parent_virt, s3) \<leftarrow> phys_to_virt parent_phys s2;
         (child_virt, s4) \<leftarrow> phys_to_virt child_phys s3;
         s5 \<leftarrow> hhdm_memcpy child_virt parent_virt PAGE_SIZE s4;
         (ok, s6) \<leftarrow> vmm_map_page child_pml4 vaddr child_phys (fork_flags vaddr) s5;
         if ok then Some (True, s6)
         else do { pm' \<leftarrow> pmm_free_frame child_phys (vm_pmm s6); Some (False, s6\<lparr>vm_pmm := pm'\<rparr>) } } } }"

fun fork_pages :: "u64 \<Rightarrow> u64 \<Rightarrow> u64 list \<Rightarrow> vm \<Rightarrow> (bool \<times> vm) option" where
  "fork_pages parent_pml4 child_pml4 [] s = Some (True, s)"
| "fork_pages parent_pml4 child_pml4 (vaddr # vs) s = do {
     (ok, s') \<leftarrow> fork_page parent_pml4 child_pml4 vaddr s;
     if ok then fork_pages parent_pml4 child_pml4 vs s' else Some (False, s') }"

text \<open>The addresses of the loop: every page from 0 to the top of the user stack.\<close>

definition user_pages :: "u64 list" where
  "user_pages = map (\<lambda>i. word_of_nat (i * 4096)) [0..<unat (USER_STACK_TOP_VADDR + 0x1000) div 4096]"

definition sys_fork :: "kernel \<Rightarrow> (int \<times> kernel) option" where
  "sys_fork k = (
     let parent_pml4 = vmm_get_current_address_space (k_vm k) in
     if parent_pml4 = 0 then Some (-1, k)
     else do {
       (child_pml4, vm1) \<leftarrow> vmm_create_address_space (k_vm k);
       let k1 = k\<lparr>k_vm := vm1\<rparr>;
       if child_pml4 = 0 then Some (-1, k1)
       else do {
         context \<leftarrow> save_context k1;
         (ok, vm2) \<leftarrow> fork_pages parent_pml4 child_pml4 user_pages vm1;
         let k2 = k1\<lparr>k_vm := vm2\<rparr>;
         if \<not> ok then Some (-1, k2)
         else Some (sint (next_pid k2), k2\<lparr>next_pid := next_pid k2 + 1\<rparr>) } })"

section \<open>Dispatch and initialisation\<close>

definition SYSCALL_TABLE_SIZE :: int where "SYSCALL_TABLE_SIZE = 7"

definition syscall :: "int \<Rightarrow> u64 \<Rightarrow> u64 \<Rightarrow> u64 \<Rightarrow> kernel \<Rightarrow> (int \<times> kernel) option" where
  "syscall num arg1 arg2 arg3 k =
     (if num < 0 \<or> num \<ge> SYSCALL_TABLE_SIZE then Some (-1, k)
      else do {
        (result, k') \<leftarrow>
          (if num = 0 then sys_exit arg1 k
           else if num = 1 then sys_write arg1 arg2 arg3 k
           else if num = 2 then sys_read arg1 arg2 arg3 k
           else if num = 3 then sys_open arg1 k
           else if num = 4 then sys_close arg1 k
           else if num = 5 then sys_readdir arg1 arg2 arg3 k
           else sys_fork k);
        if result = 0xDEAD \<and> num = 0 then Some (0, k') else Some (result, k') })"

definition MSR_EFER :: u32 where "MSR_EFER = 0xC0000080"
definition MSR_STAR :: u32 where "MSR_STAR = 0xC0000081"
definition MSR_LSTAR :: u32 where "MSR_LSTAR = 0xC0000082"
definition MSR_FMASK :: u32 where "MSR_FMASK = 0xC0000084"

definition wrmsr :: "u32 \<Rightarrow> u64 \<Rightarrow> kernel \<Rightarrow> kernel" where
  "wrmsr msr_id v k = k\<lparr>msr := (msr k)(msr_id := v)\<rparr>"

text \<open>\<open>entry_point\<close> is the address of the assembly stub \<open>syscall_asm_entry\<close>.\<close>

definition syscall_init :: "u64 \<Rightarrow> kernel \<Rightarrow> kernel" where
  "syscall_init entry_point k = (
     let k1 = wrmsr MSR_EFER (msr k MSR_EFER OR 1) k;
         k2 = wrmsr MSR_LSTAR entry_point k1;
         k3 = wrmsr MSR_STAR (push_bit 48 0x10 OR push_bit 32 0x08) k2;
         k4 = wrmsr MSR_FMASK 0x700 k3
     in k4\<lparr>fd_table := replicate MAX_FDS free_desc, next_pid := 1\<rparr>)"

end
