(* ===== verification/Elf.thy ===== *)
theory Elf
  imports Numbers CString Endian "HOL-Library.Signed_Division"
begin

text \<open>
  ELF files (\<open>kernel/src/src/elf.h\<close>) and the shell's ELF viewer (\<open>elf.c\<close>): the validity check,
  the number printers and the header dump. A file is a byte list; a field of a packed header is a
  little-endian read at its offset, and a read past the file is \<open>None\<close>.
\<close>

section \<open>Layout\<close>

definition ELF_MAGIC :: u32 where "ELF_MAGIC = 0x464C457F"
definition ELFCLASS32 :: u8 where "ELFCLASS32 = 1"
definition ELFCLASS64 :: u8 where "ELFCLASS64 = 2"
definition ELFDATA2LSB :: u8 where "ELFDATA2LSB = 1"
definition ELFDATA2MSB :: u8 where "ELFDATA2MSB = 2"
definition ET_EXEC :: u16 where "ET_EXEC = 2"
definition EM_X86_64 :: u16 where "EM_X86_64 = 62"
definition PT_LOAD :: u32 where "PT_LOAD = 1"
definition PF_X :: u32 where "PF_X = 1"
definition PF_W :: u32 where "PF_W = 2"
definition PF_R :: u32 where "PF_R = 4"
definition SHF_WRITE :: u64 where "SHF_WRITE = 1"
definition SHF_ALLOC :: u64 where "SHF_ALLOC = 2"
definition SHF_EXECINSTR :: u64 where "SHF_EXECINSTR = 4"

lemmas elf_consts = ELF_MAGIC_def ELFCLASS32_def ELFCLASS64_def ELFDATA2LSB_def ELFDATA2MSB_def
  ET_EXEC_def EM_X86_64_def PT_LOAD_def PF_X_def PF_W_def PF_R_def

text \<open>\<open>elf_common_header_t\<close>, then the fields of the 64-bit and of the 32-bit header.\<close>

definition SIZEOF_COMMON :: nat where "SIZEOF_COMMON = 24"
definition e_magic :: "bytes \<Rightarrow> u32 option" where "e_magic d = rd_le32 d 0"
definition e_class :: "bytes \<Rightarrow> u8 option" where "e_class d = rd d 4"
definition e_data :: "bytes \<Rightarrow> u8 option" where "e_data d = rd d 5"
definition e_version :: "bytes \<Rightarrow> u8 option" where "e_version d = rd d 6"
definition e_type :: "bytes \<Rightarrow> u16 option" where "e_type d = rd_le16 d 16"
definition e_machine :: "bytes \<Rightarrow> u16 option" where "e_machine d = rd_le16 d 18"

definition SIZEOF_HEADER64 :: nat where "SIZEOF_HEADER64 = 64"
definition e_entry64 :: "bytes \<Rightarrow> u64 option" where "e_entry64 d = rd_le64 d 24"
definition e_phoff64 :: "bytes \<Rightarrow> u64 option" where "e_phoff64 d = rd_le64 d 32"
definition e_shoff64 :: "bytes \<Rightarrow> u64 option" where "e_shoff64 d = rd_le64 d 40"
definition e_phentsize64 :: "bytes \<Rightarrow> u16 option" where "e_phentsize64 d = rd_le16 d 54"
definition e_phnum64 :: "bytes \<Rightarrow> u16 option" where "e_phnum64 d = rd_le16 d 56"
definition e_shentsize64 :: "bytes \<Rightarrow> u16 option" where "e_shentsize64 d = rd_le16 d 58"
definition e_shnum64 :: "bytes \<Rightarrow> u16 option" where "e_shnum64 d = rd_le16 d 60"

definition e_phoff32 :: "bytes \<Rightarrow> u32 option" where "e_phoff32 d = rd_le32 d 28"
definition e_shoff32 :: "bytes \<Rightarrow> u32 option" where "e_shoff32 d = rd_le32 d 32"
definition e_phentsize32 :: "bytes \<Rightarrow> u16 option" where "e_phentsize32 d = rd_le16 d 42"
definition e_phnum32 :: "bytes \<Rightarrow> u16 option" where "e_phnum32 d = rd_le16 d 44"
definition e_shentsize32 :: "bytes \<Rightarrow> u16 option" where "e_shentsize32 d = rd_le16 d 46"
definition e_shnum32 :: "bytes \<Rightarrow> u16 option" where "e_shnum32 d = rd_le16 d 48"

text \<open>Program headers at an offset of the file.\<close>

definition SIZEOF_PHDR64 :: nat where "SIZEOF_PHDR64 = 56"
definition p_type64 :: "bytes \<Rightarrow> nat \<Rightarrow> u32 option" where "p_type64 d ph = rd_le32 d ph"
definition p_flags64 :: "bytes \<Rightarrow> nat \<Rightarrow> u32 option" where "p_flags64 d ph = rd_le32 d (ph + 4)"
definition p_offset64 :: "bytes \<Rightarrow> nat \<Rightarrow> u64 option" where "p_offset64 d ph = rd_le64 d (ph + 8)"
definition p_vaddr64 :: "bytes \<Rightarrow> nat \<Rightarrow> u64 option" where "p_vaddr64 d ph = rd_le64 d (ph + 16)"
definition p_filesz64 :: "bytes \<Rightarrow> nat \<Rightarrow> u64 option" where "p_filesz64 d ph = rd_le64 d (ph + 32)"
definition p_memsz64 :: "bytes \<Rightarrow> nat \<Rightarrow> u64 option" where "p_memsz64 d ph = rd_le64 d (ph + 40)"
definition p_type32 :: "bytes \<Rightarrow> nat \<Rightarrow> u32 option" where "p_type32 d ph = rd_le32 d ph"
definition p_vaddr32 :: "bytes \<Rightarrow> nat \<Rightarrow> u32 option" where "p_vaddr32 d ph = rd_le32 d (ph + 8)"
definition p_flags32 :: "bytes \<Rightarrow> nat \<Rightarrow> u32 option" where "p_flags32 d ph = rd_le32 d (ph + 24)"

text \<open>Section headers at an offset of the file.\<close>

definition sh_type64 :: "bytes \<Rightarrow> nat \<Rightarrow> u32 option" where "sh_type64 d sh = rd_le32 d (sh + 4)"
definition sh_flags64 :: "bytes \<Rightarrow> nat \<Rightarrow> u64 option" where "sh_flags64 d sh = rd_le64 d (sh + 8)"
definition sh_addr64 :: "bytes \<Rightarrow> nat \<Rightarrow> u64 option" where "sh_addr64 d sh = rd_le64 d (sh + 16)"
definition sh_size64 :: "bytes \<Rightarrow> nat \<Rightarrow> u64 option" where "sh_size64 d sh = rd_le64 d (sh + 32)"
definition sh_type32 :: "bytes \<Rightarrow> nat \<Rightarrow> u32 option" where "sh_type32 d sh = rd_le32 d (sh + 4)"
definition sh_flags32 :: "bytes \<Rightarrow> nat \<Rightarrow> u32 option" where "sh_flags32 d sh = rd_le32 d (sh + 8)"
definition sh_addr32 :: "bytes \<Rightarrow> nat \<Rightarrow> u32 option" where "sh_addr32 d sh = rd_le32 d (sh + 12)"
definition sh_size32 :: "bytes \<Rightarrow> nat \<Rightarrow> u32 option" where "sh_size32 d sh = rd_le32 d (sh + 20)"

section \<open>Validity\<close>

definition elf_is_valid :: "bytes \<Rightarrow> bool option" where
  "elf_is_valid d =
     (if length d < SIZEOF_COMMON then Some False
      else do {
        magic \<leftarrow> e_magic d; class \<leftarrow> e_class d; data \<leftarrow> e_data d; version \<leftarrow> e_version d;
        Some (magic = ELF_MAGIC \<and> (class = ELFCLASS32 \<or> class = ELFCLASS64) \<and>
          (data = ELFDATA2LSB \<or> data = ELFDATA2MSB) \<and> version = 1) })"

definition elf_is_64bit :: "bytes \<Rightarrow> bool option" where
  "elf_is_64bit d = do { class \<leftarrow> e_class d; Some (class = ELFCLASS64) }"

section \<open>Names\<close>

definition elf_get_type_str :: "u16 \<Rightarrow> bytes" where
  "elf_get_type_str t = lit
     (if t = 0 then ''NONE (No file type)'' else if t = 1 then ''REL (Relocatable file)''
      else if t = 2 then ''EXEC (Executable file)'' else if t = 3 then ''DYN (Shared object file)''
      else if t = 4 then ''CORE (Core file)'' else ''UNKNOWN'')"

definition elf_get_machine_str :: "u16 \<Rightarrow> bytes" where
  "elf_get_machine_str m = lit
     (if m = 3 then ''Intel 80386'' else if m = 40 then ''ARM'' else if m = 62 then ''AMD x86-64''
      else if m = 183 then ''ARM 64-bits'' else ''Unknown Machine'')"

definition elf_get_section_type_str :: "u32 \<Rightarrow> bytes" where
  "elf_get_section_type_str t =
     (case map_of (zip [0..<12]
        [''NULL'', ''PROGBITS'', ''SYMTAB'', ''STRTAB'', ''RELA'', ''HASH'', ''DYNAMIC'', ''NOTE'',
         ''NOBITS'', ''REL'', ''SHLIB'', ''DYNSYM'']) (unat t) of
        None \<Rightarrow> lit ''UNKNOWN'' | Some n \<Rightarrow> lit n)"

definition elf_get_program_type_str :: "u32 \<Rightarrow> bytes" where
  "elf_get_program_type_str t =
     (case map_of (zip [0..<7]
        [''NULL'', ''LOAD'', ''DYNAMIC'', ''INTERP'', ''NOTE'', ''SHLIB'', ''PHDR'']) (unat t) of
        None \<Rightarrow> lit ''UNKNOWN'' | Some n \<Rightarrow> lit n)"

text \<open>\<open>str_append\<close>: the loop to the end of \<open>dest\<close>, then the copy with the NUL.\<close>

fun append_copy :: "bytes \<Rightarrow> nat \<Rightarrow> bytes \<Rightarrow> bytes option" where
  "append_copy dest i [] = None"
| "append_copy dest i (c # src) =
     (if c = 0 then wr dest i 0 else do { dest' \<leftarrow> wr dest i c; append_copy dest' (i + 1) src })"

definition str_append :: "bytes \<Rightarrow> bytes \<Rightarrow> bytes option" where
  "str_append dest src = do { e \<leftarrow> strlen dest; append_copy dest e src }"

definition append_if :: "bool \<Rightarrow> string \<Rightarrow> bytes \<Rightarrow> bytes option" where
  "append_if c s buf = (if c then str_append buf (lit s) else Some buf)"

definition elf_get_section_flags_str :: "nat \<Rightarrow> u64 \<Rightarrow> bytes option" where
  "elf_get_section_flags_str sz sh_flags = do {
     b \<leftarrow> append_if (sh_flags AND SHF_WRITE \<noteq> 0) ''W'' (replicate sz 0);
     b \<leftarrow> append_if (sh_flags AND SHF_ALLOC \<noteq> 0) ''A'' b;
     append_if (sh_flags AND SHF_EXECINSTR \<noteq> 0) ''X'' b }"

definition elf_get_program_flags_str :: "nat \<Rightarrow> u32 \<Rightarrow> bytes option" where
  "elf_get_program_flags_str sz p_flags = do {
     b \<leftarrow> append_if (p_flags AND PF_R \<noteq> 0) ''R'' (replicate sz 0);
     b \<leftarrow> append_if (p_flags AND PF_W \<noteq> 0) ''W'' b;
     append_if (p_flags AND PF_X \<noteq> 0) ''X'' b }"

section \<open>Numbers\<close>

definition int_range :: "int \<Rightarrow> bool" where
  "int_range n \<longleftrightarrow> - (2 ^ 31) \<le> n \<and> n < 2 ^ 31"

fun skip_spaces :: "bytes \<Rightarrow> bytes" where
  "skip_spaces [] = []"
| "skip_spaces (c # s) = (if c = 32 then skip_spaces s else c # s)"

text \<open>The digit loop of \<open>my_atoi\<close>; an \<open>int\<close> overflow is undefined.\<close>

fun atoi_digits :: "bytes \<Rightarrow> int \<Rightarrow> int option" where
  "atoi_digits [] result = None"
| "atoi_digits (c # s) result =
     (if 48 \<le> c \<and> c \<le> 57
      then (let r = result * 10 + (uint c - 48) in if int_range r then atoi_digits s r else None)
      else Some result)"

definition my_atoi :: "bytes \<Rightarrow> int option" where
  "my_atoi s = (case skip_spaces s of [] \<Rightarrow> None | c # s' \<Rightarrow>
     do { r \<leftarrow> atoi_digits (if c = 45 \<or> c = 43 then s' else c # s') 0;
          Some (if c = 45 then - r else r) })"

text \<open>The digit loop of \<open>my_itoa\<close>, with the truncating division of C.\<close>

function itoa_digits :: "int \<Rightarrow> int \<Rightarrow> bytes \<Rightarrow> nat \<Rightarrow> (bytes \<times> nat) option" where
  "itoa_digits n base buffer i =
     (if n = 0 then Some (buffer, i)
      else if base < 2 then None
      else do {
        let remainder = n smod base;
        buffer' \<leftarrow> wr buffer i (word_of_int (if remainder < 10 then remainder + 48 else remainder + 97 - 10));
        itoa_digits (n sdiv base) base buffer' (i + 1) })"
  by pat_completeness auto
termination
proof (relation "measure (\<lambda>(n, base, b, i). nat \<bar>n\<bar>)")
  fix n base :: int
  assume "n \<noteq> 0" "\<not> base < 2"
  then have "\<bar>n\<bar> div \<bar>base\<bar> < \<bar>n\<bar>" by (intro int_div_less_self) auto
  moreover have "\<bar>n sdiv base\<bar> = \<bar>n\<bar> div \<bar>base\<bar>"
    using \<open>\<not> base < 2\<close> \<open>n \<noteq> 0\<close> by (simp add: signed_divide_int_def abs_mult abs_sgn_eq pos_imp_zdiv_nonneg_iff)
  ultimately show "((n sdiv base, base, b', i + 1), n, base, b, i) \<in> measure (\<lambda>(n, base, b, i). nat \<bar>n\<bar>)" for b' b :: bytes and i :: nat
    using \<open>n \<noteq> 0\<close> by simp
qed simp

declare itoa_digits.simps [simp del]

definition my_itoa :: "int \<Rightarrow> bytes \<Rightarrow> int \<Rightarrow> bytes option" where
  "my_itoa n buffer base =
     (if n = 0 then do { b \<leftarrow> wr buffer 0 48; wr b 1 0 }
      else do {
        let is_negative = (n < 0 \<and> base = 10);
        n' \<leftarrow> (if is_negative then (if int_range (- n) then Some (- n) else None) else Some n);
        (b, i) \<leftarrow> itoa_digits n' base buffer 0;
        (b, i) \<leftarrow> (if is_negative then do { b' \<leftarrow> wr b i 45; Some (b', i + 1) } else Some (b, i));
        b \<leftarrow> wr b i 0;
        swap_ends b 0 (i - 1) })"

fun itohex_digits :: "nat \<Rightarrow> bytes \<Rightarrow> nat \<Rightarrow> (bytes \<times> nat) option" where
  "itohex_digits n buffer i =
     (if n = 0 then Some (buffer, i)
      else do { b \<leftarrow> wr buffer i (hex_digits ! (n mod 16)); itohex_digits (n div 16) b (i + 1) })"

declare itohex_digits.simps [simp del]

definition my_itohex :: "u32 \<Rightarrow> bytes \<Rightarrow> bytes option" where
  "my_itohex n buffer =
     (if n = 0 then do { b \<leftarrow> wr buffer 0 48; wr b 1 0 }
      else do {
        (b, i) \<leftarrow> itohex_digits (unat n) buffer 0;
        b \<leftarrow> wr b i 120;
        b \<leftarrow> wr b (i + 1) 48;
        b \<leftarrow> wr b (i + 2) 0;
        swap_ends b 0 (i + 2 - 1) })"

section \<open>The dump\<close>

text \<open>The print function its user sets appends to the terminal; at first none is set.\<close>

record elf_out =
  print_func :: bool
  printed :: bytes

definition elf_set_print_function :: "bool \<Rightarrow> elf_out \<Rightarrow> elf_out" where
  "elf_set_print_function func o' = o'\<lparr>print_func := func\<rparr>"

definition elf_print :: "bytes \<Rightarrow> elf_out \<Rightarrow> elf_out" where
  "elf_print s o' = (if print_func o' then o'\<lparr>printed := printed o' @ cstr s\<rparr> else o')"

text \<open>A literal that ends in a newline.\<close>

definition line :: "string \<Rightarrow> bytes" where
  "line s = str s @ [10, 0]"

fun elf_prints :: "bytes list \<Rightarrow> elf_out \<Rightarrow> elf_out" where
  "elf_prints [] o' = o'"
| "elf_prints (s # ss) o' = elf_prints ss (elf_print s o')"

text \<open>\<open>my_itoa\<close> into the local buffer, then a print of it.\<close>

definition print_number :: "int \<Rightarrow> int \<Rightarrow> elf_out \<Rightarrow> elf_out option" where
  "print_number n base o' = do { b \<leftarrow> my_itoa n (replicate 64 0) base; Some (elf_print b o') }"

definition print_counts :: "u16 \<Rightarrow> u16 \<Rightarrow> elf_out \<Rightarrow> elf_out option" where
  "print_counts phnum shnum o' = do {
     o' \<leftarrow> print_number (uint phnum) 10 (elf_prints [lit ''  Program headers: ''] o');
     o' \<leftarrow> print_number (uint shnum) 10 (elf_prints [line [], lit ''  Section headers: ''] o');
     Some (elf_print (line []) o') }"

definition elf_print_header :: "bytes \<Rightarrow> elf_out \<Rightarrow> elf_out option" where
  "elf_print_header d o' = do {
     class \<leftarrow> e_class d; data \<leftarrow> e_data d; type \<leftarrow> e_type d; machine \<leftarrow> e_machine d;
     let o1 = elf_prints
       [line ''ELF Header:'', line ''  Magic:   0x7F ELF'',
        lit ''  Class:   '', lit (if class = ELFCLASS32 then ''ELF32'' else ''ELF64''), line [],
        lit ''  Data:    '',
        lit (if data = ELFDATA2LSB then ''2's complement, little endian'' else ''2's complement, big endian''),
        line [], line ''  Version: 1 (current)'',
        lit ''  Type:    '', elf_get_type_str type, line [],
        lit ''  Machine: '', elf_get_machine_str machine, line []] o';
     if class = ELFCLASS32
     then do { ph \<leftarrow> e_phnum32 d; sh \<leftarrow> e_shnum32 d; print_counts ph sh o1 }
     else do { ph \<leftarrow> e_phnum64 d; sh \<leftarrow> e_shnum64 d; print_counts ph sh o1 } }"

text \<open>One line of the program header table.\<close>

definition print_program_header :: "u32 \<Rightarrow> u32 \<Rightarrow> int \<Rightarrow> elf_out \<Rightarrow> elf_out option" where
  "print_program_header type p_flags vaddr o' = do {
     flags \<leftarrow> elf_get_program_flags_str 4 p_flags;
     o' \<leftarrow> print_number vaddr 16 (elf_prints
       [lit ''  '', elf_get_program_type_str type, lit ''           '', flags, lit ''    '', lit ''0x''] o');
     Some (elf_print (line []) o') }"

definition program_header64 :: "bytes \<Rightarrow> nat \<Rightarrow> elf_out \<Rightarrow> elf_out option" where
  "program_header64 d i o' = do {
     phoff \<leftarrow> e_phoff64 d; entsize \<leftarrow> e_phentsize64 d;
     let ph = unat phoff + i * unat entsize;
     type \<leftarrow> p_type64 d ph; flags \<leftarrow> p_flags64 d ph; vaddr \<leftarrow> p_vaddr64 d ph;
     print_program_header type flags (sint (ucast vaddr :: u32)) o' }"

definition program_header32 :: "bytes \<Rightarrow> nat \<Rightarrow> elf_out \<Rightarrow> elf_out option" where
  "program_header32 d i o' = do {
     phoff \<leftarrow> e_phoff32 d; entsize \<leftarrow> e_phentsize32 d;
     let ph = unat phoff + i * unat entsize;
     type \<leftarrow> p_type32 d ph; flags \<leftarrow> p_flags32 d ph; vaddr \<leftarrow> p_vaddr32 d ph;
     print_program_header type flags (sint vaddr) o' }"

definition elf_print_program_headers :: "bytes \<Rightarrow> elf_out \<Rightarrow> elf_out option" where
  "elf_print_program_headers d o' = do {
     let o1 = elf_prints [10 # line ''Program Headers:''] o';
     is64 \<leftarrow> elf_is_64bit d;
     phnum \<leftarrow> (if is64 then e_phnum64 d else e_phnum32 d);
     if phnum = 0 then Some (elf_print (line ''  No program headers'') o1)
     else for_each (if is64 then program_header64 d else program_header32 d) [0..<min (unat phnum) 10]
            (elf_print (line ''  Type            Flags   Offset     VirtAddr'') o1) }"

definition print_section_header :: "u32 \<Rightarrow> u64 \<Rightarrow> int \<Rightarrow> int \<Rightarrow> elf_out \<Rightarrow> elf_out option" where
  "print_section_header type sh_flags addr sz o' = do {
     flags \<leftarrow> elf_get_section_flags_str 4 sh_flags;
     o' \<leftarrow> print_number addr 16 (elf_prints
       [lit ''  '', elf_get_section_type_str type, lit ''           '', flags, lit ''    '', lit ''0x''] o');
     o' \<leftarrow> print_number sz 16 (elf_prints [lit ''  '', lit ''0x''] o');
     Some (elf_print (line []) o') }"

definition section_header64 :: "bytes \<Rightarrow> nat \<Rightarrow> elf_out \<Rightarrow> elf_out option" where
  "section_header64 d i o' = do {
     shoff \<leftarrow> e_shoff64 d; entsize \<leftarrow> e_shentsize64 d;
     let sh = unat shoff + i * unat entsize;
     type \<leftarrow> sh_type64 d sh; flags \<leftarrow> sh_flags64 d sh; addr \<leftarrow> sh_addr64 d sh; sz \<leftarrow> sh_size64 d sh;
     print_section_header type flags (sint (ucast addr :: u32)) (sint (ucast sz :: u32)) o' }"

definition section_header32 :: "bytes \<Rightarrow> nat \<Rightarrow> elf_out \<Rightarrow> elf_out option" where
  "section_header32 d i o' = do {
     shoff \<leftarrow> e_shoff32 d; entsize \<leftarrow> e_shentsize32 d;
     let sh = unat shoff + i * unat entsize;
     type \<leftarrow> sh_type32 d sh; flags \<leftarrow> sh_flags32 d sh; addr \<leftarrow> sh_addr32 d sh; sz \<leftarrow> sh_size32 d sh;
     print_section_header type (ucast flags) (sint addr) (sint sz) o' }"

definition elf_print_section_headers :: "bytes \<Rightarrow> elf_out \<Rightarrow> elf_out option" where
  "elf_print_section_headers d o' = do {
     let o1 = elf_prints [10 # line ''Section Headers:''] o';
     is64 \<leftarrow> elf_is_64bit d;
     shnum \<leftarrow> (if is64 then e_shnum64 d else e_shnum32 d);
     if shnum = 0 then Some (elf_print (line ''  No section headers'') o1)
     else for_each (if is64 then section_header64 d else section_header32 d) [0..<min (unat shnum) 15]
            (elf_print (line ''  Type            Flags   Address    Size'') o1) }"

definition elf_print_info :: "bytes \<Rightarrow> elf_out \<Rightarrow> elf_out option" where
  "elf_print_info d o' = do {
     ok \<leftarrow> elf_is_valid d;
     if \<not> ok then Some (elf_print (line ''Not a valid ELF file'') o')
     else do {
       o' \<leftarrow> elf_print_header d o';
       o' \<leftarrow> elf_print_program_headers d o';
       elf_print_section_headers d o' } }"

section \<open>What the number printers print\<close>

lemma hex_digit_char: "d < 16 \<Longrightarrow> hex_digits ! d = word_of_int (if int d < 10 then int d + 48 else int d + 97 - 10)"
proof -
  assume "d < 16"
  then have "d \<in> {0, 1, 2, 3, 4, 5, 6, 7, 8, 9, 10, 11, 12, 13, 14, 15}" by simp arith
  then show ?thesis by (auto simp: hex_digits_def)
qed

text \<open>The digit loop on a number of sign \<open>\<sigma>\<close>: \<open>g\<close> gives the character of a remainder.\<close>

lemma itoa_digits_eq:
  assumes sgn: "\<sigma> = 1 \<or> \<sigma> = (-1 :: int)" and b: "2 \<le> b"
    and g: "\<And>d. d < b \<Longrightarrow> g d = word_of_int (if \<sigma> * int d < 10 then \<sigma> * int d + 48 else \<sigma> * int d + 97 - 10)"
  shows "i + length (digits_le b v) \<le> length buf \<Longrightarrow> itoa_digits (\<sigma> * int v) (int b) buf i =
    Some (take i buf @ map g (digits_le b v) @ drop (i + length (digits_le b v)) buf, i + length (digits_le b v))"
proof (induction v arbitrary: buf i rule: less_induct)
  case (less v)
  show ?case
  proof (cases "v = 0")
    case True
    then show ?thesis by (simp add: itoa_digits.simps)
  next
    case False
    then have dl: "digits_le b v = v mod b # digits_le b (v div b)" using b by (simp add: digits_le_step)
    have fits: "i + Suc (length (digits_le b (v div b))) \<le> length buf" using less.prems dl by simp
    have ar: "(\<sigma> * int v) smod (int b) = \<sigma> * int (v mod b)" "(\<sigma> * int v) sdiv (int b) = \<sigma> * int (v div b)"
      using sgn b by (auto simp: signed_modulo_int_def signed_divide_int_def zmod_int zdiv_int sgn_if)
    have nz: "\<sigma> * int v \<noteq> 0" "\<not> int b < 2" using False sgn b by auto
    let ?b' = "buf[i := g (v mod b)]"
    have IH: "itoa_digits (\<sigma> * int (v div b)) (int b) ?b' (i + 1) =
        Some (take (i + 1) ?b' @ map g (digits_le b (v div b)) @ drop (i + 1 + length (digits_le b (v div b))) ?b',
          i + 1 + length (digits_le b (v div b)))"
      using False b fits by (intro less.IH) auto
    have "v mod b < b" using b by simp
    from g [OF this] have "itoa_digits (\<sigma> * int v) (int b) buf i = itoa_digits (\<sigma> * int (v div b)) (int b) ?b' (i + 1)"
      using nz fits by (subst itoa_digits.simps) (simp add: Let_def ar)
    then show ?thesis using IH fits by (simp add: dl take_Suc_conv_app_nth)
  qed
qed

lemma swap_ends_number:
  assumes "length ds < length buf"
  shows "do { b \<leftarrow> wr (ds @ drop (length ds) buf) (length ds) 0; swap_ends b 0 (length ds - 1) } =
    Some (rev ds @ 0 # drop (Suc (length ds)) buf)"
proof -
  have "(ds @ drop (length ds) buf)[length ds := 0] = [] @ ds @ (0 # drop (Suc (length ds)) buf)"
    using assms by (simp add: list_update_append Cons_nth_drop_Suc [symmetric])
  then show ?thesis
    using assms swap_ends_rev [of "[]" ds "0 # drop (Suc (length ds)) buf"] by simp
qed

text \<open>The text \<open>my_itoa\<close> makes: below 0 in base 16 the remainders are negative.\<close>

definition itoa_text :: "int \<Rightarrow> nat \<Rightarrow> bytes" where
  "itoa_text n b =
     (if 0 \<le> n then render b (nat n)
      else if b = 10 then 45 # render 10 (nat (- n))
      else map (\<lambda>d. 48 - word_of_nat d) (digits b (nat (- n))))"

lemma length_itoa_text: "b = 10 \<or> b = 16 \<Longrightarrow> int_range n \<Longrightarrow> length (itoa_text n b) \<le> 12"
proof -
  assume b: "b = 10 \<or> b = 16" and n: "int_range n"
  have "nat \<bar>n\<bar> < 10 ^ 11" "nat \<bar>n\<bar> < 16 ^ 11" using n by (auto simp: int_range_def)
  then have "length (digits b (nat \<bar>n\<bar>)) \<le> 11" using b length_digits [of _ _ 11] by auto
  then show ?thesis by (auto simp: itoa_text_def render_def split: if_splits)
qed

lemma my_itoa_text_eq:
  assumes b: "b = 10 \<or> b = 16" and n: "int_range n" "b = 16 \<or> n \<noteq> - (2 ^ 31)" and room: "12 < length buf"
  shows "my_itoa n buf (int b) = Some (itoa_text n b @ 0 # drop (Suc (length (itoa_text n b))) buf)"
proof (cases "n = 0")
  case True
  obtain x y t where "buf = x # y # t" using room by (cases buf; cases "tl buf") auto
  then show ?thesis using True b by (auto simp: my_itoa_def itoa_text_def render_def digits_def hex_digits_def)
next
  case False
  define v where "v = nat \<bar>n\<bar>"
  have v: "0 < v" using False by (simp add: v_def)
  have b2: "2 \<le> b" "b \<le> 16" using b by auto
  have len: "length (itoa_text n b) \<le> 12" by (rule length_itoa_text [OF b n(1)])
  show ?thesis
  proof (cases "b = 16 \<and> n < 0")
    case True
    let ?g = "\<lambda>d. 48 - word_of_nat d :: u8" and ?ds = "digits_le b v"
    have g: "?g d = word_of_int (if - 1 * int d < 10 then - 1 * int d + 48 else - 1 * int d + 97 - 10)" for d
      by simp
    have tx: "itoa_text n b = rev (map ?g ?ds)" using True v by (simp add: itoa_text_def digits_def v_def rev_map)
    have fits: "length (map ?g ?ds) < length buf" using len room unfolding tx by simp
    have "itoa_digits n (int b) buf 0 = Some (map ?g ?ds @ drop (length (map ?g ?ds)) buf, length (map ?g ?ds))"
    proof -
      have "itoa_digits (- 1 * int v) (int b) buf 0 =
          Some (take 0 buf @ map ?g ?ds @ drop (0 + length ?ds) buf, 0 + length ?ds)"
        by (rule itoa_digits_eq [OF _ b2(1) g]) (use fits in simp_all)
      moreover have "- 1 * int v = n" using True by (simp add: v_def)
      ultimately show ?thesis by simp
    qed
    then show ?thesis
      using swap_ends_number [OF fits] False True tx by (simp add: my_itoa_def)
  next
    case pos: False
    let ?g = "\<lambda>d. hex_digits ! d" and ?ds = "map (\<lambda>d. hex_digits ! d) (digits_le b v)"
    have g: "?g d = word_of_int (if 1 * int d < 10 then 1 * int d + 48 else 1 * int d + 97 - 10)" if "d < b" for d
      using hex_digit_char [of d] that b2 by simp
    have D: "itoa_digits (int v) (int b) buf 0 = Some (?ds @ drop (length ?ds) buf, length ?ds)" if "length ?ds < length buf"
    proof -
      have "itoa_digits (1 * int v) (int b) buf 0 =
          Some (take 0 buf @ map ?g (digits_le b v) @ drop (0 + length (digits_le b v)) buf, 0 + length (digits_le b v))"
        by (rule itoa_digits_eq [OF _ b2(1) g]) (use that in simp_all)
      then show ?thesis by simp
    qed
    have r: "render b v = rev ?ds" using v by (simp add: render_def digits_def rev_map)
    show ?thesis
    proof (cases "n < 0")
      case True
      then have b10: "b = 10" and nv: "- n = int v" using pos b by (auto simp: v_def)
      have tx: "itoa_text n b = rev (?ds @ [45])" using True r b10 by (simp add: itoa_text_def v_def)
      have fits: "length (?ds @ [45]) < length buf" "length ?ds < length buf" using len room unfolding tx by simp_all
      have "(?ds @ drop (length ?ds) buf)[length ?ds := 45] = (?ds @ [45]) @ drop (length (?ds @ [45])) buf"
        using fits by (simp add: list_update_append Cons_nth_drop_Suc [symmetric])
      moreover have "int_range (- n)" using n b10 by (auto simp: int_range_def)
      ultimately show ?thesis
        using swap_ends_number [OF fits(1)] D [OF fits(2)] fits False True tx nv b10 by (simp add: my_itoa_def)
    next
      case nn: False
      then have nv: "n = int v" by (simp add: v_def)
      have tx: "itoa_text n b = rev ?ds" using nn r by (simp add: itoa_text_def v_def)
      have fits: "length ?ds < length buf" using len room unfolding tx by simp
      show ?thesis using swap_ends_number [OF fits] D [OF fits] False nn tx nv by (simp add: my_itoa_def)
    qed
  qed
qed

end
