(* ===== verification/Exec.thy ===== *)
theory Exec
  imports Syscall Elf
begin

text \<open>
  The program loader (\<open>kernel/src/src/exec.c\<close>): from a file of the file system to an address space
  with the program's segments and a stack, the switch to user mode and the cleanup. The jump to
  user mode is a parameter. The routine of \<open>usermode_entry.asm\<close> ends in \<open>iretq\<close> and does not come back
  (\<open>None\<close>); the code behind the call is translated as it is written, for a jump that returns.
\<close>

section \<open>One page of a segment\<close>

text \<open>The fields of a program header that the loader uses.\<close>

record segment =
  p_flags :: u32
  p_offset :: u64
  p_vaddr :: u64
  p_filesz :: u64
  p_memsz :: u64

definition segment_page_flags :: "u32 \<Rightarrow> u64" where
  "segment_page_flags flags =
     (PTE_PRESENT OR PTE_USER) OR (if flags AND PF_W \<noteq> 0 then PTE_WRITABLE else 0)
       OR (if flags AND PF_X = 0 then PTE_NX else 0)"

text \<open>
  The copy of a page: the offset in the page, the offset in the file and the number of bytes,
  computed as the code does.
\<close>

definition copy_range :: "segment \<Rightarrow> u64 \<Rightarrow> u64 \<times> u64 \<times> u64" where
  "copy_range seg page_start = (
     let segment_end_in_file = p_offset seg + p_filesz seg;
         page_end = page_start + 4096;
         segment_end = p_vaddr seg + p_memsz seg;
         copy_start = (if page_start > p_vaddr seg then page_start else p_vaddr seg);
         copy_end = (if page_end < segment_end then page_end else segment_end)
     in if copy_start < copy_end
        then (let file_offset = p_offset seg + (copy_start - p_vaddr seg);
                  n = copy_end - copy_start
              in (copy_start - page_start, file_offset,
                  if file_offset + n > segment_end_in_file
                  then (if file_offset \<ge> segment_end_in_file then 0 else segment_end_in_file - file_offset)
                  else n))
        else (0, 0, 0))"

text \<open>\<open>memcpy\<close> from the file to a frame through the direct map.\<close>

definition hhdm_store :: "u64 \<Rightarrow> bytes \<Rightarrow> vm \<Rightarrow> vm" where
  "hhdm_store va bs s = s\<lparr>vm_mem := store_bytes (vm_mem s) (va - hhdm_offset s) bs\<rparr>"

definition file_slice :: "bytes \<Rightarrow> nat \<Rightarrow> nat \<Rightarrow> bytes option" where
  "file_slice d off n = (if off + n \<le> length d then Some (take n (drop off d)) else None)"

definition load_page :: "u64 \<Rightarrow> bytes \<Rightarrow> segment \<Rightarrow> u64 \<Rightarrow> vm \<Rightarrow> (bool \<times> vm) option" where
  "load_page root d seg page_vaddr s = do {
     (phys, pm) \<leftarrow> pmm_alloc_frame (vm_pmm s);
     let s1 = s\<lparr>vm_pmm := pm\<rparr>;
     if phys = 0 then Some (False, s1)
     else do {
       (ok, s2) \<leftarrow> vmm_map_page root page_vaddr phys (segment_page_flags (p_flags seg)) s1;
       if \<not> ok
       then do { pm' \<leftarrow> pmm_free_frame phys (vm_pmm s2); Some (False, s2\<lparr>vm_pmm := pm'\<rparr>) }
       else do {
         (virt, s3) \<leftarrow> phys_to_virt phys s2;
         let s4 = hhdm_memset virt 0 PAGE_SIZE s3;
         let (off, file_offset, n) = copy_range seg page_vaddr;
         if n > 0
         then do {
           bs \<leftarrow> file_slice d (unat file_offset) (unat n);
           Some (True, hhdm_store (virt + off) bs s4) }
         else Some (True, s4) } } }"

text \<open>
  The loop over the pages; the offset is a \<open>uint64_t\<close>. A loop that never ends is \<open>None\<close>.
\<close>

partial_function (option) load_pages :: "u64 \<Rightarrow> bytes \<Rightarrow> segment \<Rightarrow> u64 \<Rightarrow> vm \<Rightarrow> (bool \<times> vm) option" where
  "load_pages root d seg off s =
     (if off < p_memsz seg
      then Option.bind (load_page root d seg ((p_vaddr seg + off) AND PAGE_MASK) s)
        (\<lambda>r. if fst r then load_pages root d seg (off + 4096) (snd r) else Some (False, snd r))
      else Some (True, s))"

section \<open>The segments\<close>

definition read_segment :: "bytes \<Rightarrow> nat \<Rightarrow> segment option" where
  "read_segment d ph = do {
     vaddr \<leftarrow> p_vaddr64 d ph; memsz \<leftarrow> p_memsz64 d ph; filesz \<leftarrow> p_filesz64 d ph;
     flags \<leftarrow> p_flags64 d ph; off \<leftarrow> p_offset64 d ph;
     Some \<lparr>p_flags = flags, p_offset = off, p_vaddr = vaddr, p_filesz = filesz, p_memsz = memsz\<rparr> }"

definition load_segment :: "u64 \<Rightarrow> bytes \<Rightarrow> nat \<Rightarrow> vm \<Rightarrow> (bool \<times> vm) option" where
  "load_segment root d ph s = do {
     type \<leftarrow> p_type64 d ph;
     if type \<noteq> PT_LOAD then Some (True, s)
     else do {
       seg \<leftarrow> read_segment d ph;
       if p_memsz seg = 0 then Some (True, s) else load_pages root d seg 0 s } }"

fun load_segments :: "u64 \<Rightarrow> bytes \<Rightarrow> nat list \<Rightarrow> vm \<Rightarrow> (bool \<times> vm) option" where
  "load_segments root d [] s = Some (True, s)"
| "load_segments root d (ph # phs) s = do {
     (ok, s') \<leftarrow> load_segment root d ph s;
     if ok then load_segments root d phs s' else Some (False, s') }"

section \<open>The stack\<close>

definition stack_pages :: "u64 list" where
  "stack_pages = map (\<lambda>i. USER_STACK_BOTTOM_VADDR + word_of_nat (i * 4096)) [0..<USER_STACK_PAGES]"

definition stack_page :: "u64 \<Rightarrow> u64 \<Rightarrow> vm \<Rightarrow> (bool \<times> vm) option" where
  "stack_page root vaddr s = do {
     (phys, pm) \<leftarrow> pmm_alloc_frame (vm_pmm s);
     let s1 = s\<lparr>vm_pmm := pm\<rparr>;
     if phys = 0 then Some (False, s1)
     else do {
       (ok, s2) \<leftarrow> vmm_map_page root vaddr phys (PTE_PRESENT OR PTE_USER OR PTE_WRITABLE) s1;
       if ok then Some (True, s2)
       else do { pm' \<leftarrow> pmm_free_frame phys (vm_pmm s2); Some (False, s2\<lparr>vm_pmm := pm'\<rparr>) } } }"

fun map_stack :: "u64 \<Rightarrow> u64 list \<Rightarrow> vm \<Rightarrow> (bool \<times> vm) option" where
  "map_stack root [] s = Some (True, s)"
| "map_stack root (vaddr # vs) s = do {
     (ok, s') \<leftarrow> stack_page root vaddr s;
     if ok then map_stack root vs s' else Some (False, s') }"

section \<open>The call\<close>

text \<open>
  \<open>file->data\<close> as the bytes from there to the end of the pool: the code checks the file's size
  for the header and the program headers only.
\<close>

definition elf_bytes :: "fs_file \<Rightarrow> fs_state \<Rightarrow> bytes option" where
  "elf_bytes f s = do { a \<leftarrow> pool_ptr (ff_data f); Some (pool_load (mem_pool s) a (POOL_SIZE - a)) }"

definition exec_header_ok :: "bytes \<Rightarrow> bool option" where
  "exec_header_ok d = do {
     magic \<leftarrow> e_magic d; class \<leftarrow> e_class d; data \<leftarrow> e_data d;
     type \<leftarrow> e_type d; machine \<leftarrow> e_machine d; version \<leftarrow> e_version d;
     Some (magic = ELF_MAGIC \<and> class = ELFCLASS64 \<and> data = ELFDATA2LSB \<and> type = ET_EXEC \<and>
       machine = EM_X86_64 \<and> version = 1) }"

text \<open>Building the address space; an inner \<open>None\<close> is one of the early returns.\<close>

definition exec_image :: "bytes \<Rightarrow> nat \<Rightarrow> vm \<Rightarrow> (u64 option \<times> vm) option" where
  "exec_image d elf_size s = do {
     (root, s1) \<leftarrow> vmm_create_address_space s;
     if root = 0 then Some (None, s1)
     else do {
       phoff \<leftarrow> e_phoff64 d; phnum \<leftarrow> e_phnum64 d;
       if (word_of_nat elf_size :: u64) < phoff + ucast phnum * word_of_nat SIZEOF_PHDR64
       then Some (None, s1)
       else do {
         (ok, s2) \<leftarrow> load_segments root d (map (\<lambda>i. unat phoff + i * SIZEOF_PHDR64) [0..<unat phnum]) s1;
         if \<not> ok then Some (None, s2)
         else do {
           (ok, s3) \<leftarrow> map_stack root stack_pages s2;
           Some (if ok then Some root else None, s3) } } } }"

definition exec_load :: "bytes \<Rightarrow> kernel \<Rightarrow> ((u64 \<times> u64) option \<times> kernel) option" where
  "exec_load filename k = do {
     (file, fs') \<leftarrow> fs_open filename (k_fs k);
     let k1 = k\<lparr>k_fs := fs'\<rparr>;
     case file of None \<Rightarrow> Some (None, k1)
     | Some r \<Rightarrow> do {
         f \<leftarrow> file_at r fs';
         if ff_size f < SIZEOF_HEADER64 then Some (None, k1)
         else do {
           d \<leftarrow> elf_bytes f fs';
           ok \<leftarrow> exec_header_ok d;
           if \<not> ok then Some (None, k1)
           else do {
             entry_point \<leftarrow> e_entry64 d;
             (root, vm') \<leftarrow> exec_image d (ff_size f) (k_vm k1);
             Some (map_option (\<lambda>root. (root, entry_point)) root, k1\<lparr>k_vm := vm'\<rparr>) } } } }"

text \<open>The cleanup: the stack's frames are freed and unmapped.\<close>

definition free_stack_page :: "u64 \<Rightarrow> u64 \<Rightarrow> vm \<Rightarrow> vm option" where
  "free_stack_page root vaddr s = do {
     (phys, s1) \<leftarrow> vmm_get_physical_address root vaddr s;
     if phys = 0 then Some s1
     else do { pm \<leftarrow> pmm_free_frame phys (vm_pmm s1); vmm_unmap_page root vaddr (s1\<lparr>vm_pmm := pm\<rparr>) } }"

definition user_rsp :: u64 where
  "user_rsp = USER_STACK_TOP_VADDR + 4096 - 8"

text \<open>\<open>jmp_usermode\<close> gets the entry point and the stack pointer.\<close>

definition exec_elf :: "(u64 \<Rightarrow> u64 \<Rightarrow> kernel \<Rightarrow> kernel option) \<Rightarrow> bytes \<Rightarrow> kernel \<Rightarrow> kernel option" where
  "exec_elf jmp_usermode filename k = do {
     (r, k1) \<leftarrow> exec_load filename k;
     case r of None \<Rightarrow> Some k1
     | Some (root, entry_point) \<Rightarrow> do {
         let kernel_root = vmm_get_current_address_space (k_vm k1);
         k2 \<leftarrow> jmp_usermode entry_point user_rsp (k1\<lparr>k_vm := vmm_switch_address_space root (k_vm k1)\<rparr>);
         let v = vmm_switch_address_space kernel_root (k_vm k2);
         v' \<leftarrow> for_each (free_stack_page root) stack_pages v;
         Some (k2\<lparr>k_vm := v'\<rparr>) } }"

end
