(* ===== verification/Mouse.thy ===== *)
theory Mouse
  imports Ports
begin

text \<open>
  The PS/2 mouse (\<open>kernel/src/src/mouse.c\<close>): the setup of the controller and the collection of
  three-byte packets. The driver polls the status port for data and does not ask whether the byte
  is from the keyboard or from the mouse.
\<close>

section \<open>State\<close>

definition PS2_DATA_PORT :: u16 where "PS2_DATA_PORT = 0x60"
definition PS2_STATUS_PORT :: u16 where "PS2_STATUS_PORT = 0x64"
definition PS2_COMMAND_PORT :: u16 where "PS2_COMMAND_PORT = 0x64"
definition MOUSE_SCALE :: int where "MOUSE_SCALE = 2"

record mouse_state =
  ms_x :: int
  ms_y :: int
  ms_dx :: int
  ms_dy :: int
  ms_buttons :: u8

record mouse =
  ms :: mouse_state
  packet :: "u8 list"
  packet_cycle :: nat

definition mouse_boot :: mouse where
  "mouse_boot = \<lparr>ms = \<lparr>ms_x = 0, ms_y = 0, ms_dx = 0, ms_dy = 0, ms_buttons = 0\<rparr>,
     packet = [0, 0, 0], packet_cycle = 0\<rparr>"

section \<open>The controller\<close>

definition mouse_wait_input :: "ports \<Rightarrow> ports option" where
  "mouse_wait_input = wait_port PS2_STATUS_PORT (\<lambda>b. b AND 0x02 = 0)"

definition mouse_wait_output :: "ports \<Rightarrow> ports option" where
  "mouse_wait_output = wait_port PS2_STATUS_PORT (\<lambda>b. b AND 0x01 \<noteq> 0)"

definition mouse_write :: "u8 \<Rightarrow> ports \<Rightarrow> ports option" where
  "mouse_write val p = do {
     p1 \<leftarrow> mouse_wait_input p;
     p2 \<leftarrow> mouse_wait_input (outb PS2_COMMAND_PORT 0xD4 p1);
     Some (outb PS2_DATA_PORT val p2) }"

definition mouse_read :: "ports \<Rightarrow> (u8 \<times> ports) option" where
  "mouse_read p = do { p1 \<leftarrow> mouse_wait_output p; inb PS2_DATA_PORT p1 }"

definition mouse_init :: "mouse \<Rightarrow> ports \<Rightarrow> (mouse \<times> ports) option" where
  "mouse_init m p = do {
     let m1 = m\<lparr>ms := \<lparr>ms_x = 0, ms_y = 0, ms_dx = 0, ms_dy = 0, ms_buttons = 0\<rparr>\<rparr>;
     p1 \<leftarrow> mouse_wait_input p;
     p2 \<leftarrow> mouse_wait_input (outb PS2_COMMAND_PORT 0xA8 p1);
     p3 \<leftarrow> mouse_wait_output (outb PS2_COMMAND_PORT 0x20 p2);
     (status, p4) \<leftarrow> inb PS2_DATA_PORT p3;
     p5 \<leftarrow> mouse_wait_input p4;
     p6 \<leftarrow> mouse_wait_input (outb PS2_COMMAND_PORT 0x60 p5);
     p7 \<leftarrow> mouse_write 0xF6 (outb PS2_DATA_PORT (status OR 2) p6);
     (_, p8) \<leftarrow> mouse_read p7;
     p9 \<leftarrow> mouse_write 0xF4 p8;
     (_, p10) \<leftarrow> mouse_read p9;
     Some (m1, p10) }"

section \<open>Packets\<close>

text \<open>The part of \<open>mouse_poll\<close> after the third byte of a packet.\<close>

definition mouse_packet :: "u8 list \<Rightarrow> mouse_state \<Rightarrow> mouse_state option" where
  "mouse_packet pk s = do {
     b0 \<leftarrow> rd pk 0; b1 \<leftarrow> rd pk 1; b2 \<leftarrow> rd pk 2;
     let dx = sint b1 * MOUSE_SCALE;
     let dy = - sint b2 * MOUSE_SCALE;
     x \<leftarrow> c_int (ms_x s + dx);
     y \<leftarrow> c_int (ms_y s + dy);
     Some \<lparr>ms_x = (if x < 0 then 0 else x), ms_y = (if y < 0 then 0 else y), ms_dx = dx, ms_dy = dy,
       ms_buttons = b0 AND 0x07\<rparr> }"

definition mouse_byte :: "u8 \<Rightarrow> mouse \<Rightarrow> mouse option" where
  "mouse_byte data m = do {
     pk \<leftarrow> wr (packet m) (packet_cycle m) data;
     let n = packet_cycle m + 1;
     if n < 3 then Some (m\<lparr>packet := pk, packet_cycle := n\<rparr>)
     else do { s \<leftarrow> mouse_packet pk (ms m); Some \<lparr>ms = s, packet = pk, packet_cycle = 0\<rparr> } }"

definition mouse_poll :: "mouse \<Rightarrow> ports \<Rightarrow> (mouse \<times> ports) option" where
  "mouse_poll m p = do {
     (status, p1) \<leftarrow> inb PS2_STATUS_PORT p;
     if status AND 1 = 0 then Some (m, p1)
     else do {
       (data, p2) \<leftarrow> inb PS2_DATA_PORT p1;
       m' \<leftarrow> mouse_byte data m;
       Some (m', p2) } }"

section \<open>Invariant\<close>

definition mouse_ok :: "mouse \<Rightarrow> bool" where
  "mouse_ok m \<longleftrightarrow> length (packet m) = 3 \<and> packet_cycle m < 3 \<and> 0 \<le> ms_x (ms m) \<and> 0 \<le> ms_y (ms m)"

lemma mouse_boot_ok: "mouse_ok mouse_boot"
  by (simp add: mouse_ok_def mouse_boot_def)

lemma sint_byte: "- 128 \<le> sint (b :: u8)" "sint (b :: u8) \<le> 127"
  using sint_greater_eq [of b] sint_less [of b] by simp_all

lemma mouse_byte_step:
  assumes "mouse_ok m" and "ms_x (ms m) < 2 ^ 31 - 256" and "ms_y (ms m) < 2 ^ 31 - 256"
  obtains m' where "mouse_byte b m = Some m'" and "mouse_ok m'"
    and "ms_x (ms m') \<le> ms_x (ms m) + 254" and "ms_y (ms m') \<le> ms_y (ms m) + 256"
proof (cases "packet_cycle m < 2")
  case True
  then show ?thesis
    using that [of "m\<lparr>packet := (packet m)[packet_cycle m := b], packet_cycle := packet_cycle m + 1\<rparr>"] assms(1)
    by (simp add: mouse_byte_def mouse_ok_def)
next
  case False
  then have c: "packet_cycle m = 2" using assms(1) by (simp add: mouse_ok_def)
  let ?pk = "(packet m)[2 := b]"
  have l: "length ?pk = 3" using assms(1) by (simp add: mouse_ok_def)
  have b1: "- 128 \<le> sint (?pk ! 1)" "sint (?pk ! 1) \<le> 127" and b2: "- 128 \<le> sint (?pk ! 2)" "sint (?pk ! 2) \<le> 127"
    using sint_byte by blast+
  let ?x = "ms_x (ms m) + sint (?pk ! 1) * 2" and ?y = "ms_y (ms m) + - sint (?pk ! 2) * 2"
  have x: "c_int ?x = Some ?x"
    using assms b1 by (intro c_int_Some) (simp_all add: mouse_ok_def)
  have y: "c_int ?y = Some ?y"
    using assms b2 by (intro c_int_Some) (simp_all add: mouse_ok_def)
  let ?s = "\<lparr>ms_x = (if ?x < 0 then 0 else ?x), ms_y = (if ?y < 0 then 0 else ?y), ms_dx = sint (?pk ! 1) * 2,
    ms_dy = - sint (?pk ! 2) * 2, ms_buttons = ?pk ! 0 AND 0x07\<rparr>"
  have "mouse_packet ?pk (ms m) = Some ?s"
    using x y l by (simp add: mouse_packet_def MOUSE_SCALE_def Let_def)
  moreover have "wr (packet m) 2 b = Some ?pk" using l by simp
  ultimately have "mouse_byte b m = Some \<lparr>ms = ?s, packet = ?pk, packet_cycle = 0\<rparr>"
    by (simp add: mouse_byte_def c Let_def)
  then show ?thesis
    using that l assms b1 b2 by (auto simp: mouse_ok_def)
qed

section \<open>A stream of bytes\<close>

fun mouse_feed :: "bytes \<Rightarrow> mouse \<Rightarrow> mouse option" where
  "mouse_feed [] m = Some m"
| "mouse_feed (b # bs) m = do { m' \<leftarrow> mouse_byte b m; mouse_feed bs m' }"

text \<open>What the bytes mean: every three are the buttons and the two movements, the second upwards.\<close>

definition moved :: "u8 \<Rightarrow> u8 \<Rightarrow> u8 \<Rightarrow> mouse_state \<Rightarrow> mouse_state" where
  "moved b0 b1 b2 s =
     \<lparr>ms_x = max 0 (ms_x s + 2 * sint b1), ms_y = max 0 (ms_y s - 2 * sint b2),
      ms_dx = 2 * sint b1, ms_dy = - 2 * sint b2, ms_buttons = b0 AND 7\<rparr>"

fun mouse_track :: "bytes \<Rightarrow> mouse_state \<Rightarrow> mouse_state" where
  "mouse_track (b0 # b1 # b2 # bs) s = mouse_track bs (moved b0 b1 b2 s)"
| "mouse_track _ s = s"

lemma mouse_feed_append: "mouse_feed (xs @ ys) m = Option.bind (mouse_feed xs m) (mouse_feed ys)"
  by (induction xs arbitrary: m) (auto split: Option.bind_splits)

definition near :: "nat \<Rightarrow> mouse_state \<Rightarrow> bool" where
  "near n s \<longleftrightarrow> 0 \<le> ms_x s \<and> 0 \<le> ms_y s \<and> ms_x s + 256 * int n < 2 ^ 31 \<and> ms_y s + 256 * int n < 2 ^ 31"

lemma near_moved: "near (Suc n) s \<Longrightarrow> near n (moved b0 b1 b2 s)"
  using sint_byte [of b1] sint_byte [of b2] by (auto simp: near_def moved_def)

lemma mouse_packet_moved:
  assumes "near (Suc n) s"
  shows "mouse_packet [b0, b1, b2] s = Some (moved b0 b1 b2 s)"
proof -
  let ?x = "ms_x s + sint b1 * 2" and ?y = "ms_y s + - sint b2 * 2"
  have "c_int ?x = Some ?x" "c_int ?y = Some ?y"
    using assms sint_byte [of b1] sint_byte [of b2] by (auto simp: near_def intro!: c_int_Some)
  then show ?thesis by (simp add: mouse_packet_def MOUSE_SCALE_def moved_def Let_def mult.commute max_def)
qed

lemma mod3: "Suc (Suc (Suc n)) mod 3 = n mod 3"
  by presburger

text \<open>From the start of a packet: the complete packets move the mouse, the rest is collected.\<close>

lemma mouse_feed_track:
  "near (length bs) s \<Longrightarrow> ms m = s \<Longrightarrow> length (packet m) = 3 \<Longrightarrow> packet_cycle m = 0 \<Longrightarrow>
     \<exists>m'. mouse_feed bs m = Some m' \<and> ms m' = mouse_track bs s \<and>
       packet_cycle m' = length bs mod 3 \<and> length (packet m') = 3"
proof (induction bs s arbitrary: m rule: mouse_track.induct)
  case (1 b0 b1 b2 bs s)
  obtain x y z where pk: "packet m = [x, y, z]"
    using "1.prems"(3) by (auto simp: length_Suc_conv numeral_3_eq_3)
  have n: "near (Suc (length bs)) s" using "1.prems"(1) by (simp add: near_def)
  let ?m = "\<lparr>ms = moved b0 b1 b2 s, packet = [b0, b1, b2], packet_cycle = 0\<rparr>"
  have "mouse_feed [b0, b1, b2] m = Some ?m"
    using mouse_packet_moved [OF n] pk "1.prems"(2,4) by (simp add: mouse_byte_def Let_def)
  then have step: "mouse_feed (b0 # b1 # b2 # bs) m = mouse_feed bs ?m"
    using mouse_feed_append [of "[b0, b1, b2]" bs m] by simp
  have "\<exists>m'. mouse_feed bs ?m = Some m' \<and> ms m' = mouse_track bs (moved b0 b1 b2 s) \<and>
       packet_cycle m' = length bs mod 3 \<and> length (packet m') = 3"
    by (rule "1.IH" [OF near_moved [OF n]]) simp_all
  moreover have "length (b0 # b1 # b2 # bs) mod 3 = length bs mod 3" by (simp add: mod3)
  ultimately show ?case unfolding step by simp
qed (simp_all add: mouse_byte_def Let_def)

text \<open>
  C37 For every stream of at most two million bytes from the start of the driver: no byte is
  stored outside the packet, the position never becomes negative, the driver is at the packet
  position the length says, and the state is the sum of the complete packets, clamped at zero.
\<close>

theorem mouse_follows_packets:
  assumes "length bs < 2 ^ 21"
  shows "\<exists>m. mouse_feed bs mouse_boot = Some m \<and> mouse_ok m \<and>
    packet_cycle m = length bs mod 3 \<and> ms m = mouse_track bs (ms mouse_boot)"
proof -
  have "near (length bs) (ms mouse_boot)" using assms by (simp add: near_def mouse_boot_def)
  then obtain m where m: "mouse_feed bs mouse_boot = Some m" "ms m = mouse_track bs (ms mouse_boot)"
    "packet_cycle m = length bs mod 3" "length (packet m) = 3"
    using mouse_feed_track [of bs "ms mouse_boot" mouse_boot] by (auto simp: mouse_boot_def)
  have "0 \<le> ms_x (mouse_track bs s) \<and> 0 \<le> ms_y (mouse_track bs s)" if "0 \<le> ms_x s" "0 \<le> ms_y s" for s
    using that by (induction bs s rule: mouse_track.induct) (simp_all add: moved_def)
  then have "0 \<le> ms_x (ms m)" "0 \<le> ms_y (ms m)" unfolding m(2) by (simp_all add: mouse_boot_def)
  with m show ?thesis by (simp add: mouse_ok_def)
qed

theorem mouse_follows_packets_witness:
  "\<exists>m. mouse_feed [9, 5, 0xFC, 8] mouse_boot = Some m \<and> mouse_ok m \<and> packet_cycle m = 1 \<and>
     ms_x (ms m) = 10 \<and> ms_y (ms m) = 8 \<and> ms_buttons (ms m) = 1"
proof -
  obtain m where m: "mouse_feed [9, 5, 0xFC, 8] mouse_boot = Some m" "mouse_ok m"
    "packet_cycle m = 1" "ms m = mouse_track [9, 5, 0xFC, 8] (ms mouse_boot)"
    using mouse_follows_packets [of "[9, 5, 0xFC, 8]"] by (auto simp del: mouse_feed.simps mouse_track.simps)
  have "ms m = moved 9 5 0xFC (ms mouse_boot)" using m(4) by simp
  then have "ms_x (ms m) = 10" "ms_y (ms m) = 8" "ms_buttons (ms m) = 1"
    by (simp_all add: mouse_boot_def moved_def)
  with m(1-3) show ?thesis by blast
qed

end
