(* ===== verification/Gui.thy ===== *)
theory Gui
  imports Mouse
begin

text \<open>
  The graphics demo (\<open>kernel/src/src/gui.c\<close>): rectangles and windows drawn in a back buffer of
  fixed size, the copy to the frame buffer, the title bar of a window and the loop of the demo, which
  has no exit: its model says whether it waits for the mouse or has faulted. The sums of coordinates are exact; the comparison with the screen is the unsigned one of the code.
\<close>

section \<open>Buffers\<close>

definition GUI_MAX_WIDTH :: nat where "GUI_MAX_WIDTH = 1920"
definition GUI_MAX_HEIGHT :: nat where "GUI_MAX_HEIGHT = 1200"

type_synonym pixels = "nat \<Rightarrow> u32"

text \<open>The frame buffer is memory of the machine: its size is a field here; a pointer may be NULL.\<close>

record framebuffer =
  base_address :: "pixels option"
  base_pixels :: nat
  fb_width :: u32
  fb_height :: u32
  pixels_per_scan_line :: u32

record gui_context =
  gc_fb :: "pixels option"
  gc_fb_pixels :: nat
  backbuffer :: "pixels option"
  gc_width :: u32
  gc_height :: u32
  gc_pitch :: u32

definition gui_init :: "pixels \<Rightarrow> framebuffer \<Rightarrow> gui_context" where
  "gui_init gui_backbuffer fb =
     \<lparr>gc_fb = base_address fb, gc_fb_pixels = base_pixels fb, backbuffer = Some gui_backbuffer,
      gc_width = fb_width fb, gc_height = fb_height fb, gc_pitch = pixels_per_scan_line fb\<rparr>"

definition put_pixel :: "int \<Rightarrow> u32 \<Rightarrow> pixels \<Rightarrow> pixels option" where
  "put_pixel i color bb =
     (if 0 \<le> i \<and> i < int (GUI_MAX_WIDTH * GUI_MAX_HEIGHT) then Some (bb(nat i := color)) else None)"

section \<open>Rectangles\<close>

fun fill_cols :: "u32 \<Rightarrow> u32 \<Rightarrow> int \<Rightarrow> u32 \<Rightarrow> nat list \<Rightarrow> pixels \<Rightarrow> pixels option" where
  "fill_cols width row x color [] bb = Some bb"
| "fill_cols width row x color (i # is) bb =
     (if (word_of_int (x + int i) :: u32) \<ge> width then Some bb
      else do { bb' \<leftarrow> put_pixel (uint row + (x + int i)) color bb; fill_cols width row x color is bb' })"

fun fill_rows :: "u32 \<Rightarrow> u32 \<Rightarrow> int \<Rightarrow> int \<Rightarrow> int \<Rightarrow> u32 \<Rightarrow> nat list \<Rightarrow> pixels \<Rightarrow> pixels option" where
  "fill_rows width height x y w color [] bb = Some bb"
| "fill_rows width height x y w color (j # js) bb =
     (if (word_of_int (y + int j) :: u32) \<ge> height then Some bb
      else do {
        bb' \<leftarrow> fill_cols width (word_of_int (y + int j) * width) x color [0..<nat w] bb;
        fill_rows width height x y w color js bb' })"

definition gui_fill_rect ::
  "int \<Rightarrow> int \<Rightarrow> int \<Rightarrow> int \<Rightarrow> u32 \<Rightarrow> gui_context \<Rightarrow> gui_context option" where
  "gui_fill_rect x y w h color ctx = (case backbuffer ctx of None \<Rightarrow> Some ctx
     | Some bb \<Rightarrow> do {
         bb' \<leftarrow> fill_rows (gc_width ctx) (gc_height ctx) x y w color [0..<nat h] bb;
         Some (ctx\<lparr>backbuffer := Some bb'\<rparr>) })"

section \<open>Windows\<close>

text \<open>The four corner pixels that belong to \<open>(i, j)\<close>.\<close>

definition fill_corners :: "int \<Rightarrow> int \<Rightarrow> int \<Rightarrow> int \<Rightarrow> int \<Rightarrow> int \<Rightarrow> u32 \<Rightarrow> gui_context \<Rightarrow> gui_context option" where
  "fill_corners x y w h i j color ctx = do {
     c1 \<leftarrow> gui_fill_rect (x + i) (y + j) 1 1 color ctx;
     c2 \<leftarrow> gui_fill_rect (x + w - 1 - i) (y + j) 1 1 color c1;
     c3 \<leftarrow> gui_fill_rect (x + i) (y + h - 1 - j) 1 1 color c2;
     gui_fill_rect (x + w - 1 - i) (y + h - 1 - j) 1 1 color c3 }"

definition corner_pixel ::
  "int \<Rightarrow> int \<Rightarrow> int \<Rightarrow> int \<Rightarrow> u32 \<Rightarrow> u32 \<Rightarrow> int \<Rightarrow> nat \<Rightarrow> nat \<Rightarrow> gui_context \<Rightarrow> gui_context option" where
  "corner_pixel x y w h bg_color border_color radius j i ctx = (
     let r2 = radius * radius;
         dx = radius - 1 - int i;
         dy = radius - 1 - int j
     in fill_corners x y w h (int i) (int j) (if dx * dx + dy * dy \<ge> r2 then border_color else bg_color) ctx)"

definition gui_draw_window ::
  "int \<Rightarrow> int \<Rightarrow> int \<Rightarrow> int \<Rightarrow> u32 \<Rightarrow> u32 \<Rightarrow> int \<Rightarrow> gui_context \<Rightarrow> gui_context option" where
  "gui_draw_window x y w h bg_color border_color radius0 ctx =
     (if w \<le> 2 \<or> h \<le> 2 then Some ctx
      else if radius0 \<le> 0
      then do {
        c1 \<leftarrow> gui_fill_rect x y w 1 border_color ctx;
        c2 \<leftarrow> gui_fill_rect x (y + h - 1) w 1 border_color c1;
        c3 \<leftarrow> gui_fill_rect x y 1 h border_color c2;
        c4 \<leftarrow> gui_fill_rect (x + w - 1) y 1 h border_color c3;
        gui_fill_rect (x + 1) (y + 1) (w - 2) (h - 2) bg_color c4 }
      else (
        let r1 = (if radius0 * 2 > w then w div 2 else radius0);
            radius = (if r1 * 2 > h then h div 2 else r1)
        in do {
          c1 \<leftarrow> gui_fill_rect (x + radius) y (w - 2 * radius) radius border_color ctx;
          c2 \<leftarrow> gui_fill_rect (x + radius) (y + h - radius) (w - 2 * radius) radius border_color c1;
          c3 \<leftarrow> gui_fill_rect x (y + radius) radius (h - 2 * radius) border_color c2;
          c4 \<leftarrow> gui_fill_rect (x + w - radius) (y + radius) radius (h - 2 * radius) border_color c3;
          c5 \<leftarrow> gui_fill_rect (x + radius) (y + radius) (w - 2 * radius) (h - 2 * radius) bg_color c4;
          for_each (\<lambda>j. for_each (corner_pixel x y w h bg_color border_color radius j) [0..<nat radius])
            [0..<nat radius] c5 }))"

definition gui_draw_desktop :: "gui_context \<Rightarrow> gui_context option" where
  "gui_draw_desktop ctx = do {
     c1 \<leftarrow> gui_fill_rect 0 0 (sint (gc_width ctx)) (sint (gc_height ctx)) 0x002244 ctx;
     gui_draw_window 50 50 (sint (gc_width ctx div 2)) (sint (gc_height ctx div 2)) 0xcccccc 0x000000 8 c1 }"

definition arrow :: bytes where
  "arrow = [0x80, 0xC0, 0xA0, 0x90, 0x88, 0x84, 0x82, 0xFF]"

definition gui_draw_cursor :: "int \<Rightarrow> int \<Rightarrow> u32 \<Rightarrow> gui_context \<Rightarrow> gui_context option" where
  "gui_draw_cursor x y color =
     for_each (\<lambda>j. for_each (\<lambda>i ctx. do {
         a \<leftarrow> rd arrow j;
         if a AND drop_bit i 0x80 \<noteq> 0 then gui_fill_rect (x + int i) (y + int j) 1 1 color ctx else Some ctx })
       [0..<8]) [0..<8]"

section \<open>The copy to the screen\<close>

text \<open>\<open>memcpy\<close> of \<open>n\<close> pixels, with the two offsets in pixels.\<close>

definition copy_row :: "nat \<Rightarrow> nat \<Rightarrow> nat \<Rightarrow> nat \<Rightarrow> pixels \<Rightarrow> pixels \<Rightarrow> pixels option" where
  "copy_row limit d s n bb fb =
     (if d + n \<le> limit \<and> s + n \<le> GUI_MAX_WIDTH * GUI_MAX_HEIGHT
      then Some (\<lambda>i. if d \<le> i \<and> i < d + n then bb (s + (i - d)) else fb i) else None)"

definition gui_flush :: "gui_context \<Rightarrow> gui_context option" where
  "gui_flush ctx = (case (gc_fb ctx, backbuffer ctx) of
       (Some fb, Some bb) \<Rightarrow> do {
         fb' \<leftarrow> for_each (\<lambda>j. copy_row (gc_fb_pixels ctx) (unat (word_of_nat j * gc_pitch ctx))
                 (unat (word_of_nat j * gc_width ctx)) (unat (gc_width ctx)) bb) [0..<unat (gc_height ctx)] fb;
         Some (ctx\<lparr>gc_fb := Some fb'\<rparr>) }
     | _ \<Rightarrow> Some ctx)"

section \<open>The title bar\<close>

datatype gui_window_state =
  GUI_WINDOW_NORMAL | GUI_WINDOW_MINIMIZED | GUI_WINDOW_MAXIMIZED | GUI_WINDOW_CLOSED

record gui_window =
  win_x :: int
  win_y :: int
  win_w :: int
  win_h :: int
  win_state :: gui_window_state

text \<open>The place where a window is drawn.\<close>

definition window_frame :: "gui_context \<Rightarrow> gui_window \<Rightarrow> int \<times> int \<times> int \<times> int" where
  "window_frame ctx win =
     (if win_state win = GUI_WINDOW_MAXIMIZED then (0, 0, sint (gc_width ctx), sint (gc_height ctx))
      else if win_state win = GUI_WINDOW_MINIMIZED then (win_x win, win_y win, win_w win, 20)
      else (win_x win, win_y win, win_w win, win_h win))"

definition gui_draw_window_ex :: "gui_window \<Rightarrow> u32 \<Rightarrow> u32 \<Rightarrow> gui_context \<Rightarrow> gui_context option" where
  "gui_draw_window_ex win bg_color border_color ctx =
     (if win_state win = GUI_WINDOW_CLOSED then Some ctx
      else (let (x, y, w, h) = window_frame ctx win in do {
        c1 \<leftarrow> gui_draw_window x y w h bg_color border_color 8 ctx;
        c2 \<leftarrow> gui_fill_rect (x + w - 45) (y + 2) 12 12 0x666666 c1;
        c3 \<leftarrow> gui_fill_rect (x + w - 30) (y + 2) 12 12 0x666666 c2;
        gui_fill_rect (x + w - 15) (y + 2) 12 12 0x666666 c3 }))"

definition gui_window_handle_click :: "gui_window \<Rightarrow> int \<Rightarrow> int \<Rightarrow> bool \<times> gui_window" where
  "gui_window_handle_click win x y =
     (if win_state win = GUI_WINDOW_CLOSED then (False, win)
      else if x < win_x win \<or> x \<ge> win_x win + win_w win \<or> y < win_y win \<or> y \<ge> win_y win + 20
      then (False, win)
      else (let rel = x - win_x win in
        if rel \<ge> win_w win - 45 \<and> rel < win_w win - 30 then (True, win\<lparr>win_state := GUI_WINDOW_MINIMIZED\<rparr>)
        else if rel \<ge> win_w win - 30 \<and> rel < win_w win - 15
        then (True, win\<lparr>win_state :=
               (if win_state win = GUI_WINDOW_MAXIMIZED then GUI_WINDOW_NORMAL else GUI_WINDOW_MAXIMIZED)\<rparr>)
        else if rel \<ge> win_w win - 15 then (True, win\<lparr>win_state := GUI_WINDOW_CLOSED\<rparr>)
        else (False, win)))"

section \<open>The demo\<close>

definition clamp_mouse :: "gui_context \<Rightarrow> mouse_state \<Rightarrow> mouse_state" where
  "clamp_mouse ctx s = (
     let x1 = (if ms_x s < 0 then 0 else ms_x s);
         y1 = (if ms_y s < 0 then 0 else ms_y s);
         x2 = (if x1 \<ge> sint (gc_width ctx) then sint (gc_width ctx - 1) else x1);
         y2 = (if y1 \<ge> sint (gc_height ctx) then sint (gc_height ctx - 1) else y1)
     in s\<lparr>ms_x := x2, ms_y := y2\<rparr>)"

lemma mouse_poll_reads: "mouse_poll m p = Some (m', p') \<Longrightarrow> length (port_answers p') < length (port_answers p)"
  by (auto simp: mouse_poll_def inb_Some_iff split: Option.bind_splits if_splits)

text \<open>
  A routine that polls the mouse has a result, waits for answers that do not come, or has undefined
  behaviour.
\<close>

datatype 'a answered = Answer 'a | Silent | Fault

definition no_answer :: "ports \<Rightarrow> bool" where
  "no_answer p = (case port_answers p of [] \<Rightarrow> True | status # rest \<Rightarrow> status AND 1 \<noteq> 0 \<and> rest = [])"

definition poll_answer :: "mouse \<Rightarrow> ports \<Rightarrow> (mouse \<times> ports) answered" where
  "poll_answer m p =
     (if no_answer p then Silent else case mouse_poll m p of None \<Rightarrow> Fault | Some r \<Rightarrow> Answer r)"

lemma poll_answer_reads:
  "poll_answer m p = Answer (m', p') \<Longrightarrow> length (port_answers p') < length (port_answers p)"
  by (auto simp: poll_answer_def split: if_splits option.splits dest: mouse_poll_reads)

text \<open>The loop that waits for the button to be released.\<close>

function gui_release :: "mouse \<Rightarrow> ports \<Rightarrow> (mouse \<times> ports) answered" where
  "gui_release m p =
     (if ms_buttons (ms m) AND 1 = 0 then Answer (m, p)
      else case poll_answer m p of Answer r \<Rightarrow> gui_release (fst r) (snd r) | Silent \<Rightarrow> Silent | Fault \<Rightarrow> Fault)"
  by pat_completeness auto
termination
  by (relation "measure (\<lambda>(m, p). length (port_answers p))") (auto dest: poll_answer_reads)

declare gui_release.simps [simp del]

lemma gui_release_reads:
  "gui_release m p = Answer (m', p') \<Longrightarrow> length (port_answers p') \<le> length (port_answers p)"
proof (induction m p rule: gui_release.induct)
  case (1 m p)
  then show ?case
    by (subst (asm) (2) gui_release.simps) (fastforce split: if_splits answered.splits dest: poll_answer_reads)
qed

text \<open>One turn of the loop of \<open>gui_run_demo\<close>: the drawing, and the turn with the input before and behind it.\<close>

definition gui_draw_turn :: "gui_window \<Rightarrow> mouse_state \<Rightarrow> gui_context \<Rightarrow> gui_context option" where
  "gui_draw_turn win s ctx = do {
     c1 \<leftarrow> gui_draw_desktop ctx;
     c2 \<leftarrow> gui_draw_window_ex win 0xcccccc 0x000000 c1;
     c3 \<leftarrow> gui_draw_cursor (ms_x s) (ms_y s) 0xffffff c2;
     gui_flush c3 }"

definition gui_frame ::
  "gui_context \<Rightarrow> gui_window \<Rightarrow> mouse \<Rightarrow> ports \<Rightarrow> (gui_context \<times> gui_window \<times> mouse \<times> ports) answered" where
  "gui_frame ctx win m p = (case poll_answer m p of Silent \<Rightarrow> Silent | Fault \<Rightarrow> Fault
     | Answer (m1, p1) \<Rightarrow>
         (let s = clamp_mouse ctx (ms m1); m2 = m1\<lparr>ms := s\<rparr> in
          case gui_draw_turn win s ctx of None \<Rightarrow> Fault
          | Some c1 \<Rightarrow>
              if ms_buttons s AND 1 \<noteq> 0
              then (let (hit, win1) = gui_window_handle_click win (ms_x s) (ms_y s) in
                    if hit then (case gui_release m2 p1 of Silent \<Rightarrow> Silent | Fault \<Rightarrow> Fault
                      | Answer (m3, p3) \<Rightarrow> Answer (c1, win1, m3, p3))
                    else Answer (c1, win1, m2, p1))
              else Answer (c1, win, m2, p1)))"

lemma gui_frame_reads:
  "gui_frame ctx win m p = Answer (c, w, m', p') \<Longrightarrow> length (port_answers p') < length (port_answers p)"
  by (auto simp: gui_frame_def Let_def split: answered.splits option.splits if_splits prod.splits
      dest!: poll_answer_reads gui_release_reads)

text \<open>
  The demo waits for the mouse with the state of the last turn, or it has faulted. It has no other end:
  the loop \<open>for (;;)\<close> has no exit (the shell passes the address of \<open>gui_ctx\<close>, never \<open>NULL\<close>).
\<close>

datatype demo = Demo_waits gui_context gui_window mouse ports | Demo_faults

function gui_loop :: "gui_context \<Rightarrow> gui_window \<Rightarrow> mouse \<Rightarrow> ports \<Rightarrow> demo" where
  "gui_loop ctx win m p = (case gui_frame ctx win m p of
     Answer (ctx', win', m', p') \<Rightarrow> gui_loop ctx' win' m' p'
   | Silent \<Rightarrow> Demo_waits ctx win m p
   | Fault \<Rightarrow> Demo_faults)"
  by pat_completeness auto
termination
  by (relation "measure (\<lambda>(c, w, m, p). length (port_answers p))") (auto dest: gui_frame_reads)

declare gui_loop.simps [simp del]

definition demo_window :: "gui_context \<Rightarrow> gui_window" where
  "demo_window ctx = \<lparr>win_x = 50, win_y = 50, win_w = sint (gc_width ctx div 2),
     win_h = sint (gc_height ctx div 2), win_state = GUI_WINDOW_NORMAL\<rparr>"

definition gui_run_demo :: "gui_context \<Rightarrow> mouse \<Rightarrow> ports \<Rightarrow> demo" where
  "gui_run_demo ctx m p = (case mouse_init m p of
     None \<Rightarrow> Demo_waits ctx (demo_window ctx) m p
   | Some (m1, p1) \<Rightarrow> gui_loop ctx (demo_window ctx) m1 p1)"

end
