(* ===== verification/Shell.thy ===== *)
theory Shell
  imports Exec Gui
begin

text \<open>
  The command shell (\<open>kernel/src/src/shell.c\<close>): the environment variables, the line editor, the
  split of a line into arguments, the built-in commands and the start of programs. \<open>None\<close> is a
  fault or a call that never returns.
\<close>

section \<open>State\<close>

definition SHELL_BUFSZ :: nat where "SHELL_BUFSZ = 256"
definition SHELL_MAX_ARGS :: nat where "SHELL_MAX_ARGS = 8"
definition SHELL_MAX_ARG_LEN :: nat where "SHELL_MAX_ARG_LEN = 64"
definition SHELL_MAX_ENV_VARS :: nat where "SHELL_MAX_ENV_VARS = 32"
definition SHELL_MAX_ENV_NAME :: nat where "SHELL_MAX_ENV_NAME = 32"
definition SHELL_MAX_ENV_VALUE :: nat where "SHELL_MAX_ENV_VALUE = 128"

definition esc :: "string \<Rightarrow> bytes" where
  "esc s = 27 # str s"

definition ANSI_RESET :: bytes where "ANSI_RESET = esc ''[0m''"
definition ANSI_BOLD :: bytes where "ANSI_BOLD = esc ''[1m''"
definition ANSI_RED :: bytes where "ANSI_RED = esc ''[31m''"
definition ANSI_GREEN :: bytes where "ANSI_GREEN = esc ''[32m''"
definition ANSI_YELLOW :: bytes where "ANSI_YELLOW = esc ''[33m''"
definition ANSI_BLUE :: bytes where "ANSI_BLUE = esc ''[34m''"
definition ANSI_CYAN :: bytes where "ANSI_CYAN = esc ''[36m''"

definition user_list :: "bytes list" where
  "user_list = [lit ''user'', lit ''sudo'']"

record env_var =
  env_name :: bytes
  env_value :: bytes

definition zero_env :: env_var where
  "zero_env = \<lparr>env_name = replicate SHELL_MAX_ENV_NAME 0, env_value = replicate SHELL_MAX_ENV_VALUE 0\<rparr>"

text \<open>The static variables of the file over the state of the kernel, the graphics context and the mouse.\<close>

record shell =
  sh_kernel :: kernel
  env_vars :: "env_var list"
  shell_exit_requested :: bool
  current_user :: bytes
  arg_bufs :: "bytes list"
  sh_gui :: gui_context
  sh_mouse :: mouse
  sh_ports :: ports

definition shell_boot :: "kernel \<Rightarrow> gui_context \<Rightarrow> mouse \<Rightarrow> ports \<Rightarrow> shell" where
  "shell_boot k g m p = \<lparr>sh_kernel = k, env_vars = replicate SHELL_MAX_ENV_VARS zero_env,
     shell_exit_requested = False, current_user = lit ''user'',
     arg_bufs = replicate SHELL_MAX_ARGS (replicate SHELL_MAX_ARG_LEN 0),
     sh_gui = g, sh_mouse = m, sh_ports = p\<rparr>"

section \<open>Environment variables\<close>

text \<open>The test \<open>env_vars[i].name[0] && !strcmp(env_vars[i].name, name)\<close>.\<close>

definition env_hit :: "bytes \<Rightarrow> env_var \<Rightarrow> bool option" where
  "env_hit name e = do {
     c \<leftarrow> rd (env_name e) 0;
     if c = 0 then Some False else str_eq (env_name e) name }"

fun find_env :: "(env_var \<Rightarrow> bool option) \<Rightarrow> env_var list \<Rightarrow> nat \<Rightarrow> nat option option" where
  "find_env test [] i = Some None"
| "find_env test (e # es) i = do {
     hit \<leftarrow> test e;
     if hit then Some (Some i) else find_env test es (i + 1) }"

definition get_env_var :: "bytes \<Rightarrow> env_var list \<Rightarrow> bytes option option" where
  "get_env_var name es = do {
     r \<leftarrow> find_env (env_hit name) es 0;
     case r of None \<Rightarrow> Some None | Some i \<Rightarrow> do { e \<leftarrow> rd es i; Some (Some (env_value e)) } }"

definition env_free :: "env_var \<Rightarrow> bool option" where
  "env_free e = do { c \<leftarrow> rd (env_name e) 0; Some (c = 0) }"

definition set_env_var :: "bytes \<Rightarrow> bytes \<Rightarrow> env_var list \<Rightarrow> (bool \<times> env_var list) option" where
  "set_env_var name value es = do {
     r \<leftarrow> find_env (env_hit name) es 0;
     case r of
       Some i \<Rightarrow> do {
         e \<leftarrow> rd es i;
         v \<leftarrow> copy_name (env_value e) value;
         es' \<leftarrow> wr es i (e\<lparr>env_value := v\<rparr>);
         Some (True, es') }
     | None \<Rightarrow> do {
         r \<leftarrow> find_env env_free es 0;
         case r of None \<Rightarrow> Some (False, es)
         | Some i \<Rightarrow> do {
             e \<leftarrow> rd es i;
             n \<leftarrow> copy_name (env_name e) name;
             v \<leftarrow> copy_name (env_value e) value;
             es' \<leftarrow> wr es i \<lparr>env_name = n, env_value = v\<rparr>;
             Some (True, es') } } }"

fun unset_env_var :: "bytes \<Rightarrow> env_var list \<Rightarrow> env_var list option" where
  "unset_env_var name [] = Some []"
| "unset_env_var name (e # es) = do {
     hit \<leftarrow> env_hit name e;
     e' \<leftarrow> (if hit
           then do { n \<leftarrow> wr (env_name e) 0 0; v \<leftarrow> wr (env_value e) 0 0; Some \<lparr>env_name = n, env_value = v\<rparr> }
           else Some e);
     es' \<leftarrow> unset_env_var name es;
     Some (e' # es') }"

definition default_path :: bytes where
  "default_path = lit ''/bin:/usr/bin:.''"

definition put_env :: "bytes \<Rightarrow> bytes \<Rightarrow> shell \<Rightarrow> shell option" where
  "put_env name value s = do { (_, es) \<leftarrow> set_env_var name value (env_vars s); Some (s\<lparr>env_vars := es\<rparr>) }"

definition init_default_env :: "shell \<Rightarrow> shell option" where
  "init_default_env s = do {
     s1 \<leftarrow> put_env (lit ''PATH'') default_path s;
     put_env (lit ''USER'') (current_user s1) s1 }"

section \<open>Output\<close>

text \<open>\<open>flanterm_write\<close> reads its context: with no terminal it faults.\<close>

definition flanterm_write :: "bytes \<Rightarrow> shell \<Rightarrow> shell option" where
  "flanterm_write bs s =
     (if ft_ctx (sh_kernel s) then Some (s\<lparr>sh_kernel := terminal_write bs (sh_kernel s)\<rparr>) else None)"

definition shell_print :: "bytes \<Rightarrow> shell \<Rightarrow> shell option" where
  "shell_print m s =
     (if \<not> ft_ctx (sh_kernel s) then Some s
      else do { len \<leftarrow> strlen m; flanterm_write (take len m) s })"

definition shell_print_colored :: "bytes \<Rightarrow> bytes \<Rightarrow> shell \<Rightarrow> shell option" where
  "shell_print_colored m color s = do {
     s1 \<leftarrow> shell_print color s;
     s2 \<leftarrow> shell_print m s1;
     shell_print (ANSI_RESET @ [0]) s2 }"

fun shell_prints :: "bytes list \<Rightarrow> shell \<Rightarrow> shell option" where
  "shell_prints [] s = Some s"
| "shell_prints (m # rest) s = do { s' \<leftarrow> shell_print m s; shell_prints rest s' }"

section \<open>Strings\<close>

definition str_ends_with :: "bytes option \<Rightarrow> bytes option \<Rightarrow> bool option" where
  "str_ends_with s suffix = (case (s, suffix) of
       (Some a, Some b) \<Rightarrow> do {
         str_len \<leftarrow> strlen a;
         suffix_len \<leftarrow> strlen b;
         if suffix_len > str_len then Some False else str_eq (drop (str_len - suffix_len) a) b }
     | _ \<Rightarrow> Some False)"

fun parse_octal :: "bytes \<Rightarrow> u16 \<Rightarrow> u16 option" where
  "parse_octal [] v = None"
| "parse_octal (c # s) v =
     (if 48 \<le> c \<and> c \<le> 55 then parse_octal s (push_bit 3 v OR ucast (c - 48)) else Some v)"

section \<open>Redirection\<close>

text \<open>The loop that closes the gap: \<open>argv[j] = argv[j + 2]\<close>.\<close>

definition shift_args :: "nat \<Rightarrow> nat \<Rightarrow> bytes list \<Rightarrow> bytes list option" where
  "shift_args i argc argv =
     for_each (\<lambda>j av. do { a \<leftarrow> rd av (j + 2); wr av j a }) [i..<argc - 2] argv"

text \<open>
  The result is the new \<open>argv\<close> and \<open>argc\<close>, and the file with the append flag if an operator was
  found; \<open>i\<close> runs through the arguments but the last.
\<close>

fun redirect_from :: "nat list \<Rightarrow> bytes list \<Rightarrow> nat \<Rightarrow> (bytes list \<times> nat \<times> (bytes \<times> bool) option) option" where
  "redirect_from [] argv argc = Some (argv, argc, None)"
| "redirect_from (i # is) argv argc = do {
     a \<leftarrow> rd argv i;
     over \<leftarrow> str_eq a (lit ''>'');
     append \<leftarrow> (if over then Some False else str_eq a (lit ''>>''));
     if over \<or> append
     then do {
       outfile \<leftarrow> rd argv (i + 1);
       argv' \<leftarrow> shift_args i argc argv;
       Some (argv', argc - 2, Some (outfile, append)) }
     else redirect_from is argv argc }"

definition parse_redirection :: "bytes list \<Rightarrow> nat \<Rightarrow> (bytes list \<times> nat \<times> (bytes \<times> bool) option) option" where
  "parse_redirection argv argc = redirect_from [0..<argc - 1] argv argc"

section \<open>Programs\<close>

text \<open>The path of a candidate: the directory, a slash unless it ends in one, and the command.\<close>

definition candidate :: "bytes \<Rightarrow> bytes \<Rightarrow> bytes option" where
  "candidate tok cmd = do {
     b \<leftarrow> copy_name (replicate 256 0) tok;
     len \<leftarrow> strlen b;
     last \<leftarrow> (if len = 0 then Some 0 else rd b (len - 1));
     b1 \<leftarrow> (if len \<noteq> 0 \<and> last \<noteq> 47 then strncat b (lit ''/'') (256 - len - 1) else Some b);
     n \<leftarrow> strlen b1;
     strncat b1 cmd (256 - n - 1) }"

lemma strspn_le: "strspn s d = Some k \<Longrightarrow> k < length s"
  by (induction s d arbitrary: k rule: strspn.induct) (auto split: Option.bind_splits if_splits)

lemma strlen_lt: "strlen s = Some k \<Longrightarrow> k < length s"
  by (auto simp: strlen_Some_iff)

text \<open>A token moves the saved pointer of \<open>strtok\<close> forward, within the buffer.\<close>

lemma strtok_progress:
  assumes "strtok_r buf arg delim save = Some (Some p, save', buf')"
    and "s0 = (case arg of None \<Rightarrow> save | Some q \<Rightarrow> q)"
  shows "s0 < save' \<and> save' \<le> length buf \<and> length buf' = length buf"
proof -
  note [simp] = assms(2) [symmetric]
  obtain k c where k: "strspn (drop s0 buf) delim = Some k" "rd buf (s0 + k) = Some c" "c \<noteq> 0"
    using assms(1) by (auto simp: strtok_r_def Let_def split: Option.bind_splits if_splits)
  have lt: "s0 + k < length buf" using rd_SomeD [OF k(2)] by simp
  obtain e where e: "strpbrk (drop (s0 + k) buf) delim = Some e"
    using assms(1) k by (auto simp: strtok_r_def Let_def split: Option.bind_splits)
  show ?thesis
  proof (cases e)
    case None
    then obtain n where n: "strlen (drop (s0 + k) buf) = Some n" "save' = s0 + k + n" "buf' = buf"
      using assms(1) k e by (auto simp: strtok_r_def Let_def split: Option.bind_splits)
    have "drop (s0 + k) buf = c # drop (Suc (s0 + k)) buf"
      using lt rd_SomeD [OF k(2)] by (simp add: Cons_nth_drop_Suc)
    then have "n \<noteq> 0" using n(1) k(3) by (auto split: if_splits)
    moreover have "n < length buf - (s0 + k)" using strlen_lt [OF n(1)] by simp
    ultimately show ?thesis unfolding n(2,3) by linarith
  next
    case (Some j)
    then have w: "wr buf (s0 + k + j) 0 = Some buf'" "save' = s0 + k + j + 1"
      using assms(1) k e by (auto simp: strtok_r_def Let_def split: Option.bind_splits)
    have "s0 + k + j < length buf" "length buf' = length buf" using wr_SomeD [OF w(1)] by simp_all
    then show ?thesis unfolding w(2) by linarith
  qed
qed

text \<open>
  The loop over the directories; \<open>arg\<close> and \<open>save\<close> are the argument and the static pointer of
  \<open>strtok\<close>.
\<close>

function path_loop ::
  "(u64 \<Rightarrow> u64 \<Rightarrow> kernel \<Rightarrow> kernel option) \<Rightarrow> bytes \<Rightarrow> bytes \<Rightarrow> nat option \<Rightarrow> nat \<Rightarrow> shell \<Rightarrow> (bool \<times> shell) option" where
  "path_loop jmp cmd buf arg save s = (case strtok_r buf arg (lit '':'') save of
       None \<Rightarrow> None
     | Some (None, save', buf') \<Rightarrow> Some (False, s)
     | Some (Some p, save', buf') \<Rightarrow> (case candidate (drop p buf') cmd of
           None \<Rightarrow> None
         | Some fpath \<Rightarrow> (case fs_open fpath (k_fs (sh_kernel s)) of
               None \<Rightarrow> None
             | Some (file, fs') \<Rightarrow>
                 (let s1 = s\<lparr>sh_kernel := (sh_kernel s)\<lparr>k_fs := fs'\<rparr>\<rparr> in
                  if file \<noteq> None
                  then do {
                    s2 \<leftarrow> shell_prints [lit ''Executing: '', fpath, [10, 0]] s1;
                    k \<leftarrow> exec_elf jmp fpath (sh_kernel s2);
                    Some (True, s2\<lparr>sh_kernel := k\<rparr>) }
                  else path_loop jmp cmd buf' None save' s1))))"
  by pat_completeness auto
termination
  by (relation "measure (\<lambda>(jmp, cmd, buf, arg, save, s). Suc (length buf) - (case arg of None \<Rightarrow> save | Some q \<Rightarrow> q))")
    (auto dest!: strtok_progress [OF _ refl] split: option.splits)

declare path_loop.simps [simp del]

definition try_exec_elf_command ::
  "(u64 \<Rightarrow> u64 \<Rightarrow> kernel \<Rightarrow> kernel option) \<Rightarrow> bytes \<Rightarrow> shell \<Rightarrow> (bool \<times> shell) option" where
  "try_exec_elf_command jmp cmd s = do {
     path_env \<leftarrow> get_env_var (lit ''PATH'') (env_vars s);
     let paths = (case path_env of None \<Rightarrow> default_path | Some v \<Rightarrow> v);
     paths_copy \<leftarrow> copy_name (replicate 256 0) paths;
     path_loop jmp cmd paths_copy (Some 0) 0 s }"

section \<open>Commands\<close>

text \<open>The box-drawing characters of the help text, in UTF-8.\<close>

definition box :: "u8 \<Rightarrow> bytes" where "box c = [0xE2, 0x95, c]"
definition bar :: bytes where "bar = box 0x91 @ [32]"
definition cell :: "string \<Rightarrow> bytes" where "cell s = str s @ box 0x91 @ [10]"
definition rule :: "u8 \<Rightarrow> u8 \<Rightarrow> bytes" where
  "rule l r = box l @ concat (replicate 37 (box 0x90)) @ box r @ [10]"

definition help_text :: "(bytes \<times> bytes) list" where
  "help_text =
     [(rule 0x94 0x97, ANSI_CYAN), (bar, ANSI_CYAN), (str ''Limine Shell'', ANSI_BOLD),
      (cell ''                       '', ANSI_CYAN), (rule 0xA0 0xA3, ANSI_CYAN), (bar, ANSI_CYAN),
      (str ''Built-in Commands:'', ANSI_YELLOW), (cell ''                 '', ANSI_CYAN),
      (bar, ANSI_CYAN), (cell ''  help   - Show this help message   '', ANSI_CYAN), (bar, ANSI_CYAN),
      (cell ''  clear  - Clear the screen         '', ANSI_CYAN), (bar, ANSI_CYAN),
      (cell ''  pwd    - Print working directory  '', ANSI_CYAN), (bar, ANSI_CYAN),
      (cell ''  cd     - Change directory         '', ANSI_CYAN), (bar, ANSI_CYAN),
      (cell ''  ls     - List files              '', ANSI_CYAN),
      (cell ''  chmod  - Change file mode        '', ANSI_CYAN),
      (cell ''  export - Set env variable        '', ANSI_CYAN),
      (cell ''  unset  - Remove env variable     '', ANSI_CYAN),
      (cell ''  set    - List env variables      '', ANSI_CYAN),
      (cell ''  exit   - Leave shell             '', ANSI_CYAN), (bar, ANSI_CYAN),
      (cell ''  su     - Switch user             '', ANSI_CYAN), (bar, ANSI_CYAN),
      (cell ''  reboot - Reboot the system        '', ANSI_CYAN), (bar, ANSI_CYAN),
      (cell ''  gui    - Start GUI demo          '', ANSI_CYAN), (bar, ANSI_CYAN),
      (cell ''Other commands are executed via ELF.'', ANSI_CYAN), (rule 0x9A 0x9D, ANSI_CYAN)]"

definition shell_help :: "shell \<Rightarrow> shell option" where
  "shell_help = for_each (\<lambda>(m, color). shell_print_colored (m @ [0]) (color @ [0])) help_text"

definition error_prefix :: bytes where
  "error_prefix = ANSI_RED @ str ''Error: '' @ ANSI_RESET"

definition shell_pwd :: "shell \<Rightarrow> shell option" where
  "shell_pwd s =
     shell_prints [ANSI_GREEN @ [0], fs_get_current_dir (k_fs (sh_kernel s)), ANSI_RESET @ [10, 0]] s"

definition set_fs :: "fs_state \<Rightarrow> shell \<Rightarrow> shell" where
  "set_fs fs s = s\<lparr>sh_kernel := (sh_kernel s)\<lparr>k_fs := fs\<rparr>\<rparr>"

definition shell_cd :: "bytes list \<Rightarrow> nat \<Rightarrow> shell \<Rightarrow> shell option" where
  "shell_cd argv argc s =
     (if argc < 2
      then do {
        (ok, fs') \<leftarrow> fs_change_dir (lit ''/'') (k_fs (sh_kernel s));
        let s1 = set_fs fs' s;
        if ok then Some s1
        else shell_print (error_prefix @ str ''Could not change to root directory'' @ [10, 0]) s1 }
      else do {
        a \<leftarrow> rd argv 1;
        (ok, fs') \<leftarrow> fs_change_dir a (k_fs (sh_kernel s));
        let s1 = set_fs fs' s;
        if ok then Some s1
        else shell_prints [error_prefix @ lit ''Could not change directory to '', a, [10, 0]] s1 })"

definition shell_ls :: "shell \<Rightarrow> shell option" where
  "shell_ls s = do {
     (n, files, fs') \<leftarrow> fs_list (k_fs (sh_kernel s));
     s2 \<leftarrow> for_each (\<lambda>i s. do {
         fs \<leftarrow> files;
         f \<leftarrow> rd fs i;
         s1 \<leftarrow> shell_print (ff_name f) s;
         s2 \<leftarrow> (if ff_is_dir f then shell_print (lit ''/'') s1 else Some s1);
         shell_print (lit ''  '') s2 }) [0..<n] (set_fs fs' s);
     shell_print [10, 0] s2 }"

definition shell_chmod :: "bytes list \<Rightarrow> nat \<Rightarrow> shell \<Rightarrow> shell option" where
  "shell_chmod argv argc s =
     (if argc < 3 then shell_print (str ''Usage: chmod <mode> <file>'' @ [10, 0]) s
      else do {
        m \<leftarrow> rd argv 1;
        f \<leftarrow> rd argv 2;
        mode \<leftarrow> parse_octal m 0;
        (ok, fs') \<leftarrow> fs_chmod f mode (k_fs (sh_kernel s));
        let s1 = set_fs fs' s;
        if ok then Some s1 else shell_print (str ''chmod: failed to change mode'' @ [10, 0]) s1 })"

definition shell_export :: "bytes list \<Rightarrow> nat \<Rightarrow> shell \<Rightarrow> shell option" where
  "shell_export argv argc s =
     (if argc < 3 then shell_print (str ''Usage: export <name> <value>'' @ [10, 0]) s
      else do { n \<leftarrow> rd argv 1; v \<leftarrow> rd argv 2; put_env n v s })"

definition shell_unset :: "bytes list \<Rightarrow> nat \<Rightarrow> shell \<Rightarrow> shell option" where
  "shell_unset argv argc s =
     (if argc < 2 then shell_print (str ''Usage: unset <name>'' @ [10, 0]) s
      else do { n \<leftarrow> rd argv 1; es \<leftarrow> unset_env_var n (env_vars s); Some (s\<lparr>env_vars := es\<rparr>) })"

definition shell_set :: "shell \<Rightarrow> shell option" where
  "shell_set s = for_each (\<lambda>e s. do {
       c \<leftarrow> rd (env_name e) 0;
       if c = 0 then Some s else shell_prints [env_name e, lit ''='', env_value e, [10, 0]] s }) (env_vars s) s"

fun su_loop :: "bytes list \<Rightarrow> bytes \<Rightarrow> shell \<Rightarrow> shell option" where
  "su_loop [] name s = shell_print (str ''Unknown user'' @ [10, 0]) s"
| "su_loop (u # us) name s = do {
     hit \<leftarrow> str_eq name u;
     if hit then put_env (lit ''USER'') u (s\<lparr>current_user := u\<rparr>) else su_loop us name s }"

definition shell_su :: "bytes list \<Rightarrow> nat \<Rightarrow> shell \<Rightarrow> shell option" where
  "shell_su argv argc s =
     (if argc < 2 then shell_print (str ''Usage: su <user>'' @ [10, 0]) s
      else do { name \<leftarrow> rd argv 1; su_loop user_list name s })"

text \<open>The demo does not come back to the shell, whether it waits for the mouse or has faulted.\<close>

definition shell_gui :: "shell \<Rightarrow> shell option" where
  "shell_gui s = (case gui_run_demo (sh_gui s) (sh_mouse s) (sh_ports s) of
       Demo_waits ctx win m p \<Rightarrow> None | Demo_faults \<Rightarrow> None)"

definition shell_external ::
  "(u64 \<Rightarrow> u64 \<Rightarrow> kernel \<Rightarrow> kernel option) \<Rightarrow> bytes \<Rightarrow> shell \<Rightarrow> shell option" where
  "shell_external jmp cmd s = do {
     (found, s1) \<leftarrow> try_exec_elf_command jmp cmd s;
     if found then Some s1
     else shell_prints [error_prefix @ lit ''Command not found: '', cmd, [10, 0]] s1 }"

text \<open>The table of the built-in commands; \<open>reboot\<close> ends in a loop of \<open>hlt\<close>.\<close>

definition builtins ::
  "(string \<times> (bytes list \<Rightarrow> nat \<Rightarrow> shell \<Rightarrow> shell option)) list" where
  "builtins =
     [(''help'', \<lambda>argv argc. shell_help),
      (''clear'', \<lambda>argv argc. flanterm_write (esc ''[2J'' @ esc ''[H'')),
      (''reboot'', \<lambda>argv argc s. None),
      (''gui'', \<lambda>argv argc. shell_gui),
      (''pwd'', \<lambda>argv argc. shell_pwd),
      (''cd'', shell_cd),
      (''ls'', \<lambda>argv argc. shell_ls),
      (''chmod'', shell_chmod),
      (''export'', shell_export),
      (''unset'', shell_unset),
      (''set'', \<lambda>argv argc. shell_set),
      (''exit'', \<lambda>argv argc s. Some (s\<lparr>shell_exit_requested := True\<rparr>)),
      (''su'', shell_su)]"

text \<open>The chain of \<open>if (!strcmp(cmd, ...)) ... else if\<close>, in the order of the code.\<close>

fun dispatch ::
  "(string \<times> (bytes list \<Rightarrow> nat \<Rightarrow> shell \<Rightarrow> shell option)) list \<Rightarrow>
     (u64 \<Rightarrow> u64 \<Rightarrow> kernel \<Rightarrow> kernel option) \<Rightarrow> bytes \<Rightarrow> bytes list \<Rightarrow> nat \<Rightarrow> shell \<Rightarrow> shell option" where
  "dispatch [] jmp cmd argv argc s = shell_external jmp cmd s"
| "dispatch ((name, run) # table) jmp cmd argv argc s = do {
     hit \<leftarrow> str_eq cmd (lit name);
     if hit then run argv argc s else dispatch table jmp cmd argv argc s }"

definition shell_exec ::
  "(u64 \<Rightarrow> u64 \<Rightarrow> kernel \<Rightarrow> kernel option) \<Rightarrow> bytes \<Rightarrow> bytes list \<Rightarrow> nat \<Rightarrow> shell \<Rightarrow> shell option" where
  "shell_exec jmp cmd argv argc s =
     (if argc = 0 then Some s
      else do {
        c \<leftarrow> rd cmd 0;
        if c = 0 then Some s
        else do {
          (argv', argc', outfile) \<leftarrow> parse_redirection argv argc;
          dispatch builtins jmp cmd argv' argc' s } })"

section \<open>Reading a line\<close>

text \<open>A character that is not the end of the line; \<open>idx\<close> is \<open>buf_idx\<close>.\<close>

definition line_key :: "u8 \<Rightarrow> bytes \<Rightarrow> nat \<Rightarrow> shell \<Rightarrow> (bytes \<times> nat \<times> shell) option" where
  "line_key c buf idx s =
     (if c = 8 \<or> c = 127
      then (if idx > 0
            then do { b \<leftarrow> wr buf (idx - 1) 0; s' \<leftarrow> flanterm_write [8, 32, 8] s; Some (b, idx - 1, s') }
            else Some (buf, idx, s))
      else if 32 \<le> c \<and> c < 127
      then do { b \<leftarrow> wr buf idx c; s' \<leftarrow> flanterm_write [c] s; Some (b, idx + 1, s') }
      else Some (buf, idx, s))"

definition set_keys :: "bytes \<Rightarrow> key_state \<Rightarrow> shell \<Rightarrow> shell" where
  "set_keys scs ks s = s\<lparr>sh_kernel := (sh_kernel s)\<lparr>k_scancodes := scs, k_keys := ks\<rparr>\<rparr>"

text \<open>The loop; the first argument is the scan codes to come.\<close>

fun read_line :: "bytes \<Rightarrow> bytes \<Rightarrow> nat \<Rightarrow> shell \<Rightarrow> (bytes \<times> nat \<times> shell) option" where
  "read_line [] buf idx s = (if idx < SHELL_BUFSZ - 1 then None else Some (buf, idx, s))"
| "read_line (sc # scs) buf idx s =
     (if idx < SHELL_BUFSZ - 1
      then do {
        (c, rest, ks) \<leftarrow> keyboard_read_char (sc # scs) (k_keys (sh_kernel s));
        let s1 = set_keys rest ks s;
        if c = 0 then read_line scs buf idx s1
        else if c = 10 \<or> c = 13 then do { s2 \<leftarrow> flanterm_write [10] s1; Some (buf, idx, s2) }
        else do { (buf', idx', s2) \<leftarrow> line_key c buf idx s1; read_line scs buf' idx' s2 } }
      else Some (buf, idx, s))"

section \<open>Splitting a line\<close>

record tokens =
  tk_bufs :: "bytes list"
  tk_argc :: nat
  tk_idx :: nat
  tk_quotes :: bool

text \<open>The end of an argument: the NUL, and the value of a variable in place of \<open>$name\<close>.\<close>

definition finish_arg :: "env_var list \<Rightarrow> nat \<Rightarrow> bytes \<Rightarrow> bytes option" where
  "finish_arg es idx b = do {
     b1 \<leftarrow> wr b idx 0;
     c \<leftarrow> rd b1 0;
     if c = 36
     then do {
       val \<leftarrow> get_env_var (drop 1 b1) es;
       b2 \<leftarrow> (case val of None \<Rightarrow> Some b1 | Some v \<Rightarrow> strncpy b1 v (SHELL_MAX_ARG_LEN - 1));
       wr b2 (SHELL_MAX_ARG_LEN - 1) 0 }
     else Some b1 }"

definition parse_char :: "env_var list \<Rightarrow> u8 \<Rightarrow> tokens \<Rightarrow> tokens option" where
  "parse_char es c t =
     (if c = 34 then Some (t\<lparr>tk_quotes := \<not> tk_quotes t\<rparr>)
      else if (c = 32 \<or> c = 9 \<or> c = 0) \<and> \<not> tk_quotes t
      then (if tk_idx t > 0 \<or> c = 0
            then do {
              b \<leftarrow> rd (tk_bufs t) (tk_argc t);
              b' \<leftarrow> finish_arg es (tk_idx t) b;
              bs \<leftarrow> wr (tk_bufs t) (tk_argc t) b';
              Some (t\<lparr>tk_bufs := bs, tk_argc := tk_argc t + 1, tk_idx := 0\<rparr>) }
            else Some t)
      else if tk_idx t < SHELL_MAX_ARG_LEN - 1
      then do {
        b \<leftarrow> rd (tk_bufs t) (tk_argc t);
        b' \<leftarrow> wr b (tk_idx t) c;
        bs \<leftarrow> wr (tk_bufs t) (tk_argc t) b';
        Some (t\<lparr>tk_bufs := bs, tk_idx := tk_idx t + 1\<rparr>) }
      else Some t)"

fun parse_chars :: "env_var list \<Rightarrow> bytes \<Rightarrow> tokens \<Rightarrow> tokens option" where
  "parse_chars es [] t = Some t"
| "parse_chars es (c # cs) t =
     (if tk_argc t < SHELL_MAX_ARGS
      then do { t' \<leftarrow> parse_char es c t; parse_chars es cs t' } else Some t)"

text \<open>
  The whole split. \<open>argv\<close> points at the first \<open>argc\<close> buffers; the store of \<open>NULL\<close> behind them
  leaves the array when there are eight arguments.
\<close>

definition parse_line :: "env_var list \<Rightarrow> bytes list \<Rightarrow> bytes \<Rightarrow> nat \<Rightarrow> (bytes list \<times> bytes list) option" where
  "parse_line es bufs buffer buf_idx = do {
     t \<leftarrow> parse_chars es (take (buf_idx + 1) buffer)
           \<lparr>tk_bufs = bufs, tk_argc = 0, tk_idx = 0, tk_quotes = False\<rparr>;
     if tk_argc t < SHELL_MAX_ARGS then Some (take (tk_argc t) (tk_bufs t), tk_bufs t) else None }"

section \<open>The main loop\<close>

definition prompt :: "shell \<Rightarrow> shell option" where
  "prompt s = do {
     let cwd = fs_get_current_dir (k_fs (sh_kernel s));
     s1 \<leftarrow> shell_print_colored (current_user s) (ANSI_BOLD @ ANSI_GREEN @ [0]) s;
     s2 \<leftarrow> shell_print (lit '':'') s1;
     s3 \<leftarrow> shell_print_colored cwd (ANSI_BOLD @ ANSI_BLUE @ [0]) s2;
     s4 \<leftarrow> shell_print (lit ''$ '') s3;
     if ft_ctx (sh_kernel s4) then Some s4 else None }"

definition shell_turn :: "(u64 \<Rightarrow> u64 \<Rightarrow> kernel \<Rightarrow> kernel option) \<Rightarrow> shell \<Rightarrow> shell option" where
  "shell_turn jmp s = do {
     s1 \<leftarrow> prompt s;
     (buf, idx, s2) \<leftarrow> read_line (k_scancodes (sh_kernel s1)) (replicate SHELL_BUFSZ 0) 0 s1;
     buffer \<leftarrow> wr buf idx 0;
     (argv, bufs) \<leftarrow> parse_line (env_vars s2) (arg_bufs s2) buffer idx;
     let s3 = s2\<lparr>arg_bufs := bufs\<rparr>;
     (case argv of [] \<Rightarrow> Some s3 | cmd # _ \<Rightarrow> shell_exec jmp cmd argv (length argv) s3) }"

partial_function (option) shell_loop ::
  "(u64 \<Rightarrow> u64 \<Rightarrow> kernel \<Rightarrow> kernel option) \<Rightarrow> shell \<Rightarrow> shell option" where
  "shell_loop jmp s =
     (if shell_exit_requested s then Some s
      else Option.bind (shell_turn jmp s) (shell_loop jmp))"

definition shell_run :: "(u64 \<Rightarrow> u64 \<Rightarrow> kernel \<Rightarrow> kernel option) \<Rightarrow> shell \<Rightarrow> shell option" where
  "shell_run jmp s = do {
     s1 \<leftarrow> shell_print_colored ([10] @ str ''Limine Kernel Shell'' @ [10, 0]) (ANSI_BOLD @ ANSI_CYAN @ [0]) s;
     s2 \<leftarrow> shell_print (str ''Type '' @ [39] @ str ''help'' @ [39] @ str '' for available commands.'' @ [10, 0]) s1;
     s3 \<leftarrow> init_default_env s2;
     shell_loop jmp s3 }"

end
