(* ===== verification/ShellEnv.thy ===== *)
theory ShellEnv
  imports Shell FsCorrect
begin

text \<open>
  The environment of the shell as a finite map: what \<open>get_env_var\<close>, \<open>set_env_var\<close> and
  \<open>unset_env_var\<close> do to the map the table of slots stands for, the interface a user of the
  environment relies on, and the names that are too long for a slot.
\<close>

section \<open>The interface\<close>

datatype env_op = Export bytes bytes | Unset bytes

fun env_effect :: "env_op \<Rightarrow> (bytes \<rightharpoonup> bytes) \<Rightarrow> (bytes \<rightharpoonup> bytes)" where
  "env_effect (Export n v) m = m(n \<mapsto> v)"
| "env_effect (Unset n) m = m(n := None)"

locale environment =
  fixes inv :: "'s \<Rightarrow> bool"
    and view :: "'s \<Rightarrow> bytes \<rightharpoonup> bytes"
    and free_slots :: "'s \<Rightarrow> nat"
    and name_ok :: "bytes \<Rightarrow> bool"
    and value_ok :: "bytes \<Rightarrow> bool"
    and look :: "bytes \<Rightarrow> 's \<Rightarrow> bytes option option"
    and assign :: "bytes \<Rightarrow> bytes \<Rightarrow> 's \<Rightarrow> (bool \<times> 's) option"
    and remove :: "bytes \<Rightarrow> 's \<Rightarrow> 's option"
  assumes look_view: "inv s \<Longrightarrow> name_ok n \<Longrightarrow> look n s = Some (view s n)"
    and assign_view: "inv s \<Longrightarrow> name_ok n \<Longrightarrow> value_ok v \<Longrightarrow> n \<in> dom (view s) \<or> 0 < free_slots s \<Longrightarrow>
      \<exists>s'. assign n v s = Some (True, s') \<and> inv s' \<and> view s' = (view s)(n \<mapsto> v) \<and> free_slots s \<le> Suc (free_slots s')"
    and remove_view: "inv s \<Longrightarrow> name_ok n \<Longrightarrow>
      \<exists>s'. remove n s = Some s' \<and> inv s' \<and> view s' = (view s)(n := None) \<and> free_slots s \<le> free_slots s'"
begin

fun env_run :: "env_op list \<Rightarrow> 's \<Rightarrow> 's option" where
  "env_run [] s = Some s"
| "env_run (Export n v # ops) s = do { (b, s') \<leftarrow> assign n v s; env_run ops s' }"
| "env_run (Unset n # ops) s = do { s' \<leftarrow> remove n s; env_run ops s' }"

fun op_ok :: "env_op \<Rightarrow> bool" where
  "op_ok (Export n v) = (name_ok n \<and> value_ok v)"
| "op_ok (Unset n) = name_ok n"

fun exports :: "env_op list \<Rightarrow> nat" where
  "exports [] = 0"
| "exports (Export n v # ops) = Suc (exports ops)"
| "exports (Unset n # ops) = exports ops"

lemma env_run_view:
  "inv s \<Longrightarrow> list_all op_ok ops \<Longrightarrow> exports ops \<le> free_slots s \<Longrightarrow>
     \<exists>s'. env_run ops s = Some s' \<and> inv s' \<and> view s' = fold env_effect ops (view s)"
proof (induction ops s rule: env_run.induct)
  case (2 n v ops s)
  then obtain s' where s': "assign n v s = Some (True, s')" "inv s'" "view s' = (view s)(n \<mapsto> v)"
    "free_slots s \<le> Suc (free_slots s')" using assign_view [of s n v] by auto
  then have "\<exists>s''. env_run ops s' = Some s'' \<and> inv s'' \<and> view s'' = fold env_effect ops (view s')"
    using 2 by (intro "2.IH") auto
  with s' show ?case by simp
next
  case (3 n ops s)
  then obtain s' where s': "remove n s = Some s'" "inv s'" "view s' = (view s)(n := None)"
    "free_slots s \<le> free_slots s'" using remove_view [of s n] by auto
  then have "\<exists>s''. env_run ops s' = Some s'' \<and> inv s'' \<and> view s'' = fold env_effect ops (view s')"
    using 3 by (intro "3.IH") auto
  with s' show ?case by simp
qed simp

lemma look_after_run:
  assumes "inv s" and "list_all op_ok ops" and "exports ops \<le> free_slots s" and "name_ok n"
  shows "\<exists>s'. env_run ops s = Some s' \<and> look n s' = Some (fold env_effect ops (view s) n)"
  using env_run_view [OF assms(1-3)] look_view assms(4) by metis

end

section \<open>The table\<close>

definition slot_ok :: "env_var \<Rightarrow> bool" where
  "slot_ok e \<longleftrightarrow> length (env_name e) = SHELL_MAX_ENV_NAME \<and> terminated (env_name e) \<and>
     length (env_value e) = SHELL_MAX_ENV_VALUE \<and> terminated (env_value e)"

definition env_ok :: "env_var list \<Rightarrow> bool" where
  "env_ok es \<longleftrightarrow> length es = SHELL_MAX_ENV_VARS \<and> list_all slot_ok es"

lemmas env_sizes = SHELL_MAX_ENV_NAME_def SHELL_MAX_ENV_VALUE_def SHELL_MAX_ENV_VARS_def

abbreviation slot_name :: "env_var \<Rightarrow> bytes" where
  "slot_name e \<equiv> cstr (env_name e)"

definition env_map :: "env_var list \<Rightarrow> bytes \<rightharpoonup> bytes" where
  "env_map es n = (if n = [] then None else map_option (\<lambda>e. cstr (env_value e)) (find (\<lambda>e. slot_name e = n) es))"

definition free_count :: "env_var list \<Rightarrow> nat" where
  "free_count es = length (filter (\<lambda>e. slot_name e = []) es)"

lemma rd_name: "slot_ok e \<Longrightarrow> rd (env_name e) 0 = Some (env_name e ! 0)"
  and name_empty: "slot_ok e \<Longrightarrow> env_name e ! 0 = 0 \<longleftrightarrow> slot_name e = []"
proof -
  assume ok: "slot_ok e"
  then have "env_name e \<noteq> []" by (auto simp: slot_ok_def env_sizes)
  then obtain c t where "env_name e = c # t" by (cases "env_name e") auto
  then show "rd (env_name e) 0 = Some (env_name e ! 0)" "env_name e ! 0 = 0 \<longleftrightarrow> slot_name e = []"
    by (auto simp: cstr_Cons)
qed

lemma env_hit_eq:
  "slot_ok e \<Longrightarrow> terminated name \<Longrightarrow> env_hit name e = Some (slot_name e \<noteq> [] \<and> slot_name e = cstr name)"
  using rd_name [of e] name_empty [of e] by (auto simp: env_hit_def str_eq_iff slot_ok_def)

lemma env_free_eq: "slot_ok e \<Longrightarrow> env_free e = Some (slot_name e = [])"
  using rd_name [of e] name_empty [of e] by (simp add: env_free_def)

lemma find_env_none:
  "list_all (\<lambda>e. test e = Some (P e)) es \<Longrightarrow> list_all (\<lambda>e. \<not> P e) es \<Longrightarrow> find_env test es i = Some None"
  by (induction es arbitrary: i) auto

lemma find_env_some:
  "list_all (\<lambda>e. test e = Some (P e)) (xs @ e # ys) \<Longrightarrow> list_all (\<lambda>e. \<not> P e) xs \<Longrightarrow> P e \<Longrightarrow>
     find_env test (xs @ e # ys) i = Some (Some (i + length xs))"
  by (induction xs arbitrary: i) auto

lemma first_slot:
  obtains "list_all (\<lambda>e. \<not> P e) es"
  | xs e ys where "es = xs @ e # ys" "list_all (\<lambda>e. \<not> P e) xs" "P e"
  using split_list_first_prop [of es P] by (auto simp: list_all_iff)

lemma find_split: "list_all (\<lambda>e. \<not> P e) xs \<Longrightarrow> find P (xs @ ys) = find P ys"
  by (induction xs) auto

lemma env_map_split:
  "list_all (\<lambda>e. slot_name e \<noteq> n) xs \<Longrightarrow> n \<noteq> [] \<Longrightarrow>
     env_map (xs @ e # ys) n = (if slot_name e = n then Some (cstr (env_value e)) else env_map ys n)"
  by (simp add: env_map_def find_split)

lemma env_map_append:
  "env_map (xs @ ys) n = (case env_map xs n of None \<Rightarrow> env_map ys n | Some v \<Rightarrow> Some v)"
  by (induction xs) (auto simp: env_map_def)

lemma env_map_Cons:
  "env_map (e # ys) n = (if n \<noteq> [] \<and> slot_name e = n then Some (cstr (env_value e)) else env_map ys n)"
  by (simp add: env_map_def)

lemma env_map_Nil: "env_map [] n = None"
  by (simp add: env_map_def)

lemma env_map_none: "list_all (\<lambda>e. slot_name e \<noteq> n) xs \<Longrightarrow> env_map xs n = None"
  by (induction xs) (auto simp: env_map_def)

lemma env_ok_slots: "env_ok es \<Longrightarrow> list_all slot_ok es"
  by (simp add: env_ok_def)

lemma env_hits:
  "env_ok es \<Longrightarrow> terminated name \<Longrightarrow> list_all (\<lambda>e. env_hit name e = Some (slot_name e \<noteq> [] \<and> slot_name e = cstr name)) es"
  using env_hit_eq by (auto simp: env_ok_def list_all_iff)

section \<open>Lookup\<close>

lemma get_env_var_eq:
  assumes ok: "env_ok es" and n: "terminated name"
  obtains r where "get_env_var name es = Some r" and "map_option cstr r = env_map es (cstr name)"
    and "\<And>v. r = Some v \<Longrightarrow> terminated v \<and> length v = SHELL_MAX_ENV_VALUE"
proof (cases rule: first_slot [of "\<lambda>e. slot_name e \<noteq> [] \<and> slot_name e = cstr name" es])
  case 1
  from find_env_none [OF env_hits [OF ok n] 1] have "get_env_var name es = Some None"
    by (simp add: get_env_var_def)
  moreover have "env_map es (cstr name) = None"
    using 1 by (auto simp: env_map_def list_all_iff find_None_iff)
  ultimately show ?thesis using that by simp
next
  case (2 xs e ys)
  have "get_env_var name es = Some (Some (env_value e))"
    using find_env_some [of "env_hit name" _ xs e ys 0, OF env_hits [OF ok n, unfolded 2(1)] 2(2,3)]
    by (simp add: get_env_var_def 2(1))
  moreover have "env_map es (cstr name) = Some (cstr (env_value e))"
    unfolding 2(1) using 2(2,3) by (subst env_map_split) (auto simp: list_all_iff)
  moreover have "slot_ok e" using ok by (simp add: env_ok_def 2(1))
  ultimately show ?thesis using that by (auto simp: slot_ok_def)
qed

section \<open>Assignment\<close>

lemma env_ok_replace:
  assumes "env_ok (xs @ e # ys)" and "slot_ok e'"
  shows "env_ok (xs @ e' # ys)"
  using assms by (simp add: env_ok_def)

lemma set_existing:
  assumes ok: "env_ok es" and n: "terminated name" and v: "terminated value" and hit: "cstr name \<in> dom (env_map es)"
  obtains es' where "set_env_var name value es = Some (True, es')" and "env_ok es'"
    and "env_map es' = (env_map es)(cstr name \<mapsto> take (SHELL_MAX_ENV_VALUE - 1) (cstr value))"
    and "free_count es' = free_count es"
proof (cases rule: first_slot [of "\<lambda>e. slot_name e \<noteq> [] \<and> slot_name e = cstr name" es])
  case 1
  then have "env_map es (cstr name) = None" by (auto simp: env_map_def list_all_iff find_None_iff)
  with hit show ?thesis by auto
next
  case (2 xs e ys)
  have e: "slot_ok e" using ok by (simp add: env_ok_def 2(1))
  then have "env_value e \<noteq> []" by (auto simp: slot_ok_def)
  then obtain v' where v': "copy_name (env_value e) value = Some v'" "length v' = SHELL_MAX_ENV_VALUE" "terminated v'"
    "cstr v' = take (SHELL_MAX_ENV_VALUE - 1) (cstr value)"
    using copy_name_eq [OF v, of "env_value e"] e unfolding slot_ok_def by metis
  let ?es = "xs @ e\<lparr>env_value := v'\<rparr> # ys"
  have "find_env (env_hit name) es 0 = Some (Some (length xs))"
    using find_env_some [of "env_hit name" _ xs e ys 0, OF env_hits [OF ok n, unfolded 2(1)] 2(2,3)] by (simp add: 2(1))
  then have "set_env_var name value es = Some (True, ?es)"
    using v' by (simp add: set_env_var_def 2(1) wr_def rd_def)
  moreover have "env_ok ?es" using env_ok_replace [OF ok [unfolded 2(1)]] e v' by (simp add: slot_ok_def)
  moreover have "env_map ?es = (env_map es)(cstr name \<mapsto> take (SHELL_MAX_ENV_VALUE - 1) (cstr value))"
  proof
    fix m
    have "env_map xs (cstr name) = None" using 2(2,3) by (intro env_map_none) (auto simp: list_all_iff)
    then show "env_map ?es m = ((env_map es)(cstr name \<mapsto> take (SHELL_MAX_ENV_VALUE - 1) (cstr value))) m"
      using 2(3) v'(4) by (auto simp: 2(1) env_map_append env_map_Cons split: option.splits)
  qed
  moreover have "free_count ?es = free_count es" by (simp add: free_count_def 2(1))
  ultimately show ?thesis using that by blast
qed

text \<open>A new name goes to the first free slot, cut to 31 bytes.\<close>

lemma set_new:
  assumes ok: "env_ok es" and n: "terminated name" and v: "terminated value"
    and miss: "cstr name \<notin> dom (env_map es)"
  shows "free_count es = 0 \<Longrightarrow> set_env_var name value es = Some (False, es)"
    and "0 < free_count es \<Longrightarrow> \<exists>xs e ys e'. es = xs @ e # ys \<and> slot_name e = [] \<and> list_all (\<lambda>e. slot_name e \<noteq> []) xs \<and>
      set_env_var name value es = Some (True, xs @ e' # ys) \<and> slot_ok e' \<and>
      slot_name e' = take (SHELL_MAX_ENV_NAME - 1) (cstr name) \<and>
      cstr (env_value e') = take (SHELL_MAX_ENV_VALUE - 1) (cstr value)"
proof -
  have "list_all (\<lambda>e. \<not> (slot_name e \<noteq> [] \<and> slot_name e = cstr name)) es"
    using miss by (auto simp: env_map_def dom_def list_all_iff find_None_iff split: if_splits)
  then have none: "find_env (env_hit name) es 0 = Some None" by (rule find_env_none [OF env_hits [OF ok n]])
  have fr: "list_all (\<lambda>e. env_free e = Some (slot_name e = [])) es"
    using env_ok_slots [OF ok] env_free_eq by (auto simp: list_all_iff)
  { assume "free_count es = 0"
    then have "list_all (\<lambda>e. \<not> slot_name e = []) es"
      by (auto simp: free_count_def filter_empty_conv list_all_iff)
    from find_env_none [OF fr this] none show "set_env_var name value es = Some (False, es)"
      by (simp add: set_env_var_def) }
  { assume "0 < free_count es"
    then have "\<not> list_all (\<lambda>e. \<not> slot_name e = []) es" by (auto simp: free_count_def filter_empty_conv list_all_iff)
    then obtain xs e ys where sp: "es = xs @ e # ys" "list_all (\<lambda>e. \<not> slot_name e = []) xs" "slot_name e = []"
      using first_slot [of "\<lambda>e. slot_name e = []" es] by metis
    have e: "slot_ok e" using ok by (simp add: env_ok_def sp(1))
    then have ne: "env_name e \<noteq> []" "env_value e \<noteq> []" by (auto simp: slot_ok_def)
    obtain n' where n': "copy_name (env_name e) name = Some n'" "length n' = SHELL_MAX_ENV_NAME" "terminated n'"
      "cstr n' = take (SHELL_MAX_ENV_NAME - 1) (cstr name)"
      using copy_name_eq [OF n ne(1)] e unfolding slot_ok_def by metis
    obtain v' where v': "copy_name (env_value e) value = Some v'" "length v' = SHELL_MAX_ENV_VALUE" "terminated v'"
      "cstr v' = take (SHELL_MAX_ENV_VALUE - 1) (cstr value)"
      using copy_name_eq [OF v ne(2)] e unfolding slot_ok_def by metis
    have "find_env env_free es 0 = Some (Some (length xs))"
      using find_env_some [of env_free _ xs e ys 0, OF fr [unfolded sp(1)] sp(2,3)] by (simp add: sp(1))
    then have "set_env_var name value es = Some (True, xs @ \<lparr>env_name = n', env_value = v'\<rparr> # ys)"
      using none n' v' by (simp add: set_env_var_def sp(1) wr_def rd_def)
    with sp n' v' show "\<exists>xs e ys e'. es = xs @ e # ys \<and> slot_name e = [] \<and> list_all (\<lambda>e. slot_name e \<noteq> []) xs \<and>
      set_env_var name value es = Some (True, xs @ e' # ys) \<and> slot_ok e' \<and>
      slot_name e' = take (SHELL_MAX_ENV_NAME - 1) (cstr name) \<and>
      cstr (env_value e') = take (SHELL_MAX_ENV_VALUE - 1) (cstr value)"
      by (intro exI [of _ xs] exI [of _ e] exI [of _ ys] exI [of _ "\<lparr>env_name = n', env_value = v'\<rparr>"])
        (simp add: slot_ok_def) }
qed

lemma set_new_short:
  assumes ok: "env_ok es" and n: "terminated name" "cstr name \<noteq> []" "length (cstr name) < SHELL_MAX_ENV_NAME"
    and v: "terminated value" and miss: "cstr name \<notin> dom (env_map es)" and room: "0 < free_count es"
  obtains es' where "set_env_var name value es = Some (True, es')" and "env_ok es'"
    and "env_map es' = (env_map es)(cstr name \<mapsto> take (SHELL_MAX_ENV_VALUE - 1) (cstr value))"
    and "free_count es = Suc (free_count es')"
proof -
  obtain xs e ys e' where sp: "es = xs @ e # ys" "slot_name e = []" "set_env_var name value es = Some (True, xs @ e' # ys)"
    "slot_ok e'" "slot_name e' = take (SHELL_MAX_ENV_NAME - 1) (cstr name)"
    "cstr (env_value e') = take (SHELL_MAX_ENV_VALUE - 1) (cstr value)"
    using set_new(2) [OF ok n(1) v miss room] by blast
  have nm: "slot_name e' = cstr name" using sp(5) n(3) by (simp add: env_sizes)
  have "env_map xs (cstr name) = None" using miss by (auto simp: sp(1) env_map_append domIff split: option.splits)
  then have "env_map (xs @ e' # ys) = (env_map es)(cstr name \<mapsto> take (SHELL_MAX_ENV_VALUE - 1) (cstr value))"
    using sp(2,6) nm n(2) by (auto simp: sp(1) env_map_append env_map_Cons intro!: ext split: option.splits)
  moreover have "env_ok (xs @ e' # ys)" using env_ok_replace [OF ok [unfolded sp(1)] sp(4)] .
  moreover have "free_count es = Suc (free_count (xs @ e' # ys))" using sp(2) nm n(2) by (simp add: free_count_def sp(1))
  ultimately show ?thesis using that sp(3) by blast
qed

text \<open>An assignment always returns, and keeps the table well formed.\<close>

lemma set_env_var_total:
  assumes ok: "env_ok es" and n: "terminated name" and v: "terminated value"
  obtains b es' where "set_env_var name value es = Some (b, es')" and "env_ok es'"
proof (cases "cstr name \<in> dom (env_map es)")
  case True
  then show ?thesis using set_existing [OF ok n v] that by metis
next
  case miss: False
  show ?thesis
  proof (cases "free_count es = 0")
    case True
    then show ?thesis using set_new(1) [OF ok n v miss] that ok by blast
  next
    case False
    then obtain xs e ys e' where "es = xs @ e # ys" "set_env_var name value es = Some (True, xs @ e' # ys)" "slot_ok e'"
      using set_new(2) [OF ok n v miss] by blast
    then show ?thesis using that env_ok_replace ok by metis
  qed
qed

section \<open>Removal\<close>

definition cleared :: "bytes \<Rightarrow> env_var \<Rightarrow> env_var" where
  "cleared n e = (if n \<noteq> [] \<and> slot_name e = n
     then \<lparr>env_name = (env_name e)[0 := 0], env_value = (env_value e)[0 := 0]\<rparr> else e)"

lemma cleared_other: "slot_name e \<noteq> n \<Longrightarrow> cleared n e = e"
  by (simp add: cleared_def)

lemma cleared_ok: "slot_ok e \<Longrightarrow> slot_ok (cleared n e)"
  by (auto simp: cleared_def slot_ok_def env_sizes)

lemma cleared_name: "slot_ok e \<Longrightarrow> slot_name (cleared n e) = (if n \<noteq> [] \<and> slot_name e = n then [] else slot_name e)"
  by (auto simp: cleared_def slot_ok_def env_sizes cstr_update_zero)

lemma unset_env_var_eq:
  "list_all slot_ok es \<Longrightarrow> terminated name \<Longrightarrow> unset_env_var name es = Some (map (cleared (cstr name)) es)"
proof (induction es)
  case (Cons e es)
  then have e: "0 < length (env_name e)" "0 < length (env_value e)" by (auto simp: slot_ok_def env_sizes)
  show ?case
    using Cons e env_hit_eq [of e name] by (cases "slot_name e = cstr name") (auto simp: cleared_def)
qed simp

lemma unset_map:
  assumes ok: "env_ok es" and n: "terminated name"
  shows "env_map (map (cleared (cstr name)) es) = (env_map es)(cstr name := None)"
    and "env_ok (map (cleared (cstr name)) es)"
    and "free_count es \<le> free_count (map (cleared (cstr name)) es)"
proof -
  have s: "list_all slot_ok es" by (rule env_ok_slots [OF ok])
  show "env_ok (map (cleared (cstr name)) es)"
    using ok cleared_ok by (auto simp: env_ok_def list_all_iff)
  from s show "free_count es \<le> free_count (map (cleared (cstr name)) es)"
    by (induction es) (auto simp: free_count_def cleared_name)
  have "env_map (map (cleared (cstr name)) es) m = (if m = cstr name then None else env_map es m)" for m
    using s
  proof (induction es)
    case (Cons e es)
    then show ?case
      by (cases "slot_name e = cstr name") (auto simp: env_map_Cons cleared_name cleared_other)
  qed (simp add: env_map_Nil)
  then show "env_map (map (cleared (cstr name)) es) = (env_map es)(cstr name := None)" by (auto intro!: ext)
qed

section \<open>The interface holds\<close>

definition env_name_ok :: "bytes \<Rightarrow> bool" where
  "env_name_ok n \<longleftrightarrow> n \<noteq> [] \<and> 0 \<notin> set n \<and> length n < SHELL_MAX_ENV_NAME"

definition env_value_ok :: "bytes \<Rightarrow> bool" where
  "env_value_ok v \<longleftrightarrow> 0 \<notin> set v \<and> length v < SHELL_MAX_ENV_VALUE"

definition env_get :: "bytes \<Rightarrow> env_var list \<Rightarrow> bytes option option" where
  "env_get n es = map_option (map_option cstr) (get_env_var (n @ [0]) es)"

definition env_set :: "bytes \<Rightarrow> bytes \<Rightarrow> env_var list \<Rightarrow> (bool \<times> env_var list) option" where
  "env_set n v = set_env_var (n @ [0]) (v @ [0])"

definition env_unset :: "bytes \<Rightarrow> env_var list \<Rightarrow> env_var list option" where
  "env_unset n = unset_env_var (n @ [0])"

interpretation shell_env: environment env_ok env_map free_count env_name_ok env_value_ok env_get env_set env_unset
proof unfold_locales
  fix s :: "env_var list" and n v :: bytes
  assume ok: "env_ok s" and n: "env_name_ok n"
  then have nm: "terminated (n @ [0])" "cstr (n @ [0]) = n" "n \<noteq> []" "length n < SHELL_MAX_ENV_NAME"
    by (auto simp: env_name_ok_def)
  obtain r where "get_env_var (n @ [0]) s = Some r" "map_option cstr r = env_map s n"
    using get_env_var_eq [OF ok nm(1)] unfolding nm(2) by metis
  then show "env_get n s = Some (env_map s n)" by (simp add: env_get_def)
  show "\<exists>s'. env_unset n s = Some s' \<and> env_ok s' \<and> env_map s' = (env_map s)(n := None) \<and> free_count s \<le> free_count s'"
    using unset_map [OF ok nm(1)] unset_env_var_eq [OF env_ok_slots [OF ok] nm(1)]
    by (simp add: env_unset_def nm(2))
  assume v: "env_value_ok v" and room: "n \<in> dom (env_map s) \<or> 0 < free_count s"
  then have vl: "terminated (v @ [0])" "take (SHELL_MAX_ENV_VALUE - 1) (cstr (v @ [0])) = v"
    by (auto simp: env_value_ok_def env_sizes)
  show "\<exists>s'. env_set n v s = Some (True, s') \<and> env_ok s' \<and> env_map s' = (env_map s)(n \<mapsto> v) \<and>
      free_count s \<le> Suc (free_count s')"
  proof (cases "n \<in> dom (env_map s)")
    case True
    obtain s' where "set_env_var (n @ [0]) (v @ [0]) s = Some (True, s')" "env_ok s'"
      "env_map s' = (env_map s)(n \<mapsto> v)" "free_count s' = free_count s"
      using set_existing [OF ok nm(1) vl(1)] True unfolding nm(2) vl(2) by metis
    then show ?thesis by (auto simp: env_set_def)
  next
    case False
    then obtain s' where "set_env_var (n @ [0]) (v @ [0]) s = Some (True, s')" "env_ok s'"
      "env_map s' = (env_map s)(n \<mapsto> v)" "free_count s = Suc (free_count s')"
      using set_new_short [OF ok nm(1) _ _ vl(1)] nm(3,4) room unfolding nm(2) vl(2) by metis
    then show ?thesis by (auto simp: env_set_def)
  qed
qed

lemma env_boot_ok: "env_ok (replicate SHELL_MAX_ENV_VARS zero_env)"
  and env_boot_map: "env_map (replicate SHELL_MAX_ENV_VARS zero_env) = Map.empty"
  and env_boot_free: "free_count (replicate SHELL_MAX_ENV_VARS zero_env) = 32"
proof -
  have z: "slot_ok zero_env" "slot_name zero_env = []" by (simp_all add: zero_env_def slot_ok_def env_sizes)
  then show "env_ok (replicate SHELL_MAX_ENV_VARS zero_env)" by (simp add: env_ok_def list_all_iff)
  have "env_map (replicate k zero_env) n = None" for k n
  proof (cases "n = []")
    case False
    then show ?thesis by (intro env_map_none) (simp add: z list_all_iff)
  qed (simp add: env_map_def)
  then show "env_map (replicate SHELL_MAX_ENV_VARS zero_env) = Map.empty" by (intro ext)
  show "free_count (replicate SHELL_MAX_ENV_VARS zero_env) = 32"
    by (simp add: free_count_def z env_sizes)
qed

section \<open>Properties\<close>

text \<open>
  C30 The environment variables are a finite map: after any sequence of exports and unsets from the
  empty table, with names of at most 31 and values of at most 127 bytes and at most 32 exports,
  every lookup returns what the same operations give on a map.
\<close>

theorem shell_env_refines_map:
  assumes "list_all shell_env.op_ok ops" and "shell_env.exports ops \<le> 32" and "env_name_ok n"
  shows "\<exists>es. shell_env.env_run ops (replicate SHELL_MAX_ENV_VARS zero_env) = Some es \<and>
    env_get n es = Some (fold env_effect ops Map.empty n)"
  using shell_env.look_after_run [OF env_boot_ok assms(1) _ assms(3)] assms(2)
  unfolding env_boot_map env_boot_free by blast

theorem shell_env_refines_map_witness:
  "\<exists>es. shell_env.env_run [Export (str ''A'') (str ''1''), Export (str ''B'') (str ''2''), Unset (str ''A''),
       Export (str ''B'') (str ''3'')] (replicate SHELL_MAX_ENV_VARS zero_env) = Some es \<and>
     env_get (str ''B'') es = Some (Some (str ''3''))"
proof -
  let ?ops = "[Export (str ''A'') (str ''1''), Export (str ''B'') (str ''2''), Unset (str ''A''), Export (str ''B'') (str ''3'')]"
  have "list_all shell_env.op_ok ?ops" "shell_env.exports ?ops \<le> 32" "env_name_ok (str ''B'')"
    by (simp_all add: env_name_ok_def env_value_ok_def env_sizes)
  from shell_env_refines_map [OF this] show ?thesis by simp
qed

text \<open>
  A name of 32 bytes or more is stored cut to 31: the export reports success, but the variable
  is not found under its name, and every repetition of the same export uses up another slot.
\<close>

theorem shell_env_long_name_lost:
  assumes "env_ok es" and "0 \<notin> set n" and "SHELL_MAX_ENV_NAME \<le> length n" and "0 < free_count es"
    and "0 \<notin> set v"
  shows "\<exists>es'. env_set n v es = Some (True, es') \<and> env_get n es' = Some None \<and>
    free_count es = Suc (free_count es')"
proof -
  have nm: "terminated (n @ [0])" "cstr (n @ [0]) = n" "n \<noteq> []" using assms(2,3) by (auto simp: env_sizes)
  have v: "terminated (v @ [0])" by simp
  have short: "length (slot_name e) < SHELL_MAX_ENV_NAME" if "slot_ok e" for e
    using that length_cstr_less [of "env_name e"] by (simp add: slot_ok_def)
  have absent: "env_map fs n = None" if "env_ok fs" for fs
    using that short assms(3) by (intro env_map_none) (fastforce simp: env_ok_def list_all_iff)
  then have "cstr (n @ [0]) \<notin> dom (env_map es)" using assms(1) by (simp add: nm(2) domIff)
  then obtain xs e ys e' where sp: "es = xs @ e # ys" "slot_name e = []"
    "set_env_var (n @ [0]) (v @ [0]) es = Some (True, xs @ e' # ys)" "slot_ok e'"
    "slot_name e' = take (SHELL_MAX_ENV_NAME - 1) n"
    using set_new(2) [OF assms(1) nm(1) v _ assms(4)] unfolding nm(2) by blast
  have ok: "env_ok (xs @ e' # ys)" using env_ok_replace [OF assms(1) [unfolded sp(1)] sp(4)] .
  obtain r where "get_env_var (n @ [0]) (xs @ e' # ys) = Some r" "map_option cstr r = env_map (xs @ e' # ys) n"
    using get_env_var_eq [OF ok nm(1)] unfolding nm(2) by metis
  then have "env_get n (xs @ e' # ys) = Some None" using absent [OF ok] by (simp add: env_get_def)
  moreover have "slot_name e' \<noteq> []" using sp(5) nm(3) by (auto simp: env_sizes)
  then have "free_count es = Suc (free_count (xs @ e' # ys))" using sp(2) by (simp add: free_count_def sp(1))
  ultimately show ?thesis using sp(3) by (auto simp: env_set_def)
qed

theorem shell_env_long_name_lost_witness:
  "\<exists>es'. env_set (replicate 32 65) (str ''1'') (replicate SHELL_MAX_ENV_VARS zero_env) = Some (True, es') \<and>
     env_get (replicate 32 65) es' = Some None \<and> free_count es' = 31"
proof -
  have "0 \<notin> set (replicate 32 (65 :: u8))" "SHELL_MAX_ENV_NAME \<le> length (replicate 32 (65 :: u8))"
    "0 < free_count (replicate SHELL_MAX_ENV_VARS zero_env)" "0 \<notin> set (str ''1'')"
    by (simp_all add: env_sizes env_boot_free [unfolded env_sizes])
  from shell_env_long_name_lost [OF env_boot_ok this] show ?thesis
    unfolding env_boot_free by simp
qed

end
