(* ===== verification/ShellParse.thy ===== *)
theory ShellParse
  imports ShellEnv
begin

text \<open>
  The split of a command line into arguments, against a reference that works on the text alone:
  blanks, quotes, the replacement of variables, the limits on the length and the number of
  arguments; and the removal of a redirection.
\<close>

section \<open>The reference\<close>

text \<open>
  The arguments of a line; \<open>w\<close> is the argument being read and \<open>q\<close> whether a quote is open. The
  end of the line closes an argument even when it is empty, unless a quote is open: then the last
  argument is lost.
\<close>

fun split_from :: "bool \<Rightarrow> bytes \<Rightarrow> bytes \<Rightarrow> bytes list" where
  "split_from q w [] = (if q then [] else [w])"
| "split_from q w (c # cs) =
     (if c = 34 then split_from (\<not> q) w cs
      else if (c = 32 \<or> c = 9) \<and> \<not> q then (if w = [] then split_from q [] cs else w # split_from q [] cs)
      else split_from q (w @ [c]) cs)"

definition max_arg :: nat where "max_arg = SHELL_MAX_ARG_LEN - 1"

lemma max_arg_eq: "max_arg = 63"
  by (simp add: max_arg_def SHELL_MAX_ARG_LEN_def)

lemma arg_last: "SHELL_MAX_ARG_LEN - Suc 0 = max_arg"
  by (simp add: max_arg_def)

definition expand :: "(bytes \<rightharpoonup> bytes) \<Rightarrow> bytes \<Rightarrow> bytes" where
  "expand m a = (case a of [] \<Rightarrow> []
     | c # n \<Rightarrow> if c = 36 then (case m n of None \<Rightarrow> a | Some v \<Rightarrow> take max_arg v) else a)"

definition line_args :: "(bytes \<rightharpoonup> bytes) \<Rightarrow> bytes \<Rightarrow> bytes list" where
  "line_args m cs = map (\<lambda>w. expand m (take max_arg w)) (split_from False [] cs)"

section \<open>One argument\<close>

definition bufs_ok :: "bytes list \<Rightarrow> bool" where
  "bufs_ok bs \<longleftrightarrow> length bs = SHELL_MAX_ARGS \<and> list_all (\<lambda>b. length b = SHELL_MAX_ARG_LEN) bs"

lemma finish_arg_eq:
  assumes b: "length b = SHELL_MAX_ARG_LEN" and i: "idx \<le> max_arg" "take idx b = a" "0 \<notin> set a" and ok: "env_ok es"
  obtains b' where "finish_arg es idx b = Some b'" and "length b' = SHELL_MAX_ARG_LEN" and "terminated b'"
    and "cstr b' = expand (env_map es) a"
proof -
  let ?b = "b[idx := 0]"
  have lt: "idx < length b" using b i(1) by (simp add: max_arg_eq SHELL_MAX_ARG_LEN_def)
  have sp: "?b = a @ 0 # drop (Suc idx) b" using lt i(2) by (simp add: upd_conv_take_nth_drop)
  have tb: "terminated ?b" and cb: "cstr ?b = a" using i(3) by (simp_all add: sp)
  have ne: "?b \<noteq> []" using lt by auto
  have w: "wr b idx 0 = Some ?b" "rd ?b 0 = Some (?b ! 0)" using lt ne by auto
  show ?thesis
  proof (cases "a \<noteq> [] \<and> hd a = 36")
    case False
    have "?b ! 0 \<noteq> 36" using False by (cases a) (auto simp: sp)
    then have "finish_arg es idx b = Some ?b" using w by (simp add: finish_arg_def)
    moreover have "expand (env_map es) a = a" using False by (cases a) (auto simp: expand_def)
    ultimately show ?thesis using that tb cb b by simp
  next
    case True
    then obtain n where n: "a = 36 # n" by (cases a) auto
    have d: "drop 1 ?b = n @ 0 # drop (Suc idx) b" by (simp add: sp n)
    have dn: "terminated (drop 1 ?b)" "cstr (drop 1 ?b) = n" unfolding d using i(3) by (simp_all add: n)
    obtain r where r: "get_env_var (drop 1 ?b) es = Some r" "map_option cstr r = env_map es n"
      "\<And>v. r = Some v \<Longrightarrow> terminated v \<and> length v = SHELL_MAX_ENV_VALUE"
      using get_env_var_eq [OF ok dn(1)] unfolding dn(2) by blast
    have c36: "?b ! 0 = 36" by (simp add: sp n)
    have L: "length ?b = Suc max_arg" using b by (simp add: max_arg_eq SHELL_MAX_ARG_LEN_def)
    show ?thesis
    proof (cases r)
      case None
      have "finish_arg es idx b = Some (?b[max_arg := 0])"
        using w c36 r(1) None L by (simp add: finish_arg_def arg_last)
      moreover have "cstr (?b[max_arg := 0]) = a"
      proof -
        have "cstr (?b[max_arg := 0]) = a"
        proof (cases "idx = max_arg")
          case False
          then obtain k where k: "max_arg = idx + Suc k" using i(1) less_imp_Suc_add by (metis add_Suc_right le_neq_implies_less)
          have "length a = idx" using i(2) lt by auto
          then have "?b[max_arg := 0] = a @ 0 # (drop (Suc idx) b)[k := 0]"
            unfolding sp k by (simp add: list_update_append)
          then show ?thesis using i(3) by simp
        next
          case True
          then show ?thesis using cb by simp
        qed
        then show ?thesis .
      qed
      moreover have "terminated (?b[max_arg := 0])" using L by simp
      moreover have "expand (env_map es) a = a" using r(2) None by (auto simp: expand_def n)
      ultimately show ?thesis using that b by simp
    next
      case (Some v)
      let ?c = "take max_arg (cstr v) @ replicate (max_arg - length (cstr v)) 0 @ drop max_arg ?b"
      have v: "terminated v" and m: "env_map es n = Some (cstr v)" using r(2,3) Some by simp_all
      have "strncpy ?b v max_arg = Some ?c" using L by (intro strncpy_eq v) simp
      then have f: "finish_arg es idx b = wr ?c max_arg 0"
        using w c36 r(1) Some by (simp add: finish_arg_def arg_last)
      have pre: "length (take max_arg (cstr v) @ replicate (max_arg - length (cstr v)) 0) = max_arg" by simp
      have "drop max_arg ?b = [?b ! max_arg]" using L by (simp add: Cons_nth_drop_Suc [symmetric])
      then have c: "?c[max_arg := 0] = take max_arg (cstr v) @ replicate (max_arg - length (cstr v)) 0 @ [0]"
        using pre by (metis append_assoc list_update_length)
      have "length ?c = Suc max_arg" using L by simp
      then have "finish_arg es idx b = Some (?c[max_arg := 0])" using f by simp
      moreover have "cstr (?c[max_arg := 0]) = expand (env_map es) a"
        unfolding c using cstr_strncpy_field [of max_arg v "[]"] m by (simp add: expand_def n)
      ultimately show ?thesis using that L c b \<open>length ?c = Suc max_arg\<close>
        by (simp add: max_arg_eq SHELL_MAX_ARG_LEN_def)
    qed
  qed
qed

section \<open>The loop over the line\<close>

text \<open>
  The state of the loop: \<open>args\<close> are the finished arguments, \<open>w\<close> is what was read of the next one.
\<close>

definition reading :: "tokens \<Rightarrow> bytes list \<Rightarrow> bytes \<Rightarrow> bool" where
  "reading t args w \<longleftrightarrow> bufs_ok (tk_bufs t) \<and> tk_argc t = length args \<and> length args < SHELL_MAX_ARGS \<and>
     map cstr (take (length args) (tk_bufs t)) = args \<and> tk_idx t \<le> max_arg \<and>
     take (tk_idx t) (tk_bufs t ! length args) = take max_arg w \<and> length (take max_arg w) = tk_idx t \<and> 0 \<notin> set w"

definition split_done :: "tokens \<Rightarrow> bytes list \<Rightarrow> bool" where
  "split_done t args \<longleftrightarrow> bufs_ok (tk_bufs t) \<and> tk_argc t = min SHELL_MAX_ARGS (length args) \<and>
     map cstr (take (tk_argc t) (tk_bufs t)) = take SHELL_MAX_ARGS args"

lemma reading_done: "reading t args w \<Longrightarrow> split_done t args"
  by (auto simp: reading_def split_done_def)

lemma bufs_nth: "bufs_ok bs \<Longrightarrow> i < SHELL_MAX_ARGS \<Longrightarrow> rd bs i = Some (bs ! i) \<and> length (bs ! i) = SHELL_MAX_ARG_LEN"
  by (simp add: bufs_ok_def list_all_length)

lemma bufs_upd: "bufs_ok bs \<Longrightarrow> length b = SHELL_MAX_ARG_LEN \<Longrightarrow> bufs_ok (bs[i := b])"
  by (auto simp: bufs_ok_def list_all_iff dest!: set_update_subset_insert [THEN subsetD])

text \<open>A character that belongs to the argument.\<close>

lemma parse_char_add:
  assumes r: "reading t args w" and c: "c \<noteq> 34" "c \<noteq> 0" "\<not> (c = 32 \<or> c = 9) \<or> tk_quotes t"
  obtains t' where "parse_char es c t = Some t'" and "reading t' args (w @ [c])" and "tk_quotes t' = tk_quotes t"
proof (cases "tk_idx t < max_arg")
  case True
  let ?b = "(tk_bufs t ! tk_argc t)[tk_idx t := c]"
  let ?t = "t\<lparr>tk_bufs := (tk_bufs t)[tk_argc t := ?b], tk_idx := tk_idx t + 1\<rparr>"
  have ok: "bufs_ok (tk_bufs t)" "tk_argc t < SHELL_MAX_ARGS" "length args < SHELL_MAX_ARGS"
    using r by (auto simp: reading_def)
  note n = bufs_nth [OF ok(1,2)]
  have lt: "tk_idx t < length (tk_bufs t ! tk_argc t)" using True n by (simp add: max_arg_def)
  have "tk_argc t < length (tk_bufs t)" using ok by (simp add: bufs_ok_def)
  then have "parse_char es c t = Some ?t"
    using c True n lt by (auto simp: parse_char_def arg_last)
  moreover have "reading ?t args (w @ [c])"
  proof -
    have w: "length w = tk_idx t" "take (tk_idx t) (tk_bufs t ! tk_argc t) = w"
      using r True by (auto simp: reading_def min_def split: if_splits)
    then have "take (Suc (tk_idx t)) ?b = w @ [c]" using lt by (simp add: take_Suc_conv_app_nth)
    moreover have "bufs_ok ((tk_bufs t)[tk_argc t := ?b])" using ok n by (intro bufs_upd) auto
    moreover have "length (w @ [c]) \<le> max_arg" using w True by simp
    ultimately show ?thesis
      using r w c(2) \<open>tk_argc t < length (tk_bufs t)\<close> by (simp add: reading_def)
  qed
  ultimately show ?thesis using that by simp
next
  case False
  then have "parse_char es c t = Some t" using c by (auto simp: parse_char_def arg_last)
  moreover have "reading t args (w @ [c])"
  proof -
    have "max_arg \<le> length w" "tk_idx t = max_arg" using r False by (auto simp: reading_def min_def split: if_splits)
    then show ?thesis using r c(2) by (simp add: reading_def)
  qed
  ultimately show ?thesis using that by simp
qed

text \<open>The end of an argument.\<close>

lemma parse_char_close:
  assumes r: "reading t args w" and c: "c = 0 \<or> (c = 32 \<or> c = 9) \<and> w \<noteq> []" and q: "\<not> tk_quotes t" and ok: "env_ok es"
  obtains t' where "parse_char es c t = Some t'" and "tk_quotes t' = tk_quotes t"
    and "bufs_ok (tk_bufs t')" and "tk_argc t' = Suc (length args)" and "tk_idx t' = 0"
    and "map cstr (take (tk_argc t') (tk_bufs t')) = args @ [expand (env_map es) (take max_arg w)]"
proof -
  let ?b = "tk_bufs t ! tk_argc t"
  have bo: "bufs_ok (tk_bufs t)" "tk_argc t < SHELL_MAX_ARGS" using r by (auto simp: reading_def)
  note n = bufs_nth [OF bo]
  have lt: "tk_argc t < length (tk_bufs t)" using bo by (simp add: bufs_ok_def)
  have i: "tk_idx t \<le> max_arg" "take (tk_idx t) ?b = take max_arg w" "0 \<notin> set (take max_arg w)"
    using r by (auto simp: reading_def dest: in_set_takeD)
  obtain b' where b': "finish_arg es (tk_idx t) ?b = Some b'" "length b' = SHELL_MAX_ARG_LEN"
    "cstr b' = expand (env_map es) (take max_arg w)"
    using finish_arg_eq [OF _ i ok] n by metis
  have pos: "tk_idx t > 0 \<or> c = 0"
    using c r by (cases w) (auto simp: reading_def max_arg_eq)
  let ?t = "t\<lparr>tk_bufs := (tk_bufs t)[tk_argc t := b'], tk_argc := tk_argc t + 1, tk_idx := 0\<rparr>"
  have "parse_char es c t = Some ?t"
    using c q pos n b'(1) lt by (auto simp: parse_char_def)
  moreover have "bufs_ok ((tk_bufs t)[tk_argc t := b'])" by (rule bufs_upd [OF bo(1) b'(2)])
  moreover have "map cstr (take (Suc (tk_argc t)) ((tk_bufs t)[tk_argc t := b'])) = args @ [expand (env_map es) (take max_arg w)]"
    using r lt b'(3) by (simp add: take_Suc_conv_app_nth reading_def)
  ultimately show ?thesis using that r by (simp add: reading_def)
qed

text \<open>After the end of an argument the next one starts empty, if there is room for it.\<close>

lemma reading_next:
  assumes "bufs_ok (tk_bufs t)" and "tk_argc t = length args" and "tk_idx t = 0" and "length args < SHELL_MAX_ARGS"
    and "map cstr (take (tk_argc t) (tk_bufs t)) = args"
  shows "reading t args []"
  using assms by (simp add: reading_def)

lemma parse_chars_full: "\<not> tk_argc t < SHELL_MAX_ARGS \<Longrightarrow> parse_chars es cs t = Some t"
  by (cases cs) simp_all

text \<open>A quote keeps the argument.\<close>

lemma parse_char_quote:
  assumes "reading t args w"
  shows "parse_char es 34 t = Some (t\<lparr>tk_quotes := \<not> tk_quotes t\<rparr>)"
    and "reading (t\<lparr>tk_quotes := \<not> tk_quotes t\<rparr>) args w"
  using assms by (auto simp: parse_char_def reading_def)

lemma take_one: "n < m \<Longrightarrow> take (m - n) [x] = [x]"
  by (cases "m - n") auto

lemma parse_chars_split:
  assumes ok: "env_ok es"
  shows "reading t args w \<Longrightarrow> 0 \<notin> set cs \<Longrightarrow> tk_quotes t = q \<Longrightarrow>
    \<exists>t'. parse_chars es (cs @ [0]) t = Some t' \<and>
      split_done t' (args @ map (\<lambda>w. expand (env_map es) (take max_arg w)) (split_from q w cs))"
proof (induction q w cs arbitrary: t args rule: split_from.induct)
  case (1 q w)
  have room: "tk_argc t < SHELL_MAX_ARGS" using "1.prems" by (simp add: reading_def)
  show ?case
  proof (cases q)
    case True
    have i: "bufs_ok (tk_bufs t)" "tk_idx t \<le> max_arg" "tk_argc t = length args" using "1.prems" by (auto simp: reading_def)
    note n = bufs_nth [OF i(1) room]
    have lt: "tk_argc t < length (tk_bufs t)" using i(1) room by (simp add: bufs_ok_def)
    show ?thesis
    proof (cases "tk_idx t < max_arg")
      case True
      then have "tk_idx t < length (tk_bufs t ! tk_argc t)" using n by (simp add: max_arg_def)
      then have "parse_char es 0 t = Some (t\<lparr>tk_bufs := (tk_bufs t)[tk_argc t := (tk_bufs t ! tk_argc t)[tk_idx t := 0]],
          tk_idx := tk_idx t + 1\<rparr>)"
        using \<open>q\<close> "1.prems" True n lt by (simp add: parse_char_def arg_last)
      moreover have "bufs_ok ((tk_bufs t)[tk_argc t := (tk_bufs t ! tk_argc t)[tk_idx t := 0]])"
        using i(1) n by (intro bufs_upd) auto
      ultimately show ?thesis
        using room \<open>q\<close> reading_done [OF "1.prems"(1)] i(3) by (simp add: split_done_def)
    next
      case False
      then have "parse_char es 0 t = Some t" using \<open>q\<close> "1.prems" by (simp add: parse_char_def arg_last)
      then show ?thesis using room \<open>q\<close> reading_done [OF "1.prems"(1)] by simp
    qed
  next
    case False
    then have nq: "\<not> tk_quotes t" using "1.prems" by simp
    obtain t' where "parse_char es 0 t = Some t'" "bufs_ok (tk_bufs t')" "tk_argc t' = Suc (length args)"
      "map cstr (take (tk_argc t') (tk_bufs t')) = args @ [expand (env_map es) (take max_arg w)]"
      using parse_char_close [OF "1.prems"(1) _ nq ok, of 0] by auto
    then show ?thesis using False room "1.prems"(1) by (simp add: split_done_def reading_def take_one)
  qed
next
  case (2 q w c cs)
  have room: "tk_argc t < SHELL_MAX_ARGS" and z: "c \<noteq> 0" "0 \<notin> set cs" using "2.prems" by (auto simp: reading_def)
  show ?case
  proof (cases "c = 34")
    case True
    with "2.IH"(1) [OF True parse_char_quote(2) [OF "2.prems"(1)] z(2)] parse_char_quote(1) [OF "2.prems"(1), of es] room "2.prems"(3)
    show ?thesis by simp
  next
    case nq: False
    show ?thesis
    proof (cases "(c = 32 \<or> c = 9) \<and> \<not> q")
      case blank: True
      show ?thesis
      proof (cases "w = []")
        case True
        then have "tk_idx t = 0" using "2.prems"(1) by (simp add: reading_def)
        then have "parse_char es c t = Some t" using nq blank z "2.prems"(3) by (auto simp: parse_char_def)
        moreover have "reading t args []" using "2.prems"(1) True by simp
        ultimately show ?thesis using "2.IH"(2) [OF nq blank True _ z(2) "2.prems"(3)] room nq blank True by simp
      next
        case False
        let ?a = "expand (env_map es) (take max_arg w)"
        have c: "c = 0 \<or> (c = 32 \<or> c = 9) \<and> w \<noteq> []" "\<not> tk_quotes t" using blank False "2.prems"(3) by auto
        obtain t' where t': "parse_char es c t = Some t'" "tk_quotes t' = tk_quotes t" "bufs_ok (tk_bufs t')"
          "tk_argc t' = Suc (length args)" "tk_idx t' = 0" "map cstr (take (tk_argc t') (tk_bufs t')) = args @ [?a]"
          using parse_char_close [OF "2.prems"(1) c ok] by blast
        show ?thesis
        proof (cases "Suc (length args) < SHELL_MAX_ARGS")
          case True
          then have "reading t' (args @ [?a]) []" using t' by (intro reading_next) auto
          with "2.IH"(3) [OF nq blank False this z(2)] t' room nq blank False "2.prems"(3) show ?thesis by simp
        next
          case full: False
          then have "parse_chars es (cs @ [0]) t' = Some t'" using t'(4) by (intro parse_chars_full) simp
          moreover have "length args < SHELL_MAX_ARGS" using "2.prems"(1) by (simp add: reading_def)
          moreover from this full have "SHELL_MAX_ARGS - length args = 1" by simp
          ultimately show ?thesis using t' room nq blank False full by (simp add: split_done_def)
        qed
      qed
    next
      case False
      obtain t' where "parse_char es c t = Some t'" "reading t' args (w @ [c])" "tk_quotes t' = tk_quotes t"
        using parse_char_add [OF "2.prems"(1) nq z(1)] False "2.prems"(3) by metis
      with "2.IH"(4) [OF nq False _ z(2), of t'] room nq False "2.prems"(3) show ?thesis by auto
    qed
  qed
qed

lemma parse_line_eq:
  assumes ok: "env_ok es" and b: "bufs_ok bufs" and l: "0 \<notin> set cs" "take (length cs + 1) buffer = cs @ [0]"
  shows "if length (line_args (env_map es) cs) < SHELL_MAX_ARGS
    then \<exists>argv bufs'. parse_line es bufs buffer (length cs) = Some (argv, bufs') \<and>
      map cstr argv = line_args (env_map es) cs \<and> bufs_ok bufs' \<and> set argv \<subseteq> set bufs'
    else parse_line es bufs buffer (length cs) = None"
proof -
  let ?t = "\<lparr>tk_bufs = bufs, tk_argc = 0, tk_idx = 0, tk_quotes = False\<rparr>"
  have "reading ?t [] []" using b by (simp add: reading_def SHELL_MAX_ARGS_def)
  from parse_chars_split [OF ok this l(1) refl]
  obtain t' where "parse_chars es (cs @ [0]) ?t = Some t'" "split_done t' (line_args (env_map es) cs)"
    by (auto simp: line_args_def)
  then show ?thesis using l(2) by (auto simp: parse_line_def split_done_def dest: in_set_takeD)
qed

text \<open>
  C8 Splitting a line: every line of the editor is split as the reference says, quotes and
  variables included, each argument cut to 63 bytes; with eight arguments or more the closing
  \<open>NULL\<close> is stored behind the array \<open>argv\<close>.
\<close>

theorem shell_splits_line:
  assumes "env_ok es" and "bufs_ok bufs" and "0 \<notin> set cs" and "take (length cs + 1) buffer = cs @ [0]"
  shows "if length (line_args (env_map es) cs) < SHELL_MAX_ARGS
    then \<exists>argv bufs'. parse_line es bufs buffer (length cs) = Some (argv, bufs') \<and>
      map cstr argv = line_args (env_map es) cs \<and> bufs_ok bufs' \<and> set argv \<subseteq> set bufs'
    else parse_line es bufs buffer (length cs) = None"
  by (rule parse_line_eq [OF assms])

theorem shell_splits_line_witness:
  "let es = replicate SHELL_MAX_ENV_VARS zero_env; bufs = replicate SHELL_MAX_ARGS (replicate SHELL_MAX_ARG_LEN 0);
       good = str ''cp \"a b\" c ''; bad = str ''1 2 3 4 5 6 7 8''
   in (\<exists>argv bufs'. parse_line es bufs (good @ [0]) (length good) = Some (argv, bufs') \<and>
        map cstr argv = [str ''cp'', str ''a b'', str ''c'', []]) \<and>
      parse_line es bufs (bad @ [0]) (length bad) = None"
proof -
  let ?es = "replicate SHELL_MAX_ENV_VARS zero_env" and ?bufs = "replicate SHELL_MAX_ARGS (replicate SHELL_MAX_ARG_LEN 0)"
  let ?good = "str ''cp \"a b\" c ''" and ?bad = "str ''1 2 3 4 5 6 7 8''"
  have b: "bufs_ok ?bufs" by (simp add: bufs_ok_def list_all_iff)
  have g: "0 \<notin> set ?good" "take (length ?good + 1) (?good @ [0]) = ?good @ [0]" by simp_all
  have "line_args (env_map ?es) ?good = [str ''cp'', str ''a b'', str ''c'', []]"
    unfolding env_boot_map by (simp add: line_args_def max_arg_eq expand_def)
  then have "\<exists>argv bufs'. parse_line ?es ?bufs (?good @ [0]) (length ?good) = Some (argv, bufs') \<and>
      map cstr argv = [str ''cp'', str ''a b'', str ''c'', []]"
    using shell_splits_line [OF env_boot_ok b g] by (auto simp: SHELL_MAX_ARGS_def)
  moreover have w: "0 \<notin> set ?bad" "take (length ?bad + 1) (?bad @ [0]) = ?bad @ [0]" by simp_all
  have "length (line_args (env_map ?es) ?bad) = 8"
    unfolding env_boot_map by (simp add: line_args_def)
  then have "parse_line ?es ?bufs (?bad @ [0]) (length ?bad) = None"
    using shell_splits_line [OF env_boot_ok b w] by (simp add: SHELL_MAX_ARGS_def)
  ultimately show ?thesis by (simp only: Let_def)
qed

end
