(* ===== verification/ShellRun.thy ===== *)
theory ShellRun
  imports ShellParse
begin

text \<open>
  The shell at work: the line editor against a reference editor, the state every command keeps
  well formed, and that a session of built-in commands returns.
\<close>

section \<open>Output\<close>

definition say :: "bytes \<Rightarrow> shell \<Rightarrow> shell" where
  "say bs s = s\<lparr>sh_kernel := terminal_write bs (sh_kernel s)\<rparr>"

lemma flanterm_write_say: "ft_ctx (sh_kernel s) \<Longrightarrow> flanterm_write bs s = Some (say bs s)"
  by (simp add: flanterm_write_def say_def)

lemma say_fields [simp]:
  "ft_ctx (sh_kernel (say bs s)) = ft_ctx (sh_kernel s)" "env_vars (say bs s) = env_vars s"
  "shell_exit_requested (say bs s) = shell_exit_requested s" "current_user (say bs s) = current_user s"
  "arg_bufs (say bs s) = arg_bufs s" "sh_gui (say bs s) = sh_gui s" "sh_mouse (say bs s) = sh_mouse s"
  "sh_ports (say bs s) = sh_ports s" "k_fs (sh_kernel (say bs s)) = k_fs (sh_kernel s)"
  "k_keys (sh_kernel (say bs s)) = k_keys (sh_kernel s)" "k_scancodes (sh_kernel (say bs s)) = k_scancodes (sh_kernel s)"
  "k_vm (sh_kernel (say bs s)) = k_vm (sh_kernel s)"
  by (simp_all add: say_def terminal_write_def)

lemma terminal_say: "ft_ctx (sh_kernel s) \<Longrightarrow> terminal (sh_kernel (say bs s)) = terminal (sh_kernel s) @ bs"
  by (simp add: say_def terminal_write_def)

lemma say_say [simp]: "say a (say b s) = say (b @ a) s"
  by (simp add: say_def terminal_write_def)

lemma say_Nil [simp]: "say [] s = s"
  by (simp add: say_def terminal_write_def)

lemma shell_print_eq: "ft_ctx (sh_kernel s) \<Longrightarrow> terminated m \<Longrightarrow> shell_print m s = Some (say (cstr m) s)"
  by (simp add: shell_print_def strlen_eq flanterm_write_say take_length_cstr)

lemma shell_prints_eq:
  "ft_ctx (sh_kernel s) \<Longrightarrow> list_all terminated mss \<Longrightarrow> shell_prints mss s = Some (say (concat (map cstr mss)) s)"
  by (induction mss arbitrary: s) (simp_all add: shell_print_eq)

lemma shell_print_colored_eq:
  "ft_ctx (sh_kernel s) \<Longrightarrow> terminated m \<Longrightarrow> terminated color \<Longrightarrow>
     shell_print_colored m color s = Some (say (cstr color @ cstr m @ cstr (ANSI_RESET @ [0])) s)"
  by (simp add: shell_print_colored_def shell_print_eq)

section \<open>The line editor\<close>

definition edit :: "bytes \<Rightarrow> u8 \<Rightarrow> bytes" where
  "edit l c = (if c = 8 \<or> c = 127 then butlast l else if 32 \<le> c \<and> c < 127 then l @ [c] else l)"

definition echo :: "bytes \<Rightarrow> u8 \<Rightarrow> bytes" where
  "echo l c = (if c = 8 \<or> c = 127 then (if l = [] then [] else [8, 32, 8])
     else if 32 \<le> c \<and> c < 127 then [c] else [])"

fun echoes :: "bytes \<Rightarrow> bytes \<Rightarrow> bytes" where
  "echoes l [] = []"
| "echoes l (c # cs) = echo l c @ echoes (edit l c) cs"

definition in_buffer :: "bytes \<Rightarrow> bytes" where
  "in_buffer l = l @ replicate (SHELL_BUFSZ - length l) 0"

lemma length_edit: "length (edit l c) \<le> Suc (length l)"
  by (cases l rule: rev_cases) (simp_all add: edit_def)

lemma butlast_buffer: "l \<noteq> [] \<Longrightarrow> length l \<le> SHELL_BUFSZ \<Longrightarrow> (in_buffer l)[length l - 1 := 0] = in_buffer (butlast l)"
proof (cases l rule: rev_cases)
  case (snoc ys y)
  assume "length l \<le> SHELL_BUFSZ"
  then have "SHELL_BUFSZ - length ys = Suc (SHELL_BUFSZ - Suc (length ys))" using snoc by simp
  then show ?thesis using snoc by (simp add: in_buffer_def)
qed simp

lemma append_buffer: "length l < SHELL_BUFSZ \<Longrightarrow> (in_buffer l)[length l := c] = in_buffer (l @ [c])"
  by (simp add: in_buffer_def list_update_append Suc_diff_Suc [symmetric])

lemma line_key_eq:
  assumes "ft_ctx (sh_kernel s)" and "length l < SHELL_BUFSZ - 1"
  shows "line_key c (in_buffer l) (length l) s =
    Some (in_buffer (edit l c), length (edit l c), say (echo l c) s)"
proof -
  have len: "length (in_buffer l) = SHELL_BUFSZ" using assms(2) by (simp add: in_buffer_def)
  show ?thesis
    using assms len butlast_buffer [of l] append_buffer [of l c]
    by (auto simp: line_key_def edit_def echo_def flanterm_write_say)
qed

lemma set_keys_fields [simp]:
  "ft_ctx (sh_kernel (set_keys r ks s)) = ft_ctx (sh_kernel s)" "k_keys (sh_kernel (set_keys r ks s)) = ks"
  "k_scancodes (sh_kernel (set_keys r ks s)) = r" "set_keys r ks (set_keys r' ks' s) = set_keys r ks s"
  "env_vars (set_keys r ks s) = env_vars s" "shell_exit_requested (set_keys r ks s) = shell_exit_requested s"
  "current_user (set_keys r ks s) = current_user s" "arg_bufs (set_keys r ks s) = arg_bufs s"
  "k_fs (sh_kernel (set_keys r ks s)) = k_fs (sh_kernel s)" "terminal (sh_kernel (set_keys r ks s)) = terminal (sh_kernel s)"
  by (simp_all add: set_keys_def)

lemma set_keys_say: "set_keys r ks (say bs s) = say bs (set_keys r ks s)"
  by (simp add: set_keys_def say_def terminal_write_def)

lemma read_line_eq:
  "ft_ctx (sh_kernel s) \<Longrightarrow> keyboard_feed scs (k_keys (sh_kernel s)) = Some (cs, k1) \<Longrightarrow>
   list_all (\<lambda>c. c \<noteq> 10 \<and> c \<noteq> 13) cs \<Longrightarrow> length l + length cs < SHELL_BUFSZ - 1 \<Longrightarrow>
   keyboard_handle sc k1 = Some (nl, k2) \<Longrightarrow> nl = 10 \<or> nl = 13 \<Longrightarrow>
     read_line (scs @ sc # rest) (in_buffer l) (length l) s =
       Some (in_buffer (foldl edit l cs), length (foldl edit l cs), set_keys rest k2 (say (echoes l cs @ [10]) s))"
proof (induction scs arbitrary: cs l s)
  case Nil
  then have "cs = []" "k1 = k_keys (sh_kernel s)" by simp_all
  with Nil show ?case by (auto simp: flanterm_write_say set_keys_say)
next
  case (Cons b scs)
  obtain c k' ds where h: "keyboard_handle b (k_keys (sh_kernel s)) = Some (c, k')" "keyboard_feed scs k' = Some (ds, k1)"
    "cs = (if c = 0 then ds else c # ds)"
    using Cons.prems(2) by (auto split: Option.bind_splits)
  let ?s = "set_keys (scs @ sc # rest) k' s"
  have lt: "length l < SHELL_BUFSZ - 1" using Cons.prems(4) by simp
  show ?case
  proof (cases "c = 0")
    case True
    have "read_line (scs @ sc # rest) (in_buffer l) (length l) ?s =
       Some (in_buffer (foldl edit l cs), length (foldl edit l cs), set_keys rest k2 (say (echoes l cs @ [10]) ?s))"
      using Cons.prems h True by (intro Cons.IH) simp_all
    with lt h True show ?thesis by (simp add: set_keys_say)
  next
    case False
    let ?t = "say (echo l c) ?s"
    have cs: "cs = c # ds" using h(3) False by simp
    have "read_line (scs @ sc # rest) (in_buffer (edit l c)) (length (edit l c)) ?t =
       Some (in_buffer (foldl edit (edit l c) ds), length (foldl edit (edit l c) ds),
         set_keys rest k2 (say (echoes (edit l c) ds @ [10]) ?t))"
      using Cons.prems h(2) cs length_edit [of l c] by (intro Cons.IH) (simp_all add: set_keys_say)
    moreover have "line_key c (in_buffer l) (length l) ?s = Some (in_buffer (edit l c), length (edit l c), ?t)"
      using Cons.prems(1) lt by (intro line_key_eq) simp_all
    ultimately show ?thesis using lt h(1) False Cons.prems(3) cs by (simp add: set_keys_say)
  qed
qed

section \<open>Well-formed states\<close>

definition shell_ok :: "shell \<Rightarrow> bool" where
  "shell_ok s \<longleftrightarrow> ft_ctx (sh_kernel s) \<and> env_ok (env_vars s) \<and> bufs_ok (arg_bufs s) \<and> terminated (current_user s) \<and>
     fs_inv (k_fs (sh_kernel s)) \<and> active_fs (k_fs (sh_kernel s)) \<noteq> FS_TYPE_EXT2"

text \<open>What a command keeps: the keyboard, the flag of \<open>exit\<close>, the memory and the ports.\<close>

definition machine :: "shell \<Rightarrow> vm \<times> ports" where
  "machine s = (k_vm (sh_kernel s), sh_ports s)"

lemma machine_simps [simp]:
  "machine (say bs s) = machine s" "machine (set_keys r ks s) = machine s" "machine (set_fs fs s) = machine s"
  "machine (s\<lparr>env_vars := es\<rparr>) = machine s" "machine (s\<lparr>current_user := u\<rparr>) = machine s"
  "machine (s\<lparr>shell_exit_requested := b\<rparr>) = machine s" "machine (s\<lparr>arg_bufs := bufs\<rparr>) = machine s"
  "machine (s\<lparr>env_vars := es, current_user := u\<rparr>) = machine s"
  by (simp_all add: machine_def say_def terminal_write_def set_keys_def set_fs_def)

definition shell_keeps :: "shell \<Rightarrow> shell \<Rightarrow> bool" where
  "shell_keeps s t \<longleftrightarrow> shell_ok t \<and> k_keys (sh_kernel t) = k_keys (sh_kernel s) \<and>
     k_scancodes (sh_kernel t) = k_scancodes (sh_kernel s) \<and> shell_exit_requested t = shell_exit_requested s \<and>
     machine t = machine s"

definition returns :: "(bytes list \<Rightarrow> nat \<Rightarrow> shell \<Rightarrow> shell option) \<Rightarrow> bool" where
  "returns run \<longleftrightarrow> (\<forall>argv argc s. shell_ok s \<and> list_all terminated argv \<and> argc \<le> length argv \<longrightarrow>
     (\<exists>t. run argv argc s = Some t \<and> shell_keeps s t))"

lemma shell_ok_say [simp]: "shell_ok (say bs s) = shell_ok s"
  by (simp add: shell_ok_def)

lemma keeps_say [simp]: "shell_keeps s (say bs s) = shell_ok s"
  by (simp add: shell_keeps_def)

lemma shell_keeps_refl: "shell_ok s \<Longrightarrow> shell_keeps s s"
  by (simp add: shell_keeps_def)

lemma ok_ctx: "shell_ok s \<Longrightarrow> ft_ctx (sh_kernel s)"
  by (simp add: shell_ok_def)

lemma for_each_says:
  assumes "\<And>x t. x \<in> set xs \<Longrightarrow> ft_ctx (sh_kernel t) \<Longrightarrow> P t \<Longrightarrow> \<exists>bs. f x t = Some (say bs t)"
    and "\<And>bs t. P (say bs t) = P t" and "ft_ctx (sh_kernel s)" and "P s"
  shows "\<exists>bs. for_each f xs s = Some (say bs s)"
  using assms
proof (induction xs arbitrary: s)
  case Nil
  show ?case using say_Nil [of s] by (intro exI [of _ "[]"]) simp
next
  case (Cons x xs)
  obtain b where b: "f x s = Some (say b s)" using Cons.prems(1) [of x s] Cons.prems(3,4) by auto
  have "\<exists>bs. for_each f xs (say b s) = Some (say bs (say b s))"
    using Cons.prems by (intro Cons.IH) auto
  with b show ?case by auto
qed

subsection \<open>The commands that print\<close>

lemma returns_message:
  assumes "terminated m" and "shell_ok s"
  shows "\<exists>t. shell_print m s = Some t \<and> shell_keeps s t"
  using shell_print_eq [OF ok_ctx [OF assms(2)] assms(1)] assms(2) by simp

lemma returns_messages:
  assumes "list_all terminated m" and "shell_ok s"
  shows "\<exists>t. shell_prints m s = Some t \<and> shell_keeps s t"
  using shell_prints_eq [OF ok_ctx [OF assms(2)] assms(1)] assms(2) by simp

lemma returns_help: "returns (\<lambda>argv argc. shell_help)"
  unfolding returns_def
proof (intro allI impI)
  fix argv :: "bytes list" and argc :: nat and s
  assume s: "shell_ok s \<and> list_all terminated argv \<and> argc \<le> length argv"
  have "\<exists>bs. shell_help s = Some (say bs s)"
    unfolding shell_help_def
    by (rule for_each_says [where P = "\<lambda>_. True"]) (use s ok_ctx in \<open>auto simp: shell_print_colored_eq\<close>)
  with s show "\<exists>t. shell_help s = Some t \<and> shell_keeps s t" by auto
qed

lemma returns_clear: "returns (\<lambda>argv argc. flanterm_write bs)"
  by (auto simp: returns_def flanterm_write_say ok_ctx)

lemma cwd_terminated: "shell_ok s \<Longrightarrow> terminated (fs_get_current_dir (k_fs (sh_kernel s)))"
  by (simp add: shell_ok_def fs_inv_def dirs_ok_def fs_get_current_dir_def)

lemma returns_pwd: "returns (\<lambda>argv argc. shell_pwd)"
  unfolding returns_def shell_pwd_def
  by (intro allI impI returns_messages) (simp_all add: cwd_terminated)

lemma returns_set: "returns (\<lambda>argv argc. shell_set)"
  unfolding returns_def
proof (intro allI impI)
  fix argv :: "bytes list" and argc :: nat and s
  assume s: "shell_ok s \<and> list_all terminated argv \<and> argc \<le> length argv"
  have "\<exists>bs. shell_set s = Some (say bs s)"
    unfolding shell_set_def
  proof (rule for_each_says [where P = "\<lambda>_. True"])
    fix e and t :: shell
    assume "e \<in> set (env_vars s)" and t: "ft_ctx (sh_kernel t)"
    then have e: "slot_ok e" using s by (auto simp: shell_ok_def env_ok_def list_all_iff)
    then have m: "list_all terminated [env_name e, lit ''='', env_value e, [10, 0]]"
      by (simp add: slot_ok_def lit_def)
    show "\<exists>bs. Option.bind (rd (env_name e) 0)
        (\<lambda>c. if c = 0 then Some t else shell_prints [env_name e, lit ''='', env_value e, [10, 0]] t) = Some (say bs t)"
      using rd_name [OF e] shell_prints_eq [OF t m] say_Nil [of t]
      by (cases "env_name e ! 0 = 0") (auto simp del: shell_prints.simps intro: exI [of _ "[]"])
  qed (use s ok_ctx in auto)
  with s show "\<exists>t. shell_set s = Some t \<and> shell_keeps s t" by auto
qed

subsection \<open>The commands on the file system\<close>

lemma set_fs_fields [simp]:
  "ft_ctx (sh_kernel (set_fs fs s)) = ft_ctx (sh_kernel s)" "env_vars (set_fs fs s) = env_vars s"
  "shell_exit_requested (set_fs fs s) = shell_exit_requested s" "current_user (set_fs fs s) = current_user s"
  "arg_bufs (set_fs fs s) = arg_bufs s" "k_fs (sh_kernel (set_fs fs s)) = fs"
  "k_keys (sh_kernel (set_fs fs s)) = k_keys (sh_kernel s)" "k_scancodes (sh_kernel (set_fs fs s)) = k_scancodes (sh_kernel s)"
  by (simp_all add: set_fs_def)

lemma keeps_set_fs: "shell_ok s \<Longrightarrow> fs_inv fs \<Longrightarrow> active_fs fs \<noteq> FS_TYPE_EXT2 \<Longrightarrow> shell_keeps s (set_fs fs s)"
  by (simp add: shell_keeps_def shell_ok_def)

lemma shell_keeps_trans: "shell_keeps s t \<Longrightarrow> shell_keeps t u \<Longrightarrow> shell_keeps s u"
  by (simp add: shell_keeps_def)

lemma keeps_ok: "shell_keeps s t \<Longrightarrow> shell_ok t"
  by (simp add: shell_keeps_def)

lemma fs_change_dir_total:
  assumes "fs_inv fs" and "active_fs fs \<noteq> FS_TYPE_EXT2" and "terminated p"
  obtains b fs' where "fs_change_dir p fs = Some (b, fs')" and "fs_inv fs'" and "active_fs fs' \<noteq> FS_TYPE_EXT2"
proof -
  have ok: "dirs_ok fs" "table_ok fs" using assms(1) by (simp_all add: fs_inv_def)
  consider "cstr p = []" | "cstr p = [47]" | "cstr p \<noteq> []" "cstr p \<noteq> [47]" by blast
  then show ?thesis
  proof cases
    case 1
    then obtain q where "p = 0 # q" using assms(3) by (cases p) (auto simp: cstr_Cons split: if_splits)
    then have "fs_change_dir p fs = Some (False, fs)" by (simp add: fs_change_dir_def)
    then show ?thesis using that assms by blast
  next
    case 2
    then have c: "rd p 0 = Some 47" by (cases p) (auto simp: cstr_Cons split: if_splits)
    have root: "str_eq p (lit ''/'') = Some True" using str_eq_iff [OF assms(3) slash_lit(1)] slash_lit(2) 2 by simp
    have "length (cstr (lit ''/'')) < length (current_dir fs)" using ok by (simp add: slash_lit(2) dirs_ok_def fs_consts)
    from strcpy_eq [OF slash_lit(1) this] obtain d where d: "strcpy (current_dir fs) (lit ''/'') = Some d"
      "d = [47] @ 0 # drop (Suc (Suc 0)) (current_dir fs)" by (simp add: slash_lit(2))
    then have "fs_inv (fs\<lparr>current_dir := d\<rparr>)"
      using ok by (simp add: fs_inv_def dirs_ok_def fs_consts)
    moreover have "fs_change_dir p fs = Some (True, fs\<lparr>current_dir := d\<rparr>)"
      using c root d(1) by (simp add: fs_change_dir_def)
    ultimately show ?thesis using that assms(2) by simp
  next
    case 3
    note e = fs_change_dir_eq [OF ok(1) assms(2,3) 3]
    show ?thesis
    proof (cases "find (dir_matches (cstr p)) (take (dir_count fs) (fs_dirs fs))")
      case None
      then show ?thesis using e that assms(1,2) by blast
    next
      case (Some d)
      then obtain c where "fs_change_dir p fs = Some (True, fs\<lparr>current_dir := c\<rparr>)" "dirs_ok (fs\<lparr>current_dir := c\<rparr>)"
        using e by blast
      then show ?thesis using that ok(2) assms(2) by (simp add: fs_inv_def)
    qed
  qed
qed

lemma returns_cd: "returns shell_cd"
  unfolding returns_def
proof (intro allI impI)
  fix argv :: "bytes list" and argc :: nat and s
  assume s: "shell_ok s \<and> list_all terminated argv \<and> argc \<le> length argv"
  define p where "p = (if argc < 2 then lit ''/'' else argv ! 1)"
  have p: "terminated p" using s slash_lit(1) by (simp add: p_def list_all_length)
  have rp: "\<not> argc < 2 \<Longrightarrow> rd argv 1 = Some p" using s by (simp add: p_def)
  obtain b fs where fs: "fs_change_dir p (k_fs (sh_kernel s)) = Some (b, fs)" "fs_inv fs" "active_fs fs \<noteq> FS_TYPE_EXT2"
    using fs_change_dir_total [OF _ _ p, of "k_fs (sh_kernel s)"] s by (auto simp: shell_ok_def)
  have k: "shell_keeps s (set_fs fs s)" using s fs by (intro keeps_set_fs) auto
  have m1: "terminated (error_prefix @ str ''Could not change to root directory'' @ [10, 0])" by simp
  obtain t1 where t1: "shell_print (error_prefix @ str ''Could not change to root directory'' @ [10, 0]) (set_fs fs s) = Some t1"
    "shell_keeps s t1" using returns_message [OF m1 keeps_ok [OF k]] k shell_keeps_trans by blast
  have m2: "list_all terminated [error_prefix @ lit ''Could not change directory to '', p, [10, 0]]" using p by (simp add: lit_def)
  obtain t2 where t2: "shell_prints [error_prefix @ lit ''Could not change directory to '', p, [10, 0]] (set_fs fs s) = Some t2"
    "shell_keeps s t2" using returns_messages [OF m2 keeps_ok [OF k]] k shell_keeps_trans by blast
  show "\<exists>t. shell_cd argv argc s = Some t \<and> shell_keeps s t"
    using fs(1) k t1 t2 rp by (cases "argc < 2"; cases b) (auto simp: shell_cd_def p_def simp del: shell_prints.simps)
qed

lemma returns_ls: "returns (\<lambda>argv argc. shell_ls)"
  unfolding returns_def
proof (intro allI impI)
  fix argv :: "bytes list" and argc :: nat and s
  assume s: "shell_ok s \<and> list_all terminated argv \<and> argc \<le> length argv"
  let ?fs = "k_fs (sh_kernel s)"
  have t: "table_ok ?fs" "active_fs ?fs \<noteq> FS_TYPE_EXT2" using s by (simp_all add: shell_ok_def fs_inv_def)
  let ?f = "\<lambda>i s. do {
         fs \<leftarrow> Some (fs_files ?fs);
         f \<leftarrow> rd fs i;
         s1 \<leftarrow> shell_print (ff_name f) s;
         s2 \<leftarrow> (if ff_is_dir f then shell_print (lit ''/'') s1 else Some s1);
         shell_print (lit ''  '') s2 }"
  have id: "set_fs ?fs s = s" by (simp add: set_fs_def)
  have "\<exists>bs. for_each ?f [0..<file_count ?fs] s = Some (say bs s)"
  proof (rule for_each_says [where P = "\<lambda>_. True"])
    fix i and u :: shell
    assume "i \<in> set [0..<file_count ?fs]" and u: "ft_ctx (sh_kernel u)"
    then have i: "i < file_count ?fs" by simp
    then have "rd (fs_files ?fs) i = Some (fs_files ?fs ! i)" "terminated (ff_name (fs_files ?fs ! i))"
      using t(1) name_bound(1) [OF t(1) i] by (simp_all add: table_ok_def)
    moreover have "terminated (lit x)" for x by (simp add: lit_def)
    ultimately show "\<exists>bs. ?f i u = Some (say bs u)"
      using u by (auto simp: shell_print_eq)
  qed (use s ok_ctx in auto)
  then obtain bs where bs: "for_each ?f [0..<file_count ?fs] s = Some (say bs s)" ..
  have "shell_ls s = shell_print [10, 0] (say bs s)"
    using bs t(2) by (simp add: shell_ls_def fs_list_def id)
  then show "\<exists>t. shell_ls s = Some t \<and> shell_keeps s t"
    using s ok_ctx by (simp add: shell_print_eq)
qed

lemma file_ok_mode: "file_ok u (f\<lparr>ff_mode := m\<rparr>) = file_ok u f"
  by (simp add: file_ok_def split: data_ptr.split)

lemma fs_chmod_total:
  assumes "fs_inv fs" and "active_fs fs \<noteq> FS_TYPE_EXT2" and "terminated name"
  obtains b fs' where "fs_chmod name mode fs = Some (b, fs')" and "fs_inv fs'" and "active_fs fs' \<noteq> FS_TYPE_EXT2"
proof (cases "cstr name = []")
  case True
  then obtain q where "name = 0 # q" using assms(3) by (cases name) (auto simp: cstr_Cons split: if_splits)
  then have "fs_chmod name mode fs = Some (False, fs)" by (simp add: fs_chmod_def fs_open_def)
  then show ?thesis using that assms by blast
next
  case False
  have ok: "table_ok fs" "dirs_ok fs" using assms(1) by (simp_all add: fs_inv_def)
  note o = fs_open_eq [OF ok(1) assms(2,3) False]
  show ?thesis
  proof (cases "lookup_file fs (cstr name)")
    case None
    then have "fs_chmod name mode fs = Some (False, fs)" using o by (simp add: fs_chmod_def)
    then show ?thesis using that assms by blast
  next
    case (Some i)
    then have i: "i < file_count fs" using lookup_file_Some by blast
    then have len: "i < length (fs_files fs)" using ok(1) by (simp add: table_ok_def)
    let ?f = "fs_files fs ! i"
    let ?f' = "?f\<lparr>ff_mode := mode\<rparr>"
    let ?s = "fs\<lparr>fs_files := (fs_files fs)[i := ?f'], mem_pool := mem_pool fs, mem_used := mem_used fs\<rparr>"
    have "table_ok ?s"
    proof (rule table_ok_update [OF ok(1) i])
      show "file_ok (mem_used fs) ?f'" using ok(1) i by (simp add: table_ok_def file_ok_mode)
      show "length (ff_name ?f') = NAME_SIZE" using ok(1) len by (simp add: table_ok_def)
      show "mem_used fs \<le> POOL_SIZE" using ok(1) by (simp add: table_ok_def)
      show "apart ?f' (fs_files fs ! j)" if "j < file_count fs" "j \<noteq> i" for j
        using ok(1) i that by (simp add: table_ok_def apart_def)
    qed simp
    moreover have "dirs_ok ?s" using ok(2) by (simp add: dirs_ok_def)
    moreover have "fs_chmod name mode fs = Some (True, ?s)"
      using o Some len by (simp add: fs_chmod_def file_at_def set_file_def)
    ultimately show ?thesis using that assms(2) by (simp add: fs_inv_def)
  qed
qed

lemma parse_octal_total: "terminated m \<Longrightarrow> \<exists>v'. parse_octal m v = Some v'"
  by (induction m v rule: parse_octal.induct) auto

lemma returns_chmod: "returns shell_chmod"
  unfolding returns_def
proof (intro allI impI)
  fix argv :: "bytes list" and argc :: nat and s
  assume s: "shell_ok s \<and> list_all terminated argv \<and> argc \<le> length argv"
  show "\<exists>t. shell_chmod argv argc s = Some t \<and> shell_keeps s t"
  proof (cases "argc < 3")
    case True
    then show ?thesis using s returns_message [of "str ''Usage: chmod <mode> <file>'' @ [10, 0]" s]
      by (simp add: shell_chmod_def)
  next
    case False
    then have a: "rd argv 1 = Some (argv ! 1)" "rd argv 2 = Some (argv ! 2)" "terminated (argv ! 1)" "terminated (argv ! 2)"
      using s by (auto simp: list_all_length)
    obtain mode where m: "parse_octal (argv ! 1) 0 = Some mode" using parse_octal_total [OF a(3)] by blast
    obtain b fs where fs: "fs_chmod (argv ! 2) mode (k_fs (sh_kernel s)) = Some (b, fs)" "fs_inv fs" "active_fs fs \<noteq> FS_TYPE_EXT2"
      using fs_chmod_total [OF _ _ a(4)] s unfolding shell_ok_def by metis
    have k: "shell_keeps s (set_fs fs s)" using s fs by (intro keeps_set_fs) auto
    have m1: "terminated (str ''chmod: failed to change mode'' @ [10, 0])" by simp
    obtain t where "shell_print (str ''chmod: failed to change mode'' @ [10, 0]) (set_fs fs s) = Some t" "shell_keeps s t"
      using returns_message [OF m1 keeps_ok [OF k]] k shell_keeps_trans by blast
    then show ?thesis using False a m fs(1) k by (cases b) (auto simp: shell_chmod_def)
  qed
qed

subsection \<open>The commands on the environment\<close>

lemma put_env_total:
  assumes "shell_ok s" and "terminated name" and "terminated value"
  shows "\<exists>t. put_env name value s = Some t \<and> shell_keeps s t"
proof -
  have "env_ok (env_vars s)" using assms(1) by (simp add: shell_ok_def)
  then obtain b es where "set_env_var name value (env_vars s) = Some (b, es)" "env_ok es"
    using set_env_var_total assms(2,3) by metis
  then show ?thesis using assms(1) by (simp add: put_env_def shell_keeps_def shell_ok_def)
qed

lemma returns_export: "returns shell_export"
  unfolding returns_def
proof (intro allI impI)
  fix argv :: "bytes list" and argc :: nat and s
  assume s: "shell_ok s \<and> list_all terminated argv \<and> argc \<le> length argv"
  show "\<exists>t. shell_export argv argc s = Some t \<and> shell_keeps s t"
  proof (cases "argc < 3")
    case True
    then show ?thesis using s returns_message [of "str ''Usage: export <name> <value>'' @ [10, 0]" s]
      by (simp add: shell_export_def)
  next
    case False
    then show ?thesis using s put_env_total [of s "argv ! 1" "argv ! 2"] by (simp add: shell_export_def list_all_length)
  qed
qed

lemma returns_unset: "returns shell_unset"
  unfolding returns_def
proof (intro allI impI)
  fix argv :: "bytes list" and argc :: nat and s
  assume s: "shell_ok s \<and> list_all terminated argv \<and> argc \<le> length argv"
  show "\<exists>t. shell_unset argv argc s = Some t \<and> shell_keeps s t"
  proof (cases "argc < 2")
    case True
    then show ?thesis using s returns_message [of "str ''Usage: unset <name>'' @ [10, 0]" s]
      by (simp add: shell_unset_def)
  next
    case False
    then have n: "rd argv 1 = Some (argv ! 1)" "terminated (argv ! 1)" using s by (auto simp: list_all_length)
    have e: "env_ok (env_vars s)" using s by (simp add: shell_ok_def)
    show ?thesis
      using False n unset_env_var_eq [OF env_ok_slots [OF e] n(2)] unset_map(2) [OF e n(2)] s
      by (simp add: shell_unset_def shell_keeps_def shell_ok_def)
  qed
qed

lemma shell_ok_user [simp]: "shell_ok s \<Longrightarrow> terminated u \<Longrightarrow> shell_ok (s\<lparr>current_user := u\<rparr>)"
  by (simp add: shell_ok_def)

lemma su_loop_total:
  "shell_ok s \<Longrightarrow> list_all terminated us \<Longrightarrow> terminated name \<Longrightarrow> \<exists>t. su_loop us name s = Some t \<and> shell_keeps s t"
proof (induction us)
  case Nil
  then show ?case using returns_message [of "str ''Unknown user'' @ [10, 0]" s] by simp
next
  case (Cons u us)
  have "shell_ok (s\<lparr>current_user := u\<rparr>)" using Cons.prems by simp
  then obtain t where "put_env (lit ''USER'') u (s\<lparr>current_user := u\<rparr>) = Some t" "shell_keeps (s\<lparr>current_user := u\<rparr>) t"
    using put_env_total [of "s\<lparr>current_user := u\<rparr>" "lit ''USER''" u] Cons.prems by (auto simp: lit_def)
  then show ?case using Cons str_eq_iff [of name u] by (auto simp: shell_keeps_def)
qed

lemma returns_su: "returns shell_su"
  unfolding returns_def
proof (intro allI impI)
  fix argv :: "bytes list" and argc :: nat and s
  assume s: "shell_ok s \<and> list_all terminated argv \<and> argc \<le> length argv"
  have u: "list_all terminated user_list" by (simp add: user_list_def lit_def)
  show "\<exists>t. shell_su argv argc s = Some t \<and> shell_keeps s t"
  proof (cases "argc < 2")
    case True
    then show ?thesis using s returns_message [of "str ''Usage: su <user>'' @ [10, 0]" s]
      by (simp add: shell_su_def)
  next
    case False
    then show ?thesis using s su_loop_total [OF _ u, of s "argv ! 1"] by (simp add: shell_su_def list_all_length)
  qed
qed

section \<open>Running a command\<close>

text \<open>A redirection is removed; the rest of the arguments stays in place.\<close>

lemma shift_args_total:
  assumes "argc \<le> length argv" and "list_all terminated argv"
  shows "\<exists>av. shift_args i argc argv = Some av \<and> length av = length argv \<and> list_all terminated av"
proof -
  have "\<exists>av. for_each (\<lambda>j av. do { a \<leftarrow> rd av (j + 2); wr av j a }) [i..<argc - 2] argv = Some av \<and>
      (length av = length argv \<and> list_all terminated av)"
  proof (rule for_each_invariant)
    fix ds j rest av
    assume d: "[i..<argc - 2] = ds @ j # rest" and av: "length av = length argv \<and> list_all terminated av"
    have "j \<in> set [i..<argc - 2]" unfolding d by simp
    then have "j + 2 < length av" using av assms(1) by auto
    then show "\<exists>av'. do { a \<leftarrow> rd av (j + 2); wr av j a } = Some av' \<and> (length av' = length argv \<and> list_all terminated av')"
      using av set_update_subset_insert [of av j "av ! (j + 2)"] by (auto simp: list_all_iff)
  qed (use assms(2) in simp)
  then show ?thesis by (simp add: shift_args_def)
qed

lemma redirect_total:
  "list_all terminated argv \<Longrightarrow> argc \<le> length argv \<Longrightarrow> \<forall>i \<in> set is. i + 1 < argc \<Longrightarrow>
     \<exists>av n r. redirect_from is argv argc = Some (av, n, r) \<and> list_all terminated av \<and> n \<le> length av"
proof (induction "is")
  case (Cons i "is")
  then have i: "rd argv i = Some (argv ! i)" "rd argv (i + 1) = Some (argv ! (i + 1))" "terminated (argv ! i)"
    by (auto simp: list_all_length)
  have t: "terminated (lit x)" for x by (simp add: lit_def)
  obtain av where av: "shift_args i argc argv = Some av" "length av = length argv" "list_all terminated av"
    using shift_args_total Cons.prems by blast
  have "\<exists>av n r. redirect_from is argv argc = Some (av, n, r) \<and> list_all terminated av \<and> n \<le> length av"
    using Cons by simp
  with i av Cons.prems str_eq_iff [OF i(3) t [of "''>''"]] str_eq_iff [OF i(3) t [of "''>>''"]] show ?case
    by auto
qed simp

lemma parse_redirection_total:
  assumes "list_all terminated argv"
  shows "\<exists>av n r. parse_redirection argv (length argv) = Some (av, n, r) \<and> list_all terminated av \<and> n \<le> length av"
proof -
  have "\<forall>i \<in> set [0..<length argv - 1]. i + 1 < length argv" by auto
  then show ?thesis unfolding parse_redirection_def by (intro redirect_total assms order_refl)
qed

lemma dispatch_returns:
  assumes "terminated cmd" and "0 \<notin> set (cstr cmd)"
  shows "\<exists>name \<in> fst ` set table. cstr cmd = str name \<Longrightarrow> \<forall>(name, run) \<in> set table. 0 \<notin> set (str name) \<Longrightarrow>
     \<exists>name run. (name, run) \<in> set table \<and> cstr cmd = str name \<and> dispatch table jmp cmd argv argc s = run argv argc s"
proof (induction table)
  case (Cons e table)
  obtain name run where e: "e = (name, run)" by (cases e)
  then have "terminated (lit name)" "cstr (lit name) = str name"
    using Cons.prems(2) by (auto simp: lit_def)
  then have q: "str_eq cmd (lit name) = Some (cstr cmd = str name)" using str_eq_iff [OF assms(1)] by metis
  show ?case
  proof (cases "cstr cmd = str name")
    case True
    then show ?thesis using q by (auto simp: e)
  next
    case False
    then have "\<exists>name run. (name, run) \<in> set table \<and> cstr cmd = str name \<and> dispatch table jmp cmd argv argc s = run argv argc s"
      using Cons by (intro Cons.IH) (auto simp: e)
    then show ?thesis using False q by (auto simp: e)
  qed
qed simp

definition quiet_builtins :: "string set" where
  "quiet_builtins = {''help'', ''clear'', ''pwd'', ''cd'', ''ls'', ''chmod'', ''export'', ''unset'', ''set'', ''su''}"

lemma builtins_names: "\<forall>(name, run) \<in> set builtins. 0 \<notin> set (str name)"
  by (simp add: builtins_def)

lemma builtins_return:
  assumes "(name, run) \<in> set builtins" and "str name = str n" and "n \<in> quiet_builtins"
  shows "returns run"
  using assms returns_help returns_clear returns_pwd returns_cd returns_ls returns_chmod returns_export
    returns_unset returns_set returns_su
  by (auto simp: builtins_def quiet_builtins_def)

lemma shell_exec_returns:
  assumes "shell_ok s" and "list_all terminated argv" and "terminated cmd"
    and "cstr cmd = [] \<or> cstr cmd \<in> str ` quiet_builtins"
  shows "\<exists>t. shell_exec jmp cmd argv (length argv) s = Some t \<and> shell_keeps s t"
proof (cases "length argv = 0 \<or> cstr cmd = []")
  case True
  have "cmd \<noteq> []" using assms(3) by auto
  then have "cstr cmd = [] \<Longrightarrow> rd cmd 0 = Some 0" by (cases cmd) (auto simp: cstr_Cons split: if_splits)
  with True show ?thesis using shell_keeps_refl [OF assms(1)] by (auto simp: shell_exec_def)
next
  case False
  then have c: "rd cmd 0 = Some (cmd ! 0)" "cmd ! 0 \<noteq> 0"
    by (cases cmd; auto simp: cstr_Cons split: if_splits)+
  obtain av n r where r: "parse_redirection argv (length argv) = Some (av, n, r)" "list_all terminated av" "n \<le> length av"
    using parse_redirection_total [OF assms(2)] by blast
  obtain q where q: "q \<in> quiet_builtins" "cstr cmd = str q" using assms(4) False by auto
  have "\<exists>name \<in> fst ` set builtins. cstr cmd = str name"
    using q by (auto simp: builtins_def quiet_builtins_def)
  then obtain name run where d: "(name, run) \<in> set builtins" "cstr cmd = str name"
    "dispatch builtins jmp cmd av n s = run av n s"
    using dispatch_returns [OF assms(3) zero_notin_cstr _ builtins_names] by blast
  have "returns run" using builtins_return [OF d(1) _ q(1)] d(2) q(2) by simp
  then obtain t where "run av n s = Some t" "shell_keeps s t" using r assms(1) unfolding returns_def by blast
  then show ?thesis using False c r(1) d(3) by (simp add: shell_exec_def)
qed

lemma exit_requests:
  assumes "terminated cmd" and "cstr cmd = str ''exit''" and "argv \<noteq> []" and "list_all terminated argv"
  shows "shell_exec jmp cmd argv (length argv) s = Some (s\<lparr>shell_exit_requested := True\<rparr>)"
proof -
  have c: "rd cmd 0 = Some (cmd ! 0)" "cmd ! 0 \<noteq> 0"
    using assms(1,2) by (cases cmd; auto simp: cstr_Cons split: if_splits)+
  obtain av n r where r: "parse_redirection argv (length argv) = Some (av, n, r)"
    using parse_redirection_total [OF assms(4)] by blast
  have q: "str_eq cmd (lit x) = Some (str ''exit'' = str x)" if "0 \<notin> set (str x)" for x
    using str_eq_iff [OF assms(1), of "lit x"] that assms(2) by (auto simp: lit_def)
  have "dispatch builtins jmp cmd av n s = Some (s\<lparr>shell_exit_requested := True\<rparr>)"
    by (simp add: builtins_def q)
  then show ?thesis using c r assms(3) by (simp add: shell_exec_def)
qed

text \<open>
  C31 The built-in commands are type safe: on every well-formed state, with any arguments and any
  redirection, every command of the table of built-in commands but \<open>reboot\<close> and \<open>gui\<close> (neither of them
  comes back) returns, and it leaves a well-formed state with the keyboard, the memory and the ports as
  they were; the flag that ends the shell is set by \<open>exit\<close>, and by no other of them.
\<close>

theorem shell_builtins_type_safe:
  assumes "shell_ok s" and "list_all terminated argv" and "terminated cmd"
    and "cstr cmd \<in> str ` (fst ` set builtins - {''reboot'', ''gui''})"
  shows "\<exists>t. shell_exec jmp cmd argv (length argv) s = Some t \<and> shell_ok t \<and>
    k_keys (sh_kernel t) = k_keys (sh_kernel s) \<and> k_scancodes (sh_kernel t) = k_scancodes (sh_kernel s) \<and>
    (shell_exit_requested t \<longleftrightarrow> shell_exit_requested s \<or> argv \<noteq> [] \<and> cstr cmd = str ''exit'') \<and> machine t = machine s"
proof (cases "cstr cmd = str ''exit'' \<and> argv \<noteq> []")
  case True
  then show ?thesis
    using exit_requests [OF assms(3), of argv jmp s] assms(1,2) by (auto simp: shell_ok_def machine_def)
next
  case False
  have "shell_keeps s t \<Longrightarrow> \<exists>t'. Some t = Some t' \<and> shell_ok t' \<and>
    k_keys (sh_kernel t') = k_keys (sh_kernel s) \<and> k_scancodes (sh_kernel t') = k_scancodes (sh_kernel s) \<and>
    (shell_exit_requested t' \<longleftrightarrow> shell_exit_requested s \<or> argv \<noteq> [] \<and> cstr cmd = str ''exit'') \<and> machine t' = machine s" for t
    using False by (auto simp: shell_keeps_def)
  moreover have "\<exists>t. shell_exec jmp cmd argv (length argv) s = Some t \<and> shell_keeps s t"
  proof (cases "argv = []")
    case True
    then show ?thesis using shell_keeps_refl [OF assms(1)] by (simp add: shell_exec_def)
  next
    case f: False
    obtain n where n: "cstr cmd = str n" "n \<in> fst ` set builtins" "n \<notin> {''reboot'', ''gui''}"
      by (rule imageE [OF assms(4)]) (erule DiffE, rule that)
    have "fst ` set builtins \<subseteq> {''reboot'', ''gui''} \<union> ({''exit''} \<union> quiet_builtins)"
      by (simp add: builtins_def quiet_builtins_def)
    from subsetD [OF this n(2)] n(3) have "n \<in> {''exit''} \<union> quiet_builtins" by (simp only: Un_iff simp_thms)
    then have "n \<in> quiet_builtins" using n(1) f False by (elim UnE) simp_all
    with n(1) have "cstr cmd \<in> str ` quiet_builtins" by simp
    then show ?thesis by (intro shell_exec_returns assms(1-3) disjI2)
  qed
  ultimately show ?thesis by auto
qed

section \<open>A turn of the main loop\<close>

text \<open>Scan codes that type a line: the characters before the first line end, fewer than 255.\<close>

definition types_line :: "key_state \<Rightarrow> bytes \<Rightarrow> bytes \<Rightarrow> key_state \<Rightarrow> bool" where
  "types_line k keys l k' \<longleftrightarrow> (\<exists>scs sc cs k1 nl. keys = scs @ [sc] \<and> keyboard_feed scs k = Some (cs, k1) \<and>
     list_all (\<lambda>c. c \<noteq> 10 \<and> c \<noteq> 13) cs \<and> length cs < SHELL_BUFSZ - 1 \<and>
     keyboard_handle sc k1 = Some (nl, k') \<and> (nl = 10 \<or> nl = 13) \<and> l = foldl edit [] cs)"

lemma foldl_edit:
  "0 \<notin> set l \<Longrightarrow> 0 \<notin> set (foldl edit l cs) \<and> length (foldl edit l cs) \<le> length l + length cs"
proof (induction cs arbitrary: l)
  case (Cons c cs)
  have "0 \<notin> set (edit l c)" using Cons.prems by (auto simp: edit_def dest: in_set_butlastD)
  from Cons.IH [OF this] length_edit [of l c] show ?case by simp
qed simp

lemma prompt_says: "shell_ok s \<Longrightarrow> \<exists>bs. prompt s = Some (say bs s)"
  using cwd_terminated [of s]
  by (simp add: prompt_def shell_print_colored_eq shell_print_eq shell_ok_def lit_def, blast)

lemma short_terminated: "length (cstr b) < length b \<Longrightarrow> terminated b"
  using cstr_no_zero [of b] by fastforce

lemma length_expand: "length a \<le> max_arg \<Longrightarrow> length (expand m a) \<le> max_arg"
  by (auto simp: expand_def split: list.splits option.splits)

lemma args_terminated:
  assumes "map cstr argv = line_args m l" and "set argv \<subseteq> set bufs" and "bufs_ok bufs"
  shows "list_all terminated argv"
proof -
  have "terminated a" if "a \<in> set argv" for a
  proof -
    have "cstr a \<in> set (line_args m l)" using that assms(1) by (metis image_eqI list.set_map)
    then have "length (cstr a) \<le> max_arg" by (auto simp: line_args_def intro!: length_expand)
    moreover have "length a = SHELL_MAX_ARG_LEN" using that assms(2,3) by (auto simp: bufs_ok_def list_all_iff)
    ultimately show ?thesis by (intro short_terminated) (simp add: max_arg_eq SHELL_MAX_ARG_LEN_def)
  qed
  then show ?thesis by (simp add: list_all_iff)
qed

text \<open>The state in which the command of a line runs.\<close>

lemma shell_turn_eq:
  assumes ok: "shell_ok s" and keys: "types_line (k_keys (sh_kernel s)) keys l k'"
    and more: "k_scancodes (sh_kernel s) = keys @ rest" and few: "length (split_from False [] l) < SHELL_MAX_ARGS"
  obtains t argv where "shell_turn jmp s = (case argv of [] \<Rightarrow> Some t | cmd # _ \<Rightarrow> shell_exec jmp cmd argv (length argv) t)"
    and "shell_ok t" and "k_keys (sh_kernel t) = k'" and "k_scancodes (sh_kernel t) = rest"
    and "shell_exit_requested t = shell_exit_requested s" and "list_all terminated argv"
    and "map cstr argv = line_args (env_map (env_vars s)) l" and "machine t = machine s"
proof -
  obtain scs sc cs k1 nl where k: "keys = scs @ [sc]" "keyboard_feed scs (k_keys (sh_kernel s)) = Some (cs, k1)"
    "list_all (\<lambda>c. c \<noteq> 10 \<and> c \<noteq> 13) cs" "length cs < SHELL_BUFSZ - 1" "keyboard_handle sc k1 = Some (nl, k')"
    "nl = 10 \<or> nl = 13" "l = foldl edit [] cs"
    using keys by (auto simp: types_line_def)
  obtain p where p: "prompt s = Some (say p s)" using prompt_says [OF ok] by blast
  have ctx: "ft_ctx (sh_kernel s)" using ok by (rule ok_ctx)
  let ?t = "set_keys rest k' (say (echoes [] cs @ [10]) (say p s))"
  have l: "0 \<notin> set l" "length l < SHELL_BUFSZ - 1" using foldl_edit [of "[]" cs] k(4,7) by auto
  have "read_line (scs @ sc # rest) (in_buffer []) (length ([] :: bytes)) (say p s) = Some (in_buffer l, length l, ?t)"
    unfolding k(7) by (rule read_line_eq) (use k ctx in simp_all)
  then have rl: "read_line (k_scancodes (sh_kernel (say p s))) (replicate SHELL_BUFSZ 0) 0 (say p s) = Some (in_buffer l, length l, ?t)"
    using more k(1) by (simp add: in_buffer_def)
  have sp: "SHELL_BUFSZ - length l = Suc (SHELL_BUFSZ - Suc (length l))" using l(2) by simp
  have w: "wr (in_buffer l) (length l) 0 = Some (in_buffer l)" and tk: "take (length l + 1) (in_buffer l) = l @ [0]"
    using l(2) sp by (simp_all add: in_buffer_def list_update_append)
  have e: "env_ok (env_vars ?t)" "bufs_ok (arg_bufs ?t)" using ok by (simp_all add: shell_ok_def)
  have "length (line_args (env_map (env_vars ?t)) l) < SHELL_MAX_ARGS" using few by (simp add: line_args_def)
  then obtain argv bufs where a: "parse_line (env_vars ?t) (arg_bufs ?t) (in_buffer l) (length l) = Some (argv, bufs)"
    "map cstr argv = line_args (env_map (env_vars ?t)) l" "bufs_ok bufs" "set argv \<subseteq> set bufs"
    using parse_line_eq [OF e l(1) tk] by auto
  let ?u = "?t\<lparr>arg_bufs := bufs\<rparr>"
  have "shell_turn jmp s = (case argv of [] \<Rightarrow> Some ?u | cmd # _ \<Rightarrow> shell_exec jmp cmd argv (length argv) ?u)"
    using p rl w a(1) by (cases argv) (simp_all add: shell_turn_def Let_def)
  moreover have "shell_ok ?u" using ok a(3) by (simp add: shell_ok_def)
  moreover have "list_all terminated argv" using args_terminated a(2-4) by blast
  ultimately show ?thesis using that [of ?u argv] a(2) by simp
qed

section \<open>Sessions\<close>

definition quiet_line :: "bytes \<Rightarrow> bool" where
  "quiet_line l \<longleftrightarrow> (let ws = split_from False [] l in length ws < SHELL_MAX_ARGS \<and>
     (ws = [] \<or> hd ws = [] \<or> hd ws \<in> str ` quiet_builtins))"

inductive session :: "key_state \<Rightarrow> bytes \<Rightarrow> bytes list \<Rightarrow> key_state \<Rightarrow> bool" where
  session_end: "session k [] [] k"
| session_line: "types_line k keys l k1 \<Longrightarrow> session k1 keys2 ls k2 \<Longrightarrow> session k (keys @ keys2) (l # ls) k2"

inductive_cases session_cases: "session k keys (l # ls) k2"

lemma expand_builtin: "q \<in> insert ''exit'' quiet_builtins \<Longrightarrow> expand m (take max_arg (str q)) = str q"
  by (auto simp: quiet_builtins_def expand_def max_arg_eq)

lemma hd_line_args:
  "split_from False [] l = w # ws \<Longrightarrow> map cstr argv = line_args m l \<Longrightarrow>
     argv \<noteq> [] \<and> cstr (hd argv) = expand m (take max_arg w)"
  by (cases argv) (auto simp: line_args_def)

lemma quiet_turn:
  assumes ok: "shell_ok s" and keys: "types_line (k_keys (sh_kernel s)) keys l k'"
    and more: "k_scancodes (sh_kernel s) = keys @ rest" and q: "quiet_line l"
  obtains t where "shell_turn jmp s = Some t" and "shell_ok t" and "k_keys (sh_kernel t) = k'"
    and "k_scancodes (sh_kernel t) = rest" and "shell_exit_requested t = shell_exit_requested s" and "machine t = machine s"
proof -
  have few: "length (split_from False [] l) < SHELL_MAX_ARGS" using q by (simp add: quiet_line_def Let_def)
  obtain t argv where t: "shell_turn jmp s = (case argv of [] \<Rightarrow> Some t | cmd # _ \<Rightarrow> shell_exec jmp cmd argv (length argv) t)"
    "shell_ok t" "k_keys (sh_kernel t) = k'" "k_scancodes (sh_kernel t) = rest"
    "shell_exit_requested t = shell_exit_requested s" "list_all terminated argv"
    "map cstr argv = line_args (env_map (env_vars s)) l" "machine t = machine s"
    using shell_turn_eq [OF ok keys more few] .
  show ?thesis
  proof (cases argv)
    case Nil
    then show ?thesis using t that by simp
  next
    case (Cons cmd as)
    then obtain w ws where w: "split_from False [] l = w # ws"
      using t(7) by (cases "split_from False [] l") (auto simp: line_args_def)
    have "cstr cmd = expand (env_map (env_vars s)) (take max_arg w)" using hd_line_args [OF w t(7)] Cons by simp
    moreover have "w = [] \<or> w \<in> str ` quiet_builtins" using q w by (simp add: quiet_line_def)
    ultimately have "cstr cmd = [] \<or> cstr cmd \<in> str ` quiet_builtins"
      using expand_builtin [of _ "env_map (env_vars s)"] by (auto simp: expand_def [of _ "[]"])
    moreover have "terminated cmd" using t(6) Cons by simp
    ultimately obtain u where "shell_exec jmp cmd argv (length argv) t = Some u" "shell_keeps t u"
      using shell_exec_returns [OF t(2,6)] by blast
    then show ?thesis using that t Cons by (simp add: shell_keeps_def)
  qed
qed

lemma shell_loop_returns:
  assumes "list_all quiet_line ls"
  shows "shell_ok s \<Longrightarrow> session (k_keys (sh_kernel s)) keys (ls @ [str ''exit'']) k' \<Longrightarrow>
    k_scancodes (sh_kernel s) = keys @ rest \<Longrightarrow> \<not> shell_exit_requested s \<Longrightarrow>
    \<exists>t. shell_loop jmp s = Some t \<and> shell_exit_requested t \<and> shell_ok t \<and> k_scancodes (sh_kernel t) = rest \<and> machine t = machine s"
  using assms
proof (induction ls arbitrary: s keys)
  case Nil
  obtain ks k1 where k: "types_line (k_keys (sh_kernel s)) ks (str ''exit'') k1" "keys = ks"
    using Nil.prems(2) by (auto elim!: session_cases elim: session.cases)
  have w: "split_from False [] (str ''exit'') = [str ''exit'']" by simp
  then have few: "length (split_from False [] (str ''exit'')) < SHELL_MAX_ARGS" by (simp add: SHELL_MAX_ARGS_def)
  have more: "k_scancodes (sh_kernel s) = ks @ rest" using Nil.prems(3) k(2) by simp
  obtain t argv where t: "shell_turn jmp s = (case argv of [] \<Rightarrow> Some t | cmd # _ \<Rightarrow> shell_exec jmp cmd argv (length argv) t)"
    "shell_ok t" "k_scancodes (sh_kernel t) = rest" "list_all terminated argv"
    "map cstr argv = line_args (env_map (env_vars s)) (str ''exit'')" "machine t = machine s"
    using shell_turn_eq [OF Nil.prems(1) k(1) more few] by metis
  have h: "argv \<noteq> []" "cstr (hd argv) = str ''exit''"
    using hd_line_args [OF w t(5)] expand_builtin [of "''exit''"] by auto
  then obtain cmd as where a: "argv = cmd # as" by (cases argv) auto
  have "shell_exec jmp cmd argv (length argv) t = Some (t\<lparr>shell_exit_requested := True\<rparr>)"
    using h t(4) a by (intro exit_requests) auto
  then have "shell_turn jmp s = Some (t\<lparr>shell_exit_requested := True\<rparr>)" using t(1) a by simp
  then have "shell_loop jmp s = Some (t\<lparr>shell_exit_requested := True\<rparr>)"
    using Nil.prems(4) by (simp add: shell_loop.simps)
  then show ?case using t by (simp add: shell_ok_def)
next
  case (Cons l ls)
  obtain ks k1 ms where k: "keys = ks @ ms" "types_line (k_keys (sh_kernel s)) ks l k1" "session k1 ms (ls @ [str ''exit'']) k'"
    using Cons.prems(2) by (auto elim: session_cases)
  have more: "k_scancodes (sh_kernel s) = ks @ (ms @ rest)" using Cons.prems(3) k(1) by simp
  obtain t where t: "shell_turn jmp s = Some t" "shell_ok t" "k_keys (sh_kernel t) = k1" "k_scancodes (sh_kernel t) = ms @ rest"
    "shell_exit_requested t = shell_exit_requested s" "machine t = machine s"
    using quiet_turn [OF Cons.prems(1) k(2) more] Cons.prems(5) by auto
  have "\<exists>u. shell_loop jmp t = Some u \<and> shell_exit_requested u \<and> shell_ok u \<and> k_scancodes (sh_kernel u) = rest \<and> machine u = machine t"
    using t k(3) Cons.prems by (intro Cons.IH) auto
  moreover have "shell_loop jmp s = shell_loop jmp t" using t(1) Cons.prems(4) by (simp add: shell_loop.simps [of jmp s])
  ultimately show ?case using t(6) by simp
qed

end
