(* ===== verification/SyscallCorrect.thy ===== *)
theory SyscallCorrect
  imports Syscall
begin

text \<open>
  What the system calls on descriptors, memory and the terminal guarantee: the descriptor table
  as an invariant of every run, the delivery of file contents and typed lines to user memory, and
  the checks on user addresses.
\<close>

section \<open>Checked user memory\<close>

lemma KERNEL_VMA_BASE_nat: "unat KERNEL_VMA_BASE = 0xffff800000000000"
  by (simp add: KERNEL_VMA_BASE_def)

lemma validate_range:
  "validate_user_memory va n \<longleftrightarrow> va \<noteq> 0 \<and> 0 < n \<and> unat va + n \<le> unat KERNEL_VMA_BASE"
proof (cases "va = 0 \<or> n = 0 \<or> unat va + (n - 1) \<ge> 2 ^ 64")
  case True
  then show ?thesis by (auto simp: validate_user_memory_def KERNEL_VMA_BASE_nat)
next
  case False
  then obtain m where m: "n = Suc m" "va \<noteq> 0" "unat va + m < 2 ^ 64" by (cases n) auto
  then have "unat (va + word_of_nat m) = unat va + m"
    by (simp add: unat_word_ariths unat_of_nat)
  then show ?thesis
    using m by (auto simp: validate_user_memory_def word_le_nat_alt KERNEL_VMA_BASE_nat)
qed

lemma validate_length: "validate_user_memory va n \<Longrightarrow> n < 2 ^ 64"
  by (simp add: validate_range KERNEL_VMA_BASE_nat)

text \<open>A buffer the kernel can store to: in range, every byte mapped writable.\<close>

definition buffer_ok :: "u64 \<Rightarrow> nat \<Rightarrow> vm \<Rightarrow> bool" where
  "buffer_ok va n s \<longleftrightarrow> va \<noteq> 0 \<and> unat va + n \<le> unat KERNEL_VMA_BASE \<and>
     (\<forall>i < n. user_writable (va + word_of_nat i) s)"

lemma buffer_ok_mono: "buffer_ok va n s \<Longrightarrow> m \<le> n \<Longrightarrow> buffer_ok va m s"
  by (auto simp: buffer_ok_def)

lemma copy_to_user_ok:
  assumes "user_ok s" and "buffer_ok va (length bs) s" and "bs \<noteq> []"
  obtains s' where "copy_to_user va bs s = Some (True, s')" and "user_ok s'"
    and "user_loads va (length bs) s' = Some bs" and "\<And>c n. buffer_ok c n s' = buffer_ok c n s"
    and "user_stores va bs s = Some s'"
proof -
  have v: "validate_user_memory va (length bs)" using assms(2,3) by (simp add: validate_range buffer_ok_def)
  obtain s' where s': "um.stores va bs s = Some s'" "user_ok s'" "\<And>c. user_writable c s' = user_writable c s"
    using um.stores_defined [OF assms(1), of bs va] assms(2) by (auto simp: buffer_ok_def)
  have "um.loads va (length bs) s' = Some bs"
    by (rule um.loads_stores [OF assms(1) s'(1) validate_length [OF v]])
  then show ?thesis
    using that [of s'] s' v by (simp add: copy_to_user_def user_stores_eq user_loads_eq buffer_ok_def)
qed

section \<open>The decimal digits\<close>

lemma count_digits_eq: "count_digits v = length (digits_le 10 v)"
proof (induction v rule: count_digits.induct)
  case (1 v)
  then show ?case by (subst count_digits.simps, subst digits_le.simps) simp
qed

lemma decimal_digit: "48 + word_of_nat (v mod 10) = hex_digits ! (v mod 10)"
  by (simp add: hex_digit_decimal)

lemma put_digits_eq:
  "p + length (digits_le 10 v) \<le> length buf \<Longrightarrow> length buf < 2 ^ 64 \<Longrightarrow>
     put_digits v (p + length (digits_le 10 v) - 1) buf =
       Some (take p buf @ map (\<lambda>d. hex_digits ! d) (rev (digits_le 10 v)) @ drop (p + length (digits_le 10 v)) buf)"
proof (induction v arbitrary: buf rule: count_digits.induct)
  case (1 v)
  show ?case
  proof (cases "v = 0")
    case True
    then show ?thesis by (subst put_digits.simps) simp
  next
    case False
    let ?l = "length (digits_le 10 (v div 10))" and ?c = "hex_digits ! (v mod 10)"
    have d: "digits_le 10 v = v mod 10 # digits_le 10 (v div 10)" using False by (simp add: digits_le_step)
    have fits: "p + Suc ?l \<le> length buf" using "1.prems" d by simp
    let ?b = "buf[p + ?l := ?c]"
    have step: "put_digits v (p + length (digits_le 10 v) - 1) buf = put_digits (v div 10) (size_sub (p + ?l) 1) ?b"
      using False fits by (subst put_digits.simps) (simp add: d decimal_digit)
    show ?thesis
    proof (cases "v div 10 = 0")
      case True
      then have "put_digits v (p + length (digits_le 10 v) - 1) buf = Some ?b"
        unfolding step by (subst put_digits.simps) simp
      then show ?thesis using fits True d by (simp add: upd_conv_take_nth_drop)
    next
      case nz: False
      then have "0 < ?l" by simp
      then have "size_sub (p + ?l) 1 = p + ?l - 1"
        using fits "1.prems"(2) by (intro size_sub_small) linarith+
      moreover have "put_digits (v div 10) (p + ?l - 1) ?b =
          Some (take p ?b @ map (\<lambda>d. hex_digits ! d) (rev (digits_le 10 (v div 10))) @ drop (p + ?l) ?b)"
        using "1.IH" [of ?b] False fits "1.prems"(2) by simp
      moreover have "drop (p + ?l) ?b = ?c # drop (p + Suc ?l) buf"
        using fits by (simp add: upd_conv_take_nth_drop)
      ultimately show ?thesis using step d by simp
    qed
  qed
qed

lemma copy_message_eq:
  "terminated msg \<Longrightarrow> i + length (cstr msg) \<le> length buf \<Longrightarrow>
     copy_message buf msg i = Some (take i buf @ cstr msg @ drop (i + length (cstr msg)) buf, i + length (cstr msg))"
proof (induction buf msg i rule: copy_message.induct)
  case (2 buf c cs i)
  show ?case
  proof (cases "c = 0")
    case False
    then have fits: "i < length buf" "terminated cs" using "2.prems" by auto
    have "copy_message (buf[i := c]) cs (i + 1) = Some (take (i + 1) (buf[i := c]) @ cstr cs @
        drop (i + 1 + length (cstr cs)) (buf[i := c]), i + 1 + length (cstr cs))"
      using "2.IH" [OF False] "2.prems" False fits by simp
    moreover have "take (i + 1) (buf[i := c]) = take i buf @ [c]"
      using fits by (simp add: take_Suc_conv_app_nth)
    ultimately show ?thesis using False fits by simp
  qed simp
qed simp

definition exit_text :: "u64 \<Rightarrow> bytes" where
  "exit_text code = 10 # str ''Program exited with code '' @ render 10 (unat code) @ [10]"

lemma exit_msg_text: "terminated exit_msg" "cstr exit_msg = 10 # str ''Program exited with code ''"
  by (simp_all add: exit_msg_def lit_def cstr_Cons)

lemma sys_exit_eq:
  "sys_exit code k = Some (0xDEAD, terminal_write (exit_text code) k)"
proof -
  let ?m = "cstr exit_msg"
  have len: "length ?m = 26" by (simp add: exit_msg_text)
  let ?d = "digits_le 10 (unat code)"
  have "unat code < 10 ^ 20" using unat64_less [of code] by simp
  then have dl: "length ?d \<le> 20" by (rule length_digits_le)
  have "copy_message (replicate 64 0) exit_msg 0 = Some (take 0 (replicate 64 0) @ ?m @ drop (0 + length ?m) (replicate 64 0), 0 + length ?m)"
    by (rule copy_message_eq [OF exit_msg_text(1)]) (simp add: len)
  then have m: "copy_message (replicate 64 0) exit_msg 0 = Some (?m @ replicate 38 0, 26)" by (simp add: len)
  have tail: "\<exists>b'. wr b n 10 = Some b' \<and> (\<exists>b''. wr b' (n + 1) 0 = Some b'' \<and> take (n + 1) b'' = take n b @ [10])"
    if "n + 1 < length b" for b :: bytes and n
    using that by (simp add: take_Suc_conv_app_nth)
  show ?thesis
  proof (cases "code = 0")
    case True
    let ?b = "(?m @ replicate 38 0)[26 := 48]"
    have "take 27 ?b = ?m @ [48]" using len by (simp add: list_update_append take_Cons' numeral_eq_Suc)
    then show ?thesis
      using tail [of 27 ?b] m True len
      by (auto simp: sys_exit_def exit_text_def exit_msg_text(2) render_def digits_def hex_digits_def)
  next
    case False
    then have v: "unat code \<noteq> 0" by (simp add: unat_eq_0)
    have "put_digits (unat code) (26 + length ?d - 1) (?m @ replicate 38 0) =
        Some (take 26 (?m @ replicate 38 0) @ map (\<lambda>d. hex_digits ! d) (rev ?d) @ drop (26 + length ?d) (?m @ replicate 38 0))"
      by (rule put_digits_eq) (use len dl in simp_all)
    then have p: "put_digits (unat code) (26 + count_digits (unat code) - 1) (?m @ replicate 38 0) =
        Some (?m @ render 10 (unat code) @ replicate (38 - length ?d) 0)"
      using len v by (simp add: render_def digits_def count_digits_eq)
    let ?b = "?m @ render 10 (unat code) @ replicate (38 - length ?d) 0"
    have n: "26 + count_digits (unat code) - 1 + 1 = 26 + length ?d" by (simp add: count_digits_eq)
    have "length (render 10 (unat code)) = length ?d" using v by (simp add: render_def digits_def)
    then have "take (26 + length ?d) ?b = ?m @ render 10 (unat code)" "26 + length ?d + 1 < length ?b"
      using len dl by simp_all
    then show ?thesis
      using tail [of "26 + length ?d" ?b] m p False n
      by (auto simp: sys_exit_def exit_text_def exit_msg_text(2) Let_def)
  qed
qed

text \<open>
  \<open>sys_exit\<close> prints its message with the code in decimal and never leaves its 64-byte
  buffer, for every exit code.
\<close>

theorem sys_exit_message:
  "sys_exit code k = Some (0xDEAD, terminal_write (exit_text code) k)"
  by (rule sys_exit_eq)

text \<open>
  The address check accepts exactly the ranges that are not empty, do not start at 0 and end
  below the kernel half; in particular no sum wraps around.
\<close>

theorem validate_user_memory_exact:
  "validate_user_memory va n \<longleftrightarrow> va \<noteq> 0 \<and> 0 < n \<and> unat va + n \<le> 0xffff800000000000"
  by (simp add: validate_range KERNEL_VMA_BASE_nat)

section \<open>An example\<close>

text \<open>A kernel after \<open>syscall_init\<close>, for the witnesses.\<close>

definition kernel_on :: "vm \<Rightarrow> bytes \<Rightarrow> kernel" where
  "kernel_on v scs = syscall_init 0 \<lparr>k_vm = v, k_fs = fs_example, k_keys = key_boot, k_scancodes = scs, ft_ctx = True,
     terminal = [], fd_table = [], next_pid = 0, user_rsp_storage = 0, user_rip_storage = 0,
     user_rflags_storage = 0, msr = (\<lambda>_. 0)\<rparr>"

lemma kernel_on_simps [simp]:
  "k_vm (kernel_on v scs) = v" "k_fs (kernel_on v scs) = fs_example" "k_keys (kernel_on v scs) = key_boot"
  "k_scancodes (kernel_on v scs) = scs" "terminal (kernel_on v scs) = []" "ft_ctx (kernel_on v scs)"
  "fd_table (kernel_on v scs) = replicate MAX_FDS free_desc" "next_pid (kernel_on v scs) = 1"
  by (simp_all add: kernel_on_def syscall_init_def wrmsr_def Let_def)

text \<open>A user page at 0x401000 that holds the name \<open>a\<close> of the first file.\<close>

lemma kernel_example:
  obtains v where "user_ok v" and "buffer_ok 0x401000 4096 v"
    and "user_loads 0x401000 255 v = Some (97 # replicate 254 0)"
    and "user_loads 0x401000 3 v = Some [97, 0, 0]"
proof -
  obtain s where s: "user_ok s" "\<And>i. i < 4096 \<Longrightarrow> user_writable (0x401000 + word_of_nat i) s"
    "\<And>i. i < 4096 \<Longrightarrow> user_load (0x401000 + word_of_nat i) s = Some 0"
    by (rule vm_user_example) blast
  have b: "buffer_ok 0x401000 4096 s" using s(2) by (simp add: buffer_ok_def KERNEL_VMA_BASE_nat)
  then have b1: "buffer_ok 0x401000 (length [97 :: u8]) s" by (rule buffer_ok_mono) simp
  obtain v where v: "user_ok v" "\<And>c n. buffer_ok c n v = buffer_ok c n s" "user_stores 0x401000 [97] s = Some v"
    by (rule copy_to_user_ok [OF s(1) b1]) auto
  have ld: "user_load (0x401000 + word_of_nat i) v = Some (if i = 0 then 97 else 0)" if "i < 4096" for i
    using um.load_stores [OF s(1) v(3) [unfolded user_stores_eq], of "0x401000 + word_of_nat i"] s(3) [OF that] that
    by (simp add: unat_of_nat)
  have "um.loads 0x401000 (length (97 # replicate n (0 :: u8))) v = Some (97 # replicate n 0)" if "n < 4095" for n
    by (rule um.loads_eqI) (use ld that in \<open>auto simp: nth_Cons'\<close>)
  note lds = this
  have "user_loads 0x401000 255 v = Some (97 # replicate 254 0)" using lds [of 254] by (simp add: user_loads_eq)
  moreover have "97 # replicate 2 0 = [97, 0, 0 :: u8]" "length [97, 0, 0 :: u8] = 3" by (simp_all add: numeral_2_eq_2)
  then have "user_loads 0x401000 3 v = Some [97, 0, 0]" using lds [of 2] by (simp only: user_loads_eq)
  ultimately have "user_loads 0x401000 255 v = Some (97 # replicate 254 0)" "user_loads 0x401000 3 v = Some [97, 0, 0]"
    by simp_all
  then show ?thesis using that v b by blast
qed

section \<open>Writing to the terminal\<close>

lemma user_loads_fault: "user_load va s = None \<Longrightarrow> 0 < n \<Longrightarrow> user_loads va n s = None"
  by (cases n) simp_all

text \<open>
  \<open>sys_write\<close> to the standard output or error prints the bytes at the user's address, at most
  4096 of them, and returns their number. But an address in range that is not mapped is not
  answered with -1: the call never returns, the kernel faults.
\<close>

theorem sys_write_terminal:
  assumes fd: "fd = 1 \<or> fd = 2" and count: "count \<noteq> 0" and va: "va \<noteq> 0"
    and range: "unat va + min 4096 (unat count) \<le> 0xffff800000000000"
  shows "sys_write fd va count k = (case user_loads va (min 4096 (unat count)) (k_vm k) of
      None \<Rightarrow> None
    | Some bs \<Rightarrow> Some (int (length bs), terminal_write bs k)) \<and>
    (user_load va (k_vm k) = None \<longrightarrow> sys_write fd va count k = None)"
proof -
  have n: "(if count > 4096 then 4096 else unat count) = min 4096 (unat count)"
    by (simp add: word_less_nat_alt)
  have pos: "0 < min 4096 (unat count)" using count by (simp add: unat_gt_0)
  then have v: "validate_user_memory va (min 4096 (unat count))"
    using va range by (simp add: validate_range KERNEL_VMA_BASE_nat)
  have "sys_write fd va count k = (case user_loads va (min 4096 (unat count)) (k_vm k) of
      None \<Rightarrow> None | Some bs \<Rightarrow> Some (int (length bs), terminal_write bs k))"
    using fd count v by (auto simp: sys_write_def n Let_def copy_from_user_def split: option.splits)
  then show ?thesis using user_loads_fault [OF _ pos] by simp
qed

theorem sys_write_terminal_witness:
  "\<exists>k. ft_ctx k \<and> sys_write 1 0x401000 3 k = Some (3, k\<lparr>terminal := terminal k @ [97, 0, 0]\<rparr>)"
proof -
  obtain v where v: "user_loads 0x401000 3 v = Some [97, 0, 0]" by (rule kernel_example)
  have "sys_write 1 0x401000 3 (kernel_on v []) = Some (3, terminal_write [97, 0, 0] (kernel_on v []))"
    using sys_write_terminal [of 1 3 "0x401000" "kernel_on v []"] v by simp
  then show ?thesis by (intro exI [of _ "kernel_on v []"]) (simp add: terminal_write_def)
qed

section \<open>The descriptor table\<close>

definition desc_ok :: "fs_state \<Rightarrow> file_descriptor \<Rightarrow> bool" where
  "desc_ok fs d \<longleftrightarrow> (desc_used d \<longleftrightarrow> desc_file d \<noteq> None) \<and> (\<not> desc_used d \<longrightarrow> desc_position d = 0) \<and>
     (case desc_file d of Some (FsFile i) \<Rightarrow> i < file_count fs | Some Ext2File \<Rightarrow> False | None \<Rightarrow> True)"

definition fd_inv :: "kernel \<Rightarrow> bool" where
  "fd_inv k \<longleftrightarrow> length (fd_table k) = MAX_FDS \<and> (\<forall>i < 3. \<not> desc_used (fd_table k ! i)) \<and>
     (\<forall>d \<in> set (fd_table k). desc_ok (k_fs k) d) \<and>
     table_ok (k_fs k) \<and> active_fs (k_fs k) \<noteq> FS_TYPE_EXT2"

lemma fd_inv_update:
  assumes inv: "fd_inv k" and i: "3 \<le> i" "i < MAX_FDS" and d: "desc_ok (k_fs k) d"
  shows "fd_inv (k\<lparr>fd_table := (fd_table k)[i := d]\<rparr>)"
proof -
  have "set ((fd_table k)[i := d]) \<subseteq> insert d (set (fd_table k))" by (rule set_update_subset_insert)
  then have "\<forall>e \<in> set ((fd_table k)[i := d]). desc_ok (k_fs k) e" using inv d by (auto simp: fd_inv_def)
  then show ?thesis using inv i by (simp add: fd_inv_def)
qed

lemma fd_inv_other [simp]:
  "fd_inv (k\<lparr>k_vm := v\<rparr>) = fd_inv k" "fd_inv (k\<lparr>k_scancodes := b, k_keys := ks\<rparr>) = fd_inv k"
  "fd_inv (k\<lparr>k_scancodes := b\<rparr>) = fd_inv k" "fd_inv (k\<lparr>next_pid := p\<rparr>) = fd_inv k"
  "fd_inv (terminal_write bs k) = fd_inv k" "fd_inv (k\<lparr>k_vm := v, user_rsp_storage := r\<rparr>) = fd_inv k"
  by (simp_all add: fd_inv_def terminal_write_def)

lemma fd_slot:
  assumes "fd_inv k" and "fd < 16"
  shows "rd (fd_table k) (unat (fd :: u64)) = Some (fd_table k ! unat fd)" "unat fd < length (fd_table k)"
    "desc_ok (k_fs k) (fd_table k ! unat fd)"
proof -
  show l: "unat fd < length (fd_table k)" using assms by (simp add: fd_inv_def MAX_FDS_def word_less_nat_alt)
  then show "rd (fd_table k) (unat fd) = Some (fd_table k ! unat fd)" by simp
  show "desc_ok (k_fs k) (fd_table k ! unat fd)" using assms(1) l by (simp add: fd_inv_def)
qed

lemma fs_open_result:
  assumes "table_ok s" and "active_fs s \<noteq> FS_TYPE_EXT2" and "terminated name"
  shows "fs_open name s = Some (if cstr name = [] then None else map_option FsFile (lookup_file s (cstr name)), s)"
proof (cases "cstr name = []")
  case True
  then have "rd name 0 = Some 0" using assms(3) by (cases name) (auto simp: cstr_Cons split: if_splits)
  then show ?thesis using True by (simp add: fs_open_def)
qed (simp add: fs_open_eq [OF assms(1,2,3)])

lemma lookup_file_less: "lookup_file s n = Some i \<Longrightarrow> i < file_count s"
  by (auto simp: lookup_file_def find_Some_iff)

definition free_slot :: "kernel \<Rightarrow> nat option" where
  "free_slot k = find (\<lambda>i. \<not> desc_used (fd_table k ! i)) [3..<MAX_FDS]"

lemma free_fd_eq: "(\<forall>i \<in> set is. i < length t) \<Longrightarrow> free_fd t is = Some (find (\<lambda>i. \<not> desc_used (t ! i)) is)"
  by (induction "is") auto

lemma length_user_loads: "user_loads va n s = Some bs \<Longrightarrow> length bs = n"
  by (induction n arbitrary: va bs) (auto split: Option.bind_splits)

text \<open>What \<open>sys_open\<close> makes of the path it has read.\<close>

definition open_result :: "bytes \<Rightarrow> kernel \<Rightarrow> int \<times> kernel" where
  "open_result bs k = (case free_slot k of None \<Rightarrow> (-1, k) | Some fd \<Rightarrow>
     (if \<not> terminated bs \<or> cstr bs = [] then (-1, k)
      else case lookup_file (k_fs k) (cstr bs) of None \<Rightarrow> (-1, k)
      | Some i \<Rightarrow> (int fd, k\<lparr>fd_table := (fd_table k)
           [fd := \<lparr>desc_file = Some (FsFile i), desc_position = 0, desc_used = True\<rparr>]\<rparr>)))"

lemma free_slot_less: "free_slot k = Some fd \<Longrightarrow> 3 \<le> fd \<and> fd < MAX_FDS \<and> \<not> desc_used (fd_table k ! fd)"
  by (auto simp: free_slot_def find_Some_iff)

lemma sys_open_eq:
  assumes inv: "fd_inv k"
  shows "sys_open p k = (if free_slot k = None \<or> \<not> validate_user_memory p 255 then Some (-1, k)
     else map_option (\<lambda>bs. open_result bs k) (user_loads p 255 (k_vm k)))"
proof -
  have len: "length (fd_table k) = 16" using inv by (simp add: fd_inv_def MAX_FDS_def)
  have free: "free_fd (fd_table k) [3..<MAX_FDS] = Some (free_slot k)"
    unfolding free_slot_def by (rule free_fd_eq) (simp add: len MAX_FDS_def)
  have tab: "table_ok (k_fs k)" "active_fs (k_fs k) \<noteq> FS_TYPE_EXT2" using inv by (simp_all add: fd_inv_def)
  show ?thesis
  proof (cases "free_slot k")
    case None
    then show ?thesis by (simp add: sys_open_def free)
  next
    case (Some fd)
    have fd: "fd < length (fd_table k)" using free_slot_less [OF Some] len by (simp add: MAX_FDS_def)
    show ?thesis
    proof (cases "user_loads p 255 (k_vm k)")
      case None
      then show ?thesis using Some by (simp add: sys_open_def free copy_from_user_def)
    next
      case bs: (Some bs)
      have l: "length bs = 255" by (rule length_user_loads [OF bs])
      have sn: "strnlen (bs @ [0]) 256 = Some (min 256 (length (cstr (bs @ [0]))))" by (simp add: strnlen_eq)
      show ?thesis
      proof (cases "terminated bs")
        case True
        have cs: "cstr (bs @ [0]) = cstr bs" using True by (induction bs) (auto simp: cstr_Cons)
        have "length (cstr bs) < 255" using length_cstr_less [OF True] l by simp
        then show ?thesis
          using Some bs True sn cs fd fs_open_result [OF tab, of "bs @ [0]"]
          by (auto simp: sys_open_def free copy_from_user_def open_result_def split: option.splits)
      next
        case False
        then have "cstr (bs @ [0]) = bs" by simp
        then show ?thesis
          using Some bs False sn l by (simp add: sys_open_def free copy_from_user_def open_result_def)
      qed
    qed
  qed
qed

lemma open_result_inv:
  assumes "fd_inv k"
  shows "fd_inv (snd (open_result bs k))"
proof (cases "free_slot k")
  case (Some fd)
  have "fd_inv (k\<lparr>fd_table := (fd_table k)[fd := \<lparr>desc_file = Some (FsFile i), desc_position = 0, desc_used = True\<rparr>]\<rparr>)"
    if "lookup_file (k_fs k) (cstr bs) = Some i" for i
    by (rule fd_inv_update [OF assms]) (use free_slot_less [OF Some] lookup_file_less [OF that] in \<open>simp_all add: desc_ok_def\<close>)
  then show ?thesis using assms Some by (simp add: open_result_def split: option.split)
qed (use assms in \<open>simp add: open_result_def\<close>)

lemma sys_close_inv: "fd_inv k \<Longrightarrow> sys_close fd k = Some (r, k') \<Longrightarrow> fd_inv k'"
  using fd_inv_update [of k "unat fd" free_desc]
  by (auto simp: sys_close_def desc_ok_def free_desc_def MAX_FDS_def word_le_nat_alt word_less_nat_alt
      split: if_splits Option.bind_splits dest!: wr_SomeD)

lemma sys_read_inv:
  assumes inv: "fd_inv k" and r: "sys_read fd va count k = Some (r, k')"
  shows "fd_inv k'"
proof (cases "3 \<le> fd \<and> fd < 16 \<and> count \<noteq> 0")
  case True
  let ?d = "fd_table k ! unat fd"
  note slot = fd_slot [OF inv, of fd]
  have upd: "fd_inv (k\<lparr>fd_table := (fd_table k)[unat fd := ?d\<lparr>desc_position := p\<rparr>]\<rparr>)" if "desc_used ?d" for p
    by (rule fd_inv_update [OF inv])
      (use True slot(3) that in \<open>auto simp: desc_ok_def MAX_FDS_def word_le_nat_alt word_less_nat_alt\<close>)
  have "fd \<noteq> 0" using True by auto
  then show ?thesis
    using r True slot upd inv
    by (auto simp: sys_read_def Let_def fd_inv_def split: if_splits Option.bind_splits)
qed (use inv r in \<open>auto simp: sys_read_def Let_def split: if_splits Option.bind_splits\<close>)

lemma sys_open_inv: "fd_inv k \<Longrightarrow> sys_open p k = Some (r, k') \<Longrightarrow> fd_inv k'"
  using open_result_inv [of k] by (auto simp: sys_open_eq split: if_splits) (metis snd_conv)

lemma sys_readdir_inv: "fd_inv k \<Longrightarrow> sys_readdir i p n k = Some (r, k') \<Longrightarrow> fd_inv k'"
  by (auto simp: sys_readdir_def fs_list_def fd_inv_def Let_def split: if_splits Option.bind_splits)

lemma sys_fork_inv: "fd_inv k \<Longrightarrow> sys_fork k = Some (r, k') \<Longrightarrow> fd_inv k'"
  by (auto simp: sys_fork_def Let_def split: if_splits Option.bind_splits)

lemma syscall_inv:
  assumes "fd_inv k" and "syscall num a b c k = Some (r, k')"
  shows "fd_inv k'"
  using assms sys_read_inv [OF assms(1)] sys_open_inv [OF assms(1)] sys_close_inv [OF assms(1)]
    sys_readdir_inv [OF assms(1)] sys_fork_inv [OF assms(1)]
  by (auto simp: syscall_def sys_exit_eq sys_write_def Let_def split: if_splits Option.bind_splits option.splits)

text \<open>
  The runs of the system: user code changes memory, registers and the input between two calls,
  and every call that returns is a step.
\<close>

inductive runs :: "kernel \<Rightarrow> kernel \<Rightarrow> bool" where
  start: "runs k k"
| user: "runs k0 k \<Longrightarrow> runs k0 (k\<lparr>k_vm := m, user_rsp_storage := rsp\<rparr>)"
| input: "runs k0 k \<Longrightarrow> runs k0 (k\<lparr>k_scancodes := scs\<rparr>)"
| call: "runs k0 k \<Longrightarrow> syscall num a b c k = Some (r, k') \<Longrightarrow> runs k0 k'"

lemma runs_inv: "runs k0 k \<Longrightarrow> fd_inv k0 \<Longrightarrow> fd_inv k"
  by (induction rule: runs.induct) (auto intro: syscall_inv)

section \<open>Properties of descriptors\<close>

lemma init_fd_inv:
  "table_ok (k_fs k) \<Longrightarrow> active_fs (k_fs k) \<noteq> FS_TYPE_EXT2 \<Longrightarrow> fd_inv (syscall_init e k)"
  by (auto simp: fd_inv_def syscall_init_def wrmsr_def Let_def free_desc_def desc_ok_def MAX_FDS_def
      nth_Cons' numeral_eq_Suc)

lemma unused_is_free: "fd_inv k \<Longrightarrow> i < MAX_FDS \<Longrightarrow> \<not> desc_used (fd_table k ! i) \<Longrightarrow> fd_table k ! i = free_desc"
  by (rule file_descriptor.equality) (auto simp: fd_inv_def desc_ok_def free_desc_def)

text \<open>
  C25 In every run from \<open>syscall_init\<close>, whatever user code does between the calls, the table
  keeps its 16 entries, 0 to 2 are never handed out, an entry holds a file exactly when it is
  used, that file exists, and an unused entry is clean.
\<close>

theorem runs_keep_descriptors:
  assumes "table_ok (k_fs k0)" and "active_fs (k_fs k0) \<noteq> FS_TYPE_EXT2" and "runs (syscall_init e k0) k"
  shows "length (fd_table k) = 16 \<and> (\<forall>i < 3. \<not> desc_used (fd_table k ! i)) \<and>
    (\<forall>i < 16. if desc_used (fd_table k ! i)
       then \<exists>j < file_count (k_fs k). desc_file (fd_table k ! i) = Some (FsFile j)
       else fd_table k ! i = free_desc)"
proof -
  have inv: "fd_inv k" by (rule runs_inv [OF assms(3) init_fd_inv [OF assms(1,2)]])
  have "if desc_used (fd_table k ! i)
       then \<exists>j < file_count (k_fs k). desc_file (fd_table k ! i) = Some (FsFile j)
       else fd_table k ! i = free_desc" if "i < 16" for i
  proof -
    have "desc_ok (k_fs k) (fd_table k ! i)" using inv that by (simp add: fd_inv_def MAX_FDS_def)
    then show ?thesis using unused_is_free [OF inv, of i] that
      by (auto simp: desc_ok_def MAX_FDS_def split: option.splits file_ref.splits)
  qed
  then show ?thesis using inv by (simp add: fd_inv_def MAX_FDS_def)
qed

theorem runs_keep_descriptors_witness:
  "\<exists>k. runs (kernel_on vm_example []) k \<and> terminal k = exit_text 7 \<and> length (fd_table k) = 16 \<and>
     \<not> desc_used (fd_table k ! 2)"
proof -
  let ?k = "kernel_on vm_example []"
  have "syscall 0 7 0 0 ?k = Some (0, terminal_write (exit_text 7) ?k)"
    by (simp add: syscall_def SYSCALL_TABLE_SIZE_def sys_exit_eq)
  then have r: "runs ?k (terminal_write (exit_text 7) ?k)" by (rule runs.call [OF runs.start])
  have "table_ok fs_example" "active_fs fs_example \<noteq> FS_TYPE_EXT2" by (simp_all add: fs_example_ok fs_example_files)
  then have "length (fd_table (terminal_write (exit_text 7) ?k)) = 16 \<and>
      (\<forall>i < 3. \<not> desc_used (fd_table (terminal_write (exit_text 7) ?k) ! i))"
    using runs_keep_descriptors [OF _ _ r [unfolded kernel_on_def]] by (simp add: kernel_on_def)
  then show ?thesis using r by (intro exI [of _ "terminal_write (exit_text 7) ?k"]) (simp add: terminal_write_def free_desc_def MAX_FDS_def)
qed

text \<open>
  C26 A successful \<open>sys_open\<close> returns the lowest free descriptor from 3 on, and \<open>sys_close\<close> of it
  undoes it: the whole kernel state is back, and the descriptor is free again.
\<close>

theorem sys_open_close_roundtrip:
  assumes inv: "fd_inv k" and op: "sys_open p k = Some (fd, k')" and fd: "0 \<le> fd"
  shows "3 \<le> fd \<and> fd < 16 \<and> \<not> desc_used (fd_table k ! nat fd) \<and>
    (\<forall>j. 3 \<le> j \<longrightarrow> j < nat fd \<longrightarrow> desc_used (fd_table k ! j)) \<and>
    desc_used (fd_table k' ! nat fd) \<and> sys_close (word_of_int fd) k' = Some (0, k)"
proof -
  obtain bs where "open_result bs k = (fd, k')"
    using op fd by (auto simp: sys_open_eq [OF inv] split: if_splits)
  then obtain n i where slot: "free_slot k = Some n" and fdn: "fd = int n"
    and k': "k' = k\<lparr>fd_table := (fd_table k)[n := \<lparr>desc_file = Some (FsFile i), desc_position = 0, desc_used = True\<rparr>]\<rparr>"
    using fd by (auto simp: open_result_def split: option.splits if_splits)
  have n: "3 \<le> n" "n < 16" "\<not> desc_used (fd_table k ! n)"
    using free_slot_less [OF slot] by (simp_all add: MAX_FDS_def)
  have low: "desc_used (fd_table k ! j)" if "3 \<le> j" "j < n" for j
  proof -
    obtain m where m: "m < length [3..<MAX_FDS]" "[3..<MAX_FDS] ! m = n"
      "\<forall>l < m. desc_used (fd_table k ! ([3..<MAX_FDS] ! l))"
      using slot by (auto simp: free_slot_def find_Some_iff)
    then have "j - 3 < m" "[3..<MAX_FDS] ! (j - 3) = j" using that by auto
    then show ?thesis using m(3) by metis
  qed
  have len: "length (fd_table k) = 16" using inv by (simp add: fd_inv_def MAX_FDS_def)
  have w: "unat (word_of_int (int n) :: u64) = n" "3 \<le> (word_of_int (int n) :: u64)" "(word_of_int (int n) :: u64) < 16"
    using n by (simp_all add: unat_of_nat word_le_nat_alt word_less_nat_alt)
  have "fd_table k ! n = free_desc" using unused_is_free [OF inv _ n(3)] n(2) by (simp add: MAX_FDS_def)
  then have "(fd_table k)[n := free_desc] = fd_table k" by (metis list_update_id)
  then have "sys_close (word_of_int fd) k' = Some (0, k)"
    using w n len by (simp add: fdn k' sys_close_def)
  then show ?thesis using n low len by (simp add: fdn k')
qed

lemma fs_example_lookup: "lookup_file fs_example [97] = Some 0"
  by (simp add: lookup_file_def file_name_def fs_example_files example_file_def name_matches_def strip_dot_def
      fs_consts cstr_Cons upt_rec)

lemma kernel_on_inv: "fd_inv (kernel_on v scs)"
  unfolding kernel_on_def by (rule init_fd_inv) (simp_all add: fs_example_ok fs_example_files)

theorem sys_open_close_roundtrip_witness:
  "\<exists>k k'. sys_open 0x401000 k = Some (3, k') \<and> desc_used (fd_table k' ! 3) \<and> sys_close 3 k' = Some (0, k)"
proof -
  obtain v where v: "user_loads 0x401000 255 v = Some (97 # replicate 254 0)" by (rule kernel_example)
  let ?k = "kernel_on v []"
  have "free_slot ?k = Some 3" by (simp add: free_slot_def MAX_FDS_def free_desc_def upt_rec)
  then have "\<exists>k'. open_result (97 # replicate 254 0) ?k = (3, k')"
    by (simp add: open_result_def cstr_Cons fs_example_lookup)
  then obtain k' where k': "sys_open 0x401000 ?k = Some (3, k')"
    using v \<open>free_slot ?k = Some 3\<close> by (auto simp: sys_open_eq [OF kernel_on_inv] validate_range KERNEL_VMA_BASE_nat)
  from sys_open_close_roundtrip [OF kernel_on_inv k'] show ?thesis using k' by auto
qed

end
