(* ===== verification/ShellCorrect.thy ===== *)
theory ShellCorrect
  imports ShellRun SyscallCorrect
begin

text \<open>
  The properties of the shell that span its parts: which program a command starts, that a session
  ends, and what is left after it.
\<close>

section \<open>The search path\<close>

text \<open>The directories of a path: the pieces between colons that are not empty.\<close>

fun path_dirs :: "bytes \<Rightarrow> bytes \<Rightarrow> bytes list" where
  "path_dirs w [] = (if w = [] then [] else [w])"
| "path_dirs w (c # cs) =
     (if c = 58 then (if w = [] then path_dirs [] cs else w # path_dirs [] cs) else path_dirs (w @ [c]) cs)"

definition prog_path :: "bytes \<Rightarrow> bytes \<Rightarrow> bytes" where
  "prog_path d c = d @ (if last d = 47 then [] else [47]) @ c"

lemma path_dirs_word:
  "58 \<notin> set v \<Longrightarrow> path_dirs w (v @ cs) = path_dirs (w @ v) cs"
  by (induction v arbitrary: w) auto

lemma path_dirs_colons: "list_all (\<lambda>c. c = 58) v \<Longrightarrow> path_dirs [] (v @ cs) = path_dirs [] cs"
  by (induction v) auto

lemma path_dirs_next:
  "path_dirs [] cs = (case next_token {58} cs of None \<Rightarrow> [] | Some (t, rest) \<Rightarrow> t # path_dirs [] rest)"
proof -
  define v where "v = takeWhile (\<lambda>c. c \<in> {58 :: u8}) cs"
  define r where "r = dropWhile (\<lambda>c. c \<in> {58 :: u8}) cs"
  have cs: "cs = v @ r" by (simp add: v_def r_def)
  have "list_all (\<lambda>c. c = 58) v" by (auto simp: v_def list_all_iff dest: set_takeWhileD)
  then have e: "path_dirs [] cs = path_dirs [] r" unfolding cs by (rule path_dirs_colons)
  show ?thesis
  proof (cases "r = []")
    case True
    have "next_token {58} cs = None" using True unfolding next_token_def Let_def r_def [symmetric] by simp
    with e True show ?thesis by simp
  next
    case False
    define t where "t = takeWhile (\<lambda>c. c \<notin> {58 :: u8}) r"
    define u where "u = dropWhile (\<lambda>c. c \<notin> {58 :: u8}) r"
    have ru: "r = t @ u" by (simp add: t_def u_def)
    have t58: "58 \<notin> set t" by (auto simp: t_def dest: set_takeWhileD)
    have "hd r \<noteq> 58" using False hd_dropWhile [of "\<lambda>c. c \<in> {58 :: u8}" cs] by (auto simp: r_def)
    then have ne: "t \<noteq> []" using False by (cases r) (auto simp: t_def)
    have n: "next_token {58} cs = Some (t, drop 1 u)" using False unfolding next_token_def Let_def r_def [symmetric] t_def u_def by simp
    have "path_dirs [] r = path_dirs t u" unfolding ru using path_dirs_word [OF t58, of "[]"] by simp
    also have "\<dots> = t # path_dirs [] (drop 1 u)"
    proof (cases u)
      case (Cons c w)
      then have "c = 58" using hd_dropWhile [of "\<lambda>c. c \<notin> {58 :: u8}" r] by (simp add: u_def)
      then show ?thesis using Cons ne by simp
    qed (use ne in simp)
    finally show ?thesis using e n by simp
  qed
qed

lemma strncat_loop_eq:
  "terminated src \<Longrightarrow> length (cstr src) < length dest \<Longrightarrow> length (cstr src) \<le> n \<Longrightarrow>
     strncat_loop dest src n = Some (cstr src @ 0 # drop (Suc (length (cstr src))) dest)"
  by (induction dest src n rule: strncat_loop.induct) (auto simp: cstr_Cons)

lemma strncat_eq:
  assumes "terminated dest" and "terminated src" and "length (cstr dest) + length (cstr src) < length dest"
    and "length (cstr src) \<le> n"
  obtains d where "strncat dest src n = Some d" and "cstr d = cstr dest @ cstr src" and "terminated d"
    and "length d = length dest"
proof -
  have "strncat_loop (drop (length (cstr dest)) dest) src n =
      Some (cstr src @ 0 # drop (Suc (length (cstr src))) (drop (length (cstr dest)) dest))"
    using assms by (intro strncat_loop_eq) auto
  then have "strncat dest src n = Some (cstr dest @ cstr src @ 0 # drop (Suc (length (cstr dest) + length (cstr src))) dest)"
    using assms(1) by (simp add: strncat_def strlen_eq take_length_cstr add.commute)
  moreover have "cstr ((cstr dest @ cstr src) @ 0 # drop (Suc (length (cstr dest) + length (cstr src))) dest) = cstr dest @ cstr src"
    by (rule cstr_append_zero) simp
  ultimately show ?thesis using that assms(3) by simp
qed

lemma copy_name_fits:
  assumes "terminated s" and "length (cstr s) < n"
  obtains d where "copy_name (replicate n 0) s = Some d" and "cstr d = cstr s" and "length d = n" and "terminated d"
proof -
  have "replicate n (0 :: u8) \<noteq> []" using assms(2) by auto
  from copy_name_eq [OF assms(1) this] obtain d where "copy_name (replicate n 0) s = Some d"
    "cstr d = take (n - 1) (cstr s)" "length d = n" "terminated d" by (metis length_replicate)
  then show ?thesis using that assms(2) by simp
qed

lemma candidate_eq:
  assumes tok: "terminated tok" "cstr tok \<noteq> []" "length (cstr tok) \<le> 127" and cmd: "terminated cmd" "length (cstr cmd) \<le> 63"
  obtains b where "candidate tok cmd = Some b" and "cstr b = prog_path (cstr tok) (cstr cmd)" and "terminated b"
proof -
  obtain a where a: "copy_name (replicate 256 0) tok = Some a" "cstr a = cstr tok" "length a = 256" "terminated a"
    using copy_name_fits [OF tok(1), of 256] tok(3) by auto
  let ?n = "length (cstr tok)"
  have n: "strlen a = Some ?n" "?n \<noteq> 0" using strlen_eq [OF a(4)] a(2) tok(2) by simp_all
  have last: "rd a (?n - 1) = Some (last (cstr tok))"
    using a(2,3) tok(2,3) nth_cstr [of "?n - 1" a] by (simp add: last_conv_nth)
  obtain b where b: "(if ?n \<noteq> 0 \<and> last (cstr tok) \<noteq> 47 then strncat a (lit ''/'') (256 - ?n - 1) else Some a) = Some b"
    "cstr b = cstr tok @ (if last (cstr tok) = 47 then [] else [47])" "length b = 256" "terminated b"
  proof (cases "last (cstr tok) = 47")
    case True
    then show ?thesis using that a by simp
  next
    case False
    have "length (cstr a) + length (cstr (lit ''/'')) < length a" "length (cstr (lit ''/'')) \<le> 256 - ?n - 1"
      using a tok(3) by (simp_all add: slash_lit(2))
    from strncat_eq [OF a(4) slash_lit(1) this] obtain d where "strncat a (lit ''/'') (256 - ?n - 1) = Some d"
      "cstr d = cstr tok @ [47]" "terminated d" "length d = 256" using a(2,3) slash_lit(2) by metis
    then show ?thesis using that False n(2) by simp
  qed
  have lb: "length (cstr b) \<le> 128" using b(2) tok(3) by simp
  have "length (cstr b) + length (cstr cmd) < length b" "length (cstr cmd) \<le> 256 - length (cstr b) - 1"
    using lb cmd(2) b(3) by simp_all
  from strncat_eq [OF b(4) cmd(1) this] obtain d where d: "strncat b cmd (256 - length (cstr b) - 1) = Some d"
    "cstr d = cstr b @ cstr cmd" "terminated d" by metis
  have "candidate tok cmd = Some d"
    using a(1) n(1) last b(1) strlen_eq [OF b(4)] d(1) n(2) by (simp add: candidate_def)
  then show ?thesis using that d(2,3) b(2) by (simp add: prog_path_def)
qed

section \<open>The program a command starts\<close>

lemma exec_elf_name:
  assumes "fs_open p (k_fs k) = fs_open q (k_fs k)"
  shows "exec_elf jmp p k = exec_elf jmp q k"
  using assms by (simp add: exec_elf_def exec_load_def)

lemma set_fs_id [simp]: "s\<lparr>sh_kernel := (sh_kernel s)\<lparr>k_fs := k_fs (sh_kernel s)\<rparr>\<rparr> = s"
  by simp

definition start_program ::
  "(u64 \<Rightarrow> u64 \<Rightarrow> kernel \<Rightarrow> kernel option) \<Rightarrow> bytes \<Rightarrow> shell \<Rightarrow> (bool \<times> shell) option" where
  "start_program jmp name s = (
     let t = say (str ''Executing: '' @ name @ [10]) s in
     map_option (\<lambda>k. (True, t\<lparr>sh_kernel := k\<rparr>)) (exec_elf jmp (name @ [0]) (sh_kernel t)))"

lemma path_loop_eq:
  assumes ok: "shell_ok s" and cmd: "terminated cmd" "cstr cmd \<noteq> []" "length (cstr cmd) \<le> 63"
  shows "s0 = (case arg of None \<Rightarrow> save | Some q \<Rightarrow> q) \<Longrightarrow> terminated (drop s0 buf) \<Longrightarrow> length (cstr (drop s0 buf)) \<le> 127 \<Longrightarrow>
    path_loop jmp cmd buf arg save s =
     (case find (\<lambda>d. lookup_file (k_fs (sh_kernel s)) (prog_path d (cstr cmd)) \<noteq> None) (path_dirs [] (cstr (drop s0 buf))) of
        None \<Rightarrow> Some (False, s) | Some d \<Rightarrow> start_program jmp (prog_path d (cstr cmd)) s)"
proof (induction "length buf - s0" arbitrary: s0 buf arg save rule: less_induct)
  case less
  let ?fs = "k_fs (sh_kernel s)"
  have delim: "terminated (lit '':'')" "set (cstr (lit '':'')) = {58}" by (simp_all add: lit_def)
  have fs: "table_ok ?fs" "active_fs ?fs \<noteq> FS_TYPE_EXT2" using ok by (simp_all add: shell_ok_def fs_inv_def)
  show ?case
  proof (cases "next_token {58} (cstr (drop s0 buf))")
    case None
    then obtain save' where "strtok_r buf arg (lit '':'') save = Some (None, save', buf)"
      using strtok_r_end [OF less.prems(1,2) delim(1)] unfolding delim(2) by blast
    then show ?thesis using None path_dirs_next [of "cstr (drop s0 buf)"] by (simp add: path_loop.simps)
  next
    case (Some tr)
    then obtain t rest where tr: "next_token {58} (cstr (drop s0 buf)) = Some (t, rest)" by (cases tr) auto
    then obtain p save' buf' where tk: "strtok_r buf arg (lit '':'') save = Some (Some p, save', buf')"
      "cstr (drop p buf') = t" "cstr (drop save' buf') = rest" "terminated (drop p buf')" "terminated (drop save' buf')"
      "length buf' = length buf"
      using strtok_r_token [OF less.prems(1,2) delim(1)] unfolding delim(2) by blast
    have prog: "s0 < save'" "save' \<le> length buf" using strtok_progress [OF tk(1) less.prems(1)] by simp_all
    have parts: "t \<noteq> []" "length t + length rest \<le> length (cstr (drop s0 buf))"
    proof -
      define cs where "cs = cstr (drop s0 buf)"
      define r where "r = dropWhile (\<lambda>c. c \<in> {58 :: u8}) cs"
      have r: "r \<noteq> []" "t = takeWhile (\<lambda>c. c \<notin> {58}) r" "rest = drop 1 (dropWhile (\<lambda>c. c \<notin> {58}) r)"
        using tr unfolding next_token_def Let_def cs_def [symmetric] r_def [symmetric] by (auto split: if_splits)
      have "hd r \<notin> {58}" using r(1) hd_dropWhile [of "\<lambda>c. c \<in> {58 :: u8}" cs] unfolding r_def by blast
      then show "t \<noteq> []" using r(1,2) by (cases r) auto
      have "length (takeWhile (\<lambda>c. c \<notin> {58}) r) + length (dropWhile (\<lambda>c. c \<notin> {58}) r) = length r"
        by (metis length_append takeWhile_dropWhile_id)
      moreover have "length r \<le> length cs" by (simp add: r_def length_dropWhile_le)
      ultimately show "length t + length rest \<le> length (cstr (drop s0 buf))" using r(2,3) by (simp add: cs_def [symmetric])
    qed
    have "cstr (drop p buf') \<noteq> []" "length (cstr (drop p buf')) \<le> 127" using parts tk(2) less.prems(3) by simp_all
    from candidate_eq [OF tk(4) this cmd(1,3)] obtain b where b: "candidate (drop p buf') cmd = Some b"
      "cstr b = prog_path t (cstr cmd)" "terminated b" using tk(2) by metis
    have bn: "cstr b \<noteq> []" using b(2) cmd(2) by (simp add: prog_path_def)
    have o: "fs_open b ?fs = Some (map_option FsFile (lookup_file ?fs (prog_path t (cstr cmd))), ?fs)"
      using fs_open_eq [OF fs b(3) bn] b(2) by simp
    have dirs: "path_dirs [] (cstr (drop s0 buf)) = t # path_dirs [] rest"
      using path_dirs_next [of "cstr (drop s0 buf)"] tr by simp
    show ?thesis
    proof (cases "lookup_file ?fs (prog_path t (cstr cmd))")
      case None
      have "path_loop jmp cmd buf' None save' s =
        (case find (\<lambda>d. lookup_file ?fs (prog_path d (cstr cmd)) \<noteq> None) (path_dirs [] (cstr (drop save' buf'))) of
          None \<Rightarrow> Some (False, s) | Some d \<Rightarrow> start_program jmp (prog_path d (cstr cmd)) s)"
        using prog tk parts less.prems(3) by (intro less.hyps) auto
      moreover have "path_loop jmp cmd buf arg save s = path_loop jmp cmd buf' None save' s"
        using tk(1) b(1) o None by (simp add: path_loop.simps [of jmp cmd buf])
      ultimately show ?thesis using dirs None tk(3) by simp
    next
      case (Some i)
      let ?t = "say (str ''Executing: '' @ prog_path t (cstr cmd) @ [10]) s"
      have l: "lit x = str x @ [0]" for x by (simp add: lit_def)
      have pr: "shell_prints [lit ''Executing: '', b, [10, 0]] s = Some ?t"
        using shell_prints_eq [OF ok_ctx [OF ok], of "[lit ''Executing: '', b, [10, 0]]"] b(2,3)
        by (simp add: lit_def del: shell_prints.simps)
      have nz: "0 \<notin> set (prog_path t (cstr cmd))" using zero_notin_cstr [of b] by (simp only: b(2)) simp
      then have "cstr (prog_path t (cstr cmd) @ [0]) = prog_path t (cstr cmd)" by simp
      then have "fs_open (prog_path t (cstr cmd) @ [0]) ?fs = fs_open b ?fs"
        using fs_open_eq [OF fs, of "prog_path t (cstr cmd) @ [0]"] bn b(2) o by simp
      then have ex: "exec_elf jmp b (sh_kernel ?t) = exec_elf jmp (prog_path t (cstr cmd) @ [0]) (sh_kernel ?t)"
        by (intro exec_elf_name) simp
      have "path_loop jmp cmd buf arg save s = start_program jmp (prog_path t (cstr cmd)) s"
        using tk(1) b(1) o Some pr ex
        by (cases "exec_elf jmp b (sh_kernel ?t)")
          (simp_all add: path_loop.simps [of jmp cmd buf] start_program_def Let_def del: shell_prints.simps)
      then show ?thesis using dirs Some by simp
    qed
  qed
qed

definition search_path :: "(bytes \<rightharpoonup> bytes) \<Rightarrow> bytes" where
  "search_path m = (case m (str ''PATH'') of None \<Rightarrow> str ''/bin:/usr/bin:.'' | Some v \<Rightarrow> v)"

lemma try_exec_eq:
  assumes ok: "shell_ok s" and cmd: "terminated cmd" "cstr cmd \<noteq> []" "length (cstr cmd) \<le> 63"
  shows "try_exec_elf_command jmp cmd s =
    (case find (\<lambda>d. lookup_file (k_fs (sh_kernel s)) (prog_path d (cstr cmd)) \<noteq> None)
        (path_dirs [] (search_path (env_map (env_vars s)))) of
       None \<Rightarrow> Some (False, s) | Some d \<Rightarrow> start_program jmp (prog_path d (cstr cmd)) s)"
proof -
  have e: "env_ok (env_vars s)" using ok by (simp add: shell_ok_def)
  have n: "terminated (lit ''PATH'')" "cstr (lit ''PATH'') = str ''PATH''" by (simp_all add: lit_def)
  obtain r where r: "get_env_var (lit ''PATH'') (env_vars s) = Some r" "map_option cstr r = env_map (env_vars s) (str ''PATH'')"
    "\<And>v. r = Some v \<Longrightarrow> terminated v \<and> length v = SHELL_MAX_ENV_VALUE"
    using get_env_var_eq [OF e n(1)] unfolding n(2) by blast
  define v where "v = (case r of None \<Rightarrow> default_path | Some v \<Rightarrow> v)"
  have v: "terminated v" "cstr v = search_path (env_map (env_vars s))" "length (cstr v) \<le> 127"
  proof -
    show "terminated v" using r(3) by (auto simp: v_def default_path_def lit_def split: option.splits)
    show "cstr v = search_path (env_map (env_vars s))"
      using r(2) by (auto simp: v_def search_path_def default_path_def lit_def split: option.splits)
    show "length (cstr v) \<le> 127"
    proof (cases r)
      case (Some w)
      then have "length (cstr w) < 128" using r(3) [OF Some] length_cstr_less [of w] by (simp add: env_sizes)
      then show ?thesis using Some by (simp add: v_def)
    qed (simp add: v_def default_path_def lit_def)
  qed
  obtain pc where pc: "copy_name (replicate 256 0) v = Some pc" "cstr pc = cstr v" "terminated pc"
    using copy_name_fits [OF v(1), of 256] v(3) by auto
  have "path_loop jmp cmd pc (Some 0) 0 s =
     (case find (\<lambda>d. lookup_file (k_fs (sh_kernel s)) (prog_path d (cstr cmd)) \<noteq> None) (path_dirs [] (cstr (drop 0 pc))) of
        None \<Rightarrow> Some (False, s) | Some d \<Rightarrow> start_program jmp (prog_path d (cstr cmd)) s)"
    using pc v(3) by (intro path_loop_eq [OF ok cmd]) auto
  then show ?thesis using r(1) pc v(2) by (simp add: try_exec_elf_command_def v_def)
qed

text \<open>
  C29 A command that is not built in starts a program: the shell tries the directories of \<open>PATH\<close> in
  order (\<open>/bin:/usr/bin:.\<close> when it is not set, empty pieces skipped), joins each with the command by
  one slash, and starts the first name \<open>fs_open\<close> knows; if there is none nothing is printed or
  changed and the command counts as not found. No buffer on the way overflows.
\<close>

theorem shell_finds_program:
  assumes "shell_ok s" and "terminated cmd" and "cstr cmd \<noteq> []" and "length (cstr cmd) \<le> 63"
  shows "try_exec_elf_command jmp cmd s =
    (case find (\<lambda>d. lookup_file (k_fs (sh_kernel s)) (prog_path d (cstr cmd)) \<noteq> None)
        (path_dirs [] (search_path (env_map (env_vars s)))) of
       None \<Rightarrow> Some (False, s) | Some d \<Rightarrow> start_program jmp (prog_path d (cstr cmd)) s)"
  by (rule try_exec_eq [OF assms])

text \<open>A booted shell over the files of an installed archive, whose only program is \<open>./bin/a\<close>.\<close>

definition fs_install :: fs_state where
  "fs_install = fs_boot\<lparr>
     fs_files := (replicate FS_MAX_FILES zero_file)[0 := example_file (str ''./bin/a'') 0 3 8],
     file_count := 1, mem_used := 8\<rparr>"

lemma fs_install_fields:
  "fs_files fs_install ! 0 = example_file (str ''./bin/a'') 0 3 8" "file_count fs_install = 1"
  "active_fs fs_install = FS_TYPE_INITRAMFS"
  by (simp_all add: fs_install_def fs_boot_def FS_MAX_FILES_def)

lemma fs_install_ok: "fs_inv fs_install"
proof -
  have "set (fs_files fs_install) \<subseteq> {example_file (str ''./bin/a'') 0 3 8, zero_file}"
    by (auto simp: fs_install_def dest!: set_update_subset_insert [THEN subsetD])
  then have "\<forall>f \<in> set (fs_files fs_install). length (ff_name f) = NAME_SIZE"
    by (auto simp: example_file_def zero_file_def fs_consts)
  moreover have "file_ok 8 (example_file (str ''./bin/a'') 0 3 8)"
    by (auto simp: file_ok_def example_file_def fs_consts)
  moreover have "length (fs_files fs_install) = FS_MAX_FILES" "mem_used fs_install = 8"
    by (simp_all add: fs_install_def fs_consts)
  ultimately have "table_ok fs_install" unfolding table_ok_def by (simp add: fs_install_fields fs_consts)
  moreover have "dirs_ok fs_install"
    by (simp add: fs_install_def fs_boot_def dirs_ok_def zero_dir_def fs_consts)
  ultimately show ?thesis by (simp add: fs_inv_def)
qed

definition shell_on :: "bytes \<Rightarrow> shell" where
  "shell_on scs = shell_boot ((kernel_on vm_example scs)\<lparr>k_fs := fs_install\<rparr>)
     (gui_init (\<lambda>_. 0) \<lparr>base_address = None, base_pixels = 0, fb_width = 0, fb_height = 0, pixels_per_scan_line = 0\<rparr>)
     mouse_boot \<lparr>port_answers = [], port_log = []\<rparr>"

lemma shell_on_fields:
  "k_fs (sh_kernel (shell_on scs)) = fs_install" "k_keys (sh_kernel (shell_on scs)) = key_boot"
  "k_scancodes (sh_kernel (shell_on scs)) = scs" "\<not> shell_exit_requested (shell_on scs)"
  "env_vars (shell_on scs) = replicate SHELL_MAX_ENV_VARS zero_env"
  by (simp_all add: shell_on_def shell_boot_def)

lemma shell_on_ok: "shell_ok (shell_on scs)"
  using env_boot_ok fs_install_ok
  by (simp add: shell_ok_def shell_on_def shell_boot_def bufs_ok_def list_all_iff fs_install_fields lit_def)

text \<open>The default path does not lead to \<open>./bin/a\<close>: only \<open>bin/a\<close>, found in the directory \<open>.\<close>, does.\<close>

theorem shell_finds_program_witness:
  "try_exec_elf_command (\<lambda>_ _ _. None) (lit ''a'') (shell_on []) = Some (False, shell_on []) \<and>
   try_exec_elf_command (\<lambda>_ _ _. None) (lit ''bin/a'') (shell_on []) =
     start_program (\<lambda>_ _ _. None) (str ''./bin/a'') (shell_on [])"
proof -
  have no_env: "env_map (env_vars (shell_on [])) = Map.empty"
    by (simp add: shell_on_fields env_boot_map)
  have dirs: "path_dirs [] (search_path Map.empty) = [str ''/bin'', str ''/usr/bin'', str ''.'']"
    by (simp add: search_path_def)
  have l: "lookup_file fs_install n = (if name_matches n (str ''./bin/a'') then Some 0 else None)" for n
    by (simp add: lookup_file_def file_name_def fs_install_fields example_file_def fs_consts cstr_Cons)
  have c: "terminated (lit ''a'')" "cstr (lit ''a'') = str ''a''" "terminated (lit ''bin/a'')" "cstr (lit ''bin/a'') = str ''bin/a''"
    by (simp_all add: lit_def)
  have "find (\<lambda>d. lookup_file fs_install (prog_path d (str ''a'')) \<noteq> None) [str ''/bin'', str ''/usr/bin'', str ''.''] = None"
    by (simp add: l prog_path_def name_matches_def strip_dot_def)
  moreover have "find (\<lambda>d. lookup_file fs_install (prog_path d (str ''bin/a'')) \<noteq> None) [str ''/bin'', str ''/usr/bin'', str ''.'']
      = Some (str ''.'')" "prog_path (str ''.'') (str ''bin/a'') = str ''./bin/a''"
    by (simp_all add: l prog_path_def name_matches_def strip_dot_def)
  ultimately show ?thesis
    using shell_finds_program [OF shell_on_ok, of "lit ''a''" "\<lambda>_ _ _. None" "[]"]
      shell_finds_program [OF shell_on_ok, of "lit ''bin/a''" "\<lambda>_ _ _. None" "[]"]
    by (simp add: c no_env dirs shell_on_fields(1))
qed

section \<open>A session\<close>

lemma init_default_env_total:
  assumes "shell_ok s"
  shows "\<exists>t. init_default_env s = Some t \<and> shell_keeps s t"
proof -
  have l: "terminated (lit x)" for x by (simp add: lit_def)
  obtain t where t: "put_env (lit ''PATH'') default_path s = Some t" "shell_keeps s t"
    using put_env_total [OF assms l, of default_path "''PATH''"] l by (auto simp: default_path_def)
  have ok: "shell_ok t" using keeps_ok [OF t(2)] .
  then have "terminated (current_user t)" by (simp add: shell_ok_def)
  then obtain u where "put_env (lit ''USER'') (current_user t) t = Some u" "shell_keeps t u"
    using put_env_total [OF ok l] by blast
  then show ?thesis using t shell_keeps_trans [OF t(2)] by (auto simp: init_default_env_def)
qed

lemma shell_run_enters_loop:
  assumes "shell_ok s"
  obtains t where "shell_run jmp s = shell_loop jmp t" and "shell_keeps s t"
proof -
  let ?m = "[10] @ str ''Limine Kernel Shell'' @ [10, 0]" and ?c = "ANSI_BOLD @ ANSI_CYAN @ [0]"
  let ?h = "str ''Type '' @ [39] @ str ''help'' @ [39] @ str '' for available commands.'' @ [10, 0]"
  obtain bs where p: "shell_print_colored ?m ?c s = Some (say bs s)"
    using shell_print_colored_eq [OF ok_ctx [OF assms], of ?m ?c] by auto
  have ok: "shell_ok (say bs s)" using assms by simp
  obtain bs' where h: "shell_print ?h (say bs s) = Some (say bs' (say bs s))"
    using shell_print_eq [OF ok_ctx [OF ok], of ?h] by auto
  have ok': "shell_ok (say bs' (say bs s))" using assms by simp
  obtain t where t: "init_default_env (say bs' (say bs s)) = Some t" "shell_keeps (say bs' (say bs s)) t"
    using init_default_env_total [OF ok'] by blast
  have "shell_run jmp s = shell_loop jmp t" unfolding shell_run_def p using h t(1) by simp
  moreover have "shell_keeps s t" using t(2) assms by (simp add: shell_keeps_def)
  ultimately show ?thesis using that by blast
qed

lemma session_returns:
  assumes ok: "shell_ok s" "\<not> shell_exit_requested s" and ls: "list_all quiet_line ls"
    and keys: "session (k_keys (sh_kernel s)) keys (ls @ [str ''exit'']) k'" "k_scancodes (sh_kernel s) = keys @ rest"
  shows "\<exists>t. shell_run jmp s = Some t \<and> shell_ok t \<and> shell_exit_requested t \<and> k_scancodes (sh_kernel t) = rest \<and> machine t = machine s"
proof -
  obtain t where t: "shell_run jmp s = shell_loop jmp t" "shell_keeps s t" by (rule shell_run_enters_loop [OF ok(1)])
  then show ?thesis using shell_loop_returns [OF ls, of t keys k' rest jmp] ok keys by (auto simp: shell_keeps_def)
qed

lemma run_after_exit:
  assumes "shell_ok s" and "shell_exit_requested s"
  shows "\<exists>t. shell_run jmp s = Some t \<and> shell_keeps s t"
proof -
  obtain t where t: "shell_run jmp s = shell_loop jmp t" "shell_keeps s t" by (rule shell_run_enters_loop [OF assms(1)])
  then have "shell_loop jmp t = Some t" using assms(2) by (simp add: shell_loop.simps shell_keeps_def)
  with t show ?thesis by auto
qed

text \<open>
  C9 A session ends: from a well-formed state, when the scan codes to come type any lines of
  built-in commands (not \<open>reboot\<close> or \<open>gui\<close>; fewer than eight arguments each) and then \<open>exit\<close>,
  \<open>shell_run\<close> returns in a well-formed state, having read exactly the keys of the session. The
  flag of \<open>exit\<close> stays set, so that a later \<open>shell_run\<close> prints its banner and returns at once
  without reading a key.
\<close>

theorem shell_session_returns:
  assumes "shell_ok s" and "\<not> shell_exit_requested s" and "list_all quiet_line ls"
    and "session (k_keys (sh_kernel s)) keys (ls @ [str ''exit'']) k'" and "k_scancodes (sh_kernel s) = keys @ rest"
  shows "\<exists>t u. shell_run jmp s = Some t \<and> shell_ok t \<and> k_scancodes (sh_kernel t) = rest \<and>
    shell_run jmp t = Some u \<and> k_scancodes (sh_kernel u) = rest"
  using session_returns [OF assms, of jmp] run_after_exit [of _ jmp] unfolding shell_keeps_def by metis

text \<open>Typed text as a line: the strokes of its characters, and Enter pressed.\<close>

lemma edit_plain: "list_all (\<lambda>c. 32 \<le> c \<and> c < 127) cs \<Longrightarrow> foldl edit l cs = l @ cs"
  by (induction cs arbitrary: l) (auto simp: edit_def)

lemma types_line_typed:
  assumes "list_all typable l" and "list_all (\<lambda>c. 32 \<le> c \<and> c < 127) l" and "length l < SHELL_BUFSZ - 1"
    and "keyboard_feed lead k = Some ([], k)" and "\<not> ctrl_down k" and "\<not> shift_down k"
  shows "types_line k (lead @ concat (map type_char l) @ [0x1C]) l k"
proof -
  have "keyboard_feed (lead @ concat (map type_char l)) k = Some (l, k)"
    using keyboard_feed_seq [OF assms(4) typed_feed [OF assms(1,5,6)]] by simp
  moreover have "list_all (\<lambda>c. c \<noteq> 10 \<and> c \<noteq> 13) l" using assms(2) by (auto simp: list_all_iff word_le_nat_alt)
  moreover have "keyboard_handle 0x1C k = Some (10, k)"
    using assms(5,6) by (simp add: keyboard_handle_def key_char_def scancodes scancode_set1_def)
  ultimately show ?thesis using assms(2,3) edit_plain [OF assms(2), of "[]"]
    unfolding types_line_def by (intro exI [of _ "lead @ concat (map type_char l)"] exI [of _ "0x1C"] exI [of _ l] exI [of _ k] exI [of _ 10]) simp
qed

theorem shell_session_returns_witness:
  "\<exists>t u. shell_run (\<lambda>_ _ _. None) (shell_on [0x19, 0x99, 0x11, 0x91, 0x20, 0xA0, 0x1C,
       0x9C, 0x12, 0x92, 0x2D, 0xAD, 0x17, 0x97, 0x14, 0x94, 0x1C, 0x9C]) = Some t \<and>
     shell_ok t \<and> k_scancodes (sh_kernel t) = [0x9C] \<and>
     shell_run (\<lambda>_ _ _. None) t = Some u \<and> k_scancodes (sh_kernel u) = [0x9C]"
proof -
  have k: "\<not> ctrl_down key_boot" "\<not> shift_down key_boot" by (simp_all add: key_boot_def)
  have up: "keyboard_feed [0x9C] key_boot = Some ([], key_boot)"
    by (simp add: keyboard_handle_def key_release_def scancodes key_boot_def)
  have "types_line key_boot ([] @ concat (map type_char (str ''pwd'')) @ [0x1C]) (str ''pwd'') key_boot"
    by (rule types_line_typed) (simp_all add: k typable_def scancode_set1_def SHELL_BUFSZ_def)
  then have l1: "types_line key_boot [0x19, 0x99, 0x11, 0x91, 0x20, 0xA0, 0x1C] (str ''pwd'') key_boot"
    by (simp add: type_char_def index_of_def scancode_set1_def)
  have "types_line key_boot ([0x9C] @ concat (map type_char (str ''exit'')) @ [0x1C]) (str ''exit'') key_boot"
    by (rule types_line_typed [OF _ _ _ up]) (simp_all add: k typable_def scancode_set1_def SHELL_BUFSZ_def)
  then have l2: "types_line key_boot [0x9C, 0x12, 0x92, 0x2D, 0xAD, 0x17, 0x97, 0x14, 0x94, 0x1C] (str ''exit'') key_boot"
    by (simp add: type_char_def index_of_def scancode_set1_def)
  have ses: "session key_boot ([0x19, 0x99, 0x11, 0x91, 0x20, 0xA0, 0x1C] @
      [0x9C, 0x12, 0x92, 0x2D, 0xAD, 0x17, 0x97, 0x14, 0x94, 0x1C] @ []) ([str ''pwd''] @ [str ''exit'']) key_boot"
    using session_line [OF l1 session_line [OF l2 session_end]] by simp
  have q: "list_all quiet_line [str ''pwd'']"
    by (simp add: quiet_line_def quiet_builtins_def SHELL_MAX_ARGS_def)
  show ?thesis
    by (rule shell_session_returns [OF shell_on_ok shell_on_fields(4) q, unfolded shell_on_fields, OF ses]) simp
qed

section \<open>The parts of a turn\<close>

text \<open>
  C32 The line editor: for any keys before the end of the line, \<open>read_line\<close> leaves in the buffer the
  text of the pure editor (printable characters appended, backspace and delete removing the last,
  every other key ignored) followed by zeros, its length as the index, the echo of each key on the
  terminal, and the keyboard in the state after the line end.
\<close>

theorem shell_line_editor:
  assumes "ft_ctx (sh_kernel s)" and "keyboard_feed scs (k_keys (sh_kernel s)) = Some (cs, k1)"
    and "list_all (\<lambda>c. c \<noteq> 10 \<and> c \<noteq> 13) cs" and "length cs < SHELL_BUFSZ - 1"
    and "keyboard_handle sc k1 = Some (nl, k2)" and "nl = 10 \<or> nl = 13"
  shows "read_line (scs @ sc # rest) (replicate SHELL_BUFSZ 0) 0 s =
    Some (in_buffer (foldl edit [] cs), length (foldl edit [] cs), set_keys rest k2 (say (echoes [] cs @ [10]) s))"
  using read_line_eq [OF assms(1-3), of "[]" sc nl k2 rest] assms(4-6) by (simp add: in_buffer_def)

text \<open>The keys \<open>a\<close>, backspace, \<open>b\<close>, a control character and Enter.\<close>

theorem shell_line_editor_witness:
  "read_line [0x1E, 0x9E, 0x0E, 0x8E, 0x30, 0xB0, 0x0F, 0x1C] (replicate SHELL_BUFSZ 0) 0 (shell_on []) =
     Some (98 # replicate 255 0, 1, say [97, 8, 32, 8, 98, 10] (shell_on []))"
proof -
  let ?scs = "[0x1E, 0x9E, 0x0E, 0x8E, 0x30, 0xB0, 0x0F] :: bytes"
  have f: "keyboard_feed ?scs key_boot = Some ([97, 8, 98, 9], key_boot)"
    by (simp add: keyboard_handle_def key_release_def key_char_def scancodes key_boot_def scancode_set1_def)
  have e: "keyboard_handle 0x1C key_boot = Some (10, key_boot)"
    by (simp add: keyboard_handle_def key_char_def scancodes key_boot_def scancode_set1_def)
  have i: "set_keys [] key_boot (shell_on []) = shell_on []"
    by (simp add: set_keys_def shell_on_def shell_boot_def kernel_on_def syscall_init_def wrmsr_def Let_def)
  have "foldl edit [] [97, 8, 98, 9] = [98]" "echoes [] [97, 8, 98, 9] = [97, 8, 32, 8, 98]"
    "in_buffer [98] = 98 # replicate 255 0"
    by (simp_all add: edit_def echo_def in_buffer_def SHELL_BUFSZ_def)
  then show ?thesis
    using shell_line_editor [OF ok_ctx [OF shell_on_ok [of "[]"]], where scs = ?scs and cs = "[97, 8, 98, 9]"
        and ?k1.0 = key_boot and sc = "0x1C" and nl = 10 and ?k2.0 = key_boot and rest = "[]"] f e i
    by (simp add: shell_on_fields set_keys_say SHELL_BUFSZ_def)
qed

theorem shell_builtins_type_safe_witness:
  "(\<exists>t. shell_exec (\<lambda>_ _ _. None) (lit ''cd'') [lit ''cd'', lit ''bin'', lit ''>'', lit ''f''] 4 (shell_on []) = Some t \<and>
     shell_ok t \<and> \<not> shell_exit_requested t) \<and>
   (\<exists>t. shell_exec (\<lambda>_ _ _. None) (lit ''exit'') [lit ''exit''] 1 (shell_on []) = Some t \<and> shell_exit_requested t)"
proof -
  have "list_all terminated [lit ''cd'', lit ''bin'', lit ''>'', lit ''f'']" "terminated (lit ''cd'')"
    "cstr (lit ''cd'') \<in> str ` (fst ` set builtins - {''reboot'', ''gui''})"
    by (simp_all add: lit_def, intro image_eqI [of _ _ "''cd''"]) (simp_all add: builtins_def)
  note cd = shell_builtins_type_safe [OF shell_on_ok [of "[]"] this, of "\<lambda>_ _ _. None"]
  have "list_all terminated [lit ''exit'']" "terminated (lit ''exit'')"
    "cstr (lit ''exit'') \<in> str ` (fst ` set builtins - {''reboot'', ''gui''})"
    by (simp_all add: lit_def, intro image_eqI [of _ _ "''exit''"]) (simp_all add: builtins_def)
  note ex = shell_builtins_type_safe [OF shell_on_ok [of "[]"] this, of "\<lambda>_ _ _. None"]
  have "cstr (lit ''cd'') \<noteq> str ''exit''" "cstr (lit ''exit'') = str ''exit''" by (simp_all add: lit_def)
  then show ?thesis
    using cd ex shell_on_fields(4) [of "[]"] by (auto simp: eval_nat_numeral)
qed

end
