(* ===== verification/Traps.thy ===== *)
theory Traps
  imports Log ShellCorrect
begin

text \<open>
  The exceptions (\<open>isr_handler\<close> of \<open>kernel/src/src/idt.c\<close>), the return of a program to the kernel
  (\<open>usermode_return.c\<close>) and the trace of \<open>cpu.c\<close>. Both handlers end in a halted processor; the
  result is the state in which it halts. \<open>cr2\<close> is the faulting address the processor left, \<open>jmp\<close> the
  jump to user mode of the programs the shell starts.
\<close>

record registers =
  rg_r15 :: u64  rg_r14 :: u64  rg_r13 :: u64  rg_r12 :: u64  rg_r11 :: u64  rg_r10 :: u64  rg_r9 :: u64  rg_r8 :: u64
  rg_rsi :: u64  rg_rdi :: u64  rg_rbp :: u64  rg_rdx :: u64  rg_rcx :: u64  rg_rbx :: u64  rg_rax :: u64
  rg_int_no :: u64  rg_err_code :: u64
  rg_rip :: u64  rg_cs :: u64  rg_rflags :: u64  rg_rsp :: u64  rg_ss :: u64

definition log_on :: "(bytes \<Rightarrow> bytes) \<Rightarrow> log_item list \<Rightarrow> shell \<Rightarrow> shell option" where
  "log_on after items s = map_option (\<lambda>p. s\<lparr>sh_ports := p\<rparr>) (serial_log after items (sh_ports s))"

definition user_fault :: "registers \<Rightarrow> bool" where
  "user_fault r \<longleftrightarrow> (if rg_int_no r = 14 then rg_err_code r AND 4 \<noteq> 0 else rg_cs r = 0x1b)"

definition user_fault_log :: "u64 \<Rightarrow> registers \<Rightarrow> log_item list" where
  "user_fault_log cr2 r =
     [Msg ([10] @ str ''--- User Mode Fault ---'' @ [10]) 26,
      Msg (str '' INT: 0x'') 8, Num (rg_int_no r), Msg (str '', ERR: 0x'') 8, Num (rg_err_code r),
      Msg (str '' at RIP=0x'') 10, Num (rg_rip r), Msg [10] 1] @
     (if rg_int_no r = 14 then [Msg (str '' #PF accessing address 0x'') 26, Num cr2, Msg [10] 1] else [])"

definition fault_msg :: bytes where
  "fault_msg = [10] @ str ''User process fault. Returning to shell.'' @ [10]"

definition page_fault_log :: "u64 \<Rightarrow> registers \<Rightarrow> log_item list" where
  "page_fault_log cr2 r =
     [Msg (str '' #PF: Page Fault'' @ [10]) 18, Msg (str ''   Faulting Address: 0x'') 24, Num cr2,
      Msg ([10] @ str ''   Error Code: 0x'') 17, Num (rg_err_code r), Msg ([10] @ str ''     -> '') 7] @
     (if rg_err_code r AND 1 \<noteq> 0 then [Msg (str ''P=1 (present) '') 15] else [Msg (str ''P=0 (not present) '') 19]) @
     (if rg_err_code r AND 2 \<noteq> 0 then [Msg (str ''W=1 (write) '') 13] else [Msg (str ''R=1 (read) '') 12]) @
     (if rg_err_code r AND 4 \<noteq> 0 then [Msg (str ''U=1 (user) '') 12] else [Msg (str ''S=1 (supervisor) '') 18]) @
     (if rg_err_code r AND 8 \<noteq> 0 then [Msg (str ''RSVD=1 (reserved bit) '') 24] else []) @
     (if rg_err_code r AND 0x10 \<noteq> 0 then [Msg (str ''I/D=1 (instruction fetch)'') 26] else []) @
     [Msg [10] 1]"

definition register_log :: "registers \<Rightarrow> log_item list" where
  "register_log r =
     [Msg (str '' Kernel Registers:'' @ [10]) 19,
      Msg (str ''   RIP: 0x'') 10, Num (rg_rip r), Msg (str '' CS: 0x'') 7, Num (rg_cs r),
      Msg (str '' RFLAGS: 0x'') 11, Num (rg_rflags r), Msg [10] 1,
      Msg (str ''   RSP: 0x'') 10, Num (rg_rsp r), Msg (str '' SS: 0x'') 7, Num (rg_ss r), Msg [10] 1,
      Msg (str ''   RAX: 0x'') 10, Num (rg_rax r), Msg (str '' RBX: 0x'') 7, Num (rg_rbx r),
      Msg (str '' RCX: 0x'') 7, Num (rg_rcx r), Msg (str '' RDX: 0x'') 7, Num (rg_rdx r), Msg [10] 1,
      Msg (str ''   RSI: 0x'') 10, Num (rg_rsi r), Msg (str '' RDI: 0x'') 7, Num (rg_rdi r),
      Msg (str '' RBP: 0x'') 7, Num (rg_rbp r), Msg [10] 1,
      Msg (str ''    R8: 0x'') 10, Num (rg_r8 r), Msg (str ''  R9: 0x'') 7, Num (rg_r9 r),
      Msg (str '' R10: 0x'') 7, Num (rg_r10 r), Msg (str '' R11: 0x'') 7, Num (rg_r11 r), Msg [10] 1,
      Msg (str ''   R12: 0x'') 10, Num (rg_r12 r), Msg (str '' R13: 0x'') 7, Num (rg_r13 r),
      Msg (str '' R14: 0x'') 7, Num (rg_r14 r), Msg (str '' R15: 0x'') 7, Num (rg_r15 r), Msg [10] 1]"

definition kernel_fault_log :: "u64 \<Rightarrow> registers \<Rightarrow> log_item list" where
  "kernel_fault_log cr2 r =
     [Msg ([10] @ str ''--- Kernel Fault or Unhandled Interrupt ---'' @ [10]) 45,
      Msg (str '' INT: 0x'') 8, Num (rg_int_no r), Msg (str '', ERR: 0x'') 8, Num (rg_err_code r), Msg [10] 1] @
     (if rg_int_no r = 13
      then [Msg (str '' #GP: General Protection Fault'' @ [10]) 30, Msg (str ''   Error Code: 0x'') 16, Num (rg_err_code r),
            Msg (str '' (usually segment selector index or 0)'' @ [10]) 39]
      else if rg_int_no r = 14 then page_fault_log cr2 r else []) @
     register_log r"

definition halt_log :: "log_item list" where
  "halt_log = [Msg (str ''System Halted.'' @ [10]) 15]"

definition isr_handler ::
  "(bytes \<Rightarrow> bytes) \<Rightarrow> (u64 \<Rightarrow> u64 \<Rightarrow> kernel \<Rightarrow> kernel option) \<Rightarrow> u64 \<Rightarrow> registers \<Rightarrow> shell \<Rightarrow> shell option" where
  "isr_handler after jmp cr2 r s =
     (if user_fault r
      then do {
        s1 \<leftarrow> log_on after (user_fault_log cr2 r) s;
        s2 \<leftarrow> (if ft_ctx (sh_kernel s1) then Some s1 else None);
        s3 \<leftarrow> log_on after [Msg fault_msg (length fault_msg)] s2;
        let v = k_vm (sh_kernel s3);
        if g_kernel_pml4 v = 0
        then log_on after (Msg (str ''[ISR_HANDLER] FATAL: g_kernel_pml4 is NULL!'' @ [10]) 46 # halt_log) s3
        else do {
          s4 \<leftarrow> log_on after [Msg (str ''[ISR_HANDLER] Switching back to kernel PML4'' @ [10]) 42] s3;
          let s5 = s4\<lparr>sh_kernel := (sh_kernel s4)\<lparr>k_vm := vmm_switch_address_space (g_kernel_pml4 v) v\<rparr>\<rparr>;
          s6 \<leftarrow> log_on after [Msg (str ''[ISR_HANDLER] Enabling interrupts and running shell'' @ [10]) 51] s5;
          s7 \<leftarrow> shell_run jmp s6;
          log_on after (Msg (str ''[ISR_HANDLER] shell_run returned?! Halting.'' @ [10]) 44 # halt_log) s7 } }
      else log_on after (kernel_fault_log cr2 r @ halt_log) s)"

definition usermode_return_handler ::
  "(bytes \<Rightarrow> bytes) \<Rightarrow> (u64 \<Rightarrow> u64 \<Rightarrow> kernel \<Rightarrow> kernel option) \<Rightarrow> int \<Rightarrow> shell \<Rightarrow> shell option" where
  "usermode_return_handler after jmp code s = do {
     s1 \<leftarrow> log_on after [Msg (str ''[USERMODE_RETURN] Handler called with code '') 43, Num (word_of_int code), Msg [10] 1] s;
     let m = [10] @ str ''[Process returned to kernel]'' @ [10];
     s2 \<leftarrow> flanterm_write (take 29 m) s1;
     s3 \<leftarrow> log_on after [Msg m 29, Msg (str ''[USERMODE_RETURN] Returning to shell'' @ [10]) 37] s2;
     s4 \<leftarrow> shell_run jmp s3;
     log_on after [Msg (str ''[USERMODE_RETURN] Shell returned, halting'' @ [10]) 41] s4 }"

definition debug_print_iretq_frame :: "(bytes \<Rightarrow> bytes) \<Rightarrow> u64 \<Rightarrow> u64 \<Rightarrow> u64 \<Rightarrow> u64 \<Rightarrow> u64 \<Rightarrow> ports \<Rightarrow> ports option" where
  "debug_print_iretq_frame after rip cs rflags rsp ss = serial_log after
     [Msg (str ''iretq frame (before jump):'' @ [10]) 29,
      Msg (str ''  RIP:    '') 10, Num rip, Msg [10] 1, Msg (str ''  CS:     '') 10, Num cs, Msg [10] 1,
      Msg (str ''  RFLAGS: '') 10, Num rflags, Msg [10] 1, Msg (str ''  RSP:    '') 10, Num rsp, Msg [10] 1,
      Msg (str ''  SS:     '') 10, Num ss, Msg [10] 1]"

section \<open>Logs on the state\<close>

lemma log_on_returns:
  assumes "log_fits after items" and "log_size items \<le> ready_count (port_answers (sh_ports s))"
  obtains p where "log_on after items s = Some (s\<lparr>sh_ports := p\<rparr>)"
    and "sent COM1 p = sent COM1 (sh_ports s) @ log_text after items"
    and "ready_count (port_answers (sh_ports s)) - log_size items \<le> ready_count (port_answers p)"
  using serial_log_returns [OF assms] unfolding log_on_def by auto

lemma log_on_at:
  assumes "padded 4 after" and "log_slack 4 items" and "log_size items \<le> n"
    and "n \<le> ready_count (port_answers q)"
  obtains p where "log_on after items (s\<lparr>sh_ports := q\<rparr>) = Some (s\<lparr>sh_ports := p\<rparr>)"
    and "ready_count (port_answers q) - n \<le> ready_count (port_answers p)"
proof -
  have "log_size items \<le> ready_count (port_answers q)" using assms(3,4) by linarith
  from serial_log_returns [OF log_slack_fits [where after = after and k = 4, OF assms(1,2)] this] obtain p
    where p: "serial_log after items q = Some p" "ready_count (port_answers q) - log_size items \<le> ready_count (port_answers p)"
    by blast
  have "ready_count (port_answers q) - n \<le> ready_count (port_answers p)" using p(2) assms(3) by linarith
  then show ?thesis using p(1) by (intro that [of p]) (simp_all add: log_on_def)
qed

lemma ok_ports [simp]: "shell_ok (s\<lparr>sh_ports := p\<rparr>) = shell_ok s"
  by (simp add: shell_ok_def)

lemma ok_vm [simp]: "shell_ok (s\<lparr>sh_kernel := (sh_kernel s)\<lparr>k_vm := v\<rparr>\<rparr>) = shell_ok s"
  by (simp add: shell_ok_def)

lemma trap_log_slack:
  "log_slack 4 (user_fault_log cr2 r)" "log_slack 4 (page_fault_log cr2 r)" "log_slack 4 (register_log r)" "log_slack 4 halt_log"
  by (simp_all add: user_fault_log_def page_fault_log_def register_log_def halt_log_def)

lemma kernel_fault_slack: "log_slack 4 (kernel_fault_log cr2 r)"
  by (simp add: kernel_fault_log_def trap_log_slack)

lemma trap_log_size:
  "log_size (user_fault_log cr2 r) \<le> 159" "log_size (page_fault_log cr2 r) \<le> 232" "log_size (register_log r) \<le> 572" "log_size halt_log = 15"
  by (simp_all add: user_fault_log_def page_fault_log_def register_log_def halt_log_def)

lemma kernel_fault_size: "log_size (kernel_fault_log cr2 r) \<le> 910"
  using trap_log_size(2) [of cr2 r] trap_log_size(3) [of r] by (simp add: kernel_fault_log_def)


section \<open>Faults\<close>

definition on_kernel_tables :: "shell \<Rightarrow> shell" where
  "on_kernel_tables s = s\<lparr>sh_kernel := (sh_kernel s)\<lparr>k_vm :=
     vmm_switch_address_space (g_kernel_pml4 (k_vm (sh_kernel s))) (k_vm (sh_kernel s))\<rparr>\<rparr>"

lemma on_kernel_tables_simps [simp]:
  "shell_ok (on_kernel_tables s) = shell_ok s" "k_keys (sh_kernel (on_kernel_tables s)) = k_keys (sh_kernel s)"
  "k_scancodes (sh_kernel (on_kernel_tables s)) = k_scancodes (sh_kernel s)"
  "shell_exit_requested (on_kernel_tables s) = shell_exit_requested s" "sh_ports (on_kernel_tables s) = sh_ports s"
  "k_vm (sh_kernel (on_kernel_tables s)) = (k_vm (sh_kernel s))\<lparr>cr3 := g_kernel_pml4 (k_vm (sh_kernel s))\<rparr>"
  by (simp_all add: on_kernel_tables_def vmm_switch_address_space_def)

definition end_log :: "log_item list" where
  "end_log = Msg (str ''[ISR_HANDLER] shell_run returned?! Halting.'' @ [10]) 44 # halt_log"

lemma end_log_facts: "log_slack 4 end_log" "log_size end_log = 59"
  by (simp_all add: end_log_def halt_log_def)

lemma user_fault_starts_shell:
  assumes "user_fault r" and "ft_ctx (sh_kernel s)" and "g_kernel_pml4 (k_vm (sh_kernel s)) \<noteq> 0"
    and after: "padded 4 after" and ready: "300 \<le> ready_count (port_answers (sh_ports s))"
  obtains p where "isr_handler after jmp cr2 r s =
      do { t \<leftarrow> shell_run jmp (on_kernel_tables (s\<lparr>sh_ports := p\<rparr>)); log_on after end_log t }"
    and "ready_count (port_answers (sh_ports s)) - 300 \<le> ready_count (port_answers p)"
proof -
  let ?l2 = "[Msg fault_msg (length fault_msg)]"
  let ?l3 = "[Msg (str ''[ISR_HANDLER] Switching back to kernel PML4'' @ [10]) 42]"
  let ?l4 = "[Msg (str ''[ISR_HANDLER] Enabling interrupts and running shell'' @ [10]) 51]"
  have sz: "log_size ?l2 = 41" "log_size ?l3 = 42" "log_size ?l4 = 51" by (simp_all add: fault_msg_def)
  have sl: "log_slack 4 ?l2" "log_slack 4 ?l3" "log_slack 4 ?l4" by simp_all
  have s: "s\<lparr>sh_ports := sh_ports s\<rparr> = s" by simp
  obtain p1 where p1: "log_on after (user_fault_log cr2 r) (s\<lparr>sh_ports := sh_ports s\<rparr>) = Some (s\<lparr>sh_ports := p1\<rparr>)"
    "ready_count (port_answers (sh_ports s)) - 159 \<le> ready_count (port_answers p1)"
    by (rule log_on_at [where after = after and q = "sh_ports s" and s = "s", OF after trap_log_slack(1) trap_log_size(1)]) (use ready in linarith, blast)
  obtain p2 where p2: "log_on after ?l2 (s\<lparr>sh_ports := p1\<rparr>) = Some (s\<lparr>sh_ports := p2\<rparr>)"
    "ready_count (port_answers p1) - 41 \<le> ready_count (port_answers p2)"
    by (rule log_on_at [where after = after and q = "p1" and s = "s", OF after sl(1) eq_refl [OF sz(1)]]) (use ready p1(2) in linarith, blast)
  obtain p3 where p3: "log_on after ?l3 (s\<lparr>sh_ports := p2\<rparr>) = Some (s\<lparr>sh_ports := p3\<rparr>)"
    "ready_count (port_answers p2) - 42 \<le> ready_count (port_answers p3)"
    by (rule log_on_at [where after = after and q = "p2" and s = "s", OF after sl(2) eq_refl [OF sz(2)]]) (use ready p1(2) p2(2) in linarith, blast)
  let ?s3 = "s\<lparr>sh_ports := p3\<rparr>"
  obtain p4 where p4: "log_on after ?l4 (on_kernel_tables s\<lparr>sh_ports := p3\<rparr>) = Some (on_kernel_tables s\<lparr>sh_ports := p4\<rparr>)"
    "ready_count (port_answers p3) - 51 \<le> ready_count (port_answers p4)"
    by (rule log_on_at [where after = after and q = "p3" and s = "on_kernel_tables s", OF after sl(3) eq_refl [OF sz(3)]]) (use ready p1(2) p2(2) p3(2) in linarith, blast)
  have k: "on_kernel_tables s\<lparr>sh_ports := p\<rparr> = on_kernel_tables (s\<lparr>sh_ports := p\<rparr>)" for p by (simp add: on_kernel_tables_def)
  have "isr_handler after jmp cr2 r s =
      do { t \<leftarrow> shell_run jmp (on_kernel_tables (s\<lparr>sh_ports := p4\<rparr>)); log_on after end_log t }"
    using assms(1-3) p1(1) p2(1) p3(1) p4(1) unfolding k s
    by (simp add: isr_handler_def end_log_def on_kernel_tables_def Let_def)
  moreover have "ready_count (port_answers (sh_ports s)) - 300 \<le> ready_count (port_answers p4)"
    using p1(2) p2(2) p3(2) p4(2) by linarith
  ultimately show ?thesis by (rule that)
qed

lemma end_log_returns:
  assumes "padded 4 after" and "59 \<le> ready_count (port_answers (sh_ports s))"
  obtains p where "log_on after end_log s = Some (s\<lparr>sh_ports := p\<rparr>)"
    and "ready_count (port_answers (sh_ports s)) - 59 \<le> ready_count (port_answers p)"
  by (rule log_on_returns [OF log_slack_fits [where after = after and k = 4, OF assms(1) end_log_facts(1)], of s])
    (use assms(2) in \<open>simp add: end_log_facts\<close>, simp add: end_log_facts)

text \<open>
  C10 A fault of a user program: from a well-formed state the handler abandons the program, loads the
  page tables of the kernel and runs the shell; when the keys to come are a session, the handler
  returns from it to halt the processor, with the memory and every frame as the fault left them (the
  pages of the program are never freed). After that session the flag of \<open>exit\<close> is set, so that a
  second fault halts the system at once, without reading a key.
\<close>

theorem user_fault_returns_to_shell:
  assumes "user_fault r" and "user_fault r'" and "shell_ok s" and "\<not> shell_exit_requested s"
    and "g_kernel_pml4 (k_vm (sh_kernel s)) \<noteq> 0" and after: "padded 4 after"
    and ready: "720 \<le> ready_count (port_answers (sh_ports s))" and "list_all quiet_line ls"
    and "session (k_keys (sh_kernel s)) keys (ls @ [str ''exit'']) k'" and "k_scancodes (sh_kernel s) = keys @ rest"
  shows "\<exists>t u. isr_handler after jmp cr2 r s = Some t \<and> shell_ok t \<and> k_scancodes (sh_kernel t) = rest \<and>
    k_vm (sh_kernel t) = (k_vm (sh_kernel s))\<lparr>cr3 := g_kernel_pml4 (k_vm (sh_kernel s))\<rparr> \<and>
    isr_handler after jmp cr2' r' t = Some u \<and> k_scancodes (sh_kernel u) = rest"
proof -
  have r: "300 \<le> ready_count (port_answers (sh_ports s))" using ready by simp
  obtain p where p: "isr_handler after jmp cr2 r s =
      do { t \<leftarrow> shell_run jmp (on_kernel_tables (s\<lparr>sh_ports := p\<rparr>)); log_on after end_log t }"
    "ready_count (port_answers (sh_ports s)) - 300 \<le> ready_count (port_answers p)"
    by (rule user_fault_starts_shell [OF assms(1) ok_ctx [OF assms(3)] assms(5) after r, where jmp = jmp and ?cr2.0 = cr2])
  let ?s = "on_kernel_tables (s\<lparr>sh_ports := p\<rparr>)"
  have "\<exists>t. shell_run jmp ?s = Some t \<and> shell_ok t \<and> shell_exit_requested t \<and> k_scancodes (sh_kernel t) = rest \<and> machine t = machine ?s"
    by (rule session_returns) (use assms in simp_all)
  then obtain t where t: "shell_run jmp ?s = Some t" "shell_ok t" "shell_exit_requested t" "k_scancodes (sh_kernel t) = rest"
    "machine t = machine ?s" by blast
  then have tp: "sh_ports t = p" "k_vm (sh_kernel t) = (k_vm (sh_kernel s))\<lparr>cr3 := g_kernel_pml4 (k_vm (sh_kernel s))\<rparr>"
    by (simp_all add: machine_def)
  have "59 \<le> ready_count (port_answers (sh_ports t))" using ready p(2) tp(1) by simp
  then obtain q where q: "log_on after end_log t = Some (t\<lparr>sh_ports := q\<rparr>)"
    "ready_count (port_answers (sh_ports t)) - 59 \<le> ready_count (port_answers q)"
    by (rule end_log_returns [OF after])
  let ?t = "t\<lparr>sh_ports := q\<rparr>"
  have r2: "300 \<le> ready_count (port_answers (sh_ports ?t))" using ready p(2) q(2) tp(1) by simp
  obtain p' where p': "isr_handler after jmp cr2' r' ?t =
      do { u \<leftarrow> shell_run jmp (on_kernel_tables (?t\<lparr>sh_ports := p'\<rparr>)); log_on after end_log u }"
    "ready_count (port_answers (sh_ports ?t)) - 300 \<le> ready_count (port_answers p')"
    by (rule user_fault_starts_shell [OF assms(2) _ _ after r2, where jmp = jmp and ?cr2.0 = cr2']) (use t(2) tp(2) assms(5) in \<open>simp_all add: ok_ctx\<close>)
  let ?t' = "on_kernel_tables (?t\<lparr>sh_ports := p'\<rparr>)"
  obtain u where u: "shell_run jmp ?t' = Some u" "shell_keeps ?t' u"
    using run_after_exit [of ?t' jmp] t(2,3) by auto
  then have up: "sh_ports u = p'" "k_scancodes (sh_kernel u) = rest" using t(4) by (simp_all add: shell_keeps_def machine_def)
  have "59 \<le> ready_count (port_answers (sh_ports u))" using ready p(2) q(2) p'(2) tp(1) up(1) by simp
  then obtain v where "log_on after end_log u = Some (u\<lparr>sh_ports := v\<rparr>)" by (rule end_log_returns [OF after])
  with p(1) t(1,2,4) tp(2) q(1) p'(1) u(1) up show ?thesis by simp
qed

text \<open>
  A fault of the kernel: the handler sends the report, with the cause of a page fault and every
  register, and halts with nothing but the serial port touched.
\<close>

theorem kernel_fault_halts:
  assumes "\<not> user_fault r" and "padded 4 after" and "925 \<le> ready_count (port_answers (sh_ports s))"
  shows "\<exists>p. isr_handler after jmp cr2 r s = Some (s\<lparr>sh_ports := p\<rparr>) \<and>
    sent COM1 p = sent COM1 (sh_ports s) @ log_text after (kernel_fault_log cr2 r @ halt_log)"
proof -
  have "log_fits after (kernel_fault_log cr2 r @ halt_log)"
    by (rule log_slack_fits [OF assms(2)]) (simp add: kernel_fault_slack trap_log_slack)
  moreover have "log_size (kernel_fault_log cr2 r @ halt_log) \<le> ready_count (port_answers (sh_ports s))"
    using kernel_fault_size [of cr2 r] assms(3) by (simp add: trap_log_size)
  ultimately obtain p where "log_on after (kernel_fault_log cr2 r @ halt_log) s = Some (s\<lparr>sh_ports := p\<rparr>)"
    "sent COM1 p = sent COM1 (sh_ports s) @ log_text after (kernel_fault_log cr2 r @ halt_log)"
    by (rule log_on_returns)
  then show ?thesis using assms(1) by (intro exI [of _ p]) (simp add: isr_handler_def)
qed

section \<open>Instances\<close>

definition a_fault :: "u64 \<Rightarrow> u64 \<Rightarrow> u64 \<Rightarrow> registers" where
  "a_fault n e c = \<lparr>rg_r15 = 0, rg_r14 = 0, rg_r13 = 0, rg_r12 = 0, rg_r11 = 0, rg_r10 = 0, rg_r9 = 0, rg_r8 = 0,
     rg_rsi = 0, rg_rdi = 0, rg_rbp = 0, rg_rdx = 0, rg_rcx = 0, rg_rbx = 0, rg_rax = 0, rg_int_no = n, rg_err_code = e,
     rg_rip = 0x400000, rg_cs = c, rg_rflags = 0x202, rg_rsp = 0, rg_ss = 0\<rparr>"

lemma a_fault_fields [simp]:
  "rg_int_no (a_fault n e c) = n" "rg_err_code (a_fault n e c) = e" "rg_cs (a_fault n e c) = c"
  by (simp_all add: a_fault_def)

definition faulting_shell :: "bytes \<Rightarrow> shell" where
  "faulting_shell scs = shell_on scs\<lparr>sh_ports := \<lparr>port_answers = replicate 1000 0x20, port_log = []\<rparr>\<rparr>"

lemma faulting_shell_fields:
  "shell_ok (faulting_shell scs)" "\<not> shell_exit_requested (faulting_shell scs)" "k_keys (sh_kernel (faulting_shell scs)) = key_boot"
  "k_scancodes (sh_kernel (faulting_shell scs)) = scs" "k_vm (sh_kernel (faulting_shell scs)) = vm_example"
  "ready_count (port_answers (sh_ports (faulting_shell scs))) = 1000"
  using shell_on_ok [of scs] shell_on_fields [of scs]
  by (simp_all add: faulting_shell_def ready_count_def filter_replicate) (simp add: shell_on_def shell_boot_def)

text \<open>A write of a program to a page that is not mapped, and later a privileged instruction.\<close>

theorem user_fault_returns_to_shell_witness:
  "\<exists>t u. isr_handler (\<lambda>_. [0, 0, 0, 0]) (\<lambda>_ _ _. None) 0x1234 (a_fault 14 6 0x1b)
       (faulting_shell [0x12, 0x92, 0x2D, 0xAD, 0x17, 0x97, 0x14, 0x94, 0x1C, 0x9C]) = Some t \<and>
     cr3 (k_vm (sh_kernel t)) = g_kernel_pml4 vm_example \<and>
     isr_handler (\<lambda>_. [0, 0, 0, 0]) (\<lambda>_ _ _. None) 0 (a_fault 13 0 0x1b) t = Some u \<and> k_scancodes (sh_kernel u) = [0x9C]"
proof -
  have k: "\<not> ctrl_down key_boot" "\<not> shift_down key_boot" by (simp_all add: key_boot_def)
  have "types_line key_boot ([] @ concat (map type_char (str ''exit'')) @ [0x1C]) (str ''exit'') key_boot"
    by (rule types_line_typed) (simp_all add: k typable_def scancode_set1_def SHELL_BUFSZ_def)
  then have l: "types_line key_boot [0x12, 0x92, 0x2D, 0xAD, 0x17, 0x97, 0x14, 0x94, 0x1C] (str ''exit'') key_boot"
    by (simp add: type_char_def index_of_def scancode_set1_def)
  have ses: "session key_boot ([0x12, 0x92, 0x2D, 0xAD, 0x17, 0x97, 0x14, 0x94, 0x1C] @ []) ([] @ [str ''exit'']) key_boot"
    using session_line [OF l session_end] by simp
  have f: "user_fault (a_fault 14 6 0x1b)" "user_fault (a_fault 13 0 0x1b)" by (simp_all add: user_fault_def)
  have g: "g_kernel_pml4 vm_example \<noteq> 0" by (simp add: vm_example_def)
  from user_fault_returns_to_shell [OF f faulting_shell_fields(1,2), unfolded faulting_shell_fields, OF g _ _ _ ses,
      where after = "\<lambda>_. [0, 0, 0, 0]" and rest = "[0x9C]" and jmp = "\<lambda>_ _ _. None" and ?cr2.0 = "0x1234" and ?cr2'.0 = 0]
  show ?thesis by auto
qed

theorem kernel_fault_halts_witness:
  "\<exists>p. isr_handler (\<lambda>_. [0, 0, 0, 0]) (\<lambda>_ _ _. None) 0xFFFF900000000000 (a_fault 14 2 8) (faulting_shell []) =
     Some (faulting_shell []\<lparr>sh_ports := p\<rparr>)"
  using kernel_fault_halts [of "a_fault 14 2 8" "\<lambda>_. [0, 0, 0, 0]" "faulting_shell []" "\<lambda>_ _ _. None" "0xFFFF900000000000"]
  by (auto simp: user_fault_def faulting_shell_fields)

end
