(* ===== verification/Descriptors.thy ===== *)
theory Descriptors
  imports Log Endian
begin

text \<open>
  The descriptor tables of the processor (\<open>kernel/src/src/gdt.c\<close>, \<open>idt.c\<close> and their headers): the
  segments and the task state segment, and the interrupt gates. \<open>seg_base\<close>, \<open>seg_limit\<close> and
  \<open>tss_base\<close> are what the processor reads from a descriptor.
\<close>

definition le16 :: "u16 \<Rightarrow> bytes" where "le16 w = [ucast w, ucast (drop_bit 8 w)]"

text \<open>A store of bytes at an offset of a table.\<close>

definition put_bytes :: "nat \<Rightarrow> bytes \<Rightarrow> bytes \<Rightarrow> bytes option" where
  "put_bytes off bs t = (if off + length bs \<le> length t then Some (take off t @ bs @ drop (off + length bs) t) else None)"

section \<open>Segments\<close>

definition GDT_ENTRIES :: nat where "GDT_ENTRIES = 7"

record gdt_entry =
  ge_limit_low :: u16
  ge_base_low :: u16
  ge_base_middle :: u8
  ge_access :: u8
  ge_granularity :: u8
  ge_base_high :: u8

definition gdt_entry_bytes :: "gdt_entry \<Rightarrow> bytes" where
  "gdt_entry_bytes e = le16 (ge_limit_low e) @ le16 (ge_base_low e) @
     [ge_base_middle e, ge_access e, ge_granularity e, ge_base_high e]"

definition set_gdt_entry :: "nat \<Rightarrow> u32 \<Rightarrow> u32 \<Rightarrow> u8 \<Rightarrow> u8 \<Rightarrow> bytes \<Rightarrow> bytes option" where
  "set_gdt_entry num base limit access gran gdt = put_bytes (8 * num) (gdt_entry_bytes
     \<lparr>ge_limit_low = ucast (limit AND 0xFFFF), ge_base_low = ucast (base AND 0xFFFF),
      ge_base_middle = ucast (drop_bit 16 base AND 0xFF), ge_access = access,
      ge_granularity = ucast (drop_bit 16 limit AND 0x0F) OR (gran AND 0xF0),
      ge_base_high = ucast (drop_bit 24 base AND 0xFF)\<rparr>) gdt"

text \<open>The task state segment; \<open>reserved\<close> are the fields that stay zero.\<close>

record tss_entry =
  tss_rsp0 :: u64
  tss_reserved :: "u64 list"
  tss_iomap_base :: u16

definition SIZEOF_TSS :: nat where "SIZEOF_TSS = 104"

record gdt_state =
  gdt :: bytes
  gp_limit :: u16
  gp_base :: u64
  tss :: tss_entry
  gdt_loaded :: bool

text \<open>The 16 bytes of the descriptor of the task state segment.\<close>

definition tss_desc :: "u64 \<Rightarrow> u16 \<Rightarrow> bytes" where
  "tss_desc base limit =
     [ucast (limit AND 0xFF), ucast (drop_bit 8 limit AND 0xFF),
      ucast (base AND 0xFF), ucast (drop_bit 8 base AND 0xFF), ucast (drop_bit 16 base AND 0xFF),
      0x89, 0,
      ucast (drop_bit 16 (ucast limit :: u32) AND 0x0F) OR ucast (drop_bit 24 base AND 0xF0),
      ucast (drop_bit 32 base AND 0xFF), ucast (drop_bit 40 base AND 0xFF),
      ucast (drop_bit 48 base AND 0xFF), ucast (drop_bit 56 base AND 0xFF),
      0, 0, 0, 0]"

definition gdt_log :: "bytes \<Rightarrow> log_item list" where
  "gdt_log g =
     [Msg (str ''User code GDT[3]: access=0x'') 28, Num (ucast (g ! 29)), Msg (str '' gran=0x'') 9, Num (ucast (g ! 30)), Msg [10] 1,
      Msg (str ''User data GDT[4]: access=0x'') 28, Num (ucast (g ! 37)), Msg (str '' gran=0x'') 9, Num (ucast (g ! 38)), Msg [10] 1]"

text \<open>The arguments are the addresses of \<open>gdt\<close> and \<open>tss\<close> and of the top of the kernel stack.\<close>

definition gdt_init ::
  "(bytes \<Rightarrow> bytes) \<Rightarrow> u64 \<Rightarrow> u64 \<Rightarrow> u64 \<Rightarrow> gdt_state \<Rightarrow> ports \<Rightarrow> (gdt_state \<times> ports) option" where
  "gdt_init after gdt_addr tss_addr kernel_stack_top s p = do {
     p1 \<leftarrow> serial_log after [Msg (str ''GDT: Initializing...'' @ [10]) 22] p;
     g \<leftarrow> set_gdt_entry 0 0 0 0 0 (gdt s);
     g \<leftarrow> set_gdt_entry 1 0 0xFFFFF 0x9A 0xA0 g;
     g \<leftarrow> set_gdt_entry 2 0 0xFFFFF 0x92 0xC0 g;
     g \<leftarrow> set_gdt_entry 3 0 0xFFFFF 0xFA 0xA0 g;
     g \<leftarrow> set_gdt_entry 4 0 0xFFFFF 0xF2 0xC0 g;
     g \<leftarrow> set_gdt_entry 5 0 0 0 0 g;
     g \<leftarrow> set_gdt_entry 6 0 0 0 0 g;
     p2 \<leftarrow> serial_log after (gdt_log g) p1;
     g \<leftarrow> put_bytes 40 (tss_desc tss_addr (word_of_nat (SIZEOF_TSS - 1))) g;
     p3 \<leftarrow> serial_log after [Msg (str ''GDT: Initialized'' @ [10]) 17] p2;
     Some (\<lparr>gdt = g, gp_limit = word_of_nat (GDT_ENTRIES * 8 - 1), gp_base = gdt_addr,
       tss = \<lparr>tss_rsp0 = kernel_stack_top, tss_reserved = replicate 12 0, tss_iomap_base = word_of_nat SIZEOF_TSS\<rparr>,
       gdt_loaded = True\<rparr>, p3) }"

section \<open>Interrupt gates\<close>

record idt_entry =
  ie_offset_low :: u16
  ie_selector :: u16
  ie_ist :: u8
  ie_type_attr :: u8
  ie_offset_mid :: u16
  ie_offset_high :: u32
  ie_zero :: u32

definition zero_gate :: idt_entry where
  "zero_gate = \<lparr>ie_offset_low = 0, ie_selector = 0, ie_ist = 0, ie_type_attr = 0, ie_offset_mid = 0, ie_offset_high = 0, ie_zero = 0\<rparr>"

definition IDT_TA_InterruptGate :: u8 where "IDT_TA_InterruptGate = 0x8E"

definition idt_set_gate :: "u8 \<Rightarrow> u64 \<Rightarrow> u16 \<Rightarrow> u8 \<Rightarrow> idt_entry list \<Rightarrow> idt_entry list option" where
  "idt_set_gate num base sel flags idt = wr idt (unat num)
     \<lparr>ie_offset_low = ucast (base AND 0xFFFF), ie_selector = sel, ie_ist = 0, ie_type_attr = flags,
      ie_offset_mid = ucast (drop_bit 16 base AND 0xFFFF), ie_offset_high = ucast (drop_bit 32 base AND 0xFFFFFFFF),
      ie_zero = 0\<rparr>"

record idt_state =
  idt_entries :: "idt_entry list"
  ip_limit :: u16
  ip_base :: u64
  idt_is_loaded :: bool

text \<open>The arguments are the addresses of the table and of the two assembly stubs.\<close>

definition idt_init :: "(bytes \<Rightarrow> bytes) \<Rightarrow> u64 \<Rightarrow> u64 \<Rightarrow> u64 \<Rightarrow> idt_state \<Rightarrow> ports \<Rightarrow> (idt_state \<times> ports) option" where
  "idt_init after idt_addr isr13 isr14 s p = do {
     p1 \<leftarrow> serial_log after [Msg (str ''IDT: Initializing...'' @ [10]) 23] p;
     idt \<leftarrow> idt_set_gate 13 isr13 0x08 IDT_TA_InterruptGate (replicate (length (idt_entries s)) zero_gate);
     idt \<leftarrow> idt_set_gate 14 isr14 0x08 IDT_TA_InterruptGate idt;
     p2 \<leftarrow> serial_log after [Msg (str ''IDT: Loaded.'' @ [10]) 14] p1;
     Some (\<lparr>idt_entries = idt, ip_limit = word_of_nat (256 * 16 - 1), ip_base = idt_addr, idt_is_loaded = True\<rparr>, p2) }"

section \<open>What the processor reads\<close>

definition seg_bytes :: "nat \<Rightarrow> bytes \<Rightarrow> bytes" where
  "seg_bytes num t = take 8 (drop (8 * num) t)"

definition seg_base :: "bytes \<Rightarrow> u32" where
  "seg_base d = ucast (d ! 2) OR push_bit 8 (ucast (d ! 3)) OR push_bit 16 (ucast (d ! 4)) OR push_bit 24 (ucast (d ! 7))"

definition seg_limit :: "bytes \<Rightarrow> u32" where
  "seg_limit d = ucast (d ! 0) OR push_bit 8 (ucast (d ! 1)) OR push_bit 16 (ucast (d ! 6) AND 0x0F)"

definition tss_base :: "bytes \<Rightarrow> u64" where
  "tss_base d = ucast (seg_base d) OR push_bit 32 (ucast (d ! 8)) OR push_bit 40 (ucast (d ! 9)) OR
     push_bit 48 (ucast (d ! 10)) OR push_bit 56 (ucast (d ! 11))"

definition gate_offset :: "idt_entry \<Rightarrow> u64" where
  "gate_offset e = ucast (ie_offset_low e) OR push_bit 16 (ucast (ie_offset_mid e)) OR push_bit 32 (ucast (ie_offset_high e))"

lemma and_masks:
  "w AND 0x0F = take_bit 4 (w :: 'a :: len word)" "w AND 0xFF = take_bit 8 w" "w AND 0xFFFF = take_bit 16 w"
  "w AND 0xFFFFFFFF = take_bit 32 w"
  by (simp_all add: take_bit_eq_mask mask_eq_exp_minus_1)

lemma and_F0: "w AND 0xF0 = take_bit 8 (w :: 'a :: len word) AND NOT (take_bit 4 w)"
proof -
  have "(0xF0 :: 'a word) = mask 8 AND NOT (mask 4)" by (simp add: mask_eq_exp_minus_1)
  then have "w AND 0xF0 = w AND (mask 8 AND NOT (mask 4))" by (simp only:)
  also have "\<dots> = take_bit 8 w AND NOT (take_bit 4 w)" by (rule bit_word_eqI) (auto simp: bit_simps)
  finally show ?thesis .
qed

lemma gate_offset_join: "gate_offset \<lparr>ie_offset_low = ucast (base AND 0xFFFF), ie_selector = sel, ie_ist = 0, ie_type_attr = flags,
      ie_offset_mid = ucast (drop_bit 16 base AND 0xFFFF), ie_offset_high = ucast (drop_bit 32 base AND 0xFFFFFFFF), ie_zero = 0\<rparr> = base"
proof (rule bit_word_eqI)
  fix n assume "n < LENGTH(64)"
  then show "bit (gate_offset \<lparr>ie_offset_low = ucast (base AND 0xFFFF), ie_selector = sel, ie_ist = 0, ie_type_attr = flags,
      ie_offset_mid = ucast (drop_bit 16 base AND 0xFFFF), ie_offset_high = ucast (drop_bit 32 base AND 0xFFFFFFFF), ie_zero = 0\<rparr>) n =
      bit base n"
    unfolding gate_offset_def idt_entry.simps and_masks
    by (cases "n < 16"; cases "n < 32") (auto simp: bit_simps)
qed

section \<open>Properties\<close>

lemma put_bytes_seg:
  assumes "length bs = 8" and "8 * num + 8 \<le> length t"
  obtains t' where "put_bytes (8 * num) bs t = Some t'" and "length t' = length t" and "seg_bytes num t' = bs"
    and "\<And>m. m \<noteq> num \<Longrightarrow> seg_bytes m t' = seg_bytes m t"
proof -
  let ?t = "take (8 * num) t @ bs @ drop (8 * num + 8) t"
  have "seg_bytes m ?t = seg_bytes m t" if "m \<noteq> num" for m
  proof (cases "m < num")
    case True
    then have "8 * m + 8 \<le> 8 * num" by simp
    then show ?thesis using assms by (simp add: seg_bytes_def take_drop min_def)
  next
    case False
    then have "8 * m = 8 * num + 8 + 8 * (m - num - 1)" using that by (simp add: algebra_simps)
    then show ?thesis using assms that False by (simp add: seg_bytes_def add.commute)
  qed
  moreover have "seg_bytes num ?t = bs" using assms by (simp add: seg_bytes_def min_def)
  ultimately show ?thesis using that [of ?t] assms by (simp add: put_bytes_def)
qed

text \<open>
  A segment descriptor: \<open>set_gdt_entry\<close> writes exactly its 8 bytes of the table, and the processor
  reads back the base, the low 20 bits of the limit, the access byte and the flags it was given.
\<close>

theorem set_gdt_entry_encodes:
  assumes "num < GDT_ENTRIES" and "length t = 8 * GDT_ENTRIES"
  shows "\<exists>t'. set_gdt_entry num base limit access gran t = Some t' \<and>
    seg_base (seg_bytes num t') = base \<and> seg_limit (seg_bytes num t') = take_bit 20 limit \<and>
    seg_bytes num t' ! 5 = access \<and> seg_bytes num t' ! 6 AND 0xF0 = gran AND 0xF0 \<and>
    (\<forall>m. m \<noteq> num \<longrightarrow> seg_bytes m t' = seg_bytes m t)"
proof -
  let ?g = "ucast (take_bit 4 (drop_bit 16 limit)) OR (gran AND 0xF0) :: u8"
  let ?bs = "[ucast limit, ucast (drop_bit 8 limit), ucast base, ucast (drop_bit 8 base), ucast (drop_bit 16 base), access,
    ?g, ucast (drop_bit 24 base)] :: bytes"
  have "set_gdt_entry num base limit access gran t = put_bytes (8 * num) ?bs t"
    unfolding set_gdt_entry_def gdt_entry_bytes_def le16_def gdt_entry.simps and_masks
    by (rule arg_cong [where f = "\<lambda>b. put_bytes (8 * num) b t"])
      (auto intro!: bit_word_eqI simp: bit_simps)
  moreover obtain t' where t': "put_bytes (8 * num) ?bs t = Some t'" "seg_bytes num t' = ?bs"
    "\<And>m. m \<noteq> num \<Longrightarrow> seg_bytes m t' = seg_bytes m t"
    by (rule put_bytes_seg [of ?bs num t]) (use assms in \<open>auto simp: GDT_ENTRIES_def\<close>)
  moreover have "seg_base ?bs = base"
  proof (rule bit_word_eqI)
    fix n assume "n < LENGTH(32)"
    then show "bit (seg_base ?bs) n = bit base n"
      unfolding seg_base_def by (cases "n < 8"; cases "n < 16"; cases "n < 24") (auto simp: bit_simps)
  qed
  moreover have "seg_limit ?bs = take_bit 20 limit"
  proof (rule bit_word_eqI)
    fix n assume "n < LENGTH(32)"
    then show "bit (seg_limit ?bs) n = bit (take_bit 20 limit) n"
      unfolding seg_limit_def and_masks and_F0 by (cases "n < 8"; cases "n < 16"; cases "n < 20") (auto simp: bit_simps)
  qed
  moreover have "?g AND 0xF0 = gran AND 0xF0"
    unfolding and_F0 by (rule bit_word_eqI) (auto simp: bit_simps)
  ultimately show ?thesis by simp
qed

definition seg_desc :: "u8 \<Rightarrow> u8 \<Rightarrow> bytes" where
  "seg_desc access flags = [0xFF, 0xFF, 0, 0, 0, access, flags, 0]"

definition gdt_table :: "bytes \<Rightarrow> bytes" where
  "gdt_table d = replicate 8 0 @ seg_desc 0x9A 0xAF @ seg_desc 0x92 0xCF @ seg_desc 0xFA 0xAF @ seg_desc 0xF2 0xCF @ d"

lemma set_gdt_entry_at:
  assumes "length a = 8 * num" and "length old = 8"
    and "gdt_entry_bytes \<lparr>ge_limit_low = ucast (limit AND 0xFFFF), ge_base_low = ucast (base AND 0xFFFF),
      ge_base_middle = ucast (drop_bit 16 base AND 0xFF), ge_access = access,
      ge_granularity = ucast (drop_bit 16 limit AND 0x0F) OR (gran AND 0xF0),
      ge_base_high = ucast (drop_bit 24 base AND 0xFF)\<rparr> = d"
  shows "set_gdt_entry num base limit access gran (a @ old @ b) = Some (a @ d @ b)"
proof -
  have "length d = 8" unfolding assms(3) [symmetric] by (simp add: gdt_entry_bytes_def le16_def)
  then show ?thesis using assms(1,2) unfolding set_gdt_entry_def assms(3) by (simp add: put_bytes_def)
qed

lemma gdt_table_built:
  "do { g \<leftarrow> set_gdt_entry 0 0 0 0 0 (replicate 56 0);
     g \<leftarrow> set_gdt_entry 1 0 0xFFFFF 0x9A 0xA0 g;
     g \<leftarrow> set_gdt_entry 2 0 0xFFFFF 0x92 0xC0 g;
     g \<leftarrow> set_gdt_entry 3 0 0xFFFFF 0xFA 0xA0 g;
     g \<leftarrow> set_gdt_entry 4 0 0xFFFFF 0xF2 0xC0 g;
     g \<leftarrow> set_gdt_entry 5 0 0 0 0 g;
     set_gdt_entry 6 0 0 0 0 g } = Some (gdt_table (replicate 16 0))"
proof -
  let ?z = "replicate 8 0 :: bytes"
  have z: "?z = [0, 0, 0, 0, 0, 0, 0, 0]" by (simp add: numeral_eq_Suc)
  note e = gdt_entry_bytes_def le16_def seg_desc_def z
  let ?k = "seg_desc 0x9A 0xAF" and ?d = "seg_desc 0x92 0xCF" and ?u = "seg_desc 0xFA 0xAF" and ?v = "seg_desc 0xF2 0xCF"
  have r: "replicate 56 (0 :: u8) = [] @ ?z @ (?z @ ?z @ ?z @ ?z @ ?z @ ?z)" "replicate 16 (0 :: u8) = ?z @ ?z"
    by (simp_all add: replicate_add [symmetric])
  have s0: "set_gdt_entry 0 0 0 0 0 ([] @ ?z @ b) = Some ([] @ ?z @ b)" for b
    by (rule set_gdt_entry_at) (simp_all add: e)
  have s1: "set_gdt_entry 1 0 0xFFFFF 0x9A 0xA0 (?z @ ?z @ b) = Some (?z @ ?k @ b)" for b
    by (rule set_gdt_entry_at) (simp_all add: e)
  have s2: "set_gdt_entry 2 0 0xFFFFF 0x92 0xC0 ((?z @ ?k) @ ?z @ b) = Some ((?z @ ?k) @ ?d @ b)" for b
    by (rule set_gdt_entry_at) (simp_all add: e)
  have s3: "set_gdt_entry 3 0 0xFFFFF 0xFA 0xA0 ((?z @ ?k @ ?d) @ ?z @ b) = Some ((?z @ ?k @ ?d) @ ?u @ b)" for b
    by (rule set_gdt_entry_at) (simp_all add: e)
  have s4: "set_gdt_entry 4 0 0xFFFFF 0xF2 0xC0 ((?z @ ?k @ ?d @ ?u) @ ?z @ b) = Some ((?z @ ?k @ ?d @ ?u) @ ?v @ b)" for b
    by (rule set_gdt_entry_at) (simp_all add: e)
  have s5: "set_gdt_entry 5 0 0 0 0 ((?z @ ?k @ ?d @ ?u @ ?v) @ ?z @ b) = Some ((?z @ ?k @ ?d @ ?u @ ?v) @ ?z @ b)" for b
    by (rule set_gdt_entry_at) (simp_all add: e)
  have s6: "set_gdt_entry 6 0 0 0 0 ((?z @ ?k @ ?d @ ?u @ ?v @ ?z) @ ?z @ []) = Some ((?z @ ?k @ ?d @ ?u @ ?v @ ?z) @ ?z @ [])"
    by (rule set_gdt_entry_at) (simp_all add: e)
  show ?thesis
    by (simp only: r s0 [unfolded append_Nil] s1 s2 [unfolded append_assoc] s3 [unfolded append_assoc]
        s4 [unfolded append_assoc] s5 [unfolded append_assoc] s6 [unfolded append_assoc append_Nil2]
        bind.bind_lunit append_Nil gdt_table_def)
qed

lemma gdt_table_tss:
  "length d = 16 \<Longrightarrow> put_bytes 40 d (gdt_table (replicate 16 0)) = Some (gdt_table d)"
  by (simp add: put_bytes_def gdt_table_def seg_desc_def)

lemma tss_base_desc: "tss_base (tss_desc base limit) = base AND NOT 0x0F000000"
proof -
  have m: "(0x0F000000 :: u64) = push_bit 24 (mask 4)" by (simp add: mask_eq_exp_minus_1)
  show ?thesis
  proof (rule bit_word_eqI)
    fix n assume n: "n < LENGTH(64)"
    have lim: "\<not> bit limit m" if "16 \<le> m" for m using bit_imp_le_length [of limit m] that by auto
    have r: "bit (base AND NOT 0x0F000000) n \<longleftrightarrow> bit base n \<and> \<not> (24 \<le> n \<and> n < 28)"
      unfolding m using n by (auto simp: bit_simps)
    have "n < 8 \<or> 8 \<le> n \<and> n < 16 \<or> 16 \<le> n \<and> n < 24 \<or> 24 \<le> n \<and> n < 32 \<or> 32 \<le> n \<and> n < 40 \<or> 40 \<le> n \<and> n < 48 \<or>
        48 \<le> n \<and> n < 56 \<or> 56 \<le> n" by linarith
    then show "bit (tss_base (tss_desc base limit)) n = bit (base AND NOT 0x0F000000) n"
      unfolding r tss_base_def seg_base_def tss_desc_def and_masks and_F0 using n
      by (elim disjE) (auto simp: bit_simps lim)
  qed
qed

definition gdt_boot :: gdt_state where
  "gdt_boot = \<lparr>gdt = replicate 56 0, gp_limit = 0, gp_base = 0,
     tss = \<lparr>tss_rsp0 = 0, tss_reserved = replicate 12 0, tss_iomap_base = 0\<rparr>, gdt_loaded = False\<rparr>"

definition idt_boot :: idt_state where
  "idt_boot = \<lparr>idt_entries = replicate 256 zero_gate, ip_limit = 0, ip_base = 0, idt_is_loaded = False\<rparr>"

lemma gdt_init_eq:
  assumes "187 \<le> ready_count (port_answers p)"
  shows "\<exists>s' p'. gdt_init after gdt_addr tss_addr stk gdt_boot p = Some (s', p') \<and>
    gdt s' = gdt_table (tss_desc tss_addr 103) \<and> gp_limit s' = 55 \<and> gp_base s' = gdt_addr \<and> gdt_loaded s' \<and>
    tss_rsp0 (tss s') = stk \<and> ready_count (port_answers p) - 187 \<le> ready_count (port_answers p')"
proof -
  let ?a = "[Msg (str ''GDT: Initializing...'' @ [10]) 22]" and ?c = "[Msg (str ''GDT: Initialized'' @ [10]) 17]"
  let ?g = "gdt_table (replicate 16 0)"
  have fits: "log_fits after ?a" "log_fits after (gdt_log ?g)" "log_fits after ?c" by (simp_all add: gdt_log_def)
  have sz: "log_size ?a = 22" "log_size (gdt_log ?g) = 148" "log_size ?c = 17" by (simp_all add: gdt_log_def)
  obtain p1 where p1: "serial_log after ?a p = Some p1" "ready_count (port_answers p) - 22 \<le> ready_count (port_answers p1)"
    using serial_log_returns [OF fits(1), of p] assms unfolding sz by auto
  have r1: "148 \<le> ready_count (port_answers p1)" using assms p1(2) by linarith
  obtain p2 where p2: "serial_log after (gdt_log ?g) p1 = Some p2" "ready_count (port_answers p1) - 148 \<le> ready_count (port_answers p2)"
    using serial_log_returns [OF fits(2), of p1] r1 unfolding sz by auto
  have r2: "17 \<le> ready_count (port_answers p2)" using assms p1(2) p2(2) by linarith
  obtain p3 where p3: "serial_log after ?c p2 = Some p3" "ready_count (port_answers p2) - 17 \<le> ready_count (port_answers p3)"
    using serial_log_returns [OF fits(3), of p2] r2 unfolding sz by auto
  have left: "ready_count (port_answers p) - 187 \<le> ready_count (port_answers p3)" using p1(2) p2(2) p3(2) by linarith
  have t: "put_bytes 40 (tss_desc tss_addr 103) ?g = Some (gdt_table (tss_desc tss_addr 103))"
    by (rule gdt_table_tss) (simp add: tss_desc_def)
  show ?thesis
    using gdt_table_built p1(1) p2(1) p3(1) t left
    by (auto simp: gdt_init_def gdt_boot_def SIZEOF_TSS_def GDT_ENTRIES_def simp del: serial_log.simps split: Option.bind_splits)
qed

text \<open>
  C38 The segments after \<open>gdt_init\<close>: flat code and data segments for the kernel and the user, and
  the task state segment. Its descriptor is built wrong: the code puts the limit nibble where the
  base bits 24 to 27 belong, so that the processor finds the segment only when these bits of its
  address are 0.
\<close>

theorem gdt_init_table:
  assumes "187 \<le> ready_count (port_answers p)"
  shows "\<exists>s' p'. gdt_init after gdt_addr tss_addr stk gdt_boot p = Some (s', p') \<and> gdt_loaded s' \<and>
    seg_bytes 1 (gdt s') = [0xFF, 0xFF, 0, 0, 0, 0x9A, 0xAF, 0] \<and> seg_bytes 2 (gdt s') = [0xFF, 0xFF, 0, 0, 0, 0x92, 0xCF, 0] \<and>
    seg_bytes 3 (gdt s') = [0xFF, 0xFF, 0, 0, 0, 0xFA, 0xAF, 0] \<and> seg_bytes 4 (gdt s') = [0xFF, 0xFF, 0, 0, 0, 0xF2, 0xCF, 0] \<and>
    tss_base (drop 40 (gdt s')) = tss_addr AND NOT 0x0F000000"
proof -
  have "seg_bytes 1 (gdt_table d) = seg_desc 0x9A 0xAF" "seg_bytes 2 (gdt_table d) = seg_desc 0x92 0xCF"
    "seg_bytes 3 (gdt_table d) = seg_desc 0xFA 0xAF" "seg_bytes 4 (gdt_table d) = seg_desc 0xF2 0xCF" "drop 40 (gdt_table d) = d" for d
    by (simp_all add: seg_bytes_def gdt_table_def seg_desc_def)
  then show ?thesis using gdt_init_eq [OF assms, where after = after and gdt_addr = gdt_addr and tss_addr = tss_addr and stk = stk] tss_base_desc [of tss_addr 103]
    by (auto simp: seg_desc_def)
qed

theorem gdt_init_table_witness:
  "\<exists>s' p'. gdt_init (\<lambda>_. []) 0xffffffff80200000 0xffffffff81200040 0xffffffff80300000 gdt_boot
       \<lparr>port_answers = replicate 200 0x20, port_log = []\<rparr> = Some (s', p') \<and>
     tss_base (drop 40 (gdt s')) = 0xffffffff80200040"
proof -
  have "187 \<le> ready_count (port_answers \<lparr>port_answers = replicate 200 0x20, port_log = []\<rparr>)"
    by (simp add: ready_count_def filter_replicate)
  from gdt_init_table [OF this, where after = "\<lambda>_. []" and gdt_addr = "0xffffffff80200000" and
      tss_addr = "0xffffffff81200040" and stk = "0xffffffff80300000"]
  show ?thesis by auto
qed

lemma idt_init_eq:
  assumes "37 \<le> ready_count (port_answers p)" and "after (str ''IDT: Initializing...'' @ [10]) \<noteq> []"
  shows "\<exists>s' p'. idt_init after idt_addr gp pf idt_boot p = Some (s', p') \<and> idt_is_loaded s' \<and>
    gate_offset (idt_entries s' ! 13) = gp \<and> gate_offset (idt_entries s' ! 14) = pf \<and>
    (\<forall>i < 256. ie_selector (idt_entries s' ! i) = (if i = 13 \<or> i = 14 then 8 else 0) \<and>
       ie_type_attr (idt_entries s' ! i) = (if i = 13 \<or> i = 14 then 0x8E else 0)) \<and>
    ready_count (port_answers p) - 37 \<le> ready_count (port_answers p')"
proof -
  let ?m = "str ''IDT: Initializing...'' @ [10]"
  let ?a = "[Msg ?m 23]" and ?c = "[Msg (str ''IDT: Loaded.'' @ [10]) 14]"
  have "1 \<le> length (after ?m)" using assms(2) by (cases "after ?m") simp_all
  then have fits: "log_fits after ?a" "log_fits after ?c" by simp_all
  obtain p1 where p1: "serial_log after ?a p = Some p1" "ready_count (port_answers p) - 23 \<le> ready_count (port_answers p1)"
    using serial_log_returns [OF fits(1), of p] assms(1) by (auto simp del: serial_log.simps)
  have r1: "14 \<le> ready_count (port_answers p1)" using assms(1) p1(2) by linarith
  obtain p2 where p2: "serial_log after ?c p1 = Some p2" "ready_count (port_answers p1) - 14 \<le> ready_count (port_answers p2)"
    using serial_log_returns [OF fits(2), of p1] r1 by (auto simp del: serial_log.simps)
  have left: "ready_count (port_answers p) - 37 \<le> ready_count (port_answers p2)" using p1(2) p2(2) by linarith
  let ?gate = "\<lambda>base. \<lparr>ie_offset_low = ucast (base AND 0xFFFF), ie_selector = 8, ie_ist = 0, ie_type_attr = 0x8E,
      ie_offset_mid = ucast (drop_bit 16 base AND 0xFFFF), ie_offset_high = ucast (drop_bit 32 base AND 0xFFFFFFFF), ie_zero = 0\<rparr>"
  let ?t = "(replicate 256 zero_gate)[13 := ?gate gp, 14 := ?gate pf]"
  have "\<exists>s' p'. idt_init after idt_addr gp pf idt_boot p = Some (s', p') \<and> idt_is_loaded s' \<and> idt_entries s' = ?t \<and>
      ready_count (port_answers p) - 37 \<le> ready_count (port_answers p')"
    using p1(1) p2(1) left by (simp add: idt_init_def idt_boot_def idt_set_gate_def IDT_TA_InterruptGate_def del: serial_log.simps)
  moreover have "?t ! 13 = ?gate gp" "?t ! 14 = ?gate pf" by simp_all
  moreover have "?t ! i = zero_gate" if "i < 256" "i \<noteq> 13" "i \<noteq> 14" for i using that by simp
  ultimately show ?thesis using gate_offset_join by (fastforce simp: zero_gate_def)
qed

text \<open>
  The gates after \<open>idt_init\<close>: vectors 13 and 14 lead to the two stubs in kernel code, every
  other vector is not present. (The first message is sent with a length of 23 although the literal
  has 22 bytes with its terminator: one byte of whatever the linker put behind it.)
\<close>

theorem idt_init_gates:
  assumes "37 \<le> ready_count (port_answers p)" and "after (str ''IDT: Initializing...'' @ [10]) \<noteq> []"
  shows "\<exists>s' p'. idt_init after idt_addr gp pf idt_boot p = Some (s', p') \<and> idt_is_loaded s' \<and>
    gate_offset (idt_entries s' ! 13) = gp \<and> gate_offset (idt_entries s' ! 14) = pf \<and>
    (\<forall>i < 256. ie_selector (idt_entries s' ! i) = (if i = 13 \<or> i = 14 then 8 else 0) \<and>
       ie_type_attr (idt_entries s' ! i) = (if i = 13 \<or> i = 14 then 0x8E else 0))"
  using idt_init_eq [where after = after and p = p and idt_addr = idt_addr and gp = gp and pf = pf, OF assms] by blast

theorem idt_init_gates_witness:
  "\<exists>s' p'. idt_init (\<lambda>_. [0]) 0xffffffff80400000 0xffffffff80001234 0xffffffff80005678 idt_boot
       \<lparr>port_answers = replicate 40 0x20, port_log = []\<rparr> = Some (s', p') \<and>
     gate_offset (idt_entries s' ! 14) = 0xffffffff80005678 \<and> ie_type_attr (idt_entries s' ! 3) = 0"
proof -
  have "37 \<le> ready_count (port_answers \<lparr>port_answers = replicate 40 0x20, port_log = []\<rparr>)"
    by (simp add: ready_count_def filter_replicate)
  from idt_init_gates [OF this, where after = "\<lambda>_. [0]" and idt_addr = "0xffffffff80400000" and
      gp = "0xffffffff80001234" and pf = "0xffffffff80005678"]
  obtain s' p' where "idt_init (\<lambda>_. [0]) 0xffffffff80400000 0xffffffff80001234 0xffffffff80005678 idt_boot
       \<lparr>port_answers = replicate 40 0x20, port_log = []\<rparr> = Some (s', p')" "gate_offset (idt_entries s' ! 14) = 0xffffffff80005678"
    "\<forall>i < 256. ie_selector (idt_entries s' ! i) = (if i = 13 \<or> i = 14 then 8 else 0) \<and>
       ie_type_attr (idt_entries s' ! i) = (if i = 13 \<or> i = 14 then 0x8E else 0)" by auto
  then show ?thesis by (intro exI [of _ s'] exI [of _ p']) simp
qed

theorem set_gdt_entry_encodes_witness:
  "\<exists>t'. set_gdt_entry 3 0x12345678 0xABCDE 0xFA 0xA5 (replicate 56 0) = Some t' \<and> seg_base (seg_bytes 3 t') = 0x12345678 \<and>
     seg_limit (seg_bytes 3 t') = take_bit 20 0xABCDE"
  using set_gdt_entry_encodes [of 3 "replicate 56 0" "0x12345678" "0xABCDE" "0xFA" "0xA5"] by (auto simp: GDT_ENTRIES_def)

end
