(* ===== verification/Boot.thy ===== *)
theory Boot
  imports FbInitCorrect Traps Descriptors FsBoot "HOL-Library.Sublist"
begin

text \<open>
  The start of the kernel (\<open>kernel/src/main.c\<close>, \<open>kernel/src/src/kernel.c\<close>, \<open>cpu_init\<close> of \<open>cpu.c\<close>).
  \<open>limine\<close> is what the boot loader answers, \<open>image\<close> holds the addresses the linker chose,
  \<open>lib\<close> what the headers of the terminal package declare, \<open>fm\<close> is the static memory of the terminal's
  back end, \<open>gui_backbuffer\<close> the static array of \<open>gui.c\<close>. The result of \<open>kmain\<close> is the state in which it halts. What \<open>pmm_init\<close>, \<open>vmm_init\<close>,
  \<open>initramfs_init\<close>, \<open>fs_init\<close> and \<open>syscall_init\<close> themselves write to the serial port is left out.
\<close>

section \<open>The answers of the boot loader\<close>

record limine_framebuffer =
  lb_address :: "pixels option"
  lb_pixels :: nat
  lb_width :: u64
  lb_height :: u64
  lb_pitch :: u64

record limine_file =
  lm_path :: "bytes option"
  lm_address :: nat
  lm_data :: bytes

record limine =
  lr_framebuffers :: "limine_framebuffer list option"
  lr_modules :: "limine_file list option"
  lr_memmap :: "memmap_entry list option"
  lr_kaddr :: "kernel_address option"
  lr_usable :: nat

record image =
  im_kernel_end :: nat
  im_pmm_bitmap :: nat
  im_gdt :: u64
  im_tss :: u64
  im_stack_top :: u64
  im_idt :: u64
  im_isr13 :: u64
  im_isr14 :: u64
  im_syscall :: u64

section \<open>Names of modules\<close>

text \<open>The loop that leaves \<open>last_slash\<close> behind the last slash or backslash.\<close>

fun after_slash :: "bytes \<Rightarrow> bytes \<Rightarrow> bytes option" where
  "after_slash last_slash [] = None"
| "after_slash last_slash (c # p) =
     (if c = 0 then Some last_slash else if c = 47 \<or> c = 92 then after_slash p p else after_slash last_slash p)"

text \<open>The comparison from the end; \<open>i\<close> and \<open>j\<close> are the positions of the two pointers.\<close>

fun check_back :: "bytes \<Rightarrow> bytes \<Rightarrow> nat \<Rightarrow> nat \<Rightarrow> bool option" where
  "check_back s e (Suc i) (Suc j) = do {
     a \<leftarrow> rd s (Suc i);
     b \<leftarrow> rd e (Suc j);
     if a \<noteq> b then Some False
     else if j = 0 then Some True
     else if i = 0 then Some False
     else check_back s e i j }"
| "check_back s e i j = do { a \<leftarrow> rd s i; b \<leftarrow> rd e j; if a \<noteq> b then Some False else None }"

definition checkStringEndsWith :: "bytes \<Rightarrow> bytes \<Rightarrow> bool option" where
  "checkStringEndsWith s e = do {
     n \<leftarrow> strlen s;
     m \<leftarrow> strlen e;
     if n = 0 \<or> m = 0 then None else check_back s e (n - 1) (m - 1) }"

fun get_file_from :: "limine_file list \<Rightarrow> bytes \<Rightarrow> limine_file option option" where
  "get_file_from [] name = Some None"
| "get_file_from (f # fs) name = do {
     p \<leftarrow> lm_path f;
     last_slash \<leftarrow> after_slash p p;
     ok \<leftarrow> checkStringEndsWith last_slash name;
     if ok then Some (Some f) else get_file_from fs name }"

definition getFile :: "limine \<Rightarrow> bytes \<Rightarrow> limine_file option option" where
  "getFile lr name = do { mods \<leftarrow> lr_modules lr; get_file_from mods name }"

section \<open>The kernel\<close>

definition on_kernel :: "(kernel \<Rightarrow> kernel) \<Rightarrow> shell \<Rightarrow> shell" where
  "on_kernel f s = s\<lparr>sh_kernel := f (sh_kernel s)\<rparr>"

definition cpu_init :: "u64 \<Rightarrow> kernel \<Rightarrow> kernel" where
  "cpu_init entry_point k = (
     let k1 = wrmsr MSR_EFER (msr k MSR_EFER OR 1) k;
         k2 = wrmsr MSR_STAR (push_bit 48 0x18 OR push_bit 32 0x08) k1;
         k3 = wrmsr MSR_LSTAR entry_point k2;
         k4 = wrmsr MSR_FMASK (push_bit 9 1) k3
     in syscall_init entry_point k4)"

definition boot_pmm :: "limine \<Rightarrow> image \<Rightarrow> shell \<Rightarrow> shell option" where
  "boot_pmm lr im s = do {
     p \<leftarrow> pmm_init (lr_usable lr) (lr_memmap lr) (lr_kaddr lr) (im_kernel_end im) (im_pmm_bitmap im)
       (vm_pmm (k_vm (sh_kernel s)));
     Some (on_kernel (\<lambda>k. k\<lparr>k_vm := (k_vm k)\<lparr>vm_pmm := p\<rparr>\<rparr>) s) }"

text \<open>A message to the terminal and to the serial port.\<close>

definition kprint :: "(bytes \<Rightarrow> bytes) \<Rightarrow> bytes \<Rightarrow> nat \<Rightarrow> shell \<Rightarrow> shell option" where
  "kprint after m n s = do { s1 \<leftarrow> flanterm_write (take n (m @ [0] @ after m)) s; log_on after [Msg m n] s1 }"

fun module_search :: "(bytes \<Rightarrow> bytes) \<Rightarrow> limine_file list \<Rightarrow> shell \<Rightarrow> (limine_file option \<times> shell) option" where
  "module_search after [] s = Some (None, s)"
| "module_search after (m # mods) s = do {
     s1 \<leftarrow> (case lm_path m of
          Some p \<Rightarrow> do { n \<leftarrow> strlen p; kprint after p n s }
        | None \<Rightarrow> kprint after (str ''(null path)'') 11 s);
     s2 \<leftarrow> kprint after [32] 1 s1;
     case lm_path m of
       None \<Rightarrow> module_search after mods s2
     | Some p \<Rightarrow> do {
         last_slash \<leftarrow> after_slash p p;
         r \<leftarrow> strcmp last_slash (lit ''initramfs.cpio'');
         if r = 0 then Some (Some m, s2) else module_search after mods s2 } }"

text \<open>One file of the list; the separator for the serial port is sent after the last file too.\<close>

definition list_file :: "(bytes \<Rightarrow> bytes) \<Rightarrow> fs_file list option \<Rightarrow> nat \<Rightarrow> nat \<Rightarrow> shell \<Rightarrow> shell option" where
  "list_file after files nfiles i s = do {
     fs \<leftarrow> files;
     f \<leftarrow> rd fs i;
     n \<leftarrow> strlen (ff_name f);
     s1 \<leftarrow> kprint after (ff_name f) n s;
     s2 \<leftarrow> (if i < nfiles - 1 then flanterm_write [44, 32] s1 else Some s1);
     log_on after [Msg [44, 32] 2] s2 }"

definition boot_files_from :: "(bytes \<Rightarrow> bytes) \<Rightarrow> limine_file \<Rightarrow> shell \<Rightarrow> shell option" where
  "boot_files_from after m s = do {
     ramfs \<leftarrow> initramfs_init (lm_address m) (lm_data m);
     fs1 \<leftarrow> fs_init ramfs (k_fs (sh_kernel s));
     (nfiles, files, fs2) \<leftarrow> fs_list fs1;
     s1 \<leftarrow> kprint after (str ''[initramfs: files: '') 18 (set_fs fs2 s);
     s2 \<leftarrow> for_each (list_file after files nfiles) [0..<nfiles] s1;
     kprint after (str '']'' @ [10]) 2 s2 }"

definition boot_modules :: "(bytes \<Rightarrow> bytes) \<Rightarrow> limine \<Rightarrow> shell \<Rightarrow> shell option" where
  "boot_modules after lr s = (case lr_modules lr of
     None \<Rightarrow> kprint after (str ''[initramfs: no module response or count is zero]'' @ [10]) 48 s
   | Some [] \<Rightarrow> kprint after (str ''[initramfs: no module response or count is zero]'' @ [10]) 48 s
   | Some mods \<Rightarrow> do {
       s1 \<leftarrow> kprint after (str ''[initramfs: found modules: '') 26 s;
       (found, s2) \<leftarrow> module_search after mods s1;
       s3 \<leftarrow> kprint after (str '']'' @ [10]) 2 s2;
       case found of
         Some m \<Rightarrow> (if lm_address m \<noteq> 0 \<and> length (lm_data m) > 0 then boot_files_from after m s3
           else kprint after (str ''[initramfs: no module found by path]'' @ [10]) 34 s3)
       | None \<Rightarrow> kprint after (str ''[initramfs: no module found by path]'' @ [10]) 34 s3 })"

section \<open>The terminal\<close>

text \<open>
  The sizes of the structures of the package, \<open>FLANTERM_MAX_ESC_VALUES\<close>, \<open>FLANTERM_OOB_OUTPUT_ONLCR\<close> and
  the type of the elements of \<open>esc_values\<close>.
\<close>

record 'w terminal_package =
  tp_sizes :: fb_sizes
  tp_max_esc_values :: nat
  tp_output_onlcr :: u64
  tp_esc_type :: "'w itself"

text \<open>
  The call of \<open>flanterm_fb_init\<close> in \<open>kernel\<close>. The pitch is computed in 32 bits; the memory behind
  \<open>base_address\<close> has \<open>base_pixels\<close> pixels.
\<close>

definition fb_words :: "framebuffer \<Rightarrow> u32 list" where
  "fb_words fb = (case base_address fb of None \<Rightarrow> [] | Some px \<Rightarrow> map px [0..<base_pixels fb])"

definition terminal_args :: "framebuffer \<Rightarrow> fb_args" where
  "terminal_args fb = \<lparr>a_framebuffer = fb_words fb, a_width = unat (fb_width fb), a_height = unat (fb_height fb),
     a_pitch = unat (pixels_per_scan_line fb * 4), red_mask_size = 8, a_red_mask_shift = 16, green_mask_size = 8,
     a_green_mask_shift = 8, blue_mask_size = 8, a_blue_mask_shift = 0, a_canvas = None, a_ansi_colours = None,
     a_ansi_bright_colours = None, a_default_bg = None, a_default_fg = None, a_default_bg_bright = None,
     a_default_fg_bright = None, a_font = None, a_font_width = 0, a_font_height = 0, font_spacing = 1,
     a_font_scale_x = 0, a_font_scale_y = 0, margin = 0\<rparr>"

definition terminal_start :: "('w::len) terminal_package \<Rightarrow> unit fb_memory \<Rightarrow> framebuffer \<Rightarrow>
    ('w, unit) fb_started option" where
  "terminal_start lib fm fb = flanterm_fb_init (tp_sizes lib) None None (tp_max_esc_values lib) (tp_output_onlcr lib)
     (terminal_args fb) fm"

section \<open>From the terminal to the shell\<close>

definition welcome_msg :: bytes where
  "welcome_msg = str ''Welcome to limine-shell (flanterm)!'' @ [10]"

definition kernel_start ::
  "(bytes \<Rightarrow> bytes) \<Rightarrow> ('w::len) terminal_package \<Rightarrow> unit fb_memory \<Rightarrow> pixels \<Rightarrow> limine \<Rightarrow> image \<Rightarrow> framebuffer \<Rightarrow>
     shell \<Rightarrow> shell option" where
  "kernel_start after lib fm gui_backbuffer lr im fb s = do {
     s1 \<leftarrow> boot_pmm lr im (s\<lparr>sh_ports := serial_init (sh_ports s)\<rparr>);
     let s2 = on_kernel (\<lambda>k. cpu_init (im_syscall im) (k\<lparr>k_vm := vmm_init (k_vm k)\<rparr>)) s1;
     (terminal, _) \<leftarrow> terminal_start lib fm fb;
     let s3 = on_kernel (\<lambda>k. k\<lparr>ft_ctx := (terminal \<noteq> None)\<rparr>) s2;
     let s4 = on_kernel (syscall_init (im_syscall im)) (s3\<lparr>sh_gui := gui_init gui_backbuffer fb\<rparr>);
     s5 \<leftarrow> kprint after welcome_msg (length welcome_msg) s4;
     boot_modules after lr s5 }"

text \<open>\<open>kernel\<close>: the start, and the shell.\<close>

definition kernel_entry ::
  "(bytes \<Rightarrow> bytes) \<Rightarrow> (u64 \<Rightarrow> u64 \<Rightarrow> kernel \<Rightarrow> kernel option) \<Rightarrow> ('w::len) terminal_package \<Rightarrow> unit fb_memory \<Rightarrow>
     pixels \<Rightarrow> limine \<Rightarrow> image \<Rightarrow> framebuffer \<Rightarrow> shell \<Rightarrow> shell option" where
  "kernel_entry after jmp lib fm gui_backbuffer lr im fb s = do {
     s1 \<leftarrow> kernel_start after lib fm gui_backbuffer lr im fb s;
     shell_run jmp s1 }"

section \<open>The entry point\<close>

record boot_state =
  bs_shell :: shell
  bs_gdt :: gdt_state
  bs_idt :: idt_state

definition fb_struct :: "limine_framebuffer \<Rightarrow> framebuffer" where
  "fb_struct fb = \<lparr>base_address = lb_address fb, base_pixels = lb_pixels fb, fb_width = ucast (lb_width fb),
     fb_height = ucast (lb_height fb), pixels_per_scan_line = ucast (lb_pitch fb div 4)\<rparr>"

text \<open>What \<open>kmain\<close> does before it calls \<open>kernel\<close>.\<close>

definition kmain_start :: "(bytes \<Rightarrow> bytes) \<Rightarrow> limine \<Rightarrow> image \<Rightarrow> boot_state \<Rightarrow> boot_state option" where
  "kmain_start after lr im b = do {
     let s = bs_shell b;
     s1 \<leftarrow> log_on after [Msg (str ''Kernel started.'' @ [10]) 15] (s\<lparr>sh_ports := serial_init (sh_ports s)\<rparr>);
     s2 \<leftarrow> boot_pmm lr im s1;
     (g, p) \<leftarrow> gdt_init after (im_gdt im) (im_tss im) (im_stack_top im) (bs_gdt b) (sh_ports s2);
     (i, p') \<leftarrow> idt_init after (im_idt im) (im_isr13 im) (im_isr14 im) (bs_idt b) p;
     Some \<lparr>bs_shell = on_kernel (syscall_init (im_syscall im)) (s2\<lparr>sh_ports := p'\<rparr>), bs_gdt = g, bs_idt = i\<rparr> }"

definition kmain ::
  "(bytes \<Rightarrow> bytes) \<Rightarrow> (u64 \<Rightarrow> u64 \<Rightarrow> kernel \<Rightarrow> kernel option) \<Rightarrow> ('w::len) terminal_package \<Rightarrow> unit fb_memory \<Rightarrow>
     pixels \<Rightarrow> limine \<Rightarrow> image \<Rightarrow> boot_state \<Rightarrow> boot_state option" where
  "kmain after jmp lib fm gui_backbuffer lr im b = (case lr_framebuffers lr of
     None \<Rightarrow> Some b
   | Some [] \<Rightarrow> Some b
   | Some (fb # _) \<Rightarrow> do {
       b1 \<leftarrow> kmain_start after lr im b;
       s \<leftarrow> kernel_entry after jmp lib fm gui_backbuffer lr im (fb_struct fb) (bs_shell b1);
       Some (b1\<lparr>bs_shell := s\<rparr>) })"

text \<open>
  A framebuffer the terminal can be made on: at least one cell of 9 by 16 pixels, its lines inside the
  memory behind its address, its pitch below \<open>2 ^ 32\<close> bytes.
\<close>

definition drawable :: "framebuffer \<Rightarrow> bool" where
  "drawable fb \<longleftrightarrow> base_address fb \<noteq> None \<and> 9 \<le> unat (fb_width fb) \<and> unat (fb_width fb) < 2 ^ 16 \<and>
     16 \<le> unat (fb_height fb) \<and> unat (fb_height fb) < 2 ^ 16 \<and>
     unat (fb_width fb) \<le> unat (pixels_per_scan_line fb) \<and> unat (pixels_per_scan_line fb) < 2 ^ 30 \<and>
     (unat (fb_height fb) - 1) * unat (pixels_per_scan_line fb) + unat (fb_width fb) \<le> base_pixels fb"

definition package_ok :: "('w::len) terminal_package \<Rightarrow> bool" where
  "package_ok lib \<longleftrightarrow> known_sizes (tp_sizes lib) \<and> 2 \<le> tp_max_esc_values lib"

lemma terminal_args_eq:
  assumes "unat (pixels_per_scan_line fb) < 2 ^ 30"
  shows "terminal_args fb = kernel_fb_args (fb_words fb) (unat (fb_width fb)) (unat (fb_height fb))
    (unat (pixels_per_scan_line fb))"
proof -
  have "unat (pixels_per_scan_line fb * 4) = unat (pixels_per_scan_line fb) * 4"
    using assms by (subst unat_mult_lem [THEN iffD1]) simp_all
  then show ?thesis by (simp add: terminal_args_def kernel_fb_args_def)
qed

lemma terminal_made:
  assumes "drawable fb" and "package_ok lib" and "unused_pool fm"
  obtains s ctx fm' where "terminal_start (lib :: ('w::len) terminal_package) fm fb = Some (Some (s, ctx), fm')"
    and "fresh (tp_output_onlcr lib) s"
    and "cols (fbc s) = min 1920 (unat (fb_width fb)) div (9 * kernel_scale (unat (fb_width fb)) (unat (fb_height fb)))"
    and "rows (fbc s) = min 1200 (unat (fb_height fb)) div (16 * kernel_scale (unat (fb_width fb)) (unat (fb_height fb)))"
proof -
  have d: "9 \<le> unat (fb_width fb)" "unat (fb_width fb) < 2 ^ 16" "16 \<le> unat (fb_height fb)" "unat (fb_height fb) < 2 ^ 16"
    "unat (fb_width fb) \<le> unat (pixels_per_scan_line fb)" "unat (pixels_per_scan_line fb) < 2 ^ 30"
    "(unat (fb_height fb) - 1) * unat (pixels_per_scan_line fb) + unat (fb_width fb) \<le> length (fb_words fb)"
    using assms(1) by (auto simp: drawable_def fb_words_def)
  have z: "known_sizes (tp_sizes lib)" "2 \<le> tp_max_esc_values lib" using assms(2) by (simp_all add: package_ok_def)
  show ?thesis
    using kernel_terminal [OF d(1-5,7) z assms(3), where 'w = 'w and onlcr = "tp_output_onlcr lib"] that
    unfolding terminal_start_def terminal_args_eq [OF d(6)] by blast
qed

section \<open>The comparison of names\<close>

lemma check_back_eq:
  "1 \<le> i \<Longrightarrow> 1 \<le> j \<Longrightarrow> i < length s \<Longrightarrow> j < length e \<Longrightarrow>
     check_back s e i j = Some (j \<le> i \<and> (\<forall>k < j. s ! (i - k) = e ! (j - k)))"
proof (induction s e i j rule: check_back.induct)
  case (1 s e i j)
  have split: "(\<forall>k < Suc j. s ! (Suc i - k) = e ! (Suc j - k)) \<longleftrightarrow>
      s ! Suc i = e ! Suc j \<and> (\<forall>k < j. s ! (i - k) = e ! (j - k))"
    unfolding less_Suc_eq_0_disj by auto
  show ?case
    using 1 unfolding split by (auto simp: rd_def)
qed (auto simp: rd_def)

lemma suffix_tl:
  assumes "length e \<le> length s"
  shows "suffix (tl e) s \<longleftrightarrow> (\<forall>k < length e - 1. s ! (length s - 1 - k) = e ! (length e - 1 - k))"
proof -
  have "suffix (tl e) s \<longleftrightarrow> prefix (take (length e - 1) (rev e)) (rev s)"
    by (cases e) (simp_all add: suffix_to_prefix)
  also have "\<dots> \<longleftrightarrow> take (length e - 1) (rev s) = take (length e - 1) (rev e)"
    using assms by (auto simp: prefix_def) (metis append_take_drop_id)
  also have "\<dots> \<longleftrightarrow> (\<forall>k < length e - 1. s ! (length s - 1 - k) = e ! (length e - 1 - k))"
    using assms by (auto simp: list_eq_iff_nth_eq rev_nth)
  finally show ?thesis .
qed

text \<open>
  \<open>checkStringEndsWith\<close>: on two strings of at least two characters it says whether the second
  without its first character ends the first: the first character of the ending is never compared.
\<close>

theorem ends_with_skips_first:
  assumes "terminated s" and "terminated e" and "2 \<le> length (cstr s)" and "2 \<le> length (cstr e)"
  shows "checkStringEndsWith s e = Some (length (cstr e) \<le> length (cstr s) \<and> suffix (tl (cstr e)) (cstr s))"
proof -
  let ?s = "cstr s" and ?e = "cstr e"
  have l: "length ?s < length s" "length ?e < length e" using assms(1,2) by simp_all
  have "checkStringEndsWith s e = check_back s e (length ?s - 1) (length ?e - 1)"
    using assms by (auto simp: checkStringEndsWith_def strlen_eq)
  also have "\<dots> = Some (length ?e - 1 \<le> length ?s - 1 \<and> (\<forall>k < length ?e - 1. s ! (length ?s - 1 - k) = e ! (length ?e - 1 - k)))"
    by (rule check_back_eq) (use assms(3,4) l in linarith)+
  also have "\<dots> = Some (length ?e \<le> length ?s \<and> suffix (tl ?e) ?s)"
  proof (cases "length ?e \<le> length ?s")
    case True
    have "s ! (length ?s - 1 - k) = ?s ! (length ?s - 1 - k)" "e ! (length ?e - 1 - k) = ?e ! (length ?e - 1 - k)"
      if "k < length ?e - 1" for k
      using that assms(3,4) by (auto intro!: nth_cstr [symmetric])
    then show ?thesis unfolding suffix_tl [OF True] using True by auto
  next
    case False
    then have "\<not> length ?e - 1 \<le> length ?s - 1" using assms(3) by linarith
    with False show ?thesis by simp
  qed
  finally show ?thesis .
qed

section \<open>Messages of the start\<close>

abbreviation ready :: "shell \<Rightarrow> nat" where
  "ready s \<equiv> ready_count (port_answers (sh_ports s))"

text \<open>Something was spoke, at the cost of at most \<open>n\<close> ready answers of the serial port.\<close>

definition spoke :: "nat \<Rightarrow> shell \<Rightarrow> shell \<Rightarrow> bool" where
  "spoke n s t \<longleftrightarrow> (\<exists>bs p. t = say bs (s\<lparr>sh_ports := p\<rparr>) \<and> ready s - n \<le> ready_count (port_answers p))"

lemma say_ports: "say bs (s\<lparr>sh_ports := p\<rparr>) = say bs s\<lparr>sh_ports := p\<rparr>"
  by (simp add: say_def)

lemma spoke_refl: "spoke 0 s s"
  unfolding spoke_def by (intro exI [of _ "[]"] exI [of _ "sh_ports s"]) simp

lemma say_spoke: "spoke 0 s (say bs s)"
  unfolding spoke_def by (intro exI [of _ bs] exI [of _ "sh_ports s"]) simp

lemma ports_spoke: "ready s - n \<le> ready_count (port_answers p) \<Longrightarrow> spoke n s (s\<lparr>sh_ports := p\<rparr>)"
  unfolding spoke_def by (intro exI [of _ "[]"] exI [of _ p]) simp

lemma spoke_trans: "spoke n s t \<Longrightarrow> spoke m t u \<Longrightarrow> spoke (n + m) s u"
proof -
  assume "spoke n s t" and "spoke m t u"
  then obtain b p c q where t: "t = say b s\<lparr>sh_ports := p\<rparr>" "ready s - n \<le> ready_count (port_answers p)"
    and u: "u = say c t\<lparr>sh_ports := q\<rparr>" "ready t - m \<le> ready_count (port_answers q)"
    unfolding spoke_def say_ports by auto
  have "u = say (b @ c) s\<lparr>sh_ports := q\<rparr>" unfolding u(1) t(1) say_ports by simp
  moreover have "ready s - (n + m) \<le> ready_count (port_answers q)" using t u(2) by simp
  ultimately show ?thesis unfolding spoke_def say_ports by blast
qed

lemma spoke_mono:
  assumes "spoke n s t" and "n \<le> m"
  shows "spoke m s t"
proof -
  obtain bs p where "t = say bs (s\<lparr>sh_ports := p\<rparr>)" "ready s - n \<le> ready_count (port_answers p)"
    using assms(1) by (auto simp: spoke_def)
  moreover from this(2) have "ready s - m \<le> ready_count (port_answers p)" using assms(2) by linarith
  ultimately show ?thesis unfolding spoke_def by blast
qed

lemma spoke_ready: "spoke n s t \<Longrightarrow> k \<le> ready s - n \<Longrightarrow> k \<le> ready t"
  by (auto simp: spoke_def)

lemma spoke_fields:
  assumes "spoke n s t"
  shows "ft_ctx (sh_kernel t) = ft_ctx (sh_kernel s)" and "shell_ok t = shell_ok s" and "k_fs (sh_kernel t) = k_fs (sh_kernel s)"
    and "k_vm (sh_kernel t) = k_vm (sh_kernel s)" and "msr (sh_kernel t) = msr (sh_kernel s)"
    and "fd_table (sh_kernel t) = fd_table (sh_kernel s)" and "shell_exit_requested t = shell_exit_requested s"
    and "k_keys (sh_kernel t) = k_keys (sh_kernel s)" and "k_scancodes (sh_kernel t) = k_scancodes (sh_kernel s)"
  using assms by (auto simp: spoke_def) (simp_all add: say_def terminal_write_def)

lemma kprint_spoke:
  assumes after: "padded 4 after" and "ft_ctx (sh_kernel s)" and "n \<le> length m + 1" and "n \<le> ready s"
  shows "\<exists>t. kprint after m n s = Some t \<and> spoke n s t"
proof -
  let ?bs = "take n (m @ [0] @ after m)"
  have "log_slack 4 [Msg m n]" "log_size [Msg m n] \<le> n" using assms(3) by simp_all
  then obtain p where p: "log_on after [Msg m n] (say ?bs s\<lparr>sh_ports := sh_ports s\<rparr>) = Some (say ?bs s\<lparr>sh_ports := p\<rparr>)"
    "ready s - n \<le> ready_count (port_answers p)"
    by (rule log_on_at [where after = after, OF after]) (use assms(4) in blast)+
  have same: "say ?bs s\<lparr>sh_ports := sh_ports s\<rparr> = say ?bs s" by (simp add: say_def)
  have "kprint after m n s = Some (say ?bs s\<lparr>sh_ports := p\<rparr>)"
    unfolding kprint_def flanterm_write_say [OF assms(2)] bind.bind_lunit by (rule p(1) [unfolded same])
  then show ?thesis using p(2) unfolding spoke_def say_ports by blast
qed

lemma for_each_spoke:
  assumes "\<And>i t. i \<in> set is \<Longrightarrow> ft_ctx (sh_kernel t) \<Longrightarrow> c \<le> ready t \<Longrightarrow> \<exists>u. f i t = Some u \<and> spoke c t u"
    and "ft_ctx (sh_kernel s)" and "c * length is \<le> ready s"
  shows "\<exists>u. for_each f is s = Some u \<and> spoke (c * length is) s u"
  using assms
proof (induction "is" arbitrary: s)
  case Nil
  then show ?case using spoke_refl by simp
next
  case (Cons i "is")
  have "c \<le> ready s" using Cons.prems(3) by simp
  then obtain t where t: "f i s = Some t" "spoke c s t" using Cons.prems(1) [of i s] Cons.prems(2) by auto
  have "c * length is \<le> ready t" using spoke_ready [OF t(2), of "c * length is"] Cons.prems(3) by simp
  moreover have "ft_ctx (sh_kernel t)" using spoke_fields(1) [OF t(2)] Cons.prems(2) by simp
  ultimately obtain u where "for_each f is t = Some u" "spoke (c * length is) t u"
    using Cons.IH [of t] Cons.prems(1) by auto
  then show ?case using t spoke_trans [OF t(2)] by auto
qed

end
