(* ===== verification/BootCorrect.thy ===== *)
theory BootCorrect
  imports Boot
begin

text \<open>
  The start of the kernel, from the answers of the boot loader to the shell: the search for the
  module with the archive, the files it brings, and the state in which \<open>shell_run\<close> is called.
\<close>

section \<open>The search for the module\<close>

lemma after_slash_total:
  "terminated p \<Longrightarrow> terminated l \<Longrightarrow> \<exists>q. after_slash l p = Some q \<and> terminated q"
  by (induction l p rule: after_slash.induct) auto

definition named :: "bytes \<Rightarrow> bytes \<Rightarrow> bool" where
  "named nm p \<longleftrightarrow> (\<exists>q. after_slash p p = Some q \<and> cstr q = nm)"

abbreviation archive_name :: bytes where
  "archive_name \<equiv> str ''initramfs.cpio''"

definition other_module :: "limine_file \<Rightarrow> bool" where
  "other_module m \<longleftrightarrow> (case lm_path m of None \<Rightarrow> True | Some p \<Rightarrow> terminated p \<and> \<not> named archive_name p)"

definition path_cost :: "limine_file \<Rightarrow> nat" where
  "path_cost m = (case lm_path m of None \<Rightarrow> 11 | Some p \<Rightarrow> length (cstr p)) + 1"

lemma archive_lit: "terminated (lit ''initramfs.cpio'')" "cstr (lit ''initramfs.cpio'') = archive_name"
  by (simp_all add: lit_def)

lemma name_check:
  assumes "terminated p"
  obtains q r where "after_slash p p = Some q" and "strcmp q (lit ''initramfs.cpio'') = Some r"
    and "r = 0 \<longleftrightarrow> named archive_name p"
proof -
  obtain q where q: "after_slash p p = Some q" "terminated q" using after_slash_total [OF assms assms] by blast
  obtain r where r: "strcmp q (lit ''initramfs.cpio'') = Some r" using strcmp_defined [OF q(2) archive_lit(1)] by blast
  moreover have "r = 0 \<longleftrightarrow> named archive_name p"
    using strcmp_zero_iff [OF q(2) archive_lit(1)] r q(1) archive_lit(2) by (auto simp: named_def)
  ultimately show ?thesis using that q(1) by blast
qed

text \<open>The path of one module is printed.\<close>

lemma path_spoke:
  assumes after: "padded 4 after" and "ft_ctx (sh_kernel s)" and "path_cost m \<le> ready s"
    and "case lm_path m of None \<Rightarrow> True | Some p \<Rightarrow> terminated p"
  obtains t u where "(case lm_path m of Some p \<Rightarrow> do { n \<leftarrow> strlen p; kprint after p n s }
        | None \<Rightarrow> kprint after (str ''(null path)'') 11 s) = Some t"
    and "kprint after [32] 1 t = Some u" and "spoke (path_cost m) s u"
proof -
  let ?n = "case lm_path m of None \<Rightarrow> 11 | Some p \<Rightarrow> length (cstr p)"
  have n: "path_cost m = ?n + 1" by (simp add: path_cost_def)
  have "\<exists>t. (case lm_path m of Some p \<Rightarrow> do { n \<leftarrow> strlen p; kprint after p n s }
        | None \<Rightarrow> kprint after (str ''(null path)'') 11 s) = Some t \<and> spoke ?n s t"
  proof (cases "lm_path m")
    case None
    have "11 \<le> ready s" using assms(3) n None by simp
    then show ?thesis using None kprint_spoke [OF after assms(2), of 11 "str ''(null path)''"] by simp
  next
    case (Some p)
    have "length (cstr p) \<le> ready s" using assms(3) n Some by simp
    then show ?thesis using Some assms(4) kprint_spoke [OF after assms(2), of "length (cstr p)" p]
      length_cstr_le [of p] by (simp add: strlen_eq)
  qed
  then obtain t where t: "(case lm_path m of Some p \<Rightarrow> do { n \<leftarrow> strlen p; kprint after p n s }
        | None \<Rightarrow> kprint after (str ''(null path)'') 11 s) = Some t" "spoke ?n s t" by blast
  have "1 \<le> ready t" using spoke_ready [OF t(2), of 1] assms(3) n by linarith
  then obtain u where u: "kprint after [32] 1 t = Some u" "spoke 1 t u"
    using kprint_spoke [OF after, of t 1 "[32]"] spoke_fields(1) [OF t(2)] assms(2) by auto
  have "spoke (path_cost m) s u" unfolding n by (rule spoke_trans [OF t(2) u(2)])
  then show ?thesis by (rule that [OF t(1) u(1)])
qed

lemma module_search_finds:
  assumes after: "padded 4 after" and "list_all other_module before"
    and "lm_path m = Some p" and "terminated p" and "named archive_name p"
  shows "ft_ctx (sh_kernel s) \<Longrightarrow> sum_list (map path_cost (before @ [m])) \<le> ready s \<Longrightarrow>
    \<exists>t. module_search after (before @ m # rest) s = Some (Some m, t) \<and> spoke (sum_list (map path_cost (before @ [m]))) s t"
  using assms(2)
proof (induction before arbitrary: s)
  case Nil
  have c: "path_cost m \<le> ready s" "case lm_path m of None \<Rightarrow> True | Some p \<Rightarrow> terminated p"
    using Nil.prems(2) assms(3,4) by simp_all
  obtain t u where t: "(case lm_path m of Some p \<Rightarrow> do { n \<leftarrow> strlen p; kprint after p n s }
        | None \<Rightarrow> kprint after (str ''(null path)'') 11 s) = Some t"
    "kprint after [32] 1 t = Some u" "spoke (path_cost m) s u"
    by (rule path_spoke [OF after Nil.prems(1) c])
  obtain q where q: "after_slash p p = Some q" "strcmp q (lit ''initramfs.cpio'') = Some 0"
    by (rule name_check [OF assms(4)]) (use assms(5) in auto)
  show ?case using t q assms(3) by auto
next
  case (Cons b before)
  have c: "path_cost b \<le> ready s" "case lm_path b of None \<Rightarrow> True | Some p \<Rightarrow> terminated p"
    using Cons.prems(2,3) by (simp_all add: other_module_def split: option.splits)
  obtain t u where t: "(case lm_path b of Some p \<Rightarrow> do { n \<leftarrow> strlen p; kprint after p n s }
        | None \<Rightarrow> kprint after (str ''(null path)'') 11 s) = Some t"
    "kprint after [32] 1 t = Some u" "spoke (path_cost b) s u"
    by (rule path_spoke [OF after Cons.prems(1) c])
  have "sum_list (map path_cost (before @ [m])) \<le> ready u"
    by (rule spoke_ready [OF t(3)]) (use Cons.prems(2) in simp)
  then obtain v where v: "module_search after (before @ m # rest) u = Some (Some m, v)"
    "spoke (sum_list (map path_cost (before @ [m]))) u v"
    using Cons.IH [of u] Cons.prems spoke_fields(1) [OF t(3)] by auto
  have "module_search after ((b # before) @ m # rest) s = module_search after (before @ m # rest) u"
  proof (cases "lm_path b")
    case None
    then show ?thesis using t by simp
  next
    case (Some pb)
    then have "terminated pb" "\<not> named archive_name pb" using Cons.prems(3) by (simp_all add: other_module_def)
    then obtain q r where "after_slash pb pb = Some q" "strcmp q (lit ''initramfs.cpio'') = Some r" "r \<noteq> 0"
      by (blast elim: name_check [of pb])
    then show ?thesis using t Some by auto
  qed
  then show ?case using v spoke_trans [OF t(3) v(2)] by (simp add: add.assoc)
qed

section \<open>The files\<close>

lemma list_file_spoke:
  assumes after: "padded 4 after" and "table_ok fs" and "i < file_count fs" and "ft_ctx (sh_kernel s)" and "33 \<le> ready s"
  shows "\<exists>t. list_file after (Some (fs_files fs)) (file_count fs) i s = Some t \<and> spoke 33 s t"
proof -
  let ?m = "ff_name (fs_files fs ! i)" and ?n = "length (file_name fs i)"
  have nm: "terminated ?m" "?n \<le> 31" using name_bound [OF assms(2,3)] by simp_all
  have f: "rd (fs_files fs) i = Some (fs_files fs ! i)" "strlen ?m = Some ?n"
    using assms(2,3) nm(1) by (simp_all add: rd_def table_ok_def strlen_eq file_name_def)
  have "?n \<le> length ?m + 1" using length_cstr_le [of ?m] by (simp add: file_name_def)
  then obtain t where t: "kprint after ?m ?n s = Some t" "spoke ?n s t"
    using kprint_spoke [OF after assms(4), of ?n ?m] nm(2) assms(5) by auto
  have ctx: "ft_ctx (sh_kernel t)" using spoke_fields(1) [OF t(2)] assms(4) by simp
  let ?u = "if i < file_count fs - 1 then say [44, 32] t else t"
  have u: "(if i < file_count fs - 1 then flanterm_write [44, 32] t else Some t) = Some ?u" "spoke 0 t ?u"
    using spoke_refl [of t] say_spoke [of t] by (simp_all add: flanterm_write_say [OF ctx])
  have r: "2 \<le> ready ?u" using spoke_ready [OF spoke_trans [OF t(2) u(2)], of 2] nm(2) assms(5) by linarith
  have "log_slack 4 [Msg [44, 32] 2]" "log_size [Msg [44, 32] 2] \<le> 2" by simp_all
  then obtain p where p: "log_on after [Msg [44, 32] 2] (?u\<lparr>sh_ports := sh_ports ?u\<rparr>) = Some (?u\<lparr>sh_ports := p\<rparr>)"
    "ready ?u - 2 \<le> ready_count (port_answers p)"
    by (rule log_on_at [OF after]) (use r in blast)+
  have same: "?u\<lparr>sh_ports := sh_ports ?u\<rparr> = ?u" by simp
  note v = p(1) [unfolded same] ports_spoke [OF p(2)]
  have "spoke (?n + 0 + 2) s (?u\<lparr>sh_ports := p\<rparr>)"
    by (rule spoke_trans [OF spoke_trans [OF t(2) u(2)] v(2)])
  then have "spoke 33 s (?u\<lparr>sh_ports := p\<rparr>)" by (rule spoke_mono) (use nm(2) in simp)
  moreover have "list_file after (Some (fs_files fs)) (file_count fs) i s = Some (?u\<lparr>sh_ports := p\<rparr>)"
    unfolding list_file_def bind.bind_lunit f t(1) u(1) v(1) by (rule refl)
  ultimately show ?thesis by blast
qed

lemma boot_files_spoke:
  assumes after: "padded 4 after" and "initramfs_init (lm_address m) (lm_data m) = Some ramfs"
    and "fs_init ramfs (k_fs (sh_kernel s)) = Some fs" and "table_ok fs" and "active_fs fs \<noteq> FS_TYPE_EXT2"
    and "ft_ctx (sh_kernel s)" and "20 + 33 * file_count fs \<le> ready s"
  shows "\<exists>t. boot_files_from after m s = Some t \<and> spoke (20 + 33 * file_count fs) (set_fs fs s) t"
proof -
  let ?s = "set_fs fs s"
  have ctx: "ft_ctx (sh_kernel ?s)" using assms(6) by simp
  have rs: "ready ?s = ready s" by (simp add: set_fs_def)
  have "18 \<le> ready ?s" using assms(7) rs by linarith
  then obtain t where t: "kprint after (str ''[initramfs: files: '') 18 ?s = Some t" "spoke 18 ?s t"
    using kprint_spoke [OF after ctx, of 18 "str ''[initramfs: files: ''"] by auto
  have ct: "ft_ctx (sh_kernel t)" using spoke_fields(1) [OF t(2)] ctx by simp
  have rt: "33 * length [0..<file_count fs] \<le> ready t" using spoke_ready [OF t(2)] assms(7) rs by simp
  have "\<exists>v. list_file after (Some (fs_files fs)) (file_count fs) i u = Some v \<and> spoke 33 u v"
    if "i \<in> set [0..<file_count fs]" "ft_ctx (sh_kernel u)" "33 \<le> ready u" for i u
    by (rule list_file_spoke [OF after assms(4)]) (use that in simp_all)
  from for_each_spoke [where f = "list_file after (Some (fs_files fs)) (file_count fs)", OF this ct rt] obtain u
    where u: "for_each (list_file after (Some (fs_files fs)) (file_count fs)) [0..<file_count fs] t = Some u"
      "spoke (33 * file_count fs) t u" by auto
  have tu: "spoke (18 + 33 * file_count fs) ?s u" by (rule spoke_trans [OF t(2) u(2)])
  have cu: "ft_ctx (sh_kernel u)" using spoke_fields(1) [OF tu] ctx by simp
  have "2 \<le> ready u" using spoke_ready [OF tu, of 2] assms(7) rs by linarith
  then obtain v where v: "kprint after (str '']'' @ [10]) 2 u = Some v" "spoke 2 u v"
    using kprint_spoke [OF after cu, of 2 "str '']'' @ [10]"] by auto
  have "boot_files_from after m s = Some v"
    unfolding boot_files_from_def fs_list_def
    using assms(2,3,5) t(1) u(1) v(1) by simp
  moreover have "spoke (20 + 33 * file_count fs) ?s v" using spoke_trans [OF tu v(2)] by (simp add: ac_simps)
  ultimately show ?thesis by blast
qed

section \<open>The start of the kernel\<close>

lemma serial_init_answers [simp]: "port_answers (serial_init p) = port_answers p"
  by (simp add: serial_init_def outb_def)

lemma syscall_init_fields [simp]:
  "k_vm (syscall_init e k) = k_vm k" "k_fs (syscall_init e k) = k_fs k" "k_keys (syscall_init e k) = k_keys k"
  "k_scancodes (syscall_init e k) = k_scancodes k" "ft_ctx (syscall_init e k) = ft_ctx k"
  "fd_table (syscall_init e k) = replicate MAX_FDS free_desc" "next_pid (syscall_init e k) = 1"
  "msr (syscall_init e k) MSR_STAR = push_bit 48 0x10 OR push_bit 32 0x08" "msr (syscall_init e k) MSR_LSTAR = e"
  "msr (syscall_init e k) MSR_FMASK = 0x700"
  by (simp_all add: syscall_init_def wrmsr_def Let_def MSR_STAR_def MSR_LSTAR_def MSR_FMASK_def MSR_EFER_def)

lemma cpu_init_fields [simp]:
  "k_vm (cpu_init e k) = k_vm k" "k_fs (cpu_init e k) = k_fs k" "k_keys (cpu_init e k) = k_keys k"
  "k_scancodes (cpu_init e k) = k_scancodes k"
  by (simp_all add: cpu_init_def wrmsr_def Let_def)

lemma on_kernel_simps [simp]:
  "sh_kernel (on_kernel f s) = f (sh_kernel s)" "sh_ports (on_kernel f s) = sh_ports s" "env_vars (on_kernel f s) = env_vars s"
  "shell_exit_requested (on_kernel f s) = shell_exit_requested s" "current_user (on_kernel f s) = current_user s"
  "arg_bufs (on_kernel f s) = arg_bufs s"
  by (simp_all add: on_kernel_def)

text \<open>The memory map of the boot loader leaves no sum to wrap around.\<close>

definition memmap_ok :: "limine \<Rightarrow> image \<Rightarrow> bool" where
  "memmap_ok lr im \<longleftrightarrow> (\<exists>entries ka. lr_memmap lr = Some entries \<and> lr_kaddr lr = Some ka \<and>
     (\<forall>e \<in> set entries. me_base e + me_length e + PAGE_SIZE < 2 ^ 64) \<and>
     ka_physical_base ka + pmm_kernel_size (im_kernel_end im) ka + PAGE_SIZE < 2 ^ 64 \<and>
     im_pmm_bitmap im + PMM_BITMAP_SIZE + PAGE_SIZE < 2 ^ 64)"

lemma boot_pmm_total:
  assumes "memmap_ok lr im" and "pmm_inv (vm_pmm (k_vm (sh_kernel s)))"
  obtains p where "boot_pmm lr im s = Some (on_kernel (\<lambda>k. k\<lparr>k_vm := (k_vm k)\<lparr>vm_pmm := p\<rparr>\<rparr>) s)" and "pmm_inv p"
proof -
  obtain es ka where "lr_memmap lr = Some es" "lr_kaddr lr = Some ka"
    and "\<forall>e \<in> set es. me_base e + me_length e + PAGE_SIZE < 2 ^ 64"
    and "ka_physical_base ka + pmm_kernel_size (im_kernel_end im) ka + PAGE_SIZE < 2 ^ 64"
    and "im_pmm_bitmap im + PMM_BITMAP_SIZE + PAGE_SIZE < 2 ^ 64"
    using assms(1) unfolding memmap_ok_def by blast
  with pmm_init_frees [OF assms(2), of es ka "im_kernel_end im" "im_pmm_bitmap im" "lr_usable lr"] show ?thesis
    using that by (auto simp: boot_pmm_def)
qed

text \<open>The state of the static variables when the boot loader hands over.\<close>

definition at_reset :: "boot_state \<Rightarrow> bool" where
  "at_reset b \<longleftrightarrow> bs_gdt b = gdt_boot \<and> bs_idt b = idt_boot \<and> k_fs (sh_kernel (bs_shell b)) = fs_boot \<and>
     vm_pmm (k_vm (sh_kernel (bs_shell b))) = pmm_boot \<and> k_keys (sh_kernel (bs_shell b)) = key_boot \<and>
     env_vars (bs_shell b) = replicate SHELL_MAX_ENV_VARS zero_env \<and> current_user (bs_shell b) = lit ''user'' \<and>
     arg_bufs (bs_shell b) = replicate SHELL_MAX_ARGS (replicate SHELL_MAX_ARG_LEN 0) \<and>
     \<not> shell_exit_requested (bs_shell b)"

text \<open>The states after the memory map is read, and before the first message of \<open>kernel\<close>.\<close>

definition with_pmm :: "pmm_state \<Rightarrow> shell \<Rightarrow> shell" where
  "with_pmm p = on_kernel (\<lambda>k. k\<lparr>k_vm := (k_vm k)\<lparr>vm_pmm := p\<rparr>\<rparr>)"

definition with_terminal :: "pixels \<Rightarrow> u64 \<Rightarrow> framebuffer \<Rightarrow> shell \<Rightarrow> shell" where
  "with_terminal bb e fb s = on_kernel (syscall_init e)
     ((on_kernel (\<lambda>k. k\<lparr>ft_ctx := True\<rparr>) (on_kernel (\<lambda>k. cpu_init e (k\<lparr>k_vm := vmm_init (k_vm k)\<rparr>)) s))
        \<lparr>sh_gui := gui_init bb fb\<rparr>)"

lemma kmain_start_eq:
  assumes after: "padded 4 after" and "memmap_ok lr im" and "at_reset b" and "239 \<le> ready (bs_shell b)"
  obtains p q g i where "kmain_start after lr im b = Some \<lparr>bs_shell =
      on_kernel (syscall_init (im_syscall im)) (with_pmm p (bs_shell b\<lparr>sh_ports := q\<rparr>)), bs_gdt = g, bs_idt = i\<rparr>"
    and "pmm_inv p" and "ready (bs_shell b) - 239 \<le> ready_count (port_answers q)"
    and "gdt_loaded g" and "gate_offset (idt_entries i ! 13) = im_isr13 im" and "gate_offset (idt_entries i ! 14) = im_isr14 im"
proof -
  let ?s = "bs_shell b"
  have b: "bs_gdt b = gdt_boot" "bs_idt b = idt_boot" "vm_pmm (k_vm (sh_kernel ?s)) = pmm_boot"
    using assms(3) by (simp_all add: at_reset_def)
  let ?k = "[Msg (str ''Kernel started.'' @ [10]) 15]"
  have "log_slack 4 ?k" "log_size ?k \<le> 15" by simp_all
  then obtain q1 where q1: "log_on after ?k (?s\<lparr>sh_ports := serial_init (sh_ports ?s)\<rparr>) = Some (?s\<lparr>sh_ports := q1\<rparr>)"
    "ready_count (port_answers (serial_init (sh_ports ?s))) - 15 \<le> ready_count (port_answers q1)"
    by (rule log_on_at [where q = "serial_init (sh_ports ?s)" and s = ?s, OF after]) (use assms(4) in simp, blast)
  let ?s1 = "?s\<lparr>sh_ports := q1\<rparr>"
  have "pmm_inv (vm_pmm (k_vm (sh_kernel ?s1)))" using b(3) by (simp add: pmm_inv_def pmm_boot_def)
  from boot_pmm_total [OF assms(2) this] obtain p where p: "boot_pmm lr im ?s1 = Some (with_pmm p ?s1)" "pmm_inv p"
    unfolding with_pmm_def by blast
  have "187 \<le> ready_count (port_answers q1)" using q1(2) assms(4) by simp
  from gdt_init_eq [where after = after and gdt_addr = "im_gdt im" and tss_addr = "im_tss im" and stk = "im_stack_top im", OF this]
  obtain g q2 where g: "gdt_init after (im_gdt im) (im_tss im) (im_stack_top im) gdt_boot q1 = Some (g, q2)" "gdt_loaded g"
    "ready_count (port_answers q1) - 187 \<le> ready_count (port_answers q2)" by blast
  have "37 \<le> ready_count (port_answers q2)" using g(3) q1(2) assms(4) by simp
  moreover have "after (str ''IDT: Initializing...'' @ [10]) \<noteq> []"
    using after unfolding padded_def by (metis le_zero_eq list.size(3) zero_neq_numeral)
  ultimately obtain i q3 where i: "idt_init after (im_idt im) (im_isr13 im) (im_isr14 im) idt_boot q2 = Some (i, q3)"
    "gate_offset (idt_entries i ! 13) = im_isr13 im" "gate_offset (idt_entries i ! 14) = im_isr14 im"
    "ready_count (port_answers q2) - 37 \<le> ready_count (port_answers q3)"
    using idt_init_eq [where after = after and p = q2 and idt_addr = "im_idt im" and gp = "im_isr13 im" and pf = "im_isr14 im"] by blast
  have w: "sh_ports (with_pmm p ?s1) = q1" "with_pmm p ?s1\<lparr>sh_ports := q3\<rparr> = with_pmm p (?s\<lparr>sh_ports := q3\<rparr>)"
    by (simp_all add: with_pmm_def on_kernel_def)
  have "kmain_start after lr im b = Some \<lparr>bs_shell =
      on_kernel (syscall_init (im_syscall im)) (with_pmm p (?s\<lparr>sh_ports := q3\<rparr>)), bs_gdt = g, bs_idt = i\<rparr>"
    unfolding kmain_start_def Let_def q1(1) b(1,2) bind.bind_lunit p(1) w(1) g(1) prod.case i(1) w(2) by (rule refl)
  moreover have "ready ?s - 239 \<le> ready_count (port_answers q3)" using q1(2) g(3) i(4) by simp
  ultimately show ?thesis using that p(2) g(2) i(2,3) by blast
qed

lemma kernel_start_eq:
  assumes after: "padded 4 after" and "memmap_ok lr im" and "pmm_inv (vm_pmm (k_vm (sh_kernel s)))"
    and terminal: "drawable fb" "package_ok lib" "unused_pool fm" and "36 \<le> ready s"
  obtains p t where "kernel_start after lib fm bb lr im fb s = boot_modules after lr t"
    and "pmm_inv p" and "spoke 36 (with_terminal bb (im_syscall im) fb (with_pmm p s)) t"
proof -
  let ?s = "s\<lparr>sh_ports := serial_init (sh_ports s)\<rparr>"
  have "pmm_inv (vm_pmm (k_vm (sh_kernel ?s)))" using assms(3) by simp
  from boot_pmm_total [OF assms(2) this] obtain p where p: "boot_pmm lr im ?s = Some (with_pmm p ?s)" "pmm_inv p"
    unfolding with_pmm_def by blast
  let ?t = "with_terminal bb (im_syscall im) fb (with_pmm p ?s)"
  have f: "ft_ctx (sh_kernel ?t)" "36 \<le> ready ?t" using assms(7) by (simp_all add: with_terminal_def with_pmm_def on_kernel_def)
  have w: "length welcome_msg = 36" by (simp add: welcome_msg_def)
  have "length welcome_msg \<le> length welcome_msg + 1" "length welcome_msg \<le> ready ?t" using f(2) w by linarith+
  from kprint_spoke [OF after f(1) this] obtain u
    where u: "kprint after welcome_msg (length welcome_msg) ?t = Some u" "spoke 36 ?t u" unfolding w by blast
  obtain c ctx fm' where "terminal_start lib fm fb = Some (Some (c, ctx), fm')" by (rule terminal_made [OF terminal])
  then have "kernel_start after lib fm bb lr im fb s = boot_modules after lr u"
    unfolding kernel_start_def p(1) bind.bind_lunit Let_def using u(1) by (simp add: with_terminal_def)
  moreover have "?t = with_terminal bb (im_syscall im) fb (with_pmm p s)\<lparr>sh_ports := serial_init (sh_ports s)\<rparr>"
    by (simp add: with_terminal_def with_pmm_def on_kernel_def)
  then have "spoke 36 (with_terminal bb (im_syscall im) fb (with_pmm p s)) u"
    using u(2) unfolding spoke_def say_ports by (auto simp: with_terminal_def with_pmm_def on_kernel_def say_def)
  ultimately show ?thesis using that p(2) by blast
qed

lemma set_fs_say: "set_fs fs (say bs s\<lparr>sh_ports := p\<rparr>) = say bs (set_fs fs s)\<lparr>sh_ports := p\<rparr>"
  by (cases s rule: shell.cases) (simp add: set_fs_def say_def terminal_write_def)

lemma spoke_set_fs:
  assumes "spoke n s t"
  shows "spoke n (set_fs fs s) (set_fs fs t)"
proof -
  obtain bs p where "t = say bs s\<lparr>sh_ports := p\<rparr>" "ready s - n \<le> ready_count (port_answers p)"
    using assms unfolding spoke_def say_ports by auto
  moreover have "ready (set_fs fs s) = ready s" by (simp add: set_fs_def)
  ultimately show ?thesis unfolding spoke_def say_ports by (auto simp: set_fs_say)
qed

lemma boot_modules_spoke:
  assumes after: "padded 4 after" and mods: "lr_modules lr = Some (before @ m # rest)" "list_all other_module before"
    and m: "lm_path m = Some p" "terminated p" "named archive_name p" "lm_address m \<noteq> 0" "lm_data m \<noteq> []"
    and files: "initramfs_init (lm_address m) (lm_data m) = Some ramfs" "fs_init ramfs (k_fs (sh_kernel s)) = Some fs"
    and fs: "table_ok fs" "active_fs fs \<noteq> FS_TYPE_EXT2" and ctx: "ft_ctx (sh_kernel s)"
    and ready: "48 + sum_list (map path_cost (before @ [m])) + 33 * file_count fs \<le> ready s"
  shows "\<exists>t. boot_modules after lr s = Some t \<and>
    spoke (48 + sum_list (map path_cost (before @ [m])) + 33 * file_count fs) (set_fs fs s) t"
proof -
  let ?c = "sum_list (map path_cost (before @ [m]))"
  have "26 \<le> ready s" using ready by linarith
  then obtain s1 where s1: "kprint after (str ''[initramfs: found modules: '') 26 s = Some s1" "spoke 26 s s1"
    using kprint_spoke [OF after ctx, of 26 "str ''[initramfs: found modules: ''"] by auto
  have c1: "ft_ctx (sh_kernel s1)" "?c \<le> ready s1"
    using spoke_fields(1) [OF s1(2)] ctx spoke_ready [OF s1(2), of ?c] ready by simp_all
  obtain s2 where s2: "module_search after (before @ m # rest) s1 = Some (Some m, s2)" "spoke ?c s1 s2"
    using module_search_finds [OF after mods(2) m(1-3) c1] by blast
  have t2: "spoke (26 + ?c) s s2" by (rule spoke_trans [OF s1(2) s2(2)])
  have c2: "ft_ctx (sh_kernel s2)" "2 \<le> ready s2"
    using spoke_fields(1) [OF t2] ctx spoke_ready [OF t2, of 2] ready by simp_all
  then obtain s3 where s3: "kprint after (str '']'' @ [10]) 2 s2 = Some s3" "spoke 2 s2 s3"
    using kprint_spoke [OF after c2(1), of 2 "str '']'' @ [10]"] by auto
  have t3: "spoke (26 + ?c + 2) s s3" by (rule spoke_trans [OF t2 s3(2)])
  have c3: "ft_ctx (sh_kernel s3)" "20 + 33 * file_count fs \<le> ready s3" "fs_init ramfs (k_fs (sh_kernel s3)) = Some fs"
    using spoke_fields(1,3) [OF t3] ctx files(2) spoke_ready [OF t3, of "20 + 33 * file_count fs"] ready by simp_all
  obtain t where t: "boot_files_from after m s3 = Some t" "spoke (20 + 33 * file_count fs) (set_fs fs s3) t"
    using boot_files_spoke [OF after files(1) c3(3) fs c3(1,2)] by blast
  obtain x xs where l: "before @ m # rest = x # xs" by (cases before) auto
  have "boot_modules after lr s = Some t"
    using s1(1) s2(1) s3(1) t(1) m(4,5) unfolding boot_modules_def mods(1) l by (simp del: module_search.simps)
  moreover have "spoke (48 + ?c + 33 * file_count fs) (set_fs fs s) t"
    using spoke_trans [OF spoke_set_fs [OF t3] t(2)] by (rule spoke_mono) simp
  ultimately show ?thesis by blast
qed

lemma started_fields [simp]:
  "ft_ctx (sh_kernel (with_terminal bb e fb s))" "k_fs (sh_kernel (with_terminal bb e fb s)) = k_fs (sh_kernel s)"
  "k_vm (sh_kernel (with_terminal bb e fb s)) = vmm_init (k_vm (sh_kernel s))"
  "k_keys (sh_kernel (with_terminal bb e fb s)) = k_keys (sh_kernel s)"
  "k_scancodes (sh_kernel (with_terminal bb e fb s)) = k_scancodes (sh_kernel s)"
  "fd_table (sh_kernel (with_terminal bb e fb s)) = replicate MAX_FDS free_desc"
  "msr (sh_kernel (with_terminal bb e fb s)) MSR_STAR = push_bit 48 0x10 OR push_bit 32 0x08"
  "msr (sh_kernel (with_terminal bb e fb s)) MSR_LSTAR = e" "msr (sh_kernel (with_terminal bb e fb s)) MSR_FMASK = 0x700"
  "sh_ports (with_terminal bb e fb s) = sh_ports s" "env_vars (with_terminal bb e fb s) = env_vars s"
  "shell_exit_requested (with_terminal bb e fb s) = shell_exit_requested s"
  "current_user (with_terminal bb e fb s) = current_user s" "arg_bufs (with_terminal bb e fb s) = arg_bufs s"
  by (simp_all add: with_terminal_def)

lemma with_pmm_fields [simp]:
  "k_fs (sh_kernel (with_pmm p s)) = k_fs (sh_kernel s)" "k_vm (sh_kernel (with_pmm p s)) = (k_vm (sh_kernel s))\<lparr>vm_pmm := p\<rparr>"
  "k_keys (sh_kernel (with_pmm p s)) = k_keys (sh_kernel s)" "k_scancodes (sh_kernel (with_pmm p s)) = k_scancodes (sh_kernel s)"
  "sh_ports (with_pmm p s) = sh_ports s" "env_vars (with_pmm p s) = env_vars s"
  "shell_exit_requested (with_pmm p s) = shell_exit_requested s" "current_user (with_pmm p s) = current_user s"
  "arg_bufs (with_pmm p s) = arg_bufs s"
  by (simp_all add: with_pmm_def)

text \<open>
  C1 The start of the machine: with a memory map that does not wrap around, a frame buffer of at least one
  character cell and fewer than 65536 pixels in each direction, the terminal package's sizes, and a module named \<open>initramfs.cpio\<close> that holds an
  archive of files with distinct plain names, \<open>flanterm_fb_init\<close> makes the terminal and \<open>kmain\<close> is
  \<open>shell_run\<close> on a well-formed state. The file system of that state has the files of the archive
  up to the sixteenth, as far as their contents fit in the pool of 64 KiB together (\<open>kept_files\<close>):
  each of these is opened by its name and read back as it was packed, and no other name of the
  archive is found. All descriptors are free, the frame allocator is sound, the
  kernel page tables are the ones the boot loader left, and system calls enter at the entry point;
  both fault handlers are installed. Of the two settings of the system call registers the one of
  \<open>syscall_init\<close> stays, which sets other selectors and another flag mask than \<open>cpu_init\<close> before it.
\<close>

theorem kmain_boots_shell:
  assumes "padded 4 after" and "at_reset b" and "memmap_ok lr im" and "lr_framebuffers lr = Some (fb # fbs)"
    and terminal: "drawable (fb_struct fb)" "package_ok lib" "unused_pool fm"
    and mods: "lr_modules lr = Some (before @ m # rest)" "list_all other_module before"
    and m: "lm_path m = Some p" "terminated p" "named archive_name p" "lm_address m \<noteq> 0" "lm_data m = cpio_archive meta fs"
    and arch: "cpio_meta_ok meta" "list_all cpio_ok fs" "lm_address m mod 4 = 0"
      "lm_address m + length (cpio_archive meta fs) + 3 < 2 ^ 64" "list_all (\<lambda>(name, data). plain_name name) fs"
      "distinct (map fst fs)"
    and ready: "900 + sum_list (map path_cost (before @ [m])) \<le> ready (bs_shell b)"
  shows "\<exists>s g i. kmain after jmp lib fm bb lr im b =
      map_option (\<lambda>t. \<lparr>bs_shell = t, bs_gdt = g, bs_idt = i\<rparr>) (shell_run jmp s) \<and>
    shell_ok s \<and> \<not> shell_exit_requested s \<and> k_keys (sh_kernel s) = key_boot \<and>
    k_scancodes (sh_kernel s) = k_scancodes (sh_kernel (bs_shell b)) \<and>
    file_count (k_fs (sh_kernel s)) = length (kept_files fs) \<and>
    (\<forall>j < length fs. fs_open (fst (fs ! j) @ [0]) (k_fs (sh_kernel s)) =
       Some (if j < length (kept_files fs) then Some (FsFile j) else None, k_fs (sh_kernel s))) \<and>
    (\<forall>j < length (kept_files fs). \<forall>n. fs_read_slice j 0 n (k_fs (sh_kernel s)) = Some (take n (snd (fs ! j)))) \<and>
    fd_table (sh_kernel s) = replicate MAX_FDS free_desc \<and> pmm_inv (vm_pmm (k_vm (sh_kernel s))) \<and>
    g_kernel_pml4 (k_vm (sh_kernel s)) = cr3 (k_vm (sh_kernel (bs_shell b))) AND PAGE_MASK \<and>
    msr (sh_kernel s) MSR_LSTAR = im_syscall im \<and>
    msr (sh_kernel s) MSR_STAR = push_bit 48 0x10 OR push_bit 32 0x08 \<and> msr (sh_kernel s) MSR_FMASK = 0x700 \<and>
    gate_offset (idt_entries i ! 13) = im_isr13 im \<and> gate_offset (idt_entries i ! 14) = im_isr14 im"
proof -
  let ?c = "sum_list (map path_cost (before @ [m]))" and ?s = "bs_shell b"
  have b: "k_fs (sh_kernel ?s) = fs_boot" "k_keys (sh_kernel ?s) = key_boot" "env_vars ?s = replicate SHELL_MAX_ENV_VARS zero_env"
    "current_user ?s = lit ''user''" "arg_bufs ?s = replicate SHELL_MAX_ARGS (replicate SHELL_MAX_ARG_LEN 0)"
    "\<not> shell_exit_requested ?s" using assms(2) by (simp_all add: at_reset_def)
  obtain ramfs fs' where f: "initramfs_init (lm_address m) (lm_data m) = Some ramfs" "fs_init ramfs fs_boot = Some fs'" "fs_inv fs'"
    "file_count fs' = length (kept_files fs)" "active_fs fs' = FS_TYPE_INITRAMFS"
    "\<forall>j < length (kept_files fs). fs_open (fst (fs ! j) @ [0]) fs' = Some (Some (FsFile j), fs') \<and>
       (\<forall>n. fs_read_slice j 0 n fs' = Some (take n (snd (fs ! j))))"
    "\<forall>j < length fs. length (kept_files fs) \<le> j \<longrightarrow> fs_open (fst (fs ! j) @ [0]) fs' = Some (None, fs')"
    using boot_files [OF arch] unfolding m(5) by blast
  have kept: "length (kept_files fs) \<le> 16" using kept_files_prefix [of fs] by auto
  have "239 \<le> ready ?s" using ready by linarith
  from kmain_start_eq [OF assms(1,3,2) this] obtain p1 q g i where k: "kmain_start after lr im b = Some \<lparr>bs_shell =
      on_kernel (syscall_init (im_syscall im)) (with_pmm p1 (?s\<lparr>sh_ports := q\<rparr>)), bs_gdt = g, bs_idt = i\<rparr>"
    "pmm_inv p1" "ready ?s - 239 \<le> ready_count (port_answers q)"
    "gate_offset (idt_entries i ! 13) = im_isr13 im" "gate_offset (idt_entries i ! 14) = im_isr14 im" by metis
  let ?s1 = "on_kernel (syscall_init (im_syscall im)) (with_pmm p1 (?s\<lparr>sh_ports := q\<rparr>))"
  have "pmm_inv (vm_pmm (k_vm (sh_kernel ?s1)))" "36 \<le> ready ?s1" using k(2,3) ready by simp_all
  from kernel_start_eq [where bb = bb, OF assms(1,3) this(1) terminal this(2)] obtain p2 t
    where t: "kernel_start after lib fm bb lr im (fb_struct fb) ?s1 = boot_modules after lr t" "pmm_inv p2"
      "spoke 36 (with_terminal bb (im_syscall im) (fb_struct fb) (with_pmm p2 ?s1)) t" by metis
  let ?s2 = "with_terminal bb (im_syscall im) (fb_struct fb) (with_pmm p2 ?s1)"
  note tf = spoke_fields [OF t(3)]
  have "ready ?s2 = ready_count (port_answers q)" by simp
  then have "48 + ?c + 33 * file_count fs' \<le> ready ?s2 - 36" using k(3) ready kept f(4) by linarith
  then have rt: "48 + ?c + 33 * file_count fs' \<le> ready t" by (rule spoke_ready [OF t(3)])
  have "lm_data m \<noteq> []" by (simp add: m(5) cpio_archive_def cpio_trailer_def cpio_entry_def)
  moreover have "fs_init ramfs (k_fs (sh_kernel t)) = Some fs'" "table_ok fs'" "active_fs fs' \<noteq> FS_TYPE_EXT2" "ft_ctx (sh_kernel t)"
    using f b(1) tf by (simp_all add: fs_inv_def)
  ultimately obtain u where u: "boot_modules after lr t = Some u" "spoke (48 + ?c + 33 * file_count fs') (set_fs fs' t) u"
    using boot_modules_spoke [OF assms(1) mods m(1-4) _ f(1) _ _ _ _ rt] by blast
  note uf = spoke_fields [OF u(2)]
  have "shell_ok (set_fs fs' t)"
    using t(3) b f(3,5) env_boot_ok tf(1)
    by (auto simp: spoke_def shell_ok_def bufs_ok_def list_all_iff lit_def)
  then have "shell_ok u" using uf(2) by simp
  moreover have "kmain after jmp lib fm bb lr im b =
      map_option (\<lambda>t. \<lparr>bs_shell = t, bs_gdt = g, bs_idt = i\<rparr>) (shell_run jmp u)"
    unfolding kmain_def kernel_entry_def assms(4) using k(1) t(1) u(1)
    by (cases "shell_run jmp u") simp_all
  moreover have "k_fs (sh_kernel u) = fs'" "\<not> shell_exit_requested u" "k_keys (sh_kernel u) = key_boot"
    "k_scancodes (sh_kernel u) = k_scancodes (sh_kernel ?s)"
    using uf tf b by (simp_all add: set_fs_def)
  moreover have "fd_table (sh_kernel u) = replicate MAX_FDS free_desc" "pmm_inv (vm_pmm (k_vm (sh_kernel u)))"
    "g_kernel_pml4 (k_vm (sh_kernel u)) = cr3 (k_vm (sh_kernel ?s)) AND PAGE_MASK"
    "msr (sh_kernel u) MSR_LSTAR = im_syscall im" "msr (sh_kernel u) MSR_STAR = push_bit 48 0x10 OR push_bit 32 0x08"
    "msr (sh_kernel u) MSR_FMASK = 0x700"
    using uf tf t(2) by (simp_all add: set_fs_def vmm_init_def)
  moreover have "\<forall>j < length fs. fs_open (fst (fs ! j) @ [0]) fs' =
      Some (if j < length (kept_files fs) then Some (FsFile j) else None, fs')" using f(6,7) by auto
  ultimately show ?thesis using f(4,6) k(4,5) by (intro exI [of _ u] exI [of _ g] exI [of _ i]) simp
qed

section \<open>An instance\<close>

definition example_module :: limine_file where
  "example_module = \<lparr>lm_path = Some (lit ''/boot/initramfs.cpio''), lm_address = 0x1000,
     lm_data = cpio_archive example_meta example_files\<rparr>"

definition example_limine :: limine where
  "example_limine = \<lparr>lr_framebuffers = Some [\<lparr>lb_address = Some (\<lambda>_. 0), lb_pixels = 800 * 600, lb_width = 800,
       lb_height = 600, lb_pitch = 3200\<rparr>],
     lr_modules = Some [\<lparr>lm_path = None, lm_address = 0, lm_data = []\<rparr>, example_module],
     lr_memmap = Some [\<lparr>me_base = 0x100000, me_length = 0x400000, me_type = 0\<rparr>],
     lr_kaddr = Some \<lparr>ka_physical_base = 0x200000, ka_virtual_base = 0xffffffff80000000\<rparr>, lr_usable = 0\<rparr>"

definition linker_image :: image where
  "linker_image = \<lparr>im_kernel_end = 0xffffffff80020000, im_pmm_bitmap = 0xffffffff80001000, im_gdt = 0, im_tss = 0,
     im_stack_top = 0, im_idt = 0, im_isr13 = 0xffffffff80001234, im_isr14 = 0xffffffff80005678, im_syscall = 0xffffffff80004000\<rparr>"

definition example_reset :: boot_state where
  "example_reset = \<lparr>bs_shell = shell_boot ((kernel_on (vm_example\<lparr>vm_pmm := pmm_boot\<rparr>) [])\<lparr>k_fs := fs_boot\<rparr>)
       (gui_init (\<lambda>_. 0) \<lparr>base_address = None, base_pixels = 0, fb_width = 0, fb_height = 0, pixels_per_scan_line = 0\<rparr>)
       mouse_boot \<lparr>port_answers = replicate 2000 0x20, port_log = []\<rparr>,
     bs_gdt = gdt_boot, bs_idt = idt_boot\<rparr>"

text \<open>The sizes of a package with 32-bit escape values, and the memory of the back end before its first use.\<close>

definition example_package :: "32 terminal_package" where
  "example_package = \<lparr>tp_sizes = \<lparr>sizeof_fb_context = 1024, sizeof_fb_char = 12, sizeof_queue_item = 32, font_glyphs = 256\<rparr>,
     tp_max_esc_values = 16, tp_output_onlcr = 1, tp_esc_type = TYPE(32)\<rparr>"

definition example_pool :: "unit fb_memory" where
  "example_pool = \<lparr>bump_alloc_pool = 0x2000, bump_alloc_ptr = 0, base_offset_added = False,
     bump_allocated_instance = False, contexts = (\<lambda>_. None), outside = ()\<rparr>"

text \<open>
  The file \<open>bin/sh\<close> of the archive, opened in the state the shell starts in; a jump to user mode never
  returns.
\<close>

theorem kmain_boots_shell_witness:
  "\<exists>s g i. kmain (\<lambda>_. [0, 0, 0, 0]) (\<lambda>_ _ _. None) example_package example_pool (\<lambda>_. 0) example_limine linker_image example_reset =
      map_option (\<lambda>t. \<lparr>bs_shell = t, bs_gdt = g, bs_idt = i\<rparr>) (shell_run (\<lambda>_ _ _. None) s) \<and> shell_ok s \<and>
    fs_open (str ''bin/sh'' @ [0]) (k_fs (sh_kernel s)) = Some (Some (FsFile 1), k_fs (sh_kernel s)) \<and>
    fs_read_slice 1 0 100 (k_fs (sh_kernel s)) = Some [1, 2, 3, 0, 5] \<and>
    gate_offset (idt_entries i ! 14) = 0xffffffff80005678"
proof -
  let ?m = example_module and ?p = "lit ''/boot/initramfs.cpio''" and ?f = "\<lparr>lb_address = Some (\<lambda>_. 0), lb_pixels = 800 * 600, lb_width = 800,
       lb_height = 600, lb_pitch = 3200\<rparr>" and ?n = "\<lparr>lm_path = None, lm_address = 0, lm_data = []\<rparr>"
  have r: "at_reset example_reset"
    by (simp add: at_reset_def example_reset_def shell_boot_def)
  have size: "pmm_kernel_size 0xffffffff80020000 \<lparr>ka_physical_base = 0x200000, ka_virtual_base = 0xffffffff80000000\<rparr> = 0x20000"
    by (simp add: pmm_kernel_size_def size_sub_def)
  have mm: "memmap_ok example_limine linker_image"
    using size by (simp add: memmap_ok_def example_limine_def linker_image_def pmm_consts)
  have l: "lr_framebuffers example_limine = Some (?f # [])" "lr_modules example_limine = Some ([?n] @ ?m # [])"
    "list_all other_module [?n]"
    by (simp_all add: example_limine_def other_module_def)
  have m: "lm_path ?m = Some ?p" "terminated ?p" "named archive_name ?p" "lm_address ?m \<noteq> 0" "lm_address ?m mod 4 = 0"
    "lm_data ?m = cpio_archive example_meta example_files" "lm_address ?m = 0x1000"
    by (simp_all add: example_module_def lit_def named_def)
  have h: "list_all (\<lambda>(name, data). plain_name name) example_files" "distinct (map fst example_files)"
    and pool: "(\<Sum>(name, data) \<leftarrow> example_files. length data) \<le> POOL_SIZE"
    by (simp_all add: example_files_def plain_name_def image_names_def fs_consts)
  have "sum_list (map path_cost ([?n] @ [?m])) = 33"
    by (simp add: path_cost_def example_module_def lit_def)
  then have rd: "900 + sum_list (map path_cost ([?n] @ [?m])) \<le> ready (bs_shell example_reset)"
    by (simp add: example_reset_def shell_boot_def ready_count_def filter_replicate)
  have e: "length example_files = 2" "example_files ! 1 = (str ''bin/sh'', [1, 2, 3, 0, 5])"
    by (simp_all add: example_files_def)
  have a: "lm_address ?m + length (cpio_archive example_meta example_files) + 3 < 2 ^ 64"
    using example_archive_ok(4) m(7) by simp
  have fi: "drawable (fb_struct ?f)" "package_ok example_package" "unused_pool example_pool"
    by (simp_all add: drawable_def fb_struct_def package_ok_def known_sizes_def example_package_def unused_pool_def example_pool_def)
  have kept: "kept_files example_files = example_files" by (rule kept_all) (use e(1) pool in simp_all)
  have pad: "padded 4 (\<lambda>_. [0, 0, 0, 0])" by simp
  obtain s g i where s: "kmain (\<lambda>_. [0, 0, 0, 0]) (\<lambda>_ _ _. None) example_package example_pool (\<lambda>_. 0) example_limine linker_image example_reset =
      map_option (\<lambda>t. \<lparr>bs_shell = t, bs_gdt = g, bs_idt = i\<rparr>) (shell_run (\<lambda>_ _ _. None) s)" "shell_ok s"
    "\<forall>j < length example_files. fs_open (fst (example_files ! j) @ [0]) (k_fs (sh_kernel s)) =
       Some (if j < length example_files then Some (FsFile j) else None, k_fs (sh_kernel s))"
    "\<forall>j < length example_files. \<forall>n. fs_read_slice j 0 n (k_fs (sh_kernel s)) = Some (take n (snd (example_files ! j)))"
    "gate_offset (idt_entries i ! 14) = im_isr14 linker_image"
    using kmain_boots_shell [where bb = "\<lambda>_. 0" and jmp = "\<lambda>_ _ _. None",
        OF pad r mm l(1) fi l(2,3) m(1-4,6) example_archive_ok(1,2) m(5) a h rd] unfolding kept by metis
  have "im_isr14 linker_image = 0xffffffff80005678" by (simp add: linker_image_def)
  moreover have "1 < length example_files" by (simp add: e(1))
  from s(3) [rule_format, OF this] s(4) [rule_format, OF this] have "fs_open (str ''bin/sh'' @ [0]) (k_fs (sh_kernel s)) = Some (Some (FsFile 1), k_fs (sh_kernel s))"
    "fs_read_slice 1 0 100 (k_fs (sh_kernel s)) = Some [1, 2, 3, 0, 5]"
    unfolding e by simp_all
  ultimately show ?thesis using s(1,2,5) by (intro exI [of _ s] exI [of _ g] exI [of _ i]) simp
qed

theorem ends_with_skips_first_witness:
  "checkStringEndsWith (lit ''xnitramfs.cpio'') (lit ''initramfs.cpio'') = Some True \<and>
   checkStringEndsWith (lit ''other.cpio'') (lit ''initramfs.cpio'') = Some False"
proof -
  have "suffix (str ''nitramfs.cpio'') (str ''xnitramfs.cpio'')" by (simp add: suffix_def)
  then show ?thesis
    using ends_with_skips_first [of "lit ''xnitramfs.cpio''" "lit ''initramfs.cpio''"]
      ends_with_skips_first [of "lit ''other.cpio''" "lit ''initramfs.cpio''"]
    by (simp add: lit_def)
qed

end
