(* ===== verification/GuiCorrect.thy ===== *)
theory GuiCorrect
  imports Gui
begin

text \<open>
  The drawing routines: what a rectangle changes, that no routine writes outside the back buffer
  on a screen it has room for, that it does on a larger one, the run of the demo on any input, and
  the behaviour of the title bar.
\<close>

section \<open>Rectangles\<close>

definition PIXELS :: nat where "PIXELS = GUI_MAX_WIDTH * GUI_MAX_HEIGHT"

lemma PIXELS_eq: "PIXELS = 2304000"
  by (simp add: PIXELS_def GUI_MAX_WIDTH_def GUI_MAX_HEIGHT_def)

lemma put_pixel_eq: "0 \<le> i \<Longrightarrow> i < int PIXELS \<Longrightarrow> put_pixel i c bb = Some (bb(nat i := c))"
  by (simp add: put_pixel_def PIXELS_def)

lemma coord_less: "0 \<le> v \<Longrightarrow> v < 2 ^ 32 \<Longrightarrow> (word_of_int v :: u32) \<ge> width \<longleftrightarrow> uint width \<le> v"
  by (simp add: word_le_def uint_word_of_int)

lemma coord_negative:
  assumes "v < 0" and "- (2 ^ 31) \<le> v" and "uint width < 2 ^ 31"
  shows "(word_of_int v :: u32) \<ge> width"
proof -
  have "v mod 2 ^ 32 = (v + 2 ^ 32) mod 2 ^ 32" by simp
  also have "\<dots> = v + 2 ^ 32" using assms by (intro mod_pos_pos_trivial) simp_all
  finally show ?thesis using assms by (simp add: word_le_def uint_word_of_int)
qed

lemma fill_cols_eq:
  assumes "0 \<le> x" and "uint row + uint width \<le> int PIXELS"
  shows "x + int (a + n) < 2 ^ 32 \<Longrightarrow> fill_cols width row x color [a..<a + n] bb =
    Some (\<lambda>p. if uint row + x + int a \<le> int p \<and> int p < uint row + min (x + int (a + n)) (uint width)
               then color else bb p)"
proof (induction n arbitrary: a bb)
  case 0
  show ?case by (auto intro!: ext)
next
  case (Suc n)
  have ne: "[a..<a + Suc n] = a # [Suc a..<Suc a + n]" by (simp add: upt_conv_Cons)
  show ?case
  proof (cases "uint width \<le> x + int a")
    case True
    then have "(word_of_int (x + int a) :: u32) \<ge> width"
      using assms(1) Suc.prems by (subst coord_less) auto
    then show ?thesis using True unfolding ne by (auto simp del: upt_Suc intro!: ext)
  next
    case False
    then have c: "\<not> (word_of_int (x + int a) :: u32) \<ge> width"
      using assms(1) Suc.prems by (subst coord_less) auto
    let ?i = "uint row + (x + int a)"
    have p: "put_pixel ?i color bb = Some (bb(nat ?i := color))"
      using False assms by (intro put_pixel_eq) auto
    have "fill_cols width row x color [Suc a..<Suc a + n] (bb(nat ?i := color)) =
      Some (\<lambda>p. if uint row + x + int (Suc a) \<le> int p \<and> int p < uint row + min (x + int (Suc a + n)) (uint width)
               then color else (bb(nat ?i := color)) p)"
      using Suc.prems by (intro Suc.IH) simp
    moreover have "(\<lambda>p. if uint row + x + int (Suc a) \<le> int p \<and> int p < uint row + min (x + int (Suc a + n)) (uint width)
               then color else (bb(nat ?i := color)) p)
      = (\<lambda>p. if uint row + x + int a \<le> int p \<and> int p < uint row + min (x + int (a + Suc n)) (uint width)
               then color else bb p)"
      using False assms(1) by (auto intro!: ext)
    ultimately show ?thesis using c p unfolding ne by (simp del: upt_Suc)
  qed
qed

definition in_rect :: "int \<Rightarrow> int \<Rightarrow> int \<Rightarrow> int \<Rightarrow> nat \<Rightarrow> nat \<Rightarrow> nat \<Rightarrow> bool" where
  "in_rect x y w h width height p \<longleftrightarrow> 0 \<le> x \<and> 0 \<le> y \<and> p < width * height \<and>
     x \<le> int (p mod width) \<and> int (p mod width) < x + w \<and> y \<le> int (p div width) \<and> int (p div width) < y + h"

text \<open>One row of a rectangle, by the pixel's row and column.\<close>

lemma row_pixels:
  assumes "0 < W" and "0 \<le> x"
  shows "int r * int W + x \<le> int p \<and> int p < int r * int W + min (x + w) (int W) \<longleftrightarrow>
    p div W = r \<and> x \<le> int (p mod W) \<and> int (p mod W) < x + w"
proof
  assume h: "int r * int W + x \<le> int p \<and> int p < int r * int W + min (x + w) (int W)"
  then have "int (r * W) \<le> int p" "int p < int (r * W + W)" using assms(2) by auto
  then have b: "r * W \<le> p" "p < r * W + W" by linarith+
  then have d: "p div W = r" by (intro div_nat_eqI) (simp_all add: mult.commute)
  then have "p = r * W + p mod W" by (metis div_mult_mod_eq)
  then have "int p = int r * int W + int (p mod W)" by (metis of_nat_add of_nat_mult)
  with h d show "p div W = r \<and> x \<le> int (p mod W) \<and> int (p mod W) < x + w" by auto
next
  assume h: "p div W = r \<and> x \<le> int (p mod W) \<and> int (p mod W) < x + w"
  then have "p = r * W + p mod W" by (metis div_mult_mod_eq)
  then have "int p = int r * int W + int (p mod W)" by (metis of_nat_add of_nat_mult)
  moreover have "p mod W < W" using assms(1) by simp
  ultimately show "int r * int W + x \<le> int p \<and> int p < int r * int W + min (x + w) (int W)" using h by auto
qed

text \<open>The screens the back buffer has room for, and coordinates far from overflow.\<close>

definition screen_ok :: "u32 \<Rightarrow> u32 \<Rightarrow> bool" where
  "screen_ok width height \<longleftrightarrow> unat width * unat height \<le> PIXELS \<and> unat width < 2 ^ 16 \<and> unat height < 2 ^ 16"

definition coord_ok :: "int \<Rightarrow> bool" where
  "coord_ok v \<longleftrightarrow> - (2 ^ 30) \<le> v \<and> v < 2 ^ 30"

lemma fill_cols_rect:
  assumes W: "uint width = int W" "W < 2 ^ 16" and c: "coord_ok x" "coord_ok w"
    and row: "uint row = int (r * W)" and lim: "r * W + W \<le> PIXELS"
  shows "fill_cols width row x color [0..<nat w] bb =
    Some (\<lambda>p. if 0 \<le> x \<and> p div W = r \<and> x \<le> int (p mod W) \<and> int (p mod W) < x + w \<and> 0 < W
              then color else bb p)"
proof (cases "0 \<le> x \<and> 0 < w")
  case True
  have "int (r * W) + int W \<le> int PIXELS" using lim by (simp only: of_nat_add [symmetric] of_nat_le_iff)
  then have lim': "uint row + uint width \<le> int PIXELS" unfolding row W(1) .
  have "x + int (0 + nat w) < 2 ^ 32" using c True by (simp add: coord_ok_def)
  from fill_cols_eq [OF _ lim' this, of color bb] True
  have eq: "fill_cols width row x color [0..<nat w] bb =
    Some (\<lambda>p. if int r * int W + x \<le> int p \<and> int p < int r * int W + min (x + w) (int W) then color else bb p)"
    by (simp add: row W(1))
  show ?thesis
  proof (cases "W = 0")
    case True
    with \<open>0 \<le> x \<and> 0 < w\<close> show ?thesis unfolding eq by (auto intro!: ext)
  next
    case False
    then have "int r * int W + x \<le> int p \<and> int p < int r * int W + min (x + w) (int W) \<longleftrightarrow>
      p div W = r \<and> x \<le> int (p mod W) \<and> int (p mod W) < x + w" for p
      using True by (intro row_pixels) simp_all
    then show ?thesis unfolding eq using True False by simp
  qed
next
  case False
  show ?thesis
  proof (cases "0 < w")
    case True
    have W31: "uint width < 2 ^ 31" using W by simp
    from True obtain n where "nat w = Suc n" by (cases "nat w") auto
    then have "[0..<nat w] = 0 # [1..<nat w]" by (simp add: upt_conv_Cons)
    moreover have "(word_of_int (x + int 0) :: u32) \<ge> width"
      using coord_negative [OF _ _ W31, of x] False True c by (simp add: coord_ok_def)
    ultimately show ?thesis using False True by auto
  qed (auto intro!: ext)
qed

lemma fill_rows_eq:
  assumes W: "uint width = int W" "W < 2 ^ 16" and H: "uint height = int H" and ok: "W * H \<le> PIXELS"
    and c: "coord_ok x" "coord_ok w" and y: "0 \<le> y"
  shows "y + int (a + n) < 2 ^ 32 \<Longrightarrow> fill_rows width height x y w color [a..<a + n] bb =
    Some (\<lambda>p. if 0 \<le> x \<and> p < W * H \<and> x \<le> int (p mod W) \<and> int (p mod W) < x + w \<and>
                 y + int a \<le> int (p div W) \<and> int (p div W) < y + int (a + n)
              then color else bb p)"
proof (induction n arbitrary: a bb)
  case 0
  show ?case by (auto intro!: ext)
next
  case (Suc n)
  have ne: "[a..<a + Suc n] = a # [Suc a..<Suc a + n]" by (simp add: upt_conv_Cons)
  have rows: "p div W < H" if "p < W * H" for p
    using that by (simp add: less_mult_imp_div_less mult.commute)
  show ?case
  proof (cases "int H \<le> y + int a")
    case True
    then have "(word_of_int (y + int a) :: u32) \<ge> height" using y Suc.prems by (subst coord_less) (simp_all add: H)
    moreover have "\<not> (p < W * H \<and> y + int a \<le> int (p div W))" for p
      using rows [of p] True by linarith
    ultimately show ?thesis unfolding ne by (auto simp del: upt_Suc intro!: ext)
  next
    case False
    then have br: "\<not> (word_of_int (y + int a) :: u32) \<ge> height"
      using y Suc.prems by (subst coord_less) (simp_all add: H)
    define r where "r = nat (y + int a)"
    have r: "int r = y + int a" using y by (simp add: r_def)
    have rH: "r < H" using False r by linarith
    have "Suc r * W \<le> H * W" using rH by (intro mult_le_mono1) simp
    then have lim: "r * W + W \<le> PIXELS" using ok by (simp add: mult.commute)
    then have small: "r * W < 2 ^ 32" by (simp add: PIXELS_eq)
    have width: "width = word_of_int (int W)" by (metis W(1) word_of_int_uint)
    have "(word_of_int (y + int a) :: u32) * width = word_of_nat (r * W)"
      by (subst width) (simp add: r [symmetric])
    then have row: "uint (word_of_int (y + int a) * width) = int (r * W)"
      using small by (simp only: uint_nat unat_of_nat) simp
    let ?b = "\<lambda>p. if 0 \<le> x \<and> p div W = r \<and> x \<le> int (p mod W) \<and> int (p mod W) < x + w \<and> 0 < W then color else bb p"
    have cols: "fill_cols width (word_of_int (y + int a) * width) x color [0..<nat w] bb = Some ?b"
      by (rule fill_cols_rect [OF W c row lim])
    have IH: "fill_rows width height x y w color [Suc a..<Suc a + n] ?b =
      Some (\<lambda>p. if 0 \<le> x \<and> p < W * H \<and> x \<le> int (p mod W) \<and> int (p mod W) < x + w \<and>
                 y + int (Suc a) \<le> int (p div W) \<and> int (p div W) < y + int (Suc a + n)
              then color else ?b p)"
      using Suc.prems by (intro Suc.IH) simp
    have inside: "p < W * H" if "p div W = r" "0 < W" for p
    proof -
      have "p = r * W + p mod W" using that by (metis div_mult_mod_eq)
      moreover have "p mod W < W" using that by simp
      ultimately have "p < Suc r * W" by simp
      with \<open>Suc r * W \<le> H * W\<close> show ?thesis by (simp add: mult.commute)
    qed
    have pos: "0 < W" if "p < W * H" for p using that by (cases W) simp_all
    have "(if 0 \<le> x \<and> p < W * H \<and> x \<le> int (p mod W) \<and> int (p mod W) < x + w \<and>
                 y + int (Suc a) \<le> int (p div W) \<and> int (p div W) < y + int (Suc a + n) then color else ?b p)
      = (if 0 \<le> x \<and> p < W * H \<and> x \<le> int (p mod W) \<and> int (p mod W) < x + w \<and>
                 y + int a \<le> int (p div W) \<and> int (p div W) < y + int (a + Suc n) then color else bb p)" for p
    proof (cases "p div W = r")
      case True
      then show ?thesis using inside [OF True] pos [of p] r by auto
    next
      case False
      then have "y + int a \<le> int (p div W) \<longleftrightarrow> y + int (Suc a) \<le> int (p div W)" using r by linarith
      then show ?thesis using False by auto
    qed
    with IH br cols show ?thesis unfolding ne by (simp del: upt_Suc)
  qed
qed

definition painted :: "u32 \<Rightarrow> u32 \<Rightarrow> int \<Rightarrow> int \<Rightarrow> int \<Rightarrow> int \<Rightarrow> u32 \<Rightarrow> pixels \<Rightarrow> pixels" where
  "painted width height x y w h color bb =
     (\<lambda>p. if in_rect x y w h (unat width) (unat height) p then color else bb p)"

lemma fill_rows_rect:
  assumes ok: "screen_ok width height" and c: "coord_ok x" "coord_ok y" "coord_ok w" "coord_ok h"
  shows "fill_rows width height x y w color [0..<nat h] bb = Some (painted width height x y w h color bb)"
proof (cases "0 \<le> y \<and> 0 < h")
  case True
  have "y + int (0 + nat h) < 2 ^ 32" using c True by (simp add: coord_ok_def)
  from fill_rows_eq [OF uint_nat _ uint_nat _ c(1,3) _ this, of width height color bb] True ok show ?thesis
    by (auto simp: painted_def in_rect_def screen_ok_def simp del: of_nat_unat intro!: ext)
next
  case False
  then have np: "painted width height x y w h color bb = bb"
    by (auto simp: painted_def in_rect_def intro!: ext)
  show ?thesis
  proof (cases "0 < h")
    case True
    have "unat height < 65536" using ok by (simp add: screen_ok_def)
    then have "uint height < 65536" unfolding uint_nat by linarith
    then have H: "uint height < 2 ^ 31" by simp
    from True obtain n where "nat h = Suc n" by (cases "nat h") auto
    then have "[0..<nat h] = 0 # [1..<nat h]" by (simp add: upt_conv_Cons)
    moreover have "(word_of_int (y + int 0) :: u32) \<ge> height"
      using coord_negative [OF _ _ H, of y] False True c by (simp add: coord_ok_def)
    ultimately show ?thesis using np by simp
  qed (simp add: np)
qed

lemma gui_fill_rect_eq:
  assumes "screen_ok (gc_width ctx) (gc_height ctx)" and "coord_ok x" "coord_ok y" "coord_ok w" "coord_ok h"
  shows "gui_fill_rect x y w h color ctx =
    Some (ctx\<lparr>backbuffer := map_option (painted (gc_width ctx) (gc_height ctx) x y w h color) (backbuffer ctx)\<rparr>)"
  using fill_rows_rect [OF assms] by (cases "backbuffer ctx") (simp_all add: gui_fill_rect_def)

text \<open>
  A rectangle on a screen the back buffer has room for: exactly its visible pixels get the
  colour, nothing outside the buffer is touched. A rectangle that starts left of the screen or
  above it is not clipped but dropped: \<open>break\<close> leaves the loop at the first coordinate outside.
\<close>

theorem gui_fill_rect_paints:
  assumes "screen_ok (gc_width ctx) (gc_height ctx)" and "backbuffer ctx = Some bb"
    and "coord_ok x" and "coord_ok y" and "coord_ok w" and "coord_ok h"
  shows "\<exists>bb'. gui_fill_rect x y w h color ctx = Some (ctx\<lparr>backbuffer := Some bb'\<rparr>) \<and>
    (\<forall>p. bb' p = (if in_rect x y w h (unat (gc_width ctx)) (unat (gc_height ctx)) p then color else bb p))"
  using gui_fill_rect_eq [OF assms(1,3-6), of color] assms(2)
  by (intro exI [of _ "painted (gc_width ctx) (gc_height ctx) x y w h color bb"]) (simp add: painted_def)

definition tiny_screen :: gui_context where
  "tiny_screen = \<lparr>gc_fb = Some (\<lambda>i. 0), gc_fb_pixels = 20, backbuffer = Some (\<lambda>i. 0),
     gc_width = 4, gc_height = 3, gc_pitch = 5\<rparr>"

theorem gui_fill_rect_paints_witness:
  "\<exists>bb'. gui_fill_rect 1 1 9 1 7 tiny_screen = Some (tiny_screen\<lparr>backbuffer := Some bb'\<rparr>) \<and>
     bb' 4 = 0 \<and> bb' 5 = 7 \<and> bb' 7 = 7 \<and> bb' 8 = 0"
proof -
  have ok: "screen_ok (gc_width tiny_screen) (gc_height tiny_screen)"
    by (simp add: tiny_screen_def screen_ok_def PIXELS_eq)
  have b: "backbuffer tiny_screen = Some (\<lambda>i. 0)" by (simp add: tiny_screen_def)
  obtain bb' where r: "gui_fill_rect 1 1 9 1 7 tiny_screen = Some (tiny_screen\<lparr>backbuffer := Some bb'\<rparr>)"
    and v: "\<forall>p. bb' p = (if in_rect 1 1 9 1 (unat (gc_width tiny_screen)) (unat (gc_height tiny_screen)) p
                          then 7 else 0)"
    using gui_fill_rect_paints [OF ok b, of 1 1 9 1 7] by (auto simp: coord_ok_def)
  have "bb' 4 = 0" "bb' 5 = 7" "bb' 7 = 7" "bb' 8 = 0"
    using v by (simp_all add: tiny_screen_def in_rect_def)
  with r show ?thesis by blast
qed

section \<open>Drawing stays in the buffer\<close>

definition same_screen :: "gui_context \<Rightarrow> gui_context \<Rightarrow> bool" where
  "same_screen c d \<longleftrightarrow> gc_width d = gc_width c \<and> gc_height d = gc_height c \<and> gc_pitch d = gc_pitch c \<and>
     gc_fb d = gc_fb c \<and> gc_fb_pixels d = gc_fb_pixels c \<and> (backbuffer d = None \<longleftrightarrow> backbuffer c = None)"

definition draws :: "(gui_context \<Rightarrow> gui_context option) \<Rightarrow> bool" where
  "draws f \<longleftrightarrow> (\<forall>c. screen_ok (gc_width c) (gc_height c) \<longrightarrow> (\<exists>d. f c = Some d \<and> same_screen c d))"

lemma same_screen_refl [simp]: "same_screen c c"
  by (simp add: same_screen_def)

lemma same_screen_trans: "same_screen c d \<Longrightarrow> same_screen d e \<Longrightarrow> same_screen c e"
  by (simp add: same_screen_def)

lemma draws_Some [intro]: "draws Some"
  by (simp add: draws_def)

lemma draws_bind [intro]:
  assumes "draws f" and "draws g"
  shows "draws (\<lambda>c. Option.bind (f c) g)"
  unfolding draws_def
proof (intro allI impI)
  fix c :: gui_context
  assume "screen_ok (gc_width c) (gc_height c)"
  then obtain d where d: "f c = Some d" "same_screen c d" "screen_ok (gc_width d) (gc_height d)"
    using assms(1) by (force simp: draws_def same_screen_def)
  then obtain e where "g d = Some e" "same_screen d e" using assms(2) by (auto simp: draws_def)
  with d show "\<exists>d. Option.bind (f c) g = Some d \<and> same_screen c d" by (auto intro: same_screen_trans)
qed

lemma draws_for_each:
  assumes "\<And>x. x \<in> set xs \<Longrightarrow> draws (f x)"
  shows "draws (for_each f xs)"
  using assms
proof (induction xs)
  case (Cons x xs)
  have "draws (\<lambda>c. Option.bind (f x c) (for_each f xs))" using Cons by (intro draws_bind) auto
  moreover have "(\<lambda>c. Option.bind (f x c) (for_each f xs)) = for_each f (x # xs)" by (intro ext) simp
  ultimately show ?case by simp
qed (simp add: draws_def)

lemma draws_fill_rect:
  "coord_ok x \<Longrightarrow> coord_ok y \<Longrightarrow> coord_ok w \<Longrightarrow> coord_ok h \<Longrightarrow> draws (gui_fill_rect x y w h color)"
  by (simp add: draws_def gui_fill_rect_eq same_screen_def)

definition window_ok :: "int \<Rightarrow> bool" where
  "window_ok v \<longleftrightarrow> - (2 ^ 20) \<le> v \<and> v < 2 ^ 20"

lemma draws_window:
  assumes "window_ok x" "window_ok y" "window_ok w" "window_ok h" "window_ok radius"
  shows "draws (gui_draw_window x y w h bg border radius)"
proof -
  define r1 where "r1 = (if radius * 2 > w then w div 2 else radius)"
  define r where "r = (if r1 * 2 > h then h div 2 else r1)"
  have r: "window_ok r" using assms by (auto simp: r_def r1_def window_ok_def)
  have eq: "gui_draw_window x y w h bg border radius = (\<lambda>c.
     if w \<le> 2 \<or> h \<le> 2 then Some c
     else if radius \<le> 0
     then Option.bind (gui_fill_rect x y w 1 border c) (\<lambda>c. Option.bind (gui_fill_rect x (y + h - 1) w 1 border c)
       (\<lambda>c. Option.bind (gui_fill_rect x y 1 h border c) (\<lambda>c. Option.bind (gui_fill_rect (x + w - 1) y 1 h border c)
       (gui_fill_rect (x + 1) (y + 1) (w - 2) (h - 2) bg))))
     else Option.bind (gui_fill_rect (x + r) y (w - 2 * r) r border c)
       (\<lambda>c. Option.bind (gui_fill_rect (x + r) (y + h - r) (w - 2 * r) r border c)
       (\<lambda>c. Option.bind (gui_fill_rect x (y + r) r (h - 2 * r) border c)
       (\<lambda>c. Option.bind (gui_fill_rect (x + w - r) (y + r) r (h - 2 * r) border c)
       (\<lambda>c. Option.bind (gui_fill_rect (x + r) (y + r) (w - 2 * r) (h - 2 * r) bg c)
       (for_each (\<lambda>j. for_each (corner_pixel x y w h bg border r j) [0..<nat r]) [0..<nat r]))))))"
    by (intro ext) (simp add: gui_draw_window_def r_def r1_def Let_def)
  have corner: "draws (corner_pixel x y w h bg border r j i)" if "j < nat r" "i < nat r" for i j
    unfolding corner_pixel_def fill_corners_def Let_def
    using assms r that by (intro draws_bind draws_fill_rect) (auto simp: coord_ok_def window_ok_def)
  have loop: "draws (for_each (\<lambda>j. for_each (corner_pixel x y w h bg border r j) [0..<nat r]) [0..<nat r])"
    by (intro draws_for_each corner) auto
  have "draws (\<lambda>c. Option.bind (gui_fill_rect (x + r) y (w - 2 * r) r border c)
       (\<lambda>c. Option.bind (gui_fill_rect (x + r) (y + h - r) (w - 2 * r) r border c)
       (\<lambda>c. Option.bind (gui_fill_rect x (y + r) r (h - 2 * r) border c)
       (\<lambda>c. Option.bind (gui_fill_rect (x + w - r) (y + r) r (h - 2 * r) border c)
       (\<lambda>c. Option.bind (gui_fill_rect (x + r) (y + r) (w - 2 * r) (h - 2 * r) bg c)
       (for_each (\<lambda>j. for_each (corner_pixel x y w h bg border r j) [0..<nat r]) [0..<nat r]))))))"
    using assms r by (intro draws_bind draws_fill_rect loop) (auto simp: coord_ok_def window_ok_def)
  moreover have "draws (\<lambda>c. Option.bind (gui_fill_rect x y w 1 border c) (\<lambda>c. Option.bind (gui_fill_rect x (y + h - 1) w 1 border c)
       (\<lambda>c. Option.bind (gui_fill_rect x y 1 h border c) (\<lambda>c. Option.bind (gui_fill_rect (x + w - 1) y 1 h border c)
       (gui_fill_rect (x + 1) (y + 1) (w - 2) (h - 2) bg)))))"
    using assms by (intro draws_bind draws_fill_rect) (auto simp: coord_ok_def window_ok_def)
  ultimately show ?thesis unfolding eq using draws_Some by (simp add: draws_def)
qed

lemma sint_small: "unat (v :: u32) < 2 ^ 16 \<Longrightarrow> sint v = int (unat v)"
proof -
  assume "unat v < 2 ^ 16"
  then have "unat v < 65536" by simp
  then have "uint v < 65536" unfolding uint_nat by linarith
  moreover have "- (2 ^ 31) \<le> (0 :: int)" by simp
  then have "- (2 ^ 31) \<le> uint v" using uint_ge_0 [of v] by (rule order_trans)
  ultimately have "signed_take_bit 31 (uint v) = uint v" by (intro signed_take_bit_int_eq_self) simp_all
  then show ?thesis by (simp add: sint_uint)
qed

lemma screen_window_ok:
  assumes "screen_ok width height"
  shows "window_ok (sint width)" "window_ok (sint height)" "window_ok (sint (width div 2))" "window_ok (sint (height div 2))"
proof -
  have "window_ok (sint v)" if "unat v < 2 ^ 16" for v :: u32
    using that by (simp add: sint_small window_ok_def del: of_nat_unat)
  moreover have "unat (v div 2) < 2 ^ 16" if "unat v < 2 ^ 16" for v :: u32
    using that by (simp add: unat_div)
  ultimately show "window_ok (sint width)" "window_ok (sint height)" "window_ok (sint (width div 2))"
      "window_ok (sint (height div 2))"
    using assms by (simp_all add: screen_ok_def)
qed

lemma draws_desktop: "draws gui_draw_desktop"
  unfolding draws_def
proof (intro allI impI)
  fix c :: gui_context
  assume ok: "screen_ok (gc_width c) (gc_height c)"
  have "draws (\<lambda>c'. Option.bind (gui_fill_rect 0 0 (sint (gc_width c)) (sint (gc_height c)) 0x002244 c')
      (gui_draw_window 50 50 (sint (gc_width c div 2)) (sint (gc_height c div 2)) 0xcccccc 0x000000 8))"
    using screen_window_ok [OF ok]
    by (intro draws_bind draws_window draws_fill_rect) (auto simp: coord_ok_def window_ok_def)
  with ok show "\<exists>d. gui_draw_desktop c = Some d \<and> same_screen c d"
    by (simp add: gui_draw_desktop_def draws_def)
qed

definition win_ok :: "gui_window \<Rightarrow> bool" where
  "win_ok win \<longleftrightarrow> window_ok (win_x win) \<and> window_ok (win_y win) \<and> window_ok (win_w win) \<and> window_ok (win_h win)"

lemma draws_window_ex:
  assumes "win_ok win"
  shows "draws (gui_draw_window_ex win bg border)"
  unfolding draws_def
proof (intro allI impI)
  fix c :: gui_context
  assume ok: "screen_ok (gc_width c) (gc_height c)"
  obtain x y w h where f: "window_frame c win = (x, y, w, h)" by (cases "window_frame c win") auto
  have b: "window_ok x" "window_ok y" "window_ok w" "window_ok h"
    using f assms screen_window_ok [OF ok] by (auto simp: window_frame_def win_ok_def window_ok_def split: if_splits)
  have "draws (\<lambda>c. Option.bind (gui_draw_window x y w h bg border 8 c)
      (\<lambda>c. Option.bind (gui_fill_rect (x + w - 45) (y + 2) 12 12 0x666666 c)
      (\<lambda>c. Option.bind (gui_fill_rect (x + w - 30) (y + 2) 12 12 0x666666 c)
      (gui_fill_rect (x + w - 15) (y + 2) 12 12 0x666666))))"
    using b by (intro draws_bind draws_window draws_fill_rect) (auto simp: coord_ok_def window_ok_def)
  with ok show "\<exists>d. gui_draw_window_ex win bg border c = Some d \<and> same_screen c d"
    by (simp add: gui_draw_window_ex_def draws_def f)
qed

lemma draws_cursor:
  assumes "window_ok x" and "window_ok y"
  shows "draws (gui_draw_cursor x y color)"
proof -
  have "draws (\<lambda>c. do { a \<leftarrow> rd arrow j;
         if a AND drop_bit i 0x80 \<noteq> 0 then gui_fill_rect (x + int i) (y + int j) 1 1 color c else Some c })"
    if "j < 8" "i < 8" for i j
  proof -
    have "rd arrow j = Some (arrow ! j)" using that by (simp add: arrow_def)
    moreover have "draws (gui_fill_rect (x + int i) (y + int j) 1 1 color)"
      using assms that by (intro draws_fill_rect) (auto simp: coord_ok_def window_ok_def)
    ultimately show ?thesis using draws_Some by (simp add: draws_def)
  qed
  then show ?thesis unfolding gui_draw_cursor_def by (intro draws_for_each) auto
qed

section \<open>The copy to the screen\<close>

text \<open>The frame buffer the boot loader describes: rows at least as long as the screen is wide.\<close>

definition frame_ok :: "gui_context \<Rightarrow> bool" where
  "frame_ok c \<longleftrightarrow> screen_ok (gc_width c) (gc_height c) \<and> unat (gc_width c) \<le> unat (gc_pitch c) \<and>
     unat (gc_pitch c) * unat (gc_height c) < 2 ^ 32 \<and> unat (gc_pitch c) * unat (gc_height c) \<le> gc_fb_pixels c"

lemma u32_product: "i * unat (v :: u32) < 2 ^ 32 \<Longrightarrow> unat (word_of_nat i * v) = i * unat v"
proof -
  assume h: "i * unat v < 2 ^ 32"
  have "word_of_nat i * v = word_of_nat (i * unat v)" by simp
  then show ?thesis using h by (simp only: unat_of_nat) simp
qed

lemma flush_rows:
  assumes W: "W \<le> P" "W * H \<le> PIXELS" and P: "P * H \<le> limit"
  shows "n \<le> H \<Longrightarrow> \<exists>fb'. for_each (\<lambda>j. copy_row limit (j * P) (j * W) W bb) [0..<n] fb = Some fb' \<and>
    (\<forall>x y. x < W \<longrightarrow> y < n \<longrightarrow> fb' (y * P + x) = bb (y * W + x))"
proof (induction n)
  case (Suc n)
  then obtain fb1 where fb1: "for_each (\<lambda>j. copy_row limit (j * P) (j * W) W bb) [0..<n] fb = Some fb1"
    "\<forall>x y. x < W \<longrightarrow> y < n \<longrightarrow> fb1 (y * P + x) = bb (y * W + x)" by auto
  have "n * W + W \<le> H * W" "n * P + P \<le> H * P"
    using Suc.prems by (metis Suc_le_eq add.commute mult_Suc mult_le_mono1)+
  then have "n * P + W \<le> limit" "n * W + W \<le> PIXELS" using W P by (simp_all add: mult.commute)
  then have c: "copy_row limit (n * P) (n * W) W bb fb1 =
      Some (\<lambda>i. if n * P \<le> i \<and> i < n * P + W then bb (n * W + (i - n * P)) else fb1 i)"
    by (simp add: copy_row_def PIXELS_def)
  let ?fb = "\<lambda>i. if n * P \<le> i \<and> i < n * P + W then bb (n * W + (i - n * P)) else fb1 i"
  have before: "y * P + x < n * P" if "x < W" "y < n" for x y
  proof -
    have "y * P + P \<le> n * P" using that(2) by (metis Suc_le_eq add.commute mult_Suc mult_le_mono1)
    then show ?thesis using that(1) W(1) by linarith
  qed
  have "?fb (y * P + x) = bb (y * W + x)" if "x < W" "y < Suc n" for x y
  proof (cases "y < n")
    case True
    then show ?thesis using before [OF that(1) True] fb1(2) that(1) by simp
  next
    case False
    then have "y = n" using that(2) by simp
    then show ?thesis using that(1) by simp
  qed
  moreover have "for_each (\<lambda>j. copy_row limit (j * P) (j * W) W bb) [0..<Suc n] fb = Some ?fb"
    using fb1(1) c by (simp add: for_each_append)
  ultimately show ?case by blast
qed simp

lemma for_each_cong: "(\<And>x. x \<in> set xs \<Longrightarrow> f x = g x) \<Longrightarrow> for_each f xs s = for_each g xs s"
  by (induction xs arbitrary: s) (auto intro!: Option.bind_cong)

lemma gui_flush_ok:
  assumes "frame_ok c" and "gc_fb c = Some fb" and "backbuffer c = Some bb"
  shows "\<exists>fb'. gui_flush c = Some (c\<lparr>gc_fb := Some fb'\<rparr>) \<and>
    (\<forall>x y. x < unat (gc_width c) \<longrightarrow> y < unat (gc_height c) \<longrightarrow>
       fb' (y * unat (gc_pitch c) + x) = bb (y * unat (gc_width c) + x))"
proof -
  let ?W = "unat (gc_width c)" and ?H = "unat (gc_height c)" and ?P = "unat (gc_pitch c)"
  have ok: "?W \<le> ?P" "?W * ?H \<le> PIXELS" "?P * ?H \<le> gc_fb_pixels c" "?P * ?H < 2 ^ 32"
    using assms(1) by (simp_all add: frame_ok_def screen_ok_def)
  have "unat (word_of_nat j * gc_pitch c) = j * ?P" "unat (word_of_nat j * gc_width c) = j * ?W" if "j < ?H" for j
  proof -
    have "j * ?P \<le> ?P * ?H" using that by (metis less_imp_le mult.commute mult_le_mono1)
    moreover have "j * ?W \<le> j * ?P" using ok(1) by simp
    ultimately have "j * ?P < 2 ^ 32" "j * ?W < 2 ^ 32" using ok(4) by linarith+
    then show "unat (word_of_nat j * gc_pitch c) = j * ?P" "unat (word_of_nat j * gc_width c) = j * ?W"
      by (simp_all only: u32_product)
  qed
  then have "for_each (\<lambda>j. copy_row (gc_fb_pixels c) (unat (word_of_nat j * gc_pitch c))
      (unat (word_of_nat j * gc_width c)) ?W bb) [0..<?H] fb
    = for_each (\<lambda>j. copy_row (gc_fb_pixels c) (j * ?P) (j * ?W) ?W bb) [0..<?H] fb"
    by (intro for_each_cong) simp
  with flush_rows [OF ok(1-3), of ?H bb fb] show ?thesis
    by (auto simp: gui_flush_def assms(2,3))
qed

section \<open>A turn of the demo\<close>

lemma sint_pred_ok: "unat (v :: u32) < 2 ^ 16 \<Longrightarrow> window_ok (sint (v - 1))"
proof (cases "v = 0")
  case True
  then show ?thesis by (simp add: window_ok_def)
next
  case False
  assume "unat v < 2 ^ 16"
  moreover have "unat (v - 1) = unat v - 1" using False by (simp add: unat_minus_one)
  ultimately show ?thesis by (simp add: sint_small window_ok_def del: of_nat_unat)
qed

lemma clamp_mouse_ok:
  assumes "screen_ok (gc_width c) (gc_height c)"
  shows "window_ok (ms_x (clamp_mouse c s))" "window_ok (ms_y (clamp_mouse c s))"
  using screen_window_ok [OF assms] sint_pred_ok [of "gc_width c"] sint_pred_ok [of "gc_height c"] assms
  by (auto simp: clamp_mouse_def window_ok_def Let_def screen_ok_def)

lemma drawsD:
  assumes "draws f" and "frame_ok c"
  obtains d where "f c = Some d" and "same_screen c d" and "frame_ok d"
  using assms by (auto simp: draws_def frame_ok_def same_screen_def)

text \<open>The screen shows the back buffer row by row.\<close>

definition screen_shows :: "gui_context \<Rightarrow> bool" where
  "screen_shows c \<longleftrightarrow> (\<exists>fb bb. gc_fb c = Some fb \<and> backbuffer c = Some bb \<and>
     (\<forall>x y. x < unat (gc_width c) \<longrightarrow> y < unat (gc_height c) \<longrightarrow>
       fb (y * unat (gc_pitch c) + x) = bb (y * unat (gc_width c) + x)))"

text \<open>A context whose buffers are there and fit.\<close>

definition demo_ok :: "gui_context \<Rightarrow> bool" where
  "demo_ok c \<longleftrightarrow> frame_ok c \<and> gc_fb c \<noteq> None \<and> backbuffer c \<noteq> None \<and> 0 < gc_width c \<and> 0 < gc_height c"

definition same_size :: "gui_context \<Rightarrow> gui_context \<Rightarrow> bool" where
  "same_size c d \<longleftrightarrow> gc_width d = gc_width c \<and> gc_height d = gc_height c \<and> gc_pitch d = gc_pitch c \<and>
     gc_fb_pixels d = gc_fb_pixels c"

text \<open>Drawing a turn never leaves the two buffers, wherever the window and the mouse are.\<close>

lemma draw_turn_shows:
  assumes "demo_ok c" and "win_ok win"
  obtains c' where "gui_draw_turn win (clamp_mouse c s) c = Some c'" and "demo_ok c'" and "screen_shows c'" and "same_size c c'"
proof -
  let ?s = "clamp_mouse c s"
  obtain fb bb where b: "gc_fb c = Some fb" "backbuffer c = Some bb" and ok: "frame_ok c" "0 < gc_width c" "0 < gc_height c"
    using assms(1) by (auto simp: demo_ok_def)
  have sc: "screen_ok (gc_width c) (gc_height c)" using ok(1) by (simp add: frame_ok_def)
  obtain c1 where c1: "gui_draw_desktop c = Some c1" "same_screen c c1" "frame_ok c1"
    using drawsD [OF draws_desktop ok(1)] .
  obtain c2 where c2: "gui_draw_window_ex win 0xcccccc 0x000000 c1 = Some c2" "same_screen c1 c2" "frame_ok c2"
    using drawsD [OF draws_window_ex [OF assms(2)] c1(3)] .
  obtain c3 where c3: "gui_draw_cursor (ms_x ?s) (ms_y ?s) 0xffffff c2 = Some c3" "same_screen c2 c3" "frame_ok c3"
    using drawsD [OF draws_cursor c2(3)] clamp_mouse_ok [OF sc] by metis
  have same: "same_screen c c3" using c1(2) c2(2) c3(2) by (blast intro: same_screen_trans)
  obtain bb' where b': "gc_fb c3 = Some fb" "backbuffer c3 = Some bb'"
    using same b by (cases "backbuffer c3") (auto simp: same_screen_def)
  obtain fb' where f: "gui_flush c3 = Some (c3\<lparr>gc_fb := Some fb'\<rparr>)"
    "\<forall>x y. x < unat (gc_width c3) \<longrightarrow> y < unat (gc_height c3) \<longrightarrow>
       fb' (y * unat (gc_pitch c3) + x) = bb' (y * unat (gc_width c3) + x)"
    using gui_flush_ok [OF c3(3) b'] by blast
  let ?c = "c3\<lparr>gc_fb := Some fb'\<rparr>"
  have "gui_draw_turn win ?s c = Some ?c" using c1(1) c2(1) c3(1) f(1) by (simp add: gui_draw_turn_def)
  moreover have "demo_ok ?c" using c3(3) b'(2) ok(2,3) same by (simp add: demo_ok_def frame_ok_def same_screen_def)
  moreover have "screen_shows ?c" using f(2) b'(2) by (simp add: screen_shows_def)
  moreover have "same_size c ?c" using same by (simp add: same_size_def same_screen_def)
  ultimately show ?thesis by (rule that)
qed

text \<open>The position of the mouse stays inside \<open>int\<close> for the answers to come.\<close>

definition tracked :: "mouse \<Rightarrow> ports \<Rightarrow> bool" where
  "tracked m p \<longleftrightarrow> mouse_ok m \<and> ms_x (ms m) + 256 * int (length (port_answers p)) < 2 ^ 31 - 256 \<and>
     ms_y (ms m) + 256 * int (length (port_answers p)) < 2 ^ 31 - 256"

lemma poll_tracked:
  assumes "tracked m p"
  shows "poll_answer m p = Silent \<and> no_answer p \<or> (\<exists>m' p'. poll_answer m p = Answer (m', p') \<and> tracked m' p')"
proof (cases "no_answer p")
  case True
  then show ?thesis by (simp add: poll_answer_def)
next
  case False
  then obtain st rest where p: "port_answers p = st # rest" "st AND 1 = 0 \<or> rest \<noteq> []"
    by (cases "port_answers p") (auto simp: no_answer_def)
  let ?p1 = "\<lparr>port_answers = rest, port_log = port_log p @ [PortIn PS2_STATUS_PORT st]\<rparr>"
  have i: "inb PS2_STATUS_PORT p = Some (st, ?p1)" using p(1) by (simp add: inb_def)
  show ?thesis
  proof (cases "st AND 1 = 0")
    case True
    then have "mouse_poll m p = Some (m, ?p1)" by (simp add: mouse_poll_def i)
    moreover have "tracked m ?p1" using assms p(1) by (simp add: tracked_def)
    ultimately show ?thesis using False by (auto simp: poll_answer_def)
  next
    case ready: False
    then obtain d rest' where r: "rest = d # rest'" using p(2) by (cases rest) auto
    let ?p2 = "\<lparr>port_answers = rest', port_log = port_log p @ [PortIn PS2_STATUS_PORT st, PortIn PS2_DATA_PORT d]\<rparr>"
    have j: "inb PS2_DATA_PORT ?p1 = Some (d, ?p2)" by (simp add: inb_def r)
    have "ms_x (ms m) < 2 ^ 31 - 256" "ms_y (ms m) < 2 ^ 31 - 256" "mouse_ok m"
      using assms by (simp_all add: tracked_def)
    then obtain m' where m': "mouse_byte d m = Some m'" "mouse_ok m'"
      "ms_x (ms m') \<le> ms_x (ms m) + 254" "ms_y (ms m') \<le> ms_y (ms m) + 256"
      using mouse_byte_step by blast
    then have "mouse_poll m p = Some (m', ?p2)" using ready by (simp add: mouse_poll_def i j)
    moreover have "tracked m' ?p2" using assms m'(2-4) p(1) r by (simp add: tracked_def)
    ultimately show ?thesis using False by (auto simp: poll_answer_def)
  qed
qed

lemma release_tracked:
  "tracked m p \<Longrightarrow> gui_release m p = Silent \<or> (\<exists>m' p'. gui_release m p = Answer (m', p') \<and> tracked m' p')"
proof (induction m p rule: gui_release.induct)
  case (1 m p)
  show ?case
  proof (cases "ms_buttons (ms m) AND 1 = 0")
    case True
    then have "gui_release m p = Answer (m, p)" by (subst gui_release.simps) simp
    then show ?thesis using "1.prems" by blast
  next
    case False
    then show ?thesis
      using poll_tracked [OF "1.prems"] "1.IH" [OF False] by (subst (1 2) gui_release.simps) auto
  qed
qed

lemma clamp_tracked:
  assumes "tracked m p" and "demo_ok c"
  shows "tracked (m\<lparr>ms := clamp_mouse c (ms m)\<rparr>) p"
proof -
  have pos: "0 \<le> sint (v - 1)" "sint (v - 1) < sint v" if "0 < v" "unat v < 2 ^ 16" for v :: u32
  proof -
    have "unat (v - 1) = unat v - 1" using that(1) by (simp add: unat_minus_one)
    then show "0 \<le> sint (v - 1)" "sint (v - 1) < sint v"
      using that unat_gt_0 [of v] by (simp_all add: sint_small del: of_nat_unat)
  qed
  have "0 < gc_width c" "unat (gc_width c) < 2 ^ 16" "0 < gc_height c" "unat (gc_height c) < 2 ^ 16"
    using assms(2) by (simp_all add: demo_ok_def frame_ok_def screen_ok_def)
  then show ?thesis
    using pos [of "gc_width c"] pos [of "gc_height c"] assms(1)
    by (auto simp: tracked_def mouse_ok_def clamp_mouse_def Let_def)
qed

lemma click_changes_state:
  "snd (gui_window_handle_click win x y) = win\<lparr>win_state := win_state (snd (gui_window_handle_click win x y))\<rparr>"
  by (simp add: gui_window_handle_click_def Let_def)

text \<open>A turn ends with a screen that shows what was drawn, or the mouse gives no answer.\<close>

lemma gui_frame_shows:
  assumes "demo_ok c" and "win_ok win" and "tracked m p"
  shows "gui_frame c win m p = Silent \<or> (\<exists>c' win' m' p'. gui_frame c win m p = Answer (c', win', m', p') \<and>
    demo_ok c' \<and> screen_shows c' \<and> same_size c c' \<and> tracked m' p' \<and> win' = win\<lparr>win_state := win_state win'\<rparr>)"
proof (cases "no_answer p")
  case True
  then show ?thesis by (simp add: gui_frame_def poll_answer_def)
next
  case False
  then obtain m1 p1 where m1: "poll_answer m p = Answer (m1, p1)" "tracked m1 p1" using poll_tracked [OF assms(3)] by blast
  let ?s = "clamp_mouse c (ms m1)"
  let ?m2 = "m1\<lparr>ms := ?s\<rparr>"
  obtain c' where c': "gui_draw_turn win ?s c = Some c'" "demo_ok c'" "screen_shows c'" "same_size c c'"
    by (rule draw_turn_shows [OF assms(1,2)])
  have t2: "tracked ?m2 p1" by (rule clamp_tracked [OF m1(2) assms(1)])
  obtain hit win1 where k: "gui_window_handle_click win (ms_x ?s) (ms_y ?s) = (hit, win1)"
    by (cases "gui_window_handle_click win (ms_x ?s) (ms_y ?s)") auto
  have w: "win1 = win\<lparr>win_state := win_state win1\<rparr>" using click_changes_state [of win "ms_x ?s" "ms_y ?s"] k by simp
  show ?thesis
  proof (cases "ms_buttons ?s AND 1 \<noteq> 0 \<and> hit")
    case True
    then show ?thesis using release_tracked [OF t2] m1(1) c' k w by (auto simp: gui_frame_def Let_def)
  next
    case False
    then show ?thesis
      using m1(1) c' k w t2 by (cases "ms_buttons ?s AND 1 \<noteq> 0") (auto simp: gui_frame_def Let_def)
  qed
qed

lemma gui_loop_shows:
  "demo_ok c \<Longrightarrow> win_ok win \<Longrightarrow> tracked m p \<Longrightarrow> \<exists>c' win' m' p'. gui_loop c win m p = Demo_waits c' win' m' p' \<and>
     gui_frame c' win' m' p' = Silent \<and> demo_ok c' \<and> same_size c c' \<and> (c' = c \<or> screen_shows c') \<and>
     win' = win\<lparr>win_state := win_state win'\<rparr>"
proof (induction c win m p rule: gui_loop.induct)
  case (1 c win m p)
  from gui_frame_shows [OF "1.prems"] show ?case
  proof
    assume "gui_frame c win m p = Silent"
    then show ?thesis by (subst gui_loop.simps) (simp add: "1.prems" same_size_def)
  next
    assume "\<exists>c' win' m' p'. gui_frame c win m p = Answer (c', win', m', p') \<and>
      demo_ok c' \<and> screen_shows c' \<and> same_size c c' \<and> tracked m' p' \<and> win' = win\<lparr>win_state := win_state win'\<rparr>"
    then obtain c1 w1 m1 p1 where f: "gui_frame c win m p = Answer (c1, w1, m1, p1)"
      "demo_ok c1" "screen_shows c1" "same_size c c1" "tracked m1 p1" "w1 = win\<lparr>win_state := win_state w1\<rparr>" by blast
    have "win_x w1 = win_x win \<and> win_y w1 = win_y win \<and> win_w w1 = win_w win \<and> win_h w1 = win_h win"
      by (subst (1 2 3 4) f(6)) simp
    then have "win_ok w1" using "1.prems"(2) by (simp add: win_ok_def)
    from "1.IH" [OF f(1) refl refl refl f(2) this f(5)] obtain c' w' m' p' where
      r: "gui_loop c1 w1 m1 p1 = Demo_waits c' w' m' p'" "gui_frame c' w' m' p' = Silent" "demo_ok c'" "same_size c1 c'"
        "c' = c1 \<or> screen_shows c'" "w' = w1\<lparr>win_state := win_state w'\<rparr>" by blast
    have "w' = win\<lparr>win_state := win_state w'\<rparr>" by (subst r(6), subst f(6)) simp
    moreover have "gui_loop c win m p = Demo_waits c' w' m' p'" using f(1) r(1) by (subst gui_loop.simps) simp
    moreover have "same_size c c'" using f(4) r(4) by (simp add: same_size_def)
    ultimately show ?thesis using r f(3) by blast
  qed
qed

lemma mouse_init_tracked:
  assumes "mouse_init m p = Some (m1, p1)" and "mouse_ok m" and "length (port_answers p) < 2 ^ 22"
  shows "tracked m1 p1"
proof -
  have w: "length (port_answers q') < length (port_answers q)" if "wait_port a f q = Some q'" for a f q q'
    using wait_port_answers [OF that] by (metis Suc_le_eq length_Cons length_dropWhile_le)
  have i: "length (port_answers q') < length (port_answers q)" if "inb a q = Some (b, q')" for a b q q'
    using that by (simp add: inb_Some_iff)
  have "length (port_answers p1) \<le> length (port_answers p)"
    using assms(1)
    by (auto simp: mouse_init_def mouse_write_def mouse_read_def mouse_wait_input_def mouse_wait_output_def Let_def
        split: Option.bind_splits dest!: w i)
  moreover have "ms m1 = \<lparr>ms_x = 0, ms_y = 0, ms_dx = 0, ms_dy = 0, ms_buttons = 0\<rparr>" "packet m1 = packet m"
    "packet_cycle m1 = packet_cycle m"
    using assms(1) by (auto simp: mouse_init_def Let_def split: Option.bind_splits)
  ultimately show ?thesis using assms(2,3) by (simp add: tracked_def mouse_ok_def)
qed

text \<open>
  C40 The graphics demo, on any input of at most four million answers of the mouse: on a screen the
  back buffer has room for and with the frame buffer the boot loader describes, it never writes
  outside the two buffers and never returns, whatever is clicked: it ends up waiting for the next
  answer of the mouse, in the setup or in a turn. After every turn the screen shows the back
  buffer row by row, and the window is where it was, at most in another of its four states.
\<close>

theorem gui_demo_keeps_running:
  assumes "demo_ok c" and "mouse_ok m" and "length (port_answers p) < 2 ^ 22"
  shows "\<exists>c' win' m' p'. gui_run_demo c m p = Demo_waits c' win' m' p' \<and>
    (mouse_init m p = None \<or> gui_frame c' win' m' p' = Silent) \<and> demo_ok c' \<and> same_size c c' \<and>
    (c' = c \<or> screen_shows c') \<and> win' = (demo_window c)\<lparr>win_state := win_state win'\<rparr>"
proof (cases "mouse_init m p")
  case None
  then show ?thesis using assms(1) by (simp add: gui_run_demo_def same_size_def)
next
  case (Some r)
  then obtain m1 p1 where r: "mouse_init m p = Some (m1, p1)" by (cases r) auto
  have "screen_ok (gc_width c) (gc_height c)" using assms(1) by (simp add: demo_ok_def frame_ok_def)
  then have "win_ok (demo_window c)" using screen_window_ok by (simp add: demo_window_def win_ok_def) (simp add: window_ok_def)
  from gui_loop_shows [OF assms(1) this mouse_init_tracked [OF r assms(2,3)]] show ?thesis
    using r by (auto simp: gui_run_demo_def)
qed

text \<open>The setup, a turn without a byte, and the three bytes of a packet that moves by (4, 2) with the button down.\<close>

theorem gui_demo_keeps_running_witness:
  "\<exists>c' win' m' p'. gui_run_demo tiny_screen mouse_boot \<lparr>port_answers = [0, 0, 1, 0x20, 0, 0, 0, 0, 1, 0xFA, 0, 0, 1, 0xFA,
       0, 1, 9, 1, 2, 1, 0xFF], port_log = []\<rparr> = Demo_waits c' win' m' p' \<and>
     gui_frame c' win' m' p' = Silent \<and> screen_shows c' \<and> win_x win' = 50"
proof -
  let ?p = "\<lparr>port_answers = [0, 0, 1, 0x20, 0, 0, 0, 0, 1, 0xFA, 0, 0, 1, 0xFA, 0, 1, 9, 1, 2, 1, 0xFF], port_log = []\<rparr>"
  have ok: "demo_ok tiny_screen" "mouse_ok mouse_boot" "screen_shows tiny_screen"
    by (simp_all add: tiny_screen_def demo_ok_def frame_ok_def screen_ok_def PIXELS_eq mouse_boot_ok screen_shows_def)
  have i: "mouse_init mouse_boot ?p \<noteq> None"
    by (simp add: mouse_init_def mouse_write_def mouse_read_def mouse_wait_input_def mouse_wait_output_def wait_port_def
        inb_def outb_def Let_def)
  obtain c' win' m' p' where r: "gui_run_demo tiny_screen mouse_boot ?p = Demo_waits c' win' m' p'"
    "mouse_init mouse_boot ?p = None \<or> gui_frame c' win' m' p' = Silent" "c' = tiny_screen \<or> screen_shows c'"
    "win' = (demo_window tiny_screen)\<lparr>win_state := win_state win'\<rparr>"
    using gui_demo_keeps_running [OF ok(1,2), of ?p] by auto
  have "win_x win' = 50" by (subst r(4)) (simp add: demo_window_def)
  then show ?thesis using r(1,2,3) i ok(3) by blast
qed

section \<open>A screen that is too large\<close>

lemma fill_cols_bound:
  "fill_cols width row 0 color [a..<a + n] bb = Some bb' \<Longrightarrow> 0 < n \<Longrightarrow> int (a + n) \<le> uint width \<Longrightarrow>
     uint row + int (a + n) \<le> int PIXELS"
proof (induction n arbitrary: a bb)
  case (Suc n)
  have ne: "[a..<a + Suc n] = a # [Suc a..<Suc a + n]" by (simp add: upt_conv_Cons)
  have "uint width < 2 ^ 32" using uint_bounded [of width] by simp
  then have "\<not> (word_of_int (0 + int a) :: u32) \<ge> width"
    using Suc.prems(3) by (subst coord_less) auto
  with Suc.prems(1) obtain b1 where p: "put_pixel (uint row + int a) color bb = Some b1"
    and r: "fill_cols width row 0 color [Suc a..<Suc a + n] b1 = Some bb'"
    unfolding ne by (auto simp del: upt_Suc split: Option.bind_splits if_splits)
  show ?case
  proof (cases n)
    case 0
    with p show ?thesis by (auto simp: put_pixel_def PIXELS_def split: if_splits)
  next
    case (Suc k)
    with Suc.IH [OF r] Suc.prems(3) show ?thesis by simp
  qed
qed simp

lemma fill_rows_bound:
  assumes W: "uint width = int W" and H: "uint height = int H" and lim: "W * H < 2 ^ 32" and pos: "0 < W"
  shows "fill_rows width height 0 0 (int W) color [a..<a + n] bb = Some bb' \<Longrightarrow> 0 < n \<Longrightarrow> a + n \<le> H \<Longrightarrow>
     W * (a + n) \<le> PIXELS"
proof (induction n arbitrary: a bb)
  case (Suc n)
  have ne: "[a..<a + Suc n] = a # [Suc a..<Suc a + n]" by (simp add: upt_conv_Cons)
  have "uint height < 2 ^ 32" using uint_bounded [of height] by simp
  then have "\<not> (word_of_int (0 + int a) :: u32) \<ge> height"
    using Suc.prems(3) H by (subst coord_less) auto
  with Suc.prems(1) obtain b1 where c: "fill_cols width (word_of_int (int a) * width) 0 color [0..<W] bb = Some b1"
    and r: "fill_rows width height 0 0 (int W) color [Suc a..<Suc a + n] b1 = Some bb'"
    unfolding ne by (auto simp del: upt_Suc split: Option.bind_splits if_splits)
  show ?case
  proof (cases n)
    case 0
    have "a * W \<le> H * W" using Suc.prems(3) by (intro mult_le_mono1) simp
    then have "a * W < 2 ^ 32" using lim by (metis le_less_trans mult.commute)
    moreover have "(word_of_int (int a) :: u32) * width = word_of_nat (a * W)"
    proof -
      have "width = word_of_int (int W)" by (metis W word_of_int_uint)
      then show ?thesis by simp
    qed
    ultimately have "uint (word_of_int (int a) * width) = int (a * W)"
      by (simp only: uint_nat unat_of_nat) simp
    moreover have "fill_cols width (word_of_int (int a) * width) 0 color [0..<0 + W] bb = Some b1"
      using c by (simp only: add_0)
    then have "uint (word_of_int (int a) * width) + int (0 + W) \<le> int PIXELS"
      by (rule fill_cols_bound) (unfold W, use pos in simp_all)
    ultimately have "int (a * W + W) \<le> int PIXELS" by simp
    then have "a * W + W \<le> PIXELS" by (simp only: of_nat_le_iff)
    with 0 show ?thesis by (simp add: algebra_simps)
  next
    case (Suc k)
    with Suc.IH [OF r] Suc.prems(3) show ?thesis by simp
  qed
qed simp

text \<open>
  The back buffer has room for 1920 by 1200 pixels and nothing compares the screen with it: on
  every larger screen (up to 65535 in each direction) the first drawing of the demo writes behind
  the buffer.
\<close>

theorem gui_large_screen_overflows:
  assumes "PIXELS < unat (gc_width c) * unat (gc_height c)"
    and "unat (gc_width c) < 2 ^ 16" and "unat (gc_height c) < 2 ^ 16" and "backbuffer c = Some bb"
  shows "gui_draw_desktop c = None"
proof (rule ccontr)
  let ?W = "unat (gc_width c)" and ?H = "unat (gc_height c)"
  assume "gui_draw_desktop c \<noteq> None"
  then obtain bb' where f: "fill_rows (gc_width c) (gc_height c) 0 0 (int ?W) 0x002244 [0..<0 + ?H] bb = Some bb'"
    using assms(2-4) by (auto simp: gui_draw_desktop_def gui_fill_rect_def sint_small simp del: of_nat_unat split: Option.bind_splits)
  have b: "?W * ?H < 2 ^ 32" "0 < ?W" "0 < ?H"
  proof -
    have "?W * ?H \<le> 65535 * 65535" using assms(2,3) by (intro mult_le_mono) simp_all
    then show "?W * ?H < 2 ^ 32" by simp
    show "0 < ?W" "0 < ?H" using assms(1) by (auto intro!: Nat.gr0I)
  qed
  have "?W * (0 + ?H) \<le> PIXELS"
    by (rule fill_rows_bound [OF uint_nat uint_nat b(1,2) f b(3)]) simp
  with assms(1) show False by simp
qed

theorem gui_large_screen_overflows_witness:
  "gui_draw_desktop (tiny_screen\<lparr>gc_width := 2560, gc_height := 1440\<rparr>) = None"
  by (rule gui_large_screen_overflows [where bb = "\<lambda>i. 0"]) (simp_all add: tiny_screen_def PIXELS_eq)

section \<open>The title bar\<close>

text \<open>
  The buttons of a window: a click inside one of the three 15 pixel wide fields of the title bar
  minimises, toggles between maximised and normal, or closes; any other click, and any click on a
  closed window, changes nothing. The fields stay where the window was before it was maximised, so
  the buttons a maximised window shows at the top of the screen do not react.
\<close>

theorem gui_title_bar:
  assumes "win_state win \<noteq> GUI_WINDOW_CLOSED" and "45 \<le> win_w win"
  shows "gui_window_handle_click win x y =
    (let r = win_x win + win_w win - x in
     if win_y win \<le> y \<and> y < win_y win + 20 \<and> 0 < r \<and> r \<le> 45
     then (True, win\<lparr>win_state :=
       (if 30 < r then GUI_WINDOW_MINIMIZED else if r \<le> 15 then GUI_WINDOW_CLOSED
        else if win_state win = GUI_WINDOW_MAXIMIZED then GUI_WINDOW_NORMAL else GUI_WINDOW_MAXIMIZED)\<rparr>)
     else (False, win))"
  using assms by (auto simp: gui_window_handle_click_def Let_def)

theorem gui_title_bar_witness:
  "let win = \<lparr>win_x = 50, win_y = 50, win_w = 512, win_h = 384, win_state = GUI_WINDOW_MAXIMIZED\<rparr>
   in window_frame (tiny_screen\<lparr>gc_width := 1024, gc_height := 768\<rparr>) win = (0, 0, 1024, 768) \<and>
      gui_window_handle_click win 1012 5 = (False, win) \<and>
      gui_window_handle_click win 540 55 = (True, win\<lparr>win_state := GUI_WINDOW_NORMAL\<rparr>)"
  using gui_title_bar [of "\<lparr>win_x = 50, win_y = 50, win_w = 512, win_h = 384, win_state = GUI_WINDOW_MAXIMIZED\<rparr>"]
  by (simp add: window_frame_def tiny_screen_def)

end
