(* ===== verification/Libc.thy ===== *)
theory Libc
  imports Syscall
begin

text \<open>
  The C library of the user programs (\<open>programs/limine_libc/stdio.c\<close>, \<open>syscall.c\<close>): formatted output and
  the wrappers of the system calls. A program runs on the state of the kernel: its stores and loads
  go through its address space, its calls through the dispatcher. A local array is placed at an
  address that is an argument of the definition. \<open>None\<close> is a fault, undefined behaviour, or a call
  that never returns.
\<close>

section \<open>Formatting\<close>

text \<open>A variable argument: a string, or an \<open>int\<close> or \<open>unsigned\<close> as its 32 bits.\<close>

datatype c_arg = Str_arg "bytes option" | Int_arg u32

text \<open>The loop \<open>while (*s && i + 1 < size) buf[i++] = *s++\<close>.\<close>

fun put_string :: "nat \<Rightarrow> bytes \<Rightarrow> bytes \<Rightarrow> nat \<Rightarrow> (bytes \<times> nat) option" where
  "put_string sz [] buf i = None"
| "put_string sz (c # s) buf i =
     (if c \<noteq> 0 \<and> i + 1 < sz
      then do { b \<leftarrow> wr buf i c; put_string sz s b (i + 1) } else Some (buf, i))"

text \<open>The loop that stores the digits in \<open>tmp\<close>, the last digit first; the result is \<open>tmp\<close> and \<open>j\<close>.\<close>

function tmp_digits :: "(nat \<Rightarrow> u8) \<Rightarrow> nat \<Rightarrow> nat \<Rightarrow> bytes \<Rightarrow> nat \<Rightarrow> (bytes \<times> nat) option" where
  "tmp_digits digit base num tmp j = (case wr tmp j (digit (num mod base)) of
       None \<Rightarrow> None
     | Some t \<Rightarrow> (if num div base \<noteq> 0 \<and> j + 1 < 32 then tmp_digits digit base (num div base) t (j + 1) else Some (t, j + 1)))"
  by pat_completeness auto
termination
  by (relation "measure (\<lambda>(digit, base, num, tmp, j). 32 - j)") auto

declare tmp_digits.simps [simp del]

text \<open>The loop \<open>while (j-- && i + 1 < size) buf[i++] = tmp[j]\<close>.\<close>

fun put_reversed :: "nat \<Rightarrow> bytes \<Rightarrow> nat \<Rightarrow> bytes \<Rightarrow> nat \<Rightarrow> (bytes \<times> nat) option" where
  "put_reversed sz tmp 0 buf i = Some (buf, i)"
| "put_reversed sz tmp (Suc j) buf i =
     (if i + 1 < sz
      then do { c \<leftarrow> rd tmp j; b \<leftarrow> wr buf i c; put_reversed sz tmp j b (i + 1) } else Some (buf, i))"

definition put_decimal :: "nat \<Rightarrow> int \<Rightarrow> bytes \<Rightarrow> nat \<Rightarrow> (bytes \<times> nat) option" where
  "put_decimal sz num buf i =
     (if num = - (2 ^ 31) then None
      else do {
        (tmp, j) \<leftarrow> tmp_digits (\<lambda>d. 48 + word_of_nat d) 10 (nat \<bar>num\<bar>) (replicate 32 0) 0;
        (b, i) \<leftarrow> (if num < 0 \<and> i + 1 < sz then do { b \<leftarrow> wr buf i 45; Some (b, i + 1) } else Some (buf, i));
        put_reversed sz tmp j b i })"

definition put_hex :: "nat \<Rightarrow> nat \<Rightarrow> bytes \<Rightarrow> nat \<Rightarrow> (bytes \<times> nat) option" where
  "put_hex sz num buf i = do {
     (tmp, j) \<leftarrow> tmp_digits (\<lambda>d. str ''0123456789abcdef'' ! d) 16 num (replicate 32 0) 0;
     put_reversed sz tmp j buf i }"

text \<open>One conversion; \<open>d\<close> is the character after the percent sign.\<close>

definition directive :: "nat \<Rightarrow> u8 \<Rightarrow> c_arg list \<Rightarrow> bytes \<Rightarrow> nat \<Rightarrow> (c_arg list \<times> bytes \<times> nat) option" where
  "directive sz d args buf i =
     (if d = 115 then (case args of
          Str_arg s # rest \<Rightarrow> do {
            (b, i) \<leftarrow> put_string sz (case s of None \<Rightarrow> lit ''(null)'' | Some s \<Rightarrow> s) buf i;
            Some (rest, b, i) }
        | _ \<Rightarrow> None)
      else if d = 100 then (case args of
          Int_arg w # rest \<Rightarrow> do { (b, i) \<leftarrow> put_decimal sz (sint w) buf i; Some (rest, b, i) }
        | _ \<Rightarrow> None)
      else if d = 120 then (case args of
          Int_arg w # rest \<Rightarrow> do { (b, i) \<leftarrow> put_hex sz (unat w) buf i; Some (rest, b, i) }
        | _ \<Rightarrow> None)
      else if d = 99 then (case args of
          Int_arg w # rest \<Rightarrow> do { b \<leftarrow> wr buf i (ucast w); Some (rest, b, i + 1) }
        | _ \<Rightarrow> None)
      else do {
        b \<leftarrow> wr buf i 37;
        if d \<noteq> 0 then do { b \<leftarrow> wr b (i + 1) d; Some (args, b, i + 2) } else Some (args, b, i + 1) })"

text \<open>The loop over the format; after a conversion it steps over \<open>d\<close>, even when \<open>d\<close> is the terminator.\<close>

fun format_loop :: "nat \<Rightarrow> bytes \<Rightarrow> c_arg list \<Rightarrow> bytes \<Rightarrow> nat \<Rightarrow> (bytes \<times> nat) option" where
  "format_loop sz [] args buf i = None"
| "format_loop sz [c] args buf i =
     (if c = 0 \<or> \<not> i + 1 < sz then Some (buf, i) else None)"
| "format_loop sz (c # d # fmt) args buf i =
     (if c = 0 \<or> \<not> i + 1 < sz then Some (buf, i)
      else if c \<noteq> 37 then do { b \<leftarrow> wr buf i c; format_loop sz (d # fmt) args b (i + 1) }
      else do { (rest, b, i) \<leftarrow> directive sz d args buf i; format_loop sz fmt rest b i })"

definition vsnprintf :: "bytes \<Rightarrow> nat \<Rightarrow> bytes \<Rightarrow> c_arg list \<Rightarrow> (nat \<times> bytes) option" where
  "vsnprintf buf sz fmt args = do {
     (b, i) \<leftarrow> format_loop sz fmt args buf 0;
     b \<leftarrow> wr b i 0;
     Some (i, b) }"

section \<open>System calls\<close>

definition SYS_EXIT :: int where "SYS_EXIT = 0"
definition SYS_WRITE :: int where "SYS_WRITE = 1"
definition SYS_READ :: int where "SYS_READ = 2"
definition SYS_OPEN :: int where "SYS_OPEN = 3"
definition SYS_CLOSE :: int where "SYS_CLOSE = 4"
definition SYS_READDIR :: int where "SYS_READDIR = 5"
definition SYS_FORK :: int where "SYS_FORK = 6"
definition STDOUT :: int where "STDOUT = 1"

lemmas sys_numbers = SYS_EXIT_def SYS_WRITE_def SYS_READ_def SYS_OPEN_def SYS_CLOSE_def SYS_READDIR_def SYS_FORK_def

text \<open>The result of \<open>_syscall\<close> cut to \<open>int\<close>.\<close>

definition int_result :: "int \<times> kernel \<Rightarrow> int \<times> kernel" where
  "int_result r = (sint (word_of_int (fst r) :: u32), snd r)"

definition libc_write :: "int \<Rightarrow> u64 \<Rightarrow> nat \<Rightarrow> kernel \<Rightarrow> (int \<times> kernel) option" where
  "libc_write fd buf count k = map_option int_result (syscall SYS_WRITE (word_of_int fd) buf (word_of_nat count) k)"

definition libc_read :: "int \<Rightarrow> u64 \<Rightarrow> nat \<Rightarrow> kernel \<Rightarrow> (int \<times> kernel) option" where
  "libc_read fd buf count k = map_option int_result (syscall SYS_READ (word_of_int fd) buf (word_of_nat count) k)"

definition libc_open :: "u64 \<Rightarrow> int \<Rightarrow> kernel \<Rightarrow> (int \<times> kernel) option" where
  "libc_open pathname flags k = map_option int_result (syscall SYS_OPEN pathname (word_of_int flags) 0 k)"

definition libc_close :: "int \<Rightarrow> kernel \<Rightarrow> (int \<times> kernel) option" where
  "libc_close fd k = map_option int_result (syscall SYS_CLOSE (word_of_int fd) 0 0 k)"

definition libc_readdir :: "u32 \<Rightarrow> u64 \<Rightarrow> kernel \<Rightarrow> (int \<times> kernel) option" where
  "libc_readdir index dirp k = map_option int_result (syscall SYS_READDIR (ucast index) dirp 264 k)"

definition libc_fork :: "kernel \<Rightarrow> (int \<times> kernel) option" where
  "libc_fork k = map_option int_result (syscall SYS_FORK 0 0 0 k)"

text \<open>
  \<open>exit\<close> up to the \<open>hlt\<close>, which is a privileged instruction: the result is the state in which the
  processor raises the general protection fault.
\<close>

definition libc_exit :: "int \<Rightarrow> kernel \<Rightarrow> kernel option" where
  "libc_exit status k = do {
     (_, k1) \<leftarrow> syscall SYS_EXIT (word_of_int status) 0 0 k;
     (_, k2) \<leftarrow> syscall SYS_EXIT 0xDEAD 0 0 k1;
     Some k2 }"

section \<open>The memory of the program\<close>

definition put_user :: "u64 \<Rightarrow> bytes \<Rightarrow> kernel \<Rightarrow> kernel option" where
  "put_user a bs k = map_option (\<lambda>v. k\<lparr>k_vm := v\<rparr>) (user_stores a bs (k_vm k))"

text \<open>A string from its address to its terminator; the fuel of \<open>user_string\<close> is the whole address space.\<close>

fun user_chars :: "nat \<Rightarrow> u64 \<Rightarrow> vm \<Rightarrow> bytes option" where
  "user_chars 0 a s = None"
| "user_chars (Suc n) a s = do {
     c \<leftarrow> user_load a s;
     if c = 0 then Some [0] else do { cs \<leftarrow> user_chars n (a + 1) s; Some (c # cs) } }"

definition user_string :: "u64 \<Rightarrow> kernel \<Rightarrow> bytes option" where
  "user_string a k = user_chars (2 ^ 64) a (k_vm k)"

section \<open>Output\<close>

text \<open>\<open>buf\<close> is the address of the local array of 512 bytes.\<close>

definition printf :: "u64 \<Rightarrow> bytes \<Rightarrow> c_arg list \<Rightarrow> kernel \<Rightarrow> (int \<times> kernel) option" where
  "printf buf fmt args k = do {
     (len, b) \<leftarrow> vsnprintf (replicate 512 0) 512 fmt args;
     k1 \<leftarrow> put_user buf (take (len + 1) b) k;
     (_, k2) \<leftarrow> libc_write STDOUT buf len k1;
     Some (int len, k2) }"

text \<open>\<open>newline\<close> is the address of the literal \<open>"\n"\<close>.\<close>

definition puts :: "u64 \<Rightarrow> u64 \<Rightarrow> kernel \<Rightarrow> (int \<times> kernel) option" where
  "puts newline s k = do {
     cs \<leftarrow> user_string s k;
     len \<leftarrow> strlen cs;
     (_, k1) \<leftarrow> libc_write STDOUT s len k;
     (_, k2) \<leftarrow> libc_write STDOUT newline 1 k1;
     Some (int len + 1, k2) }"

end
