(* ===== verification/Programs.thy ===== *)
theory Programs
  imports Libc
begin

text \<open>
  The user programs (\<open>programs/*.c\<close>). \<open>buf\<close> is the address of the array of \<open>printf\<close>, the other
  addresses are those of the local variables of \<open>main\<close>; \<open>argv\<close> is the address of the argument
  vector in the memory of the program. The result is that of \<open>main\<close>.
\<close>

definition argument :: "u64 \<Rightarrow> nat \<Rightarrow> kernel \<Rightarrow> u64 option" where
  "argument argv i k = user_load64 (argv + word_of_nat (8 * i)) (k_vm k)"

section \<open>hello, echo\<close>

definition hello_main :: "u64 \<Rightarrow> kernel \<Rightarrow> (int \<times> kernel) option" where
  "hello_main buf k = do {
     (_, k1) \<leftarrow> printf buf (str ''Hello, World!'' @ [10, 0]) [] k;
     Some (0, k1) }"

definition echo_arg :: "u64 \<Rightarrow> nat \<Rightarrow> u64 \<Rightarrow> nat \<Rightarrow> kernel \<Rightarrow> kernel option" where
  "echo_arg buf argc argv i k = do {
     p \<leftarrow> argument argv i k;
     s \<leftarrow> user_string p k;
     (_, k1) \<leftarrow> printf buf (lit ''%s'') [Str_arg (Some s)] k;
     if i < argc - 1 then do { (_, k2) \<leftarrow> printf buf (lit '' '') [] k1; Some k2 } else Some k1 }"

definition echo_main :: "u64 \<Rightarrow> nat \<Rightarrow> u64 \<Rightarrow> kernel \<Rightarrow> (int \<times> kernel) option" where
  "echo_main buf argc argv k = do {
     k1 \<leftarrow> for_each (echo_arg buf argc argv) [1..<argc] k;
     (_, k2) \<leftarrow> printf buf [10, 0] [] k1;
     Some (0, k2) }"

section \<open>cat\<close>

text \<open>The loop over the file; \<open>buffer\<close> is the address of the array of 1024 bytes.\<close>

partial_function (option) cat_loop :: "u64 \<Rightarrow> u64 \<Rightarrow> int \<Rightarrow> kernel \<Rightarrow> kernel option" where
  "cat_loop buf buffer fd k = do {
     (bytes_read, k1) \<leftarrow> libc_read fd buffer 1023 k;
     if bytes_read > 0
     then do {
       k2 \<leftarrow> put_user (buffer + word_of_int bytes_read) [0] k1;
       s \<leftarrow> user_string buffer k2;
       (_, k3) \<leftarrow> printf buf (lit ''%s'') [Str_arg (Some s)] k2;
       cat_loop buf buffer fd k3 }
     else Some k1 }"

definition cat_main :: "u64 \<Rightarrow> u64 \<Rightarrow> nat \<Rightarrow> u64 \<Rightarrow> kernel \<Rightarrow> (int \<times> kernel) option" where
  "cat_main buf buffer argc argv k =
     (if argc < 2
      then do {
        p \<leftarrow> argument argv 0 k;
        s \<leftarrow> user_string p k;
        (_, k1) \<leftarrow> printf buf (str ''Usage: %s <filename>'' @ [10, 0]) [Str_arg (Some s)] k;
        Some (1, k1) }
      else do {
        p \<leftarrow> argument argv 1 k;
        (fd, k1) \<leftarrow> libc_open p 0 k;
        if fd < 0
        then do {
          s \<leftarrow> user_string p k1;
          (_, k2) \<leftarrow> printf buf (str ''Error: Could not open file %s'' @ [10, 0]) [Str_arg (Some s)] k1;
          Some (1, k2) }
        else do {
          k2 \<leftarrow> cat_loop buf buffer fd k1;
          (_, k3) \<leftarrow> libc_close fd k2;
          Some (0, k3) } })"

section \<open>ls\<close>

text \<open>\<open>dirp\<close> is the address of \<open>entry\<close>; the result of the loop is that of the last \<open>readdir\<close>.\<close>

partial_function (option) ls_loop :: "u64 \<Rightarrow> u64 \<Rightarrow> u32 \<Rightarrow> kernel \<Rightarrow> (int \<times> kernel) option" where
  "ls_loop buf dirp index k = do {
     (result, k1) \<leftarrow> libc_readdir index dirp k;
     if result = 1
     then do {
       s \<leftarrow> user_string dirp k1;
       (_, k2) \<leftarrow> printf buf (lit ''%s  '') [Str_arg (Some s)] k1;
       ls_loop buf dirp (index + 1) k2 }
     else Some (result, k1) }"

definition ls_main :: "u64 \<Rightarrow> u64 \<Rightarrow> kernel \<Rightarrow> (int \<times> kernel) option" where
  "ls_main buf dirp k = do {
     (result, k1) \<leftarrow> ls_loop buf dirp 0 k;
     (_, k2) \<leftarrow> printf buf [10, 0] [] k1;
     if result < 0
     then do {
       (_, k3) \<leftarrow> printf buf (str ''ls: Error reading directory'' @ [10, 0]) [] k2;
       Some (1, k3) }
     else Some (0, k2) }"

section \<open>The tests\<close>

definition test_fork_main :: "u64 \<Rightarrow> kernel \<Rightarrow> (int \<times> kernel) option" where
  "test_fork_main buf k = do {
     (_, k1) \<leftarrow> printf buf (str ''Starting fork test program'' @ [10, 0]) [] k;
     (pid, k2) \<leftarrow> libc_fork k1;
     if pid < 0 then do { (_, k3) \<leftarrow> printf buf (str ''Fork failed!'' @ [10, 0]) [] k2; Some (1, k3) }
     else do {
       (_, k3) \<leftarrow>
         (if pid = 0
          then printf buf (str ''Child process: Hello from the child! My PID is 0'' @ [10, 0]) [] k2
          else printf buf (str ''Parent process: Hello from the parent! Child PID is %d'' @ [10, 0])
            [Int_arg (word_of_int pid)] k2);
       (_, k4) \<leftarrow> printf buf (str ''Process %d exiting'' @ [10, 0]) [Int_arg (word_of_int pid)] k3;
       Some (0, k4) } }"

definition test_write_main :: "kernel \<Rightarrow> (int \<times> kernel) option" where
  "test_write_main k = do { (_, k1) \<leftarrow> libc_write 1 0x1234 24 k; Some (0, k1) }"

text \<open>\<open>message\<close> is the address of the local array.\<close>

definition test_write_normal_main :: "u64 \<Rightarrow> kernel \<Rightarrow> (int \<times> kernel) option" where
  "test_write_normal_main message k = do {
     k1 \<leftarrow> put_user message (lit ''Normal write test message'') k;
     libc_write 1 message 25 k1 }"

section \<open>The start of a program\<close>

text \<open>The stub \<open>_start\<close> calls \<open>main\<close> with no arguments, and \<open>exit\<close> with its result.\<close>

definition run_program :: "(nat \<Rightarrow> u64 \<Rightarrow> kernel \<Rightarrow> (int \<times> kernel) option) \<Rightarrow> kernel \<Rightarrow> kernel option" where
  "run_program main k = do { (status, k1) \<leftarrow> main 0 0 k; libc_exit status k1 }"

end
