(* ===== verification/SyscallIO.thy ===== *)
theory SyscallIO
  imports SyscallCorrect
begin

text \<open>
  Reading: a file through a descriptor into user memory, and a typed line from the keyboard. And
  the calls that fail without an effect.
\<close>

section \<open>Files\<close>

lemma content_length: "table_ok s \<Longrightarrow> i < file_count s \<Longrightarrow> length (content s i) < 2 ^ 32"
proof -
  assume ok: "table_ok s" and i: "i < file_count s"
  have "file_ok (mem_used s) (fs_files s ! i)" "mem_used s \<le> POOL_SIZE" using ok i by (simp_all add: table_ok_def)
  then have "ff_size (fs_files s ! i) \<le> POOL_SIZE" by (auto simp: file_ok_def split: data_ptr.splits)
  then show ?thesis using length_content [OF ok i] by (simp add: POOL_SIZE_def)
qed

lemma sys_read_file_effect:
  assumes inv: "fd_inv k" and fd: "3 \<le> fd" "fd < 16" "desc_file (fd_table k ! unat fd) = Some (FsFile i)"
    and vm: "user_ok (k_vm k)" and buf: "buffer_ok va (min 4096 (unat count)) (k_vm k)" and count: "count \<noteq> 0"
    and bytes: "bytes = take (min 4096 (unat count)) (drop (desc_position (fd_table k ! unat fd)) (content (k_fs k) i))"
  shows "\<exists>v. sys_read fd va count k = Some (int (length bytes),
       k\<lparr>k_vm := v, fd_table := (fd_table k)[unat fd := (fd_table k ! unat fd)
            \<lparr>desc_position := desc_position (fd_table k ! unat fd) + length bytes\<rparr>]\<rparr>) \<and>
     user_ok v \<and> user_loads va (length bytes) v = Some bytes \<and> (\<forall>c n. buffer_ok c n v = buffer_ok c n (k_vm k))"
proof -
  let ?d = "fd_table k ! unat fd" and ?n = "min 4096 (unat count)"
  note slot = fd_slot [OF inv fd(2)]
  have used: "desc_used ?d" and i: "i < file_count (k_fs k)" using slot(3) fd(3) by (simp_all add: desc_ok_def)
  have tab: "table_ok (k_fs k)" using inv by (simp add: fd_inv_def)
  have n: "(if count > 4096 then 4096 else unat count) = ?n" by (simp add: word_less_nat_alt)
  have fd0: "fd \<noteq> 0" using fd(1) by auto
  have len: "length bytes \<le> ?n" unfolding bytes length_take by (rule min.cobounded2)
  have rd: "fs_read (Some (FsFile i)) (desc_position ?d) (replicate 4096 0) ?n (k_fs k) =
      Some (length bytes, bytes @ drop (length bytes) (replicate 4096 0))"
    using fs_read_eq [OF tab i, of "desc_position ?d" "replicate 4096 0" ?n] bytes len by (simp add: Let_def)
  show ?thesis
  proof (cases "bytes = []")
    case True
    have "?d\<lparr>desc_position := desc_position ?d + length bytes\<rparr> = ?d" using True by simp
    moreover have "sys_read fd va count k = Some (0, k)"
      using rd fd fd0 count slot(1) used n True by (simp add: sys_read_def Let_def)
    ultimately show ?thesis using True vm by (intro exI [of _ "k_vm k"]) simp
  next
    case False
    have b: "buffer_ok va (length bytes) (k_vm k)" by (rule buffer_ok_mono [OF buf len])
    obtain v where v: "copy_to_user va bytes (k_vm k) = Some (True, v)" "user_ok v"
      "user_loads va (length bytes) v = Some bytes" "\<And>c n. buffer_ok c n v = buffer_ok c n (k_vm k)"
      by (rule copy_to_user_ok [OF vm b False]) blast
    have "length bytes \<le> length (content (k_fs k) i) - desc_position ?d" using bytes by simp
    moreover have "0 < length bytes" using False by simp
    ultimately have "desc_position ?d + length bytes < 2 ^ 64" using content_length [OF tab i] by (simp del: length_greater_0_conv)
    then have "sys_read fd va count k = Some (int (length bytes), k\<lparr>k_vm := v, fd_table := (fd_table k)[unat fd := ?d
            \<lparr>desc_position := desc_position ?d + length bytes\<rparr>]\<rparr>)"
      using rd fd fd0 count slot used n False v(1) by (simp add: sys_read_def Let_def)
    then show ?thesis using v by blast
  qed
qed

text \<open>
  C27 \<open>sys_read\<close> from a file stores the next bytes of its content (at most 4096) in the user's
  buffer, returns their number and advances the descriptor by it; 0 is the end of the file. The
  files and all other descriptors stay.
\<close>

theorem sys_read_file:
  assumes inv: "fd_inv k" and fd: "3 \<le> fd" "fd < 16" "desc_file (fd_table k ! unat fd) = Some (FsFile i)"
    and vm: "user_ok (k_vm k)" and buf: "buffer_ok va (min 4096 (unat count)) (k_vm k)" and count: "count \<noteq> 0"
    and bytes: "bytes = take (min 4096 (unat count)) (drop (desc_position (fd_table k ! unat fd)) (content (k_fs k) i))"
  shows "\<exists>v. sys_read fd va count k = Some (int (length bytes),
       k\<lparr>k_vm := v, fd_table := (fd_table k)[unat fd := (fd_table k ! unat fd)
            \<lparr>desc_position := desc_position (fd_table k ! unat fd) + length bytes\<rparr>]\<rparr>) \<and>
     user_ok v \<and> user_loads va (length bytes) v = Some bytes \<and> (\<forall>c n. buffer_ok c n v = buffer_ok c n (k_vm k))"
  by (rule sys_read_file_effect [OF assms])

lemma kernel_open_example:
  "fd_inv ((kernel_on v scs)\<lparr>fd_table := (replicate MAX_FDS free_desc)
     [3 := \<lparr>desc_file = Some (FsFile 0), desc_position = p, desc_used = True\<rparr>]\<rparr>)"
  using fd_inv_update [OF kernel_on_inv [of v scs], of 3] by (simp add: desc_ok_def MAX_FDS_def fs_example_files)

theorem sys_read_file_witness:
  "\<exists>k k'. sys_read 3 0x401000 2 k = Some (2, k') \<and> user_loads 0x401000 2 (k_vm k') = Some [65, 66] \<and>
     desc_position (fd_table k' ! 3) = 2"
proof -
  obtain v where v: "user_ok v" "buffer_ok 0x401000 4096 v" by (rule kernel_example)
  define k where "k = (kernel_on v [])\<lparr>fd_table := (replicate MAX_FDS free_desc)
     [3 := \<lparr>desc_file = Some (FsFile 0), desc_position = 0, desc_used = True\<rparr>]\<rparr>"
  have k: "fd_inv k" "fd_table k ! 3 = \<lparr>desc_file = Some (FsFile 0), desc_position = 0, desc_used = True\<rparr>"
    "k_vm k = v" "k_fs k = fs_example" "3 < length (fd_table k)"
    using kernel_open_example [of 0 v "[]"] by (simp_all add: k_def MAX_FDS_def)
  have "buffer_ok 0x401000 (min 4096 (unat (2 :: u64))) (k_vm k)" using buffer_ok_mono [OF v(2)] k(3) by simp
  then have "\<exists>v'. sys_read 3 0x401000 2 k = Some (int (length [65, 66 :: u8]), k\<lparr>k_vm := v', fd_table := (fd_table k)
        [3 := (fd_table k ! 3)\<lparr>desc_position := desc_position (fd_table k ! 3) + length [65, 66 :: u8]\<rparr>]\<rparr>) \<and>
      user_ok v' \<and> user_loads 0x401000 (length [65, 66 :: u8]) v' = Some [65, 66]"
    using sys_read_file [OF k(1), of 3 0 "0x401000" 2 "[65, 66]"] k v(1) by (auto simp: fs_example_content)
  then obtain k' where "sys_read 3 0x401000 2 k = Some (2, k')" "user_loads 0x401000 2 (k_vm k') = Some [65, 66]"
    "desc_position (fd_table k' ! 3) = 2"
    using k(2,5) by (auto simp: numeral_2_eq_2)
  then show ?thesis by blast
qed

section \<open>The keyboard\<close>

lemma read_stdin_line:
  "keyboard_feed scs ks = Some (cs, ks') \<Longrightarrow> list_all (\<lambda>c. c \<noteq> 10 \<and> c \<noteq> 13) cs \<Longrightarrow> length acc + length cs < n \<Longrightarrow>
     read_stdin n acc (scs @ rest) ks = read_stdin n (acc @ cs) rest ks'"
proof (induction scs arbitrary: ks acc cs)
  case (Cons sc scs)
  obtain c k1 cs1 where h: "keyboard_handle sc ks = Some (c, k1)" "keyboard_feed scs k1 = Some (cs1, ks')"
    and cs: "cs = (if c = 0 then cs1 else c # cs1)"
    using Cons.prems(1) by (auto split: Option.bind_splits prod.splits)
  show ?case
  proof (cases "c = 0")
    case True
    then show ?thesis using Cons.IH [OF h(2), of acc] Cons.prems(2,3) cs h(1) by simp
  next
    case False
    then have "c \<noteq> 10" "c \<noteq> 13" "list_all (\<lambda>c. c \<noteq> 10 \<and> c \<noteq> 13) cs1" using Cons.prems(2) cs by simp_all
    then show ?thesis using Cons.IH [OF h(2), of "acc @ [c]"] Cons.prems(3) cs h(1) False by simp
  qed
qed simp

lemma enter_key: "keyboard_handle 0x1C k = Some (10, k)"
  by (simp add: keyboard_handle_def key_char_def scancode_set1_def scancode_set1_shift_def
      SCANCODE_CTRL_def SCANCODE_LSHIFT_def SCANCODE_RSHIFT_def SCANCODE_ALT_def)

text \<open>
  A line typed at the keyboard arrives: \<open>sys_read\<close> from the standard input waits for the
  characters and the enter key, stores the line with its newline in the user's buffer and
  returns its length; what is typed later stays in the queue (the release of the enter key first).
\<close>

theorem sys_read_typed_line:
  assumes typed: "list_all typable line" "list_all (\<lambda>c. c \<noteq> 10 \<and> c \<noteq> 13) line"
    and keys: "\<not> ctrl_down (k_keys k)" "\<not> shift_down (k_keys k)"
    and scs: "k_scancodes k = concat (map type_char line) @ 0x1C # later"
    and vm: "user_ok (k_vm k)" and buf: "buffer_ok va (length line + 1) (k_vm k)"
    and room: "length line < min 4096 (unat count)"
  shows "\<exists>v. sys_read 0 va count k = Some (int (length line + 1), k\<lparr>k_vm := v, k_scancodes := later\<rparr>) \<and>
     user_loads va (length line + 1) v = Some (line @ [10])"
proof -
  let ?n = "min 4096 (unat count)"
  have n: "(if count > 4096 then 4096 else unat count) = ?n" by (simp add: word_less_nat_alt)
  have count: "count \<noteq> 0" using room by auto
  have feed: "keyboard_feed (concat (map type_char line)) (k_keys k) = Some (line, k_keys k)"
    by (rule typed_feed [OF typed(1) keys])
  have "read_stdin ?n [] (k_scancodes k) (k_keys k) = read_stdin ?n line (0x1C # later) (k_keys k)"
    unfolding scs using read_stdin_line [OF feed typed(2), of "[]" ?n] room by simp
  also have "\<dots> = Some (line @ [10], later, k_keys k)" using room by (simp add: enter_key)
  finally have r: "read_stdin ?n [] (k_scancodes k) (k_keys k) = Some (line @ [10], later, k_keys k)" .
  have b: "buffer_ok va (length (line @ [10])) (k_vm k)" using buf by simp
  obtain v where v: "copy_to_user va (line @ [10]) (k_vm k) = Some (True, v)" "user_loads va (length (line @ [10])) v = Some (line @ [10])"
    by (rule copy_to_user_ok [OF vm b]) auto
  have "sys_read 0 va count k = Some (int (length line + 1), k\<lparr>k_vm := v, k_scancodes := later\<rparr>)"
    using r v(1) count n by (simp add: sys_read_def Let_def)
  then show ?thesis using v(2) by auto
qed

theorem sys_read_typed_line_witness:
  "\<exists>k k'. k_scancodes k = [0x2A, 0x23, 0xA3, 0xAA, 0x17, 0x97, 0x1C, 0x9C] \<and>
     sys_read 0 0x401000 100 k = Some (3, k') \<and> user_loads 0x401000 3 (k_vm k') = Some [72, 105, 10] \<and>
     k_scancodes k' = [0x9C]"
proof -
  obtain v where v: "user_ok v" "buffer_ok 0x401000 4096 v" by (rule kernel_example)
  let ?scs = "[0x2A, 0x23, 0xA3, 0xAA, 0x17, 0x97, 0x1C, 0x9C] :: bytes"
  have t: "list_all typable [72, 105]" "list_all (\<lambda>c. c \<noteq> 10 \<and> c \<noteq> 13) [72, 105 :: u8]"
    by (simp_all add: typable_def scancode_set1_def scancode_set1_shift_def)
  have scs: "k_scancodes (kernel_on v ?scs) = concat (map type_char [72, 105]) @ 0x1C # [0x9C]"
    by (simp add: type_char_def Let_def index_of_def scancode_set1_def scancode_set1_shift_def SCANCODE_LSHIFT_def)
  have "buffer_ok 0x401000 (length [72, 105 :: u8] + 1) (k_vm (kernel_on v ?scs))"
    using buffer_ok_mono [OF v(2), of 3] by (simp add: numeral_3_eq_3)
  from sys_read_typed_line [OF t _ _ scs _ this, of 100]
  obtain v' where "sys_read 0 0x401000 100 (kernel_on v ?scs) = Some (3, (kernel_on v ?scs)\<lparr>k_vm := v', k_scancodes := [0x9C]\<rparr>)"
    "user_loads 0x401000 3 v' = Some [72, 105, 10]"
    using v(1) by (auto simp: key_boot_def numeral_3_eq_3)
  then show ?thesis by (intro exI [of _ "kernel_on v ?scs"] exI [of _ "(kernel_on v ?scs)\<lparr>k_vm := v', k_scancodes := [0x9C]\<rparr>"]) simp
qed

section \<open>Calls without an effect\<close>

text \<open>
  An unknown call number, a descriptor that is not open, a path or buffer outside the user
  half: each is answered with -1 and changes nothing.
\<close>

theorem failed_calls_change_nothing:
  assumes inv: "fd_inv k"
  shows "(num < 0 \<or> 6 < num \<longrightarrow> syscall num a b c k = Some (-1, k)) \<and>
    (16 \<le> a \<or> 3 \<le> a \<and> \<not> desc_used (fd_table k ! unat a) \<longrightarrow>
       syscall 4 a b c k = Some (-1, k) \<and> (c \<noteq> 0 \<longrightarrow> syscall 2 a b c k = Some (-1, k))) \<and>
    (c \<noteq> 0 \<and> a \<noteq> 1 \<and> a \<noteq> 2 \<longrightarrow> syscall 1 a b c k = Some (-1, k)) \<and>
    (KERNEL_VMA_BASE \<le> a \<longrightarrow> syscall 3 a b c k = Some (-1, k)) \<and>
    (KERNEL_VMA_BASE \<le> b \<longrightarrow> syscall 5 a b c k = Some (-1, k))"
proof (intro conjI impI)
  assume "16 \<le> a \<or> 3 \<le> a \<and> \<not> desc_used (fd_table k ! unat a)"
  then consider "16 \<le> a" | "3 \<le> a" "a < 16" "\<not> desc_used (fd_table k ! unat a)" by fastforce
  then show "syscall 4 a b c k = Some (-1, k)"
    by cases (use fd_slot(1) [OF inv, of a] in \<open>auto simp: syscall_def SYSCALL_TABLE_SIZE_def sys_close_def\<close>)
next
  assume a: "16 \<le> a \<or> 3 \<le> a \<and> \<not> desc_used (fd_table k ! unat a)" and c: "c \<noteq> 0"
  then have "a \<noteq> 0" by auto
  consider "16 \<le> a" | "3 \<le> a" "a < 16" "\<not> desc_used (fd_table k ! unat a)" using a by fastforce
  then show "syscall 2 a b c k = Some (-1, k)"
    by cases (use fd_slot(1) [OF inv, of a] c \<open>a \<noteq> 0\<close> in \<open>auto simp: syscall_def SYSCALL_TABLE_SIZE_def sys_read_def Let_def\<close>)
next
  assume "KERNEL_VMA_BASE \<le> a"
  then have "\<not> validate_user_memory a 255" by (simp add: validate_range word_le_nat_alt)
  then show "syscall 3 a b c k = Some (-1, k)"
    by (simp add: syscall_def SYSCALL_TABLE_SIZE_def sys_open_eq [OF inv])
next
  assume "KERNEL_VMA_BASE \<le> b"
  then have "\<not> validate_user_memory b 264" by (simp add: validate_range word_le_nat_alt)
  then show "syscall 5 a b c k = Some (-1, k)"
    by (simp add: syscall_def SYSCALL_TABLE_SIZE_def sys_readdir_def)
qed (auto simp: syscall_def SYSCALL_TABLE_SIZE_def sys_write_def Let_def)

theorem failed_calls_change_nothing_witness:
  "syscall 7 0 0 0 (kernel_on vm_example []) = Some (-1, kernel_on vm_example []) \<and>
   syscall 4 3 0 0 (kernel_on vm_example []) = Some (-1, kernel_on vm_example [])"
  using failed_calls_change_nothing [OF kernel_on_inv, where v1 = vm_example and scs1 = "[]" and num = 7 and a = 0 and b = 0 and c = 0]
    failed_calls_change_nothing [OF kernel_on_inv, where v1 = vm_example and scs1 = "[]" and num = 4 and a = 3 and b = 0 and c = 0]
  by (simp add: free_desc_def MAX_FDS_def)

end
