(* ===== verification/LibcCorrect.thy ===== *)
theory LibcCorrect
  imports Libc SyscallIO
begin

text \<open>
  Formatted output against a reference: a format is a sequence of pieces, its text the concatenation
  of theirs, and \<open>vsnprintf\<close> stores the text cut to the size of the buffer. Then the same for
  \<open>printf\<close> on the terminal, and the formats that leave the buffer.
\<close>

section \<open>The reference\<close>

datatype piece = Text u8 | Dec u32 | Hex u32 | Chr u32 | Chars bytes

fun piece_format :: "piece \<Rightarrow> bytes" where
  "piece_format (Text c) = [c]"
| "piece_format (Dec w) = [37, 100]"
| "piece_format (Hex w) = [37, 120]"
| "piece_format (Chr w) = [37, 99]"
| "piece_format (Chars s) = [37, 115]"

fun piece_args :: "piece \<Rightarrow> c_arg list" where
  "piece_args (Text c) = []"
| "piece_args (Dec w) = [Int_arg w]"
| "piece_args (Hex w) = [Int_arg w]"
| "piece_args (Chr w) = [Int_arg w]"
| "piece_args (Chars s) = [Str_arg (Some s)]"

definition decimal :: "int \<Rightarrow> bytes" where
  "decimal num = (if num < 0 then [45] else []) @ render 10 (nat \<bar>num\<bar>)"

fun piece_text :: "piece \<Rightarrow> bytes" where
  "piece_text (Text c) = [c]"
| "piece_text (Dec w) = decimal (sint w)"
| "piece_text (Hex w) = render 16 (unat w)"
| "piece_text (Chr w) = [ucast w]"
| "piece_text (Chars s) = cstr s"

fun piece_ok :: "piece \<Rightarrow> bool" where
  "piece_ok (Text c) \<longleftrightarrow> c \<noteq> 0 \<and> c \<noteq> 37"
| "piece_ok (Dec w) \<longleftrightarrow> sint w \<noteq> - (2 ^ 31)"
| "piece_ok (Hex w) \<longleftrightarrow> True"
| "piece_ok (Chr w) \<longleftrightarrow> True"
| "piece_ok (Chars s) \<longleftrightarrow> terminated s"

definition format_of :: "piece list \<Rightarrow> bytes" where "format_of ps = concat (map piece_format ps)"
definition args_of :: "piece list \<Rightarrow> c_arg list" where "args_of ps = concat (map piece_args ps)"
definition text_of :: "piece list \<Rightarrow> bytes" where "text_of ps = concat (map piece_text ps)"

section \<open>A buffer filled up to its size\<close>

definition holds :: "nat \<Rightarrow> nat \<Rightarrow> bytes \<Rightarrow> nat \<Rightarrow> bytes \<Rightarrow> bool" where
  "holds n sz b i t \<longleftrightarrow> length b = n \<and> i = min (sz - 1) (length t) \<and> take i b = take (sz - 1) t"

lemma holds_full: "holds n sz b i t \<Longrightarrow> \<not> i + 1 < sz \<Longrightarrow> holds n sz b i (t @ u)"
  by (auto simp: holds_def min_def split: if_splits)

lemma holds_put:
  assumes "holds n sz b i t" and "i + 1 < sz" and "sz \<le> n"
  obtains b' where "wr b i c = Some b'" and "holds n sz b' (i + 1) (t @ [c])"
proof -
  have i: "i < length b" "i = length t" "take i b = t" using assms by (auto simp: holds_def min_def split: if_splits)
  have "take (i + 1) (b[i := c]) = t @ [c]"
    using i(1,3) by (simp add: take_Suc_conv_app_nth)
  then have "holds n sz (b[i := c]) (i + 1) (t @ [c])" using assms i(2) by (simp add: holds_def)
  then show ?thesis using that i(1) by simp
qed

lemma holds_start: "length b = n \<Longrightarrow> holds n sz b 0 []"
  by (simp add: holds_def)

lemma put_string_holds:
  assumes "sz \<le> n"
  shows "holds n sz b i t \<Longrightarrow> terminated s \<Longrightarrow>
    \<exists>b' i'. put_string sz s b i = Some (b', i') \<and> holds n sz b' i' (t @ cstr s)"
proof (induction s arbitrary: b i t)
  case (Cons c s)
  show ?case
  proof (cases "c \<noteq> 0 \<and> i + 1 < sz")
    case True
    obtain b1 where b1: "wr b i c = Some b1" "holds n sz b1 (i + 1) (t @ [c])"
      using holds_put [OF Cons.prems(1) _ assms] True by blast
    have "\<exists>b' i'. put_string sz s b1 (i + 1) = Some (b', i') \<and> holds n sz b' i' ((t @ [c]) @ cstr s)"
      using Cons.prems(2) True by (intro Cons.IH b1) auto
    then show ?thesis using True b1(1) by (simp add: cstr_Cons)
  next
    case False
    then show ?thesis using holds_full [OF Cons.prems(1)] Cons.prems(1) by (cases "c = 0") (auto simp: cstr_Cons)
  qed
qed simp

lemma put_reversed_holds:
  assumes "sz \<le> n"
  shows "holds n sz b i t \<Longrightarrow> j \<le> length tmp \<Longrightarrow>
    \<exists>b' i'. put_reversed sz tmp j b i = Some (b', i') \<and> holds n sz b' i' (t @ rev (take j tmp))"
proof (induction j arbitrary: b i t)
  case (Suc j)
  have r: "rev (take (Suc j) tmp) = [tmp ! j] @ rev (take j tmp)"
    using Suc.prems(2) by (simp add: take_Suc_conv_app_nth)
  show ?case
  proof (cases "i + 1 < sz")
    case True
    obtain b1 where b1: "wr b i (tmp ! j) = Some b1" "holds n sz b1 (i + 1) (t @ [tmp ! j])"
      using holds_put [OF Suc.prems(1) True assms] by blast
    have "\<exists>b' i'. put_reversed sz tmp j b1 (i + 1) = Some (b', i') \<and> holds n sz b' i' ((t @ [tmp ! j]) @ rev (take j tmp))"
      using Suc.prems(2) by (intro Suc.IH b1) auto
    then show ?thesis using True b1(1) Suc.prems(2) unfolding r by simp
  next
    case False
    then show ?thesis using holds_full [OF Suc.prems(1)] by simp
  qed
qed simp

section \<open>Digits\<close>

definition low_first :: "nat \<Rightarrow> nat \<Rightarrow> nat list" where
  "low_first base v = (if v = 0 then [0] else digits_le base v)"

lemma rev_low_first: "rev (low_first base v) = digits base v"
  by (simp add: low_first_def digits_def)

lemma low_first_step: "2 \<le> base \<Longrightarrow>
    low_first base v = v mod base # (if v div base = 0 then [] else low_first base (v div base))"
  by (auto simp: low_first_def digits_le_step)

lemma tmp_digits_eq:
  assumes "2 \<le> base"
  shows "length tmp = 32 \<Longrightarrow> j + length (low_first base v) \<le> 32 \<Longrightarrow>
    \<exists>t. tmp_digits digit base v tmp j = Some (t, j + length (low_first base v)) \<and> length t = 32 \<and>
      take (j + length (low_first base v)) t = take j tmp @ map digit (low_first base v)"
proof (induction v arbitrary: tmp j rule: less_induct)
  case (less v)
  let ?d = "digit (v mod base)"
  let ?t = "tmp[j := ?d]"
  have j: "j < 32" using less.prems low_first_step [OF assms, of v] by simp
  have w: "wr tmp j ?d = Some ?t" and tk: "take (Suc j) ?t = take j tmp @ [?d]"
    using j less.prems(1) by (simp_all add: take_Suc_conv_app_nth)
  show ?case
  proof (cases "v div base = 0")
    case True
    then have "low_first base v = [v mod base]" using low_first_step [OF assms, of v] by simp
    then show ?thesis using w tk less.prems(1) True by (simp add: tmp_digits.simps)
  next
    case False
    then have s: "low_first base v = v mod base # low_first base (v div base)" using low_first_step [OF assms, of v] by simp
    have ne: "low_first base (v div base) \<noteq> []" using low_first_step [OF assms] by (metis list.distinct(1))
    have "0 < v" using False by (cases v) auto
    then have "v div base < v" using assms by simp
    from less.IH [OF this, of ?t "j + 1"] obtain t where t:
      "tmp_digits digit base (v div base) ?t (j + 1) = Some (t, j + 1 + length (low_first base (v div base)))" "length t = 32"
      "take (j + 1 + length (low_first base (v div base))) t = take (j + 1) ?t @ map digit (low_first base (v div base))"
      using less.prems s by auto
    have "j + 1 < 32" using less.prems(2) s ne by (cases "low_first base (v div base)") simp_all
    then have "tmp_digits digit base v tmp j = tmp_digits digit base (v div base) ?t (j + 1)"
      using w False by (simp add: tmp_digits.simps [of digit base v])
    then show ?thesis using t tk s by simp
  qed
qed

lemma length_low_first: "2 \<le> base \<Longrightarrow> v < base ^ n \<Longrightarrow> 0 < n \<Longrightarrow> length (low_first base v) \<le> n"
  using length_digits [of v base n] by (metis length_rev rev_low_first)

lemma put_hex_holds:
  assumes "sz \<le> n" and "holds n sz b i t" and "v < 2 ^ 32"
  shows "\<exists>b' i'. put_hex sz v b i = Some (b', i') \<and> holds n sz b' i' (t @ render 16 v)"
proof -
  let ?digit = "\<lambda>d. str ''0123456789abcdef'' ! d"
  have "length (low_first 16 v) \<le> 8" using assms(3) by (intro length_low_first) simp_all
  then have "0 + length (low_first 16 v) \<le> 32" by simp
  from tmp_digits_eq [OF _ _ this, of "replicate 32 0" ?digit] obtain tmp where tmp:
    "tmp_digits ?digit 16 v (replicate 32 0) 0 = Some (tmp, length (low_first 16 v))" "length tmp = 32"
    "take (length (low_first 16 v)) tmp = map ?digit (low_first 16 v)" by auto
  have "rev (take (length (low_first 16 v)) tmp) = render 16 v"
    unfolding tmp(3) render_def rev_map rev_low_first by (simp add: hex_digits_def)
  moreover have "length (low_first 16 v) \<le> length tmp" using \<open>length (low_first 16 v) \<le> 8\<close> tmp(2) by simp
  ultimately show ?thesis
    using put_reversed_holds [OF assms(1,2), of "length (low_first 16 v)" tmp] tmp(1) by (simp add: put_hex_def)
qed

lemma put_decimal_holds:
  assumes "sz \<le> n" and "holds n sz b i t" and "- (2 ^ 31) < num" and "num < 2 ^ 31"
  shows "\<exists>b' i'. put_decimal sz num b i = Some (b', i') \<and> holds n sz b' i' (t @ decimal num)"
proof -
  let ?v = "nat \<bar>num\<bar>" and ?digit = "\<lambda>d. 48 + word_of_nat d :: u8"
  let ?l = "length (low_first 10 ?v)"
  have "?l \<le> 10" using assms(3,4) by (intro length_low_first) (simp_all add: nat_less_iff)
  then have "0 + ?l \<le> 32" by simp
  from tmp_digits_eq [OF _ _ this, of "replicate 32 0" ?digit] obtain tmp where tmp:
    "tmp_digits ?digit 10 ?v (replicate 32 0) 0 = Some (tmp, ?l)" "length tmp = 32" "take ?l tmp = map ?digit (low_first 10 ?v)"
    by auto
  have "rev (take ?l tmp) = render 10 ?v"
    unfolding tmp(3) render_def rev_map rev_low_first
    by (rule map_cong [OF refl]) (use digits_less [of 10] hex_digit_decimal in fastforce)
  note rv = this
  have l: "?l \<le> length tmp" using \<open>?l \<le> 10\<close> tmp(2) by simp
  obtain b1 i1 where s: "(if num < 0 \<and> i + 1 < sz then do { b \<leftarrow> wr b i 45; Some (b, i + 1) } else Some (b, i)) = Some (b1, i1)"
    "holds n sz b1 i1 (t @ (if num < 0 then [45] else []))"
  proof (cases "num < 0 \<and> i + 1 < sz")
    case True
    then obtain b1 where "wr b i 45 = Some b1" "holds n sz b1 (i + 1) (t @ [45])"
      using holds_put [OF assms(2) _ assms(1)] by blast
    then show ?thesis using that True by simp
  next
    case False
    then have "holds n sz b i (t @ (if num < 0 then [45] else []))" using assms(2) holds_full [OF assms(2)] by simp
    moreover have "(if num < 0 \<and> i + 1 < sz then do { b \<leftarrow> wr b i 45; Some (b, i + 1) } else Some (b, i)) = Some (b, i)"
      using False by (simp only: if_False)
    ultimately show ?thesis by (rule that [rotated])
  qed
  show ?thesis
    using put_reversed_holds [OF assms(1) s(2) l] s(1) tmp(1) rv assms(3) by (simp add: put_decimal_def decimal_def)
qed

section \<open>Formats\<close>

lemma format_loop_full: "fmt \<noteq> [] \<Longrightarrow> \<not> i + 1 < sz \<Longrightarrow> format_loop sz fmt args b i = Some (b, i)"
  by (cases "(sz, fmt, args, b, i)" rule: format_loop.cases) auto

lemma format_loop_text:
  "fmt \<noteq> [] \<Longrightarrow> c \<noteq> 0 \<Longrightarrow> c \<noteq> 37 \<Longrightarrow> i + 1 < sz \<Longrightarrow>
     format_loop sz (c # fmt) args b i = do { b \<leftarrow> wr b i c; format_loop sz fmt args b (i + 1) }"
  by (cases fmt) auto

lemma format_loop_percent:
  "i + 1 < sz \<Longrightarrow> format_loop sz (37 # d # fmt) args b i =
     do { (rest, b, i) \<leftarrow> directive sz d args b i; format_loop sz fmt rest b i }"
  by simp

lemma sint_u32: "- (2 ^ 31) \<le> sint (w :: u32)" "sint (w :: u32) < 2 ^ 31"
  using sint_greater_eq [of w] sint_less [of w] by simp_all

lemma directive_holds:
  assumes "sz \<le> n" and "holds n sz b i t" and "i + 1 < sz" and "piece_ok p" and "piece_format p = [37, d]"
  shows "\<exists>b' i'. directive sz d (piece_args p @ rest) b i = Some (rest, b', i') \<and> holds n sz b' i' (t @ piece_text p)"
proof (cases p)
  case (Dec w)
  have "- (2 ^ 31) < sint w" using assms(4) sint_u32 [of w] Dec by simp
  from put_decimal_holds [OF assms(1,2) this sint_u32(2)] show ?thesis using assms(5) Dec by (auto simp: directive_def)
next
  case (Hex w)
  have "unat w < 2 ^ 32" using unsigned_less [of w] by simp
  from put_hex_holds [OF assms(1,2) this] show ?thesis using assms(5) Hex by (auto simp: directive_def)
next
  case (Chr w)
  obtain b' where "wr b i (ucast w) = Some b'" "holds n sz b' (i + 1) (t @ [ucast w])"
    using holds_put [OF assms(2,3,1)] .
  then show ?thesis using assms(5) Chr by (auto simp: directive_def)
next
  case (Chars s)
  then have "terminated s" using assms(4) by simp
  from put_string_holds [OF assms(1,2) this] show ?thesis using assms(5) Chars by (auto simp: directive_def)
qed (use assms(5) in simp)

lemma pieces_Cons:
  "format_of (p # ps) = piece_format p @ format_of ps" "args_of (p # ps) = piece_args p @ args_of ps"
  "text_of (p # ps) = piece_text p @ text_of ps"
  by (simp_all add: format_of_def args_of_def text_of_def)

lemma pieces_Nil [simp]: "format_of [] = []" "args_of [] = []" "text_of [] = []"
  by (simp_all add: format_of_def args_of_def text_of_def)

lemma format_loop_piece:
  assumes "sz \<le> n" and "holds n sz b i t" and "i + 1 < sz" and "piece_ok p" and "fmt \<noteq> []"
  shows "\<exists>b1 i1. format_loop sz (piece_format p @ fmt) (piece_args p @ rest) b i = format_loop sz fmt rest b1 i1 \<and>
    holds n sz b1 i1 (t @ piece_text p)"
proof (cases "\<exists>c. p = Text c")
  case True
  then obtain c where p: "p = Text c" by blast
  obtain b' where "wr b i c = Some b'" "holds n sz b' (i + 1) (t @ [c])" using holds_put [OF assms(2,3,1)] .
  moreover have "c \<noteq> 0" "c \<noteq> 37" using assms(4) p by simp_all
  ultimately show ?thesis using p format_loop_text [OF assms(5) _ _ assms(3), of c rest b] by auto
next
  case False
  then obtain d where d: "piece_format p = [37, d]" by (cases p) auto
  obtain b' i' where "directive sz d (piece_args p @ rest) b i = Some (rest, b', i')" "holds n sz b' i' (t @ piece_text p)"
    using directive_holds [OF assms(1-4) d, of rest] by blast
  then show ?thesis using assms(3) d by (intro exI [of _ b'] exI [of _ i']) simp
qed

lemma format_loop_pieces:
  assumes "sz \<le> n" and "fmt \<noteq> []"
  shows "list_all piece_ok ps \<Longrightarrow> holds n sz b i t \<Longrightarrow>
    \<exists>b' i'. format_loop sz (format_of ps @ fmt) (args_of ps @ rest) b i = format_loop sz fmt rest b' i' \<and>
      holds n sz b' i' (t @ text_of ps)"
proof (induction ps arbitrary: b i t)
  case (Cons p ps)
  show ?case
  proof (cases "i + 1 < sz")
    case False
    have "format_loop sz (format_of (p # ps) @ fmt) (args_of (p # ps) @ rest) b i = Some (b, i)"
      "format_loop sz fmt rest b i = Some (b, i)"
      using False assms(2) by (simp_all add: format_loop_full)
    then show ?thesis using holds_full [OF Cons.prems(2) False] by metis
  next
    case True
    have ok: "piece_ok p" and ne: "format_of ps @ fmt \<noteq> []" using Cons.prems(1) assms(2) by simp_all
    obtain b1 i1 where b1: "format_loop sz (piece_format p @ format_of ps @ fmt) (piece_args p @ args_of ps @ rest) b i =
        format_loop sz (format_of ps @ fmt) (args_of ps @ rest) b1 i1" "holds n sz b1 i1 (t @ piece_text p)"
      using format_loop_piece [OF assms(1) Cons.prems(2) True ok ne] by blast
    have "\<exists>b' i'. format_loop sz (format_of ps @ fmt) (args_of ps @ rest) b1 i1 = format_loop sz fmt rest b' i' \<and>
        holds n sz b' i' ((t @ piece_text p) @ text_of ps)"
      using Cons.prems(1) by (intro Cons.IH b1(2)) simp
    then show ?thesis using b1(1) by (simp add: pieces_Cons)
  qed
qed auto

lemma vsnprintf_eq:
  assumes "list_all piece_ok ps" and "0 < sz" and "sz \<le> length buf"
  obtains b where "vsnprintf buf sz (format_of ps @ [0]) (args_of ps) = Some (min (sz - 1) (length (text_of ps)), b)"
    and "length b = length buf" and "take (min (sz - 1) (length (text_of ps)) + 1) b = take (sz - 1) (text_of ps) @ [0]"
proof -
  obtain b i where r: "format_loop sz (format_of ps @ [0]) (args_of ps) buf 0 = Some (b, i)"
    "holds (length buf) sz b i (text_of ps)"
    using format_loop_pieces [OF assms(3) _ assms(1) holds_start [OF refl], of "[0]" "[]"] by auto
  then have i: "i = min (sz - 1) (length (text_of ps))" "i < length b" "length b = length buf" "take i b = take (sz - 1) (text_of ps)"
    using assms(2,3) by (auto simp: holds_def)
  have "take (i + 1) (b[i := 0]) = take (sz - 1) (text_of ps) @ [0]"
    using i(2,4) by (simp add: take_Suc_conv_app_nth)
  then show ?thesis using that [of "b[i := 0]"] r(1) i by (simp add: vsnprintf_def)
qed

text \<open>
  C35 Formatted output: for every format of plain characters and the conversions \<open>%d\<close>, \<open>%x\<close>,
  \<open>%c\<close>, \<open>%s\<close>, and every buffer that holds \<open>sz\<close> bytes, \<open>vsnprintf\<close> stores the text the format
  denotes cut to \<open>sz - 1\<close> bytes and a terminator, returns the number of bytes stored, and writes
  nothing outside the buffer. (The number -2147483648 is excluded: its negation overflows.)
\<close>

theorem vsnprintf_formats:
  assumes "list_all piece_ok ps" and "0 < sz" and "sz \<le> length buf"
  shows "\<exists>b. vsnprintf buf sz (format_of ps @ [0]) (args_of ps) = Some (min (sz - 1) (length (text_of ps)), b) \<and>
    length b = length buf \<and> take (min (sz - 1) (length (text_of ps)) + 1) b = take (sz - 1) (text_of ps) @ [0]"
  using vsnprintf_eq [OF assms] by metis

theorem vsnprintf_formats_witness:
  "\<exists>b. vsnprintf (replicate 8 0) 8 (lit ''%d:%s'') [Int_arg (- 12), Str_arg (Some (lit ''abcdef''))] = Some (7, b) \<and>
     take 8 b = str ''-12:abc'' @ [0]"
proof -
  let ?ps = "[Dec (- 12), Text 58, Chars (lit ''abcdef'')]"
  have ok: "list_all piece_ok ?ps" by (simp add: lit_def)
  have "decimal (- 12) = str ''-12''"
    by (simp add: decimal_def render_def digits_def digits_le.simps hex_digits_def)
  then have t: "text_of ?ps = str ''-12:abcdef''" by (simp add: text_of_def lit_def)
  have f: "format_of ?ps @ [0] = lit ''%d:%s''" "args_of ?ps = [Int_arg (- 12), Str_arg (Some (lit ''abcdef''))]"
    by (simp_all add: format_of_def args_of_def lit_def)
  show ?thesis using vsnprintf_formats [OF ok, of 8 "replicate 8 0"] unfolding t f by (auto simp: eval_nat_numeral)
qed

section \<open>Formats that leave the buffer\<close>

text \<open>
  An unknown conversion stores two bytes after one check: when it is met with exactly one byte
  left, the terminator is stored past the end of the buffer. And a format that ends in a percent
  sign makes the loop step over its terminator, so that the read leaves the format.
\<close>

theorem vsnprintf_unchecked:
  assumes "list_all piece_ok ps" and "length buf = length (text_of ps) + 2" and "d \<notin> {0, 99, 100, 115, 120}"
  shows "vsnprintf buf (length buf) (format_of ps @ 37 # d # fmt) (args_of ps) = None \<and>
    vsnprintf buf (length buf) (format_of ps @ [37, 0]) (args_of ps) = None"
proof -
  let ?n = "length buf" and ?t = "text_of ps"
  obtain b i where b: "format_loop ?n (format_of ps @ 37 # d # fmt) (args_of ps) buf 0 = format_loop ?n (37 # d # fmt) [] b i"
    "holds ?n ?n b i ?t"
    using format_loop_pieces [OF order_refl _ assms(1) holds_start [OF refl], of "37 # d # fmt" buf "[]"] by auto
  have i: "i = length ?t" "length b = i + 2" using b(2) assms(2) by (simp_all add: holds_def)
  have "directive ?n d [] b i = Some ([], b[i := 37, i + 1 := d], i + 2)"
    using assms(3) i by (simp add: directive_def)
  then have "format_loop ?n (37 # d # fmt) [] b i = format_loop ?n fmt [] (b[i := 37, i + 1 := d]) (i + 2)"
    using assms(2) i by simp
  also have "\<dots> = (if fmt = [] then None else Some (b[i := 37, i + 1 := d], i + 2))"
    using assms(2) i by (cases "fmt = []") (simp_all add: format_loop_full)
  finally have "vsnprintf buf ?n (format_of ps @ 37 # d # fmt) (args_of ps) = None"
    using b(1) i by (simp add: vsnprintf_def)
  moreover obtain b i where b: "format_loop ?n (format_of ps @ [37, 0]) (args_of ps) buf 0 = format_loop ?n [37, 0] [] b i"
    "holds ?n ?n b i ?t"
    using format_loop_pieces [OF order_refl _ assms(1) holds_start [OF refl], of "[37, 0]" buf "[]"] by auto
  have "format_loop ?n [37, 0] [] b i = None" using b(2) assms(2) by (simp add: holds_def directive_def)
  then have "vsnprintf buf ?n (format_of ps @ [37, 0]) (args_of ps) = None" using b(1) by (simp add: vsnprintf_def)
  ultimately show ?thesis ..
qed

theorem vsnprintf_unchecked_witness:
  "vsnprintf (replicate 3 0) 3 (lit ''a%%'') [] = None \<and> vsnprintf (replicate 3 0) 3 (lit ''a%'') [] = None"
  using vsnprintf_unchecked [of "[Text 97]" "replicate 3 0" 37 "[0]"]
  by (simp add: format_of_def args_of_def text_of_def lit_def)

end
