(* ===== verification/ProgramsCorrect.thy ===== *)
theory ProgramsCorrect
  imports Programs LibcCorrect
begin

text \<open>
  The user programs on the kernel: what \<open>cat\<close>, \<open>ls\<close> and \<open>echo\<close> print, through \<open>printf\<close>, the
  system calls and the file system, from the content of the files to the bytes on the terminal.
\<close>

section \<open>User memory\<close>

lemma user_loads_prefix: "user_loads a n s = Some bs \<Longrightarrow> m \<le> n \<Longrightarrow> user_loads a m s = Some (take m bs)"
proof (induction m arbitrary: a n bs)
  case (Suc m)
  then obtain n' where "n = Suc n'" by (cases n) auto
  then show ?case using Suc.prems Suc.IH [of "a + 1" n'] by (auto split: Option.bind_splits)
qed simp

lemma user_loads_snoc:
  "user_loads a n s = Some bs \<Longrightarrow> user_load (a + word_of_nat n) s = Some c \<Longrightarrow> user_loads a (Suc n) s = Some (bs @ [c])"
proof (induction n arbitrary: a bs)
  case (Suc n)
  obtain b bs' where b: "user_load a s = Some b" "user_loads (a + 1) n s = Some bs'" "bs = b # bs'"
    using Suc.prems(1) by (auto split: Option.bind_splits)
  have "user_loads (a + 1) (Suc n) s = Some (bs' @ [c])"
    using Suc.prems(2) by (intro Suc.IH b(2)) (simp add: add.commute add.left_commute)
  then show ?case using b by simp
qed simp

lemma user_chars_loads:
  "user_loads a n s = Some bs \<Longrightarrow> terminated bs \<Longrightarrow> n \<le> fuel \<Longrightarrow> user_chars fuel a s = Some (cstr bs @ [0])"
proof (induction fuel arbitrary: a n bs)
  case 0
  then show ?case by simp
next
  case (Suc fuel)
  then obtain m where n: "n = Suc m" by (cases n) auto
  obtain b bs' where b: "user_load a s = Some b" "user_loads (a + 1) m s = Some bs'" "bs = b # bs'"
    using Suc.prems(1) n by (auto split: Option.bind_splits)
  show ?case
  proof (cases "b = 0")
    case False
    then have "user_chars fuel (a + 1) s = Some (cstr bs' @ [0])" using Suc.prems b n by (intro Suc.IH) auto
    then show ?thesis using b False by (simp add: cstr_Cons)
  qed (use b in \<open>simp add: cstr_Cons\<close>)
qed

lemma user_string_loads:
  "user_loads a n (k_vm k) = Some bs \<Longrightarrow> terminated bs \<Longrightarrow> n \<le> 2 ^ 64 \<Longrightarrow> user_string a k = Some (cstr bs @ [0])"
  by (simp add: user_string_def user_chars_loads)

text \<open>A store of the program to memory of its own.\<close>

lemma put_user_effect:
  assumes "user_ok (k_vm k)" and "buffer_ok a (length bs) (k_vm k)"
  obtains v where "put_user a bs k = Some (k\<lparr>k_vm := v\<rparr>)" and "user_ok v" and "user_loads a (length bs) v = Some bs"
    and "\<And>c n. buffer_ok c n v = buffer_ok c n (k_vm k)"
    and "\<And>c. user_load c v = (if unat (c - a) < length bs then Some (bs ! unat (c - a)) else user_load c (k_vm k))"
proof -
  have len: "length bs < 2 ^ 64" using assms(2) by (simp add: buffer_ok_def KERNEL_VMA_BASE_nat)
  obtain v where v: "um.stores a bs (k_vm k) = Some v" "user_ok v" "\<And>c. user_writable c v = user_writable c (k_vm k)"
    using um.stores_defined [OF assms(1), of bs a] assms(2) by (auto simp: buffer_ok_def)
  have "um.loads a (length bs) v = Some bs" by (rule um.loads_stores [OF assms(1) v(1) len])
  moreover have "user_load c v = (if unat (c - a) < length bs then Some (bs ! unat (c - a)) else user_load c (k_vm k))" for c
    using um.load_stores [OF assms(1) v(1)] len by simp
  ultimately show ?thesis
    using that [of v] v by (simp add: put_user_def user_stores_eq user_loads_eq buffer_ok_def)
qed

lemma user_loads_same:
  "(\<And>i. i < n \<Longrightarrow> user_load (a + word_of_nat i) s = user_load (a + word_of_nat i) s') \<Longrightarrow> user_loads a n s = user_loads a n s'"
proof (induction n arbitrary: a)
  case (Suc n)
  have "user_load a s = user_load a s'" using Suc.prems [of 0] by simp
  moreover have "user_loads (a + 1) n s = user_loads (a + 1) n s'"
    using Suc.prems [of "Suc i" for i] by (intro Suc.IH) (simp add: add.assoc)
  ultimately show ?case by simp
qed simp

lemma buffer_ok_byte:
  assumes "buffer_ok a n s" and "i < n"
  shows "buffer_ok (a + word_of_nat i) 1 s"
proof -
  have lt: "unat a + i < 2 ^ 64" using assms by (simp add: buffer_ok_def KERNEL_VMA_BASE_nat)
  then have "unat (a + word_of_nat i) = unat a + i" by (simp add: unat_word_ariths unat_of_nat)
  moreover have "unat a \<noteq> 0" using assms(1) by (simp add: buffer_ok_def unat_eq_0)
  ultimately have "a + word_of_nat i \<noteq> 0" by (metis add_is_0 unat_0)
  then show ?thesis using assms \<open>unat (a + word_of_nat i) = unat a + i\<close> by (auto simp: buffer_ok_def)
qed

text \<open>A byte stored behind what has been loaded.\<close>

lemma put_behind:
  assumes "user_ok (k_vm k)" and "buffer_ok a n (k_vm k)" and "user_loads a (length bs) (k_vm k) = Some bs" and "length bs < n"
  obtains v where "put_user (a + word_of_nat (length bs)) [c] k = Some (k\<lparr>k_vm := v\<rparr>)" and "user_ok v"
    and "user_loads a (Suc (length bs)) v = Some (bs @ [c])" and "\<And>c n. buffer_ok c n v = buffer_ok c n (k_vm k)"
proof -
  let ?e = "a + word_of_nat (length bs)"
  have "buffer_ok ?e (length [c]) (k_vm k)" using buffer_ok_byte [OF assms(2,4)] by simp
  then obtain v where v: "put_user ?e [c] k = Some (k\<lparr>k_vm := v\<rparr>)" "user_ok v" "user_loads ?e (length [c]) v = Some [c]"
    "\<And>c n. buffer_ok c n v = buffer_ok c n (k_vm k)"
    "\<And>d. user_load d v = (if unat (d - ?e) < length [c] then Some ([c] ! unat (d - ?e)) else user_load d (k_vm k))"
    by (rule put_user_effect [OF assms(1)]) blast
  have n64: "n < 2 ^ 64" using assms(2) by (simp add: buffer_ok_def KERNEL_VMA_BASE_nat)
  have "user_loads a (length bs) v = user_loads a (length bs) (k_vm k)"
  proof (rule user_loads_same)
    fix i assume i: "i < length bs"
    then have "word_of_nat i \<noteq> (word_of_nat (length bs) :: u64)"
      using assms(4) n64 by (simp add: word_of_nat_eq_iff take_bit_nat_eq_self)
    then have "a + word_of_nat i - ?e \<noteq> 0" by simp
    then have "\<not> unat (a + word_of_nat i - ?e) < 1" by (metis less_one unat_eq_0)
    then show "user_load (a + word_of_nat i) v = user_load (a + word_of_nat i) (k_vm k)" using v(5) by simp
  qed
  then have "user_loads a (Suc (length bs)) v = Some (bs @ [c])"
    using assms(3) v(5) [of ?e] by (intro user_loads_snoc) simp_all
  then show ?thesis using that v(1,2,4) by blast
qed

section \<open>Printing\<close>

lemma int_result_small: "- (2 ^ 31) \<le> i \<Longrightarrow> i < 2 ^ 31 \<Longrightarrow> int_result (i, k) = (i, k)"
  using signed_take_bit_int_eq_self [of 31 i] by (simp add: int_result_def signed_of_int)

lemma libc_write_prints:
  assumes "a \<noteq> 0" and "unat a + n \<le> unat KERNEL_VMA_BASE" and "user_loads a n (k_vm k) = Some bs" and "n \<le> 4096"
  shows "libc_write 1 a n k = Some (int n, terminal_write bs k)"
proof (cases "n = 0")
  case True
  then have "terminal_write bs k = k" using assms(3) by (simp add: terminal_write_def)
  then show ?thesis using True by (simp add: libc_write_def syscall_def sys_numbers SYSCALL_TABLE_SIZE_def sys_write_def int_result_small)
next
  case False
  have u: "unat (word_of_nat n :: u64) = n" using assms(4) by (simp add: unat_of_nat)
  then have w: "(word_of_nat n :: u64) \<noteq> 0" "\<not> (4096 < (word_of_nat n :: u64))" using False assms(4)
    by (auto simp: word_less_nat_alt)
  have "validate_user_memory a n" using assms(1,2) False by (simp add: validate_range)
  then have "copy_from_user a n (k_vm k) = Some (Some bs)" using assms(3) by (simp add: copy_from_user_def)
  moreover have "length bs = n" by (rule length_user_loads [OF assms(3)])
  ultimately have "sys_write 1 a (word_of_nat n) k = Some (int n, terminal_write bs k)"
    using w u by (simp add: sys_write_def Let_def)
  then show ?thesis using assms(4)
    by (simp add: libc_write_def syscall_def sys_numbers SYSCALL_TABLE_SIZE_def int_result_small)
qed

text \<open>What a program needs to run: its descriptors, a terminal, its address space, the array of \<open>printf\<close>.\<close>

definition prog_ok :: "u64 \<Rightarrow> kernel \<Rightarrow> bool" where
  "prog_ok buf k \<longleftrightarrow> fd_inv k \<and> ft_ctx k \<and> user_ok (k_vm k) \<and> buffer_ok buf 512 (k_vm k)"

definition printed :: "vm \<Rightarrow> bytes \<Rightarrow> kernel \<Rightarrow> kernel" where
  "printed v t k = k\<lparr>k_vm := v, terminal := terminal k @ t\<rparr>"

lemma printed_fields [simp]:
  "k_vm (printed v t k) = v" "terminal (printed v t k) = terminal k @ t" "fd_table (printed v t k) = fd_table k"
  "k_fs (printed v t k) = k_fs k" "ft_ctx (printed v t k) = ft_ctx k" "printed v t (printed w u k) = printed v (u @ t) k"
  "free_slot (printed v t k) = free_slot k"
  by (simp_all add: printed_def free_slot_def)

lemma fd_inv_printed [simp]: "fd_inv (printed v t k) = fd_inv k"
  by (simp add: fd_inv_def)

lemma printf_prints:
  assumes "prog_ok buf k" and "list_all piece_ok ps" and "fmt = format_of ps @ [0]" and "args = args_of ps"
  obtains v where "printf buf fmt args k = Some (int (min 511 (length (text_of ps))), printed v (take 511 (text_of ps)) k)"
    and "user_ok v" and "\<And>c n. buffer_ok c n v = buffer_ok c n (k_vm k)"
    and "\<And>c. 512 \<le> unat (c - buf) \<Longrightarrow> user_load c v = user_load c (k_vm k)"
proof -
  let ?t = "take 511 (text_of ps)" and ?n = "min 511 (length (text_of ps))"
  obtain b where b: "vsnprintf (replicate 512 0) 512 fmt args = Some (?n, b)" "take (?n + 1) b = ?t @ [0]"
    using vsnprintf_eq [OF assms(2), of 512 "replicate 512 0"] unfolding assms(3,4) by auto
  have ok: "user_ok (k_vm k)" "buffer_ok buf 512 (k_vm k)" "ft_ctx k" using assms(1) by (simp_all add: prog_ok_def)
  have len: "length (?t @ [0]) = ?n + 1" by simp
  have "buffer_ok buf (length (?t @ [0])) (k_vm k)" by (rule buffer_ok_mono [OF ok(2)]) simp
  then obtain v where v: "put_user buf (?t @ [0]) k = Some (k\<lparr>k_vm := v\<rparr>)" "user_ok v"
    "user_loads buf (length (?t @ [0])) v = Some (?t @ [0])" "\<And>c n. buffer_ok c n v = buffer_ok c n (k_vm k)"
    "\<And>c. user_load c v = (if unat (c - buf) < length (?t @ [0]) then Some ((?t @ [0]) ! unat (c - buf)) else user_load c (k_vm k))"
    by (rule put_user_effect [OF ok(1)]) blast
  have "user_loads buf ?n v = Some (take ?n (?t @ [0]))" by (rule user_loads_prefix [OF v(3)]) simp
  moreover have "take ?n (?t @ [0]) = ?t" by (simp add: min_def)
  ultimately have l: "user_loads buf ?n (k_vm (k\<lparr>k_vm := v\<rparr>)) = Some ?t" by simp
  have "libc_write STDOUT buf ?n (k\<lparr>k_vm := v\<rparr>) = Some (int ?n, terminal_write ?t (k\<lparr>k_vm := v\<rparr>))"
    unfolding STDOUT_def by (rule libc_write_prints [OF _ _ l]) (use ok(2) in \<open>auto simp: buffer_ok_def\<close>)
  then have "printf buf fmt args k = Some (int ?n, printed v ?t k)"
    using b v(1) ok(3) by (simp add: printf_def terminal_write_def printed_def)
  moreover have "user_load c v = user_load c (k_vm k)" if "512 \<le> unat (c - buf)" for c
    using v(5) [of c] that by auto
  ultimately show ?thesis using that v(2,4) by blast
qed

lemma printf_string:
  assumes "prog_ok buf k" and "terminated s"
  obtains v n where "printf buf (lit ''%s'') [Str_arg (Some s)] k = Some (n, printed v (take 511 (cstr s)) k)"
    and "user_ok v" and "\<And>c n. buffer_ok c n v = buffer_ok c n (k_vm k)"
    and "\<And>c. 512 \<le> unat (c - buf) \<Longrightarrow> user_load c v = user_load c (k_vm k)"
proof -
  have "list_all piece_ok [Chars s]" "lit ''%s'' = format_of [Chars s] @ [0]" "[Str_arg (Some s)] = args_of [Chars s]"
    using assms(2) by (simp_all add: format_of_def args_of_def lit_def)
  from printf_prints [OF assms(1) this] show ?thesis using that by (simp add: text_of_def) metis
qed

section \<open>cat\<close>

text \<open>What \<open>cat\<close> makes of a content: of every 1023 bytes, the first 511 and only up to a zero byte.\<close>

function cat_text :: "bytes \<Rightarrow> bytes" where
  "cat_text bs = (if bs = [] then [] else take 511 (cstr (take 1023 bs @ [0])) @ cat_text (drop 1023 bs))"
  by pat_completeness auto
termination by (relation "measure length") auto

declare cat_text.simps [simp del]

definition desc_at :: "nat \<Rightarrow> nat \<Rightarrow> kernel \<Rightarrow> kernel" where
  "desc_at fd p k = k\<lparr>fd_table := (fd_table k)[fd := (fd_table k ! fd)\<lparr>desc_position := p\<rparr>]\<rparr>"

lemma desc_at_fields [simp]:
  "k_vm (desc_at fd p k) = k_vm k" "k_fs (desc_at fd p k) = k_fs k" "terminal (desc_at fd p k) = terminal k"
  "ft_ctx (desc_at fd p k) = ft_ctx k" "printed v t (desc_at fd p k) = desc_at fd p (printed v t k)"
  by (simp_all add: desc_at_def printed_def)

lemma desc_at_desc:
  "fd < length (fd_table k) \<Longrightarrow> fd_table (desc_at fd p k) ! fd = (fd_table k ! fd)\<lparr>desc_position := p\<rparr>"
  by (simp add: desc_at_def)

lemma desc_at_again [simp]: "fd < length (fd_table k) \<Longrightarrow> desc_at fd q (desc_at fd p k) = desc_at fd q k"
  by (simp add: desc_at_def)

lemma desc_at_id: "fd < length (fd_table k) \<Longrightarrow> desc_position (fd_table k ! fd) = p \<Longrightarrow> desc_at fd p k = k"
  by (auto simp: desc_at_def)

lemma fd_inv_desc_printed [simp]: "fd_inv (desc_at fd p (printed v t k)) = fd_inv (desc_at fd p k)"
  by (simp add: fd_inv_def desc_at_def)

lemma fd_inv_desc_at:
  assumes "fd_inv k" and "3 \<le> fd" and "fd < 16" and "desc_used (fd_table k ! fd)"
  shows "fd_inv (desc_at fd p k)"
proof -
  have "fd_table k ! fd \<in> set (fd_table k)" using assms(1,3) by (simp add: fd_inv_def MAX_FDS_def)
  then have "desc_ok (k_fs k) (fd_table k ! fd)" using assms(1) by (simp add: fd_inv_def)
  then show ?thesis unfolding desc_at_def
    by (intro fd_inv_update assms(1,2)) (use assms(3,4) in \<open>simp_all add: MAX_FDS_def desc_ok_def\<close>)
qed

lemma libc_read_file:
  assumes inv: "fd_inv k" and fd: "3 \<le> fd" "fd < 16" "desc_file (fd_table k ! fd) = Some (FsFile i)"
    and vm: "user_ok (k_vm k)" and buf: "buffer_ok a 1023 (k_vm k)"
    and bytes: "bytes = take 1023 (drop (desc_position (fd_table k ! fd)) (content (k_fs k) i))"
  obtains v where "libc_read (int fd) a 1023 k = Some (int (length bytes),
       printed v [] (desc_at fd (desc_position (fd_table k ! fd) + length bytes) k))"
    and "user_ok v" and "user_loads a (length bytes) v = Some bytes" and "\<And>c n. buffer_ok c n v = buffer_ok c n (k_vm k)"
proof -
  let ?fd = "word_of_int (int fd) :: u64"
  have w: "unat ?fd = fd" "3 \<le> ?fd" "?fd < 16" using fd(1,2) by (simp_all add: unat_of_nat word_le_nat_alt word_less_nat_alt)
  have "min 4096 (unat (1023 :: u64)) = 1023" by simp
  then obtain v where v: "sys_read ?fd a 1023 k = Some (int (length bytes), k\<lparr>k_vm := v, fd_table := (fd_table k)[fd := (fd_table k ! fd)
            \<lparr>desc_position := desc_position (fd_table k ! fd) + length bytes\<rparr>]\<rparr>)"
     "user_ok v" "user_loads a (length bytes) v = Some bytes" "\<forall>c n. buffer_ok c n v = buffer_ok c n (k_vm k)"
    using sys_read_file_effect [OF inv w(2,3), of i a 1023 bytes] fd(3) vm buf bytes unfolding w(1) by auto
  have "length bytes \<le> 1023" using bytes by simp
  then have "int_result (int (length bytes), k') = (int (length bytes), k')" for k' by (intro int_result_small) simp_all
  then have "libc_read (int fd) a 1023 k = Some (int (length bytes),
       printed v [] (desc_at fd (desc_position (fd_table k ! fd) + length bytes) k))"
    using v(1) by (simp add: libc_read_def syscall_def sys_numbers SYSCALL_TABLE_SIZE_def printed_def desc_at_def)
  then show ?thesis using that v(2-4) by blast
qed

lemma cat_loop_prints:
  assumes "3 \<le> fd" and "fd < 16" and "i < file_count fs"
  shows "prog_ok buf k \<Longrightarrow> buffer_ok buffer 1024 (k_vm k) \<Longrightarrow> k_fs k = fs \<Longrightarrow> desc_file (fd_table k ! fd) = Some (FsFile i) \<Longrightarrow>
    rest = drop (desc_position (fd_table k ! fd)) (content fs i) \<Longrightarrow>
    \<exists>v p. cat_loop buf buffer (int fd) k = Some (printed v (cat_text rest) (desc_at fd p k)) \<and> user_ok v \<and>
      (\<forall>c n. buffer_ok c n v = buffer_ok c n (k_vm k))"
proof (induction "length rest" arbitrary: rest k rule: less_induct)
  case less
  let ?p = "desc_position (fd_table k ! fd)"
  define bs where "bs = take 1023 rest"
  have ok: "fd_inv k" "user_ok (k_vm k)" "ft_ctx k" "buffer_ok buf 512 (k_vm k)" using less.prems(1) by (simp_all add: prog_ok_def)
  have len: "fd < length (fd_table k)" using ok(1) assms(2) by (simp add: fd_inv_def MAX_FDS_def)
  have used: "desc_used (fd_table k ! fd)" using ok(1) less.prems(4) len nth_mem [OF len] by (auto simp: fd_inv_def desc_ok_def)
  have b1023: "buffer_ok buffer 1023 (k_vm k)" by (rule buffer_ok_mono [OF less.prems(2)]) simp
  obtain v where v: "libc_read (int fd) buffer 1023 k = Some (int (length bs), printed v [] (desc_at fd (?p + length bs) k))"
    "user_ok v" "user_loads buffer (length bs) v = Some bs" "\<And>c n. buffer_ok c n v = buffer_ok c n (k_vm k)"
    by (rule libc_read_file [OF ok(1) assms(1,2) less.prems(4) ok(2) b1023, of bs]) (auto simp: bs_def less.prems(3,5))
  let ?k1 = "printed v [] (desc_at fd (?p + length bs) k)"
  show ?case
  proof (cases "rest = []")
    case True
    then have "length bs = 0" by (simp add: bs_def)
    then have "cat_loop buf buffer (int fd) k = Some ?k1" using v(1) by (simp add: cat_loop.simps)
    then show ?thesis using v(2,4) True by (auto simp: cat_text.simps)
  next
    case False
    then have pos: "0 < length bs" "length bs \<le> 1023" by (simp_all add: bs_def)
    have l1: "user_loads buffer (length bs) (k_vm ?k1) = Some bs" "user_ok (k_vm ?k1)" "buffer_ok buffer 1024 (k_vm ?k1)"
      using v(2-4) less.prems(2) by simp_all
    obtain w where w: "put_user (buffer + word_of_nat (length bs)) [0] ?k1 = Some (?k1\<lparr>k_vm := w\<rparr>)" "user_ok w"
      "user_loads buffer (Suc (length bs)) w = Some (bs @ [0])" "\<And>c n. buffer_ok c n w = buffer_ok c n (k_vm ?k1)"
      by (rule put_behind [OF l1(2,3,1)]) (use pos(2) in auto)
    let ?k2 = "?k1\<lparr>k_vm := w\<rparr>"
    have k2: "?k2 = printed w [] (desc_at fd (?p + length bs) k)" by (simp add: printed_def desc_at_def)
    have s: "user_string buffer ?k2 = Some (cstr (bs @ [0]) @ [0])"
      by (rule user_string_loads [where n = "Suc (length bs)"]) (use w(3) pos(2) in \<open>simp_all del: user_loads.simps\<close>)
    have inv2: "fd_inv (desc_at fd (?p + length bs) k)" by (rule fd_inv_desc_at [OF ok(1) assms(1,2) used])
    have p2: "prog_ok buf ?k2" unfolding k2 using inv2 ok w(2,4) v(4) by (simp add: prog_ok_def)
    have ts: "terminated (cstr (bs @ [0]) @ [0])" by simp
    let ?out = "take 511 (cstr (bs @ [0]))"
    obtain x n where x: "printf buf (lit ''%s'') [Str_arg (Some (cstr (bs @ [0]) @ [0]))] ?k2 = Some (n, printed x ?out ?k2)"
      "user_ok x" "\<And>c n. buffer_ok c n x = buffer_ok c n (k_vm ?k2)"
      by (rule printf_string [OF p2 ts]) (auto simp: cstr_append_zero)
    let ?k3 = "printed x ?out ?k2"
    have k3: "?k3 = desc_at fd (?p + length bs) (printed x ?out k)" by (simp add: printed_def desc_at_def)
    have rest: "length (drop 1023 rest) < length rest" using False by simp
    have desc3: "fd_table ?k3 ! fd = (fd_table k ! fd)\<lparr>desc_position := ?p + length bs\<rparr>"
      unfolding k3 using len by (simp add: desc_at_desc)
    have d3: "drop 1023 rest = drop (desc_position (fd_table ?k3 ! fd)) (content fs i)"
    proof -
      have "drop 1023 rest = drop (length bs) rest" by (simp add: bs_def min_def)
      then show ?thesis unfolding desc3 by (simp add: less.prems(5) add.commute)
    qed
    have p3: "prog_ok buf ?k3" unfolding k3 using inv2 ok x(2,3) w(4) v(4)
      by (simp add: prog_ok_def desc_at_def printed_def fd_inv_def)
    have b3: "buffer_ok buffer 1024 (k_vm ?k3)" using x(3) w(4) l1(3) by simp
    have f3: "desc_file (fd_table ?k3 ! fd) = Some (FsFile i)" "k_fs ?k3 = fs" unfolding desc3 using less.prems(3,4) by simp_all
    obtain y p where y: "cat_loop buf buffer (int fd) ?k3 = Some (printed y (cat_text (drop 1023 rest)) (desc_at fd p ?k3))"
      "user_ok y" "\<forall>c n. buffer_ok c n y = buffer_ok c n (k_vm ?k3)"
      using less.hyps [OF rest p3 b3 f3(2,1) d3] by blast
    have "cat_loop buf buffer (int fd) k = cat_loop buf buffer (int fd) ?k3"
      using v(1) pos(1) w(1) s x(1) by (simp add: cat_loop.simps [of buf buffer "int fd" k])
    also have "\<dots> = Some (printed y (cat_text rest) (desc_at fd p k))"
      using y(1) len False unfolding k3 by (simp add: cat_text.simps [of rest] bs_def)
    finally show ?thesis using y(2,3) x(3) w(4) v(4) by (intro exI [of _ y] exI [of _ p]) simp
  qed
qed

lemma cat_file:
  assumes ok: "prog_ok buf k" and buffer: "buffer_ok buffer 1024 (k_vm k)"
    and arg: "2 \<le> argc" "argument argv 1 k = Some p" "unat p + 255 \<le> unat KERNEL_VMA_BASE"
      "p \<noteq> 0" "user_loads p 255 (k_vm k) = Some name" "terminated name" "cstr name \<noteq> []"
    and found: "lookup_file (k_fs k) (cstr name) = Some i" and free: "free_slot k = Some n"
  shows "\<exists>v. cat_main buf buffer argc argv k = Some (0, printed v (cat_text (content (k_fs k) i)) k)"
proof -
  have inv: "fd_inv k" using ok by (simp add: prog_ok_def)
  have n: "3 \<le> n" "n < 16" "\<not> desc_used (fd_table k ! n)" using free_slot_less [OF free] by (simp_all add: MAX_FDS_def)
  have len: "length (fd_table k) = 16" using inv by (simp add: fd_inv_def MAX_FDS_def)
  let ?d = "\<lparr>desc_file = Some (FsFile i), desc_position = 0, desc_used = True\<rparr>"
  let ?k1 = "k\<lparr>fd_table := (fd_table k)[n := ?d]\<rparr>"
  have "sys_open p k = Some (int n, ?k1)"
    using sys_open_eq [OF inv] arg found free by (simp add: validate_range open_result_def)
  moreover have "int_result (int n, ?k1) = (int n, ?k1)" using n(2) by (intro int_result_small) simp_all
  ultimately have op: "libc_open p 0 k = Some (int n, ?k1)"
    by (simp add: libc_open_def syscall_def sys_numbers SYSCALL_TABLE_SIZE_def)
  have i: "i < file_count (k_fs k)" by (rule lookup_file_less [OF found])
  then have "fd_inv ?k1" by (intro fd_inv_update [OF inv n(1)]) (use n(2) in \<open>simp_all add: MAX_FDS_def desc_ok_def\<close>)
  then have p1: "prog_ok buf ?k1" "buffer_ok buffer 1024 (k_vm ?k1)" using ok buffer by (simp_all add: prog_ok_def)
  have d1: "desc_file (fd_table ?k1 ! n) = Some (FsFile i)" "content (k_fs k) i = drop (desc_position (fd_table ?k1 ! n)) (content (k_fs k) i)"
    using n(2) len by simp_all
  obtain v q where l: "cat_loop buf buffer (int n) ?k1 = Some (printed v (cat_text (content (k_fs k) i)) (desc_at n q ?k1))"
    using cat_loop_prints [OF n(1,2) i p1 _ d1] by auto
  let ?k2 = "printed v (cat_text (content (k_fs k) i)) (desc_at n q ?k1)"
  have w: "unat (word_of_int (int n) :: u64) = n" "3 \<le> (word_of_int (int n) :: u64)" "(word_of_int (int n) :: u64) < 16"
    using n by (simp_all add: unat_of_nat word_le_nat_alt word_less_nat_alt)
  have "fd_table k ! n = free_desc" using unused_is_free [OF inv _ n(3)] n(2) by (simp add: MAX_FDS_def)
  then have "(fd_table k)[n := free_desc] = fd_table k" by (metis list_update_id)
  then have "sys_close (word_of_int (int n)) ?k2 = Some (0, printed v (cat_text (content (k_fs k) i)) k)"
    using w n len by (simp add: sys_close_def desc_at_def printed_def)
  then have "libc_close (int n) ?k2 = Some (0, printed v (cat_text (content (k_fs k) i)) k)"
    by (simp add: libc_close_def syscall_def sys_numbers SYSCALL_TABLE_SIZE_def int_result_small)
  then show ?thesis using arg(1,2) op l by (auto simp: cat_main_def)
qed

lemma cat_text_short: "length bs \<le> 511 \<Longrightarrow> 0 \<notin> set bs \<Longrightarrow> cat_text bs = bs"
proof (cases "bs = []")
  case False
  assume "length bs \<le> 511" "0 \<notin> set bs"
  then have "cat_text bs = take 511 (cstr (bs @ [0]))" using False by (simp add: cat_text.simps [of bs] cat_text.simps [of "[]"])
  then show ?thesis using \<open>length bs \<le> 511\<close> \<open>0 \<notin> set bs\<close> by (simp add: cstr_append_zero)
qed (simp add: cat_text.simps)

text \<open>
  C11 \<open>cat\<close> of a file, from its argument to the bytes on the terminal: it opens the file, reads it in
  pieces of 1023 bytes, prints each with \<open>printf\<close>, closes the descriptor and returns 0, leaving the
  kernel as it was but for its own memory and the terminal. What arrives is not the file: the array
  of \<open>printf\<close> cuts each piece to 511 bytes and to the bytes before a zero; only a content of at
  most 511 bytes without zeros is printed whole.
\<close>

theorem cat_prints:
  assumes "prog_ok buf k" and "buffer_ok buffer 1024 (k_vm k)"
    and "2 \<le> argc" and "argument argv 1 k = Some p" and "unat p + 255 \<le> unat KERNEL_VMA_BASE"
    and "p \<noteq> 0" and "user_loads p 255 (k_vm k) = Some name" and "terminated name" and "cstr name \<noteq> []"
    and "lookup_file (k_fs k) (cstr name) = Some i" and "free_slot k = Some n" and "bs = content (k_fs k) i"
  shows "\<exists>v. cat_main buf buffer argc argv k = Some (0, printed v (cat_text bs) k) \<and>
    (if length bs \<le> 511 \<and> 0 \<notin> set bs then cat_text bs = bs
     else cat_text bs = take 511 (cstr (take 1023 bs @ [0])) @ cat_text (drop 1023 bs))"
proof -
  have "if length bs \<le> 511 \<and> 0 \<notin> set bs then cat_text bs = bs
     else cat_text bs = take 511 (cstr (take 1023 bs @ [0])) @ cat_text (drop 1023 bs)"
  proof (cases "length bs \<le> 511 \<and> 0 \<notin> set bs")
    case True
    then show ?thesis using cat_text_short by simp
  next
    case False
    then have "bs \<noteq> []" by auto
    then show ?thesis using False cat_text.simps [of bs] by (simp only: if_False simp_thms)
  qed
  then show ?thesis using cat_file [OF assms(1-11)] assms(12) by blast
qed

section \<open>ls\<close>

lemma cstr_append_terminated: "terminated d \<Longrightarrow> cstr (d @ e) = cstr d"
  by (metis append.assoc append_Cons cstr_append_zero cstr_split zero_notin_cstr)

lemma dirent_eq:
  assumes "terminated name" and "length (cstr name) \<le> 31"
  obtains d where "Syscall.dirent name sz = Some d" and "length d = 264" and "terminated d" and "cstr d = cstr name"
proof -
  have ne: "replicate 256 (0 :: u8) \<noteq> []" by simp
  obtain d where d: "copy_name (replicate 256 0) name = Some d" "cstr d = take 255 (cstr name)" "length d = 256" "terminated d"
    using copy_name_eq [OF assms(1) ne] by auto
  have "Syscall.dirent name sz = Some (d @ le64 (word_of_nat sz))"
    using d(1) by (auto simp: dirent_def copy_name_def split: Option.bind_splits)
  moreover have "cstr (d @ le64 (word_of_nat sz)) = cstr name"
    using d(2,4) assms(2) by (simp add: cstr_append_terminated)
  ultimately show ?thesis using that d(3,4) by (simp add: le64_def)
qed

lemma libc_readdir_end:
  assumes "fd_inv k" and "buffer_ok a 264 (k_vm k)" and "file_count (k_fs k) \<le> unat index"
  shows "libc_readdir index a k = Some (0, k)"
proof -
  have "validate_user_memory a 264" using assms(2) by (simp add: validate_range buffer_ok_def)
  moreover have "fs_list (k_fs k) = Some (file_count (k_fs k), Some (fs_files (k_fs k)), k_fs k)"
    using assms(1) by (simp add: fs_list_def fd_inv_def)
  moreover have "unat (ucast index :: u64) = unat index" by (simp add: unsigned_ucast_eq take_bit_nat_eq_self_iff less_trans [OF unsigned_less])
  ultimately have "sys_readdir (ucast index) a 264 k = Some (0, k)" using assms(3) by (simp add: sys_readdir_def)
  then show ?thesis by (simp add: libc_readdir_def syscall_def sys_numbers SYSCALL_TABLE_SIZE_def int_result_small)
qed

lemma libc_readdir_entry:
  assumes "fd_inv k" and "user_ok (k_vm k)" and "buffer_ok a 264 (k_vm k)" and "unat index < file_count (k_fs k)"
  obtains v where "libc_readdir index a k = Some (1, printed v [] k)" and "user_ok v"
    and "user_string a (printed v [] k) = Some (file_name (k_fs k) (unat index) @ [0])"
    and "\<And>c n. buffer_ok c n v = buffer_ok c n (k_vm k)"
proof -
  let ?fs = "k_fs k" and ?i = "unat index"
  have tab: "table_ok ?fs" using assms(1) by (simp add: fd_inv_def)
  have v264: "validate_user_memory a 264" using assms(3) by (simp add: validate_range buffer_ok_def)
  have l: "fs_list ?fs = Some (file_count ?fs, Some (fs_files ?fs), ?fs)"
    using assms(1) by (simp add: fs_list_def fd_inv_def)
  have u: "unat (ucast index :: u64) = ?i" by (simp add: unsigned_ucast_eq take_bit_nat_eq_self_iff less_trans [OF unsigned_less])
  have f: "rd (fs_files ?fs) ?i = Some (fs_files ?fs ! ?i)" using tab assms(4) by (simp add: table_ok_def)
  obtain d where d: "Syscall.dirent (ff_name (fs_files ?fs ! ?i)) (ff_size (fs_files ?fs ! ?i)) = Some d" "length d = 264"
    "terminated d" "cstr d = file_name ?fs ?i"
    using dirent_eq [OF name_bound(1) [OF tab assms(4)]] name_bound(2) [OF tab assms(4)] unfolding file_name_def by metis
  have "buffer_ok a (length d) (k_vm k)" "d \<noteq> []" using assms(3) d(2) by auto
  then obtain v where v: "copy_to_user a d (k_vm k) = Some (True, v)" "user_ok v" "user_loads a (length d) v = Some d"
    "\<And>c n. buffer_ok c n v = buffer_ok c n (k_vm k)"
    by (rule copy_to_user_ok [OF assms(2)]) blast
  have "sys_readdir (ucast index) a 264 k = Some (1, printed v [] k)"
    using v264 l u f d(1) v(1) assms(4) by (simp add: sys_readdir_def printed_def)
  then have "libc_readdir index a k = Some (1, printed v [] k)"
    by (simp add: libc_readdir_def syscall_def sys_numbers SYSCALL_TABLE_SIZE_def int_result_small)
  moreover have "user_string a (printed v [] k) = Some (file_name ?fs ?i @ [0])"
    using user_string_loads [of a "length d" "printed v [] k" d] v(3) d by simp
  ultimately show ?thesis using that v(2,4) by blast
qed

definition ls_text :: "fs_state \<Rightarrow> nat \<Rightarrow> bytes" where
  "ls_text fs i = concat (map (\<lambda>j. file_name fs j @ [32, 32]) [i..<file_count fs])"

lemma ls_text_step: "i < file_count fs \<Longrightarrow> ls_text fs i = file_name fs i @ [32, 32] @ ls_text fs (Suc i)"
  by (simp add: ls_text_def upt_conv_Cons)

lemma ls_loop_prints:
  assumes small: "file_count fs \<le> 32"
  shows "prog_ok buf k \<Longrightarrow> buffer_ok dirp 264 (k_vm k) \<Longrightarrow> k_fs k = fs \<Longrightarrow> unat index \<le> file_count fs \<Longrightarrow>
    \<exists>v. ls_loop buf dirp index k = Some (0, printed v (ls_text fs (unat index)) k) \<and> user_ok v \<and>
      (\<forall>c n. buffer_ok c n v = buffer_ok c n (k_vm k))"
proof (induction "file_count fs - unat index" arbitrary: index k rule: less_induct)
  case less
  have ok: "fd_inv k" "user_ok (k_vm k)" using less.prems(1) by (simp_all add: prog_ok_def)
  show ?case
  proof (cases "unat index < file_count fs")
    case False
    then have e: "unat index = file_count fs" using less.prems(4) by simp
    have "libc_readdir index dirp k = Some (0, k)"
      using e less.prems(3) by (intro libc_readdir_end [OF ok(1) less.prems(2)]) simp
    then have "ls_loop buf dirp index k = Some (0, printed (k_vm k) [] k)" by (simp add: ls_loop.simps printed_def)
    then show ?thesis using e ok(2) by (auto simp: ls_text_def)
  next
    case True
    let ?name = "file_name fs (unat index)"
    have "unat index < file_count (k_fs k)" using True less.prems(3) by simp
    then obtain v where v: "libc_readdir index dirp k = Some (1, printed v [] k)" "user_ok v"
      "user_string dirp (printed v [] k) = Some (?name @ [0])" "\<And>c n. buffer_ok c n v = buffer_ok c n (k_vm k)"
      using less.prems(3) by (rule_tac libc_readdir_entry [OF ok less.prems(2)]) auto
    let ?k1 = "printed v [] k"
    have p1: "prog_ok buf ?k1" using less.prems(1) v(2,4) by (simp add: prog_ok_def)
    have nz: "0 \<notin> set ?name" by (simp add: file_name_def)
    have len: "length ?name \<le> 31" using name_bound(2) True ok(1) less.prems(3) by (simp add: fd_inv_def)
    let ?ps = "[Chars (?name @ [0]), Text 32, Text 32]"
    have ps: "list_all piece_ok ?ps" "lit ''%s  '' = format_of ?ps @ [0]" "[Str_arg (Some (?name @ [0]))] = args_of ?ps"
      "text_of ?ps = ?name @ [32, 32]"
      using nz by (simp_all add: format_of_def args_of_def text_of_def lit_def)
    obtain w where w: "printf buf (lit ''%s  '') [Str_arg (Some (?name @ [0]))] ?k1 =
        Some (int (min 511 (length (text_of ?ps))), printed w (take 511 (text_of ?ps)) ?k1)"
      "user_ok w" "\<And>c n. buffer_ok c n w = buffer_ok c n (k_vm ?k1)"
      by (rule printf_prints [OF p1 ps(1-3)]) blast
    let ?k2 = "printed w (?name @ [32, 32]) k"
    have k2: "printed w (take 511 (text_of ?ps)) ?k1 = ?k2" unfolding ps(4) using len by simp
    have nx: "unat (index + 1) = Suc (unat index)"
      using True small by (simp add: unat_word_ariths)
    have "prog_ok buf ?k2" "buffer_ok dirp 264 (k_vm ?k2)" "k_fs ?k2 = fs" "unat (index + 1) \<le> file_count fs"
      "file_count fs - unat (index + 1) < file_count fs - unat index"
      using less.prems v(4) w(2,3) True nx by (simp_all add: prog_ok_def)
    from less.hyps [OF this(5,1-4)] obtain x where x:
      "ls_loop buf dirp (index + 1) ?k2 = Some (0, printed x (ls_text fs (unat (index + 1))) ?k2)" "user_ok x"
      "\<forall>c n. buffer_ok c n x = buffer_ok c n (k_vm ?k2)" by blast
    have "ls_loop buf dirp index k = ls_loop buf dirp (index + 1) ?k2"
      using v(1,3) w(1) unfolding k2 by (simp add: ls_loop.simps [of buf dirp index])
    then show ?thesis using x v(4) w(3) ls_text_step [OF True] nx by auto
  qed
qed

lemma ls_main_prints:
  assumes "prog_ok buf k" and "buffer_ok dirp 264 (k_vm k)"
  shows "\<exists>v. ls_main buf dirp k = Some (0, printed v (ls_text (k_fs k) 0 @ [10]) k)"
proof -
  have "file_count (k_fs k) \<le> 32" using assms(1) by (simp add: prog_ok_def fd_inv_def table_ok_def fs_consts)
  from ls_loop_prints [OF this assms refl, of 0] obtain v where v:
    "ls_loop buf dirp 0 k = Some (0, printed v (ls_text (k_fs k) 0) k)" "user_ok v"
    "\<forall>c n. buffer_ok c n v = buffer_ok c n (k_vm k)" by auto
  let ?k1 = "printed v (ls_text (k_fs k) 0) k"
  have p1: "prog_ok buf ?k1" using assms(1) v(2,3) by (simp add: prog_ok_def)
  have ps: "list_all piece_ok [Text 10]" "[10, 0] = format_of [Text 10] @ [0]" "[] = args_of [Text 10]"
    by (simp_all add: format_of_def args_of_def)
  obtain w where w: "printf buf [10, 0] [] ?k1 = Some (int (min 511 (length (text_of [Text 10]))), printed w (take 511 (text_of [Text 10])) ?k1)"
    by (rule printf_prints [OF p1 ps]) blast
  have "text_of [Text 10] = [10]" by (simp add: text_of_def)
  then show ?thesis using v(1) w by (auto simp: ls_main_def)
qed

text \<open>
  \<open>ls\<close> lists the files: for every well-formed kernel it asks for the entries one by one, prints
  each name and two blanks, ends with a newline and returns 0; the kernel keeps everything but the
  memory of the program and the terminal.
\<close>

theorem ls_prints:
  assumes "prog_ok buf k" and "buffer_ok dirp 264 (k_vm k)"
  shows "\<exists>v. ls_main buf dirp k =
    Some (0, printed v (concat (map (\<lambda>j. file_name (k_fs k) j @ [32, 32]) [0..<file_count (k_fs k)]) @ [10]) k)"
  using ls_main_prints [OF assms] by (simp add: ls_text_def)

section \<open>Programs as they are started\<close>

lemma libc_exit_prints:
  "ft_ctx k \<Longrightarrow> libc_exit status k = Some (terminal_write (exit_text (word_of_int status) @ exit_text 0xDEAD) k)"
  by (simp add: libc_exit_def syscall_def sys_numbers SYSCALL_TABLE_SIZE_def sys_exit_eq terminal_write_def)

text \<open>
  C36 Programs get no arguments: the start stub passes \<open>argc\<close> 0 and a null \<open>argv\<close>, so \<open>cat\<close>, which
  prints \<open>argv[0]\<close> in its usage message, faults when the first page is not mapped, and \<open>echo\<close> can
  only print a newline. A program that ends prints two exit messages, the second with the code
  57005, and then faults at \<open>hlt\<close>. The address 0x1234 that \<open>test_write\<close> passes is no special case for the
  kernel, as its comment says: the program prints the 24 bytes that lie there in its own memory
  (its own code, when it is linked at 0x1000), and faults in the kernel if they are not all mapped.
\<close>

theorem started_programs:
  assumes "prog_ok buf k" and "user_load 0 (k_vm k) = None"
  shows "run_program (cat_main buf buffer) k = None \<and>
    (\<exists>v. run_program (echo_main buf) k = Some (printed v ([10] @ exit_text 0 @ exit_text 57005) k)) \<and>
    run_program (\<lambda>_ _. test_write_main) k = (case user_loads 0x1234 24 (k_vm k) of None \<Rightarrow> None
      | Some bs \<Rightarrow> Some (terminal_write (bs @ exit_text 0 @ exit_text 57005) k))"
proof (intro conjI)
  have "argument 0 0 k = None" using assms(2) by (simp add: argument_def user_load64_def user_loads_fault)
  then show "run_program (cat_main buf buffer) k = None" by (simp add: run_program_def cat_main_def)
next
  have ps: "list_all piece_ok [Text 10]" "[10, 0] = format_of [Text 10] @ [0]" "[] = args_of [Text 10]"
    by (simp_all add: format_of_def args_of_def)
  obtain v where v: "printf buf [10, 0] [] k = Some (int (min 511 (length (text_of [Text 10]))), printed v (take 511 (text_of [Text 10])) k)"
    by (rule printf_prints [OF assms(1) ps]) blast
  have t: "text_of [Text 10] = [10]" by (simp add: text_of_def)
  have "echo_main buf 0 0 k = Some (0, printed v [10] k)" using v t by (simp add: echo_main_def)
  moreover have "ft_ctx k" using assms(1) by (simp add: prog_ok_def)
  ultimately have "run_program (echo_main buf) k = Some (printed v ([10] @ exit_text 0 @ exit_text 57005) k)"
    by (simp add: run_program_def libc_exit_prints terminal_write_def printed_def)
  then show "\<exists>v. run_program (echo_main buf) k = Some (printed v ([10] @ exit_text 0 @ exit_text 57005) k)" ..
next
  let ?bs = "user_loads 0x1234 24 (k_vm k)"
  have ctx: "ft_ctx (terminal_write bs k)" for bs using assms(1) by (simp add: prog_ok_def terminal_write_def)
  have twice: "terminal_write bs (terminal_write as k) = terminal_write (as @ bs) k" for as bs by (simp add: terminal_write_def)
  have "copy_from_user 0x1234 24 (k_vm k) = map_option Some ?bs"
    by (cases ?bs) (simp_all add: copy_from_user_def validate_range KERNEL_VMA_BASE_nat del: user_loads.simps)
  then have w: "test_write_main k = map_option (\<lambda>bs. (0, terminal_write bs k)) ?bs"
    by (cases ?bs) (simp_all add: test_write_main_def libc_write_def int_result_def syscall_def sys_numbers SYSCALL_TABLE_SIZE_def
        sys_write_def del: user_loads.simps)
  show "run_program (\<lambda>_ _. test_write_main) k = (case ?bs of None \<Rightarrow> None
      | Some bs \<Rightarrow> Some (terminal_write (bs @ exit_text 0 @ exit_text 57005) k))"
    unfolding run_program_def w
    by (cases ?bs) (simp_all add: libc_exit_prints [OF ctx] twice del: user_loads.simps)
qed

section \<open>An example process\<close>

lemma user_loads_drop: "user_loads a n s = Some bs \<Longrightarrow> m \<le> n \<Longrightarrow> user_loads (a + word_of_nat m) (n - m) s = Some (drop m bs)"
proof (induction m arbitrary: a n bs)
  case (Suc m)
  then obtain n' where n: "n = Suc n'" by (cases n) auto
  obtain b bs' where b: "user_loads (a + 1) n' s = Some bs'" "bs = b # bs'"
    using Suc.prems(1) n by (auto split: Option.bind_splits)
  have "user_loads (a + 1 + word_of_nat m) (n' - m) s = Some (drop m bs')"
    using Suc.prems(2) n by (intro Suc.IH b(1)) simp
  then show ?case using b(2) n by (simp add: add.assoc)
qed simp

text \<open>A page that holds the name \<open>a\<close> and, at offset 0x808, the pointer to it: \<open>argv[1]\<close> for \<open>argv\<close> at 0x401800.\<close>

lemma process_example:
  obtains k where "prog_ok 0x401100 k" and "buffer_ok 0x401300 1024 (k_vm k)" and "k_fs k = fs_example"
    and "terminal k = []" and "free_slot k = Some 3" and "user_loads 0x401000 255 (k_vm k) = Some (97 # replicate 254 0)"
    and "argument 0x401800 1 k = Some 0x401000" and "user_load 0 (k_vm k) = None" and "user_load 0x1234 (k_vm k) = None"
proof -
  obtain s where s: "user_ok s" "\<And>i. i < 4096 \<Longrightarrow> user_writable (0x401000 + word_of_nat i) s"
    "\<And>va. user_address va \<Longrightarrow> path va \<noteq> path 0x401000 \<Longrightarrow> user_load va s = None"
    by (rule vm_user_example) blast
  have none: "user_load 0 s = None" "user_load 0x1234 s = None"
    by (rule s(3); simp add: user_address_def pml4_index_def path_def pdpt_index_def pd_index_def pt_index_def)+
  have page: "buffer_ok 0x401000 4096 s" using s(2) by (simp add: buffer_ok_def KERNEL_VMA_BASE_nat)
  have sub: "buffer_ok (0x401000 + word_of_nat m) n s" if "m + n \<le> 4096" for m n
    using s(2) [of "m + i" for i] that
    by (auto simp: buffer_ok_def KERNEL_VMA_BASE_nat unat_word_ariths unat_of_nat add.assoc word_unat_eq_iff)
  let ?ptr = "[0, 16, 64, 0, 0, 0, 0, 0] :: bytes"
  let ?bs = "97 # replicate 0x807 0 @ ?ptr"
  let ?k0 = "kernel_on s []"
  have len: "length ?bs = 0x810" by simp
  have "buffer_ok 0x401000 (length ?bs) (k_vm ?k0)" unfolding len using sub [of 0 "0x810"] by simp
  moreover have "user_ok (k_vm ?k0)" using s(1) by simp
  ultimately obtain v where v: "user_ok v" "user_loads 0x401000 (length ?bs) v = Some ?bs"
    "\<And>c n. buffer_ok c n v = buffer_ok c n (k_vm ?k0)"
    "\<And>c. user_load c v = (if unat (c - 0x401000) < length ?bs then Some (?bs ! unat (c - 0x401000)) else user_load c (k_vm ?k0))"
    by (rule_tac put_user_effect [of ?k0 "0x401000" ?bs]) blast+
  let ?k = "kernel_on v []"
  have "user_loads 0x401000 255 v = Some (take 255 ?bs)" by (rule user_loads_prefix [OF v(2)]) simp
  then have name: "user_loads 0x401000 255 (k_vm ?k) = Some (97 # replicate 254 0)" by (simp add: take_Cons')
  have "user_loads (0x401000 + word_of_nat 0x808) (length ?bs - 0x808) v = Some (drop 0x808 ?bs)"
    by (rule user_loads_drop [OF v(2)]) simp
  then have ptr: "user_loads 0x401808 8 (k_vm ?k) = Some ?ptr" by (simp add: drop_Cons')
  have arg: "argument 0x401800 1 ?k = Some 0x401000"
    using ptr by (simp add: argument_def user_load64_def of_le64_def del: user_loads.simps)
  have "prog_ok 0x401100 ?k" "buffer_ok 0x401300 1024 (k_vm ?k)"
    using kernel_on_inv [of v "[]"] v(1,3) sub [of "0x100" 512] sub [of "0x300" 1024] by (simp_all add: prog_ok_def)
  moreover have "user_load 0 (k_vm ?k) = None" "user_load 0x1234 (k_vm ?k) = None" using v(4) none by simp_all
  moreover have "free_slot ?k = Some 3" by (simp add: free_slot_def MAX_FDS_def free_desc_def upt_rec)
  ultimately show ?thesis using that [of ?k] name arg by simp
qed

theorem cat_prints_witness:
  "\<exists>k k'. terminal k = [] \<and> cat_main 0x401100 0x401300 2 0x401800 k = Some (0, k') \<and> terminal k' = str ''ABC''"
proof -
  obtain k where k: "prog_ok 0x401100 k" "buffer_ok 0x401300 1024 (k_vm k)" "k_fs k = fs_example"
    "terminal k = []" "free_slot k = Some 3" "user_loads 0x401000 255 (k_vm k) = Some (97 # replicate 254 0)"
    "argument 0x401800 1 k = Some 0x401000" by (rule process_example) blast
  have name: "terminated (97 # replicate 254 (0 :: u8))" "cstr (97 # replicate 254 0) = [97]" "[97 :: u8] \<noteq> []"
    by (simp_all add: cstr_Cons)
  have "\<exists>v. cat_main 0x401100 0x401300 2 0x401800 k = Some (0, printed v (cat_text [65, 66, 67]) k) \<and>
      (if length [65, 66, 67 :: u8] \<le> 511 \<and> 0 \<notin> set [65, 66, 67 :: u8] then cat_text [65, 66, 67] = [65, 66, 67]
       else cat_text [65, 66, 67] = take 511 (cstr (take 1023 [65, 66, 67] @ [0])) @ cat_text (drop 1023 [65, 66, 67]))"
  proof (rule cat_prints [OF k(1,2) _ k(7) _ _ k(6) name(1) _ _ k(5)])
    show "lookup_file (k_fs k) (cstr (97 # replicate 254 0)) = Some 0" by (simp only: name(2) k(3) fs_example_lookup)
    show "[65, 66, 67] = content (k_fs k) 0" by (simp only: k(3) fs_example_content)
  qed (simp_all add: name(2) KERNEL_VMA_BASE_nat)
  then show ?thesis using k(4) by auto
qed

theorem ls_prints_witness:
  "\<exists>k k'. ls_main 0x401100 0x401300 k = Some (0, k') \<and> terminal k = [] \<and> terminal k' = str ''a  b  '' @ [10]"
proof -
  obtain k where k: "prog_ok 0x401100 k" "buffer_ok 0x401300 1024 (k_vm k)" "k_fs k = fs_example" "terminal k = []"
    by (rule process_example) blast
  have "buffer_ok 0x401300 264 (k_vm k)" by (rule buffer_ok_mono [OF k(2)]) simp
  moreover have "concat (map (\<lambda>j. file_name fs_example j @ [32, 32]) [0..<file_count fs_example]) = str ''a  b  ''"
    by (simp add: fs_example_files file_name_def example_file_def cstr_Cons fs_consts upt_rec)
  ultimately obtain v where "ls_main 0x401100 0x401300 k = Some (0, printed v (str ''a  b  '' @ [10]) k)"
    using ls_prints [OF k(1), of "0x401300"] k(3) by auto
  then show ?thesis using k(4) by (intro exI [of _ k] exI [of _ "printed v (str ''a  b  '' @ [10]) k"]) simp
qed

text \<open>A process whose only page is the one programs are linked at, filled with zeros.\<close>

lemma linked_process:
  obtains k where "prog_ok 0x1100 k" and "terminal k = []" and "user_load 0 (k_vm k) = None"
    and "user_loads 0x1234 24 (k_vm k) = Some (replicate 24 0)"
proof -
  obtain s where s: "user_ok s" "\<And>i. i < 4096 \<Longrightarrow> user_writable (0x1000 + word_of_nat i) s"
    "\<And>va. user_address va \<Longrightarrow> path va \<noteq> path 0x1000 \<Longrightarrow> user_load va s = None"
    "\<And>i. i < 4096 \<Longrightarrow> user_load (0x1000 + word_of_nat i) s = Some 0"
    by (rule vm_user_page [of "0x1000"]) (auto simp: page_aligned_def)
  let ?k = "kernel_on s []"
  have none: "user_load 0 s = None"
    by (rule s(3); simp add: user_address_def pml4_index_def path_def pdpt_index_def pd_index_def pt_index_def)
  have "user_load (0x1234 + word_of_nat j) s = Some 0" if "j < 24" for j
    using s(4) [of "0x234 + j"] that by (simp add: add.assoc [symmetric])
  then have ld: "user_loads 0x1234 24 s = Some (replicate 24 0)"
    using um.loads_eqI [of "replicate 24 0" "0x1234" s] by (simp add: user_loads_eq)
  have "user_writable (0x1100 + word_of_nat i) s" if "i < 512" for i
    using s(2) [of "0x100 + i"] that by (simp add: add.assoc [symmetric])
  then have "buffer_ok 0x1100 512 s" by (simp add: buffer_ok_def KERNEL_VMA_BASE_nat)
  then have "prog_ok 0x1100 ?k" using kernel_on_inv [of s "[]"] s(1) by (simp add: prog_ok_def)
  then show ?thesis using that [of ?k] none ld by simp
qed

theorem started_programs_witness:
  "(\<exists>k. run_program (cat_main 0x401100 0x401300) k = None \<and> run_program (\<lambda>_ _. test_write_main) k = None \<and>
     (\<exists>k'. run_program (echo_main 0x401100) k = Some k' \<and> terminal k' = [10] @ exit_text 0 @ exit_text 57005)) \<and>
   (\<exists>k k'. run_program (\<lambda>_ _. test_write_main) k = Some k' \<and> terminal k' = replicate 24 0 @ exit_text 0 @ exit_text 57005)"
proof
  obtain k where k: "prog_ok 0x401100 k" "terminal k = []" "user_load 0 (k_vm k) = None" "user_load 0x1234 (k_vm k) = None"
    by (rule process_example) blast
  have "user_loads 0x1234 24 (k_vm k) = None" using k(4) by (intro user_loads_fault) simp_all
  then show "\<exists>k. run_program (cat_main 0x401100 0x401300) k = None \<and> run_program (\<lambda>_ _. test_write_main) k = None \<and>
     (\<exists>k'. run_program (echo_main 0x401100) k = Some k' \<and> terminal k' = [10] @ exit_text 0 @ exit_text 57005)"
    using started_programs [OF k(1,3), of "0x401300"] k(2) by (auto simp del: user_loads.simps)
next
  obtain k where k: "prog_ok 0x1100 k" "terminal k = []" "user_load 0 (k_vm k) = None"
    "user_loads 0x1234 24 (k_vm k) = Some (replicate 24 0)"
    by (rule linked_process) blast
  then have "run_program (\<lambda>_ _. test_write_main) k = Some (terminal_write (replicate 24 0 @ exit_text 0 @ exit_text 57005) k)"
    using started_programs [OF k(1,3), of 0] by simp
  then show "\<exists>k k'. run_program (\<lambda>_ _. test_write_main) k = Some k' \<and> terminal k' = replicate 24 0 @ exit_text 0 @ exit_text 57005"
    using k(1,2) by (intro exI conjI) (assumption, simp add: terminal_write_def prog_ok_def)
qed

end
