(* ===== verification/SyscallFork.thy ===== *)
theory SyscallFork
  imports SyscallCorrect
begin

text \<open>
  \<open>fork\<close>: the child's address space is a copy of the parent's, page by page, and the parent's is
  untouched; where the copy cannot succeed.
\<close>

section \<open>One page\<close>


definition direct_map :: "vm \<Rightarrow> bool" where
  "direct_map s \<longleftrightarrow> hhdm_offset s \<ge> 0xffff800000000000 \<and> unat (hhdm_offset s) + PMM_MAX_PHYS_ADDR \<le> 2 ^ 64"

lemma direct_map_canonical: "direct_map s \<Longrightarrow> unat u < PMM_MAX_PHYS_ADDR \<Longrightarrow> canonical (u + hhdm_offset s)"
  by (auto simp: direct_map_def canonical_def word_le_nat_alt unat_word_ariths pmm_consts)

definition two_spaces :: "vm \<Rightarrow> u64 \<Rightarrow> u64 set \<Rightarrow> u64 \<Rightarrow> u64 set \<Rightarrow> bool" where
  "two_spaces s pr V cr U \<longleftrightarrow> as_inv s pr V \<and> pages_ok s pr V \<and> as_inv s cr U \<and> pages_ok s cr U \<and>
     V \<inter> U = {} \<and> frames s pr \<inter> U = {} \<and> direct_map s"

lemma two_spaces_step:
  assumes ts: "two_spaces s pr V cr U" and k: "keeps s U s' U'" and c: "as_inv s' cr U'" "pages_ok s' cr U'"
  shows "two_spaces s' pr V cr U'" and "full q \<Longrightarrow> space s' pr q = space s pr q"
    and "full q \<Longrightarrow> translate s' pr q = translate s pr q"
proof -
  have t: "as_inv s pr V" "pages_ok s pr V" "V \<inter> U = {}" "frames s pr \<inter> U = {}" "direct_map s"
    using ts by (simp_all add: two_spaces_def)
  note o = keeps_other [OF k t(1-4)]
  show "full q \<Longrightarrow> space s' pr q = space s pr q" by (rule o(5))
  show "full q \<Longrightarrow> translate s' pr q = translate s pr q" by (rule o(6))
  have "hhdm_offset s' = hhdm_offset s" using k by (simp add: keeps_def)
  then show "two_spaces s' pr V cr U'" using o t c by (simp add: two_spaces_def direct_map_def)
qed

lemma owned_below: "u \<in> owned pm \<Longrightarrow> unat u < PMM_MAX_PHYS_ADDR"
  by (auto simp: owned_def unat_frame_addr pmm_consts)

lemma aligned_offset: "page_aligned va \<Longrightarrow> va AND NOT PAGE_MASK = 0"
  by (rule bit_word_eqI) (auto simp: bit_and_iff bit_not_iff bit_PAGE_MASK page_aligned_iff_bits intro: leI)

lemma fork_flags_ok: "fork_flags va AND PHYS_MASK = 0" "present (fork_flags va)"
  by (simp_all add: fork_flags_def Let_def PTE_PRESENT_def PTE_USER_def PTE_WRITABLE_def PHYS_MASK_def present_def)

lemma fork_page_cases:
  assumes ts: "two_spaces s pr V cr U" and va: "user_address va" "page_aligned va"
    and plain: "\<And>p. translate s pr (path va) = Some p \<Longrightarrow> p AND PHYS_MASK = p \<and> p \<noteq> 0"
  obtains (failed) s' U' where "fork_page pr cr va s = Some (False, s')" and "two_spaces s' pr V cr U'"
      and "keeps s U s' U'"
  | (copied) s' U' where "fork_page pr cr va s = Some (True, s')" and "two_spaces s' pr V cr U'" and "keeps s U s' U'"
      and "\<And>q. full q \<Longrightarrow> space s' cr q =
        (if q = path va \<and> space s pr q \<noteq> None then space s pr q else space s cr q)"
      and "frames s' cr \<inter> owned (vm_pmm s) \<subseteq> frames s cr"
proof -
  have t: "as_inv s pr V" "pages_ok s pr V" "as_inv s cr U" "pages_ok s cr U" "V \<inter> U = {}"
    "frames s pr \<inter> U = {}" "direct_map s"
    using ts by (simp_all add: two_spaces_def)
  have c: "cached s" by (rule as_inv_cached [OF t(1)])
  note look = lookup_steps [OF c, of pr va]
  show ?thesis
  proof (cases "translate s pr (path va)")
    case None
    then have "fork_page pr cr va s = Some (True, s)" using look by (simp add: fork_page_def)
    then show ?thesis
      by (rule that(2) [OF _ ts keeps_refl [OF t(3)]]) (auto simp: space_def None)
  next
    case (Some p)
    have p: "p AND PHYS_MASK = p" "p \<noteq> 0" using plain [OF Some] by simp_all
    have pf: "p \<in> frames s pr" using framesI [OF full_path [OF va(1)] Some] p(1) by simp
    have "pmm_inv (vm_pmm s)" using t(1) by (simp add: as_inv_def)
    then obtain f pm where a: "pmm_alloc_frame (vm_pmm s) = Some (f, pm)" using pmm.alloc_returns by blast
    have phys: "vmm_get_physical_address pr va s = Some (p, s)"
      using look Some aligned_offset [OF va(2)] by simp
    show ?thesis
    proof (cases "f = 0")
      case True
      have "pm = vm_pmm s" using pmm.alloc_null [of "vm_pmm s" pm] a True t(1) by (simp add: as_inv_def)
      then have "fork_page pr cr va s = Some (False, s)" using phys a True p(2) by (simp add: fork_page_def Let_def)
      then show ?thesis using that(1) ts keeps_refl [OF t(3)] by blast
    next
      case False
      note fr = alloc_keeps [OF t(3) a]
      have f: "f \<in> owned pm" "f \<notin> owned (vm_pmm s)" "page_aligned f" using fr False by simp_all
      have fU: "f \<notin> U" "f \<notin> frames s cr" using f(2) t(3) pages_ok_frames [OF t(4)] by (auto simp: as_inv_def)
      have can: "canonical (f + hhdm_offset s)" "canonical (p + hhdm_offset s)"
        using direct_map_canonical [OF t(7)] owned_below [OF f(1)] owned_below pages_ok_frames [OF t(2)] pf by blast+
      let ?m = "copy (vm_mem s) f p 4096" and ?s1 = "s\<lparr>vm_pmm := pm\<rparr>"
      let ?s2 = "s\<lparr>vm_pmm := pm, vm_mem := ?m\<rparr>"
      have mc: "hhdm_memcpy (f + hhdm_offset s) (p + hhdm_offset s) PAGE_SIZE ?s1 = Some ?s2"
        using can by (simp add: hhdm_memcpy_def PAGE_SIZE_def)
      have step: "fork_page pr cr va s = do {
          (ok, s6) \<leftarrow> vmm_map_page cr va f (fork_flags va) ?s2;
          if ok then Some (True, s6)
          else do { pm' \<leftarrow> pmm_free_frame f (vm_pmm s6); Some (False, s6\<lparr>vm_pmm := pm'\<rparr>) } }"
        using phys a False p(2) mc c by (simp add: fork_page_def Let_def phys_to_virt_cached)
      note cp = copy_page [OF f(3), of "vm_mem s" p]
      have pg1: "pages_ok ?s1 cr U" by (rule fr(6) [OF t(4)])
      have only: "only_frame f (vm_mem ?s1) ?m" using cp(1) by simp
      note fill = frame_filled [OF fr(1) pg1 f(3) fU(1) only, of ?s2]
      have i2: "as_inv ?s2 cr U" "pages_ok ?s2 cr U" using fill by simp_all
      have k2: "keeps s U ?s2 U" by (rule fresh_keeps [OF t(3) a False cp(1)])
      have tr2: "translate ?s2 cr q = translate s cr q" if "full q" for q
        using fill(3) [OF _ that] by (simp add: translate_def)
      then have f2: "f \<notin> frames ?s2 cr" using fU(2) by (auto simp: frames_def)
      have sp2: "space ?s2 cr q = space s cr q" if "full q" for q
        by (rule keeps_space [OF k2 pages_ok_frames [OF t(4)] that tr2 [OF that]])
      have f2o: "f \<in> owned (vm_pmm ?s2)" using f(1) by simp
      have page: "((f OR fork_flags va) AND PAGE_MASK) AND PHYS_MASK = f"
        using fork_flags_ok(1) [of va] owned_phys [OF f(1)] by (simp add: bit.conj_disj_distrib2)
      show ?thesis
      proof (cases rule: map_private [OF i2 va(1) f2o fU(1) f2 fork_flags_ok [of va], case_names oom mapped])
        case (oom s6 U')
        have k6: "keeps s U s6 U'" by (rule keeps_trans [OF k2 oom(4)])
        have "f \<notin> U'" using oom(4) f(1) fU(1) by (auto simp: keeps_def)
        moreover have "f \<notin> frames s6 cr" using oom(6) f2 by (auto simp: frames_def)
        ultimately obtain pm' where fr: "pmm_free_frame f (vm_pmm s6) = Some pm'"
          "as_inv (s6\<lparr>vm_pmm := pm'\<rparr>) cr U'" "pages_ok (s6\<lparr>vm_pmm := pm'\<rparr>) cr U'" "keeps s U (s6\<lparr>vm_pmm := pm'\<rparr>) U'"
          using free_keeps [OF oom(2,3) _ _ k6 f(2)] by metis
        have "fork_page pr cr va s = Some (False, s6\<lparr>vm_pmm := pm'\<rparr>)" using step oom(1) fr(1) by simp
        from that(1) [OF this two_spaces_step(1) [OF ts fr(4,2,3)] fr(4)] show ?thesis .
      next
        case (mapped s6 U')
        have k6: "keeps s U s6 U'" by (rule keeps_trans [OF k2 mapped(4)])
        have "space s6 cr q = (if q = path va \<and> space s pr q \<noteq> None then space s pr q else space s cr q)"
          if "full q" for q
          using mapped(5) [OF that] sp2 [OF that] cp(2) Some p(1) by (simp add: space_def)
        moreover have "frames s6 cr \<subseteq> insert f (frames s cr)"
        proof
          fix u assume "u \<in> frames s6 cr"
          then obtain q p' where q: "full q" "translate s6 cr q = Some p'" "u = p' AND PHYS_MASK" by (auto simp: frames_def)
          then show "u \<in> insert f (frames s cr)"
            using mapped(6) [OF q(1)] tr2 [OF q(1)] framesI [OF q(1)] page by (auto split: if_splits)
        qed
        then have "frames s6 cr \<inter> owned (vm_pmm s) \<subseteq> frames s cr" using f(2) by blast
        ultimately show ?thesis using that(2) step mapped(1) two_spaces_step(1) [OF ts k6 mapped(2,3)] k6 by simp
      qed
    qed
  qed
qed

section \<open>The loop\<close>


lemma unat_page: "i < 0x80000 \<Longrightarrow> unat (word_of_nat (i * 4096) :: u64) = i * 4096"
  unfolding unat_of_nat by simp

lemma user_pages_less: "va \<in> set user_pages \<Longrightarrow> \<exists>i < 0x80000. va = word_of_nat (i * 4096)"
  by (auto simp: user_pages_def user_stack simp del: upt_rec_numeral)

lemma user_pages_ok: "\<forall>va \<in> set user_pages. user_address va \<and> page_aligned va"
proof
  fix va assume "va \<in> set user_pages"
  then obtain i where i: "i < 0x80000" "va = word_of_nat (i * 4096)" using user_pages_less by blast
  have u: "unat va = i * 4096" unfolding i(2) by (rule unat_page [OF i(1)])
  then have "va < 0x800000000000" using i(1) by (simp add: word_less_nat_alt)
  then show "user_address va \<and> page_aligned va" using u low_user_address by (simp add: page_aligned_def)
qed

text \<open>Every address below 2 GiB lies on one of the pages of the loop.\<close>

lemma user_pages_cover:
  assumes "va < 0x80000000"
  shows "path va \<in> path ` set user_pages"
proof -
  let ?i = "unat va div 4096"
  have lt: "unat va < 0x80000000" using assms by (simp add: word_less_nat_alt)
  then have i: "?i < 0x80000" by simp
  let ?b = "word_of_nat (?i * 4096) :: u64"
  have u: "unat ?b = ?i * 4096" by (rule unat_page [OF i])
  have "va = ?b + word_of_nat (unat va mod 4096)"
  proof -
    have "word_of_nat (?i * 4096 + unat va mod 4096) = va" by (simp only: div_mult_mod_eq) simp
    then show ?thesis by (simp only: of_nat_add)
  qed
  moreover have "page_aligned ?b" using u by (simp add: page_aligned_def)
  ultimately have "path va = path ?b" using same_page(1) [of ?b "unat va mod 4096"] by simp
  moreover have "?b \<in> set user_pages"
    using i by (auto simp: user_pages_def user_stack simp del: upt_rec_numeral)
  ultimately show ?thesis by blast
qed

section \<open>The whole call\<close>

lemma copy_kernel_entries_mem:
  "for_each (copy_kernel_entry a b) xs s = Some s' \<Longrightarrow> \<exists>m. s' = s\<lparr>vm_mem := m\<rparr>"
proof (induction xs arbitrary: s)
  case Nil
  then show ?case by (intro exI [of _ "vm_mem s"]) simp
next
  case (Cons x xs)
  obtain m1 where "copy_kernel_entry a b x s = Some (s\<lparr>vm_mem := m1\<rparr>)"
  proof (cases "present (hhdm_read64 (cell a x) s)")
    case True
    then show ?thesis using that by (simp add: copy_kernel_entry_def hhdm_write64_def)
  next
    case False
    then show ?thesis using that [of "vm_mem s"] by (simp add: copy_kernel_entry_def)
  qed
  then show ?case using Cons.IH [of "s\<lparr>vm_mem := m1\<rparr>"] Cons.prems by auto
qed

lemma create_keeps_registers:
  "cached s \<Longrightarrow> vmm_create_address_space s = Some (root, s') \<Longrightarrow> cr3 s' = cr3 s \<and> hhdm_offset s' = hhdm_offset s"
  by (auto simp: vmm_create_address_space_def phys_to_virt_cached Let_def hhdm_memset_def
      split: if_splits Option.bind_splits dest!: copy_kernel_entries_mem simp del: upt_rec_numeral)

text \<open>What \<open>fork\<close> relies on from the start of the kernel on: the kernel's table.\<close>

definition kernel_table_ok :: "vm \<Rightarrow> bool" where
  "kernel_table_ok s \<longleftrightarrow> g_kernel_pml4 s \<noteq> 0 \<and> page_aligned (g_kernel_pml4 s) \<and>
     (g_kernel_pml4 s \<in> owned (vm_pmm s) \<or> g_kernel_pml4 s \<notin> managed (vm_pmm s))"

text \<open>A new address space is empty and leaves the others alone.\<close>

lemma create_space:
  assumes c: "cached s" "pmm_inv (vm_pmm s)" and k: "kernel_table_ok s"
  obtains (oom) "vmm_create_address_space s = Some (0, s)" and "pmm_alloc_frame (vm_pmm s) = Some (0, vm_pmm s)"
  | (created) cr s' where "vmm_create_address_space s = Some (cr, s')" and "cr \<noteq> 0"
      and "as_inv s' cr {cr}" and "pages_ok s' cr {cr}" and "keeps s {} s' {cr}" and "\<And>q. full q \<Longrightarrow> space s' cr q = None"
proof -
  have resp: "hhdm_offset s \<noteq> 0 \<or> hhdm_response s \<noteq> None" using c(1) by (auto simp: cached_def)
  have kt: "g_kernel_pml4 s \<noteq> 0" "page_aligned (g_kernel_pml4 s)"
    "g_kernel_pml4 s \<in> owned (vm_pmm s) \<or> g_kernel_pml4 s \<notin> managed (vm_pmm s)"
    using k by (simp_all add: kernel_table_ok_def)
  show ?thesis
  proof (cases rule: vmm_create_result [OF c(2) resp kt, case_names oom created])
    case oom
    then show ?thesis by (rule that(1))
  next
    case (created cr s')
    have "translate s' cr q = None" if "full q" for q using created(6) that by (simp add: full_def)
    then have none: "\<And>q. full q \<Longrightarrow> space s' cr q = None" "frames s' cr = {}" and pg: "pages_ok s' cr {cr}"
      by (auto simp: space_def frames_def pages_ok_def full_def)
    have "frame_bytes (vm_mem s') u = frame_bytes (vm_mem s) u" if "u \<in> owned (vm_pmm s)" for u
    proof -
      have "page_aligned u" "u \<noteq> cr" using that created(3) owned_aligned by auto
      then show ?thesis using created(8) by (simp add: frame_bytes_eq_iff)
    qed
    then have "keeps s {} s' {cr}"
      using created(3-5) create_keeps_registers [OF c(1) created(1)] by (auto simp: keeps_def as_inv_def)
    then show ?thesis using that(2) created(1,2,4) pg none(1) by blast
  qed
qed




text \<open>The state after a successful creation: two spaces, the child's empty.\<close>

lemma created_two_spaces:
  assumes inv: "as_inv s pr V" "pages_ok s pr V" and dm: "direct_map s"
    and c: "as_inv s1 cr {cr}" "pages_ok s1 cr {cr}" "keeps s {} s1 {cr}"
  shows "two_spaces s1 pr V cr {cr}" and "full q \<Longrightarrow> space s1 pr q = space s pr q"
    and "full q \<Longrightarrow> translate s1 pr q = translate s pr q"
proof -
  note o = keeps_other [OF c(3) inv]
  show "full q \<Longrightarrow> space s1 pr q = space s pr q" "full q \<Longrightarrow> translate s1 pr q = translate s pr q"
    using o(5,6) by simp_all
  have "hhdm_offset s1 = hhdm_offset s" using c(3) by (simp add: keeps_def)
  then show "two_spaces s1 pr V cr {cr}" using o(1-4) c(1,2) dm by (simp add: two_spaces_def direct_map_def)
qed

lemma keeps_root: "keeps s U s' U' \<Longrightarrow> space_root s' = space_root s"
  by (simp add: keeps_def space_root_def)



lemma vmm_next_table_kernel: "vmm_next_table e s = Some (r, s') \<Longrightarrow> g_kernel_pml4 s' = g_kernel_pml4 s"
  by (auto simp: vmm_next_table_def phys_to_virt_def Let_def hhdm_memset_def hhdm_write64_def
      split: if_splits Option.bind_splits)

lemma vmm_map_page_kernel: "vmm_map_page root va pa flags s = Some (ok, s') \<Longrightarrow> g_kernel_pml4 s' = g_kernel_pml4 s"
  by (auto simp: vmm_map_page_def phys_to_virt_def Let_def hhdm_write64_def dest!: vmm_next_table_kernel
      split: option.splits Option.bind_splits if_splits)

text \<open>A process with one page at 0x401000, for the witnesses.\<close>

lemma one_page_process:
  assumes fl: "flags AND PHYS_MASK = 0" "present flags"
  obtains s where "user_ok s" and "space_root s = 0x100000" and "direct_map s" and "kernel_table_ok s"
    and "\<And>q. full q \<Longrightarrow> translate s 0x100000 q =
      (if q = path 0x401000 then Some ((0x200000 OR flags) AND PAGE_MASK) else None)"
    and "\<And>i. i < 4096 \<Longrightarrow> user_load (0x401000 + word_of_nat i) s = Some 0"
proof -
  have va: "user_address 0x401000" by (simp add: user_address_def pml4_index_def)
  have none: "translate vm_user0 0x100000 q = None" if "full q" for q
    using vm_user0_pages(2) [of q] that by (cases "translate vm_user0 0x100000 q") (auto simp: full_def)
  then have fr: "0x200000 \<notin> frames vm_user0 0x100000" by (auto simp: frames_def)
  have nU: "0x200000 \<notin> {0x100000 :: u64}" by simp
  obtain s where m: "vmm_map_page 0x100000 0x401000 0x200000 flags vm_user0 = Some (True, s)"
    using vm_user0_map by blast
  obtain U' where s: "as_inv s 0x100000 U'" "pages_ok s 0x100000 U'" "keeps vm_user0 {0x100000} s U'"
    "\<And>q. full q \<Longrightarrow> space s 0x100000 q = (if q = path 0x401000 then Some (frame_bytes (vm_mem vm_user0) 0x200000) else space vm_user0 0x100000 q)"
    "\<And>q. full q \<Longrightarrow> translate s 0x100000 q = (if q = path 0x401000 then Some ((0x200000 OR flags) AND PAGE_MASK) else translate vm_user0 0x100000 q)"
    by (cases rule: map_private [OF vm_user0_space(1) vm_user0_pages(1) va vm_user0_space(2) nU fr fl, case_names oom mapped])
      (use m in auto)
  have root: "space_root s = 0x100000"
    using keeps_root [OF s(3)] by (simp add: space_root_def vm_user0_def vm_example_def PAGE_MASK_def)
  have "user_ok s" unfolding user_ok_def root using s(1,2) by blast
  moreover have "direct_map s"
    using s(3) by (simp add: keeps_def direct_map_def vm_user0_def vm_example_def pmm_consts)
  moreover have "0x100000 \<in> owned (vm_pmm vm_user0)" using vm_user0_space(1) wf_tables_root by (auto simp: as_inv_def)
  then have "kernel_table_ok s"
    using s(3) vmm_map_page_kernel [OF m]
    by (auto simp: keeps_def kernel_table_ok_def vm_user0_def vm_example_def page_aligned_def)
  moreover have "user_load (0x401000 + word_of_nat i) s = Some 0" if i: "i < 4096" for i
  proof -
    have al: "page_aligned 0x401000" by (simp add: page_aligned_def)
    have low: "0x401000 + word_of_nat i < (0x800000000000 :: u64)"
      using i by (simp add: word_less_nat_alt unat_word_ariths unat_of_nat)
    show ?thesis
      using s(4) [OF full_path [OF va]] same_page [OF al i] i
      by (simp add: user_load_space [OF low] root space_load_def unat_of_nat vm_user0_def vm_example_def)
  qed
  ultimately show ?thesis using that [of s] root s(5) none by simp
qed


section \<open>No-execute pages\<close>

text \<open>What \<open>exec_elf\<close> makes: entries whose only bit above the address may be \<open>PTE_NX\<close>.\<close>

definition plain_or_nx :: "vm \<Rightarrow> u64 \<Rightarrow> bool" where
  "plain_or_nx s root \<longleftrightarrow> (\<forall>q p. full q \<longrightarrow> translate s root q = Some p \<longrightarrow>
     p AND PHYS_MASK \<noteq> 0 \<and> (p = p AND PHYS_MASK \<or> p = (p AND PHYS_MASK) OR PTE_NX))"

lemma nx_not_canonical:
  assumes dm: "direct_map s" and u: "unat u < PMM_MAX_PHYS_ADDR"
  shows "\<not> canonical ((u OR PTE_NX) + hhdm_offset s)"
proof -
  have "\<not> bit u n \<or> \<not> bit PTE_NX n" for n
  proof -
    have "unat u < 2 ^ 63" using u by (simp add: pmm_consts)
    then have "take_bit 63 (unat u) = unat u" by (simp only: take_bit_nat_eq_self)
    then have "take_bit 63 u = u" by (metis unsigned_take_bit_eq unsigned_word_eqI)
    then have "\<not> bit u 63" by (metis bit_take_bit_iff less_irrefl)
    moreover have "bit PTE_NX n \<Longrightarrow> n = 63" by (simp only: PTE_NX_def bit_push_bit_iff bit_1_iff) auto
    ultimately show ?thesis by auto
  qed
  then have "u OR PTE_NX = u + PTE_NX" by (metis disjunctive_add)
  then have "unat ((u OR PTE_NX) + hhdm_offset s) = unat u + unat (hhdm_offset s) - 0x8000000000000000"
    using dm u by (simp add: direct_map_def PTE_NX_def word_le_nat_alt unat_word_ariths pmm_consts mod_if) linarith
  then show ?thesis
    using dm u by (auto simp: canonical_def direct_map_def word_le_nat_alt word_less_nat_alt pmm_consts)
qed

lemma fork_page_nx:
  assumes ts: "two_spaces s pr V cr U" and va: "user_address va" "page_aligned va"
    and p: "translate s pr (path va) = Some p" "p = (p AND PHYS_MASK) OR PTE_NX"
  shows "\<nexists>s'. fork_page pr cr va s = Some (True, s')"
proof -
  have t: "as_inv s pr V" "pages_ok s pr V" "direct_map s" using ts by (simp_all add: two_spaces_def)
  have c: "cached s" by (rule as_inv_cached [OF t(1)])
  have "PTE_NX \<noteq> 0" "bit PTE_NX 63" by (simp_all add: PTE_NX_def bit_push_bit_iff)
  then have "p \<noteq> 0" using p(2) by (metis bit_0_eq bit_or_iff bot_apply bot_bool_def)
  have "unat (p AND PHYS_MASK) < PMM_MAX_PHYS_ADDR"
    using framesI [OF full_path [OF va(1)] p(1)] pages_ok_frames [OF t(2)] owned_below by blast
  then have "\<not> canonical (p + hhdm_offset s)" using nx_not_canonical [OF t(3)] p(2) by metis
  then have "hhdm_memcpy d (p + hhdm_offset s) n s1 = None" for d n s1 by (simp add: hhdm_memcpy_def)
  moreover have "vmm_get_physical_address pr va s = Some (p, s)"
    using lookup_steps [OF c, of pr va] p(1) aligned_offset [OF va(2)] by simp
  ultimately show ?thesis
    using \<open>p \<noteq> 0\<close> c
    by (auto simp: fork_page_def phys_to_virt_cached Let_def split: Option.bind_splits if_splits)
qed

lemma fork_pages_nx:
  "two_spaces s pr V cr U \<Longrightarrow> plain_or_nx s pr \<Longrightarrow> (\<forall>va \<in> set vs. user_address va \<and> page_aligned va) \<Longrightarrow>
     nx \<in> set vs \<Longrightarrow> translate s pr (path nx) = Some p \<Longrightarrow> bit p 63 \<Longrightarrow>
     \<nexists>s'. fork_pages pr cr vs s = Some (True, s')"
proof (induction vs arbitrary: s U)
  case (Cons va vs)
  have va: "user_address va" "page_aligned va" and nx: "user_address nx" using Cons.prems(3,4) by auto
  have f: "full (path va)" "full (path nx)" using va nx by simp_all
  have dec: "p' AND PHYS_MASK \<noteq> 0 \<and> (p' = p' AND PHYS_MASK \<or> p' = (p' AND PHYS_MASK) OR PTE_NX)"
    if "full q" "translate s pr q = Some p'" for q p'
    using Cons.prems(2) that by (simp add: plain_or_nx_def)
  have plain_bit: "\<not> bit p' 63" if "p' = p' AND PHYS_MASK" for p'
    using that bit_and_iff [of p' PHYS_MASK 63] by (simp add: bit_PHYS_MASK)
  show ?case
  proof (cases "\<exists>p'. translate s pr (path va) = Some p' \<and> p' = (p' AND PHYS_MASK) OR PTE_NX")
    case True
    then show ?thesis using fork_page_nx [OF Cons.prems(1) va] by (auto split: Option.bind_splits if_splits)
  next
    case False
    then have plain: "p' AND PHYS_MASK = p' \<and> p' \<noteq> 0" if "translate s pr (path va) = Some p'" for p'
      using dec [OF f(1) that] that by auto
    have "path nx \<noteq> path va" using plain [of p] plain_bit [of p] Cons.prems(5,6) by auto
    then have "nx \<in> set vs" using Cons.prems(4) by auto
    show ?thesis
    proof (cases rule: fork_page_cases [OF Cons.prems(1) va plain, case_names plain failed copied])
      case (copied s1 U1)
      have cr1: "as_inv s1 cr U1" "pages_ok s1 cr U1" using copied(2) by (simp_all add: two_spaces_def)
      note same = two_spaces_step(3) [OF Cons.prems(1) copied(3) cr1]
      have "plain_or_nx s1 pr" using Cons.prems(2) same by (simp add: plain_or_nx_def)
      from Cons.IH [OF copied(2) this _ \<open>nx \<in> set vs\<close> _ Cons.prems(6)]
      show ?thesis using Cons.prems(3,5) same [OF f(2)] copied(1) by simp
    qed simp_all
  qed
qed simp

text \<open>
  A process with a no-execute page (every program with a data segment) cannot fork: the lookup
  returns the address with bit 63 set, and the copy through the direct map faults, unless frames run
  out before; no process number is ever returned.
\<close>

theorem sys_fork_nx_never_succeeds:
  assumes ok: "user_ok (k_vm k)" and root: "space_root (k_vm k) \<noteq> 0"
    and pages: "plain_or_nx (k_vm k) (space_root (k_vm k))" and dm: "direct_map (k_vm k)"
    and kt: "kernel_table_ok (k_vm k)"
    and nx: "va < 0x80000000" "translate (k_vm k) (space_root (k_vm k)) (path va) = Some p" "bit p 63"
  shows "sys_fork k = None \<or> (\<exists>k'. sys_fork k = Some (-1, k') \<and> next_pid k' = next_pid k)"
proof -
  let ?s = "k_vm k" and ?pr = "space_root (k_vm k)"
  obtain V where V: "as_inv ?s ?pr V" "pages_ok ?s ?pr V" using ok by (auto simp: user_ok_def)
  have pr: "vmm_get_current_address_space ?s = ?pr" by (simp add: vmm_get_current_address_space_def space_root_def)
  obtain va0 where va0: "va0 \<in> set user_pages" "path va = path va0" using user_pages_cover [OF nx(1)] by auto
  show ?thesis
  proof (cases rule: create_space [OF as_inv_cached [OF V(1)] as_inv_pmm [OF V(1)] kt, case_names oom created])
    case oom
    then show ?thesis using root pr by (simp add: sys_fork_def Let_def)
  next
    case (created cr s1)
    note t1 = created_two_spaces [OF V dm created(3-5)]
    have pl: "plain_or_nx s1 ?pr" using pages t1(3) by (simp add: plain_or_nx_def)
    have "user_address va0" using user_pages_ok va0(1) by blast
    then have "translate s1 ?pr (path va0) = Some p" using t1(3) [of "path va0"] nx(2) va0(2) by simp
    then have "\<nexists>s'. fork_pages ?pr cr user_pages s1 = Some (True, s')"
      using fork_pages_nx [OF t1(1) pl user_pages_ok va0(1)] nx(3) by blast
    then show ?thesis
      using root pr created(1,2) by (auto simp: sys_fork_def Let_def split: Option.bind_split)
  qed
qed

theorem sys_fork_nx_never_succeeds_witness:
  "\<exists>k. user_load 0x401000 (k_vm k) = Some 0 \<and>
     (sys_fork k = None \<or> (\<exists>k'. sys_fork k = Some (-1, k') \<and> next_pid k' = next_pid k))"
proof -
  let ?f = "0x8000000000000007 :: u64" and ?p = "0x8000000000200000 :: u64"
  obtain s where s: "user_ok s" "space_root s = 0x100000" "direct_map s" "kernel_table_ok s"
    and tr: "\<And>q. full q \<Longrightarrow> translate s 0x100000 q =
      (if q = path 0x401000 then Some ((0x200000 OR ?f) AND PAGE_MASK) else None)"
    and ld: "\<And>i. i < 4096 \<Longrightarrow> user_load (0x401000 + word_of_nat i) s = Some 0"
    by (rule one_page_process [of ?f]) (simp_all add: PHYS_MASK_def present_def PTE_PRESENT_def)
  have eq: "(0x200000 OR ?f) AND PAGE_MASK = ?p" by (simp add: PAGE_MASK_def)
  have "bit ?p 63" by (simp add: bit_iff_odd)
  moreover have "plain_or_nx s 0x100000"
    unfolding plain_or_nx_def using tr eq by (auto simp: PHYS_MASK_def PTE_NX_def split: if_splits)
  moreover have "translate s 0x100000 (path 0x401000) = Some ?p"
    using tr [of "path 0x401000"] eq by (simp add: user_address_def pml4_index_def)
  ultimately have "sys_fork (kernel_on s []) = None \<or>
      (\<exists>k'. sys_fork (kernel_on s []) = Some (-1, k') \<and> next_pid k' = next_pid (kernel_on s []))"
    using sys_fork_nx_never_succeeds [of "kernel_on s []" "0x401000" ?p] s by simp
  then show ?thesis using ld [of 0] by (intro exI [of _ "kernel_on s []"]) simp
qed

end
