(* ===== verification/FrameCount.thy ===== *)
theory FrameCount
  imports Exec SyscallFork
begin

text \<open>
  How many frames an operation takes: the free frames the allocator can hand out, and for the
  operations of the memory manager and of the loader a bound on how many of them are gone
  afterwards. With enough free frames at the start an operation cannot run out of memory.
\<close>

definition free_frames :: "pmm_state \<Rightarrow> nat set" where
  "free_frames pm = {f. 256 \<le> f \<and> f < pmm_highest_address pm div PAGE_SIZE \<and> \<not> in_use pm f}"

text \<open>At most \<open>n\<close> frames were taken between two states.\<close>

definition takes :: "nat \<Rightarrow> vm \<Rightarrow> vm \<Rightarrow> bool" where
  "takes n s s' \<longleftrightarrow> pmm_inv (vm_pmm s') \<and> pmm_highest_address (vm_pmm s') = pmm_highest_address (vm_pmm s) \<and>
     card (free_frames (vm_pmm s)) \<le> card (free_frames (vm_pmm s')) + n"

lemma finite_free_frames [simp]: "finite (free_frames pm)"
  unfolding free_frames_def by (rule finite_subset [of _ "{..< pmm_highest_address pm div PAGE_SIZE}"]) auto

lemma takes_refl: "pmm_inv (vm_pmm s) \<Longrightarrow> takes 0 s s"
  by (simp add: takes_def)

lemma takes_trans: "takes a s s1 \<Longrightarrow> takes b s1 s2 \<Longrightarrow> takes (a + b) s s2"
  by (simp add: takes_def)

lemma takes_mono: "takes a s s' \<Longrightarrow> a \<le> b \<Longrightarrow> takes b s s'"
  by (simp add: takes_def)

lemma takes_cong: "vm_pmm t = vm_pmm s \<Longrightarrow> vm_pmm t' = vm_pmm s' \<Longrightarrow> takes n t t' = takes n s s'"
  by (simp add: takes_def)

lemma takes_inv: "takes n s s' \<Longrightarrow> pmm_inv (vm_pmm s')"
  by (simp add: takes_def)

lemma takes_managed: "takes n s s' \<Longrightarrow> managed (vm_pmm s') = managed (vm_pmm s)"
  by (simp add: takes_def managed_def)

lemma no_free_frames:
  assumes "pmm_inv pm" and "pmm_alloc_frame pm = Some (0, pm)"
  shows "free_frames pm = {}"
  using assms(1)
proof (cases pm rule: pmm_alloc_frame_cases)
  case (frame f s')
  then have "f < PMM_FRAMES" using max_bits_le [OF assms(1)] by blast
  then show ?thesis using frame(1,2) assms(2) frame_addr_nonzero [of f] by simp
qed (auto simp: free_frames_def)

lemma alloc_takes:
  assumes "pmm_inv (vm_pmm s)" and "pmm_alloc_frame (vm_pmm s) = Some (f, pm)"
  shows "takes 1 s (s\<lparr>vm_pmm := pm\<rparr>)"
  using assms(1)
proof (cases "vm_pmm s" rule: pmm_alloc_frame_cases)
  case (frame g s')
  then have pm: "pm = s'" using assms(2) by simp
  have "free_frames (vm_pmm s) \<subseteq> insert g (free_frames pm)"
    using frame(5,7) pm by (auto simp: free_frames_def)
  then have "card (free_frames (vm_pmm s)) \<le> card (insert g (free_frames pm))" by (intro card_mono) simp_all
  also have "\<dots> \<le> card (free_frames pm) + 1" by (simp add: card_insert_if)
  finally show ?thesis using frame(7,8) pm by (simp add: takes_def)
next
  case full
  then show ?thesis using assms by (simp add: takes_def)
qed

lemma free_takes:
  assumes "pmm_inv (vm_pmm s)" and "pmm_free_frame p (vm_pmm s) = Some pm"
  shows "takes 0 s (s\<lparr>vm_pmm := pm\<rparr>)"
proof -
  obtain pm' where "pmm_free_frame p (vm_pmm s) = Some pm'" "pmm_inv pm'" using pmm.free_inv [OF assms(1)] by blast
  then have inv: "pmm_inv pm" using assms(2) by simp
  show ?thesis
  proof (cases "p \<in> managed (vm_pmm s)")
    case True
    obtain f where f: "\<And>g. in_use pm g \<longleftrightarrow> g \<noteq> f \<and> in_use (vm_pmm s) g"
      "pmm_highest_address pm = pmm_highest_address (vm_pmm s)"
      by (rule pmm_free_frame_managed [OF assms(1) True]) (use assms(2) in auto)
    have "free_frames (vm_pmm s) \<subseteq> free_frames pm" using f by (auto simp: free_frames_def)
    then have "card (free_frames (vm_pmm s)) \<le> card (free_frames pm)" by (rule card_mono [OF finite_free_frames])
    then show ?thesis using inv f(2) by (simp add: takes_def)
  next
    case False
    then show ?thesis using pmm_free_frame_other [OF False] assms by (simp add: takes_def)
  qed
qed

text \<open>A step that takes at most \<open>n\<close> frames and fails only when there are no more than \<open>n\<close>.\<close>

definition needs :: "nat \<Rightarrow> vm \<Rightarrow> bool \<Rightarrow> vm \<Rightarrow> bool" where
  "needs n s okay s' \<longleftrightarrow> takes n s s' \<and> (\<not> okay \<longrightarrow> card (free_frames (vm_pmm s)) \<le> n)"

lemma needs_trans: "needs a s True s1 \<Longrightarrow> needs b s1 okay s2 \<Longrightarrow> needs (a + b) s okay s2"
  by (auto simp: needs_def takes_def)

lemma needs_mono: "needs a s okay s' \<Longrightarrow> a \<le> b \<Longrightarrow> needs b s okay s'"
  by (auto simp: needs_def takes_def)

lemma needs_refl: "pmm_inv (vm_pmm s) \<Longrightarrow> needs 0 s True s"
  by (simp add: needs_def takes_refl)

section \<open>The memory manager\<close>

lemma phys_to_virt_pmm: "phys_to_virt p s = Some (v, s') \<Longrightarrow> vm_pmm s' = vm_pmm s"
  by (auto simp: phys_to_virt_def split: if_splits Option.bind_splits)

lemma hhdm_pmm [simp]: "vm_pmm (hhdm_memset va b n s) = vm_pmm s" "vm_pmm (hhdm_write64 va v s) = vm_pmm s"
  by (simp_all add: hhdm_memset_def hhdm_write64_def)

lemma vmm_next_table_takes:
  assumes inv: "pmm_inv (vm_pmm s)" and r: "vmm_next_table e s = Some (r, s')"
  shows "takes 1 s s'"
proof (cases "present (hhdm_read64 e s)")
  case True
  then have "vm_pmm s' = vm_pmm s" using r by (auto simp: vmm_next_table_def dest: phys_to_virt_pmm split: Option.bind_splits)
  then show ?thesis using inv by (simp add: takes_def)
next
  case False
  obtain f pm where a: "pmm_alloc_frame (vm_pmm s) = Some (f, pm)" using pmm.alloc_returns [OF inv] by blast
  have "vm_pmm s' = pm"
    using r a False by (auto simp: vmm_next_table_def Let_def dest: phys_to_virt_pmm split: Option.bind_splits if_splits)
  then show ?thesis using alloc_takes [OF inv a] by (simp add: takes_def)
qed

lemma vmm_map_page_takes:
  assumes inv: "pmm_inv (vm_pmm s)" and r: "vmm_map_page root va pa flags s = Some (ok, s')"
  shows "takes 3 s s'"
proof -
  obtain v s0 where s0: "phys_to_virt root s = Some (v, s0)" "vm_pmm s0 = vm_pmm s"
    using r phys_to_virt_pmm by (fastforce simp: vmm_map_page_def split: Option.bind_splits)
  obtain r1 s1 where s1: "vmm_next_table (cell v (pml4_index va)) s0 = Some (r1, s1)"
    using r s0(1) by (auto simp: vmm_map_page_def split: Option.bind_splits)
  have t1: "takes 1 s s1" using vmm_next_table_takes [OF _ s1] inv s0(2) takes_cong [of s0 s s1 s1 1] by simp
  show ?thesis
  proof (cases r1)
    case None
    then have "s' = s1" using r s0(1) s1 by (simp add: vmm_map_page_def)
    then show ?thesis using takes_mono [OF t1] by simp
  next
    case (Some v1)
    obtain r2 s2 where s2: "vmm_next_table (cell v1 (pdpt_index va)) s1 = Some (r2, s2)"
      using r s0(1) s1 Some by (auto simp: vmm_map_page_def split: Option.bind_splits)
    have t2: "takes 2 s s2"
      using takes_trans [OF t1 vmm_next_table_takes [OF takes_inv [OF t1] s2]] by (simp add: numeral_2_eq_2)
    show ?thesis
    proof (cases r2)
      case None
      then have "s' = s2" using r s0(1) s1 s2 Some by (simp add: vmm_map_page_def)
      then show ?thesis using takes_mono [OF t2] by simp
    next
      case (Some v2)
      obtain r3 s3 where s3: "vmm_next_table (cell v2 (pd_index va)) s2 = Some (r3, s3)"
        using r s0(1) s1 s2 Some \<open>r1 = Some v1\<close> by (auto simp: vmm_map_page_def split: Option.bind_splits)
      have "takes 3 s s3"
        using takes_trans [OF t2 vmm_next_table_takes [OF takes_inv [OF t2] s3]] by simp
      moreover have "vm_pmm s' = vm_pmm s3"
        using r s0(1) s1 s2 s3 Some \<open>r1 = Some v1\<close> by (cases r3) (auto simp: vmm_map_page_def)
      ultimately show ?thesis using takes_cong [of s s s' s3] by simp
    qed
  qed
qed

lemma created_takes:
  assumes inv: "pmm_inv (vm_pmm s)" and r: "vmm_create_address_space s = Some (root, s')"
  shows "takes 1 s s'"
proof -
  obtain f pm where a: "pmm_alloc_frame (vm_pmm s) = Some (f, pm)" using pmm.alloc_returns [OF inv] by blast
  have each: "for_each (copy_kernel_entry kv uv) is t = Some t' \<Longrightarrow> vm_pmm t' = vm_pmm t" for kv uv "is" t t'
    by (induction "is" arbitrary: t) (auto simp: copy_kernel_entry_def split: Option.bind_splits if_splits)
  have "vm_pmm s' = pm"
    using r a by (auto simp: vmm_create_address_space_def Let_def dest!: phys_to_virt_pmm each simp del: upt_rec_numeral
        split: Option.bind_splits if_splits)
  then show ?thesis using alloc_takes [OF inv a] by (simp add: takes_def)
qed

section \<open>The loader\<close>

text \<open>A page of a segment or of the stack takes its frame and at most three tables.\<close>

lemma alloc_map_takes:
  assumes inv: "pmm_inv (vm_pmm s)" and a: "pmm_alloc_frame (vm_pmm s) = Some (f, pm)"
    and m: "vmm_map_page root va f flags (s\<lparr>vm_pmm := pm\<rparr>) = Some (ok, s2)"
  shows "takes 4 s s2"
proof -
  note t = alloc_takes [OF inv a]
  from takes_trans [OF t vmm_map_page_takes [OF takes_inv [OF t] m]] show ?thesis by simp
qed

lemma alloc_map_free_takes:
  assumes "pmm_inv (vm_pmm s)" and "pmm_alloc_frame (vm_pmm s) = Some (f, pm)"
    and "vmm_map_page root va f flags (s\<lparr>vm_pmm := pm\<rparr>) = Some (ok, s2)" and "pmm_free_frame f (vm_pmm s2) = Some pm'"
  shows "takes 4 s (s2\<lparr>vm_pmm := pm'\<rparr>)"
proof -
  note t = alloc_map_takes [OF assms(1-3)]
  from takes_trans [OF t free_takes [OF takes_inv [OF t] assms(4)]] show ?thesis by simp
qed

lemma stack_page_takes:
  assumes inv: "pmm_inv (vm_pmm s)" and r: "stack_page root va s = Some (ok, s')"
  shows "takes 4 s s'"
proof -
  obtain f pm where a: "pmm_alloc_frame (vm_pmm s) = Some (f, pm)" using pmm.alloc_returns [OF inv] by blast
  show ?thesis
  proof (cases "f = 0")
    case True
    then have "s' = s\<lparr>vm_pmm := pm\<rparr>" using r a by (simp add: stack_page_def)
    then show ?thesis using takes_mono [OF alloc_takes [OF inv a]] by simp
  next
    case False
    then show ?thesis
      using r a alloc_map_takes [OF inv a] alloc_map_free_takes [OF inv a]
      by (auto simp: stack_page_def Let_def split: Option.bind_splits if_splits)
  qed
qed

lemma load_page_takes:
  assumes inv: "pmm_inv (vm_pmm s)" and r: "load_page root d seg pv s = Some (ok, s')"
  shows "takes 4 s s'"
proof -
  obtain f pm where a: "pmm_alloc_frame (vm_pmm s) = Some (f, pm)" using pmm.alloc_returns [OF inv] by blast
  show ?thesis
  proof (cases "f = 0")
    case True
    then have "s' = s\<lparr>vm_pmm := pm\<rparr>" using r a by (simp add: load_page_def Let_def)
    then show ?thesis using takes_mono [OF alloc_takes [OF inv a]] by simp
  next
    case False
    obtain ok2 s2 where m: "vmm_map_page root pv f (segment_page_flags (p_flags seg)) (s\<lparr>vm_pmm := pm\<rparr>) = Some (ok2, s2)"
      using r a False by (auto simp: load_page_def Let_def split: Option.bind_splits)
    show ?thesis
    proof (cases ok2)
      case True
      have "vm_pmm s' = vm_pmm s2"
        using r a False m True
        by (auto simp: load_page_def Let_def hhdm_store_def dest!: phys_to_virt_pmm split: Option.bind_splits prod.splits if_splits)
      then show ?thesis using alloc_map_takes [OF inv a m] takes_cong [of s s s' s2] by simp
    next
      case ok2: False
      then show ?thesis
        using r a False m alloc_map_free_takes [OF inv a m] by (auto simp: load_page_def Let_def split: Option.bind_splits)
    qed
  qed
qed

end
