(* ===== verification/ExecExample.thy ===== *)
theory ExecExample
  imports FrameCount
begin

text \<open>
  An executable and a machine to load it, for the witnesses: one segment of 4096 bytes, two of
  them in the file, that starts in the middle of a page.
\<close>

definition elf_example :: bytes where
  "elf_example =
     [0x7F, 0x45, 0x4C, 0x46, 2, 1, 1, 0, 0, 0, 0, 0, 0, 0, 0, 0, 2, 0, 62, 0, 1, 0, 0, 0,
      0, 0x18, 0x40, 0, 0, 0, 0, 0, 64, 0, 0, 0, 0, 0, 0, 0, 0, 0, 0, 0, 0, 0, 0, 0, 0, 0, 0, 0,
      64, 0, 56, 0, 1, 0, 0, 0, 0, 0, 0, 0,
      1, 0, 0, 0, 6, 0, 0, 0, 120, 0, 0, 0, 0, 0, 0, 0, 0, 0x18, 0x40, 0, 0, 0, 0, 0,
      0, 0x18, 0x40, 0, 0, 0, 0, 0, 2, 0, 0, 0, 0, 0, 0, 0, 0, 0x10, 0, 0, 0, 0, 0, 0,
      0, 0x10, 0, 0, 0, 0, 0, 0, 7, 9]"

definition segment_example :: segment where
  "segment_example = \<lparr>p_flags = 6, p_offset = 120, p_vaddr = 0x401800, p_filesz = 2, p_memsz = 0x1000\<rparr>"

lemma length_elf_example: "length elf_example = 122"
  by (simp add: elf_example_def)

text \<open>What the loader reads of a byte list that starts with the executable.\<close>

lemma rd_le_prefix:
  "off + 2 \<le> length a \<Longrightarrow> rd_le16 (a @ b) off = rd_le16 a off"
  "off + 4 \<le> length a \<Longrightarrow> rd_le32 (a @ b) off = rd_le32 a off"
  "off + 8 \<le> length a \<Longrightarrow> rd_le64 (a @ b) off = rd_le64 a off"
  by (simp_all add: rd_le16_def rd_le32_def rd_le64_def nth_append)

lemma elf_example_fields:
  "rd_le64 elf_example 32 = Some 64" "rd_le16 elf_example 56 = Some 1" "rd_le64 elf_example 24 = Some 0x401800"
  "rd_le32 elf_example 64 = Some 1" "rd_le32 elf_example 68 = Some 6" "rd_le64 elf_example 72 = Some 120"
  "rd_le64 elf_example 80 = Some 0x401800" "rd_le64 elf_example 96 = Some 2" "rd_le64 elf_example 104 = Some 0x1000"
  "rd_le32 elf_example 0 = Some ELF_MAGIC" "rd_le16 elf_example 16 = Some 2" "rd_le16 elf_example 18 = Some 62"
  "elf_example ! 4 = 2" "elf_example ! 5 = 1" "elf_example ! 6 = 1"
  by code_simp+

lemma elf_example_segment:
  assumes "d = elf_example @ rest"
  shows "e_phoff64 d = Some 64" and "e_phnum64 d = Some 1" and "e_entry64 d = Some 0x401800"
    and "p_type64 d 64 = Some PT_LOAD" and "read_segment d 64 = Some segment_example" and "exec_header_ok d = Some True"
  by (simp_all add: assms e_phoff64_def e_phnum64_def e_entry64_def p_type64_def p_flags64_def p_offset64_def p_vaddr64_def
      p_filesz64_def p_memsz64_def e_magic_def e_class_def e_data_def e_type_def e_machine_def e_version_def
      read_segment_def exec_header_ok_def nth_append rd_le_prefix length_elf_example elf_example_fields segment_example_def elf_consts)

text \<open>16 MiB of memory, of which the kernel's top-level table at 1 MiB is in use.\<close>

definition vm_large :: vm where
  "vm_large = vm_example\<lparr>vm_pmm := pmm_example\<lparr>pmm_highest_address := 0x1000000\<rparr>\<rparr>"

lemma vm_large_ok: "cached vm_large" "pmm_inv (vm_pmm vm_large)" "kernel_table_ok vm_large" "direct_map vm_large"
proof -
  show "cached vm_large" "pmm_inv (vm_pmm vm_large)" "direct_map vm_large"
    by (simp_all add: vm_large_def vm_example_def cached_def pmm_inv_def pmm_example_def pmm_consts direct_map_def)
  have "in_use (vm_pmm vm_large) 256" by (simp add: vm_large_def in_use_def pmm_example_def)
  then have "frame_addr 256 \<in> owned (vm_pmm vm_large)" by (simp add: frame_addr_owned pmm_consts)
  then show "kernel_table_ok vm_large"
    by (simp add: frame_256 kernel_table_ok_def vm_large_def vm_example_def page_aligned_def)
qed

lemma vm_large_free: "38 \<le> card (free_frames (vm_pmm vm_large))"
proof -
  have "\<not> in_use (vm_pmm vm_large) f" if "300 \<le> f" "f < 400" for f
  proof -
    have "f div 8 \<noteq> 32" using that by linarith
    then show ?thesis by (simp add: vm_large_def in_use_def pmm_example_def)
  qed
  then have "{300..<400} \<subseteq> free_frames (vm_pmm vm_large)"
    by (auto simp: free_frames_def vm_large_def pmm_example_def PAGE_SIZE_def)
  then have "card {300..<400 :: nat} \<le> card (free_frames (vm_pmm vm_large))" by (rule card_mono [OF finite_free_frames])
  then show ?thesis by simp
qed

text \<open>A file system with the executable as its file \<open>a\<close>, and a kernel with it.\<close>

definition fs_elf :: fs_state where
  "fs_elf = fs_boot\<lparr>
     fs_files := (replicate FS_MAX_FILES zero_file)[0 := example_file (str ''a'') 0 122 122],
     file_count := 1, mem_pool := (\<lambda>i. if i < 122 then elf_example ! i else 0), mem_used := 122\<rparr>"

lemma fs_elf_files:
  "fs_files fs_elf ! 0 = example_file (str ''a'') 0 122 122" "file_count fs_elf = 1"
  "active_fs fs_elf = FS_TYPE_INITRAMFS" "length (fs_files fs_elf) = FS_MAX_FILES" "mem_used fs_elf = 122"
  by (simp_all add: fs_elf_def fs_boot_def FS_MAX_FILES_def)

lemma fs_elf_ok: "table_ok fs_elf"
proof -
  have "set (fs_files fs_elf) \<subseteq> {example_file (str ''a'') 0 122 122, zero_file}"
    by (auto simp: fs_elf_def dest!: set_update_subset_insert [THEN subsetD])
  then have "\<forall>f \<in> set (fs_files fs_elf). length (ff_name f) = NAME_SIZE"
    by (auto simp: example_file_def zero_file_def fs_consts)
  moreover have "file_ok 122 (example_file (str ''a'') 0 122 122)"
    by (auto simp: file_ok_def example_file_def fs_consts)
  ultimately show ?thesis unfolding table_ok_def by (simp add: fs_elf_files fs_consts)
qed

lemma fs_elf_open: "fs_open [97, 0] fs_elf = Some (Some (FsFile 0), fs_elf)"
proof -
  have "lookup_file fs_elf [97] = Some 0"
    by (simp add: lookup_file_def file_name_def fs_elf_files example_file_def name_matches_def strip_dot_def
        fs_consts cstr_Cons upt_rec)
  then show ?thesis using fs_open_result [OF fs_elf_ok, of "[97, 0]"] by (simp add: fs_elf_files cstr_Cons)
qed

lemma fs_elf_bytes:
  obtains rest where "elf_bytes (fs_files fs_elf ! 0) fs_elf = Some (elf_example @ rest)"
    and "length (elf_example @ rest) < 2 ^ 32"
proof -
  let ?d = "pool_load (mem_pool fs_elf) 0 POOL_SIZE"
  have len: "length ?d = 65536" by (simp add: pool_load_def POOL_SIZE_def del: upt_rec_numeral)
  have "take 122 ?d = elf_example"
    by (rule nth_equalityI) (simp_all add: len length_elf_example pool_load_def POOL_SIZE_def fs_elf_def del: upt_rec_numeral)
  then have "?d = elf_example @ drop 122 ?d" by (metis append_take_drop_id)
  moreover have "elf_bytes (fs_files fs_elf ! 0) fs_elf = Some ?d"
    unfolding fs_elf_files by (simp add: elf_bytes_def example_file_def pool_ptr_def)
  ultimately show ?thesis using that [of "drop 122 ?d"] len by simp
qed

end
