(* ===== verification/ExecCorrect.thy ===== *)
theory ExecCorrect
  imports ExecExample
begin

text \<open>
  The loader is correct: what it builds is, page by page, the memory image the program headers
  describe. The image is an update of the abstract address space, so that the loops refine it; read at
  an address it is the byte the program headers ask for there, but for the page the loop misses.
\<close>

section \<open>The image of a segment\<close>

text \<open>The bytes a page should have: the part of the file the segment puts there, else zeros.\<close>

definition segment_bytes :: "bytes \<Rightarrow> segment \<Rightarrow> u64 \<Rightarrow> bytes" where
  "segment_bytes d seg pv = map (\<lambda>k. let va = unat pv + k; v = unat (p_vaddr seg) in
       if v \<le> va \<and> va < v + unat (p_filesz seg) then d ! (unat (p_offset seg) + (va - v)) else 0) [0..<4096]"

text \<open>The pages the loop goes through: one every 4096 bytes from \<open>p_vaddr\<close> on.\<close>

definition segment_pages :: "segment \<Rightarrow> u64 list" where
  "segment_pages seg = map (\<lambda>i. (p_vaddr seg + word_of_nat (4096 * i)) AND PAGE_MASK) [0..<(unat (p_memsz seg) + 4095) div 4096]"

definition put_pages :: "(u64 \<Rightarrow> bytes) \<Rightarrow> u64 list \<Rightarrow> (nat list \<Rightarrow> bytes option) \<Rightarrow> nat list \<Rightarrow> bytes option" where
  "put_pages g pvs m = foldl (\<lambda>m pv. m(path pv \<mapsto> g pv)) m pvs"

definition image :: "bytes \<Rightarrow> segment list \<Rightarrow> (nat list \<Rightarrow> bytes option) \<Rightarrow> nat list \<Rightarrow> bytes option" where
  "image d segs m = foldl (\<lambda>m seg. put_pages (segment_bytes d seg) (segment_pages seg) m) m segs"

text \<open>
  A segment in range: it lies below the user stack, the file holds its bytes, and it has at
  least as many bytes in memory as in the file.
\<close>

definition segment_ok :: "bytes \<Rightarrow> segment \<Rightarrow> bool" where
  "segment_ok d seg \<longleftrightarrow> unat (p_vaddr seg) + unat (p_memsz seg) \<le> unat USER_STACK_BOTTOM_VADDR \<and>
     p_filesz seg \<le> p_memsz seg \<and> unat (p_offset seg) + unat (p_filesz seg) \<le> length d \<and> length d < 2 ^ 32"

lemma stack_bottom: "unat USER_STACK_BOTTOM_VADDR = 0x7FFF8000"
  by (simp add: user_stack)

lemma unat_page_mask: "unat (va AND PAGE_MASK) = unat va div 4096 * 4096"
proof -
  have "va AND PAGE_MASK = push_bit 12 (drop_bit 12 va)"
    by (rule bit_word_eqI) (auto simp: bit_and_iff bit_PAGE_MASK bit_push_bit_iff bit_drop_bit_eq)
  then have "unat (va AND PAGE_MASK) = take_bit 64 (push_bit 12 (unat (drop_bit 12 va)))"
    by (simp only: unsigned_push_bit_eq) simp
  moreover have "unat (drop_bit 12 va) = unat va div 4096" unfolding unat_drop_bit_eq by (simp add: drop_bit_eq_div)
  moreover have "unat va div 4096 * 4096 < 2 ^ 64" using unat64_less [of va] by linarith
  ultimately show ?thesis by (simp add: push_bit_eq_mult take_bit_nat_eq_self)
qed

lemma page_mask_aligned: "page_aligned (va AND PAGE_MASK)"
  by simp

text \<open>Every page of a segment in range is an aligned page below the stack.\<close>

lemma segment_page:
  assumes ok: "segment_ok d seg" and i: "4096 * i < unat (p_memsz seg)"
  defines "pv \<equiv> (p_vaddr seg + word_of_nat (4096 * i)) AND PAGE_MASK"
  shows "unat pv = (unat (p_vaddr seg) + 4096 * i) div 4096 * 4096" and "unat pv < unat USER_STACK_BOTTOM_VADDR"
    and "page_aligned pv" and "user_address pv"
proof -
  have lt: "unat (p_vaddr seg) + 4096 * i < 0x7FFF8000" using ok i by (simp add: segment_ok_def stack_bottom)
  have "unat (word_of_nat (4096 * i) :: u64) = 4096 * i" unfolding unat_of_nat using lt by simp
  then have "unat (p_vaddr seg + word_of_nat (4096 * i)) = unat (p_vaddr seg) + 4096 * i"
    using lt by (subst unat_word_ariths) simp
  then show u: "unat pv = (unat (p_vaddr seg) + 4096 * i) div 4096 * 4096" unfolding pv_def unat_page_mask by simp
  then show b: "unat pv < unat USER_STACK_BOTTOM_VADDR" using lt unfolding stack_bottom by linarith
  show "page_aligned pv" unfolding pv_def by (rule page_mask_aligned)
  show "user_address pv" by (rule low_user_address) (use b in \<open>simp add: word_less_nat_alt stack_bottom\<close>)
qed

section \<open>One page\<close>

text \<open>The range the code computes, in numbers.\<close>

lemma copy_range_eq:
  assumes ok: "segment_ok d seg" and pv: "page_aligned pv" "unat pv < unat USER_STACK_BOTTOM_VADDR"
    and ov: "unat (p_vaddr seg) < unat pv + 4096" "unat pv < unat (p_vaddr seg) + unat (p_memsz seg)"
    and nonempty: "0 < unat (p_memsz seg)"
  obtains off fo n where "copy_range seg pv = (off, fo, n)"
    and "unat off = unat (p_vaddr seg) - unat pv"
    and "unat fo = unat (p_offset seg) + (unat pv - unat (p_vaddr seg))"
    and "unat n = min (unat pv + 4096) (unat (p_vaddr seg) + unat (p_filesz seg)) - max (unat pv) (unat (p_vaddr seg))"
proof -
  define V M F O' P where "V = unat (p_vaddr seg)" and "M = unat (p_memsz seg)" and "F = unat (p_filesz seg)"
    and "O' = unat (p_offset seg)" and "P = unat pv"
  have b: "V + M \<le> 0x7FFF8000" "F \<le> M" "O' + F < 2 ^ 32" "P < 0x7FFF8000" "V < P + 4096" "P < V + M" "0 < M"
    using ok pv(2) ov nonempty by (simp_all add: segment_ok_def stack_bottom V_def M_def F_def O'_def P_def word_le_nat_alt)
  have s1: "unat (p_offset seg + p_filesz seg) = O' + F" "unat (pv + 4096) = P + 4096"
    "unat (p_vaddr seg + p_memsz seg) = V + M"
    using b by (simp_all add: unat_word_ariths V_def M_def F_def O'_def P_def)
  define cs ce where "cs = (if pv > p_vaddr seg then pv else p_vaddr seg)"
    and "ce = (if pv + 4096 < p_vaddr seg + p_memsz seg then pv + 4096 else p_vaddr seg + p_memsz seg)"
  have cs: "unat cs = max P V" by (simp add: cs_def word_less_nat_alt V_def P_def)
  have ce: "unat ce = min (P + 4096) (V + M)" by (simp add: ce_def word_less_nat_alt s1)
  have lt: "cs < ce" using b cs ce by (simp add: word_less_nat_alt)
  have o1: "unat (cs - pv) = max P V - P" using cs by (simp add: unat_sub_if' word_le_nat_alt P_def)
  have o2: "unat (cs - p_vaddr seg) = max P V - V" using cs by (simp add: unat_sub_if' word_le_nat_alt V_def)
  have o3: "unat (ce - cs) = min (P + 4096) (V + M) - max P V" using lt cs ce by (simp add: unat_sub_if' word_less_nat_alt word_le_nat_alt)
  define fo n e where "fo = p_offset seg + (cs - p_vaddr seg)" and "n = ce - cs" and "e = p_offset seg + p_filesz seg"
  have fo: "unat fo = O' + (max P V - V)" using b o2 by (simp add: fo_def unat_word_ariths O'_def)
  have fn: "unat (fo + n) = O' + (max P V - V) + (min (P + 4096) (V + M) - max P V)"
    using b fo o3 by (simp add: n_def unat_word_ariths)
  have ef: "e > fo \<Longrightarrow> unat (e - fo) = O' + F - (O' + (max P V - V))"
    using fo s1(1) by (simp add: e_def unat_sub_if' word_less_nat_alt word_le_nat_alt)
  let ?n = "if fo + n > e then (if fo \<ge> e then 0 else e - fo) else n"
  have "unat ?n = min (P + 4096) (V + F) - max P V"
  proof (cases "fo + n > e")
    case True
    then have "V + F < min (P + 4096) (V + M)" using b fn s1(1) by (simp add: word_less_nat_alt e_def min_def max_def split: if_splits)
    then show ?thesis using True b fo s1(1) ef by (cases "fo \<ge> e") (auto simp: word_le_nat_alt not_le word_less_nat_alt e_def add.commute [of F V])
  next
    case False
    then have "min (P + 4096) (V + M) \<le> V + F"
      using b fn s1(1) by (simp add: word_less_nat_alt e_def min_def max_def split: if_splits)
    then have "min (P + 4096) (V + M) = min (P + 4096) (V + F)" using b(2) by (auto simp: min_def split: if_splits)
    then show ?thesis using False o3 by (simp add: n_def)
  qed
  moreover have "copy_range seg pv = (cs - pv, fo, ?n)"
    using lt unfolding copy_range_def Let_def cs_def [symmetric] ce_def [symmetric] fo_def [symmetric] n_def [symmetric] e_def [symmetric]
    by simp
  ultimately show ?thesis
    using that [of "cs - pv" fo ?n] o1 fo unfolding V_def M_def F_def O'_def P_def by (simp add: max_def split: if_splits)
qed

text \<open>Zeroing the frame and copying the range gives the page its bytes.\<close>

lemma page_loaded:
  assumes ok: "segment_ok d seg" and pv: "page_aligned pv" "unat pv < unat USER_STACK_BOTTOM_VADDR"
    and ov: "unat (p_vaddr seg) < unat pv + 4096" "unat pv < unat (p_vaddr seg) + unat (p_memsz seg)"
    and nonempty: "0 < unat (p_memsz seg)" and f: "page_aligned f"
    and r: "copy_range seg pv = (off, fo, n)"
  shows "n \<noteq> 0 \<Longrightarrow> \<exists>bs. file_slice d (unat fo) (unat n) = Some bs \<and>
      only_frame f m (store_bytes (fill m f 0 4096) (f + off) bs) \<and>
      frame_bytes (store_bytes (fill m f 0 4096) (f + off) bs) f = segment_bytes d seg pv"
    and "n = 0 \<Longrightarrow> segment_bytes d seg pv = replicate 4096 0"
proof -
  define V F O' P where "V = unat (p_vaddr seg)" and "F = unat (p_filesz seg)" and "O' = unat (p_offset seg)" and "P = unat pv"
  have b: "V + F \<le> 0x7FFF8000" "O' + F \<le> length d" "V < P + 4096"
    using ok ov by (simp_all add: segment_ok_def stack_bottom V_def F_def O'_def P_def word_le_nat_alt)
  obtain w: "unat off = V - P" "unat fo = O' + (P - V)" "unat n = min (P + 4096) (V + F) - max P V"
    using copy_range_eq [OF ok pv ov nonempty] r unfolding V_def F_def O'_def P_def by (metis prod.inject)
  have sb: "segment_bytes d seg pv ! k = (if V \<le> P + k \<and> P + k < V + F then d ! (O' + (P + k - V)) else 0)" if "k < 4096" for k
    using that by (simp add: segment_bytes_def Let_def V_def F_def O'_def P_def del: upt_rec_numeral)
  have sl: "length (segment_bytes d seg pv) = 4096" by (simp add: segment_bytes_def del: upt_rec_numeral)
  show "n = 0 \<Longrightarrow> segment_bytes d seg pv = replicate 4096 0"
  proof (rule nth_equalityI)
    fix k assume n0: "n = 0" and "k < length (segment_bytes d seg pv)"
    then have k: "k < 4096" by (simp add: sl)
    have "min (P + 4096) (V + F) \<le> max P V" using w(3) n0 by simp
    then have neg: "\<not> (V \<le> P + k \<and> P + k < V + F)" using k b(3) by (auto simp: min_def max_def split: if_splits)
    have "segment_bytes d seg pv ! k = 0" by (simp only: sb [OF k] neg if_False)
    then show "segment_bytes d seg pv ! k = replicate 4096 0 ! k" using k by simp
  qed (simp add: sl)
  assume "n \<noteq> 0"
  then have n: "0 < unat n" by (simp add: unat_gt_0)
  let ?bs = "take (unat n) (drop (unat fo) d)" and ?o = "unat off"
  have fits: "unat fo + unat n \<le> length d" "?o + unat n \<le> 4096"
    using w b n by (auto simp: min_def max_def split: if_splits)
  have len: "length ?bs = unat n" using fits by simp
  have off: "f + off = f + word_of_nat ?o" by simp
  have fit: "?o + length ?bs \<le> 4096" using fits(2) len by simp
  let ?m = "store_bytes (fill m f 0 4096) (f + word_of_nat ?o) ?bs"
  have "frame_bytes ?m f = segment_bytes d seg pv"
  proof (rule nth_equalityI)
    fix k assume "k < length (frame_bytes ?m f)"
    then have k: "k < 4096" by simp
    have "frame_bytes ?m f ! k = (take ?o (replicate 4096 0) @ ?bs @ drop (?o + length ?bs) (replicate 4096 0)) ! k"
      unfolding frame_bytes_store [OF f fit] frame_bytes_fill [OF f] by (rule refl)
    also have "\<dots> = (if ?o \<le> k \<and> k < ?o + unat n then d ! (unat fo + (k - ?o)) else 0)"
      using k fits len by (auto simp: nth_append min_def)
    also have "\<dots> = segment_bytes d seg pv ! k"
    proof -
      have iff: "?o \<le> k \<and> k < ?o + unat n \<longleftrightarrow> V \<le> P + k \<and> P + k < V + F"
        using k w n by (auto simp: min_def max_def split: if_splits)
      have "unat fo + (k - ?o) = O' + (P + k - V)" if "V \<le> P + k" using w that by simp
      then show ?thesis using sb [OF k] iff by simp
    qed
    finally show "frame_bytes ?m f ! k = segment_bytes d seg pv ! k" .
  qed (simp add: sl)
  moreover have "only_frame f m ?m"
    by (rule only_frame_trans [OF fill_only [OF f] store_in_page_only [OF f fit]])
  moreover have "file_slice d (unat fo) (unat n) = Some ?bs" using fits(1) by (simp add: file_slice_def)
  ultimately show "\<exists>bs. file_slice d (unat fo) (unat n) = Some bs \<and>
      only_frame f m (store_bytes (fill m f 0 4096) (f + off) bs) \<and>
      frame_bytes (store_bytes (fill m f 0 4096) (f + off) bs) f = segment_bytes d seg pv"
    unfolding off by blast
qed

section \<open>The loops\<close>

lemma segment_flags_ok: "segment_page_flags fl AND PHYS_MASK = 0" "present (segment_page_flags fl)"
  by (simp_all add: segment_page_flags_def PTE_PRESENT_def PTE_USER_def PTE_WRITABLE_def PTE_NX_def PHYS_MASK_def present_def)

text \<open>What a step of the loader gives: an extended address space, the others kept.\<close>

definition extends :: "vm \<Rightarrow> u64 \<Rightarrow> u64 set \<Rightarrow> vm \<Rightarrow> u64 set \<Rightarrow> bool" where
  "extends s root U s' U' \<longleftrightarrow> as_inv s' root U' \<and> pages_ok s' root U' \<and> keeps s U s' U'"

lemma extends_refl: "as_inv s root U \<Longrightarrow> pages_ok s root U \<Longrightarrow> extends s root U s U"
  by (simp add: extends_def keeps_refl)

lemma extends_trans: "extends s root U s1 U1 \<Longrightarrow> extends s1 root U1 s2 U2 \<Longrightarrow> extends s root U s2 U2"
  by (auto simp: extends_def intro: keeps_trans)

text \<open>
  A frame allocated and mapped: the common part of a segment page and a stack page.
\<close>

lemma alloc_and_map:
  assumes inv: "as_inv s root U" "pages_ok s root U" and va: "user_address va"
    and fl: "flags AND PHYS_MASK = 0" "present flags"
    and a: "pmm_alloc_frame (vm_pmm s) = Some (f, pm)" and f: "f \<noteq> 0"
  obtains (failed) s2 U' pm' where "vmm_map_page root va f flags (s\<lparr>vm_pmm := pm\<rparr>) = Some (False, s2)"
      and "pmm_free_frame f (vm_pmm s2) = Some pm'" and "extends s root U (s2\<lparr>vm_pmm := pm'\<rparr>) U'" and "card (free_frames (vm_pmm s)) \<le> 4"
  | (mapped) s2 U' where "vmm_map_page root va f flags (s\<lparr>vm_pmm := pm\<rparr>) = Some (True, s2)"
      and "extends s root U s2 U'" and "\<And>q. full q \<Longrightarrow> q \<noteq> path va \<Longrightarrow> space s2 root q = space s root q \<and> translate s2 root q = translate s root q"
      and "translate s2 root (path va) = Some ((f OR flags) AND PAGE_MASK)" and "page_aligned f" and "f \<notin> owned (vm_pmm s)"
      and "((f OR flags) AND PAGE_MASK) AND PHYS_MASK = f" and "leaf_entry s2 root va = Some (f OR flags)"
proof -
  let ?s1 = "s\<lparr>vm_pmm := pm\<rparr>"
  note fr = alloc_keeps [OF inv(1) a]
  have fo: "f \<in> owned pm" "f \<notin> owned (vm_pmm s)" "page_aligned f" using fr f by simp_all
  have fU: "f \<notin> U" using fo(2) inv(1) by (auto simp: as_inv_def)
  have ff: "f \<notin> frames ?s1 root" using fo(2) pages_ok_frames [OF inv(2)] by (auto simp: frames_same [of ?s1 s])
  have k1: "keeps s U ?s1 U" using fresh_keeps [OF inv(1) a f, of "vm_mem s"] by simp
  have f1: "f \<in> owned (vm_pmm ?s1)" using fo(1) by simp
  show ?thesis
  proof (cases rule: map_private [OF fr(1) fr(6) [OF inv(2)] va f1 fU ff fl, case_names oom mapped])
    case (oom s2 U')
    have k2: "keeps s U s2 U'" by (rule keeps_trans [OF k1 oom(4)])
    have "f \<notin> U'" using oom(4) f1 fU by (auto simp: keeps_def)
    moreover have "f \<notin> frames s2 root" using oom(6) ff by (auto simp: frames_def)
    moreover have few: "card (free_frames (vm_pmm s)) \<le> 4"
      using alloc_map_takes [OF as_inv_pmm [OF inv(1)] a oom(1)] no_free_frames [OF as_inv_pmm [OF oom(2)] oom(7)] by (simp add: takes_def)
    ultimately obtain pm' where "pmm_free_frame f (vm_pmm s2) = Some pm'" "as_inv (s2\<lparr>vm_pmm := pm'\<rparr>) root U'"
      "pages_ok (s2\<lparr>vm_pmm := pm'\<rparr>) root U'" "keeps s U (s2\<lparr>vm_pmm := pm'\<rparr>) U'"
      using free_keeps [OF oom(2,3) _ _ k2 fo(2)] by metis
    then show ?thesis using failed oom(1) few by (simp add: extends_def)
  next
    case (mapped s2 U')
    have "keeps s U s2 U'" by (rule keeps_trans [OF k1 mapped(4)])
    then have "extends s root U s2 U'" using mapped(2,3) by (simp add: extends_def)
    moreover have "space s2 root q = space s root q \<and> translate s2 root q = translate s root q" if "full q" "q \<noteq> path va" for q
      using mapped(5,6) [OF that(1)] that(2) space_same [of ?s1 s] by (simp add: translate_def)
    moreover have "translate s2 root (path va) = Some ((f OR flags) AND PAGE_MASK)"
      using mapped(6) [OF full_path [OF va]] by simp
    moreover have "((f OR flags) AND PAGE_MASK) AND PHYS_MASK = f"
      using fl(1) owned_phys [OF fo(1)] by (simp add: bit.conj_disj_distrib2)
    ultimately show ?thesis using that(2) mapped(1,7) fo by blast
  qed
qed

lemma load_page_cases:
  assumes inv: "as_inv s root U" "pages_ok s root U" and ok: "segment_ok d seg" and i: "4096 * i < unat (p_memsz seg)"
  defines "pv \<equiv> (p_vaddr seg + word_of_nat (4096 * i)) AND PAGE_MASK"
  obtains (failed) s' U' where "load_page root d seg pv s = Some (False, s')" and "extends s root U s' U'" and "needs 4 s False s'"
  | (loaded) s' U' where "load_page root d seg pv s = Some (True, s')" and "extends s root U s' U'" and "needs 4 s True s'"
      and "\<And>q. full q \<Longrightarrow> space s' root q = ((space s root)(path pv \<mapsto> segment_bytes d seg pv)) q"
proof -
  note pv = segment_page [OF ok i, folded pv_def]
  have ov: "unat (p_vaddr seg) < unat pv + 4096" "unat pv < unat (p_vaddr seg) + unat (p_memsz seg)" "0 < unat (p_memsz seg)"
    using i unfolding pv(1) by linarith+
  have pm: "pmm_inv (vm_pmm s)" using inv by (simp add: as_inv_def)
  note tk = load_page_takes [OF pm]
  obtain f m0 where a: "pmm_alloc_frame (vm_pmm s) = Some (f, m0)" using pmm.alloc_returns [OF pm] by blast
  show ?thesis
  proof (cases "f = 0")
    case True
    have m0: "m0 = vm_pmm s" using pmm.alloc_null [OF pm] a True by simp
    then have r: "load_page root d seg pv s = Some (False, s)" using a True by (simp add: load_page_def Let_def)
    have "needs 4 s False s" using no_free_frames [OF pm] a True m0 tk [OF r] by (simp add: needs_def)
    then show ?thesis using failed [OF r] extends_refl [OF inv] by blast
  next
    case False
    let ?fl = "segment_page_flags (p_flags seg)"
    show ?thesis
    proof (cases rule: alloc_and_map [OF inv pv(4) segment_flags_ok [of "p_flags seg"] a False, case_names failed mapped])
      case (failed s2 U' pm')
      then have r: "load_page root d seg pv s = Some (False, s2\<lparr>vm_pmm := pm'\<rparr>)" using a False by (simp add: load_page_def Let_def)
      then show ?thesis using that(1) [OF r failed(3)] tk [OF r] failed(4) by (simp add: needs_def)
    next
      case (mapped s2 U')
      have s2: "as_inv s2 root U'" "pages_ok s2 root U'" "keeps s U s2 U'" using mapped(2) by (simp_all add: extends_def)
      have c2: "cached s2" by (rule as_inv_cached [OF s2(1)])
      obtain off fo n where r: "copy_range seg pv = (off, fo, n)" by (cases "copy_range seg pv") auto
      note pl = page_loaded(1) [OF ok pv(3,2) ov mapped(5) r, where m = "vm_mem s2"] page_loaded(2) [OF ok pv(3,2) ov mapped(5) r]
      let ?m0 = "fill (vm_mem s2) f 0 4096"
      have fin: thesis if m: "only_frame f (vm_mem s2) m" "frame_bytes m f = segment_bytes d seg pv"
        and lp: "load_page root d seg pv s = Some (True, s2\<lparr>vm_mem := m\<rparr>)" for m
      proof -
        note fm = fill_mapped [OF s2(1,2) full_path [OF pv(4)] mapped(4,7) m(1) refl s2(3) mapped(6)]
        have "extends s root U (s2\<lparr>vm_mem := m\<rparr>) U'" using fm(1,2,3) by (simp add: extends_def)
        moreover have "space (s2\<lparr>vm_mem := m\<rparr>) root q = ((space s root)(path pv \<mapsto> segment_bytes d seg pv)) q" if "full q" for q
          using fm(4) [OF that] m(2) mapped(3) [OF that] by simp
        ultimately show ?thesis using loaded [OF lp] tk [OF lp] by (simp add: needs_def)
      qed
      show ?thesis
      proof (cases "n = 0")
        case True
        have "load_page root d seg pv s = Some (True, s2\<lparr>vm_mem := ?m0\<rparr>)"
          using a False mapped(1) c2 r True
          by (simp add: load_page_def Let_def phys_to_virt_cached hhdm_memset_frame PAGE_SIZE_def)
        then show ?thesis
          using fin [of ?m0] fill_only [OF mapped(5)] frame_bytes_fill [OF mapped(5)] pl(2) [OF True] by simp
      next
        case n: False
        obtain bs where bs: "file_slice d (unat fo) (unat n) = Some bs"
          "only_frame f (vm_mem s2) (store_bytes ?m0 (f + off) bs)"
          "frame_bytes (store_bytes ?m0 (f + off) bs) f = segment_bytes d seg pv"
          using pl(1) [OF n] by blast
        have "f + hhdm_offset s2 + off - hhdm_offset s2 = f + off" by simp
        then have "load_page root d seg pv s = Some (True, s2\<lparr>vm_mem := store_bytes ?m0 (f + off) bs\<rparr>)"
          using a False mapped(1) c2 r n bs(1)
          by (simp add: load_page_def Let_def phys_to_virt_cached hhdm_memset_frame PAGE_SIZE_def hhdm_store_def word_gt_0)
        then show ?thesis using fin bs(2,3) by blast
      qed
    qed
  qed
qed

lemma put_pages_Nil [simp]: "put_pages g [] m = m"
  by (simp add: put_pages_def)

lemma put_pages_Cons [simp]: "put_pages g (pv # pvs) m = put_pages g pvs (m(path pv \<mapsto> g pv))"
  by (simp add: put_pages_def)

lemma put_pages_cong:
  assumes "m q = m' q"
  shows "put_pages g pvs m q = put_pages g pvs m' q"
  using assms
proof (induction pvs arbitrary: m m')
  case (Cons pv pvs)
  show ?case unfolding put_pages_Cons by (rule Cons.IH) (use Cons.prems in \<open>simp only: fun_upd_apply\<close>)
qed simp

lemma image_Nil [simp]: "image d [] m = m"
  by (simp add: image_def)

lemma image_Cons [simp]: "image d (seg # segs) m = image d segs (put_pages (segment_bytes d seg) (segment_pages seg) m)"
  by (simp add: image_def)

lemma image_cong:
  assumes "m q = m' q"
  shows "image d segs m q = image d segs m' q"
  using assms
proof (induction segs arbitrary: m m')
  case (Cons seg segs)
  show ?case unfolding image_Cons by (intro Cons.IH put_pages_cong Cons.prems)
qed simp

definition page_count :: "segment \<Rightarrow> nat" where
  "page_count seg = (unat (p_memsz seg) + 4095) div 4096"

definition image_pages :: "segment list \<Rightarrow> nat" where
  "image_pages segs = sum_list (map page_count segs)"

lemma load_pages_result:
  assumes "as_inv s root U" "pages_ok s root U" and ok: "segment_ok d seg" and "i \<le> page_count seg"
  shows "\<exists>okay s' U'. load_pages root d seg (word_of_nat (4096 * i)) s = Some (okay, s') \<and> extends s root U s' U' \<and>
    needs (4 * (page_count seg - i)) s okay s' \<and> (okay \<longrightarrow> (\<forall>q. full q \<longrightarrow> space s' root q = put_pages (segment_bytes d seg)
      (map (\<lambda>i. (p_vaddr seg + word_of_nat (4096 * i)) AND PAGE_MASK) [i..<page_count seg]) (space s root) q))"
  using assms(1,2,4)
proof (induction "page_count seg - i" arbitrary: i s U)
  case 0
  then have "i = page_count seg" by simp
  moreover have "unat (p_memsz seg) \<le> 0x7FFF8000" using ok by (simp add: segment_ok_def stack_bottom)
  ultimately have "unat (word_of_nat (4096 * i) :: u64) = 4096 * i" "unat (p_memsz seg) \<le> 4096 * i"
    unfolding unat_of_nat page_count_def by auto
  then have "\<not> word_of_nat (4096 * i) < p_memsz seg" by (simp add: word_less_nat_alt del: of_nat_mult)
  then have "load_pages root d seg (word_of_nat (4096 * i)) s = Some (True, s)" by (simp add: load_pages.simps del: of_nat_mult)
  then show ?case using extends_refl [OF 0(2,3)] needs_refl [OF as_inv_pmm [OF 0(2)]] \<open>i = page_count seg\<close> by auto
next
  case (Suc n)
  then have i: "i < page_count seg" and n: "n = page_count seg - Suc i" by simp_all
  have m: "unat (p_memsz seg) \<le> 0x7FFF8000" using ok by (simp add: segment_ok_def stack_bottom)
  have lt: "4096 * i < unat (p_memsz seg)" using i unfolding page_count_def by auto
  then have "unat (word_of_nat (4096 * i) :: u64) = 4096 * i" using m by (simp add: unat_of_nat del: of_nat_mult)
  then have w: "word_of_nat (4096 * i) < p_memsz seg" using lt by (simp add: word_less_nat_alt del: of_nat_mult)
  have next_off: "word_of_nat (4096 * i) + 4096 = (word_of_nat (4096 * Suc i) :: u64)" by simp
  let ?pv = "(p_vaddr seg + word_of_nat (4096 * i)) AND PAGE_MASK"
  have split: "[i..<page_count seg] = i # [Suc i..<page_count seg]" using i by (simp add: upt_conv_Cons)
  show ?case
  proof (cases rule: load_page_cases [OF Suc.prems(1,2) ok lt, case_names failed loaded])
    case (failed s' U')
    have "load_pages root d seg (word_of_nat (4096 * i)) s = Some (False, s')"
      using w failed(1) by (simp add: load_pages.simps [of root d seg "word_of_nat (4096 * i)"] del: of_nat_mult)
    moreover have "needs (4 * (page_count seg - i)) s False s'" by (rule needs_mono [OF failed(3)]) (use i in simp)
    ultimately show ?thesis using failed(2) by blast
  next
    case (loaded s1 U1)
    have e: "as_inv s1 root U1" "pages_ok s1 root U1" using loaded(2) by (simp_all add: extends_def)
    obtain okay s' U' where r: "load_pages root d seg (word_of_nat (4096 * Suc i)) s1 = Some (okay, s')"
      "extends s1 root U1 s' U'" "needs (4 * (page_count seg - Suc i)) s1 okay s'"
      "okay \<longrightarrow> (\<forall>q. full q \<longrightarrow> space s' root q = put_pages (segment_bytes d seg)
        (map (\<lambda>i. (p_vaddr seg + word_of_nat (4096 * i)) AND PAGE_MASK) [Suc i..<page_count seg]) (space s1 root) q)"
      using Suc.hyps(1) [OF n e] i by auto
    have "load_pages root d seg (word_of_nat (4096 * i)) s = Some (okay, s')"
      using w loaded(1) r(1) by (simp add: load_pages.simps [of root d seg "word_of_nat (4096 * i)"] next_off del: of_nat_mult of_nat_Suc mult_Suc_right)
    moreover have "space s' root q = put_pages (segment_bytes d seg)
        (map (\<lambda>i. (p_vaddr seg + word_of_nat (4096 * i)) AND PAGE_MASK) [i..<page_count seg]) (space s root) q"
      if "okay" "full q" for q
      using r(4) that put_pages_cong [of "space s1 root" q "(space s root)(path ?pv \<mapsto> segment_bytes d seg ?pv)", OF loaded(4) [OF that(2)]]
      by (simp add: split)
    moreover have "4 + 4 * (page_count seg - Suc i) = 4 * (page_count seg - i)" using i by simp
    then have "needs (4 * (page_count seg - i)) s okay s'" using needs_trans [OF loaded(3) r(3)] by simp
    ultimately show ?thesis using extends_trans [OF loaded(2) r(2)] by blast
  qed
qed

text \<open>The segments the loop over the program headers loads.\<close>

fun loadable :: "bytes \<Rightarrow> nat list \<Rightarrow> segment list option" where
  "loadable d [] = Some []"
| "loadable d (ph # phs) = do {
     type \<leftarrow> p_type64 d ph;
     segs \<leftarrow> loadable d phs;
     if type \<noteq> PT_LOAD then Some segs
     else do { seg \<leftarrow> read_segment d ph; Some (if p_memsz seg = 0 then segs else seg # segs) } }"

lemma load_segments_result:
  assumes "as_inv s root U" "pages_ok s root U" and "loadable d phs = Some segs" and "\<forall>seg \<in> set segs. segment_ok d seg"
  shows "\<exists>okay s' U'. load_segments root d phs s = Some (okay, s') \<and> extends s root U s' U' \<and>
    needs (4 * image_pages segs) s okay s' \<and> (okay \<longrightarrow> (\<forall>q. full q \<longrightarrow> space s' root q = image d segs (space s root) q))"
  using assms
proof (induction phs arbitrary: s U segs)
  case Nil
  then show ?case using extends_refl [OF Nil.prems(1,2)] needs_refl [OF as_inv_pmm [OF Nil.prems(1)]] by (auto simp: image_pages_def)
next
  case (Cons ph phs)
  obtain type segs1 where t: "p_type64 d ph = Some type" "loadable d phs = Some segs1"
    using Cons.prems(3) unfolding loadable.simps(2) bind_eq_Some_conv by blast
  show ?case
  proof (cases "load_segment root d ph s = Some (True, s) \<and> segs = segs1")
    case True
    then show ?thesis using Cons.IH [OF Cons.prems(1,2) t(2)] Cons.prems(4) by simp
  next
    case False
    then obtain seg where seg: "type = PT_LOAD" "read_segment d ph = Some seg" "p_memsz seg \<noteq> 0" "segs = seg # segs1"
      using Cons.prems(3) t by (auto simp: load_segment_def split: Option.bind_splits if_splits)
    then have ls: "load_segment root d ph s = load_pages root d seg 0 s" using t by (simp add: load_segment_def)
    have ok: "segment_ok d seg" "\<forall>seg \<in> set segs1. segment_ok d seg" using Cons.prems(4) seg(4) by simp_all
    obtain okay s1 U1 where r: "load_pages root d seg 0 s = Some (okay, s1)" "extends s root U s1 U1"
      "needs (4 * page_count seg) s okay s1" "okay \<longrightarrow> (\<forall>q. full q \<longrightarrow> space s1 root q = put_pages (segment_bytes d seg) (segment_pages seg) (space s root) q)"
      using load_pages_result [OF Cons.prems(1,2) ok(1), of 0] by (auto simp: segment_pages_def page_count_def)
    have e: "as_inv s1 root U1" "pages_ok s1 root U1" using r(2) by (simp_all add: extends_def)
    show ?thesis
    proof (cases okay)
      case True
      obtain okay' s' U' where r': "load_segments root d phs s1 = Some (okay', s')" "extends s1 root U1 s' U'"
        "needs (4 * image_pages segs1) s1 okay' s'" "okay' \<longrightarrow> (\<forall>q. full q \<longrightarrow> space s' root q = image d segs1 (space s1 root) q)"
        using Cons.IH [OF e t(2) ok(2)] by blast
      have "space s' root q = image d segs (space s root) q" if "okay'" "full q" for q
        using r'(4) that r(4) True image_cong [of "space s1 root" q] by (simp add: seg(4))
      moreover have "needs (4 * image_pages segs) s okay' s'"
        using needs_trans [OF _ r'(3), of "4 * page_count seg" s] r(3) True by (simp add: seg(4) image_pages_def)
      ultimately show ?thesis using True ls r(1) r'(1) extends_trans [OF r(2) r'(2)] by auto
    next
      case False
      moreover have "needs (4 * image_pages segs) s okay s1"
        by (rule needs_mono [OF r(3)]) (simp add: seg(4) image_pages_def)
      ultimately show ?thesis using ls r(1,2) by auto
    qed
  qed
qed

section \<open>The stack\<close>

lemma stack_flags_ok: "(PTE_PRESENT OR PTE_USER OR PTE_WRITABLE) AND PHYS_MASK = 0" "present (PTE_PRESENT OR PTE_USER OR PTE_WRITABLE)"
  by (simp_all add: PTE_PRESENT_def PTE_USER_def PTE_WRITABLE_def PHYS_MASK_def present_def)

definition stack_entry :: "vm \<Rightarrow> u64 \<Rightarrow> nat list \<Rightarrow> bool" where
  "stack_entry s root q \<longleftrightarrow> (case translate s root q of None \<Rightarrow> False
     | Some p \<Rightarrow> p AND PHYS_MASK = p \<and> p \<noteq> 0 \<and> p \<in> managed (vm_pmm s))"

definition stack_added :: "u64 \<Rightarrow> u64 list \<Rightarrow> vm \<Rightarrow> vm \<Rightarrow> bool" where
  "stack_added root vs s s' \<longleftrightarrow> (\<forall>q. full q \<longrightarrow> (q \<in> path ` set vs \<longrightarrow> stack_entry s' root q) \<and>
     (q \<notin> path ` set vs \<longrightarrow> space s' root q = space s root q \<and> translate s' root q = translate s root q))"

lemma stack_added_Cons:
  assumes "stack_added root vs s2 s'" and "stack_entry s2 root (path va)" and "managed (vm_pmm s') = managed (vm_pmm s2)"
    and "\<And>q. full q \<Longrightarrow> q \<noteq> path va \<Longrightarrow> space s2 root q = space s root q \<and> translate s2 root q = translate s root q"
  shows "stack_added root (va # vs) s s'"
  unfolding stack_added_def
proof (intro allI impI)
  fix q assume q: "full q"
  have "stack_entry s' root q" if "q \<in> path ` set (va # vs)"
  proof (cases "q \<in> path ` set vs")
    case False
    then have "translate s' root q = translate s2 root q" using assms(1) q by (simp add: stack_added_def)
    moreover have "q = path va" using that False by simp
    ultimately show ?thesis using assms(2,3) by (simp add: stack_entry_def split: option.splits)
  qed (use assms(1) q in \<open>simp add: stack_added_def\<close>)
  moreover have "space s' root q = space s root q \<and> translate s' root q = translate s root q" if "q \<notin> path ` set (va # vs)"
    using assms(1) assms(4) [OF q] q that unfolding stack_added_def by auto
  ultimately show "(q \<in> path ` set (va # vs) \<longrightarrow> stack_entry s' root q) \<and>
      (q \<notin> path ` set (va # vs) \<longrightarrow> space s' root q = space s root q \<and> translate s' root q = translate s root q)" by blast
qed

lemma map_stack_result:
  assumes "as_inv s root U" "pages_ok s root U" and "\<forall>va \<in> set vs. user_address va"
  shows "\<exists>okay s' U'. map_stack root vs s = Some (okay, s') \<and> extends s root U s' U' \<and>
    needs (4 * length vs) s okay s' \<and> (okay \<longrightarrow> stack_added root vs s s')"
  using assms
proof (induction vs arbitrary: s U)
  case Nil
  then show ?case using extends_refl [OF Nil.prems(1,2)] needs_refl [OF as_inv_pmm [OF Nil.prems(1)]] by (auto simp: stack_added_def)
next
  case (Cons va vs)
  have pm: "pmm_inv (vm_pmm s)" by (rule as_inv_pmm [OF Cons.prems(1)])
  have va: "user_address va" using Cons.prems(3) by simp
  obtain f m0 where a: "pmm_alloc_frame (vm_pmm s) = Some (f, m0)" using pmm.alloc_returns [OF pm] by blast
  show ?case
  proof (cases "f = 0")
    case True
    then have m0: "m0 = vm_pmm s" using pmm.alloc_null [OF pm] a by simp
    then have r: "stack_page root va s = Some (False, s)" using a True by (simp add: stack_page_def)
    have "needs (4 * length (va # vs)) s False s"
      using no_free_frames [OF pm] a True m0 takes_mono [OF takes_refl [OF pm]] by (simp add: needs_def)
    then show ?thesis using r extends_refl [OF Cons.prems(1,2)] by auto
  next
    case False
    show ?thesis
    proof (cases rule: alloc_and_map [OF Cons.prems(1,2) va stack_flags_ok a False, case_names failed mapped])
      case (failed s2 U' pm')
      then have r: "stack_page root va s = Some (False, s2\<lparr>vm_pmm := pm'\<rparr>)" using a False by (simp add: stack_page_def)
      have "needs 4 s False (s2\<lparr>vm_pmm := pm'\<rparr>)" using stack_page_takes [OF pm r] failed(4) by (simp add: needs_def)
      then have "needs (4 * length (va # vs)) s False (s2\<lparr>vm_pmm := pm'\<rparr>)" by (rule needs_mono) simp
      then show ?thesis using r failed(3) by auto
    next
      case (mapped s2 U')
      have e: "as_inv s2 root U'" "pages_ok s2 root U'" using mapped(2) by (simp_all add: extends_def)
      have sp: "stack_page root va s = Some (True, s2)" using a False mapped(1) by (simp add: stack_page_def)
      have t2: "takes 4 s s2" by (rule stack_page_takes [OF pm sp])
      have "(f OR (PTE_PRESENT OR PTE_USER OR PTE_WRITABLE)) AND PAGE_MASK = f"
        by (rule mask_aligned_or [OF mapped(5)]) (simp add: PTE_PRESENT_def PTE_USER_def PTE_WRITABLE_def PAGE_MASK_def)
      moreover have "f \<in> managed (vm_pmm s2)" using pmm.alloc_managed [OF pm a False] takes_managed [OF t2] by simp
      ultimately have va2: "stack_entry s2 root (path va)" using mapped(4,7) False by (simp add: stack_entry_def)
      obtain okay s' U2 where r: "map_stack root vs s2 = Some (okay, s')" "extends s2 root U' s' U2"
        "needs (4 * length vs) s2 okay s'" "okay \<longrightarrow> stack_added root vs s2 s'"
        using Cons.IH [OF e] Cons.prems(3) by auto
      have "map_stack root (va # vs) s = Some (okay, s')" using sp r(1) by simp
      moreover have "okay \<longrightarrow> stack_added root (va # vs) s s'" 
        using stack_added_Cons [OF _ va2 takes_managed mapped(3)] r(3,4) by (auto simp: needs_def)
      moreover have "needs 4 s True s2" using t2 by (simp add: needs_def)
      then have "needs (4 * length (va # vs)) s okay s'" using needs_trans [OF _ r(3), of 4 s] by simp
      ultimately show ?thesis using extends_trans [OF mapped(2) r(2)] by blast
    qed
  qed
qed

lemma length_stack_pages: "length stack_pages = 8"
  by (simp add: stack_pages_def user_stack)

lemma stack_pages_ok:
  assumes "va \<in> set stack_pages"
  shows "user_address va" and "page_aligned va" and "unat USER_STACK_BOTTOM_VADDR \<le> unat va" and "va < 0x80000000"
proof -
  have "set stack_pages = {0x7FFF8000, 0x7FFF9000, 0x7FFFA000, 0x7FFFB000, 0x7FFFC000, 0x7FFFD000, 0x7FFFE000, 0x7FFFF000}"
    by (simp add: stack_pages_def user_stack upt_rec)
  then show "va < 0x80000000" "page_aligned va" "unat USER_STACK_BOTTOM_VADDR \<le> unat va"
    using assms by (auto simp: page_aligned_def stack_bottom)
  then show "user_address va" by (intro low_user_address) (simp add: word_less_nat_alt)
qed

text \<open>The stack pages map frames of the allocator, without attributes.\<close>

definition stack_plain :: "vm \<Rightarrow> u64 \<Rightarrow> bool" where
  "stack_plain s root \<longleftrightarrow> (\<forall>va \<in> set stack_pages. \<forall>p. translate s root (path va) = Some p \<longrightarrow>
     p AND PHYS_MASK = p \<and> p \<noteq> 0 \<and> p \<in> managed (vm_pmm s))"

lemma path_inj:
  assumes "path va = path vb" and "page_aligned va" "page_aligned vb" and "va < 0x800000000000" "vb < 0x800000000000"
  shows "va = vb"
proof (rule address_eqI [OF assms(1) _ assms(4,5)])
  have "va AND 0xFFF = 0" if "page_aligned va" for va
    using same_page(2) [OF that, of 0] by simp
  then show "va AND 0xFFF = vb AND 0xFFF" using assms(2,3) by simp
qed

section \<open>The image of a program\<close>

definition header_table :: "u64 \<Rightarrow> u16 \<Rightarrow> nat list" where
  "header_table phoff phnum = map (\<lambda>i. unat phoff + i * SIZEOF_PHDR64) [0..<unat phnum]"

lemma exec_image_result:
  assumes c: "cached s" "pmm_inv (vm_pmm s)" and kt: "kernel_table_ok s"
    and hdr: "e_phoff64 d = Some phoff" "e_phnum64 d = Some phnum"
    and segs: "loadable d (header_table phoff phnum) = Some segs" "\<forall>seg \<in> set segs. segment_ok d seg"
  shows "\<exists>r s'. exec_image d n s = Some (r, s') \<and> cr3 s' = cr3 s \<and>
    (\<forall>u \<in> owned (vm_pmm s). frame_bytes (vm_mem s') u = frame_bytes (vm_mem s) u) \<and>
    (case r of None \<Rightarrow> word_of_nat n < phoff + ucast phnum * word_of_nat SIZEOF_PHDR64 \<or>
        card (free_frames (vm_pmm s)) \<le> 33 + 4 * image_pages segs
     | Some root \<Rightarrow> (\<exists>U. as_inv s' root U \<and> pages_ok s' root U) \<and>
        (\<forall>q. full q \<longrightarrow> (if q \<in> path ` set stack_pages then stack_entry s' root q
          else space s' root q = image d segs (\<lambda>_. None) q)))"
proof (cases rule: create_space [OF c kt, case_names oom created])
  case oom
  then show ?thesis using no_free_frames [OF c(2)] by (simp add: exec_image_def)
next
  case (created root s1)
  let ?short = "(word_of_nat n :: u64) < phoff + ucast phnum * word_of_nat SIZEOF_PHDR64"
  have keep: "frame_bytes (vm_mem s') u = frame_bytes (vm_mem s) u" if "extends s1 root {root} s' U" "u \<in> owned (vm_pmm s)" for s' U u
    using keeps_trans [OF created(5), of s' U] that by (simp add: extends_def keeps_def)
  have cr: "cr3 s' = cr3 s" if "extends s1 root {root} s' U" for s' U
    using keeps_trans [OF created(5), of s' U] that by (simp add: extends_def keeps_def)
  obtain ok1 s2 U2 where l: "load_segments root d (header_table phoff phnum) s1 = Some (ok1, s2)" "extends s1 root {root} s2 U2"
    "needs (4 * image_pages segs) s1 ok1 s2" "ok1 \<longrightarrow> (\<forall>q. full q \<longrightarrow> space s2 root q = image d segs (space s1 root) q)"
    using load_segments_result [OF created(3,4) segs] by blast
  have e2: "as_inv s2 root U2" "pages_ok s2 root U2" using l(2) by (simp_all add: extends_def)
  obtain ok2 s3 U3 where t: "map_stack root stack_pages s2 = Some (ok2, s3)" "extends s2 root U2 s3 U3"
    "needs (4 * 8) s2 ok2 s3" "ok2 \<longrightarrow> stack_added root stack_pages s2 s3"
    using map_stack_result [OF e2] stack_pages_ok(1) length_stack_pages by metis
  have t0: "takes 1 s s1" by (rule created_takes [OF c(2) created(1)])
  have few: "card (free_frames (vm_pmm s)) \<le> 33 + 4 * image_pages segs" if "\<not> ok1 \<or> ok1 \<and> \<not> ok2"
    using that t0 l(3) t(3) by (auto simp: needs_def takes_def)
  have run: "exec_image d n s = (if ?short then Some (None, s1) else if \<not> ok1 then Some (None, s2)
      else Some (if ok2 then Some root else None, s3))"
    using created(1,2) hdr l(1) t(1) by (simp add: exec_image_def header_table_def)
  have img: "if q \<in> path ` set stack_pages then stack_entry s3 root q else space s3 root q = image d segs (\<lambda>_. None) q"
    if "ok1" "ok2" "full q" for q
    using that l(4) t(4) image_cong [of "space s1 root" q "\<lambda>_. None", OF created(6) [OF that(3)]]
    by (simp add: stack_added_def)
  have k1: "extends s1 root {root} s1 {root}" using extends_refl created(3,4) by blast
  note k3 = extends_trans [OF l(2) t(2)]
  consider "?short" | "\<not> ?short" "\<not> ok1" | "\<not> ?short" "ok1" "\<not> ok2" | "\<not> ?short" "ok1" "ok2" by blast
  then show ?thesis
  proof cases
    case 1
    then show ?thesis using run keep [OF k1] cr [OF k1] by simp
  next
    case 2
    then show ?thesis using run keep [OF l(2)] cr [OF l(2)] few by simp
  next
    case 3
    then show ?thesis using run keep [OF k3] cr [OF k3] few by simp
  next
    case 4
    have "as_inv s3 root U3" "pages_ok s3 root U3" using t(2) by (simp_all add: extends_def)
    then show ?thesis using 4 run keep [OF k3] cr [OF k3] img by auto
  qed
qed

text \<open>The example: one segment, and memory enough.\<close>

lemma elf_example_loadable:
  assumes "d = elf_example @ rest" and "length d < 2 ^ 32"
  shows "loadable d (header_table 64 1) = Some [segment_example]" and "segment_ok d segment_example"
    and "image_pages [segment_example] = 1"
proof -
  have "header_table 64 1 = [64]" by (simp add: header_table_def SIZEOF_PHDR64_def)
  then show "loadable d (header_table 64 1) = Some [segment_example]"
    using elf_example_segment(4,5) [OF assms(1)] by (simp add: segment_example_def)
  show "segment_ok d segment_example"
    using assms by (simp add: segment_ok_def segment_example_def stack_bottom length_elf_example)
  show "image_pages [segment_example] = 1" by (simp add: image_pages_def page_count_def segment_example_def)
qed

lemma code_page_no_stack: "path 0x401000 \<notin> path ` set stack_pages"
proof
  assume "path 0x401000 \<in> path ` set stack_pages"
  then obtain va where va: "va \<in> set stack_pages" "path 0x401000 = path va" by auto
  have "va = 0x401000"
    by (rule path_inj) (use va stack_pages_ok [OF va(1)] in \<open>auto simp: page_aligned_def word_less_nat_alt\<close>)
  then show False using stack_pages_ok(3) [OF va(1)] by (simp add: stack_bottom)
qed

lemma elf_example_runs:
  assumes d: "d = elf_example @ rest" "length d < 2 ^ 32"
  obtains root s' U where "exec_image d 122 vm_large = Some (Some root, s')" and "cr3 s' = cr3 vm_large" and "as_inv s' root U" and "pages_ok s' root U"
    and "stack_plain s' root"
    and "space s' root (path 0x401000) = Some (segment_bytes d segment_example 0x401000)"
proof -
  note e = elf_example_segment [OF d(1)] and l = elf_example_loadable [OF d]
  obtain r s' where r: "exec_image d 122 vm_large = Some (r, s')" and cr: "cr3 s' = cr3 vm_large" and r2:
    "case r of None \<Rightarrow> (word_of_nat 122 :: u64) < 64 + ucast (1 :: u16) * word_of_nat SIZEOF_PHDR64 \<or> card (free_frames (vm_pmm vm_large)) \<le> 33 + 4 * image_pages [segment_example]
     | Some root \<Rightarrow> (\<exists>U. as_inv s' root U \<and> pages_ok s' root U) \<and>
        (\<forall>q. full q \<longrightarrow> (if q \<in> path ` set stack_pages then stack_entry s' root q
          else space s' root q = image d [segment_example] (\<lambda>_. None) q))"
    using exec_image_result [OF vm_large_ok(1,2,3) e(1,2) l(1), of 122] l(2) by auto
  have "r \<noteq> None" using r2 vm_large_free l(3) by (cases r) (simp_all add: SIZEOF_PHDR64_def)
  then obtain root where root: "r = Some root" by blast
  have "stack_plain s' root"
    unfolding stack_plain_def using r2 root full_path [OF stack_pages_ok(1)] by (fastforce simp: stack_entry_def)
  moreover have "segment_pages segment_example = [0x401000]"
    by (simp add: segment_pages_def segment_example_def PAGE_MASK_def)
  then have "image d [segment_example] (\<lambda>_. None) (path 0x401000) = Some (segment_bytes d segment_example 0x401000)" by simp
  moreover note code_page_no_stack
  moreover have "full (path 0x401000)" by (rule full_path) (simp add: user_address_def pml4_index_def)
  ultimately show ?thesis using that [of root s'] r r2 cr root by auto
qed

section \<open>The bytes of a program\<close>

text \<open>No page of one segment is touched by the other.\<close>

definition page_apart :: "segment \<Rightarrow> segment \<Rightarrow> bool" where
  "page_apart a b \<longleftrightarrow> (unat (p_vaddr a) + unat (p_memsz a) - 1) div 4096 < unat (p_vaddr b) div 4096 \<or>
     (unat (p_vaddr b) + unat (p_memsz b) - 1) div 4096 < unat (p_vaddr a) div 4096"

lemma segment_pages_number:
  assumes ok: "segment_ok d seg"
  shows "map unat (segment_pages seg) = map (\<lambda>i. (unat (p_vaddr seg) div 4096 + i) * 4096) [0..<page_count seg]"
proof (rule nth_equalityI)
  fix i assume "i < length (map unat (segment_pages seg))"
  then have i: "i < page_count seg" by (simp add: segment_pages_def page_count_def)
  then have "4096 * i < unat (p_memsz seg)" unfolding page_count_def by auto
  from segment_page(1) [OF ok this] i
  show "map unat (segment_pages seg) ! i = map (\<lambda>i. (unat (p_vaddr seg) div 4096 + i) * 4096) [0..<page_count seg] ! i"
    by (simp add: segment_pages_def page_count_def)
qed (simp add: segment_pages_def page_count_def)

lemma segment_pages_iff:
  assumes ok: "segment_ok d seg" and pv: "page_aligned pv"
  shows "pv \<in> set (segment_pages seg) \<longleftrightarrow>
    unat (p_vaddr seg) div 4096 \<le> unat pv div 4096 \<and> unat pv div 4096 < unat (p_vaddr seg) div 4096 + page_count seg"
proof -
  have "pv \<in> set (segment_pages seg) \<longleftrightarrow> unat pv \<in> unat ` set (segment_pages seg)" by (auto dest: word_unat_eq_iff [THEN iffD2])
  also have "\<dots> \<longleftrightarrow> (\<exists>i < page_count seg. unat pv = (unat (p_vaddr seg) div 4096 + i) * 4096)"
    using arg_cong [OF segment_pages_number [OF ok], of set] by auto
  also have "\<dots> \<longleftrightarrow> (\<exists>i < page_count seg. unat pv div 4096 = unat (p_vaddr seg) div 4096 + i)"
    using page_aligned_div [OF pv] by (metis nonzero_mult_div_cancel_right zero_neq_numeral)
  also have "\<dots> \<longleftrightarrow> unat (p_vaddr seg) div 4096 \<le> unat pv div 4096 \<and> unat pv div 4096 < unat (p_vaddr seg) div 4096 + page_count seg"
    by (auto intro!: exI [of _ "unat pv div 4096 - unat (p_vaddr seg) div 4096"])
  finally show ?thesis .
qed

lemma segment_pages_ok:
  assumes "segment_ok d seg" and "pv \<in> set (segment_pages seg)"
  shows "page_aligned pv" and "unat pv < unat USER_STACK_BOTTOM_VADDR" and "user_address pv"
proof -
  obtain i where "i < page_count seg" "pv = (p_vaddr seg + word_of_nat (4096 * i)) AND PAGE_MASK"
    using assms(2) by (auto simp: segment_pages_def page_count_def)
  moreover from this(1) have "4096 * i < unat (p_memsz seg)" unfolding page_count_def by auto
  ultimately show "page_aligned pv" "unat pv < unat USER_STACK_BOTTOM_VADDR" "user_address pv"
    using segment_page [OF assms(1)] by blast+
qed

lemma put_pages_other: "(\<forall>pv \<in> set pvs. path pv \<noteq> q) \<Longrightarrow> put_pages g pvs m q = m q"
  by (induction pvs arbitrary: m) auto

lemma put_pages_page: "pv \<in> set pvs \<Longrightarrow> (\<forall>pv' \<in> set pvs. path pv' = path pv \<longrightarrow> pv' = pv) \<Longrightarrow>
    put_pages g pvs m (path pv) = Some (g pv)"
proof (induction pvs arbitrary: m)
  case (Cons x pvs)
  show ?case
  proof (cases "pv \<in> set pvs")
    case True
    then show ?thesis using Cons by simp
  next
    case False
    then have "x = pv" "\<forall>pv' \<in> set pvs. path pv' \<noteq> path pv" using Cons.prems by auto
    then show ?thesis by (simp add: put_pages_other)
  qed
qed simp

lemma image_other: "(\<forall>seg \<in> set segs. \<forall>pv \<in> set (segment_pages seg). path pv \<noteq> q) \<Longrightarrow> image d segs m q = m q"
  by (induction segs arbitrary: m) (simp_all add: put_pages_other)

lemma image_page:
  assumes "seg \<in> set segs" and "pv \<in> set (segment_pages seg)" and "\<forall>pv' \<in> set (segment_pages seg). path pv' = path pv \<longrightarrow> pv' = pv"
    and "\<forall>seg' \<in> set segs. seg' \<noteq> seg \<longrightarrow> (\<forall>pv' \<in> set (segment_pages seg'). path pv' \<noteq> path pv)"
  shows "image d segs m (path pv) = Some (segment_bytes d seg pv)"
  using assms(1,4)
proof (induction segs arbitrary: m)
  case (Cons x segs)
  show ?case
  proof (cases "seg \<in> set segs")
    case True
    then show ?thesis using Cons by simp
  next
    case False
    then have "x = seg" "\<forall>seg' \<in> set segs. \<forall>pv' \<in> set (segment_pages seg'). path pv' \<noteq> path pv" using Cons.prems by auto
    then show ?thesis by (simp add: image_other put_pages_page [OF assms(2,3)])
  qed
qed simp

text \<open>An address: its page and its offset there.\<close>

lemma address_page:
  fixes va :: u64
  shows "page_aligned (va AND PAGE_MASK)" and "path va = path (va AND PAGE_MASK)"
    and "unat (va AND 0xFFF) = unat va mod 4096" and "unat (va AND PAGE_MASK) div 4096 = unat va div 4096"
    and "unat (va AND PAGE_MASK) + unat va mod 4096 = unat va"
proof -
  show al: "page_aligned (va AND PAGE_MASK)" by (rule page_mask_aligned)
  have m: "unat va mod 4096 < 4096" by simp
  have w: "unat (word_of_nat (unat va mod 4096) :: u64) = unat va mod 4096" unfolding unat_of_nat by simp
  have sum: "unat (x + y) = (unat x + unat y) mod 2 ^ 64" for x y :: u64 by (simp add: unat_word_ariths)
  have "unat ((va AND PAGE_MASK) + word_of_nat (unat va mod 4096)) = unat va"
    unfolding sum w unat_page_mask div_mult_mod_eq using unat64_less [of va] by simp
  then have eq: "va = (va AND PAGE_MASK) + word_of_nat (unat va mod 4096)" by (metis word_unat_eq_iff)
  show "path va = path (va AND PAGE_MASK)" using same_page(1) [OF al m] eq by metis
  show "unat (va AND 0xFFF) = unat va mod 4096" using same_page(2) [OF al m] eq w by metis
  show "unat (va AND PAGE_MASK) div 4096 = unat va div 4096" unfolding unat_page_mask by simp
  show "unat (va AND PAGE_MASK) + unat va mod 4096 = unat va" unfolding unat_page_mask by simp
qed

section \<open>The memory image, address by address\<close>

text \<open>
  What the program headers ask for, without regard to how the loader goes through the pages: a segment
  occupies the addresses from \<open>p_vaddr\<close> on for \<open>p_memsz\<close> bytes, hence every page that holds one of
  them; on those pages an address has the byte of the file for the first \<open>p_filesz\<close> bytes of the
  segment, and zero elsewhere.
\<close>

definition occupies :: "segment \<Rightarrow> nat \<Rightarrow> bool" where
  "occupies seg va \<longleftrightarrow> 0 < p_memsz seg \<and> unat (p_vaddr seg) div 4096 \<le> va div 4096 \<and>
     va div 4096 \<le> (unat (p_vaddr seg) + unat (p_memsz seg) - 1) div 4096"

definition wanted_byte :: "bytes \<Rightarrow> segment \<Rightarrow> nat \<Rightarrow> u8" where
  "wanted_byte d seg va =
     (if unat (p_vaddr seg) \<le> va \<and> va < unat (p_vaddr seg) + unat (p_filesz seg)
      then d ! (unat (p_offset seg) + (va - unat (p_vaddr seg))) else 0)"

text \<open>
  The addresses of the page the loader forgets: a segment of \<open>n\<close> pages worth of bytes that does not
  start at a page boundary may occupy one more page than \<open>n\<close>.
\<close>

definition forgotten :: "segment \<Rightarrow> nat \<Rightarrow> bool" where
  "forgotten seg va \<longleftrightarrow> va div 4096 = unat (p_vaddr seg) div 4096 + (unat (p_memsz seg) + 4095) div 4096"

definition wanted_memory :: "bytes \<Rightarrow> segment list \<Rightarrow> nat \<Rightarrow> u8 option" where
  "wanted_memory d segs va = map_option (\<lambda>seg. wanted_byte d seg va) (find (\<lambda>seg. occupies seg va) segs)"

definition memory_lost :: "segment list \<Rightarrow> nat \<Rightarrow> bool" where
  "memory_lost segs va \<longleftrightarrow> (\<exists>seg \<in> set segs. occupies seg va \<and> forgotten seg va)"

text \<open>The pages of the loop against the pages a segment occupies.\<close>

lemma loop_pages_occupied:
  assumes ok: "segment_ok d seg"
  shows "va AND PAGE_MASK \<in> set (segment_pages seg) \<longleftrightarrow> occupies seg (unat va) \<and> \<not> forgotten seg (unat va)"
proof -
  let ?V = "unat (p_vaddr seg)" and ?M = "unat (p_memsz seg)" and ?a = "unat va div 4096"
  have loop: "va AND PAGE_MASK \<in> set (segment_pages seg) \<longleftrightarrow> ?V div 4096 \<le> ?a \<and> ?a < ?V div 4096 + page_count seg"
    using segment_pages_iff [OF ok address_page(1)] by (simp only: address_page(4))
  show ?thesis
  proof (cases "?M = 0")
    case True
    then have "\<not> 0 < p_memsz seg" by (simp add: unat_eq_zero)
    moreover have "page_count seg = 0" unfolding page_count_def True by simp
    ultimately show ?thesis unfolding loop by (simp add: occupies_def)
  next
    case False
    then have M: "0 < ?M" "0 < p_memsz seg" by (simp_all add: unat_gt_0 word_neq_0_conv)
    have n: "page_count seg = (?M - 1) div 4096 + 1" using M(1) unfolding page_count_def by auto
    have lo: "?V div 4096 + (?M - 1) div 4096 \<le> (?V + ?M - 1) div 4096"
    proof -
      have "?V div 4096 * 4096 + (?M - 1) div 4096 * 4096 \<le> ?V + ?M - 1"
        using M(1) div_times_less_eq_dividend [of ?V 4096] div_times_less_eq_dividend [of "?M - 1" 4096] by linarith
      then show ?thesis by (simp add: less_eq_div_iff_mult_less_eq algebra_simps)
    qed
    have hi: "(?V + ?M - 1) div 4096 \<le> ?V div 4096 + page_count seg"
    proof -
      have "?V + ?M - 1 = (?V div 4096 * 4096 + ?V mod 4096) + ((?M - 1) div 4096 * 4096 + (?M - 1) mod 4096)"
        using M(1) unfolding div_mult_mod_eq by linarith
      moreover have "?V mod 4096 < 4096" "(?M - 1) mod 4096 < 4096" by simp_all
      ultimately have "?V + ?M - 1 < (?V div 4096 + page_count seg + 1) * 4096" unfolding n by (simp add: algebra_simps)
      then have "(?V + ?M - 1) div 4096 < ?V div 4096 + page_count seg + 1" by (rule less_mult_imp_div_less)
      then show ?thesis by simp
    qed
    show ?thesis
      unfolding loop occupies_def forgotten_def page_count_def [symmetric] using M(2) lo hi n by auto
  qed
qed

lemma occupies_unique:
  assumes "page_apart a b" shows "\<not> (occupies a va \<and> occupies b va)"
  using assms by (auto simp: page_apart_def occupies_def)

lemma find_unique:
  assumes "x \<in> set xs" and "P x" and "\<And>y. y \<in> set xs \<Longrightarrow> P y \<Longrightarrow> y = x"
  shows "find P xs = Some x"
proof (cases "find P xs")
  case None
  then show ?thesis using assms(1,2) by (simp add: find_None_iff)
next
  case (Some y)
  then have "y \<in> set xs" "P y" by (auto simp: find_Some_iff)
  then show ?thesis using Some assms(3) by simp
qed

lemma wanted_memory_one:
  assumes "seg \<in> set segs" and "occupies seg va" and "\<forall>a \<in> set segs. \<forall>b \<in> set segs. a \<noteq> b \<longrightarrow> page_apart a b"
  shows "wanted_memory d segs va = Some (wanted_byte d seg va)" and "memory_lost segs va \<longleftrightarrow> forgotten seg va"
proof -
  have one: "other = seg" if "other \<in> set segs" "occupies other va" for other
    using assms occupies_unique [of other seg va] that by blast
  have "find (\<lambda>seg. occupies seg va) segs = Some seg" using assms(1,2) one by (rule find_unique)
  then show "wanted_memory d segs va = Some (wanted_byte d seg va)" by (simp add: wanted_memory_def)
  show "memory_lost segs va \<longleftrightarrow> forgotten seg va" using assms(1,2) one unfolding memory_lost_def by blast
qed

text \<open>The page-wise image of the loop is the wanted memory without the forgotten pages.\<close>

lemma image_address:
  assumes ok: "\<forall>seg \<in> set segs. segment_ok d seg" and apart: "\<forall>a \<in> set segs. \<forall>b \<in> set segs. a \<noteq> b \<longrightarrow> page_apart a b"
    and va: "va < 0x800000000000"
  shows "map_option (\<lambda>bs. bs ! unat (va AND 0xFFF)) (image d segs (\<lambda>_. None) (path va)) =
    (if memory_lost segs (unat va) then None else wanted_memory d segs (unat va))"
proof -
  let ?pv = "va AND PAGE_MASK" and ?a = "unat va"
  note a = address_page [of va]
  have pv: "?pv < 0x800000000000" using va a(5) by (simp add: word_less_nat_alt)
  have same: "pv = ?pv" if "seg \<in> set segs" "pv \<in> set (segment_pages seg)" "path pv = path va" for seg pv
  proof -
    have sg: "segment_ok d seg" using ok that(1) by blast
    note q = segment_pages_ok [OF sg that(2)]
    have "pv < 0x800000000000" using q(2) by (simp add: word_less_nat_alt stack_bottom)
    then show ?thesis using path_inj [OF _ q(1) a(1) _ pv] that(3) a(2) by simp
  qed
  have hit: "?pv \<in> set (segment_pages seg) \<longleftrightarrow> occupies seg ?a \<and> \<not> forgotten seg ?a" if "seg \<in> set segs" for seg
    using loop_pages_occupied ok that by blast
  show ?thesis
  proof (cases "\<exists>seg \<in> set segs. occupies seg ?a")
    case False
    have "image d segs (\<lambda>_. None) (path va) = None"
    proof (rule image_other, intro ballI notI)
      fix seg pv assume "seg \<in> set segs" "pv \<in> set (segment_pages seg)" "path pv = path va"
      then show False using same [of seg pv] hit [of seg] False by auto
    qed
    moreover have "find (\<lambda>seg. occupies seg ?a) segs = None" using False by (simp add: find_None_iff)
    ultimately show ?thesis by (simp add: wanted_memory_def)
  next
    case True
    then obtain seg where seg: "seg \<in> set segs" "occupies seg ?a" by blast
    note w = wanted_memory_one [OF seg apart]
    have others: "\<forall>sg \<in> set segs. sg \<noteq> seg \<longrightarrow> (\<forall>pv \<in> set (segment_pages sg). path pv \<noteq> path va)"
      using same hit occupies_unique apart seg by blast
    show ?thesis
    proof (cases "forgotten seg ?a")
      case True
      have "image d segs (\<lambda>_. None) (path va) = None"
      proof (rule image_other, intro ballI notI)
        fix sg pv assume "sg \<in> set segs" "pv \<in> set (segment_pages sg)" "path pv = path va"
        then show False using same [of sg pv] hit [of seg] True others by (cases "sg = seg") auto
      qed
      then show ?thesis using True w(2) by simp
    next
      case False
      have mem: "?pv \<in> set (segment_pages seg)" using hit [OF seg(1)] seg(2) False by blast
      have "image d segs (\<lambda>_. None) (path ?pv) = Some (segment_bytes d seg ?pv)"
        by (rule image_page [OF seg(1) mem]) (use same [OF seg(1)] others a(2) in auto)
      moreover have "segment_bytes d seg ?pv ! unat (va AND 0xFFF) = wanted_byte d seg ?a"
        unfolding a(3) using a(5) by (simp add: segment_bytes_def wanted_byte_def Let_def del: upt_rec_numeral)
      ultimately show ?thesis using False w a(2) by simp
    qed
  qed
qed

text \<open>The eight pages of the stack.\<close>

lemma stack_path_iff:
  assumes va: "va < 0x800000000000"
  shows "path va \<in> path ` set stack_pages \<longleftrightarrow> 0x7FFF8000 \<le> va \<and> va < 0x80000000"
proof
  let ?pv = "va AND PAGE_MASK"
  note a = address_page [of va]
  have pv: "?pv < 0x800000000000" using va a(5) by (simp add: word_less_nat_alt)
  have st: "set stack_pages = {0x7FFF8000, 0x7FFF9000, 0x7FFFA000, 0x7FFFB000, 0x7FFFC000, 0x7FFFD000, 0x7FFFE000, 0x7FFFF000}"
    by (simp add: stack_pages_def user_stack upt_rec)
  {
    assume "path va \<in> path ` set stack_pages"
    then obtain p where p: "p \<in> set stack_pages" "path p = path ?pv" using a(2) by auto
    note q = stack_pages_ok [OF p(1)]
    have "p < 0x800000000000" using q(4) by (simp add: word_less_nat_alt)
    then have "p = ?pv" by (rule path_inj [OF p(2) q(2) a(1) _ pv])
    then have "?pv \<in> set stack_pages" using p(1) by simp
    then have "unat ?pv \<in> unat ` set stack_pages" by (rule imageI)
    moreover have "unat va mod 4096 < 4096" by simp
    ultimately show "0x7FFF8000 \<le> va \<and> va < 0x80000000"
      using a(5) unfolding st by (auto simp: word_le_nat_alt word_less_nat_alt)
  }
  assume "0x7FFF8000 \<le> va \<and> va < 0x80000000"
  then have "0x7FFF8 \<le> unat va div 4096" "unat va div 4096 < 0x80000" by (auto simp: word_le_nat_alt word_less_nat_alt)
  then have "unat va div 4096 \<in> {0x7FFF8, 0x7FFF9, 0x7FFFA, 0x7FFFB, 0x7FFFC, 0x7FFFD, 0x7FFFE, 0x7FFFF}"
    by (simp add: insert_iff) linarith
  then have "unat ?pv \<in> unat ` set stack_pages" unfolding unat_page_mask st by auto
  then have "?pv \<in> set stack_pages" by (auto dest: word_unat_eq_iff [THEN iffD2])
  then show "path va \<in> path ` set stack_pages" using a(2) by auto
qed

text \<open>
  C3 Building the address space of an executable whose segments are in range, no two of them on a
  common page, never faults. It changes no frame that was in use before; it fails only if the file is
  shorter than its program header table or fewer frames are free than it may take (one for the space,
  four for each page of a segment and for each of the eight stack pages). Otherwise the stack
  pages are mapped, and every other user address reads as the program headers ask: the byte of the
  file, zero on the rest of the pages the segments occupy, nothing elsewhere. The exception is the
  last page of a segment that does not start at a page boundary and reaches one page further than
  its size in pages: that page is not mapped.
\<close>

theorem exec_image_correct:
  assumes c: "cached s" "pmm_inv (vm_pmm s)" and kt: "kernel_table_ok s"
    and hdr: "e_phoff64 d = Some phoff" "e_phnum64 d = Some phnum"
    and segs: "loadable d (header_table phoff phnum) = Some segs" "\<forall>seg \<in> set segs. segment_ok d seg"
    and apart: "\<forall>a \<in> set segs. \<forall>b \<in> set segs. a \<noteq> b \<longrightarrow> page_apart a b"
  shows "\<exists>r s'. exec_image d n s = Some (r, s') \<and> cr3 s' = cr3 s \<and>
    (\<forall>u \<in> owned (vm_pmm s). frame_bytes (vm_mem s') u = frame_bytes (vm_mem s) u) \<and>
    (case r of None \<Rightarrow> word_of_nat n < phoff + ucast phnum * word_of_nat SIZEOF_PHDR64 \<or>
        card (free_frames (vm_pmm s)) \<le> 33 + 4 * image_pages segs
     | Some root \<Rightarrow> (\<exists>U. as_inv s' root U \<and> pages_ok s' root U) \<and>
        (\<forall>va. va < 0x800000000000 \<longrightarrow>
          (if 0x7FFF8000 \<le> va \<and> va < 0x80000000 then stack_entry s' root (path va)
           else space_load s' root va = (if memory_lost segs (unat va) then None else wanted_memory d segs (unat va)))))"
proof -
  obtain r s' where x: "exec_image d n s = Some (r, s')" "cr3 s' = cr3 s"
    "\<forall>u \<in> owned (vm_pmm s). frame_bytes (vm_mem s') u = frame_bytes (vm_mem s) u"
    "case r of None \<Rightarrow> word_of_nat n < phoff + ucast phnum * word_of_nat SIZEOF_PHDR64 \<or>
        card (free_frames (vm_pmm s)) \<le> 33 + 4 * image_pages segs
     | Some root \<Rightarrow> (\<exists>U. as_inv s' root U \<and> pages_ok s' root U) \<and>
        (\<forall>q. full q \<longrightarrow> (if q \<in> path ` set stack_pages then stack_entry s' root q
          else space s' root q = image d segs (\<lambda>_. None) q))"
    using exec_image_result [OF c kt hdr segs, of n] by blast
  have "if 0x7FFF8000 \<le> va \<and> va < 0x80000000 then stack_entry s' root (path va)
      else space_load s' root va = (if memory_lost segs (unat va) then None else wanted_memory d segs (unat va))"
    if "r = Some root" and va: "va < 0x800000000000" for root va
  proof -
    have "full (path va)" by (rule full_path [OF low_user_address [OF va]])
    then have "if path va \<in> path ` set stack_pages then stack_entry s' root (path va)
        else space s' root (path va) = image d segs (\<lambda>_. None) (path va)" using x(4) that(1) by simp
    then show ?thesis
      unfolding stack_path_iff [OF va] space_load_def
      using image_address [OF segs(2) apart va] by (simp split: if_splits)
  qed
  then show ?thesis using x by (intro exI [of _ r] exI [of _ s'] conjI) (auto split: option.splits)
qed

theorem exec_image_correct_witness:
  "\<exists>root s'. exec_image elf_example 122 vm_large = Some (Some root, s') \<and> (\<exists>U. as_inv s' root U \<and> pages_ok s' root U) \<and>
     space_load s' root 0x401801 = Some 9 \<and> space_load s' root 0x401802 = Some 0 \<and> space_load s' root 0x402000 = None"
proof -
  have d: "elf_example = elf_example @ []" "length elf_example < 2 ^ 32" by (simp_all add: length_elf_example)
  note e = elf_example_segment [OF d(1)] and l = elf_example_loadable [OF d]
  obtain root s' where x: "exec_image elf_example 122 vm_large = Some (Some root, s')"
    by (rule elf_example_runs [OF d]) blast
  have sg: "\<forall>seg \<in> set [segment_example]. segment_ok elf_example seg"
    "\<forall>a \<in> set [segment_example]. \<forall>b \<in> set [segment_example]. a \<noteq> b \<longrightarrow> page_apart a b" using l(2) by simp_all
  note t = exec_image_correct [OF vm_large_ok(1,2,3) e(1,2) l(1) sg, of 122, unfolded x option.inject prod.inject]
  have b: "elf_example ! 121 = 9" by code_simp
  have w: "wanted_memory elf_example [segment_example] 0x401801 = Some 9" "wanted_memory elf_example [segment_example] 0x401802 = Some 0"
    "memory_lost [segment_example] 0x402000" "\<not> memory_lost [segment_example] 0x401801" "\<not> memory_lost [segment_example] 0x401802"
    by (simp_all add: wanted_memory_def wanted_byte_def occupies_def memory_lost_def forgotten_def segment_example_def b)
  have r: "space_load s' root va = (if memory_lost [segment_example] (unat va) then None else wanted_memory elf_example [segment_example] (unat va))"
    if "va < 0x7FFF8000" for va
  proof -
    have "va < 0x800000000000" "\<not> (0x7FFF8000 \<le> va \<and> va < 0x80000000)" using that by (auto simp: word_less_nat_alt word_le_nat_alt)
    then show ?thesis using t by auto
  qed
  have "\<exists>U. as_inv s' root U \<and> pages_ok s' root U" using t by auto
  then show ?thesis using x r [of "0x401801"] r [of "0x401802"] r [of "0x402000"] w by (intro exI [of _ root] exI [of _ s']) simp
qed

section \<open>The cleanup\<close>

text \<open>
  The loop of \<open>exec_elf\<close> behind the jump to user mode, which unmaps the stack and frees its frames.
  \<open>usermode_entry.asm\<close> ends in \<open>iretq\<close> and never comes back to \<open>exec_elf\<close> (a program ends in
  \<open>usermode_return\<close>), so the kernel does not reach it; it is stated as a function of the code alone.
\<close>

definition stack_frames :: "vm \<Rightarrow> u64 \<Rightarrow> u64 list \<Rightarrow> u64 set" where
  "stack_frames s root vs = {p. \<exists>va \<in> set vs. translate s root (path va) = Some p}"

lemma vmm_unmap_page_registers:
  assumes "cached s" and "vmm_unmap_page root va s = Some s'"
  shows "cr3 s' = cr3 s" and "vm_pmm s' = vm_pmm s"
  using assms(2) vmm_unmap_page_steps [OF assms(1)] by (auto simp: with_leaf_def split: option.splits if_splits)

lemma pages_okI:
  assumes "\<And>q p. full q \<Longrightarrow> translate s root q = Some p \<Longrightarrow> p AND PHYS_MASK \<in> owned (vm_pmm s) - U"
    and "\<And>q q' p p'. full q \<Longrightarrow> full q' \<Longrightarrow> translate s root q = Some p \<Longrightarrow> translate s root q' = Some p' \<Longrightarrow>
      p AND PHYS_MASK = p' AND PHYS_MASK \<Longrightarrow> q = q'"
  shows "pages_ok s root U"
  using assms unfolding pages_ok_def full_def by blast

lemma free_stack_page_result:
  assumes inv: "as_inv s root U" "pages_ok s root U" and va: "user_address va" "page_aligned va"
    and plain: "\<And>p. translate s root (path va) = Some p \<Longrightarrow> p AND PHYS_MASK = p \<and> p \<noteq> 0 \<and> p \<in> managed (vm_pmm s)"
  obtains s' where "free_stack_page root va s = Some s'" and "as_inv s' root U" and "pages_ok s' root U" and "cr3 s' = cr3 s"
    and "managed (vm_pmm s') = managed (vm_pmm s)"
    and "\<And>q. full q \<Longrightarrow> translate s' root q = (if q = path va then None else translate s root q)"
    and "\<And>q. full q \<Longrightarrow> space s' root q = (if q = path va then None else space s root q)"
    and "owned (vm_pmm s') = owned (vm_pmm s) - stack_frames s root [va]"
proof -
  have c: "cached s" and pm: "pmm_inv (vm_pmm s)" using inv by (simp_all add: as_inv_def)
  have f: "full (path va)" by (rule full_path [OF va(1)])
  note get = lookup_steps [OF c, of root va]
  show ?thesis
  proof (cases "translate s root (path va)")
    case None
    have "free_stack_page root va s = Some s" using get None by (simp add: free_stack_page_def)
    then show ?thesis using that [of s] inv None by (simp add: stack_frames_def space_def)
  next
    case (Some p)
    note p = plain [OF Some]
    have own: "p \<in> owned (vm_pmm s) - U" using framesI [OF f Some] pages_ok_frames [OF inv(2)] p by auto
    obtain pm' where fr: "pmm_free_frame p (vm_pmm s) = Some pm'" "pmm_inv pm'" "managed pm' = managed (vm_pmm s)"
      using pmm.free_inv [OF pm] by blast
    have own': "owned pm' = owned (vm_pmm s) - {p}" using pmm.free_used [OF pm fr(1)] p by simp
    let ?s1 = "s\<lparr>vm_pmm := pm'\<rparr>"
    have inv1: "as_inv ?s1 root U" using inv(1) own own' fr(2) by (auto simp: as_inv_def cached_def)
    obtain s' where u: "vmm_unmap_page root va ?s1 = Some s'" "one_page root (path va) None ?s1 U s' U"
      by (rule vmm_unmap_page_result [OF inv1 va(1)])
    note reg = vmm_unmap_page_registers [OF as_inv_cached [OF inv1] u(1)]
    have k: "keeps ?s1 U s' U" by (rule one_page_keeps [OF u(2) inv1 reg(1)])
    have tr: "translate s' root q = (if q = path va then None else translate s root q)" if "full q" for q
      using u(2) that by (simp add: one_page_def full_def translate_def)
    have other: "p' AND PHYS_MASK \<in> owned pm' - U" if "full q" "q \<noteq> path va" "translate s root q = Some p'" for q p'
      using framesI [OF that(1,3)] pages_ok_frames [OF inv(2)] pages_ok_inj [OF inv(2) that(1) f that(3) Some] that(2) p own' by auto
    have "pages_ok s' root U"
    proof (rule pages_okI)
      fix q p' assume "full q" "translate s' root q = Some p'"
      then show "p' AND PHYS_MASK \<in> owned (vm_pmm s') - U" using tr other [of q p'] reg(2) by (simp split: if_splits)
    next
      fix q q' p' p'' assume "full q" "full q'" "translate s' root q = Some p'" "translate s' root q' = Some p''"
        "p' AND PHYS_MASK = p'' AND PHYS_MASK"
      then show "q = q'" using tr pages_ok_inj [OF inv(2), of q q' p' p''] by (simp split: if_splits)
    qed
    moreover have "space s' root q = (if q = path va then None else space s root q)" if "full q" for q
      using tr [OF that] other [OF that] k by (cases "translate s root q") (auto simp: space_def keeps_def)
    moreover have "as_inv s' root U" using u(2) by (simp add: one_page_def)
    moreover have "free_stack_page root va s = Some s'"
      using get Some p fr(1) u(1) aligned_offset [OF va(2)] by (simp add: free_stack_page_def)
    ultimately show ?thesis
      using that [of s'] tr reg fr(3) own' Some by (simp add: stack_frames_def)
  qed
qed

lemma free_stack_result:
  assumes "as_inv s root U" "pages_ok s root U" and "set vs \<subseteq> set stack_pages" and "distinct vs" and "stack_plain s root"
  shows "\<exists>s'. for_each (free_stack_page root) vs s = Some s' \<and> cr3 s' = cr3 s \<and>
    (\<forall>q. full q \<longrightarrow> space s' root q = (if q \<in> path ` set vs then None else space s root q)) \<and>
    owned (vm_pmm s') = owned (vm_pmm s) - stack_frames s root vs"
  using assms
proof (induction vs arbitrary: s)
  case Nil
  then show ?case by (simp add: stack_frames_def)
next
  case (Cons va vs)
  have va: "va \<in> set stack_pages" "user_address va" "page_aligned va" "va < 0x800000000000"
    using Cons.prems(3) stack_pages_ok [of va] by (auto simp: word_less_nat_alt)
  have neq: "path v \<noteq> path va" if "v \<in> set vs" for v
  proof
    assume "path v = path va"
    moreover have "v \<in> set stack_pages" using that Cons.prems(3) by auto
    then have "page_aligned v" "v < 0x800000000000" using stack_pages_ok [of v] by (auto simp: word_less_nat_alt)
    ultimately have "v = va" using path_inj va(3,4) by blast
    then show False using that Cons.prems(4) by simp
  qed
  have pl: "p AND PHYS_MASK = p \<and> p \<noteq> 0 \<and> p \<in> managed (vm_pmm s)" if "translate s root (path va) = Some p" for p
    using Cons.prems(5) va(1) that by (simp add: stack_plain_def)
  show ?case
  proof (rule free_stack_page_result [OF Cons.prems(1,2) va(2,3) pl])
    fix s1
    assume s1: "free_stack_page root va s = Some s1" "as_inv s1 root U" "pages_ok s1 root U" "cr3 s1 = cr3 s"
      "managed (vm_pmm s1) = managed (vm_pmm s)"
      "\<And>q. full q \<Longrightarrow> translate s1 root q = (if q = path va then None else translate s root q)"
      "\<And>q. full q \<Longrightarrow> space s1 root q = (if q = path va then None else space s root q)"
      "owned (vm_pmm s1) = owned (vm_pmm s) - stack_frames s root [va]"
    have fv: "full (path v)" if "v \<in> set vs \<or> v \<in> set stack_pages" for v
      using that Cons.prems(3) stack_pages_ok(1) by auto
    have "stack_plain s1 root"
      unfolding stack_plain_def using Cons.prems(5) s1(5,6) fv by (auto simp: stack_plain_def split: if_splits)
    then obtain s' where s': "for_each (free_stack_page root) vs s1 = Some s'" "cr3 s' = cr3 s1"
      "\<forall>q. full q \<longrightarrow> space s' root q = (if q \<in> path ` set vs then None else space s1 root q)"
      "owned (vm_pmm s') = owned (vm_pmm s1) - stack_frames s1 root vs"
      using Cons.IH [OF s1(2,3)] Cons.prems(3,4) by auto
    have "stack_frames s1 root vs = stack_frames s root vs"
      unfolding stack_frames_def using s1(6) fv neq by auto
    moreover have "stack_frames s root (va # vs) = stack_frames s root [va] \<union> stack_frames s root vs"
      by (auto simp: stack_frames_def)
    ultimately have "owned (vm_pmm s') = owned (vm_pmm s) - stack_frames s root (va # vs)" using s'(4) s1(8) by auto
    moreover have "space s' root q = (if q \<in> path ` set (va # vs) then None else space s root q)" if "full q" for q
      using s'(3) that s1(7) [OF that] by (cases "q = path va") auto
    ultimately show ?thesis using s1(1,4) s'(1,2) by auto
  qed
qed

end
