(* ===== verification/ElfCorrect.thy ===== *)
theory ElfCorrect
  imports ExecExample
begin

text \<open>
  The ELF dump is correct: its number printer and reader are inverse in decimal, and
  \<open>elf_print_info\<close> never reads outside a file that holds its header and its tables; on a
  valid file without them it does.
\<close>

section \<open>Numbers\<close>

lemma zero_notin_itoa_text:
  assumes "b = 10 \<or> b = 16"
  shows "0 \<notin> set (itoa_text n b)"
proof -
  have r: "0 \<notin> set (render b v)" for v using assms zero_notin_render [of b v] by auto
  have "48 - word_of_nat x \<noteq> (0 :: u8)" if "x \<in> set (digits b v)" for x v
  proof -
    have "x < b" using assms that digits_less [of b] by auto
    then have "x < 48" using assms by auto
    then have "unat (48 - word_of_nat x :: u8) = 48 - x"
      by (simp add: unat_sub_if' unat_of_nat)
    then show ?thesis using \<open>x < 48\<close> by (metis unat_0 zero_less_diff less_irrefl)
  qed
  then have "0 \<notin> (\<lambda>d. 48 - word_of_nat d :: u8) ` set (digits b (nat (- n)))" by fastforce
  then show ?thesis using r assms by (auto simp: itoa_text_def)
qed

text \<open>
  \<open>my_itoa\<close> writes inside a buffer of at least 13 bytes and leaves the decimal or hexadecimal text
  of its argument there, with a minus sign in base 10. In base 16 a negative argument, which every
  address with bit 31 set becomes, prints as characters below \<open>0\<close> instead of hexadecimal digits.
\<close>

theorem my_itoa_prints:
  assumes "b = 10 \<or> b = 16" and "int_range n" "b = 16 \<or> n \<noteq> - (2 ^ 31)" and "12 < length buf"
  shows "\<exists>buf'. my_itoa n buf (int b) = Some buf' \<and> length buf' = length buf \<and> terminated buf' \<and>
    cstr buf' = (if 0 \<le> n then render b (nat n) else if b = 10 then 45 # render 10 (nat (- n))
      else map (\<lambda>d. 48 - word_of_nat d) (digits 16 (nat (- n))))"
proof -
  have z: "0 \<notin> set (itoa_text n b)" by (rule zero_notin_itoa_text [OF assms(1)])
  have "length (itoa_text n b) \<le> 12" by (rule length_itoa_text [OF assms(1,2)])
  then have "length (itoa_text n b @ 0 # drop (Suc (length (itoa_text n b))) buf) = length buf"
    using assms(4) by simp
  moreover have "cstr (itoa_text n b @ 0 # drop (Suc (length (itoa_text n b))) buf) = itoa_text n b"
    using z by (rule cstr_append_zero)
  ultimately show ?thesis using my_itoa_text_eq [OF assms] assms(1) by (auto simp: itoa_text_def)
qed

theorem my_itoa_prints_witness:
  "\<exists>buf'. my_itoa (- 17) (replicate 64 0) 16 = Some buf' \<and> cstr buf' = [47, 47]"
proof -
  have "digits 16 17 = [1, 1]" by (simp add: digits_def digits_le_step)
  then show ?thesis using my_itoa_prints [of 16 "- 17" "replicate 64 0"] by (auto simp: int_range_def)
qed

text \<open>Reading decimal digits back.\<close>

lemma decimal_mono: "a \<le> foldl (\<lambda>a d. a * 10 + d) a (ds :: nat list)"
proof (induction ds arbitrary: a)
  case (Cons d ds)
  from Cons.IH [of "a * 10 + d"] show ?case by simp
qed simp

lemma atoi_digits_value:
  "list_all (\<lambda>d. d < 10) ds \<Longrightarrow> foldl (\<lambda>a d. a * 10 + d) acc ds < 2 ^ 31 \<Longrightarrow>
     atoi_digits (map (\<lambda>d. 48 + of_nat d) ds @ 0 # rest) (int acc) = Some (int (foldl (\<lambda>a d. a * 10 + d) acc ds))"
proof (induction ds arbitrary: acc)
  case (Cons d ds)
  have d: "d < 10" using Cons.prems(1) by simp
  have "int_range (int (acc * 10 + d))" using decimal_mono [of "acc * 10 + d" ds] Cons.prems(2) by (simp add: int_range_def)
  moreover have u: "unat (48 + of_nat d :: u8) = 48 + d" using d by (simp add: unat_word_ariths unat_of_nat)
  then have "(48 :: u8) \<le> 48 + of_nat d" "48 + of_nat d \<le> (57 :: u8)" "uint (48 + of_nat d :: u8) - 48 = int d"
    using d by (simp_all add: word_le_nat_alt uint_nat)
  ultimately show ?case using Cons.IH [of "acc * 10 + d"] Cons.prems by (simp add: Let_def)
qed (simp add: word_le_nat_alt)

lemma render_decimal: "render 10 v = map (\<lambda>d. 48 + of_nat d) (digits 10 v)"
  unfolding render_def by (rule map_cong [OF refl]) (simp add: hex_digit_decimal digits_less)

lemma atoi_render:
  assumes "v < 2 ^ 31"
  shows "atoi_digits (render 10 v @ 0 # rest) 0 = Some (int v)"
proof -
  have "foldl (\<lambda>a d. a * 10 + d) 0 (digits 10 v) = v" using digits_value [of 10 v] by (simp add: value_of_def)
  moreover have "list_all (\<lambda>d. d < 10) (digits 10 v)" by (simp add: list_all_iff digits_less)
  ultimately show ?thesis using atoi_digits_value [of "digits 10 v" 0 rest] assms by (simp add: render_decimal)
qed

lemma render_head:
  obtains c t where "render 10 v = c # t" and "48 \<le> c"
proof -
  obtain d ds where d: "digits 10 v = d # ds" using digits_nonempty [of 10 v] by (cases "digits 10 v") auto
  then have "d < 10" using digits_less [of 10 d v] by simp
  then have "unat (48 + of_nat d :: u8) = 48 + d" by (simp add: unat_word_ariths unat_of_nat)
  then have "(48 :: u8) \<le> 48 + of_nat d" by (simp add: word_le_nat_alt)
  then show ?thesis using that d by (simp add: render_decimal)
qed

text \<open>\<open>my_atoi\<close> reads back every \<open>int\<close> that \<open>my_itoa\<close> prints in decimal.\<close>

theorem my_itoa_atoi_roundtrip:
  assumes "- (2 ^ 31) < n" and "n < 2 ^ 31" and "12 < length buf"
  shows "Option.bind (my_itoa n buf 10) my_atoi = Some n"
proof -
  define rest where "rest = drop (Suc (length (itoa_text n 10))) buf"
  have r: "my_itoa n buf 10 = Some (itoa_text n 10 @ 0 # rest)"
    using my_itoa_text_eq [of 10 n buf] assms by (simp add: int_range_def rest_def)
  have "my_atoi (itoa_text n 10 @ 0 # rest) = Some n"
  proof (cases "0 \<le> n")
    case True
    obtain c t where c: "render 10 (nat n) = c # t" "48 \<le> c" by (rule render_head)
    then have "c \<noteq> 32" "c \<noteq> 45" "c \<noteq> 43" by (auto simp: word_le_nat_alt)
    then show ?thesis
      using atoi_render [of "nat n" rest] True assms(2) c(1) by (simp add: my_atoi_def itoa_text_def)
  next
    case False
    have "atoi_digits (render 10 (nat (- n)) @ 0 # rest) 0 = Some (- n)"
      using atoi_render [of "nat (- n)" rest] False assms(1) by simp
    then show ?thesis using False by (simp add: my_atoi_def itoa_text_def)
  qed
  then show ?thesis using r by simp
qed

theorem my_itoa_atoi_roundtrip_witness:
  "Option.bind (my_itoa (- 2147483647) (replicate 64 0) 10) my_atoi = Some (- 2147483647)"
  by (rule my_itoa_atoi_roundtrip) simp_all

section \<open>The dump\<close>

text \<open>The fields the dump reads are in a file that holds the structure they belong to.\<close>

lemma header64_defined:
  assumes "64 \<le> length d"
  shows "\<exists>v. e_class d = Some v" "\<exists>v. e_data d = Some v" "\<exists>v. e_type d = Some v" "\<exists>v. e_machine d = Some v"
    "\<exists>v. e_phoff64 d = Some v" "\<exists>v. e_phentsize64 d = Some v" "\<exists>v. e_phnum64 d = Some v"
    "\<exists>v. e_shoff64 d = Some v" "\<exists>v. e_shentsize64 d = Some v" "\<exists>v. e_shnum64 d = Some v"
  unfolding e_class_def e_data_def e_type_def e_machine_def e_phoff64_def e_phentsize64_def e_phnum64_def
    e_shoff64_def e_shentsize64_def e_shnum64_def
  using assms by (auto intro!: rd_le_defined simp: rd_def)

lemma phdr64_defined:
  assumes "ph + SIZEOF_PHDR64 \<le> length d"
  shows "\<exists>v. p_type64 d ph = Some v" "\<exists>v. p_flags64 d ph = Some v" "\<exists>v. p_vaddr64 d ph = Some v"
  unfolding p_type64_def p_flags64_def p_vaddr64_def
  using assms by (auto intro!: rd_le_defined simp: SIZEOF_PHDR64_def)

lemma shdr64_defined:
  assumes "sh + 64 \<le> length d"
  shows "\<exists>v. sh_type64 d sh = Some v" "\<exists>v. sh_flags64 d sh = Some v" "\<exists>v. sh_addr64 d sh = Some v" "\<exists>v. sh_size64 d sh = Some v"
  unfolding sh_type64_def sh_flags64_def sh_addr64_def sh_size64_def
  using assms by (auto intro!: rd_le_defined)

text \<open>The flag letters and their NUL fill the four bytes at most.\<close>

lemma three_flags_fit:
  "\<exists>b. Option.bind (append_if p [x] (replicate 4 0)) (\<lambda>b. Option.bind (append_if q [y] b) (append_if r [z])) = Some b"
  if "of_char x \<noteq> (0 :: u8)" "of_char y \<noteq> (0 :: u8)" "of_char z \<noteq> (0 :: u8)"
proof -
  have r: "replicate 4 (0 :: u8) = [0, 0, 0, 0]" by (simp add: eval_nat_numeral)
  show ?thesis
    using that unfolding r
    by (cases p; cases q; cases r) (simp_all add: append_if_def str_append_def lit_def strlen_eq cstr_Cons)
qed

lemma flags_str_defined:
  "\<exists>b. elf_get_section_flags_str 4 f = Some b" "\<exists>b. elf_get_program_flags_str 4 g = Some b"
  unfolding elf_get_section_flags_str_def elf_get_program_flags_str_def
  by (rule three_flags_fit; simp)+

lemma print_number_defined:
  assumes "b = 10 \<or> b = 16" and "int_range n" "b = 16 \<or> n \<noteq> - (2 ^ 31)"
  shows "\<exists>o1. print_number n (int b) o' = Some o1"
  using my_itoa_text_eq [OF assms, of "replicate 64 0"] by (simp add: print_number_def)

lemma print_counts_defined: "\<exists>o1. print_counts ph sh o' = Some o1"
proof -
  have "int_range (uint w)" "uint w \<noteq> - (2 ^ 31)" for w :: u16
  proof -
    have "uint w < 65536" using uint_lt2p [of w] by simp
    moreover have "0 \<le> uint w" by simp
    ultimately have "- 2147483648 < uint w" "uint w < 2147483648" by linarith+
    then show "int_range (uint w)" "uint w \<noteq> - (2 ^ 31)" by (simp_all add: int_range_def)
  qed
  then have "\<exists>o1. print_number (uint w) 10 o' = Some o1" for w :: u16 and o'
    using print_number_defined [of 10 "uint w"] by simp
  then show ?thesis unfolding print_counts_def by (metis Option.bind.bind_lunit)
qed

lemma sint32_range: "int_range (sint (w :: u32))"
  using sint_greater_eq [of w] sint_less [of w] by (simp add: int_range_def)

lemma print_hex_defined: "\<exists>o1. print_number (sint (w :: u32)) 16 o' = Some o1"
  using print_number_defined [of 16 "sint w"] sint32_range by simp

lemma print_program_header_defined: "\<exists>o1. print_program_header t f (sint (w :: u32)) o' = Some o1"
  using flags_str_defined(2) [of f] print_hex_defined [of w] by (auto simp: print_program_header_def) (metis Option.bind.bind_lunit)

lemma print_section_header_defined: "\<exists>o1. print_section_header t f (sint (w :: u32)) (sint (v :: u32)) o' = Some o1"
  using flags_str_defined(1) [of f] print_hex_defined [of w] print_hex_defined [of v]
  by (auto simp: print_section_header_def) (metis Option.bind.bind_lunit)

lemma for_each_defined:
  assumes "\<And>i s. i < n \<Longrightarrow> \<exists>t. body i s = Some t"
  shows "\<exists>t. for_each body [0..<n] s = Some t"
proof -
  have "(\<forall>i \<in> set xs. i < n) \<Longrightarrow> \<exists>t. for_each body xs s = Some t" for xs s
  proof (induction xs arbitrary: s)
    case (Cons i xs)
    then obtain t where "body i s = Some t" using assms [of i s] by auto
    then show ?case using Cons by simp
  qed simp
  then show ?thesis by simp
qed

text \<open>
  The dump of a valid 64-bit file reads nothing outside the file, whatever its contents, when
  the file holds the header and the first 10 program and 15 section headers (as many as it has).
\<close>

theorem elf_print_info_total:
  assumes valid: "elf_is_valid d = Some True" "e_class d = Some ELFCLASS64" and len: "64 \<le> length d"
    and ph: "e_phoff64 d = Some phoff" "e_phentsize64 d = Some phentsize" "e_phnum64 d = Some phnum"
      "\<And>i. i < min (unat phnum) 10 \<Longrightarrow> unat phoff + i * unat phentsize + SIZEOF_PHDR64 \<le> length d"
    and sh: "e_shoff64 d = Some shoff" "e_shentsize64 d = Some shentsize" "e_shnum64 d = Some shnum"
      "\<And>i. i < min (unat shnum) 15 \<Longrightarrow> unat shoff + i * unat shentsize + 64 \<le> length d"
  shows "\<exists>o''. elf_print_info d o' = Some o''"
proof -
  note h = header64_defined [OF len]
  have is64: "elf_is_64bit d = Some True" using valid(2) by (simp add: elf_is_64bit_def)
  have p1: "\<exists>o1. elf_print_header d o' = Some o1"
    using h(2-4) valid(2) print_counts_defined ph(3) sh(3)
    by (fastforce simp: elf_print_header_def ELFCLASS32_def ELFCLASS64_def Let_def)
  have p2: "\<exists>o2. elf_print_program_headers d o1 = Some o2" for o1
  proof -
    have "\<exists>o2. program_header64 d i o1 = Some o2" if "i < min (unat phnum) 10" for i o1
      using phdr64_defined [OF ph(4) [OF that]] ph(1,2) print_program_header_defined
      by (auto simp: program_header64_def Let_def)
    from for_each_defined [where body = "program_header64 d" and n = "min (unat phnum) 10", OF this] show ?thesis
      using is64 ph(3) by (simp add: elf_print_program_headers_def Let_def)
  qed
  have p3: "\<exists>o2. elf_print_section_headers d o1 = Some o2" for o1
  proof -
    have "\<exists>o2. section_header64 d i o1 = Some o2" if "i < min (unat shnum) 15" for i o1
      using shdr64_defined [OF sh(4) [OF that]] sh(1,2) print_section_header_defined
      by (auto simp: section_header64_def Let_def)
    from for_each_defined [where body = "section_header64 d" and n = "min (unat shnum) 15", OF this] show ?thesis
      using is64 sh(3) by (simp add: elf_print_section_headers_def Let_def)
  qed
  show ?thesis using valid(1) p1 p2 p3 by (auto simp: elf_print_info_def) (metis Option.bind.bind_lunit)
qed

theorem elf_print_info_total_witness:
  "\<exists>o''. elf_print_info elf_example \<lparr>print_func = True, printed = []\<rparr> = Some o''"
proof -
  have "elf_is_valid elf_example = Some True" "e_class elf_example = Some ELFCLASS64"
    "e_phentsize64 elf_example = Some 56" "e_shoff64 elf_example = Some 0"
    "e_shentsize64 elf_example = Some 0" "e_shnum64 elf_example = Some 0"
    by code_simp+
  then show ?thesis
    using elf_print_info_total [of elf_example 64 56 1 0 0 0] elf_example_segment(1,2) [of elf_example "[]"]
    by (simp add: length_elf_example SIZEOF_PHDR64_def)
qed

text \<open>
  The validity check asks for 24 bytes only. The dump of a 64-bit file that passes it but ends
  before the entry counts reads past the end of the file.
\<close>

theorem elf_print_info_short:
  assumes "elf_is_valid d = Some True" and "e_class d = Some ELFCLASS64" and "length d < 58"
  shows "elf_print_info d o' = None"
proof -
  have "e_phnum64 d = None" using assms(3) by (simp add: e_phnum64_def rd_le_undefined)
  then have "elf_print_header d o' = None"
    using assms(2) by (simp add: elf_print_header_def ELFCLASS32_def ELFCLASS64_def Let_def split: Option.bind_split)
  then show ?thesis using assms(1) by (simp add: elf_print_info_def)
qed

theorem elf_print_info_short_witness:
  "elf_is_valid (take 24 elf_example) = Some True \<and>
     elf_print_info (take 24 elf_example) \<lparr>print_func = True, printed = []\<rparr> = None"
proof -
  have "elf_is_valid (take 24 elf_example) = Some True" "e_class (take 24 elf_example) = Some ELFCLASS64"
    by code_simp+
  then show ?thesis using elf_print_info_short [of "take 24 elf_example"] by (simp add: length_elf_example)
qed

end
