(* ===== verification/FbMemory.thy ===== *)
theory FbMemory
  imports FbInitCorrect
begin

text \<open>
  The memory of the back end: on every path on which \<open>flanterm_fb_init\<close> returns \<open>NULL\<close> it has
  released exactly the blocks it obtained, and \<open>flanterm_fb_deinit\<close> releases those of a context,
  each once, with the size it was obtained with, and reads nothing that it has released.
\<close>

section \<open>What is obtained is given back\<close>

text \<open>
  An allocator and a release function that keep the set of the blocks in use: an allocation adds a
  block at an address that is not in use or fails, releasing a block in use removes it. Nothing is
  said of a release of anything else.
\<close>

definition allocator :: "'h malloc_fn \<Rightarrow> 'h free_fn \<Rightarrow> ('h \<Rightarrow> (nat \<times> nat) set) \<Rightarrow> bool" where
  "allocator malloc free live \<longleftrightarrow>
     (\<forall>n h p h'. malloc n h = (p, h') \<longrightarrow>
        (if p = 0 then live h' = live h else live h' = insert (p, n) (live h) \<and> (\<forall>k. (p, k) \<notin> live h))) \<and>
     (\<forall>p n h. (p, n) \<in> live h \<longrightarrow> live (free p n h) = live h - {(p, n)})"

definition release :: "'h free_fn \<Rightarrow> (nat \<times> nat) list \<Rightarrow> 'h \<Rightarrow> 'h" where
  "release free bs h = fold (\<lambda>(p, n). free p n) bs h"

lemma release_simps [simp]:
  "release free [] h = h"
  "release free ((p, n) # bs) h = release free bs (free p n h)"
  "release free (as @ bs) h = release free bs (release free as h)"
  by (simp_all add: release_def)

lemma release_live:
  assumes al: "allocator malloc free live" and "set bs \<subseteq> live h" and "distinct bs"
  shows "live (release free bs h) = live h - set bs"
  using assms(2,3)
proof (induction bs arbitrary: h)
  case (Cons b bs)
  obtain p n where b: "b = (p, n)" by (cases b)
  have "live (free p n h) = live h - {(p, n)}" using al Cons.prems b by (simp add: allocator_def)
  moreover from this have "set bs \<subseteq> live (free p n h)" using Cons.prems b by auto
  ultimately show ?case using Cons.IH [of "free p n h"] Cons.prems b by auto
qed simp

text \<open>The blocks a context points to, in the order of the label \<open>fail\<close>.\<close>

definition block :: "nat \<Rightarrow> nat \<Rightarrow> (nat \<times> nat) list" where
  "block p n = (if p = 0 then [] else [(p, n)])"

definition blocks :: "fb_fields \<Rightarrow> (nat \<times> nat) list" where
  "blocks c = block (canvas_at c) (canvas_size c) @ block (map_at c) (map_size c) @ block (queue_at c) (queue_size c) @
     block (grid_at c) (grid_size c) @ block (font_bool_at c) (font_bool_size c) @ block (font_bits c) (font_bits_size c)"

definition holds_blocks :: "fb_sizes \<Rightarrow> ('h \<Rightarrow> (nat \<times> nat) set) \<Rightarrow> (nat \<times> nat) set \<Rightarrow> nat \<Rightarrow> fb_fields \<Rightarrow> 'h fb_memory \<Rightarrow> bool" where
  "holds_blocks z live L ctx c m \<longleftrightarrow> ctx \<noteq> 0 \<and> contexts m ctx = Some c \<and>
     live (outside m) = L \<union> set (blocks c @ [(ctx, sizeof_fb_context z)]) \<and>
     L \<inter> set (blocks c @ [(ctx, sizeof_fb_context z)]) = {} \<and> distinct (blocks c @ [(ctx, sizeof_fb_context z)])"

definition tidy :: "fb_sizes \<Rightarrow> 'h free_fn \<Rightarrow> ('h \<Rightarrow> (nat \<times> nat) set) \<Rightarrow> (nat \<times> nat) set \<Rightarrow> ('w::len, 'h) fb_started option \<Rightarrow> bool" where
  "tidy z free live L res \<longleftrightarrow> (case res of None \<Rightarrow> True | Some (None, m) \<Rightarrow> live (outside m) = L
     | Some (Some (s, ctx), m) \<Rightarrow>
         \<exists>m1. flanterm_fb_deinit z (Some free) ctx m = Some m1 \<and> contexts m1 ctx = None \<and> live (outside m1) = L)"

lemma free_not_null_eq:
  "contexts m ctx = Some c \<Longrightarrow> free_not_null free ctx pointer size_of m =
     Some (m\<lparr>outside := release free (block (pointer c) (size_of c)) (outside m)\<rparr>)"
  by (simp add: free_not_null_def free_field_def block_def)

lemma fail_releases:
  assumes "contexts m ctx = Some c" and "ctx \<noteq> 0"
  shows "fb_fail z (Some malloc) (Some free) ctx m = Some (m\<lparr>contexts := (contexts m)(ctx := None),
     outside := release free (blocks c @ [(ctx, sizeof_fb_context z)]) (outside m)\<rparr>)"
  using assms by (simp add: fb_fail_def free_not_null_eq free_context_def blocks_def)

lemma fail_live:
  assumes al: "allocator malloc free live" and held: "holds_blocks z live L ctx c m"
  shows "\<exists>m1. fb_fail z (Some malloc) (Some free) ctx m = Some m1 \<and> live (outside m1) = L"
proof -
  note h = held [unfolded holds_blocks_def]
  have "live (release free (blocks c @ [(ctx, sizeof_fb_context z)]) (outside m))
      = live (outside m) - set (blocks c @ [(ctx, sizeof_fb_context z)])"
    using h by (intro release_live [OF al]) auto
  also have "\<dots> = L" using h by auto
  finally have "live (release free (blocks c @ [(ctx, sizeof_fb_context z)]) (outside m)) = L" .
  then show ?thesis using h by (simp add: fail_releases del: release_simps)
qed

text \<open>A context that is complete is released whole.\<close>

definition complete :: "fb_fields \<Rightarrow> bool" where
  "complete c \<longleftrightarrow> font_bits c \<noteq> 0 \<and> font_bool_at c \<noteq> 0 \<and> grid_at c \<noteq> 0 \<and> queue_at c \<noteq> 0 \<and> map_at c \<noteq> 0"

definition deinit_blocks :: "fb_fields \<Rightarrow> (nat \<times> nat) list" where
  "deinit_blocks c = [(font_bits c, font_bits_size c), (font_bool_at c, font_bool_size c), (grid_at c, grid_size c),
     (queue_at c, queue_size c), (map_at c, map_size c)] @ block (canvas_at c) (canvas_size c)"

lemma deinit_releases:
  assumes "contexts m ctx = Some c"
  shows "flanterm_fb_deinit z (Some free) ctx m = Some (m\<lparr>contexts := (contexts m)(ctx := None),
     outside := release free (deinit_blocks c @ [(ctx, sizeof_fb_context z)]) (outside m)\<rparr>)"
  using assms by (simp add: flanterm_fb_deinit_def free_field_def free_not_null_eq free_context_def deinit_blocks_def)

lemma deinit_blocks_all:
  assumes "complete c"
  shows "set (deinit_blocks c) = set (blocks c)" and "distinct (blocks c) \<Longrightarrow> distinct (deinit_blocks c)"
  using assms by (auto simp: complete_def deinit_blocks_def blocks_def block_def)

lemma deinit_live:
  assumes al: "allocator malloc free live" and held: "holds_blocks z live L ctx c m" and c: "complete c"
  shows "\<exists>m1. flanterm_fb_deinit z (Some free) ctx m = Some m1 \<and> contexts m1 ctx = None \<and> live (outside m1) = L"
proof -
  note h = held [unfolded holds_blocks_def]
  let ?bs = "deinit_blocks c @ [(ctx, sizeof_fb_context z)]"
  have bs: "set ?bs = set (blocks c @ [(ctx, sizeof_fb_context z)])" "distinct ?bs"
    using h deinit_blocks_all [OF c] by auto
  have "live (release free ?bs (outside m)) = live (outside m) - set ?bs"
    using h bs by (intro release_live [OF al]) auto
  also have "\<dots> = L" unfolding bs(1) using h by auto
  finally have "live (release free ?bs (outside m)) = L" .
  then show ?thesis using h by (simp add: deinit_releases del: release_simps)
qed

section \<open>Every allocation\<close>

lemma tidy_need:
  assumes al: "allocator malloc free live" and held: "holds_blocks z live L ctx c m"
    and store: "\<And>q. blocks (store q n c) = block q n @ blocks c"
    and rest: "\<And>q m. q \<noteq> 0 \<Longrightarrow> holds_blocks z live L ctx (store q n c) m \<Longrightarrow> tidy z free live L (K m)"
  shows "tidy z free live L (need z (Some malloc) (Some free) ctx store n m K)"
proof -
  obtain q h where q: "malloc n (outside m) = (q, h)" by fastforce
  define m1 where "m1 = m\<lparr>outside := h, contexts := (contexts m)(ctx \<mapsto> store q n c)\<rparr>"
  have c: "contexts m ctx = Some c" using held by (simp add: holds_blocks_def)
  have run: "need z (Some malloc) (Some free) ctx store n m K =
      (if q = 0 then map_option (Pair None) (fb_fail z (Some malloc) (Some free) ctx m1) else K m1)"
    by (simp add: need_def fb_malloc_def q c m1_def)
  have "live h = set (block q n) \<union> live (outside m)" "q \<noteq> 0 \<Longrightarrow> \<forall>k. (q, k) \<notin> live (outside m)"
    using al q by (auto simp: allocator_def block_def)
  then have held1: "holds_blocks z live L ctx (store q n c) m1"
    using held by (auto simp: holds_blocks_def store m1_def block_def split: if_splits)
  show ?thesis
  proof (cases "q = 0")
    case True
    then show ?thesis using fail_live [OF al held1] run by (auto simp: tidy_def)
  qed (use rest [OF _ held1] run in simp)
qed

lemma tidy_bind: "(\<And>x. tidy z free live L (f x)) \<Longrightarrow> tidy z free live L (do { x \<leftarrow> r; f x })"
  by (cases r) (simp_all add: tidy_def)

lemma tidy_None [simp]: "tidy z free live L None"
  by (simp add: tidy_def)

lemma tidy_NULL [simp]: "tidy z free live L (Some (None, m)) \<longleftrightarrow> live (outside m) = L"
  by (simp add: tidy_def)

lemma tidy_ready:
  assumes "allocator malloc free live" and "holds_blocks z live L ctx c m" and "complete c"
  shows "tidy z free live L (fb_ready (Some malloc) n onlcr p d w r ctx m)"
  unfolding fb_ready_def by (rule tidy_bind) (simp add: tidy_def deinit_live [OF assms])

lemma block_0 [simp]: "block 0 n = []"
  by (simp add: block_def)

lemma tidy_canvas:
  assumes al: "allocator malloc free live" and held: "holds_blocks z live L ctx c m" and c: "complete c" "canvas_at c = 0"
  shows "tidy z free live L (fb_start_canvas z (Some malloc) (Some free) n onlcr a p d w r ctx m)"
proof (cases "a_canvas a")
  case (Some picture)
  show ?thesis
    unfolding fb_start_canvas_def Let_def Some option.case
  proof (rule tidy_need [OF al held])
    show "blocks (c\<lparr>canvas_at := q, canvas_size := k\<rparr>) = block q k @ blocks c" for q k
      using c(2) by (simp add: blocks_def)
    fix q k and m :: "'a fb_memory"
    assume "holds_blocks z live L ctx (c\<lparr>canvas_at := q, canvas_size := k\<rparr>) m"
    moreover have "complete (c\<lparr>canvas_at := q, canvas_size := k\<rparr>)" using c(1) by (simp add: complete_def)
    ultimately show "tidy z free live L (if length picture < width d * height d \<or> 2 ^ 64 \<le> width d * height d * 4 then None
        else do {
          cv \<leftarrow> convert_all (take (width d * height d) picture) p;
          fb_ready (Some malloc) n onlcr p (d\<lparr>canvas := Some cv,
            plot_char_fn := fb_plot_fn (font_scale_x d, font_scale_y d) True\<rparr>) w r ctx m })"
      by (auto intro!: tidy_bind tidy_ready [OF al])
  qed
qed (use tidy_ready [OF al held c(1)] in \<open>simp add: fb_start_canvas_def Let_def\<close>)

text \<open>The fields a context has before the grid, before the queue and before the pointer table.\<close>

lemma tidy_cells:
  assumes al: "allocator malloc free live" and held: "holds_blocks z live L ctx c m"
    and c: "font_bits c \<noteq> 0" "font_bool_at c \<noteq> 0" "grid_at c = 0" "queue_at c = 0" "map_at c = 0" "canvas_at c = 0"
  shows "tidy z free live L (fb_start_cells z (Some malloc) (Some free) n onlcr a p d w r ctx m)"
proof -
  have last: "tidy z free live L (need z (Some malloc) (Some free) ctx (\<lambda>q k f. f\<lparr>map_at := q, map_size := k\<rparr>) k m
      (\<lambda>m. if b then None else fb_start_canvas z (Some malloc) (Some free) n onlcr a p d w r ctx m))"
    if "holds_blocks z live L ctx c m" "font_bits c \<noteq> 0" "font_bool_at c \<noteq> 0" "grid_at c \<noteq> 0" "queue_at c \<noteq> 0"
      "map_at c = 0" "canvas_at c = 0" for c k b m
    by (rule tidy_need [OF al that(1)]) (use that in \<open>auto simp: blocks_def complete_def intro!: tidy_canvas [OF al]\<close>)
  have middle: "tidy z free live L (need z (Some malloc) (Some free) ctx (\<lambda>q k f. f\<lparr>queue_at := q, queue_size := k\<rparr>) k m
      (\<lambda>m. if b then None else need z (Some malloc) (Some free) ctx (\<lambda>q k f. f\<lparr>map_at := q, map_size := k\<rparr>) k1 m
        (\<lambda>m. if b1 then None else fb_start_canvas z (Some malloc) (Some free) n onlcr a p d w r ctx m)))"
    if "holds_blocks z live L ctx c m" "font_bits c \<noteq> 0" "font_bool_at c \<noteq> 0" "grid_at c \<noteq> 0" "queue_at c = 0"
      "map_at c = 0" "canvas_at c = 0" for c k k1 b b1 m
    by (rule tidy_need [OF al that(1)])
      (use that in \<open>auto simp: blocks_def intro: last\<close>)
  show ?thesis
    unfolding fb_start_cells_def
    by (rule tidy_need [OF al held]) (use c in \<open>auto simp: blocks_def intro: middle\<close>)
qed

lemma tidy_font:
  assumes al: "allocator malloc free live" and held: "holds_blocks z live L ctx no_fields m"
  shows "tidy z free live L (fb_start_font z (Some malloc) (Some free) n onlcr sc a ctx m)"
  unfolding fb_start_font_def Let_def
  by (rule tidy_bind, clarsimp split: prod.split, rule tidy_need [OF al held])
    (auto simp: blocks_def no_fields_def intro!: tidy_bind tidy_need [OF al] tidy_cells [OF al] split: prod.split)

lemma tidy_init:
  assumes al: "allocator malloc free live"
  shows "tidy z free live (live (outside m)) (flanterm_fb_init z (Some malloc) (Some free) n onlcr a m)"
proof -
  obtain q h where q: "malloc (sizeof_fb_context z) (outside m) = (q, h)" by fastforce
  let ?m = "m\<lparr>outside := h, contexts := (contexts m)(q \<mapsto> no_fields)\<rparr>"
  have "holds_blocks z live (live (outside m)) q no_fields ?m" if "q \<noteq> 0"
    using al q that by (auto simp: allocator_def holds_blocks_def blocks_def no_fields_def)
  then have "q \<noteq> 0 \<Longrightarrow> tidy z free live (live (outside m)) (fb_start_font z (Some malloc) (Some free) n onlcr (fb_scale a) a q ?m)"
    using tidy_font [OF al] by blast
  moreover have "q = 0 \<Longrightarrow> live h = live (outside m)" using al q by (auto simp: allocator_def)
  ultimately show ?thesis
    by (auto simp: flanterm_fb_init_def fb_malloc_def q fb_fail_def)
qed

section \<open>Properties\<close>

text \<open>
  C13 No block is lost, none is released twice and nothing is read after its release. The arguments are those
  the back end can draw with (\<open>fb_args_ok\<close>); the caller's allocator may fail at any call. The start
  has no undefined behaviour. When it returns \<open>NULL\<close>, the blocks in use are those that were in use
  before, each block it obtained released with its own size. When it returns a context,
  \<open>flanterm_deinit\<close> has no undefined behaviour either and leaves the same blocks in use.
\<close>

theorem fb_init_gives_memory_back:
  fixes m :: "'h fb_memory"
  assumes "allocator malloc free live" and "fb_args_ok z (fb_scale a) a" and "2 \<le> n"
  shows "\<exists>x m1. (flanterm_fb_init z (Some malloc) (Some free) n onlcr a m :: ('w::len, 'h) fb_started option) = Some (x, m1) \<and>
     (case x of None \<Rightarrow> live (outside m1) = live (outside m)
      | Some (s, ctx) \<Rightarrow> \<exists>m2. flanterm_deinit z (Some free) ctx m1 = Some m2 \<and> contexts m2 ctx = None \<and>
          live (outside m2) = live (outside m))"
proof -
  have "starts False (\<lambda>s. fresh onlcr s \<and> (cols (fbc s), rows (fbc s)) = screen_size (fb_scale a) a)
      (flanterm_fb_init z (Some malloc) (Some free) n onlcr a m :: ('w, 'h) fb_started option)"
    by (rule init_starts) (use assms in simp_all)
  then obtain x m1 where x: "(flanterm_fb_init z (Some malloc) (Some free) n onlcr a m :: ('w, 'h) fb_started option) = Some (x, m1)"
    unfolding starts_def by blast
  moreover have "tidy z free live (live (outside m)) (Some (x, m1))"
    unfolding x [symmetric] by (rule tidy_init [OF assms(1)])
  ultimately show ?thesis
    by (auto simp: tidy_def flanterm_deinit_def split: option.splits)
qed

text \<open>An allocator with room for a number of blocks: each is put behind all those in use.\<close>

definition list_malloc :: "nat \<Rightarrow> (nat \<times> nat) list malloc_fn" where
  "list_malloc limit n h =
     (if limit \<le> length h then (0, h) else (Suc (sum_list (map fst h)), (Suc (sum_list (map fst h)), n) # h))"

definition list_free :: "(nat \<times> nat) list free_fn" where
  "list_free p n h = filter (\<lambda>b. b \<noteq> (p, n)) h"

lemma list_allocator: "allocator (list_malloc limit) list_free set"
proof -
  have "p \<le> sum_list (map fst h)" if "(p, k) \<in> set h" for p k and h :: "(nat \<times> nat) list"
    using that by (induction h) auto
  then have "(Suc (sum_list (map fst h)), k) \<notin> set h" for k and h :: "(nat \<times> nat) list" by fastforce
  then show ?thesis by (auto simp: allocator_def list_malloc_def list_free_def split: if_splits)
qed

definition small_args :: fb_args where
  "small_args = \<lparr>a_framebuffer = replicate 1024 0, a_width = 32, a_height = 32, a_pitch = 128, red_mask_size = 8,
     a_red_mask_shift = 16, green_mask_size = 8, a_green_mask_shift = 8, blue_mask_size = 8, a_blue_mask_shift = 0,
     a_canvas = None, a_ansi_colours = None, a_ansi_bright_colours = None, a_default_bg = None, a_default_fg = None,
     a_default_bg_bright = None, a_default_fg_bright = None, a_font = Some (replicate 256 0x55), a_font_width = 8,
     a_font_height = 1, font_spacing = 0, a_font_scale_x = 1, a_font_scale_y = 1, margin = 0\<rparr>"

definition small_sizes :: fb_sizes where
  "small_sizes = \<lparr>sizeof_fb_context = 800, sizeof_fb_char = 12, sizeof_queue_item = 32, font_glyphs = 256\<rparr>"

definition small_memory :: "(nat \<times> nat) list fb_memory" where
  "small_memory = \<lparr>bump_alloc_pool = 0, bump_alloc_ptr = 0, base_offset_added = False, bump_allocated_instance = False,
     contexts = \<lambda>_. None, outside = []\<rparr>"

lemma small_run:
  "\<exists>m. (flanterm_fb_init small_sizes (Some (list_malloc 1)) (Some list_free) 16 1 small_args small_memory :: (32, (nat \<times> nat) list) fb_started option)
     = Some (None, m)"
  by (simp add: flanterm_fb_init_def small_args_def small_sizes_def small_memory_def need_def fb_malloc_def list_malloc_def
      fb_start_font_def fb_palette_init_def convert_all_def convert_colour_def fb_font_def fb_fail_def Let_def
      free_not_null_def free_context_def no_fields_def)

lemma small_args_ok: "fb_args_ok small_sizes (fb_scale small_args) small_args"
  by (simp add: fb_args_ok_def small_args_def small_sizes_def fb_scale_def font_fits_def window_fits_def colours_ok_def
      cell_size_def)

theorem fb_init_gives_memory_back_witness:
  "(\<exists>m. (flanterm_fb_init small_sizes (Some (list_malloc 1)) (Some list_free) 16 1 small_args small_memory :: (32, (nat \<times> nat) list) fb_started option)
     = Some (None, m) \<and> outside m = []) \<and>
   (\<exists>x m1. (flanterm_fb_init small_sizes (Some (list_malloc 8)) (Some list_free) 16 1 small_args small_memory :: (32, (nat \<times> nat) list) fb_started option)
     = Some (x, m1) \<and>
     (case x of None \<Rightarrow> outside m1 = []
      | Some (s, ctx) \<Rightarrow> \<exists>m2. flanterm_deinit small_sizes (Some list_free) ctx m1 = Some m2 \<and> contexts m2 ctx = None \<and> outside m2 = []))"
proof -
  have empty: "outside small_memory = []" by (simp add: small_memory_def)
  note run = fb_init_gives_memory_back [OF _ small_args_ok, where n = 16 and onlcr = 1 and m = small_memory and 'w = 32]
  from small_run obtain m where m: "(flanterm_fb_init small_sizes (Some (list_malloc 1)) (Some list_free) 16 1 small_args small_memory
      :: (32, (nat \<times> nat) list) fb_started option) = Some (None, m)" by blast
  have n: "2 \<le> (16 :: nat)" by simp
  have none: "set h = set [] \<longleftrightarrow> h = []" for h :: "(nat \<times> nat) list" by simp
  have "outside m = []" using run [OF list_allocator [of 1] n] unfolding m by (simp add: empty)
  with m run [OF list_allocator [of 8] n, unfolded empty none] show ?thesis by blast
qed

end
