(* ===== verification/TerminalCorrect.thy ===== *)
theory TerminalCorrect
  imports FbInitCorrect FbMemory
begin

text \<open>
  What the terminal promises to the kernel: after any write the framebuffer shows the text; text
  without escape sequences is edited as the reference editor says; a line that fits appears where
  the cursor is.
\<close>

section \<open>A line of text\<close>

fun overwrite :: "nat \<Rightarrow> 'a list \<Rightarrow> 'a list \<Rightarrow> 'a list" where
  "overwrite k [] cs = cs"
| "overwrite k (v # vs) cs = overwrite (Suc k) vs (cs[k := v])"

lemma length_overwrite [simp]: "length (overwrite k vs cs) = length cs"
  by (induction k vs cs rule: overwrite.induct) simp_all

lemma nth_overwrite:
  "j < length cs \<Longrightarrow> overwrite k vs cs ! j = (if k \<le> j \<and> j < k + length vs then vs ! (j - k) else cs ! j)"
proof (induction k vs cs rule: overwrite.induct)
  case (2 k v vs cs)
  have "overwrite (Suc k) vs (cs[k := v]) ! j =
      (if Suc k \<le> j \<and> j < Suc k + length vs then vs ! (j - Suc k) else cs[k := v] ! j)"
    using 2 by simp
  then show ?case using "2.prems" by (auto simp: nth_list_update nth_Cons' Suc_diff_Suc)
qed auto

definition printable :: "u8 \<Rightarrow> bool" where
  "printable c \<longleftrightarrow> 0x20 \<le> c \<and> c \<le> 0x7E"

lemma printable_byte: "printable c \<Longrightarrow> c \<in> text_bytes" "printable c \<Longrightarrow> text_byte nl tab c t = text_put (unat c) t"
  by (auto simp: printable_def text_bytes_def text_byte_def)

lemma text_put_fits:
  "tx_x t < tx_cols t \<Longrightarrow> tx_y t < tx_rows t \<Longrightarrow>
     text_put c t = t\<lparr>tx_x := tx_x t + 1, tx_cells := (tx_cells t)[tx_y t * tx_cols t + tx_x t := text_char t c]\<rparr>"
  by (simp add: text_put_def put_cell_def)

lemma text_line:
  assumes "list_all printable bs" and "tx_x t + length bs \<le> tx_cols t" and "tx_y t < tx_rows t"
  shows "fold (text_byte nl tab) bs t = t\<lparr>tx_x := tx_x t + length bs,
     tx_cells := overwrite (tx_y t * tx_cols t + tx_x t) (map (\<lambda>c. text_char t (unat c)) bs) (tx_cells t)\<rparr>"
  using assms
proof (induction bs arbitrary: t)
  case (Cons c bs)
  let ?t = "text_put (unat c) t"
  have t: "?t = t\<lparr>tx_x := tx_x t + 1, tx_cells := (tx_cells t)[tx_y t * tx_cols t + tx_x t := text_char t (unat c)]\<rparr>"
    using Cons.prems by (intro text_put_fits) simp_all
  have "text_char ?t = text_char t" by (simp add: t text_char_def fun_eq_iff)
  moreover have "tx_x ?t + length bs \<le> tx_cols ?t" "tx_y ?t < tx_rows ?t" using Cons.prems by (simp_all add: t)
  ultimately have "fold (text_byte nl tab) bs ?t = ?t\<lparr>tx_x := tx_x ?t + length bs,
     tx_cells := overwrite (tx_y ?t * tx_cols ?t + tx_x ?t) (map (\<lambda>c. text_char t (unat c)) bs) (tx_cells ?t)\<rparr>"
    using Cons.IH [of ?t] Cons.prems(1) by simp
  then show ?case using Cons.prems(1) printable_byte(2) by (simp add: t)
qed simp

section \<open>Writes\<close>

text \<open>A write of text: the reference editor, and the picture.\<close>

lemma write_text:
  fixes s :: "('w::len) word flanterm_context"
  assumes ok: "term_ok s" and d: "drawn (fbc s)" and g: "ground s" and bs: "set bs \<subseteq> text_bytes"
  shows "\<exists>b. flanterm_write_ctx bs s = Some (s\<lparr>fbc := b\<rparr>) \<and> term_ok (s\<lparr>fbc := b\<rparr>) \<and> drawn b \<and>
     text_of b = fold (text_step s) bs (text_of (fbc s)) \<and> palette b = palette (fbc s) \<and> (autoflush s \<longrightarrow> pictured b)"
proof -
  from text_edits [OF ok g bs] obtain b1 where
    b1: "for_each flanterm_putchar bs s = Some (s\<lparr>fbc := b1\<rparr>)" "screen_ok b1" "fixed (fbc s) b1"
      "text_of b1 = fold (text_step s) bs (text_of (fbc s))" unfolding edits_def by blast
  have ok1: "term_ok (s\<lparr>fbc := b1\<rparr>)" by (rule term_ok_fbc [OF ok b1(2)])
  have d1: "drawn b1" by (rule drawn_same [OF fixed_picture [OF b1(3)] b1(2) d])
  have p1: "palette b1 = palette (fbc s)" using b1(3) by (simp add: fixed_def)
  from flush_pictured [OF ok1] d1 obtain b2 where
    "flanterm_flush (s\<lparr>fbc := b1\<rparr>) = Some (s\<lparr>fbc := b2\<rparr>)" "term_ok (s\<lparr>fbc := b2\<rparr>)" "drawn b2" "pictured b2"
    "text_of b2 = text_of b1" "palette b2 = palette b1" by auto
  then show ?thesis using b1 ok1 d1 p1 by (cases "autoflush s") (auto simp: flanterm_write_ctx_def)
qed

lemma printed_line:
  fixes s :: "('w::len) word flanterm_context"
  assumes ok: "term_ok s" and d: "drawn (fbc s)" and g: "ground s" and auto: "autoflush s"
    and bs: "list_all printable bs"
    and fits: "cursor_x (fbc s) + length bs \<le> cols (fbc s)" "cursor_y (fbc s) < rows (fbc s)"
  shows "\<exists>b. flanterm_write_ctx bs s = Some (s\<lparr>fbc := b\<rparr>) \<and> term_ok (s\<lparr>fbc := b\<rparr>) \<and> drawn b \<and> pictured b \<and>
     cursor_x b = cursor_x (fbc s) + length bs \<and> cursor_y b = cursor_y (fbc s) \<and>
     (\<forall>x<cols (fbc s). \<forall>y<rows (fbc s). text_cell b x y =
        (if y = cursor_y (fbc s) \<and> cursor_x (fbc s) \<le> x \<and> x < cursor_x (fbc s) + length bs
         then \<lparr>ch_c = unat (bs ! (x - cursor_x (fbc s))), ch_fg = text_fg (fbc s), ch_bg = text_bg (fbc s)\<rparr>
         else text_cell (fbc s) x y))"
proof -
  have "set bs \<subseteq> text_bytes" using bs printable_byte(1) by (auto simp: list_all_iff)
  from write_text [OF ok d g this] obtain b where
    b: "flanterm_write_ctx bs s = Some (s\<lparr>fbc := b\<rparr>)" "term_ok (s\<lparr>fbc := b\<rparr>)" "drawn b"
      "text_of b = fold (text_step s) bs (text_of (fbc s))" "pictured b"
    using auto by blast
  let ?x = "cursor_x (fbc s)" and ?y = "cursor_y (fbc s)" and ?n = "cols (fbc s)"
  have t: "text_of b = (text_of (fbc s))\<lparr>tx_x := ?x + length bs,
     tx_cells := overwrite (?y * ?n + ?x) (map (\<lambda>c. text_char (text_of (fbc s)) (unat c)) bs) (shown (fbc s))\<rparr>"
    using text_line [OF bs, of "text_of (fbc s)"] fits b(4) by simp
  have f: "cols b = ?n" "rows b = rows (fbc s)" "cursor_x b = ?x + length bs" "cursor_y b = ?y"
    "shown b = overwrite (?y * ?n + ?x) (map (\<lambda>c. text_char (text_of (fbc s)) (unat c)) bs) (shown (fbc s))"
    using t by (simp_all add: text_of_def)
  have "text_cell b x y = (if y = ?y \<and> ?x \<le> x \<and> x < ?x + length bs
      then \<lparr>ch_c = unat (bs ! (x - ?x)), ch_fg = text_fg (fbc s), ch_bg = text_bg (fbc s)\<rparr> else text_cell (fbc s) x y)"
    if xy: "x < ?n" "y < rows (fbc s)" for x y
  proof -
    let ?j = "y * ?n + x" and ?k = "?y * ?n + ?x"
    have range: "?k \<le> ?j \<and> ?j < ?k + length bs \<longleftrightarrow> y = ?y \<and> ?x \<le> x \<and> x < ?x + length bs"
    proof
      assume a: "?k \<le> ?j \<and> ?j < ?k + length bs"
      then have "?j div ?n = ?y" using fits(1) by (intro div_nat_eqI) (simp_all add: algebra_simps)
      then have "y = ?y" using xy(1) by simp
      with a show "y = ?y \<and> ?x \<le> x \<and> x < ?x + length bs" by simp
    qed auto
    have "text_cell b x y = (if ?k \<le> ?j \<and> ?j < ?k + length bs
        then map (\<lambda>c. text_char (text_of (fbc s)) (unat c)) bs ! (?j - ?k) else text_cell (fbc s) x y)"
      unfolding f(1,5) using cell_less [OF xy] by (simp add: nth_overwrite)
    also have "\<dots> = (if y = ?y \<and> ?x \<le> x \<and> x < ?x + length bs
        then text_char (text_of (fbc s)) (unat (bs ! (x - ?x))) else text_cell (fbc s) x y)"
      unfolding range by auto
    finally show ?thesis by (simp add: text_char_def)
  qed
  then show ?thesis using b(1,2,3,5) f by (intro exI [of _ b]) simp
qed

section \<open>Properties\<close>

text \<open>
  C4 \<open>flanterm_write\<close> on any bytes whatsoever, in any state of the terminal: it returns, nothing is read
  or written outside an array, the invariants of the parser, of the redraw queue and of the picture are
  kept, and unless automatic flushing is off, every pixel of every cell of the framebuffer is that
  of the character the text has there, with the colours exchanged in the cell of the cursor.
\<close>

theorem terminal_write_pictured:
  fixes s :: "('w::len) word flanterm_context"
  assumes "term_ok s" and "drawn (fbc s)"
  shows "\<exists>s'. flanterm_write_ctx bs s = Some s' \<and> term_ok s' \<and> drawn (fbc s') \<and> (autoflush s' \<longrightarrow> pictured (fbc s'))"
  by (rule write_pictured [OF assms])

text \<open>
  C5 Text without escape sequences (printable characters, newline, carriage return, tabulator,
  backspace): a write makes of the text what the reference editor \<open>text_byte\<close> makes of it byte by
  byte (with the wrap at the end of a line and the scrolling of the region), leaves the parser as it
  was, and the framebuffer shows the result.
\<close>

theorem terminal_text_refines:
  fixes s :: "('w::len) word flanterm_context"
  assumes "term_ok s" and "drawn (fbc s)" and "ground s" and "set bs \<subseteq> text_bytes"
  shows "\<exists>b. flanterm_write_ctx bs s = Some (s\<lparr>fbc := b\<rparr>) \<and> term_ok (s\<lparr>fbc := b\<rparr>) \<and> drawn b \<and>
     text_of b = fold (text_byte (oob_output s AND oob_onlcr s \<noteq> 0) (tab_size s)) bs (text_of (fbc s)) \<and>
     (autoflush s \<longrightarrow> pictured b)"
  using write_text [OF assms] by blast

text \<open>
  A line of printable characters that fits behind the cursor appears there in the current colours,
  the cursor stands behind it, every other cell keeps its character, and the framebuffer shows it.
\<close>

theorem terminal_prints_line:
  fixes s :: "('w::len) word flanterm_context"
  assumes "term_ok s" and "drawn (fbc s)" and "ground s" and "autoflush s" and "list_all printable bs"
    and "cursor_x (fbc s) + length bs \<le> cols (fbc s)" and "cursor_y (fbc s) < rows (fbc s)"
  shows "\<exists>b. flanterm_write_ctx bs s = Some (s\<lparr>fbc := b\<rparr>) \<and> pictured b \<and>
     cursor_x b = cursor_x (fbc s) + length bs \<and> cursor_y b = cursor_y (fbc s) \<and>
     (\<forall>x<cols (fbc s). \<forall>y<rows (fbc s). text_cell b x y =
        (if y = cursor_y (fbc s) \<and> cursor_x (fbc s) \<le> x \<and> x < cursor_x (fbc s) + length bs
         then \<lparr>ch_c = unat (bs ! (x - cursor_x (fbc s))), ch_fg = text_fg (fbc s), ch_bg = text_bg (fbc s)\<rparr>
         else text_cell (fbc s) x y))"
  using printed_line [OF assms] by blast

text \<open>
  C12 The call of \<open>flanterm_fb_init\<close> in \<open>kernel\<close>: on every screen of at least 9 by 16 and less than 65536
  by 65536 pixels that the framebuffer holds, the pool has room, and the kernel gets a terminal
  with the scale and the window for the resolution (1920 by 1200 pixels at most), blank, with the
  cursor in the corner, all of it painted.
\<close>

theorem kernel_terminal_starts:
  fixes m :: "'h fb_memory"
  assumes "9 \<le> w" and "w < 2 ^ 16" and "16 \<le> h" and "h < 2 ^ 16" and "w \<le> ppsl"
    and "(h - 1) * ppsl + w \<le> length fb" and "known_sizes z" and "2 \<le> n" and "unused_pool m"
  shows "\<exists>s ctx m'. (flanterm_fb_init z None None n onlcr (kernel_fb_args fb w h ppsl) m :: ('w::len, 'h) fb_started option)
       = Some (Some (s, ctx), m') \<and>
     term_ok s \<and> drawn (fbc s) \<and> pictured (fbc s) \<and> ground s \<and> autoflush s \<and>
     text_of (fbc s) = blank_text (palette (fbc s)) (cols (fbc s)) (rows (fbc s)) \<and>
     cols (fbc s) = min 1920 w div (9 * kernel_scale w h) \<and> rows (fbc s) = min 1200 h div (16 * kernel_scale w h)"
  using kernel_terminal [OF assms, where 'w = 'w and onlcr = onlcr] unfolding fresh_def by blast

section \<open>A terminal on a small screen\<close>

definition demo_sizes :: fb_sizes where
  "demo_sizes = \<lparr>sizeof_fb_context = 800, sizeof_fb_char = 12, sizeof_queue_item = 32, font_glyphs = 256\<rparr>"

definition demo_memory :: "unit fb_memory" where
  "demo_memory = \<lparr>bump_alloc_pool = 4096, bump_alloc_ptr = 0, base_offset_added = False,
     bump_allocated_instance = False, contexts = \<lambda>_. None, outside = ()\<rparr>"

definition demo_args :: fb_args where
  "demo_args = kernel_fb_args (replicate 20480 0) 320 64 320"

definition demo :: "32 word flanterm_context \<Rightarrow> bool" where
  "demo s \<longleftrightarrow> (\<exists>ctx m. flanterm_fb_init demo_sizes None None 16 1 demo_args demo_memory = Some (Some (s, ctx), m)) \<and>
     fresh 1 s \<and> cols (fbc s) = 35 \<and> rows (fbc s) = 4"

lemma demo_hyps: "known_sizes demo_sizes" "unused_pool demo_memory"
  by (simp_all add: known_sizes_def demo_sizes_def unused_pool_def demo_memory_def)

lemma demo_exists: "\<exists>s. demo s"
proof -
  have "(64 - 1) * 320 + 320 \<le> length (replicate 20480 (0 :: u32))" by simp
  then have "\<exists>s ctx m'. (flanterm_fb_init demo_sizes None None 16 1 demo_args demo_memory :: (32, unit) fb_started option)
       = Some (Some (s, ctx), m') \<and> fresh 1 s \<and>
     cols (fbc s) = min 1920 320 div (9 * kernel_scale 320 64) \<and> rows (fbc s) = min 1200 64 div (16 * kernel_scale 320 64)"
    unfolding demo_args_def by (intro kernel_terminal demo_hyps) simp_all
  then show ?thesis unfolding demo_def by (auto simp: kernel_scale_def)
qed

lemma demo_state:
  assumes "demo s"
  shows "term_ok s" "drawn (fbc s)" "ground s" "autoflush s" "cols (fbc s) = 35" "rows (fbc s) = 4"
    "cursor_x (fbc s) = 0" "cursor_y (fbc s) = 0" "text_of (fbc s) = blank_text (palette (fbc s)) 35 4"
    "oob_output s = 1" "oob_onlcr s = 1" "tab_size s = 8"
proof -
  show t: "text_of (fbc s) = blank_text (palette (fbc s)) 35 4"
    using assms by (simp add: demo_def fresh_def)
  show "cursor_x (fbc s) = 0" "cursor_y (fbc s) = 0"
    using arg_cong [OF t, of tx_x] arg_cong [OF t, of tx_y] by (simp_all add: blank_text_def)
qed (use assms in \<open>simp_all add: demo_def fresh_def\<close>)

text \<open>Bytes that are no text: a lone continuation byte, an unfinished sequence, a cancel, large numbers.\<close>

theorem terminal_write_pictured_witness:
  "\<exists>s s'. demo s \<and> flanterm_write_ctx [0x80, 27, 91, 57, 57, 57, 57, 80, 27, 40, 48, 0xE2, 65, 27, 91, 51] s = Some s' \<and> term_ok s' \<and> drawn (fbc s')"
  using demo_exists demo_state(1,2) terminal_write_pictured by blast

theorem terminal_text_refines_witness:
  "\<exists>s b. demo s \<and> flanterm_write_ctx [72, 105, 10, 9, 8, 33] s = Some (s\<lparr>fbc := b\<rparr>) \<and> pictured b \<and>
     text_of b = fold (text_byte True 8) [72, 105, 10, 9, 8, 33] (blank_text (palette (fbc s)) 35 4)"
proof -
  obtain s where s: "demo s" using demo_exists by blast
  have "set [72, 105, 10, 9, 8, 33] \<subseteq> text_bytes" by (simp add: text_bytes_def)
  from terminal_text_refines [OF demo_state(1-3) [OF s] this] show ?thesis
    using s demo_state(4,9-12) [OF s] by auto
qed

theorem terminal_prints_line_witness:
  "\<exists>s b. demo s \<and> flanterm_write_ctx [72, 105] s = Some (s\<lparr>fbc := b\<rparr>) \<and> pictured b \<and> cursor_x b = 2 \<and>
     ch_c (text_cell b 1 0) = 105"
proof -
  obtain s where s: "demo s" using demo_exists by blast
  have p: "list_all printable [72, 105]" by (simp add: printable_def)
  have "cursor_x (fbc s) + length [72, 105 :: u8] \<le> cols (fbc s)" "cursor_y (fbc s) < rows (fbc s)"
    using demo_state(5-8) [OF s] by simp_all
  from terminal_prints_line [OF demo_state(1-4) [OF s] p this] obtain b where
    b: "flanterm_write_ctx [72, 105] s = Some (s\<lparr>fbc := b\<rparr>)" "pictured b" "cursor_x b = 2"
      "\<forall>x<35. \<forall>y<4. text_cell b x y = (if y = 0 \<and> 0 \<le> x \<and> x < 2
         then \<lparr>ch_c = unat ([72, 105 :: u8] ! x), ch_fg = text_fg (fbc s), ch_bg = text_bg (fbc s)\<rparr> else text_cell (fbc s) x y)"
    using demo_state(5-8) [OF s] by auto
  have "text_cell b 1 0 = \<lparr>ch_c = 105, ch_fg = text_fg (fbc s), ch_bg = text_bg (fbc s)\<rparr>"
    using b(4) [rule_format, of 1 0] by simp
  then show ?thesis using s b(1-3) by (intro exI [of _ s] exI [of _ b]) simp
qed

theorem kernel_terminal_starts_witness:
  "\<exists>s ctx m. (flanterm_fb_init demo_sizes None None 16 1 (kernel_fb_args (replicate 20480 0) 320 64 320) demo_memory :: (32, unit) fb_started option)
       = Some (Some (s, ctx), m) \<and> pictured (fbc s) \<and> cols (fbc s) = 35 \<and> rows (fbc s) = 4"
proof -
  have "(64 - 1) * 320 + 320 \<le> length (replicate 20480 (0 :: u32))" by simp
  then show ?thesis
    using kernel_terminal_starts [of 320 64 320 "replicate 20480 0" demo_sizes 16 demo_memory 1, where 'w = 32] demo_hyps
    by (auto simp: kernel_scale_def)
qed

end
