(* ===== verification/TerminalEscapes.thy ===== *)
theory TerminalEscapes
  imports TerminalCorrect Numbers
begin

text \<open>
  Control sequences, from the bytes to the text: the numbers of a sequence are read back, the
  cursor goes where \<open>ESC [ row ; column H\<close> says, and the sequence the shell clears the screen
  with clears it.
\<close>

section \<open>Reading a sequence\<close>

text \<open>Between two characters, with no sequence begun.\<close>

definition idle :: "'v flanterm_context \<Rightarrow> bool" where
  "idle s \<longleftrightarrow> ground s \<and> \<not> osc s \<and> \<not> dec_private s \<and> \<not> control_sequence s"

definition in_csi :: "'v flanterm_context \<Rightarrow> bool" where
  "in_csi s \<longleftrightarrow> escape s \<and> control_sequence s \<and> \<not> osc s \<and> \<not> discard_next s \<and> unicode_remaining s = 0 \<and>
     \<not> dec_private s \<and> 1 \<le> escape_offset s"

definition csi_open :: "('w::len) word flanterm_context \<Rightarrow> 'w word flanterm_context" where
  "csi_open s = s\<lparr>escape_offset := 1, escape := True, esc_values := replicate (length (esc_values s)) 0,
     esc_values_i := 0, rrr := False, control_sequence := True\<rparr>"

lemma utf8_ascii: "c \<le> 0x7F \<Longrightarrow> utf8_lead c = None"
  by (auto simp: utf8_lead_def word_le_nat_alt)

lemma csi_open_run:
  fixes s :: "('w::len) word flanterm_context"
  assumes "idle s"
  shows "for_each flanterm_putchar [27, 91] s = Some (csi_open s)"
proof -
  let ?s = "s\<lparr>escape_offset := 0, escape := True\<rparr>"
  obtain x y where xy: "flanterm_fb_get_cursor_pos (fbc s) = (x, y)" by fastforce
  have "flanterm_putchar 27 s = Some ?s"
    using assms by (simp add: flanterm_putchar_def start_byte_def utf8_ascii idle_def ground_def plain_byte_def xy)
  moreover have "flanterm_putchar 91 ?s = Some (csi_open s)"
    using assms by (simp add: flanterm_putchar_def start_byte_def utf8_ascii idle_def ground_def escape_parse_def
        escape_command_def xy csi_open_def)
  ultimately show ?thesis by simp
qed

lemma csi_byte:
  fixes s :: "('w::len) word flanterm_context"
  assumes "in_csi s" and "c \<le> 0x7F" and "c \<noteq> 0x18" and "c \<noteq> 0x1A"
  shows "flanterm_putchar c s = control_sequence_parse c (s\<lparr>escape_offset := escape_offset s + 1\<rparr>)"
  using assms by (simp add: flanterm_putchar_def start_byte_def utf8_ascii in_csi_def escape_parse_def Let_def)

definition digit_byte :: "u8 \<Rightarrow> bool" where
  "digit_byte c \<longleftrightarrow> 0x30 \<le> c \<and> c \<le> 0x39"

lemma digit_step:
  fixes s :: "('w::len) word flanterm_context"
  assumes s: "in_csi s" "esc_values_i s < length (esc_values s)" and c: "digit_byte c"
  shows "flanterm_putchar c s = Some (s\<lparr>escape_offset := escape_offset s + 1, rrr := True,
     esc_values := (esc_values s)[esc_values_i s := esc_values s ! esc_values_i s * 10 + word_of_nat (unat c - 48)]\<rparr>)"
proof -
  have "c \<le> 0x7F" "c \<noteq> 0x18" "c \<noteq> 0x1A" "c \<noteq> 91" "c \<noteq> 63" using c by (auto simp: digit_byte_def word_le_nat_alt)
  then show ?thesis
    using s c csi_byte [OF s(1)]
    by (simp add: control_sequence_parse_def digit_byte_def csi_digit_def set_value_def)
qed

lemma digits_run:
  fixes s :: "('w::len) word flanterm_context"
  assumes "in_csi s" "esc_values_i s < length (esc_values s)" and "list_all digit_byte ds" and "ds \<noteq> []"
  shows "for_each flanterm_putchar ds s = Some (s\<lparr>escape_offset := escape_offset s + length ds, rrr := True,
     esc_values := (esc_values s)[esc_values_i s :=
       foldl (\<lambda>v c. v * 10 + word_of_nat (unat c - 48)) (esc_values s ! esc_values_i s) ds]\<rparr>)"
  using assms
proof (induction ds arbitrary: s)
  case (Cons c ds)
  let ?v = "esc_values s ! esc_values_i s * 10 + word_of_nat (unat c - 48)"
  let ?s = "s\<lparr>escape_offset := escape_offset s + 1, rrr := True, esc_values := (esc_values s)[esc_values_i s := ?v]\<rparr>"
  have step: "flanterm_putchar c s = Some ?s" using Cons.prems by (intro digit_step) simp_all
  have s: "in_csi ?s" "esc_values_i ?s < length (esc_values ?s)" "esc_values ?s ! esc_values_i ?s = ?v"
    using Cons.prems(1,2) by (simp_all add: in_csi_def)
  show ?case
  proof (cases "ds = []")
    case True
    then show ?thesis using step by simp
  next
    case False
    then show ?thesis using step Cons.IH [OF s(1,2)] Cons.prems(3) s(3) by simp
  qed
qed simp

text \<open>A number in decimal is read back, modulo the width of the values.\<close>

lemma read_digits:
  "\<forall>d\<in>set ds. d < 10 \<Longrightarrow> foldl (\<lambda>v c. v * 10 + word_of_nat (unat c - 48)) v (map (\<lambda>d. hex_digits ! d) ds)
     = (foldl (\<lambda>v d. v * 10 + word_of_nat d) v ds :: ('w::len) word)"
proof (induction ds arbitrary: v)
  case (Cons d ds)
  have "d < 10" using Cons.prems by simp
  then have "hex_digits ! d = word_of_nat (48 + d)" "48 + d < 256" by (simp_all add: hex_digit_decimal)
  then have "unat (hex_digits ! d) = 48 + d" by (simp only: unat_of_nat) simp
  then show ?case using Cons by simp
qed simp

lemma fold_value: "foldl (\<lambda>v d. v * 10 + word_of_nat d) (word_of_nat a) ds
    = (word_of_nat (foldl (\<lambda>a d. a * 10 + d) a ds) :: ('w::len) word)"
proof (induction ds arbitrary: a)
  case (Cons d ds)
  then show ?case using Cons.IH [of "a * 10 + d"] by simp
qed simp

lemma read_render: "foldl (\<lambda>v c. v * 10 + word_of_nat (unat c - 48)) 0 (render 10 k) = (word_of_nat k :: ('w::len) word)"
proof -
  have "\<forall>d\<in>set (digits 10 k). d < 10" using digits_less [of 10] by simp
  then have "foldl (\<lambda>v c. v * 10 + word_of_nat (unat c - 48)) 0 (render 10 k)
      = (foldl (\<lambda>v d. v * 10 + word_of_nat d) (word_of_nat 0) (digits 10 k) :: 'w word)"
    by (simp add: render_def read_digits)
  then show ?thesis using digits_value [of 10 k] by (simp only: fold_value value_of_def)
qed

lemma render_digits: "list_all digit_byte (render 10 k)" "render 10 k \<noteq> []"
proof -
  have "digit_byte (hex_digits ! d)" if "d < 10" for d
  proof -
    have "d \<in> {0, 1, 2, 3, 4, 5, 6, 7, 8, 9}" using that by auto
    then show ?thesis by (auto simp: hex_digits_def digit_byte_def)
  qed
  then show "list_all digit_byte (render 10 k)"
    using digits_less [of 10] by (auto simp: render_def list_all_iff)
  show "render 10 k \<noteq> []" by (simp add: render_def)
qed

text \<open>The end of a sequence: the values that were not given get the default.\<close>

lemma fill_from:
  fixes s :: "('w::len) word flanterm_context"
  assumes "k \<le> length (esc_values s)"
  shows "for_each (\<lambda>i. set_value i v) [k..<length (esc_values s)] s
     = Some (s\<lparr>esc_values := take k (esc_values s) @ replicate (length (esc_values s) - k) v\<rparr>)"
proof -
  let ?n = "length (esc_values s)"
  have "\<exists>s'. for_each (\<lambda>i. set_value i v) [k..<?n] s = Some s' \<and>
      s' = s\<lparr>esc_values := take k (esc_values s) @ replicate (?n - k) v @ drop ?n (esc_values s)\<rparr>"
  proof (rule for_range [where I = "\<lambda>i s'. s' = s\<lparr>esc_values := take k (esc_values s) @ replicate (i - k) v @ drop i (esc_values s)\<rparr>"])
    fix i and t :: "'w word flanterm_context"
    assume i: "k \<le> i" "i < ?n" and t: "t = s\<lparr>esc_values := take k (esc_values s) @ replicate (i - k) v @ drop i (esc_values s)\<rparr>"
    have "drop i (esc_values s) = esc_values s ! i # drop (Suc i) (esc_values s)" using i(2) by (simp add: Cons_nth_drop_Suc)
    then have "(take k (esc_values s) @ replicate (i - k) v @ drop i (esc_values s))[i := v]
        = take k (esc_values s) @ replicate (Suc i - k) v @ drop (Suc i) (esc_values s)"
      using i by (simp add: list_update_append Suc_diff_le replicate_append_same)
    then show "\<exists>t'. set_value i v t = Some t' \<and>
        t' = s\<lparr>esc_values := take k (esc_values s) @ replicate (Suc i - k) v @ drop (Suc i) (esc_values s)\<rparr>"
      using i t by (simp add: set_value_def)
  qed (use assms in simp_all)
  then show ?thesis by simp
qed

definition csi_values :: "u8 \<Rightarrow> ('w::len) word flanterm_context \<Rightarrow> 'w word flanterm_context" where
  "csi_values c s = (let k = (if rrr s then esc_values_i s + 1 else esc_values_i s);
       v = (if c = ch CHR ''J'' \<or> c = ch CHR ''K'' \<or> c = ch CHR ''q'' then 0 else 1)
     in s\<lparr>escape_offset := escape_offset s + 1, rrr := False, esc_values_i := k,
          esc_values := take k (esc_values s) @ replicate (length (esc_values s) - k) v\<rparr>)"

lemma csi_end:
  fixes s :: "('w::len) word flanterm_context"
  assumes s: "in_csi s" "(if rrr s then esc_values_i s + 1 else esc_values_i s) \<le> length (esc_values s)"
    and c: "0x40 \<le> c" "c \<le> 0x7E" "c \<noteq> 91"
    and run: "flanterm_fb_get_cursor_pos (fbc s) = (x, y)"
      "csi_dispatch c x y (csi_values c s\<lparr>fbc := (fbc s)\<lparr>scroll_enabled := False\<rparr>\<rparr>) = Some s'"
  shows "flanterm_putchar c s = Some (csi_cleanup (s'\<lparr>fbc := (fbc s')\<lparr>scroll_enabled := scroll_enabled (fbc s)\<rparr>\<rparr>))"
proof -
  have c': "c \<le> 0x7F" "c \<noteq> 0x18" "c \<noteq> 0x1A" "c \<noteq> 63" "\<not> c \<le> 0x39" "c \<noteq> 59" using c by (auto simp: word_le_nat_alt)
  let ?s1 = "s\<lparr>escape_offset := escape_offset s + 1, rrr := False,
      esc_values_i := (if rrr s then esc_values_i s + 1 else esc_values_i s)\<rparr>"
  have "flanterm_putchar c s = csi_final c ?s1"
    unfolding csi_byte [OF s(1) c'(1-3)] using s(1) c c' by (cases s) (simp add: control_sequence_parse_def in_csi_def Let_def)
  moreover have "fill_defaults (if c = ch CHR ''J'' \<or> c = ch CHR ''K'' \<or> c = ch CHR ''q'' then 0 else 1) ?s1 = Some (csi_values c s)"
    using s(2) fill_from [of "esc_values_i ?s1" ?s1] by (simp add: fill_defaults_def csi_values_def Let_def)
  moreover have "\<not> dec_private (csi_values c s)" "fbc (csi_values c s) = fbc s"
    using s(1) by (simp_all add: csi_values_def in_csi_def Let_def)
  moreover have "flanterm_fb_get_cursor_pos ((fbc s)\<lparr>scroll_enabled := False\<rparr>) = (x, y)"
    unfolding run(1) [symmetric] by (simp add: flanterm_fb_get_cursor_pos_def)
  ultimately show ?thesis using run(2) by (simp add: csi_final_def)
qed

section \<open>The cursor\<close>

lemma csi_separator:
  fixes s :: "('w::len) word flanterm_context"
  assumes "in_csi s" and "rrr s"
  shows "flanterm_putchar 59 s = Some (s\<lparr>escape_offset := escape_offset s + 1, esc_values_i := esc_values_i s + 1, rrr := False\<rparr>)"
  using assms csi_byte [of s 59] by (simp add: control_sequence_parse_def)

text \<open>The parser after a sequence differs from the one before it in the values only.\<close>

definition after_csi :: "('w::len) word flanterm_context \<Rightarrow> nat \<Rightarrow> nat \<Rightarrow> 'w word list \<Rightarrow> fb_context \<Rightarrow> 'w word flanterm_context" where
  "after_csi s off k vs b = s\<lparr>escape_offset := off, esc_values := vs, esc_values_i := k, rrr := False,
     control_sequence := False, escape := False, fbc := b\<rparr>"

lemma after_csi_idle: "idle s \<Longrightarrow> idle (after_csi s off k vs b)"
  by (simp add: idle_def ground_def after_csi_def)

lemma after_csi_fields [simp]:
  "fbc (after_csi s off k vs b) = b" "autoflush (after_csi s off k vs b) = autoflush s"
  "esc_values (after_csi s off k vs b) = vs"
  by (simp_all add: after_csi_def)

lemma after_csi_ok:
  "term_ok s \<Longrightarrow> screen_ok b \<Longrightarrow> length vs = length (esc_values s) \<Longrightarrow> k \<le> length vs \<Longrightarrow> term_ok (after_csi s off k vs b)"
  by (simp add: after_csi_def term_ok_def parser_ok_def)

lemma position_run:
  fixes s :: "('w::len) word flanterm_context"
  assumes ok: "term_ok s" and idle: "idle s" and x: "x < cols (fbc s)" and y: "y < rows (fbc s)" and w: "31 \<le> LENGTH('w)"
  shows "\<exists>off k vs. for_each flanterm_putchar ([27, 91] @ render 10 (y + 1) @ [59] @ render 10 (x + 1) @ [72]) s
     = Some (after_csi s off k vs ((fbc s)\<lparr>cursor_x := x, cursor_y := y\<rparr>)) \<and> length vs = length (esc_values s) \<and> k \<le> length vs"
proof -
  let ?n = "length (esc_values s)" and ?dy = "render 10 (y + 1)" and ?dx = "render 10 (x + 1)"
  have n: "2 \<le> ?n" "esc_values s \<noteq> []" using term_ok_parts(1) [OF ok] by auto
  have sz: "cols (fbc s) < 2 ^ 31" "rows (fbc s) < 2 ^ 31" using fb_ok_pos [OF term_ok_parts(2) [OF ok]] by simp_all
  have "(2 :: nat) ^ 31 \<le> 2 ^ LENGTH('w)" using w by (rule power_increasing) simp
  then have small: "x + 1 < 2 ^ LENGTH('w)" "y + 1 < 2 ^ LENGTH('w)" using x y sz by linarith+
  have open_csi: "in_csi (csi_open s)" using idle by (simp add: in_csi_def csi_open_def idle_def ground_def)
  define s1 where "s1 = (csi_open s)\<lparr>escape_offset := 1 + length ?dy, rrr := True,
      esc_values := (replicate ?n 0)[0 := word_of_nat (y + 1)]\<rparr>"
  have "esc_values_i (csi_open s) < length (esc_values (csi_open s))" using n by (simp add: csi_open_def)
  from digits_run [OF open_csi this render_digits] have r1: "for_each flanterm_putchar ?dy (csi_open s) = Some s1"
    using n by (simp add: csi_open_def s1_def read_render)
  have c1: "in_csi s1" "rrr s1" using open_csi by (simp_all add: in_csi_def s1_def)
  define s2 where "s2 = s1\<lparr>escape_offset := escape_offset s1 + 1, esc_values_i := 1, rrr := False\<rparr>"
  have r2: "flanterm_putchar 59 s1 = Some s2"
    using csi_separator [OF c1] by (simp add: s1_def s2_def csi_open_def)
  define s3 where "s3 = s2\<lparr>escape_offset := escape_offset s2 + length ?dx, rrr := True,
      esc_values := (replicate ?n 0)[0 := word_of_nat (y + 1), 1 := word_of_nat (x + 1)]\<rparr>"
  have c2: "in_csi s2" using c1 by (simp add: in_csi_def s2_def)
  have "esc_values_i s2 < length (esc_values s2)" using n by (simp add: s2_def s1_def)
  from digits_run [OF c2 this render_digits] have r3: "for_each flanterm_putchar ?dx s2 = Some s3"
    using n by (simp add: csi_open_def s1_def s2_def s3_def read_render)
  have c3: "in_csi s3" using c2 by (simp add: in_csi_def s3_def)
  obtain cx cy where pos: "flanterm_fb_get_cursor_pos (fbc s3) = (cx, cy)" by fastforce
  have f3: "fbc s3 = fbc s" "esc_values_i s3 = 1" "rrr s3" "length (esc_values s3) = ?n"
    by (simp_all add: s3_def s2_def s1_def csi_open_def)
  define vs where "vs = take 2 (esc_values s3) @ replicate (?n - 2) 1"
  define s4 where "s4 = s3\<lparr>escape_offset := escape_offset s3 + 1, rrr := False, esc_values_i := 2, esc_values := vs,
      fbc := (fbc s)\<lparr>scroll_enabled := False\<rparr>\<rparr>"
  have v4: "csi_values 72 s3\<lparr>fbc := (fbc s)\<lparr>scroll_enabled := False\<rparr>\<rparr> = s4"
    using f3 by (simp add: csi_values_def s4_def vs_def numeral_2_eq_2 [symmetric])
  have vs: "length vs = ?n" "vs ! 0 = word_of_nat (y + 1)" "vs ! 1 = word_of_nat (x + 1)"
    using n f3(4) by (simp_all add: vs_def nth_append s3_def)
  define s5 where "s5 = s4\<lparr>esc_values := vs[1 := word_of_nat x, 0 := word_of_nat y],
      fbc := (fbc s)\<lparr>scroll_enabled := False, cursor_x := x, cursor_y := y\<rparr>\<rparr>"
  have uns: "unat (word_of_nat x :: 'w word) = x" "unat (word_of_nat y :: 'w word) = y"
    using small by (simp_all add: unat_of_nat)
  have ne: "word_of_nat (x + 1) \<noteq> (0 :: 'w word)" "word_of_nat (y + 1) \<noteq> (0 :: 'w word)"
    using small by (metis Suc_eq_plus1 nat.distinct(1) mod_less unat_0 unat_of_nat)+
  have cl: "clamped_value (if word_of_nat (x + 1) \<noteq> (0 :: 'w word) then word_of_nat (x + 1) - 1 else word_of_nat (x + 1)) (cols (fbc s)) = (word_of_nat x :: 'w word)"
    "clamped_value (if word_of_nat (y + 1) \<noteq> (0 :: 'w word) then word_of_nat (y + 1) - 1 else word_of_nat (y + 1)) (rows (fbc s)) = (word_of_nat y :: 'w word)"
    using ne uns x y by (simp_all add: clamped_value_def)
  have go: "flanterm_fb_set_cursor_pos x y ((fbc s)\<lparr>scroll_enabled := False\<rparr>)
      = (fbc s)\<lparr>scroll_enabled := False, cursor_x := x, cursor_y := y\<rparr>"
    using x y by (simp add: flanterm_fb_set_cursor_pos_def clamp_pos_def)
  have a: "rd (esc_values s4) 0 = Some (word_of_nat (y + 1))" "rd (esc_values s4) 1 = Some (word_of_nat (x + 1))"
    "cols (fbc s4) = cols (fbc s)" "rows (fbc s4) = rows (fbc s)"
    using n vs by (simp_all add: s4_def)
  have "csi_position s4 = Some s5"
    unfolding csi_position_def a bind.bind_lunit Let_def cl
    using n vs(1) by (simp add: s4_def s5_def set_value_def on_fb_def uns go)
  then have d: "csi_dispatch 72 cx cy s4 = Some s5" by (simp add: csi_dispatch_def)
  have "flanterm_putchar 72 s3 = Some (csi_cleanup (s5\<lparr>fbc := (fbc s5)\<lparr>scroll_enabled := scroll_enabled (fbc s3)\<rparr>\<rparr>))"
    using n f3 d by (intro csi_end [OF c3 _ _ _ _ pos]) (simp_all add: v4)
  also have "csi_cleanup (s5\<lparr>fbc := (fbc s5)\<lparr>scroll_enabled := scroll_enabled (fbc s3)\<rparr>\<rparr>)
      = after_csi s (escape_offset s4) 2 (esc_values s5) ((fbc s)\<lparr>cursor_x := x, cursor_y := y\<rparr>)"
    by (cases s, simp add: f3 csi_cleanup_def after_csi_def s5_def s4_def s3_def s2_def s1_def csi_open_def)
  finally have r4: "flanterm_putchar 72 s3 = Some (after_csi s (escape_offset s4) 2 (esc_values s5) ((fbc s)\<lparr>cursor_x := x, cursor_y := y\<rparr>))" .
  have "for_each flanterm_putchar ([27, 91] @ render 10 (y + 1) @ [59] @ render 10 (x + 1) @ [72]) s
      = Some (after_csi s (escape_offset s4) 2 (esc_values s5) ((fbc s)\<lparr>cursor_x := x, cursor_y := y\<rparr>))"
    unfolding for_each_append csi_open_run [OF idle] using r1 r2 r3 r4 by simp
  moreover have "length (esc_values s5) = ?n" by (simp add: s5_def vs(1))
  ultimately show ?thesis using n by (metis)
qed

text \<open>The sequence without numbers goes to the corner.\<close>

lemma home_run:
  fixes s :: "('w::len) word flanterm_context"
  assumes ok: "term_ok s" and idle: "idle s"
  shows "\<exists>off k vs. for_each flanterm_putchar [27, 91, 72] s
     = Some (after_csi s off k vs ((fbc s)\<lparr>cursor_x := 0, cursor_y := 0\<rparr>)) \<and> length vs = length (esc_values s) \<and> k \<le> length vs"
proof -
  let ?n = "length (esc_values s)" and ?s = "csi_open s"
  have n: "2 \<le> ?n" "esc_values s \<noteq> []" using term_ok_parts(1) [OF ok] by auto
  have sz: "0 < cols (fbc s)" "0 < rows (fbc s)" using fb_ok_pos [OF term_ok_parts(2) [OF ok]] by simp_all
  have open_csi: "in_csi ?s" using idle by (simp add: in_csi_def csi_open_def idle_def ground_def)
  obtain cx cy where pos: "flanterm_fb_get_cursor_pos (fbc ?s) = (cx, cy)" by fastforce
  have f: "fbc ?s = fbc s" "\<not> rrr ?s" "esc_values_i ?s = 0" "length (esc_values ?s) = ?n" by (simp_all add: csi_open_def)
  define s4 where "s4 = ?s\<lparr>escape_offset := 2, rrr := False, esc_values_i := 0, esc_values := replicate ?n 1,
      fbc := (fbc s)\<lparr>scroll_enabled := False\<rparr>\<rparr>"
  have v4: "csi_values 72 ?s\<lparr>fbc := (fbc s)\<lparr>scroll_enabled := False\<rparr>\<rparr> = s4"
    by (simp add: csi_values_def s4_def csi_open_def numeral_2_eq_2 [symmetric])
  define s5 where "s5 = s4\<lparr>esc_values := (replicate ?n 1)[1 := 0, 0 := 0],
      fbc := (fbc s)\<lparr>scroll_enabled := False, cursor_x := 0, cursor_y := 0\<rparr>\<rparr>"
  have a: "rd (esc_values s4) 0 = Some 1" "rd (esc_values s4) 1 = Some 1"
    "cols (fbc s4) = cols (fbc s)" "rows (fbc s4) = rows (fbc s)" using n by (simp_all add: s4_def)
  have go: "flanterm_fb_set_cursor_pos 0 0 ((fbc s)\<lparr>scroll_enabled := False\<rparr>)
      = (fbc s)\<lparr>scroll_enabled := False, cursor_x := 0, cursor_y := 0\<rparr>"
    using sz by (simp add: flanterm_fb_set_cursor_pos_def clamp_pos_def)
  have "csi_position s4 = Some s5"
    unfolding csi_position_def a bind.bind_lunit Let_def
    using n sz by (simp add: s4_def s5_def set_value_def on_fb_def go clamped_value_def)
  then have d: "csi_dispatch 72 cx cy s4 = Some s5" by (simp add: csi_dispatch_def)
  have "flanterm_putchar 72 ?s = Some (csi_cleanup (s5\<lparr>fbc := (fbc s5)\<lparr>scroll_enabled := scroll_enabled (fbc ?s)\<rparr>\<rparr>))"
    using n f d by (intro csi_end [OF open_csi _ _ _ _ pos]) (simp_all add: v4)
  also have "csi_cleanup (s5\<lparr>fbc := (fbc s5)\<lparr>scroll_enabled := scroll_enabled (fbc ?s)\<rparr>\<rparr>)
      = after_csi s 2 0 (esc_values s5) ((fbc s)\<lparr>cursor_x := 0, cursor_y := 0\<rparr>)"
    by (cases s, simp add: f csi_cleanup_def after_csi_def s5_def s4_def csi_open_def)
  finally have r: "flanterm_putchar 72 ?s = Some (after_csi s 2 0 (esc_values s5) ((fbc s)\<lparr>cursor_x := 0, cursor_y := 0\<rparr>))" .
  have "for_each flanterm_putchar ([27, 91] @ [72]) s = Some (after_csi s 2 0 (esc_values s5) ((fbc s)\<lparr>cursor_x := 0, cursor_y := 0\<rparr>))"
    unfolding for_each_append csi_open_run [OF idle] using r by simp
  moreover have "length (esc_values s5) = ?n" by (simp add: s5_def)
  ultimately show ?thesis by (intro exI [of _ 2] exI [of _ 0] exI [of _ "esc_values s5"]) simp
qed

text \<open>\<open>ESC [ 2 J\<close> clears the text and leaves the cursor.\<close>

lemma erase_run:
  fixes s :: "('w::len) word flanterm_context"
  assumes ok: "term_ok s" and idle: "idle s" and w: "2 \<le> LENGTH('w)"
  shows "\<exists>off k vs b. for_each flanterm_putchar [27, 91, 50, 74] s = Some (after_csi s off k vs b) \<and>
     length vs = length (esc_values s) \<and> k \<le> length vs \<and> screen_ok b \<and> fixed (fbc s) b \<and>
     text_of b = text_clear False (text_of (fbc s))"
proof -
  let ?n = "length (esc_values s)"
  have n: "2 \<le> ?n" "esc_values s \<noteq> []" using term_ok_parts(1) [OF ok] by auto
  have "(2 :: nat) ^ 2 \<le> 2 ^ LENGTH('w)" using w by (rule power_increasing) simp
  then have two: "unat (2 :: 'w word) = 2" using unat_of_nat [of 2, where 'a = 'w] by simp
  have open_csi: "in_csi (csi_open s)" using idle by (simp add: in_csi_def csi_open_def idle_def ground_def)
  define s3 where "s3 = (csi_open s)\<lparr>escape_offset := 2, rrr := True, esc_values := (replicate ?n 0)[0 := 2]\<rparr>"
  have "esc_values_i (csi_open s) < length (esc_values (csi_open s))" using n by (simp add: csi_open_def)
  from digit_step [OF open_csi this, of 50] have r1: "flanterm_putchar 50 (csi_open s) = Some s3"
    using n by (simp add: digit_byte_def csi_open_def s3_def numeral_2_eq_2 [symmetric])
  have c3: "in_csi s3" using open_csi by (simp add: in_csi_def s3_def)
  obtain cx cy where pos: "flanterm_fb_get_cursor_pos (fbc s3) = (cx, cy)" by fastforce
  have f: "fbc s3 = fbc s" "rrr s3" "esc_values_i s3 = 0" "length (esc_values s3) = ?n" by (simp_all add: s3_def csi_open_def)
  let ?vs = "take 1 (esc_values s3) @ replicate (?n - 1) 0"
  define s4 where "s4 = s3\<lparr>escape_offset := 3, rrr := False, esc_values_i := 1, esc_values := ?vs,
      fbc := (fbc s)\<lparr>scroll_enabled := False\<rparr>\<rparr>"
  have v4: "csi_values 74 s3\<lparr>fbc := (fbc s)\<lparr>scroll_enabled := False\<rparr>\<rparr> = s4"
    using f by (simp add: csi_values_def s4_def s3_def)
  let ?b0 = "(fbc s)\<lparr>scroll_enabled := False\<rparr>"
  have b0: "fb_ok ?b0" "margins_ok ?b0"
    using term_ok_parts(2,3) [OF ok] by (simp_all add: margins_ok_def)
  obtain b1 where b1: "flanterm_fb_clear False ?b0 = Some b1" "fb_ok b1" "fixed ?b0 b1" "margins_ok b1"
      "text_of b1 = text_clear False (text_of ?b0)"
    by (rule refines_textE [OF clear_refines b0])
  let ?b = "b1\<lparr>scroll_enabled := scroll_enabled (fbc s)\<rparr>"
  have "rd (esc_values s4) 0 = Some 2" using n f by (simp add: s4_def s3_def nth_append)
  then have "csi_erase_display cx cy s4 = Some (s4\<lparr>fbc := b1\<rparr>)"
    unfolding csi_erase_display_def using two b1(1) by (simp add: on_fb_def s4_def)
  then have d: "csi_dispatch 74 cx cy s4 = Some (s4\<lparr>fbc := b1\<rparr>)" by (simp add: csi_dispatch_def)
  have "flanterm_putchar 74 s3 = Some (csi_cleanup (s4\<lparr>fbc := b1, fbc := ?b\<rparr>))"
    using csi_end [OF c3 _ _ _ _ pos, of 74 "s4\<lparr>fbc := b1\<rparr>"] n f d v4 by (simp add: Suc_le_eq)
  also have "csi_cleanup (s4\<lparr>fbc := b1, fbc := ?b\<rparr>) = after_csi s 3 1 ?vs ?b"
    by (cases s, simp add: csi_cleanup_def after_csi_def s4_def s3_def csi_open_def)
  finally have r2: "flanterm_putchar 74 s3 = Some (after_csi s 3 1 ?vs ?b)" .
  have "for_each flanterm_putchar ([27, 91] @ [50] @ [74]) s = Some (after_csi s 3 1 ?vs ?b)"
    unfolding for_each_append csi_open_run [OF idle] using r1 r2 by simp
  then have run: "for_each flanterm_putchar [27, 91, 50, 74] s = Some (after_csi s 3 1 ?vs ?b)" by simp
  have fx: "fixed (fbc s) ?b" using b1(3) by (simp add: fixed_def)
  have "text_of ?b = (text_of b1)\<lparr>tx_scrolls := scroll_enabled (fbc s)\<rparr>" by (simp add: text_of_def)
  also have "\<dots> = text_clear False (text_of (fbc s))"
    unfolding b1(5) by (simp add: text_of_def text_clear_def text_char_def)
  finally have tx: "text_of ?b = text_clear False (text_of (fbc s))" .
  have "text_ok (text_of (fbc s))" using term_ok_parts(4) [OF ok] by (simp add: screen_ok_def)
  then have "screen_ok ?b" using b1(2,4) tx text_ok_clear by (simp add: screen_ok_def margins_ok_def)
  then show ?thesis
    using run fx tx f(4) n by (intro exI [of _ 3] exI [of _ 1] exI [of _ ?vs] exI [of _ ?b]) auto
qed

section \<open>Properties\<close>

lemma write_sequence:
  fixes s :: "('w::len) word flanterm_context"
  assumes d: "drawn (fbc s)" and run: "for_each flanterm_putchar bs s = Some s1"
    and ok: "term_ok s1" and same: "picture_same (fbc s) (fbc s1)" and auto: "autoflush s1"
  shows "\<exists>b. flanterm_write_ctx bs s = Some (s1\<lparr>fbc := b\<rparr>) \<and> term_ok (s1\<lparr>fbc := b\<rparr>) \<and> drawn b \<and> pictured b \<and>
     text_of b = text_of (fbc s1)"
proof -
  have "drawn (fbc s1)" by (rule drawn_same [OF same term_ok_parts(4) [OF ok] d])
  from flush_pictured [OF ok this] obtain b where "flanterm_flush s1 = Some (s1\<lparr>fbc := b\<rparr>)" "term_ok (s1\<lparr>fbc := b\<rparr>)"
    "drawn b" "pictured b" "text_of b = text_of (fbc s1)" by blast
  then show ?thesis using run auto by (auto simp: flanterm_write_ctx_def)
qed

text \<open>
  C14 Round trip of a position: the sequence that gives the cell \<open>(x, y)\<close> in decimal, counted from 1,
  moves the cursor exactly there, changes no character, and leaves the parser between characters.
\<close>

theorem terminal_cursor_position:
  fixes s :: "('w::len) word flanterm_context"
  assumes ok: "term_ok s" and d: "drawn (fbc s)" and idle: "idle s" and auto: "autoflush s"
    and x: "x < cols (fbc s)" and y: "y < rows (fbc s)" and w: "31 \<le> LENGTH('w)"
  shows "\<exists>s'. flanterm_write_ctx ([27, 91] @ render 10 (y + 1) @ [59] @ render 10 (x + 1) @ [72]) s = Some s' \<and>
     flanterm_fb_get_cursor_pos (fbc s') = (x, y) \<and>
     text_of (fbc s') = (text_of (fbc s))\<lparr>tx_x := x, tx_y := y\<rparr> \<and>
     idle s' \<and> term_ok s' \<and> drawn (fbc s') \<and> pictured (fbc s')"
proof -
  from position_run [OF ok idle x y w] obtain off k vs where
    run: "for_each flanterm_putchar ([27, 91] @ render 10 (y + 1) @ [59] @ render 10 (x + 1) @ [72]) s
        = Some (after_csi s off k vs ((fbc s)\<lparr>cursor_x := x, cursor_y := y\<rparr>))"
      "length vs = length (esc_values s)" "k \<le> length vs" by blast
  let ?s = "after_csi s off k vs ((fbc s)\<lparr>cursor_x := x, cursor_y := y\<rparr>)"
  have ok1: "term_ok ?s" using ok run(2,3) by (intro after_csi_ok) (simp_all add: term_ok_parts)
  have same: "picture_same (fbc s) (fbc ?s)" by (simp add: picture_same_def)
  have "autoflush ?s" using auto by simp
  from write_sequence [OF d run(1) ok1 same this] obtain b where
    b: "flanterm_write_ctx ([27, 91] @ render 10 (y + 1) @ [59] @ render 10 (x + 1) @ [72]) s = Some (?s\<lparr>fbc := b\<rparr>)"
      "term_ok (?s\<lparr>fbc := b\<rparr>)" "drawn b" "pictured b" "text_of b = text_of (fbc ?s)" by blast
  have t: "text_of b = (text_of (fbc s))\<lparr>tx_x := x, tx_y := y\<rparr>" using b(5) by (simp add: text_of_def)
  have "flanterm_fb_get_cursor_pos b = (x, y)"
    using get_pos_text [OF term_ok_parts(2) [OF b(2)]] t x y by (simp add: text_pos_def)
  moreover have "idle (?s\<lparr>fbc := b\<rparr>)" using after_csi_idle [OF idle, of off k vs b] by (simp add: after_csi_def)
  ultimately show ?thesis using b t by auto
qed

text \<open>
  C16 The sequence of the command \<open>clear\<close> of the shell, from any position: every cell is blank in the
  current colours, the cursor is in the corner, and the framebuffer shows that.
\<close>

theorem terminal_clear_screen:
  fixes s :: "('w::len) word flanterm_context"
  assumes ok: "term_ok s" and d: "drawn (fbc s)" and idle: "idle s" and auto: "autoflush s" and w: "2 \<le> LENGTH('w)"
  shows "\<exists>s'. flanterm_write_ctx [27, 91, 50, 74, 27, 91, 72] s = Some s' \<and>
     text_of (fbc s') = text_clear True (text_of (fbc s)) \<and>
     idle s' \<and> term_ok s' \<and> drawn (fbc s') \<and> pictured (fbc s')"
proof -
  from erase_run [OF ok idle w] obtain o1 k1 v1 b1 where
    r1: "for_each flanterm_putchar [27, 91, 50, 74] s = Some (after_csi s o1 k1 v1 b1)"
      "length v1 = length (esc_values s)" "k1 \<le> length v1" "screen_ok b1" "fixed (fbc s) b1"
      "text_of b1 = text_clear False (text_of (fbc s))" by blast
  let ?s1 = "after_csi s o1 k1 v1 b1"
  have ok1: "term_ok ?s1" by (rule after_csi_ok [OF ok r1(4,2,3)])
  from home_run [OF ok1 after_csi_idle [OF idle]] obtain o2 k2 v2 where
    r2: "for_each flanterm_putchar [27, 91, 72] ?s1 = Some (after_csi ?s1 o2 k2 v2 (b1\<lparr>cursor_x := 0, cursor_y := 0\<rparr>))"
      "length v2 = length v1" "k2 \<le> length v2" by auto
  let ?s2 = "after_csi ?s1 o2 k2 v2 (b1\<lparr>cursor_x := 0, cursor_y := 0\<rparr>)"
  have ok2: "term_ok ?s2" using r1(4) r2(2,3) by (intro after_csi_ok [OF ok1]) simp_all
  have same: "picture_same (fbc s) (fbc ?s2)" using r1(5) by (simp add: picture_same_def fixed_def)
  have "for_each flanterm_putchar ([27, 91, 50, 74] @ [27, 91, 72]) s = Some ?s2"
    unfolding for_each_append r1(1) using r2(1) by simp
  then have run: "for_each flanterm_putchar [27, 91, 50, 74, 27, 91, 72] s = Some ?s2" by simp
  have "autoflush ?s2" using auto by simp
  from write_sequence [OF d run ok2 same this] obtain b where
    b: "flanterm_write_ctx [27, 91, 50, 74, 27, 91, 72] s = Some (?s2\<lparr>fbc := b\<rparr>)"
      "term_ok (?s2\<lparr>fbc := b\<rparr>)" "drawn b" "pictured b" "text_of b = text_of (fbc ?s2)" by blast
  have "text_of b = (text_of b1)\<lparr>tx_x := 0, tx_y := 0\<rparr>" using b(5) by (simp add: text_of_def)
  then have "text_of b = text_clear True (text_of (fbc s))" using r1(6) by (simp add: text_clear_def)
  moreover have "idle (?s2\<lparr>fbc := b\<rparr>)"
    using after_csi_idle [OF idle, of o2 k2 v2 b] by (simp add: after_csi_def)
  ultimately show ?thesis using b by auto
qed

lemma demo_idle:
  assumes "demo s"
  shows "idle s"
  using assms by (simp add: demo_def fresh_def idle_def)

theorem terminal_cursor_position_witness:
  "\<exists>s s'. demo s \<and> flanterm_write_ctx [27, 91, 51, 59, 49, 50, 72] s = Some s' \<and> flanterm_fb_get_cursor_pos (fbc s') = (11, 2)"
proof -
  obtain s where s: "demo s" using demo_exists by blast
  have r: "render 10 (2 + 1) = [51]" "render 10 (11 + 1) = [49, 50]"
    by (simp_all add: render_def digits_def digits_le_step hex_digits_def)
  have "\<exists>s'. flanterm_write_ctx ([27, 91] @ render 10 (2 + 1) @ [59] @ render 10 (11 + 1) @ [72]) s = Some s' \<and>
      flanterm_fb_get_cursor_pos (fbc s') = (11, 2)"
    using terminal_cursor_position [OF demo_state(1,2) [OF s] demo_idle [OF s] demo_state(4) [OF s], of 11 2] demo_state(5,6) [OF s]
    by auto
  then show ?thesis unfolding r using s by auto
qed

theorem terminal_clear_screen_witness:
  "\<exists>s s'. demo s \<and> flanterm_write_ctx [27, 91, 50, 74, 27, 91, 72] s = Some s' \<and> pictured (fbc s') \<and>
     text_of (fbc s') = text_clear True (text_of (fbc s))"
proof -
  obtain s where s: "demo s" using demo_exists by blast
  show ?thesis
    using terminal_clear_screen [OF demo_state(1,2) [OF s] demo_idle [OF s] demo_state(4) [OF s]] s by auto
qed

end
