(* ===== verification/TerminalUnicode.thy ===== *)
theory TerminalUnicode
  imports TerminalCorrect
begin

text \<open>
  UTF-8: the bytes of a code point are put together again, and the terminal shows the glyph of the
  font for it, or a replacement of the width of the character.
\<close>

definition utf8 :: "u64 \<Rightarrow> bytes" where
  "utf8 cp =
     (if cp < 0x80 then [ucast cp]
      else if cp < 0x800 then [0xC0 OR ucast (drop_bit 6 cp), 0x80 OR ucast (take_bit 6 cp)]
      else if cp < 0x10000 then
        [0xE0 OR ucast (drop_bit 12 cp), 0x80 OR ucast (take_bit 6 (drop_bit 6 cp)), 0x80 OR ucast (take_bit 6 cp)]
      else
        [0xF0 OR ucast (drop_bit 18 cp), 0x80 OR ucast (take_bit 6 (drop_bit 12 cp)),
         0x80 OR ucast (take_bit 6 (drop_bit 6 cp)), 0x80 OR ucast (take_bit 6 cp)])"

lemma continuation:
  fixes w :: u64
  shows "(0x80 OR ucast (take_bit 6 w) :: u8) AND 0xC0 = 0x80"
    and "ucast ((0x80 OR ucast (take_bit 6 w) :: u8) AND 0x3F) = take_bit 6 w"
proof -
  have m: "(0x3F :: u8) = mask 6" by (simp add: mask_eq_exp_minus_1)
  show "(0x80 OR ucast (take_bit 6 w) :: u8) AND 0xC0 = 0x80"
  proof (rule bit_eqI)
    fix n assume "possible_bit TYPE(u8) n"
    then have "n < 8" by simp
    then have "n \<in> {0, 1, 2, 3, 4, 5, 6, 7}" by auto
    then show "bit ((0x80 OR ucast (take_bit 6 w) :: u8) AND 0xC0) n = bit (0x80 :: u8) n"
      by (auto simp: bit_simps)
  qed
  show "ucast ((0x80 OR ucast (take_bit 6 w) :: u8) AND 0x3F) = take_bit 6 w"
  proof (rule bit_eqI)
    fix n assume n: "possible_bit TYPE(u64) n"
    show "bit (ucast ((0x80 OR ucast (take_bit 6 w) :: u8) AND 0x3F) :: u64) n = bit (take_bit 6 w) n"
    proof (cases "n < 6")
      case True
      then have "n \<in> {0, 1, 2, 3, 4, 5}" by auto
      then show ?thesis by (auto simp: bit_simps)
    next
      case False
      then show ?thesis unfolding m by (auto simp: bit_simps)
    qed
  qed
qed

lemma join_bits:
  fixes w :: u64
  shows "push_bit m (drop_bit m w) OR take_bit m w = w"
    and "push_bit (m + k) (drop_bit (m + k) w) OR push_bit m (take_bit k (drop_bit m w)) = push_bit m (drop_bit m w)"
proof -
  show "push_bit m (drop_bit m w) OR take_bit m w = w" by (rule bit_eqI) (auto simp: bit_simps)
  show "push_bit (m + k) (drop_bit (m + k) w) OR push_bit m (take_bit k (drop_bit m w)) = push_bit m (drop_bit m w)"
  proof (rule bit_eqI)
    fix n
    show "bit (push_bit (m + k) (drop_bit (m + k) w) OR push_bit m (take_bit k (drop_bit m w))) n = bit (push_bit m (drop_bit m w)) n"
      by (cases "m + k \<le> n") (auto simp: bit_simps)
  qed
qed

text \<open>The first byte.\<close>

lemma lead_table:
  "\<forall>k<32. utf8_lead (0xC0 OR word_of_nat k) = Some (1, push_bit 6 (word_of_nat k))"
  "\<forall>k<16. utf8_lead (0xE0 OR word_of_nat k) = Some (2, push_bit 12 (word_of_nat k))"
  "\<forall>k<8. utf8_lead (0xF0 OR word_of_nat k) = Some (3, push_bit 18 (word_of_nat k))"
  by code_simp+

lemma lead_range: "utf8_lead c = Some r \<Longrightarrow> c \<noteq> 0x18 \<and> c \<noteq> 0x1A"
  by (auto simp: utf8_lead_def split: if_splits)

lemma lead_byte:
  fixes x :: u64
  shows "x < 0x20 \<Longrightarrow> utf8_lead (0xC0 OR ucast x) = Some (1, push_bit 6 x)"
    and "x < 0x10 \<Longrightarrow> utf8_lead (0xE0 OR ucast x) = Some (2, push_bit 12 x)"
    and "x < 0x08 \<Longrightarrow> utf8_lead (0xF0 OR ucast x) = Some (3, push_bit 18 x)"
proof -
  obtain k where k: "x = word_of_nat k" "k < 2 ^ 64"
    by (rule that [of "unat x"]) (use unsigned_less [of x] in simp_all)
  show "x < 0x20 \<Longrightarrow> utf8_lead (0xC0 OR ucast x) = Some (1, push_bit 6 x)"
    using lead_table(1) k by (simp add: word_less_nat_alt unat_of_nat unsigned_of_nat take_bit_nat_eq_self)
  show "x < 0x10 \<Longrightarrow> utf8_lead (0xE0 OR ucast x) = Some (2, push_bit 12 x)"
    using lead_table(2) k by (simp add: word_less_nat_alt unat_of_nat unsigned_of_nat take_bit_nat_eq_self)
  show "x < 0x08 \<Longrightarrow> utf8_lead (0xF0 OR ucast x) = Some (3, push_bit 18 x)"
    using lead_table(3) k by (simp add: word_less_nat_alt unat_of_nat unsigned_of_nat take_bit_nat_eq_self)
qed

lemma lead_step:
  fixes s :: "('w::len) word flanterm_context"
  assumes "ground s" and "utf8_lead c = Some (n, p)"
  shows "flanterm_putchar c s = Some (s\<lparr>unicode_remaining := n, code_point := p\<rparr>)"
  using assms lead_range [OF assms(2)] by (simp add: flanterm_putchar_def start_byte_def ground_def)

lemma next_step:
  fixes s :: "('w::len) word flanterm_context" and w :: u64
  assumes "\<not> discard_next s" and n: "unicode_remaining s = Suc n"
  shows "flanterm_putchar (0x80 OR ucast (take_bit 6 w)) s =
     (let s1 = s\<lparr>unicode_remaining := n, code_point := code_point s OR push_bit (6 * n) (take_bit 6 w)\<rparr>
      in if n \<noteq> 0 then Some s1 else print_code_point s1)"
proof -
  let ?c = "0x80 OR ucast (take_bit 6 w) :: u8"
  have "bit ?c 7" by (simp add: bit_simps)
  moreover have "\<not> bit (0x18 :: u8) 7" "\<not> bit (0x1A :: u8) 7" by simp_all
  ultimately have "?c \<noteq> 0x18" "?c \<noteq> 0x1A" by metis+
  then show ?thesis using assms continuation by (simp add: flanterm_putchar_def Let_def)
qed

lemma utf8_run:
  fixes s :: "('w::len) word flanterm_context"
  assumes g: "ground s" and cp: "0x80 \<le> cp" "cp < 0x200000"
  shows "for_each flanterm_putchar (utf8 cp) s = print_code_point (s\<lparr>unicode_remaining := 0, code_point := cp\<rparr>)"
proof -
  have nd: "\<not> discard_next s" using g by (simp add: ground_def)
  have big: "\<not> cp < 0x80" using cp(1) by simp
  have last: "Option.bind r (for_each flanterm_putchar []) = r" for r :: "'w word flanterm_context option"
    by (cases r) simp_all
  consider (two) "cp < 0x800" | (three) "\<not> cp < 0x800" "cp < 0x10000" | (four) "\<not> cp < 0x800" "\<not> cp < 0x10000" by blast
  then show ?thesis
  proof cases
    case two
    then have "drop_bit 6 cp < 0x20" by (simp add: word_less_nat_alt drop_bit_eq_div unat_div)
    note r = lead_step [OF g lead_byte(1) [OF this]]
    have "push_bit 6 (drop_bit 6 cp) OR take_bit 6 cp = cp" by (rule join_bits(1))
    then show ?thesis using two r nd big last by (simp add: utf8_def next_step)
  next
    case three
    then have "drop_bit 12 cp < 0x10" by (simp add: word_less_nat_alt drop_bit_eq_div unat_div)
    note r = lead_step [OF g lead_byte(2) [OF this]]
    have "(push_bit 12 (drop_bit 12 cp) OR push_bit 6 (take_bit 6 (drop_bit 6 cp))) OR take_bit 6 cp = cp"
      using join_bits(2) [of 6 6 cp] join_bits(1) [of 6 cp] by simp
    then show ?thesis using three r nd big last by (simp add: utf8_def next_step)
  next
    case four
    have "drop_bit 18 cp < 0x08" using cp(2) by (simp add: word_less_nat_alt drop_bit_eq_div unat_div)
    note r = lead_step [OF g lead_byte(3) [OF this]]
    have "((push_bit 18 (drop_bit 18 cp) OR push_bit 12 (take_bit 6 (drop_bit 12 cp))) OR push_bit 6 (take_bit 6 (drop_bit 6 cp)))
        OR take_bit 6 cp = cp"
      using join_bits(2) [of 12 6 cp] join_bits(2) [of 6 6 cp] join_bits(1) [of 6 cp] by simp
    then show ?thesis using four r nd big last by (simp add: utf8_def next_step)
  qed
qed

section \<open>What is shown\<close>

text \<open>
  Code page 437, the order of the glyphs in the fonts of the VGA: the code point of each of its 256
  positions, with the graphics at the positions of the control characters. A code point from
  \<open>0x80\<close> on has the glyph at its position; the non-breaking space of the last position has no case in
  the code and counts as a character the font does not have.
\<close>

definition codepage_437 :: "u64 list" where
  "codepage_437 = [
    0x0, 0x263A, 0x263B, 0x2665, 0x2666, 0x2663, 0x2660, 0x2022, 0x25D8, 0x25CB, 0x25D9, 0x2642, 0x2640,
    0x266A, 0x266B, 0x263C, 0x25BA, 0x25C4, 0x2195, 0x203C, 0xB6, 0xA7, 0x25AC, 0x21A8, 0x2191, 0x2193, 0x2192,
    0x2190, 0x221F, 0x2194, 0x25B2, 0x25BC
  ] @ map word_of_nat [0x20..<0x7F] @ [
    0x2302, 0xC7, 0xFC, 0xE9, 0xE2, 0xE4, 0xE0, 0xE5, 0xE7, 0xEA, 0xEB, 0xE8, 0xEF, 0xEE, 0xEC, 0xC4, 0xC5,
    0xC9, 0xE6, 0xC6, 0xF4, 0xF6, 0xF2, 0xFB, 0xF9, 0xFF, 0xD6, 0xDC, 0xA2, 0xA3, 0xA5, 0x20A7, 0x192, 0xE1,
    0xED, 0xF3, 0xFA, 0xF1, 0xD1, 0xAA, 0xBA, 0xBF, 0x2310, 0xAC, 0xBD, 0xBC, 0xA1, 0xAB, 0xBB, 0x2591, 0x2592,
    0x2593, 0x2502, 0x2524, 0x2561, 0x2562, 0x2556, 0x2555, 0x2563, 0x2551, 0x2557, 0x255D, 0x255C, 0x255B,
    0x2510, 0x2514, 0x2534, 0x252C, 0x251C, 0x2500, 0x253C, 0x255E, 0x255F, 0x255A, 0x2554, 0x2569, 0x2566,
    0x2560, 0x2550, 0x256C, 0x2567, 0x2568, 0x2564, 0x2565, 0x2559, 0x2558, 0x2552, 0x2553, 0x256B, 0x256A,
    0x2518, 0x250C, 0x2588, 0x2584, 0x258C, 0x2590, 0x2580, 0x3B1, 0xDF, 0x393, 0x3C0, 0x3A3, 0x3C3, 0xB5,
    0x3C4, 0x3A6, 0x398, 0x3A9, 0x3B4, 0x221E, 0x3C6, 0x3B5, 0x2229, 0x2261, 0xB1, 0x2265, 0x2264, 0x2320,
    0x2321, 0xF7, 0x2248, 0xB0, 0x2219, 0xB7, 0x221A, 0x207F, 0xB2, 0x25A0, 0xA0
  ]"

definition codepage_glyph :: "u64 \<Rightarrow> nat option" where
  "codepage_glyph cp =
     (if cp < 0x80 \<or> cp = 0xA0 then None else map_of (zip codepage_437 [0..<length codepage_437]) cp)"

lemma map_of_filter_key: "map_of (filter (\<lambda>e. P (fst e)) es) x = (if P x then map_of es x else None)"
  by (induction es) auto

lemma cp437_from_codepage:
  "cp437_table = filter (\<lambda>e. 0x80 \<le> fst e \<and> fst e \<noteq> 0xA0) (zip codepage_437 (map int [0..<length codepage_437]))"
  by code_simp

lemma glyph_position:
  assumes "0x80 \<le> cp"
  shows "unicode_to_cp437 cp = (case codepage_glyph cp of None \<Rightarrow> -1 | Some i \<Rightarrow> int i)"
proof -
  have "map_of cp437_table cp =
      (if cp \<noteq> 0xA0 then map_of (zip codepage_437 (map int [0..<length codepage_437])) cp else None)"
    unfolding cp437_from_codepage map_of_filter_key [where P = "\<lambda>c. 0x80 \<le> c \<and> c \<noteq> 0xA0"] using assms by simp
  moreover have "map_of (zip codepage_437 (map int is)) cp = map_option int (map_of (zip codepage_437 is) cp)" for "is"
    unfolding zip_map2 using map_of_map [of int "zip codepage_437 is"] by (simp add: split_def)
  ultimately have "map_of cp437_table cp = map_option int (codepage_glyph cp)"
    using assms by (simp only: codepage_glyph_def not_le [symmetric] if_False if_True simp_thms split: if_split) simp
  then show ?thesis by (simp add: unicode_to_cp437_def split: option.split)
qed

lemma codepage_length: "length codepage_437 = 256"
  by (simp add: codepage_437_def)

lemma codepage_glyph_less: "codepage_glyph cp = Some i \<Longrightarrow> i < 256"
  by (auto simp: codepage_glyph_def codepage_length split: if_splits dest!: map_of_SomeD set_zip_rightD)

text \<open>
  The reference: the glyph, or a filled box in the first cell of a character the font does not
  have and blanks in the others; nothing for one without width.
\<close>

definition char_width :: "u32 \<Rightarrow> nat" where
  "char_width u =
     (if u = 0 then 0 else if u < 32 \<or> (0x7F \<le> u \<and> u < 0xA0) then 1
      else if \<exists>e\<in>set combining. in_interval u e then 0
      else if wide_char u then 2 else 1)"

definition text_code_point :: "u64 \<Rightarrow> text_screen \<Rightarrow> text_screen" where
  "text_code_point cp t = (case codepage_glyph cp of
       Some i \<Rightarrow> text_put i t
     | None \<Rightarrow> fold text_put (replicate (char_width (ucast cp) - 1) 32)
         (if 0 < char_width (ucast cp) then text_put 0xFE t else t))"

lemma char_width: "mk_wcwidth u = Some (int (char_width u))"
  by (simp add: mk_wcwidth_eq char_width_def)

lemma edits_refl: "term_ok s \<Longrightarrow> edits s (Some s) (text_of (fbc s))"
  by (auto simp: edits_def term_ok_def intro!: exI [of _ "fbc s"])

lemma put_blanks_edits:
  fixes s :: "('w::len) word flanterm_context"
  assumes "term_ok s"
  shows "edits s (put_blanks n s) (fold text_put (replicate n 32) (text_of (fbc s)))"
proof -
  have "edits s (for_each (\<lambda>_. put 32) xs s) (fold text_put (replicate (length xs) 32) (text_of (fbc s)))" for xs :: "nat list"
    using assms
  proof (induction xs arbitrary: s)
    case Nil
    then show ?case using edits_refl by simp
  next
    case (Cons x xs)
    show ?case
      unfolding for_each.simps length_Cons replicate_Suc fold_simps(2)
    proof (rule edits_bind [where h = "fold text_put (replicate (length xs) 32)"])
      show "edits s (put 32 s) (text_put 32 (text_of (fbc s)))" using Cons.prems by (intro put_edits) simp_all
      fix b assume "term_ok (s\<lparr>fbc := b\<rparr>)" "text_of b = text_put 32 (text_of (fbc s))"
      then show "edits (s\<lparr>fbc := b\<rparr>) (for_each (\<lambda>_. put 32) xs (s\<lparr>fbc := b\<rparr>))
          (fold text_put (replicate (length xs) 32) (text_put 32 (text_of (fbc s))))"
        using Cons.IH [of "s\<lparr>fbc := b\<rparr>"] by simp
    qed (rule Cons.prems)
  qed
  from this [of "[0..<n]"] show ?thesis by (simp add: put_blanks_def)
qed

lemma code_point_edits:
  fixes s :: "('w::len) word flanterm_context"
  assumes ok: "term_ok s" and cp: "0x80 \<le> code_point s"
  shows "edits s (print_code_point s) (text_code_point (code_point s) (text_of (fbc s)))"
proof (cases "codepage_glyph (code_point s)")
  case None
  then have True: "unicode_to_cp437 (code_point s) = -1" by (simp add: glyph_position [OF cp])
  let ?w = "char_width (ucast (code_point s))"
  have "?w < 2 ^ 64" by (simp add: char_width_def)
  then have w: "nat (int ?w mod 2 ^ 64) = ?w" by simp
  have "edits s (do { s1 \<leftarrow> (if 0 < ?w then put 0xFE s else Some s); put_blanks (?w - 1) s1 })
      (fold text_put (replicate (?w - 1) 32) (if 0 < ?w then text_put 0xFE (text_of (fbc s)) else text_of (fbc s)))"
  proof (rule edits_bind [where h = "fold text_put (replicate (?w - 1) 32)"])
    show "edits s (if 0 < ?w then put 0xFE s else Some s) (if 0 < ?w then text_put 0xFE (text_of (fbc s)) else text_of (fbc s))"
      using put_edits [OF ok, of "0xFE"] edits_refl [OF ok] by simp
    fix b assume "term_ok (s\<lparr>fbc := b\<rparr>)" "text_of b = (if 0 < ?w then text_put 0xFE (text_of (fbc s)) else text_of (fbc s))"
    then show "edits (s\<lparr>fbc := b\<rparr>) (put_blanks (?w - 1) (s\<lparr>fbc := b\<rparr>))
        (fold text_put (replicate (?w - 1) 32) (if 0 < ?w then text_put 0xFE (text_of (fbc s)) else text_of (fbc s)))"
      using put_blanks_edits [of "s\<lparr>fbc := b\<rparr>" "?w - 1"] by simp
  qed (rule ok)
  then show ?thesis
    using True None
    by (simp only: print_code_point_def text_code_point_def Let_def char_width bind.bind_lunit w if_True if_False simp_thms
        option.case)
next
  case (Some i)
  then have "unicode_to_cp437 (code_point s) = int i" "i < 256" using codepage_glyph_less by (simp_all add: glyph_position [OF cp])
  then show ?thesis using Some put_edits [OF ok, of i] by (simp add: print_code_point_def text_code_point_def)
qed

section \<open>Properties\<close>

text \<open>
  C15 Round trip of UTF-8: the two, three or four bytes of a code point from \<open>0x80\<close> to \<open>0x1FFFFF\<close> are
  read back as that code point, and the write shows what the reference says for it: the glyph at its
  position in code page 437, or for any other character (and the non-breaking space) a replacement as
  wide as the character, found by the binary search of \<open>mk_wcwidth\<close> exactly where the table of
  non-spacing characters says so.
\<close>

theorem terminal_utf8:
  fixes s :: "('w::len) word flanterm_context"
  assumes ok: "term_ok s" and d: "drawn (fbc s)" and g: "ground s" and cp: "0x80 \<le> cp" "cp < 0x200000"
  shows "\<exists>b. flanterm_write_ctx (utf8 cp) s = Some (s\<lparr>code_point := cp, fbc := b\<rparr>) \<and>
     text_of b = text_code_point cp (text_of (fbc s)) \<and> (autoflush s \<longrightarrow> pictured b)"
proof -
  let ?s = "s\<lparr>unicode_remaining := 0, code_point := cp\<rparr>"
  have ok1: "term_ok ?s" using ok by simp
  have "0x80 \<le> code_point ?s" using cp(1) by simp
  from code_point_edits [OF ok1 this] obtain b1 where
    b1: "print_code_point ?s = Some (?s\<lparr>fbc := b1\<rparr>)" "screen_ok b1" "fixed (fbc s) b1"
      "text_of b1 = text_code_point cp (text_of (fbc s))" unfolding edits_def by auto
  have run: "for_each flanterm_putchar (utf8 cp) s = Some (?s\<lparr>fbc := b1\<rparr>)" using utf8_run [OF g cp] b1(1) by simp
  have eq: "?s\<lparr>fbc := b\<rparr> = s\<lparr>code_point := cp, fbc := b\<rparr>" for b using g by (cases s) (simp add: ground_def)
  have ok2: "term_ok (?s\<lparr>fbc := b1\<rparr>)" by (rule term_ok_fbc [OF ok1 b1(2)])
  have "drawn b1" by (rule drawn_same [OF fixed_picture [OF b1(3)] b1(2) d])
  then obtain b2 where "flanterm_flush (?s\<lparr>fbc := b1\<rparr>) = Some (?s\<lparr>fbc := b2\<rparr>)" "pictured b2" "text_of b2 = text_of b1"
    using flush_pictured [OF ok2] by auto
  then show ?thesis using run b1(4) eq by (cases "autoflush s") (auto simp: flanterm_write_ctx_def)
qed

text \<open>A letter of the font, at position 130.\<close>

theorem terminal_utf8_witness:
  "\<exists>s b. demo s \<and> flanterm_write_ctx [0xC3, 0xA9] s = Some (s\<lparr>code_point := 0xE9, fbc := b\<rparr>) \<and>
     text_of b = text_put 130 (text_of (fbc s))"
proof -
  obtain s where s: "demo s" using demo_exists by blast
  have u: "utf8 0xE9 = [0xC3, 0xA9]" by (simp add: utf8_def)
  have "codepage_glyph 0xE9 = Some 130" by code_simp
  then have t: "text_code_point 0xE9 = text_put 130" by (simp add: text_code_point_def fun_eq_iff)
  show ?thesis
    using terminal_utf8 [OF demo_state(1-3) [OF s], where cp = "0xE9"] s unfolding u t by auto
qed

end
