(* ===== verification/Spec2Isabelle.thy ===== *)
theory Spec2Isabelle
  imports BootCorrect GuiCorrect ProgramsCorrect SyscallCorrect SyscallIO SyscallFork ExecCorrect ElfCorrect
    Ext2 Vmm Initramfs Keyboard TerminalEscapes TerminalUnicode
begin

text \<open>
  A verified model of the kernel and the user programs of this repository.

  \<^bold>\<open>The program.\<close> A 64-bit kernel started by the Limine boot loader. It manages physical frames in a
  bitmap and four-level page tables through a direct map, keeps the files of a cpio archive (or of an
  ext2 image inside it) in memory, runs a command shell on a PS/2 keyboard and a framebuffer terminal,
  loads ELF programs into address spaces of their own, serves their system calls, and returns to the
  shell when they fault. The user programs use a small C library over the system calls.

  \<^bold>\<open>Conventions.\<close> A C object is a list of bytes of its size, a string is what precedes its first zero
  (\<open>cstr\<close>); machine integers are words, or natural numbers with \<open>size_add\<close> and \<open>size_sub\<close> where the code
  computes in \<open>size_t\<close>. Every operation is a function on an explicit state record and returns an
  option: \<open>None\<close> is undefined behaviour, a processor fault, or a call that never returns (a poll of a
  device that never answers, an endless loop). Errors the code returns are values: \<open>-1\<close>, \<open>0\<close>, \<open>False\<close>.
  Boot loader answers, linker addresses and the jump to user mode (\<open>jmp\<close>) are arguments of the
  definitions that use them. The jump of the assembly ends in \<open>iretq\<close> and does not come back to its
  caller, so that the machine's \<open>jmp\<close> is \<open>None\<close> everywhere, as in the examples; the theorems hold for every
  \<open>jmp\<close>, and a program gets back to the shell through the fault handler. Device input (scan codes, port answers) is a list in the
  state that the drivers consume; output (terminal text, port writes) is a list they extend.

  \<^bold>\<open>Shared theories.\<close>
  \<^item> \<open>Prelude\<close>: types, checked array access (\<open>rd\<close>, \<open>wr\<close>), strings, loops (\<open>for_each\<close>), the collections
    \<open>cstring_spec\<close> and others. \<open>Numbers\<close>: positional notation, the reference of every number printer.
    \<open>Endian\<close>: little-endian fields. \<open>Ports\<close>: the I/O ports. \<open>Log\<close>: messages with hand-written lengths.
  \<^item> \<open>Interfaces\<close>: the contracts between components, as locales: \<open>frame_source\<close> (interpreted by the frame
    allocator in \<open>Pmm\<close>), \<open>file_store\<close> and \<open>writable_store\<close> (by the file system in \<open>FsCorrect\<close>). \<open>UserMem\<close> has
    \<open>byte_memory\<close> (interpreted on user memory behind the page tables), \<open>ShellEnv\<close> has \<open>environment\<close>
    (interpreted on the table of environment variables).

  \<^bold>\<open>Components and their theories\<close> (sources under \<open>kernel/src/src\<close> unless a directory is given).
  \<^item> String library, \<open>kernel/src/lib/string.c\<close>: \<open>CString\<close>, one function per routine, each with its result
    on valid arguments and its failure otherwise.
  \<^item> Physical memory, first half of \<open>vmm.c\<close>: \<open>Pmm\<close> (\<open>pmm_state\<close>: bitmap, search start, highest address).
    The invariant \<open>pmm_inv\<close>, which frames are free after \<open>pmm_init\<close>, allocation and release.
  \<^item> Virtual memory, second half of \<open>vmm.c\<close>: \<open>PhysMem\<close> (bytes, stores, copies), \<open>Paging\<close> (the pure tree view of
    the tables), \<open>Vmm\<close> (record \<open>vm\<close> and the operations). \<open>as_inv\<close> says that an address space is a tree of
    owned frames; mapping, unmapping and creation are updates of the translation function, and no
    operation on one space changes another.
  \<^item> Boot archive, \<open>initramfs.c\<close>: \<open>Initramfs\<close>, with an encoder of archives the parser inverts.
  \<^item> File system, \<open>fs.c\<close>: \<open>FsTypes\<close>, \<open>Fs\<close> (operations), \<open>FsCorrect\<close> (\<open>fs_inv\<close>, reads, writes, creation, lookup),
    \<open>FsBoot\<close> (directories, \<open>fs_init\<close>). \<open>ext2.c\<close>: \<open>Ext2\<close>, over the bytes of the image.
  \<^item> Keyboard, \<open>keyboard.c\<close>: \<open>Keyboard\<close>. Serial port, \<open>serial.c\<close>: \<open>Serial\<close>. Mouse, \<open>mouse.c\<close>: \<open>Mouse\<close>.
  \<^item> System calls, \<open>syscall.c\<close>: \<open>Syscall\<close> (record \<open>kernel\<close>, every call, the dispatcher), \<open>UserMem\<close> (loads and
    stores of user memory), \<open>Space\<close>, \<open>SyscallCorrect\<close> (descriptors, runs of calls as an inductive relation),
    \<open>SyscallIO\<close> (files, lines from the keyboard, entries), \<open>SyscallFork\<close>.
  \<^item> ELF dump, \<open>elf.c\<close>, \<open>elf.h\<close>: \<open>Elf\<close>, \<open>ElfCorrect\<close>. Loader, \<open>exec.c\<close>: \<open>Exec\<close>, \<open>FrameCount\<close> (how many frames an
    operation takes), \<open>ExecExample\<close>, \<open>ExecCorrect\<close> (the loops refine an abstract
    memory image, which reads byte by byte as the program headers ask).
  \<^item> Shell, \<open>shell.c\<close>: \<open>Shell\<close> (record \<open>shell\<close>: the kernel and the static variables), \<open>ShellEnv\<close>, \<open>ShellParse\<close> (the
    tokenizer against a splitter on text), \<open>ShellRun\<close> (the line editor, the well-formedness every command
    keeps, the loop), \<open>ShellCorrect\<close> (the search for programs, whole sessions).
  \<^item> Graphics demo, \<open>gui.c\<close>: \<open>Gui\<close>, \<open>GuiCorrect\<close> (pixels inside the buffers, the run of the demo on any
    input; its loop has no exit, and its model says whether it waits for the mouse or has faulted).
  \<^item> Terminal emulator, \<open>flanterm_fb_backend.c\<close> and \<open>flanterm.c\<close>. \<open>Fb\<close> is the framebuffer back end (record
    \<open>fb_context\<close>: the grid of characters, the queue of cells to redraw with its pointer table, the pixels)
    and \<open>Flanterm\<close> the parser of bytes (record \<open>flanterm_context\<close> around it), with the palette, the widths of
    characters and the code page in \<open>Wcwidth\<close>. \<open>FbInit\<close> is the start and the end of the back end, with the
    bump allocator and the contexts in memory (a context that is released cannot be read); \<open>BuiltinFont\<close> is its font. The lemmas go from the pixels to the escape sequences:
    \<open>FbGrid\<close> has the invariant of the queue (\<open>fb_ok\<close>), \<open>FbText\<close> the terminal as a grid and a cursor
    (\<open>text_screen\<close>) that every operation of the back end implements (\<open>refines_text\<close>), \<open>FbPixels\<close> what the
    four drawing routines paint, \<open>FbFlush\<close> that a flush shows the text. \<open>FlantermSafe\<close> shows that no byte
    leaves the well-formed states (\<open>term_ok\<close>), \<open>FlantermWrite\<close> what the bytes of plain text do,
    \<open>TerminalCorrect\<close>, \<open>TerminalEscapes\<close> and \<open>TerminalUnicode\<close> what a write of text, of cursor and clearing
    sequences and of UTF-8 shows (characters against code page 437). \<open>FbInitCorrect\<close> has the terminal the kernel gets, \<open>FbMemory\<close> the return of
    memory. The structures and macros are declared in headers that are not in the repository: the
    element type of \<open>esc_values\<close> is the word type of the context (the sums of the code are modelled at the
    width of that word, so at least 32 bits), \<open>FLANTERM_MAX_ESC_VALUES\<close> is the length of the array,
    \<open>FLANTERM_OOB_OUTPUT_ONLCR\<close> the field \<open>oob_onlcr\<close>, and the sizes of the structures and the number of
    glyphs are arguments (\<open>fb_sizes\<close>). The text the kernel, the shell and the system calls print is
    the list of bytes (\<open>terminal\<close> of their states) that they pass to \<open>flanterm_write\<close>.
  \<^item> Descriptor tables, \<open>gdt.c\<close>, \<open>idt.c\<close>: \<open>Descriptors\<close>. Exceptions and returns to the kernel, \<open>isr_handler\<close> of
    \<open>idt.c\<close>, \<open>usermode_return.c\<close>: \<open>Traps\<close>.
  \<^item> Start, \<open>kernel/src/main.c\<close>, \<open>kernel.c\<close>, \<open>cpu.c\<close>: \<open>Boot\<close>, \<open>BootCorrect\<close> (from the answers of the boot loader to
    the state in which the shell runs, with the terminal \<open>flanterm_fb_init\<close> makes; it rests on the lemmas
    of the allocator, the terminal, the archive, the file system, the tables and the shell). What the headers of
    the terminal package declare is the record \<open>terminal_package\<close>. The kernel state keeps of the terminal
    whether there is one (\<open>ft_ctx\<close>) and the bytes it got.
  \<^item> User library, \<open>programs/limine_libc\<close>: \<open>Libc\<close>, \<open>LibcCorrect\<close>. Programs, \<open>programs/*.c\<close> and the start stub:
    \<open>Programs\<close>, \<open>ProgramsCorrect\<close> (what they print through the library, the system calls and the kernel).

  \<^bold>\<open>Bounds and fuel.\<close> Loops over arrays recurse on their index with a measure; loops that may not end are
  partial functions whose equation is the code's loop, and theorems that they return are stated as
  such. \<open>user_string\<close> reads with the size of the address space as fuel. The tables have the sizes of the
  code: 32 files and a pool of 64 KiB, the first 16 files of an archive (of a larger archive, as the shipped one is, the files
  that fit are kept, \<open>kept_files\<close>), 16 descriptors, 32 environment variables, lines of 254 and
  arguments of 63 bytes, a back buffer of 1920 by 1200 pixels, a terminal of at most 1920 by 1200 pixels in a pool of 873000 bytes. Theorems about logs suppose that the
  serial port answers often enough and that four bytes follow every literal (some lengths are too
  large by one or two).

  \<^bold>\<open>Not modelled.\<close>
  \<^item> \<open>programs/limine_libc.c\<close>: an older copy of the user library that is not compiled; its \<open>printf\<close> reads its
    arguments at addresses C leaves undefined. \<open>programs/limine_libc/string.c\<close>: five routines of \<open>string.c\<close> again.
  \<^item> The assembly stubs: register saving, \<open>iretq\<close>, table loading. A program runs as a sequence of system
    calls and accesses to its memory.
  \<^item> The serial messages of \<open>vmm.c\<close>, \<open>initramfs.c\<close>, \<open>fs.c\<close>, \<open>ext2.c\<close>, \<open>syscall.c\<close> and \<open>exec.c\<close>; the messages of
    \<open>main.c\<close>, \<open>kernel.c\<close>, \<open>gdt.c\<close>, \<open>idt.c\<close>, \<open>cpu.c\<close> and \<open>usermode_return.c\<close> are modelled.
  \<^item> Interrupts between the steps of an operation: only the gates of the two faults are present, and the
    drivers poll their devices.
\<close>

end
